(* ===== verification/Prelude.thy ===== *)
theory Prelude
  imports Complex_Main "HOL-Library.Multiset" "HOL-Library.Signed_Division" "HOL-Library.Word"
begin

text \<open>
  Shared vocabulary of the development.

  Go's \<open>time.Time\<close> and \<open>time.Duration\<close> are integers counting nanoseconds; a call of
  \<open>time.Now()\<close> in the source is the argument \<open>now\<close> of the model. Go maps are Isabelle maps;
  a \<open>range\<close> over a Go map visits the keys in an order the runtime picks, so an operation that
  ranges over a map takes that order as a list of keys, and \<open>map_order\<close> says which lists
  are possible. Go's integer division truncates, which is \<open>sdiv\<close>.
\<close>

section \<open>Time\<close>

type_synonym time = int
type_synonym duration = int

type_synonym uint64 = "64 word"

text \<open>The zero value of \<open>time.Time\<close>, January 1 of year 1, counted from the Unix epoch.\<close>

definition zero_time :: time where "zero_time = - 62135596800000000000"

abbreviation millisecond :: duration where "millisecond \<equiv> 1000000"
abbreviation second :: duration where "second \<equiv> 1000000000"
abbreviation minute :: duration where "minute \<equiv> 60000000000"
abbreviation hour :: duration where "hour \<equiv> 3600000000000"

section \<open>Collections of facts\<close>

named_theorems go_defs \<open>definitions of straight-line operations, unfolded together\<close>
named_theorems frame \<open>fields an operation leaves alone\<close>

section \<open>Go maps and their iteration order\<close>

definition map_order :: "'k list \<Rightarrow> ('k \<rightharpoonup> 'v) \<Rightarrow> bool" where
  "map_order ks m \<longleftrightarrow> distinct ks \<and> set ks = dom m"

lemma map_order_empty [simp]: "map_order [] Map.empty"
  by (simp add: map_order_def)

lemma map_order_mem: "map_order ks m \<Longrightarrow> k \<in> set ks \<longleftrightarrow> m k \<noteq> None"
  by (auto simp: map_order_def)

lemma map_order_finite: "map_order ks m \<Longrightarrow> finite (dom m)"
  by (metis List.finite_set map_order_def)

lemma map_order_exists: "finite (dom m) \<Longrightarrow> \<exists>ks. map_order ks m"
  by (metis finite_distinct_list map_order_def)

lemma map_order_mset:
  assumes "map_order ks m" and "map_order ks' m"
  shows "mset ks = mset ks'"
  using assms by (metis map_order_def set_eq_iff_mset_eq_distinct)

lemma map_order_sum_list:
  fixes f :: "'k \<Rightarrow> 'b :: comm_monoid_add"
  assumes "map_order ks m"
  shows "sum_list (map f ks) = sum f (dom m)"
  using assms by (metis map_order_def sum_list_distinct_conv_sum_set)

section \<open>Lists\<close>

text \<open>A loop that keeps the first best element: the shape of Go's search for a maximum.\<close>

lemma foldl_invariant:
  assumes "P a" and "\<And>b x. x \<in> set xs \<Longrightarrow> P b \<Longrightarrow> P (f b x)"
  shows "P (foldl f a xs)"
  using assms by (induction xs arbitrary: a) auto

lemma sum_list_map_update:
  fixes f :: "'a \<Rightarrow> int"
  shows "i < length xs \<Longrightarrow> sum_list (map f (xs[i := x])) = sum_list (map f xs) + f x - f (xs ! i)"
  by (induction xs arbitrary: i) (auto split: nat.split)

lemma filter_key_absent: "k \<notin> f ` set xs \<Longrightarrow> filter (\<lambda>x. f x \<noteq> k) xs = xs"
  by (induction xs) auto

lemma sum_list_nonneg_le:
  fixes xs :: "int list"
  assumes "\<And>x. x \<in> set xs \<Longrightarrow> 0 \<le> x" and "x \<in> set xs"
  shows "x \<le> sum_list xs"
  using assms by (simp add: member_le_sum_list)

section \<open>Sorting with a comparison function: \<open>sort.Slice\<close>\<close>

text \<open>
  \<open>sort.Slice\<close> promises a sorted permutation and nothing about ties. The model sorts by insertion;
  where the source sorts by a total order, the result is the only sorted permutation
  (\<open>slice_sort_unique\<close>), and elsewhere properties use only what \<open>sort.Slice\<close> promises.
\<close>

fun slice_insert :: "('a \<Rightarrow> 'a \<Rightarrow> bool) \<Rightarrow> 'a \<Rightarrow> 'a list \<Rightarrow> 'a list" where
  "slice_insert lt x [] = [x]"
| "slice_insert lt x (y # ys) = (if lt y x then y # slice_insert lt x ys else x # y # ys)"

definition slice_sort :: "('a \<Rightarrow> 'a \<Rightarrow> bool) \<Rightarrow> 'a list \<Rightarrow> 'a list" where
  "slice_sort lt xs = foldr (slice_insert lt) xs []"

definition slice_sorted :: "('a \<Rightarrow> 'a \<Rightarrow> bool) \<Rightarrow> 'a list \<Rightarrow> bool" where
  "slice_sorted lt xs = sorted_wrt (\<lambda>a b. \<not> lt b a) xs"

text \<open>A strict weak order: what \<open>sort.Slice\<close> asks of the comparison.\<close>

definition weak_order :: "('a \<Rightarrow> 'a \<Rightarrow> bool) \<Rightarrow> bool" where
  "weak_order lt \<longleftrightarrow> (\<forall>a b. lt a b \<longrightarrow> \<not> lt b a) \<and> (\<forall>a b c. \<not> lt a b \<longrightarrow> \<not> lt b c \<longrightarrow> \<not> lt a c)"

lemma weak_order_key: "weak_order (\<lambda>a b. f a < (f b :: 'k :: linorder))"
  by (auto simp: weak_order_def)

lemma weak_order_asym: "weak_order lt \<Longrightarrow> lt a b \<Longrightarrow> \<not> lt b a"
  unfolding weak_order_def by blast

lemma weak_order_trans: "weak_order lt \<Longrightarrow> \<not> lt a b \<Longrightarrow> \<not> lt b c \<Longrightarrow> \<not> lt a c"
  unfolding weak_order_def by blast

lemma mset_slice_insert [simp]: "mset (slice_insert lt x ys) = add_mset x (mset ys)"
  by (induction ys) auto

lemma set_slice_insert [simp]: "set (slice_insert lt x ys) = insert x (set ys)"
  by (induction ys) auto

lemma mset_slice_sort [simp]: "mset (slice_sort lt xs) = mset xs"
  unfolding slice_sort_def by (induction xs) auto

lemma set_slice_sort [simp]: "set (slice_sort lt xs) = set xs"
  by (metis mset_slice_sort set_mset_mset)

lemma slice_sort_empty_iff [simp]: "slice_sort lt xs = [] \<longleftrightarrow> xs = []"
  by (metis mset_slice_sort mset_zero_iff)

lemma slice_sorted_insert:
  assumes "weak_order lt" and "slice_sorted lt ys"
  shows "slice_sorted lt (slice_insert lt x ys)"
  using assms(2)
proof (induction ys)
  case (Cons y ys)
  have y: "\<forall>z \<in> set ys. \<not> lt z y" "slice_sorted lt ys" using Cons.prems by (simp_all add: slice_sorted_def)
  show ?case
  proof (cases "lt y x")
    case True
    then show ?thesis
      using y Cons.IH weak_order_asym [OF assms(1) True] by (simp add: slice_sorted_def)
  next
    case False
    have "\<not> lt z x" if "z \<in> set ys" for z
      using weak_order_trans [OF assms(1), of z y x] y(1) that False by blast
    then show ?thesis using y False by (simp add: slice_sorted_def)
  qed
qed (simp add: slice_sorted_def)

lemma slice_sorted_sort: "weak_order lt \<Longrightarrow> slice_sorted lt (slice_sort lt xs)"
  unfolding slice_sort_def by (induction xs) (simp_all add: slice_sorted_insert, simp add: slice_sorted_def)

lemma slice_sort_unique:
  assumes "weak_order lt" and "slice_sorted lt xs" and "slice_sorted lt ys" and "mset xs = mset ys"
    and "\<And>a b. a \<in> set xs \<Longrightarrow> b \<in> set xs \<Longrightarrow> \<not> lt a b \<Longrightarrow> \<not> lt b a \<Longrightarrow> a = b"
  shows "xs = ys"
  using assms(2-5)
proof (induction xs arbitrary: ys)
  case (Cons x xs)
  obtain y ys' where ys: "ys = y # ys'" using Cons.prems(3) by (cases ys) auto
  have sets: "set ys = set (x # xs)" using Cons.prems(3) by (metis set_mset_mset)
  have "x = y"
  proof (rule ccontr)
    assume ne: "x \<noteq> y"
    then have "y \<in> set xs" "x \<in> set ys'" using sets ys by auto
    then have "\<not> lt y x" "\<not> lt x y" using Cons.prems(1,2) ys by (simp_all add: slice_sorted_def)
    then show False using ne Cons.prems(4) [of x y] \<open>y \<in> set xs\<close> by auto
  qed
  moreover have "xs = ys'"
    using Cons.prems ys \<open>x = y\<close> by (intro Cons.IH) (auto simp: slice_sorted_def)
  ultimately show ?case using ys by simp
qed simp

lemma slice_sort_hd:
  assumes "weak_order lt" and "y \<in> set xs"
  shows "\<not> lt y (hd (slice_sort lt xs))"
proof (cases "slice_sort lt xs")
  case Nil
  then show ?thesis using assms(2) by simp
next
  case (Cons z zs)
  have "y = z \<or> y \<in> set zs" using assms(2) Cons by (metis set_ConsD set_slice_sort)
  then show ?thesis
    using slice_sorted_sort [OF assms(1), of xs] weak_order_asym [OF assms(1)] Cons
    by (auto simp: slice_sorted_def)
qed

section \<open>Truncating division\<close>

lemma sdiv_nonneg: "0 \<le> a \<Longrightarrow> 0 < b \<Longrightarrow> a sdiv b = a div (b :: int)"
  by (cases "a = 0") (simp_all add: signed_divide_int_def)

lemma sdiv_neg: "a < 0 \<Longrightarrow> 0 < b \<Longrightarrow> a sdiv b = - ((- a) div (b :: int))"
  by (simp add: signed_divide_int_def)

lemma sdiv_mono: "a \<le> a' \<Longrightarrow> 0 < b \<Longrightarrow> a sdiv b \<le> a' sdiv (b :: int)"
proof -
  assume a: "a \<le> a'" and b: "0 < b"
  consider "0 \<le> a" | "a < 0" "0 \<le> a'" | "a' < 0" using a by linarith
  then show ?thesis
  proof cases
    case 2
    then have "a sdiv b \<le> 0" using b by (simp add: sdiv_neg pos_imp_zdiv_nonneg_iff)
    also have "0 \<le> a' sdiv b" using 2 b by (simp add: sdiv_nonneg pos_imp_zdiv_nonneg_iff)
    finally show ?thesis .
  qed (use a b in \<open>simp_all add: sdiv_nonneg sdiv_neg zdiv_mono1\<close>)
qed

lemma le_zdiv_iff: "0 < b \<Longrightarrow> c \<le> a div b \<longleftrightarrow> c * b \<le> (a :: int)"
proof
  assume b: "0 < b"
  show "c * b \<le> a" if "c \<le> a div b"
  proof -
    have "c * b \<le> a div b * b" using that b by (simp add: mult_right_mono)
    also have "\<dots> \<le> a" using b by (simp add: minus_mod_eq_div_mult [symmetric])
    finally show ?thesis .
  qed
  show "c \<le> a div b" if "c * b \<le> a"
    using zdiv_mono1 [OF that b] b by simp
qed

lemma zdiv_le_self: "0 \<le> a \<Longrightarrow> 1 \<le> b \<Longrightarrow> a div b \<le> (a :: int)"
  using zdiv_mono2 [of a 1 b] by simp

end
