(* ===== verification/Go_Strings.thy ===== *)
theory Go_Strings
  imports Prelude "HOL-Library.List_Lexorder"
begin

text \<open>
  The parts of Go's \<open>strings\<close> and \<open>strconv\<close> the program uses, on byte strings. A HOL
  \<open>char\<close> is a byte; case mapping and white space are those of ASCII. A signed 64-bit result
  is an \<open>int\<close> brought back into range by \<open>i64\<close> where the source multiplies without a check.
\<close>

definition i64 :: "int \<Rightarrow> int" where
  "i64 x = (x + 2 ^ 63) mod 2 ^ 64 - 2 ^ 63"

lemma i64_id: "- (2 ^ 63) \<le> x \<Longrightarrow> x < 2 ^ 63 \<Longrightarrow> i64 x = x"
  by (simp add: i64_def)

lemma i64_range: "- (2 ^ 63) \<le> i64 x" "i64 x < 2 ^ 63"
  by (simp_all add: i64_def)

section \<open>Searching\<close>

fun starts_with :: "string \<Rightarrow> string \<Rightarrow> bool" where
  "starts_with [] s = True"
| "starts_with (p # ps) [] = False"
| "starts_with (p # ps) (c # cs) = (p = c \<and> starts_with ps cs)"

lemma starts_with_iff: "starts_with p s \<longleftrightarrow> (\<exists>zs. s = p @ zs)"
  by (induction p s rule: starts_with.induct) auto

fun contains :: "string \<Rightarrow> string \<Rightarrow> bool" where
  "contains [] p = (p = [])"
| "contains (c # cs) p = (starts_with p (c # cs) \<or> contains cs p)"

lemma contains_iff: "contains s p \<longleftrightarrow> (\<exists>xs ys. s = xs @ p @ ys)"
proof (induction s)
  case Nil
  then show ?case by simp
next
  case (Cons c cs)
  have "(\<exists>xs ys. c # cs = xs @ p @ ys) \<longleftrightarrow>
      (\<exists>ys. c # cs = p @ ys) \<or> (\<exists>xs ys. cs = xs @ p @ ys)"
    by (auto simp: Cons_eq_append_conv)
  then show ?case using Cons by (simp add: starts_with_iff)
qed

lemma contains_append: "contains s p \<Longrightarrow> contains (xs @ s @ ys) p"
  by (auto simp: contains_iff) (metis append.assoc)

text \<open>\<open>strings.LastIndex(s, c)\<close> for a one-byte pattern, cut there: what follows the last \<open>c\<close>.\<close>

definition after_last :: "char \<Rightarrow> string \<Rightarrow> string" where
  "after_last c s = rev (takeWhile (\<lambda>x. x \<noteq> c) (rev s))"

lemma after_last_no_sep: "c \<notin> set (after_last c s)"
  by (auto simp: after_last_def dest: set_takeWhileD)

lemma after_last_id:
  assumes "c \<notin> set s"
  shows "after_last c s = s"
proof -
  have "takeWhile (\<lambda>x. x \<noteq> c) (rev s) = rev s"
    using assms by (subst takeWhile_eq_all_conv) auto
  then show ?thesis by (simp only: after_last_def rev_rev_ident)
qed

lemma after_last_append: "c \<notin> set t \<Longrightarrow> after_last c (s @ c # t) = t"
  by (simp add: after_last_def takeWhile_append)

definition trim_right :: "char \<Rightarrow> string \<Rightarrow> string" where
  "trim_right c s = rev (dropWhile (\<lambda>x. x = c) (rev s))"

section \<open>Case and white space\<close>

definition lower_char :: "char \<Rightarrow> char" where
  "lower_char c = (let n = of_char c :: nat in if 65 \<le> n \<and> n \<le> 90 then char_of (n + 32) else c)"

definition to_lower :: "string \<Rightarrow> string" where
  "to_lower s = map lower_char s"

definition is_space :: "char \<Rightarrow> bool" where
  "is_space c = (let n = of_char c :: nat in n = 32 \<or> (9 \<le> n \<and> n \<le> 13))"

definition trim_space :: "string \<Rightarrow> string" where
  "trim_space s = rev (dropWhile is_space (rev (dropWhile is_space s)))"

lemma dropWhile_smaller: "\<not> p x \<Longrightarrow> length (dropWhile p xs) < Suc (length xs)"
  by (simp add: length_dropWhile_le le_imp_less_Suc)

text \<open>\<open>strings.FieldsFunc\<close>: the maximal runs of bytes that are not separators; \<open>strings.Fields\<close>.\<close>

function fields_by :: "(char \<Rightarrow> bool) \<Rightarrow> string \<Rightarrow> string list" where
  "fields_by sep s =
     (let t = dropWhile sep s
      in if t = [] then []
         else takeWhile (\<lambda>c. \<not> sep c) t # fields_by sep (dropWhile (\<lambda>c. \<not> sep c) t))"
  by pat_completeness auto
termination
proof (relation "measure (length \<circ> snd)")
  fix sep and s t :: string
  assume t: "t = dropWhile sep s" "t \<noteq> []"
  then have "\<not> sep (hd t)" using hd_dropWhile by blast
  then have "length (dropWhile (\<lambda>c. \<not> sep c) t) < length t"
    using t(2) by (cases t) (auto simp: length_dropWhile_le le_imp_less_Suc)
  also have "length t \<le> length s" unfolding t(1) by (rule length_dropWhile_le)
  finally show "((sep, dropWhile (\<lambda>c. \<not> sep c) t), (sep, s)) \<in> measure (length \<circ> snd)" by simp
qed simp

declare fields_by.simps [simp del]

definition str_fields :: "string \<Rightarrow> string list" where
  "str_fields s = fields_by is_space s"

lemma fields_by_runs: "w \<in> set (fields_by sep s) \<Longrightarrow> w \<noteq> [] \<and> (\<forall>c \<in> set w. \<not> sep c \<and> c \<in> set s)"
proof (induction sep s rule: fields_by.induct)
  case (1 sep s)
  let ?t = "dropWhile sep s"
  show ?case
  proof (cases "?t = []")
    case True
    then show ?thesis using "1.prems" by (subst (asm) fields_by.simps) simp
  next
    case False
    then have "\<not> sep (hd ?t)" using hd_dropWhile by blast
    then have h: "takeWhile (\<lambda>c. \<not> sep c) ?t \<noteq> []" using False by (cases ?t) auto
    have "w = takeWhile (\<lambda>c. \<not> sep c) ?t \<or> w \<in> set (fields_by sep (dropWhile (\<lambda>c. \<not> sep c) ?t))"
      using "1.prems" False by (simp only: fields_by.simps [of sep s] Let_def if_False) auto
    then show ?thesis
    proof
      assume "w = takeWhile (\<lambda>c. \<not> sep c) ?t"
      then show ?thesis using h by (auto dest: set_takeWhileD set_dropWhileD)
    next
      assume "w \<in> set (fields_by sep (dropWhile (\<lambda>c. \<not> sep c) ?t))"
      from "1.IH" [OF refl False this] show ?thesis by (auto dest: set_dropWhileD)
    qed
  qed
qed

section \<open>Paths: \<open>filepath.Clean\<close>, \<open>Join\<close> and \<open>Rel\<close> on Unix\<close>

definition is_slash :: "char \<Rightarrow> bool" where "is_slash c = (c = CHR ''/'')"

text \<open>One element of a path; the elements kept so far are on a stack.\<close>

definition clean_step :: "bool \<Rightarrow> string list \<Rightarrow> string \<Rightarrow> string list" where
  "clean_step rooted st c =
     (if c = ''.'' then st
      else if c = ''..'' then
        (case st of
           [] \<Rightarrow> if rooted then [] else [''..'']
         | t # ts \<Rightarrow> if t = ''..'' then ''..'' # st else ts)
      else c # st)"

definition is_rooted :: "string \<Rightarrow> bool" where "is_rooted s = starts_with ''/'' s"

definition path_comps :: "string \<Rightarrow> string list" where
  "path_comps s = rev (foldl (clean_step (is_rooted s)) [] (fields_by is_slash s))"

fun join_comps :: "string list \<Rightarrow> string" where
  "join_comps [] = []"
| "join_comps [c] = c"
| "join_comps (c # cs) = c @ CHR ''/'' # join_comps cs"

definition show_path :: "bool \<Rightarrow> string list \<Rightarrow> string" where
  "show_path rooted cs = (if rooted then ''/'' @ join_comps cs else if cs = [] then ''.'' else join_comps cs)"

definition filepath_Clean :: "string \<Rightarrow> string" where
  "filepath_Clean s = show_path (is_rooted s) (path_comps s)"

definition filepath_Join :: "string \<Rightarrow> string \<Rightarrow> string" where
  "filepath_Join a b = filepath_Clean (a @ ''/'' @ b)"

fun rel_comps :: "string list \<Rightarrow> string list \<Rightarrow> string list" where
  "rel_comps (b # bs) (t # ts) = (if b = t then rel_comps bs ts else replicate (length (b # bs)) ''..'' @ t # ts)"
| "rel_comps bs ts = replicate (length bs) ''..'' @ ts"

text \<open>\<open>Rel\<close> of two absolute paths, which never fails.\<close>

definition filepath_Rel :: "string \<Rightarrow> string \<Rightarrow> string" where
  "filepath_Rel base target = show_path False (rel_comps (path_comps base) (path_comps target))"

lemma starts_with_append: "starts_with p (p @ s)"
  by (simp add: starts_with_iff)

lemma dots_join_comps [simp]: "starts_with ''..'' (join_comps (''..'' # cs))"
  by (cases cs) (simp_all add: starts_with_iff)

lemma dots_replicate: "bs \<noteq> [] \<Longrightarrow> starts_with ''..'' (join_comps (replicate (length bs) ''..''))"
  by (cases bs) (simp_all del: join_comps.simps)

lemma rel_comps_inside:
  "\<not> starts_with ''..'' (show_path False (rel_comps bs ts)) \<Longrightarrow> \<exists>rest. ts = bs @ rest"
proof (induction bs ts rule: rel_comps.induct)
  case (1 b bs t ts)
  then show ?case by (cases "b = t") (simp_all add: show_path_def del: join_comps.simps)
qed (auto simp: show_path_def dots_replicate split: if_splits)

lemma filepath_Rel_inside:
  "\<not> starts_with ''..'' (filepath_Rel base target) \<Longrightarrow> \<exists>rest. path_comps target = path_comps base @ rest"
  by (simp add: filepath_Rel_def rel_comps_inside)

section \<open>Comparing strings: byte by byte\<close>

fun string_less :: "string \<Rightarrow> string \<Rightarrow> bool" where
  "string_less s [] = False"
| "string_less [] (c # cs) = True"
| "string_less (a # as) (b # bs) = ((of_char a :: nat) < of_char b \<or> a = b \<and> string_less as bs)"

definition string_key :: "string \<Rightarrow> nat list" where
  "string_key s = map of_char s"

lemma string_key_inj: "string_key s = string_key t \<longleftrightarrow> s = t"
  by (auto simp: string_key_def inj_map_eq_map inj_def)

lemma string_less_iff: "string_less s t \<longleftrightarrow> string_key s < string_key t"
  by (induction s t rule: string_less.induct) (auto simp: string_key_def)

lemma string_less_total: "\<not> string_less s t \<Longrightarrow> \<not> string_less t s \<Longrightarrow> s = t"
  by (metis string_less_iff string_key_inj linorder_less_linear)

lemma weak_order_string_less: "weak_order string_less"
proof -
  have eq: "string_less = (\<lambda>s t. string_key s < string_key t)" by (intro ext) (rule string_less_iff)
  show ?thesis unfolding eq by (rule weak_order_key)
qed

section \<open>Parsing integers: \<open>strconv.ParseInt(s, 10, 64)\<close>\<close>

definition digit_val :: "char \<Rightarrow> int option" where
  "digit_val c = (let n = of_char c :: nat in if 48 \<le> n \<and> n \<le> 57 then Some (int n - 48) else None)"

fun parse_digits :: "int \<Rightarrow> string \<Rightarrow> int option" where
  "parse_digits acc [] = Some acc"
| "parse_digits acc (c # cs) =
     (case digit_val c of None \<Rightarrow> None | Some d \<Rightarrow> parse_digits (acc * 10 + d) cs)"

definition parse_unsigned :: "string \<Rightarrow> int option" where
  "parse_unsigned s = (if s = [] then None else parse_digits 0 s)"

definition parse_int :: "string \<Rightarrow> int option" where
  "parse_int s =
     (let v = (case s of [] \<Rightarrow> None
                | c # cs \<Rightarrow> if c = CHR ''-'' then map_option uminus (parse_unsigned cs)
                            else if c = CHR ''+'' then parse_unsigned cs
                            else parse_unsigned s)
      in case v of None \<Rightarrow> None
         | Some x \<Rightarrow> if - (2 ^ 63) \<le> x \<and> x < 2 ^ 63 then Some x else None)"

lemma parse_int_range: "parse_int s = Some x \<Longrightarrow> - (2 ^ 63) \<le> x \<and> x < 2 ^ 63"
  by (auto simp: parse_int_def Let_def split: option.splits if_splits)

text \<open>\<open>fmt.Sprintf("%d", n)\<close> for a number that is not negative.\<close>

fun show_nat :: "nat \<Rightarrow> string" where
  "show_nat n = (if n < 10 then [char_of (n + 48)] else show_nat (n div 10) @ [char_of (n mod 10 + 48)])"

declare show_nat.simps [simp del]

definition show_int :: "int \<Rightarrow> string" where
  "show_int n = (if n < 0 then ''-'' @ show_nat (nat (- n)) else show_nat (nat n))"

text \<open>\<open>strings.Join\<close>.\<close>

fun join_with :: "string \<Rightarrow> string list \<Rightarrow> string" where
  "join_with sep [] = []"
| "join_with sep [x] = x"
| "join_with sep (x # xs) = x @ sep @ join_with sep xs"

lemma contains_join: "x \<in> set xs \<Longrightarrow> contains (join_with sep xs) x"
proof (induction sep xs rule: join_with.induct)
  case (3 sep y z zs)
  show ?case
  proof (cases "x = y")
    case True
    then show ?thesis by (auto simp: contains_iff intro: exI [of _ "[]"])
  next
    case False
    then have "contains (join_with sep (z # zs)) x" using 3 by simp
    then show ?thesis using contains_append [of _ x "y @ sep" "[]"] by simp
  qed
qed (auto simp: contains_iff intro: exI [of _ "[]"])

text \<open>What is shown in decimal is read back.\<close>

lemma digit_val_char: "k < 10 \<Longrightarrow> digit_val (char_of (k + 48)) = Some (int k)"
  by (simp add: digit_val_def Let_def)

lemma parse_digits_append:
  "parse_digits acc (xs @ ys) = (case parse_digits acc xs of None \<Rightarrow> None | Some a \<Rightarrow> parse_digits a ys)"
  by (induction xs arbitrary: acc) (auto split: option.split)

lemma parse_show_nat: "parse_digits 0 (show_nat n) = Some (int n)"
proof (induction n rule: show_nat.induct)
  case (1 n)
  show ?case
  proof (cases "n < 10")
    case True
    then show ?thesis by (subst show_nat.simps) (simp add: digit_val_char)
  next
    case False
    have "int (n div 10) * 10 + int (n mod 10) = int n" by presburger
    then show ?thesis using False "1.IH" [OF False]
      by (subst show_nat.simps) (simp only: if_False parse_digits_append option.case parse_digits.simps digit_val_char
          mod_less_divisor zero_less_numeral)
  qed
qed

lemma show_nat_digits: "c \<in> set (show_nat n) \<Longrightarrow> \<exists>k < 10. c = char_of (k + 48 :: nat)"
proof (induction n rule: show_nat.induct)
  case (1 n)
  then show ?case
    by (cases "n < 10") (auto simp: show_nat.simps [of n] intro: exI [of _ "n mod 10"])
qed

lemma show_nat_not_empty: "show_nat n \<noteq> []"
  by (subst show_nat.simps) simp

lemma show_nat_digit_val:
  assumes "c \<in> set (show_nat n)"
  shows "digit_val c \<noteq> None"
proof -
  obtain k where "k < 10" and c: "c = char_of (k + 48 :: nat)" using show_nat_digits [OF assms] by blast
  then show ?thesis unfolding c by (simp only: digit_val_char) simp
qed

lemma show_nat_not_space:
  assumes "c \<in> set (show_nat n)"
  shows "\<not> is_space c"
proof -
  obtain k where "k < 10" and c: "c = char_of (k + 48 :: nat)" using show_nat_digits [OF assms] by blast
  then show ?thesis by (simp add: is_space_def Let_def)
qed

end
