(* ===== verification/Sched_Classifier.thy ===== *)
theory Sched_Classifier
  imports Go_Strings
begin

text \<open>
  \<open>internal/scheduler/classifier.go\<close> and the priority bands of \<open>priority.go\<close>: what a
  submitted command needs. The classifier is a pure function of the command and the hints.
\<close>

type_synonym node_id = string
type_synonym TaskPriority = int

definition PriorityCritical :: TaskPriority where "PriorityCritical = 100"
definition PriorityHigh :: TaskPriority where "PriorityHigh = 75"
definition PriorityNormal :: TaskPriority where "PriorityNormal = 50"
definition PriorityBackground :: TaskPriority where "PriorityBackground = 25"

lemmas priority_defs = PriorityCritical_def PriorityHigh_def PriorityNormal_def PriorityBackground_def

datatype TaskClass = ClassShell | ClassLLM | ClassGPU | ClassIO | ClassCPU

fun TaskClass_string :: "TaskClass \<Rightarrow> string" where
  "TaskClass_string ClassShell = ''shell''"
| "TaskClass_string ClassLLM = ''llm''"
| "TaskClass_string ClassGPU = ''gpu''"
| "TaskClass_string ClassIO = ''io''"
| "TaskClass_string ClassCPU = ''cpu''"

record TaskRequirements =
  Class :: TaskClass
  MinRAMBytes :: int
  PrefersGPU :: bool
  RequiresGPU :: bool
  EstimatedSecs :: int
  Priority :: TaskPriority
  AllowedNodes :: "node_id list"
  PreferredNodes :: "node_id list"

abbreviation MB :: int where "MB \<equiv> 1048576"
abbreviation GB :: int where "GB \<equiv> 1073741824"

section \<open>Detection\<close>

definition isLLMCommand :: "string \<Rightarrow> bool" where
  "isLLMCommand cmd = list_ex (contains cmd)
     [''ollama run'', ''ollama chat'', ''llm '', ''llama'', ''mistral'', ''gemma'']"

definition isGPUCommand :: "string \<Rightarrow> bool" where
  "isGPUCommand cmd = list_ex (contains cmd)
     [''stable diffusion'', ''stable_diffusion'', ''sdxl'', ''flux'', ''comfyui'', ''a1111'', ''txt2img'']"

definition isCPUIntensive :: "string \<Rightarrow> bool" where
  "isCPUIntensive cmd = list_ex (contains cmd)
     [''go build'', ''gcc'', ''make '', ''cargo build'', ''ffmpeg'', ''python3 train'']"

text \<open>
  \<open>ioPattern\<close> is the regular expression \<open>\b(cp|mv|...)\b\<close>: one of the names, not preceded and
  not followed by a word byte. \<open>find_word\<close> walks the string with the previous byte's class.
\<close>

definition is_word_char :: "char \<Rightarrow> bool" where
  "is_word_char c = (let n = of_char c :: nat
     in (48 \<le> n \<and> n \<le> 57) \<or> (65 \<le> n \<and> n \<le> 90) \<or> (97 \<le> n \<and> n \<le> 122) \<or> n = 95)"

definition word_here :: "string list \<Rightarrow> string \<Rightarrow> bool" where
  "word_here ws s = list_ex (\<lambda>w. starts_with w s \<and>
     (case drop (length w) s of [] \<Rightarrow> True | c # _ \<Rightarrow> \<not> is_word_char c)) ws"

fun find_word :: "string list \<Rightarrow> bool \<Rightarrow> string \<Rightarrow> bool" where
  "find_word ws prev [] = False"
| "find_word ws prev (c # cs) =
     ((\<not> prev \<and> word_here ws (c # cs)) \<or> find_word ws (is_word_char c) cs)"

definition isIOBound :: "string \<Rightarrow> bool" where
  "isIOBound cmd = find_word
     [''cp'', ''mv'', ''rsync'', ''wget'', ''curl'', ''tar'', ''zip'', ''unzip'', ''scp''] False cmd"

definition estimateLLMRAM :: "string \<Rightarrow> int" where
  "estimateLLMRAM cmd =
     (if contains cmd ''405b'' then 240 * GB
      else if contains cmd ''70b'' then 40 * GB
      else if contains cmd ''34b'' then 20 * GB
      else if contains cmd ''13b'' then 8 * GB
      else if contains cmd ''8b'' \<or> contains cmd ''7b'' then 5 * GB
      else if contains cmd ''3b'' then 2 * GB
      else 4 * GB)"

definition parsePriority :: "string \<Rightarrow> TaskPriority" where
  "parsePriority s =
     (let t = to_lower (trim_space s)
      in if t = ''critical'' then PriorityCritical
         else if t = ''high'' then PriorityHigh
         else if t = ''background'' \<or> t = ''low'' then PriorityBackground
         else PriorityNormal)"

text \<open>The product wraps as Go's \<open>int64\<close> multiplication does.\<close>

definition parseMB :: "string \<Rightarrow> int" where
  "parseMB s =
     (case parse_int (trim_space s) of
        None \<Rightarrow> 256 * MB
      | Some v \<Rightarrow> if v \<le> 0 then 256 * MB else i64 (i64 (v * 1024) * 1024))"

section \<open>Classification\<close>

definition default_reqs :: TaskRequirements where
  "default_reqs = \<lparr>Class = ClassShell, MinRAMBytes = 256 * MB, PrefersGPU = False, RequiresGPU = False,
     EstimatedSecs = 30, Priority = PriorityNormal, AllowedNodes = [], PreferredNodes = []\<rparr>"

definition apply_hints :: "(string \<rightharpoonup> string) \<Rightarrow> TaskRequirements \<Rightarrow> TaskRequirements" where
  "apply_hints hints req =
     (let req = (case hints ''priority'' of None \<Rightarrow> req | Some v \<Rightarrow> req\<lparr>Priority := parsePriority v\<rparr>);
          req = (case hints ''min_ram_mb'' of None \<Rightarrow> req | Some v \<Rightarrow> req\<lparr>MinRAMBytes := parseMB v\<rparr>)
      in (case hints ''node'' of None \<Rightarrow> req | Some v \<Rightarrow> req\<lparr>AllowedNodes := [v]\<rparr>))"

definition Classify :: "string \<Rightarrow> (string \<rightharpoonup> string) \<Rightarrow> TaskRequirements" where
  "Classify cmd hints =
     (let req = default_reqs; lower = to_lower cmd
      in if isLLMCommand lower then
           req\<lparr>Class := ClassLLM, MinRAMBytes := estimateLLMRAM cmd, PrefersGPU := True,
               EstimatedSecs := 120, Priority := PriorityHigh\<rparr>
         else if isGPUCommand lower then
           req\<lparr>Class := ClassGPU, RequiresGPU := True, MinRAMBytes := 6 * GB,
               EstimatedSecs := 60, Priority := PriorityNormal\<rparr>
         else if isCPUIntensive lower then
           req\<lparr>Class := ClassCPU, MinRAMBytes := 1 * GB, EstimatedSecs := 300,
               Priority := PriorityNormal\<rparr>
         else if isIOBound lower then
           req\<lparr>Class := ClassIO, MinRAMBytes := 128 * MB, EstimatedSecs := 60\<rparr>
         else apply_hints hints req)"

section \<open>Properties\<close>

lemma parsePriority_cases:
  "parsePriority s \<in> {PriorityCritical, PriorityHigh, PriorityNormal, PriorityBackground}"
  by (simp add: parsePriority_def Let_def)

lemma estimateLLMRAM_pos: "2 * GB \<le> estimateLLMRAM cmd"
  by (simp add: estimateLLMRAM_def)

lemma hints_priority:
  "Priority (apply_hints hints r) = (case hints ''priority'' of None \<Rightarrow> Priority r | Some v \<Rightarrow> parsePriority v)"
  by (auto simp: apply_hints_def Let_def split: option.splits)

lemma hints_ram:
  "MinRAMBytes (apply_hints hints r) = (case hints ''min_ram_mb'' of None \<Rightarrow> MinRAMBytes r | Some v \<Rightarrow> parseMB v)"
  by (auto simp: apply_hints_def Let_def split: option.splits)

lemma hints_class [simp]: "Class (apply_hints hints r) = Class r"
  by (auto simp: apply_hints_def Let_def split: option.splits)

lemma hints_gpu [simp]: "RequiresGPU (apply_hints hints r) = RequiresGPU r"
  by (auto simp: apply_hints_def Let_def split: option.splits)

lemma Classify_cases:
  obtains
    (LLM) "isLLMCommand (to_lower cmd)" "Class (Classify cmd hints) = ClassLLM"
      "Priority (Classify cmd hints) = PriorityHigh" "MinRAMBytes (Classify cmd hints) = estimateLLMRAM cmd"
      "\<not> RequiresGPU (Classify cmd hints)"
  | (GPU) "Class (Classify cmd hints) = ClassGPU" "Priority (Classify cmd hints) = PriorityNormal"
      "MinRAMBytes (Classify cmd hints) = 6 * GB" "RequiresGPU (Classify cmd hints)"
  | (CPU) "Class (Classify cmd hints) = ClassCPU" "Priority (Classify cmd hints) = PriorityNormal"
      "MinRAMBytes (Classify cmd hints) = 1 * GB" "\<not> RequiresGPU (Classify cmd hints)"
  | (IO) "Class (Classify cmd hints) = ClassIO" "Priority (Classify cmd hints) = PriorityNormal"
      "MinRAMBytes (Classify cmd hints) = 128 * MB" "\<not> RequiresGPU (Classify cmd hints)"
  | (Shell) "Class (Classify cmd hints) = ClassShell" "Classify cmd hints = apply_hints hints default_reqs"
      "\<not> RequiresGPU (Classify cmd hints)"
proof -
  note d = Classify_def Let_def default_reqs_def
  show ?thesis
  proof (cases "isLLMCommand (to_lower cmd)")
    case True
    then show ?thesis by (intro LLM) (simp_all add: d)
  next
    case n1: False
    show ?thesis
    proof (cases "isGPUCommand (to_lower cmd)")
      case True
      then show ?thesis using n1 by (intro GPU) (simp_all add: d)
    next
      case n2: False
      show ?thesis
      proof (cases "isCPUIntensive (to_lower cmd)")
        case True
        then show ?thesis using n1 n2 by (intro CPU) (simp_all add: d)
      next
        case n3: False
        show ?thesis
        proof (cases "isIOBound (to_lower cmd)")
          case True
          then show ?thesis using n1 n2 n3 by (intro IO) (simp_all add: d)
        next
          case False
          then show ?thesis using n1 n2 n3 by (intro Shell) (simp_all add: d)
        qed
      qed
    qed
  qed
qed

text \<open>
  The memory a class asks for. A hint is multiplied without an overflow check, so a hint of
  \<open>2 ^ 43\<close> megabytes or more leaves the range.
\<close>

lemma parseMB_pos:
  assumes "\<And>v. parse_int (trim_space s) = Some v \<Longrightarrow> v < 2 ^ 43"
  shows "0 < parseMB s"
proof (cases "parse_int (trim_space s)")
  case None
  then show ?thesis by (simp add: parseMB_def)
next
  case (Some v)
  show ?thesis
  proof (cases "v \<le> 0")
    case True
    then show ?thesis using Some by (simp add: parseMB_def)
  next
    case False
    have "v < 2 ^ 43" using assms Some by blast
    then have "i64 (v * 1024) = v * 1024" "i64 (v * 1024 * 1024) = v * 1024 * 1024"
      using False by (auto intro!: i64_id)
    then show ?thesis using Some False by (simp add: parseMB_def)
  qed
qed

end
