(* ===== verification/Sched_Scorer.thy ===== *)
theory Sched_Scorer
  imports Sched_Classifier Complex_Main
begin

text \<open>
  \<open>internal/scheduler/scorer.go\<close>: the score of a node for a task and the choice of the best
  node. \<open>float64\<close> arithmetic is modelled by exact real arithmetic and \<open>math.Exp\<close> by
  \<open>exp\<close>; RAM sizes are integers whose difference is taken to fit in 64 bits. \<open>time.Now()\<close> is
  the argument \<open>now\<close>.
\<close>

record ScoringWeights =
  w_RAM :: real
  w_CPU :: real
  w_Latency :: real
  w_Affinity :: real
  w_Health :: real

definition DefaultWeights :: ScoringWeights where
  "DefaultWeights = \<lparr>w_RAM = 30 / 100, w_CPU = 20 / 100, w_Latency = 25 / 100,
     w_Affinity = 15 / 100, w_Health = 10 / 100\<rparr>"

record NodeSnapshot =
  ns_NodeID :: node_id
  ns_FreeRAMBytes :: int
  ns_TotalRAMBytes :: int
  ns_CPUIdlePct :: real
  ns_LatencyP50Ms :: real
  ns_LatencyP95Ms :: real
  ns_GPUVRAMFree :: int
  ns_HasGPU :: bool
  ns_LoadedModels :: "string list"
  ns_InFlightTasks :: int
  ns_HealthScore :: real
  ns_IsOnEthernet :: bool
  ns_LastSeenAt :: time

definition maxInFlightPerNode :: int where "maxInFlightPerNode = 8"

definition isEligible :: "time \<Rightarrow> NodeSnapshot \<Rightarrow> TaskRequirements \<Rightarrow> bool" where
  "isEligible now node reqs =
     (if ns_FreeRAMBytes node < MinRAMBytes reqs then False
      else if RequiresGPU reqs \<and> \<not> ns_HasGPU node then False
      else if RequiresGPU reqs \<and> ns_GPUVRAMFree node < MinRAMBytes reqs then False
      else if AllowedNodes reqs \<noteq> [] \<and> ns_NodeID node \<notin> set (AllowedNodes reqs) then False
      else if now - ns_LastSeenAt node > 15 * second then False
      else if ns_InFlightTasks node \<ge> maxInFlightPerNode then False
      else True)"

definition scoreRAM :: "NodeSnapshot \<Rightarrow> TaskRequirements \<Rightarrow> real" where
  "scoreRAM node reqs =
     (if ns_TotalRAMBytes node = 0 then 0
      else let afterTaskFree = of_int (ns_FreeRAMBytes node - MinRAMBytes reqs) / of_int (ns_TotalRAMBytes node)
           in if afterTaskFree < 0 then 0
              else 1 / (1 + exp (- 10 * (afterTaskFree - 3 / 10))))"

definition scoreCPU :: "NodeSnapshot \<Rightarrow> real" where
  "scoreCPU node =
     (let idle = ns_CPUIdlePct node / 100;
          idle = (if idle < 0 then 0 else idle);
          idle = (if idle > 1 then 1 else idle)
      in if idle < 2 / 10 then idle * (5 / 10) else idle)"

definition scoreLatency :: "NodeSnapshot \<Rightarrow> TaskRequirements \<Rightarrow> real" where
  "scoreLatency node reqs =
     (let p50 = ns_LatencyP50Ms node
      in if p50 = 0 then 1
         else let multiplier = (if Class reqs = ClassLLM \<or> Class reqs = ClassGPU then 15 / 10 else 1)
              in max 0 (min 1 (exp (- (2 / 100) * p50 * multiplier))))"

text \<open>The two nested loops over the loaded models and the preferred nodes.\<close>

definition model_match :: "NodeSnapshot \<Rightarrow> string list \<Rightarrow> bool" where
  "model_match node preferred =
     list_ex (\<lambda>model. list_ex (\<lambda>p. model = p \<or> ns_NodeID node = p) preferred) (ns_LoadedModels node)"

definition scoreAffinity :: "NodeSnapshot \<Rightarrow> TaskRequirements \<Rightarrow> real" where
  "scoreAffinity node reqs =
     (let score = 5 / 10;
          score = (if Class reqs = ClassLLM
                   then let score = (if model_match node (PreferredNodes reqs) then 1 else score)
                        in if ns_HasGPU node then min 1 (score + 3 / 10) else score
                   else score);
          score = (if Class reqs = ClassGPU \<and> ns_HasGPU node then 1 else score)
      in if Class reqs = ClassCPU \<and> ns_CPUIdlePct node > 70 then min 1 (score + 2 / 10) else score)"

definition scoreHealth :: "NodeSnapshot \<Rightarrow> real" where
  "scoreHealth node = (if ns_HealthScore node < 5 / 10 then ns_HealthScore node * (5 / 10) else ns_HealthScore node)"

definition Scorer_Score :: "time \<Rightarrow> ScoringWeights \<Rightarrow> NodeSnapshot \<Rightarrow> TaskRequirements \<Rightarrow> real" where
  "Scorer_Score now w node reqs =
     (if \<not> isEligible now node reqs then - 1
      else (scoreRAM node reqs * w_RAM w + scoreCPU node * w_CPU w + scoreLatency node reqs * w_Latency w +
            scoreAffinity node reqs * w_Affinity w + scoreHealth node * w_Health w) * 100)"

text \<open>The loop of \<open>BestNode\<close>: \<open>best\<close> and \<open>bestScore\<close> so far, then the rest of the list.\<close>

fun BestNode_loop :: "time \<Rightarrow> ScoringWeights \<Rightarrow> TaskRequirements \<Rightarrow> NodeSnapshot option \<Rightarrow> real
    \<Rightarrow> NodeSnapshot list \<Rightarrow> NodeSnapshot option" where
  "BestNode_loop now w reqs best bestScore [] = best"
| "BestNode_loop now w reqs best bestScore (n # ns) =
     (if Scorer_Score now w n reqs > bestScore
      then BestNode_loop now w reqs (Some n) (Scorer_Score now w n reqs) ns
      else BestNode_loop now w reqs best bestScore ns)"

definition BestNode :: "time \<Rightarrow> ScoringWeights \<Rightarrow> NodeSnapshot list \<Rightarrow> TaskRequirements \<Rightarrow> NodeSnapshot option" where
  "BestNode now w nodes reqs = BestNode_loop now w reqs None (- 1) nodes"

section \<open>Each factor lies between 0 and 1\<close>

lemma sigmoid_unit: "0 < 1 / (1 + exp (x :: real)) \<and> 1 / (1 + exp x) < 1"
  by (simp add: add_pos_pos field_simps)

lemma scoreRAM_unit: "0 \<le> scoreRAM node reqs" "scoreRAM node reqs \<le> 1"
  using sigmoid_unit by (auto simp: scoreRAM_def Let_def less_imp_le)

lemma scoreCPU_unit: "0 \<le> scoreCPU node" "scoreCPU node \<le> 1"
  by (auto simp: scoreCPU_def Let_def)

lemma scoreLatency_unit: "0 \<le> scoreLatency node reqs" "scoreLatency node reqs \<le> 1"
  by (auto simp: scoreLatency_def Let_def)

lemma scoreAffinity_unit: "5 / 10 \<le> scoreAffinity node reqs" "scoreAffinity node reqs \<le> 1"
  by (auto simp: scoreAffinity_def Let_def)

lemma scoreHealth_unit:
  assumes "0 \<le> ns_HealthScore node" and "ns_HealthScore node \<le> 1"
  shows "0 \<le> scoreHealth node" "scoreHealth node \<le> 1"
  using assms by (auto simp: scoreHealth_def)

text \<open>The documented contract of the weights: none is negative and they sum to 1.\<close>

definition weights_ok :: "ScoringWeights \<Rightarrow> bool" where
  "weights_ok w \<longleftrightarrow> 0 \<le> w_RAM w \<and> 0 \<le> w_CPU w \<and> 0 \<le> w_Latency w \<and> 0 \<le> w_Affinity w \<and> 0 \<le> w_Health w \<and>
     w_RAM w + w_CPU w + w_Latency w + w_Affinity w + w_Health w = 1"

lemma DefaultWeights_ok: "weights_ok DefaultWeights"
  by (simp add: weights_ok_def DefaultWeights_def)

lemma weighted_unit:
  fixes a b :: real
  assumes "0 \<le> a" "a \<le> 1" "0 \<le> b"
  shows "0 \<le> a * b \<and> a * b \<le> b"
  using assms by (simp add: mult_left_le_one_le)

lemma Score_ineligible: "\<not> isEligible now node reqs \<Longrightarrow> Scorer_Score now w node reqs = - 1"
  by (simp add: Scorer_Score_def)

lemma Score_eligible:
  assumes "weights_ok w" "0 \<le> ns_HealthScore node" "ns_HealthScore node \<le> 1" "isEligible now node reqs"
  shows "0 \<le> Scorer_Score now w node reqs \<and> Scorer_Score now w node reqs \<le> 100"
proof -
  have w: "0 \<le> w_RAM w" "0 \<le> w_CPU w" "0 \<le> w_Latency w" "0 \<le> w_Affinity w" "0 \<le> w_Health w"
    "w_RAM w + w_CPU w + w_Latency w + w_Affinity w + w_Health w = 1"
    using assms(1) by (simp_all add: weights_ok_def)
  have a: "0 \<le> scoreAffinity node reqs" using scoreAffinity_unit(1) [of node reqs] by simp
  show ?thesis
    using weighted_unit [OF scoreRAM_unit w(1), of node reqs] weighted_unit [OF scoreCPU_unit w(2), of node]
      weighted_unit [OF scoreLatency_unit w(3), of node reqs]
      weighted_unit [OF a scoreAffinity_unit(2) w(4)]
      weighted_unit [OF scoreHealth_unit [OF assms(2,3)] w(5)] w(6) assms(4)
    by (simp add: Scorer_Score_def)
qed


section \<open>The range of a score\<close>

definition sample_node :: "string \<Rightarrow> int \<Rightarrow> real \<Rightarrow> NodeSnapshot" where
  "sample_node n ram latency = \<lparr>ns_NodeID = n, ns_FreeRAMBytes = ram * GB, ns_TotalRAMBytes = 32 * GB,
     ns_CPUIdlePct = 90, ns_LatencyP50Ms = latency, ns_LatencyP95Ms = latency, ns_GPUVRAMFree = 0,
     ns_HasGPU = False, ns_LoadedModels = [], ns_InFlightTasks = 0, ns_HealthScore = 1,
     ns_IsOnEthernet = True, ns_LastSeenAt = 0\<rparr>"

text \<open>
  With weights that sum to 1 and a health score from the outcome recorder (between 0 and 1), a
  node that fails a hard requirement scores -1 and every other node scores between 0 and 100, so
  an ineligible node never ties with an eligible one.
\<close>

theorem Score_range:
  assumes "weights_ok w" and "0 \<le> ns_HealthScore node" and "ns_HealthScore node \<le> 1"
  shows "(if isEligible now node reqs
          then 0 \<le> Scorer_Score now w node reqs \<and> Scorer_Score now w node reqs \<le> 100
          else Scorer_Score now w node reqs = - 1)"
  using Score_eligible [OF assms] by (simp add: Score_ineligible)

theorem Score_range_witness:
  "0 \<le> Scorer_Score 0 DefaultWeights (sample_node ''a'' 16 1) default_reqs \<and>
   Scorer_Score 0 DefaultWeights (sample_node ''a'' 0 1) default_reqs = - 1"
  using Score_range [OF DefaultWeights_ok, of "sample_node ''a'' 16 1" 0 default_reqs]
    Score_range [OF DefaultWeights_ok, of "sample_node ''a'' 0 1" 0 default_reqs]
  by (simp add: sample_node_def isEligible_def default_reqs_def maxInFlightPerNode_def)

section \<open>A better node never scores lower\<close>

lemma scoreRAM_mono:
  assumes "0 < ns_TotalRAMBytes node" "ns_TotalRAMBytes node' = ns_TotalRAMBytes node"
    and "ns_FreeRAMBytes node \<le> ns_FreeRAMBytes node'"
  shows "scoreRAM node reqs \<le> scoreRAM node' reqs"
proof -
  define x y :: real where
    "x = of_int (ns_FreeRAMBytes node - MinRAMBytes reqs) / of_int (ns_TotalRAMBytes node)" and
    "y = of_int (ns_FreeRAMBytes node' - MinRAMBytes reqs) / of_int (ns_TotalRAMBytes node)"
  have xy: "x \<le> y"
    using assms(1,3) by (simp add: x_def y_def divide_right_mono del: of_int_diff)
  have "1 / (1 + exp (- 10 * (x - 3 / 10))) \<le> 1 / (1 + exp (- 10 * (y - 3 / 10)))"
    using xy by (intro divide_left_mono) (auto simp: add_pos_pos)
  then show ?thesis
    using xy assms(1,2) scoreRAM_unit(1) [of node' reqs]
    by (auto simp: scoreRAM_def Let_def x_def [symmetric] y_def [symmetric] simp del: of_int_diff)
qed

lemma scoreCPU_mono: "ns_CPUIdlePct node \<le> ns_CPUIdlePct node' \<Longrightarrow> scoreCPU node \<le> scoreCPU node'"
  by (auto simp: scoreCPU_def Let_def)

lemma scoreLatency_formula:
  "scoreLatency node reqs =
     min 1 (exp (- (2 / 100) * ns_LatencyP50Ms node * (if Class reqs = ClassLLM \<or> Class reqs = ClassGPU then 15 / 10 else 1)))"
  by (auto simp: scoreLatency_def Let_def)

lemma scoreLatency_mono:
  "ns_LatencyP50Ms node' \<le> ns_LatencyP50Ms node \<Longrightarrow> scoreLatency node reqs \<le> scoreLatency node' reqs"
  unfolding scoreLatency_formula by (intro min.mono order_refl) auto

lemma scoreHealth_mono:
  "0 \<le> ns_HealthScore node \<Longrightarrow> ns_HealthScore node \<le> ns_HealthScore node' \<Longrightarrow> scoreHealth node \<le> scoreHealth node'"
  by (auto simp: scoreHealth_def)

lemma scoreAffinity_mono:
  "ns_CPUIdlePct node \<le> ns_CPUIdlePct node' \<Longrightarrow> ns_HasGPU node' = ns_HasGPU node \<Longrightarrow>
   ns_LoadedModels node' = ns_LoadedModels node \<Longrightarrow> ns_NodeID node' = ns_NodeID node \<Longrightarrow>
   scoreAffinity node reqs \<le> scoreAffinity node' reqs"
  by (auto simp: scoreAffinity_def Let_def model_match_def)

text \<open>\<open>node'\<close> is \<open>node\<close> with more free RAM, idle CPU and health, less latency and load.\<close>

definition node_improves :: "NodeSnapshot \<Rightarrow> NodeSnapshot \<Rightarrow> bool" where
  "node_improves node node' \<longleftrightarrow>
     ns_NodeID node' = ns_NodeID node \<and> ns_TotalRAMBytes node' = ns_TotalRAMBytes node \<and>
     ns_HasGPU node' = ns_HasGPU node \<and> ns_LoadedModels node' = ns_LoadedModels node \<and>
     ns_FreeRAMBytes node \<le> ns_FreeRAMBytes node' \<and> ns_GPUVRAMFree node \<le> ns_GPUVRAMFree node' \<and>
     ns_CPUIdlePct node \<le> ns_CPUIdlePct node' \<and> ns_LatencyP50Ms node' \<le> ns_LatencyP50Ms node \<and>
     ns_HealthScore node \<le> ns_HealthScore node' \<and> ns_InFlightTasks node' \<le> ns_InFlightTasks node \<and>
     ns_LastSeenAt node \<le> ns_LastSeenAt node'"

lemma isEligible_improves: "node_improves node node' \<Longrightarrow> isEligible now node reqs \<Longrightarrow> isEligible now node' reqs"
  by (auto simp: node_improves_def isEligible_def split: if_splits)

text \<open>
  A node that gains free RAM, idle CPU or health, or loses latency or load, keeps its
  eligibility and its score never drops, for every task class.
\<close>

theorem Score_monotone:
  assumes "weights_ok w" and "node_improves node node'" and "0 < ns_TotalRAMBytes node"
    and "0 \<le> ns_HealthScore node" and "ns_HealthScore node' \<le> 1"
  shows "Scorer_Score now w node reqs \<le> Scorer_Score now w node' reqs"
proof (cases "isEligible now node reqs")
  case True
  have w: "0 \<le> w_RAM w" "0 \<le> w_CPU w" "0 \<le> w_Latency w" "0 \<le> w_Affinity w" "0 \<le> w_Health w"
    using assms(1) by (simp_all add: weights_ok_def)
  have i: "scoreRAM node reqs \<le> scoreRAM node' reqs" "scoreCPU node \<le> scoreCPU node'"
    "scoreLatency node reqs \<le> scoreLatency node' reqs" "scoreAffinity node reqs \<le> scoreAffinity node' reqs"
    "scoreHealth node \<le> scoreHealth node'"
    using assms(2-4) by (simp_all add: node_improves_def scoreRAM_mono scoreCPU_mono scoreLatency_mono
        scoreAffinity_mono scoreHealth_mono)
  show ?thesis
    using i [THEN mult_right_mono] w True isEligible_improves [OF assms(2) True]
    by (simp add: Scorer_Score_def add_mono)
next
  case False
  have "0 \<le> ns_HealthScore node'" using assms(2,4) by (simp add: node_improves_def)
  then show ?thesis
    using False Score_eligible [OF assms(1) _ assms(5), of now reqs] Score_ineligible [of now node reqs w]
      Score_ineligible [of now node' reqs w]
    by (cases "isEligible now node' reqs") auto
qed

theorem Score_monotone_witness:
  "Scorer_Score 0 DefaultWeights (sample_node ''a'' 8 20) default_reqs
     \<le> Scorer_Score 0 DefaultWeights (sample_node ''a'' 16 1) default_reqs"
  by (rule Score_monotone [OF DefaultWeights_ok]) (simp_all add: node_improves_def sample_node_def)

section \<open>The best node\<close>

lemma BestNode_loop_None:
  "\<forall>n \<in> set ns. Scorer_Score now w n reqs \<le> bs \<Longrightarrow> BestNode_loop now w reqs best bs ns = best"
  by (induction ns) auto

lemma BestNode_loop_Some:
  assumes "\<exists>n \<in> set ns. bs < Scorer_Score now w n reqs"
  shows "\<exists>i < length ns. BestNode_loop now w reqs best bs ns = Some (ns ! i) \<and>
    bs < Scorer_Score now w (ns ! i) reqs \<and>
    (\<forall>n \<in> set ns. Scorer_Score now w n reqs \<le> Scorer_Score now w (ns ! i) reqs) \<and>
    (\<forall>j < i. Scorer_Score now w (ns ! j) reqs < Scorer_Score now w (ns ! i) reqs)"
  using assms
proof (induction ns arbitrary: best bs)
  case (Cons n ns)
  let ?s = "\<lambda>n. Scorer_Score now w n reqs"
  let ?bs = "if bs < ?s n then ?s n else bs" and ?best = "if bs < ?s n then Some n else best"
  have step: "BestNode_loop now w reqs best bs (n # ns) = BestNode_loop now w reqs ?best ?bs ns" by simp
  show ?case
  proof (cases "\<exists>m \<in> set ns. ?bs < ?s m")
    case True
    from Cons.IH [OF this, of ?best] obtain i where i: "i < length ns"
      "BestNode_loop now w reqs ?best ?bs ns = Some (ns ! i)" "?bs < ?s (ns ! i)"
      "\<forall>n \<in> set ns. ?s n \<le> ?s (ns ! i)" "\<forall>j < i. ?s (ns ! j) < ?s (ns ! i)" by blast
    have n: "?s n < ?s (ns ! i)" "bs < ?s (ns ! i)" using i(3) by (auto split: if_splits)
    have "\<forall>j < Suc i. ?s ((n # ns) ! j) < ?s (ns ! i)" using n i(5) by (auto simp: nth_Cons split: nat.split)
    then show ?thesis unfolding step i(2) using i n by (intro exI [of _ "Suc i"]) auto
  next
    case False
    then have n: "bs < ?s n" using Cons.prems by (auto split: if_splits)
    have all: "\<forall>m \<in> set ns. ?s m \<le> ?bs" using False by (auto simp: not_less)
    show ?thesis unfolding step BestNode_loop_None [OF all] using n all by (intro exI [of _ 0]) auto
  qed
qed simp

text \<open>
  \<open>BestNode\<close> returns nil exactly when no node is eligible; otherwise it returns an eligible
  node whose score no other node exceeds, the earliest of them, and for a pinned task one of the
  allowed nodes.
\<close>

theorem BestNode_best:
  assumes "weights_ok w" and "\<forall>n \<in> set nodes. 0 \<le> ns_HealthScore n \<and> ns_HealthScore n \<le> 1"
  shows "case BestNode now w nodes reqs of
      None \<Rightarrow> \<forall>n \<in> set nodes. \<not> isEligible now n reqs
    | Some b \<Rightarrow> isEligible now b reqs \<and> (AllowedNodes reqs = [] \<or> ns_NodeID b \<in> set (AllowedNodes reqs)) \<and>
        (\<exists>i < length nodes. b = nodes ! i \<and>
          (\<forall>n \<in> set nodes. Scorer_Score now w n reqs \<le> Scorer_Score now w b reqs) \<and>
          (\<forall>j < i. Scorer_Score now w (nodes ! j) reqs < Scorer_Score now w b reqs))"
proof (cases "\<exists>n \<in> set nodes. - 1 < Scorer_Score now w n reqs")
  case True
  from BestNode_loop_Some [OF this, of None] obtain i where i: "i < length nodes"
    "BestNode now w nodes reqs = Some (nodes ! i)" "- 1 < Scorer_Score now w (nodes ! i) reqs"
    "\<forall>n \<in> set nodes. Scorer_Score now w n reqs \<le> Scorer_Score now w (nodes ! i) reqs"
    "\<forall>j < i. Scorer_Score now w (nodes ! j) reqs < Scorer_Score now w (nodes ! i) reqs"
    unfolding BestNode_def by blast
  have e: "isEligible now (nodes ! i) reqs" using i(3) Score_ineligible [of now "nodes ! i" reqs w] by force
  then have "AllowedNodes reqs = [] \<or> ns_NodeID (nodes ! i) \<in> set (AllowedNodes reqs)"
    by (auto simp: isEligible_def split: if_splits)
  then show ?thesis using i e by auto
next
  case False
  then have "\<forall>n \<in> set nodes. Scorer_Score now w n reqs \<le> - 1" by (auto simp: not_less)
  then have "BestNode now w nodes reqs = None" unfolding BestNode_def by (rule BestNode_loop_None)
  moreover have "\<not> isEligible now n reqs" if "n \<in> set nodes" for n
    using that False assms(2) Score_eligible [OF assms(1), of n now reqs] by fastforce
  ultimately show ?thesis by simp
qed

theorem BestNode_best_witness:
  "BestNode 0 DefaultWeights [sample_node ''a'' 0 1, sample_node ''b'' 16 1] default_reqs = Some (sample_node ''b'' 16 1)"
proof -
  let ?nodes = "[sample_node ''a'' 0 1, sample_node ''b'' 16 1]"
  have ok: "\<forall>n \<in> set ?nodes. 0 \<le> ns_HealthScore n \<and> ns_HealthScore n \<le> 1" by (simp add: sample_node_def)
  have a: "\<not> isEligible 0 (sample_node ''a'' 0 1) default_reqs" "isEligible 0 (sample_node ''b'' 16 1) default_reqs"
    by (simp_all add: sample_node_def isEligible_def default_reqs_def maxInFlightPerNode_def)
  note best = BestNode_best [OF DefaultWeights_ok ok, of 0 default_reqs]
  show ?thesis
  proof (cases "BestNode 0 DefaultWeights ?nodes default_reqs")
    case None
    then have "\<forall>n \<in> set ?nodes. \<not> isEligible 0 n default_reqs" using best by (simp only: option.case)
    then show ?thesis using a(2) by simp
  next
    case (Some b)
    then have "isEligible 0 b default_reqs" "\<exists>i < length ?nodes. b = ?nodes ! i"
      using best by (simp_all only: option.case) blast
    then have "isEligible 0 b default_reqs" "b \<in> set ?nodes" by auto (auto simp: less_Suc_eq nth_Cons split: nat.splits)
    then show ?thesis using a(1) Some by auto
  qed
qed

section \<open>The documented latency table\<close>

text \<open>The comment of \<open>scoreLatency\<close> gives 0.50 at 20 ms and 0.25 at 50 ms; the formula gives more.\<close>

lemma latency_table_divergence:
  "3 / 5 \<le> scoreLatency (sample_node ''a'' 16 20) default_reqs"
  "1 / 3 \<le> scoreLatency (sample_node ''a'' 16 50) default_reqs"
proof -
  have "1 + (- (2 / 5)) \<le> exp (- (2 / 5) :: real)" by (rule exp_ge_add_one_self)
  then show "3 / 5 \<le> scoreLatency (sample_node ''a'' 16 20) default_reqs"
    by (simp add: scoreLatency_formula sample_node_def default_reqs_def)
  have "exp (- 1 :: real) = 1 / exp 1" by (simp add: exp_minus inverse_eq_divide)
  moreover have "1 / 3 \<le> 1 / exp (1 :: real)" using exp_le by (intro divide_left_mono) auto
  ultimately show "1 / 3 \<le> scoreLatency (sample_node ''a'' 16 50) default_reqs"
    by (simp add: scoreLatency_formula sample_node_def default_reqs_def)
qed

end
