(* ===== verification/Sched_Admission.thy ===== *)
theory Sched_Admission
  imports Sched_Classifier
begin

text \<open>
  \<open>internal/scheduler/admission.go\<close> and \<open>resource_limits.go\<close>. The controller's two atomic
  counters are the state; \<open>Admit\<close> reads them once each. A rejection keeps its reason as a
  value with the number the message prints. The quotient compared with the backpressure threshold
  is the real one; for a zero limit, where the source's \<open>float64\<close> quotient is minus infinity
  (the counter is negative there, or the task was rejected before), the comparison is false for
  every threshold.
\<close>

record AdmissionConfig =
  ac_MaxQueueDepth :: int
  ac_MaxInFlightTotal :: int
  ac_BackpressureThreshold :: real

definition DefaultAdmissionConfig :: AdmissionConfig where
  "DefaultAdmissionConfig =
     \<lparr>ac_MaxQueueDepth = 100, ac_MaxInFlightTotal = 40, ac_BackpressureThreshold = 7 / 10\<rparr>"

datatype admit_reason = NoReason | NodesAtCapacity int | ClusterBusy int

record AdmissionResult =
  ar_Accepted :: bool
  ar_Reason :: admit_reason
  ar_WaitEstimate :: duration
  ar_Backpressure :: bool

record AdmissionController =
  ad_cfg :: AdmissionConfig
  ad_inFlight :: int
  ad_queued :: int

definition AdmissionController_Admit :: "TaskRequirements \<Rightarrow> AdmissionController \<Rightarrow> AdmissionResult" where
  "AdmissionController_Admit reqs a =
     (let inflight = ad_inFlight a; depth = ad_queued a; maxDepth = ac_MaxQueueDepth (ad_cfg a);
          maxTotal = ac_MaxInFlightTotal (ad_cfg a)
      in if Priority reqs = PriorityCritical then
           \<lparr>ar_Accepted = True, ar_Reason = NoReason, ar_WaitEstimate = 0, ar_Backpressure = False\<rparr>
         else if inflight \<ge> maxTotal then
           \<lparr>ar_Accepted = False, ar_Reason = NodesAtCapacity inflight, ar_WaitEstimate = 0, ar_Backpressure = False\<rparr>
         else if depth \<ge> maxDepth then
           \<lparr>ar_Accepted = False, ar_Reason = ClusterBusy depth, ar_WaitEstimate = 0, ar_Backpressure = False\<rparr>
         else
           let backpressure = (maxTotal \<noteq> 0 \<and>
                 real_of_int inflight / real_of_int maxTotal > ac_BackpressureThreshold (ad_cfg a));
               waitEstimate = (if depth > 0
                 then let parallelism = (if maxTotal < 1 then 1 else maxTotal)
                      in (depth sdiv parallelism) * 30 * second
                 else 0)
           in \<lparr>ar_Accepted = True, ar_Reason = NoReason, ar_WaitEstimate = waitEstimate,
               ar_Backpressure = backpressure\<rparr>)"

definition IncrementInFlight :: "AdmissionController \<Rightarrow> AdmissionController" where
  "IncrementInFlight a = a\<lparr>ad_inFlight := ad_inFlight a + 1\<rparr>"

definition DecrementInFlight :: "AdmissionController \<Rightarrow> AdmissionController" where
  "DecrementInFlight a = a\<lparr>ad_inFlight := ad_inFlight a - 1\<rparr>"

definition IncrementQueue :: "AdmissionController \<Rightarrow> AdmissionController" where
  "IncrementQueue a = a\<lparr>ad_queued := ad_queued a + 1\<rparr>"

definition DecrementQueue :: "AdmissionController \<Rightarrow> AdmissionController" where
  "DecrementQueue a = a\<lparr>ad_queued := ad_queued a - 1\<rparr>"

definition AdmissionController_Stats :: "AdmissionController \<Rightarrow> int \<times> int" where
  "AdmissionController_Stats a = (ad_inFlight a, ad_queued a)"

text \<open>
  Admission depends on the priority and the two counters only: a task is accepted exactly if
  it is critical, or there is room both among the running tasks and in the queue; saturation of
  the running tasks is reported before a full queue; and backpressure is only ever raised on an
  accepted task.
\<close>

theorem Admit_decision:
  "(ar_Accepted (AdmissionController_Admit reqs a) \<longleftrightarrow>
      Priority reqs = PriorityCritical \<or>
      (ad_inFlight a < ac_MaxInFlightTotal (ad_cfg a) \<and> ad_queued a < ac_MaxQueueDepth (ad_cfg a))) \<and>
   (ar_Reason (AdmissionController_Admit reqs a) =
      (if ar_Accepted (AdmissionController_Admit reqs a) then NoReason
       else if ad_inFlight a < ac_MaxInFlightTotal (ad_cfg a) then ClusterBusy (ad_queued a)
       else NodesAtCapacity (ad_inFlight a))) \<and>
   \<not> (ar_Backpressure (AdmissionController_Admit reqs a) \<and> \<not> ar_Accepted (AdmissionController_Admit reqs a))"
  by (simp add: AdmissionController_Admit_def Let_def)

lemma Admit_wait_bound:
  assumes "0 \<le> ad_queued a" "1 \<le> ac_MaxInFlightTotal (ad_cfg a)"
  shows "0 \<le> ar_WaitEstimate (AdmissionController_Admit reqs a) \<and>
    ar_WaitEstimate (AdmissionController_Admit reqs a) \<le> ad_queued a * 30 * second"
proof -
  have "ad_queued a sdiv m \<le> ad_queued a" "0 \<le> ad_queued a sdiv m" if "1 \<le> m" for m
    using that assms(1) by (simp_all add: sdiv_nonneg zdiv_le_self pos_imp_zdiv_nonneg_iff)
  then show ?thesis using assms by (auto simp: AdmissionController_Admit_def Let_def)
qed

section \<open>Resource limits\<close>

record ResourceLimits =
  MaxMemoryBytes :: int
  MaxCPUSecs :: int
  MaxOpenFiles :: int
  MaxProcs :: int
  MaxFileSizeBytes :: int

definition DefaultResourceLimits :: ResourceLimits where
  "DefaultResourceLimits = \<lparr>MaxMemoryBytes = 2 * 1024 * 1024 * 1024, MaxCPUSecs = 0, MaxOpenFiles = 256,
     MaxProcs = 64, MaxFileSizeBytes = 100 * 1024 * 1024\<rparr>"

definition ResourceLimits_WithTimeout :: "duration \<Rightarrow> ResourceLimits \<Rightarrow> ResourceLimits" where
  "ResourceLimits_WithTimeout d r =
     (if MaxCPUSecs r = 0 \<and> d > 0 then r\<lparr>MaxCPUSecs := d sdiv second + 5\<rparr> else r)"

definition ResourceLimits_Filled :: "ResourceLimits \<Rightarrow> ResourceLimits" where
  "ResourceLimits_Filled r =
     (let def = DefaultResourceLimits;
          r = (if MaxMemoryBytes r \<le> 0 then r\<lparr>MaxMemoryBytes := MaxMemoryBytes def\<rparr> else r);
          r = (if MaxOpenFiles r \<le> 0 then r\<lparr>MaxOpenFiles := MaxOpenFiles def\<rparr> else r);
          r = (if MaxProcs r \<le> 0 then r\<lparr>MaxProcs := MaxProcs def\<rparr> else r)
      in if MaxFileSizeBytes r \<le> 0 then r\<lparr>MaxFileSizeBytes := MaxFileSizeBytes def\<rparr> else r)"

definition limits_positive :: "ResourceLimits \<Rightarrow> bool" where
  "limits_positive r \<longleftrightarrow> 0 < MaxMemoryBytes r \<and> 0 < MaxOpenFiles r \<and> 0 < MaxProcs r \<and> 0 < MaxFileSizeBytes r"

lemma Filled_positive: "limits_positive (ResourceLimits_Filled r)"
  by (simp add: ResourceLimits_Filled_def limits_positive_def Let_def DefaultResourceLimits_def)

lemma Filled_id: "limits_positive r \<Longrightarrow> ResourceLimits_Filled r = r"
  by (simp add: ResourceLimits_Filled_def limits_positive_def Let_def)

lemma Filled_CPU: "MaxCPUSecs (ResourceLimits_Filled r) = MaxCPUSecs r"
  by (simp add: ResourceLimits_Filled_def Let_def)

text \<open>
  Filling in a timeout and defaults leaves no resource uncapped: every limit is positive, the
  CPU limit is at least the timeout in full seconds plus the grace, limits the caller set are
  kept, and filling again changes nothing.
\<close>

theorem Filled_caps_everything:
  assumes "0 < d" and "0 \<le> MaxCPUSecs r"
  shows "limits_positive (ResourceLimits_Filled (ResourceLimits_WithTimeout d r)) \<and>
    0 < MaxCPUSecs (ResourceLimits_Filled (ResourceLimits_WithTimeout d r)) \<and>
    (MaxCPUSecs r = 0 \<longrightarrow>
       MaxCPUSecs (ResourceLimits_Filled (ResourceLimits_WithTimeout d r)) = d div second + 5) \<and>
    (limits_positive r \<and> 0 < MaxCPUSecs r \<longrightarrow> ResourceLimits_Filled (ResourceLimits_WithTimeout d r) = r) \<and>
    ResourceLimits_Filled (ResourceLimits_Filled (ResourceLimits_WithTimeout d r)) =
      ResourceLimits_Filled (ResourceLimits_WithTimeout d r)"
proof -
  have "0 \<le> d div second" using assms(1) by (simp add: pos_imp_zdiv_nonneg_iff)
  then show ?thesis
    using assms by (auto simp: Filled_positive Filled_id Filled_CPU ResourceLimits_WithTimeout_def sdiv_nonneg)
qed

theorem Filled_caps_everything_witness:
  "MaxCPUSecs (ResourceLimits_Filled (ResourceLimits_WithTimeout (5 * minute) DefaultResourceLimits)) = 305"
  using Filled_caps_everything [of "5 * minute" DefaultResourceLimits]
  by (simp add: DefaultResourceLimits_def)

end
