(* ===== verification/Container_Heap.thy ===== *)
theory Container_Heap
  imports Prelude
begin

text \<open>
  Go's \<open>container/heap\<close> over a slice, as the standard library writes it: \<open>up\<close>, \<open>down\<close>,
  \<open>Push\<close> and \<open>Pop\<close> in terms of the client's \<open>Less\<close> and \<open>Swap\<close>. The client's
  \<open>Swap\<close> may record the new position in the element (\<open>upd\<close>), as the scheduler's
  \<open>taskHeap\<close> does with its \<open>index\<close> field. The locale states what a client has to promise;
  the lemmas in it are the correctness of the heap algorithm.
\<close>

section \<open>The algorithm\<close>

definition heap_swap :: "(int \<Rightarrow> 'a \<Rightarrow> 'a) \<Rightarrow> 'a list \<Rightarrow> nat \<Rightarrow> nat \<Rightarrow> 'a list" where
  "heap_swap upd h i j = h[i := upd (int i) (h ! j), j := upd (int j) (h ! i)]"

function heap_up :: "('a \<Rightarrow> 'a \<Rightarrow> bool) \<Rightarrow> (int \<Rightarrow> 'a \<Rightarrow> 'a) \<Rightarrow> 'a list \<Rightarrow> nat \<Rightarrow> 'a list" where
  "heap_up lss upd h j =
     (let i = (j - 1) div 2
      in if i = j \<or> \<not> lss (h ! j) (h ! i) then h
         else heap_up lss upd (heap_swap upd h i j) i)"
  by pat_completeness auto
termination
  by (relation "measure (\<lambda>(less, upd, h, j). j)") auto

declare heap_up.simps [simp del]

definition heap_child :: "('a \<Rightarrow> 'a \<Rightarrow> bool) \<Rightarrow> 'a list \<Rightarrow> nat \<Rightarrow> nat \<Rightarrow> nat" where
  "heap_child lss h i n =
     (if 2 * i + 2 < n \<and> lss (h ! (2 * i + 2)) (h ! (2 * i + 1)) then 2 * i + 2 else 2 * i + 1)"

function heap_down :: "('a \<Rightarrow> 'a \<Rightarrow> bool) \<Rightarrow> (int \<Rightarrow> 'a \<Rightarrow> 'a) \<Rightarrow> 'a list \<Rightarrow> nat \<Rightarrow> nat \<Rightarrow> 'a list" where
  "heap_down lss upd h i n =
     (if 2 * i + 1 \<ge> n then h
      else let j = heap_child lss h i n
           in if \<not> lss (h ! j) (h ! i) then h
              else heap_down lss upd (heap_swap upd h i j) j n)"
  by pat_completeness auto
termination
  by (relation "measure (\<lambda>(less, upd, h, i, n). n - i)") (auto simp: heap_child_def)

declare heap_down.simps [simp del]

text \<open>\<open>heap.Push\<close>: append (the client's \<open>Push\<close> records the position), then sift up.\<close>

definition heap_Push :: "('a \<Rightarrow> 'a \<Rightarrow> bool) \<Rightarrow> (int \<Rightarrow> 'a \<Rightarrow> 'a) \<Rightarrow> 'a list \<Rightarrow> 'a \<Rightarrow> 'a list" where
  "heap_Push lss upd h x = heap_up lss upd (h @ [upd (int (length h)) x]) (length h)"

text \<open>
  \<open>heap.Pop\<close>: swap the root with the last element, sift down in the rest, remove the last
  element (the client's \<open>Pop\<close> marks it with position \<open>-1\<close>). On an empty slice Go panics.
\<close>

definition heap_Pop :: "('a \<Rightarrow> 'a \<Rightarrow> bool) \<Rightarrow> (int \<Rightarrow> 'a \<Rightarrow> 'a) \<Rightarrow> 'a list \<Rightarrow> ('a \<times> 'a list) option" where
  "heap_Pop lss upd h =
     (if h = [] then None
      else let n = length h - 1;
               h' = heap_down lss upd (heap_swap upd h 0 n) 0 n
           in Some (upd (- 1) (last h'), butlast h'))"

section \<open>What a client promises, and what it gets\<close>

locale heap_interface =
  fixes lss :: "'a \<Rightarrow> 'a \<Rightarrow> bool"
    and upd :: "int \<Rightarrow> 'a \<Rightarrow> 'a"
    and idx :: "'a \<Rightarrow> int"
  assumes less_irrefl: "\<not> lss x x"
    and less_trans: "lss x y \<Longrightarrow> lss y z \<Longrightarrow> lss x z"
    and less_incomp: "\<not> lss x y \<Longrightarrow> \<not> lss y z \<Longrightarrow> \<not> lss x z"
    and less_upd1 [simp]: "lss (upd i x) y = lss x y"
    and less_upd2 [simp]: "lss x (upd i y) = lss x y"
    and upd_upd [simp]: "upd i (upd j x) = upd i x"
    and idx_upd [simp]: "idx (upd i x) = i"
begin

definition ok_edge :: "'a list \<Rightarrow> nat \<Rightarrow> bool" where
  "ok_edge h j \<longleftrightarrow> \<not> lss (h ! j) (h ! ((j - 1) div 2))"

definition heap_ok :: "'a list \<Rightarrow> bool" where
  "heap_ok h \<longleftrightarrow> (\<forall>j < length h. 0 < j \<longrightarrow> ok_edge h j)"

definition indexed :: "'a list \<Rightarrow> bool" where
  "indexed h \<longleftrightarrow> (\<forall>j < length h. idx (h ! j) = int j)"

definition elems :: "'a list \<Rightarrow> 'a multiset" where
  "elems h = image_mset (upd 0) (mset h)"

lemma less_asym: "lss x y \<Longrightarrow> \<not> lss y x"
  using less_irrefl less_trans by blast

lemma length_swap [simp]: "length (heap_swap upd h i j) = length h"
  by (simp add: heap_swap_def)

lemma nth_swap:
  "i < length h \<Longrightarrow> j < length h \<Longrightarrow> k < length h \<Longrightarrow>
   heap_swap upd h i j ! k = (if k = j then upd (int j) (h ! i) else if k = i then upd (int i) (h ! j) else h ! k)"
  by (simp add: heap_swap_def nth_list_update)

lemma indexed_swap: "indexed h \<Longrightarrow> indexed (heap_swap upd h i j)"
  by (cases "i < length h"; cases "j < length h")
    (auto simp: indexed_def heap_swap_def nth_list_update list_update_beyond)

lemma elems_swap:
  assumes "i < length h" "j < length h"
  shows "elems (heap_swap upd h i j) = elems h"
proof -
  have "map (upd 0) (heap_swap upd h i j) = (map (upd 0) h)[i := map (upd 0) h ! j, j := map (upd 0) h ! i]"
    using assms by (simp add: heap_swap_def map_update)
  moreover have "mset ((map (upd 0) h)[i := map (upd 0) h ! j, j := map (upd 0) h ! i]) = mset (map (upd 0) h)"
    using assms by (intro mset_swap) auto
  ultimately show ?thesis by (metis elems_def mset_map)
qed

lemma up_basic:
  "j < length h \<Longrightarrow> length (heap_up lss upd h j) = length h \<and>
     elems (heap_up lss upd h j) = elems h \<and> (indexed h \<longrightarrow> indexed (heap_up lss upd h j))"
proof (induction j arbitrary: h rule: less_induct)
  case (less j)
  let ?i = "(j - 1) div 2"
  show ?case
  proof (cases "?i = j \<or> \<not> lss (h ! j) (h ! ?i)")
    case True
    then show ?thesis by (subst (1 2 3) heap_up.simps) (auto simp: Let_def)
  next
    case False
    then have lt: "?i < j" by auto
    with less.prems have "?i < length (heap_swap upd h ?i j)" by simp
    note IH = less.IH [OF lt this]
    have eq: "heap_up lss upd h j = heap_up lss upd (heap_swap upd h ?i j) ?i"
      using False by (subst heap_up.simps) (simp add: Let_def)
    show ?thesis
      using IH elems_swap [of ?i h j] indexed_swap [of h ?i j] less.prems lt by (simp add: eq)
  qed
qed

text \<open>
  Sifting up: every edge is in order except perhaps the one above \<open>j\<close>, and the children of
  \<open>j\<close> are in order with the parent of \<open>j\<close>.
\<close>

definition up_pre :: "'a list \<Rightarrow> nat \<Rightarrow> bool" where
  "up_pre h j \<longleftrightarrow> (\<forall>k < length h. 0 < k \<and> k \<noteq> j \<longrightarrow> ok_edge h k) \<and>
     (\<forall>k < length h. 0 < k \<and> (k - 1) div 2 = j \<and> 0 < j \<longrightarrow> \<not> lss (h ! k) (h ! ((j - 1) div 2)))"

lemma up_pre_swap:
  assumes pre: "up_pre h j" and j: "j < length h" "0 < j"
    and i: "i = (j - 1) div 2" and l: "lss (h ! j) (h ! i)"
  shows "up_pre (heap_swap upd h i j) i"
proof -
  let ?h = "heap_swap upd h i j"
  have ij: "i < j" "i < length h" using i j by auto
  note nth = nth_swap [OF ij(2) j(1)]
  have e: "\<And>k. k < length h \<Longrightarrow> 0 < k \<Longrightarrow> k \<noteq> j \<Longrightarrow> \<not> lss (h ! k) (h ! ((k - 1) div 2))"
    using pre by (auto simp: up_pre_def ok_edge_def)
  have c: "\<And>k. k < length h \<Longrightarrow> 0 < k \<Longrightarrow> (k - 1) div 2 = j \<Longrightarrow> \<not> lss (h ! k) (h ! i)"
    using pre j by (auto simp: up_pre_def i)
  have li: "\<not> lss (h ! i) (h ! j)" using l by (rule less_asym)
  have "\<not> lss (?h ! k) (?h ! p)" if k: "k < length h" "0 < k" "k \<noteq> i" "p = (k - 1) div 2" for k p
  proof -
    have p: "p < length h" "p < k" using k by auto
    show ?thesis
    proof (cases "k = j")
      case True
      then have "p = i" using k i by simp
      then show ?thesis using True ij j li by (simp add: nth)
    next
      case kj: False
      show ?thesis
      proof (cases "p = j")
        case True
        then show ?thesis using k kj c [OF k(1) k(2)] ij j by (simp add: nth)
      next
        case pj: False
        have "\<not> lss (h ! k) (h ! p)" using e [OF k(1) k(2) kj] k(4) by simp
        then show ?thesis
          using k kj pj p li less_incomp [of "h ! k" "h ! i" "h ! j"] by (auto simp: nth)
      qed
    qed
  qed
  moreover have "\<not> lss (?h ! k) (?h ! q)"
    if k: "k < length h" "0 < k" "(k - 1) div 2 = i" "0 < i" "q = (i - 1) div 2" for k q
  proof -
    have q: "q < i" using k by auto
    then have g: "\<not> lss (h ! i) (h ! q)" using e [of i] ij k by auto
    have gp: "?h ! q = h ! q" using q ij by (simp add: nth)
    show ?thesis
    proof (cases "k = j")
      case True
      then show ?thesis using g gp ij j by (simp add: nth)
    next
      case False
      have "k \<noteq> i" using k by auto
      moreover have "\<not> lss (h ! k) (h ! i)" using e [OF k(1) k(2) False] k by simp
      ultimately show ?thesis
        using g gp False k less_incomp [of "h ! k" "h ! i" "h ! q"] by (simp add: nth)
    qed
  qed
  ultimately show ?thesis by (simp add: up_pre_def ok_edge_def)
qed

lemma up_heap: "j < length h \<Longrightarrow> up_pre h j \<Longrightarrow> heap_ok (heap_up lss upd h j)"
proof (induction j arbitrary: h rule: less_induct)
  case (less j)
  let ?i = "(j - 1) div 2"
  show ?case
  proof (cases "?i = j \<or> \<not> lss (h ! j) (h ! ?i)")
    case True
    then have "heap_ok h"
      using less.prems less_irrefl by (auto simp: heap_ok_def up_pre_def ok_edge_def)
    then show ?thesis using True by (subst heap_up.simps) (auto simp: Let_def)
  next
    case False
    then have lt: "?i < j" by auto
    have eq: "heap_up lss upd h j = heap_up lss upd (heap_swap upd h ?i j) ?i"
      using False by (subst heap_up.simps) (simp add: Let_def)
    show ?thesis unfolding eq
      using less.IH [OF lt] up_pre_swap [OF less.prems(2) less.prems(1) _ refl] False lt less.prems by simp
  qed
qed

lemma push_basic:
  "length (heap_Push lss upd h x) = Suc (length h)"
  "elems (heap_Push lss upd h x) = add_mset (upd 0 x) (elems h)"
  "indexed h \<Longrightarrow> indexed (heap_Push lss upd h x)"
proof -
  let ?h = "h @ [upd (int (length h)) x]"
  have b: "length (heap_Push lss upd h x) = length ?h \<and> elems (heap_Push lss upd h x) = elems ?h \<and>
      (indexed ?h \<longrightarrow> indexed (heap_Push lss upd h x))"
    unfolding heap_Push_def by (rule up_basic) simp
  then show "length (heap_Push lss upd h x) = Suc (length h)" by simp
  show "elems (heap_Push lss upd h x) = add_mset (upd 0 x) (elems h)"
    using b by (simp add: elems_def)
  assume "indexed h"
  then have "indexed ?h" by (auto simp: indexed_def nth_append less_Suc_eq)
  with b show "indexed (heap_Push lss upd h x)" by simp
qed

lemma push_heap:
  assumes "heap_ok h"
  shows "heap_ok (heap_Push lss upd h x)"
proof -
  let ?h = "h @ [upd (int (length h)) x]"
  have "(k - 1) div 2 \<noteq> length h" if "k < Suc (length h)" "0 < k" for k using that by linarith
  then have "up_pre ?h (length h)"
    using assms by (auto simp: up_pre_def heap_ok_def ok_edge_def nth_append)
  then show ?thesis unfolding heap_Push_def by (intro up_heap) auto
qed

text \<open>The root of a heap is not below any element.\<close>

lemma root_max:
  assumes "heap_ok h" "j < length h"
  shows "\<not> lss (h ! j) (h ! 0)"
  using assms(2)
proof (induction j rule: less_induct)
  case (less j)
  show ?case
  proof (cases "j = 0")
    case True
    then show ?thesis using less_irrefl by simp
  next
    case False
    then have "\<not> lss (h ! j) (h ! ((j - 1) div 2))"
      using assms(1) less.prems by (simp add: heap_ok_def ok_edge_def)
    moreover have "\<not> lss (h ! ((j - 1) div 2)) (h ! 0)"
      using less.IH [of "(j - 1) div 2"] less.prems False by auto
    ultimately show ?thesis using less_incomp by blast
  qed
qed

text \<open>
  Sifting down in the first \<open>n\<close> elements: every edge is in order except perhaps the ones from
  \<open>i\<close> to its children, and those children are in order with the parent of \<open>i\<close>.
\<close>

definition heap_upto :: "'a list \<Rightarrow> nat \<Rightarrow> bool" where
  "heap_upto h n \<longleftrightarrow> (\<forall>j < n. 0 < j \<longrightarrow> ok_edge h j)"

definition down_pre :: "'a list \<Rightarrow> nat \<Rightarrow> nat \<Rightarrow> bool" where
  "down_pre h i n \<longleftrightarrow> (\<forall>k < n. 0 < k \<and> (k - 1) div 2 \<noteq> i \<longrightarrow> ok_edge h k) \<and>
     (\<forall>k < n. 0 < k \<and> (k - 1) div 2 = i \<and> 0 < i \<longrightarrow> \<not> lss (h ! k) (h ! ((i - 1) div 2)))"

lemma heap_child_cases:
  assumes "2 * i + 1 < n"
  shows "i < heap_child lss h i n" "heap_child lss h i n < n" "(heap_child lss h i n - 1) div 2 = i"
  using assms by (auto simp: heap_child_def)

lemma heap_child_max:
  assumes "2 * i + 1 < n" "k < n" "0 < k" "(k - 1) div 2 = i"
  shows "\<not> lss (h ! k) (h ! heap_child lss h i n)"
proof -
  have "k = 2 * i + 1 \<or> k = 2 * i + 2" using assms(3,4) by linarith
  then show ?thesis using assms(1,2) by (auto simp: heap_child_def less_irrefl dest: less_asym)
qed

lemma heap_down_stop:
  "2 * i + 1 \<ge> n \<or> \<not> lss (h ! heap_child lss h i n) (h ! i) \<Longrightarrow> heap_down lss upd h i n = h"
  by (subst heap_down.simps) (auto simp: Let_def)

lemma heap_down_go:
  "2 * i + 1 < n \<Longrightarrow> lss (h ! heap_child lss h i n) (h ! i) \<Longrightarrow>
   heap_down lss upd h i n =
     heap_down lss upd (heap_swap upd h i (heap_child lss h i n)) (heap_child lss h i n) n"
  by (subst heap_down.simps) (simp add: Let_def)

lemma down_basic:
  "n \<le> length h \<Longrightarrow> length (heap_down lss upd h i n) = length h \<and>
     elems (heap_down lss upd h i n) = elems h \<and> (indexed h \<longrightarrow> indexed (heap_down lss upd h i n)) \<and>
     (\<forall>k < length h. n \<le> k \<longrightarrow> heap_down lss upd h i n ! k = h ! k)"
proof (induction "n - i" arbitrary: h i rule: less_induct)
  case less
  let ?j = "heap_child lss h i n"
  show ?case
  proof (cases "2 * i + 1 < n \<and> lss (h ! ?j) (h ! i)")
    case False
    then have "heap_down lss upd h i n = h" by (intro heap_down_stop) auto
    then show ?thesis by simp
  next
    case True
    then have j: "i < ?j" "?j < n" using heap_child_cases by auto
    then have "n - ?j < n - i" by simp
    note IH = less.hyps [OF this, of "heap_swap upd h i ?j"]
    have i: "i < length h" "?j < length h" using j less.prems by auto
    have eq: "heap_down lss upd h i n = heap_down lss upd (heap_swap upd h i ?j) ?j n"
      using True by (intro heap_down_go) auto
    have "\<forall>k < length h. n \<le> k \<longrightarrow> heap_swap upd h i ?j ! k = h ! k"
      using j by (auto simp: nth_swap [OF i])
    then show ?thesis unfolding eq
      using IH less.prems elems_swap [OF i] indexed_swap [of h i ?j] by simp
  qed
qed

lemma down_pre_swap:
  assumes pre: "down_pre h i n" and n: "n \<le> length h" and c: "2 * i + 1 < n"
    and j: "j = heap_child lss h i n" and l: "lss (h ! j) (h ! i)"
  shows "down_pre (heap_swap upd h i j) j n"
proof -
  let ?h = "heap_swap upd h i j"
  have ij: "i < j" "j < n" "(j - 1) div 2 = i" using heap_child_cases [OF c] j by auto
  have len: "i < length h" "j < length h" using ij n by auto
  note nth = nth_swap [OF len]
  have e: "\<And>k. k < n \<Longrightarrow> 0 < k \<Longrightarrow> (k - 1) div 2 \<noteq> i \<Longrightarrow> \<not> lss (h ! k) (h ! ((k - 1) div 2))"
    using pre by (auto simp: down_pre_def ok_edge_def)
  have g: "\<And>k. k < n \<Longrightarrow> 0 < k \<Longrightarrow> (k - 1) div 2 = i \<Longrightarrow> 0 < i \<Longrightarrow> \<not> lss (h ! k) (h ! ((i - 1) div 2))"
    using pre by (auto simp: down_pre_def)
  have m: "\<And>k. k < n \<Longrightarrow> 0 < k \<Longrightarrow> (k - 1) div 2 = i \<Longrightarrow> \<not> lss (h ! k) (h ! j)"
    using heap_child_max [OF c] j by simp
  have li: "\<not> lss (h ! i) (h ! j)" using l by (rule less_asym)
  have "\<not> lss (?h ! k) (?h ! p)" if k: "k < n" "0 < k" "p \<noteq> j" "p = (k - 1) div 2" for k p
  proof -
    have p: "p < length h" "p < k" "k < length h" using k n by auto
    show ?thesis
    proof (cases "p = i")
      case True
      then show ?thesis using k p li m [OF k(1,2)] ij by (auto simp: nth)
    next
      case pi: False
      have "\<not> lss (h ! k) (h ! p)" using e [OF k(1,2)] k(4) pi by simp
      moreover have "k \<noteq> j" using k(4) ij(3) pi by auto
      moreover have "\<not> lss (h ! j) (h ! p)" if "k = i"
        using g [OF ij(2) _ ij(3)] ij(1) k that by simp
      ultimately show ?thesis using k p pi by (auto simp: nth)
    qed
  qed
  moreover have "\<not> lss (?h ! k) (?h ! ((j - 1) div 2))"
    if k: "k < n" "0 < k" "(k - 1) div 2 = j" for k
  proof -
    have kj: "j < k" using k by auto
    then have "\<not> lss (h ! k) (h ! j)" using e [OF k(1,2)] k(3) ij by simp
    then show ?thesis using kj k ij n by (simp only: ij(3)) (auto simp: nth)
  qed
  ultimately show ?thesis by (simp add: down_pre_def ok_edge_def)
qed

lemma down_heap: "n \<le> length h \<Longrightarrow> down_pre h i n \<Longrightarrow> heap_upto (heap_down lss upd h i n) n"
proof (induction "n - i" arbitrary: h i rule: less_induct)
  case less
  let ?j = "heap_child lss h i n"
  show ?case
  proof (cases "2 * i + 1 < n \<and> lss (h ! ?j) (h ! i)")
    case False
    have "\<not> lss (h ! k) (h ! i)" if k: "k < n" "0 < k" "(k - 1) div 2 = i" for k
    proof -
      have c: "2 * i + 1 < n" using k by linarith
      then show ?thesis using False heap_child_max [OF c k] less_incomp by blast
    qed
    then have "heap_upto h n"
      using less.prems(2) by (fastforce simp: down_pre_def heap_upto_def ok_edge_def)
    then show ?thesis using False by (subst heap_down_stop) auto
  next
    case True
    then have "n - ?j < n - i" using heap_child_cases [of i n h] by auto
    note IH = less.hyps [OF this, of "heap_swap upd h i ?j"]
    have eq: "heap_down lss upd h i n = heap_down lss upd (heap_swap upd h i ?j) ?j n"
      using True by (intro heap_down_go) auto
    show ?thesis unfolding eq
      using IH True less.prems down_pre_swap [OF less.prems(2,1) _ refl] by simp
  qed
qed

text \<open>
  \<open>Pop\<close> returns what was the root and keeps the other elements, heap or not. On a heap, no
  element is above the one it returns, and what remains is a heap.
\<close>

lemma pop_cases:
  assumes ne: "h \<noteq> []"
  obtains x h' where "heap_Pop lss upd h = Some (x, h')" "x = upd (- 1) (h ! 0)"
    "elems h = add_mset (upd 0 x) (elems h')" "Suc (length h') = length h"
    "indexed h \<longrightarrow> indexed h'" "heap_ok h \<longrightarrow> heap_ok h'"
proof -
  define n where "n = length h - 1"
  define h1 where "h1 = heap_swap upd h 0 n"
  define h2 where "h2 = heap_down lss upd h1 0 n"
  have n: "n < length h" "length h = Suc n" "0 < length h" using ne by (auto simp: n_def)
  have b: "length h2 = length h" "elems h2 = elems h" "indexed h \<longrightarrow> indexed h2"
    "\<forall>k < length h. n \<le> k \<longrightarrow> h2 ! k = h1 ! k"
    using down_basic [of n h1 0] elems_swap [OF n(3,1)] indexed_swap [of h 0 n] n
    unfolding h2_def h1_def by auto
  have up: "heap_upto h2 n" if "heap_ok h"
  proof -
    have "down_pre h1 0 n"
      using that n unfolding down_pre_def h1_def heap_ok_def by (auto simp: ok_edge_def nth_swap)
    then show ?thesis unfolding h2_def by (intro down_heap) (use n in \<open>auto simp: h1_def\<close>)
  qed
  have ne2: "h2 \<noteq> []" using b(1) n by auto
  have lst: "last h2 = upd (int n) (h ! 0)"
    using b(1,4) n by (simp add: last_conv_nth [OF ne2] h1_def nth_swap)
  have len: "length (butlast h2) = n" using b(1) n by simp
  show ?thesis
  proof
    show "heap_Pop lss upd h = Some (upd (- 1) (h ! 0), butlast h2)"
      using ne lst by (simp add: heap_Pop_def Let_def h2_def h1_def n_def)
    show "heap_ok h \<longrightarrow> heap_ok (butlast h2)"
      using up len by (auto simp: heap_ok_def heap_upto_def ok_edge_def nth_butlast)
    show "elems h = add_mset (upd 0 (upd (- 1) (h ! 0))) (elems (butlast h2))"
    proof -
      have "elems h2 = elems (butlast h2 @ [last h2])" using ne2 by simp
      then show ?thesis using b(2) lst by (simp add: elems_def)
    qed
    show "Suc (length (butlast h2)) = length h" using len n by simp
    show "indexed h \<longrightarrow> indexed (butlast h2)" using b(3) len b(1) by (auto simp: indexed_def nth_butlast)
  qed simp
qed

lemma pop_Some:
  assumes "heap_Pop lss upd h = Some (x, h')"
  shows "elems h = add_mset (upd 0 x) (elems h') \<and> Suc (length h') = length h \<and>
    (indexed h \<longrightarrow> indexed h') \<and> (heap_ok h \<longrightarrow> heap_ok h')"
proof -
  have "h \<noteq> []" using assms by (auto simp: heap_Pop_def)
  then obtain y g where p: "heap_Pop lss upd h = Some (y, g)"
    "elems h = add_mset (upd 0 y) (elems g)" "Suc (length g) = length h"
    "indexed h \<longrightarrow> indexed g" "heap_ok h \<longrightarrow> heap_ok g"
    by (rule pop_cases) blast
  from p(1) assms have "x = y" "h' = g" by simp_all
  with p(2-5) show ?thesis by simp
qed

lemma pop_max:
  assumes "heap_ok h" "heap_Pop lss upd h = Some (x, h')" "y \<in> set h"
  shows "\<not> lss y x"
proof -
  have ne: "h \<noteq> []" using assms(3) by auto
  then have "x = upd (- 1) (h ! 0)" using assms(2) pop_cases by (metis option.inject prod.inject)
  then show ?thesis using assms(1,3) root_max by (auto simp: in_set_conv_nth)
qed

lemma pop_empty: "heap_Pop lss upd [] = None"
  by (simp add: heap_Pop_def)

lemma heap_ok_Nil: "heap_ok []"
  by (simp add: heap_ok_def)

end

end
