(* ===== verification/Sched_Priority.thy ===== *)
theory Sched_Priority
  imports Sched_Classifier Container_Heap
begin

text \<open>
  \<open>internal/scheduler/priority.go\<close>: the task record of \<open>scheduler.go\<close>, queued tasks, their
  effective priority and the bounded priority queue over \<open>container/heap\<close>. The clock reading
  \<open>time.Since\<close> is the argument \<open>now\<close>. Waiting time in tens of seconds is computed in
  whole nanoseconds; the source divides a \<open>float64\<close> number of seconds and truncates.
\<close>

datatype TaskStatus = TaskPending | TaskRunning | TaskCompleted | TaskFailed | TaskCancelled

record Task =
  t_ID :: string
  t_Command :: string
  t_Env :: "string list"
  t_PreferredNode :: node_id
  t_AssignedNode :: node_id
  t_Status :: TaskStatus
  t_Output :: string
  t_Error :: string
  t_Requirements :: TaskRequirements
  t_SubmittedAt :: time
  t_StartedAt :: "time option"
  t_FinishedAt :: "time option"

record QueuedTask =
  qt_Task :: Task
  qt_Reqs :: TaskRequirements
  qt_EnqueuedAt :: time
  qt_index :: int

abbreviation qt_base :: "QueuedTask \<Rightarrow> int" where "qt_base q \<equiv> Priority (qt_Reqs q)"

section \<open>Effective priority and the heap order\<close>

definition escalation :: "time \<Rightarrow> QueuedTask \<Rightarrow> int" where
  "escalation now q = (let e = (now - qt_EnqueuedAt q) sdiv (10 * second) in if e > 25 then 25 else e)"

definition effectivePriority :: "time \<Rightarrow> QueuedTask \<Rightarrow> int" where
  "effectivePriority now q = qt_base q + escalation now q"

definition taskHeap_Less :: "time \<Rightarrow> QueuedTask \<Rightarrow> QueuedTask \<Rightarrow> bool" where
  "taskHeap_Less now a b =
     (let pa = effectivePriority now a; pb = effectivePriority now b
      in if pa \<noteq> pb then pa > pb else qt_EnqueuedAt a < qt_EnqueuedAt b)"

definition taskHeap_setIndex :: "int \<Rightarrow> QueuedTask \<Rightarrow> QueuedTask" where
  "taskHeap_setIndex i q = q\<lparr>qt_index := i\<rparr>"

section \<open>The queue\<close>

datatype QueueError = ErrQueueFull

record PriorityQueue =
  pq_heap :: "QueuedTask list"
  pq_cap :: int

definition NewPriorityQueue :: "int \<Rightarrow> PriorityQueue" where
  "NewPriorityQueue capacity = \<lparr>pq_heap = [], pq_cap = capacity\<rparr>"

definition PriorityQueue_Push :: "time \<Rightarrow> QueuedTask \<Rightarrow> PriorityQueue \<Rightarrow> QueueError + PriorityQueue" where
  "PriorityQueue_Push now qt pq =
     (if int (length (pq_heap pq)) \<ge> pq_cap pq \<and> qt_base qt < PriorityCritical then Inl ErrQueueFull
      else Inr (pq\<lparr>pq_heap := heap_Push (taskHeap_Less now) taskHeap_setIndex (pq_heap pq) qt\<rparr>))"

definition PriorityQueue_Pop :: "time \<Rightarrow> PriorityQueue \<Rightarrow> (QueuedTask \<times> PriorityQueue) option" where
  "PriorityQueue_Pop now pq =
     (case heap_Pop (taskHeap_Less now) taskHeap_setIndex (pq_heap pq) of
        None \<Rightarrow> None
      | Some (qt, h) \<Rightarrow> Some (qt, pq\<lparr>pq_heap := h\<rparr>))"

definition PriorityQueue_Len :: "PriorityQueue \<Rightarrow> nat" where
  "PriorityQueue_Len pq = length (pq_heap pq)"

section \<open>The order is a strict weak order, so the heap lemmas apply\<close>

lemma escalation_setIndex [simp]: "escalation now (taskHeap_setIndex i q) = escalation now q"
  by (simp add: escalation_def taskHeap_setIndex_def)

lemma effectivePriority_setIndex [simp]:
  "effectivePriority now (taskHeap_setIndex i q) = effectivePriority now q"
  by (simp add: effectivePriority_def) (simp add: taskHeap_setIndex_def)

lemma taskHeap_Less_iff:
  "taskHeap_Less now a b \<longleftrightarrow>
     effectivePriority now b < effectivePriority now a \<or>
     effectivePriority now a = effectivePriority now b \<and> qt_EnqueuedAt a < qt_EnqueuedAt b"
  by (auto simp: taskHeap_Less_def Let_def)

lemma setIndex_fields [simp]:
  "qt_EnqueuedAt (taskHeap_setIndex i q) = qt_EnqueuedAt q"
  "qt_Reqs (taskHeap_setIndex i q) = qt_Reqs q"
  "qt_Task (taskHeap_setIndex i q) = qt_Task q"
  "qt_index (taskHeap_setIndex i q) = i"
  "taskHeap_setIndex i (taskHeap_setIndex j q) = taskHeap_setIndex i q"
  by (simp_all add: taskHeap_setIndex_def)

interpretation th: heap_interface "taskHeap_Less now" taskHeap_setIndex qt_index for now
  by unfold_locales (auto simp: taskHeap_Less_iff)

definition taskHeap_ok :: "time \<Rightarrow> PriorityQueue \<Rightarrow> bool" where
  "taskHeap_ok now pq \<longleftrightarrow>
     (\<forall>j < length (pq_heap pq). 0 < j \<longrightarrow>
        \<not> taskHeap_Less now (pq_heap pq ! j) (pq_heap pq ! ((j - 1) div 2)))"

definition taskHeap_indexed :: "PriorityQueue \<Rightarrow> bool" where
  "taskHeap_indexed pq \<longleftrightarrow> (\<forall>j < length (pq_heap pq). qt_index (pq_heap pq ! j) = int j)"

text \<open>The tasks waiting, whatever slot of the slice they sit in.\<close>

definition pq_tasks :: "PriorityQueue \<Rightarrow> QueuedTask multiset" where
  "pq_tasks pq = image_mset (taskHeap_setIndex 0) (mset (pq_heap pq))"

lemma taskHeap_ok_iff: "taskHeap_ok now pq = th.heap_ok now (pq_heap pq)"
  by (simp add: taskHeap_ok_def th.heap_ok_def th.ok_edge_def)

lemma taskHeap_indexed_iff: "taskHeap_indexed pq = th.indexed (pq_heap pq)"
  by (simp add: taskHeap_indexed_def th.indexed_def)

lemma pq_tasks_elems: "pq_tasks pq = th.elems (pq_heap pq)"
  by (simp add: pq_tasks_def th.elems_def)

lemmas pq_abs = taskHeap_ok_iff taskHeap_indexed_iff pq_tasks_elems

section \<open>One operation\<close>

lemma Push_cases:
  assumes "PriorityQueue_Push now qt pq = Inr pq'"
  shows "pq_tasks pq' = add_mset (taskHeap_setIndex 0 qt) (pq_tasks pq)"
    and "pq_cap pq' = pq_cap pq"
    and "int (PriorityQueue_Len pq) < pq_cap pq \<or> PriorityCritical \<le> qt_base qt"
    and "PriorityQueue_Len pq' = Suc (PriorityQueue_Len pq)"
    and "taskHeap_indexed pq \<Longrightarrow> taskHeap_indexed pq'"
    and "taskHeap_ok now pq \<Longrightarrow> taskHeap_ok now pq'"
proof -
  have g: "int (PriorityQueue_Len pq) < pq_cap pq \<or> PriorityCritical \<le> qt_base qt"
    and pq': "pq' = pq\<lparr>pq_heap := heap_Push (taskHeap_Less now) taskHeap_setIndex (pq_heap pq) qt\<rparr>"
    using assms by (auto simp: PriorityQueue_Push_def PriorityQueue_Len_def split: if_splits)
  show "int (PriorityQueue_Len pq) < pq_cap pq \<or> PriorityCritical \<le> qt_base qt" by (rule g)
  show "pq_tasks pq' = add_mset (taskHeap_setIndex 0 qt) (pq_tasks pq)"
    by (simp add: pq_tasks_elems pq' th.push_basic(2))
  show "pq_cap pq' = pq_cap pq" "PriorityQueue_Len pq' = Suc (PriorityQueue_Len pq)"
    by (simp_all add: pq' PriorityQueue_Len_def th.push_basic(1))
  show "taskHeap_indexed pq \<Longrightarrow> taskHeap_indexed pq'"
    by (simp add: taskHeap_indexed_iff pq' th.push_basic(3))
  show "taskHeap_ok now pq \<Longrightarrow> taskHeap_ok now pq'"
    by (simp add: taskHeap_ok_iff pq' th.push_heap)
qed

lemma Pop_cases:
  assumes "PriorityQueue_Pop now pq = Some (qt, pq')"
  shows "pq_tasks pq = add_mset (taskHeap_setIndex 0 qt) (pq_tasks pq')"
    and "pq_cap pq' = pq_cap pq"
    and "taskHeap_indexed pq \<Longrightarrow> taskHeap_indexed pq'"
    and "taskHeap_ok now pq \<Longrightarrow> taskHeap_ok now pq'"
proof -
  obtain h where h: "heap_Pop (taskHeap_Less now) taskHeap_setIndex (pq_heap pq) = Some (qt, h)"
    and pq': "pq' = pq\<lparr>pq_heap := h\<rparr>"
    using assms by (auto simp: PriorityQueue_Pop_def split: option.splits)
  note p = th.pop_Some [OF h]
  show "pq_tasks pq = add_mset (taskHeap_setIndex 0 qt) (pq_tasks pq')"
    using p by (simp add: pq_tasks_elems pq')
  show "pq_cap pq' = pq_cap pq" by (simp add: pq')
  show "taskHeap_indexed pq \<Longrightarrow> taskHeap_indexed pq'"
    using p by (simp add: taskHeap_indexed_iff pq')
  show "taskHeap_ok now pq \<Longrightarrow> taskHeap_ok now pq'"
    using p by (simp add: taskHeap_ok_iff pq')
qed

lemma Pop_None_iff: "PriorityQueue_Pop now pq = None \<longleftrightarrow> pq_heap pq = []"
  by (auto simp: PriorityQueue_Pop_def heap_Pop_def Let_def split: option.splits)

lemma Pop_max:
  assumes "taskHeap_ok now pq" "PriorityQueue_Pop now pq = Some (qt, pq')" "q \<in># pq_tasks pq"
  shows "\<not> taskHeap_Less now q qt"
proof -
  obtain h where h: "heap_Pop (taskHeap_Less now) taskHeap_setIndex (pq_heap pq) = Some (qt, h)"
    using assms(2) by (auto simp: PriorityQueue_Pop_def split: option.splits)
  obtain y where "y \<in> set (pq_heap pq)" "q = taskHeap_setIndex 0 y"
    using assms(3) by (auto simp: pq_tasks_def)
  then show ?thesis using th.pop_max [OF _ h] assms(1) by (simp add: taskHeap_ok_iff)
qed

section \<open>Properties of one instant\<close>

text \<open>
  Popping a queue that is a heap at this instant returns a task of the queue that no waiting
  task precedes (none has a higher effective priority, and among equals none was enqueued
  earlier), keeps exactly the other tasks, and leaves a heap.
\<close>

theorem PriorityQueue_Pop_highest:
  assumes "taskHeap_ok now pq" and "PriorityQueue_Pop now pq = Some (qt, pq')"
  shows "pq_tasks pq = add_mset (taskHeap_setIndex 0 qt) (pq_tasks pq') \<and> taskHeap_ok now pq' \<and>
    (\<forall>q. q \<in># pq_tasks pq \<longrightarrow> effectivePriority now q \<le> effectivePriority now qt \<and>
      (effectivePriority now q = effectivePriority now qt \<longrightarrow> qt_EnqueuedAt qt \<le> qt_EnqueuedAt q))"
  using Pop_cases [OF assms(2)] Pop_max [OF assms] assms(1)
  by (metis linorder_not_less taskHeap_Less_iff order.order_iff_strict)

definition sample_reqs :: "TaskPriority \<Rightarrow> TaskRequirements" where
  "sample_reqs p = default_reqs\<lparr>Priority := p\<rparr>"

definition sample_task :: "string \<Rightarrow> string \<Rightarrow> TaskRequirements \<Rightarrow> Task" where
  "sample_task tid cmd reqs = \<lparr>t_ID = tid, t_Command = cmd, t_Env = [], t_PreferredNode = [],
     t_AssignedNode = [], t_Status = TaskPending, t_Output = [], t_Error = [], t_Requirements = reqs,
     t_SubmittedAt = 0, t_StartedAt = None, t_FinishedAt = None\<rparr>"

definition sample_queued :: "string \<Rightarrow> TaskPriority \<Rightarrow> time \<Rightarrow> QueuedTask" where
  "sample_queued tid p t = \<lparr>qt_Task = sample_task tid ''echo hi'' (sample_reqs p), qt_Reqs = sample_reqs p,
     qt_EnqueuedAt = t, qt_index = 0\<rparr>"

definition sample_queue :: PriorityQueue where
  "sample_queue = \<lparr>pq_heap = [taskHeap_setIndex 0 (sample_queued ''high'' 75 0),
     taskHeap_setIndex 1 (sample_queued ''normal'' 50 0)], pq_cap = 2\<rparr>"

lemma sample_queue_ok: "taskHeap_ok 0 sample_queue"
  by code_simp

lemma sample_queue_Pop: "map_option (\<lambda>(q, _). t_ID (qt_Task q)) (PriorityQueue_Pop 0 sample_queue) = Some ''high''"
  by code_simp

theorem PriorityQueue_Pop_highest_witness:
  "\<exists>qt pq'. PriorityQueue_Pop 0 sample_queue = Some (qt, pq') \<and> t_ID (qt_Task qt) = ''high'' \<and>
     taskHeap_ok 0 pq'"
proof -
  obtain qt pq' where p: "PriorityQueue_Pop 0 sample_queue = Some (qt, pq')" "t_ID (qt_Task qt) = ''high''"
    using sample_queue_Pop by (auto simp: map_option_case split: option.splits)
  with PriorityQueue_Pop_highest [OF sample_queue_ok p(1)] show ?thesis by blast
qed

text \<open>Popping until the queue is empty, all at one instant.\<close>

fun PriorityQueue_drain :: "time \<Rightarrow> nat \<Rightarrow> PriorityQueue \<Rightarrow> QueuedTask list" where
  "PriorityQueue_drain now 0 pq = []"
| "PriorityQueue_drain now (Suc k) pq =
     (case PriorityQueue_Pop now pq of
        None \<Rightarrow> []
      | Some (qt, pq') \<Rightarrow> qt # PriorityQueue_drain now k pq')"

lemma drain_mset:
  "PriorityQueue_Len pq \<le> n \<Longrightarrow>
     mset (map (taskHeap_setIndex 0) (PriorityQueue_drain now n pq)) = pq_tasks pq"
proof (induction n arbitrary: pq)
  case 0
  then show ?case by (simp add: PriorityQueue_Len_def pq_tasks_def)
next
  case (Suc n)
  show ?case
  proof (cases "PriorityQueue_Pop now pq")
    case None
    then have "pq_heap pq = []" by (simp only: Pop_None_iff)
    with None show ?thesis by (simp add: pq_tasks_def)
  next
    case (Some r)
    obtain qt pq' where r: "r = (qt, pq')" by (cases r)
    have p: "PriorityQueue_Pop now pq = Some (qt, pq')" using Some r by simp
    have "size (pq_tasks pq) = Suc (size (pq_tasks pq'))" using Pop_cases(1) [OF p] by simp
    then have "PriorityQueue_Len pq' \<le> n" using Suc.prems by (simp add: pq_tasks_def PriorityQueue_Len_def)
    then show ?thesis using Suc.IH Pop_cases(1) [OF p] p by simp
  qed
qed



section \<open>Properties of runs, the clock moving between operations\<close>

datatype pq_op = OpPush QueuedTask | OpPop

record pq_run_state =
  run_queue :: PriorityQueue
  run_admitted :: "QueuedTask list"
  run_popped :: "QueuedTask list"

fun pq_step :: "pq_run_state \<Rightarrow> time \<times> pq_op \<Rightarrow> pq_run_state" where
  "pq_step s (now, OpPush qt) =
     (case PriorityQueue_Push now qt (run_queue s) of
        Inl _ \<Rightarrow> s
      | Inr pq \<Rightarrow> s\<lparr>run_queue := pq, run_admitted := qt # run_admitted s\<rparr>)"
| "pq_step s (now, OpPop) =
     (case PriorityQueue_Pop now (run_queue s) of
        None \<Rightarrow> s
      | Some (qt, pq) \<Rightarrow> s\<lparr>run_queue := pq, run_popped := qt # run_popped s\<rparr>)"

definition pq_run :: "int \<Rightarrow> (time \<times> pq_op) list \<Rightarrow> pq_run_state" where
  "pq_run capacity ops = foldl pq_step
     \<lparr>run_queue = NewPriorityQueue capacity, run_admitted = [], run_popped = []\<rparr> ops"

abbreviation noncritical :: "QueuedTask multiset \<Rightarrow> QueuedTask multiset" where
  "noncritical M \<equiv> filter_mset (\<lambda>q. qt_base q < PriorityCritical) M"

definition pq_run_inv :: "int \<Rightarrow> pq_run_state \<Rightarrow> bool" where
  "pq_run_inv capacity s \<longleftrightarrow> pq_cap (run_queue s) = capacity \<and> taskHeap_indexed (run_queue s) \<and>
     pq_tasks (run_queue s) + mset (map (taskHeap_setIndex 0) (run_popped s)) =
       mset (map (taskHeap_setIndex 0) (run_admitted s)) \<and>
     int (size (noncritical (pq_tasks (run_queue s)))) \<le> max 0 capacity"

lemma pq_step_inv:
  assumes inv: "pq_run_inv capacity s"
  shows "pq_run_inv capacity (pq_step s ev)"
proof -
  obtain now opn where ev: "ev = (now, opn)" by (cases ev)
  show ?thesis
  proof (cases opn)
    case (OpPush qt)
    show ?thesis
    proof (cases "PriorityQueue_Push now qt (run_queue s)")
      case (Inr pq)
      note c = Push_cases [OF Inr]
      have "size (noncritical (pq_tasks (run_queue s))) \<le> size (pq_tasks (run_queue s))"
        by (rule size_filter_mset_lesseq)
      then have "int (size (noncritical (pq_tasks (run_queue s)))) \<le> int (PriorityQueue_Len (run_queue s))"
        by (simp add: pq_tasks_def PriorityQueue_Len_def)
      then have "int (size (noncritical (pq_tasks pq))) \<le> max 0 capacity"
        using inv c(1,3) by (auto simp: pq_run_inv_def)
      then show ?thesis using inv c(1,2,5) Inr by (simp add: ev OpPush pq_run_inv_def)
    qed (use inv in \<open>simp add: ev OpPush\<close>)
  next
    case OpPop
    show ?thesis
    proof (cases "PriorityQueue_Pop now (run_queue s)")
      case (Some r)
      obtain qt pq where r: "r = (qt, pq)" by (cases r)
      note c = Pop_cases [OF Some [unfolded r]]
      have "size (noncritical (pq_tasks pq)) \<le> size (noncritical (pq_tasks (run_queue s)))"
        by (simp add: c(1))
      then show ?thesis using inv c(1-3) Some r by (simp add: ev OpPop pq_run_inv_def ac_simps)
    qed (use inv in \<open>simp add: ev OpPop\<close>)
  qed
qed

text \<open>
  C22: Whatever tasks are pushed and popped and however the clock moves between the operations,
  every admitted task is either waiting or has been popped, once; the \<open>index\<close> field of every
  waiting task is its slot in the slice; and at most \<open>capacity\<close> tasks below critical priority
  wait.
\<close>

theorem pq_run_invariant:
  "pq_tasks (run_queue (pq_run capacity ops)) + mset (map (taskHeap_setIndex 0) (run_popped (pq_run capacity ops))) =
     mset (map (taskHeap_setIndex 0) (run_admitted (pq_run capacity ops))) \<and>
   taskHeap_indexed (run_queue (pq_run capacity ops)) \<and>
   int (size (noncritical (pq_tasks (run_queue (pq_run capacity ops))))) \<le> max 0 capacity"
proof -
  have "pq_run_inv capacity \<lparr>run_queue = NewPriorityQueue capacity, run_admitted = [], run_popped = []\<rparr>"
    by (simp add: pq_run_inv_def NewPriorityQueue_def pq_tasks_def taskHeap_indexed_def)
  then have "pq_run_inv capacity (pq_run capacity ops)"
    unfolding pq_run_def by (rule foldl_invariant) (rule pq_step_inv)
  then show ?thesis by (simp add: pq_run_inv_def)
qed

section \<open>Escalation and bands\<close>

lemma escalation_le: "escalation now q \<le> 25"
  by (simp add: escalation_def Let_def)

lemma escalation_eq:
  "qt_EnqueuedAt q \<le> now \<Longrightarrow> escalation now q = min 25 ((now - qt_EnqueuedAt q) div (10 * second))"
  by (simp add: escalation_def Let_def sdiv_nonneg min_def)

lemma escalation_nonneg: "qt_EnqueuedAt q \<le> now \<Longrightarrow> 0 \<le> escalation now q"
  by (simp add: escalation_eq pos_imp_zdiv_nonneg_iff)

lemma escalation_antimono: "qt_EnqueuedAt a \<le> qt_EnqueuedAt b \<Longrightarrow> escalation now b \<le> escalation now a"
proof -
  assume "qt_EnqueuedAt a \<le> qt_EnqueuedAt b"
  then have "(now - qt_EnqueuedAt b) sdiv (10 * second) \<le> (now - qt_EnqueuedAt a) sdiv (10 * second)"
    by (intro sdiv_mono) auto
  then show ?thesis by (simp add: escalation_def Let_def)
qed

text \<open>
  Waiting raises the effective priority by at most one band (25 points), never lowers it, and
  by exactly one point per ten full seconds until the cap.
\<close>

theorem effectivePriority_bounds:
  assumes "qt_EnqueuedAt q \<le> now"
  shows "qt_base q \<le> effectivePriority now q \<and> effectivePriority now q \<le> qt_base q + 25 \<and>
    effectivePriority now q = qt_base q + min 25 ((now - qt_EnqueuedAt q) div (10 * second))"
  using escalation_nonneg [OF assms] escalation_le [of now q]
  by (simp add: effectivePriority_def escalation_eq assms)

theorem effectivePriority_bounds_witness:
  "effectivePriority (260 * second) (sample_queued ''t'' 50 0) = 75"
  using effectivePriority_bounds [of "sample_queued ''t'' 50 0" "260 * second"]
  by (simp add: sample_queued_def sample_reqs_def)

text \<open>
  When a task of a band meets one of the next band up, it goes first exactly if it has waited
  250 seconds or more and the other less than ten seconds; a task two bands or more below never
  goes first, however long it has waited. Escalation alone therefore does not rule out
  starvation under a steady load of the next band.
\<close>

theorem escalation_band_precedence:
  assumes "qt_EnqueuedAt l \<le> now" "qt_EnqueuedAt h \<le> now"
  shows "(qt_base h = qt_base l + 25 \<longrightarrow>
      (taskHeap_Less now l h \<longleftrightarrow>
         250 * second \<le> now - qt_EnqueuedAt l \<and> now - qt_EnqueuedAt h < 10 * second)) \<and>
    (qt_base l + 50 \<le> qt_base h \<longrightarrow> \<not> taskHeap_Less now l h)"
proof -
  let ?el = "(now - qt_EnqueuedAt l) div (10 * second)" and ?eh = "(now - qt_EnqueuedAt h) div (10 * second)"
  have "25 \<le> ?el \<longleftrightarrow> 250 * second \<le> now - qt_EnqueuedAt l"
    by (simp add: le_zdiv_iff)
  moreover have "?eh = 0 \<longleftrightarrow> now - qt_EnqueuedAt h < 10 * second"
    using assms(2) by (auto simp: zdiv_eq_0_iff)
  moreover have "0 \<le> ?eh" "0 \<le> ?el" using assms by (simp_all add: pos_imp_zdiv_nonneg_iff)
  ultimately show ?thesis
    using assms by (auto simp: taskHeap_Less_iff effectivePriority_def escalation_eq)
qed

theorem escalation_band_precedence_witness:
  "taskHeap_Less (259 * second) (sample_queued ''l'' 50 0) (sample_queued ''h'' 75 (250 * second)) \<and>
   \<not> taskHeap_Less (260 * second) (sample_queued ''l'' 50 0) (sample_queued ''h'' 75 (250 * second)) \<and>
   \<not> taskHeap_Less (9999 * second) (sample_queued ''l'' 25 0) (sample_queued ''h'' 75 (9999 * second))"
  using escalation_band_precedence [of "sample_queued ''l'' 50 0" "259 * second" "sample_queued ''h'' 75 (250 * second)"]
    escalation_band_precedence [of "sample_queued ''l'' 50 0" "260 * second" "sample_queued ''h'' 75 (250 * second)"]
    escalation_band_precedence [of "sample_queued ''l'' 25 0" "9999 * second" "sample_queued ''h'' 75 (9999 * second)"]
  by (simp add: sample_queued_def sample_reqs_def)

text \<open>Within one band the order does not depend on the clock: it is the order of arrival.\<close>

lemma same_band_fifo:
  assumes "qt_base a = qt_base b"
  shows "taskHeap_Less now a b \<longleftrightarrow> qt_EnqueuedAt a < qt_EnqueuedAt b"
  using assms escalation_antimono [of a b now] escalation_antimono [of b a now]
  by (cases "qt_EnqueuedAt a" "qt_EnqueuedAt b" rule: linorder_cases)
    (auto simp: taskHeap_Less_iff effectivePriority_def)

definition one_band :: "TaskPriority \<Rightarrow> PriorityQueue \<Rightarrow> bool" where
  "one_band p pq \<longleftrightarrow> (\<forall>q \<in># pq_tasks pq. qt_base q = p)"

lemma one_band_heap: "one_band p pq \<Longrightarrow> q \<in> set (pq_heap pq) \<Longrightarrow> qt_base q = p"
  by (auto simp: one_band_def pq_tasks_def)

lemma one_band_clock:
  assumes "one_band p pq" "taskHeap_ok now pq"
  shows "taskHeap_ok now' pq"
  unfolding taskHeap_ok_def
proof (intro allI impI)
  fix j assume j: "j < length (pq_heap pq)" "0 < j"
  have "qt_base (pq_heap pq ! j) = p" "qt_base (pq_heap pq ! ((j - 1) div 2)) = p"
    using one_band_heap [OF assms(1)] j by auto
  then show "\<not> taskHeap_Less now' (pq_heap pq ! j) (pq_heap pq ! ((j - 1) div 2))"
    using assms(2) j same_band_fifo by (auto simp: taskHeap_ok_def)
qed

definition op_band :: "TaskPriority \<Rightarrow> pq_op \<Rightarrow> bool" where
  "op_band p opn = (case opn of OpPush qt \<Rightarrow> qt_base qt = p | OpPop \<Rightarrow> True)"

lemma pq_step_one_band:
  assumes "one_band p (run_queue s) \<and> taskHeap_ok t (run_queue s)" "op_band p (snd ev)"
  shows "one_band p (run_queue (pq_step s ev)) \<and> taskHeap_ok t (run_queue (pq_step s ev))"
proof -
  obtain now opn where ev: "ev = (now, opn)" by (cases ev)
  have ok: "taskHeap_ok now (run_queue s)" using assms one_band_clock by blast
  show ?thesis
  proof (cases opn)
    case (OpPush qt)
    show ?thesis
    proof (cases "PriorityQueue_Push now qt (run_queue s)")
      case (Inr pq)
      have "one_band p pq" using Push_cases(1) [OF Inr] assms by (simp add: one_band_def ev OpPush op_band_def)
      then show ?thesis using one_band_clock Push_cases(6) [OF Inr ok] Inr by (simp add: ev OpPush)
    qed (use assms in \<open>simp add: ev OpPush\<close>)
  next
    case OpPop
    show ?thesis
    proof (cases "PriorityQueue_Pop now (run_queue s)")
      case (Some r)
      obtain qt pq where r: "r = (qt, pq)" by (cases r)
      note c = Pop_cases [OF Some [unfolded r]]
      have "one_band p pq" using c(1) assms by (simp add: one_band_def)
      then show ?thesis using one_band_clock c(4) [OF ok] Some r by (simp add: ev OpPop)
    qed (use assms in \<open>simp add: ev OpPop\<close>)
  qed
qed

text \<open>
  If every task ever pushed is of one band, then after any run, with the clock moving between
  operations, a pop returns a task that arrived no later than any task still waiting.
\<close>

theorem pq_run_fifo_in_band:
  assumes "\<forall>ev \<in> set ops. op_band p (snd ev)"
    and "PriorityQueue_Pop now (run_queue (pq_run capacity ops)) = Some (qt, pq')"
    and "q \<in># pq_tasks pq'"
  shows "qt_EnqueuedAt qt \<le> qt_EnqueuedAt q"
proof -
  let ?pq = "run_queue (pq_run capacity ops)"
  have "one_band p ?pq \<and> taskHeap_ok now ?pq"
    unfolding pq_run_def
  proof (rule foldl_invariant [where P = "\<lambda>s. one_band p (run_queue s) \<and> taskHeap_ok now (run_queue s)"])
    show "one_band p (run_queue (pq_step s ev)) \<and> taskHeap_ok now (run_queue (pq_step s ev))"
      if "ev \<in> set ops" "one_band p (run_queue s) \<and> taskHeap_ok now (run_queue s)" for s ev
      using pq_step_one_band that assms(1) by blast
  qed (simp add: one_band_def taskHeap_ok_def NewPriorityQueue_def pq_tasks_def)
  moreover have "taskHeap_setIndex 0 qt \<in># pq_tasks ?pq" "q \<in># pq_tasks ?pq"
    using Pop_cases(1) [OF assms(2)] assms(3) by auto
  ultimately show ?thesis
    using Pop_max [OF _ assms(2)] same_band_fifo [of q "taskHeap_setIndex 0 qt" now]
    by (fastforce simp: one_band_def)
qed

definition fifo_ops :: "(time \<times> pq_op) list" where
  "fifo_ops = [(1, OpPush (sample_queued ''a'' 50 1)), (2, OpPush (sample_queued ''b'' 50 2))]"

theorem pq_run_fifo_in_band_witness:
  "\<exists>qt pq'. PriorityQueue_Pop (999 * second) (run_queue (pq_run 5 fifo_ops)) = Some (qt, pq') \<and>
     t_ID (qt_Task qt) = ''a'' \<and> (\<forall>q. q \<in># pq_tasks pq' \<longleftrightarrow> q = sample_queued ''b'' 50 2) \<and>
     qt_EnqueuedAt qt \<le> qt_EnqueuedAt (sample_queued ''b'' 50 2)"
proof -
  have "map_option (\<lambda>(q, r). (t_ID (qt_Task q), map (taskHeap_setIndex 0) (pq_heap r)))
     (PriorityQueue_Pop (999 * second) (run_queue (pq_run 5 fifo_ops))) = Some (''a'', [sample_queued ''b'' 50 2])"
    by code_simp
  then obtain qt pq' where p: "PriorityQueue_Pop (999 * second) (run_queue (pq_run 5 fifo_ops)) = Some (qt, pq')"
    and a: "t_ID (qt_Task qt) = ''a''" and b: "map (taskHeap_setIndex 0) (pq_heap pq') = [sample_queued ''b'' 50 2]"
    by (auto simp: map_option_case split: option.splits)
  have t: "pq_tasks pq' = {#sample_queued ''b'' 50 2#}"
    using arg_cong [OF b, of mset] by (simp add: pq_tasks_def)
  have "\<forall>ev \<in> set fifo_ops. op_band 50 (snd ev)"
    by (simp add: fifo_ops_def op_band_def sample_queued_def sample_reqs_def)
  from pq_run_fifo_in_band [OF this p, of "sample_queued ''b'' 50 2"] t
  show ?thesis using p a by auto
qed

definition stale_ops :: "(time \<times> pq_op) list" where
  "stale_ops = [(0, OpPush (sample_queued ''normal'' 50 0)),
     (250 * second, OpPush (sample_queued ''high'' 75 (250 * second)))]"

text \<open>
  Across bands the slice goes stale, because escalation changes the order of tasks already
  placed and nothing restores the heap: this run pushes a normal task at time 0 and a high task at
  250 seconds, when the two tie and the normal one, older, keeps the root; ten seconds later the
  high task has the higher effective priority, and the pop still returns the normal one.
\<close>

theorem PriorityQueue_Pop_stale:
  "\<exists>qt pq' q. PriorityQueue_Pop (260 * second) (run_queue (pq_run 100 stale_ops)) = Some (qt, pq') \<and>
     q \<in># pq_tasks pq' \<and> effectivePriority (260 * second) qt < effectivePriority (260 * second) q"
proof -
  have "map_option (\<lambda>(q, r). (effectivePriority (260 * second) q, map (taskHeap_setIndex 0) (pq_heap r)))
     (PriorityQueue_Pop (260 * second) (run_queue (pq_run 100 stale_ops))) =
     Some (75, [sample_queued ''high'' 75 (250 * second)])"
    by code_simp
  then obtain qt pq' where p: "PriorityQueue_Pop (260 * second) (run_queue (pq_run 100 stale_ops)) = Some (qt, pq')"
    and a: "effectivePriority (260 * second) qt = 75"
    and b: "map (taskHeap_setIndex 0) (pq_heap pq') = [sample_queued ''high'' 75 (250 * second)]"
    by (auto simp: map_option_case split: option.splits)
  have t: "pq_tasks pq' = {#sample_queued ''high'' 75 (250 * second)#}"
    using arg_cong [OF b, of mset] by (simp add: pq_tasks_def)
  have "effectivePriority (260 * second) (sample_queued ''high'' 75 (250 * second)) = 76"
    by code_simp
  then show ?thesis using p a t by auto
qed

end
