(* ===== verification/Sched_Sandbox.thy ===== *)
theory Sched_Sandbox
  imports Go_Strings
begin

text \<open>
  \<open>internal/scheduler/sandbox.go\<close> and the parsing part of \<open>wasm.go\<close>: the checks a command and its
  environment pass before a process is started. A command is its UTF-8 bytes: a rune check of the
  source is a search for the rune's encoding, and a private-use rune is recognised by its lead
  and continuation bytes. \<open>strings.Fields\<close> splits at ASCII white space here. The error messages
  are constructors; the argument a message quotes is kept.
\<close>

datatype SandboxError =
  EmptyCommand | NullByte | ControlChar char | BidiChar | PrivateUse | Redirection | Subshell
  | ProcessSubstitution | TooManyArgs nat | NotAllowed string | Traversal string | AbsolutePath string
  | EnvFormat string | EnvChars string | EnvDangerous string
  | WasmPrefix | WasmNoFile | WasmPath string

definition byte :: "nat \<Rightarrow> char" where "byte n = char_of n"

definition code :: "char \<Rightarrow> nat" where "code c = of_char c"

definition WASMPrefix :: string where "WASMPrefix = ''wasm://''"

abbreviation maxArgCount :: nat where "maxArgCount \<equiv> 64"

text \<open>The bidirectional and annotation characters, by their UTF-8 encodings.\<close>

definition unicodeBidiOverrides :: "string list" where
  "unicodeBidiOverrides = map (map byte)
     [[226, 128, 170], [226, 128, 171], [226, 128, 172], [226, 128, 173], [226, 128, 174],
      [226, 129, 166], [226, 129, 167], [226, 129, 168], [226, 129, 169],
      [226, 128, 143], [226, 128, 142], [239, 191, 185], [239, 191, 186], [239, 191, 187]]"

text \<open>
  Private use: U+E000 to U+F8FF in three bytes, U+F0000 to U+FFFFD and U+100000 to U+10FFFD in four.
\<close>

definition cont_byte :: "nat \<Rightarrow> bool" where "cont_byte n = (128 \<le> n \<and> n \<le> 191)"

fun private_use_here :: "nat list \<Rightarrow> bool" where
  "private_use_here (a # b # c # rest) =
     ((a = 238 \<and> cont_byte b \<and> cont_byte c) \<or>
      (a = 239 \<and> 128 \<le> b \<and> b \<le> 163 \<and> cont_byte c) \<or>
      (case rest of [] \<Rightarrow> False
       | d # _ \<Rightarrow> (a = 243 \<and> 176 \<le> b \<and> b \<le> 191 \<or> a = 244 \<and> 128 \<le> b \<and> b \<le> 143) \<and> cont_byte c \<and> cont_byte d \<and>
           \<not> (b mod 16 = 15 \<and> c = 191 \<and> 190 \<le> d)))"
| "private_use_here _ = False"

fun private_use :: "nat list \<Rightarrow> bool" where
  "private_use [] = False"
| "private_use (a # as) = (private_use_here (a # as) \<or> private_use as)"

definition has_bidi :: "string \<Rightarrow> bool" where
  "has_bidi command = list_ex (\<lambda>b. contains command b) unicodeBidiOverrides"

definition illegal_control :: "char \<Rightarrow> bool" where
  "illegal_control c = (code c < 32 \<and> code c \<noteq> 9 \<and> code c \<noteq> 10 \<and> code c \<noteq> 13)"

text \<open>\<open>filepath.Base\<close> on Unix.\<close>

definition path_base :: "string \<Rightarrow> string" where
  "path_base p =
     (if p = [] then ''.''
      else let t = trim_right CHR ''/'' p; b = after_last CHR ''/'' t
           in if b = [] then ''/'' else b)"

definition allowedAbsolutePrefixes :: "string list" where
  "allowedAbsolutePrefixes = [''/usr/bin/'', ''/usr/local/bin/'', ''/bin/'', ''/tmp/openfabric-tasks/'',
     ''/dev/null'', ''/dev/urandom'', ''/dev/random'']"

definition isAllowedAbsolutePath :: "string \<Rightarrow> bool" where
  "isAllowedAbsolutePath path = list_ex (\<lambda>p. starts_with p path) allowedAbsolutePrefixes"

text \<open>\<open>strings.Trim(arg, cutset)\<close> with the two quotation marks.\<close>

definition is_quote :: "char \<Rightarrow> bool" where "is_quote c = (code c = 34 \<or> code c = 39)"

definition trim_quotes :: "string \<Rightarrow> string" where
  "trim_quotes s = rev (dropWhile is_quote (rev (dropWhile is_quote s)))"

text \<open>The raw string of the source has two backslashes after the dots.\<close>

definition dotdot_backslashes :: string where "dotdot_backslashes = ''..'' @ [byte 92, byte 92]"

definition checkArgForTraversal :: "string \<Rightarrow> SandboxError option" where
  "checkArgForTraversal arg =
     (let cleaned = trim_quotes arg
      in if contains cleaned ''../'' \<or> contains cleaned dotdot_backslashes then Some (Traversal arg)
         else if cleaned = ''..'' then Some (Traversal arg)
         else if starts_with ''/'' cleaned \<and> \<not> isAllowedAbsolutePath cleaned then Some (AbsolutePath cleaned)
         else None)"

text \<open>The first error of a list of checks.\<close>

fun first_error :: "('a \<Rightarrow> SandboxError option) \<Rightarrow> 'a list \<Rightarrow> SandboxError option" where
  "first_error f [] = None"
| "first_error f (x # xs) = (case f x of Some e \<Rightarrow> Some e | None \<Rightarrow> first_error f xs)"

definition check_segment :: "string list \<Rightarrow> string \<Rightarrow> SandboxError option" where
  "check_segment allowlist segment =
     (case str_fields segment of
        [] \<Rightarrow> None
      | bin # args \<Rightarrow>
          if path_base bin \<notin> set allowlist then Some (NotAllowed (path_base bin))
          else first_error checkArgForTraversal args)"

definition is_chain :: "char \<Rightarrow> bool" where
  "is_chain c = (c = CHR '';'' \<or> code c = 38 \<or> c = CHR ''|'' \<or> code c = 10)"

definition ValidateCommand :: "string \<Rightarrow> string list \<Rightarrow> bool \<Rightarrow> SandboxError option" where
  "ValidateCommand command allowlist sandboxMode =
     (if \<not> sandboxMode then None
      else if trim_space command = [] then Some EmptyCommand
      else if starts_with WASMPrefix command then
        (if byte 0 \<in> set command then Some NullByte
         else if has_bidi command then Some BidiChar
         else None)
      else if byte 0 \<in> set command then Some NullByte
      else case find illegal_control command of
        Some c \<Rightarrow> Some (ControlChar c)
      | None \<Rightarrow>
          if has_bidi command then Some BidiChar
          else if private_use (map code command) then Some PrivateUse
          else if CHR ''>'' \<in> set command \<or> CHR ''<'' \<in> set command then Some Redirection
          else if contains command ''$('' \<or> byte 96 \<in> set command then Some Subshell
          else if contains command ''<('' \<or> contains command ''>('' then Some ProcessSubstitution
          else if length (str_fields command) > maxArgCount then Some (TooManyArgs (length (str_fields command)))
          else let segments = fields_by is_chain command
               in if segments = [] then Some EmptyCommand
                  else first_error (check_segment allowlist) segments)"

section \<open>The environment and WASM commands\<close>

definition dangerousEnvVars :: "string list" where
  "dangerousEnvVars = [''LD_PRELOAD'', ''LD_LIBRARY_PATH'', ''LD_AUDIT'', ''LD_DEBUG'', ''LD_ORIGIN_PATH'',
     ''DYLD_INSERT_LIBRARIES'', ''DYLD_LIBRARY_PATH'', ''IFS'', ''BASH_ENV'', ''ENV'', ''CDPATH'', ''SHELLOPTS'',
     ''BASHOPTS'', ''PS4'', ''PYTHONSTARTUP'', ''PYTHONPATH'', ''PYTHONHOME'', ''NODE_PATH'', ''NODE_OPTIONS'',
     ''GOROOT'', ''GOPATH'', ''PATH'']"

definition env_key :: "string \<Rightarrow> string" where "env_key entry = takeWhile (\<lambda>c. c \<noteq> CHR ''='') entry"

definition env_bad_char :: "char \<Rightarrow> bool" where
  "env_bad_char c = (code c \<in> {0, 61, 59, 124, 38, 96, 36})"

definition check_env :: "string \<Rightarrow> SandboxError option" where
  "check_env entry =
     (if CHR ''='' \<notin> set entry \<or> env_key entry = [] then Some (EnvFormat entry)
      else if list_ex env_bad_char (env_key entry) then Some (EnvChars (env_key entry))
      else if env_key entry \<in> set dangerousEnvVars then Some (EnvDangerous (env_key entry))
      else None)"

definition ValidateEnv :: "string list \<Rightarrow> bool \<Rightarrow> SandboxError option" where
  "ValidateEnv env sandboxMode = (if \<not> sandboxMode then None else first_error check_env env)"

definition ParseWASMCommand :: "string \<Rightarrow> SandboxError + string \<times> string list" where
  "ParseWASMCommand command =
     (if \<not> starts_with WASMPrefix command then Inl WasmPrefix
      else case str_fields (drop (length WASMPrefix) command) of
             [] \<Rightarrow> Inl WasmNoFile
           | fname # args \<Rightarrow>
               if contains fname ''..'' \<or> CHR ''/'' \<in> set fname \<or> byte 92 \<in> set fname then Inl (WasmPath fname)
               else Inr (fname, args))"

section \<open>What an accepted command looks like\<close>

lemma first_error_None: "first_error f xs = None \<longleftrightarrow> (\<forall>x \<in> set xs. f x = None)"
  by (induction xs) (auto split: option.splits)

text \<open>
  The guarantee on one argument: no parent directory in it, once quotes at its ends are gone, and
  an absolute path only below the permitted prefixes.
\<close>

definition safe_arg :: "string \<Rightarrow> bool" where
  "safe_arg arg \<longleftrightarrow>
     (let a = trim_quotes arg
      in \<not> contains a ''../'' \<and> a \<noteq> ''..'' \<and> (starts_with ''/'' a \<longrightarrow> isAllowedAbsolutePath a))"

lemma checkArg_None: "checkArgForTraversal arg = None \<Longrightarrow> safe_arg arg"
  by (auto simp: checkArgForTraversal_def safe_arg_def Let_def split: if_splits)



text \<open>
  The checks have gaps. A program is judged by the last part of its path only, so a file named
  like an allowed program runs from anywhere; a path that ends in \<open>..\<close> and a parent directory
  with a quotation mark inside (\<open>.'.'/\<close>, which the shell reads as \<open>../\<close>) are accepted; and a single
  backslash after the dots is not recognised.
\<close>

theorem ValidateCommand_gaps:
  "ValidateCommand ''../../tmp/evil/ls'' [''ls''] True = None \<and>
   ValidateCommand ''ls /usr/bin/..'' [''ls''] True = None \<and>
   ValidateCommand (''cat .'' @ [byte 39] @ ''.'' @ [byte 39] @ ''/secret'') [''cat''] True = None \<and>
   ValidateCommand (''cat ..'' @ [byte 92] @ ''secret'') [''cat''] True = None"
proof (intro conjI)
  show "ValidateCommand ''../../tmp/evil/ls'' [''ls''] True = None" by code_simp
  show "ValidateCommand ''ls /usr/bin/..'' [''ls''] True = None" by code_simp
  show "ValidateCommand (''cat .'' @ [byte 39] @ ''.'' @ [byte 39] @ ''/secret'') [''cat''] True = None" by code_simp
  show "ValidateCommand (''cat ..'' @ [byte 92] @ ''secret'') [''cat''] True = None" by code_simp
qed

text \<open>Redirection is refused first, so the gate on process substitution never fires.\<close>

lemma process_substitution_unreachable: "ValidateCommand command allowlist mode \<noteq> Some ProcessSubstitution"
proof -
  have "CHR ''<'' \<in> set command" if "contains command ''<(''" using that by (auto simp: contains_iff)
  moreover have "CHR ''>'' \<in> set command" if "contains command ''>(''" using that by (auto simp: contains_iff)
  moreover have "first_error (check_segment al) segs \<noteq> Some ProcessSubstitution" for al segs
  proof (induction segs)
    case (Cons s segs)
    have "first_error checkArgForTraversal args \<noteq> Some ProcessSubstitution" for args
      by (induction args) (auto simp: checkArgForTraversal_def Let_def split: option.splits if_splits)
    then show ?case using Cons by (auto simp: check_segment_def split: option.splits list.splits if_splits)
  qed simp
  ultimately show ?thesis by (auto simp: ValidateCommand_def Let_def split: option.splits if_splits)
qed

lemma ValidateEnv_accepts:
  "ValidateEnv env True = None \<Longrightarrow> entry \<in> set env \<Longrightarrow> env_key entry \<noteq> [] \<and> env_key entry \<notin> set dangerousEnvVars"
  by (auto simp: ValidateEnv_def first_error_None check_env_def split: if_splits)

text \<open>A WASM file name cannot leave the storage directory.\<close>

lemma ParseWASM_plain:
  "ParseWASMCommand command = Inr (fname, args) \<Longrightarrow>
   CHR ''/'' \<notin> set fname \<and> byte 92 \<notin> set fname \<and> \<not> contains fname ''..'' \<and> fname \<noteq> []"
  using fields_by_runs [of fname is_space "drop (length WASMPrefix) command"]
  by (auto simp: ParseWASMCommand_def str_fields_def split: list.splits if_splits)

end
