(* ===== verification/Sched_Breaker.thy ===== *)
theory Sched_Breaker
  imports Go_Strings
begin

text \<open>
  \<open>internal/scheduler/circuit_breaker.go\<close>: the per-node circuit breaker as a state machine whose
  steps are its methods, and the registry that creates breakers on first access. A mutex guards
  each method, so a run is a sequence of whole method calls. \<open>Get\<close> returns a pointer in the
  source: a method called through it updates the registry's entry, which
  \<open>BreakerRegistry_modify\<close> writes out.
\<close>

datatype BreakerState = BreakerClosed | BreakerOpen | BreakerHalfOpen

fun BreakerState_String :: "BreakerState \<Rightarrow> string" where
  "BreakerState_String BreakerClosed = ''closed''"
| "BreakerState_String BreakerOpen = ''open''"
| "BreakerState_String BreakerHalfOpen = ''half_open''"

record BreakerConfig =
  bc_FailureThreshold :: int
  bc_SuccessThreshold :: int
  bc_OpenDuration :: duration
  bc_MaxOpenDuration :: duration

definition DefaultBreakerConfig :: BreakerConfig where
  "DefaultBreakerConfig = \<lparr>bc_FailureThreshold = 3, bc_SuccessThreshold = 2,
     bc_OpenDuration = 30 * second, bc_MaxOpenDuration = 10 * minute\<rparr>"

record NodeBreaker =
  nb_nodeID :: string
  nb_state :: BreakerState
  nb_fails :: int
  nb_succs :: int
  nb_openedAt :: time
  nb_openDuration :: duration
  nb_cfg :: BreakerConfig

definition minDuration :: "duration \<Rightarrow> duration \<Rightarrow> duration" where
  "minDuration a b = (if a < b then a else b)"

definition NewNodeBreaker :: "string \<Rightarrow> BreakerConfig \<Rightarrow> NodeBreaker" where
  "NewNodeBreaker nodeID cfg = \<lparr>nb_nodeID = nodeID, nb_state = BreakerClosed, nb_fails = 0, nb_succs = 0,
     nb_openedAt = 0, nb_openDuration = bc_OpenDuration cfg, nb_cfg = cfg\<rparr>"

definition NodeBreaker_Allow :: "time \<Rightarrow> NodeBreaker \<Rightarrow> bool \<times> NodeBreaker" where
  "NodeBreaker_Allow now b =
     (case nb_state b of
        BreakerClosed \<Rightarrow> (True, b)
      | BreakerOpen \<Rightarrow>
          if now - nb_openedAt b \<ge> nb_openDuration b
          then (True, b\<lparr>nb_state := BreakerHalfOpen, nb_succs := 0\<rparr>)
          else (False, b)
      | BreakerHalfOpen \<Rightarrow> (nb_succs b = 0, b))"

definition NodeBreaker_RecordSuccess :: "NodeBreaker \<Rightarrow> NodeBreaker" where
  "NodeBreaker_RecordSuccess b =
     (let b = b\<lparr>nb_fails := 0, nb_succs := nb_succs b + 1\<rparr>
      in if nb_state b = BreakerHalfOpen \<and> nb_succs b \<ge> bc_SuccessThreshold (nb_cfg b)
         then b\<lparr>nb_state := BreakerClosed, nb_openDuration := bc_OpenDuration (nb_cfg b)\<rparr>
         else b)"

definition NodeBreaker_RecordFailure :: "time \<Rightarrow> NodeBreaker \<Rightarrow> NodeBreaker" where
  "NodeBreaker_RecordFailure now b =
     (let b = b\<lparr>nb_succs := 0, nb_fails := nb_fails b + 1\<rparr>
      in case nb_state b of
           BreakerClosed \<Rightarrow>
             if nb_fails b \<ge> bc_FailureThreshold (nb_cfg b)
             then b\<lparr>nb_state := BreakerOpen, nb_openedAt := now\<rparr> else b
         | BreakerHalfOpen \<Rightarrow>
             b\<lparr>nb_state := BreakerOpen, nb_openedAt := now,
               nb_openDuration := minDuration (i64 (nb_openDuration b * 2)) (bc_MaxOpenDuration (nb_cfg b)),
               nb_fails := 0\<rparr>
         | BreakerOpen \<Rightarrow> b)"

section \<open>The registry\<close>

record BreakerRegistry =
  br_breakers :: "string \<rightharpoonup> NodeBreaker"
  br_cfg :: BreakerConfig

definition NewBreakerRegistry :: "BreakerConfig \<Rightarrow> BreakerRegistry" where
  "NewBreakerRegistry cfg = \<lparr>br_breakers = Map.empty, br_cfg = cfg\<rparr>"

definition BreakerRegistry_Get :: "string \<Rightarrow> BreakerRegistry \<Rightarrow> NodeBreaker \<times> BreakerRegistry" where
  "BreakerRegistry_Get nodeID r =
     (case br_breakers r nodeID of
        Some b \<Rightarrow> (b, r)
      | None \<Rightarrow> let b = NewNodeBreaker nodeID (br_cfg r)
                in (b, r\<lparr>br_breakers := (br_breakers r)(nodeID \<mapsto> b)\<rparr>))"

definition BreakerRegistry_modify ::
  "string \<Rightarrow> (NodeBreaker \<Rightarrow> NodeBreaker) \<Rightarrow> BreakerRegistry \<Rightarrow> BreakerRegistry" where
  "BreakerRegistry_modify nodeID f r =
     (let (b, r') = BreakerRegistry_Get nodeID r
      in r'\<lparr>br_breakers := (br_breakers r')(nodeID \<mapsto> f b)\<rparr>)"

definition BreakerRegistry_Allow :: "time \<Rightarrow> string \<Rightarrow> BreakerRegistry \<Rightarrow> bool \<times> BreakerRegistry" where
  "BreakerRegistry_Allow now nodeID r =
     (let (b, r') = BreakerRegistry_Get nodeID r; (ok, b') = NodeBreaker_Allow now b
      in (ok, r'\<lparr>br_breakers := (br_breakers r')(nodeID \<mapsto> b')\<rparr>))"

definition BreakerRegistry_States :: "BreakerRegistry \<Rightarrow> (string \<rightharpoonup> BreakerState)" where
  "BreakerRegistry_States r = map_option nb_state \<circ> br_breakers r"

section \<open>Runs of one breaker\<close>

datatype breaker_event = EvAllow | EvSuccess | EvFailure

fun breaker_step :: "NodeBreaker \<Rightarrow> time \<times> breaker_event \<Rightarrow> NodeBreaker" where
  "breaker_step b (now, EvAllow) = snd (NodeBreaker_Allow now b)"
| "breaker_step b (now, EvSuccess) = NodeBreaker_RecordSuccess b"
| "breaker_step b (now, EvFailure) = NodeBreaker_RecordFailure now b"

definition breaker_run :: "NodeBreaker \<Rightarrow> (time \<times> breaker_event) list \<Rightarrow> NodeBreaker" where
  "breaker_run b evs = foldl breaker_step b evs"

definition breaker_cfg_ok :: "BreakerConfig \<Rightarrow> bool" where
  "breaker_cfg_ok cfg \<longleftrightarrow> 1 \<le> bc_FailureThreshold cfg \<and> 1 \<le> bc_SuccessThreshold cfg \<and>
     0 \<le> bc_OpenDuration cfg \<and> bc_OpenDuration cfg \<le> bc_MaxOpenDuration cfg \<and>
     bc_MaxOpenDuration cfg < 2 ^ 62"

definition breaker_inv :: "BreakerConfig \<Rightarrow> NodeBreaker \<Rightarrow> bool" where
  "breaker_inv cfg b \<longleftrightarrow> nb_cfg b = cfg \<and> 0 \<le> nb_fails b \<and> 0 \<le> nb_succs b \<and>
     bc_OpenDuration cfg \<le> nb_openDuration b \<and> nb_openDuration b \<le> bc_MaxOpenDuration cfg \<and>
     (nb_state b = BreakerClosed \<longrightarrow>
        nb_fails b < bc_FailureThreshold cfg \<and> nb_openDuration b = bc_OpenDuration cfg) \<and>
     (nb_state b = BreakerHalfOpen \<longrightarrow> nb_succs b < bc_SuccessThreshold cfg)"

lemma default_cfg_ok: "breaker_cfg_ok DefaultBreakerConfig"
  by (simp add: breaker_cfg_ok_def DefaultBreakerConfig_def)

lemma breaker_inv_new: "breaker_cfg_ok cfg \<Longrightarrow> breaker_inv cfg (NewNodeBreaker n cfg)"
  by (simp add: breaker_inv_def breaker_cfg_ok_def NewNodeBreaker_def)

lemma double_openDuration:
  assumes "breaker_cfg_ok cfg" "breaker_inv cfg b"
  shows "i64 (nb_openDuration b * 2) = nb_openDuration b * 2"
  using assms by (intro i64_id) (auto simp: breaker_cfg_ok_def breaker_inv_def)

lemma Allow_inv: "breaker_cfg_ok cfg \<Longrightarrow> breaker_inv cfg b \<Longrightarrow> breaker_inv cfg (snd (NodeBreaker_Allow now b))"
  by (auto simp: breaker_inv_def breaker_cfg_ok_def NodeBreaker_Allow_def split: BreakerState.splits)

lemma RecordSuccess_inv:
  "breaker_cfg_ok cfg \<Longrightarrow> breaker_inv cfg b \<Longrightarrow> breaker_inv cfg (NodeBreaker_RecordSuccess b)"
  by (auto simp: breaker_inv_def breaker_cfg_ok_def NodeBreaker_RecordSuccess_def Let_def)

lemma RecordFailure_inv:
  assumes "breaker_cfg_ok cfg" "breaker_inv cfg b"
  shows "breaker_inv cfg (NodeBreaker_RecordFailure now b)"
  using assms double_openDuration [OF assms]
  by (auto simp: breaker_inv_def breaker_cfg_ok_def NodeBreaker_RecordFailure_def Let_def minDuration_def
      split: BreakerState.splits)

lemma breaker_step_inv: "breaker_cfg_ok cfg \<Longrightarrow> breaker_inv cfg b \<Longrightarrow> breaker_inv cfg (breaker_step b ev)"
  by (cases "(b, ev)" rule: breaker_step.cases) (auto simp: Allow_inv RecordSuccess_inv RecordFailure_inv)

text \<open>
  C23: In every run of a breaker from its creation, a closed breaker has seen fewer consecutive
  failures than the threshold and has the initial cooldown, a half-open one has seen fewer
  successes than it needs to close, and the cooldown stays between the initial and the maximal
  one.
\<close>

theorem breaker_run_invariant:
  assumes "breaker_cfg_ok cfg"
  shows "breaker_inv cfg (breaker_run (NewNodeBreaker n cfg) evs)"
  unfolding breaker_run_def
  by (rule foldl_invariant) (use assms in \<open>auto intro: breaker_inv_new breaker_step_inv\<close>)

theorem breaker_run_invariant_witness:
  "breaker_inv DefaultBreakerConfig
     (breaker_run (NewNodeBreaker ''n'' DefaultBreakerConfig)
        [(0, EvFailure), (1, EvFailure), (2, EvFailure), (31 * second, EvAllow), (32 * second, EvFailure)])"
  by (rule breaker_run_invariant [OF default_cfg_ok])

section \<open>Tripping\<close>

lemma failure_closed:
  "nb_state b = BreakerClosed \<Longrightarrow>
   NodeBreaker_RecordFailure now b =
     (if nb_fails b + 1 \<ge> bc_FailureThreshold (nb_cfg b)
      then b\<lparr>nb_succs := 0, nb_fails := nb_fails b + 1, nb_state := BreakerOpen, nb_openedAt := now\<rparr>
      else b\<lparr>nb_succs := 0, nb_fails := nb_fails b + 1\<rparr>)"
  by (simp add: NodeBreaker_RecordFailure_def Let_def)

lemma failure_open:
  "nb_state b = BreakerOpen \<Longrightarrow>
   NodeBreaker_RecordFailure now b = b\<lparr>nb_succs := 0, nb_fails := nb_fails b + 1\<rparr>"
  by (simp add: NodeBreaker_RecordFailure_def Let_def)

lemma open_stays_open:
  "nb_state b = BreakerOpen \<Longrightarrow> nb_state (breaker_run b (map (\<lambda>t. (t, EvFailure)) ts)) = BreakerOpen"
  unfolding breaker_run_def
  by (induction ts arbitrary: b) (auto simp: failure_open)

text \<open>
  Consecutive failures, with nothing between them, open a closed breaker exactly when their
  number, counted with those already recorded, reaches the threshold.
\<close>

theorem breaker_trips_at_threshold:
  assumes "nb_state b = BreakerClosed" and "nb_fails b < bc_FailureThreshold (nb_cfg b)"
  shows "nb_state (breaker_run b (map (\<lambda>t. (t, EvFailure)) ts)) =
     (if nb_fails b + int (length ts) \<ge> bc_FailureThreshold (nb_cfg b) then BreakerOpen else BreakerClosed)"
  using assms
proof (induction ts arbitrary: b)
  case Nil
  then show ?case by (simp add: breaker_run_def)
next
  case (Cons t ts)
  show ?case
  proof (cases "nb_fails b + 1 \<ge> bc_FailureThreshold (nb_cfg b)")
    case True
    then show ?thesis using Cons.prems open_stays_open by (simp add: breaker_run_def failure_closed)
  next
    case False
    then show ?thesis using Cons.IH [of "NodeBreaker_RecordFailure t b"] Cons.prems
      by (simp add: breaker_run_def failure_closed)
  qed
qed

theorem breaker_trips_at_threshold_witness:
  "nb_state (breaker_run (NewNodeBreaker ''n'' DefaultBreakerConfig) [(5, EvFailure), (6, EvFailure), (7, EvFailure)]) = BreakerOpen \<and>
   nb_state (breaker_run (NewNodeBreaker ''n'' DefaultBreakerConfig) [(5, EvFailure), (6, EvFailure)]) = BreakerClosed"
  using breaker_trips_at_threshold [of "NewNodeBreaker ''n'' DefaultBreakerConfig" "[5, 6, 7]"]
    breaker_trips_at_threshold [of "NewNodeBreaker ''n'' DefaultBreakerConfig" "[5, 6]"]
  by (simp add: NewNodeBreaker_def DefaultBreakerConfig_def)

section \<open>Cooldown, probes and backoff\<close>

text \<open>
  An open breaker refuses every task before its cooldown is over, whatever is asked in
  between, and admits one at the first request after it, turning half-open.
\<close>

theorem breaker_open_blocks_until_cooldown:
  assumes "nb_state b = BreakerOpen"
  shows "(\<forall>t \<in> set ts. t - nb_openedAt b < nb_openDuration b) \<longrightarrow>
     breaker_run b (map (\<lambda>t. (t, EvAllow)) ts) = b \<and>
     (\<forall>now. fst (NodeBreaker_Allow now b) \<longleftrightarrow> nb_openDuration b \<le> now - nb_openedAt b) \<and>
     (\<forall>now. nb_openDuration b \<le> now - nb_openedAt b \<longrightarrow>
        nb_state (snd (NodeBreaker_Allow now b)) = BreakerHalfOpen)"
proof -
  have "breaker_run b (map (\<lambda>t. (t, EvAllow)) ts) = b"
    if "\<forall>t \<in> set ts. t - nb_openedAt b < nb_openDuration b"
    using that by (induction ts) (use assms in \<open>auto simp: breaker_run_def NodeBreaker_Allow_def\<close>)
  then show ?thesis using assms by (simp add: NodeBreaker_Allow_def)
qed

definition sample_open :: NodeBreaker where
  "sample_open = \<lparr>nb_nodeID = ''n'', nb_state = BreakerOpen, nb_fails = 3, nb_succs = 0, nb_openedAt = 0,
     nb_openDuration = 30 * second, nb_cfg = DefaultBreakerConfig\<rparr>"

theorem breaker_open_blocks_until_cooldown_witness:
  "breaker_run sample_open [(1 * second, EvAllow), (29 * second, EvAllow)] = sample_open \<and>
   \<not> fst (NodeBreaker_Allow (29 * second) sample_open) \<and>
   nb_state (snd (NodeBreaker_Allow (30 * second) sample_open)) = BreakerHalfOpen"
  using breaker_open_blocks_until_cooldown [of sample_open "[1 * second, 29 * second]"]
  by (simp add: sample_open_def)

text \<open>A probe that fails: admitted at the end of the cooldown, then reported as a failure.\<close>

fun failed_probes :: "nat \<Rightarrow> NodeBreaker \<Rightarrow> NodeBreaker" where
  "failed_probes 0 b = b"
| "failed_probes (Suc k) b =
     (let t = nb_openedAt b + nb_openDuration b
      in failed_probes k (breaker_run b [(t, EvAllow), (t, EvFailure)]))"

text \<open>
  Each failed probe doubles the cooldown up to the maximum: after \<open>k\<close> failed probes it is
  the smaller of \<open>2 ^ k\<close> times the cooldown the breaker opened with and the maximum.
\<close>

theorem breaker_backoff_exponential:
  assumes "breaker_cfg_ok cfg" and "breaker_inv cfg b" and "nb_state b = BreakerOpen"
  shows "nb_state (failed_probes k b) = BreakerOpen \<and>
    nb_openDuration (failed_probes k b) = min (nb_openDuration b * 2 ^ k) (bc_MaxOpenDuration cfg)"
  using assms(2,3)
proof (induction k arbitrary: b)
  case 0
  then show ?case by (simp add: breaker_inv_def)
next
  case (Suc k)
  let ?t = "nb_openedAt b + nb_openDuration b"
  let ?b = "breaker_run b [(?t, EvAllow), (?t, EvFailure)]"
  have b: "nb_state ?b = BreakerOpen" "nb_openDuration ?b = min (nb_openDuration b * 2) (bc_MaxOpenDuration cfg)"
    using Suc.prems double_openDuration [OF assms(1) Suc.prems(1)]
    by (auto simp: breaker_run_def NodeBreaker_Allow_def NodeBreaker_RecordFailure_def breaker_inv_def minDuration_def)
  have "breaker_inv cfg ?b"
    using Suc.prems assms(1) by (simp add: breaker_run_def Allow_inv RecordFailure_inv)
  from Suc.IH [OF this b(1)] b(2)
  have "nb_state (failed_probes k ?b) = BreakerOpen"
    and d: "nb_openDuration (failed_probes k ?b) =
      min (min (nb_openDuration b * 2) (bc_MaxOpenDuration cfg) * 2 ^ k) (bc_MaxOpenDuration cfg)" by auto
  moreover have "min (min (x * 2) m * 2 ^ k) m = min (x * 2 ^ Suc k) m" if "0 \<le> m" for x m :: int
  proof -
    have "m * 1 \<le> m * 2 ^ k" using that by (intro mult_left_mono) simp_all
    then have "min (m * 2 ^ k) m = m" by simp
    moreover have "min (x * 2) m * 2 ^ k = min (x * 2 ^ Suc k) (m * 2 ^ k)"
      by (simp add: min_mult_distrib_right mult.assoc)
    ultimately show ?thesis by (simp only: min.assoc)
  qed
  moreover have "0 \<le> bc_MaxOpenDuration cfg" using assms(1) by (simp add: breaker_cfg_ok_def)
  ultimately show ?case by (simp add: Let_def)
qed

theorem breaker_backoff_exponential_witness:
  "nb_openDuration (failed_probes 3 sample_open) = 240 * second \<and>
   nb_openDuration (failed_probes 5 sample_open) = 10 * minute"
proof -
  have "breaker_inv DefaultBreakerConfig sample_open" "nb_state sample_open = BreakerOpen"
    by (simp_all add: breaker_inv_def sample_open_def DefaultBreakerConfig_def)
  note b = breaker_backoff_exponential [OF default_cfg_ok this]
  show ?thesis using b [of 3] b [of 5] by (simp add: sample_open_def DefaultBreakerConfig_def)
qed

text \<open>
  A half-open breaker answers every request the same way and does not change: it admits all of
  them until a probe succeeds (the source's comment says one at a time), and after a first
  success that is not yet enough to close it refuses all of them. With a success threshold of two
  or more, the breaker that admitted its single probe and saw it succeed then never admits
  another task, so without a report from elsewhere it stays half-open for ever.
\<close>

theorem breaker_half_open_stuck:
  assumes "nb_state b = BreakerOpen" and "nb_openDuration b \<le> now - nb_openedAt b"
    and "2 \<le> bc_SuccessThreshold (nb_cfg b)"
  shows "let h = snd (NodeBreaker_Allow now b); p = NodeBreaker_RecordSuccess h
    in (\<forall>t. NodeBreaker_Allow t h = (True, h)) \<and> nb_state p = BreakerHalfOpen \<and>
       (\<forall>t. NodeBreaker_Allow t p = (False, p))"
  using assms by (simp add: NodeBreaker_Allow_def NodeBreaker_RecordSuccess_def Let_def)

theorem breaker_half_open_stuck_witness:
  "\<exists>b. b = NodeBreaker_RecordSuccess (snd (NodeBreaker_Allow (30 * second) sample_open)) \<and>
     nb_state b = BreakerHalfOpen \<and> (\<forall>t. NodeBreaker_Allow t b = (False, b))"
  using breaker_half_open_stuck [of sample_open "30 * second"]
  by (simp add: sample_open_def DefaultBreakerConfig_def Let_def)

section \<open>The registry\<close>

lemma Get_states: "nb_state (fst (BreakerRegistry_Get n r)) =
    (case br_breakers r n of None \<Rightarrow> BreakerClosed | Some b \<Rightarrow> nb_state b)"
  by (auto simp: BreakerRegistry_Get_def NewNodeBreaker_def Let_def split: option.splits)

lemma Get_again: "fst (BreakerRegistry_Get n (snd (BreakerRegistry_Get n r))) = fst (BreakerRegistry_Get n r)"
  by (auto simp: BreakerRegistry_Get_def Let_def split: option.splits)

lemma Get_other: "m \<noteq> n \<Longrightarrow> br_breakers (snd (BreakerRegistry_Get n r)) m = br_breakers r m"
  by (auto simp: BreakerRegistry_Get_def Let_def split: option.splits)

lemma Get_cfg [simp]: "br_cfg (snd (BreakerRegistry_Get n r)) = br_cfg r"
  by (auto simp: BreakerRegistry_Get_def Let_def split: option.splits)

lemma modify_same: "br_breakers (BreakerRegistry_modify n f r) n = Some (f (fst (BreakerRegistry_Get n r)))"
  by (simp add: BreakerRegistry_modify_def case_prod_beta Let_def)

lemma modify_other: "m \<noteq> n \<Longrightarrow> br_breakers (BreakerRegistry_modify n f r) m = br_breakers r m"
  by (simp add: BreakerRegistry_modify_def case_prod_beta Let_def Get_other)

lemma modify_cfg [simp]: "br_cfg (BreakerRegistry_modify n f r) = br_cfg r"
  by (simp add: BreakerRegistry_modify_def case_prod_beta Let_def)

definition registry_inv :: "BreakerRegistry \<Rightarrow> bool" where
  "registry_inv r \<longleftrightarrow> breaker_cfg_ok (br_cfg r) \<and> (\<forall>n b. br_breakers r n = Some b \<longrightarrow> breaker_inv (br_cfg r) b)"

lemma Get_inv: "registry_inv r \<Longrightarrow> breaker_inv (br_cfg r) (fst (BreakerRegistry_Get n r))"
  by (auto simp: registry_inv_def BreakerRegistry_Get_def breaker_inv_new Let_def split: option.splits)

lemma modify_inv:
  assumes "registry_inv r" "\<And>b. breaker_inv (br_cfg r) b \<Longrightarrow> breaker_inv (br_cfg r) (f b)"
  shows "registry_inv (BreakerRegistry_modify n f r)"
proof -
  have "breaker_inv (br_cfg r) b" if "br_breakers (BreakerRegistry_modify n f r) m = Some b" for m b
  proof (cases "m = n")
    case True
    then show ?thesis using that modify_same [of n f r] assms(2) Get_inv [OF assms(1)] by auto
  next
    case False
    then show ?thesis using that modify_other [OF False, of f r] assms(1) by (auto simp: registry_inv_def)
  qed
  then show ?thesis using assms(1) by (simp add: registry_inv_def)
qed

lemma Allow_modify:
  "snd (BreakerRegistry_Allow now n r) = BreakerRegistry_modify n (\<lambda>b. snd (NodeBreaker_Allow now b)) r"
  by (simp add: BreakerRegistry_Allow_def BreakerRegistry_modify_def case_prod_beta Let_def)

lemma registry_Allow_fst:
  "fst (BreakerRegistry_Allow now n r) = fst (NodeBreaker_Allow now (fst (BreakerRegistry_Get n r)))"
  by (simp add: BreakerRegistry_Allow_def case_prod_beta Let_def)

lemma registry_Allow_inv: "registry_inv r \<Longrightarrow> registry_inv (snd (BreakerRegistry_Allow now n r))"
  unfolding Allow_modify by (rule modify_inv) (auto simp: registry_inv_def Allow_inv)

end
