(* ===== verification/Sched_Outcome.thy ===== *)
theory Sched_Outcome
  imports Sched_Breaker
begin

text \<open>
  \<open>internal/scheduler/outcome.go\<close> and \<open>affinity.go\<close>: what the scheduler learns from finished
  tasks. The health score is the source's exponentially weighted average, over the reals where the
  source has \<open>float64\<close>; conversions to integers truncate.
\<close>

record TaskOutcome =
  to_NodeID :: string
  to_TaskID :: string
  to_Command :: string
  to_Success :: bool
  to_DurationMs :: int
  to_Error :: string
  to_CompletedAt :: time

section \<open>Node health\<close>

record NodeHealth =
  nh_NodeID :: string
  nh_HealthScore :: real
  nh_AvgDuration :: duration
  nh_TotalTasks :: int
  nh_TotalFails :: int
  nh_LastOutcome :: time

definition ewmaAlpha :: real where "ewmaAlpha = 2 / 10"

definition trunc_real :: "real \<Rightarrow> int" where
  "trunc_real x = (if x < 0 then \<lceil>x\<rceil> else \<lfloor>x\<rfloor>)"

definition NodeHealth_Record :: "TaskOutcome \<Rightarrow> NodeHealth \<Rightarrow> NodeHealth" where
  "NodeHealth_Record outcome h =
     (let h = h\<lparr>nh_TotalTasks := nh_TotalTasks h + 1, nh_LastOutcome := to_CompletedAt outcome\<rparr>;
          h = (if \<not> to_Success outcome then h\<lparr>nh_TotalFails := nh_TotalFails h + 1\<rparr> else h);
          v = (if to_Success outcome then 1 else 0);
          h = (if nh_TotalTasks h = 1 then h\<lparr>nh_HealthScore := v\<rparr>
               else h\<lparr>nh_HealthScore := ewmaAlpha * v + (1 - ewmaAlpha) * nh_HealthScore h\<rparr>);
          d = real_of_int (to_DurationMs outcome)
      in if nh_AvgDuration h = 0 then h\<lparr>nh_AvgDuration := trunc_real d * millisecond\<rparr>
         else let avgMs = real_of_int (nh_AvgDuration h sdiv millisecond);
                  newAvgMs = ewmaAlpha * d + (1 - ewmaAlpha) * avgMs
              in h\<lparr>nh_AvgDuration := trunc_real newAvgMs * millisecond\<rparr>)"

definition new_health :: "string \<Rightarrow> NodeHealth" where
  "new_health n = \<lparr>nh_NodeID = n, nh_HealthScore = 1, nh_AvgDuration = 0, nh_TotalTasks = 0,
     nh_TotalFails = 0, nh_LastOutcome = 0\<rparr>"

section \<open>The recorder, with the breakers it reports to\<close>

record OutcomeRecorder =
  or_nodes :: "string \<rightharpoonup> NodeHealth"
  or_breakers :: BreakerRegistry

definition OutcomeRecorder_Record :: "time \<Rightarrow> TaskOutcome \<Rightarrow> OutcomeRecorder \<Rightarrow> OutcomeRecorder" where
  "OutcomeRecorder_Record now outcome r =
     (let n = to_NodeID outcome;
          h = (case or_nodes r n of Some h \<Rightarrow> h | None \<Rightarrow> new_health n)
      in r\<lparr>or_nodes := (or_nodes r)(n \<mapsto> NodeHealth_Record outcome h),
           or_breakers := BreakerRegistry_modify n
             (if to_Success outcome then NodeBreaker_RecordSuccess else NodeBreaker_RecordFailure now)
             (or_breakers r)\<rparr>)"

definition OutcomeRecorder_HealthScore :: "string \<Rightarrow> OutcomeRecorder \<Rightarrow> real" where
  "OutcomeRecorder_HealthScore n r = (case or_nodes r n of None \<Rightarrow> 1 | Some h \<Rightarrow> nh_HealthScore h)"

definition health_inv :: "NodeHealth \<Rightarrow> bool" where
  "health_inv h \<longleftrightarrow> 0 \<le> nh_HealthScore h \<and> nh_HealthScore h \<le> 1 \<and>
     0 \<le> nh_TotalFails h \<and> nh_TotalFails h \<le> nh_TotalTasks h"

definition recorder_inv :: "OutcomeRecorder \<Rightarrow> bool" where
  "recorder_inv r \<longleftrightarrow> (\<forall>n h. or_nodes r n = Some h \<longrightarrow> health_inv h) \<and> registry_inv (or_breakers r)"

lemma Record_score:
  "nh_HealthScore (NodeHealth_Record out h) =
     (let v = (if to_Success out then 1 else 0)
      in if nh_TotalTasks h = 0 then v else ewmaAlpha * v + (1 - ewmaAlpha) * nh_HealthScore h)"
  by (simp add: NodeHealth_Record_def Let_def)

lemma Record_counts:
  "nh_TotalTasks (NodeHealth_Record out h) = nh_TotalTasks h + 1"
  "nh_TotalFails (NodeHealth_Record out h) = nh_TotalFails h + (if to_Success out then 0 else 1)"
  by (simp_all add: NodeHealth_Record_def Let_def)

lemma Record_health_inv: "health_inv h \<Longrightarrow> health_inv (NodeHealth_Record out h)"
  by (auto simp: health_inv_def Record_score Record_counts Let_def ewmaAlpha_def)

lemma new_health_inv: "health_inv (new_health n)"
  by (simp add: health_inv_def new_health_def)

lemma recorder_Record_inv:
  assumes "recorder_inv r"
  shows "recorder_inv (OutcomeRecorder_Record now out r)"
proof -
  have reg: "registry_inv (or_breakers r)" using assms by (simp add: recorder_inv_def)
  then have "breaker_cfg_ok (br_cfg (or_breakers r))" by (simp add: registry_inv_def)
  then have "registry_inv (or_breakers (OutcomeRecorder_Record now out r))"
    using reg by (auto simp: OutcomeRecorder_Record_def Let_def
        intro!: modify_inv RecordSuccess_inv RecordFailure_inv)
  moreover have "health_inv h" if "or_nodes (OutcomeRecorder_Record now out r) n = Some h" for n h
    using that assms by (auto simp: OutcomeRecorder_Record_def Let_def recorder_inv_def
        intro!: Record_health_inv new_health_inv split: if_splits option.splits)
  ultimately show ?thesis by (simp add: recorder_inv_def)
qed

definition NewOutcomeRecorder :: "BreakerRegistry \<Rightarrow> OutcomeRecorder" where
  "NewOutcomeRecorder breakers = \<lparr>or_nodes = Map.empty, or_breakers = breakers\<rparr>"

definition recorder_run :: "OutcomeRecorder \<Rightarrow> (time \<times> TaskOutcome) list \<Rightarrow> OutcomeRecorder" where
  "recorder_run r outs = foldl (\<lambda>r (now, out). OutcomeRecorder_Record now out r) r outs"

text \<open>
  Whatever outcomes are recorded, every node's health score stays between 0 and 1, no node has
  more failures than tasks, and every breaker of the registry keeps its invariant.
\<close>

theorem recorder_run_invariant:
  assumes "breaker_cfg_ok cfg"
  shows "recorder_inv (recorder_run (NewOutcomeRecorder (NewBreakerRegistry cfg)) outs) \<and>
    0 \<le> OutcomeRecorder_HealthScore n (recorder_run (NewOutcomeRecorder (NewBreakerRegistry cfg)) outs) \<and>
    OutcomeRecorder_HealthScore n (recorder_run (NewOutcomeRecorder (NewBreakerRegistry cfg)) outs) \<le> 1"
proof -
  have "recorder_inv (NewOutcomeRecorder (NewBreakerRegistry cfg))"
    using assms by (simp add: recorder_inv_def NewOutcomeRecorder_def NewBreakerRegistry_def registry_inv_def)
  then have "recorder_inv (recorder_run (NewOutcomeRecorder (NewBreakerRegistry cfg)) outs)"
    unfolding recorder_run_def by (rule foldl_invariant) (auto intro: recorder_Record_inv)
  then show ?thesis
    by (auto simp: OutcomeRecorder_HealthScore_def recorder_inv_def health_inv_def split: option.splits)
qed

definition sample_outcome :: "bool \<Rightarrow> TaskOutcome" where
  "sample_outcome ok = \<lparr>to_NodeID = ''n'', to_TaskID = ''task-0001'', to_Command = ''/usr/bin/ollama run llama3'',
     to_Success = ok, to_DurationMs = 100, to_Error = [], to_CompletedAt = 1000\<rparr>"

theorem recorder_run_invariant_witness:
  "recorder_inv (recorder_run (NewOutcomeRecorder (NewBreakerRegistry DefaultBreakerConfig))
     [(1, sample_outcome True), (2, sample_outcome False)])"
  using recorder_run_invariant [OF default_cfg_ok] by blast

text \<open>
  After a node's first outcome, each further success moves its score up and each failure moves
  it down, by a fifth of the distance to 1 or to 0; \<open>k\<close> failures in a row leave
  \<open>(4/5) ^ k\<close> of the score.
\<close>

fun record_failures :: "nat \<Rightarrow> TaskOutcome \<Rightarrow> NodeHealth \<Rightarrow> NodeHealth" where
  "record_failures 0 out h = h"
| "record_failures (Suc k) out h = record_failures k out (NodeHealth_Record out h)"

theorem health_ewma:
  assumes "0 < nh_TotalTasks h" and "\<not> to_Success out"
  shows "nh_HealthScore (record_failures k out h) = (4 / 5) ^ k * nh_HealthScore h \<and>
    (\<forall>ok. to_Success ok \<longrightarrow>
      1 - nh_HealthScore (NodeHealth_Record ok h) = 4 / 5 * (1 - nh_HealthScore h))"
proof -
  have "nh_HealthScore (record_failures k out h) = (4 / 5) ^ k * nh_HealthScore h" if "0 < nh_TotalTasks h" for h
    using that
  proof (induction k arbitrary: h)
    case (Suc k)
    have "0 < nh_TotalTasks (NodeHealth_Record out h)" using Suc.prems by (simp add: Record_counts)
    then show ?case using Suc assms(2) by (simp add: Record_score Let_def ewmaAlpha_def)
  qed simp
  then show ?thesis using assms by (simp add: Record_score Let_def ewmaAlpha_def field_simps)
qed

theorem health_ewma_witness:
  "nh_HealthScore (record_failures 2 (sample_outcome False) (NodeHealth_Record (sample_outcome True) (new_health ''n''))) = 16 / 25"
  using health_ewma [of "NodeHealth_Record (sample_outcome True) (new_health ''n'')" "sample_outcome False" 2]
  by (simp add: Record_counts Record_score new_health_def sample_outcome_def Let_def power2_eq_square)

section \<open>Affinity\<close>

record AffinityRecord =
  af_NodeID :: string
  af_Pattern :: string
  af_LastSuccess :: time
  af_SuccessCount :: int

type_synonym AffinityTracker = "string \<rightharpoonup> AffinityRecord list"

definition affinityKey :: "string \<Rightarrow> string" where
  "affinityKey command =
     (case str_fields command of
        [] \<Rightarrow> []
      | p # _ \<Rightarrow> after_last CHR ''/'' (trim_right CHR ''/'' p))"

fun affinity_update :: "TaskOutcome \<Rightarrow> AffinityRecord list \<Rightarrow> AffinityRecord list option" where
  "affinity_update out [] = None"
| "affinity_update out (r # rs) =
     (if af_NodeID r = to_NodeID out
      then Some (r\<lparr>af_LastSuccess := to_CompletedAt out, af_SuccessCount := af_SuccessCount r + 1\<rparr> # rs)
      else map_option (\<lambda>rs'. r # rs') (affinity_update out rs))"

definition affinity_records :: "AffinityTracker \<Rightarrow> string \<Rightarrow> AffinityRecord list" where
  "affinity_records a key = (case a key of None \<Rightarrow> [] | Some rs \<Rightarrow> rs)"

definition AffinityTracker_RecordExecution :: "TaskOutcome \<Rightarrow> AffinityTracker \<Rightarrow> AffinityTracker" where
  "AffinityTracker_RecordExecution out a =
     (if \<not> to_Success out then a
      else let key = affinityKey (to_Command out)
           in if key = [] then a
              else let records = affinity_records a key
                   in case affinity_update out records of
                        Some rs \<Rightarrow> a(key \<mapsto> rs)
                      | None \<Rightarrow> a(key \<mapsto> records @ [\<lparr>af_NodeID = to_NodeID out, af_Pattern = key,
                                  af_LastSuccess = to_CompletedAt out, af_SuccessCount = 1\<rparr>]))"

definition AffinityTracker_PreferredNodes :: "time \<Rightarrow> string \<Rightarrow> AffinityTracker \<Rightarrow> string list" where
  "AffinityTracker_PreferredNodes now command a =
     (let key = affinityKey command
      in if key = [] then []
         else map af_NodeID (filter (\<lambda>r. af_LastSuccess r > now - 30 * minute) (affinity_records a key)))"

lemma affinityKey_first:
  "dropWhile is_space command = t \<Longrightarrow> t \<noteq> [] \<Longrightarrow>
   affinityKey command = after_last CHR ''/'' (trim_right CHR ''/'' (takeWhile (\<lambda>c. \<not> is_space c) t))"
  unfolding affinityKey_def str_fields_def by (subst fields_by.simps) (simp add: Let_def)

lemma affinityKey_no_slash: "CHR ''/'' \<notin> set (affinityKey command)"
  by (simp add: affinityKey_def after_last_no_sep split: list.split)

lemma affinity_update_None: "affinity_update out rs = None \<longleftrightarrow> to_NodeID out \<notin> af_NodeID ` set rs"
  by (induction rs) auto

lemma affinity_update_nodes: "affinity_update out rs = Some rs' \<Longrightarrow> map af_NodeID rs' = map af_NodeID rs"
  by (induction rs arbitrary: rs') (auto split: if_splits)

lemma affinity_update_entry:
  "affinity_update out rs = Some rs' \<Longrightarrow> distinct (map af_NodeID rs) \<Longrightarrow>
   r \<in> set rs' \<Longrightarrow> af_NodeID r = to_NodeID out \<Longrightarrow> af_LastSuccess r = to_CompletedAt out"
proof (induction rs arbitrary: rs')
  case (Cons x xs)
  show ?case
  proof (cases "af_NodeID x = to_NodeID out")
    case True
    then show ?thesis using Cons.prems by auto (metis image_eqI)
  next
    case False
    then show ?thesis using Cons by auto
  qed
qed simp

definition affinity_inv :: "AffinityTracker \<Rightarrow> bool" where
  "affinity_inv a \<longleftrightarrow> (\<forall>key. distinct (map af_NodeID (affinity_records a key)))"

lemma records_after:
  "affinity_records (AffinityTracker_RecordExecution out a) key =
     (if to_Success out \<and> key = affinityKey (to_Command out) \<and> key \<noteq> []
      then case affinity_update out (affinity_records a key) of
             Some rs \<Rightarrow> rs
           | None \<Rightarrow> affinity_records a key @ [\<lparr>af_NodeID = to_NodeID out, af_Pattern = key,
               af_LastSuccess = to_CompletedAt out, af_SuccessCount = 1\<rparr>]
      else affinity_records a key)"
  by (auto simp: AffinityTracker_RecordExecution_def affinity_records_def Let_def split: option.splits)

lemma affinity_RecordExecution_inv:
  assumes "affinity_inv a"
  shows "affinity_inv (AffinityTracker_RecordExecution out a)"
  unfolding affinity_inv_def
proof
  fix key
  have d: "distinct (map af_NodeID (affinity_records a key))" using assms by (simp add: affinity_inv_def)
  show "distinct (map af_NodeID (affinity_records (AffinityTracker_RecordExecution out a) key))"
  proof (cases "affinity_update out (affinity_records a key)")
    case None
    then have "to_NodeID out \<notin> af_NodeID ` set (affinity_records a key)"
      using affinity_update_None [of out "affinity_records a key"] by blast
    then show ?thesis using None d by (cases "key = affinityKey (to_Command out)") (simp_all add: records_after)
  next
    case (Some rs)
    then show ?thesis using d affinity_update_nodes [OF Some]
      by (cases "key = affinityKey (to_Command out)") (simp_all add: records_after)
  qed
qed

text \<open>
  A success makes its node preferred for exactly thirty minutes, for every command with the
  same binary name; a failure, or a command without a binary name, changes nothing; and no
  outcome changes the preference for commands with another binary name.
\<close>

theorem affinity_preference:
  assumes "affinity_inv a" and "to_Success out" and "affinityKey (to_Command out) \<noteq> []"
    and "affinityKey command = affinityKey (to_Command out)"
  shows "(to_NodeID out \<in> set (AffinityTracker_PreferredNodes now command (AffinityTracker_RecordExecution out a)) \<longleftrightarrow>
      now - 30 * minute < to_CompletedAt out) \<and>
    (\<forall>other. affinityKey other \<noteq> affinityKey command \<longrightarrow>
      AffinityTracker_PreferredNodes now other (AffinityTracker_RecordExecution out a) =
      AffinityTracker_PreferredNodes now other a) \<and>
    (\<forall>failed. \<not> to_Success failed \<longrightarrow> AffinityTracker_RecordExecution failed a = a)"
proof -
  let ?key = "affinityKey command" and ?a = "AffinityTracker_RecordExecution out a"
  let ?rs = "affinity_records a ?key"
  have d: "distinct (map af_NodeID ?rs)" using assms(1) by (simp add: affinity_inv_def)
  have "to_NodeID out \<in> af_NodeID ` {r \<in> set (affinity_records ?a ?key). now - 30 * minute < af_LastSuccess r}
      \<longleftrightarrow> now - 30 * minute < to_CompletedAt out"
  proof (cases "affinity_update out ?rs")
    case None
    then have "to_NodeID out \<notin> af_NodeID ` set ?rs"
      using affinity_update_None [of out ?rs] by blast
    then have "\<forall>r \<in> set ?rs. af_NodeID r \<noteq> to_NodeID out" by force
    then show ?thesis using None assms by (auto simp: records_after image_iff)
  next
    case (Some rs)
    have "to_NodeID out \<in> af_NodeID ` set ?rs"
    proof (rule ccontr)
      assume "to_NodeID out \<notin> af_NodeID ` set ?rs"
      then have "affinity_update out ?rs = None" using affinity_update_None [of out ?rs] by blast
      then show False using Some by simp
    qed
    then have "to_NodeID out \<in> set (map af_NodeID rs)" using affinity_update_nodes [OF Some] by simp
    then obtain r where r: "r \<in> set rs" "af_NodeID r = to_NodeID out" by auto
    moreover have "affinity_records ?a ?key = rs" using Some assms(2-4) by (simp add: records_after)
    ultimately show ?thesis using affinity_update_entry [OF Some d] by force
  qed
  then have "to_NodeID out \<in> set (AffinityTracker_PreferredNodes now command ?a) \<longleftrightarrow>
      now - 30 * minute < to_CompletedAt out"
    using assms(3,4) by (simp add: AffinityTracker_PreferredNodes_def Let_def)
  moreover have "AffinityTracker_PreferredNodes now other ?a = AffinityTracker_PreferredNodes now other a"
    if "affinityKey other \<noteq> ?key" for other
    using that assms(4) by (simp add: AffinityTracker_PreferredNodes_def Let_def records_after)
  ultimately show ?thesis by (simp add: AffinityTracker_RecordExecution_def)
qed

theorem affinity_preference_witness:
  "''n'' \<in> set (AffinityTracker_PreferredNodes 2000 ''ollama chat'' (AffinityTracker_RecordExecution (sample_outcome True) Map.empty))"
proof -
  have k: "affinityKey (to_Command (sample_outcome True)) = ''ollama''" "affinityKey ''ollama chat'' = ''ollama''"
    by code_simp+
  have inv: "affinity_inv Map.empty" by (simp add: affinity_inv_def affinity_records_def)
  have t: "to_Success (sample_outcome True)" "to_NodeID (sample_outcome True) = ''n''"
    "to_CompletedAt (sample_outcome True) = 1000" by (simp_all add: sample_outcome_def)
  have "affinityKey (to_Command (sample_outcome True)) \<noteq> []"
    "affinityKey ''ollama chat'' = affinityKey (to_Command (sample_outcome True))" by (simp_all only: k) simp
  from conjunct1 [OF affinity_preference [OF inv t(1) this, of 2000]]
  show ?thesis unfolding t by simp
qed

end
