(* ===== verification/Policy_Engine.thy ===== *)
theory Policy_Engine
  imports Prelude
begin

text \<open>
  \<open>internal/policy/engine.go\<close>: the policies a task class is checked against at submission. The
  JSON strings of the source are datatypes with a constructor for every other string. A missing
  telemetry provider is \<open>None\<close>; otherwise the provider gives the snapshot history and the local
  telemetry (\<open>internal/telemetry\<close>), of which the engine reads the fields below. \<open>float64\<close>
  values are reals (no NaN); the RAM and GPU sizes are naturals.
\<close>

datatype Operator = OpGT | OpLT | OpGTE | OpLTE | OpOther string

datatype MetricType = MetricCPUPercent | MetricRAMUsedPercent | MetricGPUUsedPercent
  | MetricTasksRunning | MetricThroughput | MetricTokensSec | MetricOther string

datatype ScopeType = ScopeCluster | ScopeNode | ScopeOther string

datatype ActionType = ActionBlock | ActionBackpressure | ActionOther string

record Rule =
  ru_Metric :: MetricType
  ru_Scope :: ScopeType
  ru_Operator :: Operator
  ru_Value :: real

record Policy =
  po_ID :: string
  po_Name :: string
  po_Enabled :: bool
  po_Rules :: "Rule list"
  po_Action :: ActionType
  po_TargetClass :: string
  po_Message :: string

record ClusterSnapshot =
  cs_CPUPercent :: real
  cs_RAMUsed :: nat
  cs_RAMTotal :: nat
  cs_GPUUsed :: nat
  cs_GPUTotal :: nat
  cs_TasksRunning :: int
  cs_Throughput :: real
  cs_TokensSec :: real

record NodeTelemetry =
  nt_CPUPercent :: real
  nt_RAMUsed :: nat
  nt_RAMTotal :: nat
  nt_GPUUsed :: nat
  nt_GPUTotal :: nat
  nt_TasksRunning :: int

record TelemetryProvider =
  tp_History :: "ClusterSnapshot list"
  tp_Local :: NodeTelemetry

record PolicyEngine =
  pe_policies :: "Policy list"
  pe_provider :: "TelemetryProvider option"

definition NewEngine :: "TelemetryProvider option \<Rightarrow> PolicyEngine" where
  "NewEngine provider = \<lparr>pe_policies = [], pe_provider = provider\<rparr>"

definition Engine_SetPolicies :: "Policy list \<Rightarrow> PolicyEngine \<Rightarrow> PolicyEngine" where
  "Engine_SetPolicies ps e = e\<lparr>pe_policies := ps\<rparr>"

definition Engine_GetPolicies :: "PolicyEngine \<Rightarrow> Policy list" where
  "Engine_GetPolicies e = pe_policies e"

definition zero_snapshot :: ClusterSnapshot where
  "zero_snapshot = \<lparr>cs_CPUPercent = 0, cs_RAMUsed = 0, cs_RAMTotal = 0, cs_GPUUsed = 0, cs_GPUTotal = 0,
     cs_TasksRunning = 0, cs_Throughput = 0, cs_TokensSec = 0\<rparr>"

text \<open>The value of a rule's metric; \<open>None\<close> is \<open>hasMetric = false\<close>.\<close>

definition percent :: "nat \<Rightarrow> nat \<Rightarrow> real option" where
  "percent used cap = (if cap > 0 then Some (of_nat used / of_nat cap * 100) else None)"

definition rule_value :: "Rule \<Rightarrow> ClusterSnapshot \<Rightarrow> NodeTelemetry \<Rightarrow> real option" where
  "rule_value r snap loc =
     (case ru_Scope r of
        ScopeCluster \<Rightarrow>
          (case ru_Metric r of
             MetricCPUPercent \<Rightarrow> Some (cs_CPUPercent snap)
           | MetricRAMUsedPercent \<Rightarrow> percent (cs_RAMUsed snap) (cs_RAMTotal snap)
           | MetricGPUUsedPercent \<Rightarrow> percent (cs_GPUUsed snap) (cs_GPUTotal snap)
           | MetricTasksRunning \<Rightarrow> Some (of_int (cs_TasksRunning snap))
           | MetricThroughput \<Rightarrow> Some (cs_Throughput snap)
           | MetricTokensSec \<Rightarrow> Some (cs_TokensSec snap)
           | MetricOther _ \<Rightarrow> None)
      | ScopeNode \<Rightarrow>
          (case ru_Metric r of
             MetricCPUPercent \<Rightarrow> Some (nt_CPUPercent loc)
           | MetricRAMUsedPercent \<Rightarrow> percent (nt_RAMUsed loc) (nt_RAMTotal loc)
           | MetricGPUUsedPercent \<Rightarrow> percent (nt_GPUUsed loc) (nt_GPUTotal loc)
           | MetricTasksRunning \<Rightarrow> Some (of_int (nt_TasksRunning loc))
           | _ \<Rightarrow> None)
      | ScopeOther _ \<Rightarrow> None)"

definition evaluateRule :: "Rule \<Rightarrow> ClusterSnapshot \<Rightarrow> NodeTelemetry \<Rightarrow> bool" where
  "evaluateRule r snap loc =
     (case rule_value r snap loc of
        None \<Rightarrow> False
      | Some val \<Rightarrow>
          (case ru_Operator r of
             OpGT \<Rightarrow> val > ru_Value r
           | OpLT \<Rightarrow> val < ru_Value r
           | OpGTE \<Rightarrow> val \<ge> ru_Value r
           | OpLTE \<Rightarrow> val \<le> ru_Value r
           | OpOther _ \<Rightarrow> False))"

definition policy_targets :: "string \<Rightarrow> Policy \<Rightarrow> bool" where
  "policy_targets taskClass p =
     (\<not> (po_TargetClass p \<noteq> [] \<and> po_TargetClass p \<noteq> ''all'' \<and> po_TargetClass p \<noteq> taskClass))"

definition policy_matches :: "string \<Rightarrow> ClusterSnapshot \<Rightarrow> NodeTelemetry \<Rightarrow> Policy \<Rightarrow> bool" where
  "policy_matches taskClass snap loc p =
     (po_Enabled p \<and> policy_targets taskClass p \<and> list_all (\<lambda>r. evaluateRule r snap loc) (po_Rules p))"

definition policy_reason :: "Policy \<Rightarrow> string" where
  "policy_reason p = (if po_Message p = [] then ''policy violation: '' @ po_Name p else po_Message p)"

text \<open>The loop over the policies: accepted, backpressure, message.\<close>

fun Evaluate_loop :: "string \<Rightarrow> ClusterSnapshot \<Rightarrow> NodeTelemetry \<Rightarrow> Policy list \<Rightarrow> bool \<times> bool \<times> string" where
  "Evaluate_loop taskClass snap loc [] = (True, False, [])"
| "Evaluate_loop taskClass snap loc (p # ps) =
     (if policy_matches taskClass snap loc p
      then case po_Action p of
             ActionBlock \<Rightarrow> (False, False, policy_reason p)
           | ActionBackpressure \<Rightarrow> (True, True, policy_reason p)
           | ActionOther _ \<Rightarrow> Evaluate_loop taskClass snap loc ps
      else Evaluate_loop taskClass snap loc ps)"

definition Engine_Evaluate :: "string \<Rightarrow> PolicyEngine \<Rightarrow> bool \<times> bool \<times> string" where
  "Engine_Evaluate taskClass e =
     (case pe_provider e of
        None \<Rightarrow> (True, False, [])
      | Some tp \<Rightarrow>
          if pe_policies e = [] then (True, False, [])
          else Evaluate_loop taskClass (if tp_History tp = [] then zero_snapshot else last (tp_History tp))
                 (tp_Local tp) (pe_policies e))"

section \<open>The first decisive policy decides\<close>

definition decisive :: "string \<Rightarrow> ClusterSnapshot \<Rightarrow> NodeTelemetry \<Rightarrow> Policy \<Rightarrow> bool" where
  "decisive taskClass snap loc p \<longleftrightarrow>
     policy_matches taskClass snap loc p \<and> (po_Action p = ActionBlock \<or> po_Action p = ActionBackpressure)"

lemma Evaluate_loop_find:
  "Evaluate_loop taskClass snap loc ps =
     (case find (decisive taskClass snap loc) ps of
        None \<Rightarrow> (True, False, [])
      | Some p \<Rightarrow> (po_Action p \<noteq> ActionBlock, po_Action p = ActionBackpressure, policy_reason p))"
  by (induction ps) (auto simp: decisive_def split: ActionType.splits)

definition provider_snapshot :: "TelemetryProvider \<Rightarrow> ClusterSnapshot" where
  "provider_snapshot tp = (if tp_History tp = [] then zero_snapshot else last (tp_History tp))"

lemma Evaluate_find:
  "pe_provider e = Some tp \<Longrightarrow>
   Engine_Evaluate taskClass e =
     (case find (decisive taskClass (provider_snapshot tp) (tp_Local tp)) (pe_policies e) of
        None \<Rightarrow> (True, False, [])
      | Some p \<Rightarrow> (po_Action p \<noteq> ActionBlock, po_Action p = ActionBackpressure, policy_reason p))"
  by (simp add: Engine_Evaluate_def Evaluate_loop_find provider_snapshot_def)

text \<open>
  A task class is rejected exactly when a telemetry provider is present and, among the
  enabled policies for the class whose rules all hold and whose action is block or backpressure,
  the first one in the list blocks.
\<close>

theorem Evaluate_rejects_iff:
  "\<not> fst (Engine_Evaluate taskClass e) \<longleftrightarrow>
     (\<exists>tp ps p rest. pe_provider e = Some tp \<and> pe_policies e = ps @ p # rest \<and>
        policy_matches taskClass (provider_snapshot tp) (tp_Local tp) p \<and> po_Action p = ActionBlock \<and>
        filter (decisive taskClass (provider_snapshot tp) (tp_Local tp)) ps = [])"
proof (cases "pe_provider e")
  case None
  then show ?thesis by (simp add: Engine_Evaluate_def)
next
  case (Some tp)
  let ?d = "decisive taskClass (provider_snapshot tp) (tp_Local tp)"
  have "\<not> fst (Engine_Evaluate taskClass e) \<longleftrightarrow> (\<exists>p. find ?d (pe_policies e) = Some p \<and> po_Action p = ActionBlock)"
    by (auto simp: Evaluate_find [OF Some] split: option.split)
  also have "\<dots> \<longleftrightarrow> (\<exists>ps p rest. pe_policies e = ps @ p # rest \<and> ?d p \<and> po_Action p = ActionBlock \<and> filter ?d ps = [])"
  proof
    assume "\<exists>p. find ?d (pe_policies e) = Some p \<and> po_Action p = ActionBlock"
    then obtain p where p: "find ?d (pe_policies e) = Some p" "po_Action p = ActionBlock" by blast
    then obtain i where i: "i < length (pe_policies e)" "?d (pe_policies e ! i)" "p = pe_policies e ! i"
      "\<forall>j < i. \<not> ?d (pe_policies e ! j)" by (auto simp: find_Some_iff)
    have "filter ?d (take i (pe_policies e)) = []"
      using i(1,4) by (auto simp: filter_empty_conv in_set_conv_nth)
    then show "\<exists>ps p rest. pe_policies e = ps @ p # rest \<and> ?d p \<and> po_Action p = ActionBlock \<and> filter ?d ps = []"
      using id_take_nth_drop [OF i(1)] i p(2) by blast
  next
    assume "\<exists>ps p rest. pe_policies e = ps @ p # rest \<and> ?d p \<and> po_Action p = ActionBlock \<and> filter ?d ps = []"
    then obtain ps p rest where e: "pe_policies e = ps @ p # rest" and p: "?d p" "po_Action p = ActionBlock"
      and none: "filter ?d ps = []" by blast
    have "find ?d (ps @ p # rest) = Some p"
      using p(1) none by (induction ps) (auto split: if_splits)
    then show "\<exists>p. find ?d (pe_policies e) = Some p \<and> po_Action p = ActionBlock" using e p by auto
  qed
  finally show ?thesis using Some by (auto simp: decisive_def)
qed

text \<open>
  The order of the policies matters. A matching backpressure policy that stands before every
  decisive policy hides all that follow it: the task is accepted even when a later policy that
  matches would block it.
\<close>

theorem backpressure_masks_block:
  assumes "pe_provider e = Some tp" and "pe_policies e = ps @ p # rest"
    and "filter (decisive taskClass (provider_snapshot tp) (tp_Local tp)) ps = []"
    and "policy_matches taskClass (provider_snapshot tp) (tp_Local tp) p"
    and "po_Action p = ActionBackpressure"
  shows "Engine_Evaluate taskClass e = (True, True, policy_reason p)"
proof -
  have "find (decisive taskClass (provider_snapshot tp) (tp_Local tp)) (ps @ p # rest) = Some p"
    using assms(3,4,5) by (induction ps) (auto simp: decisive_def split: if_splits)
  then show ?thesis using assms(2,5) by (simp add: Evaluate_find [OF assms(1)])
qed

definition busy_provider :: TelemetryProvider where
  "busy_provider = \<lparr>tp_History = [zero_snapshot\<lparr>cs_CPUPercent := 95\<rparr>],
     tp_Local = \<lparr>nt_CPUPercent = 10, nt_RAMUsed = 1, nt_RAMTotal = 4, nt_GPUUsed = 0, nt_GPUTotal = 0, nt_TasksRunning = 0\<rparr>\<rparr>"

definition cpu_policy :: "ActionType \<Rightarrow> real \<Rightarrow> Policy" where
  "cpu_policy action limit = \<lparr>po_ID = ''p'', po_Name = ''cpu'', po_Enabled = True,
     po_Rules = [\<lparr>ru_Metric = MetricCPUPercent, ru_Scope = ScopeCluster, ru_Operator = OpGT, ru_Value = limit\<rparr>],
     po_Action = action, po_TargetClass = ''all'', po_Message = ''busy''\<rparr>"

theorem backpressure_masks_block_witness:
  "Engine_Evaluate ''llm'' \<lparr>pe_policies = [cpu_policy ActionBackpressure 80, cpu_policy ActionBlock 90],
      pe_provider = Some busy_provider\<rparr> = (True, True, ''busy'') \<and>
   \<not> fst (Engine_Evaluate ''llm'' \<lparr>pe_policies = [cpu_policy ActionBlock 90, cpu_policy ActionBackpressure 80],
      pe_provider = Some busy_provider\<rparr>)"
proof -
  have m: "policy_matches ''llm'' (provider_snapshot busy_provider) (tp_Local busy_provider) (cpu_policy a l)" if "l < 95" for a l
    using that by (simp add: policy_matches_def policy_targets_def cpu_policy_def evaluateRule_def rule_value_def
        provider_snapshot_def busy_provider_def zero_snapshot_def)
  have "Engine_Evaluate ''llm'' \<lparr>pe_policies = [cpu_policy ActionBackpressure 80, cpu_policy ActionBlock 90],
      pe_provider = Some busy_provider\<rparr> = (True, True, policy_reason (cpu_policy ActionBackpressure 80))"
    by (rule backpressure_masks_block [where ps = "[]" and rest = "[cpu_policy ActionBlock 90]" and tp = busy_provider])
      (simp_all add: m, simp add: cpu_policy_def)
  moreover have "decisive ''llm'' (provider_snapshot busy_provider) (tp_Local busy_provider) (cpu_policy ActionBlock 90)"
    using m [of 90 ActionBlock] by (simp add: decisive_def) (simp add: cpu_policy_def)
  ultimately show ?thesis by (simp add: Evaluate_find policy_reason_def cpu_policy_def)
qed

text \<open>A policy without rules matches whenever it is enabled and targets the class.\<close>

lemma empty_rules_match: "po_Enabled p \<Longrightarrow> po_TargetClass p = [] \<Longrightarrow> po_Rules p = [] \<Longrightarrow> policy_matches c s l p"
  by (simp add: policy_matches_def policy_targets_def)

end
