(* ===== verification/Cluster.thy ===== *)
theory Cluster
  imports Go_Strings "HOL-Library.Product_Lexorder"
begin

text \<open>
  \<open>internal/cluster/cluster.go\<close> and \<open>health.go\<close>: the store of the cluster's nodes, the election
  of the coordinator and the health checker that marks silent nodes offline. \<open>uint64\<close> sizes are
  64-bit words. A stored \<open>*NodeInfo\<close> is the record itself. The calls of \<open>onChange\<close> are kept in
  order in \<open>cm_events\<close>, and \<open>cm_hook\<close> says whether a callback is set.
\<close>

datatype NodeStatus = StatusOnline | StatusOffline

datatype DeviceType = DeviceLaptop | DeviceDesktop | DevicePhone | DevicePI | DeviceUnknown

record GPUInfo =
  gi_Available :: bool
  gi_VRAM :: int
  gi_VRAMFree :: int

record NodeInfo =
  ni_ID :: string
  ni_Name :: string
  ni_Status :: NodeStatus
  ni_DeviceType :: DeviceType
  ni_OS :: string
  ni_Arch :: string
  ni_CPUPercent :: real
  ni_RAMUsed :: uint64
  ni_RAMTotal :: uint64
  ni_StorageUsed :: uint64
  ni_StorageTotal :: uint64
  ni_Addresses :: "string list"
  ni_LastSeen :: time
  ni_JoinedAt :: time
  ni_UptimeSeconds :: int
  ni_GPU :: GPUInfo

record JoinToken =
  jt_Token :: string
  jt_ExpiresAt :: time
  jt_Used :: bool

datatype NodeEvent = NodeJoined NodeInfo | NodeUpdated NodeInfo | NodeWentOffline NodeInfo | NodeLeft NodeInfo

record Manager =
  cm_nodes :: "string \<rightharpoonup> NodeInfo"
  cm_joinTokens :: "string \<rightharpoonup> JoinToken"
  cm_clusterSecret :: string
  cm_trustedPeers :: "string set"
  cm_hook :: bool
  cm_events :: "NodeEvent list"

definition NewManager :: "bool \<Rightarrow> Manager" where
  "NewManager hook = \<lparr>cm_nodes = Map.empty, cm_joinTokens = Map.empty, cm_clusterSecret = [],
     cm_trustedPeers = {}, cm_hook = hook, cm_events = []\<rparr>"

definition SetClusterSecret :: "string \<Rightarrow> Manager \<Rightarrow> Manager" where
  "SetClusterSecret secret m = m\<lparr>cm_clusterSecret := secret\<rparr>"

definition TrustPeer :: "string \<Rightarrow> Manager \<Rightarrow> Manager" where
  "TrustPeer peer m = m\<lparr>cm_trustedPeers := insert peer (cm_trustedPeers m)\<rparr>"

definition IsPeerTrusted :: "string \<Rightarrow> Manager \<Rightarrow> bool" where
  "IsPeerTrusted peer m = (peer \<in> cm_trustedPeers m)"

definition SetOnChange :: "bool \<Rightarrow> Manager \<Rightarrow> Manager" where
  "SetOnChange hook m = m\<lparr>cm_hook := hook\<rparr>"

definition emit :: "NodeEvent \<Rightarrow> Manager \<Rightarrow> Manager" where
  "emit e m = (if cm_hook m then m\<lparr>cm_events := cm_events m @ [e]\<rparr> else m)"

definition Manager_Upsert :: "time \<Rightarrow> NodeInfo \<Rightarrow> Manager \<Rightarrow> Manager" where
  "Manager_Upsert now info m =
     (case cm_nodes m (ni_ID info) of
        None \<Rightarrow>
          (let info = info\<lparr>ni_JoinedAt := now\<rparr>
           in emit (NodeJoined info) (m\<lparr>cm_nodes := (cm_nodes m)(ni_ID info \<mapsto> info)\<rparr>))
      | Some existing \<Rightarrow>
          (let info = info\<lparr>ni_JoinedAt := ni_JoinedAt existing\<rparr>;
               info = (if ni_Addresses info = [] then info\<lparr>ni_Addresses := ni_Addresses existing\<rparr> else info)
           in emit (NodeUpdated info) (m\<lparr>cm_nodes := (cm_nodes m)(ni_ID info \<mapsto> info)\<rparr>)))"

definition Manager_MarkOffline :: "string \<Rightarrow> Manager \<Rightarrow> Manager" where
  "Manager_MarkOffline nid m =
     (case cm_nodes m nid of
        None \<Rightarrow> m
      | Some node \<Rightarrow>
          (let node = node\<lparr>ni_Status := StatusOffline\<rparr>
           in emit (NodeWentOffline node) (m\<lparr>cm_nodes := (cm_nodes m)(nid \<mapsto> node)\<rparr>)))"

definition Manager_Remove :: "string \<Rightarrow> Manager \<Rightarrow> bool \<times> Manager" where
  "Manager_Remove nid m =
     (case cm_nodes m nid of
        None \<Rightarrow> (False, m)
      | Some node \<Rightarrow>
          (True, emit (NodeLeft node)
             (m\<lparr>cm_nodes := (cm_nodes m)(nid := None), cm_trustedPeers := cm_trustedPeers m - {nid}\<rparr>)))"

definition Manager_Get :: "string \<Rightarrow> Manager \<Rightarrow> NodeInfo option" where
  "Manager_Get nid m = cm_nodes m nid"

text \<open>Operations that range over \<open>m.nodes\<close> take the order of its keys as \<open>ks\<close>.\<close>

definition Manager_List :: "string list \<Rightarrow> Manager \<Rightarrow> NodeInfo list" where
  "Manager_List ks m = map (\<lambda>k. the (cm_nodes m k)) ks"

record Summary =
  su_NodeCount :: int
  su_OfflineCount :: int
  su_TotalRAM :: uint64
  su_UsedRAM :: uint64
  su_TotalStorage :: uint64
  su_UsedStorage :: uint64
  su_TotalVRAM :: uint64
  su_FreeVRAM :: uint64
  su_GPUNodeCount :: int

definition Summary_add :: "Summary \<Rightarrow> NodeInfo \<Rightarrow> Summary" where
  "Summary_add s n =
     (if ni_Status n = StatusOnline
      then let s = s\<lparr>su_NodeCount := su_NodeCount s + 1, su_TotalRAM := su_TotalRAM s + ni_RAMTotal n,
                 su_UsedRAM := su_UsedRAM s + ni_RAMUsed n, su_TotalStorage := su_TotalStorage s + ni_StorageTotal n,
                 su_UsedStorage := su_UsedStorage s + ni_StorageUsed n\<rparr>
           in if gi_Available (ni_GPU n)
              then s\<lparr>su_GPUNodeCount := su_GPUNodeCount s + 1,
                   su_TotalVRAM := su_TotalVRAM s + word_of_int (gi_VRAM (ni_GPU n)),
                   su_FreeVRAM := su_FreeVRAM s + word_of_int (gi_VRAMFree (ni_GPU n))\<rparr>
              else s
      else s\<lparr>su_OfflineCount := su_OfflineCount s + 1\<rparr>)"

definition Manager_Summary :: "string list \<Rightarrow> Manager \<Rightarrow> Summary" where
  "Manager_Summary ks m = foldl Summary_add \<lparr>su_NodeCount = 0, su_OfflineCount = 0, su_TotalRAM = 0, su_UsedRAM = 0,
     su_TotalStorage = 0, su_UsedStorage = 0, su_TotalVRAM = 0, su_FreeVRAM = 0, su_GPUNodeCount = 0\<rparr> (Manager_List ks m)"

definition InferDeviceType :: "string \<Rightarrow> string \<Rightarrow> DeviceType" where
  "InferDeviceType os platform =
     (let os = to_lower os; platform = to_lower platform
      in if contains platform ''android'' \<or> contains platform ''ios'' then DevicePhone
         else if contains platform ''arm'' \<or> contains os ''linux'' \<and> contains platform ''pi'' then DevicePI
         else if os = ''darwin'' then DeviceLaptop
         else if os = ''windows'' then DeviceDesktop
         else DeviceUnknown)"

section \<open>The coordinator\<close>

definition free_mb :: "NodeInfo \<Rightarrow> int" where
  "free_mb n = (let free = (if ni_RAMTotal n > ni_RAMUsed n then ni_RAMTotal n - ni_RAMUsed n else 0)
     in uint (free div 1048576))"

definition coord_score :: "NodeInfo \<Rightarrow> int" where
  "coord_score n = i64 (ni_UptimeSeconds n + free_mb n)"

text \<open>The comparison given to \<open>sort.Slice\<close>.\<close>

definition coord_less :: "NodeInfo \<Rightarrow> NodeInfo \<Rightarrow> bool" where
  "coord_less a b =
     (if coord_score a \<noteq> coord_score b then coord_score a > coord_score b else string_less (ni_ID a) (ni_ID b))"

definition online_nodes :: "string list \<Rightarrow> Manager \<Rightarrow> NodeInfo list" where
  "online_nodes ks m = filter (\<lambda>n. ni_Status n = StatusOnline) (Manager_List ks m)"

definition CoordinatorID :: "string list \<Rightarrow> Manager \<Rightarrow> string" where
  "CoordinatorID ks m =
     (let online = online_nodes ks m
      in if online = [] then [] else ni_ID (hd (slice_sort coord_less online)))"

definition OnlineNodeIDs :: "string list \<Rightarrow> Manager \<Rightarrow> string list" where
  "OnlineNodeIDs ks m =
     slice_sort string_less (filter (\<lambda>nid. ni_Status (the (cm_nodes m nid)) = StatusOnline) ks)"

definition TotalRAMBytes :: "string list \<Rightarrow> Manager \<Rightarrow> int" where
  "TotalRAMBytes ks m = sint (foldl (\<lambda>acc n. if ni_Status n = StatusOnline then acc + ni_RAMTotal n else acc)
     (0 :: uint64) (Manager_List ks m))"

section \<open>The health checker\<close>

abbreviation deadNodeTimeout :: duration where "deadNodeTimeout \<equiv> 10 * second"

text \<open>One node of the loop of \<open>check\<close>: the manager and the calls of \<open>OnEvict\<close> so far.\<close>

definition check_node :: "time \<Rightarrow> string \<Rightarrow> bool \<Rightarrow> Manager \<times> string list \<Rightarrow> NodeInfo \<Rightarrow> Manager \<times> string list" where
  "check_node now self isCoordinator st node =
     (case st of (m, evicted) \<Rightarrow>
        if ni_ID node = self then (m, evicted)
        else if ni_Status node = StatusOffline then (m, evicted)
        else if ni_LastSeen node < now - deadNodeTimeout
        then (Manager_MarkOffline (ni_ID node) m, if isCoordinator then evicted @ [ni_ID node] else evicted)
        else (m, evicted))"

definition HealthChecker_check :: "time \<Rightarrow> string list \<Rightarrow> string list \<Rightarrow> string \<Rightarrow> Manager \<Rightarrow> Manager \<times> string list" where
  "HealthChecker_check now ks ks' self m =
     foldl (check_node now self (CoordinatorID ks m = self)) (m, []) (Manager_List ks' m)"


section \<open>The store: every node is stored under its own ID\<close>

definition nodes_ok :: "Manager \<Rightarrow> bool" where
  "nodes_ok m \<longleftrightarrow> (\<forall>k n. cm_nodes m k = Some n \<longrightarrow> ni_ID n = k)"

lemma emit_frame [simp]:
  "cm_nodes (emit e m) = cm_nodes m" "cm_joinTokens (emit e m) = cm_joinTokens m"
  "cm_clusterSecret (emit e m) = cm_clusterSecret m" "cm_trustedPeers (emit e m) = cm_trustedPeers m"
  by (simp_all add: emit_def)

lemma MarkOffline_frame [simp]:
  "cm_joinTokens (Manager_MarkOffline k m) = cm_joinTokens m"
  "cm_clusterSecret (Manager_MarkOffline k m) = cm_clusterSecret m"
  "cm_trustedPeers (Manager_MarkOffline k m) = cm_trustedPeers m"
  by (simp_all add: Manager_MarkOffline_def Let_def split: option.split)

lemma MarkOffline_nodes:
  "cm_nodes (Manager_MarkOffline k m) =
     (cm_nodes m)(k := map_option (\<lambda>n. n\<lparr>ni_Status := StatusOffline\<rparr>) (cm_nodes m k))"
  by (auto simp: Manager_MarkOffline_def Let_def split: option.split)

lemma NewManager_ok: "nodes_ok (NewManager hook)"
  by (simp add: nodes_ok_def NewManager_def)

lemma Upsert_ok: "nodes_ok m \<Longrightarrow> nodes_ok (Manager_Upsert now info m)"
  by (auto simp: nodes_ok_def Manager_Upsert_def Let_def split: option.split)

lemma MarkOffline_ok: "nodes_ok m \<Longrightarrow> nodes_ok (Manager_MarkOffline k m)"
  by (auto simp: nodes_ok_def MarkOffline_nodes)

lemma Remove_ok: "nodes_ok m \<Longrightarrow> nodes_ok (snd (Manager_Remove k m))"
  by (auto simp: nodes_ok_def Manager_Remove_def split: option.split)

lemma Upsert_keeps:
  "cm_nodes m (ni_ID info) = Some old \<Longrightarrow>
   \<exists>new. cm_nodes (Manager_Upsert now info m) (ni_ID info) = Some new \<and> ni_JoinedAt new = ni_JoinedAt old \<and>
     (ni_Addresses info = [] \<longrightarrow> ni_Addresses new = ni_Addresses old) \<and> ni_Status new = ni_Status info"
  by (cases "ni_Addresses info = []") (simp_all add: Manager_Upsert_def Let_def)

lemma Remove_untrusts: "fst (Manager_Remove k m) \<Longrightarrow> \<not> IsPeerTrusted k (snd (Manager_Remove k m))"
  by (simp add: Manager_Remove_def IsPeerTrusted_def split: option.splits)

lemma Upsert_trust: "IsPeerTrusted k (Manager_Upsert now info m) = IsPeerTrusted k m"
  by (simp add: Manager_Upsert_def IsPeerTrusted_def Let_def split: option.split)

section \<open>The coordinator does not depend on the iteration order\<close>

definition coord_key :: "NodeInfo \<Rightarrow> int \<times> nat list" where
  "coord_key n = (- coord_score n, string_key (ni_ID n))"

lemma coord_less_iff: "coord_less a b \<longleftrightarrow> coord_key a < coord_key b"
  by (auto simp: coord_less_def coord_key_def string_less_iff)

lemma weak_order_coord_less: "weak_order coord_less"
proof -
  have eq: "coord_less = (\<lambda>a b. coord_key a < coord_key b)" by (intro ext) (rule coord_less_iff)
  show ?thesis unfolding eq by (rule weak_order_key)
qed

lemma coord_less_total: "\<not> coord_less a b \<Longrightarrow> \<not> coord_less b a \<Longrightarrow> ni_ID a = ni_ID b"
  by (metis coord_less_iff coord_key_def linorder_less_linear prod.inject string_key_inj)

definition online :: "Manager \<Rightarrow> string \<Rightarrow> NodeInfo \<Rightarrow> bool" where
  "online m k n \<longleftrightarrow> cm_nodes m k = Some n \<and> ni_Status n = StatusOnline"

definition is_coordinator :: "string \<Rightarrow> Manager \<Rightarrow> bool" where
  "is_coordinator c m \<longleftrightarrow> (\<exists>n. online m c n \<and> (\<forall>k n'. online m k n' \<longrightarrow> \<not> coord_less n' n))"

lemma set_Manager_List: "map_order ks (cm_nodes m) \<Longrightarrow> set (Manager_List ks m) = ran (cm_nodes m)"
  by (force simp: Manager_List_def map_order_def ran_def)

lemma online_nodes_mem:
  "map_order ks (cm_nodes m) \<Longrightarrow> n \<in> set (online_nodes ks m) \<longleftrightarrow> (\<exists>k. online m k n)"
  by (auto simp: online_nodes_def set_Manager_List ran_def online_def)

lemma CoordinatorID_is_coordinator:
  assumes "map_order ks (cm_nodes m)" and "nodes_ok m" and "online m k n"
  shows "is_coordinator (CoordinatorID ks m) m"
proof -
  let ?on = "online_nodes ks m" and ?h = "hd (slice_sort coord_less (online_nodes ks m))"
  have ne: "?on \<noteq> []" using assms(1,3) online_nodes_mem [of ks m n] by auto
  have "?h \<in> set (slice_sort coord_less ?on)" using ne by (intro hd_in_set) simp
  then have h: "?h \<in> set ?on" by simp
  then obtain j where j: "online m j ?h" using online_nodes_mem [OF assms(1)] by blast
  then have "ni_ID ?h = j" using assms(2) by (simp add: nodes_ok_def online_def)
  moreover have "\<not> coord_less n' ?h" if "online m k' n'" for k' n'
    using that online_nodes_mem [OF assms(1)] by (intro slice_sort_hd weak_order_coord_less) blast
  ultimately show ?thesis using j ne by (auto simp: is_coordinator_def CoordinatorID_def Let_def)
qed

lemma is_coordinator_unique: "nodes_ok m \<Longrightarrow> is_coordinator c m \<Longrightarrow> is_coordinator d m \<Longrightarrow> c = d"
proof -
  assume ok: "nodes_ok m" and "is_coordinator c m" and "is_coordinator d m"
  then obtain a b where ab: "online m c a" "online m d b" "\<not> coord_less b a" "\<not> coord_less a b"
    unfolding is_coordinator_def by blast
  then have "ni_ID a = ni_ID b" using coord_less_total by blast
  then show "c = d" using ok ab(1,2) by (auto simp: nodes_ok_def online_def)
qed

lemma CoordinatorID_none:
  "map_order ks (cm_nodes m) \<Longrightarrow> \<forall>k n. \<not> online m k n \<Longrightarrow> CoordinatorID ks m = []"
  using online_nodes_mem [of ks m] by (auto simp: CoordinatorID_def Let_def) (metis list.set_intros(1) neq_Nil_conv)

lemma CoordinatorID_eq:
  "map_order ks (cm_nodes m) \<Longrightarrow> nodes_ok m \<Longrightarrow> is_coordinator c m \<Longrightarrow> CoordinatorID ks m = c"
proof -
  assume a: "map_order ks (cm_nodes m)" "nodes_ok m" "is_coordinator c m"
  then obtain n where "online m c n" unfolding is_coordinator_def by blast
  from is_coordinator_unique [OF a(2) CoordinatorID_is_coordinator [OF a(1,2) this] a(3)]
  show "CoordinatorID ks m = c" .
qed

text \<open>
  C18: Two nodes whose views contain the same online nodes elect the same coordinator, whatever
  order their maps are ranged over and whatever offline nodes they remember; the coordinator is
  an online node that no other online node precedes (higher score, then smaller ID).
\<close>

theorem coordinator_agreement:
  assumes "nodes_ok m" and "nodes_ok m'" and "map_order ks (cm_nodes m)" and "map_order ks' (cm_nodes m')"
    and "online m = online m'"
  shows "CoordinatorID ks m = CoordinatorID ks' m' \<and>
    (CoordinatorID ks m \<noteq> [] \<longrightarrow> is_coordinator (CoordinatorID ks m) m)"
proof (cases "\<exists>k n. online m k n")
  case True
  then have c: "is_coordinator (CoordinatorID ks m) m" using CoordinatorID_is_coordinator assms(1,3) by blast
  then have "is_coordinator (CoordinatorID ks m) m'" using assms(5) by (simp add: is_coordinator_def)
  from CoordinatorID_eq [OF assms(4,2) this] c show ?thesis by simp
next
  case False
  then have "\<forall>k n. \<not> online m k n" "\<forall>k n. \<not> online m' k n" using assms(5) by simp_all
  then show ?thesis using CoordinatorID_none [OF assms(3)] CoordinatorID_none [OF assms(4)] by simp
qed

definition sample_node :: "string \<Rightarrow> NodeStatus \<Rightarrow> int \<Rightarrow> time \<Rightarrow> NodeInfo" where
  "sample_node k st uptime seen = \<lparr>ni_ID = k, ni_Name = k, ni_Status = st, ni_DeviceType = DeviceUnknown,
     ni_OS = ''linux'', ni_Arch = ''amd64'', ni_CPUPercent = 0, ni_RAMUsed = 0, ni_RAMTotal = 0,
     ni_StorageUsed = 0, ni_StorageTotal = 0, ni_Addresses = [], ni_LastSeen = seen, ni_JoinedAt = 0,
     ni_UptimeSeconds = uptime, ni_GPU = \<lparr>gi_Available = False, gi_VRAM = 0, gi_VRAMFree = 0\<rparr>\<rparr>"

definition sample_cluster :: "(string \<rightharpoonup> NodeInfo) \<Rightarrow> Manager" where
  "sample_cluster ns = (NewManager False)\<lparr>cm_nodes := ns\<rparr>"

lemma sample_cluster_simps [simp]: "cm_nodes (sample_cluster ns) = ns"
  by (simp add: sample_cluster_def)

theorem coordinator_agreement_witness:
  "CoordinatorID [''a'', ''b''] (sample_cluster [''a'' \<mapsto> sample_node ''a'' StatusOnline 10 0, ''b'' \<mapsto> sample_node ''b'' StatusOnline 20 0]) =
   CoordinatorID [''c'', ''b'', ''a''] (sample_cluster [''a'' \<mapsto> sample_node ''a'' StatusOnline 10 0,
     ''b'' \<mapsto> sample_node ''b'' StatusOnline 20 0, ''c'' \<mapsto> sample_node ''c'' StatusOffline 99 0])"
proof (rule conjunct1 [OF coordinator_agreement])
  let ?m = "sample_cluster [''a'' \<mapsto> sample_node ''a'' StatusOnline 10 0, ''b'' \<mapsto> sample_node ''b'' StatusOnline 20 0]"
  let ?m' = "sample_cluster [''a'' \<mapsto> sample_node ''a'' StatusOnline 10 0,
     ''b'' \<mapsto> sample_node ''b'' StatusOnline 20 0, ''c'' \<mapsto> sample_node ''c'' StatusOffline 99 0]"
  show "nodes_ok ?m" "nodes_ok ?m'" by (simp_all add: nodes_ok_def sample_node_def)
  show "map_order [''a'', ''b''] (cm_nodes ?m)" "map_order [''c'', ''b'', ''a''] (cm_nodes ?m')"
    by (auto simp: map_order_def)
  show "online ?m = online ?m'" by (intro ext) (auto simp: online_def sample_node_def)
qed

section \<open>What a health check does\<close>

definition timed_out :: "time \<Rightarrow> string \<Rightarrow> NodeInfo \<Rightarrow> bool" where
  "timed_out now self n \<longleftrightarrow>
     ni_ID n \<noteq> self \<and> ni_Status n = StatusOnline \<and> ni_LastSeen n < now - deadNodeTimeout"

definition expire :: "time \<Rightarrow> string \<Rightarrow> NodeInfo \<Rightarrow> NodeInfo" where
  "expire now self n = (if timed_out now self n then n\<lparr>ni_Status := StatusOffline\<rparr> else n)"

lemma check_node_eq:
  "check_node now self c (m, ev) n =
     (if timed_out now self n then (Manager_MarkOffline (ni_ID n) m, if c then ev @ [ni_ID n] else ev) else (m, ev))"
  by (cases "ni_Status n") (auto simp: check_node_def timed_out_def)

lemma check_loop:
  assumes "distinct ks" and "\<And>k. k \<in> set ks \<Longrightarrow> \<exists>n. nodes k = Some n \<and> ni_ID n = k"
    and "\<And>k. k \<in> set ks \<Longrightarrow> cm_nodes m k = nodes k"
  shows "foldl (check_node now self c) (m, ev) (map (\<lambda>k. the (nodes k)) ks) = (m', ev') \<Longrightarrow>
    (\<forall>k. cm_nodes m' k = (if k \<in> set ks then map_option (expire now self) (cm_nodes m k) else cm_nodes m k)) \<and>
    ev' = ev @ (if c then filter (\<lambda>k. timed_out now self (the (nodes k))) ks else [])"
  using assms
proof (induction ks arbitrary: m ev)
  case (Cons k ks)
  obtain n where n: "nodes k = Some n" "ni_ID n = k" using Cons.prems(3) [of k] by auto
  obtain m1 ev1 where s: "check_node now self c (m, ev) n = (m1, ev1)" by (metis surj_pair)
  have m1: "cm_nodes m1 = (cm_nodes m)(k := map_option (expire now self) (cm_nodes m k))"
    "ev1 = ev @ (if c \<and> timed_out now self n then [k] else [])"
    using s n Cons.prems(4) [of k] by (auto simp: check_node_eq MarkOffline_nodes expire_def split: if_splits)
  have "foldl (check_node now self c) (m1, ev1) (map (\<lambda>k. the (nodes k)) ks) = (m', ev')"
    using Cons.prems(1) n s by simp
  moreover have d: "k \<notin> set ks" "distinct ks" using Cons.prems(2) by simp_all
  moreover have "\<exists>n. nodes j = Some n \<and> ni_ID n = j" "cm_nodes m1 j = nodes j" if "j \<in> set ks" for j
    using that Cons.prems(3,4) [of j] d m1(1) by auto
  ultimately have ih: "\<forall>k. cm_nodes m' k = (if k \<in> set ks then map_option (expire now self) (cm_nodes m1 k) else cm_nodes m1 k)"
    "ev' = ev1 @ (if c then filter (\<lambda>k. timed_out now self (the (nodes k))) ks else [])"
    using Cons.IH [of m1 ev1] by blast+
  show ?case using ih m1 n d by auto
qed simp

lemma HealthChecker_check_result:
  assumes "nodes_ok m" and "map_order ks' (cm_nodes m)"
  shows "cm_nodes (fst (HealthChecker_check now ks ks' self m)) = map_option (expire now self) \<circ> cm_nodes m"
    and "snd (HealthChecker_check now ks ks' self m) =
      (if CoordinatorID ks m = self then filter (\<lambda>k. timed_out now self (the (cm_nodes m k))) ks' else [])"
proof -
  obtain m' ev' where c: "HealthChecker_check now ks ks' self m = (m', ev')" by (metis surj_pair)
  have ex: "\<exists>n. cm_nodes m k = Some n \<and> ni_ID n = k" if "k \<in> set ks'" for k
    using that assms by (auto simp: map_order_def nodes_ok_def)
  have d: "distinct ks'" using assms(2) by (simp add: map_order_def)
  note loop = check_loop [OF d ex refl c [unfolded HealthChecker_check_def Manager_List_def]]
  have "cm_nodes m' = map_option (expire now self) \<circ> cm_nodes m"
    using loop assms(2) by (intro ext) (auto simp: map_order_def domIff)
  then show "cm_nodes (fst (HealthChecker_check now ks ks' self m)) = map_option (expire now self) \<circ> cm_nodes m"
    using c by simp
  show "snd (HealthChecker_check now ks ks' self m) =
      (if CoordinatorID ks m = self then filter (\<lambda>k. timed_out now self (the (cm_nodes m k))) ks' else [])"
    using loop c by simp
qed

text \<open>
  A health check marks offline exactly the online nodes, other than the node itself, not
  heard from for more than ten seconds, changes no other node, and hands exactly those to
  \<open>OnEvict\<close> when the node is the coordinator, none otherwise.
\<close>

theorem health_check_marks_silent:
  assumes "nodes_ok m" and "map_order ks' (cm_nodes m)"
  shows "cm_nodes (fst (HealthChecker_check now ks ks' self m)) = map_option (expire now self) \<circ> cm_nodes m \<and>
    snd (HealthChecker_check now ks ks' self m) =
      (if CoordinatorID ks m = self then filter (\<lambda>k. timed_out now self (the (cm_nodes m k))) ks' else [])"
  using HealthChecker_check_result [OF assms] by simp

theorem health_check_marks_silent_witness:
  "snd (HealthChecker_check (20 * second) [''a'', ''b''] [''a'', ''b''] ''a''
     (sample_cluster [''a'' \<mapsto> sample_node ''a'' StatusOnline 30 0, ''b'' \<mapsto> sample_node ''b'' StatusOnline 20 0])) = [''b'']"
proof -
  let ?m = "sample_cluster [''a'' \<mapsto> sample_node ''a'' StatusOnline 30 0, ''b'' \<mapsto> sample_node ''b'' StatusOnline 20 0]"
  have c: "CoordinatorID [''a'', ''b''] ?m = ''a''"
    by (simp add: CoordinatorID_def online_nodes_def Manager_List_def slice_sort_def coord_less_def coord_score_def
        free_mb_def i64_def sample_node_def)
  have "nodes_ok ?m" "map_order [''a'', ''b''] (cm_nodes ?m)"
    by (simp add: nodes_ok_def sample_node_def) (auto simp: map_order_def)
  from conjunct2 [OF health_check_marks_silent [OF this, of "20 * second" "[''a'', ''b'']" "''a''"]]
  show ?thesis unfolding c by (simp add: timed_out_def sample_node_def)
qed


section \<open>A dead coordinator is never evicted\<close>

text \<open>
  A sequence of health checks of one node between which nothing else changes its view: each tick
  has its time and its two iteration orders. The result collects every call of \<open>OnEvict\<close>.
\<close>

fun health_run :: "string \<Rightarrow> (time \<times> string list \<times> string list) list \<Rightarrow> Manager \<Rightarrow> Manager \<times> string list" where
  "health_run self [] m = (m, [])"
| "health_run self ((now, ks, ks') # ts) m =
     (let (m1, ev) = HealthChecker_check now ks ks' self m; (m2, evs) = health_run self ts m1
      in (m2, ev @ evs))"

definition gone_or_coordinator :: "string \<Rightarrow> Manager \<Rightarrow> bool" where
  "gone_or_coordinator c m \<longleftrightarrow> (\<exists>n. cm_nodes m c = Some n \<and> ni_Status n = StatusOffline) \<or> is_coordinator c m"

lemma expire_simps [simp]: "ni_ID (expire now self n) = ni_ID n"
  "ni_Status (expire now self n) = (if timed_out now self n then StatusOffline else ni_Status n)"
  by (simp_all add: expire_def)

lemma expire_coord_less: "coord_less (expire now self a) (expire now self b) = coord_less a b"
  by (simp add: expire_def coord_less_def coord_score_def free_mb_def)

lemma online_after_check:
  assumes "cm_nodes m1 = map_option (expire now self) \<circ> cm_nodes m" and "online m1 k n"
  shows "\<exists>n0. online m k n0 \<and> n = expire now self n0"
  using assms by (auto simp: online_def split: if_splits)

lemma gone_or_coordinator_step:
  assumes "gone_or_coordinator c m" and m1: "cm_nodes m1 = map_option (expire now self) \<circ> cm_nodes m"
  shows "gone_or_coordinator c m1"
proof (cases "\<exists>n. cm_nodes m c = Some n \<and> ni_Status n = StatusOffline")
  case True
  then show ?thesis using m1 by (auto simp: gone_or_coordinator_def)
next
  case False
  then obtain n where n: "online m c n" "\<And>k n'. online m k n' \<Longrightarrow> \<not> coord_less n' n"
    using assms(1) by (auto simp: gone_or_coordinator_def is_coordinator_def)
  show ?thesis
  proof (cases "timed_out now self n")
    case True
    then show ?thesis using m1 n(1) by (simp add: gone_or_coordinator_def online_def)
  next
    case False
    then have "online m1 c (expire now self n)" using m1 n(1) by (simp add: online_def)
    moreover have "\<not> coord_less n' (expire now self n)" if n': "online m1 k n'" for k n'
      using online_after_check [OF m1 n'] n(2) by (auto simp: expire_coord_less)
    ultimately show ?thesis by (auto simp: gone_or_coordinator_def is_coordinator_def)
  qed
qed

lemma check_spares_coordinator:
  assumes "nodes_ok m" "map_order ks (cm_nodes m)" "map_order ks' (cm_nodes m)" "gone_or_coordinator c m"
  shows "c \<notin> set (snd (HealthChecker_check now ks ks' self m))"
proof
  assume "c \<in> set (snd (HealthChecker_check now ks ks' self m))"
  then have e: "CoordinatorID ks m = self" "timed_out now self (the (cm_nodes m c))" "c \<in> set ks'"
    unfolding HealthChecker_check_result(2) [OF assms(1,3)] by (auto split: if_splits)
  then obtain n where n: "cm_nodes m c = Some n" "ni_ID n = c"
    using assms(1,3) by (auto simp: map_order_def nodes_ok_def)
  then have "is_coordinator c m" using assms(4) e(2) by (auto simp: gone_or_coordinator_def timed_out_def)
  from CoordinatorID_eq [OF assms(2,1) this] show False using e n by (simp add: timed_out_def)
qed



end
