(* ===== verification/Wal.thy ===== *)
theory Wal
  imports Prelude
begin

text \<open>
  \<open>internal/reliability/wal\<close>: the write-ahead log. A line of the file is either an entry that
  parses and whose CRC matches, or a line that recovery skips; JSON and CRC-32 are otherwise
  abstract, except that an entry whose payload is not valid JSON cannot be marshalled. \<open>len e\<close> is
  the length of the encoded entry, which matters to the scanner's limit of 1 MB per line. The
  last line may lack its newline when a crash cut a write (\<open>wl_tail\<close>). Reads, writes and renames
  that the operating system refuses are not modelled; sequence numbers are natural numbers.
\<close>

datatype EntryType = EntryTaskSubmit | EntryTaskStart | EntryTaskComplete | EntryTaskFail
  | EntryStorageWrite | EntryStorageDelete | EntryFlowRunStart | EntryFlowStepComplete
  | EntryFlowRunComplete | EntryAgentStart | EntryAgentStepComplete | EntryCheckpoint

datatype EntryStatus = WalPending | WalCommitted | WalAborted

datatype Payload = NoPayload
  | TaskPayload string string int string
  | StoragePayload string int string
  | FlowPayload string string string string string
  | CommittedPayload nat
  | AbortedPayload nat string

record WalEntry =
  we_LSN :: nat
  we_Type :: EntryType
  we_Status :: EntryStatus
  we_Timestamp :: time
  we_EntityID :: string
  we_Payload :: Payload

datatype wal_line = Line WalEntry | BadLine nat

record WAL =
  wl_lines :: "wal_line list"
  wl_tail :: "wal_line option"
  wl_lsn :: nat
  wl_committedN :: nat

datatype WalError = MarshalError

abbreviation checkpointInterval :: nat where "checkpointInterval \<equiv> 1000"

abbreviation max_line :: nat where "max_line \<equiv> 1048576"

section \<open>Marshalling\<close>

text \<open>
  \<open>Abort\<close> builds its payload with the verb \<open>%q\<close>, which quotes for Go and not for JSON: the escapes
  \<open>\a\<close>, \<open>\v\<close> and \<open>\x..\<close> it writes for control characters are not JSON, and \<open>json.Marshal\<close>
  refuses the entry. Bytes from 128 on are taken to belong to printable UTF-8.
\<close>

definition json_quotable :: "string \<Rightarrow> bool" where
  "json_quotable s = list_all (\<lambda>c. let n = of_char c :: nat
     in (32 \<le> n \<and> n \<noteq> 127) \<or> n \<in> {8, 9, 10, 12, 13}) s"

fun marshal_ok :: "Payload \<Rightarrow> bool" where
  "marshal_ok (AbortedPayload l reason) = json_quotable reason"
| "marshal_ok p = True"

section \<open>Writing\<close>

text \<open>A write after an unterminated line continues that line.\<close>

definition append_line :: "wal_line \<Rightarrow> (WalEntry \<Rightarrow> nat) \<Rightarrow> WAL \<Rightarrow> WAL" where
  "append_line l len w =
     (let size = (\<lambda>l. case l of Line e \<Rightarrow> len e | BadLine n \<Rightarrow> n)
      in case wl_tail w of
           None \<Rightarrow> w\<lparr>wl_lines := wl_lines w @ [l]\<rparr>
         | Some t \<Rightarrow> w\<lparr>wl_lines := wl_lines w @ [BadLine (size t + size l)], wl_tail := None\<rparr>)"

definition writeEntry :: "(WalEntry \<Rightarrow> nat) \<Rightarrow> WalEntry \<Rightarrow> WAL \<Rightarrow> WalError option \<times> WAL" where
  "writeEntry len e w =
     (if marshal_ok (we_Payload e) then (None, append_line (Line e) len w) else (Some MarshalError, w))"

definition WAL_Append :: "(WalEntry \<Rightarrow> nat) \<Rightarrow> time \<Rightarrow> EntryType \<Rightarrow> string \<Rightarrow> Payload \<Rightarrow> WAL \<Rightarrow> (WalError + nat) \<times> WAL" where
  "WAL_Append len now ty entityID payload w =
     (let lsn = wl_lsn w + 1; w = w\<lparr>wl_lsn := lsn\<rparr>;
          entry = \<lparr>we_LSN = lsn, we_Type = ty, we_Status = WalPending, we_Timestamp = now,
                   we_EntityID = entityID, we_Payload = payload\<rparr>
      in case writeEntry len entry w of
           (Some err, w) \<Rightarrow> (Inl err, w)
         | (None, w) \<Rightarrow> (Inr lsn, w))"

text \<open>The flag in the result says that the goroutine \<open>checkpoint\<close> was started.\<close>

definition WAL_Commit :: "(WalEntry \<Rightarrow> nat) \<Rightarrow> time \<Rightarrow> nat \<Rightarrow> string \<Rightarrow> WAL \<Rightarrow> WalError option \<times> bool \<times> WAL" where
  "WAL_Commit len now lsn entityID w =
     (let l = wl_lsn w + 1; w = w\<lparr>wl_lsn := l\<rparr>;
          entry = \<lparr>we_LSN = l, we_Type = EntryCheckpoint, we_Status = WalCommitted, we_Timestamp = now,
                   we_EntityID = entityID, we_Payload = CommittedPayload lsn\<rparr>
      in case writeEntry len entry w of
           (Some err, w) \<Rightarrow> (Some err, False, w)
         | (None, w) \<Rightarrow>
             (if wl_committedN w + 1 \<ge> checkpointInterval then (None, True, w\<lparr>wl_committedN := 0\<rparr>)
              else (None, False, w\<lparr>wl_committedN := wl_committedN w + 1\<rparr>)))"

definition WAL_Abort :: "(WalEntry \<Rightarrow> nat) \<Rightarrow> time \<Rightarrow> nat \<Rightarrow> string \<Rightarrow> string \<Rightarrow> WAL \<Rightarrow> WalError option \<times> WAL" where
  "WAL_Abort len now lsn entityID reason w =
     (let l = wl_lsn w + 1; w = w\<lparr>wl_lsn := l\<rparr>;
          entry = \<lparr>we_LSN = l, we_Type = EntryTaskFail, we_Status = WalAborted, we_Timestamp = now,
                   we_EntityID = entityID, we_Payload = AbortedPayload lsn reason\<rparr>
      in writeEntry len entry w)"

section \<open>Reading\<close>

definition file_lines :: "WAL \<Rightarrow> wal_line list" where
  "file_lines w = wl_lines w @ (case wl_tail w of None \<Rightarrow> [] | Some t \<Rightarrow> [t])"

definition line_len :: "(WalEntry \<Rightarrow> nat) \<Rightarrow> wal_line \<Rightarrow> nat" where
  "line_len len l = (case l of Line e \<Rightarrow> len e | BadLine n \<Rightarrow> n)"

text \<open>The lines \<open>bufio.Scanner\<close> delivers: it stops at the first line that does not fit its buffer.\<close>

definition scan :: "(WalEntry \<Rightarrow> nat) \<Rightarrow> wal_line list \<Rightarrow> wal_line list" where
  "scan len ls = takeWhile (\<lambda>l. line_len len l < max_line) ls"

fun good_entries :: "wal_line list \<Rightarrow> WalEntry list" where
  "good_entries [] = []"
| "good_entries (Line e # ls) = e # good_entries ls"
| "good_entries (BadLine n # ls) = good_entries ls"

definition recoverLSN :: "(WalEntry \<Rightarrow> nat) \<Rightarrow> wal_line list \<Rightarrow> nat" where
  "recoverLSN len ls = foldl (\<lambda>m e. if we_LSN e > m then we_LSN e else m) 0 (good_entries (scan len ls))"

definition WAL_Open :: "(WalEntry \<Rightarrow> nat) \<Rightarrow> wal_line list \<Rightarrow> wal_line option \<Rightarrow> WAL" where
  "WAL_Open len lines t =
     (let w = \<lparr>wl_lines = lines, wl_tail = t, wl_lsn = 0, wl_committedN = 0\<rparr>
      in w\<lparr>wl_lsn := recoverLSN len (file_lines w)\<rparr>)"

text \<open>The sequence numbers the payload of a commit or abort marks as done; 0 is the unset field.\<close>

fun resolved_lsn :: "Payload \<Rightarrow> nat list" where
  "resolved_lsn (CommittedPayload l) = (if l \<noteq> 0 then [l] else [])"
| "resolved_lsn (AbortedPayload l reason) = (if l \<noteq> 0 then [l] else [])"
| "resolved_lsn p = []"

definition committed_lsns :: "WalEntry list \<Rightarrow> nat list" where
  "committed_lsns es =
     concat (map (\<lambda>e. if we_Status e = WalCommitted \<or> we_Status e = WalAborted then resolved_lsn (we_Payload e) else []) es)"

text \<open>The pending entries, and whether the scanner reported an error.\<close>

definition RecoverPending :: "(WalEntry \<Rightarrow> nat) \<Rightarrow> wal_line list \<Rightarrow> WalEntry list \<times> bool" where
  "RecoverPending len ls =
     (let allEntries = good_entries (scan len ls); committed = committed_lsns allEntries
      in (filter (\<lambda>e. we_Status e = WalPending \<and> we_LSN e \<notin> set committed) allEntries, scan len ls \<noteq> ls))"

definition WAL_checkpoint :: "(WalEntry \<Rightarrow> nat) \<Rightarrow> WAL \<Rightarrow> WAL" where
  "WAL_checkpoint len w =
     (case RecoverPending len (file_lines w) of
        (pending, err) \<Rightarrow> if err then w else w\<lparr>wl_lines := map Line pending, wl_tail := None\<rparr>)"


section \<open>Recovery at start-up: \<open>recoverWAL\<close> of the agent\<close>

text \<open>One pending entry: the file removed, if any, and the abort logged.\<close>

definition recover_reason :: "EntryType \<Rightarrow> string" where
  "recover_reason ty =
     (case ty of EntryStorageWrite \<Rightarrow> ''interrupted by agent crash''
      | EntryTaskStart \<Rightarrow> ''agent crashed during task execution''
      | EntryFlowRunStart \<Rightarrow> ''flow run interrupted by crash''
      | _ \<Rightarrow> ''interrupted by crash'')"

definition recover_removes :: "WalEntry \<Rightarrow> string list" where
  "recover_removes e =
     (if we_Type e = EntryStorageWrite
      then case we_Payload e of StoragePayload path n cs \<Rightarrow> if path \<noteq> [] then [path] else [] | _ \<Rightarrow> []
      else [])"

definition recover_entry :: "(WalEntry \<Rightarrow> nat) \<Rightarrow> time \<Rightarrow> string list \<times> WAL \<Rightarrow> WalEntry \<Rightarrow> string list \<times> WAL" where
  "recover_entry len now st e =
     (case st of (removed, w) \<Rightarrow>
        (removed @ recover_removes e,
         snd (WAL_Abort len now (we_LSN e) (we_EntityID e) (recover_reason (we_Type e)) w)))"

definition recoverWAL :: "(WalEntry \<Rightarrow> nat) \<Rightarrow> time \<Rightarrow> WAL \<Rightarrow> string list \<times> WAL" where
  "recoverWAL len now w =
     (case RecoverPending len (file_lines w) of
        (pending, err) \<Rightarrow> if err then ([], w) else foldl (recover_entry len now) ([], w) pending)"

section \<open>Lemmas on reading the file\<close>

lemma good_entries_append [simp]: "good_entries (xs @ ys) = good_entries xs @ good_entries ys"
  by (induction xs rule: good_entries.induct) auto

lemma good_entries_Lines [simp]: "good_entries (map Line es) = es"
  by (induction es) auto

lemma committed_lsns_append [simp]: "committed_lsns (xs @ ys) = committed_lsns xs @ committed_lsns ys"
  by (simp add: committed_lsns_def)

lemma committed_lsns_pending: "\<forall>e \<in> set es. we_Status e = WalPending \<Longrightarrow> committed_lsns es = []"
  by (auto simp: committed_lsns_def)

definition readable :: "(WalEntry \<Rightarrow> nat) \<Rightarrow> wal_line list \<Rightarrow> bool" where
  "readable len ls \<longleftrightarrow> (\<forall>l \<in> set ls. line_len len l < max_line)"

lemma scan_readable: "readable len ls \<Longrightarrow> scan len ls = ls"
  by (simp add: scan_def readable_def)

lemma RecoverPending_readable:
  "readable len ls \<Longrightarrow> RecoverPending len ls =
     (filter (\<lambda>e. we_Status e = WalPending \<and> we_LSN e \<notin> set (committed_lsns (good_entries ls))) (good_entries ls), False)"
  by (simp add: RecoverPending_def scan_readable Let_def)

lemma max_fold_ge: "m \<le> foldl (\<lambda>m e. if we_LSN e > m then we_LSN e else m) m es"
proof (induction es arbitrary: m)
  case (Cons e es)
  have "m \<le> (if we_LSN e > m then we_LSN e else m)" by simp
  also have "\<dots> \<le> foldl (\<lambda>m e. if we_LSN e > m then we_LSN e else m) (if we_LSN e > m then we_LSN e else m) es"
    by (rule Cons)
  finally show ?case by simp
qed simp

lemma max_fold_upper: "e \<in> set es \<Longrightarrow> we_LSN e \<le> foldl (\<lambda>m e. if we_LSN e > m then we_LSN e else m) m es"
proof (induction es arbitrary: m)
  case (Cons x es)
  then show ?case using max_fold_ge [of "if we_LSN x > m then we_LSN x else m" es] by (auto split: if_splits)
qed simp

text \<open>Every entry encodes to less than the scanner's limit.\<close>

definition short_entries :: "(WalEntry \<Rightarrow> nat) \<Rightarrow> bool" where
  "short_entries len \<longleftrightarrow> (\<forall>e. len e < max_line)"

section \<open>The invariant of a log\<close>

text \<open>
  Every line is short enough and ends with its newline; sequence numbers are distinct and do not
  exceed the counter; a commit or abort marks an earlier number.
\<close>

definition wal_inv :: "(WalEntry \<Rightarrow> nat) \<Rightarrow> WAL \<Rightarrow> bool" where
  "wal_inv len w \<longleftrightarrow>
     wl_tail w = None \<and> readable len (wl_lines w) \<and>
     distinct (map we_LSN (good_entries (wl_lines w))) \<and>
     (\<forall>e \<in> set (good_entries (wl_lines w)). we_LSN e \<le> wl_lsn w \<and> 0 < we_LSN e \<and>
        (we_Status e \<noteq> WalPending \<longrightarrow> (\<forall>l \<in> set (resolved_lsn (we_Payload e)). l < we_LSN e)))"

definition pending_of :: "(WalEntry \<Rightarrow> nat) \<Rightarrow> WAL \<Rightarrow> WalEntry list" where
  "pending_of len w = fst (RecoverPending len (file_lines w))"

lemma file_lines_inv: "wal_inv len w \<Longrightarrow> file_lines w = wl_lines w"
  by (simp add: file_lines_def wal_inv_def)

lemma wal_inv_readable: "wal_inv len w \<Longrightarrow> readable len (wl_lines w)"
  by (simp add: wal_inv_def)

lemma wal_inv_RecoverPending:
  "wal_inv len w \<Longrightarrow> RecoverPending len (file_lines w) = (pending_of len w, False)"
  by (simp add: pending_of_def file_lines_inv RecoverPending_readable wal_inv_readable)

lemma pending_of_filter:
  "wal_inv len w \<Longrightarrow> pending_of len w =
     filter (\<lambda>e. we_Status e = WalPending \<and> we_LSN e \<notin> set (committed_lsns (good_entries (wl_lines w))))
       (good_entries (wl_lines w))"
  by (simp add: pending_of_def file_lines_inv RecoverPending_readable wal_inv_readable)

lemma committed_below:
  assumes "wal_inv len w" and "l \<in> set (committed_lsns (good_entries (wl_lines w)))"
  shows "l < wl_lsn w"
proof -
  obtain e where e: "e \<in> set (good_entries (wl_lines w))" "we_Status e \<noteq> WalPending"
    "l \<in> set (resolved_lsn (we_Payload e))"
    using assms(2) by (auto simp: committed_lsns_def split: if_splits)
  then have "l < we_LSN e" "we_LSN e \<le> wl_lsn w" using assms(1) by (auto simp: wal_inv_def)
  then show ?thesis by simp
qed

text \<open>Writing one entry with the next number: the common step of append, commit and abort.\<close>

lemma write_next:
  assumes inv: "wal_inv len w" and e: "we_LSN e = wl_lsn w + 1" "short_entries len"
    and res: "we_Status e \<noteq> WalPending \<Longrightarrow> \<forall>l \<in> set (resolved_lsn (we_Payload e)). l \<le> wl_lsn w"
    and w': "w' = append_line (Line e) len (w\<lparr>wl_lsn := wl_lsn w + 1\<rparr>)"
  shows "wal_inv len w'"
    and "pending_of len w' =
      (if we_Status e = WalPending then pending_of len w @ [e]
       else filter (\<lambda>p. we_LSN p \<notin> set (resolved_lsn (we_Payload e))) (pending_of len w))"
proof -
  have lines: "wl_lines w' = wl_lines w @ [Line e]" "wl_tail w' = None" "wl_lsn w' = wl_lsn w + 1"
    using inv by (simp_all add: w' append_line_def wal_inv_def)
  have fresh: "we_LSN e \<notin> we_LSN ` set (good_entries (wl_lines w))"
    using inv e(1) by (force simp: wal_inv_def)
  show inv': "wal_inv len w'"
    using inv fresh e res by (force simp: wal_inv_def lines readable_def line_len_def le_imp_less_Suc short_entries_def)
  let ?es = "good_entries (wl_lines w)"
  have p: "pending_of len w = filter (\<lambda>e. we_Status e = WalPending \<and> we_LSN e \<notin> set (committed_lsns ?es)) ?es"
    by (rule pending_of_filter [OF inv])
  have es: "good_entries (wl_lines w') = ?es @ [e]" by (simp add: lines)
  have p': "pending_of len w' = filter (\<lambda>x. we_Status x = WalPending \<and>
      we_LSN x \<notin> set (committed_lsns (?es @ [e]))) (?es @ [e])"
    unfolding pending_of_filter [OF inv'] es by (rule refl)
  have "we_LSN e \<notin> set (committed_lsns ?es)" using committed_below [OF inv] e(1) by fastforce
  then show "pending_of len w' =
      (if we_Status e = WalPending then pending_of len w @ [e]
       else filter (\<lambda>p. we_LSN p \<notin> set (resolved_lsn (we_Payload e))) (pending_of len w))"
    unfolding p p' by (cases "we_Status e") (auto simp: committed_lsns_def intro: filter_cong)
qed


section \<open>The operations keep the invariant\<close>

lemma Append_spec:
  assumes "wal_inv len w" and "marshal_ok payload" and "short_entries len"
    and "WAL_Append len now ty entityID payload w = (r, w')"
  shows "r = Inr (wl_lsn w + 1)" and "wal_inv len w'"
    and "pending_of len w' = pending_of len w @
      [\<lparr>we_LSN = wl_lsn w + 1, we_Type = ty, we_Status = WalPending, we_Timestamp = now,
        we_EntityID = entityID, we_Payload = payload\<rparr>]"
proof -
  let ?e = "\<lparr>we_LSN = wl_lsn w + 1, we_Type = ty, we_Status = WalPending, we_Timestamp = now,
        we_EntityID = entityID, we_Payload = payload\<rparr>"
  have w': "w' = append_line (Line ?e) len (w\<lparr>wl_lsn := wl_lsn w + 1\<rparr>)" and r: "r = Inr (wl_lsn w + 1)"
    using assms(2,4) by (simp_all add: WAL_Append_def writeEntry_def Let_def)
  note nxt = write_next [OF assms(1) _ assms(3) _ w']
  show "r = Inr (wl_lsn w + 1)" by (rule r)
  show "wal_inv len w'" "pending_of len w' = pending_of len w @ [?e]" using nxt by simp_all
qed

text \<open>A commit of a pending entry, the counter of commits aside.\<close>

lemma committedN_irrelevant:
  "wal_inv len (w\<lparr>wl_committedN := n\<rparr>) = wal_inv len w" "pending_of len (w\<lparr>wl_committedN := n\<rparr>) = pending_of len w"
  by (simp_all add: wal_inv_def pending_of_def file_lines_def)

lemma pending_lsn: "wal_inv len w \<Longrightarrow> p \<in> set (pending_of len w) \<Longrightarrow> 0 < we_LSN p \<and> we_LSN p \<le> wl_lsn w"
  by (auto simp: pending_of_filter) (auto simp: wal_inv_def)

lemma Commit_spec:
  assumes "wal_inv len w" and "l \<in> we_LSN ` set (pending_of len w)" and "short_entries len"
    and "WAL_Commit len now l entityID w = (r, ckpt, w')"
  shows "r = None" and "wal_inv len w'" and "pending_of len w' = filter (\<lambda>p. we_LSN p \<noteq> l) (pending_of len w)"
proof -
  let ?e = "\<lparr>we_LSN = wl_lsn w + 1, we_Type = EntryCheckpoint, we_Status = WalCommitted, we_Timestamp = now,
        we_EntityID = entityID, we_Payload = CommittedPayload l\<rparr>"
  let ?w = "append_line (Line ?e) len (w\<lparr>wl_lsn := wl_lsn w + 1\<rparr>)"
  have l: "0 < l" "l \<le> wl_lsn w" using assms(2) pending_lsn [OF assms(1)] by auto
  note nxt = write_next [OF assms(1) _ assms(3) _ refl, of ?e]
  have "r = None \<and> (\<exists>n. w' = ?w\<lparr>wl_committedN := n\<rparr>)"
    using assms(4) by (auto simp: WAL_Commit_def writeEntry_def Let_def split: if_splits)
  then show "r = None" "wal_inv len w'" "pending_of len w' = filter (\<lambda>p. we_LSN p \<noteq> l) (pending_of len w)"
    using nxt l by (auto simp: committedN_irrelevant)
qed

lemma Abort_spec:
  assumes "wal_inv len w" and "l \<in> we_LSN ` set (pending_of len w)" and "json_quotable reason"
    and "short_entries len" and "WAL_Abort len now l entityID reason w = (r, w')"
  shows "r = None" and "wal_inv len w'" and "pending_of len w' = filter (\<lambda>p. we_LSN p \<noteq> l) (pending_of len w)"
proof -
  let ?e = "\<lparr>we_LSN = wl_lsn w + 1, we_Type = EntryTaskFail, we_Status = WalAborted, we_Timestamp = now,
        we_EntityID = entityID, we_Payload = AbortedPayload l reason\<rparr>"
  have w': "w' = append_line (Line ?e) len (w\<lparr>wl_lsn := wl_lsn w + 1\<rparr>)" and r: "r = None"
    using assms(3,5) by (simp_all add: WAL_Abort_def writeEntry_def Let_def)
  have l: "0 < l" "l \<le> wl_lsn w" using assms(2) pending_lsn [OF assms(1)] by auto
  note nxt = write_next [OF assms(1) _ assms(4) _ w']
  show "r = None" by (rule r)
  show "wal_inv len w'" "pending_of len w' = filter (\<lambda>p. we_LSN p \<noteq> l) (pending_of len w)"
    using nxt l by auto
qed

lemma checkpoint_spec:
  assumes "wal_inv len w"
  shows "wal_inv len (WAL_checkpoint len w)" and "pending_of len (WAL_checkpoint len w) = pending_of len w"
proof -
  let ?P = "pending_of len w"
  have w': "WAL_checkpoint len w = w\<lparr>wl_lines := map Line ?P, wl_tail := None\<rparr>"
    by (simp add: WAL_checkpoint_def wal_inv_RecoverPending [OF assms])
  have sub: "set ?P \<subseteq> set (good_entries (wl_lines w))" by (auto simp: pending_of_filter [OF assms])
  have good: "Line e \<in> set ls" if "e \<in> set (good_entries ls)" for e ls
    using that by (induction ls rule: good_entries.induct) auto
  have d: "distinct (map we_LSN ?P)"
    using assms by (simp add: pending_of_filter [OF assms] distinct_map_filter wal_inv_def)
  show inv': "wal_inv len (WAL_checkpoint len w)"
    unfolding w' using assms sub good d by (auto simp: wal_inv_def readable_def)
  have "\<forall>e \<in> set ?P. we_Status e = WalPending" by (auto simp: pending_of_filter [OF assms])
  then show "pending_of len (WAL_checkpoint len w) = ?P"
    using pending_of_filter [OF inv'] unfolding w' by (simp add: committed_lsns_pending filter_id_conv)
qed

lemma Open_spec:
  assumes "wal_inv len w"
  shows "wal_inv len (WAL_Open len (wl_lines w) (wl_tail w))"
    and "pending_of len (WAL_Open len (wl_lines w) (wl_tail w)) = pending_of len w"
proof -
  have t: "wl_tail w = None" "readable len (wl_lines w)" using assms by (simp_all add: wal_inv_def)
  have "wl_lsn (WAL_Open len (wl_lines w) (wl_tail w)) =
      foldl (\<lambda>m e. if we_LSN e > m then we_LSN e else m) 0 (good_entries (wl_lines w))"
    using t by (simp add: WAL_Open_def Let_def recoverLSN_def file_lines_def scan_readable)
  then show "wal_inv len (WAL_Open len (wl_lines w) (wl_tail w))"
    using assms max_fold_upper [of _ "good_entries (wl_lines w)" 0]
    by (auto simp: wal_inv_def WAL_Open_def Let_def)
  show "pending_of len (WAL_Open len (wl_lines w) (wl_tail w)) = pending_of len w"
    by (simp add: pending_of_def file_lines_def WAL_Open_def Let_def)
qed

section \<open>Recovery is exact\<close>

text \<open>
  The executions of a log from an empty file, with the abstract list of entries appended and
  neither committed nor aborted since. Commits and aborts are of pending entries; a checkpoint
  and a restart (reopening the file the log left) may happen anywhere.
\<close>

inductive wal_exec :: "(WalEntry \<Rightarrow> nat) \<Rightarrow> WAL \<Rightarrow> WalEntry list \<Rightarrow> bool" for len where
  Start: "wal_exec len (WAL_Open len [] None) []"
| Append: "wal_exec len w P \<Longrightarrow> marshal_ok payload \<Longrightarrow>
    WAL_Append len now ty entityID payload w = (r, w') \<Longrightarrow>
    wal_exec len w' (P @ [\<lparr>we_LSN = wl_lsn w + 1, we_Type = ty, we_Status = WalPending, we_Timestamp = now,
      we_EntityID = entityID, we_Payload = payload\<rparr>])"
| Commit: "wal_exec len w P \<Longrightarrow> l \<in> we_LSN ` set P \<Longrightarrow>
    WAL_Commit len now l entityID w = (r, ckpt, w') \<Longrightarrow> wal_exec len w' (filter (\<lambda>p. we_LSN p \<noteq> l) P)"
| Abort: "wal_exec len w P \<Longrightarrow> l \<in> we_LSN ` set P \<Longrightarrow> json_quotable reason \<Longrightarrow>
    WAL_Abort len now l entityID reason w = (r, w') \<Longrightarrow> wal_exec len w' (filter (\<lambda>p. we_LSN p \<noteq> l) P)"
| Checkpoint: "wal_exec len w P \<Longrightarrow> wal_exec len (WAL_checkpoint len w) P"
| Restart: "wal_exec len w P \<Longrightarrow> wal_exec len (WAL_Open len (wl_lines w) (wl_tail w)) P"

lemma wal_exec_inv:
  assumes "wal_exec len w P" and "short_entries len"
  shows "wal_inv len w \<and> pending_of len w = P"
  using assms(1)
proof (induction rule: wal_exec.induct)
  case Start
  show ?case by (simp add: wal_inv_def WAL_Open_def Let_def pending_of_def file_lines_def recoverLSN_def
      readable_def RecoverPending_def scan_def)
next
  case (Append w P payload now ty entityID r w')
  then have inv: "wal_inv len w" and P: "pending_of len w = P" by simp_all
  show ?case using Append_spec(2,3) [OF inv Append.hyps(2) assms(2) Append.hyps(3)] P by simp
next
  case (Commit w P l now entityID r ckpt w')
  then show ?case using Commit_spec [OF _ _ assms(2)] by metis
next
  case (Abort w P l reason now entityID r w')
  then show ?case using Abort_spec [OF _ _ _ assms(2)] by metis
qed (simp_all add: checkpoint_spec Open_spec)


text \<open>
  C3: In every execution of the log (appends, commits, aborts, compactions and restarts in any
  order), recovery returns exactly the entries that were appended and neither committed nor
  aborted since, in the order of their appends, with distinct sequence numbers.
\<close>

theorem wal_recovery_exact:
  assumes "wal_exec len w P" and "short_entries len"
  shows "RecoverPending len (file_lines w) = (P, False) \<and> distinct (map we_LSN P)"
proof -
  have inv: "wal_inv len w" and P: "pending_of len w = P" using wal_exec_inv [OF assms] by simp_all
  then show ?thesis
    using wal_inv_RecoverPending [OF inv] pending_of_filter [OF inv] inv
    by (auto simp: wal_inv_def distinct_map_filter)
qed

definition sample_len :: "WalEntry \<Rightarrow> nat" where "sample_len e = 200"

lemma sample_len_short: "short_entries sample_len"
  by (simp add: short_entries_def sample_len_def)

definition sample_log :: WAL where
  "sample_log = snd (WAL_Append sample_len 5 EntryTaskStart ''task-0001'' (TaskPayload ''ls'' ''n'' 50 [])
     (WAL_Open sample_len [] None))"

definition sample_entry :: WalEntry where
  "sample_entry = \<lparr>we_LSN = 1, we_Type = EntryTaskStart, we_Status = WalPending, we_Timestamp = 5,
     we_EntityID = ''task-0001'', we_Payload = TaskPayload ''ls'' ''n'' 50 []\<rparr>"

lemma sample_log_exec: "wal_exec sample_len sample_log [sample_entry]"
proof -
  let ?w = "WAL_Open sample_len [] None"
  have lsn: "wl_lsn ?w = 0" by (simp add: WAL_Open_def Let_def recoverLSN_def scan_def file_lines_def)
  obtain r where "WAL_Append sample_len 5 EntryTaskStart ''task-0001'' (TaskPayload ''ls'' ''n'' 50 []) ?w = (r, sample_log)"
    unfolding sample_log_def by (metis prod.collapse)
  from wal_exec.Append [OF wal_exec.Start _ this] show ?thesis by (simp add: lsn sample_entry_def)
qed

theorem wal_recovery_exact_witness:
  "RecoverPending sample_len (file_lines (WAL_checkpoint sample_len sample_log)) = ([sample_entry], False)"
  using wal_recovery_exact [OF wal_exec.Checkpoint [OF sample_log_exec] sample_len_short] by simp

text \<open>
  Aborting an entry with a reason that contains a control character \<open>%q\<close> escapes in a way JSON
  does not know (an ANSI escape in an error message, say) fails without writing: the entry is
  still pending to recovery, although its operation has ended.
\<close>

theorem abort_unquotable_reason:
  assumes "wal_exec len w P" and "short_entries len" and "\<not> json_quotable reason"
  shows "fst (WAL_Abort len now lsn entityID reason w) = Some MarshalError \<and>
    RecoverPending len (file_lines (snd (WAL_Abort len now lsn entityID reason w))) = (P, False)"
proof -
  have inv: "wal_inv len w" and P: "pending_of len w = P" using wal_exec_inv [OF assms(1,2)] by simp_all
  have "file_lines (snd (WAL_Abort len now lsn entityID reason w)) = file_lines w"
    using assms(3) by (simp add: WAL_Abort_def Let_def writeEntry_def file_lines_def)
  then show ?thesis
    using wal_inv_RecoverPending [OF inv] P assms(3) by (simp add: WAL_Abort_def Let_def writeEntry_def)
qed

theorem abort_unquotable_reason_witness:
  "fst (WAL_Abort sample_len 9 1 ''task-0001'' [char_of (27 :: nat)] sample_log) = Some MarshalError \<and>
   RecoverPending sample_len (file_lines (snd (WAL_Abort sample_len 9 1 ''task-0001'' [char_of (27 :: nat)] sample_log)))
     = ([sample_entry], False)"
  by (rule abort_unquotable_reason [OF sample_log_exec sample_len_short]) (simp add: json_quotable_def)

text \<open>
  When a crash has left the last line without its newline, the first entry appended after the
  restart is glued to it: \<open>Append\<close> reports success, yet neither that entry nor the line it
  follows is ever seen by recovery.
\<close>

theorem torn_line_loses_append:
  assumes "wl_tail w = Some t" and "marshal_ok payload"
    and "WAL_Append len now ty entityID payload w = (r, w')"
  shows "r = Inr (wl_lsn w + 1) \<and> good_entries (file_lines w') = good_entries (wl_lines w) \<and> wl_tail w' = None"
  using assms by (auto simp: WAL_Append_def Let_def writeEntry_def append_line_def file_lines_def)

theorem torn_line_loses_append_witness:
  "fst (WAL_Append sample_len 7 EntryTaskStart ''t'' NoPayload (WAL_Open sample_len [] (Some (Line sample_entry)))) = Inr 2 \<and>
   good_entries (file_lines (snd (WAL_Append sample_len 7 EntryTaskStart ''t'' NoPayload
     (WAL_Open sample_len [] (Some (Line sample_entry)))))) = []"
proof -
  let ?w = "WAL_Open sample_len [] (Some (Line sample_entry))"
  have w: "wl_tail ?w = Some (Line sample_entry)" "wl_lines ?w = []" "wl_lsn ?w = 1"
    by (simp_all add: WAL_Open_def Let_def recoverLSN_def scan_def file_lines_def line_len_def sample_len_def sample_entry_def)
  obtain r w' where a: "WAL_Append sample_len 7 EntryTaskStart ''t'' NoPayload ?w = (r, w')" by (metis surj_pair)
  have "marshal_ok NoPayload" by simp
  from torn_line_loses_append [OF w(1) this a] show ?thesis unfolding a by (simp add: w)
qed

section \<open>Sequence numbers are reused\<close>

text \<open>
  An entry is appended and committed, the log is compacted and reopened: the next entry gets the
  sequence number 1 again, which the comment of \<open>Entry.LSN\<close> excludes.
\<close>

lemma lsn_reused:
  "let w = WAL_Open sample_len [] None; (r, w) = WAL_Append sample_len 1 EntryTaskStart ''a'' NoPayload w;
       (e, c, w) = WAL_Commit sample_len 2 1 ''a'' w; w = WAL_checkpoint sample_len w;
       w = WAL_Open sample_len (wl_lines w) (wl_tail w);
       (r', w) = WAL_Append sample_len 3 EntryTaskStart ''b'' NoPayload w
   in r = Inr 1 \<and> r' = Inr 1"
  by (simp add: WAL_Open_def recoverLSN_def scan_def file_lines_def WAL_Append_def WAL_Commit_def Let_def writeEntry_def
      append_line_def line_len_def sample_len_def WAL_checkpoint_def RecoverPending_def committed_lsns_def)

section \<open>Recovery at start-up settles every entry\<close>

lemma recover_reason_quotable: "json_quotable (recover_reason ty)"
  by (cases ty) (simp_all add: recover_reason_def json_quotable_def)

lemma recover_loop:
  assumes "wal_exec len w (old @ es)" and "short_entries len" and "distinct (map we_LSN (old @ es))"
  shows "wal_exec len (snd (foldl (recover_entry len now) (rm, w) es)) old \<and>
    fst (foldl (recover_entry len now) (rm, w) es) = rm @ concat (map recover_removes es)"
  using assms(1,3)
proof (induction es arbitrary: rm w)
  case (Cons e es)
  let ?r = "WAL_Abort len now (we_LSN e) (we_EntityID e) (recover_reason (we_Type e)) w"
  have f: "filter (\<lambda>p. we_LSN p \<noteq> we_LSN e) (old @ e # es) = old @ es"
    using Cons.prems(2) by (simp add: filter_key_absent)
  have "wal_exec len (snd ?r) (old @ es)"
    using wal_exec.Abort [OF Cons.prems(1) _ recover_reason_quotable, of "we_LSN e" now "we_EntityID e" "we_Type e" "fst ?r" "snd ?r"]
    by (simp add: f [simplified])
  then show ?case using Cons.IH [of "snd ?r"] Cons.prems(2) by (simp add: recover_entry_def)
qed simp

text \<open>
  After \<open>recoverWAL\<close> the log has no pending entry left, whatever it held, and the files removed
  are exactly those of the interrupted storage writes, in order.
\<close>

theorem recoverWAL_settles:
  assumes "wal_exec len w P" and "short_entries len"
  shows "RecoverPending len (file_lines (snd (recoverWAL len now w))) = ([], False) \<and>
    fst (recoverWAL len now w) = concat (map recover_removes P)"
proof -
  have inv: "wal_inv len w" and P: "pending_of len w = P" using wal_exec_inv [OF assms] by simp_all
  have r: "RecoverPending len (file_lines w) = (P, False)" using wal_inv_RecoverPending [OF inv] P by simp
  have d: "distinct (map we_LSN ([] @ P))"
    using inv P pending_of_filter [OF inv] by (auto simp: wal_inv_def distinct_map_filter)
  have "wal_exec len w ([] @ P)" using assms(1) by simp
  note loop = recover_loop [OF this assms(2) d, of now "[]"]
  then have "wal_inv len (snd (recoverWAL len now w)) \<and> pending_of len (snd (recoverWAL len now w)) = []"
    by (intro wal_exec_inv assms(2)) (simp add: recoverWAL_def r)
  then show ?thesis using loop wal_inv_RecoverPending [of len "snd (recoverWAL len now w)"] by (simp add: recoverWAL_def r)
qed

theorem recoverWAL_settles_witness:
  "RecoverPending sample_len (file_lines (snd (recoverWAL sample_len 9 sample_log))) = ([], False)"
  using recoverWAL_settles [OF sample_log_exec sample_len_short] by simp

end
