(* ===== verification/Sched_Core.thy ===== *)
theory Sched_Core
  imports Sched_Priority Sched_Outcome Sched_Admission Sched_Scorer Sched_Sandbox Policy_Engine Cluster Wal
begin

text \<open>
  \<open>internal/scheduler/scheduler.go\<close>: the scheduler and its read-write mutex \<open>s.mu\<close>. The mutex is
  part of the state, so a goroutine that waits for a lock it holds itself is visible: an operation
  returns \<open>Done\<close>, or \<open>Blocked\<close> with the state in which it waits. A task is stored once under its
  ID, which is what the shared \<open>*Task\<close> pointer amounts to; contexts are numbered, and
  \<open>sc_doneCtx\<close> holds the cancelled ones. \<open>runLocally\<close> is split where it releases the mutex, so
  that other operations can run in between. Logging and the process metrics are left out.
\<close>

record SandboxSettings =
  ss_SandboxMode :: bool
  ss_AllowedCommands :: "string list"
  ss_TaskTimeout :: duration

record SubmitRequest =
  sr_Command :: string
  sr_Env :: "string list"
  sr_PreferredNode :: string
  sr_Hints :: "string \<rightharpoonup> string"

record Sched =
  sc_writer :: bool
  sc_readers :: nat
  sc_tasks :: "string \<rightharpoonup> Task"
  sc_cancels :: "string \<rightharpoonup> nat"
  sc_counter :: nat
  sc_nextCtx :: nat
  sc_doneCtx :: "nat set"
  sc_cluster :: Manager
  sc_sandbox :: SandboxSettings
  sc_outcomes :: OutcomeRecorder
  sc_affinity :: AffinityTracker
  sc_admission :: AdmissionController
  sc_inFlight :: "string \<rightharpoonup> int"
  sc_nodeExtras :: "string \<rightharpoonup> NodeSnapshot"
  sc_wal :: "WAL option"
  sc_policyEngine :: "PolicyEngine option"
  sc_localNodeID :: string
  sc_remoteNodes :: "NodeSnapshot list option"
  sc_remoteRunner :: bool
  sc_notified :: "Task list"
  sc_spawned :: "(nat \<times> string) list"

definition defaultSandboxSettings :: SandboxSettings where
  "defaultSandboxSettings = \<lparr>ss_SandboxMode = True,
     ss_AllowedCommands = [''echo'', ''date'', ''ls'', ''cat'', ''grep'', ''find'', ''pwd'', ''whoami'', ''python3'',
       ''python'', ''node'', ''go'', ''ollama'', ''curl'', ''wget'', ''mkdir'', ''cp'', ''mv'', ''touch'', ''head'', ''tail'',
       ''wc'', ''sort'', ''awk'', ''sed'', ''jq'', ''tar'', ''zip'', ''unzip'', ''ping''],
     ss_TaskTimeout = 5 * minute\<rparr>"

definition NewScheduler :: "Manager \<Rightarrow> Sched" where
  "NewScheduler clusterMgr = \<lparr>sc_writer = False, sc_readers = 0, sc_tasks = Map.empty, sc_cancels = Map.empty,
     sc_counter = 0, sc_nextCtx = 0, sc_doneCtx = {}, sc_cluster = clusterMgr, sc_sandbox = defaultSandboxSettings,
     sc_outcomes = NewOutcomeRecorder (NewBreakerRegistry DefaultBreakerConfig), sc_affinity = Map.empty,
     sc_admission = \<lparr>ad_cfg = DefaultAdmissionConfig, ad_inFlight = 0, ad_queued = 0\<rparr>,
     sc_inFlight = Map.empty, sc_nodeExtras = Map.empty, sc_wal = None, sc_policyEngine = None,
     sc_localNodeID = [], sc_remoteNodes = None, sc_remoteRunner = False, sc_notified = [], sc_spawned = []\<rparr>"

section \<open>The mutex\<close>

datatype 'a run = Done 'a | Blocked Sched

fun and_then :: "'a run \<Rightarrow> ('a \<Rightarrow> 'b run) \<Rightarrow> 'b run" where
  "and_then (Done x) f = f x"
| "and_then (Blocked s) f = Blocked s"

definition mu_Lock :: "Sched \<Rightarrow> Sched run" where
  "mu_Lock s = (if sc_writer s \<or> sc_readers s > 0 then Blocked s else Done (s\<lparr>sc_writer := True\<rparr>))"

definition mu_Unlock :: "Sched \<Rightarrow> Sched" where "mu_Unlock s = s\<lparr>sc_writer := False\<rparr>"

definition mu_RLock :: "Sched \<Rightarrow> Sched run" where
  "mu_RLock s = (if sc_writer s then Blocked s else Done (s\<lparr>sc_readers := sc_readers s + 1\<rparr>))"

definition mu_RUnlock :: "Sched \<Rightarrow> Sched" where "mu_RUnlock s = s\<lparr>sc_readers := sc_readers s - 1\<rparr>"

definition mu_free :: "Sched \<Rightarrow> bool" where "mu_free s \<longleftrightarrow> \<not> sc_writer s \<and> sc_readers s = 0"

section \<open>Choosing a node\<close>

definition in_flight :: "(string \<rightharpoonup> int) \<Rightarrow> string \<Rightarrow> int" where
  "in_flight m n = (case m n of None \<Rightarrow> 0 | Some v \<Rightarrow> v)"

definition node_snapshot :: "time \<Rightarrow> Sched \<Rightarrow> NodeInfo \<Rightarrow> NodeSnapshot" where
  "node_snapshot now s n =
     (let snap = \<lparr>ns_NodeID = ni_ID n,
            ns_FreeRAMBytes = (if ni_RAMTotal n > ni_RAMUsed n then sint (ni_RAMTotal n - ni_RAMUsed n) else 0),
            ns_TotalRAMBytes = sint (ni_RAMTotal n), ns_CPUIdlePct = 100 - ni_CPUPercent n,
            ns_LatencyP50Ms = 0, ns_LatencyP95Ms = 0, ns_GPUVRAMFree = gi_VRAMFree (ni_GPU n),
            ns_HasGPU = gi_Available (ni_GPU n), ns_LoadedModels = [],
            ns_InFlightTasks = in_flight (sc_inFlight s) (ni_ID n),
            ns_HealthScore = OutcomeRecorder_HealthScore (ni_ID n) (sc_outcomes s), ns_IsOnEthernet = False,
            ns_LastSeenAt = (if ni_LastSeen n = zero_time then now else ni_LastSeen n)\<rparr>
      in case sc_nodeExtras s (ni_ID n) of
           None \<Rightarrow> snap
         | Some extra \<Rightarrow> snap\<lparr>ns_LatencyP50Ms := ns_LatencyP50Ms extra, ns_LatencyP95Ms := ns_LatencyP95Ms extra,
              ns_LoadedModels := ns_LoadedModels extra, ns_IsOnEthernet := ns_IsOnEthernet extra\<rparr>)"

text \<open>One node of the loop: skipped when offline or when its breaker does not allow it.\<close>

definition collect_node :: "time \<Rightarrow> NodeSnapshot list \<times> Sched \<Rightarrow> NodeInfo \<Rightarrow> NodeSnapshot list \<times> Sched" where
  "collect_node now st n =
     (case st of (snaps, s) \<Rightarrow>
        if ni_Status n \<noteq> StatusOnline then (snaps, s)
        else let (ok, brs) = BreakerRegistry_Allow now (ni_ID n) (or_breakers (sc_outcomes s));
                 s = s\<lparr>sc_outcomes := (sc_outcomes s)\<lparr>or_breakers := brs\<rparr>\<rparr>
             in if ok then (snaps @ [node_snapshot now s n], s) else (snaps, s))"

definition remote_snapshot :: "Sched \<Rightarrow> NodeSnapshot \<Rightarrow> NodeSnapshot" where
  "remote_snapshot s r =
     (let r = r\<lparr>ns_InFlightTasks := in_flight (sc_inFlight s) (ns_NodeID r)\<rparr>
      in if ns_HealthScore r = 0 then r\<lparr>ns_HealthScore := OutcomeRecorder_HealthScore (ns_NodeID r) (sc_outcomes s)\<rparr> else r)"

fun fallback_loop :: "string \<Rightarrow> uint64 \<Rightarrow> NodeInfo list \<Rightarrow> string" where
  "fallback_loop bestID bestFree [] = bestID"
| "fallback_loop bestID bestFree (n # ns) =
     (if ni_Status n \<noteq> StatusOnline then fallback_loop bestID bestFree ns
      else let free = ni_RAMTotal n - ni_RAMUsed n
           in if free > bestFree then fallback_loop (ni_ID n) free ns else fallback_loop bestID bestFree ns)"

definition pickNodeFallback :: "NodeInfo list \<Rightarrow> string \<Rightarrow> string" where
  "pickNodeFallback nodes preferred =
     (case (if preferred \<noteq> [] then find (\<lambda>n. ni_ID n = preferred \<and> ni_Status n = StatusOnline) nodes else None) of
        Some n \<Rightarrow> ni_ID n
      | None \<Rightarrow> let bestID = fallback_loop [] 0 nodes in if bestID = [] then ''local'' else bestID)"

text \<open>\<open>ks\<close> is the order in which \<open>cluster.List\<close> ranges over the nodes.\<close>

definition selectNode :: "time \<Rightarrow> string list \<Rightarrow> string \<Rightarrow> TaskRequirements \<Rightarrow> string \<Rightarrow> Sched \<Rightarrow> (string \<times> Sched) run" where
  "selectNode now ks cmd reqs preferred s =
     (let reqs = (if preferred \<noteq> [] then reqs\<lparr>AllowedNodes := [preferred]\<rparr> else reqs);
          nodes = Manager_List ks (sc_cluster s);
          (snapshots, s) = foldl (collect_node now) ([], s) nodes
      in and_then (mu_RLock s) (\<lambda>s.
           let remotes = sc_remoteNodes s; s = mu_RUnlock s;
               snapshots = snapshots @ (case remotes of None \<Rightarrow> [] | Some rs \<Rightarrow> map (remote_snapshot s) rs);
               reqs = reqs\<lparr>PreferredNodes := AffinityTracker_PreferredNodes now cmd (sc_affinity s)\<rparr>
           in Done (case BestNode now DefaultWeights snapshots reqs of
                      Some best \<Rightarrow> ns_NodeID best
                    | None \<Rightarrow> pickNodeFallback nodes preferred, s)))"

section \<open>Submitting\<close>

datatype SubmitError = PolicyRejected string | AdmissionRejected admit_reason

definition task_id :: "nat \<Rightarrow> string" where
  "task_id n = ''task-'' @ replicate (4 - length (show_nat n)) CHR ''0'' @ show_nat n"

text \<open>The checks before the mutex is taken: policy engine first, then admission.\<close>

definition submit_check :: "TaskRequirements \<Rightarrow> Sched \<Rightarrow> SubmitError option" where
  "submit_check reqs s =
     (let admit = AdmissionController_Admit reqs (sc_admission s);
          policy = (case sc_policyEngine s of
                      None \<Rightarrow> None
                    | Some pe \<Rightarrow> (case Engine_Evaluate (TaskClass_string (Class reqs)) pe of
                                   (accepted, bp, reason) \<Rightarrow> if accepted then None else Some (PolicyRejected reason)))
      in case policy of
           Some err \<Rightarrow> Some err
         | None \<Rightarrow> if \<not> ar_Accepted admit then Some (AdmissionRejected (ar_Reason admit)) else None)"

text \<open>What \<open>Submit\<close> does with a selected node, still holding the mutex, and after releasing it.\<close>

definition register_task :: "Task \<Rightarrow> string \<Rightarrow> Sched \<Rightarrow> Task \<times> Sched" where
  "register_task task node s =
     (let task = task\<lparr>t_AssignedNode := node\<rparr>; ctx = sc_nextCtx s;
          s = s\<lparr>sc_tasks := (sc_tasks s)(t_ID task \<mapsto> task), sc_nextCtx := ctx + 1,
                sc_cancels := (sc_cancels s)(t_ID task \<mapsto> ctx)\<rparr>;
          s = mu_Unlock s
      in (task, s\<lparr>sc_admission := IncrementInFlight (sc_admission s), sc_spawned := sc_spawned s @ [(ctx, t_ID task)]\<rparr>))"

definition Scheduler_Submit :: "time \<Rightarrow> string list \<Rightarrow> SubmitRequest \<Rightarrow> Sched \<Rightarrow> ((SubmitError + Task) \<times> Sched) run" where
  "Scheduler_Submit now ks req s =
     (let reqs = Classify (sr_Command req) (sr_Hints req)
      in and_then (mu_RLock s) (\<lambda>s. let s = mu_RUnlock s in
         case submit_check reqs s of
           Some err \<Rightarrow> Done (Inl err, s)
         | None \<Rightarrow> and_then (mu_Lock s) (\<lambda>s.
             let s = s\<lparr>sc_counter := sc_counter s + 1\<rparr>;
                 task = \<lparr>t_ID = task_id (sc_counter s), t_Command = sr_Command req, t_Env = sr_Env req,
                         t_PreferredNode = sr_PreferredNode req, t_AssignedNode = [], t_Status = TaskPending,
                         t_Output = [], t_Error = [], t_Requirements = reqs, t_SubmittedAt = now,
                         t_StartedAt = None, t_FinishedAt = None\<rparr>
             in and_then (selectNode now ks (sr_Command req) reqs (sr_PreferredNode req) s) (\<lambda>(node, s).
                  let (task, s) = register_task task node s in Done (Inr task, s)))))"

section \<open>The other operations\<close>

definition Scheduler_Get :: "string \<Rightarrow> Sched \<Rightarrow> (Task option \<times> Sched) run" where
  "Scheduler_Get tid s = and_then (mu_RLock s) (\<lambda>s. Done (sc_tasks s tid, mu_RUnlock s))"

definition Scheduler_List :: "string list \<Rightarrow> Sched \<Rightarrow> (Task list \<times> Sched) run" where
  "Scheduler_List ks s = and_then (mu_RLock s) (\<lambda>s. Done (map (\<lambda>k. the (sc_tasks s k)) ks, mu_RUnlock s))"

datatype CancelError = TaskNotFound string | TaskNotRunning string

definition notify :: "Task \<Rightarrow> Sched \<Rightarrow> Sched" where
  "notify t s = s\<lparr>sc_notified := sc_notified s @ [t]\<rparr>"

definition cancel_ctx :: "string \<Rightarrow> Sched \<Rightarrow> Sched" where
  "cancel_ctx tid s =
     (case sc_cancels s tid of
        None \<Rightarrow> s
      | Some ctx \<Rightarrow> s\<lparr>sc_doneCtx := insert ctx (sc_doneCtx s), sc_cancels := (sc_cancels s)(tid := None)\<rparr>)"

definition live :: "Task \<Rightarrow> bool" where
  "live t = (t_Status t = TaskRunning \<or> t_Status t = TaskPending)"

definition Scheduler_Cancel :: "time \<Rightarrow> string \<Rightarrow> Sched \<Rightarrow> (CancelError option \<times> Sched) run" where
  "Scheduler_Cancel now tid s =
     and_then (mu_Lock s) (\<lambda>s.
       case sc_tasks s tid of
         None \<Rightarrow> Done (Some (TaskNotFound tid), mu_Unlock s)
       | Some t \<Rightarrow>
           if \<not> live t then Done (Some (TaskNotRunning tid), mu_Unlock s)
           else let t = t\<lparr>t_Status := TaskCancelled, t_FinishedAt := Some now\<rparr>;
                    s = s\<lparr>sc_tasks := (sc_tasks s)(tid \<mapsto> t)\<rparr>; s = cancel_ctx tid s
                in Done (None, notify t (mu_Unlock s)))"

text \<open>\<open>ks\<close> is the order of the loop over the tasks; the notifications follow it.\<close>

definition shutdown_task :: "time \<Rightarrow> Task \<Rightarrow> Task" where
  "shutdown_task now t =
     (if live t then t\<lparr>t_Status := TaskCancelled, t_FinishedAt := Some now, t_Error := ''agent shutting down''\<rparr> else t)"

definition Scheduler_Shutdown :: "time \<Rightarrow> string list \<Rightarrow> Sched \<Rightarrow> Sched run" where
  "Scheduler_Shutdown now ks s =
     and_then (mu_Lock s) (\<lambda>s.
       let s = s\<lparr>sc_doneCtx := sc_doneCtx s \<union> ran (sc_cancels s), sc_cancels := Map.empty\<rparr>;
           stopped = map (\<lambda>k. shutdown_task now (the (sc_tasks s k))) (filter (\<lambda>k. live (the (sc_tasks s k))) ks);
           s = s\<lparr>sc_tasks := map_option (shutdown_task now) \<circ> sc_tasks s\<rparr>
       in Done (foldl (\<lambda>s t. notify t s) (mu_Unlock s) stopped))"

record SchedulerStats =
  st_QueueDepth :: int
  st_InFlight :: int
  st_NodeCount :: int
  st_BreakerStates :: "string \<rightharpoonup> string"

definition Scheduler_Stats :: "string list \<Rightarrow> Sched \<Rightarrow> (SchedulerStats \<times> Sched) run" where
  "Scheduler_Stats ks s =
     and_then (mu_RLock s) (\<lambda>s. let s = mu_RUnlock s in
       Done (\<lparr>st_QueueDepth = 0, st_InFlight = fst (AdmissionController_Stats (sc_admission s)),
              st_NodeCount = int (length (filter (\<lambda>n. ni_Status n = StatusOnline) (Manager_List ks (sc_cluster s)))),
              st_BreakerStates = map_option BreakerState_String \<circ> BreakerRegistry_States (or_breakers (sc_outcomes s))\<rparr>, s))"

definition UpdateNodeSnapshot :: "NodeSnapshot \<Rightarrow> Sched \<Rightarrow> Sched" where
  "UpdateNodeSnapshot snap s =
     (let snap = snap\<lparr>ns_HealthScore := OutcomeRecorder_HealthScore (ns_NodeID snap) (sc_outcomes s)\<rparr>
      in s\<lparr>sc_nodeExtras := (sc_nodeExtras s)(ns_NodeID snap \<mapsto> snap)\<rparr>)"

text \<open>One task of the loop of \<open>HandleNodeEvicted\<close>, run with the mutex held.\<close>

definition evict_task :: "time \<Rightarrow> string list \<Rightarrow> string \<Rightarrow> (Task \<times> nat) list \<times> Sched \<Rightarrow> string \<Rightarrow> ((Task \<times> nat) list \<times> Sched) run" where
  "evict_task now ks nodeID st tid =
     (case st of (restart, s) \<Rightarrow>
        let t = the (sc_tasks s tid)
        in if t_AssignedNode t = nodeID \<and> live t
           then let s = cancel_ctx tid s;
                    t = t\<lparr>t_Status := TaskPending, t_StartedAt := None, t_FinishedAt := None\<rparr>
                in and_then (selectNode now ks (t_Command t) (t_Requirements t) (t_PreferredNode t)
                               (s\<lparr>sc_tasks := (sc_tasks s)(tid \<mapsto> t)\<rparr>)) (\<lambda>(node, s).
                     let t = t\<lparr>t_AssignedNode := node\<rparr>; ctx = sc_nextCtx s
                     in Done (restart @ [(t, ctx)],
                          s\<lparr>sc_tasks := (sc_tasks s)(tid \<mapsto> t), sc_nextCtx := ctx + 1,
                            sc_cancels := (sc_cancels s)(tid \<mapsto> ctx)\<rparr>))
           else Done (restart, s))"

fun evict_loop :: "time \<Rightarrow> string list \<Rightarrow> string \<Rightarrow> (Task \<times> nat) list \<times> Sched \<Rightarrow> string list \<Rightarrow> ((Task \<times> nat) list \<times> Sched) run" where
  "evict_loop now ks nodeID st [] = Done st"
| "evict_loop now ks nodeID st (tid # tids) =
     and_then (evict_task now ks nodeID st tid) (\<lambda>st. evict_loop now ks nodeID st tids)"

definition restart_task :: "Sched \<Rightarrow> Task \<times> nat \<Rightarrow> Sched" where
  "restart_task s r =
     (let s = notify (fst r) s
      in s\<lparr>sc_admission := IncrementInFlight (sc_admission s), sc_spawned := sc_spawned s @ [(snd r, t_ID (fst r))]\<rparr>)"

definition HandleNodeEvicted :: "time \<Rightarrow> string list \<Rightarrow> string list \<Rightarrow> string \<Rightarrow> Sched \<Rightarrow> Sched run" where
  "HandleNodeEvicted now ks tids nodeID s =
     (let s = s\<lparr>sc_outcomes := (sc_outcomes s)\<lparr>or_breakers :=
                 BreakerRegistry_modify nodeID (NodeBreaker_RecordFailure now) (or_breakers (sc_outcomes s))\<rparr>\<rparr>
      in and_then (mu_Lock s) (\<lambda>s.
           and_then (evict_loop now ks nodeID ([], s) tids) (\<lambda>(restart, s).
             Done (foldl restart_task (mu_Unlock s) restart))))"

end
