(* ===== verification/Sched_Submit.thy ===== *)
theory Sched_Submit
  imports Sched_Core
begin

text \<open>
  What submission, eviction and node selection of the scheduler do: the self-deadlock of every
  operation that selects a node with \<open>s.mu\<close> held, and the choice made when it is not held.
\<close>

lemma read_section:
  assumes "mu_free s"
  shows "and_then (mu_RLock s) f = f (s\<lparr>sc_readers := Suc 0\<rparr>)" and "mu_RUnlock (s\<lparr>sc_readers := Suc 0\<rparr>) = s"
  using assms by (simp_all add: mu_free_def mu_RLock_def mu_RUnlock_def)

lemma write_section: "mu_free s \<Longrightarrow> and_then (mu_Lock s) f = f (s\<lparr>sc_writer := True\<rparr>)"
  by (simp add: mu_free_def mu_Lock_def)

lemma collect_node_frame: "\<exists>out. snd (collect_node now (snaps, s) n) = s\<lparr>sc_outcomes := out\<rparr>"
proof (cases "ni_Status n = StatusOnline")
  case False
  then show ?thesis by (intro exI [of _ "sc_outcomes s"]) (simp add: collect_node_def)
next
  case True
  obtain ok brs where a: "BreakerRegistry_Allow now (ni_ID n) (or_breakers (sc_outcomes s)) = (ok, brs)" by (metis surj_pair)
  show ?thesis by (cases ok) (auto simp: collect_node_def a True Let_def)
qed

lemma collect_nodes_frame: "\<exists>out. snd (foldl (collect_node now) (snaps, s) ns) = s\<lparr>sc_outcomes := out\<rparr>"
proof (induction ns arbitrary: snaps s)
  case Nil
  show ?case by (intro exI [of _ "sc_outcomes s"]) simp
next
  case (Cons n ns)
  obtain snaps1 s1 where c: "collect_node now (snaps, s) n = (snaps1, s1)" by (metis surj_pair)
  then obtain out1 where "s1 = s\<lparr>sc_outcomes := out1\<rparr>" using collect_node_frame [of now snaps s n] by auto
  then show ?case using Cons [of snaps1 s1] c by auto
qed

lemma selectNode_locked:
  assumes "sc_writer s"
  shows "\<exists>out. selectNode now ks cmd reqs preferred s = Blocked (s\<lparr>sc_outcomes := out\<rparr>)"
proof -
  obtain snaps s1 where f: "foldl (collect_node now) ([], s) (Manager_List ks (sc_cluster s)) = (snaps, s1)" by (metis surj_pair)
  then obtain out where "s1 = s\<lparr>sc_outcomes := out\<rparr>"
    using collect_nodes_frame [of now "[]" s "Manager_List ks (sc_cluster s)"] by auto
  then show ?thesis using assms f by (auto simp: selectNode_def Let_def mu_RLock_def)
qed

lemma selectNode_free:
  assumes "mu_free s"
  shows "\<exists>node out. selectNode now ks cmd reqs preferred s = Done (node, s\<lparr>sc_outcomes := out\<rparr>)"
proof -
  obtain snaps s1 where f: "foldl (collect_node now) ([], s) (Manager_List ks (sc_cluster s)) = (snaps, s1)" by (metis surj_pair)
  then obtain out where "s1 = s\<lparr>sc_outcomes := out\<rparr>"
    using collect_nodes_frame [of now "[]" s "Manager_List ks (sc_cluster s)"] by auto
  moreover from this assms have "mu_free s1" by (simp add: mu_free_def)
  ultimately show ?thesis using f by (auto simp: selectNode_def Let_def read_section)
qed

section \<open>Submission deadlocks\<close>

text \<open>The scheduler waits for \<open>s.mu\<close>, which this very goroutine holds for writing.\<close>

definition stuck :: "Sched \<Rightarrow> bool" where
  "stuck s \<longleftrightarrow> sc_writer s \<and> mu_Lock s = Blocked s \<and> mu_RLock s = Blocked s"

lemma stuck_iff: "stuck s = sc_writer s"
  by (simp add: stuck_def mu_Lock_def mu_RLock_def)

lemma all_block:
  assumes "sc_writer s"
  shows "stuck s" "Scheduler_Get tid s = Blocked s" "Scheduler_Cancel now tid s = Blocked s"
    "Scheduler_List l s = Blocked s" "Scheduler_Shutdown now l s = Blocked s" "Scheduler_Stats l s = Blocked s"
    "Scheduler_Submit now ks req s = Blocked s"
  using assms by (simp_all add: stuck_iff Scheduler_Get_def Scheduler_Cancel_def Scheduler_List_def
      Scheduler_Shutdown_def Scheduler_Stats_def Scheduler_Submit_def mu_RLock_def mu_Lock_def Let_def)

text \<open>
  C1: On a scheduler whose mutex is free, \<open>Submit\<close> returns only when it rejects the request, and
  then changes nothing. A request that the policy engine and admission control accept never
  returns: \<open>Submit\<close> holds \<open>s.mu\<close> when \<open>selectNode\<close> asks for it, no task is stored, and from then
  on looking up, listing, cancelling and submitting tasks, the statistics and shutdown all block.
\<close>

theorem Submit_deadlocks:
  assumes "mu_free s"
  shows "case submit_check (Classify (sr_Command req) (sr_Hints req)) s of
      Some err \<Rightarrow> Scheduler_Submit now ks req s = Done (Inl err, s)
    | None \<Rightarrow> \<exists>s'. Scheduler_Submit now ks req s = Blocked s' \<and> stuck s' \<and> sc_tasks s' = sc_tasks s \<and>
        (\<forall>tid. Scheduler_Get tid s' = Blocked s' \<and> Scheduler_Cancel now tid s' = Blocked s') \<and>
        (\<forall>l. Scheduler_List l s' = Blocked s' \<and> Scheduler_Shutdown now l s' = Blocked s' \<and> Scheduler_Stats l s' = Blocked s') \<and>
        (\<forall>req'. Scheduler_Submit now ks req' s' = Blocked s')"
proof (cases "submit_check (Classify (sr_Command req) (sr_Hints req)) s")
  case (Some err)
  then show ?thesis
    by (simp add: Scheduler_Submit_def Let_def read_section [OF assms])
next
  case None
  let ?reqs = "Classify (sr_Command req) (sr_Hints req)"
  let ?s = "s\<lparr>sc_writer := True, sc_counter := sc_counter s + 1\<rparr>"
  have "sc_writer ?s" by simp
  from selectNode_locked [OF this, of now ks "sr_Command req" ?reqs "sr_PreferredNode req"]
  obtain out where "selectNode now ks (sr_Command req) ?reqs (sr_PreferredNode req) ?s = Blocked (?s\<lparr>sc_outcomes := out\<rparr>)"
    by blast
  then have "Scheduler_Submit now ks req s = Blocked (?s\<lparr>sc_outcomes := out\<rparr>)"
    using None by (simp add: Scheduler_Submit_def Let_def read_section [OF assms] write_section [OF assms])
  then show ?thesis using None all_block [of "?s\<lparr>sc_outcomes := out\<rparr>"] by auto
qed

definition sample_request :: "(string \<rightharpoonup> string) \<Rightarrow> SubmitRequest" where
  "sample_request hints = \<lparr>sr_Command = ''ls'', sr_Env = [], sr_PreferredNode = [], sr_Hints = hints\<rparr>"

lemma sample_request_accepted:
  "submit_check (Classify (sr_Command (sample_request hints)) (sr_Hints (sample_request hints))) (NewScheduler m) = None"
  by (simp add: submit_check_def Let_def NewScheduler_def AdmissionController_Admit_def DefaultAdmissionConfig_def)

theorem Submit_deadlocks_witness:
  "\<exists>s'. Scheduler_Submit 0 [] (sample_request Map.empty) (NewScheduler (NewManager False)) = Blocked s' \<and> stuck s'"
proof -
  have "mu_free (NewScheduler (NewManager False))" by (simp add: mu_free_def NewScheduler_def)
  from Submit_deadlocks [OF this, where req = "sample_request Map.empty" and now = 0 and ks = "[]"] sample_request_accepted show ?thesis
    by auto
qed


section \<open>Eviction deadlocks\<close>

definition affected :: "string \<Rightarrow> Sched \<Rightarrow> string \<Rightarrow> bool" where
  "affected nodeID s tid \<longleftrightarrow> t_AssignedNode (the (sc_tasks s tid)) = nodeID \<and> live (the (sc_tasks s tid))"

lemma cancel_ctx_frame [simp]:
  "sc_writer (cancel_ctx tid s) = sc_writer s" "sc_tasks (cancel_ctx tid s) = sc_tasks s"
  "sc_admission (cancel_ctx tid s) = sc_admission s" "sc_spawned (cancel_ctx tid s) = sc_spawned s"
  by (simp_all add: cancel_ctx_def split: option.split)

lemma evict_task_locked:
  assumes "sc_writer s"
  shows "if affected nodeID s tid
         then \<exists>s'. evict_task now ks nodeID (restart, s) tid = Blocked s' \<and> sc_writer s'
         else evict_task now ks nodeID (restart, s) tid = Done (restart, s)"
proof (cases "affected nodeID s tid")
  case True
  let ?t = "(the (sc_tasks s tid))\<lparr>t_Status := TaskPending, t_StartedAt := None, t_FinishedAt := None\<rparr>"
  let ?s = "(cancel_ctx tid s)\<lparr>sc_tasks := (sc_tasks s)(tid \<mapsto> ?t)\<rparr>"
  have "sc_writer ?s" using assms by simp
  from selectNode_locked [OF this, of now ks "t_Command ?t" "t_Requirements ?t" "t_PreferredNode ?t"]
  show ?thesis using True assms by (auto simp: evict_task_def affected_def Let_def)
next
  case False
  then show ?thesis by (auto simp: evict_task_def affected_def Let_def)
qed

lemma evict_loop_locked:
  assumes "sc_writer s"
  shows "if \<exists>tid \<in> set tids. affected nodeID s tid
         then \<exists>s'. evict_loop now ks nodeID (restart, s) tids = Blocked s' \<and> sc_writer s'
         else evict_loop now ks nodeID (restart, s) tids = Done (restart, s)"
proof (induction tids)
  case (Cons tid tids)
  show ?case
    using Cons evict_task_locked [OF assms, of nodeID tid now ks restart]
    by (cases "affected nodeID s tid") auto
qed simp

text \<open>
  When a node is evicted while a pending or running task is assigned to it,
  \<open>HandleNodeEvicted\<close> never returns: it asks for the mutex it holds, so no task is requeued and the
  scheduler is stuck. It returns, with every task as it was, only when the node has no such task.
\<close>

theorem HandleNodeEvicted_deadlocks:
  assumes "mu_free s"
  shows "if \<exists>tid \<in> set tids. affected nodeID s tid
    then \<exists>s'. HandleNodeEvicted now ks tids nodeID s = Blocked s' \<and> stuck s'
    else \<exists>s'. HandleNodeEvicted now ks tids nodeID s = Done s' \<and> sc_tasks s' = sc_tasks s \<and> sc_spawned s' = sc_spawned s"
proof -
  let ?s = "s\<lparr>sc_outcomes := (sc_outcomes s)\<lparr>or_breakers :=
      BreakerRegistry_modify nodeID (NodeBreaker_RecordFailure now) (or_breakers (sc_outcomes s))\<rparr>, sc_writer := True\<rparr>"
  have f: "mu_free (s\<lparr>sc_outcomes := x\<rparr>)" for x using assms by (simp add: mu_free_def)
  have aff: "affected nodeID ?s = affected nodeID s" by (simp add: affected_def fun_eq_iff)
  have "HandleNodeEvicted now ks tids nodeID s =
      and_then (evict_loop now ks nodeID ([], ?s) tids) (\<lambda>(restart, s). Done (foldl restart_task (mu_Unlock s) restart))"
    by (simp add: HandleNodeEvicted_def Let_def write_section [OF f])
  then show ?thesis
    using evict_loop_locked [of ?s tids nodeID now ks "[]"] unfolding aff
    by (cases "\<exists>tid \<in> set tids. affected nodeID s tid") (auto simp: stuck_iff mu_Unlock_def)
qed

definition sample_running :: "string \<Rightarrow> Sched \<Rightarrow> Sched" where
  "sample_running node s = s\<lparr>sc_tasks := [''t'' \<mapsto> \<lparr>t_ID = ''t'', t_Command = ''ls'', t_Env = [], t_PreferredNode = [],
     t_AssignedNode = node, t_Status = TaskRunning, t_Output = [], t_Error = [], t_Requirements = default_reqs,
     t_SubmittedAt = 0, t_StartedAt = Some 0, t_FinishedAt = None\<rparr>]\<rparr>"

theorem HandleNodeEvicted_deadlocks_witness:
  "\<exists>s'. HandleNodeEvicted 9 [] [''t''] ''n'' (sample_running ''n'' (NewScheduler (NewManager False))) = Blocked s' \<and> stuck s'"
proof -
  let ?s = "sample_running ''n'' (NewScheduler (NewManager False))"
  have "mu_free ?s" by (simp add: mu_free_def NewScheduler_def sample_running_def)
  moreover have "affected ''n'' ?s ''t''" by (simp add: affected_def live_def sample_running_def)
  ultimately show ?thesis using HandleNodeEvicted_deadlocks [of ?s "[''t'']" "''n''" 9 "[]"] by auto
qed

section \<open>The node selected when the mutex is free\<close>

lemma collect_node_ids:
  "\<forall>x \<in> set (fst (foldl (collect_node now) (snaps, s) ns)). x \<in> set snaps \<or>
     (\<exists>n \<in> set ns. ni_Status n = StatusOnline \<and> ns_NodeID x = ni_ID n)"
proof (induction ns arbitrary: snaps s)
  case (Cons n ns)
  obtain snaps1 s1 where c: "collect_node now (snaps, s) n = (snaps1, s1)" by (metis surj_pair)
  have "x \<in> set snaps \<or> ni_Status n = StatusOnline \<and> ns_NodeID x = ni_ID n" if "x \<in> set snaps1" for x
    using c that by (auto simp: collect_node_def node_snapshot_def Let_def split: if_splits prod.splits option.splits)
  then show ?case using Cons [of snaps1 s1] c by auto
qed simp

lemma BestNode_loop_mem:
  "BestNode_loop now w reqs best bs ns = Some b \<Longrightarrow> b \<in> set ns \<and> isEligible now b reqs \<or> best = Some b"
  if "-1 \<le> bs"
  using that
proof (induction ns arbitrary: best bs)
  case (Cons n ns)
  show ?case
  proof (cases "Scorer_Score now w n reqs > bs")
    case True
    then have e: "isEligible now n reqs" using Cons.prems(2) Score_ineligible [of now n reqs w] by force
    show ?thesis using Cons.IH [of "Some n" "Scorer_Score now w n reqs"] Cons.prems True e by auto
  next
    case False
    then show ?thesis using Cons.IH [of best bs] Cons.prems by auto
  qed
qed simp

lemma BestNode_mem: "BestNode now w ns reqs = Some b \<Longrightarrow> b \<in> set ns \<and> isEligible now b reqs"
  using BestNode_loop_mem [of "-1" now w reqs None ns b] by (simp add: BestNode_def)

lemma eligible_allowed: "isEligible now b reqs \<Longrightarrow> AllowedNodes reqs \<noteq> [] \<Longrightarrow> ns_NodeID b \<in> set (AllowedNodes reqs)"
  by (auto simp: isEligible_def split: if_splits)

lemma selectNode_value:
  assumes "mu_free s"
  obtains snaps out where
    "selectNode now ks cmd reqs preferred s =
       Done (case BestNode now DefaultWeights snaps
               ((if preferred \<noteq> [] then reqs\<lparr>AllowedNodes := [preferred]\<rparr> else reqs)\<lparr>PreferredNodes :=
                  AffinityTracker_PreferredNodes now cmd (sc_affinity s)\<rparr>) of
             Some best \<Rightarrow> ns_NodeID best
           | None \<Rightarrow> pickNodeFallback (Manager_List ks (sc_cluster s)) preferred, s\<lparr>sc_outcomes := out\<rparr>)"
    and "\<forall>x \<in> set snaps. (\<exists>n \<in> set (Manager_List ks (sc_cluster s)). ni_Status n = StatusOnline \<and> ns_NodeID x = ni_ID n) \<or>
          (\<exists>rs r. sc_remoteNodes s = Some rs \<and> r \<in> set rs \<and> ns_NodeID x = ns_NodeID r)"
proof -
  obtain snaps s1 where f: "foldl (collect_node now) ([], s) (Manager_List ks (sc_cluster s)) = (snaps, s1)" by (metis surj_pair)
  then obtain out where s1: "s1 = s\<lparr>sc_outcomes := out\<rparr>"
    using collect_nodes_frame [of now "[]" s "Manager_List ks (sc_cluster s)"] by auto
  have free: "mu_free (s\<lparr>sc_outcomes := out\<rparr>)" using assms by (simp add: mu_free_def)
  let ?all = "snaps @ (case sc_remoteNodes s of None \<Rightarrow> [] | Some rs \<Rightarrow> map (remote_snapshot (s\<lparr>sc_outcomes := out\<rparr>)) rs)"
  have "ns_NodeID (remote_snapshot s' r) = ns_NodeID r" for s' r by (simp add: remote_snapshot_def Let_def)
  then have "\<forall>x \<in> set ?all. (\<exists>n \<in> set (Manager_List ks (sc_cluster s)). ni_Status n = StatusOnline \<and> ns_NodeID x = ni_ID n) \<or>
          (\<exists>rs r. sc_remoteNodes s = Some rs \<and> r \<in> set rs \<and> ns_NodeID x = ns_NodeID r)"
    using collect_node_ids [of now "[]" s "Manager_List ks (sc_cluster s)"] f
    by (cases "sc_remoteNodes s") auto
  moreover have "selectNode now ks cmd reqs preferred s =
       Done (case BestNode now DefaultWeights ?all
               ((if preferred \<noteq> [] then reqs\<lparr>AllowedNodes := [preferred]\<rparr> else reqs)\<lparr>PreferredNodes :=
                  AffinityTracker_PreferredNodes now cmd (sc_affinity s)\<rparr>) of
             Some best \<Rightarrow> ns_NodeID best
           | None \<Rightarrow> pickNodeFallback (Manager_List ks (sc_cluster s)) preferred, s\<lparr>sc_outcomes := out\<rparr>)"
    using f s1 free by (cases "sc_remoteNodes s") (simp_all add: selectNode_def Let_def read_section)
  ultimately show thesis using that by blast
qed


lemma fallback_loop_online:
  "fallback_loop b f ns = b \<or> (\<exists>n \<in> set ns. ni_Status n = StatusOnline \<and> fallback_loop b f ns = ni_ID n)"
proof (induction ns arbitrary: b f)
  case (Cons n ns)
  show ?case
    using Cons [of "ni_ID n" "ni_RAMTotal n - ni_RAMUsed n"] Cons [of b f]
    by (cases "ni_Status n = StatusOnline") (auto simp: Let_def)
qed simp

lemma fallback_online:
  "pickNodeFallback nodes preferred = ''local'' \<or>
   (\<exists>n \<in> set nodes. ni_Status n = StatusOnline \<and> pickNodeFallback nodes preferred = ni_ID n)"
proof (cases "if preferred \<noteq> [] then find (\<lambda>n. ni_ID n = preferred \<and> ni_Status n = StatusOnline) nodes else None")
  case None
  then show ?thesis using fallback_loop_online [of "[]" 0 nodes] by (auto simp: pickNodeFallback_def Let_def)
next
  case (Some n)
  then have "n \<in> set nodes" "ni_Status n = StatusOnline" by (auto simp: find_Some_iff split: if_splits)
  then show ?thesis using Some by (auto simp: pickNodeFallback_def Let_def)
qed

lemma fallback_preferred:
  "preferred \<noteq> [] \<Longrightarrow> \<exists>n \<in> set nodes. ni_ID n = preferred \<and> ni_Status n = StatusOnline \<Longrightarrow>
   pickNodeFallback nodes preferred = preferred"
  by (auto simp: pickNodeFallback_def find_None_iff find_Some_iff split: option.splits)

text \<open>
  Called as documented, without \<open>s.mu\<close> held, \<open>selectNode\<close> returns and changes nothing but
  circuit breakers. The answer is \<open>local\<close>, a node of the cluster that is online or a connected
  remote node, and a preferred node that is online is always the answer.
\<close>

theorem selectNode_result:
  assumes "mu_free s"
  shows "\<exists>node out. selectNode now ks cmd reqs preferred s = Done (node, s\<lparr>sc_outcomes := out\<rparr>) \<and>
    (node = ''local'' \<or> (\<exists>n \<in> set (Manager_List ks (sc_cluster s)). ni_Status n = StatusOnline \<and> node = ni_ID n) \<or>
     (\<exists>rs r. sc_remoteNodes s = Some rs \<and> r \<in> set rs \<and> node = ns_NodeID r)) \<and>
    (preferred \<noteq> [] \<longrightarrow>
       (\<exists>n \<in> set (Manager_List ks (sc_cluster s)). ni_ID n = preferred \<and> ni_Status n = StatusOnline) \<longrightarrow>
       node = preferred)"
proof -
  let ?nodes = "Manager_List ks (sc_cluster s)"
  let ?reqs = "(if preferred \<noteq> [] then reqs\<lparr>AllowedNodes := [preferred]\<rparr> else reqs)\<lparr>PreferredNodes :=
    AffinityTracker_PreferredNodes now cmd (sc_affinity s)\<rparr>"
  obtain snaps out where v: "selectNode now ks cmd reqs preferred s =
       Done (case BestNode now DefaultWeights snaps ?reqs of Some best \<Rightarrow> ns_NodeID best
           | None \<Rightarrow> pickNodeFallback ?nodes preferred, s\<lparr>sc_outcomes := out\<rparr>)"
    and ids: "\<forall>x \<in> set snaps. (\<exists>n \<in> set ?nodes. ni_Status n = StatusOnline \<and> ns_NodeID x = ni_ID n) \<or>
          (\<exists>rs r. sc_remoteNodes s = Some rs \<and> r \<in> set rs \<and> ns_NodeID x = ns_NodeID r)"
    by (rule selectNode_value [OF assms])
  show ?thesis
  proof (cases "BestNode now DefaultWeights snaps ?reqs")
    case None
    have "pickNodeFallback ?nodes preferred = ''local'' \<or>
        (\<exists>n \<in> set ?nodes. ni_Status n = StatusOnline \<and> pickNodeFallback ?nodes preferred = ni_ID n)"
      by (rule fallback_online)
    then show ?thesis using v None fallback_preferred [of preferred ?nodes] by auto
  next
    case (Some b)
    have "b \<in> set snaps \<and> isEligible now b ?reqs" by (rule BestNode_mem [OF Some])
    then have "b \<in> set snaps" "preferred \<noteq> [] \<longrightarrow> ns_NodeID b = preferred"
      using eligible_allowed [of now b ?reqs] by auto
    then show ?thesis using v Some ids by auto
  qed
qed

theorem selectNode_result_witness:
  "\<exists>out. selectNode 0 [''a'', ''b''] ''ls'' default_reqs ''b''
     (NewScheduler (sample_cluster [''a'' \<mapsto> Cluster.sample_node ''a'' StatusOnline 10 0, ''b'' \<mapsto> Cluster.sample_node ''b'' StatusOnline 20 0]))
   = Done (''b'', (NewScheduler (sample_cluster [''a'' \<mapsto> Cluster.sample_node ''a'' StatusOnline 10 0,
       ''b'' \<mapsto> Cluster.sample_node ''b'' StatusOnline 20 0]))\<lparr>sc_outcomes := out\<rparr>)"
proof -
  let ?s = "NewScheduler (sample_cluster [''a'' \<mapsto> Cluster.sample_node ''a'' StatusOnline 10 0, ''b'' \<mapsto> Cluster.sample_node ''b'' StatusOnline 20 0])"
  have "mu_free ?s" by (simp add: mu_free_def NewScheduler_def)
  from selectNode_result [OF this, of 0 "[''a'', ''b'']" "''ls''" default_reqs "''b''"]
  show ?thesis by (auto simp: Manager_List_def NewScheduler_def Cluster.sample_node_def)
qed

section \<open>The fallback\<close>

text \<open>A pin by the hint \<open>node\<close> is dropped by the fallback: with the named node unknown, another one is taken.\<close>

lemma fallback_drops_pin:
  assumes "mu_free s" and "AllowedNodes reqs = [x]" and "sc_remoteNodes s = None"
    and "\<forall>n \<in> set (Manager_List ks (sc_cluster s)). ni_ID n \<noteq> x"
  shows "\<exists>out. selectNode now ks cmd reqs [] s =
    Done (pickNodeFallback (Manager_List ks (sc_cluster s)) [], s\<lparr>sc_outcomes := out\<rparr>)"
proof -
  let ?reqs = "reqs\<lparr>PreferredNodes := AffinityTracker_PreferredNodes now cmd (sc_affinity s)\<rparr>"
  obtain snaps out where v: "selectNode now ks cmd reqs [] s =
       Done (case BestNode now DefaultWeights snaps ?reqs of Some best \<Rightarrow> ns_NodeID best
           | None \<Rightarrow> pickNodeFallback (Manager_List ks (sc_cluster s)) [], s\<lparr>sc_outcomes := out\<rparr>)"
    and ids: "\<forall>x \<in> set snaps. (\<exists>n \<in> set (Manager_List ks (sc_cluster s)). ni_Status n = StatusOnline \<and> ns_NodeID x = ni_ID n) \<or>
          (\<exists>rs r. sc_remoteNodes s = Some rs \<and> r \<in> set rs \<and> ns_NodeID x = ns_NodeID r)"
    by (rule selectNode_value [OF assms(1), of now ks cmd reqs "[]"]) simp
  have "BestNode now DefaultWeights snaps ?reqs = None"
  proof (cases "BestNode now DefaultWeights snaps ?reqs")
    case (Some b)
    then have "b \<in> set snaps" "ns_NodeID b = x"
      using BestNode_mem [OF Some] eligible_allowed [of now b ?reqs] assms(2) by auto
    then show ?thesis using ids assms(3,4) by fastforce
  qed
  then show ?thesis using v by auto
qed

text \<open>
  \<open>pickNodeFallback\<close> subtracts without the guard \<open>selectNode\<close> has: a node that reports more RAM used
  than it has wins over every other.
\<close>

lemma fallback_underflow:
  "pickNodeFallback
     [(Cluster.sample_node ''big'' StatusOnline 0 0)\<lparr>ni_RAMTotal := 64000000000, ni_RAMUsed := 1000000000\<rparr>,
      (Cluster.sample_node ''broken'' StatusOnline 0 0)\<lparr>ni_RAMTotal := 0, ni_RAMUsed := 1\<rparr>] [] = ''broken''"
  by (simp add: pickNodeFallback_def Cluster.sample_node_def)

end
