(* ===== verification/Sched_Run.thy ===== *)
theory Sched_Run
  imports Sched_Submit
begin

text \<open>
  \<open>runLocally\<close> of \<open>internal/scheduler/scheduler.go\<close> as a goroutine with a program counter, and the
  interleavings of such goroutines with registrations, cancellations and shutdown. A step is what
  runs between two releases of \<open>s.mu\<close>. The text of a validation error (\<open>emsg\<close>), the encoded length
  of a log entry (\<open>len\<close>) and the output and error of the execution are parameters.
\<close>

datatype pc = AtCheck | AtValidate bool "string list" | AtExec time nat | Finished

record Goroutine =
  g_ctx :: nat
  g_task :: string
  g_pc :: pc

definition set_task :: "string \<Rightarrow> Task \<Rightarrow> Sched \<Rightarrow> Sched" where
  "set_task tid t s = s\<lparr>sc_tasks := (sc_tasks s)(tid \<mapsto> t)\<rparr>"

definition decrement_admission :: "Sched \<Rightarrow> Sched" where
  "decrement_admission s = s\<lparr>sc_admission := DecrementInFlight (sc_admission s)\<rparr>"

definition delete_cancel :: "string \<Rightarrow> Sched \<Rightarrow> Sched" where
  "delete_cancel tid s = s\<lparr>sc_cancels := (sc_cancels s)(tid := None)\<rparr>"

text \<open>The guard at the start of the goroutine, and the reading of the settings.\<close>

definition run_check :: "Goroutine \<Rightarrow> Sched \<Rightarrow> (Goroutine \<times> Sched) run" where
  "run_check g s =
     and_then (mu_Lock s) (\<lambda>s.
       if t_Status (the (sc_tasks s (g_task g))) = TaskCancelled
       then Done (g\<lparr>g_pc := Finished\<rparr>, decrement_admission (mu_Unlock s))
       else Done (g\<lparr>g_pc := AtValidate (ss_SandboxMode (sc_sandbox s)) (ss_AllowedCommands (sc_sandbox s))\<rparr>, mu_Unlock s))"

definition wal_start :: "(WalEntry \<Rightarrow> nat) \<Rightarrow> time \<Rightarrow> Task \<Rightarrow> Sched \<Rightarrow> nat \<times> Sched" where
  "wal_start len now t s =
     (case sc_wal s of
        None \<Rightarrow> (0, s)
      | Some w \<Rightarrow>
          (case WAL_Append len now EntryTaskStart (t_ID t)
                  (TaskPayload (t_Command t) (t_AssignedNode t) (Priority (t_Requirements t)) []) w of
             (Inl err, w) \<Rightarrow> (0, s\<lparr>sc_wal := Some w\<rparr>)
           | (Inr lsn, w) \<Rightarrow> (lsn, s\<lparr>sc_wal := Some w\<rparr>)))"

text \<open>Validation, and the task marked as failed or as running.\<close>

definition run_validate :: "(SandboxError \<Rightarrow> string) \<Rightarrow> (WalEntry \<Rightarrow> nat) \<Rightarrow> time \<Rightarrow> bool \<Rightarrow> string list \<Rightarrow> Goroutine \<Rightarrow> Sched
    \<Rightarrow> (Goroutine \<times> Sched) run" where
  "run_validate emsg len now mode allowlist g s =
     (let tid = g_task g
      in case ValidateCommand (t_Command (the (sc_tasks s tid))) allowlist mode of
           Some err \<Rightarrow>
             and_then (mu_Lock s) (\<lambda>s.
               let t = (the (sc_tasks s tid))\<lparr>t_FinishedAt := Some now, t_Status := TaskFailed, t_Error := emsg err\<rparr>;
                   s = mu_Unlock (delete_cancel tid (set_task tid t s))
               in Done (g\<lparr>g_pc := Finished\<rparr>, notify t (decrement_admission s)))
         | None \<Rightarrow>
             and_then (mu_Lock s) (\<lambda>s.
               let t = (the (sc_tasks s tid))\<lparr>t_Status := TaskRunning, t_StartedAt := Some now\<rparr>;
                   s = notify t (mu_Unlock (set_task tid t s));
                   (lsn, s) = wal_start len now t s;
                   n = t_AssignedNode t;
                   s = s\<lparr>sc_inFlight := (sc_inFlight s)(n \<mapsto> in_flight (sc_inFlight s) n + 1)\<rparr>
               in Done (g\<lparr>g_pc := AtExec now lsn\<rparr>, s)))"

text \<open>Where the task runs: the remote runner or the local worker.\<close>

definition runs_remotely :: "Task \<Rightarrow> Sched \<Rightarrow> bool" where
  "runs_remotely t s =
     (sc_remoteRunner s \<and> t_AssignedNode t \<noteq> ''local'' \<and> t_AssignedNode t \<noteq> [] \<and> t_AssignedNode t \<noteq> sc_localNodeID s)"

definition TaskStatus_string :: "TaskStatus \<Rightarrow> string" where
  "TaskStatus_string st = (case st of TaskPending \<Rightarrow> ''pending'' | TaskRunning \<Rightarrow> ''running''
     | TaskCompleted \<Rightarrow> ''completed'' | TaskFailed \<Rightarrow> ''failed'' | TaskCancelled \<Rightarrow> ''cancelled'')"

definition wal_end :: "(WalEntry \<Rightarrow> nat) \<Rightarrow> time \<Rightarrow> nat \<Rightarrow> Task \<Rightarrow> Sched \<Rightarrow> Sched" where
  "wal_end len now lsn t s =
     (case sc_wal s of
        None \<Rightarrow> s
      | Some w \<Rightarrow>
          if lsn = 0 then s
          else if t_Status t = TaskCompleted
          then (case WAL_Commit len now lsn (t_ID t) w of (r, ckpt, w) \<Rightarrow> s\<lparr>sc_wal := Some w\<rparr>)
          else let reason = (if t_Error t = [] then TaskStatus_string (t_Status t) else t_Error t)
               in s\<lparr>sc_wal := Some (snd (WAL_Abort len now lsn (t_ID t) reason w))\<rparr>)"

definition task_outcome :: "time \<Rightarrow> time \<Rightarrow> string option \<Rightarrow> Task \<Rightarrow> TaskOutcome" where
  "task_outcome startedAt now err t =
     \<lparr>to_NodeID = t_AssignedNode t, to_TaskID = t_ID t, to_Command = t_Command t,
      to_Success = (t_Status t = TaskCompleted), to_DurationMs = (now - startedAt) sdiv millisecond,
      to_Error = (case err of None \<Rightarrow> [] | Some e \<Rightarrow> e), to_CompletedAt = now\<rparr>"

text \<open>Everything after the execution returned \<open>output\<close> and \<open>err\<close>.\<close>

definition finish_task :: "time \<Rightarrow> string \<Rightarrow> string option \<Rightarrow> Task \<Rightarrow> Task" where
  "finish_task now output err t =
     (if t_Status t = TaskCancelled then t
      else let t = t\<lparr>t_FinishedAt := Some now, t_Output := output\<rparr>
           in case err of
                Some e \<Rightarrow> t\<lparr>t_Status := TaskFailed, t_Error := e\<rparr>
              | None \<Rightarrow> t\<lparr>t_Status := TaskCompleted\<rparr>)"

definition release_node :: "string \<Rightarrow> Sched \<Rightarrow> Sched" where
  "release_node n s =
     (if in_flight (sc_inFlight s) n > 0
      then s\<lparr>sc_inFlight := (sc_inFlight s)(n \<mapsto> in_flight (sc_inFlight s) n - 1)\<rparr> else s)"

definition record_outcome :: "time \<Rightarrow> time \<Rightarrow> string option \<Rightarrow> Task \<Rightarrow> Sched \<Rightarrow> Sched" where
  "record_outcome startedAt now err t s =
     (let out = task_outcome startedAt now err t;
          s = s\<lparr>sc_outcomes := OutcomeRecorder_Record now out (sc_outcomes s)\<rparr>
      in if t_Status t = TaskCompleted
         then s\<lparr>sc_affinity := AffinityTracker_RecordExecution (out\<lparr>to_Success := True, to_DurationMs := 0, to_Error := []\<rparr>) (sc_affinity s)\<rparr>
         else s)"

definition run_finish :: "(WalEntry \<Rightarrow> nat) \<Rightarrow> time \<Rightarrow> time \<Rightarrow> nat \<Rightarrow> string \<Rightarrow> string option \<Rightarrow> Goroutine \<Rightarrow> Sched \<Rightarrow> (Goroutine \<times> Sched) run" where
  "run_finish len now startedAt lsn output err g s =
     (let tid = g_task g;
          s = decrement_admission (release_node (t_AssignedNode (the (sc_tasks s tid))) s)
      in and_then (mu_Lock s) (\<lambda>s.
           let t = finish_task now output err (the (sc_tasks s tid));
               s = mu_Unlock (delete_cancel tid (set_task tid t s));
               s = wal_end len now lsn t s;
               s = record_outcome startedAt now err t s
           in Done (g\<lparr>g_pc := Finished\<rparr>, notify t s)))"

definition go_step :: "(SandboxError \<Rightarrow> string) \<Rightarrow> (WalEntry \<Rightarrow> nat) \<Rightarrow> time \<Rightarrow> string \<Rightarrow> string option \<Rightarrow> Goroutine \<Rightarrow> Sched \<Rightarrow> (Goroutine \<times> Sched) run" where
  "go_step emsg len now output err g s =
     (case g_pc g of
        AtCheck \<Rightarrow> run_check g s
      | AtValidate mode allowlist \<Rightarrow> run_validate emsg len now mode allowlist g s
      | AtExec startedAt lsn \<Rightarrow> run_finish len now startedAt lsn output err g s
      | Finished \<Rightarrow> Done (g, s))"

section \<open>Cancellation against the goroutine\<close>

lemma mu_free_Unlock [simp]: "mu_Unlock (s\<lparr>sc_writer := True\<rparr>) = s" if "mu_free s"
  using that by (simp add: mu_Unlock_def mu_free_def)

text \<open>
  A task cancelled while it executes stays cancelled, and is recorded as a failure of its node:
  the health score drops and the node's circuit breaker counts a failure, although the user asked
  for the cancellation.
\<close>

theorem cancelled_run_counts_against_node:
  assumes "mu_free s" and "sc_tasks s (g_task g) = Some t" and "t_Status t = TaskCancelled"
  shows "\<exists>s'. run_finish len now startedAt lsn output err g s = Done (g\<lparr>g_pc := Finished\<rparr>, s') \<and>
    sc_tasks s' (g_task g) = Some t \<and>
    sc_outcomes s' = OutcomeRecorder_Record now (task_outcome startedAt now err t) (sc_outcomes s) \<and>
    or_breakers (sc_outcomes s') =
      BreakerRegistry_modify (t_AssignedNode t) (NodeBreaker_RecordFailure now) (or_breakers (sc_outcomes s))"
proof -
  let ?s = "decrement_admission (release_node (t_AssignedNode t) s)"
  have f: "mu_free ?s" using assms(1) by (simp add: mu_free_def decrement_admission_def release_node_def)
  have frames: "sc_tasks ?s = sc_tasks s" "sc_outcomes ?s = sc_outcomes s"
    by (simp_all add: decrement_admission_def release_node_def)
  have "sc_outcomes (wal_end len now lsn t u) = sc_outcomes u" "sc_tasks (wal_end len now lsn t u) = sc_tasks u" for u
    by (simp_all add: wal_end_def Let_def split: option.split prod.split)
  then show ?thesis
    using assms frames
    by (simp add: run_finish_def Let_def write_section [OF f] finish_task_def record_outcome_def notify_def
        mu_Unlock_def delete_cancel_def set_task_def)
      (simp add: OutcomeRecorder_Record_def task_outcome_def Let_def)
qed

theorem cancelled_run_counts_against_node_witness:
  "\<exists>s'. run_finish sample_len 9 1 0 [] (Some ''killed'') \<lparr>g_ctx = 0, g_task = ''t'', g_pc = AtExec 1 0\<rparr>
      ((sample_running ''n'' (NewScheduler (NewManager False)))\<lparr>sc_tasks :=
         map_option (shutdown_task 5) \<circ> sc_tasks (sample_running ''n'' (NewScheduler (NewManager False)))\<rparr>)
      = Done (\<lparr>g_ctx = 0, g_task = ''t'', g_pc = Finished\<rparr>, s')"
proof -
  let ?s = "(sample_running ''n'' (NewScheduler (NewManager False)))\<lparr>sc_tasks :=
         map_option (shutdown_task 5) \<circ> sc_tasks (sample_running ''n'' (NewScheduler (NewManager False)))\<rparr>"
  have "mu_free ?s" by (simp add: mu_free_def NewScheduler_def sample_running_def)
  moreover obtain t where "sc_tasks ?s ''t'' = Some t" "t_Status t = TaskCancelled"
    by (simp add: sample_running_def shutdown_task_def live_def)
  ultimately show ?thesis
    using cancelled_run_counts_against_node [of ?s "\<lparr>g_ctx = 0, g_task = ''t'', g_pc = AtExec 1 0\<rparr>" t sample_len 9 1 0 "[]" "Some ''killed''"]
    by auto
qed

text \<open>
  A cancellation can be undone. When \<open>Cancel\<close> succeeds after the goroutine's guard and before
  the task is marked as running, the task is marked as running all the same, and ends as completed
  or failed; \<open>Cancel\<close> had already reported success and notified the cancelled state.
\<close>

theorem cancel_lost_before_running:
  assumes "mu_free s" and "sc_tasks s (g_task g) = Some t" and "t_Status t = TaskPending"
    and "ValidateCommand (t_Command t) allowlist mode = None"
  shows "\<exists>s1 s2 lsn t2. Scheduler_Cancel now (g_task g) s = Done (None, s1) \<and>
    t_Status (the (sc_tasks s1 (g_task g))) = TaskCancelled \<and>
    run_validate emsg len now' mode allowlist g s1 = Done (g\<lparr>g_pc := AtExec now' lsn\<rparr>, s2) \<and>
    sc_tasks s2 (g_task g) = Some t2 \<and> t_Status t2 = TaskRunning \<and>
    t_Status (finish_task now'' output err t2) = (if err = None then TaskCompleted else TaskFailed)"
proof -
  let ?tid = "g_task g"
  let ?t1 = "t\<lparr>t_Status := TaskCancelled, t_FinishedAt := Some now\<rparr>"
  have c: "Scheduler_Cancel now ?tid s =
      Done (None, notify ?t1 (mu_Unlock (cancel_ctx ?tid (set_task ?tid ?t1 (s\<lparr>sc_writer := True\<rparr>)))))"
    using assms(2,3) by (simp add: Scheduler_Cancel_def write_section [OF assms(1)] live_def set_task_def Let_def)
  define s1 where "s1 = notify ?t1 (mu_Unlock (cancel_ctx ?tid (set_task ?tid ?t1 (s\<lparr>sc_writer := True\<rparr>))))"
  have s1: "sc_tasks s1 ?tid = Some ?t1" by (simp add: s1_def notify_def mu_Unlock_def set_task_def)
  have f1: "mu_free s1" using assms(1)
    by (simp add: s1_def mu_free_def notify_def mu_Unlock_def set_task_def cancel_ctx_def split: option.split)
  let ?t2 = "?t1\<lparr>t_Status := TaskRunning, t_StartedAt := Some now'\<rparr>"
  obtain lsn u where w: "wal_start len now' ?t2 (notify ?t2 (mu_Unlock (set_task ?tid ?t2 (s1\<lparr>sc_writer := True\<rparr>)))) = (lsn, u)"
    by (metis surj_pair)
  then have "sc_tasks u ?tid = Some ?t2"
    by (auto simp: wal_start_def notify_def mu_Unlock_def set_task_def split: option.splits prod.splits sum.splits)
  then have "\<exists>s2. run_validate emsg len now' mode allowlist g s1 = Done (g\<lparr>g_pc := AtExec now' lsn\<rparr>, s2) \<and>
      sc_tasks s2 ?tid = Some ?t2"
    using s1 assms(4) w by (simp add: run_validate_def write_section [OF f1] Let_def)
  moreover have "t_Status (finish_task now'' output err ?t2) = (if err = None then TaskCompleted else TaskFailed)"
    by (simp add: finish_task_def Let_def split: option.split)
  ultimately show ?thesis using c s1 unfolding s1_def [symmetric] by fastforce
qed


definition sample_pending :: Sched where
  "sample_pending = (NewScheduler (NewManager False))\<lparr>sc_tasks := [''t'' \<mapsto> \<lparr>t_ID = ''t'', t_Command = ''ls'', t_Env = [],
     t_PreferredNode = [], t_AssignedNode = ''n'', t_Status = TaskPending, t_Output = [], t_Error = [],
     t_Requirements = default_reqs, t_SubmittedAt = 0, t_StartedAt = None, t_FinishedAt = None\<rparr>]\<rparr>"

theorem cancel_lost_before_running_witness:
  "\<exists>s1 s2 lsn t2. Scheduler_Cancel 1 ''t'' sample_pending = Done (None, s1) \<and>
     run_validate (\<lambda>e. []) sample_len 2 False [] \<lparr>g_ctx = 0, g_task = ''t'', g_pc = AtValidate False []\<rparr> s1 =
       Done (\<lparr>g_ctx = 0, g_task = ''t'', g_pc = AtExec 2 lsn\<rparr>, s2) \<and>
     sc_tasks s2 ''t'' = Some t2 \<and> t_Status t2 = TaskRunning"
proof -
  let ?g = "\<lparr>g_ctx = 0, g_task = ''t'', g_pc = AtValidate False []\<rparr>"
  have f: "mu_free sample_pending" by (simp add: mu_free_def sample_pending_def NewScheduler_def)
  obtain t where t: "sc_tasks sample_pending (g_task ?g) = Some t" "t_Status t = TaskPending"
    by (simp add: sample_pending_def)
  have v: "ValidateCommand (t_Command t) [] False = None" by (simp add: ValidateCommand_def)
  show ?thesis
    using cancel_lost_before_running [OF f t v, of 1 "\<lambda>e. []" sample_len 2 3 "[]" None] by auto
qed

section \<open>Interleavings\<close>

text \<open>
  Registering a task is what \<open>Submit\<close> does once a node is selected. Each step of a goroutine may
  take any time, and its execution may end with any output and error.
\<close>

inductive sched_step :: "(SandboxError \<Rightarrow> string) \<Rightarrow> (WalEntry \<Rightarrow> nat) \<Rightarrow> Sched \<times> Goroutine list \<Rightarrow> Sched \<times> Goroutine list \<Rightarrow> bool"
  for emsg len where
  Register: "mu_Lock s = Done s1 \<Longrightarrow> sc_tasks s (t_ID task) = None \<Longrightarrow> t_Status task = TaskPending \<Longrightarrow>
    register_task task node s1 = (t', s') \<Longrightarrow>
    sched_step emsg len (s, gos) (s', gos @ [\<lparr>g_ctx = sc_nextCtx s, g_task = t_ID task, g_pc = AtCheck\<rparr>])"
| CancelTask: "Scheduler_Cancel now tid s = Done (r, s') \<Longrightarrow> sched_step emsg len (s, gos) (s', gos)"
| Shutdown: "Scheduler_Shutdown now ks s = Done s' \<Longrightarrow> sched_step emsg len (s, gos) (s', gos)"
| Go: "i < length gos \<Longrightarrow> go_step emsg len now output err (gos ! i) s = Done (g', s') \<Longrightarrow>
    sched_step emsg len (s, gos) (s', gos[i := g'])"

inductive sched_reachable :: "(SandboxError \<Rightarrow> string) \<Rightarrow> (WalEntry \<Rightarrow> nat) \<Rightarrow> Sched \<times> Goroutine list \<Rightarrow> bool" for emsg len where
  New: "sched_reachable emsg len (NewScheduler m, [])"
| Step: "sched_reachable emsg len w \<Longrightarrow> sched_step emsg len w w' \<Longrightarrow> sched_reachable emsg len w'"

definition active :: "Goroutine \<Rightarrow> int" where "active g = (if g_pc g = Finished then 0 else 1)"

fun executing :: "pc \<Rightarrow> bool" where
  "executing (AtExec t l) = True"
| "executing _ = False"

definition exec_on :: "(string \<rightharpoonup> Task) \<Rightarrow> string \<Rightarrow> Goroutine \<Rightarrow> int" where
  "exec_on tasks n g = (if executing (g_pc g) \<and> t_AssignedNode (the (tasks (g_task g))) = n then 1 else 0)"

text \<open>What the status of a task can be at each point of its goroutine.\<close>

fun pc_ok :: "pc \<Rightarrow> TaskStatus \<Rightarrow> bool" where
  "pc_ok AtCheck st = (st \<in> {TaskPending, TaskCancelled})"
| "pc_ok (AtValidate m l) st = (st \<in> {TaskPending, TaskCancelled})"
| "pc_ok (AtExec t l) st = (st \<in> {TaskRunning, TaskCancelled})"
| "pc_ok Finished st = (st \<in> {TaskCompleted, TaskFailed, TaskCancelled})"

definition sched_inv :: "Sched \<times> Goroutine list \<Rightarrow> bool" where
  "sched_inv w \<longleftrightarrow> (case w of (s, gos) \<Rightarrow>
     mu_free s \<and> distinct (map g_task gos) \<and> dom (sc_tasks s) = g_task ` set gos \<and>
     (\<forall>g \<in> set gos. pc_ok (g_pc g) (t_Status (the (sc_tasks s (g_task g))))) \<and>
     ad_inFlight (sc_admission s) = sum_list (map active gos) \<and>
     (\<forall>n. in_flight (sc_inFlight s) n = sum_list (map (exec_on (sc_tasks s) n) gos)))"

text \<open>One goroutine step, seen from outside.\<close>

lemma go_step_effect:
  assumes "mu_free s" and t: "sc_tasks s (g_task g) = Some t" and "pc_ok (g_pc g) (t_Status t)"
    and n: "executing (g_pc g) \<Longrightarrow> 0 < in_flight (sc_inFlight s) (t_AssignedNode t)"
    and step: "go_step emsg len now output err g s = Done (g', s')"
  shows "mu_free s' \<and> g_task g' = g_task g \<and>
    (\<exists>t'. sc_tasks s' = (sc_tasks s)(g_task g \<mapsto> t') \<and> t_AssignedNode t' = t_AssignedNode t \<and> pc_ok (g_pc g') (t_Status t')) \<and>
    ad_inFlight (sc_admission s') = ad_inFlight (sc_admission s) + active g' - active g \<and>
    (\<forall>m. in_flight (sc_inFlight s') m = in_flight (sc_inFlight s) m +
       (if executing (g_pc g') \<and> t_AssignedNode t = m then 1 else 0) - (if executing (g_pc g) \<and> t_AssignedNode t = m then 1 else 0))"
proof (cases "g_pc g")
  case AtCheck
  then show ?thesis
    using assms step
    by (cases "t_Status t = TaskCancelled")
      (auto simp: go_step_def run_check_def write_section [OF assms(1)] decrement_admission_def DecrementInFlight_def
        active_def mu_free_def mu_Unlock_def fun_upd_idem intro!: exI [of _ t])
next
  case (AtValidate mode allowlist)
  show ?thesis
  proof (cases "ValidateCommand (t_Command t) allowlist mode")
    case (Some e)
    then show ?thesis
      using assms step AtValidate
      by (auto simp: go_step_def run_validate_def Let_def write_section [OF assms(1)] decrement_admission_def
          DecrementInFlight_def active_def mu_free_def mu_Unlock_def notify_def delete_cancel_def set_task_def)
  next
    case None
    let ?t = "t\<lparr>t_Status := TaskRunning, t_StartedAt := Some now\<rparr>"
    obtain lsn u where w: "wal_start len now ?t (notify ?t (mu_Unlock (set_task (g_task g) ?t (s\<lparr>sc_writer := True\<rparr>)))) = (lsn, u)"
      by (metis surj_pair)
    then have "mu_free u \<and> sc_tasks u = (sc_tasks s)(g_task g \<mapsto> ?t) \<and> sc_admission u = sc_admission s \<and> sc_inFlight u = sc_inFlight s"
      using assms(1)
      by (auto simp: wal_start_def notify_def mu_Unlock_def set_task_def mu_free_def split: option.splits prod.splits sum.splits)
    then show ?thesis
      using assms step AtValidate None w
      by (auto simp: go_step_def run_validate_def Let_def write_section [OF assms(1)] active_def mu_free_def in_flight_def)
  qed
next
  case (AtExec startedAt lsn)
  let ?s = "decrement_admission (release_node (t_AssignedNode t) s)"
  have f: "mu_free ?s" using assms(1) by (simp add: mu_free_def decrement_admission_def release_node_def)
  let ?t = "finish_task now output err t"
  have wal: "sc_tasks (wal_end len now lsn ?t u) = sc_tasks u" "mu_free (wal_end len now lsn ?t u) = mu_free u"
    "sc_admission (wal_end len now lsn ?t u) = sc_admission u" "sc_inFlight (wal_end len now lsn ?t u) = sc_inFlight u" for u
    by (simp_all add: wal_end_def Let_def mu_free_def split: option.split prod.split)
  have rec: "sc_tasks (record_outcome a b c d u) = sc_tasks u" "mu_free (record_outcome a b c d u) = mu_free u"
    "sc_admission (record_outcome a b c d u) = sc_admission u" "sc_inFlight (record_outcome a b c d u) = sc_inFlight u" for a b c d u
    by (simp_all add: record_outcome_def Let_def mu_free_def)
  have tasks: "sc_tasks ?s = sc_tasks s" by (simp add: decrement_admission_def release_node_def)
  have s': "s' = notify ?t (record_outcome startedAt now err ?t (wal_end len now lsn ?t
      (mu_Unlock (delete_cancel (g_task g) (set_task (g_task g) ?t (?s\<lparr>sc_writer := True\<rparr>))))))"
    "g' = g\<lparr>g_pc := Finished\<rparr>"
    using step t tasks AtExec by (simp_all add: go_step_def run_finish_def Let_def write_section [OF f])
  have nf: "mu_free (notify a u) = mu_free u" "sc_tasks (notify a u) = sc_tasks u"
    "sc_admission (notify a u) = sc_admission u" "sc_inFlight (notify a u) = sc_inFlight u" for a u
    by (simp_all add: notify_def mu_free_def)
  have "pc_ok Finished (t_Status ?t)" "t_AssignedNode ?t = t_AssignedNode t"
    by (auto simp: finish_task_def Let_def split: option.split)
  moreover define C where "C = mu_Unlock (delete_cancel (g_task g) (set_task (g_task g) ?t (?s\<lparr>sc_writer := True\<rparr>)))"
  have C: "mu_free C" "sc_tasks C = (sc_tasks s)(g_task g \<mapsto> ?t)"
    "ad_inFlight (sc_admission C) = ad_inFlight (sc_admission s) - 1"
    "in_flight (sc_inFlight C) m = in_flight (sc_inFlight s) m - (if t_AssignedNode t = m then 1 else 0)" for m
    using f n AtExec
    by (auto simp: C_def mu_Unlock_def delete_cancel_def set_task_def mu_free_def tasks
        decrement_admission_def DecrementInFlight_def release_node_def in_flight_def)
  have "mu_free s'" "sc_tasks s' = sc_tasks C" "sc_admission s' = sc_admission C" "sc_inFlight s' = sc_inFlight C"
    using C(1) unfolding s' C_def [symmetric] by (simp_all add: nf rec wal)
  ultimately show ?thesis using C AtExec s'(2) by (auto simp: active_def intro!: exI [of _ ?t])
next
  case Finished
  then show ?thesis using assms step by (auto simp: go_step_def fun_upd_idem intro!: exI [of _ t])
qed


lemma exec_on_other:
  "g_task g \<noteq> tid \<Longrightarrow> exec_on (tasks(tid \<mapsto> t)) n g = exec_on tasks n g"
  by (simp add: exec_on_def)

lemma exec_on_pos:
  assumes "i < length gos" and "executing (g_pc (gos ! i))"
  shows "0 < sum_list (map (exec_on tasks (t_AssignedNode (the (tasks (g_task (gos ! i)))))) gos)"
proof -
  let ?f = "exec_on tasks (t_AssignedNode (the (tasks (g_task (gos ! i)))))"
  have "?f (gos ! i) \<in> set (map ?f gos)" using assms(1) by simp
  then have "?f (gos ! i) \<le> sum_list (map ?f gos)"
    by (intro sum_list_nonneg_le) (auto simp: exec_on_def)
  then show ?thesis using assms(2) by (simp add: exec_on_def)
qed

lemma sched_inv_Go:
  assumes inv: "sched_inv (s, gos)" and i: "i < length gos"
    and step: "go_step emsg len now output err (gos ! i) s = Done (g', s')"
  shows "sched_inv (s', gos[i := g'])"
proof -
  let ?g = "gos ! i"
  have I: "mu_free s" "distinct (map g_task gos)" "dom (sc_tasks s) = g_task ` set gos"
    "\<And>g. g \<in> set gos \<Longrightarrow> pc_ok (g_pc g) (t_Status (the (sc_tasks s (g_task g))))"
    "ad_inFlight (sc_admission s) = sum_list (map active gos)"
    "\<And>n. in_flight (sc_inFlight s) n = sum_list (map (exec_on (sc_tasks s) n) gos)"
    using inv by (simp_all add: sched_inv_def)
  have gin: "?g \<in> set gos" using i by simp
  then obtain t where t: "sc_tasks s (g_task ?g) = Some t" using I(3) by blast
  have pos: "executing (g_pc ?g) \<Longrightarrow> 0 < in_flight (sc_inFlight s) (t_AssignedNode t)"
    using exec_on_pos [OF i, of "sc_tasks s"] t I(6) by simp
  obtain t' where e: "mu_free s'" "g_task g' = g_task ?g" "sc_tasks s' = (sc_tasks s)(g_task ?g \<mapsto> t')"
    "t_AssignedNode t' = t_AssignedNode t" "pc_ok (g_pc g') (t_Status t')"
    "ad_inFlight (sc_admission s') = ad_inFlight (sc_admission s) + active g' - active ?g"
    "\<And>m. in_flight (sc_inFlight s') m = in_flight (sc_inFlight s) m +
       (if executing (g_pc g') \<and> t_AssignedNode t = m then 1 else 0) - (if executing (g_pc ?g) \<and> t_AssignedNode t = m then 1 else 0)"
    using go_step_effect [OF I(1) t _ pos step] I(4) [OF gin] t by auto
  have tasks_list: "map g_task (gos[i := g']) = map g_task gos" using i e(2) by (metis list_update_id map_update nth_map)
  have others: "g_task g \<noteq> g_task ?g" if gs: "g \<in> set (gos[i := g'])" and ne: "g \<noteq> g'" for g
  proof -
    obtain j where j: "j < length gos" "g = (gos[i := g']) ! j" using gs unfolding in_set_conv_nth by auto
    then have "j \<noteq> i" using ne i by auto
    then have "map g_task gos ! j \<noteq> map g_task gos ! i"
      using j(1) i I(2) nth_eq_iff_index_eq [of "map g_task gos" j i] by simp
    then show ?thesis using j i \<open>j \<noteq> i\<close> by simp
  qed
  have pcs: "pc_ok (g_pc g) (t_Status (the (sc_tasks s' (g_task g))))" if g: "g \<in> set (gos[i := g'])" for g
  proof (cases "g = g'")
    case True
    then show ?thesis using e by simp
  next
    case False
    then have "g \<in> set gos" using g by (meson set_update_subset_insert subsetD insertE)
    then show ?thesis using I(4) others [OF g False] e(3) by simp
  qed
  have exec: "sum_list (map (exec_on (sc_tasks s') n) gos) = sum_list (map (exec_on (sc_tasks s) n) gos)" for n
    using e(3,4) t by (intro arg_cong [of _ _ sum_list] map_cong) (auto simp: exec_on_def)
  have v: "exec_on (sc_tasks s') n g' = (if executing (g_pc g') \<and> t_AssignedNode t = n then 1 else 0)"
    "exec_on (sc_tasks s') n ?g = (if executing (g_pc ?g) \<and> t_AssignedNode t = n then 1 else 0)" for n
    using e(2,3,4) by (simp_all add: exec_on_def)
  have "in_flight (sc_inFlight s') n = sum_list (map (exec_on (sc_tasks s') n) (gos[i := g']))" for n
    unfolding sum_list_map_update [OF i] exec v e(7) I(6) by simp
  moreover have "dom (sc_tasks s') = g_task ` set (gos[i := g'])"
    using e(3) I(3) gin tasks_list by (metis dom_fun_upd insert_absorb list.set_map option.distinct(1) rev_image_eqI)
  ultimately show ?thesis
    using e(1,6) I(2,5) i pcs tasks_list by (simp add: sched_inv_def sum_list_map_update)
qed

text \<open>Cancel and shutdown turn live tasks into cancelled ones and touch nothing else of the invariant.\<close>

lemma sched_inv_cancelled:
  assumes inv: "sched_inv (s, gos)" and "mu_free s'" "sc_admission s' = sc_admission s" "sc_inFlight s' = sc_inFlight s"
    and tasks: "\<And>tid. sc_tasks s' tid = map_option (\<lambda>t. if c tid \<and> live t then f t else t) (sc_tasks s tid)"
    and f: "\<And>t. t_Status (f t) = TaskCancelled" "\<And>t. t_AssignedNode (f t) = t_AssignedNode t"
  shows "sched_inv (s', gos)"
proof -
  have d: "dom (sc_tasks s') = dom (sc_tasks s)" using tasks by (auto simp: dom_def)
  have I: "dom (sc_tasks s) = g_task ` set gos"
    "\<And>g. g \<in> set gos \<Longrightarrow> pc_ok (g_pc g) (t_Status (the (sc_tasks s (g_task g))))"
    using inv by (simp_all add: sched_inv_def)
  have t: "\<exists>t. sc_tasks s (g_task g) = Some t" if "g \<in> set gos" for g using that I(1) by blast
  have "pc_ok (g_pc g) (t_Status (the (sc_tasks s' (g_task g))))" if "g \<in> set gos" for g
    using I(2) [OF that] t [OF that] tasks [of "g_task g"] f(1)
    by (cases "g_pc g") (auto simp: live_def)
  moreover have "sum_list (map (exec_on (sc_tasks s') n) gos) = sum_list (map (exec_on (sc_tasks s) n) gos)" for n
  proof (intro arg_cong [of _ _ sum_list] map_cong [OF refl])
    fix g
    assume "g \<in> set gos"
    then obtain t where "sc_tasks s (g_task g) = Some t" using t by blast
    then show "exec_on (sc_tasks s') n g = exec_on (sc_tasks s) n g" using tasks [of "g_task g"] f(2) by (simp add: exec_on_def)
  qed
  ultimately show ?thesis using inv assms(2-4) d by (simp add: sched_inv_def)
qed


lemma sched_inv_Cancel:
  assumes "sched_inv (s, gos)" and step: "Scheduler_Cancel now tid s = Done (r, s')"
  shows "sched_inv (s', gos)"
proof -
  have f: "mu_free s" using assms(1) by (simp add: sched_inv_def)
  show ?thesis
  proof (cases "\<exists>t. sc_tasks s tid = Some t \<and> live t")
    case True
    then obtain t where t: "sc_tasks s tid = Some t" "live t" by blast
    let ?t = "t\<lparr>t_Status := TaskCancelled, t_FinishedAt := Some now\<rparr>"
    have s': "s' = notify ?t (mu_Unlock (cancel_ctx tid (s\<lparr>sc_writer := True, sc_tasks := (sc_tasks s)(tid \<mapsto> ?t)\<rparr>)))"
      using step t by (simp add: Scheduler_Cancel_def write_section [OF f] Let_def)
    show ?thesis
      by (rule sched_inv_cancelled [OF assms(1), where c = "\<lambda>k. k = tid" and f = "\<lambda>t. t\<lparr>t_Status := TaskCancelled, t_FinishedAt := Some now\<rparr>"])
        (use f t in \<open>auto simp: s' notify_def mu_Unlock_def mu_free_def cancel_ctx_def option.map_ident split: option.splits\<close>)
  next
    case False
    then have "s' = mu_Unlock (s\<lparr>sc_writer := True\<rparr>)"
      using step by (auto simp: Scheduler_Cancel_def write_section [OF f] split: option.splits if_splits)
    then show ?thesis using assms(1) f by simp
  qed
qed

lemma notify_all_frame:
  "sc_tasks (foldl (\<lambda>s t. notify t s) s ts) = sc_tasks s \<and> sc_admission (foldl (\<lambda>s t. notify t s) s ts) = sc_admission s \<and>
   sc_inFlight (foldl (\<lambda>s t. notify t s) s ts) = sc_inFlight s \<and> mu_free (foldl (\<lambda>s t. notify t s) s ts) = mu_free s"
  by (induction ts arbitrary: s) (simp_all add: notify_def mu_free_def)

lemma mu_free_after_Unlock: "mu_free (mu_Unlock u) = (sc_readers u = 0)"
  by (simp add: mu_free_def mu_Unlock_def)

lemma sched_inv_Shutdown:
  assumes "sched_inv (s, gos)" and step: "Scheduler_Shutdown now ks s = Done s'"
  shows "sched_inv (s', gos)"
proof -
  have f: "mu_free s" using assms(1) by (simp add: sched_inv_def)
  let ?f = "\<lambda>t. t\<lparr>t_Status := TaskCancelled, t_FinishedAt := Some now, t_Error := ''agent shutting down''\<rparr>"
  have s': "mu_free s' \<and> sc_admission s' = sc_admission s \<and> sc_inFlight s' = sc_inFlight s \<and>
      sc_tasks s' = map_option (shutdown_task now) \<circ> sc_tasks s"
    using step f
    by (auto simp: Scheduler_Shutdown_def write_section [OF f] Let_def notify_all_frame mu_free_after_Unlock)
      (simp_all add: mu_Unlock_def mu_free_def)
  show ?thesis
    by (rule sched_inv_cancelled [OF assms(1), where c = "\<lambda>k. True" and f = ?f])
      (use s' in \<open>auto simp: shutdown_task_def [abs_def]\<close>)
qed

lemma sched_inv_Register:
  assumes inv: "sched_inv (s, gos)" and lock: "mu_Lock s = Done s1" and new: "sc_tasks s (t_ID task) = None"
    and "t_Status task = TaskPending" and reg: "register_task task node s1 = (t', s')"
  shows "sched_inv (s', gos @ [\<lparr>g_ctx = ctx, g_task = t_ID task, g_pc = AtCheck\<rparr>])"
proof -
  have f: "mu_free s" using inv by (simp add: sched_inv_def)
  have s': "mu_free s'" "sc_tasks s' = (sc_tasks s)(t_ID task \<mapsto> task\<lparr>t_AssignedNode := node\<rparr>)"
    "sc_inFlight s' = sc_inFlight s" "ad_inFlight (sc_admission s') = ad_inFlight (sc_admission s) + 1"
    using reg lock f by (auto simp: register_task_def Let_def mu_Lock_def mu_free_def mu_Unlock_def IncrementInFlight_def)
  have other: "g_task g \<noteq> t_ID task" if "g \<in> set gos" for g using that new inv by (force simp: sched_inv_def dom_def)
  have "sum_list (map (exec_on ((sc_tasks s)(t_ID task \<mapsto> task\<lparr>t_AssignedNode := node\<rparr>)) n) gos) =
      sum_list (map (exec_on (sc_tasks s) n) gos)" for n
    using other by (intro arg_cong [of _ _ sum_list] map_cong) (simp_all add: exec_on_other)
  moreover have "t_ID task \<notin> g_task ` set gos" using other by (metis imageE)
  ultimately show ?thesis
    using inv s' assms(4) other by (auto simp: sched_inv_def active_def exec_on_def)
qed

lemma sched_step_inv: "sched_step emsg len w w' \<Longrightarrow> sched_inv w \<Longrightarrow> sched_inv w'"
  by (induction rule: sched_step.induct)
    (blast intro: sched_inv_Register sched_inv_Cancel sched_inv_Shutdown sched_inv_Go)+

lemma sched_inv_New: "sched_inv (NewScheduler m, [])"
  by (simp add: sched_inv_def NewScheduler_def mu_free_def in_flight_def)



end
