(* ===== verification/Cluster_Join.thy ===== *)
theory Cluster_Join
  imports Cluster
begin

text \<open>
  \<open>internal/cluster/join.go\<close>: single-use join tokens, the transport of the cluster secret and the
  handshake over a stream, with the HTTP variant of the join (\<open>handleJoin\<close> of
  \<open>internal/api/handlers.go\<close>). A byte is a \<open>char\<close>. HMAC-SHA256, HKDF and AES-GCM are the fields of a
  record \<open>crypto\<close>, and JSON of the joining node's description is a pair of functions; \<open>crypto_ok\<close> says
  what their documentation promises. Random bytes are inputs. A stream is the bytes still to be read.
\<close>

type_synonym bytes = string
type_synonym uint32 = "32 word"

section \<open>Length prefixes: \<open>uint32\<close>, big endian\<close>

definition go_byte :: "uint32 \<Rightarrow> char" where
  "go_byte w = char_of (unat w)"

definition put_uint32 :: "uint32 \<Rightarrow> bytes" where
  "put_uint32 n = [go_byte (drop_bit 24 n), go_byte (drop_bit 16 n), go_byte (drop_bit 8 n), go_byte n]"

definition byte_val :: "char \<Rightarrow> uint32" where
  "byte_val c = of_nat (of_char c)"

unbundle bit_operations_syntax

definition get_uint32 :: "bytes \<Rightarrow> uint32" where
  "get_uint32 b = ((push_bit 24 (byte_val (b ! 0)) OR push_bit 16 (byte_val (b ! 1))) OR push_bit 8 (byte_val (b ! 2)))
     OR byte_val (b ! 3)"

lemma byte_val_go_byte: "byte_val (go_byte w) = take_bit 8 w"
proof -
  have "(of_char (char_of (unat w)) :: nat) = take_bit 8 (unat w)"
    by (simp add: take_bit_eq_mod)
  then show ?thesis unfolding byte_val_def go_byte_def
    by (simp flip: unsigned_take_bit_eq)
qed

lemma get_put_uint32: "get_uint32 (put_uint32 n) = n"
proof -
  have "get_uint32 (put_uint32 n) = ((push_bit 24 (take_bit 8 (drop_bit 24 n)) OR push_bit 16 (take_bit 8 (drop_bit 16 n)))
      OR push_bit 8 (take_bit 8 (drop_bit 8 n))) OR take_bit 8 n"
    by (simp add: get_uint32_def put_uint32_def byte_val_go_byte)
  also have "\<dots> = n"
  proof (rule bit_word_eqI)
    fix m :: nat
    assume "m < LENGTH(32)"
    then have m: "m < 32" by simp
    consider "m < 8" | "8 \<le> m" "m < 16" | "16 \<le> m" "m < 24" | "24 \<le> m" by linarith
    then show "bit (((push_bit 24 (take_bit 8 (drop_bit 24 n)) OR push_bit 16 (take_bit 8 (drop_bit 16 n)))
      OR push_bit 8 (take_bit 8 (drop_bit 8 n))) OR take_bit 8 n) m = bit n m"
      using m by cases (auto simp: bit_simps)
  qed
  finally show ?thesis .
qed

lemma put_uint32_length [simp]: "length (put_uint32 n) = 4"
  by (simp add: put_uint32_def)

text \<open>\<open>io.ReadFull\<close>: the bytes read and the rest, or a failure at the end of the stream.\<close>

definition read_full :: "nat \<Rightarrow> bytes \<Rightarrow> (bytes \<times> bytes) option" where
  "read_full n s = (if length s < n then None else Some (take n s, drop n s))"

lemma read_full_append [simp]: "length b = n \<Longrightarrow> read_full n (b @ s) = Some (b, s)"
  by (simp add: read_full_def)

section \<open>Base64 and connection tokens\<close>

definition b64_alphabet :: string where
  "b64_alphabet = ''ABCDEFGHIJKLMNOPQRSTUVWXYZabcdefghijklmnopqrstuvwxyz0123456789+/''"

definition b64_char :: "nat \<Rightarrow> char" where
  "b64_char n = b64_alphabet ! n"

fun index_of :: "'a \<Rightarrow> 'a list \<Rightarrow> nat option" where
  "index_of x [] = None"
| "index_of x (y # ys) = (if x = y then Some 0 else map_option Suc (index_of x ys))"

definition b64_val :: "char \<Rightarrow> nat option" where
  "b64_val c = index_of c b64_alphabet"

lemma index_of_nth: "distinct xs \<Longrightarrow> n < length xs \<Longrightarrow> index_of (xs ! n) xs = Some n"
  by (induction xs arbitrary: n) (auto simp: nth_Cons split: nat.split)

lemma b64_val_char [simp]: "n < 64 \<Longrightarrow> b64_val (b64_char n) = Some n"
  unfolding b64_val_def b64_char_def by (rule index_of_nth) (simp_all add: b64_alphabet_def)

lemma b64_char_pad [simp]: "n < 64 \<Longrightarrow> b64_char n \<noteq> CHR ''=''"
proof
  assume "n < 64" "b64_char n = CHR ''=''"
  then have "b64_val CHR ''='' = Some n" by (metis b64_val_char)
  then show False by (simp add: b64_val_def b64_alphabet_def)
qed

definition ob :: "char \<Rightarrow> nat" where "ob c = of_char c"

lemma ob_less [simp]: "ob c < 256"
  by (simp add: ob_def)

lemma ob_inverse [simp]: "char_of (ob c) = c"
  by (simp add: ob_def)

fun b64_encode :: "bytes \<Rightarrow> string" where
  "b64_encode [] = []"
| "b64_encode [a] = [b64_char (ob a div 4), b64_char (ob a mod 4 * 16), CHR ''='', CHR ''='']"
| "b64_encode [a, b] = [b64_char (ob a div 4), b64_char (ob a mod 4 * 16 + ob b div 16), b64_char (ob b mod 16 * 4), CHR ''='']"
| "b64_encode (a # b # c # bs) =
     b64_char (ob a div 4) # b64_char (ob a mod 4 * 16 + ob b div 16) #
     b64_char (ob b mod 16 * 4 + ob c div 64) # b64_char (ob c mod 64) # b64_encode bs"

fun b64_quads :: "string \<Rightarrow> bytes option" where
  "b64_quads [] = Some []"
| "b64_quads (w # x # y # z # s) =
     (case (b64_val w, b64_val x) of
        (Some p, Some q) \<Rightarrow>
          (if y = CHR ''='' then (if z = CHR ''='' \<and> s = [] then Some [char_of (p * 4 + q div 16)] else None)
           else case b64_val y of
             None \<Rightarrow> None
           | Some r \<Rightarrow>
               if z = CHR ''='' then
                 (if s = [] then Some [char_of (p * 4 + q div 16), char_of (q mod 16 * 16 + r div 4)] else None)
               else case b64_val z of
                 None \<Rightarrow> None
               | Some t \<Rightarrow> map_option (\<lambda>bs. char_of (p * 4 + q div 16) # char_of (q mod 16 * 16 + r div 4) #
                     char_of (r mod 4 * 64 + t) # bs) (b64_quads s))
      | _ \<Rightarrow> None)"
| "b64_quads s = None"

text \<open>\<open>DecodeString\<close> skips line ends.\<close>

definition b64_decode :: "string \<Rightarrow> bytes option" where
  "b64_decode s = b64_quads (filter (\<lambda>c. c \<noteq> CHR 0x0A \<and> c \<noteq> CHR 0x0D) s)"

lemma div_digit: "d < k \<Longrightarrow> (m * k + d) div k = (m::nat)" and mod_digit: "d < k \<Longrightarrow> (m * k + d) mod k = d"
  by simp_all

lemma b64_digits:
  "(ob a div 4) * 4 + (ob a mod 4 * 16 + ob b div 16) div 16 = ob a"
  "(ob a mod 4 * 16 + ob b div 16) mod 16 * 16 + (ob b mod 16 * 4 + ob c div 64) div 4 = ob b"
  "(ob b mod 16 * 4 + ob c div 64) mod 4 * 64 + ob c mod 64 = ob c"
  "(ob a div 4) * 4 + (ob a mod 4 * 16) div 16 = ob a"
  "(ob a mod 4 * 16 + ob b div 16) mod 16 * 16 + (ob b mod 16 * 4) div 4 = ob b"
proof -
  have b: "ob b div 16 < 16" and c: "ob c div 64 < 4"
    using ob_less [of b] ob_less [of c] by (simp_all add: less_mult_imp_div_less)
  show "(ob a div 4) * 4 + (ob a mod 4 * 16 + ob b div 16) div 16 = ob a"
    unfolding div_digit [OF b] by simp
  show "(ob a mod 4 * 16 + ob b div 16) mod 16 * 16 + (ob b mod 16 * 4 + ob c div 64) div 4 = ob b"
    unfolding mod_digit [OF b] div_digit [OF c] by simp
  show "(ob b mod 16 * 4 + ob c div 64) mod 4 * 64 + ob c mod 64 = ob c"
    unfolding mod_digit [OF c] by simp
  show "(ob a div 4) * 4 + (ob a mod 4 * 16) div 16 = ob a" by simp
  show "(ob a mod 4 * 16 + ob b div 16) mod 16 * 16 + (ob b mod 16 * 4) div 4 = ob b"
    unfolding mod_digit [OF b] by simp
qed

lemma b64_ranges [simp]:
  "ob a div 4 < 64" "ob a mod 4 * 16 < 64" "ob b mod 16 * 4 < 64" "ob c mod 64 < 64"
  "ob a mod 4 * 16 + ob b div 16 < 64" "ob b mod 16 * 4 + ob c div 64 < 64"
proof -
  have a: "ob a div 4 < 64" "ob b div 16 < 16" "ob c div 64 < 4"
    using ob_less [of a] ob_less [of b] ob_less [of c] by (simp_all add: less_mult_imp_div_less)
  have m: "ob a mod 4 < 4" "ob b mod 16 < 16" by simp_all
  show "ob a div 4 < 64" "ob c mod 64 < 64" using a by simp_all
  show "ob a mod 4 * 16 < 64" "ob a mod 4 * 16 + ob b div 16 < 64" using m(1) a(2) by linarith+
  show "ob b mod 16 * 4 < 64" "ob b mod 16 * 4 + ob c div 64 < 64" using m(2) a(3) by linarith+
qed

lemma b64_quads_group:
  assumes "p < 64" and "q < 64"
  shows "b64_quads [b64_char p, b64_char q, CHR ''='', CHR ''=''] = Some [char_of (p * 4 + q div 16)]"
    and "r < 64 \<Longrightarrow> b64_quads [b64_char p, b64_char q, b64_char r, CHR ''=''] =
      Some [char_of (p * 4 + q div 16), char_of (q mod 16 * 16 + r div 4)]"
    and "r < 64 \<Longrightarrow> t < 64 \<Longrightarrow> b64_quads (b64_char p # b64_char q # b64_char r # b64_char t # s) =
      map_option (\<lambda>bs. char_of (p * 4 + q div 16) # char_of (q mod 16 * 16 + r div 4) # char_of (r mod 4 * 64 + t) # bs) (b64_quads s)"
  using assms by simp_all

lemma b64_quads_encode: "b64_quads (b64_encode bs) = Some bs"
  by (induction bs rule: b64_encode.induct)
    (simp_all only: b64_encode.simps b64_quads_group b64_ranges b64_digits ob_inverse b64_quads.simps(1) option.map)

lemma b64_char_no_newline: "n < 64 \<Longrightarrow> b64_char n \<noteq> CHR 0x0A" "n < 64 \<Longrightarrow> b64_char n \<noteq> CHR 0x0D"
proof -
  have "b64_val CHR 0x0A = None" "b64_val CHR 0x0D = None" by (simp_all add: b64_val_def b64_alphabet_def)
  then show "n < 64 \<Longrightarrow> b64_char n \<noteq> CHR 0x0A" "n < 64 \<Longrightarrow> b64_char n \<noteq> CHR 0x0D"
    using b64_val_char [of n] by (metis option.distinct(1))+
qed

lemma b64_encode_no_newline: "c \<in> set (b64_encode bs) \<Longrightarrow> c \<noteq> CHR 0x0A \<and> c \<noteq> CHR 0x0D"
  by (induction bs rule: b64_encode.induct) (auto simp: b64_char_no_newline)

lemma b64_roundtrip: "b64_decode (b64_encode bs) = Some bs"
proof -
  have "filter (\<lambda>c. c \<noteq> CHR 0x0A \<and> c \<noteq> CHR 0x0D) (b64_encode bs) = b64_encode bs"
    using b64_encode_no_newline by (simp add: filter_id_conv)
  then show ?thesis by (simp add: b64_decode_def b64_quads_encode)
qed

record ConnectionToken =
  ct_Token :: string
  ct_PeerID :: string
  ct_Addresses :: "string list"

datatype TokenError = BadPrefix | BadBase64 | BadJSON

text \<open>\<open>enc\<close> and \<open>dec\<close> are \<open>json.Marshal\<close> and \<open>json.Unmarshal\<close> of a token.\<close>

definition EncodeConnectionToken :: "(ConnectionToken \<Rightarrow> bytes) \<Rightarrow> ConnectionToken \<Rightarrow> string" where
  "EncodeConnectionToken enc info = ''ofj_'' @ b64_encode (enc info)"

definition DecodeConnectionToken :: "(bytes \<Rightarrow> ConnectionToken option) \<Rightarrow> string \<Rightarrow> TokenError + ConnectionToken" where
  "DecodeConnectionToken dec encoded =
     (if \<not> starts_with ''ofj_'' encoded then Inl BadPrefix
      else case b64_decode (drop 4 encoded) of
        None \<Rightarrow> Inl BadBase64
      | Some data \<Rightarrow> (case dec data of None \<Rightarrow> Inl BadJSON | Some info \<Rightarrow> Inr info))"

text \<open>
  A connection token decodes to what was encoded, whatever the bytes its JSON has, as long as
  the JSON itself reads back.
\<close>

theorem connection_token_roundtrip:
  assumes "dec (enc info) = Some info"
  shows "DecodeConnectionToken dec (EncodeConnectionToken enc info) = Inr info"
  using assms by (simp add: EncodeConnectionToken_def DecodeConnectionToken_def b64_roundtrip)

theorem connection_token_roundtrip_witness:
  "DecodeConnectionToken (\<lambda>b. Some \<lparr>ct_Token = b, ct_PeerID = [], ct_Addresses = []\<rparr>)
     (EncodeConnectionToken ct_Token \<lparr>ct_Token = ''abc123'', ct_PeerID = [], ct_Addresses = []\<rparr>) =
   Inr \<lparr>ct_Token = ''abc123'', ct_PeerID = [], ct_Addresses = []\<rparr>"
  by (rule connection_token_roundtrip) simp

section \<open>Join tokens\<close>

text \<open>Tokens live ten minutes. \<open>tokenStr\<close> is the random code drawn, \<open>ks\<close> plays no part in the collection.\<close>

definition token_ttl :: duration where "token_ttl = 600000000000"

definition token_dead :: "time \<Rightarrow> JoinToken \<Rightarrow> bool" where
  "token_dead now t \<longleftrightarrow> now > jt_ExpiresAt t \<or> jt_Used t"

definition GenerateJoinToken :: "time \<Rightarrow> string \<Rightarrow> Manager \<Rightarrow> JoinToken \<times> Manager" where
  "GenerateJoinToken now tokenStr m =
     (let kept = (\<lambda>k. case cm_joinTokens m k of None \<Rightarrow> None | Some t \<Rightarrow> if now > jt_ExpiresAt t then None else Some t);
          token = \<lparr>jt_Token = tokenStr, jt_ExpiresAt = now + token_ttl, jt_Used = False\<rparr>
      in (token, m\<lparr>cm_joinTokens := kept(tokenStr \<mapsto> token)\<rparr>))"

definition ValidateJoinToken :: "time \<Rightarrow> string \<Rightarrow> Manager \<Rightarrow> bool" where
  "ValidateJoinToken now tokenStr m =
     (case cm_joinTokens m tokenStr of None \<Rightarrow> False | Some t \<Rightarrow> \<not> token_dead now t)"

definition UseJoinToken :: "time \<Rightarrow> string \<Rightarrow> Manager \<Rightarrow> bool \<times> Manager" where
  "UseJoinToken now tokenStr m =
     (case cm_joinTokens m tokenStr of
        None \<Rightarrow> (False, m)
      | Some t \<Rightarrow>
          (let m' = m\<lparr>cm_joinTokens := (cm_joinTokens m)(tokenStr := None)\<rparr>
           in if token_dead now t then (False, m') else (True, m')))"

section \<open>Cryptography as parameters\<close>

record crypto =
  cy_hmac :: "bytes \<Rightarrow> bytes \<Rightarrow> bytes"
  cy_kdf :: "bytes \<Rightarrow> bytes"
  cy_seal :: "bytes \<Rightarrow> bytes \<Rightarrow> bytes \<Rightarrow> bytes"
  cy_open :: "bytes \<Rightarrow> bytes \<Rightarrow> bytes \<Rightarrow> bytes option"

definition crypto_ok :: "crypto \<Rightarrow> bool" where
  "crypto_ok c \<longleftrightarrow> (\<forall>k m. length (cy_hmac c k m) = 32) \<and>
     (\<forall>k n p. length n = 12 \<longrightarrow> length (cy_seal c k n p) = length p + 16 \<and> cy_open c k n (cy_seal c k n p) = Some p)"

definition gcm_nonce_size :: nat where "gcm_nonce_size = 12"

definition EncryptClusterSecret :: "crypto \<Rightarrow> bytes \<Rightarrow> bytes \<Rightarrow> string \<Rightarrow> bytes" where
  "EncryptClusterSecret c nonce clusterSecret joinToken = nonce @ cy_seal c (cy_kdf c joinToken) nonce clusterSecret"

datatype JoinError = CiphertextTooShort | DecryptFailed | ReadFailed | SecretTooLong uint32 | WriteFailed

definition DecryptClusterSecret :: "crypto \<Rightarrow> bytes \<Rightarrow> string \<Rightarrow> JoinError + bytes" where
  "DecryptClusterSecret c ciphertext joinToken =
     (if length ciphertext < gcm_nonce_size then Inl CiphertextTooShort
      else case cy_open c (cy_kdf c joinToken) (take gcm_nonce_size ciphertext) (drop gcm_nonce_size ciphertext) of
        None \<Rightarrow> Inl DecryptFailed
      | Some p \<Rightarrow> Inr p)"

section \<open>Challenge and response\<close>

text \<open>What \<open>ChallengeHandshake\<close> decides on the bytes it reads after sending the nonce.\<close>

datatype ChallengeResult = ChallengeAccepted | ChallengeReadFailed | ChallengeRejected

definition ChallengeHandshake :: "crypto \<Rightarrow> bytes \<Rightarrow> bytes \<Rightarrow> Manager \<Rightarrow> ChallengeResult" where
  "ChallengeHandshake c nonce inp m =
     (case read_full 32 inp of
        None \<Rightarrow> ChallengeReadFailed
      | Some (response, rest) \<Rightarrow>
          if response = cy_hmac c (cm_clusterSecret m) nonce then ChallengeAccepted else ChallengeRejected)"

definition RespondToChallenge :: "crypto \<Rightarrow> string \<Rightarrow> bytes \<Rightarrow> bytes option" where
  "RespondToChallenge c clusterSecret inp = map_option (\<lambda>(nonce, rest). cy_hmac c clusterSecret nonce) (read_full 32 inp)"

section \<open>The join stream\<close>

record JoinNodeInfo =
  jn_Name :: string
  jn_OS :: string
  jn_Arch :: string
  jn_Platform :: string
  jn_CPUPercent :: real
  jn_RAMUsed :: uint64
  jn_RAMTotal :: uint64
  jn_StorageUsed :: uint64
  jn_StorageTotal :: uint64
  jn_Addresses :: "string list"

text \<open>The loop over the tokens, in the order \<open>ks\<close>; the code found (or none) and the tokens left.\<close>

fun match_token :: "crypto \<Rightarrow> time \<Rightarrow> bytes \<Rightarrow> bytes \<Rightarrow> string list \<Rightarrow> (string \<rightharpoonup> JoinToken) \<Rightarrow> string \<times> (string \<rightharpoonup> JoinToken)" where
  "match_token c now nonce response [] toks = ([], toks)"
| "match_token c now nonce response (k # ks) toks =
     (if token_dead now (the (toks k)) then match_token c now nonce response ks (toks(k := None))
      else if response = cy_hmac c k nonce then (k, toks(k := None))
      else match_token c now nonce response ks toks)"

text \<open>
  \<open>HandleJoinStream\<close> up to the answer: the bytes sent and those still to be read, or nothing after a
  reset. The nonce of AES-GCM is \<open>gcm\<close>; \<open>writes\<close> tells whether the answer could be written.
\<close>

definition HandleJoinStream_response :: "crypto \<Rightarrow> time \<Rightarrow> string list \<Rightarrow> bytes \<Rightarrow> bytes \<Rightarrow> bool \<Rightarrow> bytes \<Rightarrow> Manager \<Rightarrow>
    (bytes \<times> bytes) option \<times> Manager" where
  "HandleJoinStream_response c now ks nonce gcm writes inp m =
     (case read_full 32 inp of
        None \<Rightarrow> (None, m)
      | Some (response, rest) \<Rightarrow>
          (let (matchedToken, toks) = match_token c now nonce response ks (cm_joinTokens m);
               m = m\<lparr>cm_joinTokens := toks\<rparr>
           in if matchedToken = [] then (None, m)
              else let encryptedSecret = EncryptClusterSecret c gcm (cm_clusterSecret m) matchedToken
                   in if \<not> writes then (None, m)
                      else (Some (put_uint32 (of_nat (length encryptedSecret)) @ encryptedSecret, rest), m)))"

text \<open>The rest of it: the joining node's description, and its place in the cluster. \<open>dec\<close> is \<open>json.Unmarshal\<close>.\<close>

definition joined_node :: "time \<Rightarrow> string \<Rightarrow> JoinNodeInfo \<Rightarrow> NodeInfo" where
  "joined_node now peer req =
     \<lparr>ni_ID = peer, ni_Name = jn_Name req, ni_Status = StatusOnline,
      ni_DeviceType = InferDeviceType (jn_OS req) (jn_Platform req), ni_OS = jn_OS req, ni_Arch = jn_Arch req,
      ni_CPUPercent = jn_CPUPercent req, ni_RAMUsed = jn_RAMUsed req, ni_RAMTotal = jn_RAMTotal req,
      ni_StorageUsed = jn_StorageUsed req, ni_StorageTotal = jn_StorageTotal req, ni_Addresses = jn_Addresses req,
      ni_LastSeen = now, ni_JoinedAt = now, ni_UptimeSeconds = 0,
      ni_GPU = \<lparr>gi_Available = False, gi_VRAM = 0, gi_VRAMFree = 0\<rparr>\<rparr>"

definition HandleJoinStream_info :: "(bytes \<Rightarrow> JoinNodeInfo option) \<Rightarrow> time \<Rightarrow> string \<Rightarrow> bytes \<Rightarrow> Manager \<Rightarrow> bool \<times> Manager" where
  "HandleJoinStream_info dec now joiningPeerID inp m =
     (case read_full 4 inp of
        None \<Rightarrow> (False, m)
      | Some (lenBuf, rest) \<Rightarrow>
          (let infoLen = get_uint32 lenBuf
           in if infoLen > 65536 then (False, m)
              else case read_full (unat infoLen) rest of
                None \<Rightarrow> (False, m)
              | Some (infoBuf, rest) \<Rightarrow>
                  (case dec infoBuf of
                     None \<Rightarrow> (False, m)
                   | Some req \<Rightarrow> (True, Manager_Upsert now (joined_node now joiningPeerID req) (TrustPeer joiningPeerID m)))))"

text \<open>\<open>ConnectAndJoinP2P\<close>: the answer to the nonce, then what it does with the encrypted secret.\<close>

definition ConnectAndJoinP2P_response :: "crypto \<Rightarrow> ConnectionToken \<Rightarrow> bytes \<Rightarrow> bytes option" where
  "ConnectAndJoinP2P_response c token inp =
     map_option (\<lambda>(nonce, rest). cy_hmac c (ct_Token token) nonce) (read_full 32 inp)"

definition ConnectAndJoinP2P_finish :: "crypto \<Rightarrow> (JoinNodeInfo \<Rightarrow> bytes) \<Rightarrow> ConnectionToken \<Rightarrow> JoinNodeInfo \<Rightarrow> bool \<Rightarrow> bytes \<Rightarrow>
    (JoinError + bytes) \<times> bytes" where
  "ConnectAndJoinP2P_finish c enc token selfInfo writes inp =
     (case read_full 4 inp of
        None \<Rightarrow> (Inl ReadFailed, [])
      | Some (lenBuf, rest) \<Rightarrow>
          (let secretLen = get_uint32 lenBuf
           in if secretLen > 4096 then (Inl (SecretTooLong secretLen), [])
              else case read_full (unat secretLen) rest of
                None \<Rightarrow> (Inl ReadFailed, [])
              | Some (encryptedSecret, rest) \<Rightarrow>
                  (case DecryptClusterSecret c encryptedSecret (ct_Token token) of
                     Inl err \<Rightarrow> (Inl err, [])
                   | Inr clusterSecret \<Rightarrow>
                       if \<not> writes then (Inl WriteFailed, [])
                       else let infoBytes = enc selfInfo
                            in (Inr clusterSecret, put_uint32 (of_nat (length infoBytes)) @ infoBytes))))"

section \<open>The handshake\<close>

lemma match_token_first:
  assumes "distinct ks" and "k \<in> set ks" and "\<not> token_dead now (the (toks k))"
    and "\<And>k'. k' \<in> set ks \<Longrightarrow> cy_hmac c k' nonce = cy_hmac c k nonce \<Longrightarrow> k' = k"
  shows "fst (match_token c now nonce (cy_hmac c k nonce) ks toks) = k"
    and "snd (match_token c now nonce (cy_hmac c k nonce) ks toks) k = None"
proof -
  have "fst (match_token c now nonce (cy_hmac c k nonce) ks toks) = k \<and>
      snd (match_token c now nonce (cy_hmac c k nonce) ks toks) k = None"
    using assms
  proof (induction ks arbitrary: toks)
    case (Cons x xs)
    show ?case
    proof (cases "x = k")
      case True
      then show ?thesis using Cons.prems(3) by simp
    next
      case False
      then have k: "k \<in> set xs" "distinct xs" "x \<notin> set xs" using Cons.prems(1,2) by auto
      have n: "cy_hmac c k nonce \<noteq> cy_hmac c x nonce" using Cons.prems(4) [of x] False by auto
      have ih: "fst (match_token c now nonce (cy_hmac c k nonce) xs t) = k \<and>
          snd (match_token c now nonce (cy_hmac c k nonce) xs t) k = None" if "t k = toks k" for t
        using Cons.IH [of t] Cons.prems(3,4) k that by simp
      have e: "match_token c now nonce (cy_hmac c k nonce) (x # xs) toks =
          match_token c now nonce (cy_hmac c k nonce) xs (if token_dead now (the (toks x)) then toks(x := None) else toks)"
        using n by simp
      show ?thesis unfolding e using False by (intro ih) simp
    qed
  qed simp
  then show "fst (match_token c now nonce (cy_hmac c k nonce) ks toks) = k"
    and "snd (match_token c now nonce (cy_hmac c k nonce) ks toks) k = None" by auto
qed

lemma Encrypt_Decrypt:
  assumes "crypto_ok c" and "length gcm = gcm_nonce_size"
  shows "DecryptClusterSecret c (EncryptClusterSecret c gcm secret tok) tok = Inr secret"
    and "length (EncryptClusterSecret c gcm secret tok) = length secret + 28"
  using assms by (simp_all add: DecryptClusterSecret_def EncryptClusterSecret_def crypto_ok_def gcm_nonce_size_def)

lemma read_prefix:
  assumes "length b < 2 ^ 32"
  shows "read_full 4 (put_uint32 (of_nat (length b)) @ b @ s) = Some (put_uint32 (of_nat (length b)), b @ s)"
    and "unat (get_uint32 (put_uint32 (of_nat (length b)))) = length b"
  using assms by (simp_all add: get_put_uint32 unat_of_nat take_bit_eq_mod)

text \<open>The joining node and the coordinator up to the secret: the token answered for is spent.\<close>

lemma join_secret:
  assumes "crypto_ok c" and "length nonce = 32" and "length gcm = gcm_nonce_size"
    and "map_order ks (cm_joinTokens m)" and "cm_joinTokens m (ct_Token token) = Some t" and "\<not> token_dead now t"
    and "ct_Token token \<noteq> []" and "\<And>k. k \<in> set ks \<Longrightarrow> cy_hmac c k nonce = cy_hmac c (ct_Token token) nonce \<Longrightarrow> k = ct_Token token"
    and "length (cm_clusterSecret m) \<le> 4068"
  obtains resp answer m1 where "ConnectAndJoinP2P_response c token nonce = Some resp"
    and "HandleJoinStream_response c now ks nonce gcm True resp m = (Some (answer, []), m1)"
    and "ConnectAndJoinP2P_finish c enc token info True answer =
      (Inr (cm_clusterSecret m), put_uint32 (of_nat (length (enc info))) @ enc info)"
    and "\<exists>toks. m1 = m\<lparr>cm_joinTokens := toks\<rparr> \<and> toks (ct_Token token) = None"
proof -
  let ?k = "ct_Token token" and ?secret = "cm_clusterSecret m"
  let ?resp = "cy_hmac c ?k nonce"
  obtain tok toks where mt: "match_token c now nonce ?resp ks (cm_joinTokens m) = (tok, toks)" by force
  have k: "distinct ks" "?k \<in> set ks" "\<not> token_dead now (the (cm_joinTokens m ?k))"
    using assms(4-6) by (auto simp: map_order_def)
  from match_token_first [of ks ?k now "cm_joinTokens m" c nonce, OF k assms(8)] mt have tok: "tok = ?k" "toks ?k = None" by simp_all
  let ?e = "EncryptClusterSecret c gcm ?secret ?k"
  have e: "length ?e = length ?secret + 28" "DecryptClusterSecret c ?e ?k = Inr ?secret"
    using Encrypt_Decrypt [OF assms(1,3)] by simp_all
  then have l: "length ?e \<le> 4096" using assms(9) by simp
  let ?answer = "put_uint32 (of_nat (length ?e)) @ ?e"
  have r: "length ?resp = 32" using assms(1) by (simp add: crypto_ok_def)
  have n: "unat (of_nat (length ?e) :: uint32) = length ?e" using l by (simp add: unat_of_nat take_bit_eq_mod)
  then have "\<not> (of_nat (length ?e) :: uint32) > 4096" using l by (simp add: word_less_nat_alt)
  then have "ConnectAndJoinP2P_finish c enc token info True ?answer =
      (Inr ?secret, put_uint32 (of_nat (length (enc info))) @ enc info)"
    using e n by (simp add: ConnectAndJoinP2P_finish_def get_put_uint32 read_full_def Let_def)
  moreover have "HandleJoinStream_response c now ks nonce gcm True ?resp m = (Some (?answer, []), m\<lparr>cm_joinTokens := toks\<rparr>)"
    using mt tok assms(7) r by (simp add: HandleJoinStream_response_def read_full_def Let_def)
  moreover have "ConnectAndJoinP2P_response c token nonce = Some ?resp"
    using assms(2) by (simp add: ConnectAndJoinP2P_response_def read_full_def)
  ultimately show thesis using tok(2) that by blast
qed

lemma join_info:
  assumes "dec (enc info) = Some info" and "length (enc info) < 2 ^ 32"
  shows "HandleJoinStream_info dec now peer (put_uint32 (of_nat (length (enc info))) @ enc info) m =
    (if length (enc info) \<le> 65536 then (True, Manager_Upsert now (joined_node now peer info) (TrustPeer peer m)) else (False, m))"
proof -
  have n: "unat (of_nat (length (enc info)) :: uint32) = length (enc info)"
    using assms(2) by (simp add: unat_of_nat take_bit_eq_mod)
  then have "(of_nat (length (enc info)) :: uint32) > 65536 \<longleftrightarrow> length (enc info) > 65536"
    by (simp add: word_less_nat_alt)
  then show ?thesis using assms n
    by (auto simp: HandleJoinStream_info_def get_put_uint32 read_full_def Let_def)
qed

lemma Upsert_frame [simp]:
  "cm_joinTokens (Manager_Upsert now n m) = cm_joinTokens m" "cm_clusterSecret (Manager_Upsert now n m) = cm_clusterSecret m"
  "cm_trustedPeers (Manager_Upsert now n m) = cm_trustedPeers m"
  by (auto simp: Manager_Upsert_def emit_def Let_def split: option.split)

lemma Upsert_online: "\<exists>x. cm_nodes (Manager_Upsert now n m) (ni_ID n) = Some x \<and> ni_Status x = StatusOnline"
  if "ni_Status n = StatusOnline"
proof (cases "cm_nodes m (ni_ID n)")
  case None
  then show ?thesis using that by (simp add: Manager_Upsert_def emit_def Let_def)
next
  case (Some e)
  then show ?thesis using that by (cases "ni_Addresses n = []") (simp_all add: Manager_Upsert_def emit_def Let_def)
qed

text \<open>
  C14: A node that holds a live token joins: it obtains exactly the cluster's secret, and the
  coordinator trusts it, lists it online and has forgotten the token. It takes a secret of at most
  4068 bytes, a description of at most 65536 bytes, and an HMAC that tells the tokens apart.
\<close>

theorem join_handshake:
  assumes "crypto_ok c" and "length nonce = 32" and "length gcm = gcm_nonce_size"
    and "map_order ks (cm_joinTokens m)" and "cm_joinTokens m (ct_Token token) = Some t" and "\<not> token_dead now t"
    and "ct_Token token \<noteq> []"
    and "\<And>k. k \<in> set ks \<Longrightarrow> cy_hmac c k nonce = cy_hmac c (ct_Token token) nonce \<Longrightarrow> k = ct_Token token"
    and "length (cm_clusterSecret m) \<le> 4068" and "dec (enc info) = Some info" and "length (enc info) \<le> 65536"
  shows "\<exists>resp answer m1 out m2. ConnectAndJoinP2P_response c token nonce = Some resp \<and>
    HandleJoinStream_response c now ks nonce gcm True resp m = (Some (answer, []), m1) \<and>
    ConnectAndJoinP2P_finish c enc token info True answer = (Inr (cm_clusterSecret m), out) \<and>
    HandleJoinStream_info dec now' peer out m1 = (True, m2) \<and>
    IsPeerTrusted peer m2 \<and> (\<exists>n. Manager_Get peer m2 = Some n \<and> ni_Status n = StatusOnline) \<and>
    \<not> ValidateJoinToken now' (ct_Token token) m2"
proof -
  from join_secret [OF assms(1-9)] obtain resp answer m1 where h: "ConnectAndJoinP2P_response c token nonce = Some resp"
    "HandleJoinStream_response c now ks nonce gcm True resp m = (Some (answer, []), m1)"
    "ConnectAndJoinP2P_finish c enc token info True answer =
      (Inr (cm_clusterSecret m), put_uint32 (of_nat (length (enc info))) @ enc info)"
    "\<exists>toks. m1 = m\<lparr>cm_joinTokens := toks\<rparr> \<and> toks (ct_Token token) = None" .
  let ?m2 = "Manager_Upsert now' (joined_node now' peer info) (TrustPeer peer m1)"
  have i: "HandleJoinStream_info dec now' peer (put_uint32 (of_nat (length (enc info))) @ enc info) m1 = (True, ?m2)"
    using join_info [of dec enc info now' peer m1] assms(10,11) by simp
  have "cm_joinTokens m1 (ct_Token token) = None" using h(4) by auto
  then have "\<not> ValidateJoinToken now' (ct_Token token) ?m2" by (simp add: ValidateJoinToken_def TrustPeer_def)
  moreover have "IsPeerTrusted peer ?m2" by (simp add: IsPeerTrusted_def TrustPeer_def)
  moreover have "\<exists>n. Manager_Get peer ?m2 = Some n \<and> ni_Status n = StatusOnline"
    using Upsert_online [of "joined_node now' peer info" now' "TrustPeer peer m1"] by (simp add: joined_node_def Manager_Get_def)
  ultimately show ?thesis using h(1-3) i by blast
qed

text \<open>Functions with the shape of the cryptography, for examples: the key leads its own "hash".\<close>

definition sample_crypto :: crypto where
  "sample_crypto = \<lparr>cy_hmac = (\<lambda>k m. take 32 (k @ replicate 32 CHR ''0'')), cy_kdf = (\<lambda>t. t),
     cy_seal = (\<lambda>k n p. p @ replicate 16 CHR ''#''), cy_open = (\<lambda>k n x. Some (take (length x - 16) x))\<rparr>"

lemma sample_crypto_ok: "crypto_ok sample_crypto"
  by (auto simp: crypto_ok_def sample_crypto_def min_def)

definition sample_coordinator :: Manager where
  "sample_coordinator = snd (GenerateJoinToken 0 ''abc123'' (SetClusterSecret ''secret'' (NewManager False)))"

definition sample_info :: JoinNodeInfo where
  "sample_info = \<lparr>jn_Name = ''laptop'', jn_OS = ''linux'', jn_Arch = ''amd64'', jn_Platform = ''x86_64'', jn_CPUPercent = 0,
     jn_RAMUsed = 1, jn_RAMTotal = 2, jn_StorageUsed = 1, jn_StorageTotal = 2, jn_Addresses = []\<rparr>"

lemma sample_coordinator_tokens:
  "cm_joinTokens sample_coordinator = [''abc123'' \<mapsto> \<lparr>jt_Token = ''abc123'', jt_ExpiresAt = token_ttl, jt_Used = False\<rparr>]"
  "cm_clusterSecret sample_coordinator = ''secret''"
  by (auto simp: sample_coordinator_def GenerateJoinToken_def SetClusterSecret_def NewManager_def Let_def fun_eq_iff)

theorem join_handshake_witness:
  "\<exists>resp answer m1 out. HandleJoinStream_response sample_crypto 5 [''abc123''] (replicate 32 CHR ''n'') (replicate 12 CHR ''g'') True
      resp sample_coordinator = (Some (answer, []), m1) \<and>
    ConnectAndJoinP2P_finish sample_crypto (\<lambda>i. jn_Name i) \<lparr>ct_Token = ''abc123'', ct_PeerID = ''p'', ct_Addresses = []\<rparr> sample_info
      True answer = (Inr ''secret'', out)"
proof -
  let ?token = "\<lparr>ct_Token = ''abc123'', ct_PeerID = ''p'', ct_Addresses = []\<rparr>"
  have "map_order [''abc123''] (cm_joinTokens sample_coordinator)" by (simp add: sample_coordinator_tokens map_order_def)
  moreover have "cm_joinTokens sample_coordinator (ct_Token ?token) =
      Some \<lparr>jt_Token = ''abc123'', jt_ExpiresAt = token_ttl, jt_Used = False\<rparr>" by (simp add: sample_coordinator_tokens)
  moreover have "\<not> token_dead 5 \<lparr>jt_Token = ''abc123'', jt_ExpiresAt = token_ttl, jt_Used = False\<rparr>"
    by (simp add: token_dead_def token_ttl_def)
  ultimately show ?thesis
    using join_handshake [of sample_crypto "replicate 32 CHR ''n''" "replicate 12 CHR ''g''" "[''abc123'']" sample_coordinator ?token
        _ 5 "\<lambda>b. Some sample_info" "\<lambda>i. jn_Name i" sample_info 6 "''q''"] sample_crypto_ok
    by (simp add: sample_coordinator_tokens gcm_nonce_size_def sample_info_def) blast
qed

text \<open>
  The joining node reports success before the coordinator has read its description. When that
  is too long (or lost) the node has the secret and its token is spent, yet the coordinator neither
  trusts it nor lists it.
\<close>

theorem join_half_done:
  assumes "crypto_ok c" and "length nonce = 32" and "length gcm = gcm_nonce_size"
    and "map_order ks (cm_joinTokens m)" and "cm_joinTokens m (ct_Token token) = Some t" and "\<not> token_dead now t"
    and "ct_Token token \<noteq> []"
    and "\<And>k. k \<in> set ks \<Longrightarrow> cy_hmac c k nonce = cy_hmac c (ct_Token token) nonce \<Longrightarrow> k = ct_Token token"
    and "length (cm_clusterSecret m) \<le> 4068" and "dec (enc info) = Some info"
    and "65536 < length (enc info)" and "length (enc info) < 2 ^ 32"
  shows "\<exists>resp answer m1 out. ConnectAndJoinP2P_response c token nonce = Some resp \<and>
    HandleJoinStream_response c now ks nonce gcm True resp m = (Some (answer, []), m1) \<and>
    ConnectAndJoinP2P_finish c enc token info True answer = (Inr (cm_clusterSecret m), out) \<and>
    HandleJoinStream_info dec now' peer out m1 = (False, m1) \<and>
    cm_trustedPeers m1 = cm_trustedPeers m \<and> cm_nodes m1 = cm_nodes m \<and> \<not> ValidateJoinToken now' (ct_Token token) m1"
proof -
  from join_secret [OF assms(1-9)] obtain resp answer m1 where h: "ConnectAndJoinP2P_response c token nonce = Some resp"
    "HandleJoinStream_response c now ks nonce gcm True resp m = (Some (answer, []), m1)"
    "ConnectAndJoinP2P_finish c enc token info True answer =
      (Inr (cm_clusterSecret m), put_uint32 (of_nat (length (enc info))) @ enc info)"
    "\<exists>toks. m1 = m\<lparr>cm_joinTokens := toks\<rparr> \<and> toks (ct_Token token) = None" .
  have i: "HandleJoinStream_info dec now' peer (put_uint32 (of_nat (length (enc info))) @ enc info) m1 = (False, m1)"
    using join_info [of dec enc info now' peer m1] assms(10-12) by simp
  have "cm_trustedPeers m1 = cm_trustedPeers m \<and> cm_nodes m1 = cm_nodes m \<and> \<not> ValidateJoinToken now' (ct_Token token) m1"
    using h(4) by (auto simp: ValidateJoinToken_def)
  then show ?thesis using h(1-3) i by blast
qed

theorem join_half_done_witness:
  "\<exists>resp answer m1 out. HandleJoinStream_response sample_crypto 5 [''abc123''] (replicate 32 CHR ''n'') (replicate 12 CHR ''g'') True
      resp sample_coordinator = (Some (answer, []), m1) \<and> HandleJoinStream_info (\<lambda>b. Some sample_info) 6 ''q'' out m1 = (False, m1)"
proof -
  let ?token = "\<lparr>ct_Token = ''abc123'', ct_PeerID = ''p'', ct_Addresses = []\<rparr>"
  have "map_order [''abc123''] (cm_joinTokens sample_coordinator)" by (simp add: sample_coordinator_tokens map_order_def)
  moreover have "cm_joinTokens sample_coordinator (ct_Token ?token) =
      Some \<lparr>jt_Token = ''abc123'', jt_ExpiresAt = token_ttl, jt_Used = False\<rparr>" by (simp add: sample_coordinator_tokens)
  moreover have "\<not> token_dead 5 \<lparr>jt_Token = ''abc123'', jt_ExpiresAt = token_ttl, jt_Used = False\<rparr>"
    by (simp add: token_dead_def token_ttl_def)
  ultimately show ?thesis
    using join_half_done [of sample_crypto "replicate 32 CHR ''n''" "replicate 12 CHR ''g''" "[''abc123'']" sample_coordinator ?token
        _ 5 "\<lambda>b. Some sample_info" "\<lambda>i. replicate 70000 CHR ''x''" sample_info 6 "''q''"] sample_crypto_ok
    by (simp add: sample_coordinator_tokens gcm_nonce_size_def) blast
qed

section \<open>A token is spent once\<close>

text \<open>
  What may happen to the table of tokens, in any interleaving of the API and of join streams; the
  list is that of the codes accepted, the latest first.
\<close>

datatype token_op = OpGenerate time string | OpUse time string | OpStream time bytes bytes

inductive token_trace :: "crypto \<Rightarrow> Manager \<Rightarrow> token_op list \<Rightarrow> string list \<Rightarrow> Manager \<Rightarrow> bool" for c where
  Start: "token_trace c m [] [] m"
| Generate: "token_trace c m ops acc m1 \<Longrightarrow> GenerateJoinToken now k m1 = (t, m2) \<Longrightarrow>
    token_trace c m (OpGenerate now k # ops) acc m2"
| Use: "token_trace c m ops acc m1 \<Longrightarrow> UseJoinToken now k m1 = (ok, m2) \<Longrightarrow>
    token_trace c m (OpUse now k # ops) (if ok then k # acc else acc) m2"
| Stream: "token_trace c m ops acc m1 \<Longrightarrow> map_order ks (cm_joinTokens m1) \<Longrightarrow>
    match_token c now nonce response ks (cm_joinTokens m1) = (k, toks) \<Longrightarrow>
    token_trace c m (OpStream now nonce response # ops) (if k = [] then acc else k # acc) (m1\<lparr>cm_joinTokens := toks\<rparr>)"

lemma match_token_shrinks:
  assumes "match_token c now nonce response ks toks = (k, toks')" and "set ks \<subseteq> dom toks"
  shows "toks' j \<noteq> None \<Longrightarrow> toks j \<noteq> None" and "k \<noteq> [] \<Longrightarrow> toks k \<noteq> None \<and> toks' k = None"
proof -
  have "(toks' j \<noteq> None \<longrightarrow> toks j \<noteq> None) \<and> (k \<noteq> [] \<longrightarrow> k \<in> set ks \<and> toks' k = None)"
    using assms(1)
  proof (induction ks arbitrary: toks)
    case (Cons x ks)
    consider "match_token c now nonce response ks (toks(x := None)) = (k, toks')"
      | "match_token c now nonce response ks toks = (k, toks')" | "k = x" "toks' = toks(x := None)"
      using Cons.prems by (simp only: match_token.simps) (metis Pair_inject)
    then show ?case
    proof cases
      case 1
      from Cons.IH [OF this] show ?thesis by (auto split: if_splits)
    next
      case 2
      from Cons.IH [OF this] show ?thesis by auto
    qed auto
  qed simp
  then show "toks' j \<noteq> None \<Longrightarrow> toks j \<noteq> None" and "k \<noteq> [] \<Longrightarrow> toks k \<noteq> None \<and> toks' k = None"
    using assms(2) by auto
qed

definition held :: "string \<Rightarrow> Manager \<Rightarrow> nat" where
  "held k m = (if cm_joinTokens m k = None then 0 else 1)"

definition generated :: "string \<Rightarrow> token_op list \<Rightarrow> nat" where
  "generated k ops = length (filter (\<lambda>op. case op of OpGenerate _ k' \<Rightarrow> k' = k | _ \<Rightarrow> False) ops)"

lemma Generate_held: "GenerateJoinToken now k m = (t, m') \<Longrightarrow> held j m' \<le> (if j = k then 1 else held j m)"
  by (auto simp: GenerateJoinToken_def held_def Let_def split: option.splits if_splits)

lemma Use_held: "UseJoinToken now k m = (ok, m') \<Longrightarrow> held j m' + (if ok \<and> j = k then 1 else 0) \<le> held j m"
  by (auto simp: UseJoinToken_def held_def Let_def split: option.splits if_splits)

lemma match_token_held:
  assumes "match_token c now nonce response ks (cm_joinTokens m) = (k, toks)" and "map_order ks (cm_joinTokens m)"
  shows "held j (m\<lparr>cm_joinTokens := toks\<rparr>) + (if k \<noteq> [] \<and> j = k then 1 else 0) \<le> held j m"
  using match_token_shrinks [OF assms(1)] assms(2) by (auto simp: held_def map_order_def)

lemma token_trace_count:
  "token_trace c m ops acc m' \<Longrightarrow> count_list acc k + held k m' \<le> held k m + generated k ops"
proof (induction rule: token_trace.induct)
  case (Generate m ops acc m1 now k' t m2)
  then show ?case using Generate_held [OF Generate.hyps(2), of k] by (auto simp: generated_def)
next
  case (Use m ops acc m1 now k' ok m2)
  then show ?case using Use_held [OF Use.hyps(2), of k] by (auto simp: generated_def)
next
  case (Stream m ops acc m1 ks now nonce response k' toks)
  then show ?case using match_token_held [OF Stream.hyps(3,2), of k] by (auto simp: generated_def)
qed (simp add: generated_def)



section \<open>Joining over HTTP\<close>

record JoinRequest =
  jr_Token :: string
  jr_NodeID :: string
  jr_Info :: JoinNodeInfo

datatype JoinStatus = BadRequest | Unauthorized | FailedDependency

text \<open>\<open>handleJoin\<close> up to the connection it opens to the joining node, and after it.\<close>

definition handleJoin_validate :: "time \<Rightarrow> JoinRequest \<Rightarrow> Manager \<Rightarrow> JoinStatus option" where
  "handleJoin_validate now req m =
     (if jr_Token req = [] \<or> jr_NodeID req = [] then Some BadRequest
      else if \<not> ValidateJoinToken now (jr_Token req) m then Some Unauthorized
      else None)"

definition handleJoin_commit :: "crypto \<Rightarrow> time \<Rightarrow> bytes \<Rightarrow> bool \<Rightarrow> JoinRequest \<Rightarrow> Manager \<Rightarrow> (JoinStatus + bytes) \<times> Manager" where
  "handleJoin_commit c now gcm reached req m =
     (if \<not> reached \<and> jn_Addresses (jr_Info req) \<noteq> [] then (Inl FailedDependency, m)
      else let (used, m) = UseJoinToken now (jr_Token req) m;
               m = TrustPeer (jr_NodeID req) m;
               m = Manager_Upsert now (joined_node now (jr_NodeID req) (jr_Info req)) m
           in (Inr (EncryptClusterSecret c gcm (cm_clusterSecret m) (jr_Token req)), m))"

lemma commit_result:
  assumes "reached \<or> jn_Addresses (jr_Info req) = []"
  obtains m1 where "handleJoin_commit c now gcm reached req m =
      (Inr (EncryptClusterSecret c gcm (cm_clusterSecret m) (jr_Token req)), m1)"
    and "cm_trustedPeers m1 = insert (jr_NodeID req) (cm_trustedPeers m)"
    and "cm_clusterSecret m1 = cm_clusterSecret m" and "cm_joinTokens m1 (jr_Token req) = None"
proof -
  obtain used m' where u: "UseJoinToken now (jr_Token req) m = (used, m')" by force
  then have "cm_trustedPeers m' = cm_trustedPeers m \<and> cm_clusterSecret m' = cm_clusterSecret m \<and> cm_joinTokens m' (jr_Token req) = None"
    by (auto simp: UseJoinToken_def Let_def split: option.splits if_splits)
  then show thesis using that [of "Manager_Upsert now (joined_node now (jr_NodeID req) (jr_Info req)) (TrustPeer (jr_NodeID req) m')"] u assms
    by (auto simp: handleJoin_commit_def TrustPeer_def)
qed

text \<open>
  Over HTTP a code is not single-use. The handler checks it, connects to the joining node, then
  spends it and ignores whether that worked. Two requests with one code that are both past the check
  both join: the second one's token is already gone (or expired meanwhile), and still its node is
  trusted and gets the secret of the cluster.
\<close>

theorem join_code_shared:
  assumes "crypto_ok c" and "length gcm = gcm_nonce_size" and "length gcm' = gcm_nonce_size"
    and "handleJoin_validate now a m = None" and "handleJoin_validate now' b m = None" and "jr_Token a = jr_Token b"
  shows "\<exists>ra m1 rb m2. handleJoin_commit c t gcm True a m = (Inr ra, m1) \<and>
    fst (UseJoinToken t' (jr_Token b) m1) = False \<and>
    handleJoin_commit c t' gcm' True b m1 = (Inr rb, m2) \<and>
    DecryptClusterSecret c rb (jr_Token b) = Inr (cm_clusterSecret m) \<and>
    IsPeerTrusted (jr_NodeID a) m2 \<and> IsPeerTrusted (jr_NodeID b) m2"
proof -
  obtain m1 where 1: "handleJoin_commit c t gcm True a m = (Inr (EncryptClusterSecret c gcm (cm_clusterSecret m) (jr_Token a)), m1)"
    "cm_trustedPeers m1 = insert (jr_NodeID a) (cm_trustedPeers m)" "cm_clusterSecret m1 = cm_clusterSecret m"
    "cm_joinTokens m1 (jr_Token a) = None"
    using commit_result [of True a c t gcm m] by auto
  obtain m2 where 2: "handleJoin_commit c t' gcm' True b m1 = (Inr (EncryptClusterSecret c gcm' (cm_clusterSecret m1) (jr_Token b)), m2)"
    "cm_trustedPeers m2 = insert (jr_NodeID b) (cm_trustedPeers m1)"
    using commit_result [of True b c t' gcm' m1] by auto
  have "fst (UseJoinToken t' (jr_Token b) m1) = False" using 1(4) assms(6) by (simp add: UseJoinToken_def)
  moreover have "IsPeerTrusted (jr_NodeID a) m2 \<and> IsPeerTrusted (jr_NodeID b) m2" using 1(2) 2(2) by (simp add: IsPeerTrusted_def)
  moreover have "DecryptClusterSecret c (EncryptClusterSecret c gcm' (cm_clusterSecret m1) (jr_Token b)) (jr_Token b) =
      Inr (cm_clusterSecret m)"
    using Encrypt_Decrypt(1) [OF assms(1,3)] 1(3) by simp
  ultimately show ?thesis using 1(1) 2(1) by blast
qed

theorem join_code_shared_witness:
  "\<exists>ra m1 rb m2. handleJoin_commit sample_crypto 6 (replicate 12 CHR ''g'') True \<lparr>jr_Token = ''abc123'', jr_NodeID = ''a'', jr_Info = sample_info\<rparr>
      sample_coordinator = (Inr ra, m1) \<and>
    handleJoin_commit sample_crypto 7 (replicate 12 CHR ''h'') True \<lparr>jr_Token = ''abc123'', jr_NodeID = ''b'', jr_Info = sample_info\<rparr>
      m1 = (Inr rb, m2) \<and> DecryptClusterSecret sample_crypto rb ''abc123'' = Inr ''secret'' \<and> IsPeerTrusted ''b'' m2"
proof -
  let ?a = "\<lparr>jr_Token = ''abc123'', jr_NodeID = ''a'', jr_Info = sample_info\<rparr>"
  let ?b = "\<lparr>jr_Token = ''abc123'', jr_NodeID = ''b'', jr_Info = sample_info\<rparr>"
  have v: "handleJoin_validate 5 ?a sample_coordinator = None" "handleJoin_validate 5 ?b sample_coordinator = None"
    by (simp_all add: handleJoin_validate_def ValidateJoinToken_def sample_coordinator_tokens token_dead_def token_ttl_def)
  have l: "length (replicate 12 CHR ''g'') = gcm_nonce_size" "length (replicate 12 CHR ''h'') = gcm_nonce_size"
    by (simp_all add: gcm_nonce_size_def)
  from join_code_shared [OF sample_crypto_ok l v, of 6 7] show ?thesis
    by (auto simp: sample_coordinator_tokens)
qed

end
