(* ===== verification/Last_Writer.thy ===== *)
theory Last_Writer
  imports Prelude
begin

text \<open>
  The contract of a register in which the last writer wins, shared by the registry of file metadata
  and by the settings of the cluster: what a client may rely on without knowing which of them it
  uses. Values that do not concern the register (\<open>mine\<close>) leave it alone.
\<close>

text \<open>\<open>r\<close> is a value of the set with the largest time, or there is none.\<close>

definition latest :: "('v \<Rightarrow> time) \<Rightarrow> 'v set \<Rightarrow> 'v option \<Rightarrow> bool" where
  "latest stamp C r \<longleftrightarrow> (case r of None \<Rightarrow> C = {} | Some w \<Rightarrow> w \<in> C \<and> (\<forall>v \<in> C. stamp v \<le> stamp w))"

lemma latest_unique:
  assumes "latest stamp C r" and "latest stamp C r'" and "inj_on stamp C"
  shows "r = r'"
proof (cases "C = {}")
  case False
  then obtain w w' where r: "r = Some w" "r' = Some w'"
    using assms(1,2) by (cases r; cases r') (auto simp: latest_def)
  then have "w \<in> C" "w' \<in> C" "stamp w = stamp w'" using assms(1,2) by (auto simp: latest_def intro: antisym)
  then show ?thesis using r assms(3) by (auto dest: inj_onD)
qed (use assms in \<open>auto simp: latest_def split: option.splits\<close>)

locale last_writer =
  fixes stamp :: "'v \<Rightarrow> time" and mine :: "'v \<Rightarrow> bool" and cur :: "'s \<Rightarrow> 'v option" and put :: "'v \<Rightarrow> 's \<Rightarrow> 's"
  assumes wins: "mine v \<Longrightarrow> (\<And>c. cur s = Some c \<Longrightarrow> stamp c < stamp v) \<Longrightarrow> cur (put v s) = Some v"
    and stays: "mine v \<Longrightarrow> cur s = Some c \<Longrightarrow> stamp v \<le> stamp c \<Longrightarrow> cur (put v s) = Some c"
    and ignores: "\<not> mine v \<Longrightarrow> cur (put v s) = cur s"
begin

lemma put_latest:
  assumes "latest stamp C (cur s)" and "mine v"
  shows "latest stamp (insert v C) (cur (put v s))"
proof (cases "\<forall>c. cur s = Some c \<longrightarrow> stamp c < stamp v")
  case True
  then have "cur (put v s) = Some v" using wins assms(2) by blast
  then show ?thesis using assms(1) True by (cases "cur s") (fastforce simp: latest_def)+
next
  case False
  then obtain c where "cur s = Some c" "stamp v \<le> stamp c" by auto
  then show ?thesis using assms stays by (auto simp: latest_def)
qed

lemma puts_latest: "latest stamp ({v \<in> set vs. mine v} \<union> set_option (cur s)) (cur (foldl (\<lambda>s v. put v s) s vs))"
proof (induction vs rule: rev_induct)
  case Nil
  show ?case by (cases "cur s") (simp_all add: latest_def)
next
  case (snoc v vs)
  let ?C = "\<lambda>vs. {v \<in> set vs. mine v} \<union> set_option (cur s)"
  have "?C (vs @ [v]) = (if mine v then insert v (?C vs) else ?C vs)" by auto
  then show ?case using snoc put_latest ignores by simp
qed

lemma order_irrelevant:
  assumes "set vs = set vs'" and "inj_on stamp ({v \<in> set vs. mine v} \<union> set_option (cur s))"
  shows "cur (foldl (\<lambda>s v. put v s) s vs) = cur (foldl (\<lambda>s v. put v s) s vs')"
  using latest_unique [OF puts_latest puts_latest [of vs' s, folded assms(1)] assms(2)] .

text \<open>
  Two replicas synchronise: the second is sent the value of the first and answers with its own.
\<close>

lemma exchange:
  assumes "cur a = Some x" and "cur b = Some y" and "mine x" and "mine y"
    and "cur (put x b) = Some z"
  shows "cur (put z a) = Some z \<longleftrightarrow> (stamp x = stamp y \<longrightarrow> x = y)"
    and "stamp x < stamp y \<Longrightarrow> z = y" and "stamp y < stamp x \<Longrightarrow> z = x"
proof -
  show later: "stamp x < stamp y \<Longrightarrow> z = y" using stays [OF assms(3,2)] assms(5) by simp
  show sooner: "stamp y < stamp x \<Longrightarrow> z = x" using wins [OF assms(3), of b] assms(2,5) by simp
  consider "stamp x < stamp y" | "stamp y < stamp x" | "stamp x = stamp y" by linarith
  then show "cur (put z a) = Some z \<longleftrightarrow> (stamp x = stamp y \<longrightarrow> x = y)"
  proof cases
    case 1
    then show ?thesis using wins [OF assms(4), of a] assms(1) later by simp
  next
    case 2
    then show ?thesis using stays [OF assms(3,1)] sooner by simp
  next
    case 3
    then have "z = y" using stays [OF assms(3,2)] assms(5) by simp
    then show ?thesis using stays [OF assms(4,1)] 3 by auto
  qed
qed

end

end
