(* ===== verification/Storage_CRDT.thy ===== *)
theory Storage_CRDT
  imports Wal Go_Strings Last_Writer
begin

text \<open>
  \<open>internal/storage\<close>: the last-write-wins registry of file metadata (\<open>crdt.go\<close>), the shared file
  store over it (\<open>store.go\<close>), the merge of a peer's registry (\<open>sync_protocol.go\<close>) and the table of
  files available elsewhere (\<open>availability.go\<close>). The directory is the set of the absolute paths of
  its files; what the operating system answers to a write is an input. \<open>metadata.json\<close> holds the
  entries themselves. Paths are those of Unix.
\<close>

record MetaEntry =
  me_Path :: string
  me_NodeID :: string
  me_Size :: int
  me_ModTime :: time
  me_UpdatedAt :: time
  me_Tombstone :: bool
  me_Checksum :: string

record CRDTStore =
  cr_entries :: "string \<rightharpoonup> MetaEntry"
  cr_filePath :: bool
  cr_disk :: "(string \<rightharpoonup> MetaEntry) option"

section \<open>The registry\<close>

definition NewCRDTStore :: CRDTStore where
  "NewCRDTStore = \<lparr>cr_entries = Map.empty, cr_filePath = False, cr_disk = None\<rparr>"

definition SetFilePath :: "CRDTStore \<Rightarrow> CRDTStore" where
  "SetFilePath c = c\<lparr>cr_filePath := True\<rparr>"

definition LoadFromDisk :: "CRDTStore \<Rightarrow> CRDTStore" where
  "LoadFromDisk c =
     (if \<not> cr_filePath c then c else case cr_disk c of None \<Rightarrow> c | Some saved \<Rightarrow> c\<lparr>cr_entries := saved\<rparr>)"

definition SaveToDisk :: "CRDTStore \<Rightarrow> CRDTStore" where
  "SaveToDisk c = (if \<not> cr_filePath c then c else c\<lparr>cr_disk := Some (cr_entries c)\<rparr>)"

definition CRDT_Upsert :: "MetaEntry \<Rightarrow> CRDTStore \<Rightarrow> bool \<times> CRDTStore" where
  "CRDT_Upsert entry c =
     (case cr_entries c (me_Path entry) of
        Some existing \<Rightarrow>
          if \<not> me_UpdatedAt entry > me_UpdatedAt existing then (False, c)
          else (True, SaveToDisk (c\<lparr>cr_entries := (cr_entries c)(me_Path entry \<mapsto> entry)\<rparr>))
      | None \<Rightarrow> (True, SaveToDisk (c\<lparr>cr_entries := (cr_entries c)(me_Path entry \<mapsto> entry)\<rparr>)))"

definition CRDT_Get :: "string \<Rightarrow> CRDTStore \<Rightarrow> MetaEntry option" where
  "CRDT_Get path c = cr_entries c path"

definition CRDT_List :: "string list \<Rightarrow> CRDTStore \<Rightarrow> MetaEntry list" where
  "CRDT_List ks c = filter (\<lambda>e. \<not> me_Tombstone e) (map (\<lambda>k. the (cr_entries c k)) ks)"

definition CRDT_Delete :: "time \<Rightarrow> string \<Rightarrow> string \<Rightarrow> CRDTStore \<Rightarrow> CRDTStore" where
  "CRDT_Delete now path nodeID c =
     SaveToDisk (c\<lparr>cr_entries := (cr_entries c)(path \<mapsto>
       \<lparr>me_Path = path, me_NodeID = nodeID, me_Size = 0, me_ModTime = zero_time, me_UpdatedAt = now,
        me_Tombstone = True, me_Checksum = []\<rparr>)\<rparr>)"

section \<open>Files known to be elsewhere\<close>

record FileReadiness =
  fr_Path :: string
  fr_SourceNodeID :: string
  fr_SizeBytes :: int
  fr_Checksum :: string
  fr_AvailableOn :: "string list"
  fr_CreatedAt :: time

record Store =
  so_root :: string
  so_nodeID :: string
  so_crdt :: CRDTStore
  so_wal :: "WAL option"
  so_known :: "string \<rightharpoonup> FileReadiness"
  so_files :: "string set"

definition RegisterFileAvailability :: "time \<Rightarrow> string \<Rightarrow> string \<Rightarrow> int \<Rightarrow> string \<Rightarrow> Store \<Rightarrow> Store" where
  "RegisterFileAvailability now path source sz checksum s =
     (let readiness = (case so_known s path of
            None \<Rightarrow> \<lparr>fr_Path = path, fr_SourceNodeID = source, fr_SizeBytes = sz, fr_Checksum = checksum,
                     fr_AvailableOn = [source], fr_CreatedAt = now\<rparr>
          | Some r \<Rightarrow> r\<lparr>fr_SourceNodeID := source, fr_SizeBytes := sz, fr_Checksum := checksum,
                     fr_AvailableOn := (if source \<in> set (fr_AvailableOn r) then fr_AvailableOn r
                                        else fr_AvailableOn r @ [source])\<rparr>)
      in s\<lparr>so_known := (so_known s)(path \<mapsto> readiness)\<rparr>)"

text \<open>\<open>requestFileSync\<close>: the node to download from, or the reason there is none.\<close>

datatype SyncError = SourceUnknown string | NoDownloadFunc

definition requestFileSync :: "time \<Rightarrow> bool \<Rightarrow> string \<Rightarrow> Store \<Rightarrow> (SyncError + string) \<times> Store" where
  "requestFileSync now hasDownload path s =
     (let s = (case so_known s path of
                 Some r \<Rightarrow> s
               | None \<Rightarrow> (case CRDT_Get path (so_crdt s) of
                    Some entry \<Rightarrow> if \<not> me_Tombstone entry \<and> me_NodeID entry \<noteq> so_nodeID s
                      then RegisterFileAvailability now path (me_NodeID entry) (me_Size entry) (me_Checksum entry) s
                      else s
                  | None \<Rightarrow> s))
      in case so_known s path of
           None \<Rightarrow> (Inl (SourceUnknown path), s)
         | Some r \<Rightarrow> if \<not> hasDownload then (Inl NoDownloadFunc, s) else (Inr (fr_SourceNodeID r), s))"

section \<open>The store\<close>

datatype StoreError = InvalidFilename | EscapesRoot | ForbiddenPath | CreateDirs string | CreateFile string | WriteFile string | NotRemoved

datatype io_result = MkdirFailed string | OpenFailed string | CopyFailed string | Copied int

text \<open>\<open>ks\<close> is the order in which \<open>List\<close> ranges over the loaded registry.\<close>

definition NewStore :: "time \<Rightarrow> string \<Rightarrow> string \<Rightarrow> (string \<rightharpoonup> MetaEntry) option \<Rightarrow> string set \<Rightarrow> string list \<Rightarrow> Store" where
  "NewStore now rootdir nodeID disk files ks =
     (let crdt = LoadFromDisk (SetFilePath (NewCRDTStore\<lparr>cr_disk := disk\<rparr>));
          s = \<lparr>so_root = rootdir, so_nodeID = nodeID, so_crdt = crdt, so_wal = None, so_known = Map.empty, so_files = files\<rparr>
      in foldl (\<lambda>s e. if me_NodeID e \<noteq> nodeID \<and> \<not> me_Tombstone e
                       then RegisterFileAvailability now (me_Path e) (me_NodeID e) (me_Size e) (me_Checksum e) s else s)
           s (CRDT_List ks crdt))"

definition SetWAL :: "WAL option \<Rightarrow> Store \<Rightarrow> Store" where
  "SetWAL w s = s\<lparr>so_wal := w\<rparr>"

definition wal_begin :: "(WalEntry \<Rightarrow> nat) \<Rightarrow> time \<Rightarrow> string \<Rightarrow> Store \<Rightarrow> nat \<times> Store" where
  "wal_begin len now dest s =
     (case so_wal s of
        None \<Rightarrow> (0, s)
      | Some w \<Rightarrow>
          (case WAL_Append len now EntryStorageWrite dest (StoragePayload dest 0 []) w of
             (Inl e, w) \<Rightarrow> (0, s\<lparr>so_wal := Some w\<rparr>)
           | (Inr lsn, w) \<Rightarrow> (lsn, s\<lparr>so_wal := Some w\<rparr>)))"

definition wal_abort :: "(WalEntry \<Rightarrow> nat) \<Rightarrow> time \<Rightarrow> nat \<Rightarrow> string \<Rightarrow> string \<Rightarrow> Store \<Rightarrow> Store" where
  "wal_abort len now lsn dest reason s =
     (case so_wal s of
        None \<Rightarrow> s
      | Some w \<Rightarrow> if lsn = 0 then s else s\<lparr>so_wal := Some (snd (WAL_Abort len now lsn dest reason w))\<rparr>)"

definition wal_commit :: "(WalEntry \<Rightarrow> nat) \<Rightarrow> time \<Rightarrow> nat \<Rightarrow> string \<Rightarrow> Store \<Rightarrow> Store" where
  "wal_commit len now lsn dest s =
     (case so_wal s of
        None \<Rightarrow> s
      | Some w \<Rightarrow> if lsn = 0 then s else s\<lparr>so_wal := Some (snd (snd (WAL_Commit len now lsn dest w)))\<rparr>)"

definition write_path :: "string \<Rightarrow> string \<Rightarrow> StoreError + string \<times> string" where
  "write_path rootdir name0 =
     (let name = filepath_Clean name0
      in if name = [] \<or> name = ''.'' \<or> name = ''..'' then Inl InvalidFilename
         else let dest = filepath_Join rootdir name; rel = filepath_Rel rootdir dest
              in if starts_with ''..'' rel \<or> starts_with ''/'' rel then Inl EscapesRoot
                 else Inr (name, dest))"

definition Store_Write :: "(WalEntry \<Rightarrow> nat) \<Rightarrow> time \<Rightarrow> string \<Rightarrow> io_result \<Rightarrow> Store \<Rightarrow> (StoreError + string) \<times> Store" where
  "Store_Write len now name0 io s =
     (case write_path (so_root s) name0 of
        Inl err \<Rightarrow> (Inl err, s)
      | Inr (name, dest) \<Rightarrow>
          (case io of
             MkdirFailed e \<Rightarrow> (Inl (CreateDirs e), s)
           | OpenFailed e \<Rightarrow>
               (let (lsn, s) = wal_begin len now dest s
                in (Inl (CreateFile e), wal_abort len now lsn dest e s))
           | CopyFailed e \<Rightarrow>
               (let (lsn, s) = wal_begin len now dest s;
                    s = s\<lparr>so_files := insert dest (so_files s)\<rparr>
                in (Inl (WriteFile e), wal_abort len now lsn dest e s))
           | Copied sz \<Rightarrow>
               (let (lsn, s) = wal_begin len now dest s;
                    s = wal_commit len now lsn dest (s\<lparr>so_files := insert dest (so_files s)\<rparr>);
                    entry = \<lparr>me_Path = name, me_NodeID = so_nodeID s, me_Size = sz, me_ModTime = now,
                             me_UpdatedAt = now, me_Tombstone = False, me_Checksum = []\<rparr>
                in (Inr name, s\<lparr>so_crdt := snd (CRDT_Upsert entry (so_crdt s))\<rparr>))))"

text \<open>The path of \<open>Open\<close>, \<open>Delete\<close> and \<open>DeleteLocal\<close>, with the path relative to the root.\<close>

definition safe_path :: "string \<Rightarrow> string \<Rightarrow> StoreError + string \<times> string" where
  "safe_path rootdir path =
     (let safe = filepath_Join rootdir (filepath_Clean (''/'' @ path)); rel = filepath_Rel rootdir safe
      in if starts_with ''..'' rel then Inl ForbiddenPath else Inr (rel, safe))"

definition Store_Delete :: "time \<Rightarrow> string \<Rightarrow> Store \<Rightarrow> StoreError option \<times> Store" where
  "Store_Delete now path s =
     (case safe_path (so_root s) path of
        Inl err \<Rightarrow> (Some err, s)
      | Inr (rel, safe) \<Rightarrow>
          (let s = s\<lparr>so_crdt := CRDT_Delete now rel (so_nodeID s) (so_crdt s)\<rparr>
           in (if safe \<in> so_files s then None else Some NotRemoved, s\<lparr>so_files := so_files s - {safe}\<rparr>)))"

definition Store_DeleteLocal :: "string \<Rightarrow> Store \<Rightarrow> Store" where
  "Store_DeleteLocal path s =
     (case safe_path (so_root s) path of
        Inl err \<Rightarrow> s
      | Inr (rel, safe) \<Rightarrow> s\<lparr>so_files := so_files s - {safe}\<rparr>)"

section \<open>Merging a peer's registry\<close>

definition unsafe_path :: "string \<Rightarrow> bool" where
  "unsafe_path p = (contains p ''..'' \<or> starts_with ''/'' p)"

definition apply_remote :: "time \<Rightarrow> MetaEntry \<Rightarrow> Store \<Rightarrow> Store" where
  "apply_remote now remote s =
     (let s = s\<lparr>so_crdt := snd (CRDT_Upsert remote (so_crdt s))\<rparr>
      in if me_Tombstone remote then Store_DeleteLocal (me_Path remote) s
         else RegisterFileAvailability now (me_Path remote) (me_NodeID remote) (me_Size remote) [] s)"

text \<open>One remote entry: the store, the remote paths seen, the entries applied and those the peer needs.\<close>

fun merge_loop :: "time \<Rightarrow> (string \<rightharpoonup> MetaEntry) \<Rightarrow> MetaEntry list \<Rightarrow> Store \<Rightarrow>
    Store \<times> string list \<times> MetaEntry list \<times> MetaEntry list" where
  "merge_loop now localMap [] s = (s, [], [], [])"
| "merge_loop now localMap (r # rs) s =
     (if unsafe_path (me_Path r) then merge_loop now localMap rs s
      else case localMap (me_Path r) of
             None \<Rightarrow>
               (let (s', seen, upd, need) = merge_loop now localMap rs (apply_remote now r s)
                in (s', me_Path r # seen, r # upd, need))
           | Some l \<Rightarrow>
               if me_UpdatedAt r > me_UpdatedAt l then
                 (let (s', seen, upd, need) = merge_loop now localMap rs (apply_remote now r s)
                  in (s', me_Path r # seen, r # upd, need))
               else
                 (let (s', seen, upd, need) = merge_loop now localMap rs s
                  in (s', me_Path r # seen, upd, if me_UpdatedAt l > me_UpdatedAt r then l # need else need)))"

text \<open>\<open>ks\<close> is the order of the final loop over the local entries.\<close>

definition MergeRemoteRegistry :: "time \<Rightarrow> string list \<Rightarrow> MetaEntry list \<Rightarrow> Store \<Rightarrow> Store \<times> MetaEntry list \<times> MetaEntry list" where
  "MergeRemoteRegistry now ks remoteEntries s =
     (let localMap = cr_entries (so_crdt s);
          (s', seen, upd, need) = merge_loop now localMap remoteEntries s
      in (s', upd, need @ map (\<lambda>k. the (localMap k)) (filter (\<lambda>k. k \<notin> set seen) ks)))"

text \<open>
  One synchronisation (\<open>syncWithPeer\<close> of the agent and the peer's stream handler): the initiator
  sends every entry, the peer merges them and answers with what the initiator needs, which merges
  that. The orders are those of the peer's loop and of the two ranges over the initiator's map.
\<close>

definition sync_round :: "time \<Rightarrow> string list \<Rightarrow> string list \<Rightarrow> string list \<Rightarrow> Store \<times> Store \<Rightarrow> Store \<times> Store" where
  "sync_round now ksA ksB ksA' st =
     (case st of (a, b) \<Rightarrow>
        (let (b', updB, need) = MergeRemoteRegistry now ksB (map (\<lambda>k. the (cr_entries (so_crdt a) k)) ksA) b;
             (a', updA, needB) = MergeRemoteRegistry now ksA' need a
         in (a', b')))"


section \<open>The registry as a map of last writers\<close>

definition crdt_inv :: "CRDTStore \<Rightarrow> bool" where
  "crdt_inv c \<longleftrightarrow> (\<forall>p e. cr_entries c p = Some e \<longrightarrow> me_Path e = p)"

definition lww :: "MetaEntry option \<Rightarrow> MetaEntry \<Rightarrow> MetaEntry option" where
  "lww x e = (case x of None \<Rightarrow> Some e | Some y \<Rightarrow> Some (if me_UpdatedAt e > me_UpdatedAt y then e else y))"

lemma SaveToDisk_entries [simp]: "cr_entries (SaveToDisk c) = cr_entries c" "cr_filePath (SaveToDisk c) = cr_filePath c"
  by (simp_all add: SaveToDisk_def)

lemma Upsert_entries:
  "cr_entries (snd (CRDT_Upsert e c)) = (cr_entries c)(me_Path e := lww (cr_entries c (me_Path e)) e)"
  by (auto simp: CRDT_Upsert_def lww_def fun_eq_iff split: option.split)

lemma Upsert_inv: "crdt_inv c \<Longrightarrow> crdt_inv (snd (CRDT_Upsert e c))"
  by (auto simp: crdt_inv_def Upsert_entries lww_def split: option.splits if_splits)

lemma Delete_inv: "crdt_inv c \<Longrightarrow> crdt_inv (CRDT_Delete now p n c)"
  by (auto simp: crdt_inv_def CRDT_Delete_def)

text \<open>Upserts of entries in turn, as replicas see them in different orders.\<close>

definition upsert_all :: "CRDTStore \<Rightarrow> MetaEntry list \<Rightarrow> CRDTStore" where
  "upsert_all c es = foldl (\<lambda>c e. snd (CRDT_Upsert e c)) c es"

text \<open>The entry of each path is a register of the shared contract.\<close>

interpretation crdt: last_writer me_UpdatedAt "\<lambda>e. me_Path e = p" "\<lambda>c. cr_entries c p" "\<lambda>e c. snd (CRDT_Upsert e c)" for p
  by unfold_locales (auto simp: Upsert_entries lww_def split: option.splits)

text \<open>No two different writes of a path carry the same time.\<close>

definition no_ties :: "MetaEntry set \<Rightarrow> bool" where
  "no_ties es \<longleftrightarrow> (\<forall>e \<in> es. \<forall>e' \<in> es. me_Path e = me_Path e' \<longrightarrow> me_UpdatedAt e = me_UpdatedAt e' \<longrightarrow> e = e')"

text \<open>
  C5: Replicas that apply the same writes end in the same registry, whatever the order and
  however often each write arrives, as long as no two different writes of a path carry the same
  time; the entry kept for a path is the one written last.
\<close>

theorem upserts_commute:
  assumes "crdt_inv c" and "set es = set es'" and "no_ties (set es \<union> ran (cr_entries c))"
  shows "cr_entries (upsert_all c es) = cr_entries (upsert_all c es') \<and>
    (\<forall>p. latest me_UpdatedAt ({e \<in> set es. me_Path e = p} \<union> set_option (cr_entries c p)) (cr_entries (upsert_all c es) p))"
proof -
  have "cr_entries (upsert_all c es) p = cr_entries (upsert_all c es') p" for p
    unfolding upsert_all_def
  proof (rule crdt.order_irrelevant [OF assms(2)])
    let ?C = "{e \<in> set es. me_Path e = p} \<union> set_option (cr_entries c p)"
    have sub: "?C \<subseteq> set es \<union> ran (cr_entries c)" by (auto simp: ran_def)
    have path: "e \<in> ?C \<Longrightarrow> me_Path e = p" for e using assms(1) by (auto simp: crdt_inv_def)
    show "inj_on me_UpdatedAt ?C"
    proof (rule inj_onI)
      fix e e'
      assume "e \<in> ?C" "e' \<in> ?C" "me_UpdatedAt e = me_UpdatedAt e'"
      moreover from this have "me_Path e = me_Path e'" using path by metis
      ultimately show "e = e'" using assms(3) sub unfolding no_ties_def by (meson subsetD)
    qed
  qed
  moreover have "latest me_UpdatedAt ({e \<in> set es. me_Path e = p} \<union> set_option (cr_entries c p)) (cr_entries (upsert_all c es) p)" for p
    unfolding upsert_all_def by (rule crdt.puts_latest)
  ultimately show ?thesis by auto
qed

definition sample_meta :: "string \<Rightarrow> string \<Rightarrow> time \<Rightarrow> bool \<Rightarrow> MetaEntry" where
  "sample_meta p n t dead = \<lparr>me_Path = p, me_NodeID = n, me_Size = 1, me_ModTime = t, me_UpdatedAt = t,
     me_Tombstone = dead, me_Checksum = []\<rparr>"

theorem upserts_commute_witness:
  "cr_entries (upsert_all NewCRDTStore [sample_meta ''f'' ''a'' 1 False, sample_meta ''f'' ''b'' 2 True]) =
   cr_entries (upsert_all NewCRDTStore [sample_meta ''f'' ''b'' 2 True, sample_meta ''f'' ''a'' 1 False, sample_meta ''f'' ''b'' 2 True])"
  by (rule conjunct1 [OF upserts_commute])
    (auto simp: crdt_inv_def NewCRDTStore_def no_ties_def sample_meta_def)

text \<open>The registry survives a restart: the file holds the entries after every change.\<close>

lemma saved_after_change:
  assumes "cr_filePath c"
  shows "cr_disk (CRDT_Delete now p n c) = Some (cr_entries (CRDT_Delete now p n c))"
    and "fst (CRDT_Upsert e c) \<Longrightarrow> cr_disk (snd (CRDT_Upsert e c)) = Some (cr_entries (snd (CRDT_Upsert e c)))"
  using assms by (auto simp: CRDT_Delete_def CRDT_Upsert_def SaveToDisk_def split: option.splits)


section \<open>What a merge does\<close>

lemma apply_remote_entries:
  "cr_entries (so_crdt (apply_remote now r s)) = (cr_entries (so_crdt s))(me_Path r := lww (cr_entries (so_crdt s) (me_Path r)) r)"
  by (simp add: apply_remote_def Store_DeleteLocal_def RegisterFileAvailability_def Let_def Upsert_entries
      split: sum.split)

definition me_map :: "MetaEntry list \<Rightarrow> (string \<rightharpoonup> MetaEntry)" where
  "me_map rs = map_of (map (\<lambda>r. (me_Path r, r)) rs)"

lemma me_map_simps [simp]: "me_map [] p = None" "me_map (r # rs) p = (if me_Path r = p then Some r else me_map rs p)"
  by (simp_all add: me_map_def)

lemma me_map_mem: "p \<notin> me_Path ` set rs \<Longrightarrow> me_map rs p = None"
  by (induction rs) auto

lemma me_map_iff: "distinct (map me_Path rs) \<Longrightarrow> me_map rs p = Some r \<longleftrightarrow> r \<in> set rs \<and> me_Path r = p"
  by (induction rs) auto

definition newer :: "MetaEntry \<Rightarrow> MetaEntry \<Rightarrow> bool" where
  "newer a b = (me_UpdatedAt a > me_UpdatedAt b)"

lemma merge_loop_result:
  assumes "distinct (map me_Path rs)" and "\<And>r. r \<in> set rs \<Longrightarrow> cr_entries (so_crdt s) (me_Path r) = M (me_Path r)"
    and "merge_loop now M rs s = (s', seen, upd, need)"
  shows "(\<forall>p. cr_entries (so_crdt s') p =
      (case me_map rs p of None \<Rightarrow> cr_entries (so_crdt s) p
       | Some r \<Rightarrow> if unsafe_path p then cr_entries (so_crdt s) p else lww (cr_entries (so_crdt s) p) r)) \<and>
    seen = map me_Path (filter (\<lambda>r. \<not> unsafe_path (me_Path r)) rs) \<and>
    need = map (\<lambda>r. the (M (me_Path r))) (filter (\<lambda>r. \<not> unsafe_path (me_Path r) \<and> (\<exists>l. M (me_Path r) = Some l \<and> newer l r)) rs)"
  using assms
proof (induction rs arbitrary: s s' seen upd need)
  case (Cons r rs)
  have d: "distinct (map me_Path rs)" "me_Path r \<notin> me_Path ` set rs" using Cons.prems(1) by auto
  show ?case
  proof (cases "unsafe_path (me_Path r)")
    case True
    have step: "merge_loop now M rs s = (s', seen, upd, need)" using Cons.prems(3) True by simp
    show ?thesis using Cons.IH [OF d(1) _ step] Cons.prems(2) True d(2) by (auto simp: me_map_mem)
  next
    case False
    let ?apply = "case M (me_Path r) of None \<Rightarrow> True | Some l \<Rightarrow> newer r l"
    let ?s = "if ?apply then apply_remote now r s else s"
    obtain t seen1 upd1 need1 where m: "merge_loop now M rs ?s = (t, seen1, upd1, need1)" by (metis surj_pair)
    have res: "s' = t" "seen = me_Path r # seen1"
      "need = (if \<exists>l. M (me_Path r) = Some l \<and> newer l r then the (M (me_Path r)) # need1 else need1)"
      using Cons.prems(3) False m by (auto simp: newer_def split: option.splits if_splits)
    have same: "cr_entries (so_crdt ?s) (me_Path x) = M (me_Path x)" if "x \<in> set rs" for x
    proof -
      have "me_Path x \<noteq> me_Path r" using that d(2) by (metis imageI)
      then show ?thesis using Cons.prems(2) [of x] that by (simp add: apply_remote_entries)
    qed
    have ent: "cr_entries (so_crdt ?s) p = (if p = me_Path r then lww (cr_entries (so_crdt s) (me_Path r)) r else cr_entries (so_crdt s) p)" for p
      using Cons.prems(2) [of r] by (auto simp: apply_remote_entries lww_def newer_def split: option.splits)
    note ih = Cons.IH [OF d(1) same m]
    have entries: "cr_entries (so_crdt s') p =
      (case me_map (r # rs) p of None \<Rightarrow> cr_entries (so_crdt s) p
       | Some r \<Rightarrow> if unsafe_path p then cr_entries (so_crdt s) p else lww (cr_entries (so_crdt s) p) r)" for p
    proof -
      have "cr_entries (so_crdt s') p = (case me_map rs p of None \<Rightarrow> cr_entries (so_crdt ?s) p
       | Some r \<Rightarrow> if unsafe_path p then cr_entries (so_crdt ?s) p else lww (cr_entries (so_crdt ?s) p) r)"
        using ih res(1) by simp
      then show ?thesis unfolding ent using False d(2) by (cases "p = me_Path r") (simp_all add: me_map_mem)
    qed
    have "seen = map me_Path (filter (\<lambda>r. \<not> unsafe_path (me_Path r)) (r # rs))" using ih res(2) False by simp
    moreover have "need = map (\<lambda>r. the (M (me_Path r)))
        (filter (\<lambda>r. \<not> unsafe_path (me_Path r) \<and> (\<exists>l. M (me_Path r) = Some l \<and> newer l r)) (r # rs))"
      using ih res(3) False by simp
    ultimately show ?thesis using entries by blast
  qed
qed simp

text \<open>The entries of some paths, as a registry sends them.\<close>

definition sent :: "string list \<Rightarrow> CRDTStore \<Rightarrow> MetaEntry list" where
  "sent ks c = map (\<lambda>k. the (cr_entries c k)) ks"

lemma sent_paths: "crdt_inv c \<Longrightarrow> set ks \<subseteq> dom (cr_entries c) \<Longrightarrow> map me_Path (sent ks c) = ks"
  by (induction ks) (auto simp: sent_def crdt_inv_def)

lemma me_map_sent:
  "crdt_inv c \<Longrightarrow> set ks \<subseteq> dom (cr_entries c) \<Longrightarrow>
    me_map (sent ks c) p = (if p \<in> set ks then cr_entries c p else None)"
  by (induction ks) (auto simp: sent_def crdt_inv_def)

lemma me_map_all: "crdt_inv c \<Longrightarrow> map_order ks (cr_entries c) \<Longrightarrow> me_map (sent ks c) p = cr_entries c p"
  by (auto simp: me_map_sent map_order_def)

lemma sent_entry:
  "crdt_inv c \<Longrightarrow> set ks \<subseteq> dom (cr_entries c) \<Longrightarrow> r \<in> set (sent ks c) \<Longrightarrow>
    me_Path r \<in> set ks \<and> cr_entries c (me_Path r) = Some r"
  by (induction ks) (auto simp: sent_def crdt_inv_def)

lemma sent_filter_paths:
  assumes "crdt_inv c" and "map_order ks (cr_entries c)"
  shows "p \<in> set (map me_Path (filter Q (sent ks c))) \<longleftrightarrow> (\<exists>e. cr_entries c p = Some e \<and> Q e)"
proof -
  have dom: "set ks = dom (cr_entries c)" using assms(2) by (simp add: map_order_def)
  show ?thesis
  proof
    assume "p \<in> set (map me_Path (filter Q (sent ks c)))"
    then obtain e where "e \<in> set (sent ks c)" "Q e" "p = me_Path e" by auto
    then show "\<exists>e. cr_entries c p = Some e \<and> Q e" using sent_entry [OF assms(1), of ks e] dom by auto
  next
    assume "\<exists>e. cr_entries c p = Some e \<and> Q e"
    then obtain e where e: "cr_entries c p = Some e" "Q e" by blast
    then have "p \<in> set ks" using dom by auto
    then have "the (cr_entries c p) \<in> set (sent ks c)" unfolding sent_def by simp
    then have "e \<in> set (sent ks c)" using e(1) by simp
    moreover have "me_Path e = p" using assms(1) e(1) by (simp add: crdt_inv_def)
    ultimately show "p \<in> set (map me_Path (filter Q (sent ks c)))" using e(2) by auto
  qed
qed

section \<open>A synchronisation converges\<close>

text \<open>What the peer's merge leaves in its registry, and the paths of the entries it answers with.\<close>

definition needed :: "CRDTStore \<Rightarrow> CRDTStore \<Rightarrow> string \<Rightarrow> bool" where
  "needed A B p \<longleftrightarrow> (case cr_entries B p of None \<Rightarrow> False
     | Some e \<Rightarrow> unsafe_path p \<or> (case cr_entries A p of None \<Rightarrow> True | Some a \<Rightarrow> newer e a))"

lemma merge_entries:
  assumes inv: "crdt_inv A" and ks: "distinct ks" "set ks \<subseteq> dom (cr_entries A)"
    and merge: "MergeRemoteRegistry now ks' (sent ks A) b = (b', upd, need)"
  shows "cr_entries (so_crdt b') p =
    (if p \<in> set ks \<and> \<not> unsafe_path p then lww (cr_entries (so_crdt b) p) (the (cr_entries A p))
     else cr_entries (so_crdt b) p)"
proof -
  obtain seen need1 where loop: "merge_loop now (cr_entries (so_crdt b)) (sent ks A) b = (b', seen, upd, need1)"
    using merge by (auto simp: MergeRemoteRegistry_def Let_def split: prod.splits)
  have d: "distinct (map me_Path (sent ks A))" using inv ks by (simp add: sent_paths)
  have "p \<in> set ks \<Longrightarrow> \<exists>a. cr_entries A p = Some a" using ks(2) by blast
  then show ?thesis using merge_loop_result [OF d refl loop] me_map_sent [OF inv ks(2), of p] by auto
qed

lemma merge_needs:
  assumes inv: "crdt_inv A" "crdt_inv (so_crdt b)"
    and ord: "map_order ksA (cr_entries A)" "map_order ksB (cr_entries (so_crdt b))"
    and merge: "MergeRemoteRegistry now ksB (sent ksA A) b = (b', upd, need)"
  obtains ks where "need = sent ks (so_crdt b)" and "distinct ks" and "set ks = {p. needed A (so_crdt b) p}"
proof -
  let ?M = "cr_entries (so_crdt b)" and ?rs = "sent ksA A"
  let ?sel = "\<lambda>r. \<not> unsafe_path (me_Path r) \<and> (\<exists>l. ?M (me_Path r) = Some l \<and> newer l r)"
  let ?k1 = "map me_Path (filter ?sel ?rs)"
  let ?seen = "map me_Path (filter (\<lambda>r. \<not> unsafe_path (me_Path r)) ?rs)"
  let ?k2 = "filter (\<lambda>k. k \<notin> set ?seen) ksB"
  have domA: "set ksA \<subseteq> dom (cr_entries A)" and dA: "distinct ksA" and setB: "set ksB = dom ?M" "distinct ksB"
    using ord by (auto simp: map_order_def)
  have d: "distinct (map me_Path ?rs)" using sent_paths [OF inv(1) domA] dA by simp
  obtain seen need1 where loop: "merge_loop now ?M ?rs b = (b', seen, upd, need1)"
    and need: "need = need1 @ map (\<lambda>k. the (?M k)) (filter (\<lambda>k. k \<notin> set seen) ksB)"
    using merge by (auto simp: MergeRemoteRegistry_def Let_def split: prod.splits)
  have "need = sent (?k1 @ ?k2) (so_crdt b)"
    unfolding need using merge_loop_result [OF d refl loop] by (simp add: sent_def comp_def)
  moreover have k1: "p \<in> set ?k1 \<longleftrightarrow> (\<exists>a. cr_entries A p = Some a \<and> \<not> unsafe_path p \<and> (\<exists>l. ?M p = Some l \<and> newer l a))" for p
  proof -
    have "me_Path a = p" if "cr_entries A p = Some a" for a using that inv(1) by (simp add: crdt_inv_def)
    then show ?thesis unfolding sent_filter_paths [OF inv(1) ord(1)] by auto
  qed
  moreover have seen: "p \<in> set ?seen \<longleftrightarrow> (\<exists>a. cr_entries A p = Some a \<and> \<not> unsafe_path p)" for p
  proof -
    have "me_Path a = p" if "cr_entries A p = Some a" for a using that inv(1) by (simp add: crdt_inv_def)
    then show ?thesis unfolding sent_filter_paths [OF inv(1) ord(1)] by auto
  qed
  moreover have "distinct ?k1" using d by (rule distinct_map_filter)
  moreover have "set ?k1 \<inter> set ?k2 = {}"
  proof -
    have "p \<in> set ?seen" if "p \<in> set ?k1" for p using that unfolding k1 seen by blast
    moreover have "p \<notin> set ?seen" if "p \<in> set ?k2" for p using that by (simp only: set_filter mem_Collect_eq not_False_eq_True)
    ultimately show ?thesis by blast
  qed
  moreover have "p \<in> set (?k1 @ ?k2) \<longleftrightarrow> needed A (so_crdt b) p" for p
  proof -
    have "p \<in> set (?k1 @ ?k2) \<longleftrightarrow> (p \<in> set ?k1 \<or> p \<in> dom ?M \<and> p \<notin> set ?seen)"
      unfolding set_append set_filter [of _ ksB] setB(1) by blast
    then show ?thesis unfolding k1 seen needed_def by (cases "?M p"; cases "cr_entries A p") auto
  qed
  moreover have "distinct ?k2" using setB(2) by simp
  ultimately have "need = sent (?k1 @ ?k2) (so_crdt b)" and "distinct (?k1 @ ?k2)"
    and "set (?k1 @ ?k2) = {p. needed A (so_crdt b) p}"
    unfolding distinct_append by (blast, blast, blast)
  then show thesis by (rule that)
qed

lemma sync_entries:
  assumes inv: "crdt_inv (so_crdt a)" "crdt_inv (so_crdt b)"
    and ord: "map_order ksA (cr_entries (so_crdt a))" "map_order ksB (cr_entries (so_crdt b))"
    and sync: "sync_round now ksA ksB ksA' (a, b) = (a', b')"
    and safe: "\<not> unsafe_path p"
  shows "cr_entries (so_crdt b') p =
      (case cr_entries (so_crdt a) p of None \<Rightarrow> cr_entries (so_crdt b) p | Some x \<Rightarrow> lww (cr_entries (so_crdt b) p) x)"
    and "cr_entries (so_crdt a') p =
      (case cr_entries (so_crdt b) p of None \<Rightarrow> cr_entries (so_crdt a) p | Some y \<Rightarrow> lww (cr_entries (so_crdt a) p) y)"
proof -
  let ?A = "so_crdt a" and ?B = "so_crdt b"
  obtain upd need updA needB where merge: "MergeRemoteRegistry now ksB (sent ksA ?A) b = (b', upd, need)"
    and answer: "MergeRemoteRegistry now ksA' need a = (a', updA, needB)"
    using sync by (auto simp: sync_round_def sent_def Let_def split: prod.splits)
  have dA: "distinct ksA" "set ksA \<subseteq> dom (cr_entries ?A)" using ord(1) by (auto simp: map_order_def)
  have "p \<in> set ksA \<longleftrightarrow> cr_entries ?A p \<noteq> None" using ord(1) by (rule map_order_mem)
  then show "cr_entries (so_crdt b') p = (case cr_entries ?A p of None \<Rightarrow> cr_entries ?B p | Some x \<Rightarrow> lww (cr_entries ?B p) x)"
    unfolding merge_entries [OF inv(1) dA merge] using safe by (cases "cr_entries ?A p") simp_all
  obtain ks where need: "need = sent ks ?B" and ks: "distinct ks" "set ks = {p. needed ?A ?B p}"
    using merge_needs [OF inv ord merge] by blast
  have sub: "set ks \<subseteq> dom (cr_entries ?B)" unfolding ks(2) needed_def by (auto split: option.splits)
  have "cr_entries (so_crdt a') p = (if needed ?A ?B p then lww (cr_entries ?A p) (the (cr_entries ?B p)) else cr_entries ?A p)"
    using merge_entries [OF inv(2) ks(1) sub answer [unfolded need]] safe by (simp add: ks(2))
  then show "cr_entries (so_crdt a') p = (case cr_entries ?B p of None \<Rightarrow> cr_entries ?A p | Some y \<Rightarrow> lww (cr_entries ?A p) y)"
    using safe by (cases "cr_entries ?B p"; cases "cr_entries ?A p") (simp_all add: needed_def newer_def lww_def)
qed

lemma sync_unsafe:
  assumes inv: "crdt_inv (so_crdt a)" "crdt_inv (so_crdt b)"
    and ord: "map_order ksA (cr_entries (so_crdt a))" "map_order ksB (cr_entries (so_crdt b))"
    and sync: "sync_round now ksA ksB ksA' (a, b) = (a', b')" and "unsafe_path p"
  shows "cr_entries (so_crdt a') p = cr_entries (so_crdt a) p" and "cr_entries (so_crdt b') p = cr_entries (so_crdt b) p"
proof -
  let ?A = "so_crdt a" and ?B = "so_crdt b"
  obtain upd need updA needB where merge: "MergeRemoteRegistry now ksB (sent ksA ?A) b = (b', upd, need)"
    and answer: "MergeRemoteRegistry now ksA' need a = (a', updA, needB)"
    using sync by (auto simp: sync_round_def sent_def Let_def split: prod.splits)
  have dA: "distinct ksA" "set ksA \<subseteq> dom (cr_entries ?A)" using ord(1) by (auto simp: map_order_def)
  show "cr_entries (so_crdt b') p = cr_entries ?B p" using merge_entries [OF inv(1) dA merge] assms(6) by simp
  obtain ks where need: "need = sent ks ?B" and ks: "distinct ks" "set ks = {p. needed ?A ?B p}"
    using merge_needs [OF inv ord merge] by blast
  have sub: "set ks \<subseteq> dom (cr_entries ?B)" unfolding ks(2) needed_def by (auto split: option.splits)
  show "cr_entries (so_crdt a') p = cr_entries ?A p"
    using merge_entries [OF inv(2) ks(1) sub answer [unfolded need]] assms(6) by simp
qed

text \<open>The later of two entries is what both sides hold, when times tell different entries apart.\<close>

lemma lww_join:
  assumes "\<And>x y. oa = Some x \<Longrightarrow> ob = Some y \<Longrightarrow> me_UpdatedAt x = me_UpdatedAt y \<Longrightarrow> x = y"
  shows "(case oa of None \<Rightarrow> ob | Some x \<Rightarrow> lww ob x) = (case ob of None \<Rightarrow> oa | Some y \<Rightarrow> lww oa y)"
    and "latest me_UpdatedAt (set_option oa \<union> set_option ob) (case oa of None \<Rightarrow> ob | Some x \<Rightarrow> lww ob x)"
  using assms by (cases oa; cases ob; force simp: lww_def latest_def)+

text \<open>
  C4: One synchronisation makes two nodes agree on every path that may be replicated: both hold the
  later of their two entries (a tombstone included), whatever the order of the ranges over the maps;
  what is kept under a path with \<open>..\<close> in it, or an absolute one, stays as it was on each node.
\<close>

theorem sync_converges:
  assumes "crdt_inv (so_crdt a)" and "crdt_inv (so_crdt b)"
    and "map_order ksA (cr_entries (so_crdt a))" and "map_order ksB (cr_entries (so_crdt b))"
    and "\<And>p x y. cr_entries (so_crdt a) p = Some x \<Longrightarrow> cr_entries (so_crdt b) p = Some y \<Longrightarrow>
      me_UpdatedAt x = me_UpdatedAt y \<Longrightarrow> x = y"
    and "sync_round now ksA ksB ksA' (a, b) = (a', b')"
  shows "if unsafe_path p
    then cr_entries (so_crdt a') p = cr_entries (so_crdt a) p \<and> cr_entries (so_crdt b') p = cr_entries (so_crdt b) p
    else cr_entries (so_crdt a') p = cr_entries (so_crdt b') p \<and>
      latest me_UpdatedAt (set_option (cr_entries (so_crdt a) p) \<union> set_option (cr_entries (so_crdt b) p)) (cr_entries (so_crdt a') p)"
proof (cases "unsafe_path p")
  case True
  then show ?thesis using sync_unsafe [OF assms(1-4,6)] by simp
next
  case False
  note e = sync_entries [OF assms(1-4,6) False]
  note j = lww_join [of "cr_entries (so_crdt a) p" "cr_entries (so_crdt b) p", OF assms(5)]
  from j show ?thesis using False unfolding e by simp
qed

definition sample_store :: "string \<Rightarrow> MetaEntry list \<Rightarrow> Store" where
  "sample_store n es = \<lparr>so_root = ''/data'', so_nodeID = n,
     so_crdt = \<lparr>cr_entries = me_map es, cr_filePath = False, cr_disk = None\<rparr>, so_wal = None, so_known = Map.empty, so_files = {}\<rparr>"

lemma sample_store_inv: "crdt_inv (so_crdt (sample_store n es))"
proof -
  have "me_map es p = Some e \<Longrightarrow> me_Path e = p" for p e by (induction es) (auto split: if_splits)
  then show ?thesis by (simp add: crdt_inv_def sample_store_def)
qed

lemma sample_store_order: "distinct (map me_Path es) \<Longrightarrow> map_order (map me_Path es) (cr_entries (so_crdt (sample_store n es)))"
  by (auto simp: map_order_def sample_store_def me_map_def dom_map_of_conv_image_fst image_image)

text \<open>Both nodes have the file \<open>f\<close>; the second has deleted it later; the first alone has \<open>g\<close>.\<close>

definition "sampleA = sample_store ''a'' [sample_meta ''f'' ''a'' 1 False, sample_meta ''g'' ''a'' 4 False]"
definition "sampleB = sample_store ''b'' [sample_meta ''f'' ''b'' 7 True]"

theorem sync_converges_witness:
  "\<exists>a' b'. sync_round 9 [''f'', ''g''] [''f''] [''f'', ''g''] (sampleA, sampleB) = (a', b') \<and>
    cr_entries (so_crdt a') ''f'' = cr_entries (so_crdt b') ''f''"
proof -
  obtain a' b' where s: "sync_round 9 [''f'', ''g''] [''f''] [''f'', ''g''] (sampleA, sampleB) = (a', b')" by fastforce
  have oA: "map_order [''f'', ''g''] (cr_entries (so_crdt sampleA))"
    using sample_store_order [of "[sample_meta ''f'' ''a'' 1 False, sample_meta ''g'' ''a'' 4 False]" "''a''"]
    by (simp add: sampleA_def sample_meta_def)
  have oB: "map_order [''f''] (cr_entries (so_crdt sampleB))"
    using sample_store_order [of "[sample_meta ''f'' ''b'' 7 True]" "''b''"] by (simp add: sampleB_def sample_meta_def)
  have t: "x = y" if "cr_entries (so_crdt sampleA) p = Some x" "cr_entries (so_crdt sampleB) p = Some y"
    "me_UpdatedAt x = me_UpdatedAt y" for p x y
    using that by (auto simp: sampleA_def sampleB_def sample_store_def sample_meta_def split: if_splits)
  have i: "crdt_inv (so_crdt sampleA)" "crdt_inv (so_crdt sampleB)" by (simp_all add: sampleA_def sampleB_def sample_store_inv)
  have "\<not> unsafe_path ''f''" by (simp add: unsafe_path_def contains_def starts_with_iff)
  with sync_converges [OF i oA oB t s, where p = "''f''"] show ?thesis using s by auto
qed

text \<open>
  Two nodes that wrote a path at the same time keep their own entries: a synchronisation in
  either direction changes neither, so they stay different for good.
\<close>

theorem sync_tie_diverges:
  assumes "crdt_inv (so_crdt a)" and "crdt_inv (so_crdt b)"
    and "map_order ksA (cr_entries (so_crdt a))" and "map_order ksB (cr_entries (so_crdt b))"
    and "cr_entries (so_crdt a) p = Some x" and "cr_entries (so_crdt b) p = Some y"
    and "me_UpdatedAt x = me_UpdatedAt y"
    and "sync_round now ksA ksB ksA' (a, b) = (a', b')"
  shows "cr_entries (so_crdt a') p = Some x \<and> cr_entries (so_crdt b') p = Some y"
proof (cases "unsafe_path p")
  case True
  then show ?thesis using sync_unsafe [OF assms(1-4,8)] assms(5,6) by simp
next
  case False
  show ?thesis unfolding sync_entries [OF assms(1-4,8) False] using assms(5-7) by (simp add: lww_def)
qed

theorem sync_tie_diverges_witness:
  "\<exists>a' b'. sync_round 9 [''f''] [''f''] [''f'']
      (sample_store ''a'' [sample_meta ''f'' ''a'' 7 False], sample_store ''b'' [sample_meta ''f'' ''b'' 7 True]) = (a', b') \<and>
    cr_entries (so_crdt a') ''f'' \<noteq> cr_entries (so_crdt b') ''f''"
proof -
  let ?x = "sample_meta ''f'' ''a'' 7 False" and ?y = "sample_meta ''f'' ''b'' 7 True"
  let ?a = "sample_store ''a'' [?x]" and ?b = "sample_store ''b'' [?y]"
  obtain a' b' where s: "sync_round 9 [''f''] [''f''] [''f''] (?a, ?b) = (a', b')" by fastforce
  have o: "map_order [''f''] (cr_entries (so_crdt ?a))" "map_order [''f''] (cr_entries (so_crdt ?b))"
    using sample_store_order [of "[?x]" "''a''"] sample_store_order [of "[?y]" "''b''"] by (simp_all add: sample_meta_def)
  have e: "cr_entries (so_crdt ?a) ''f'' = Some ?x" "cr_entries (so_crdt ?b) ''f'' = Some ?y"
    by (simp_all add: sample_store_def sample_meta_def)
  have t: "me_UpdatedAt ?x = me_UpdatedAt ?y" by (simp add: sample_meta_def)
  have "?x \<noteq> ?y" by (simp add: sample_meta_def)
  with sync_tie_diverges [OF sample_store_inv sample_store_inv o e t s] show ?thesis using s by auto
qed

text \<open>
  A delete stamps its tombstone with the local clock and does not look at the entry it
  replaces. When a node deletes a file whose entry carries a later time (its writer's clock is
  ahead) the next synchronisation with a node that still has the entry brings the entry back.
\<close>

theorem delete_undone_by_sync:
  assumes "crdt_inv (so_crdt a)" and "crdt_inv (so_crdt b)"
    and "safe_path (so_root a) path = Inr (rel, safe)" and "Store_Delete now path a = (r, a1)"
    and "map_order ksA (cr_entries (so_crdt a1))" and "map_order ksB (cr_entries (so_crdt b))"
    and "cr_entries (so_crdt b) rel = Some e" and "me_UpdatedAt e > now" and "\<not> unsafe_path rel"
    and "sync_round now' ksA ksB ksA' (a1, b) = (a2, b2)"
  shows "(\<exists>t. cr_entries (so_crdt a1) rel = Some t \<and> me_Tombstone t) \<and>
    cr_entries (so_crdt a2) rel = Some e \<and> cr_entries (so_crdt b2) rel = Some e"
proof -
  have c: "so_crdt a1 = CRDT_Delete now rel (so_nodeID a) (so_crdt a)"
    using assms(3,4) by (auto simp: Store_Delete_def)
  have inv: "crdt_inv (so_crdt a1)" unfolding c using assms(1) by (rule Delete_inv)
  obtain t where t: "cr_entries (so_crdt a1) rel = Some t" "me_Tombstone t" "me_UpdatedAt t = now"
    by (simp add: c CRDT_Delete_def)
  show ?thesis unfolding sync_entries [OF inv assms(2,5,6,10,9)] using t assms(7,8) by (simp add: lww_def)
qed

theorem delete_undone_by_sync_witness:
  "\<exists>r a1 a2 b2. Store_Delete 3 ''f'' (sample_store ''a'' [sample_meta ''f'' ''b'' 7 False]) = (r, a1) \<and>
    sync_round 9 [''f''] [''f''] [''f''] (a1, sample_store ''b'' [sample_meta ''f'' ''b'' 7 False]) = (a2, b2) \<and>
    cr_entries (so_crdt a2) ''f'' = Some (sample_meta ''f'' ''b'' 7 False)"
proof -
  let ?e = "sample_meta ''f'' ''b'' 7 False"
  let ?a = "sample_store ''a'' [?e]" and ?b = "sample_store ''b'' [?e]"
  obtain r a1 where d: "Store_Delete 3 ''f'' ?a = (r, a1)" by fastforce
  obtain a2 b2 where s: "sync_round 9 [''f''] [''f''] [''f''] (a1, ?b) = (a2, b2)" by fastforce
  have "safe_path ''/data'' ''f'' = Inr (''f'', ''/data/f'')" by code_simp
  then have p: "safe_path (so_root ?a) ''f'' = Inr (''f'', ''/data/f'')" by (simp add: sample_store_def)
  have "cr_entries (so_crdt a1) = (cr_entries (so_crdt ?a))(''f'' := cr_entries (so_crdt a1) ''f'')"
    and "cr_entries (so_crdt a1) ''f'' \<noteq> None"
    using d p by (auto simp: Store_Delete_def CRDT_Delete_def)
  moreover have "dom (cr_entries (so_crdt ?a)) = {''f''}" by (auto simp: sample_store_def sample_meta_def split: if_splits)
  ultimately have "dom (cr_entries (so_crdt a1)) = {''f''}" by (metis dom_fun_upd domIff insert_absorb2 insertI1)
  then have oA: "map_order [''f''] (cr_entries (so_crdt a1))" by (simp add: map_order_def)
  have oB: "map_order [''f''] (cr_entries (so_crdt ?b))"
    using sample_store_order [of "[?e]" "''b''"] by (simp add: sample_meta_def)
  have e: "cr_entries (so_crdt ?b) ''f'' = Some ?e" by (simp add: sample_store_def sample_meta_def)
  have t: "me_UpdatedAt ?e > 3" by (simp add: sample_meta_def)
  have u: "\<not> unsafe_path ''f''" by (simp add: unsafe_path_def contains_def starts_with_iff)
  from delete_undone_by_sync [OF sample_store_inv sample_store_inv p d oA oB e t u s] show ?thesis using d s by blast
qed

section \<open>Writes stay under the root\<close>



text \<open>A name with two dots in it is a good name of a file: \<open>Write\<close> accepts it and no peer ever does.\<close>

lemma written_never_replicated:
  assumes "Store_Write len now ''backup..tar'' (Copied sz) s = (r, s')" and "so_root s = ''/data''"
    and "crdt_inv (so_crdt s')" and "map_order ks (cr_entries (so_crdt s'))" and "crdt_inv (so_crdt b)"
    and "map_order ksB (cr_entries (so_crdt b))" and "sync_round now' ks ksB ks' (s', b) = (s'', b')"
  shows "r = Inr ''backup..tar'' \<and> cr_entries (so_crdt b') ''backup..tar'' = cr_entries (so_crdt b) ''backup..tar''"
proof -
  have "write_path ''/data'' ''backup..tar'' = Inr (''backup..tar'', ''/data/backup..tar'')" by code_simp
  then have "r = Inr ''backup..tar''" using assms(1,2) by (auto simp: Store_Write_def Let_def split: prod.splits)
  moreover have "unsafe_path ''backup..tar''" by code_simp
  ultimately show ?thesis using sync_unsafe [OF assms(3,5,4,6,7)] by simp
qed

end
