(* ===== verification/Flow_Dag.thy ===== *)
theory Flow_Dag
  imports Go_Strings
begin

text \<open>
  \<open>internal/flow/flow.go\<close>: flow definitions and their validation. \<open>cron_ok\<close> is the cron parser, a
  package of its own. The depth-first search of \<open>validateDependencies\<close> recurses on an explicit
  fuel; a search never goes deeper than there are steps, so the fuel given is never used up
  (\<open>validateDependencies_fuel\<close>).
\<close>

section \<open>Flow definitions\<close>

datatype TriggerType = TriggerSchedule | TriggerFileAdded | TriggerFileModified | TriggerManual

datatype StepType = StepShell | StepAI | StepSave | StepNotify

record Step =
  st_ID :: string
  st_Type :: StepType
  st_DependsOn :: "string list"
  st_Command :: string
  st_Node :: string
  st_Model :: string
  st_Prompt :: string
  st_UseBrain :: bool
  st_SaveTo :: string
  st_Content :: string
  st_Path :: string
  st_Message :: string

record TriggerConfig =
  tc_Type :: TriggerType
  tc_Cron :: string
  tc_Pattern :: string

record FlowDefinition =
  fd_ID :: string
  fd_Name :: string
  fd_Description :: string
  fd_Enabled :: bool
  fd_Trigger :: TriggerConfig
  fd_Steps :: "Step list"

datatype FlowError =
    InvalidCron string | EmptyStepID | DuplicateStep string | WriteCollision string string string
  | UnknownDependency string string | SelfDependency string | CyclicDependency "string list" | CyclicInvolving string
  | OutOfFuel | NameRequired | FlowExists string | FlowNotFound string

section \<open>Validation\<close>

definition save_path :: "Step \<Rightarrow> string" where
  "save_path s = (if st_SaveTo s = [] then st_Path s else st_SaveTo s)"

definition writes_file :: "Step \<Rightarrow> bool" where
  "writes_file s \<longleftrightarrow> save_path s \<noteq> [] \<and> (st_Type s = StepSave \<or> st_Type s = StepAI)"

text \<open>The pass over the steps: known IDs, the adjacency lists and who writes which file.\<close>

fun check_steps :: "Step list \<Rightarrow> string set \<Rightarrow> (string \<rightharpoonup> string) \<Rightarrow> FlowError option" where
  "check_steps [] known saveTargets = None"
| "check_steps (s # ss) known saveTargets =
     (if st_ID s = [] then Some EmptyStepID
      else if st_ID s \<in> known then Some (DuplicateStep (st_ID s))
      else if writes_file s then
        (case saveTargets (save_path s) of
           Some claimed \<Rightarrow> Some (WriteCollision claimed (st_ID s) (save_path s))
         | None \<Rightarrow> check_steps ss (insert (st_ID s) known) (saveTargets(save_path s \<mapsto> st_ID s)))
      else check_steps ss (insert (st_ID s) known) saveTargets)"

fun check_deps :: "string \<Rightarrow> string set \<Rightarrow> string list \<Rightarrow> FlowError option" where
  "check_deps sid known [] = None"
| "check_deps sid known (d # ds) =
     (if d \<notin> known then Some (UnknownDependency sid d)
      else if d = sid then Some (SelfDependency sid)
      else check_deps sid known ds)"

fun check_refs :: "string set \<Rightarrow> Step list \<Rightarrow> FlowError option" where
  "check_refs known [] = None"
| "check_refs known (s # ss) =
     (case check_deps (st_ID s) known (st_DependsOn s) of Some e \<Rightarrow> Some e | None \<Rightarrow> check_refs known ss)"

fun adjacency :: "Step list \<Rightarrow> string \<Rightarrow> string list" where
  "adjacency [] i = []"
| "adjacency (s # ss) i = (if st_ID s = i then st_DependsOn s else adjacency ss i)"

text \<open>Colours: 0 not visited, 1 on the stack, 2 finished.\<close>

datatype color = White | Grey | Black

definition cycle_error :: "string \<Rightarrow> string list \<Rightarrow> FlowError" where
  "cycle_error i path =
     (if i \<in> set path then CyclicDependency (dropWhile (\<lambda>p. p \<noteq> i) path @ [i]) else CyclicInvolving i)"

fun dfs :: "nat \<Rightarrow> (string \<Rightarrow> string list) \<Rightarrow> string \<Rightarrow> string list \<Rightarrow> (string \<Rightarrow> color) \<Rightarrow> FlowError option \<times> (string \<Rightarrow> color)"
and dfs_list :: "nat \<Rightarrow> (string \<Rightarrow> string list) \<Rightarrow> string list \<Rightarrow> string list \<Rightarrow> (string \<Rightarrow> color) \<Rightarrow> FlowError option \<times> (string \<Rightarrow> color)"
where
  "dfs 0 adj i path color = (Some OutOfFuel, color)"
| "dfs (Suc n) adj i path color =
     (case color i of
        Black \<Rightarrow> (None, color)
      | Grey \<Rightarrow> (Some (cycle_error i path), color)
      | White \<Rightarrow>
          (case dfs_list n adj (adj i) (path @ [i]) (color(i := Grey)) of
             (Some e, color) \<Rightarrow> (Some e, color)
           | (None, color) \<Rightarrow> (None, color(i := Black))))"
| "dfs_list n adj [] path color = (None, color)"
| "dfs_list n adj (d # ds) path color =
     (case dfs n adj d path color of
        (Some e, color) \<Rightarrow> (Some e, color)
      | (None, color) \<Rightarrow> dfs_list n adj ds path color)"

definition validateDependencies :: "Step list \<Rightarrow> FlowError option" where
  "validateDependencies steps =
     (case check_steps steps {} Map.empty of
        Some e \<Rightarrow> Some e
      | None \<Rightarrow>
          (case check_refs (st_ID ` set steps) steps of
             Some e \<Rightarrow> Some e
           | None \<Rightarrow> fst (dfs_list (length steps + 1) (adjacency steps) (map st_ID steps) [] (\<lambda>i. White))))"

definition validateFlowDefinition :: "(string \<Rightarrow> bool) \<Rightarrow> FlowDefinition \<Rightarrow> FlowError option" where
  "validateFlowDefinition cron_ok flow =
     (if tc_Type (fd_Trigger flow) = TriggerSchedule \<and> tc_Cron (fd_Trigger flow) \<noteq> [] \<and> \<not> cron_ok (tc_Cron (fd_Trigger flow))
      then Some (InvalidCron (tc_Cron (fd_Trigger flow)))
      else validateDependencies (fd_Steps flow))"

section \<open>The dependency graph\<close>

definition dep_rel :: "Step list \<Rightarrow> (string \<times> string) set" where
  "dep_rel steps = {(st_ID s, d) | s d. s \<in> set steps \<and> d \<in> set (st_DependsOn s)}"

definition adj_rel :: "(string \<Rightarrow> string list) \<Rightarrow> (string \<times> string) set" where
  "adj_rel adj = {(i, d). d \<in> set (adj i)}"

lemma adjacency_member: "distinct (map st_ID steps) \<Longrightarrow> s \<in> set steps \<Longrightarrow> adjacency steps (st_ID s) = st_DependsOn s"
  by (induction steps) (auto simp: image_iff)

lemma adjacency_other: "i \<notin> st_ID ` set steps \<Longrightarrow> adjacency steps i = []"
  by (induction steps) auto

lemma adj_rel_adjacency: "distinct (map st_ID steps) \<Longrightarrow> adj_rel (adjacency steps) = dep_rel steps"
proof (intro set_eqI)
  fix p :: "string \<times> string"
  assume d: "distinct (map st_ID steps)"
  obtain i e where p: "p = (i, e)" by force
  show "p \<in> adj_rel (adjacency steps) \<longleftrightarrow> p \<in> dep_rel steps"
  proof (cases "i \<in> st_ID ` set steps")
    case True
    then obtain s where s: "s \<in> set steps" "i = st_ID s" by blast
    have "t = s" if "t \<in> set steps" "st_ID t = st_ID s" for t
      using d s(1) that by (simp add: distinct_map inj_on_def)
    then show ?thesis using s adjacency_member [OF d s(1)] by (auto simp: p adj_rel_def dep_rel_def)
  next
    case False
    then show ?thesis by (auto simp: p adj_rel_def dep_rel_def adjacency_other)
  qed
qed

text \<open>The finished nodes, in the order they were finished: what a node needs came before it.\<close>

fun finished_order :: "(string \<Rightarrow> string list) \<Rightarrow> string list \<Rightarrow> bool" where
  "finished_order adj [] = True"
| "finished_order adj (x # xs) \<longleftrightarrow> finished_order adj xs \<and> x \<notin> set xs \<and> set (adj x) \<subseteq> set xs"

lemma finished_closed: "finished_order adj xs \<Longrightarrow> x \<in> set xs \<Longrightarrow> (x, y) \<in> (adj_rel adj)\<^sup>+ \<Longrightarrow> y \<in> set xs"
proof -
  have step: "finished_order adj xs \<Longrightarrow> x \<in> set xs \<Longrightarrow> (x, y) \<in> adj_rel adj \<Longrightarrow> y \<in> set xs" for x y
    by (induction xs) (auto simp: adj_rel_def)
  show "finished_order adj xs \<Longrightarrow> x \<in> set xs \<Longrightarrow> (x, y) \<in> (adj_rel adj)\<^sup>+ \<Longrightarrow> y \<in> set xs"
    by (rotate_tac 2, induction rule: trancl_induct) (auto intro: step)
qed

lemma finished_acyclic: "finished_order adj xs \<Longrightarrow> x \<in> set xs \<Longrightarrow> (x, x) \<notin> (adj_rel adj)\<^sup>+"
proof (induction xs)
  case (Cons a xs)
  show ?case
  proof
    assume c: "(x, x) \<in> (adj_rel adj)\<^sup>+"
    then obtain y where y: "(x, y) \<in> adj_rel adj" "y = x \<or> (y, x) \<in> (adj_rel adj)\<^sup>+"
      by (metis tranclD rtranclD)
    have "x = a" using Cons c by auto
    then have "y \<in> set xs" using Cons.prems(1) y(1) by (auto simp: adj_rel_def)
    then have "x \<in> set xs" using y(2) Cons.prems(1) finished_closed [of adj xs y x] by auto
    then show False using \<open>x = a\<close> Cons.prems(1) by simp
  qed
qed simp

text \<open>
  The invariant of the search: the nodes on the path are those on the stack, each needs the next,
  and the finished nodes have an order.
\<close>

fun chain :: "(string \<Rightarrow> string list) \<Rightarrow> string list \<Rightarrow> bool" where
  "chain adj (x # y # xs) \<longleftrightarrow> y \<in> set (adj x) \<and> chain adj (y # xs)"
| "chain adj xs = True"

definition dfs_inv :: "(string \<Rightarrow> string list) \<Rightarrow> string list \<Rightarrow> (string \<Rightarrow> color) \<Rightarrow> bool" where
  "dfs_inv adj path color \<longleftrightarrow> distinct path \<and> chain adj path \<and> (\<forall>i. color i = Grey \<longleftrightarrow> i \<in> set path) \<and>
     (\<exists>xs. finished_order adj xs \<and> (\<forall>i. color i = Black \<longleftrightarrow> i \<in> set xs))"

lemma chain_append: "chain adj (path @ [i]) \<longleftrightarrow> chain adj path \<and> (path \<noteq> [] \<longrightarrow> i \<in> set (adj (last path)))"
  by (induction adj path rule: chain.induct) auto

lemma chain_reach: "chain adj (x # xs) \<Longrightarrow> (x, last (x # xs)) \<in> (adj_rel adj)\<^sup>*"
proof (induction xs arbitrary: x)
  case (Cons y xs)
  then have "(x, y) \<in> adj_rel adj" "(y, last (y # xs)) \<in> (adj_rel adj)\<^sup>*" by (simp_all add: adj_rel_def)
  then show ?case by (simp add: converse_rtrancl_into_rtrancl)
qed simp

lemma chain_suffix: "chain adj (xs @ ys) \<Longrightarrow> chain adj ys"
  by (induction xs) (auto elim: chain.elims)

lemma grey_cycle:
  assumes "chain adj path" and "i \<in> set path" and "i \<in> set (adj (last path))"
  shows "(i, i) \<in> (adj_rel adj)\<^sup>+"
proof -
  obtain xs ys where "path = xs @ i # ys" using assms(2) by (metis split_list)
  then have "(i, last path) \<in> (adj_rel adj)\<^sup>*" using chain_reach [of adj i ys] chain_suffix [of adj xs "i # ys"] assms(1) by simp
  moreover have "(last path, i) \<in> adj_rel adj" using assms(3) by (simp add: adj_rel_def)
  ultimately show ?thesis by (rule rtrancl_into_trancl1)
qed

definition cycle_found :: "(string \<Rightarrow> string list) \<Rightarrow> FlowError \<Rightarrow> bool" where
  "cycle_found adj e \<longleftrightarrow> (\<exists>x. (x, x) \<in> (adj_rel adj)\<^sup>+) \<and> ((\<exists>c. e = CyclicDependency c) \<or> (\<exists>i. e = CyclicInvolving i))"

definition dfs_ok :: "(string \<Rightarrow> string list) \<Rightarrow> string list \<Rightarrow> (string \<Rightarrow> color) \<Rightarrow> string list \<Rightarrow>
    FlowError option \<times> (string \<Rightarrow> color) \<Rightarrow> bool" where
  "dfs_ok adj path color targets r \<longleftrightarrow>
     (case r of
        (Some e, c) \<Rightarrow> cycle_found adj e
      | (None, c) \<Rightarrow> dfs_inv adj path c \<and> (\<forall>i \<in> set targets. c i = Black) \<and> (\<forall>i. color i = Black \<longrightarrow> c i = Black))"

lemma dfs_inv_push: "dfs_inv adj path color \<Longrightarrow> color i = White \<Longrightarrow> (path \<noteq> [] \<longrightarrow> i \<in> set (adj (last path))) \<Longrightarrow>
    dfs_inv adj (path @ [i]) (color(i := Grey))"
proof -
  assume a: "dfs_inv adj path color" "color i = White" "path \<noteq> [] \<longrightarrow> i \<in> set (adj (last path))"
  then have "i \<notin> set path" unfolding dfs_inv_def by force
  moreover obtain xs where xs: "finished_order adj xs" "\<forall>j. color j = Black \<longleftrightarrow> j \<in> set xs" using a(1) unfolding dfs_inv_def by blast
  moreover have "i \<notin> set xs" using a(2) xs(2) by force
  ultimately show ?thesis using a unfolding dfs_inv_def chain_append by (auto intro!: exI [of _ xs])
qed

lemma dfs_inv_pop: "dfs_inv adj (path @ [i]) color \<Longrightarrow> (\<forall>d \<in> set (adj i). color d = Black) \<Longrightarrow>
    dfs_inv adj path (color(i := Black))"
proof -
  assume a: "dfs_inv adj (path @ [i]) color" "\<forall>d \<in> set (adj i). color d = Black"
  then have g: "color i = Grey" unfolding dfs_inv_def by simp
  obtain xs where xs: "finished_order adj xs" "\<forall>j. color j = Black \<longleftrightarrow> j \<in> set xs" using a(1) unfolding dfs_inv_def by blast
  have "i \<notin> set xs" using g xs(2) by force
  then have "finished_order adj (i # xs)" using xs a(2) by auto
  moreover have "\<forall>j. (color(i := Black)) j = Black \<longleftrightarrow> j \<in> set (i # xs)" using xs(2) by auto
  moreover have "\<forall>j. (color(i := Black)) j = Grey \<longleftrightarrow> j \<in> set path" using a(1) unfolding dfs_inv_def by auto
  moreover have "distinct path" "chain adj path" using a(1) unfolding dfs_inv_def chain_append by simp_all
  ultimately show ?thesis unfolding dfs_inv_def by blast
qed

lemma dfs_result:
  assumes N: "finite N"
  shows "(\<forall>i \<in> N. set (adj i) \<subseteq> N) \<Longrightarrow> dfs_inv adj path color \<Longrightarrow> set path \<subseteq> N \<Longrightarrow> i \<in> N \<Longrightarrow> (path \<noteq> [] \<longrightarrow> i \<in> set (adj (last path))) \<Longrightarrow>
      card N < length path + n \<Longrightarrow> dfs_ok adj path color [i] (dfs n adj i path color)"
    and "(\<forall>i \<in> N. set (adj i) \<subseteq> N) \<Longrightarrow> dfs_inv adj path color \<Longrightarrow> set path \<subseteq> N \<Longrightarrow> set ds \<subseteq> N \<Longrightarrow> (path \<noteq> [] \<longrightarrow> set ds \<subseteq> set (adj (last path))) \<Longrightarrow>
      card N < length path + n \<Longrightarrow> dfs_ok adj path color ds (dfs_list n adj ds path color)"
proof (induction n adj i path color and n adj ds path color rule: dfs_dfs_list.induct)
  case (1 adj i path color)
  have "length path \<le> card N" using 1(2,3) N unfolding dfs_inv_def by (metis card_mono distinct_card)
  then show ?case using 1(6) by simp
next
  case (2 n adj i path color)
  show ?case
  proof (cases "color i")
    case White
    have inv: "dfs_inv adj (path @ [i]) (color(i := Grey))" by (rule dfs_inv_push [OF 2(3) White 2(6)])
    have ih: "dfs_ok adj (path @ [i]) (color(i := Grey)) (adj i) (dfs_list n adj (adj i) (path @ [i]) (color(i := Grey)))"
      by (rule 2(1) [OF White 2(2) inv]) (use 2(2,4,5,7) in simp_all)
    obtain r c where r: "dfs_list n adj (adj i) (path @ [i]) (color(i := Grey)) = (r, c)" by force
    show ?thesis
    proof (cases r)
      case None
      then have c: "dfs_inv adj (path @ [i]) c" "\<forall>d \<in> set (adj i). c d = Black" "\<forall>j. (color(i := Grey)) j = Black \<longrightarrow> c j = Black"
        using ih r by (simp_all add: dfs_ok_def)
      have "color j = Black \<Longrightarrow> (c(i := Black)) j = Black" for j using c(3) White by (cases "j = i") auto
      then show ?thesis using None r White dfs_inv_pop [OF c(1,2)] by (simp add: dfs_ok_def)
    next
      case (Some e)
      then show ?thesis using ih r White by (simp add: dfs_ok_def)
    qed
  next
    case Grey
    then have i: "i \<in> set path" using 2(3) unfolding dfs_inv_def by blast
    then have "(i, i) \<in> (adj_rel adj)\<^sup>+" using grey_cycle [of adj path i] 2(3,6) unfolding dfs_inv_def by force
    then show ?thesis using Grey by (auto simp: dfs_ok_def cycle_found_def cycle_error_def)
  next
    case Black
    then show ?thesis using 2(3) by (simp add: dfs_ok_def)
  qed
next
  case (3 n adj path color)
  then show ?case by (simp add: dfs_ok_def)
next
  case (4 n adj d ds path color)
  have ih: "dfs_ok adj path color [d] (dfs n adj d path color)" by (rule 4(1)) (use 4(3-8) in auto)
  obtain r c where r: "dfs n adj d path color = (r, c)" by force
  show ?case
  proof (cases r)
    case None
    then have c: "dfs_inv adj path c" "c d = Black" "\<forall>j. color j = Black \<longrightarrow> c j = Black"
      using ih r by (simp_all add: dfs_ok_def)
    have "dfs_ok adj path c ds (dfs_list n adj ds path c)" by (rule 4(2) [OF r [symmetric] None 4(3) c(1)]) (use 4(5-8) in auto)
    then show ?thesis using None r c by (auto simp: dfs_ok_def split: prod.splits option.splits)
  next
    case (Some e)
    then show ?thesis using ih r by (simp add: dfs_ok_def)
  qed
qed

section \<open>What validation accepts\<close>

lemma check_steps_None:
  "check_steps ss known targets = None \<longleftrightarrow> (\<forall>s \<in> set ss. st_ID s \<noteq> [] \<and> st_ID s \<notin> known) \<and> distinct (map st_ID ss) \<and>
     distinct (map save_path (filter writes_file ss)) \<and> (\<forall>s \<in> set ss. writes_file s \<longrightarrow> targets (save_path s) = None)"
proof (induction ss arbitrary: known targets)
  case (Cons s ss)
  show ?case
  proof (cases "st_ID s = [] \<or> st_ID s \<in> known")
    case False
    then show ?thesis
      by (cases "writes_file s"; cases "targets (save_path s)") (auto simp: Cons.IH split: if_splits intro: rev_image_eqI)
  qed auto
qed simp

lemma check_deps_None: "check_deps i known ds = None \<longleftrightarrow> set ds \<subseteq> known - {i}"
  by (induction i known ds rule: check_deps.induct) auto

lemma check_refs_None: "check_refs known ss = None \<longleftrightarrow> (\<forall>s \<in> set ss. set (st_DependsOn s) \<subseteq> known - {st_ID s})"
proof (induction ss)
  case (Cons s ss)
  then show ?case using check_deps_None [of "st_ID s" known "st_DependsOn s"]
    by (cases "check_deps (st_ID s) known (st_DependsOn s)") auto
qed simp

definition steps_ok :: "Step list \<Rightarrow> bool" where
  "steps_ok steps \<longleftrightarrow> (\<forall>s \<in> set steps. st_ID s \<noteq> [] \<and> set (st_DependsOn s) \<subseteq> st_ID ` set steps) \<and>
     distinct (map st_ID steps) \<and> distinct (map save_path (filter writes_file steps))"

lemma search_result:
  assumes "distinct (map st_ID steps)" and "\<And>s. s \<in> set steps \<Longrightarrow> set (st_DependsOn s) \<subseteq> st_ID ` set steps"
  shows "case fst (dfs_list (length steps + 1) (adjacency steps) (map st_ID steps) [] (\<lambda>i. White)) of
      None \<Rightarrow> acyclic (dep_rel steps) | Some e \<Rightarrow> cycle_found (adjacency steps) e"
proof -
  let ?adj = "adjacency steps" and ?N = "st_ID ` set steps"
  have sub: "set (?adj i) \<subseteq> ?N" if i: "i \<in> ?N" for i
  proof -
    obtain s where "s \<in> set steps" "i = st_ID s" using i by blast
    then show ?thesis using assms(2) adjacency_member [OF assms(1)] by simp
  qed
  have "dfs_inv ?adj [] (\<lambda>i. White)" by (auto simp: dfs_inv_def intro!: exI [of _ "[]"])
  then have ok: "dfs_ok ?adj [] (\<lambda>i. White) (map st_ID steps) (dfs_list (length steps + 1) ?adj (map st_ID steps) [] (\<lambda>i. White))"
  proof (intro dfs_result(2) [of ?N] ballI)
    show "card ?N < length ([] :: string list) + (length steps + 1)"
      using card_image_le [of "set steps" st_ID] card_length [of steps] by simp
  qed (use sub in simp_all)
  obtain r c where r: "dfs_list (length steps + 1) ?adj (map st_ID steps) [] (\<lambda>i. White) = (r, c)" by force
  show ?thesis
  proof (cases r)
    case None
    then obtain xs where xs: "finished_order ?adj xs" "\<And>i. i \<in> ?N \<Longrightarrow> i \<in> set xs"
      using ok r by (auto simp: dfs_ok_def dfs_inv_def)
    have "(x, x) \<notin> (adj_rel ?adj)\<^sup>+" for x
    proof (cases "x \<in> ?N")
      case True
      then show ?thesis using xs finished_acyclic by blast
    next
      case False
      then show ?thesis using adjacency_other [OF False] by (auto simp: adj_rel_def dest: tranclD)
    qed
    then show ?thesis using None r adj_rel_adjacency [OF assms(1)] by (simp add: acyclic_def)
  next
    case (Some e)
    then show ?thesis using ok r by (simp add: dfs_ok_def)
  qed
qed

lemma validate_iff:
  "validateDependencies steps = None \<longleftrightarrow> steps_ok steps \<and> acyclic (dep_rel steps)"
proof (cases "check_steps steps {} Map.empty = None \<and> check_refs (st_ID ` set steps) steps = None")
  case True
  then have ok: "steps_ok steps" unfolding check_steps_None check_refs_None steps_ok_def by auto
  have "validateDependencies steps = fst (dfs_list (length steps + 1) (adjacency steps) (map st_ID steps) [] (\<lambda>i. White))"
    using True by (simp add: validateDependencies_def)
  moreover have "acyclic (dep_rel steps) \<longleftrightarrow> \<not> cycle_found (adjacency steps) e" if "cycle_found (adjacency steps) e" for e
    using that ok adj_rel_adjacency [of steps] by (auto simp: cycle_found_def acyclic_def steps_ok_def)
  ultimately show ?thesis using search_result [of steps] ok by (auto simp: steps_ok_def split: option.splits)
next
  case False
  have "(d, d) \<in> (dep_rel steps)\<^sup>+" if "s \<in> set steps" "d \<in> set (st_DependsOn s)" "d = st_ID s" for s d
    using that by (auto simp: dep_rel_def)
  then have "\<not> (steps_ok steps \<and> acyclic (dep_rel steps))"
    using False unfolding check_steps_None check_refs_None steps_ok_def acyclic_def by auto
  moreover have "validateDependencies steps \<noteq> None"
    using False by (auto simp: validateDependencies_def split: option.split)
  ultimately show ?thesis by blast
qed

text \<open>
  C7: A flow's steps are accepted exactly when every step has an ID of its own, no two steps that
  save (at whatever time) save to one path, every dependency names a step, and the dependencies
  have no cycle. So the search for cycles is sound and complete, for every graph.
\<close>

theorem validateDependencies_iff:
  "validateDependencies steps = None \<longleftrightarrow> steps_ok steps \<and> acyclic (dep_rel steps)"
  by (rule validate_iff)

lemma check_no_fuel:
  "check_steps steps known targets \<noteq> Some OutOfFuel" "check_refs known steps \<noteq> Some OutOfFuel"
proof -
  show "check_steps steps known targets \<noteq> Some OutOfFuel"
    by (induction steps arbitrary: known targets) (auto split: option.splits)
  have "check_deps i known ds \<noteq> Some OutOfFuel" for i ds by (induction i known ds rule: check_deps.induct) auto
  then show "check_refs known steps \<noteq> Some OutOfFuel"
    by (induction known steps rule: check_refs.induct) (auto split: option.splits)
qed

lemma validateDependencies_fuel: "validateDependencies steps \<noteq> Some OutOfFuel"
proof (cases "check_steps steps {} Map.empty = None \<and> check_refs (st_ID ` set steps) steps = None")
  case True
  then have "distinct (map st_ID steps)" "\<And>s. s \<in> set steps \<Longrightarrow> set (st_DependsOn s) \<subseteq> st_ID ` set steps"
    unfolding check_steps_None check_refs_None by auto
  from search_result [OF this] True show ?thesis
    by (auto simp: validateDependencies_def cycle_found_def split: option.splits)
next
  case False
  then show ?thesis using check_no_fuel by (auto simp: validateDependencies_def split: option.split)
qed

section \<open>The store of flows\<close>

text \<open>\<open>FlowNameToID\<close>, on names of ASCII characters.\<close>

definition slug_char :: "char \<Rightarrow> bool" where
  "slug_char c \<longleftrightarrow> (let n = of_char c :: nat in 97 \<le> n \<and> n \<le> 122 \<or> 48 \<le> n \<and> n \<le> 57 \<or> n = 95 \<or> n = 45)"

definition FlowNameToID :: "string \<Rightarrow> string" where
  "FlowNameToID name =
     (let s = map (\<lambda>c. if c = CHR '' '' then CHR ''_'' else c) (to_lower name);
          res = filter slug_char s
      in if res = [] then ''unnamed_flow'' else res)"

text \<open>The directory of flows, by ID; a file holds the definition but its ID.\<close>

type_synonym flow_store = "string \<rightharpoonup> FlowDefinition"

definition CreateFlow :: "(string \<Rightarrow> bool) \<Rightarrow> FlowDefinition \<Rightarrow> flow_store \<Rightarrow> FlowError option \<times> flow_store" where
  "CreateFlow cron_ok flow m =
     (if fd_Name flow = [] then (Some NameRequired, m)
      else case validateFlowDefinition cron_ok flow of
        Some e \<Rightarrow> (Some e, m)
      | None \<Rightarrow>
          (let i = FlowNameToID (fd_Name flow)
           in if m i \<noteq> None then (Some (FlowExists (fd_Name flow)), m)
              else (None, m(i \<mapsto> flow\<lparr>fd_ID := []\<rparr>))))"

definition GetFlow :: "string \<Rightarrow> flow_store \<Rightarrow> FlowError + FlowDefinition" where
  "GetFlow i m = (case m i of None \<Rightarrow> Inl (FlowNotFound i) | Some flow \<Rightarrow> Inr (flow\<lparr>fd_ID := i\<rparr>))"

text \<open>\<open>ks\<close> is the order of the directory.\<close>

definition ListFlows :: "string list \<Rightarrow> flow_store \<Rightarrow> FlowDefinition list" where
  "ListFlows ks m = concat (map (\<lambda>k. case GetFlow k m of Inl e \<Rightarrow> [] | Inr flow \<Rightarrow> [flow]) ks)"

definition UpdateFlow :: "(string \<Rightarrow> bool) \<Rightarrow> string \<Rightarrow> FlowDefinition \<Rightarrow> flow_store \<Rightarrow> FlowError option \<times> flow_store" where
  "UpdateFlow cron_ok i updated m =
     (if m i = None then (Some (FlowNotFound i), m)
      else let updated = (if fd_Name updated = []
                then updated\<lparr>fd_Name := map (\<lambda>c. if c = CHR ''_'' then CHR '' '' else c) i\<rparr> else updated)
           in case validateFlowDefinition cron_ok updated of
                Some e \<Rightarrow> (Some e, m)
              | None \<Rightarrow> (None, m(i \<mapsto> updated\<lparr>fd_ID := []\<rparr>)))"

definition DeleteFlow :: "string \<Rightarrow> flow_store \<Rightarrow> FlowError option \<times> flow_store" where
  "DeleteFlow i m = (if m i = None then (Some (FlowNotFound i), m) else (None, m(i := None)))"

definition ToggleFlow :: "(string \<Rightarrow> bool) \<Rightarrow> string \<Rightarrow> bool \<Rightarrow> flow_store \<Rightarrow> FlowError option \<times> flow_store" where
  "ToggleFlow cron_ok i enabled m =
     (case GetFlow i m of
        Inl e \<Rightarrow> (Some e, m)
      | Inr flow \<Rightarrow> UpdateFlow cron_ok i (flow\<lparr>fd_Enabled := enabled\<rparr>) m)"

datatype flow_op = OpCreate FlowDefinition | OpUpdate string FlowDefinition | OpDelete string | OpToggle string bool

definition flow_step :: "(string \<Rightarrow> bool) \<Rightarrow> flow_store \<Rightarrow> flow_op \<Rightarrow> flow_store" where
  "flow_step cron_ok m op =
     (case op of
        OpCreate flow \<Rightarrow> snd (CreateFlow cron_ok flow m)
      | OpUpdate i flow \<Rightarrow> snd (UpdateFlow cron_ok i flow m)
      | OpDelete i \<Rightarrow> snd (DeleteFlow i m)
      | OpToggle i on \<Rightarrow> snd (ToggleFlow cron_ok i on m))"

definition runnable :: "(string \<Rightarrow> bool) \<Rightarrow> FlowDefinition \<Rightarrow> bool" where
  "runnable cron_ok flow \<longleftrightarrow> steps_ok (fd_Steps flow) \<and> acyclic (dep_rel (fd_Steps flow)) \<and>
     (tc_Type (fd_Trigger flow) = TriggerSchedule \<longrightarrow> tc_Cron (fd_Trigger flow) \<noteq> [] \<longrightarrow> cron_ok (tc_Cron (fd_Trigger flow)))"

lemma validateFlow_runnable: "validateFlowDefinition cron_ok flow = None \<longleftrightarrow> runnable cron_ok flow"
  by (auto simp: validateFlowDefinition_def runnable_def validate_iff)

definition stored_ok :: "(string \<Rightarrow> bool) \<Rightarrow> flow_store \<Rightarrow> bool" where
  "stored_ok cron_ok m \<longleftrightarrow> (\<forall>i flow. m i = Some flow \<longrightarrow> runnable cron_ok flow)"

lemma runnable_ID [simp]: "runnable cron_ok (flow\<lparr>fd_ID := i\<rparr>) = runnable cron_ok flow"
  by (simp add: runnable_def)

lemma stored_ok_update: "stored_ok cron_ok m \<Longrightarrow> runnable cron_ok flow \<Longrightarrow> stored_ok cron_ok (m(i \<mapsto> flow))"
  by (simp add: stored_ok_def)

lemma UpdateFlow_ok: "stored_ok cron_ok m \<Longrightarrow> stored_ok cron_ok (snd (UpdateFlow cron_ok i flow m))"
  by (auto simp: UpdateFlow_def Let_def validateFlow_runnable intro!: stored_ok_update split: option.split)

lemma flow_step_ok: "stored_ok cron_ok m \<Longrightarrow> stored_ok cron_ok (flow_step cron_ok m op)"
proof (cases op)
  case (OpCreate flow)
  assume "stored_ok cron_ok m"
  then show ?thesis using OpCreate
    by (auto simp: flow_step_def CreateFlow_def Let_def validateFlow_runnable intro!: stored_ok_update split: option.split)
next
  case (OpDelete i)
  assume "stored_ok cron_ok m"
  then show ?thesis using OpDelete by (simp add: flow_step_def DeleteFlow_def stored_ok_def)
qed (auto simp: flow_step_def ToggleFlow_def UpdateFlow_ok split: sum.split)

text \<open>
  Whatever is created, updated, deleted and toggled, every flow of the store can be executed:
  its IDs are distinct, its dependencies name steps and have no cycle, no two saving steps share a
  path, and the cron expression of a scheduled flow parses.
\<close>

theorem flow_store_runnable:
  "stored_ok cron_ok (foldl (flow_step cron_ok) Map.empty ops)"
proof (rule foldl_invariant [where P = "stored_ok cron_ok"])
  show "stored_ok cron_ok Map.empty" by (simp add: stored_ok_def)
qed (rule flow_step_ok)

lemma FlowNameToID_safe: "FlowNameToID name \<noteq> [] \<and> (\<forall>c \<in> set (FlowNameToID name). slug_char c)"
  by (auto simp: FlowNameToID_def Let_def slug_char_def)

text \<open>Two names with one ID: the second flow cannot be created.\<close>

lemma FlowNameToID_collision: "FlowNameToID ''Night Job'' = FlowNameToID ''night_job!''"
  by code_simp

end
