(* ===== verification/Flow_Engine.thy ===== *)
theory Flow_Engine
  imports Flow_Dag Wal
begin

text \<open>
  \<open>internal/flow/engine.go\<close> and \<open>run.go\<close>: the execution of a flow's steps in parallel along their
  dependencies. The coordination loop of \<open>executeRun\<close> is a transition system: it looks for steps
  that can start (\<open>Looping\<close>), waits for one to finish or for a cancellation (\<open>Waiting\<close>) and stops
  (\<open>Exited\<close>). What a step does (\<open>RunStep\<close>) is an input: its result and, if it failed, its error. A
  step is recorded as running when it is dispatched. The record of the run as last written by
  \<open>UpdateRun\<close> is \<open>ex_saved\<close>; rendering of templates, metrics and logging are left out.
\<close>

datatype RunStatus = RunRunning | RunCompleted | RunFailed

datatype StepStatus = SrPending | SrRunning | SrCompleted | SrFailed

record StepResult =
  sr_ID :: string
  sr_Status :: StepStatus
  sr_Output :: string
  sr_Error :: string
  sr_StartedAt :: time
  sr_FinishedAt :: time

record FlowRun =
  run_ID :: string
  run_FlowID :: string
  run_FlowName :: string
  run_Status :: RunStatus
  run_Trigger :: string
  run_Steps :: "StepResult list"
  run_StartedAt :: time
  run_FinishedAt :: "time option"
  run_Error :: string

text \<open>\<open>dagState\<close>, the run and what the loop keeps in variables.\<close>

record Exec =
  ex_completed :: "string \<rightharpoonup> string"
  ex_failed :: "string \<rightharpoonup> string"
  ex_running :: "string set"
  ex_run :: FlowRun
  ex_saved :: "FlowRun option"
  ex_runErr :: "string option"
  ex_wal :: "WAL option"
  ex_lsn :: nat

datatype exec_phase = Looping | Waiting | Exited

section \<open>Steps and their results\<close>

text \<open>A flow without \<open>depends_on\<close> runs its steps in sequence.\<close>

fun chain_steps :: "string \<Rightarrow> Step list \<Rightarrow> Step list" where
  "chain_steps prev [] = []"
| "chain_steps prev (s # ss) = s\<lparr>st_DependsOn := [prev]\<rparr> # chain_steps (st_ID s) ss"

definition effective_steps :: "Step list \<Rightarrow> Step list" where
  "effective_steps steps =
     (if list_ex (\<lambda>s. st_DependsOn s \<noteq> []) steps then steps
      else case steps of [] \<Rightarrow> [] | s # ss \<Rightarrow> s # chain_steps (st_ID s) ss)"

fun set_result :: "string \<Rightarrow> (StepResult \<Rightarrow> StepResult) \<Rightarrow> StepResult \<Rightarrow> StepResult list \<Rightarrow> StepResult list" where
  "set_result i f new [] = [new]"
| "set_result i f new (r # rs) = (if sr_ID r = i then f r # rs else r # set_result i f new rs)"

definition UpdateRun :: "Exec \<Rightarrow> Exec" where
  "UpdateRun s = (case ex_saved s of None \<Rightarrow> s | Some _ \<Rightarrow> s\<lparr>ex_saved := Some (ex_run s)\<rparr>)"

section \<open>Starting\<close>

definition restore_step :: "Exec \<Rightarrow> StepResult \<Rightarrow> Exec" where
  "restore_step s res =
     (if sr_Status res = SrCompleted then s\<lparr>ex_completed := (ex_completed s)(sr_ID res \<mapsto> sr_Output res)\<rparr>
      else if sr_Status res = SrFailed then s\<lparr>ex_failed := (ex_failed s)(sr_ID res \<mapsto> sr_Error res)\<rparr>
      else s)"

definition exec_start :: "(WalEntry \<Rightarrow> nat) \<Rightarrow> time \<Rightarrow> FlowDefinition \<Rightarrow> FlowRun \<Rightarrow> WAL option \<Rightarrow> Exec" where
  "exec_start len now flow run w =
     (let s = \<lparr>ex_completed = Map.empty, ex_failed = Map.empty, ex_running = {}, ex_run = run, ex_saved = Some run,
               ex_runErr = None, ex_wal = w, ex_lsn = 0\<rparr>;
          s = foldl restore_step s (run_Steps run)
      in case w of
           None \<Rightarrow> s
         | Some w \<Rightarrow>
             (case WAL_Append len now EntryFlowRunStart (run_ID run) (FlowPayload (fd_ID flow) (run_ID run) [] [] []) w of
                (Inl e, w) \<Rightarrow> s\<lparr>ex_wal := Some w\<rparr>
              | (Inr lsn, w) \<Rightarrow> s\<lparr>ex_wal := Some w, ex_lsn := lsn\<rparr>))"

section \<open>One turn of the loop\<close>

datatype step_state = Skip | Cascade | Ready

definition classify_step :: "Exec \<Rightarrow> Step \<Rightarrow> step_state" where
  "classify_step s st =
     (if st_ID st \<in> dom (ex_completed s) \<or> st_ID st \<in> ex_running s \<or> st_ID st \<in> dom (ex_failed s) then Skip
      else if \<not> set (st_DependsOn st) \<subseteq> dom (ex_completed s) then Skip
      else if list_ex (\<lambda>d. d \<in> dom (ex_failed s)) (st_DependsOn st) then Cascade
      else Ready)"

definition dependency_failed :: string where "dependency_failed = ''dependency failed''"

fun scan_steps :: "time \<Rightarrow> Step list \<Rightarrow> nat \<Rightarrow> Exec \<Rightarrow> nat \<times> Step list \<times> Exec" where
  "scan_steps now [] finished s = (finished, [], s)"
| "scan_steps now (st # sts) finished s =
     (case classify_step s st of
        Skip \<Rightarrow> scan_steps now sts finished s
      | Cascade \<Rightarrow> scan_steps now sts (finished + 1)
          (s\<lparr>ex_failed := (ex_failed s)(st_ID st \<mapsto> dependency_failed),
             ex_run := (ex_run s)\<lparr>run_Steps := run_Steps (ex_run s) @
               [\<lparr>sr_ID = st_ID st, sr_Status = SrFailed, sr_Output = [], sr_Error = dependency_failed,
                 sr_StartedAt = now, sr_FinishedAt = now\<rparr>]\<rparr>\<rparr>)
      | Ready \<Rightarrow> (let (finished, ready, s) = scan_steps now sts finished s in (finished, st # ready, s)))"

definition dispatch :: "time \<Rightarrow> Exec \<Rightarrow> Step \<Rightarrow> Exec" where
  "dispatch now s st =
     UpdateRun (s\<lparr>ex_running := insert (st_ID st) (ex_running s),
       ex_run := (ex_run s)\<lparr>run_Steps := set_result (st_ID st) (\<lambda>r. r\<lparr>sr_Status := SrRunning\<rparr>)
          \<lparr>sr_ID = st_ID st, sr_Status = SrRunning, sr_Output = [], sr_Error = [], sr_StartedAt = now, sr_FinishedAt = zero_time\<rparr>
          (run_Steps (ex_run s))\<rparr>\<rparr>)"

text \<open>\<open>stall\<close> is the text of the error, from the number of steps left and of all steps.\<close>

definition exec_iterate :: "(nat \<Rightarrow> nat \<Rightarrow> string) \<Rightarrow> time \<Rightarrow> Step list \<Rightarrow> Exec \<Rightarrow> exec_phase \<times> Exec" where
  "exec_iterate stall now steps s =
     (let total = length steps;
          (finished, ready, s1) = scan_steps now steps (card (dom (ex_completed s)) + card (dom (ex_failed s))) s;
          activeCount = card (ex_running s1) + length ready;
          s2 = foldl (dispatch now) s1 ready
      in if finished = total \<and> activeCount = 0 then (Exited, s2)
         else if activeCount = 0 then
           (let accounted = card (dom (ex_completed s2)) + card (dom (ex_failed s2))
            in if accounted < total then (Exited, s2\<lparr>ex_runErr := Some (stall (total - accounted) total)\<rparr>)
               else (Exited, s2))
         else (Waiting, s2))"

definition step_type :: "Step list \<Rightarrow> string \<Rightarrow> string" where
  "step_type steps i = (case find (\<lambda>s. st_ID s = i) steps of None \<Rightarrow> [] | Some s \<Rightarrow> (case st_Type s of StepShell \<Rightarrow> ''shell'' | StepAI \<Rightarrow> ''ai'' | StepSave \<Rightarrow> ''save'' | StepNotify \<Rightarrow> ''notify''))"

definition wal_step_complete :: "(WalEntry \<Rightarrow> nat) \<Rightarrow> time \<Rightarrow> string \<Rightarrow> string \<Rightarrow> string \<Rightarrow> string \<Rightarrow> WAL option \<Rightarrow> WAL option" where
  "wal_step_complete len now flowID runID stepID stepType w =
     (case w of
        None \<Rightarrow> None
      | Some w \<Rightarrow>
          (case WAL_Append len now EntryFlowStepComplete runID (FlowPayload flowID runID stepID stepType []) w of
             (Inl e, w) \<Rightarrow> Some w
           | (Inr lsn, w) \<Rightarrow> if lsn \<noteq> 0 then Some (snd (snd (WAL_Commit len now lsn stepID w))) else Some w))"

text \<open>A result arrives on \<open>finishedCh\<close>.\<close>

definition exec_receive :: "(WalEntry \<Rightarrow> nat) \<Rightarrow> time \<Rightarrow> FlowDefinition \<Rightarrow> Step list \<Rightarrow> StepResult \<Rightarrow> string option \<Rightarrow> Exec \<Rightarrow> Exec" where
  "exec_receive len now flow steps res err s =
     (let s = s\<lparr>ex_running := ex_running s - {sr_ID res},
               ex_run := (ex_run s)\<lparr>run_Steps := set_result (sr_ID res) (\<lambda>r. res) res (run_Steps (ex_run s))\<rparr>\<rparr>;
          s = (case err of
                 Some e \<Rightarrow> s\<lparr>ex_failed := (ex_failed s)(sr_ID res \<mapsto> e),
                             ex_runErr := (if ex_runErr s = None then Some e else ex_runErr s)\<rparr>
               | None \<Rightarrow> s\<lparr>ex_completed := (ex_completed s)(sr_ID res \<mapsto> sr_Output res)\<rparr>);
          s = (if err = None
               then s\<lparr>ex_wal := wal_step_complete len now (fd_ID flow) (run_ID (ex_run s)) (sr_ID res) (step_type steps (sr_ID res)) (ex_wal s)\<rparr>
               else s)
      in UpdateRun s)"

section \<open>The end of a run\<close>

definition exec_finalize :: "(WalEntry \<Rightarrow> nat) \<Rightarrow> time \<Rightarrow> Exec \<Rightarrow> Exec" where
  "exec_finalize len now s =
     (let run = (ex_run s)\<lparr>run_FinishedAt := Some now\<rparr>;
          run = (case ex_runErr s of
                   Some e \<Rightarrow> run\<lparr>run_Status := RunFailed, run_Error := e\<rparr>
                 | None \<Rightarrow> run\<lparr>run_Status := RunCompleted\<rparr>);
          w = (case ex_wal s of
                 None \<Rightarrow> None
               | Some w \<Rightarrow> if ex_lsn s = 0 then Some w
                   else (case ex_runErr s of
                           Some e \<Rightarrow> Some (snd (WAL_Abort len now (ex_lsn s) (run_ID run) e w))
                         | None \<Rightarrow> Some (snd (snd (WAL_Commit len now (ex_lsn s) (run_ID run) w)))))
      in UpdateRun (s\<lparr>ex_run := run, ex_wal := w\<rparr>))"

section \<open>Executions\<close>

inductive exec_step :: "(nat \<Rightarrow> nat \<Rightarrow> string) \<Rightarrow> (WalEntry \<Rightarrow> nat) \<Rightarrow> FlowDefinition \<Rightarrow> Step list \<Rightarrow>
    exec_phase \<times> Exec \<Rightarrow> exec_phase \<times> Exec \<Rightarrow> bool" for stall len flow steps where
  Iterate: "exec_iterate stall now steps s = (ph, s') \<Longrightarrow> exec_step stall len flow steps (Looping, s) (ph, s')"
| Finish: "sr_ID res \<in> ex_running s \<Longrightarrow>
    exec_step stall len flow steps (Waiting, s) (Looping, exec_receive len now flow steps res err s)"

text \<open>A cancellation ends the loop at a wait.\<close>

definition exec_cancel :: "string \<Rightarrow> Exec \<Rightarrow> Exec" where
  "exec_cancel reason s = s\<lparr>ex_runErr := Some reason\<rparr>"

inductive exec_reach :: "(nat \<Rightarrow> nat \<Rightarrow> string) \<Rightarrow> (WalEntry \<Rightarrow> nat) \<Rightarrow> FlowDefinition \<Rightarrow> Step list \<Rightarrow> Exec \<Rightarrow>
    nat \<Rightarrow> exec_phase \<times> Exec \<Rightarrow> bool" for stall len flow steps s0 where
  Start: "exec_reach stall len flow steps s0 0 (Looping, s0)"
| Step: "exec_reach stall len flow steps s0 n x \<Longrightarrow> exec_step stall len flow steps x y \<Longrightarrow>
    exec_reach stall len flow steps s0 (Suc n) y"

inductive_cases exec_step_Exited [elim!]: "exec_step stall len flow steps (Exited, s) y"
inductive_cases exec_step_Looping: "exec_step stall len flow steps (Looping, s) y"
inductive_cases exec_step_Waiting: "exec_step stall len flow steps (Waiting, s) y"

section \<open>Frame rules\<close>

lemma UpdateRun_frame [simp]:
  "ex_completed (UpdateRun s) = ex_completed s" "ex_failed (UpdateRun s) = ex_failed s"
  "ex_running (UpdateRun s) = ex_running s" "ex_runErr (UpdateRun s) = ex_runErr s" "ex_run (UpdateRun s) = ex_run s"
  by (auto simp: UpdateRun_def split: option.split)

lemma dispatch_frame [simp]:
  "ex_completed (dispatch now s st) = ex_completed s" "ex_failed (dispatch now s st) = ex_failed s"
  "ex_runErr (dispatch now s st) = ex_runErr s" "ex_running (dispatch now s st) = insert (st_ID st) (ex_running s)"
  by (simp_all add: dispatch_def)

lemma dispatch_all:
  "ex_completed (foldl (dispatch now) s sts) = ex_completed s" "ex_failed (foldl (dispatch now) s sts) = ex_failed s"
  "ex_runErr (foldl (dispatch now) s sts) = ex_runErr s"
  "ex_running (foldl (dispatch now) s sts) = ex_running s \<union> st_ID ` set sts"
  by (induction sts arbitrary: s) auto

lemma receive_frame:
  "ex_running (exec_receive len now flow steps res err s) = ex_running s - {sr_ID res}"
  "ex_completed (exec_receive len now flow steps res err s) =
     (if err = None then (ex_completed s)(sr_ID res \<mapsto> sr_Output res) else ex_completed s)"
  "ex_failed (exec_receive len now flow steps res err s) =
     (case err of None \<Rightarrow> ex_failed s | Some e \<Rightarrow> (ex_failed s)(sr_ID res \<mapsto> e))"
  "ex_runErr (exec_receive len now flow steps res err s) = (if ex_runErr s = None then err else ex_runErr s)"
  by (auto simp: exec_receive_def Let_def split: option.split)

section \<open>The invariant\<close>

definition ids :: "Step list \<Rightarrow> string set" where "ids steps = st_ID ` set steps"

definition started :: "Exec \<Rightarrow> string set" where
  "started s = ex_running s \<union> dom (ex_completed s) \<union> dom (ex_failed s)"

text \<open>Nothing that could start is left.\<close>

definition quiet :: "Step list \<Rightarrow> Exec \<Rightarrow> bool" where
  "quiet steps s \<longleftrightarrow> (\<forall>st \<in> set steps. classify_step s st = Skip)"

definition exec_inv :: "Step list \<Rightarrow> exec_phase \<times> Exec \<Rightarrow> bool" where
  "exec_inv steps x \<longleftrightarrow> (case x of (ph, s) \<Rightarrow>
     started s \<subseteq> ids steps \<and> ex_running s \<inter> (dom (ex_completed s) \<union> dom (ex_failed s)) = {} \<and>
     dom (ex_completed s) \<inter> dom (ex_failed s) = {} \<and>
     (\<forall>st \<in> set steps. st_ID st \<in> started s \<longrightarrow> set (st_DependsOn st) \<subseteq> dom (ex_completed s)) \<and>
     (ph \<noteq> Exited \<longrightarrow> (ex_runErr s = None \<longleftrightarrow> ex_failed s = Map.empty)) \<and>
     (ph = Waiting \<longrightarrow> ex_running s \<noteq> {} \<and> quiet steps s) \<and>
     (ph = Exited \<longrightarrow> ex_running s = {} \<and> quiet steps s))"

lemma finite_ids: "finite (ids steps)"
  by (simp add: ids_def)

lemma inv_finite:
  assumes "exec_inv steps (ph, s)"
  shows "finite (dom (ex_completed s))" and "finite (dom (ex_failed s))" and "finite (ex_running s)"
  using assms finite_subset [OF _ finite_ids] unfolding exec_inv_def started_def by blast+

text \<open>
  A step is only looked at when all its dependencies are completed, and no step is both completed
  and failed: the branch that passes a failure on to dependents is never taken.
\<close>

lemma cascade_unreachable: "dom (ex_completed s) \<inter> dom (ex_failed s) = {} \<Longrightarrow> classify_step s st \<noteq> Cascade"
  by (auto simp: classify_step_def list_ex_iff disjoint_iff subset_iff)

lemma scan_ready:
  "dom (ex_completed s) \<inter> dom (ex_failed s) = {} \<Longrightarrow>
    scan_steps now sts n s = (n, filter (\<lambda>st. classify_step s st = Ready) sts, s)"
proof (induction sts arbitrary: n)
  case (Cons st sts)
  then show ?case using cascade_unreachable [of s st] by (cases "classify_step s st") simp_all
qed simp

lemma Ready_iff:
  "dom (ex_completed s) \<inter> dom (ex_failed s) = {} \<Longrightarrow>
    classify_step s st = Ready \<longleftrightarrow> st_ID st \<notin> started s \<and> set (st_DependsOn st) \<subseteq> dom (ex_completed s)"
  using cascade_unreachable [of s st] by (auto simp: classify_step_def started_def split: if_splits)

lemma Skip_iff:
  "dom (ex_completed s) \<inter> dom (ex_failed s) = {} \<Longrightarrow>
    classify_step s st = Skip \<longleftrightarrow> st_ID st \<in> started s \<or> \<not> set (st_DependsOn st) \<subseteq> dom (ex_completed s)"
  using Ready_iff [of s st] cascade_unreachable [of s st] by (cases "classify_step s st") auto

definition ready_ids :: "Step list \<Rightarrow> Exec \<Rightarrow> string set" where
  "ready_ids steps s = st_ID ` {st \<in> set steps. classify_step s st = Ready}"

lemma iterate_frame:
  assumes "exec_inv steps (Looping, s)" and "exec_iterate stall now steps s = (ph, s')"
  shows "ex_completed s' = ex_completed s" and "ex_failed s' = ex_failed s"
    and "ex_running s' = ex_running s \<union> ready_ids steps s"
    and "ph = (if ex_running s' = {} then Exited else Waiting)"
    and "ex_runErr s' = (if ph = Exited \<and> card (dom (ex_completed s)) + card (dom (ex_failed s)) < length steps
      then Some (stall (length steps - (card (dom (ex_completed s)) + card (dom (ex_failed s)))) (length steps)) else ex_runErr s)"
proof -
  let ?n = "card (dom (ex_completed s)) + card (dom (ex_failed s))"
  let ?ready = "filter (\<lambda>st. classify_step s st = Ready) steps"
  let ?s2 = "foldl (dispatch now) s ?ready"
  have disj: "dom (ex_completed s) \<inter> dom (ex_failed s) = {}" using assms(1) by (simp add: exec_inv_def)
  have fin: "finite (ex_running s)" by (rule inv_finite [OF assms(1)])
  have it: "exec_iterate stall now steps s =
      (if ?n = length steps \<and> card (ex_running s) + length ?ready = 0 then (Exited, ?s2)
       else if card (ex_running s) + length ?ready = 0 then
         (if ?n < length steps then (Exited, ?s2\<lparr>ex_runErr := Some (stall (length steps - ?n) (length steps))\<rparr>) else (Exited, ?s2))
       else (Waiting, ?s2))"
    unfolding exec_iterate_def Let_def scan_ready [OF disj] by (simp add: dispatch_all)
  have run: "ex_running ?s2 = ex_running s \<union> ready_ids steps s" by (simp add: dispatch_all ready_ids_def)
  have zero: "card (ex_running s) + length ?ready = 0 \<longleftrightarrow> ex_running ?s2 = {}"
    unfolding run using fin by (auto simp: ready_ids_def filter_empty_conv)
  from assms(2) have "ex_completed s' = ex_completed ?s2" "ex_failed s' = ex_failed ?s2" "ex_running s' = ex_running ?s2"
    unfolding it by (auto split: if_splits)
  then show C: "ex_completed s' = ex_completed s" "ex_failed s' = ex_failed s" "ex_running s' = ex_running s \<union> ready_ids steps s"
    by (simp_all add: dispatch_all ready_ids_def)
  from assms(2) show "ph = (if ex_running s' = {} then Exited else Waiting)"
    unfolding it zero C(3) run [symmetric] by (auto split: if_splits)
  from assms(2) show "ex_runErr s' = (if ph = Exited \<and> ?n < length steps then Some (stall (length steps - ?n) (length steps)) else ex_runErr s)"
    unfolding it by (auto simp: dispatch_all split: if_splits)
qed

lemma iterate_quiet:
  assumes "exec_inv steps (Looping, s)" and "exec_iterate stall now steps s = (ph, s')"
  shows "quiet steps s'"
proof -
  note fr = iterate_frame [OF assms]
  have disj: "dom (ex_completed s) \<inter> dom (ex_failed s) = {}" using assms(1) by (simp add: exec_inv_def)
  have "classify_step s' st = Skip" if st: "st \<in> set steps" for st
  proof (cases "classify_step s st = Ready")
    case True
    then have "st_ID st \<in> ex_running s'" using st fr(3) by (auto simp: ready_ids_def)
    then show ?thesis by (simp add: classify_step_def)
  next
    case False
    then have "classify_step s st = Skip" using cascade_unreachable [OF disj, of st] by (cases "classify_step s st") auto
    then show ?thesis using Skip_iff [of s st] Skip_iff [of s' st] disj fr(1-3) by (auto simp: started_def)
  qed
  then show ?thesis by (simp add: quiet_def)
qed

lemma same_step: "distinct (map st_ID steps) \<Longrightarrow> s \<in> set steps \<Longrightarrow> t \<in> set steps \<Longrightarrow> st_ID s = st_ID t \<Longrightarrow> s = t"
  by (simp add: distinct_map inj_on_def)

lemma iterate_inv:
  assumes "exec_inv steps (Looping, s)" and "exec_iterate stall now steps s = (ph, s')" and "distinct (map st_ID steps)"
  shows "exec_inv steps (ph, s')"
proof -
  note fr = iterate_frame [OF assms(1,2)]
  have disj: "dom (ex_completed s) \<inter> dom (ex_failed s) = {}"
    and sub: "started s \<subseteq> ids steps" and run: "ex_running s \<inter> (dom (ex_completed s) \<union> dom (ex_failed s)) = {}"
    and deps: "\<And>st. st \<in> set steps \<Longrightarrow> st_ID st \<in> started s \<Longrightarrow> set (st_DependsOn st) \<subseteq> dom (ex_completed s)"
    and err: "ex_runErr s = None \<longleftrightarrow> ex_failed s = Map.empty"
    using assms(1) by (auto simp: exec_inv_def)
  have new: "i \<notin> started s" if i: "i \<in> ready_ids steps s" for i
    using i Ready_iff [OF disj] by (auto simp: ready_ids_def)
  have started: "started s' = started s \<union> ready_ids steps s" using fr(1-3) by (auto simp: started_def)
  then have "started s' \<subseteq> ids steps" using sub by (auto simp: ready_ids_def ids_def)
  moreover have "set (st_DependsOn st) \<subseteq> dom (ex_completed s)" if st: "st \<in> set steps" and ready: "st_ID st \<in> ready_ids steps s" for st
  proof -
    obtain t where t: "t \<in> set steps" "classify_step s t = Ready" "st_ID t = st_ID st" using ready by (auto simp: ready_ids_def)
    then have "t = st" using same_step [OF assms(3)] st by blast
    then show ?thesis using t(2) Ready_iff [OF disj] by blast
  qed
  then have "\<forall>st \<in> set steps. st_ID st \<in> started s' \<longrightarrow> set (st_DependsOn st) \<subseteq> dom (ex_completed s')"
    using deps started fr(1) by auto
  moreover have "ex_running s' \<inter> (dom (ex_completed s') \<union> dom (ex_failed s')) = {}"
    using run new fr(1-3) by (auto simp: started_def)
  moreover have "dom (ex_completed s') \<inter> dom (ex_failed s') = {}" using disj fr(1,2) by simp
  moreover have "ph \<noteq> Exited \<longrightarrow> (ex_runErr s' = None \<longleftrightarrow> ex_failed s' = Map.empty)" using err fr(2,5) by simp
  ultimately show ?thesis
    unfolding exec_inv_def using fr(4) iterate_quiet [OF assms(1,2)] by (simp split: if_splits)
qed

lemma receive_inv:
  assumes inv: "exec_inv steps (Waiting, s)" and res: "sr_ID res \<in> ex_running s"
  shows "exec_inv steps (Looping, exec_receive len now flow sts res err s)"
proof -
  let ?t = "exec_receive len now flow sts res err s"
  have i: "ex_completed s (sr_ID res) = None" "ex_failed s (sr_ID res) = None" using assms by (auto simp: exec_inv_def)
  have C: "dom (ex_completed ?t) = (if err = None then insert (sr_ID res) (dom (ex_completed s)) else dom (ex_completed s))"
    and F: "dom (ex_failed ?t) = (if err = None then dom (ex_failed s) else insert (sr_ID res) (dom (ex_failed s)))"
    and R: "ex_running ?t = ex_running s - {sr_ID res}"
    by (cases err; simp add: receive_frame)+
  have E: "ex_runErr ?t = None \<longleftrightarrow> ex_failed ?t = Map.empty"
    using inv by (cases err; cases "ex_runErr s") (simp_all add: exec_inv_def receive_frame)
  have S: "started ?t = started s" using res unfolding started_def C F R by auto
  have "started ?t \<subseteq> ids steps" unfolding S using inv by (simp add: exec_inv_def)
  moreover have "set (st_DependsOn st) \<subseteq> dom (ex_completed ?t)" if "st \<in> set steps" "st_ID st \<in> started ?t" for st
  proof -
    have "set (st_DependsOn st) \<subseteq> dom (ex_completed s)" using inv that unfolding S exec_inv_def by simp
    then show ?thesis unfolding C by auto
  qed
  moreover have "ex_running ?t \<inter> (dom (ex_completed ?t) \<union> dom (ex_failed ?t)) = {}"
    using inv unfolding exec_inv_def C F R by auto
  moreover have "dom (ex_completed ?t) \<inter> dom (ex_failed ?t) = {}"
    using inv i unfolding exec_inv_def C F by auto
  ultimately show ?thesis using E unfolding exec_inv_def by simp
qed

text \<open>How many steps are done, one way or the other.\<close>

definition settled :: "Exec \<Rightarrow> nat" where
  "settled s = card (dom (ex_completed s)) + card (dom (ex_failed s))"

lemma settled_le: "exec_inv steps (ph, s) \<Longrightarrow> settled s \<le> card (ids steps)"
proof -
  assume inv: "exec_inv steps (ph, s)"
  have "settled s = card (dom (ex_completed s) \<union> dom (ex_failed s))"
    unfolding settled_def using inv_finite [OF inv] inv by (simp add: exec_inv_def card_Un_disjoint)
  also have "\<dots> \<le> card (ids steps)" by (rule card_mono [OF finite_ids]) (use inv in \<open>auto simp: exec_inv_def started_def\<close>)
  finally show ?thesis .
qed

lemma settled_receive:
  assumes "exec_inv steps (Waiting, s)" and "sr_ID res \<in> ex_running s"
  shows "settled (exec_receive len now flow sts res err s) = Suc (settled s)"
proof -
  have "sr_ID res \<notin> dom (ex_completed s)" "sr_ID res \<notin> dom (ex_failed s)" using assms by (auto simp: exec_inv_def)
  then show ?thesis using inv_finite [OF assms(1)]
    by (cases err) (simp_all add: settled_def receive_frame card_insert_disjoint)
qed

text \<open>A new run: nothing is recorded in it yet.\<close>

lemma fresh_inv:
  assumes "run_Steps run = []"
  shows "exec_inv steps (Looping, exec_start len now flow run w)" and "settled (exec_start len now flow run w) = 0"
proof -
  let ?s = "exec_start len now flow run w"
  have "ex_completed ?s = Map.empty" "ex_failed ?s = Map.empty" "ex_running ?s = {}" "ex_runErr ?s = None"
    using assms by (auto simp: exec_start_def Let_def split: option.split prod.split sum.split)
  then show "exec_inv steps (Looping, ?s)" "settled ?s = 0" by (simp_all add: exec_inv_def started_def settled_def)
qed

lemma reach_inv:
  assumes "exec_reach stall len flow steps s0 n x" and "exec_inv steps (Looping, s0)" and "distinct (map st_ID steps)"
  shows "exec_inv steps x \<and> n = 2 * (settled (snd x) - settled s0) + (if fst x = Looping then 0 else 1) \<and> settled s0 \<le> settled (snd x)"
  using assms(1)
proof (induction rule: exec_reach.induct)
  case Start
  then show ?case using assms(2) by simp
next
  case (Step n x y)
  from Step.hyps(2) show ?case
  proof cases
    case (Iterate now s ph s')
    then have inv: "exec_inv steps (Looping, s)" using Step.IH by simp
    have "settled s' = settled s" using iterate_frame [OF inv Iterate(3)] by (simp add: settled_def)
    moreover have "ph \<noteq> Looping" using iterate_frame(4) [OF inv Iterate(3)] by (simp split: if_splits)
    ultimately show ?thesis using iterate_inv [OF inv Iterate(3) assms(3)] Step.IH Iterate by auto
  next
    case (Finish res s now err)
    then have inv: "exec_inv steps (Waiting, s)" using Step.IH by simp
    show ?thesis using receive_inv [OF inv Finish(3)] settled_receive [OF inv Finish(3)] Step.IH Finish by auto
  qed
qed

section \<open>The steps executed\<close>

lemma effective_length: "length (effective_steps steps) = length steps"
proof -
  have "length (chain_steps p ss) = length ss" for p ss by (induction ss arbitrary: p) auto
  then show ?thesis by (simp add: effective_steps_def split: list.split)
qed

lemma chain_steps_fields:
  "map st_ID (chain_steps p ss) = map st_ID ss" "map save_path (filter writes_file (chain_steps p ss)) = map save_path (filter writes_file ss)"
  by (induction ss arbitrary: p) (auto simp: save_path_def writes_file_def)

lemma dep_rel_Cons: "dep_rel (s # ss) = {(st_ID s, d) | d. d \<in> set (st_DependsOn s)} \<union> dep_rel ss"
  by (auto simp: dep_rel_def)

lemma chain_dep_rel:
  "(a, b) \<in> dep_rel (chain_steps p ss) \<Longrightarrow> \<exists>k < length ss. a = st_ID (ss ! k) \<and> b = (p # map st_ID ss) ! k"
proof (induction ss arbitrary: p)
  case (Cons s ss)
  have "(a, b) \<in> dep_rel (chain_steps p (s # ss)) \<longleftrightarrow> a = st_ID s \<and> b = p \<or> (a, b) \<in> dep_rel (chain_steps (st_ID s) ss)"
    by (auto simp: dep_rel_Cons)
  then consider "a = st_ID s" "b = p" | k where "k < length ss" "a = st_ID (ss ! k)" "b = (st_ID s # map st_ID ss) ! k"
    using Cons by blast
  then show ?case
  proof cases
    case 1
    then show ?thesis by (intro exI [of _ 0]) simp
  next
    case (2 k)
    then show ?thesis by (intro exI [of _ "Suc k"]) simp
  qed
qed (simp add: dep_rel_def)

lemma acyclic_by_rank:
  fixes f :: "'a \<Rightarrow> nat"
  assumes "\<And>a b. (a, b) \<in> r \<Longrightarrow> f b < f a"
  shows "acyclic r"
proof -
  have "r\<inverse> \<subseteq> measure f" using assms by auto
  then have "wf (r\<inverse>)" by (rule wf_subset [OF wf_measure])
  then show ?thesis using wf_acyclic [of "r\<inverse>"] by (simp add: acyclic_converse)
qed

lemma effective_valid:
  assumes "validateDependencies steps = None"
  shows "validateDependencies (effective_steps steps) = None"
proof (cases "list_ex (\<lambda>s. st_DependsOn s \<noteq> []) steps \<or> steps = []")
  case True
  then show ?thesis using assms by (auto simp: effective_steps_def)
next
  case False
  then obtain s ss where steps: "steps = s # ss" and none: "st_DependsOn s = []" by (cases steps) auto
  let ?e = "s # chain_steps (st_ID s) ss"
  have e: "effective_steps steps = ?e" using False by (simp add: effective_steps_def steps)
  have ok: "steps_ok steps" using assms by (simp add: validate_iff)
  have d: "distinct (map st_ID steps)" using ok by (simp add: steps_ok_def)
  have rel: "dep_rel ?e = dep_rel (chain_steps (st_ID s) ss)" using none by (auto simp: dep_rel_def)
  have "acyclic (dep_rel ?e)"
  proof (rule acyclic_by_rank [where f = "\<lambda>i. length (takeWhile (\<lambda>j. j \<noteq> i) (map st_ID steps))"])
    fix a b
    assume "(a, b) \<in> dep_rel ?e"
    then obtain k where k: "k < length ss" "a = st_ID (ss ! k)" "b = (st_ID s # map st_ID ss) ! k"
      unfolding rel using chain_dep_rel by blast
    have pos: "length (takeWhile (\<lambda>j. j \<noteq> map st_ID steps ! m) (map st_ID steps)) = m" if m: "m < length steps" for m
    proof -
      have "takeWhile (\<lambda>j. j \<noteq> map st_ID steps ! m) (map st_ID steps) = take m (map st_ID steps)"
        using m nth_eq_iff_index_eq [OF d] by (intro takeWhile_eq_take_P_nth) (auto simp del: nth_map)
      then show ?thesis using m by simp
    qed
    have "a = map st_ID steps ! Suc k" "b = map st_ID steps ! k" using k by (simp_all add: steps)
    then show "length (takeWhile (\<lambda>j. j \<noteq> b) (map st_ID steps)) < length (takeWhile (\<lambda>j. j \<noteq> a) (map st_ID steps))"
      using pos [of k] pos [of "Suc k"] k(1) by (simp add: steps del: takeWhile.simps)
  qed
  moreover have "map st_ID ?e = map st_ID steps" "map save_path (filter writes_file ?e) = map save_path (filter writes_file steps)"
    by (simp_all add: chain_steps_fields steps)
  moreover have "set (st_DependsOn t) \<subseteq> st_ID ` set ?e" if "t \<in> set ?e" for t
  proof
    fix x
    assume "x \<in> set (st_DependsOn t)"
    then have "(st_ID t, x) \<in> dep_rel ?e" using that by (auto simp: dep_rel_def)
    then obtain k where "k < length ss" "x = (st_ID s # map st_ID ss) ! k" unfolding rel using chain_dep_rel by blast
    then have "x \<in> set (map st_ID steps)" by (metis steps length_map list.simps(9) nth_mem less_SucI length_Cons)
    then show "x \<in> st_ID ` set ?e" using \<open>map st_ID ?e = map st_ID steps\<close> by (metis list.set_map)
  qed
  moreover have "st_ID t \<noteq> []" if t: "t \<in> set ?e" for t
  proof -
    have "st_ID t \<in> set (map st_ID steps)" using t \<open>map st_ID ?e = map st_ID steps\<close> by (metis imageI list.set_map)
    then show ?thesis using ok by (auto simp: steps_ok_def)
  qed
  ultimately show ?thesis unfolding e validate_iff steps_ok_def using ok by (simp add: steps_ok_def)
qed

section \<open>The properties of a run\<close>

text \<open>A run of a flow that passed validation, from its creation; \<open>steps\<close> are those executed.\<close>

definition new_run :: "(nat \<Rightarrow> nat \<Rightarrow> string) \<Rightarrow> (WalEntry \<Rightarrow> nat) \<Rightarrow> FlowDefinition \<Rightarrow> FlowRun \<Rightarrow> nat \<Rightarrow> exec_phase \<times> Exec \<Rightarrow> bool" where
  "new_run stall len flow run n x \<longleftrightarrow> validateDependencies (fd_Steps flow) = None \<and> run_Steps run = [] \<and>
     (\<exists>t0 w. exec_reach stall len flow (effective_steps (fd_Steps flow)) (exec_start len t0 flow run w) n x)"

lemma new_run_facts:
  assumes "new_run stall len flow run n x"
  shows "steps_ok (effective_steps (fd_Steps flow))" and "acyclic (dep_rel (effective_steps (fd_Steps flow)))"
    and "exec_inv (effective_steps (fd_Steps flow)) x"
    and "n = 2 * settled (snd x) + (if fst x = Looping then 0 else 1)"
proof -
  let ?steps = "effective_steps (fd_Steps flow)"
  have "validateDependencies ?steps = None" using assms by (auto simp: new_run_def effective_valid)
  then show ok: "steps_ok ?steps" "acyclic (dep_rel ?steps)" by (simp_all add: validate_iff)
  obtain t0 w where r: "exec_reach stall len flow ?steps (exec_start len t0 flow run w) n x" and e: "run_Steps run = []"
    using assms by (auto simp: new_run_def)
  have d: "distinct (map st_ID ?steps)" using ok(1) by (simp add: steps_ok_def)
  from reach_inv [OF r fresh_inv(1) [OF e] d] fresh_inv(2) [OF e]
  show "exec_inv ?steps x" "n = 2 * settled (snd x) + (if fst x = Looping then 0 else 1)" by simp_all
qed

lemma new_run_exit:
  assumes "new_run stall len flow run n (Exited, s)"
  obtains now s1 where "exec_inv (effective_steps (fd_Steps flow)) (Looping, s1)"
    and "exec_iterate stall now (effective_steps (fd_Steps flow)) s1 = (Exited, s)"
proof -
  obtain t0 w where "exec_reach stall len flow (effective_steps (fd_Steps flow)) (exec_start len t0 flow run w) n (Exited, s)"
    using assms by (auto simp: new_run_def)
  then obtain m x where x: "exec_reach stall len flow (effective_steps (fd_Steps flow)) (exec_start len t0 flow run w) m x"
    "exec_step stall len flow (effective_steps (fd_Steps flow)) x (Exited, s)" by (cases rule: exec_reach.cases) auto
  have "new_run stall len flow run m x" using assms x(1) by (auto simp: new_run_def)
  note inv = new_run_facts(3) [OF this]
  from x(2) show thesis
  proof cases
    case (Iterate now s1)
    then show ?thesis using inv that by blast
  qed
qed

text \<open>
  C9: Whenever a step of a flow is started, every step it depends on has completed, and the step
  itself was not started before; what was started stays started, running or done.
\<close>

theorem flow_steps_in_order:
  assumes "new_run stall len flow run n x" and "exec_step stall len flow (effective_steps (fd_Steps flow)) x y"
  shows "started (snd x) \<subseteq> started (snd y) \<and>
    (\<forall>st \<in> set (effective_steps (fd_Steps flow)). st_ID st \<in> ex_running (snd y) - ex_running (snd x) \<longrightarrow>
       st_ID st \<notin> started (snd x) \<and> set (st_DependsOn st) \<subseteq> dom (ex_completed (snd x)))"
proof -
  let ?steps = "effective_steps (fd_Steps flow)"
  have d: "distinct (map st_ID ?steps)" using new_run_facts(1) [OF assms(1)] by (simp add: steps_ok_def)
  note inv = new_run_facts(3) [OF assms(1)]
  from assms(2) show ?thesis
  proof cases
    case (Iterate now s ph s')
    note fr = iterate_frame [OF inv [unfolded Iterate(1)] Iterate(3)]
    have disj: "dom (ex_completed s) \<inter> dom (ex_failed s) = {}" using inv Iterate(1) by (simp add: exec_inv_def)
    have "st_ID st \<notin> started s \<and> set (st_DependsOn st) \<subseteq> dom (ex_completed s)"
      if st: "st \<in> set ?steps" and new: "st_ID st \<in> ex_running s' - ex_running s" for st
    proof -
      obtain t where t: "t \<in> set ?steps" "classify_step s t = Ready" "st_ID t = st_ID st"
        using new fr(3) by (auto simp: ready_ids_def)
      then have "t = st" using same_step [OF d] st by blast
      then show ?thesis using t(2) Ready_iff [OF disj] by blast
    qed
    moreover have "started s \<subseteq> started s'" using fr(1-3) by (auto simp: started_def)
    ultimately show ?thesis using Iterate by simp
  next
    case (Finish res s now err)
    then show ?thesis by (auto simp: started_def receive_frame split: option.split)
  qed
qed

text \<open>
  C8: A run ends. However the steps finish, the loop makes at most two turns for each step and one
  more, and until it stops there is always something it can do or wait for.
\<close>

theorem flow_run_terminates:
  assumes "new_run stall len flow run n (ph, s)"
  shows "n \<le> 2 * length (fd_Steps flow) + 1 \<and>
    (ph = Exited \<or> (\<exists>y. exec_step stall len flow (effective_steps (fd_Steps flow)) (ph, s) y))"
proof -
  let ?steps = "effective_steps (fd_Steps flow)"
  note f = new_run_facts [OF assms]
  have "length ?steps = length (fd_Steps flow)" by (rule effective_length)
  moreover have "card (ids ?steps) \<le> length ?steps"
    unfolding ids_def using card_image_le [of "set ?steps" st_ID] card_length [of ?steps] by simp
  moreover have "ph = Exited \<or> (\<exists>y. exec_step stall len flow ?steps (ph, s) y)"
  proof (cases ph)
    case Looping
    obtain ph' s' where "exec_iterate stall 0 ?steps s = (ph', s')" by force
    then show ?thesis using exec_step.Iterate Looping by blast
  next
    case Waiting
    then obtain i where "i \<in> ex_running s" using f(3) by (auto simp: exec_inv_def)
    then have "sr_ID \<lparr>sr_ID = i, sr_Status = SrCompleted, sr_Output = [], sr_Error = [], sr_StartedAt = 0, sr_FinishedAt = 0\<rparr>
        \<in> ex_running s" by simp
    from exec_step.Finish [OF this] show ?thesis using Waiting by blast
  qed simp
  ultimately show ?thesis using f(4) settled_le [OF f(3)] by simp
qed

lemma exit_done_iff:
  assumes "new_run stall len flow run n (Exited, s)" and "i \<in> ids (effective_steps (fd_Steps flow))"
  shows "i \<in> dom (ex_completed s) \<longleftrightarrow> (\<forall>j \<in> dom (ex_failed s). (i, j) \<notin> (dep_rel (effective_steps (fd_Steps flow)))\<^sup>*)"
proof -
  let ?steps = "effective_steps (fd_Steps flow)" and ?r = "dep_rel (effective_steps (fd_Steps flow))"
  note f = new_run_facts [OF assms(1)]
  have inv: "ex_running s = {}" "quiet ?steps s" "dom (ex_completed s) \<inter> dom (ex_failed s) = {}"
    and deps: "\<And>st. st \<in> set ?steps \<Longrightarrow> st_ID st \<in> started s \<Longrightarrow> set (st_DependsOn st) \<subseteq> dom (ex_completed s)"
    using f(3) by (auto simp: exec_inv_def)
  have closed: "j \<in> dom (ex_completed s)" if "(i, j) \<in> ?r\<^sup>*" "i \<in> dom (ex_completed s)" for i j
    using that by (induction rule: rtrancl_induct) (use deps in \<open>auto simp: dep_rel_def started_def\<close>)
  have fin: "finite ?r"
  proof -
    have "?r = (\<Union>s \<in> set ?steps. (\<lambda>d. (st_ID s, d)) ` set (st_DependsOn s))" by (auto simp: dep_rel_def)
    then show ?thesis by simp
  qed
  have wf: "wf (?r\<inverse>)" by (rule finite_acyclic_wf_converse [OF fin f(2)])
  have culprit: "i \<in> ids ?steps \<Longrightarrow> i \<notin> dom (ex_completed s) \<Longrightarrow> \<exists>j \<in> dom (ex_failed s). (i, j) \<in> ?r\<^sup>*" for i
  proof (induction i rule: wf_induct_rule [OF wf])
    case (1 i)
    show ?case
    proof (cases "i \<in> dom (ex_failed s)")
      case False
      obtain st where st: "st \<in> set ?steps" "i = st_ID st" using 1(2) by (auto simp: ids_def)
      have "st_ID st \<notin> started s" using 1(3) False inv(1) st(2) by (simp add: started_def)
      then obtain d where d: "d \<in> set (st_DependsOn st)" "d \<notin> dom (ex_completed s)"
        using inv(2,3) st(1) Skip_iff [of s st] by (auto simp: quiet_def)
      have "d \<in> ids ?steps" using f(1) st(1) d(1) by (auto simp: steps_ok_def ids_def)
      moreover have r: "(i, d) \<in> ?r" using st d(1) by (auto simp: dep_rel_def)
      ultimately obtain j where "j \<in> dom (ex_failed s)" "(d, j) \<in> ?r\<^sup>*" using 1(1) [of d] d(2) by auto
      then show ?thesis using r by (meson converse_rtrancl_into_rtrancl)
    qed auto
  qed
  show ?thesis using culprit [OF assms(2)] closed inv(3) by blast
qed

lemma exit_error:
  assumes "new_run stall len flow run n (Exited, s)"
  shows "if settled s < length (fd_Steps flow) then ex_runErr s = Some (stall (length (fd_Steps flow) - settled s) (length (fd_Steps flow)))
    else ex_runErr s = None \<longleftrightarrow> ex_failed s = Map.empty"
    and "settled s = length (fd_Steps flow) \<longleftrightarrow> ids (effective_steps (fd_Steps flow)) = dom (ex_completed s) \<union> dom (ex_failed s)"
proof -
  let ?steps = "effective_steps (fd_Steps flow)"
  have l: "length ?steps = length (fd_Steps flow)" by (rule effective_length)
  obtain now s1 where s1: "exec_inv ?steps (Looping, s1)" "exec_iterate stall now ?steps s1 = (Exited, s)"
    using new_run_exit [OF assms] .
  note fr = iterate_frame [OF s1]
  show "if settled s < length (fd_Steps flow) then ex_runErr s = Some (stall (length (fd_Steps flow) - settled s) (length (fd_Steps flow)))
    else ex_runErr s = None \<longleftrightarrow> ex_failed s = Map.empty"
    using fr(1,2,5) s1(1) by (auto simp: settled_def l exec_inv_def)
  note f = new_run_facts [OF assms]
  have "card (ids ?steps) = length ?steps" using f(1) distinct_card [of "map st_ID ?steps"] by (simp add: steps_ok_def ids_def)
  moreover have "settled s = card (dom (ex_completed s) \<union> dom (ex_failed s))"
    unfolding settled_def using inv_finite [OF f(3)] f(3) by (simp add: exec_inv_def card_Un_disjoint)
  moreover have "dom (ex_completed s) \<union> dom (ex_failed s) \<subseteq> ids ?steps" using f(3) by (auto simp: exec_inv_def started_def)
  ultimately show "settled s = length (fd_Steps flow) \<longleftrightarrow> ids ?steps = dom (ex_completed s) \<union> dom (ex_failed s)"
    using l card_subset_eq [OF finite_ids] by metis
qed

lemma finalize_run:
  "run_Status (ex_run (exec_finalize len now s)) = (if ex_runErr s = None then RunCompleted else RunFailed)"
  "ex_runErr s = Some e \<Longrightarrow> run_Error (ex_run (exec_finalize len now s)) = e"
  by (auto simp: exec_finalize_def Let_def split: option.split)


text \<open>
  When a step fails that another step depends on, the error of the run is not the step's. The
  failure is not passed on to the dependents (that branch is never taken), the loop finds itself
  stalled and reports the steps it could not reach instead.
\<close>

theorem flow_error_masked:
  assumes "new_run stall len flow run n (Exited, s)" and "i \<in> dom (ex_failed s)"
    and "st \<in> set (effective_steps (fd_Steps flow))" and "i \<in> set (st_DependsOn st)"
  shows "run_Error (ex_run (exec_finalize len now s)) = stall (length (fd_Steps flow) - settled s) (length (fd_Steps flow)) \<and>
    settled s < length (fd_Steps flow)"
proof -
  let ?steps = "effective_steps (fd_Steps flow)"
  have inv: "exec_inv ?steps (Exited, s)" by (rule new_run_facts(3) [OF assms(1)])
  have "st_ID st \<notin> started s"
  proof
    assume "st_ID st \<in> started s"
    then have "set (st_DependsOn st) \<subseteq> dom (ex_completed s)" using inv assms(3) by (simp add: exec_inv_def)
    then have "i \<in> dom (ex_completed s) \<inter> dom (ex_failed s)" using assms(2,4) by blast
    moreover have "dom (ex_completed s) \<inter> dom (ex_failed s) = {}" using inv by (simp add: exec_inv_def)
    ultimately show False by blast
  qed
  then have "ids ?steps \<noteq> dom (ex_completed s) \<union> dom (ex_failed s)" using assms(3) by (auto simp: ids_def started_def)
  then have "settled s \<noteq> length (fd_Steps flow)" using exit_error(2) [OF assms(1)] by simp
  moreover have "settled s \<le> length (fd_Steps flow)"
    using settled_le [OF inv] card_image_le [of "set ?steps" st_ID] card_length [of ?steps] by (simp add: ids_def effective_length)
  ultimately have lt: "settled s < length (fd_Steps flow)" by simp
  then show ?thesis using exit_error(1) [OF assms(1)] finalize_run(2) by simp
qed

text \<open>
  A resumed run forgets a failure. When every step of a run is on record as completed or failed
  (the agent stopped before the run was closed), resuming it closes it as completed, whichever
  failed.
\<close>

theorem resume_forgets_failure:
  assumes "s = exec_start len t0 flow run w"
    and "dom (ex_completed s) \<union> dom (ex_failed s) = ids (effective_steps (fd_Steps flow))"
    and "dom (ex_completed s) \<inter> dom (ex_failed s) = {}" and "distinct (map st_ID (fd_Steps flow))"
  shows "\<exists>s'. exec_iterate stall now (effective_steps (fd_Steps flow)) s = (Exited, s') \<and> ex_failed s' = ex_failed s \<and>
    run_Status (ex_run (exec_finalize len now s')) = RunCompleted"
proof -
  let ?steps = "effective_steps (fd_Steps flow)"
  have restore: "ex_running (foldl restore_step s rs) = ex_running s \<and> ex_runErr (foldl restore_step s rs) = ex_runErr s" for s rs
    by (induction rs arbitrary: s) (auto simp: restore_step_def)
  have run: "ex_running s = {}" "ex_runErr s = None"
    unfolding assms(1) by (auto simp: exec_start_def Let_def restore split: option.split prod.split sum.split)
  have skip: "classify_step s st = Skip" if "st \<in> set ?steps" for st
  proof -
    have "st_ID st \<in> dom (ex_completed s) \<union> dom (ex_failed s)" unfolding assms(2) ids_def using that by (rule imageI)
    then show ?thesis by (auto simp: classify_step_def)
  qed
  have scan: "scan_steps now ?steps k s = (k, [], s)" for k
    unfolding scan_ready [OF assms(3)] using skip by (auto simp: filter_empty_conv)
  have ids: "map st_ID ?steps = map st_ID (fd_Steps flow)"
    by (auto simp: effective_steps_def chain_steps_fields split: list.split)
  have c: "card (ids ?steps) = length ?steps"
    using distinct_card [OF assms(4)] ids by (metis ids_def length_map list.set_map)
  have fin: "finite (dom (ex_completed s))" "finite (dom (ex_failed s))"
    using assms(2) finite_subset [OF _ finite_ids [of ?steps]] by blast+
  have "card (dom (ex_completed s)) + card (dom (ex_failed s)) = length ?steps"
    using card_Un_disjoint [OF fin assms(3)] assms(2) c by simp
  then have "exec_iterate stall now ?steps s = (Exited, s)"
    unfolding exec_iterate_def Let_def scan using run(1) by simp
  then show ?thesis using run(2) by (simp add: finalize_run)
qed

section \<open>An example\<close>

text \<open>Two steps, the second depending on the first, which fails.\<close>

definition sample_step :: "string \<Rightarrow> string list \<Rightarrow> Step" where
  "sample_step i ds = \<lparr>st_ID = i, st_Type = StepShell, st_DependsOn = ds, st_Command = ''true'', st_Node = [], st_Model = [],
     st_Prompt = [], st_UseBrain = False, st_SaveTo = [], st_Content = [], st_Path = [], st_Message = []\<rparr>"

definition sample_flow :: FlowDefinition where
  "sample_flow = \<lparr>fd_ID = ''f'', fd_Name = ''f'', fd_Description = [], fd_Enabled = True,
     fd_Trigger = \<lparr>tc_Type = TriggerManual, tc_Cron = [], tc_Pattern = []\<rparr>,
     fd_Steps = [sample_step ''a'' [], sample_step ''b'' [''a'']]\<rparr>"

definition sample_run :: FlowRun where
  "sample_run = \<lparr>run_ID = ''r'', run_FlowID = ''f'', run_FlowName = ''f'', run_Status = RunRunning, run_Trigger = ''manual'',
     run_Steps = [], run_StartedAt = 0, run_FinishedAt = None, run_Error = []\<rparr>"

definition sample_result :: "string \<Rightarrow> StepStatus \<Rightarrow> StepResult" where
  "sample_result i st = \<lparr>sr_ID = i, sr_Status = st, sr_Output = [], sr_Error = [], sr_StartedAt = 0, sr_FinishedAt = 1\<rparr>"

lemma sample_step_sel [simp]: "st_ID (sample_step i ds) = i" "st_DependsOn (sample_step i ds) = ds"
  by (simp_all add: sample_step_def)

lemma sample_flow_steps:
  "fd_Steps sample_flow = [sample_step ''a'' [], sample_step ''b'' [''a'']]"
  "effective_steps (fd_Steps sample_flow) = [sample_step ''a'' [], sample_step ''b'' [''a'']]"
  by (simp_all add: sample_flow_def effective_steps_def sample_step_def)

lemma sample_flow_valid: "validateDependencies (fd_Steps sample_flow) = None"
  unfolding sample_flow_steps by code_simp

lemma sample_execution:
  shows "\<exists>s0 s1. new_run stall len sample_flow sample_run 0 (Looping, s0) \<and>
      exec_step stall len sample_flow (effective_steps (fd_Steps sample_flow)) (Looping, s0) (Waiting, s1) \<and>
      ex_running s0 = {} \<and> ex_running s1 = {''a''}"
    and "\<exists>s2. new_run stall len sample_flow sample_run 3 (Exited, s2) \<and> dom (ex_failed s2) = {''a''}"
proof -
  let ?steps = "[sample_step ''a'' [], sample_step ''b'' [''a'']]"
  let ?s0 = "exec_start len 0 sample_flow sample_run None"
  have s0: "ex_completed ?s0 = Map.empty" "ex_failed ?s0 = Map.empty" "ex_running ?s0 = {}"
    by (simp_all add: exec_start_def sample_run_def Let_def)
  have d: "distinct (map st_ID ?steps)" by simp
  have r0: "exec_reach stall len sample_flow ?steps ?s0 0 (Looping, ?s0)" by (rule exec_reach.Start)
  have inv0: "exec_inv ?steps (Looping, ?s0)" by (rule fresh_inv) (simp add: sample_run_def)
  obtain ph s1 where i1: "exec_iterate stall 0 ?steps ?s0 = (ph, s1)" by force
  note f1 = iterate_frame [OF inv0 i1]
  have "classify_step ?s0 (sample_step ''a'' []) = Ready" "classify_step ?s0 (sample_step ''b'' [''a'']) = Skip"
    by (simp_all add: classify_step_def s0)
  then have "{st \<in> set ?steps. classify_step ?s0 st = Ready} = {sample_step ''a'' []}" by auto
  then have "ready_ids ?steps ?s0 = {''a''}" by (simp add: ready_ids_def)
  then have s1: "ex_running s1 = {''a''}" "ph = Waiting" "ex_completed s1 = Map.empty" "ex_failed s1 = Map.empty"
    using f1 s0 by simp_all
  have st1: "exec_step stall len sample_flow ?steps (Looping, ?s0) (Waiting, s1)"
    using exec_step.Iterate [OF i1] s1(2) by simp
  let ?res = "sample_result ''a'' SrFailed"
  let ?t = "exec_receive len 1 sample_flow ?steps ?res (Some ''boom'') s1"
  have a: "sr_ID ?res \<in> ex_running s1" by (simp add: s1 sample_result_def)
  note st2 = exec_step.Finish [OF a, of stall len sample_flow ?steps 1 "Some ''boom''"]
  have inv1: "exec_inv ?steps (Waiting, s1)" using iterate_inv [OF inv0 i1 d] s1(2) by simp
  note inv2 = receive_inv [OF inv1 a, of len 1 sample_flow ?steps "Some ''boom''"]
  have t: "ex_completed ?t = Map.empty" "dom (ex_failed ?t) = {''a''}" "ex_running ?t = {}"
    by (simp_all add: receive_frame s1 sample_result_def)
  obtain ph' s2 where i3: "exec_iterate stall 2 ?steps ?t = (ph', s2)" by force
  note f3 = iterate_frame [OF inv2 i3]
  have "classify_step ?t (sample_step ''a'' []) = Skip" "classify_step ?t (sample_step ''b'' [''a'']) = Skip"
    by (simp_all add: classify_step_def t)
  then have "{st \<in> set ?steps. classify_step ?t st = Ready} = {}" by auto
  then have "ready_ids ?steps ?t = {}" by (simp add: ready_ids_def)
  then have s2: "ph' = Exited" "ex_completed s2 = Map.empty" "dom (ex_failed s2) = {''a''}" using f3 t by simp_all
  have "exec_reach stall len sample_flow ?steps ?s0 (Suc (Suc (Suc 0))) (Exited, s2)"
    using exec_reach.Step [OF exec_reach.Step [OF exec_reach.Step [OF r0 st1] st2] exec_step.Iterate [OF i3]] s2(1) by simp
  then have "new_run stall len sample_flow sample_run 3 (Exited, s2)"
    unfolding new_run_def sample_flow_steps(2) using sample_flow_valid by (auto simp: sample_run_def numeral_3_eq_3)
  moreover have "new_run stall len sample_flow sample_run 0 (Looping, ?s0)"
    unfolding new_run_def sample_flow_steps(2) using sample_flow_valid r0 by (auto simp: sample_run_def)
  ultimately show "\<exists>s0 s1. new_run stall len sample_flow sample_run 0 (Looping, s0) \<and>
      exec_step stall len sample_flow (effective_steps (fd_Steps sample_flow)) (Looping, s0) (Waiting, s1) \<and>
      ex_running s0 = {} \<and> ex_running s1 = {''a''}"
    and "\<exists>s2. new_run stall len sample_flow sample_run 3 (Exited, s2) \<and> dom (ex_failed s2) = {''a''}"
    using st1 s0(3) s1(1) s2(3) unfolding sample_flow_steps(2) by blast+
qed

theorem flow_steps_in_order_witness:
  "\<exists>s0 s1. exec_step (\<lambda>k n. []) (\<lambda>e. 0) sample_flow (effective_steps (fd_Steps sample_flow)) (Looping, s0) (Waiting, s1) \<and>
     ''a'' \<notin> started s0 \<and> ''a'' \<in> ex_running s1"
proof -
  obtain s0 s1 where s: "new_run (\<lambda>k n. []) (\<lambda>e. 0) sample_flow sample_run 0 (Looping, s0)"
    "exec_step (\<lambda>k n. []) (\<lambda>e. 0) sample_flow (effective_steps (fd_Steps sample_flow)) (Looping, s0) (Waiting, s1)"
    "ex_running s0 = {}" "ex_running s1 = {''a''}"
    using sample_execution(1) by blast
  have "sample_step ''a'' [] \<in> set (effective_steps (fd_Steps sample_flow))" "st_ID (sample_step ''a'' []) = ''a''"
    unfolding sample_flow_steps(2) by simp_all
  then have "''a'' \<notin> started s0" using conjunct2 [OF flow_steps_in_order [OF s(1,2)]] s(3,4)
    by (metis DiffI empty_iff insertI1 snd_conv)
  then show ?thesis using s(2,4) by (intro exI [of _ s0] exI [of _ s1]) simp
qed

theorem flow_run_terminates_witness:
  "\<exists>s. new_run (\<lambda>k n. []) (\<lambda>e. 0) sample_flow sample_run 3 (Exited, s) \<and> (3::nat) \<le> 2 * length (fd_Steps sample_flow) + 1"
proof -
  obtain s where "new_run (\<lambda>k n. []) (\<lambda>e. 0) sample_flow sample_run 3 (Exited, s)" using sample_execution(2) by blast
  from flow_run_terminates [OF this] this show ?thesis by blast
qed


theorem flow_error_masked_witness:
  "\<exists>s. new_run (\<lambda>k n. ''execution stalled'') (\<lambda>e. 0) sample_flow sample_run 3 (Exited, s) \<and> ''a'' \<in> dom (ex_failed s) \<and>
     run_Error (ex_run (exec_finalize (\<lambda>e. 0) 4 s)) = ''execution stalled''"
proof -
  obtain s where s: "new_run (\<lambda>k n. ''execution stalled'') (\<lambda>e. 0) sample_flow sample_run 3 (Exited, s)" "dom (ex_failed s) = {''a''}"
    using sample_execution(2) by blast
  have a: "''a'' \<in> dom (ex_failed s)" using s(2) by simp
  have b: "sample_step ''b'' [''a''] \<in> set (effective_steps (fd_Steps sample_flow))" "''a'' \<in> set (st_DependsOn (sample_step ''b'' [''a'']))"
    unfolding sample_flow_steps(2) by simp_all
  from flow_error_masked [OF s(1) a b] s(1) a show ?thesis by blast
qed

theorem resume_forgets_failure_witness:
  "\<exists>s'. run_Status (ex_run (exec_finalize (\<lambda>e. 0) 9 s')) = RunCompleted \<and> ''b'' \<in> dom (ex_failed s')"
proof -
  let ?run = "sample_run\<lparr>run_Steps := [sample_result ''a'' SrCompleted, sample_result ''b'' SrFailed]\<rparr>"
  let ?s = "exec_start (\<lambda>e. 0) 0 sample_flow ?run None"
  have m: "dom (ex_completed ?s) = {''a''}" "dom (ex_failed ?s) = {''b''}"
    by (simp_all add: exec_start_def Let_def restore_step_def sample_result_def)
  have u: "dom (ex_completed ?s) \<union> dom (ex_failed ?s) = ids (effective_steps (fd_Steps sample_flow))"
    unfolding m sample_flow_steps(2) by (simp add: ids_def insert_commute)
  have i: "dom (ex_completed ?s) \<inter> dom (ex_failed ?s) = {}" unfolding m by simp
  have d: "distinct (map st_ID (fd_Steps sample_flow))" by (simp add: sample_flow_steps(1))
  obtain s' where "ex_failed s' = ex_failed ?s" "run_Status (ex_run (exec_finalize (\<lambda>e. 0) 9 s')) = RunCompleted"
    using resume_forgets_failure [OF refl u i d] by blast
  then show ?thesis using m(2) by (intro exI [of _ s']) simp
qed

end
