(* ===== verification/Flow_Runs.thy ===== *)
theory Flow_Runs
  imports Flow_Engine Cluster
begin

text \<open>
  The records of flow runs (\<open>internal/flow/run.go\<close>), which runs are resumed when a node becomes the
  coordinator (\<open>engine.go\<close>, \<open>coordinator.go\<close>), and the safety of what a step is given
  (\<open>runner.go\<close>). The directory of runs is a map from IDs; \<open>ks\<close> is the order in which the directory
  is read.
\<close>

type_synonym run_store = "string \<rightharpoonup> FlowRun"

section \<open>Records of runs\<close>

definition maxRunsPerFlow :: nat where "maxRunsPerFlow = 100"

definition newer_run :: "FlowRun \<Rightarrow> FlowRun \<Rightarrow> bool" where
  "newer_run a b \<longleftrightarrow> run_StartedAt a > run_StartedAt b"

definition stored_runs :: "string list \<Rightarrow> run_store \<Rightarrow> FlowRun list" where
  "stored_runs ks m = map (\<lambda>k. the (m k)) ks"

definition pruneOldRuns :: "string list \<Rightarrow> string \<Rightarrow> nat \<Rightarrow> run_store \<Rightarrow> run_store" where
  "pruneOldRuns ks flowID maxRuns m =
     (let entries = filter (\<lambda>k. run_FlowID (the (m k)) = flowID) ks
      in if length entries \<le> maxRuns then m
         else let sorted = slice_sort (\<lambda>a b. newer_run (the (m a)) (the (m b))) entries
              in foldl (\<lambda>m k. m(k := None)) m (drop maxRuns sorted))"

datatype RunError = RunIDRequired | RunNotFound string

definition CreateRun :: "string list \<Rightarrow> FlowRun \<Rightarrow> run_store \<Rightarrow> RunError option \<times> run_store" where
  "CreateRun ks run m =
     (if run_ID run = [] then (Some RunIDRequired, m)
      else (None, pruneOldRuns ks (run_FlowID run) maxRunsPerFlow (m(run_ID run \<mapsto> run))))"

definition UpdateRun_store :: "FlowRun \<Rightarrow> run_store \<Rightarrow> RunError option \<times> run_store" where
  "UpdateRun_store run m =
     (if m (run_ID run) = None then (Some (RunNotFound (run_ID run)), m) else (None, m(run_ID run \<mapsto> run)))"

definition GetRun :: "string \<Rightarrow> run_store \<Rightarrow> RunError + FlowRun" where
  "GetRun i m = (case m i of None \<Rightarrow> Inl (RunNotFound i) | Some run \<Rightarrow> Inr run)"

definition ListRuns :: "string list \<Rightarrow> string \<Rightarrow> run_store \<Rightarrow> FlowRun list" where
  "ListRuns ks flowID m =
     take 50 (slice_sort newer_run (filter (\<lambda>r. flowID = [] \<or> run_FlowID r = flowID) (stored_runs ks m)))"

definition DeleteRun :: "string \<Rightarrow> run_store \<Rightarrow> RunError option \<times> run_store" where
  "DeleteRun i m = (if m i = None then (Some (RunNotFound i), m) else (None, m(i := None)))"

lemma weak_order_newer: "weak_order (\<lambda>a b. newer_run (f a) (f b))"
proof -
  have eq: "(\<lambda>a b. newer_run (f a) (f b)) = (\<lambda>a b. - run_StartedAt (f a) < - run_StartedAt (f b))"
    by (simp add: newer_run_def fun_eq_iff)
  show ?thesis unfolding eq by (rule weak_order_key)
qed

lemma foldl_delete: "foldl (\<lambda>m k. m(k := None)) m xs = (\<lambda>k. if k \<in> set xs then None else m k)"
  by (induction xs arbitrary: m) (auto simp: fun_eq_iff)

lemma prune_result:
  assumes "map_order ks m"
  shows "length (filter (\<lambda>k. run_FlowID (the (m k)) = flowID \<and> pruneOldRuns ks flowID n m k \<noteq> None) ks) \<le> n"
    and "pruneOldRuns ks flowID n m k = Some r \<Longrightarrow> m k = Some r"
    and "m k = Some r \<Longrightarrow> pruneOldRuns ks flowID n m k = None \<Longrightarrow> run_FlowID r = flowID \<and>
      (\<forall>k' r'. pruneOldRuns ks flowID n m k' = Some r' \<longrightarrow> run_FlowID r' = flowID \<longrightarrow> \<not> newer_run r r')"
proof -
  let ?f = "\<lambda>k. run_FlowID (the (m k)) = flowID"
  let ?e = "filter ?f ks"
  let ?lt = "\<lambda>a b. newer_run (the (m a)) (the (m b))"
  let ?sorted = "slice_sort ?lt ?e"
  let ?m = "pruneOldRuns ks flowID n m"
  have m: "?m = (if length ?e \<le> n then m else (\<lambda>k. if k \<in> set (drop n ?sorted) then None else m k))"
    by (simp add: pruneOldRuns_def Let_def foldl_delete)
  have len: "length ?sorted = length ?e" by (metis mset_slice_sort size_mset)
  have d: "distinct ?sorted" using assms by (metis distinct_filter map_order_def mset_eq_imp_distinct_iff mset_slice_sort)
  have st: "set ?sorted = set ?e" by simp
  have split: "set (take n ?sorted) \<union> set (drop n ?sorted) = set ?e" by (metis append_take_drop_id set_append st)
  show "length (filter (\<lambda>k. ?f k \<and> ?m k \<noteq> None) ks) \<le> n"
  proof (cases "length ?e \<le> n")
    case True
    have "length (filter (\<lambda>k. ?f k \<and> Q k) xs) \<le> length (filter ?f xs)" for Q xs by (induction xs) auto
    from this [of "\<lambda>k. ?m k \<noteq> None" ks] show ?thesis using True by simp
  next
    case False
    have dk: "distinct ks" using assms by (simp add: map_order_def)
    have "set (filter (\<lambda>k. ?f k \<and> ?m k \<noteq> None) ks) \<subseteq> set (take n ?sorted)"
      using False split by (auto simp: m split: if_splits)
    then have "card (set (filter (\<lambda>k. ?f k \<and> ?m k \<noteq> None) ks)) \<le> card (set (take n ?sorted))" by (rule card_mono [rotated]) simp
    also have "\<dots> \<le> n" using card_length [of "take n ?sorted"] by simp
    finally show ?thesis using distinct_card [OF distinct_filter [OF dk]] by metis
  qed
  show "?m k = Some r \<Longrightarrow> m k = Some r" by (auto simp: m split: if_splits)
  assume k: "m k = Some r" "?m k = None"
  then have del: "\<not> length ?e \<le> n" "k \<in> set (drop n ?sorted)" by (auto simp: m split: if_splits)
  then have "?f k" using split by auto
  moreover have "\<not> newer_run r r'" if r': "?m k' = Some r'" "run_FlowID r' = flowID" for k' r'
  proof -
    have mk: "m k' = Some r'" "k' \<notin> set (drop n ?sorted)" using r'(1) del(1) by (auto simp: m split: if_splits)
    have "k' \<in> set ks" using mk(1) assms by (simp add: map_order_mem)
    then have "k' \<in> set ?e" using mk(1) r'(2) by simp
    then have "k' \<in> set (take n ?sorted)" using mk(2) split by blast
    moreover have "sorted_wrt (\<lambda>a b. \<not> ?lt b a) (take n ?sorted @ drop n ?sorted)"
      using slice_sorted_sort [OF weak_order_newer, of "\<lambda>k. the (m k)" ?e] by (simp add: slice_sorted_def)
    ultimately have "\<not> ?lt k k'" using del(2) unfolding sorted_wrt_append by blast
    then show ?thesis using k(1) mk(1) by simp
  qed
  ultimately show "run_FlowID r = flowID \<and> (\<forall>k' r'. ?m k' = Some r' \<longrightarrow> run_FlowID r' = flowID \<longrightarrow> \<not> newer_run r r')"
    using k(1) by auto
qed

section \<open>Runs that are resumed\<close>

text \<open>\<open>IsCoordinator\<close> and \<open>checkElection\<close>: a node starts the engine when it becomes coordinator.\<close>

definition IsCoordinator :: "string list \<Rightarrow> Manager \<Rightarrow> string \<Rightarrow> bool" where
  "IsCoordinator ks m selfID = (CoordinatorID ks m = [] \<or> CoordinatorID ks m = selfID)"

datatype election = StartEngine | StopEngine | NoChange

definition checkElection :: "string list \<Rightarrow> Manager \<Rightarrow> string \<Rightarrow> bool \<Rightarrow> election" where
  "checkElection ks m selfID running =
     (let isLeader = IsCoordinator ks m selfID
      in if isLeader \<and> \<not> running then StartEngine else if \<not> isLeader \<and> running then StopEngine else NoChange)"

text \<open>\<open>resumeIncompleteRuns\<close>: a run whose flow is gone is closed, the others are executed again.\<close>

definition orphan_run :: "time \<Rightarrow> FlowRun \<Rightarrow> FlowRun" where
  "orphan_run now run = run\<lparr>run_FinishedAt := Some now, run_Status := RunFailed, run_Error := ''flow definition no longer exists''\<rparr>"

definition resumeIncompleteRuns :: "time \<Rightarrow> string list \<Rightarrow> flow_store \<Rightarrow> run_store \<Rightarrow> (FlowRun \<times> FlowDefinition) list \<times> run_store" where
  "resumeIncompleteRuns now ks flows m =
     foldl (\<lambda>(resumed, m) run.
        if run_Status run = RunRunning then
          (case GetFlow (run_FlowID run) flows of
             Inl e \<Rightarrow> (resumed, snd (UpdateRun_store (orphan_run now run) m))
           | Inr flow \<Rightarrow> (resumed @ [(run, flow)], m))
        else (resumed, m)) ([], m) (ListRuns ks [] m)"

lemma resumed_listed:
  "r \<in> fst ` set (fst (foldl (\<lambda>(resumed, m) run.
        if run_Status run = RunRunning then
          (case GetFlow (run_FlowID run) flows of
             Inl e \<Rightarrow> (resumed, snd (UpdateRun_store (orphan_run now run) m))
           | Inr flow \<Rightarrow> (resumed @ [(run, flow)], m))
        else (resumed, m)) (acc, m) rs)) \<longleftrightarrow>
    r \<in> fst ` set acc \<or> r \<in> set rs \<and> run_Status r = RunRunning \<and> flows (run_FlowID r) \<noteq> None"
proof (induction rs arbitrary: acc m)
  case (Cons x xs)
  show ?case
    by (cases "run_Status x = RunRunning"; cases "flows (run_FlowID x)") (auto simp: Cons GetFlow_def image_Un)
qed simp

lemma not_among_newest:
  assumes "card {x \<in> set xs. newer_run x r} \<ge> n"
  shows "r \<notin> set (take n (slice_sort newer_run xs))"
proof
  let ?s = "slice_sort newer_run xs"
  assume "r \<in> set (take n ?s)"
  then obtain i where i: "i < n" "i < length ?s" "?s ! i = r" by (auto simp: in_set_conv_nth)
  have sorted: "sorted_wrt (\<lambda>a b. \<not> newer_run b a) ?s"
    using slice_sorted_sort [OF weak_order_newer, of "\<lambda>r. r" xs] by (simp add: slice_sorted_def)
  have "{x \<in> set xs. newer_run x r} \<subseteq> set (take i ?s)"
  proof
    fix x
    assume "x \<in> {x \<in> set xs. newer_run x r}"
    then have x: "x \<in> set ?s" "newer_run x r" by simp_all
    from x(1) obtain j where j: "j < length ?s" "?s ! j = x" unfolding in_set_conv_nth by blast
    have "j < i"
    proof (rule ccontr)
      assume "\<not> j < i"
      then consider "j = i" | "i < j" by linarith
      then show False
      proof cases
        case 1
        then show False using x(2) i(3) j(2) by (simp add: newer_run_def)
      next
        case 2
        then show False using sorted_wrt_nth_less [OF sorted 2 j(1)] i(3) j(2) x(2) by simp
      qed
    qed
    then show "x \<in> set (take i ?s)" using j by (auto simp: in_set_conv_nth)
  qed
  then have "card {x \<in> set xs. newer_run x r} \<le> card (set (take i ?s))" by (rule card_mono [rotated]) simp
  also have "\<dots> \<le> i" using card_length [of "take i ?s"] by simp
  finally show False using assms i(1) by simp
qed

text \<open>
  Resuming looks at the fifty latest runs of all flows. An interrupted run with fifty later
  runs, of whatever flow and state, is never executed again: it stays on record as running.
\<close>

theorem resume_misses_old_runs:
  assumes "map_order ks m" and "m k = Some r"
    and "card {x \<in> ran m. newer_run x r} \<ge> 50"
  shows "r \<notin> fst ` set (fst (resumeIncompleteRuns now ks flows m))"
proof -
  have "set (stored_runs ks m) = ran m"
    using assms(1) by (auto simp: stored_runs_def map_order_def ran_def image_iff) (metis domI option.sel)+
  then have "r \<notin> set (ListRuns ks [] m)" using not_among_newest [where n = 50 and xs = "stored_runs ks m" and r = r] assms(3) by (simp add: ListRuns_def)
  then show ?thesis unfolding resumeIncompleteRuns_def by (simp add: resumed_listed)
qed

text \<open>
  Creating a run keeps at most a hundred records of its flow; those dropped are of that flow and
  none is later than one that is kept, and records of other flows stay.
\<close>

theorem CreateRun_prunes:
  assumes "map_order ks (m(run_ID run \<mapsto> run))" and "CreateRun ks run m = (None, m')"
  shows "length (filter (\<lambda>k. run_FlowID (the (m' k)) = run_FlowID run \<and> m' k \<noteq> None) ks) \<le> 100 \<and>
    (\<forall>k r. (m(run_ID run \<mapsto> run)) k = Some r \<longrightarrow> m' k = None \<longrightarrow> run_FlowID r = run_FlowID run \<and>
      (\<forall>k' r'. m' k' = Some r' \<longrightarrow> run_FlowID r' = run_FlowID run \<longrightarrow> \<not> newer_run r r'))"
proof -
  let ?m = "m(run_ID run \<mapsto> run)"
  have m': "m' = pruneOldRuns ks (run_FlowID run) 100 ?m"
    using assms(2) by (simp add: CreateRun_def maxRunsPerFlow_def split: if_splits)
  note p = prune_result [OF assms(1), where flowID = "run_FlowID run" and n = 100, folded m']
  have "run_FlowID (the (m' k)) = run_FlowID run \<and> m' k \<noteq> None \<longleftrightarrow> run_FlowID (the (?m k)) = run_FlowID run \<and> m' k \<noteq> None" for k
    using p(2) [of k] by (cases "m' k") auto
  then show ?thesis using p(1,3) by simp
qed

definition numbered_run :: "nat \<Rightarrow> FlowRun" where
  "numbered_run n = \<lparr>run_ID = show_nat n, run_FlowID = ''f'', run_FlowName = ''f'', run_Status = (if n = 0 then RunRunning else RunCompleted),
     run_Trigger = ''manual'', run_Steps = [], run_StartedAt = int n, run_FinishedAt = None, run_Error = []\<rparr>"

definition numbered_runs :: "(string \<times> FlowRun) list" where
  "numbered_runs = map (\<lambda>n. (replicate n CHR ''x'', numbered_run n)) [0..<51]"

lemma numbered_runs_store:
  "map_order (map fst numbered_runs) (map_of numbered_runs)" "ran (map_of numbered_runs) = numbered_run ` {0..<51}"
  "map_of numbered_runs [] = Some (numbered_run 0)"
proof -
  have d: "distinct (map fst numbered_runs)"
    unfolding numbered_runs_def by (auto simp: distinct_map inj_on_def dest: arg_cong [where f = length])
  then show "map_order (map fst numbered_runs) (map_of numbered_runs)" by (simp add: map_order_def dom_map_of_conv_image_fst)
  show "ran (map_of numbered_runs) = numbered_run ` {0..<51}"
    unfolding ran_distinct [OF d] by (simp add: numbered_runs_def image_image)
  have "([], numbered_run 0) \<in> set numbered_runs" by (auto simp: numbered_runs_def image_iff intro!: bexI [of _ 0])
  then show "map_of numbered_runs [] = Some (numbered_run 0)" using d by simp
qed

theorem resume_misses_old_runs_witness:
  "run_Status (numbered_run 0) = RunRunning \<and>
   numbered_run 0 \<notin> fst ` set (fst (resumeIncompleteRuns 9 (map fst numbered_runs) Map.empty (map_of numbered_runs)))"
proof -
  have "numbered_run ` {1..50} \<subseteq> {x \<in> ran (map_of numbered_runs). newer_run x (numbered_run 0)}"
    unfolding numbered_runs_store(2) by (auto simp: newer_run_def numbered_run_def)
  moreover have "card (numbered_run ` {1..50}) = 50"
  proof -
    have "inj_on numbered_run {1..50}" by (auto simp: inj_on_def numbered_run_def)
    then show ?thesis by (simp add: card_image)
  qed
  moreover have "finite {x \<in> ran (map_of numbered_runs). newer_run x (numbered_run 0)}"
    unfolding numbered_runs_store(2) by simp
  ultimately have "50 \<le> card {x \<in> ran (map_of numbered_runs). newer_run x (numbered_run 0)}" by (metis card_mono)
  from resume_misses_old_runs [OF numbered_runs_store(1,3) this] show ?thesis by (simp add: numbered_run_def)
qed

theorem CreateRun_prunes_witness:
  "\<exists>m'. CreateRun [''r''] sample_run Map.empty = (None, m') \<and>
     length (filter (\<lambda>k. run_FlowID (the (m' k)) = ''f'' \<and> m' k \<noteq> None) [''r'']) \<le> 100"
proof -
  obtain e m' where c: "CreateRun [''r''] sample_run Map.empty = (e, m')" by force
  then have "CreateRun [''r''] sample_run Map.empty = (None, m')" by (auto simp: CreateRun_def sample_run_def)
  moreover have "map_order [''r''] (Map.empty(run_ID sample_run \<mapsto> sample_run))" by (simp add: map_order_def sample_run_def)
  ultimately show ?thesis using CreateRun_prunes [where ks = "[''r'']" and run = sample_run and m = Map.empty and m' = m']
    by (simp add: sample_run_def)
qed

section \<open>What a step is given\<close>

definition upper_char :: "char \<Rightarrow> char" where
  "upper_char c = (let n = of_char c :: nat in if 97 \<le> n \<and> n \<le> 122 then char_of (n - 32) else c)"

definition sanitize_char :: "char \<Rightarrow> char" where
  "sanitize_char c = (let u = upper_char c; n = of_char u :: nat
     in if 65 \<le> n \<and> n \<le> 90 \<or> 48 \<le> n \<and> n \<le> 57 then u else CHR ''_'')"

text \<open>\<open>sanitizeEnvKey\<close>, on ASCII, and the name of the variable that holds an output.\<close>

definition sanitizeEnvKey :: "string \<Rightarrow> string" where
  "sanitizeEnvKey s = map sanitize_char s"

definition step_env_name :: "string \<Rightarrow> string \<Rightarrow> string" where
  "step_env_name stepID field = ''STEP_'' @ sanitizeEnvKey stepID @ ''_'' @ sanitizeEnvKey field"

definition step_placeholder :: "string \<Rightarrow> string \<Rightarrow> string" where
  "step_placeholder stepID field = ''$'' @ step_env_name stepID field"

datatype PathError = AbsolutePath string | PathTraversal string

definition validateStoragePath :: "string \<Rightarrow> string \<Rightarrow> PathError option" where
  "validateStoragePath storageRoot path =
     (if storageRoot = [] then None
      else if starts_with ''/'' path then Some (AbsolutePath path)
      else let root = filepath_Clean storageRoot;
               clean = filepath_Join root (filepath_Clean path);
               rel = filepath_Rel root clean
           in if starts_with ''..'' rel then Some (PathTraversal path) else None)"

definition shell_safe :: "char \<Rightarrow> bool" where
  "shell_safe c \<longleftrightarrow> (let n = of_char c :: nat in 65 \<le> n \<and> n \<le> 90 \<or> 48 \<le> n \<and> n \<le> 57 \<or> n = 95)"

text \<open>The text put into a shell command for an output is a \<open>$\<close> and characters the shell does not interpret.\<close>

lemma step_placeholder_safe: "hd (step_placeholder i f) = CHR ''$'' \<and> (\<forall>c \<in> set (tl (step_placeholder i f)). shell_safe c)"
proof -
  have "shell_safe (sanitize_char c)" for c by (auto simp: shell_safe_def sanitize_char_def Let_def)
  moreover have "shell_safe CHR ''_''" "shell_safe CHR ''S''" "shell_safe CHR ''T''" "shell_safe CHR ''E''" "shell_safe CHR ''P''"
    by (simp_all add: shell_safe_def)
  ultimately show ?thesis by (auto simp: step_placeholder_def step_env_name_def sanitizeEnvKey_def)
qed

text \<open>Steps whose IDs differ in punctuation or case share a variable: one output hides the other.\<close>

lemma step_env_collision: "step_env_name ''fetch-data'' ''output'' = step_env_name ''fetch_data'' ''output''"
  by code_simp

lemma validateStoragePath_inside:
  assumes "validateStoragePath storageRoot path = None" and "storageRoot \<noteq> []"
  shows "\<exists>rest. path_comps (filepath_Join (filepath_Clean storageRoot) (filepath_Clean path)) =
    path_comps (filepath_Clean storageRoot) @ rest"
  using assms by (intro filepath_Rel_inside) (auto simp: validateStoragePath_def Let_def split: if_splits)

end
