(* ===== verification/Gpu_Budget.thy ===== *)
theory Gpu_Budget
  imports Go_Strings
begin

text \<open>
  \<open>internal/gpu/budget\<close>, \<open>preempt\<close> and \<open>recovery\<close>, and \<open>VRAMStats\<close> of \<open>internal/gpu/backend\<close>: the
  memory budget of one device. What the driver reports is an argument, as are the clock, the new
  reservation's UUID and the order of a \<open>range\<close>. Sums of bytes are \<open>int64\<close> and wrap (\<open>i64\<close>). A
  function registered for a task is the event of calling it; whether suspending works is an input.
\<close>

section \<open>What the driver reports\<close>

record VRAMStats =
  vs_DeviceIndex :: int
  vs_Total :: int
  vs_Used :: int
  vs_Free :: int
  vs_Reserved :: int
  vs_Fragmentation :: int
  vs_Timestamp :: time

definition EffectiveFree :: "VRAMStats \<Rightarrow> int" where
  "EffectiveFree v =
     (let effective = i64 (i64 (vs_Free v - vs_Reserved v) - vs_Fragmentation v)
      in if effective < 0 then 0 else effective)"

section \<open>Reservations\<close>

datatype ReservationStatus = StatusPending | StatusActive | StatusReleased | StatusExpired | StatusEvicted

record Reservation =
  rv_ID :: string
  rv_DeviceIndex :: int
  rv_BytesReserved :: int
  rv_TaskID :: string
  rv_TaskType :: string
  rv_Priority :: int
  rv_Status :: ReservationStatus
  rv_CreatedAt :: time
  rv_ActivatedAt :: time
  rv_ReleasedAt :: time
  rv_ExpiresAt :: time

definition MB :: int where "MB = 1048576"
definition GB :: int where "GB = 1073741824"

text \<open>\<open>VRAMEstimator\<close>; the product with 1.35 is taken exactly, then truncated.\<close>

definition ForLLM :: "int \<Rightarrow> int" where
  "ForLLM modelSizeBytes = (modelSizeBytes * 27) sdiv 20"

definition ForImageGen :: "string \<Rightarrow> int \<Rightarrow> int \<Rightarrow> int" where
  "ForImageGen modelName width height =
     (let pixels = i64 (width * height); name = to_lower modelName
      in if contains name ''flux'' then 12 * GB
         else if contains name ''sdxl'' then (if pixels \<ge> 1024 * 1024 then 8 * GB else 6 * GB)
         else if contains name ''sd3'' then 8 * GB
         else 6 * GB)"

definition ForEmbedding :: int where "ForEmbedding = 512 * MB"

section \<open>The manager of a device\<close>

definition reservationTimeout :: duration where "reservationTimeout = 60 * second"
definition safetyMarginBytes :: int where "safetyMarginBytes = 256 * MB"

record Budget =
  bm_deviceIndex :: int
  bm_reservations :: "string \<rightharpoonup> Reservation"

definition NewBudget :: "int \<Rightarrow> Budget" where
  "NewBudget deviceIndex = \<lparr>bm_deviceIndex = deviceIndex, bm_reservations = Map.empty\<rparr>"

datatype BudgetError =
    VRAMStatsFailed
  | InsufficientVRAM int int int int int
  | ReservationNotFound string
  | ReservationNotPending string ReservationStatus
  | NoBudgetManager int
  | ThermallyThrottled
  | NoGPUDevices

definition live :: "Reservation \<Rightarrow> bool" where
  "live r = (rv_Status r = StatusPending \<or> rv_Status r = StatusActive)"

definition pendingBytesLocked :: "string list \<Rightarrow> Budget \<Rightarrow> int" where
  "pendingBytesLocked ks b =
     foldl (\<lambda>acc k. case bm_reservations b k of
        None \<Rightarrow> acc
      | Some r \<Rightarrow> if live r then i64 (acc + rv_BytesReserved r) else acc) 0 ks"

definition Reserve ::
  "time \<Rightarrow> string list \<Rightarrow> string \<Rightarrow> VRAMStats option \<Rightarrow> string \<Rightarrow> string \<Rightarrow> int \<Rightarrow> int \<Rightarrow> Budget \<Rightarrow>
    (BudgetError + Reservation) \<times> Budget" where
  "Reserve now ks uuid st taskID taskType bytesNeeded priority b =
     (case st of
        None \<Rightarrow> (Inl VRAMStatsFailed, b)
      | Some stats \<Rightarrow>
          (let pendingReserved = pendingBytesLocked ks b;
               available = i64 (i64 (EffectiveFree stats - pendingReserved) - safetyMarginBytes)
           in if available < bytesNeeded then
                (Inl (InsufficientVRAM (bm_deviceIndex b) bytesNeeded available (vs_Total stats)
                   (i64 (vs_Used stats + pendingReserved))), b)
              else
                (let r = \<lparr>rv_ID = uuid, rv_DeviceIndex = bm_deviceIndex b, rv_BytesReserved = bytesNeeded,
                       rv_TaskID = taskID, rv_TaskType = taskType, rv_Priority = priority, rv_Status = StatusPending,
                       rv_CreatedAt = now, rv_ActivatedAt = zero_time, rv_ReleasedAt = zero_time,
                       rv_ExpiresAt = now + reservationTimeout\<rparr>
                 in (Inr r, b\<lparr>bm_reservations := (bm_reservations b)(uuid \<mapsto> r)\<rparr>))))"

definition Activate :: "time \<Rightarrow> string \<Rightarrow> Budget \<Rightarrow> BudgetError option \<times> Budget" where
  "Activate now rid b =
     (case bm_reservations b rid of
        None \<Rightarrow> (Some (ReservationNotFound rid), b)
      | Some r \<Rightarrow>
          if rv_Status r \<noteq> StatusPending then (Some (ReservationNotPending rid (rv_Status r)), b)
          else (None, b\<lparr>bm_reservations := (bm_reservations b)(rid \<mapsto> r\<lparr>rv_Status := StatusActive, rv_ActivatedAt := now\<rparr>)\<rparr>))"

definition Release :: "time \<Rightarrow> string \<Rightarrow> Budget \<Rightarrow> Budget" where
  "Release now rid b =
     (case bm_reservations b rid of
        None \<Rightarrow> b
      | Some r \<Rightarrow>
          if rv_Status r = StatusReleased \<or> rv_Status r = StatusExpired then b
          else b\<lparr>bm_reservations := (bm_reservations b)(rid \<mapsto> r\<lparr>rv_Status := StatusReleased, rv_ReleasedAt := now\<rparr>)\<rparr>)"

text \<open>The expiry loop changes each reservation on its own, so the order of its \<open>range\<close> is immaterial.\<close>

definition expire_reservation :: "time \<Rightarrow> Reservation \<Rightarrow> Reservation" where
  "expire_reservation now r =
     (if rv_Status r = StatusPending \<and> rv_ExpiresAt r < now then r\<lparr>rv_Status := StatusExpired\<rparr> else r)"

definition expireOldReservations :: "time \<Rightarrow> Budget \<Rightarrow> Budget" where
  "expireOldReservations now b = b\<lparr>bm_reservations := map_option (expire_reservation now) \<circ> bm_reservations b\<rparr>"

definition lower_active :: "Reservation option \<Rightarrow> Reservation \<Rightarrow> Reservation option" where
  "lower_active lowest r =
     (if rv_Status r \<noteq> StatusActive then lowest
      else (case lowest of None \<Rightarrow> Some r | Some l \<Rightarrow> if rv_Priority r < rv_Priority l then Some r else lowest))"

definition LowestPriorityActive :: "string list \<Rightarrow> Budget \<Rightarrow> Reservation option" where
  "LowestPriorityActive ks b =
     foldl (\<lambda>lowest k. case bm_reservations b k of None \<Rightarrow> lowest | Some r \<Rightarrow> lower_active lowest r) None ks"

record BudgetStats =
  bs_ActiveReservations :: int
  bs_PendingReservations :: int
  bs_ActiveBytes :: int
  bs_PendingBytes :: int

definition stats_add :: "BudgetStats \<Rightarrow> Reservation \<Rightarrow> BudgetStats" where
  "stats_add s r =
     (case rv_Status r of
        StatusPending \<Rightarrow> s\<lparr>bs_PendingBytes := i64 (bs_PendingBytes s + rv_BytesReserved r), bs_PendingReservations := bs_PendingReservations s + 1\<rparr>
      | StatusActive \<Rightarrow> s\<lparr>bs_ActiveBytes := i64 (bs_ActiveBytes s + rv_BytesReserved r), bs_ActiveReservations := bs_ActiveReservations s + 1\<rparr>
      | _ \<Rightarrow> s)"

definition Budget_Stats :: "string list \<Rightarrow> Budget \<Rightarrow> BudgetStats" where
  "Budget_Stats ks b =
     foldl (\<lambda>s k. case bm_reservations b k of None \<Rightarrow> s | Some r \<Rightarrow> stats_add s r)
       \<lparr>bs_ActiveReservations = 0, bs_PendingReservations = 0, bs_ActiveBytes = 0, bs_PendingBytes = 0\<rparr> ks"

section \<open>Preemption\<close>

record Preemptor =
  pr_manager :: Budget
  pr_cancelFuncs :: "string set"
  pr_suspendFuncs :: "string set"

definition NewPreemptor :: "Budget \<Rightarrow> Preemptor" where
  "NewPreemptor b = \<lparr>pr_manager = b, pr_cancelFuncs = {}, pr_suspendFuncs = {}\<rparr>"

definition RegisterTask :: "string \<Rightarrow> bool \<Rightarrow> Preemptor \<Rightarrow> Preemptor" where
  "RegisterTask taskID has_suspend p =
     p\<lparr>pr_cancelFuncs := insert taskID (pr_cancelFuncs p),
       pr_suspendFuncs := (if has_suspend then insert taskID (pr_suspendFuncs p) else pr_suspendFuncs p)\<rparr>"

definition DeregisterTask :: "string \<Rightarrow> Preemptor \<Rightarrow> Preemptor" where
  "DeregisterTask taskID p =
     p\<lparr>pr_cancelFuncs := pr_cancelFuncs p - {taskID}, pr_suspendFuncs := pr_suspendFuncs p - {taskID}\<rparr>"

datatype preempt_method = Suspended | Cancelled

datatype PreemptError =
    NoActiveReservations
  | RequesterTooLow int int
  | FallbackCancelFailed string
  | NoFunction string

record PreemptResult =
  ps_PreemptedTaskID :: string
  ps_FreedBytes :: int
  ps_Method :: preempt_method

text \<open>How the victim is stopped, from its functions and whether suspending it works.\<close>

definition stop_victim :: "string \<Rightarrow> bool \<Rightarrow> Preemptor \<Rightarrow> PreemptError + preempt_method" where
  "stop_victim taskID suspend_ok p =
     (if taskID \<in> pr_suspendFuncs p then
        (if suspend_ok then Inr Suspended
         else if taskID \<in> pr_cancelFuncs p then Inr Cancelled
         else Inl (FallbackCancelFailed taskID))
      else if taskID \<in> pr_cancelFuncs p then Inr Cancelled
      else Inl (NoFunction taskID))"

definition Preempt :: "time \<Rightarrow> string list \<Rightarrow> int \<Rightarrow> bool \<Rightarrow> Preemptor \<Rightarrow> (PreemptError + PreemptResult) \<times> Preemptor" where
  "Preempt now ks requesterPriority suspend_ok p =
     (case LowestPriorityActive ks (pr_manager p) of
        None \<Rightarrow> (Inl NoActiveReservations, p)
      | Some candidate \<Rightarrow>
          if requesterPriority \<le> rv_Priority candidate then
            (Inl (RequesterTooLow requesterPriority (rv_Priority candidate)), p)
          else
            (case stop_victim (rv_TaskID candidate) suspend_ok p of
               Inl e \<Rightarrow> (Inl e, p)
             | Inr method \<Rightarrow>
                 (Inr \<lparr>ps_PreemptedTaskID = rv_TaskID candidate, ps_FreedBytes = rv_BytesReserved candidate, ps_Method = method\<rparr>,
                  p\<lparr>pr_manager := Release now (rv_ID candidate) (pr_manager p)\<rparr>)))"

section \<open>Recovery from exhausted memory\<close>

definition criticalThreshold :: "string \<Rightarrow> int" where
  "criticalThreshold backend = (if backend = ''metal'' then 512 * MB else 256 * MB)"

datatype oom_cause = ActiveTasksOverBudget | HighFragmentation | UnknownCause

definition diagnoseCause :: "string list \<Rightarrow> VRAMStats \<Rightarrow> Budget \<Rightarrow> oom_cause" where
  "diagnoseCause ks v b =
     (if bs_ActiveBytes (Budget_Stats ks b) > i64 (vs_Total v * 8) sdiv 10 then ActiveTasksOverBudget
      else if vs_Fragmentation v > i64 (vs_Total v * 2) sdiv 10 then HighFragmentation
      else UnknownCause)"

datatype recovery_action = EvictedTask string | ClearedCache | RecoveryFailed

record RecoveryResult =
  rr_Cause :: oom_cause
  rr_Action :: recovery_action
  rr_Success :: bool

definition recover :: "time \<Rightarrow> string list \<Rightarrow> bool \<Rightarrow> bool \<Rightarrow> oom_cause \<Rightarrow> Preemptor \<Rightarrow> RecoveryResult \<times> Preemptor" where
  "recover now ks suspend_ok cache_ok cause p =
     (case Preempt now ks 999 suspend_ok p of
        (Inr res, p') \<Rightarrow> (\<lparr>rr_Cause = cause, rr_Action = EvictedTask (ps_PreemptedTaskID res), rr_Success = True\<rparr>, p')
      | (Inl e, p') \<Rightarrow>
          if cache_ok then (\<lparr>rr_Cause = cause, rr_Action = ClearedCache, rr_Success = True\<rparr>, p')
          else (\<lparr>rr_Cause = cause, rr_Action = RecoveryFailed, rr_Success = False\<rparr>, p'))"

definition Watcher_Check ::
  "time \<Rightarrow> string list \<Rightarrow> string \<Rightarrow> VRAMStats option \<Rightarrow> bool \<Rightarrow> bool \<Rightarrow> Preemptor \<Rightarrow> RecoveryResult option \<times> Preemptor" where
  "Watcher_Check now ks backend st suspend_ok cache_ok p =
     (case st of
        None \<Rightarrow> (None, p)
      | Some v \<Rightarrow>
          if vs_Free v > criticalThreshold backend then (None, p)
          else (let (res, p') = recover now ks suspend_ok cache_ok (diagnoseCause ks v (pr_manager p)) p in (Some res, p')))"

text \<open>The loop of \<open>Start\<close> looks only while active reservations hold memory.\<close>

definition Watcher_tick ::
  "time \<Rightarrow> string list \<Rightarrow> string \<Rightarrow> VRAMStats option \<Rightarrow> bool \<Rightarrow> bool \<Rightarrow> Preemptor \<Rightarrow> RecoveryResult option \<times> Preemptor" where
  "Watcher_tick now ks backend st suspend_ok cache_ok p =
     (if bs_ActiveBytes (Budget_Stats ks (pr_manager p)) > 0
      then Watcher_Check now ks backend st suspend_ok cache_ok p else (None, p))"

section \<open>Sums of bytes\<close>

lemma i64_add: "i64 (i64 a + b) = i64 (a + b)"
proof -
  have "((a + 2 ^ 63) mod 2 ^ 64 - 2 ^ 63 + b + 2 ^ 63) mod 2 ^ 64 = ((a + 2 ^ 63) mod 2 ^ 64 + b) mod (2 ^ 64 :: int)"
    by (simp add: algebra_simps)
  also have "\<dots> = (a + 2 ^ 63 + b) mod 2 ^ 64" by (rule mod_add_left_eq)
  finally show ?thesis unfolding i64_def by (simp add: algebra_simps)
qed

lemma EffectiveFree_range: "0 \<le> EffectiveFree v" "EffectiveFree v < 2 ^ 63"
  using i64_range(2) [of "i64 (vs_Free v - vs_Reserved v) - vs_Fragmentation v"] by (simp_all add: EffectiveFree_def Let_def)

definition held :: "Reservation option \<Rightarrow> int" where
  "held x = (case x of None \<Rightarrow> 0 | Some r \<Rightarrow> if live r then rv_BytesReserved r else 0)"

text \<open>The bytes that pending and active reservations hold.\<close>

definition live_bytes :: "Budget \<Rightarrow> int" where
  "live_bytes b = (\<Sum>k \<in> dom (bm_reservations b). held (bm_reservations b k))"

lemma pending_fold:
  "foldl (\<lambda>acc k. case m k of None \<Rightarrow> acc | Some r \<Rightarrow> if live r then i64 (acc + rv_BytesReserved r) else acc) (i64 a) ks =
   i64 (a + sum_list (map (\<lambda>k. held (m k)) ks))"
proof (induction ks arbitrary: a)
  case (Cons k ks)
  have "(case m k of None \<Rightarrow> i64 a | Some r \<Rightarrow> if live r then i64 (i64 a + rv_BytesReserved r) else i64 a) = i64 (a + held (m k))"
    by (simp add: held_def i64_add split: option.split)
  then show ?case using Cons [of "a + held (m k)"] by (simp add: algebra_simps)
qed simp

lemma pendingBytesLocked_eq:
  assumes "map_order ks (bm_reservations b)"
  shows "pendingBytesLocked ks b = i64 (live_bytes b)"
proof -
  have "i64 0 = 0" by (simp add: i64_def)
  then show ?thesis
    using pending_fold [of "bm_reservations b" 0 ks] map_order_sum_list [OF assms, of "\<lambda>k. held (bm_reservations b k)"]
    by (simp add: pendingBytesLocked_def live_bytes_def)
qed

lemma live_bytes_update:
  assumes "finite (dom (bm_reservations b))"
  shows "live_bytes (b\<lparr>bm_reservations := (bm_reservations b)(k \<mapsto> r)\<rparr>) =
    live_bytes b - held (bm_reservations b k) + held (Some r)"
proof -
  let ?m = "bm_reservations b"
  let ?D = "dom ?m - {k}"
  have same: "(\<Sum>x \<in> ?D. held ((?m(k \<mapsto> r)) x)) = (\<Sum>x \<in> ?D. held (?m x))" by (rule sum.cong) auto
  have "live_bytes (b\<lparr>bm_reservations := ?m(k \<mapsto> r)\<rparr>) = (\<Sum>x \<in> insert k (dom ?m). held ((?m(k \<mapsto> r)) x))"
    by (simp add: live_bytes_def)
  also have "\<dots> = held ((?m(k \<mapsto> r)) k) + (\<Sum>x \<in> ?D. held ((?m(k \<mapsto> r)) x))" by (rule sum.insert_remove [OF assms])
  finally have new: "live_bytes (b\<lparr>bm_reservations := ?m(k \<mapsto> r)\<rparr>) = held (Some r) + (\<Sum>x \<in> ?D. held (?m x))"
    unfolding same by simp
  have "live_bytes b = held (?m k) + (\<Sum>x \<in> ?D. held (?m x))"
  proof (cases "k \<in> dom ?m")
    case True
    then show ?thesis unfolding live_bytes_def using sum.remove [OF assms True, of "\<lambda>x. held (?m x)"] by simp
  next
    case False
    then have "?m k = None" and "?D = dom ?m" by (auto simp: domIff)
    then show ?thesis by (simp add: live_bytes_def held_def)
  qed
  then show ?thesis using new by simp
qed

section \<open>What operations do to the sum\<close>

lemma expire_dom [simp]: "dom (bm_reservations (expireOldReservations now b)) = dom (bm_reservations b)"
  by (simp add: expireOldReservations_def)

lemma Reserve_live:
  assumes "finite (dom (bm_reservations b))" and "bm_reservations b uuid = None"
    and "Reserve now ks uuid st taskID ty bytes prio b = (r, b')"
  shows "live_bytes b' = live_bytes b + (case r of Inl _ \<Rightarrow> 0 | Inr _ \<Rightarrow> bytes)"
  using assms(3) live_bytes_update [OF assms(1), of uuid] assms(2)
  by (auto simp: Reserve_def Let_def held_def live_def split: option.splits if_splits)

lemma Activate_live: "finite (dom (bm_reservations b)) \<Longrightarrow> live_bytes (snd (Activate now rid b)) = live_bytes b"
  using live_bytes_update [of b rid] by (auto simp: Activate_def held_def live_def split: option.split)

lemma Release_live:
  assumes "finite (dom (bm_reservations b))"
  shows "live_bytes (Release now rid b) = live_bytes b - held (bm_reservations b rid)"
proof (cases "bm_reservations b rid")
  case None
  then show ?thesis by (simp add: Release_def held_def)
next
  case (Some r)
  then show ?thesis using live_bytes_update [OF assms, of rid]
    by (cases "rv_Status r") (simp_all add: Release_def held_def live_def)
qed

lemma expire_live:
  assumes "\<forall>r \<in> ran (bm_reservations b). 0 \<le> rv_BytesReserved r"
  shows "live_bytes (expireOldReservations now b) \<le> live_bytes b"
  unfolding live_bytes_def expire_dom
proof (rule sum_mono)
  fix k assume "k \<in> dom (bm_reservations b)"
  then obtain r where r: "bm_reservations b k = Some r" by auto
  then have "0 \<le> rv_BytesReserved r" using assms by (auto simp: ran_def)
  then show "held (bm_reservations (expireOldReservations now b) k) \<le> held (bm_reservations b k)"
    using r by (auto simp: expireOldReservations_def expire_reservation_def held_def live_def)
qed

section \<open>Histories of a budget\<close>

text \<open>
  One call on the budget of a device on which the driver never reports more than \<open>F\<close> bytes free:
  a UUID is new, the bytes asked for are not negative.
\<close>

inductive budget_step :: "int \<Rightarrow> Budget \<Rightarrow> Budget \<Rightarrow> bool" for F where
  Reserves: "map_order ks (bm_reservations b) \<Longrightarrow> bm_reservations b uuid = None \<Longrightarrow> 0 \<le> bytes \<Longrightarrow>
    (\<forall>v. st = Some v \<longrightarrow> EffectiveFree v \<le> F) \<Longrightarrow>
    budget_step F b (snd (Reserve now ks uuid st taskID ty bytes prio b))"
| Activates: "budget_step F b (snd (Activate now rid b))"
| Releases: "budget_step F b (Release now rid b)"
| Expires: "budget_step F b (expireOldReservations now b)"

abbreviation budget_steps :: "int \<Rightarrow> Budget \<Rightarrow> Budget \<Rightarrow> bool" where
  "budget_steps F \<equiv> (budget_step F)\<^sup>*\<^sup>*"

definition budget_inv :: "int \<Rightarrow> Budget \<Rightarrow> bool" where
  "budget_inv F b \<longleftrightarrow> finite (dom (bm_reservations b)) \<and>
     (\<forall>k r. bm_reservations b k = Some r \<longrightarrow> rv_ID r = k \<and> 0 \<le> rv_BytesReserved r) \<and>
     live_bytes b \<le> max 0 (F - safetyMarginBytes)"

lemma live_bytes_nonneg: "budget_inv F b \<Longrightarrow> 0 \<le> live_bytes b"
  unfolding live_bytes_def by (intro sum_nonneg) (auto simp: budget_inv_def held_def split: option.split)

lemma budget_inv_exact:
  assumes "budget_inv F b" and "F < 2 ^ 63" and "map_order ks (bm_reservations b)"
  shows "pendingBytesLocked ks b = live_bytes b"
proof -
  have "live_bytes b < 2 ^ 63" using assms(1,2) by (auto simp: budget_inv_def safetyMarginBytes_def MB_def)
  then show ?thesis
    using live_bytes_nonneg [OF assms(1)] by (simp add: pendingBytesLocked_eq [OF assms(3)] i64_id)
qed

lemma Reserve_accepts:
  assumes "budget_inv F b" and "F < 2 ^ 63" and "map_order ks (bm_reservations b)" and "EffectiveFree v \<le> F"
  shows "(\<exists>r. fst (Reserve now ks uuid (Some v) taskID ty bytes prio b) = Inr r) \<longleftrightarrow>
    live_bytes b + bytes + safetyMarginBytes \<le> EffectiveFree v"
proof -
  have range: "0 \<le> live_bytes b" "live_bytes b < 2 ^ 63 - safetyMarginBytes"
    using live_bytes_nonneg [OF assms(1)] assms(1,2) by (auto simp: budget_inv_def safetyMarginBytes_def MB_def)
  have av: "i64 (i64 (EffectiveFree v - pendingBytesLocked ks b) - safetyMarginBytes) = EffectiveFree v - live_bytes b - safetyMarginBytes"
    using range EffectiveFree_range [of v]
    by (simp add: budget_inv_exact [OF assms(1-3)] i64_id safetyMarginBytes_def MB_def)
  show ?thesis unfolding Reserve_def Let_def option.case av by (auto simp: not_less)
qed

lemma budget_step_inv:
  assumes "budget_step F b b'" and "budget_inv F b" and "F < 2 ^ 63"
  shows "budget_inv F b'"
  using assms(1)
proof cases
  case (Reserves ks uuid bytes st now taskID ty prio)
  have fin: "finite (dom (bm_reservations b))" using assms(2) by (simp add: budget_inv_def)
  show ?thesis
  proof (cases "fst (Reserve now ks uuid st taskID ty bytes prio b)")
    case (Inl e)
    then have "b' = b" unfolding Reserves(1) by (auto simp: Reserve_def Let_def split: option.splits if_splits)
    then show ?thesis using assms(2) by simp
  next
    case (Inr r)
    then obtain v where v: "st = Some v" by (cases st) (auto simp: Reserve_def)
    have fits: "live_bytes b + bytes + safetyMarginBytes \<le> EffectiveFree v"
      using Reserve_accepts [OF assms(2,3) Reserves(2)] Reserves(5) Inr v by blast
    have lb: "live_bytes b' = live_bytes b + bytes"
      using Reserve_live [OF fin Reserves(3) prod.collapse [symmetric]] Inr by (simp add: Reserves(1))
    have "bm_reservations b' = (bm_reservations b)(uuid \<mapsto> r) \<and> rv_ID r = uuid \<and> rv_BytesReserved r = bytes"
      using Inr unfolding Reserves(1) by (auto simp: Reserve_def Let_def split: option.splits if_splits)
    then show ?thesis using assms(2) fits lb Reserves(4,5) v by (auto simp: budget_inv_def max_def)
  qed
next
  case (Activates now rid)
  then show ?thesis using assms(2) Activate_live [of b now rid]
    by (auto simp: budget_inv_def Activate_def split: option.splits if_splits)
next
  case (Releases now rid)
  have "0 \<le> held (bm_reservations b rid)" using assms(2) by (auto simp: budget_inv_def held_def split: option.split)
  then show ?thesis using assms(2) Release_live [of b now rid] Releases
    by (auto simp: budget_inv_def Release_def split: option.splits if_splits)
next
  case (Expires now)
  have "\<forall>r \<in> ran (bm_reservations b). 0 \<le> rv_BytesReserved r" using assms(2) by (auto simp: budget_inv_def ran_def)
  then show ?thesis using assms(2) expire_live [of b now] Expires
    by (fastforce simp: budget_inv_def expireOldReservations_def expire_reservation_def)
qed

lemma budget_steps_inv: "budget_steps F b b' \<Longrightarrow> budget_inv F b \<Longrightarrow> F < 2 ^ 63 \<Longrightarrow> budget_inv F b'"
  by (induction rule: rtranclp_induct) (auto intro: budget_step_inv)

lemma NewBudget_inv: "budget_inv F (NewBudget d)"
  by (simp add: budget_inv_def NewBudget_def live_bytes_def)

text \<open>
  C33: The memory of a device is never promised twice. After any history of reserving, activating,
  releasing and expiring, what pending and active reservations hold, plus the margin of 256 MB, is at
  most the largest amount of free memory the driver has reported; and the next request is accepted
  exactly if it fits beside them. No sum wraps around on the way.
\<close>

theorem budget_never_overcommitted:
  assumes "budget_steps F (NewBudget d) b" and "F < 2 ^ 63" and "map_order ks (bm_reservations b)"
  shows "live_bytes b \<le> max 0 (F - safetyMarginBytes) \<and> pendingBytesLocked ks b = live_bytes b \<and>
    (EffectiveFree v \<le> F \<longrightarrow>
      (\<exists>r. fst (Reserve now ks uuid (Some v) taskID ty bytes prio b) = Inr r) =
      (live_bytes b + bytes + safetyMarginBytes \<le> EffectiveFree v))"
proof -
  have inv: "budget_inv F b" by (rule budget_steps_inv [OF assms(1) NewBudget_inv assms(2)])
  show ?thesis
    using inv budget_inv_exact [OF inv assms(2,3)] Reserve_accepts [OF inv assms(2,3)] by (simp add: budget_inv_def)
qed

definition sample_stats :: "int \<Rightarrow> VRAMStats" where
  "sample_stats free = \<lparr>vs_DeviceIndex = 0, vs_Total = 24 * GB, vs_Used = 24 * GB - free, vs_Free = free, vs_Reserved = 0,
     vs_Fragmentation = 0, vs_Timestamp = 0\<rparr>"

definition sample_reserved :: Budget where
  "sample_reserved = snd (Reserve 0 [] ''r1'' (Some (sample_stats (8 * GB))) ''t'' ''llm'' (5 * GB) 1 (NewBudget 0))"

lemma sample_reserved_steps: "budget_steps (8 * GB) (NewBudget 0) sample_reserved"
  unfolding sample_reserved_def
  by (rule r_into_rtranclp, rule budget_step.Reserves)
    (simp_all add: NewBudget_def sample_stats_def EffectiveFree_def GB_def i64_def)

lemma sample_reserved_eq:
  "sample_reserved = \<lparr>bm_deviceIndex = 0, bm_reservations = [''r1'' \<mapsto>
     \<lparr>rv_ID = ''r1'', rv_DeviceIndex = 0, rv_BytesReserved = 5 * GB, rv_TaskID = ''t'', rv_TaskType = ''llm'',
      rv_Priority = 1, rv_Status = StatusPending, rv_CreatedAt = 0, rv_ActivatedAt = zero_time, rv_ReleasedAt = zero_time,
      rv_ExpiresAt = reservationTimeout\<rparr>]\<rparr>"
  by (simp add: sample_reserved_def Reserve_def pendingBytesLocked_def NewBudget_def sample_stats_def EffectiveFree_def
      GB_def MB_def safetyMarginBytes_def i64_def Let_def)

theorem budget_never_overcommitted_witness:
  "\<not> (\<exists>r. fst (Reserve 1 [''r1''] ''r2'' (Some (sample_stats (8 * GB))) ''u'' ''llm'' (3 * GB) 1 sample_reserved) = Inr r) \<and>
   (\<exists>r. fst (Reserve 1 [''r1''] ''r2'' (Some (sample_stats (8 * GB))) ''u'' ''llm'' (2 * GB) 1 sample_reserved) = Inr r)"
proof -
  have order: "map_order [''r1''] (bm_reservations sample_reserved)" by (simp add: sample_reserved_eq map_order_def)
  have lb: "live_bytes sample_reserved = 5 * GB" by (simp add: sample_reserved_eq live_bytes_def held_def live_def)
  have fr: "EffectiveFree (sample_stats 8589934592) = 8589934592"
    by (simp add: sample_stats_def EffectiveFree_def GB_def i64_def)
  have F: "8 * GB < 2 ^ 63" by (simp add: GB_def)
  note C = budget_never_overcommitted [OF sample_reserved_steps F order, of "sample_stats (8 * GB)" 1 "''r2''" "''u''" "''llm''" _ 1]
  from C [of "3 * GB"] C [of "2 * GB"] show ?thesis by (simp add: lb fr safetyMarginBytes_def GB_def MB_def)
qed

section \<open>The life of a reservation\<close>

definition status_after :: "ReservationStatus \<Rightarrow> ReservationStatus \<Rightarrow> bool" where
  "status_after s t \<longleftrightarrow> t = s \<or>
     s = StatusPending \<and> t \<in> {StatusActive, StatusReleased, StatusExpired} \<or>
     s \<in> {StatusActive, StatusEvicted} \<and> t = StatusReleased"

lemma status_after_trans: "status_after s t \<Longrightarrow> status_after t u \<Longrightarrow> status_after s u"
  by (auto simp: status_after_def)

definition same_grant :: "Reservation \<Rightarrow> Reservation \<Rightarrow> bool" where
  "same_grant r r' \<longleftrightarrow> rv_ID r' = rv_ID r \<and> rv_BytesReserved r' = rv_BytesReserved r \<and> rv_TaskID r' = rv_TaskID r \<and>
     rv_Priority r' = rv_Priority r \<and> rv_DeviceIndex r' = rv_DeviceIndex r"

lemma budget_step_keeps:
  assumes "budget_step F b b'" and "bm_reservations b rid = Some r"
  shows "\<exists>r'. bm_reservations b' rid = Some r' \<and> same_grant r r' \<and> status_after (rv_Status r) (rv_Status r')"
  using assms
  by cases (cases "rv_Status r"; auto simp: Reserve_def Activate_def Release_def expireOldReservations_def
      expire_reservation_def Let_def status_after_def same_grant_def split: option.split)+

lemma budget_step_evicted:
  assumes "budget_step F b b'" and "\<forall>r \<in> ran (bm_reservations b). rv_Status r \<noteq> StatusEvicted"
  shows "\<forall>r \<in> ran (bm_reservations b'). rv_Status r \<noteq> StatusEvicted"
  using assms
  by cases (auto simp: Reserve_def Activate_def Release_def expireOldReservations_def expire_reservation_def Let_def
      ran_def split: option.split)

lemma budget_steps_evicted:
  "budget_steps F (NewBudget d) b \<Longrightarrow> \<forall>r \<in> ran (bm_reservations b). rv_Status r \<noteq> StatusEvicted"
  by (induction rule: rtranclp_induct) (simp add: NewBudget_def, rule budget_step_evicted)

text \<open>
  A reservation is never forgotten and its status only moves forward: pending, then active,
  then released, or from pending straight to released or expired, both of which are final. What was
  granted does not change. No reservation is ever marked as evicted.
\<close>

theorem reservation_lifecycle:
  assumes "budget_steps F (NewBudget d) b" and "bm_reservations b rid = Some r" and "budget_steps F b b'"
  shows "\<exists>r'. bm_reservations b' rid = Some r' \<and> same_grant r r' \<and> status_after (rv_Status r) (rv_Status r') \<and>
    rv_Status r' \<noteq> StatusEvicted"
proof -
  have "\<exists>r'. bm_reservations b' rid = Some r' \<and> same_grant r r' \<and> status_after (rv_Status r) (rv_Status r')"
    using assms(3)
  proof (induction rule: rtranclp_induct)
    case base
    show ?case using assms(2) by (simp add: same_grant_def status_after_def)
  next
    case (step b1 b2)
    then obtain r1 where r1: "bm_reservations b1 rid = Some r1" "same_grant r r1" "status_after (rv_Status r) (rv_Status r1)" by blast
    from budget_step_keeps [OF step.hyps(2) r1(1)] show ?case
      using r1 status_after_trans by (auto simp: same_grant_def)
  qed
  moreover have "\<forall>r \<in> ran (bm_reservations b'). rv_Status r \<noteq> StatusEvicted"
    using budget_steps_evicted rtranclp_trans [OF assms(1,3)] by blast
  ultimately show ?thesis by (auto simp: ran_def)
qed

theorem reservation_lifecycle_witness:
  "\<exists>r'. bm_reservations (Release 5 ''r1'' (snd (Activate 4 ''r1'' sample_reserved))) ''r1'' = Some r' \<and>
    rv_BytesReserved r' = 5 * GB \<and> rv_Status r' \<noteq> StatusEvicted"
proof -
  have "budget_steps (8 * GB) sample_reserved (Release 5 ''r1'' (snd (Activate 4 ''r1'' sample_reserved)))"
    by (rule rtranclp.rtrancl_into_rtrancl [OF r_into_rtranclp]) (rule budget_step.Activates, rule budget_step.Releases)
  moreover have "bm_reservations sample_reserved ''r1'' = Some (the (bm_reservations sample_reserved ''r1''))"
    by (simp add: sample_reserved_eq)
  ultimately show ?thesis
    using reservation_lifecycle [OF sample_reserved_steps, of "''r1''"] by (fastforce simp: same_grant_def sample_reserved_eq)
qed

section \<open>Who is preempted\<close>

definition active_at :: "Budget \<Rightarrow> Reservation \<Rightarrow> bool" where
  "active_at b r \<longleftrightarrow> (\<exists>k. bm_reservations b k = Some r) \<and> rv_Status r = StatusActive"

definition lowest_of :: "Reservation set \<Rightarrow> Reservation option \<Rightarrow> bool" where
  "lowest_of A l \<longleftrightarrow> (case l of None \<Rightarrow> A = {} | Some v \<Rightarrow> v \<in> A \<and> (\<forall>r \<in> A. rv_Priority v \<le> rv_Priority r))"

lemma lowest_of_step:
  "lowest_of A l \<Longrightarrow> lowest_of (A \<union> {x. x = r \<and> rv_Status x = StatusActive}) (lower_active l r)"
  by (cases l) (auto simp: lowest_of_def lower_active_def)

lemma lowest_of_fold:
  "lowest_of A l \<Longrightarrow> lowest_of (A \<union> {r. rv_Status r = StatusActive \<and> (\<exists>k \<in> set ks. m k = Some r)})
     (foldl (\<lambda>lowest k. case m k of None \<Rightarrow> lowest | Some r \<Rightarrow> lower_active lowest r) l ks)"
proof (induction ks arbitrary: l A)
  case (Cons k ks)
  show ?case
  proof (cases "m k")
    case None
    have "{r. rv_Status r = StatusActive \<and> (\<exists>k' \<in> set (k # ks). m k' = Some r)} =
        {r. rv_Status r = StatusActive \<and> (\<exists>k \<in> set ks. m k = Some r)}" using None by auto
    then show ?thesis using Cons None by simp
  next
    case (Some x)
    have "A \<union> {r. rv_Status r = StatusActive \<and> (\<exists>k' \<in> set (k # ks). m k' = Some r)} =
        (A \<union> {r. r = x \<and> rv_Status r = StatusActive}) \<union> {r. rv_Status r = StatusActive \<and> (\<exists>k \<in> set ks. m k = Some r)}"
      using Some by auto
    then show ?thesis using Cons.IH [OF lowest_of_step [OF Cons.prems]] Some by simp
  qed
qed simp

lemma LowestPriorityActive_spec:
  assumes "map_order ks (bm_reservations b)"
  shows "lowest_of {r. active_at b r} (LowestPriorityActive ks b)"
proof -
  have "{r. active_at b r} = {} \<union> {r. rv_Status r = StatusActive \<and> (\<exists>k \<in> set ks. bm_reservations b k = Some r)}"
    using assms by (auto simp: active_at_def map_order_def)
  then show ?thesis unfolding LowestPriorityActive_def by (simp only:) (rule lowest_of_fold, simp add: lowest_of_def)
qed

text \<open>
  A preemption takes the memory of an active task of the lowest priority, one that is lower
  than the requester's, and exactly that task's bytes become available; when it fails nothing
  changes. It fails only when no task is active, when none has a lower priority, or when the victim
  left no way to stop it.
\<close>

theorem Preempt_lowest:
  assumes "budget_steps F (NewBudget d) (pr_manager p)" and "map_order ks (bm_reservations (pr_manager p))" and "F < 2 ^ 63"
    and "Preempt now ks requester suspend_ok p = (res, p')"
  shows "case res of
      Inl e \<Rightarrow> p' = p \<and>
        ((\<forall>r. active_at (pr_manager p) r \<longrightarrow> requester \<le> rv_Priority r) \<or>
         (\<exists>r. active_at (pr_manager p) r \<and> stop_victim (rv_TaskID r) suspend_ok p = Inl e))
    | Inr out \<Rightarrow> \<exists>v. active_at (pr_manager p) v \<and> rv_TaskID v = ps_PreemptedTaskID out \<and>
        rv_Priority v < requester \<and> (\<forall>r. active_at (pr_manager p) r \<longrightarrow> rv_Priority v \<le> rv_Priority r) \<and>
        live_bytes (pr_manager p') = live_bytes (pr_manager p) - rv_BytesReserved v"
proof -
  have inv: "budget_inv F (pr_manager p)" by (rule budget_steps_inv [OF assms(1) NewBudget_inv assms(3)])
  have spec: "lowest_of {r. active_at (pr_manager p) r} (LowestPriorityActive ks (pr_manager p))"
    by (rule LowestPriorityActive_spec [OF assms(2)])
  show ?thesis
  proof (cases "LowestPriorityActive ks (pr_manager p)")
    case None
    then show ?thesis using assms(4) spec by (auto simp: Preempt_def lowest_of_def)
  next
    case (Some v)
    then have v: "active_at (pr_manager p) v" "\<And>r. active_at (pr_manager p) r \<Longrightarrow> rv_Priority v \<le> rv_Priority r"
      using spec by (simp_all add: lowest_of_def)
    from v(1) obtain k where k: "bm_reservations (pr_manager p) k = Some v" and act: "rv_Status v = StatusActive"
      by (auto simp: active_at_def)
    have "rv_ID v = k" "finite (dom (bm_reservations (pr_manager p)))" using inv k by (auto simp: budget_inv_def)
    then have "live_bytes (Release now (rv_ID v) (pr_manager p)) = live_bytes (pr_manager p) - rv_BytesReserved v"
      using Release_live [of "pr_manager p" now k] k act by (simp add: held_def live_def)
    then show ?thesis using assms(4) Some v
      by (fastforce simp: Preempt_def split: if_splits sum.splits)
  qed
qed

definition sample_preemptor :: Preemptor where
  "sample_preemptor = RegisterTask ''t'' False (NewPreemptor (snd (Activate 1 ''r1'' sample_reserved)))"

theorem Preempt_lowest_witness:
  "\<exists>out. fst (Preempt 2 [''r1''] 9 True sample_preemptor) = Inr out \<and> ps_PreemptedTaskID out = ''t'' \<and>
    live_bytes (pr_manager (snd (Preempt 2 [''r1''] 9 True sample_preemptor))) = 0"
proof -
  have mgr: "pr_manager sample_preemptor = snd (Activate 1 ''r1'' sample_reserved)"
    by (simp add: sample_preemptor_def RegisterTask_def NewPreemptor_def)
  have steps: "budget_steps (8 * GB) (NewBudget 0) (pr_manager sample_preemptor)"
    unfolding mgr using sample_reserved_steps by (rule rtranclp.rtrancl_into_rtrancl) (rule budget_step.Activates)
  have order: "map_order [''r1''] (bm_reservations (pr_manager sample_preemptor))"
    by (simp add: mgr sample_reserved_eq Activate_def map_order_def)
  have F: "8 * GB < 2 ^ 63" by (simp add: GB_def)
  have lb: "live_bytes (pr_manager sample_preemptor) = 5 * GB"
    by (simp add: mgr sample_reserved_eq Activate_def live_bytes_def held_def live_def)
  have act: "active_at (pr_manager sample_preemptor) v \<Longrightarrow> rv_TaskID v = ''t'' \<and> rv_BytesReserved v = 5 * GB \<and> rv_Priority v = 1" for v
    by (auto simp: mgr sample_reserved_eq Activate_def active_at_def split: if_splits)
  have ok: "\<exists>out. fst (Preempt 2 [''r1''] 9 True sample_preemptor) = Inr out"
    by (simp add: Preempt_def mgr LowestPriorityActive_def lower_active_def sample_reserved_eq Activate_def stop_victim_def)
      (simp add: sample_preemptor_def RegisterTask_def NewPreemptor_def)
  then obtain out where out: "fst (Preempt 2 [''r1''] 9 True sample_preemptor) = Inr out" by blast
  from Preempt_lowest [OF steps order F prod.collapse [symmetric], of 2 9 True] out act show ?thesis
    by (auto simp: lb)
qed

text \<open>
  When free memory has fallen to the threshold, a task is evicted exactly if preempting at
  priority 999 succeeds: an active task of priority 999 or more is out of its reach. Otherwise the
  model cache is dropped, and only if that fails too is the recovery reported as failed; a healthy
  device is left alone.
\<close>

theorem oom_recovery:
  assumes "map_order ks (bm_reservations (pr_manager p))"
    and "\<And>r. active_at (pr_manager p) r \<Longrightarrow> rv_TaskID r \<in> pr_cancelFuncs p"
  shows "if criticalThreshold backend < vs_Free v then Watcher_Check now ks backend (Some v) suspend_ok cache_ok p = (None, p)
    else \<exists>res p'. Watcher_Check now ks backend (Some v) suspend_ok cache_ok p = (Some res, p') \<and>
      (if \<exists>r. active_at (pr_manager p) r \<and> rv_Priority r < 999
       then \<exists>r. active_at (pr_manager p) r \<and> rv_Priority r < 999 \<and> rr_Action res = EvictedTask (rv_TaskID r) \<and> rr_Success res
       else p' = p \<and> rr_Action res = (if cache_ok then ClearedCache else RecoveryFailed) \<and> (rr_Success res \<longleftrightarrow> cache_ok))"
proof -
  have spec: "lowest_of {r. active_at (pr_manager p) r} (LowestPriorityActive ks (pr_manager p))"
    by (rule LowestPriorityActive_spec [OF assms(1)])
  show ?thesis
  proof (cases "LowestPriorityActive ks (pr_manager p)")
    case None
    then show ?thesis using spec by (simp add: Watcher_Check_def recover_def Preempt_def lowest_of_def)
  next
    case (Some r)
    then have r: "active_at (pr_manager p) r" "\<And>x. active_at (pr_manager p) x \<Longrightarrow> rv_Priority r \<le> rv_Priority x"
      using spec by (simp_all add: lowest_of_def)
    have stop: "\<exists>m. stop_victim (rv_TaskID r) suspend_ok p = Inr m"
      using assms(2) [OF r(1)] by (simp add: stop_victim_def)
    show ?thesis
    proof (cases "999 \<le> rv_Priority r")
      case True
      then have "\<not> (\<exists>x. active_at (pr_manager p) x \<and> rv_Priority x < 999)" using r(2) by fastforce
      then show ?thesis using Some True by (auto simp: Watcher_Check_def recover_def Preempt_def)
    next
      case False
      then have ex: "(\<exists>x. active_at (pr_manager p) x \<and> rv_Priority x < 999) = True" using r(1) by fastforce
      from stop obtain m where "stop_victim (rv_TaskID r) suspend_ok p = Inr m" ..
      then show ?thesis unfolding ex using Some r(1) False by (fastforce simp: Watcher_Check_def recover_def Preempt_def)
    qed
  qed
qed

theorem oom_recovery_witness:
  "\<exists>res p'. Watcher_Check 2 [''r1''] ''cuda'' (Some (sample_stats MB)) True True sample_preemptor = (Some res, p') \<and>
    rr_Action res = EvictedTask ''t''"
proof -
  have mgr: "pr_manager sample_preemptor = snd (Activate 1 ''r1'' sample_reserved)"
    and cf: "pr_cancelFuncs sample_preemptor = {''t''}"
    by (simp_all add: sample_preemptor_def RegisterTask_def NewPreemptor_def)
  have order: "map_order [''r1''] (bm_reservations (pr_manager sample_preemptor))"
    by (simp add: mgr sample_reserved_eq Activate_def map_order_def)
  have act: "active_at (pr_manager sample_preemptor) v \<Longrightarrow> rv_TaskID v = ''t'' \<and> rv_Priority v = 1" for v
    by (auto simp: mgr sample_reserved_eq Activate_def active_at_def split: if_splits)
  have ex: "\<exists>v. active_at (pr_manager sample_preemptor) v"
    by (auto simp: mgr sample_reserved_eq Activate_def active_at_def)
  then have ex': "\<exists>r. active_at (pr_manager sample_preemptor) r \<and> rv_Priority r < 999" using act by fastforce
  have thr: "\<not> criticalThreshold ''cuda'' < vs_Free (sample_stats MB)" by (simp add: criticalThreshold_def sample_stats_def MB_def)
  from oom_recovery [OF order, of "''cuda''" "sample_stats MB" 2 True True] act show ?thesis
    by (simp add: cf thr ex') metis
qed

end
