(* ===== verification/Gpu_Orchestrator.thy ===== *)
theory Gpu_Orchestrator
  imports Gpu_Budget
begin

text \<open>
  \<open>internal/gpu/thermal\<close>, \<open>isolation\<close> and \<open>orchestrator.go\<close>: the heat monitor, the environment of an
  isolated process and the orchestrator that joins them to the budgets of all devices. Temperatures
  are real numbers; a reading that fails is \<open>None\<close>. A monitor of the source holds the backend and so
  samples every device. The budget of a device is the one its preemptor holds, as in the source.
\<close>

section \<open>The heat monitor\<close>

record ThermalPolicy =
  tp_WarnCelsius :: real
  tp_ThrottleCelsius :: real
  tp_EmergencyCelsius :: real
  tp_RecoveryCelsius :: real

definition DefaultPolicy :: ThermalPolicy where
  "DefaultPolicy = \<lparr>tp_WarnCelsius = 75, tp_ThrottleCelsius = 85, tp_EmergencyCelsius = 92, tp_RecoveryCelsius = 70\<rparr>"

datatype ThermalState = ThermalNormal | ThermalWarning | ThermalThrottled | ThermalEmergency

datatype thermal_event = OnThrottle int real | OnRecover int | OnEmergency int real

record Monitor =
  tm_policy :: ThermalPolicy
  tm_state :: ThermalState
  tm_lastTemp :: "int \<rightharpoonup> real"

definition NewMonitor :: "ThermalPolicy \<Rightarrow> Monitor" where
  "NewMonitor policy = \<lparr>tm_policy = policy, tm_state = ThermalNormal, tm_lastTemp = Map.empty\<rparr>"

definition IsThrottled :: "Monitor \<Rightarrow> bool" where
  "IsThrottled m = (tm_state m = ThermalThrottled \<or> tm_state m = ThermalEmergency)"

definition TemperatureOf :: "int \<Rightarrow> Monitor \<Rightarrow> real" where
  "TemperatureOf d m = (case tm_lastTemp m d of None \<Rightarrow> 0 | Some t \<Rightarrow> t)"

definition thermal_next :: "ThermalPolicy \<Rightarrow> int \<Rightarrow> real \<Rightarrow> ThermalState \<Rightarrow> ThermalState \<times> thermal_event list" where
  "thermal_next pol d temp s =
     (if temp \<ge> tp_EmergencyCelsius pol then
        (if s \<noteq> ThermalEmergency then (ThermalEmergency, [OnEmergency d temp]) else (s, []))
      else if temp \<ge> tp_ThrottleCelsius pol then
        (if s = ThermalNormal \<or> s = ThermalWarning then (ThermalThrottled, [OnThrottle d temp]) else (s, []))
      else if temp \<ge> tp_WarnCelsius pol then
        (if s = ThermalNormal then (ThermalWarning, []) else (s, []))
      else if temp < tp_RecoveryCelsius pol then
        (if s = ThermalThrottled \<or> s = ThermalWarning \<or> s = ThermalEmergency then (ThermalNormal, [OnRecover d]) else (s, []))
      else (s, []))"

definition sample_device :: "Monitor \<Rightarrow> int \<Rightarrow> real option \<Rightarrow> thermal_event list \<times> Monitor" where
  "sample_device m d reading =
     (case reading of
        None \<Rightarrow> ([], m)
      | Some temp \<Rightarrow>
          if temp < 0 then ([], m)
          else (let (s, evs) = thermal_next (tm_policy m) d temp (tm_state m)
                in (evs, m\<lparr>tm_lastTemp := (tm_lastTemp m)(d \<mapsto> temp), tm_state := s\<rparr>)))"

text \<open>One \<open>Sample\<close> reads the devices in order, by their indices.\<close>

fun Monitor_Sample :: "(int \<times> real option) list \<Rightarrow> Monitor \<Rightarrow> thermal_event list \<times> Monitor" where
  "Monitor_Sample [] m = ([], m)"
| "Monitor_Sample ((d, reading) # ds) m =
     (let (evs, m) = sample_device m d reading; (evs', m) = Monitor_Sample ds m in (evs @ evs', m))"

section \<open>Isolation of a process\<close>

record IsolationConfig =
  ic_DeviceIndex :: int
  ic_Backend :: string
  ic_MemoryFraction :: real
  ic_AllowedEnvKeys :: "string list"

definition DefaultAllowedEnvKeys :: "string list" where
  "DefaultAllowedEnvKeys = [''HOME'', ''PATH'', ''TERM'', ''LANG'', ''USER'', ''OLLAMA_HOST'', ''OLLAMA_MODELS'', ''HF_HOME'']"

definition buildIsolatedEnv :: "(string \<rightharpoonup> string) \<Rightarrow> IsolationConfig \<Rightarrow> string list" where
  "buildIsolatedEnv env cfg =
     concat (map (\<lambda>key. case env key of None \<Rightarrow> [] | Some val \<Rightarrow> [key @ ''='' @ val]) (ic_AllowedEnvKeys cfg))"

definition trunc_real :: "real \<Rightarrow> int" where
  "trunc_real x = (if x < 0 then \<lceil>x\<rceil> else \<lfloor>x\<rfloor>)"

definition Isolate_env :: "(string \<rightharpoonup> string) \<Rightarrow> IsolationConfig \<Rightarrow> string list" where
  "Isolate_env env cfg =
     (let base = buildIsolatedEnv env cfg; pct = trunc_real (ic_MemoryFraction cfg * 100)
      in if ic_Backend cfg = ''cuda'' then
           base @ [''CUDA_VISIBLE_DEVICES='' @ show_int (ic_DeviceIndex cfg), ''CUDA_DEVICE_ORDER=PCI_BUS_ID''] @
           (if ic_MemoryFraction cfg > 0 then [''OLLAMA_GPU_OVERHEAD='' @ show_int (100 - pct)] else [])
         else if ic_Backend cfg = ''rocm'' then
           base @ [''ROCR_VISIBLE_DEVICES='' @ show_int (ic_DeviceIndex cfg), ''GPU_MAX_HEAP_SIZE='' @ show_int pct]
         else base)"

section \<open>The orchestrator\<close>

record Orchestrator =
  oc_backend :: string
  oc_devices :: "int list"
  oc_thermals :: "int \<rightharpoonup> Monitor"
  oc_preemptors :: "int \<rightharpoonup> Preemptor"

definition NewOrchestrator :: "string \<Rightarrow> int list \<Rightarrow> Orchestrator" where
  "NewOrchestrator backend devices =
     \<lparr>oc_backend = backend, oc_devices = devices,
      oc_thermals = (\<lambda>i. if i \<in> set devices then Some (NewMonitor DefaultPolicy) else None),
      oc_preemptors = (\<lambda>i. if i \<in> set devices then Some (NewPreemptor (NewBudget i)) else None)\<rparr>"

text \<open>
  \<open>Start\<close> looks its monitors up by the position of a device, not by its index; a position without a
  monitor is a nil pointer, \<open>None\<close> here.
\<close>

definition Orchestrator_Start :: "Orchestrator \<Rightarrow> int list option" where
  "Orchestrator_Start oc =
     (let positions = map int [0..<length (oc_devices oc)]
      in if list_all (\<lambda>i. oc_thermals oc i \<noteq> None \<and> oc_preemptors oc i \<noteq> None) positions then Some positions else None)"

text \<open>What the driver reports for each device is the map \<open>st\<close>.\<close>

definition bestDeviceForLLM :: "(int \<rightharpoonup> VRAMStats) \<Rightarrow> int \<Rightarrow> Orchestrator \<Rightarrow> BudgetError + int" where
  "bestDeviceForLLM st modelSizeBytes oc =
     (let needed = ForLLM modelSizeBytes
      in case find (\<lambda>d. case st d of None \<Rightarrow> False | Some v \<Rightarrow> EffectiveFree v \<ge> needed) (oc_devices oc) of
           None \<Rightarrow> Inl (InsufficientVRAM 0 needed 0 0 0)
         | Some d \<Rightarrow> Inr d)"

fun most_free :: "(int \<rightharpoonup> VRAMStats) \<Rightarrow> int list \<Rightarrow> int \<Rightarrow> int \<Rightarrow> int" where
  "most_free st [] best bestFree = best"
| "most_free st (d # ds) best bestFree =
     (case st d of
        None \<Rightarrow> most_free st ds best bestFree
      | Some v \<Rightarrow> if EffectiveFree v > bestFree then most_free st ds d (EffectiveFree v) else most_free st ds best bestFree)"

definition bestDeviceForGPU :: "(int \<rightharpoonup> VRAMStats) \<Rightarrow> Orchestrator \<Rightarrow> BudgetError + int" where
  "bestDeviceForGPU st oc =
     (case oc_devices oc of [] \<Rightarrow> Inl NoGPUDevices | d # ds \<Rightarrow> Inr (most_free st (d # ds) d (- 1)))"

definition set_budget :: "int \<Rightarrow> Budget \<Rightarrow> Orchestrator \<Rightarrow> Orchestrator" where
  "set_budget d b oc = oc\<lparr>oc_preemptors := (oc_preemptors oc)(d := map_option (\<lambda>p. p\<lparr>pr_manager := b\<rparr>) (oc_preemptors oc d))\<rparr>"

definition device_throttled :: "int \<Rightarrow> Orchestrator \<Rightarrow> bool" where
  "device_throttled d oc = (case oc_thermals oc d of None \<Rightarrow> False | Some m \<Rightarrow> IsThrottled m)"

definition reserve_on ::
  "time \<Rightarrow> string list \<Rightarrow> string \<Rightarrow> (int \<rightharpoonup> VRAMStats) \<Rightarrow> string \<Rightarrow> string \<Rightarrow> int \<Rightarrow> int \<Rightarrow> int \<Rightarrow> Orchestrator \<Rightarrow>
    (BudgetError + Reservation) \<times> Orchestrator" where
  "reserve_on now ks uuid st taskID taskType bytes priority d oc =
     (if device_throttled d oc then (Inl ThermallyThrottled, oc)
      else case oc_preemptors oc d of
        None \<Rightarrow> (Inl (NoBudgetManager d), oc)
      | Some p \<Rightarrow>
          (let (res, b) = Reserve now ks uuid (st d) taskID taskType bytes priority (pr_manager p)
           in (res, set_budget d b oc)))"

definition ReserveLLM ::
  "time \<Rightarrow> string list \<Rightarrow> string \<Rightarrow> (int \<rightharpoonup> VRAMStats) \<Rightarrow> string \<Rightarrow> int \<Rightarrow> int \<Rightarrow> Orchestrator \<Rightarrow>
    (BudgetError + Reservation) \<times> Orchestrator" where
  "ReserveLLM now ks uuid st taskID modelSizeBytes priority oc =
     (case bestDeviceForLLM st modelSizeBytes oc of
        Inl e \<Rightarrow> (Inl e, oc)
      | Inr d \<Rightarrow> reserve_on now ks uuid st taskID ''llm'' (ForLLM modelSizeBytes) priority d oc)"

definition ReserveImageGen ::
  "time \<Rightarrow> string list \<Rightarrow> string \<Rightarrow> (int \<rightharpoonup> VRAMStats) \<Rightarrow> string \<Rightarrow> string \<Rightarrow> int \<Rightarrow> int \<Rightarrow> int \<Rightarrow> Orchestrator \<Rightarrow>
    (BudgetError + Reservation) \<times> Orchestrator" where
  "ReserveImageGen now ks uuid st taskID modelName width height priority oc =
     (case bestDeviceForGPU st oc of
        Inl e \<Rightarrow> (Inl e, oc)
      | Inr d \<Rightarrow> reserve_on now ks uuid st taskID ''image_gen'' (ForImageGen modelName width height) priority d oc)"

definition ActivateReservation :: "time \<Rightarrow> Reservation \<Rightarrow> Orchestrator \<Rightarrow> BudgetError option \<times> Orchestrator" where
  "ActivateReservation now r oc =
     (case oc_preemptors oc (rv_DeviceIndex r) of
        None \<Rightarrow> (Some (NoBudgetManager (rv_DeviceIndex r)), oc)
      | Some p \<Rightarrow>
          (let (err, b) = Activate now (rv_ID r) (pr_manager p) in (err, set_budget (rv_DeviceIndex r) b oc)))"

definition ReleaseReservation :: "time \<Rightarrow> Reservation option \<Rightarrow> Orchestrator \<Rightarrow> Orchestrator" where
  "ReleaseReservation now x oc =
     (case x of
        None \<Rightarrow> oc
      | Some r \<Rightarrow>
          (case oc_preemptors oc (rv_DeviceIndex r) of
             None \<Rightarrow> oc
           | Some p \<Rightarrow> set_budget (rv_DeviceIndex r) (Release now (rv_ID r) (pr_manager p)) oc))"

definition RegisterRunningTask :: "int \<Rightarrow> string \<Rightarrow> bool \<Rightarrow> Orchestrator \<Rightarrow> Orchestrator" where
  "RegisterRunningTask d taskID has_suspend oc =
     (case oc_preemptors oc d of
        None \<Rightarrow> oc
      | Some p \<Rightarrow> oc\<lparr>oc_preemptors := (oc_preemptors oc)(d \<mapsto> RegisterTask taskID has_suspend p)\<rparr>)"

definition Orchestrator_DeregisterTask :: "int \<Rightarrow> string \<Rightarrow> Orchestrator \<Rightarrow> Orchestrator" where
  "Orchestrator_DeregisterTask d taskID oc =
     (case oc_preemptors oc d of
        None \<Rightarrow> oc
      | Some p \<Rightarrow> oc\<lparr>oc_preemptors := (oc_preemptors oc)(d \<mapsto> DeregisterTask taskID p)\<rparr>)"

section \<open>Hysteresis\<close>

definition policy_ordered :: "ThermalPolicy \<Rightarrow> bool" where
  "policy_ordered pol \<longleftrightarrow> 0 < tp_RecoveryCelsius pol \<and> tp_RecoveryCelsius pol \<le> tp_WarnCelsius pol \<and>
     tp_WarnCelsius pol \<le> tp_ThrottleCelsius pol \<and> tp_ThrottleCelsius pol \<le> tp_EmergencyCelsius pol"

definition monitor_run :: "int \<Rightarrow> real option list \<Rightarrow> Monitor \<Rightarrow> Monitor" where
  "monitor_run d readings m = foldl (\<lambda>m reading. snd (Monitor_Sample [(d, reading)] m)) m readings"

definition hot :: "ThermalPolicy \<Rightarrow> real option \<Rightarrow> bool" where
  "hot pol x = (case x of None \<Rightarrow> False | Some t \<Rightarrow> tp_ThrottleCelsius pol \<le> t)"

definition cold :: "ThermalPolicy \<Rightarrow> real option \<Rightarrow> bool" where
  "cold pol x = (case x of None \<Rightarrow> False | Some t \<Rightarrow> 0 \<le> t \<and> t < tp_RecoveryCelsius pol)"

lemma sample_throttled:
  assumes "policy_ordered (tm_policy m)"
  shows "IsThrottled (snd (Monitor_Sample [(d, x)] m)) \<longleftrightarrow> hot (tm_policy m) x \<or> IsThrottled m \<and> \<not> cold (tm_policy m) x"
    and "tm_policy (snd (Monitor_Sample [(d, x)] m)) = tm_policy m"
  using assms
  by (cases x; cases "tm_state m"; auto simp: sample_device_def thermal_next_def IsThrottled_def hot_def cold_def policy_ordered_def)+

lemma last_hot_snoc:
  "(\<exists>pre t post. xs @ [x] = pre @ t # post \<and> P t \<and> (\<forall>u \<in> set post. \<not> Q u)) \<longleftrightarrow>
    P x \<or> (\<exists>pre t post. xs = pre @ t # post \<and> P t \<and> (\<forall>u \<in> set post. \<not> Q u)) \<and> \<not> Q x"
  (is "?L \<longleftrightarrow> P x \<or> ?R")
proof
  assume ?L
  then obtain pre t post where p: "xs @ [x] = pre @ t # post" "P t" "\<forall>u \<in> set post. \<not> Q u" by blast
  then show "P x \<or> ?R" by (cases post rule: rev_cases) auto
next
  assume "P x \<or> ?R"
  then show ?L
  proof
    assume ?R
    then obtain pre t post where "xs = pre @ t # post" "P t" "\<forall>u \<in> set post. \<not> Q u" "\<not> Q x" by blast
    then show ?L by (intro exI [of _ pre] exI [of _ t] exI [of _ "post @ [x]"]) simp
  qed (intro exI [of _ xs] exI [of _ x] exI [of _ "[]"], simp)
qed

text \<open>
  A monitor of a single device refuses work exactly if some reading reached the throttling
  temperature and no later one was below the recovery temperature; readings in between, failed ones
  and those the driver does not support make no difference.
\<close>

theorem thermal_hysteresis:
  assumes "policy_ordered pol"
  shows "IsThrottled (monitor_run d readings (NewMonitor pol)) \<longleftrightarrow>
    (\<exists>pre t post. readings = pre @ t # post \<and> hot pol t \<and> (\<forall>u \<in> set post. \<not> cold pol u))"
proof -
  have "tm_policy (monitor_run d readings (NewMonitor pol)) = pol \<and>
    (IsThrottled (monitor_run d readings (NewMonitor pol)) \<longleftrightarrow>
      (\<exists>pre t post. readings = pre @ t # post \<and> hot pol t \<and> (\<forall>u \<in> set post. \<not> cold pol u)))"
  proof (induction readings rule: rev_induct)
    case Nil
    show ?case by (simp add: monitor_run_def NewMonitor_def IsThrottled_def)
  next
    case (snoc x xs)
    let ?m = "monitor_run d xs (NewMonitor pol)"
    have "monitor_run d (xs @ [x]) (NewMonitor pol) = snd (Monitor_Sample [(d, x)] ?m)" by (simp add: monitor_run_def)
    then show ?case
      using snoc sample_throttled [of ?m d x] assms last_hot_snoc [of xs x "hot pol" "cold pol"] by (simp del: Monitor_Sample.simps)
  qed
  then show ?thesis by blast
qed

theorem thermal_hysteresis_witness:
  "IsThrottled (monitor_run 0 [Some 86, Some 80, None, Some 71] (NewMonitor DefaultPolicy)) \<and>
   \<not> IsThrottled (monitor_run 0 [Some 80, Some 84] (NewMonitor DefaultPolicy))"
proof -
  have pol: "policy_ordered DefaultPolicy" by (simp add: policy_ordered_def DefaultPolicy_def)
  have "[Some 86, Some 80, None, Some 71] = [] @ Some 86 # [Some 80, None, Some (71 :: real)]" by simp
  moreover have "hot DefaultPolicy (Some 86)" "\<forall>u \<in> set [Some 80, None, Some 71]. \<not> cold DefaultPolicy u"
    by (simp_all add: hot_def cold_def DefaultPolicy_def)
  ultimately have "IsThrottled (monitor_run 0 [Some 86, Some 80, None, Some 71] (NewMonitor DefaultPolicy))"
    unfolding thermal_hysteresis [OF pol] by blast
  moreover have "\<not> IsThrottled (monitor_run 0 [Some 80, Some 84] (NewMonitor DefaultPolicy))"
  proof -
    have "\<not> hot DefaultPolicy t" if "[Some 80, Some 84] = pre @ t # post" for pre t post
    proof -
      have "t \<in> set [Some 80, Some (84 :: real)]" unfolding that by simp
      then show ?thesis by (auto simp: hot_def DefaultPolicy_def)
    qed
    then show ?thesis unfolding thermal_hysteresis [OF pol] by blast
  qed
  ultimately show ?thesis by blast
qed

text \<open>
  With more than one device the monitors fail to protect: each of them keeps a single state
  for all devices, so a cool device read after a hot one declares recovery. After such a sample,
  whatever came before, work is accepted although the first device is at its emergency temperature.
\<close>

theorem thermal_masked_by_cool_device:
  assumes "policy_ordered (tm_policy m)" and "tp_EmergencyCelsius (tm_policy m) \<le> t"
    and "0 \<le> u" and "u < tp_RecoveryCelsius (tm_policy m)"
    and "Monitor_Sample [(d, Some t), (e, Some u)] m = (evs, m')"
  shows "\<not> IsThrottled m' \<and> OnRecover e \<in> set evs \<and> (d \<noteq> e \<longrightarrow> TemperatureOf d m' = t)"
  using assms
  by (cases "tm_state m")
    (auto simp: sample_device_def thermal_next_def IsThrottled_def policy_ordered_def TemperatureOf_def Let_def split: if_splits)

theorem thermal_masked_by_cool_device_witness:
  "\<not> IsThrottled (snd (Monitor_Sample [(0, Some 97), (1, Some 40)] (NewMonitor DefaultPolicy)))"
proof -
  have pol: "policy_ordered (tm_policy (NewMonitor DefaultPolicy))"
    by (simp add: policy_ordered_def DefaultPolicy_def NewMonitor_def)
  show ?thesis
    using thermal_masked_by_cool_device [OF pol, of 97 40 0 1, OF _ _ _ prod.collapse [symmetric]]
    by (simp add: NewMonitor_def DefaultPolicy_def del: Monitor_Sample.simps)
qed

section \<open>Which device serves a model\<close>

lemma find_first:
  "xs = pre @ x # post \<Longrightarrow> \<forall>y \<in> set pre. \<not> P y \<Longrightarrow> P x \<Longrightarrow> find P xs = Some x"
  by (induction pre arbitrary: xs) auto

text \<open>
  A model is served by the first device whose free memory suffices for it, or not at all.
  Whether the reservation succeeds depends on that device alone: when it is throttled, or its memory
  is reserved though not yet in use, the request fails even if the next device is idle.
\<close>

theorem llm_first_fit:
  assumes "oc_devices oc = before @ d # others"
    and "\<forall>x \<in> set before. \<forall>w. st x = Some w \<longrightarrow> EffectiveFree w < ForLLM msize"
    and "st d = Some v" and "ForLLM msize \<le> EffectiveFree v" and "oc_preemptors oc d = Some p"
    and "budget_steps F (NewBudget d) (pr_manager p)" and "EffectiveFree v \<le> F" and "F < 2 ^ 63"
    and "map_order ks (bm_reservations (pr_manager p))"
  shows "(\<exists>r. fst (ReserveLLM now ks uuid st taskID msize prio oc) = Inr r) \<longleftrightarrow>
    \<not> device_throttled d oc \<and> live_bytes (pr_manager p) + ForLLM msize + safetyMarginBytes \<le> EffectiveFree v"
proof -
  have best: "bestDeviceForLLM st msize oc = Inr d"
  proof -
    let ?P = "\<lambda>d. case st d of None \<Rightarrow> False | Some v \<Rightarrow> EffectiveFree v \<ge> ForLLM msize"
    have "\<forall>x \<in> set before. \<not> ?P x" using assms(2) by (fastforce split: option.splits)
    moreover have "?P d" using assms(3,4) by simp
    ultimately have "find ?P (oc_devices oc) = Some d" by (rule find_first [OF assms(1)])
    then show ?thesis by (simp add: bestDeviceForLLM_def Let_def)
  qed
  have inv: "budget_inv F (pr_manager p)" by (rule budget_steps_inv [OF assms(6) NewBudget_inv assms(8)])
  have "fst (ReserveLLM now ks uuid st taskID msize prio oc) =
      (if device_throttled d oc then Inl ThermallyThrottled
       else fst (Reserve now ks uuid (Some v) taskID ''llm'' (ForLLM msize) prio (pr_manager p)))"
    by (simp add: ReserveLLM_def best reserve_on_def assms(3,5) split: prod.split)
  then show ?thesis using Reserve_accepts [OF inv assms(8,9,7)] by simp
qed

definition two_gpus :: Orchestrator where
  "two_gpus = set_budget 0 sample_reserved (NewOrchestrator ''cuda'' [0, 1])"

theorem llm_first_fit_witness:
  "\<not> (\<exists>r. fst (ReserveLLM 1 [''r1''] ''r2'' (\<lambda>d. Some (sample_stats (8 * GB))) ''u'' (4 * GB) 1 two_gpus) = Inr r)"
proof -
  have p: "oc_devices two_gpus = [] @ 0 # [1]"
    "oc_preemptors two_gpus 0 = Some (NewPreemptor sample_reserved)"
    by (simp_all add: two_gpus_def set_budget_def NewOrchestrator_def NewPreemptor_def)
  have fr: "EffectiveFree (sample_stats (8 * GB)) = 8 * GB" by (simp add: sample_stats_def EffectiveFree_def GB_def i64_def)
  have need: "ForLLM (4 * GB) = 5798205849" by (simp add: ForLLM_def GB_def sdiv_nonneg)
  have order: "map_order [''r1''] (bm_reservations (pr_manager (NewPreemptor sample_reserved)))"
    by (simp add: sample_reserved_eq map_order_def NewPreemptor_def)
  have steps: "budget_steps (8 * GB) (NewBudget 0) (pr_manager (NewPreemptor sample_reserved))"
    using sample_reserved_steps by (simp add: NewPreemptor_def)
  have lb: "live_bytes (pr_manager (NewPreemptor sample_reserved)) = 5 * GB"
    by (simp add: sample_reserved_eq live_bytes_def held_def live_def NewPreemptor_def)
  have F: "8 * GB < 2 ^ 63" by (simp add: GB_def)
  have le: "ForLLM (4 * GB) \<le> EffectiveFree (sample_stats (8 * GB))" unfolding need fr by (simp add: GB_def)
  note C = llm_first_fit [where st = "\<lambda>d. Some (sample_stats (8 * GB))" and msize = "4 * GB", OF p(1) _ refl le p(2) steps _ F order]
  show ?thesis
    by (subst C) (simp_all only: fr lb need list.set ball_empty order_refl, simp add: GB_def safetyMarginBytes_def MB_def)
qed

text \<open>
  An image is drawn on a device of the orchestrator whose free memory no other device whose
  driver answers exceeds.
\<close>

theorem image_most_free:
  assumes "bestDeviceForGPU st oc = Inr d" and "e \<in> set (oc_devices oc)" and "st e = Some w"
  shows "d \<in> set (oc_devices oc) \<and> (\<exists>v. st d = Some v \<and> EffectiveFree w \<le> EffectiveFree v)"
proof -
  have fold: "(most_free st ds best free \<in> insert best (set ds)) \<and>
      (\<forall>e \<in> set ds. \<forall>w. st e = Some w \<longrightarrow> (\<exists>v. st (most_free st ds best free) = Some v \<and> EffectiveFree w \<le> EffectiveFree v)) \<and>
      (\<exists>v. st (most_free st ds best free) = Some v \<and> free \<le> EffectiveFree v)"
    if "\<exists>v. st best = Some v \<and> free = EffectiveFree v" for ds best free
    using that
  proof (induction ds arbitrary: best free)
    case (Cons x xs)
    show ?case
    proof (cases "st x")
      case None
      then show ?thesis using Cons by auto
    next
      case (Some v)
      show ?thesis
      proof (cases "free < EffectiveFree v")
        case True
        then show ?thesis using Cons.IH [of x "EffectiveFree v"] Some by auto
      next
        case False
        then show ?thesis using Cons.IH [OF Cons.prems] Some by (auto simp: not_less intro: order_trans)
      qed
    qed
  qed auto
  have start: "most_free st ds best (- 1) \<in> insert best (set ds) \<and>
      (\<forall>e \<in> set ds. \<forall>w. st e = Some w \<longrightarrow> (\<exists>v. st (most_free st ds best (- 1)) = Some v \<and> EffectiveFree w \<le> EffectiveFree v))"
    for ds best
  proof (induction ds)
    case (Cons x xs)
    show ?case
    proof (cases "st x")
      case None
      then show ?thesis using Cons by auto
    next
      case (Some v)
      then show ?thesis using fold [of x "EffectiveFree v" xs] EffectiveFree_range(1) [of v] by auto
    qed
  qed simp
  obtain x xs where "oc_devices oc = x # xs" and "d = most_free st (x # xs) x (- 1)"
    using assms(1) by (cases "oc_devices oc") (auto simp: bestDeviceForGPU_def)
  then show ?thesis using start [of "x # xs" x] assms(2,3) by auto
qed

theorem image_most_free_witness:
  "\<exists>v. sample_stats (2 * GB) = v \<and> EffectiveFree (sample_stats GB) \<le> EffectiveFree v \<and>
    bestDeviceForGPU [0 \<mapsto> sample_stats GB, 1 \<mapsto> sample_stats (2 * GB)] two_gpus = Inr 1"
proof -
  let ?st = "[0 \<mapsto> sample_stats GB, 1 \<mapsto> sample_stats (2 * GB)]"
  have best: "bestDeviceForGPU ?st two_gpus = Inr 1"
    by (simp add: bestDeviceForGPU_def two_gpus_def set_budget_def NewOrchestrator_def sample_stats_def EffectiveFree_def
        i64_def GB_def)
  have "0 \<in> set (oc_devices two_gpus)" by (simp add: two_gpus_def set_budget_def NewOrchestrator_def)
  from image_most_free [OF best this, of "sample_stats GB"] best show ?thesis by simp
qed

text \<open>\<open>Start\<close> works when the devices are numbered from 0 without gaps, and crashes otherwise.\<close>

lemma Orchestrator_Start_iff:
  "Orchestrator_Start (NewOrchestrator backend devices) \<noteq> None \<longleftrightarrow> set (map int [0..<length devices]) \<subseteq> set devices"
  by (auto simp: Orchestrator_Start_def NewOrchestrator_def Let_def list_all_iff split: if_splits)

end
