(* ===== verification/Sdn_Topology.thy ===== *)
theory Sdn_Topology
  imports Go_Strings
begin

text \<open>
  \<open>internal/sdn/topology.go\<close>: the declarative description of the network, its validation and the
  fields computed when it is parsed. Decoding YAML and SHA-256 are outside: the decoded value and the
  hash are arguments of \<open>ParseTopology\<close>, and so is \<open>net.ParseCIDR\<close>, of which only its success
  matters. A bandwidth is computed exactly and then truncated.
\<close>

definition TopologyVersion :: string where "TopologyVersion = ''1''"

record Segment =
  sg_Name :: string
  sg_Description :: string
  sg_Color :: string
  sg_Nodes :: "string list"
  sg_Internet :: string
  sg_InterSegment :: string
  sg_ClusterAccess :: string
  sg_BandwidthLimit :: string
  sg_cidr :: "string option"
  sg_bwBytes :: int

record PolicyMatch =
  pm_SrcSegment :: "string list"
  pm_DstSegment :: "string list"
  pm_SrcHost :: "string list"
  pm_DstHost :: "string list"
  pm_SrcPort :: "int list"
  pm_DstPort :: "int list"
  pm_Protocol :: string
  pm_DstCIDR :: "string list"

record QoSSpec =
  qs_Priority :: string
  qs_MaxBandwidth :: string
  qs_BandwidthGuarantee :: string
  qs_Burst :: string
  qs_maxBps :: int
  qs_guaranteeBps :: int
  qs_burstBps :: int
  qs_tcPriority :: int

record NetPolicy =
  np_Name :: string
  np_Description :: string
  np_Match :: PolicyMatch
  np_Action :: string
  np_QoS :: "QoSSpec option"
  np_ApplyTo :: "string list"
  np_priority :: int

record NetRoute =
  nr_Dst :: string
  nr_Via :: string
  nr_Metric :: int

record Topology =
  tg_Version :: string
  tg_Name :: string
  tg_Segments :: "Segment list"
  tg_Policies :: "NetPolicy list"
  tg_Routes :: "NetRoute list"
  tg_hash :: string
  tg_parsed :: time

datatype TopologyError =
    BadYAML
  | UnsupportedVersion string
  | NameRequired
  | EmptySegmentName
  | DuplicateSegment string
  | BadInternet string
  | BadInterSegment string
  | BadAction string
  | UnknownSegment string string
  | BadCIDR string string
  | PortOutOfRange string int
  | BadRoute string
  | BadBandwidthLimit string
  | BadPriority string string
  | BadMaxBandwidth string
  | BadBurst string

section \<open>Validation\<close>

definition allow_deny :: "string \<Rightarrow> bool" where
  "allow_deny s = (s = [] \<or> s = ''allow'' \<or> s = ''deny'')"

fun validate_segments :: "string set \<Rightarrow> Segment list \<Rightarrow> TopologyError + string set" where
  "validate_segments names [] = Inr names"
| "validate_segments names (seg # segs) =
     (if sg_Name seg = [] then Inl EmptySegmentName
      else if sg_Name seg \<in> names then Inl (DuplicateSegment (sg_Name seg))
      else if \<not> allow_deny (sg_Internet seg) then Inl (BadInternet (sg_Name seg))
      else if \<not> allow_deny (sg_InterSegment seg) then Inl (BadInterSegment (sg_Name seg))
      else validate_segments (insert (sg_Name seg) names) segs)"

definition validate_policy :: "(string \<Rightarrow> bool) \<Rightarrow> string set \<Rightarrow> NetPolicy \<Rightarrow> TopologyError option" where
  "validate_policy valid_cidr names p =
     (if np_Action p \<notin> {''allow'', ''deny'', ''redirect''} then Some (BadAction (np_Name p))
      else case find (\<lambda>s. s \<notin> names) (np_ApplyTo p) of
        Some s \<Rightarrow> Some (UnknownSegment (np_Name p) s)
      | None \<Rightarrow>
          (case find (\<lambda>c. \<not> valid_cidr c) (pm_DstCIDR (np_Match p)) of
             Some c \<Rightarrow> Some (BadCIDR (np_Name p) c)
           | None \<Rightarrow>
               (case find (\<lambda>port. port < 1 \<or> port > 65535) (pm_SrcPort (np_Match p) @ pm_DstPort (np_Match p)) of
                  Some port \<Rightarrow> Some (PortOutOfRange (np_Name p) port)
                | None \<Rightarrow> None)))"

fun first_error :: "('a \<Rightarrow> 'e option) \<Rightarrow> 'a list \<Rightarrow> 'e option" where
  "first_error f [] = None"
| "first_error f (x # xs) = (case f x of Some e \<Rightarrow> Some e | None \<Rightarrow> first_error f xs)"

definition validate_route :: "(string \<Rightarrow> bool) \<Rightarrow> NetRoute \<Rightarrow> TopologyError option" where
  "validate_route valid_cidr r =
     (if nr_Dst r \<noteq> ''0.0.0.0/0'' \<and> nr_Dst r \<noteq> ''::/0'' \<and> \<not> valid_cidr (nr_Dst r) then Some (BadRoute (nr_Dst r)) else None)"

definition Topology_validate :: "(string \<Rightarrow> bool) \<Rightarrow> Topology \<Rightarrow> TopologyError option" where
  "Topology_validate valid_cidr t =
     (if tg_Version t \<noteq> TopologyVersion then Some (UnsupportedVersion (tg_Version t))
      else if tg_Name t = [] then Some NameRequired
      else case validate_segments {} (tg_Segments t) of
        Inl e \<Rightarrow> Some e
      | Inr names \<Rightarrow>
          (case first_error (validate_policy valid_cidr names) (tg_Policies t) of
             Some e \<Rightarrow> Some e
           | None \<Rightarrow> first_error (validate_route valid_cidr) (tg_Routes t)))"

section \<open>Computed fields\<close>

definition computePriority :: "PolicyMatch \<Rightarrow> int" where
  "computePriority m =
     1000 - (if pm_DstHost m \<noteq> [] then 400 else 0) - (if pm_DstPort m \<noteq> [] then 200 else 0)
       - (if pm_SrcSegment m \<noteq> [] \<or> pm_DstSegment m \<noteq> [] then 100 else 0)
       - (if pm_Protocol m \<noteq> [] then 50 else 0) - (if pm_DstCIDR m \<noteq> [] then 30 else 0)"

definition is_digit :: "char \<Rightarrow> bool" where "is_digit c = (digit_val c \<noteq> None)"

text \<open>The white space \<open>\s\<close> of a regular expression.\<close>

definition re_space :: "char \<Rightarrow> bool" where
  "re_space c = (let n = of_char c :: nat in n = 32 \<or> n = 9 \<or> n = 10 \<or> n = 12 \<or> n = 13)"

text \<open>The digits of a number, the number of them after the point and the rest of the string.\<close>

definition scan_number :: "string \<Rightarrow> (string \<times> nat \<times> string) option" where
  "scan_number s =
     (let whole = takeWhile is_digit s; rest = dropWhile is_digit s
      in if whole = [] then None
         else case rest of
           [] \<Rightarrow> Some (whole, 0, rest)
         | c # cs \<Rightarrow>
             if c = CHR ''.'' \<and> takeWhile is_digit cs \<noteq> []
             then Some (whole @ takeWhile is_digit cs, length (takeWhile is_digit cs), dropWhile is_digit cs)
             else Some (whole, 0, rest))"

text \<open>Converting a number beyond the range of \<open>int64\<close> gives the smallest one, as on amd64.\<close>

definition to_int64 :: "int \<Rightarrow> int" where "to_int64 x = (if x < 2 ^ 63 then x else - (2 ^ 63))"

definition bps_factor :: "string \<Rightarrow> int option" where
  "bps_factor u =
     (if u = ''Kbps'' then Some 1000 else if u = ''Mbps'' then Some 1000000
      else if u = ''Gbps'' then Some 1000000000 else if u = ''bps'' then Some 1 else None)"

definition parseBandwidth :: "string \<Rightarrow> int option" where
  "parseBandwidth s =
     (case scan_number (trim_space s) of
        None \<Rightarrow> None
      | Some (digits, decimals, rest) \<Rightarrow>
          (case bps_factor (dropWhile re_space rest) of
             None \<Rightarrow> None
           | Some f \<Rightarrow> map_option (\<lambda>n. to_int64 (n * f div (8 * 10 ^ decimals))) (parse_digits 0 digits)))"

definition parseQoS :: "QoSSpec \<Rightarrow> TopologyError + QoSSpec" where
  "parseQoS q =
     (let prio = (if qs_Priority q = ''critical'' then Some 1 else if qs_Priority q = ''high'' then Some 2
                  else if qs_Priority q = ''normal'' \<or> qs_Priority q = [] then Some 3
                  else if qs_Priority q = ''low'' then Some 4 else None)
      in case prio of
           None \<Rightarrow> Inl (BadPriority [] (qs_Priority q))
         | Some n \<Rightarrow>
             (let q = q\<lparr>qs_tcPriority := n\<rparr>;
                  maxb = (if qs_MaxBandwidth q \<noteq> [] then parseBandwidth (qs_MaxBandwidth q) else Some (qs_maxBps q));
                  burst = (if qs_Burst q \<noteq> [] then parseBandwidth (qs_Burst q) else Some (qs_burstBps q))
              in case maxb of
                   None \<Rightarrow> Inl (BadMaxBandwidth (qs_MaxBandwidth q))
                 | Some m \<Rightarrow>
                     (case burst of
                        None \<Rightarrow> Inl (BadBurst (qs_Burst q))
                      | Some b \<Rightarrow> Inr (q\<lparr>qs_maxBps := m, qs_burstBps := b\<rparr>))))"

section \<open>Parsing\<close>

text \<open>What decoding leaves in the fields that YAML does not name: zero values.\<close>

definition fresh_segment :: "Segment \<Rightarrow> bool" where
  "fresh_segment s \<longleftrightarrow> sg_cidr s = None \<and> sg_bwBytes s = 0"

definition fresh_qos :: "QoSSpec \<Rightarrow> bool" where
  "fresh_qos q \<longleftrightarrow> qs_maxBps q = 0 \<and> qs_guaranteeBps q = 0 \<and> qs_burstBps q = 0 \<and> qs_tcPriority q = 0"

definition decoded :: "Topology \<Rightarrow> bool" where
  "decoded t \<longleftrightarrow> (\<forall>s \<in> set (tg_Segments t). fresh_segment s) \<and>
     (\<forall>p \<in> set (tg_Policies t). \<forall>q. np_QoS p = Some q \<longrightarrow> fresh_qos q)"

definition parse_segment :: "Segment \<Rightarrow> TopologyError + Segment" where
  "parse_segment s =
     (if sg_BandwidthLimit s = [] then Inr s
      else case parseBandwidth (sg_BandwidthLimit s) of
        None \<Rightarrow> Inl (BadBandwidthLimit (sg_Name s))
      | Some b \<Rightarrow> Inr (s\<lparr>sg_bwBytes := b\<rparr>))"

definition parse_policy :: "NetPolicy \<Rightarrow> TopologyError + NetPolicy" where
  "parse_policy p =
     (let p = p\<lparr>np_priority := computePriority (np_Match p)\<rparr>
      in case np_QoS p of
           None \<Rightarrow> Inr p
         | Some q \<Rightarrow> (case parseQoS q of Inl e \<Rightarrow> Inl e | Inr q \<Rightarrow> Inr (p\<lparr>np_QoS := Some q\<rparr>)))"

fun collect :: "('a \<Rightarrow> 'e + 'b) \<Rightarrow> 'a list \<Rightarrow> 'e + 'b list" where
  "collect f [] = Inr []"
| "collect f (x # xs) =
     (case f x of
        Inl e \<Rightarrow> Inl e
      | Inr y \<Rightarrow> (case collect f xs of Inl e \<Rightarrow> Inl e | Inr ys \<Rightarrow> Inr (y # ys)))"

definition ParseTopology :: "(string \<Rightarrow> bool) \<Rightarrow> time \<Rightarrow> string \<Rightarrow> Topology option \<Rightarrow> TopologyError + Topology" where
  "ParseTopology valid_cidr now hash raw =
     (case raw of
        None \<Rightarrow> Inl BadYAML
      | Some t \<Rightarrow>
          (case Topology_validate valid_cidr t of
             Some e \<Rightarrow> Inl e
           | None \<Rightarrow>
               (case collect parse_segment (tg_Segments t) of
                  Inl e \<Rightarrow> Inl e
                | Inr segs \<Rightarrow>
                    (case collect parse_policy (tg_Policies t) of
                       Inl e \<Rightarrow> Inl e
                     | Inr ps \<Rightarrow> Inr (t\<lparr>tg_Segments := segs, tg_Policies := ps, tg_hash := hash, tg_parsed := now\<rparr>)))))"

definition SegmentForNode :: "string \<Rightarrow> Topology \<Rightarrow> Segment option" where
  "SegmentForNode nodeID t = find (\<lambda>s. nodeID \<in> set (sg_Nodes s)) (tg_Segments t)"

section \<open>What validation guarantees\<close>

lemma validate_segments_Inr:
  "validate_segments names segs = Inr names' \<longleftrightarrow>
    names' = names \<union> sg_Name ` set segs \<and> distinct (map sg_Name segs) \<and> names \<inter> sg_Name ` set segs = {} \<and>
    (\<forall>s \<in> set segs. sg_Name s \<noteq> [] \<and> allow_deny (sg_Internet s) \<and> allow_deny (sg_InterSegment s))"
  by (induction segs arbitrary: names) auto

lemma topology_error_None [simp]: "first_error f xs = None \<longleftrightarrow> (\<forall>x \<in> set xs. f x = None)"
  by (induction xs) (auto split: option.split)

lemma collect_Inr: "collect f xs = Inr ys \<longleftrightarrow> list_all2 (\<lambda>x y. f x = Inr y) xs ys"
proof (induction xs arbitrary: ys)
  case (Cons x xs)
  show ?case
  proof (cases "collect f xs")
    case (Inl e)
    then show ?thesis using Cons.IH by (auto simp: list_all2_Cons1 split: sum.split)
  next
    case (Inr zs)
    then have "list_all2 (\<lambda>x y. f x = Inr y) xs ys' \<longleftrightarrow> ys' = zs" for ys' using Cons.IH [of ys'] by auto
    then show ?thesis using Inr by (auto simp: list_all2_Cons1 split: sum.split)
  qed
qed auto

lemma case_find_None:
  "(case find P xs of Some x \<Rightarrow> Some (f x) | None \<Rightarrow> y) = None \<longleftrightarrow> (\<forall>x \<in> set xs. \<not> P x) \<and> y = None"
  by (induction xs) auto

lemma case_error_None: "(case x of Some e \<Rightarrow> Some e | None \<Rightarrow> y) = None \<longleftrightarrow> x = None \<and> y = None"
  by (cases x) auto

lemma validate_policy_None:
  "validate_policy valid_cidr names p = None \<longleftrightarrow>
    np_Action p \<in> {''allow'', ''deny'', ''redirect''} \<and> set (np_ApplyTo p) \<subseteq> names \<and>
    (\<forall>c \<in> set (pm_DstCIDR (np_Match p)). valid_cidr c) \<and>
    (\<forall>port \<in> set (pm_SrcPort (np_Match p)) \<union> set (pm_DstPort (np_Match p)). 1 \<le> port \<and> port \<le> 65535)"
  by (auto simp: validate_policy_def case_find_None not_less)

definition topology_ok :: "(string \<Rightarrow> bool) \<Rightarrow> Topology \<Rightarrow> bool" where
  "topology_ok valid_cidr t \<longleftrightarrow> tg_Version t = TopologyVersion \<and> tg_Name t \<noteq> [] \<and>
     distinct (map sg_Name (tg_Segments t)) \<and>
     (\<forall>s \<in> set (tg_Segments t). sg_Name s \<noteq> [] \<and> allow_deny (sg_Internet s) \<and> allow_deny (sg_InterSegment s)) \<and>
     (\<forall>p \<in> set (tg_Policies t). np_Action p \<in> {''allow'', ''deny'', ''redirect''} \<and>
        set (np_ApplyTo p) \<subseteq> sg_Name ` set (tg_Segments t) \<and> (\<forall>c \<in> set (pm_DstCIDR (np_Match p)). valid_cidr c) \<and>
        (\<forall>port \<in> set (pm_SrcPort (np_Match p)) \<union> set (pm_DstPort (np_Match p)). 1 \<le> port \<and> port \<le> 65535)) \<and>
     (\<forall>r \<in> set (tg_Routes t). nr_Dst r = ''0.0.0.0/0'' \<or> nr_Dst r = ''::/0'' \<or> valid_cidr (nr_Dst r))"

lemma Topology_validate_None: "Topology_validate valid_cidr t = None \<longleftrightarrow> topology_ok valid_cidr t"
proof (cases "validate_segments {} (tg_Segments t)")
  case (Inl e)
  then have "\<not> topology_ok valid_cidr t" using validate_segments_Inr [of "{}" "tg_Segments t"] by (auto simp: topology_ok_def)
  then show ?thesis using Inl by (simp add: Topology_validate_def)
next
  case (Inr names)
  then have names: "names = sg_Name ` set (tg_Segments t)" "distinct (map sg_Name (tg_Segments t))"
    "\<forall>s \<in> set (tg_Segments t). sg_Name s \<noteq> [] \<and> allow_deny (sg_Internet s) \<and> allow_deny (sg_InterSegment s)"
    using validate_segments_Inr [of "{}" "tg_Segments t" names] by simp_all
  have "Topology_validate valid_cidr t = None \<longleftrightarrow> tg_Version t = TopologyVersion \<and> tg_Name t \<noteq> [] \<and>
      (\<forall>p \<in> set (tg_Policies t). validate_policy valid_cidr names p = None) \<and>
      (\<forall>r \<in> set (tg_Routes t). validate_route valid_cidr r = None)"
    by (simp add: Topology_validate_def Inr case_error_None)
  then show ?thesis unfolding topology_ok_def validate_policy_None validate_route_def using names by auto
qed

section \<open>What parsing computes\<close>

lemma parse_segment_Inr:
  "parse_segment s = Inr s' \<Longrightarrow> fresh_segment s \<Longrightarrow>
    s' = s\<lparr>sg_bwBytes := (if sg_BandwidthLimit s = [] then 0 else the (parseBandwidth (sg_BandwidthLimit s)))\<rparr>"
  by (auto simp: parse_segment_def fresh_segment_def split: if_splits option.splits)

lemma parseQoS_Inr: "parseQoS q = Inr q' \<Longrightarrow> qs_guaranteeBps q' = qs_guaranteeBps q \<and> qs_tcPriority q' \<in> {1, 2, 3, 4}"
  by (auto simp: parseQoS_def Let_def split: option.splits if_splits)

lemma parse_policy_Inr:
  "parse_policy p = Inr p' \<Longrightarrow> np_priority p' = computePriority (np_Match p) \<and> np_Match p' = np_Match p \<and>
    np_Action p' = np_Action p \<and> np_ApplyTo p' = np_ApplyTo p \<and> np_Name p' = np_Name p"
  by (auto simp: parse_policy_def Let_def split: option.splits sum.splits)

lemma computePriority_bounds: "220 \<le> computePriority m" "computePriority m \<le> 1000"
  by (simp_all add: computePriority_def)

definition parsed_ok :: "Topology \<Rightarrow> bool" where
  "parsed_ok t \<longleftrightarrow> (\<forall>s \<in> set (tg_Segments t). sg_cidr s = None) \<and>
     (\<forall>p \<in> set (tg_Policies t). np_priority p = computePriority (np_Match p) \<and>
        (\<forall>q. np_QoS p = Some q \<longrightarrow> qs_guaranteeBps q = 0 \<and> qs_tcPriority q \<in> {1, 2, 3, 4}))"

lemma parse_policy_ok:
  assumes "parse_policy p = Inr p'" and "\<forall>q. np_QoS p = Some q \<longrightarrow> fresh_qos q"
  shows "np_priority p' = computePriority (np_Match p') \<and>
    (\<forall>q. np_QoS p' = Some q \<longrightarrow> qs_guaranteeBps q = 0 \<and> qs_tcPriority q \<in> {1, 2, 3, 4})"
proof -
  have "np_QoS p' = Some q' \<Longrightarrow> \<exists>q. np_QoS p = Some q \<and> parseQoS q = Inr q'" for q'
    using assms(1) by (auto simp: parse_policy_def Let_def split: option.splits sum.splits)
  then show ?thesis using parse_policy_Inr [OF assms(1)] parseQoS_Inr assms(2) by (fastforce simp: fresh_qos_def)
qed

lemma ParseTopology_parsed:
  assumes "ParseTopology valid_cidr now hash (Some raw) = Inr t" and "decoded raw"
  shows "parsed_ok t"
proof -
  from assms(1) obtain segs ps where s: "collect parse_segment (tg_Segments raw) = Inr segs"
    and p: "collect parse_policy (tg_Policies raw) = Inr ps"
    and t: "t = raw\<lparr>tg_Segments := segs, tg_Policies := ps, tg_hash := hash, tg_parsed := now\<rparr>"
    by (auto simp: ParseTopology_def split: option.splits sum.splits)
  have "sg_cidr x = None" if "x \<in> set segs" for x
  proof -
    from that obtain i where i: "i < length segs" "x = segs ! i" by (auto simp: in_set_conv_nth)
    with s have y: "parse_segment (tg_Segments raw ! i) = Inr x" "tg_Segments raw ! i \<in> set (tg_Segments raw)"
      by (auto simp: collect_Inr list_all2_conv_all_nth)
    then have "fresh_segment (tg_Segments raw ! i)" using assms(2) by (simp add: decoded_def)
    then show ?thesis using parse_segment_Inr [OF y(1)] by (simp add: fresh_segment_def)
  qed
  moreover have "np_priority x = computePriority (np_Match x) \<and>
      (\<forall>q. np_QoS x = Some q \<longrightarrow> qs_guaranteeBps q = 0 \<and> qs_tcPriority q \<in> {1, 2, 3, 4})" if "x \<in> set ps" for x
  proof -
    from that obtain i where i: "i < length ps" "x = ps ! i" by (auto simp: in_set_conv_nth)
    with p have y: "parse_policy (tg_Policies raw ! i) = Inr x" "tg_Policies raw ! i \<in> set (tg_Policies raw)"
      by (auto simp: collect_Inr list_all2_conv_all_nth)
    then show ?thesis using parse_policy_ok [OF y(1)] assms(2) by (auto simp: decoded_def)
  qed
  ultimately show ?thesis unfolding t parsed_ok_def by simp
qed

section \<open>Bandwidths\<close>

lemma takeWhile_digits:
  assumes "\<forall>c \<in> set xs. P c" and "\<not> P y"
  shows "takeWhile P (xs @ y # ys) = xs" and "dropWhile P (xs @ y # ys) = y # ys"
  using assms by (simp_all add: takeWhile_append2 dropWhile_append2)

lemma trim_space_id:
  assumes "s \<noteq> []" and "\<not> is_space (hd s)" and "\<not> is_space (last s)"
  shows "trim_space s = s"
proof -
  have "dropWhile is_space s = s" using assms(1,2) by (cases s) simp_all
  moreover have "dropWhile is_space (rev s) = rev s" using assms(1,3) by (cases s rule: rev_cases) simp_all
  ultimately show ?thesis by (simp add: trim_space_def)
qed

text \<open>
  A bandwidth written as a whole number with its unit is read back as that many bits, in
  bytes: \<open>n\<close> Kbps, Mbps or Gbps are 125, 125000 or 125000000 times \<open>n\<close> bytes a second.
\<close>

theorem bandwidth_units:
  assumes "(u, f) \<in> {(''Kbps'', 125), (''Mbps'', 125000), (''Gbps'', 125000000)}" and "int n * f < 2 ^ 63"
  shows "parseBandwidth (show_nat n @ u) = Some (int n * f)"
proof -
  have dig: "\<forall>c \<in> set (show_nat n). is_digit c"
    by (simp add: is_digit_def show_nat_digit_val)
  have "u = ''Kbps'' \<or> u = ''Mbps'' \<or> u = ''Gbps''" using assms(1) by auto
  then have h: "u \<noteq> []" "\<not> is_digit (hd u)" "\<not> re_space (hd u)" "hd u \<noteq> CHR ''.''" "\<not> is_space (last u)"
    by (elim disjE; simp add: is_digit_def digit_val_def re_space_def is_space_def)+
  then obtain y ys where u: "u = y # ys" by (cases u) simp_all
  have y: "\<not> is_digit y" "\<not> re_space y" "y \<noteq> CHR ''.''" and l: "\<not> is_space (last u)" using h u by simp_all
  have "hd (show_nat n @ u) \<in> set (show_nat n)" using show_nat_not_empty [of n] by simp
  then have "\<not> is_space (hd (show_nat n @ u))" by (rule show_nat_not_space)
  then have "trim_space (show_nat n @ u) = show_nat n @ u" using l u by (intro trim_space_id) simp_all
  moreover have "scan_number (show_nat n @ u) = Some (show_nat n, 0, u)"
    using takeWhile_digits [where P = is_digit, OF dig y(1), of ys] y(3) show_nat_not_empty [of n] by (simp add: scan_number_def u)
  moreover have "dropWhile re_space u = u" using u y(2) by simp
  ultimately have "parseBandwidth (show_nat n @ u) =
      (case bps_factor u of None \<Rightarrow> None | Some f \<Rightarrow> Some (to_int64 (int n * f div 8)))"
    by (simp add: parseBandwidth_def parse_show_nat split: option.split)
  moreover have "bps_factor u = Some (8 * f)" using assms(1) by (auto simp: bps_factor_def)
  moreover have "int n * (8 * f) div 8 = int n * f" by (metis mult.left_commute nonzero_mult_div_cancel_left zero_neq_numeral)
  ultimately show ?thesis using assms(2) by (simp add: to_int64_def)
qed

theorem bandwidth_units_witness: "parseBandwidth (show_nat 10 @ ''Mbps'') = Some 1250000"
  using bandwidth_units [of "''Mbps''" 125000 10] by simp

end
