(* ===== verification/Sdn_Controller.thy ===== *)
theory Sdn_Controller
  imports Sdn_Topology Cluster
begin

text \<open>
  \<open>internal/sdn\<close>: the control plane (\<open>controller.go\<close>, \<open>distributor.go\<close>), versions (\<open>version.go\<close>), the
  reconciler of a node (\<open>reconciler.go\<close>) and the manager that joins them (\<open>sdn.go\<close>). Which nodes
  acknowledge a rule set and whether the kernel takes it are inputs. The state of a data plane is the
  rule set it took last, as in the userspace data plane.
\<close>

section \<open>Rule sets\<close>

datatype RuleAction = ActionAllow | ActionDeny | ActionRedirect | ActionShape

record RuleMatch =
  rm_SrcCIDRs :: "string list"
  rm_DstCIDRs :: "string list"
  rm_DstHosts :: "string list"
  rm_SrcPorts :: "int list"
  rm_DstPorts :: "int list"
  rm_Protocol :: string

definition no_match :: RuleMatch where
  "no_match = \<lparr>rm_SrcCIDRs = [], rm_DstCIDRs = [], rm_DstHosts = [], rm_SrcPorts = [], rm_DstPorts = [], rm_Protocol = []\<rparr>"

record KernelRule =
  kr_ID :: string
  kr_Priority :: int
  kr_Action :: RuleAction
  kr_Match :: RuleMatch
  kr_PolicyName :: string

record QoSBand =
  qb_ID :: string
  qb_Priority :: int
  qb_MaxBps :: int
  qb_GuarantBps :: int
  qb_BurstBps :: int
  qb_Match :: RuleMatch

record KernelRoute =
  kt_Dst :: string
  kt_Gateway :: string
  kt_Metric :: int
  kt_Dev :: string

record RuleSet =
  rs_NodeID :: string
  rs_TopologyHash :: string
  rs_Version :: nat
  rs_Rules :: "KernelRule list"
  rs_QoSBands :: "QoSBand list"
  rs_Routes :: "KernelRoute list"
  rs_ComputedAt :: time

record SdnNode =
  sn_NodeID :: string
  sn_Hostname :: string
  sn_Addrs :: "string list"
  sn_Segment :: string
  sn_Online :: bool
  sn_LastSeen :: time

section \<open>Computing rules\<close>

definition publicInternetCIDRs :: "string list" where "publicInternetCIDRs = [''0.0.0.0/0'']"

definition inter_segment_rule :: "Segment \<Rightarrow> Segment \<Rightarrow> KernelRule list" where
  "inter_segment_rule seg other =
     (if sg_Name other = sg_Name seg then []
      else case sg_cidr other of
        None \<Rightarrow> []
      | Some cidr \<Rightarrow> [\<lparr>kr_ID = ''seg-'' @ sg_Name seg @ ''-deny-'' @ sg_Name other, kr_Priority = 400, kr_Action = ActionDeny,
          kr_Match = no_match\<lparr>rm_DstCIDRs := [cidr]\<rparr>, kr_PolicyName = ''segment:'' @ sg_Name seg\<rparr>])"

definition computeSegmentRules :: "Topology \<Rightarrow> Segment option \<Rightarrow> KernelRule list" where
  "computeSegmentRules t x =
     (case x of
        None \<Rightarrow> [\<lparr>kr_ID = ''seg-default-deny'', kr_Priority = 900, kr_Action = ActionDeny, kr_Match = no_match, kr_PolicyName = []\<rparr>]
      | Some seg \<Rightarrow>
          (if sg_Internet seg = ''deny''
           then [\<lparr>kr_ID = ''seg-'' @ sg_Name seg @ ''-deny-internet'', kr_Priority = 500, kr_Action = ActionDeny,
                  kr_Match = no_match\<lparr>rm_DstCIDRs := publicInternetCIDRs\<rparr>, kr_PolicyName = ''segment:'' @ sg_Name seg\<rparr>]
           else []) @
          (if sg_InterSegment seg = ''deny'' then concat (map (inter_segment_rule seg) (tg_Segments t)) else []) @
          (if sg_ClusterAccess seg = ''deny''
           then [\<lparr>kr_ID = ''seg-'' @ sg_Name seg @ ''-deny-cluster'', kr_Priority = 300, kr_Action = ActionDeny,
                  kr_Match = no_match\<lparr>rm_DstPorts := [4892, 4893, 11434]\<rparr>, kr_PolicyName = ''segment:'' @ sg_Name seg\<rparr>]
           else []))"

definition policy_applies :: "Segment option \<Rightarrow> NetPolicy \<Rightarrow> bool" where
  "policy_applies x p =
     (case x of None \<Rightarrow> True | Some seg \<Rightarrow> np_ApplyTo p = [] \<or> sg_Name seg \<in> set (np_ApplyTo p))"

definition policy_action :: "NetPolicy \<Rightarrow> RuleAction" where
  "policy_action p =
     (if np_Action p = ''deny'' then ActionDeny
      else if np_Action p = ''redirect'' then ActionRedirect
      else if np_Action p = ''allow'' \<and> np_QoS p \<noteq> None then ActionShape
      else ActionAllow)"

definition policy_rule :: "NetPolicy \<Rightarrow> KernelRule" where
  "policy_rule p =
     \<lparr>kr_ID = ''policy-'' @ np_Name p, kr_Priority = np_priority p, kr_Action = policy_action p,
      kr_Match = \<lparr>rm_SrcCIDRs = [], rm_DstCIDRs = pm_DstCIDR (np_Match p), rm_DstHosts = pm_DstHost (np_Match p),
        rm_SrcPorts = pm_SrcPort (np_Match p), rm_DstPorts = pm_DstPort (np_Match p), rm_Protocol = pm_Protocol (np_Match p)\<rparr>,
      kr_PolicyName = np_Name p\<rparr>"

definition computePolicyRules :: "Topology \<Rightarrow> Segment option \<Rightarrow> KernelRule list" where
  "computePolicyRules t x = map policy_rule (filter (policy_applies x) (tg_Policies t))"

definition management_rule :: "string \<Rightarrow> int \<Rightarrow> RuleMatch \<Rightarrow> KernelRule" where
  "management_rule name prio m =
     \<lparr>kr_ID = ''mgmt-allow-'' @ name, kr_Priority = prio, kr_Action = ActionAllow, kr_Match = m, kr_PolicyName = ''management:'' @ name\<rparr>"

definition computeManagementRules :: "KernelRule list" where
  "computeManagementRules =
     [management_rule ''fabric-api'' 1 (no_match\<lparr>rm_DstPorts := [4892], rm_Protocol := ''tcp''\<rparr>),
      management_rule ''fabric-relay'' 1 (no_match\<lparr>rm_DstPorts := [4893], rm_Protocol := ''tcp''\<rparr>),
      management_rule ''mdns'' 1 (no_match\<lparr>rm_DstPorts := [5353], rm_Protocol := ''udp''\<rparr>),
      management_rule ''established'' 2 (no_match\<lparr>rm_Protocol := ''established''\<rparr>),
      management_rule ''loopback'' 1 (no_match\<lparr>rm_DstCIDRs := [''127.0.0.0/8'', ''::1/128'']\<rparr>)]"

definition default_band :: "string \<times> int \<Rightarrow> QoSBand" where
  "default_band x = \<lparr>qb_ID = fst x, qb_Priority = snd x, qb_MaxBps = 0, qb_GuarantBps = 0, qb_BurstBps = 0, qb_Match = no_match\<rparr>"

definition band_policy :: "NetPolicy \<Rightarrow> QoSBand \<Rightarrow> QoSBand" where
  "band_policy p band =
     (case np_QoS p of
        None \<Rightarrow> band
      | Some q \<Rightarrow>
          if qb_Priority band = qs_tcPriority q
          then band\<lparr>qb_MaxBps := qs_maxBps q, qb_BurstBps := qs_burstBps q, qb_GuarantBps := qs_guaranteeBps q,
                 qb_Match := no_match\<lparr>rm_DstPorts := pm_DstPort (np_Match p), rm_SrcPorts := pm_SrcPort (np_Match p),
                   rm_Protocol := pm_Protocol (np_Match p)\<rparr>\<rparr>
          else band)"

definition cap_band :: "int \<Rightarrow> QoSBand \<Rightarrow> QoSBand" where
  "cap_band bw band = (if qb_MaxBps band = 0 \<or> qb_MaxBps band > bw then band\<lparr>qb_MaxBps := bw\<rparr> else band)"

definition computeQoSBands :: "Topology \<Rightarrow> Segment option \<Rightarrow> QoSBand list" where
  "computeQoSBands t x =
     (let bands = map default_band [(''critical'', 1), (''high'', 2), (''normal'', 3), (''low'', 4)];
          bands = foldl (\<lambda>bands p. map (band_policy p) bands) bands (tg_Policies t)
      in case x of
           None \<Rightarrow> bands
         | Some seg \<Rightarrow> if sg_bwBytes seg > 0 then map (cap_band (sg_bwBytes seg)) bands else bands)"

definition kernel_route :: "NetRoute \<Rightarrow> KernelRoute" where
  "kernel_route r =
     \<lparr>kt_Dst = nr_Dst r, kt_Gateway = (if nr_Via r = ''auto'' \<or> nr_Via r = ''tunnel'' then [] else nr_Via r),
      kt_Metric = nr_Metric r, kt_Dev = (if nr_Via r = ''tunnel'' then ''fabric0'' else [])\<rparr>"

definition computeRoutes :: "Topology \<Rightarrow> KernelRoute list" where
  "computeRoutes t = map kernel_route (tg_Routes t)"

definition computeRuleSet :: "time \<Rightarrow> nat \<Rightarrow> Topology \<Rightarrow> SdnNode \<Rightarrow> RuleSet" where
  "computeRuleSet now version t node =
     (let seg = SegmentForNode (sn_NodeID node) t
      in \<lparr>rs_NodeID = sn_NodeID node, rs_TopologyHash = tg_hash t, rs_Version = version,
          rs_Rules = slice_sort (\<lambda>a b. kr_Priority a < kr_Priority b)
            (computeSegmentRules t seg @ computePolicyRules t seg @ computeManagementRules),
          rs_QoSBands = computeQoSBands t seg, rs_Routes = computeRoutes t, rs_ComputedAt = now\<rparr>)"

section \<open>Versions, distribution and the control plane\<close>

record VersionStore =
  vs_history :: "Topology list"
  vs_maxHistory :: nat

definition NewVersionStore :: "int \<Rightarrow> VersionStore" where
  "NewVersionStore m = \<lparr>vs_history = [], vs_maxHistory = (if m \<le> 0 then 10 else nat m)\<rparr>"

definition VersionStore_Save :: "Topology \<Rightarrow> VersionStore \<Rightarrow> VersionStore" where
  "VersionStore_Save t v =
     (let h = vs_history v @ [t] in v\<lparr>vs_history := (if length h > vs_maxHistory v then tl h else h)\<rparr>)"

definition VersionStore_Rollback :: "VersionStore \<Rightarrow> Topology option \<times> VersionStore" where
  "VersionStore_Rollback v =
     (if vs_history v = [] then (None, v) else (Some (last (vs_history v)), v\<lparr>vs_history := butlast (vs_history v)\<rparr>))"

record Controller =
  ct_topology :: "Topology option"
  ct_nodeInfo :: "string \<rightharpoonup> SdnNode"
  ct_ruleSets :: "string \<rightharpoonup> RuleSet"
  ct_versions :: VersionStore
  ct_clusterID :: string
  ct_ruleVersion :: nat

definition NewController :: "string \<Rightarrow> VersionStore \<Rightarrow> Controller" where
  "NewController clusterID versions =
     \<lparr>ct_topology = None, ct_nodeInfo = Map.empty, ct_ruleSets = Map.empty, ct_versions = versions, ct_clusterID = clusterID,
      ct_ruleVersion = 0\<rparr>"

definition UpdateNodeInfo :: "SdnNode \<Rightarrow> Controller \<Rightarrow> Controller" where
  "UpdateNodeInfo info c = c\<lparr>ct_nodeInfo := (ct_nodeInfo c)(sn_NodeID info \<mapsto> info)\<rparr>"

definition computeAllRuleSets :: "time \<Rightarrow> Topology \<Rightarrow> Controller \<Rightarrow> (string \<rightharpoonup> RuleSet)" where
  "computeAllRuleSets now t c nodeID =
     (case ct_nodeInfo c nodeID of
        None \<Rightarrow> None
      | Some info \<Rightarrow> if sn_Online info then Some (computeRuleSet now (ct_ruleVersion c) t info) else None)"

text \<open>
  \<open>Distribute\<close>: the nodes, in the order of the \<open>range\<close>, that did not acknowledge. The node itself is
  skipped.
\<close>

definition Distribute :: "string list \<Rightarrow> (string \<Rightarrow> bool) \<Rightarrow> string \<Rightarrow> (string \<rightharpoonup> RuleSet) \<Rightarrow> string list" where
  "Distribute ks acks self ruleSets = filter (\<lambda>nid. ruleSets nid \<noteq> None \<and> nid \<noteq> self \<and> \<not> acks nid) ks"

datatype SdnError =
    ParseError TopologyError
  | DistributionFailed "string list"
  | NoPreviousTopology

definition Controller_Apply :: "time \<Rightarrow> string list \<Rightarrow> (string \<Rightarrow> bool) \<Rightarrow> Topology \<Rightarrow> Controller \<Rightarrow> SdnError option \<times> Controller" where
  "Controller_Apply now ks acks t c =
     (let c = (case ct_topology c of None \<Rightarrow> c | Some old \<Rightarrow> c\<lparr>ct_versions := VersionStore_Save old (ct_versions c)\<rparr>);
          c = c\<lparr>ct_topology := Some t, ct_ruleVersion := ct_ruleVersion c + 1\<rparr>;
          ruleSets = computeAllRuleSets now t c;
          failed = Distribute ks acks (ct_clusterID c) ruleSets
      in if failed \<noteq> [] then (Some (DistributionFailed failed), c)
         else (None, c\<lparr>ct_ruleSets := ct_ruleSets c ++ ruleSets\<rparr>))"

section \<open>The reconciler of a node\<close>

record Reconciler =
  rc_installed :: "RuleSet option"
  rc_currentTarget :: "RuleSet option"
  rc_lastApplied :: "RuleSet option"
  rc_failed :: bool
  rc_lastUpdate :: time

definition NewReconciler :: Reconciler where
  "NewReconciler = \<lparr>rc_installed = None, rc_currentTarget = None, rc_lastApplied = None, rc_failed = False, rc_lastUpdate = zero_time\<rparr>"

definition Reconcile :: "time \<Rightarrow> bool \<Rightarrow> RuleSet \<Rightarrow> Reconciler \<Rightarrow> bool \<times> Reconciler" where
  "Reconcile now dp_ok rs r =
     (let r = r\<lparr>rc_currentTarget := Some rs, rc_lastUpdate := now\<rparr>;
          same = (case rc_lastApplied r of
                    None \<Rightarrow> False
                  | Some a \<Rightarrow> rs_TopologyHash a = rs_TopologyHash rs \<and> rs_Version a = rs_Version rs)
      in if same then (True, r)
         else if \<not> dp_ok then (False, r\<lparr>rc_failed := True\<rparr>)
         else (True, r\<lparr>rc_installed := Some rs, rc_lastApplied := Some rs, rc_failed := False\<rparr>))"

definition LastStatus :: "Reconciler \<Rightarrow> nat \<times> string \<times> bool" where
  "LastStatus r =
     (case rc_lastApplied r of
        None \<Rightarrow> (0, [], rc_failed r)
      | Some a \<Rightarrow> (rs_Version a, rs_TopologyHash a, rc_failed r))"

section \<open>The manager\<close>

record SdnManager =
  sm_self :: string
  sm_controller :: Controller
  sm_reconciler :: Reconciler
  sm_activeConfig :: "Topology option"

definition NewSdnManager :: "string \<Rightarrow> Topology option \<Rightarrow> SdnManager" where
  "NewSdnManager self stored =
     \<lparr>sm_self = self, sm_controller = NewController self (NewVersionStore 10), sm_reconciler = NewReconciler, sm_activeConfig = stored\<rparr>"

text \<open>A stream from a peer: \<open>None\<close> resets it, otherwise the byte answered.\<close>

definition handleRuleSetStream :: "time \<Rightarrow> bool \<Rightarrow> string \<Rightarrow> RuleSet option \<Rightarrow> Manager \<Rightarrow> SdnManager \<Rightarrow> nat option \<times> SdnManager" where
  "handleRuleSetStream now dp_ok peerID msg cl m =
     (if \<not> IsPeerTrusted peerID cl then (None, m)
      else case msg of
        None \<Rightarrow> (Some 0, m)
      | Some rs \<Rightarrow>
          (let (ok, r) = Reconcile now dp_ok rs (sm_reconciler m)
           in (Some (if ok then 1 else 0), m\<lparr>sm_reconciler := r\<rparr>)))"

definition segment_name :: "Topology \<Rightarrow> string \<Rightarrow> string" where
  "segment_name t nodeID = (case SegmentForNode nodeID t of None \<Rightarrow> [] | Some s \<Rightarrow> sg_Name s)"

definition sdn_node :: "Topology \<Rightarrow> NodeInfo \<Rightarrow> SdnNode" where
  "sdn_node t n =
     \<lparr>sn_NodeID = ni_ID n, sn_Hostname = ni_Name n, sn_Addrs = ni_Addresses n, sn_Segment = segment_name t (ni_ID n),
      sn_Online = (ni_Status n = StatusOnline), sn_LastSeen = ni_LastSeen n\<rparr>"

definition self_node :: "Topology \<Rightarrow> string \<Rightarrow> SdnNode" where
  "self_node t self =
     \<lparr>sn_NodeID = self, sn_Hostname = self, sn_Addrs = [], sn_Segment = segment_name t self, sn_Online = True, sn_LastSeen = zero_time\<rparr>"

definition reconcile_self :: "time \<Rightarrow> bool \<Rightarrow> Topology \<Rightarrow> SdnManager \<Rightarrow> SdnManager" where
  "reconcile_self now dp_ok t m =
     m\<lparr>sm_reconciler := snd (Reconcile now dp_ok
        (computeRuleSet now (ct_ruleVersion (sm_controller m)) t (self_node t (sm_self m))) (sm_reconciler m))\<rparr>"

definition ApplyTopology ::
  "time \<Rightarrow> string list \<Rightarrow> string list \<Rightarrow> (string \<Rightarrow> bool) \<Rightarrow> bool \<Rightarrow> TopologyError + Topology \<Rightarrow> Manager \<Rightarrow> SdnManager \<Rightarrow>
    SdnError option \<times> SdnManager" where
  "ApplyTopology now ks ks' acks dp_ok parsed cl m =
     (case parsed of
        Inl e \<Rightarrow> (Some (ParseError e), m)
      | Inr t \<Rightarrow>
          (let c = foldl (\<lambda>c n. UpdateNodeInfo (sdn_node t n) c) (sm_controller m) (Manager_List ks cl);
               c = UpdateNodeInfo (self_node t (sm_self m)) c;
               (err, c) = Controller_Apply now ks' acks t c;
               m = m\<lparr>sm_controller := c\<rparr>
           in case err of
                Some e \<Rightarrow> (Some e, m)
              | None \<Rightarrow> (None, reconcile_self now dp_ok t (m\<lparr>sm_activeConfig := Some t\<rparr>))))"

definition SdnManager_Rollback ::
  "time \<Rightarrow> string list \<Rightarrow> (string \<Rightarrow> bool) \<Rightarrow> bool \<Rightarrow> SdnManager \<Rightarrow> SdnError option \<times> SdnManager" where
  "SdnManager_Rollback now ks acks dp_ok m =
     (let (prev, versions) = VersionStore_Rollback (ct_versions (sm_controller m));
          m = m\<lparr>sm_controller := (sm_controller m)\<lparr>ct_versions := versions\<rparr>\<rparr>
      in case prev of
           None \<Rightarrow> (Some NoPreviousTopology, m)
         | Some t \<Rightarrow>
             (let (err, c) = Controller_Apply now ks acks t (sm_controller m);
                  m = m\<lparr>sm_controller := c\<rparr>
              in case err of
                   Some e \<Rightarrow> (Some e, m)
                 | None \<Rightarrow> (None, reconcile_self now dp_ok t (m\<lparr>sm_activeConfig := Some t\<rparr>))))"

section \<open>First match: what a rule set means\<close>

text \<open>
  A packet, its addresses judged by \<open>in_cidr\<close> and \<open>is_host\<close>; a criterion left empty matches all
  packets; the first rule that matches decides, and a packet no rule matches is dropped.
\<close>

record packet =
  pk_src :: string
  pk_dst :: string
  pk_sport :: int
  pk_dport :: int
  pk_proto :: string
  pk_established :: bool

definition matches :: "(string \<Rightarrow> string \<Rightarrow> bool) \<Rightarrow> (string \<Rightarrow> string \<Rightarrow> bool) \<Rightarrow> RuleMatch \<Rightarrow> packet \<Rightarrow> bool" where
  "matches in_cidr is_host m p \<longleftrightarrow>
     (rm_SrcCIDRs m = [] \<or> list_ex (in_cidr (pk_src p)) (rm_SrcCIDRs m)) \<and>
     (rm_DstCIDRs m = [] \<or> list_ex (in_cidr (pk_dst p)) (rm_DstCIDRs m)) \<and>
     (rm_DstHosts m = [] \<or> list_ex (is_host (pk_dst p)) (rm_DstHosts m)) \<and>
     (rm_SrcPorts m = [] \<or> pk_sport p \<in> set (rm_SrcPorts m)) \<and>
     (rm_DstPorts m = [] \<or> pk_dport p \<in> set (rm_DstPorts m)) \<and>
     (rm_Protocol m = [] \<or> rm_Protocol m = pk_proto p \<or> rm_Protocol m = ''established'' \<and> pk_established p)"

definition verdict :: "(string \<Rightarrow> string \<Rightarrow> bool) \<Rightarrow> (string \<Rightarrow> string \<Rightarrow> bool) \<Rightarrow> KernelRule list \<Rightarrow> packet \<Rightarrow> RuleAction" where
  "verdict in_cidr is_host rules p =
     (case find (\<lambda>r. matches in_cidr is_host (kr_Match r) p) rules of None \<Rightarrow> ActionDeny | Some r \<Rightarrow> kr_Action r)"

definition by_priority :: "KernelRule \<Rightarrow> KernelRule \<Rightarrow> bool" where
  "by_priority a b = (kr_Priority a < kr_Priority b)"

lemma weak_order_by_priority: "weak_order by_priority"
  unfolding by_priority_def [abs_def] by (rule weak_order_key)

lemma rules_eq:
  "rs_Rules (computeRuleSet now v t node) = slice_sort by_priority
    (computeSegmentRules t (SegmentForNode (sn_NodeID node) t) @
     computePolicyRules t (SegmentForNode (sn_NodeID node) t) @ computeManagementRules)"
  by (simp add: computeRuleSet_def Let_def by_priority_def [abs_def])

lemma set_rules:
  "set (rs_Rules (computeRuleSet now v t node)) =
    set (computeSegmentRules t (SegmentForNode (sn_NodeID node) t)) \<union>
    set (computePolicyRules t (SegmentForNode (sn_NodeID node) t)) \<union> set computeManagementRules"
  by (simp add: rules_eq Un_assoc)

lemma segment_rule_priority: "r \<in> set (computeSegmentRules t x) \<Longrightarrow> 300 \<le> kr_Priority r"
  by (auto simp: computeSegmentRules_def inter_segment_rule_def split: option.splits if_splits)

lemma policy_rule_priority: "parsed_ok t \<Longrightarrow> r \<in> set (computePolicyRules t x) \<Longrightarrow> 220 \<le> kr_Priority r"
  by (auto simp: computePolicyRules_def policy_rule_def parsed_ok_def computePriority_bounds)

lemma management_action: "r \<in> set computeManagementRules \<Longrightarrow> kr_Action r = ActionAllow \<and> kr_Priority r \<le> 2"
  by (auto simp: computeManagementRules_def management_rule_def)

text \<open>In a list sorted by priority the first match has the least priority among the matches.\<close>

lemma first_match_least:
  assumes "slice_sorted by_priority rules" and "find P rules = Some r" and "q \<in> set rules" and "P q"
  shows "kr_Priority r \<le> kr_Priority q"
proof -
  from assms(2) obtain i where i: "i < length rules" "P (rules ! i)" "r = rules ! i" "\<forall>j < i. \<not> P (rules ! j)"
    by (auto simp: find_Some_iff)
  from assms(3) obtain j where j: "j < length rules" "q = rules ! j" by (auto simp: in_set_conv_nth)
  then have "i \<le> j" using i(4) assms(4) by (metis not_less)
  then have "i = j \<or> \<not> by_priority (rules ! j) (rules ! i)"
    using assms(1) i(1) j(1) by (auto simp: slice_sorted_def sorted_wrt_iff_nth_less le_less)
  then show ?thesis using i(3) j(2) by (auto simp: by_priority_def)
qed


definition sample_segment :: "string \<Rightarrow> string list \<Rightarrow> Segment" where
  "sample_segment name nodes = \<lparr>sg_Name = name, sg_Description = [], sg_Color = [], sg_Nodes = nodes, sg_Internet = ''deny'',
     sg_InterSegment = ''deny'', sg_ClusterAccess = ''deny'', sg_BandwidthLimit = [], sg_cidr = None, sg_bwBytes = 0\<rparr>"

definition sample_policy :: NetPolicy where
  "sample_policy = \<lparr>np_Name = ''p'', np_Description = [], np_Match = \<lparr>pm_SrcSegment = [''iot''], pm_DstSegment = [''office''],
       pm_SrcHost = [], pm_DstHost = [], pm_SrcPort = [], pm_DstPort = [], pm_Protocol = [], pm_DstCIDR = []\<rparr>,
     np_Action = ''deny'', np_QoS = None, np_ApplyTo = [''iot''], np_priority = 0\<rparr>"

definition sample_topology :: Topology where
  "sample_topology = \<lparr>tg_Version = ''1'', tg_Name = ''home'', tg_Segments = [sample_segment ''iot'' [''n1''], sample_segment ''office'' [''n2'']],
     tg_Policies = [sample_policy], tg_Routes = [], tg_hash = [], tg_parsed = 0\<rparr>"

definition sample_parsed :: Topology where
  "sample_parsed = sample_topology\<lparr>tg_Policies := [sample_policy\<lparr>np_priority := 900\<rparr>], tg_hash := ''h'', tg_parsed := 7\<rparr>"

definition sample_sdn_node :: "string \<Rightarrow> SdnNode" where
  "sample_sdn_node n = \<lparr>sn_NodeID = n, sn_Hostname = n, sn_Addrs = [], sn_Segment = [], sn_Online = True, sn_LastSeen = 0\<rparr>"

lemma sample_parse: "ParseTopology (\<lambda>c. False) 7 ''h'' (Some sample_topology) = Inr sample_parsed" and sample_decoded: "decoded sample_topology"
  by (simp_all add: ParseTopology_def Topology_validate_def sample_topology_def sample_segment_def sample_policy_def TopologyVersion_def
      allow_deny_def validate_policy_def parse_segment_def parse_policy_def computePriority_def sample_parsed_def decoded_def fresh_segment_def)


section \<open>Settings without effect\<close>

definition open_segment :: "Segment \<Rightarrow> Segment" where "open_segment s = s\<lparr>sg_InterSegment := ''allow''\<rparr>"

lemma find_map: "find P (map f xs) = map_option f (find (P \<circ> f) xs)"
  by (induction xs) simp_all

lemma SegmentForNode_open:
  "SegmentForNode n (t\<lparr>tg_Segments := map open_segment (tg_Segments t)\<rparr>) = map_option open_segment (SegmentForNode n t)"
  by (simp add: SegmentForNode_def find_map comp_def open_segment_def)

text \<open>
  The setting \<open>inter_segment: deny\<close> does nothing. The address range of a segment is never
  computed, so the loop that should close it towards the others adds no rule: every node gets the
  same rule set as if all segments allowed all traffic between them.
\<close>

theorem inter_segment_ignored:
  assumes "ParseTopology valid_cidr now hash (Some raw) = Inr t" and "decoded raw"
  shows "computeRuleSet now' v (t\<lparr>tg_Segments := map open_segment (tg_Segments t)\<rparr>) node = computeRuleSet now' v t node"
proof -
  let ?t = "t\<lparr>tg_Segments := map open_segment (tg_Segments t)\<rparr>"
  let ?x = "SegmentForNode (sn_NodeID node) t"
  have cidr: "\<forall>s \<in> set (tg_Segments t). sg_cidr s = None" using ParseTopology_parsed [OF assms] by (simp add: parsed_ok_def)
  then have none: "concat (map (inter_segment_rule seg) (tg_Segments t)) = []" for seg by (auto simp: inter_segment_rule_def)
  have "computeSegmentRules ?t (map_option open_segment ?x) = computeSegmentRules t ?x"
    by (cases ?x) (simp_all add: computeSegmentRules_def none open_segment_def)
  moreover have "policy_applies (map_option open_segment ?x) = policy_applies ?x"
    by (cases ?x) (simp_all add: fun_eq_iff policy_applies_def open_segment_def)
  moreover have "computeQoSBands ?t (map_option open_segment ?x) = computeQoSBands t ?x"
    by (cases ?x) (simp_all add: computeQoSBands_def open_segment_def Let_def)
  ultimately show ?thesis
    by (simp add: computeRuleSet_def Let_def SegmentForNode_open computePolicyRules_def computeRoutes_def)
qed

theorem inter_segment_ignored_witness:
  "computeRuleSet 8 1 (sample_parsed\<lparr>tg_Segments := map open_segment (tg_Segments sample_parsed)\<rparr>) (sample_sdn_node ''n1'') =
   computeRuleSet 8 1 sample_parsed (sample_sdn_node ''n1'')"
  by (rule inter_segment_ignored [OF sample_parse sample_decoded])

text \<open>
  The source and destination segments of a policy, and its source hosts, never reach the
  kernel: two policies that differ in nothing else compile to rules that match the same packets. A
  policy that names only those matches every packet, at a priority at which it comes after the
  segment rules.
\<close>

theorem policy_segments_ignored:
  assumes "np_Match p = m" and "np_Match q = m\<lparr>pm_SrcSegment := ss, pm_DstSegment := ds, pm_SrcHost := hs\<rparr>"
  shows "kr_Match (policy_rule p) = kr_Match (policy_rule q) \<and>
    (pm_DstHost m = [] \<and> pm_SrcPort m = [] \<and> pm_DstPort m = [] \<and> pm_Protocol m = [] \<and> pm_DstCIDR m = [] \<longrightarrow>
      (\<forall>in_cidr is_host pkt. matches in_cidr is_host (kr_Match (policy_rule p)) pkt) \<and> computePriority m \<in> {900, 1000})"
  using assms by (simp add: policy_rule_def matches_def computePriority_def)

theorem policy_segments_ignored_witness:
  "\<forall>pkt. matches (\<lambda>a c. False) (\<lambda>a h. False) (kr_Match (policy_rule sample_policy)) pkt"
proof -
  have "pm_DstHost (np_Match sample_policy) = [] \<and> pm_SrcPort (np_Match sample_policy) = [] \<and>
    pm_DstPort (np_Match sample_policy) = [] \<and> pm_Protocol (np_Match sample_policy) = [] \<and> pm_DstCIDR (np_Match sample_policy) = []"
    by (simp add: sample_policy_def)
  moreover have "np_Match sample_policy = (np_Match sample_policy)\<lparr>pm_SrcSegment := [''iot''], pm_DstSegment := [''office''], pm_SrcHost := []\<rparr>"
    by (simp add: sample_policy_def)
  ultimately show ?thesis using policy_segments_ignored [where p = sample_policy and q = sample_policy, OF refl] by blast
qed

text \<open>A node outside all segments gets every policy, those limited to some segments included.\<close>

lemma unsegmented_gets_all: "computePolicyRules t None = map policy_rule (tg_Policies t)"
  by (simp add: computePolicyRules_def policy_applies_def)

text \<open>
  User policies were to override the defaults of segments. Only one that names destination hosts and
  is narrowed further comes before the rule that closes the internet, at priority 500.
\<close>

lemma policy_before_internet_deny:
  "computePriority m < 500 \<longleftrightarrow> pm_DstHost m \<noteq> [] \<and>
    (pm_DstPort m \<noteq> [] \<or> (pm_SrcSegment m \<noteq> [] \<or> pm_DstSegment m \<noteq> []) \<and> (pm_Protocol m \<noteq> [] \<or> pm_DstCIDR m \<noteq> []))"
  by (auto simp: computePriority_def)

section \<open>Shaping\<close>

lemma bands_length: "map qb_Priority (foldl (\<lambda>bands p. map (band_policy p) bands) bs ps) = map qb_Priority bs"
  by (induction ps arbitrary: bs) (auto simp: band_policy_def split: option.split)

lemma bands_guarantee:
  assumes "\<forall>p \<in> set ps. \<forall>q. np_QoS p = Some q \<longrightarrow> qs_guaranteeBps q = 0" and "\<forall>b \<in> set bs. qb_GuarantBps b = 0"
  shows "\<forall>b \<in> set (foldl (\<lambda>bands p. map (band_policy p) bands) bs ps). qb_GuarantBps b = 0"
  using assms
proof (induction ps arbitrary: bs)
  case (Cons p ps)
  have "\<forall>b \<in> set (map (band_policy p) bs). qb_GuarantBps b = 0"
    using Cons.prems by (auto simp: band_policy_def split: option.split)
  from Cons.IH [OF _ this] Cons.prems(1) show ?case by simp
qed simp

text \<open>
  Every node has the four bands; in a segment with a bandwidth limit none of them may use
  more than the limit, and no band of any node has guaranteed bandwidth: the guarantee a policy asks
  for is never parsed.
\<close>

theorem qos_bands:
  assumes "ParseTopology valid_cidr now hash (Some raw) = Inr t" and "decoded raw"
  shows "map qb_Priority (computeQoSBands t x) = [1, 2, 3, 4] \<and>
    (\<forall>b \<in> set (computeQoSBands t x). qb_GuarantBps b = 0 \<and>
      (\<forall>seg. x = Some seg \<longrightarrow> 0 < sg_bwBytes seg \<longrightarrow> qb_MaxBps b \<le> sg_bwBytes seg \<and> qb_MaxBps b \<noteq> 0))"
proof -
  let ?bands = "foldl (\<lambda>bands p. map (band_policy p) bands) (map default_band [(''critical'', 1), (''high'', 2), (''normal'', 3), (''low'', 4)]) (tg_Policies t)"
  have "map qb_Priority ?bands = [1, 2, 3, 4]" unfolding bands_length by (simp add: default_band_def)
  moreover have "\<forall>b \<in> set ?bands. qb_GuarantBps b = 0"
    using ParseTopology_parsed [OF assms] by (intro bands_guarantee) (auto simp: parsed_ok_def default_band_def)
  moreover have "map qb_Priority (map (cap_band bw) bs) = map qb_Priority bs" for bw bs by (simp add: cap_band_def)
  ultimately show ?thesis unfolding computeQoSBands_def Let_def
    by (cases x) (auto simp: cap_band_def)
qed

theorem qos_bands_witness: "map qb_Priority (computeQoSBands sample_parsed None) = [1, 2, 3, 4]"
  using qos_bands [OF sample_parse sample_decoded] by blast

end
