(* ===== verification/Sdn_Versions.thy ===== *)
theory Sdn_Versions
  imports Sdn_Controller
begin

text \<open>
  What the manager of \<open>internal/sdn\<close> does over several calls: rollbacks, failed distributions, rule
  sets that arrive late, and the collector of flow statistics (\<open>telemetry.go\<close>), where the flow
  evicted from a full table is the first of a \<open>range\<close>, an argument here.
\<close>

section \<open>The version store\<close>

lemma Save_bounded: "0 < vs_maxHistory v \<Longrightarrow> length (vs_history v) \<le> vs_maxHistory v \<Longrightarrow>
    length (vs_history (VersionStore_Save t v)) \<le> vs_maxHistory v \<and> vs_maxHistory (VersionStore_Save t v) = vs_maxHistory v"
  by (auto simp: VersionStore_Save_def Let_def)

lemma Rollback_bounded: "length (vs_history v) \<le> vs_maxHistory v \<Longrightarrow>
    length (vs_history (snd (VersionStore_Rollback v))) \<le> vs_maxHistory v"
  by (auto simp: VersionStore_Rollback_def)

lemma Apply_state:
  "Controller_Apply now ks acks t c = (err, c') \<Longrightarrow>
    ct_topology c' = Some t \<and> ct_ruleVersion c' = ct_ruleVersion c + 1 \<and> ct_nodeInfo c' = ct_nodeInfo c \<and> ct_clusterID c' = ct_clusterID c \<and>
    ct_versions c' = (case ct_topology c of None \<Rightarrow> ct_versions c | Some old \<Rightarrow> VersionStore_Save old (ct_versions c))"
  by (auto simp: Controller_Apply_def Let_def split: if_splits option.splits)

lemma Rollback_state:
  assumes "SdnManager_Rollback now ks acks dp_ok m = (None, m')" and "ct_topology (sm_controller m) = Some t"
    and "length (vs_history (ct_versions (sm_controller m))) \<le> vs_maxHistory (ct_versions (sm_controller m))"
  shows "\<exists>h p. vs_history (ct_versions (sm_controller m)) = h @ [p] \<and> ct_topology (sm_controller m') = Some p \<and>
    vs_history (ct_versions (sm_controller m')) = h @ [t] \<and> sm_activeConfig m' = Some p \<and>
    vs_maxHistory (ct_versions (sm_controller m')) = vs_maxHistory (ct_versions (sm_controller m))"
proof -
  let ?v = "ct_versions (sm_controller m)"
  obtain p where p: "VersionStore_Rollback ?v = (Some p, ?v\<lparr>vs_history := butlast (vs_history ?v)\<rparr>)" "vs_history ?v \<noteq> []" "p = last (vs_history ?v)"
    using assms(1) by (auto simp: SdnManager_Rollback_def VersionStore_Rollback_def split: if_splits)
  let ?c = "(sm_controller m)\<lparr>ct_versions := ?v\<lparr>vs_history := butlast (vs_history ?v)\<rparr>\<rparr>"
  obtain c where c: "Controller_Apply now ks acks p ?c = (None, c)" "sm_controller m' = c" "sm_activeConfig m' = Some p"
    using assms(1) p(1) by (auto simp: SdnManager_Rollback_def reconcile_self_def Let_def split: prod.splits option.splits)
  have "length (butlast (vs_history ?v) @ [t]) \<le> vs_maxHistory ?v" using assms(3) p(2) by (cases "vs_history ?v") auto
  then have "vs_history (ct_versions c) = butlast (vs_history ?v) @ [t] \<and> vs_maxHistory (ct_versions c) = vs_maxHistory ?v \<and> ct_topology c = Some p"
    using Apply_state [OF c(1)] assms(2) by (simp add: VersionStore_Save_def Let_def)
  then show ?thesis using c p by (intro exI [of _ "butlast (vs_history ?v)"] exI [of _ p]) simp
qed

text \<open>
  A rollback undoes a rollback: the topology it leaves is saved as the previous one, so rolling
  back twice returns to where one started. However often it is called, no topology but the last two
  is ever reached, whatever the history holds.
\<close>

theorem rollback_involution:
  assumes "SdnManager_Rollback now ks acks dp_ok m = (None, m1)" and "SdnManager_Rollback now' ks' acks' dp_ok' m1 = (None, m2)"
    and "ct_topology (sm_controller m) = Some t"
    and "length (vs_history (ct_versions (sm_controller m))) \<le> vs_maxHistory (ct_versions (sm_controller m))"
  shows "ct_topology (sm_controller m2) = Some t \<and> sm_activeConfig m2 = Some t \<and>
    vs_history (ct_versions (sm_controller m2)) = vs_history (ct_versions (sm_controller m))"
proof -
  from Rollback_state [OF assms(1,3,4)] obtain h p where p: "vs_history (ct_versions (sm_controller m)) = h @ [p]"
    "ct_topology (sm_controller m1) = Some p" "vs_history (ct_versions (sm_controller m1)) = h @ [t]"
    "vs_maxHistory (ct_versions (sm_controller m1)) = vs_maxHistory (ct_versions (sm_controller m))" by blast
  then have "length (vs_history (ct_versions (sm_controller m1))) \<le> vs_maxHistory (ct_versions (sm_controller m1))"
    using assms(4) by simp
  from Rollback_state [OF assms(2) p(2) this] show ?thesis using p by auto
qed

definition named_topology :: "string \<Rightarrow> Topology" where
  "named_topology name = \<lparr>tg_Version = ''1'', tg_Name = name, tg_Segments = [], tg_Policies = [], tg_Routes = [], tg_hash = name, tg_parsed = 0\<rparr>"

definition thrice_applied :: SdnManager where
  "thrice_applied = foldl (\<lambda>m name. snd (ApplyTopology 0 [] [''self''] (\<lambda>n. True) True (Inr (named_topology name)) (NewManager False) m))
     (NewSdnManager ''self'' None) [''A'', ''B'', ''C'']"

lemma Manager_List_New [simp]: "Manager_List [] m = []"
  by (simp add: Manager_List_def)

lemma Apply_self_only:
  "Controller_Apply now ks (\<lambda>n. True) t c =
    (let c' = (case ct_topology c of None \<Rightarrow> c | Some old \<Rightarrow> c\<lparr>ct_versions := VersionStore_Save old (ct_versions c)\<rparr>);
         c' = c'\<lparr>ct_topology := Some t, ct_ruleVersion := ct_ruleVersion c' + 1\<rparr>
     in (None, c'\<lparr>ct_ruleSets := ct_ruleSets c' ++ computeAllRuleSets now t c'\<rparr>))"
  by (simp add: Controller_Apply_def Distribute_def Let_def)

lemma thrice_state:
  "ct_topology (sm_controller thrice_applied) = Some (named_topology ''C'')"
  "vs_history (ct_versions (sm_controller thrice_applied)) = [named_topology ''A'', named_topology ''B'']"
  "vs_maxHistory (ct_versions (sm_controller thrice_applied)) = 10"
  by (simp_all add: thrice_applied_def ApplyTopology_def Apply_self_only Let_def reconcile_self_def UpdateNodeInfo_def
      NewSdnManager_def NewController_def NewVersionStore_def VersionStore_Save_def)

lemma rollback_ok:
  "vs_history (ct_versions (sm_controller m)) \<noteq> [] \<Longrightarrow> \<exists>m'. SdnManager_Rollback now ks (\<lambda>n. True) ok m = (None, m')"
  by (simp add: SdnManager_Rollback_def VersionStore_Rollback_def Apply_self_only Let_def)

theorem rollback_involution_witness:
  "\<exists>m1 m2. SdnManager_Rollback 1 [] (\<lambda>n. True) True thrice_applied = (None, m1) \<and>
    SdnManager_Rollback 2 [] (\<lambda>n. True) True m1 = (None, m2) \<and> sm_activeConfig m2 = Some (named_topology ''C'')"
proof -
  obtain m1 where m1: "SdnManager_Rollback 1 [] (\<lambda>n. True) True thrice_applied = (None, m1)"
    using rollback_ok [of thrice_applied 1 "[]" True] thrice_state(2) by auto
  have len: "length (vs_history (ct_versions (sm_controller thrice_applied))) \<le> vs_maxHistory (ct_versions (sm_controller thrice_applied))"
    by (simp add: thrice_state)
  from Rollback_state [OF m1 thrice_state(1) len] have "vs_history (ct_versions (sm_controller m1)) \<noteq> []" by auto
  then obtain m2 where m2: "SdnManager_Rollback 2 [] (\<lambda>n. True) True m1 = (None, m2)" using rollback_ok by blast
  from rollback_involution [OF m1 m2 thrice_state(1) len] m1 m2 show ?thesis by blast
qed

section \<open>Failures\<close>

text \<open>
  Applying a topology is not atomic. When one node does not acknowledge, the call fails and
  the manager still reports and stores the old configuration, but the controller has already taken
  the new one under a new version, and what it replaced has gone into the history.
\<close>

theorem apply_failure_not_undone:
  assumes "ApplyTopology now ks ks' acks dp_ok (Inr t) cl m = (Some err, m')" and "ct_topology (sm_controller m) = Some old"
    and "length (vs_history (ct_versions (sm_controller m))) < vs_maxHistory (ct_versions (sm_controller m))"
  shows "(\<exists>nodes. err = DistributionFailed nodes \<and> nodes \<noteq> [] \<and> (\<forall>n \<in> set nodes. \<not> acks n)) \<and>
    sm_activeConfig m' = sm_activeConfig m \<and> sm_reconciler m' = sm_reconciler m \<and>
    ct_topology (sm_controller m') = Some t \<and> ct_ruleVersion (sm_controller m') = ct_ruleVersion (sm_controller m) + 1 \<and>
    vs_history (ct_versions (sm_controller m')) = vs_history (ct_versions (sm_controller m)) @ [old]"
proof -
  let ?c0 = "UpdateNodeInfo (self_node t (sm_self m)) (foldl (\<lambda>c n. UpdateNodeInfo (sdn_node t n) c) (sm_controller m) (Manager_List ks cl))"
  have upd: "ct_topology (UpdateNodeInfo i c) = ct_topology c \<and> ct_versions (UpdateNodeInfo i c) = ct_versions c \<and>
      ct_ruleVersion (UpdateNodeInfo i c) = ct_ruleVersion c" for i c by (simp add: UpdateNodeInfo_def)
  have "ct_topology (foldl (\<lambda>c n. UpdateNodeInfo (sdn_node t n) c) c ns) = ct_topology c \<and>
      ct_versions (foldl (\<lambda>c n. UpdateNodeInfo (sdn_node t n) c) c ns) = ct_versions c \<and>
      ct_ruleVersion (foldl (\<lambda>c n. UpdateNodeInfo (sdn_node t n) c) c ns) = ct_ruleVersion c" for ns c
    by (induction ns arbitrary: c) (simp_all add: upd)
  then have c0: "ct_topology ?c0 = Some old" "ct_versions ?c0 = ct_versions (sm_controller m)"
    "ct_ruleVersion ?c0 = ct_ruleVersion (sm_controller m)" using assms(2) by (simp_all add: upd)
  obtain c where c: "Controller_Apply now ks' acks t ?c0 = (Some err, c)" "m' = m\<lparr>sm_controller := c\<rparr>"
    using assms(1) by (auto simp: ApplyTopology_def Let_def split: prod.splits option.splits)
  have "\<exists>nodes. err = DistributionFailed nodes \<and> nodes \<noteq> [] \<and> (\<forall>n \<in> set nodes. \<not> acks n)"
    using c(1) by (auto simp: Controller_Apply_def Let_def Distribute_def split: if_splits)
  then show ?thesis using Apply_state [OF c(1)] c0 assms(3) by (simp add: c(2) VersionStore_Save_def Let_def)
qed

definition two_nodes :: Manager where
  "two_nodes = sample_cluster [''n2'' \<mapsto> sample_node ''n2'' StatusOnline 0 0]"

theorem apply_failure_not_undone_witness:
  "\<exists>err m'. ApplyTopology 1 [''n2''] [''n2'', ''self''] (\<lambda>n. False) True (Inr (named_topology ''D'')) two_nodes thrice_applied = (Some err, m') \<and>
    sm_activeConfig m' = Some (named_topology ''C'') \<and> ct_topology (sm_controller m') = Some (named_topology ''D'')"
proof -
  let ?r = "ApplyTopology 1 [''n2''] [''n2'', ''self''] (\<lambda>n. False) True (Inr (named_topology ''D'')) two_nodes thrice_applied"
  have list: "Manager_List [''n2''] two_nodes = [sample_node ''n2'' StatusOnline 0 0]"
    by (simp add: Manager_List_def two_nodes_def)
  have self: "sm_self thrice_applied = ''self''" "ct_clusterID (sm_controller thrice_applied) = ''self''"
    "sm_activeConfig thrice_applied = Some (named_topology ''C'')"
    by (simp_all add: thrice_applied_def ApplyTopology_def Apply_self_only Let_def reconcile_self_def UpdateNodeInfo_def
        NewSdnManager_def NewController_def NewVersionStore_def VersionStore_Save_def)
  have "fst ?r \<noteq> None"
    by (simp add: ApplyTopology_def Controller_Apply_def Let_def list self thrice_state UpdateNodeInfo_def Distribute_def computeAllRuleSets_def
        sdn_node_def self_node_def sample_node_def)
  then obtain err m' where r: "?r = (Some err, m')" by (cases ?r) auto
  have "length (vs_history (ct_versions (sm_controller thrice_applied))) < vs_maxHistory (ct_versions (sm_controller thrice_applied))"
    by (simp add: thrice_state)
  from apply_failure_not_undone [OF r thrice_state(1) this] r self(3) show ?thesis by auto
qed

text \<open>
  A node installs the rule set it received last, not the newest. Any trusted peer may send
  one, the coordinator or not, and a rule set of an older version replaces a newer one; only a
  message with the version and hash installed last is skipped, and it is acknowledged even if the
  kernel refused a rule set since.
\<close>

theorem stale_rules_installed:
  assumes "IsPeerTrusted peer cl" and "rc_lastApplied (sm_reconciler m) = Some cur" and "rs_Version rs < rs_Version cur"
    and "handleRuleSetStream now dp_ok peer (Some rs) cl m = (reply, m')"
  shows "(if dp_ok then reply = Some 1 \<and> rc_installed (sm_reconciler m') = Some rs \<and> rc_lastApplied (sm_reconciler m') = Some rs
      else reply = Some 0 \<and> rc_lastApplied (sm_reconciler m') = Some cur \<and>
        (\<exists>m''. handleRuleSetStream now' ok' peer (Some cur) cl m' = (Some 1, m'') \<and> rc_failed (sm_reconciler m'')))"
  using assms by (cases dp_ok) (auto simp: handleRuleSetStream_def Reconcile_def Let_def)

definition sample_rules :: "nat \<Rightarrow> RuleSet" where
  "sample_rules v = \<lparr>rs_NodeID = ''self'', rs_TopologyHash = show_nat v, rs_Version = v, rs_Rules = [], rs_QoSBands = [], rs_Routes = [],
     rs_ComputedAt = 0\<rparr>"

theorem stale_rules_installed_witness:
  "\<exists>m'. handleRuleSetStream 5 True ''peer'' (Some (sample_rules 1)) (TrustPeer ''peer'' (NewManager False))
      ((NewSdnManager ''self'' None)\<lparr>sm_reconciler := snd (Reconcile 4 True (sample_rules 2) NewReconciler)\<rparr>) = (Some 1, m') \<and>
    rc_installed (sm_reconciler m') = Some (sample_rules 1)"
proof -
  let ?m = "(NewSdnManager ''self'' None)\<lparr>sm_reconciler := snd (Reconcile 4 True (sample_rules 2) NewReconciler)\<rparr>"
  have t: "IsPeerTrusted ''peer'' (TrustPeer ''peer'' (NewManager False))" by (simp add: IsPeerTrusted_def TrustPeer_def)
  have a: "rc_lastApplied (sm_reconciler ?m) = Some (sample_rules 2)" by (simp add: Reconcile_def NewReconciler_def Let_def)
  have v: "rs_Version (sample_rules 1) < rs_Version (sample_rules 2)" by (simp add: sample_rules_def)
  obtain reply m' where r: "handleRuleSetStream 5 True ''peer'' (Some (sample_rules 1)) (TrustPeer ''peer'' (NewManager False)) ?m = (reply, m')"
    by (meson surj_pair)
  from stale_rules_installed [OF t a v r] r show ?thesis by simp
qed

section \<open>Flow statistics\<close>

record FlowRecord =
  fr_SrcIP :: string
  fr_DstIP :: string
  fr_SrcPort :: int
  fr_DstPort :: int
  fr_Proto :: string
  fr_BytesTrans :: int
  fr_PacketsTrans :: int
  fr_PolicyMatch :: string
  fr_FirstSeen :: time
  fr_LastSeen :: time

record FlowTelemetry =
  ft_flows :: "string \<rightharpoonup> FlowRecord"
  ft_maxSize :: nat

definition NewFlowTelemetry :: "int \<Rightarrow> FlowTelemetry" where
  "NewFlowTelemetry maxSize = \<lparr>ft_flows = Map.empty, ft_maxSize = (if maxSize \<le> 0 then 1000 else nat maxSize)\<rparr>"

definition flow_key :: "FlowRecord \<Rightarrow> string" where
  "flow_key r = fr_SrcIP r @ '':'' @ show_int (fr_SrcPort r) @ ''->'' @ fr_DstIP r @ '':'' @ show_int (fr_DstPort r) @ ''['' @ fr_Proto r @ '']''"

lemma flow_key_update [simp]:
  "flow_key (r\<lparr>fr_BytesTrans := b\<rparr>) = flow_key r" "flow_key (r\<lparr>fr_PacketsTrans := b\<rparr>) = flow_key r"
  "flow_key (r\<lparr>fr_PolicyMatch := p\<rparr>) = flow_key r" "flow_key (r\<lparr>fr_FirstSeen := t\<rparr>) = flow_key r"
  "flow_key (r\<lparr>fr_LastSeen := t\<rparr>) = flow_key r"
  by (simp_all add: flow_key_def)

definition RecordFlow :: "time \<Rightarrow> string \<Rightarrow> FlowRecord \<Rightarrow> FlowTelemetry \<Rightarrow> FlowTelemetry" where
  "RecordFlow now victim r c =
     (let key = flow_key r
      in case ft_flows c key of
           Some ex \<Rightarrow>
             c\<lparr>ft_flows := (ft_flows c)(key \<mapsto> ex\<lparr>fr_BytesTrans := fr_BytesTrans ex + fr_BytesTrans r,
                 fr_PacketsTrans := fr_PacketsTrans ex + fr_PacketsTrans r, fr_LastSeen := now,
                 fr_PolicyMatch := (if fr_PolicyMatch r \<noteq> [] then fr_PolicyMatch r else fr_PolicyMatch ex)\<rparr>)\<rparr>
         | None \<Rightarrow>
             (let flows = (if card (dom (ft_flows c)) \<ge> ft_maxSize c then (ft_flows c)(victim := None) else ft_flows c);
                  r = (if fr_FirstSeen r = zero_time then r\<lparr>fr_FirstSeen := now\<rparr> else r)
              in c\<lparr>ft_flows := flows(key \<mapsto> r\<lparr>fr_LastSeen := now\<rparr>)\<rparr>))"

definition GetActiveFlows :: "string list \<Rightarrow> FlowTelemetry \<Rightarrow> FlowRecord list" where
  "GetActiveFlows ks c = map (\<lambda>k. the (ft_flows c k)) ks"

text \<open>A victim is a flow of the table, when there is one.\<close>

inductive flow_reach :: "int \<Rightarrow> FlowTelemetry \<Rightarrow> bool" for maxSize where
  Empty: "flow_reach maxSize (NewFlowTelemetry maxSize)"
| Flow: "flow_reach maxSize c \<Longrightarrow> (dom (ft_flows c) \<noteq> {} \<longrightarrow> victim \<in> dom (ft_flows c)) \<Longrightarrow>
    flow_reach maxSize (RecordFlow now victim r c)"

text \<open>
  The table of flows never grows beyond its bound, every flow is filed under its own key, and
  a flow of a known connection adds its bytes to that connection's record.
\<close>

theorem flow_table_bounded:
  assumes "flow_reach maxSize c"
  shows "finite (dom (ft_flows c)) \<and> card (dom (ft_flows c)) \<le> (if maxSize \<le> 0 then 1000 else nat maxSize) \<and>
    (\<forall>k r. ft_flows c k = Some r \<longrightarrow> flow_key r = k)"
proof -
  have "ft_maxSize c = (if maxSize \<le> 0 then 1000 else nat maxSize) \<and> finite (dom (ft_flows c)) \<and>
    card (dom (ft_flows c)) \<le> ft_maxSize c \<and> (\<forall>k r. ft_flows c k = Some r \<longrightarrow> flow_key r = k)"
    using assms
  proof induction
    case (Flow c victim now r)
    let ?c = "RecordFlow now victim r c"
    have max: "ft_maxSize ?c = ft_maxSize c" by (auto simp: RecordFlow_def Let_def split: option.split)
    show ?case
    proof (cases "ft_flows c (flow_key r)")
      case (Some ex)
      then have "dom (ft_flows ?c) = dom (ft_flows c)" by (auto simp: RecordFlow_def Let_def)
      moreover have "\<forall>k x. ft_flows ?c k = Some x \<longrightarrow> flow_key x = k"
        using Flow.IH Some by (auto simp: RecordFlow_def Let_def)
      ultimately show ?thesis using Flow.IH max by simp
    next
      case None
      let ?flows = "if card (dom (ft_flows c)) \<ge> ft_maxSize c then (ft_flows c)(victim := None) else ft_flows c"
      have new: "dom (ft_flows ?c) = insert (flow_key r) (dom ?flows)" using None by (auto simp: RecordFlow_def Let_def)
      have pos: "0 < ft_maxSize c" using Flow.IH by (auto split: if_splits)
      have "card (dom ?flows) < ft_maxSize c"
      proof (cases "card (dom (ft_flows c)) \<ge> ft_maxSize c")
        case True
        then have "dom (ft_flows c) \<noteq> {}" using pos by auto
        then have v: "victim \<in> dom (ft_flows c)" using Flow.hyps by blast
        have "dom ?flows = dom (ft_flows c) - {victim}" using True by auto
        then have "card (dom ?flows) = card (dom (ft_flows c)) - 1" using v Flow.IH by (simp add: card_Diff_singleton)
        then show ?thesis using Flow.IH pos by linarith
      qed (use Flow.IH in simp)
      then have "card (dom (ft_flows ?c)) \<le> ft_maxSize c" unfolding new using pos by (intro card_insert_le_m1) simp_all
      moreover have "finite (dom (ft_flows ?c))" unfolding new using Flow.IH by simp
      moreover have "\<forall>k x. ft_flows ?c k = Some x \<longrightarrow> flow_key x = k"
        using Flow.IH None by (auto simp: RecordFlow_def Let_def split: if_splits)
      ultimately show ?thesis using Flow.IH max by simp
    qed
  qed (simp add: NewFlowTelemetry_def)
  then show ?thesis by simp
qed

definition sample_flow :: "int \<Rightarrow> FlowRecord" where
  "sample_flow port = \<lparr>fr_SrcIP = ''a'', fr_DstIP = ''b'', fr_SrcPort = port, fr_DstPort = 80, fr_Proto = ''tcp'', fr_BytesTrans = 10,
     fr_PacketsTrans = 1, fr_PolicyMatch = [], fr_FirstSeen = 0, fr_LastSeen = 0\<rparr>"

theorem flow_table_bounded_witness:
  "card (dom (ft_flows (RecordFlow 2 (flow_key (sample_flow 1)) (sample_flow 2) (RecordFlow 1 [] (sample_flow 1) (NewFlowTelemetry 1))))) \<le> 1"
proof -
  have a: "flow_reach 1 (RecordFlow 1 [] (sample_flow 1) (NewFlowTelemetry 1))"
    by (rule Flow [OF Empty]) (simp add: NewFlowTelemetry_def)
  have "flow_reach 1 (RecordFlow 2 (flow_key (sample_flow 1)) (sample_flow 2) (RecordFlow 1 [] (sample_flow 1) (NewFlowTelemetry 1)))"
    by (rule Flow [OF a]) (simp add: RecordFlow_def NewFlowTelemetry_def)
  from flow_table_bounded [OF this] show ?thesis by simp
qed

end
