(* ===== verification/Sdn_Dataplane.thy ===== *)
theory Sdn_Dataplane
  imports Sdn_Controller
begin

text \<open>
  \<open>internal/sdn/dataplane_*.go\<close>: how a rule set is written for the kernels. The texts for \<open>nft\<close> and
  \<open>pf\<close> are built as the source builds them; for \<open>ip\<close>, \<open>tc\<close> and \<open>netsh\<close> the model has the arguments
  of the commands. Running the commands and the speed of the interface are left out or arguments.
  \<open>%q\<close> is \<open>go_quote\<close>, on ASCII.
\<close>

definition NL :: string where "NL = [char_of (10 :: nat)]"

definition hex_digit :: "nat \<Rightarrow> char" where
  "hex_digit n = (if n < 10 then char_of (n + 48) else char_of (n + 87))"

definition quote_char :: "char \<Rightarrow> string" where
  "quote_char c =
     (let n = of_char c :: nat; bs = char_of (92 :: nat)
      in if n = 34 \<or> n = 92 then [bs, c]
         else if n = 7 then [bs, CHR ''a''] else if n = 8 then [bs, CHR ''b''] else if n = 9 then [bs, CHR ''t'']
         else if n = 10 then [bs, CHR ''n''] else if n = 11 then [bs, CHR ''v''] else if n = 12 then [bs, CHR ''f'']
         else if n = 13 then [bs, CHR ''r'']
         else if n < 32 \<or> n = 127 then [bs, CHR ''x'', hex_digit (n div 16), hex_digit (n mod 16)]
         else [c])"

definition go_quote :: "string \<Rightarrow> string" where
  "go_quote s = [char_of (34 :: nat)] @ concat (map quote_char s) @ [char_of (34 :: nat)]"

section \<open>Linux: \<open>nftables\<close>, \<open>tc\<close> and \<open>ip\<close>\<close>

definition nftProto :: "string \<Rightarrow> string" where
  "nftProto proto = (if to_lower proto = ''udp'' then ''udp'' else ''tcp'')"

definition nft_dst :: "string \<Rightarrow> string" where
  "nft_dst cidr =
     (if cidr = ''0.0.0.0/0'' then ''ip daddr != { 10.0.0.0/8, 172.16.0.0/12, 192.168.0.0/16, 127.0.0.0/8 }''
      else ''ip daddr '' @ cidr)"

definition nft_ports :: "RuleMatch \<Rightarrow> string list" where
  "nft_ports m =
     (case rm_DstPorts m of
        [] \<Rightarrow> []
      | [port] \<Rightarrow> [nftProto (rm_Protocol m) @ '' dport '' @ show_int port]
      | ports \<Rightarrow> [nftProto (rm_Protocol m) @ '' dport { '' @ join_with '', '' (map show_int ports) @ '' }''])"

definition nft_parts :: "RuleMatch \<Rightarrow> string list" where
  "nft_parts m =
     (if rm_Protocol m \<noteq> [] then [''ip protocol '' @ rm_Protocol m] else []) @
     map (\<lambda>cidr. ''ip saddr '' @ cidr) (rm_SrcCIDRs m) @ map nft_dst (rm_DstCIDRs m) @ nft_ports m"

definition nft_action :: "RuleAction \<Rightarrow> string" where
  "nft_action a =
     (case a of ActionAllow \<Rightarrow> ''accept'' | ActionShape \<Rightarrow> ''accept'' | ActionDeny \<Rightarrow> ''drop'' | ActionRedirect \<Rightarrow> ''redirect'')"

definition ruleToNft :: "KernelRule \<Rightarrow> string" where
  "ruleToNft rule =
     (if rm_Protocol (kr_Match rule) = ''established'' then ''ct state established,related accept''
      else let parts = nft_parts (kr_Match rule); action = nft_action (kr_Action rule)
      in if parts = [] \<and> (action = ''accept'' \<or> action = ''drop'') then action
         else join_with '' '' (parts @ [action, ''comment '' @ go_quote (kr_PolicyName rule)]))"

definition nft_lines :: "KernelRule list \<Rightarrow> string" where
  "nft_lines rules = concat (map (\<lambda>r. ''    '' @ ruleToNft r @ NL) (filter (\<lambda>r. ruleToNft r \<noteq> []) rules))"

definition nft_header :: "string \<Rightarrow> RuleSet \<Rightarrow> string" where
  "nft_header tableNS rs =
     ''flush table inet '' @ tableNS @ NL @
     ''table inet '' @ tableNS @ '' {'' @ NL @
     ''  # Generated by OpenFabric SDN - do not edit manually'' @ NL @
     ''  # Topology hash: '' @ rs_TopologyHash rs @ NL @
     ''  # Version: '' @ show_nat (rs_Version rs) @ NL @ NL"

definition nft_chain :: "string \<Rightarrow> string \<Rightarrow> KernelRule list \<Rightarrow> string" where
  "nft_chain name policy rules =
     (''  chain '' @ name @ '' {'' @ NL @ ''    type filter hook '' @ name @ '' priority filter; policy '' @ policy @ '';'' @ NL) @
     nft_lines rules @ ''  }'' @ NL"

definition buildNftables :: "string \<Rightarrow> RuleSet \<Rightarrow> string" where
  "buildNftables tableNS rs =
     nft_header tableNS rs @ nft_chain ''input'' ''drop'' (rs_Rules rs) @ NL @ nft_chain ''forward'' ''drop'' (rs_Rules rs) @ NL @
     nft_chain ''output'' ''accept'' [] @ ''}'' @ NL"

definition band_class :: "int \<Rightarrow> string" where
  "band_class prio = (if prio = 1 then ''10'' else if prio = 2 then ''20'' else if prio = 3 then ''30'' else if prio = 4 then ''40'' else [])"

definition tc_class_args :: "string \<Rightarrow> int \<Rightarrow> QoSBand \<Rightarrow> string list" where
  "tc_class_args iface link band =
     (let rate = (if qb_GuarantBps band > 0 then qb_GuarantBps band else link sdiv 4);
          ceil = (if qb_MaxBps band > 0 then qb_MaxBps band else link);
          burst = (if qb_BurstBps band > 0 then qb_BurstBps band else ceil sdiv 10)
      in [''class'', ''add'', ''dev'', iface, ''parent'', ''1:1'', ''classid'', ''1:'' @ band_class (qb_Priority band), ''htb'',
          ''rate'', show_int rate @ ''bps'', ''ceil'', show_int ceil @ ''bps'', ''burst'', show_int (burst sdiv 8) @ ''b'',
          ''prio'', show_int (qb_Priority band)])"

definition tc_filter_args :: "string \<Rightarrow> QoSBand \<Rightarrow> string list list" where
  "tc_filter_args iface band =
     map (\<lambda>port. [''filter'', ''add'', ''dev'', iface, ''protocol'', ''ip'', ''parent'', ''1:0'', ''prio'', show_int (qb_Priority band),
            ''u32'', ''match'', (if rm_Protocol (qb_Match band) = ''udp'' then ''udp'' else ''tcp''), ''dst'', show_int port, ''0xffff'',
            ''flowid'', ''1:'' @ band_class (qb_Priority band)])
       (rm_DstPorts (qb_Match band))"

definition applyQoS_cmds :: "string \<Rightarrow> int \<Rightarrow> QoSBand list \<Rightarrow> string list list" where
  "applyQoS_cmds iface speed bands =
     (if bands = [] then []
      else let link = (if speed = 0 then 1000000000 else speed)
      in [''qdisc'', ''del'', ''dev'', iface, ''root''] #
         [''qdisc'', ''add'', ''dev'', iface, ''root'', ''handle'', ''1:'', ''htb'', ''default'', ''30''] #
         [''class'', ''add'', ''dev'', iface, ''parent'', ''1:'', ''classid'', ''1:1'', ''htb'', ''rate'', show_int link @ ''bps''] #
         concat (map (\<lambda>band. tc_class_args iface link band #
           [''qdisc'', ''add'', ''dev'', iface, ''parent'', ''1:'' @ band_class (qb_Priority band), ''handle'',
            band_class (qb_Priority band) @ ''0:'', ''sfq'', ''perturb'', ''10''] #
           tc_filter_args iface band) bands))"

definition route_args :: "KernelRoute \<Rightarrow> string list" where
  "route_args r =
     [''route'', ''replace'', if kt_Dst r = ''0.0.0.0/0'' \<or> kt_Dst r = ''::/0'' then ''default'' else kt_Dst r] @
     (if kt_Gateway r \<noteq> [] then [''via'', kt_Gateway r] else []) @
     (if kt_Dev r \<noteq> [] then [''dev'', kt_Dev r] else []) @
     (if kt_Metric r > 0 then [''metric'', show_int (kt_Metric r)] else [])"

section \<open>macOS: \<open>pf\<close>\<close>

definition ruleToPF :: "string \<Rightarrow> KernelRule \<Rightarrow> string" where
  "ruleToPF iface rule =
     (let m = kr_Match rule
      in if rm_Protocol m = ''established'' then []
         else join_with '' ''
           ([(case kr_Action rule of ActionAllow \<Rightarrow> ''pass in quick on '' | ActionShape \<Rightarrow> ''pass in quick on ''
              | ActionDeny \<Rightarrow> ''block in quick on '' | ActionRedirect \<Rightarrow> ''block in quick on '') @ iface] @
            (if rm_Protocol m \<noteq> [] then [''proto '' @ rm_Protocol m] else []) @
            (if rm_DstCIDRs m \<noteq> [] then [''to { '' @ join_with '', '' (rm_DstCIDRs m) @ '' }''] else []) @
            (if rm_DstPorts m \<noteq> [] then [''port { '' @ join_with '', '' (map show_int (rm_DstPorts m)) @ '' }''] else [])))"

definition buildPFRules :: "string \<Rightarrow> RuleSet \<Rightarrow> string" where
  "buildPFRules iface rs =
     ''# OpenFabric SDN - topology hash '' @ rs_TopologyHash rs @ NL @ ''# Do not edit manually'' @ NL @ NL @
     ''pass in quick proto tcp all flags S/SA keep state'' @ NL @ ''pass in quick proto udp all keep state'' @ NL @
     ''pass in quick on lo0 all'' @ NL @ NL @
     concat (map (\<lambda>r. ruleToPF iface r @ NL) (filter (\<lambda>r. ruleToPF iface r \<noteq> []) (rs_Rules rs)))"

section \<open>Windows: \<open>netsh\<close>\<close>

definition addFilter_cmds :: "KernelRule \<Rightarrow> string list list" where
  "addFilter_cmds rule =
     map (\<lambda>port. [''advfirewall'', ''firewall'', ''add'', ''rule'', ''name=OpenFabric-'' @ kr_ID rule,
            ''protocol='' @ (if rm_Protocol (kr_Match rule) = ''udp'' then ''udp'' else ''tcp''), ''localport='' @ show_int port,
            ''action='' @ (if kr_Action rule = ActionDeny then ''block'' else ''allow''), ''dir=in''])
       (rm_DstPorts (kr_Match rule))"

section \<open>Policies that say more than the kernel learns\<close>

lemma policy_rule_mem:
  assumes "p \<in> set (tg_Policies t)" and "policy_applies (SegmentForNode (sn_NodeID node) t) p"
  shows "policy_rule p \<in> set (rs_Rules (computeRuleSet now v t node))"
  using assms by (simp add: set_rules computePolicyRules_def)

text \<open>
  On Linux a policy that denies traffic and restricts it by nothing but segments, hosts or
  source ports becomes the rule \<open>drop\<close>: every packet that reaches it is dropped, whoever sent it and
  wherever it goes. A policy meant to block one site cuts off all the traffic no earlier rule accepts.
\<close>

theorem host_policy_drops_everything:
  assumes "p \<in> set (tg_Policies t)" and "policy_applies (SegmentForNode (sn_NodeID node) t) p" and "np_Action p = ''deny''"
    and "pm_DstPort (np_Match p) = []" and "pm_Protocol (np_Match p) = []" and "pm_DstCIDR (np_Match p) = []"
  shows "policy_rule p \<in> set (rs_Rules (computeRuleSet now v t node)) \<and> ruleToNft (policy_rule p) = ''drop''"
  using policy_rule_mem [OF assms(1,2)] assms(3-6)
  by (simp add: ruleToNft_def nft_parts_def nft_ports_def policy_rule_def policy_action_def nft_action_def)

theorem host_policy_drops_everything_witness:
  "ruleToNft (policy_rule (sample_policy\<lparr>np_Match := (np_Match sample_policy)\<lparr>pm_DstHost := [''ads.example.org'']\<rparr>, np_priority := 500\<rparr>)) = ''drop''"
proof -
  let ?p = "sample_policy\<lparr>np_Match := (np_Match sample_policy)\<lparr>pm_DstHost := [''ads.example.org'']\<rparr>, np_priority := 500\<rparr>"
  let ?t = "sample_topology\<lparr>tg_Policies := [?p]\<rparr>"
  have p: "?p \<in> set (tg_Policies ?t)" "np_Action ?p = ''deny''" "pm_DstPort (np_Match ?p) = []" "pm_Protocol (np_Match ?p) = []"
    "pm_DstCIDR (np_Match ?p) = []"
    by (simp_all add: sample_policy_def)
  have "policy_applies (SegmentForNode (sn_NodeID (sample_sdn_node ''n1'')) ?t) ?p"
    by (simp add: policy_applies_def SegmentForNode_def sample_topology_def sample_segment_def sample_sdn_node_def sample_policy_def)
  from host_policy_drops_everything [OF p(1) this p(2-5)] show ?thesis by blast
qed

section \<open>Text that is not checked\<close>

lemma contains_trans: "contains s x \<Longrightarrow> contains x p \<Longrightarrow> contains s p"
  by (auto simp: contains_iff) (metis append.assoc)

lemma contains_in: "contains (xs @ s @ ys) s"
  by (auto simp: contains_iff)

lemma nft_lines_contains:
  assumes "r \<in> set rules" and "ruleToNft r \<noteq> []"
  shows "contains (nft_lines rules) (ruleToNft r)"
proof -
  have "r \<in> set (filter (\<lambda>r. ruleToNft r \<noteq> []) rules)" using assms by simp
  then obtain as bs where "filter (\<lambda>r. ruleToNft r \<noteq> []) rules = as @ r # bs" by (auto simp: in_set_conv_decomp)
  then have "nft_lines rules = (concat (map (\<lambda>r. ''    '' @ ruleToNft r @ NL) as) @ ''    '') @ ruleToNft r @
      (NL @ concat (map (\<lambda>r. ''    '' @ ruleToNft r @ NL) bs))" by (simp add: nft_lines_def)
  then show ?thesis using contains_in by metis
qed

lemma ruleToNft_protocol:
  assumes "rm_Protocol (kr_Match r) = s" and "s \<noteq> []" and "s \<noteq> ''established''"
  shows "contains (ruleToNft r) s"
proof -
  have "''ip protocol '' @ s \<in> set (nft_parts (kr_Match r) @ [nft_action (kr_Action r), ''comment '' @ go_quote (kr_PolicyName r)])"
    using assms by (simp add: nft_parts_def)
  then have "contains (join_with '' '' (nft_parts (kr_Match r) @ [nft_action (kr_Action r), ''comment '' @ go_quote (kr_PolicyName r)]))
      (''ip protocol '' @ s)" by (rule contains_join)
  moreover have "nft_parts (kr_Match r) \<noteq> []" using assms by (simp add: nft_parts_def)
  moreover have "contains (''ip protocol '' @ s) s" using contains_in [of "''ip protocol ''" s "[]"] by simp
  ultimately show ?thesis using assms contains_trans by (auto simp: ruleToNft_def Let_def)
qed

lemma buildNftables_rules: "contains (buildNftables ns rs) (nft_lines (rs_Rules rs))"
proof -
  have "contains (buildNftables ns rs) (nft_chain ''input'' ''drop'' (rs_Rules rs))"
    unfolding buildNftables_def by (rule contains_in)
  moreover have "contains (nft_chain ''input'' ''drop'' (rs_Rules rs)) (nft_lines (rs_Rules rs))"
    unfolding nft_chain_def by (rule contains_in)
  ultimately show ?thesis by (rule contains_trans)
qed

definition set_protocol :: "string \<Rightarrow> NetPolicy \<Rightarrow> NetPolicy" where
  "set_protocol s p = p\<lparr>np_Match := (np_Match p)\<lparr>pm_Protocol := s\<rparr>\<rparr>"

text \<open>
  The protocol of a policy is never checked and goes into the configuration of the kernel as
  it stands: a valid topology stays valid under any text as protocol, line breaks and all, and the
  text is part of what is handed to \<open>nft\<close> on every node the policy applies to.
\<close>

theorem nft_injection:
  assumes "Topology_validate valid_cidr t = None" and "s \<noteq> []" and "s \<noteq> ''established''"
    and "p \<in> set (tg_Policies t)" and "policy_applies (SegmentForNode (sn_NodeID node) t) p"
  shows "let t' = t\<lparr>tg_Policies := map (set_protocol s) (tg_Policies t)\<rparr>
    in Topology_validate valid_cidr t' = None \<and> contains (buildNftables ns (computeRuleSet now v t' node)) s"
proof -
  let ?t = "t\<lparr>tg_Policies := map (set_protocol s) (tg_Policies t)\<rparr>"
  have "Topology_validate valid_cidr ?t = None"
    using assms(1) by (simp add: Topology_validate_None topology_ok_def set_protocol_def)
  moreover have "contains (buildNftables ns (computeRuleSet now v ?t node)) s"
  proof -
    have p: "set_protocol s p \<in> set (tg_Policies ?t)" using assms(4) by simp
    have "policy_applies (SegmentForNode (sn_NodeID node) ?t) (set_protocol s p)"
      using assms(5) by (simp add: policy_applies_def SegmentForNode_def set_protocol_def split: option.splits)
    from policy_rule_mem [OF p this] have mem: "policy_rule (set_protocol s p) \<in> set (rs_Rules (computeRuleSet now v ?t node))" .
    have prot: "rm_Protocol (kr_Match (policy_rule (set_protocol s p))) = s" by (simp add: policy_rule_def set_protocol_def)
    have c: "contains (ruleToNft (policy_rule (set_protocol s p))) s" by (rule ruleToNft_protocol [OF prot assms(2,3)])
    then have "ruleToNft (policy_rule (set_protocol s p)) \<noteq> []" using assms(2) by (auto simp: contains_iff)
    from contains_trans [OF contains_trans [OF buildNftables_rules nft_lines_contains [OF mem this]] c] show ?thesis .
  qed
  ultimately show ?thesis by (simp add: Let_def)
qed

theorem nft_injection_witness:
  "contains (buildNftables ''openfabric'' (computeRuleSet 0 1
     (sample_topology\<lparr>tg_Policies := map (set_protocol (''tcp accept'' @ NL @ ''accept #'')) (tg_Policies sample_topology)\<rparr>) (sample_sdn_node ''n1'')))
     (''tcp accept'' @ NL @ ''accept #'')"
proof -
  have v: "Topology_validate (\<lambda>c. True) sample_topology = None"
    by (simp add: Topology_validate_def sample_topology_def sample_segment_def sample_policy_def TopologyVersion_def
        allow_deny_def validate_policy_def)
  have a: "policy_applies (SegmentForNode (sn_NodeID (sample_sdn_node ''n1'')) sample_topology) sample_policy"
    by (simp add: policy_applies_def SegmentForNode_def sample_topology_def sample_segment_def sample_sdn_node_def sample_policy_def)
  have m: "sample_policy \<in> set (tg_Policies sample_topology)" by (simp add: sample_topology_def)
  from nft_injection [OF v _ _ m a, of "''tcp accept'' @ NL @ ''accept #''" "''openfabric''" 0 1] show ?thesis by (simp add: Let_def)
qed

text \<open>On Windows only rules with destination ports are installed: a node outside all segments stays open.\<close>

lemma windows_needs_ports: "addFilter_cmds r \<noteq> [] \<longleftrightarrow> rm_DstPorts (kr_Match r) \<noteq> []"
  by (simp add: addFilter_cmds_def)

lemma windows_default_deny: "concat (map addFilter_cmds (computeSegmentRules t None)) = []"
  by (simp add: computeSegmentRules_def addFilter_cmds_def no_match_def)

end
