(* ===== verification/Net_Router.thy ===== *)
theory Net_Router
  imports Go_Strings
begin

text \<open>
  \<open>internal/network/router.go\<close>: the mesh router of a node. \<open>direct\<close> are the peers libp2p is
  connected to, which it lists without repetition; \<open>peersMap\<close> holds what the others report. The
  loop of the breadth-first search is a partial function, so that its termination is a theorem. A
  relayed stream is the sequence of nodes that accept it; opening streams and copying bytes are left
  out, and every peer identifier decodes.
\<close>

record Route =
  rt_NextHop :: string
  rt_Hops :: nat

record MeshRouter =
  mr_localNodeID :: string
  mr_peersMap :: "string \<rightharpoonup> string list"
  mr_routingTable :: "string \<rightharpoonup> Route"

definition NewMeshRouter :: "string \<Rightarrow> MeshRouter" where
  "NewMeshRouter localNodeID = \<lparr>mr_localNodeID = localNodeID, mr_peersMap = Map.empty, mr_routingTable = Map.empty\<rparr>"

section \<open>Routes\<close>

text \<open>An element of the queue: a node, the first hop towards it and its distance.\<close>

type_synonym queue_item = "string \<times> string \<times> nat"

definition neighbors :: "(string \<rightharpoonup> string list) \<Rightarrow> string \<Rightarrow> string list" where
  "neighbors peersMap n = (case peersMap n of None \<Rightarrow> [] | Some ns \<Rightarrow> ns)"

fun push_neighbors :: "string \<Rightarrow> string \<Rightarrow> nat \<Rightarrow> string list \<Rightarrow> string set \<Rightarrow> queue_item list \<Rightarrow> string set \<times> queue_item list" where
  "push_neighbors self hop d [] visited queue = (visited, queue)"
| "push_neighbors self hop d (n # ns) visited queue =
     (if n = self \<or> n \<in> visited then push_neighbors self hop d ns visited queue
      else push_neighbors self hop d ns (insert n visited) (queue @ [(n, hop, d)]))"

partial_function (option) bfs ::
  "string \<Rightarrow> (string \<rightharpoonup> string list) \<Rightarrow> queue_item list \<Rightarrow> string set \<Rightarrow> (string \<rightharpoonup> Route) \<Rightarrow> (string \<rightharpoonup> Route) option" where
  "bfs self pm queue visited table =
     (case queue of
        [] \<Rightarrow> Some table
      | (n, hop, d) # rest \<Rightarrow>
          (let (visited, queue) = push_neighbors self hop (d + 1) (neighbors pm n) visited rest
           in bfs self pm queue visited (table(n \<mapsto> \<lparr>rt_NextHop = hop, rt_Hops = d\<rparr>))))"

definition start_queue :: "string \<Rightarrow> string list \<Rightarrow> queue_item list" where
  "start_queue self direct = map (\<lambda>n. (n, n, 1)) (filter (\<lambda>n. n \<noteq> self) direct)"

definition recalculateRoutes :: "string list \<Rightarrow> MeshRouter \<Rightarrow> MeshRouter option" where
  "recalculateRoutes direct r =
     map_option (\<lambda>table. r\<lparr>mr_routingTable := table\<rparr>)
       (bfs (mr_localNodeID r) (mr_peersMap r) (start_queue (mr_localNodeID r) direct)
         (insert (mr_localNodeID r) (set direct)) Map.empty)"

definition UpdateNodeConnections :: "string list \<Rightarrow> string \<Rightarrow> string list \<Rightarrow> MeshRouter \<Rightarrow> MeshRouter option" where
  "UpdateNodeConnections direct nodeID directPeers r =
     recalculateRoutes direct (r\<lparr>mr_peersMap := (mr_peersMap r)(nodeID \<mapsto> directPeers)\<rparr>)"

definition DeleteNode :: "string list \<Rightarrow> string \<Rightarrow> MeshRouter \<Rightarrow> MeshRouter option" where
  "DeleteNode direct nodeID r = recalculateRoutes direct (r\<lparr>mr_peersMap := (mr_peersMap r)(nodeID := None)\<rparr>)"

section \<open>Walks\<close>

text \<open>
  A walk from \<open>self\<close> that does not come back to it: \<open>walk self direct pm n hop d\<close> ends at \<open>n\<close> after
  \<open>d\<close> steps, the first of them to \<open>hop\<close>.
\<close>

inductive walk :: "string \<Rightarrow> string list \<Rightarrow> (string \<rightharpoonup> string list) \<Rightarrow> string \<Rightarrow> string \<Rightarrow> nat \<Rightarrow> bool" for self direct pm where
  Direct: "n \<in> set direct \<Longrightarrow> n \<noteq> self \<Longrightarrow> walk self direct pm n n 1"
| Onward: "walk self direct pm m hop d \<Longrightarrow> n \<in> set (neighbors pm m) \<Longrightarrow> n \<noteq> self \<Longrightarrow> walk self direct pm n hop (d + 1)"

lemma walk_not_self: "walk self direct pm n hop d \<Longrightarrow> n \<noteq> self"
  by (cases rule: walk.cases) auto

lemma walk_hop: "walk self direct pm n hop d \<Longrightarrow> hop \<in> set direct \<and> hop \<noteq> self \<and> 0 < d"
  by (induction rule: walk.induct) auto

section \<open>The invariant of the search\<close>

definition nodes_of :: "queue_item list \<Rightarrow> string set" where "nodes_of q = fst ` set q"

definition sorted_queue :: "queue_item list \<Rightarrow> bool" where
  "sorted_queue q \<longleftrightarrow> sorted (map (snd \<circ> snd) q) \<and> (\<forall>x \<in> set q. snd (snd x) \<le> Suc (snd (snd (hd q))))"

text \<open>What is known of the distance of a node.\<close>

definition known :: "queue_item list \<Rightarrow> (string \<rightharpoonup> Route) \<Rightarrow> string \<Rightarrow> nat \<Rightarrow> bool" where
  "known q table n d \<longleftrightarrow> (\<exists>hop. (n, hop, d) \<in> set q) \<or> (\<exists>hop. table n = Some \<lparr>rt_NextHop = hop, rt_Hops = d\<rparr>)"

definition bfs_inv ::
  "string \<Rightarrow> string list \<Rightarrow> (string \<rightharpoonup> string list) \<Rightarrow> queue_item list \<Rightarrow> string set \<Rightarrow> (string \<rightharpoonup> Route) \<Rightarrow> bool" where
  "bfs_inv self direct pm q visited table \<longleftrightarrow>
     (\<forall>(n, hop, d) \<in> set q. walk self direct pm n hop d) \<and>
     (\<forall>n r. table n = Some r \<longrightarrow> walk self direct pm n (rt_NextHop r) (rt_Hops r)) \<and>
     visited = {self} \<union> nodes_of q \<union> dom table \<and> distinct (map fst q) \<and> nodes_of q \<inter> dom table = {} \<and>
     sorted_queue q \<and> (q \<noteq> [] \<longrightarrow> (\<forall>n r. table n = Some r \<longrightarrow> rt_Hops r \<le> snd (snd (hd q)))) \<and>
     (\<forall>n \<in> set direct. n \<noteq> self \<longrightarrow> known q table n 1) \<and>
     (\<forall>n r m. table n = Some r \<longrightarrow> m \<in> set (neighbors pm n) \<longrightarrow> m \<noteq> self \<longrightarrow> (\<exists>e \<le> rt_Hops r + 1. known q table m e))"

lemma push_spec:
  assumes "push_neighbors self hop d ns visited q = (visited', q')"
  shows "\<exists>new. q' = q @ map (\<lambda>n. (n, hop, d)) new \<and> distinct new \<and> set new = set ns - {self} - visited \<and> visited' = visited \<union> set new"
  using assms
proof (induction ns arbitrary: visited q)
  case (Cons n ns)
  show ?case
  proof (cases "n = self \<or> n \<in> visited")
    case True
    then show ?thesis using Cons.IH [of visited q] Cons.prems by auto
  next
    case False
    then obtain new where new: "q' = (q @ [(n, hop, d)]) @ map (\<lambda>n. (n, hop, d)) new" "distinct new"
      "set new = set ns - {self} - insert n visited" "visited' = insert n visited \<union> set new"
      using Cons.IH [of "insert n visited" "q @ [(n, hop, d)]"] Cons.prems by auto
    then show ?thesis using False by (intro exI [of _ "n # new"]) auto
  qed
qed auto

lemma sorted_queue_append:
  assumes "sorted_queue ((n, hop, d) # rest)" and "\<forall>x \<in> set ys. snd (snd x) = Suc d"
  shows "sorted_queue (rest @ ys)"
proof -
  have ge: "\<forall>x \<in> set rest. d \<le> snd (snd x)" and le: "\<forall>x \<in> set rest. snd (snd x) \<le> Suc d" and s: "sorted (map (snd \<circ> snd) rest)"
    using assms(1) by (auto simp: sorted_queue_def)
  have "sorted (map (snd \<circ> snd) ys)"
    using assms(2) by (auto simp: sorted_iff_nth_mono)
  then have "sorted (map (snd \<circ> snd) (rest @ ys))" using s le assms(2) by (fastforce simp: sorted_append)
  moreover have "snd (snd x) \<le> Suc (snd (snd (hd (rest @ ys))))" if x: "x \<in> set (rest @ ys)" for x
  proof -
    have "snd (snd x) \<le> Suc d" using x le assms(2) by auto
    moreover have "hd (rest @ ys) \<in> set (rest @ ys)" using x by (cases "rest @ ys") auto
    then have "d \<le> snd (snd (hd (rest @ ys)))" using ge assms(2) by fastforce
    ultimately show ?thesis by linarith
  qed
  ultimately show ?thesis by (simp add: sorted_queue_def)
qed

lemma bfs_inv_step:
  assumes inv: "bfs_inv self direct pm ((n, hop, d) # rest) visited table"
    and push: "push_neighbors self hop (d + 1) (neighbors pm n) visited rest = (visited', q')"
  shows "bfs_inv self direct pm q' visited' (table(n \<mapsto> \<lparr>rt_NextHop = hop, rt_Hops = d\<rparr>))"
proof -
  let ?q = "(n, hop, d) # rest" and ?t = "table(n \<mapsto> \<lparr>rt_NextHop = hop, rt_Hops = d\<rparr>)"
  from push_spec [OF push] obtain new where new: "q' = rest @ map (\<lambda>m. (m, hop, d + 1)) new" "distinct new"
    "set new = set (neighbors pm n) - {self} - visited" "visited' = visited \<union> set new" by blast
  have w: "walk self direct pm n hop d" using inv by (simp add: bfs_inv_def)
  have vis: "visited = {self} \<union> nodes_of ?q \<union> dom table" and n: "n \<notin> dom table" "n \<notin> nodes_of rest"
    and disj: "nodes_of rest \<inter> dom table = {}" and dq: "distinct (map fst rest)"
    using inv by (auto simp: bfs_inv_def nodes_of_def)
  have keep: "known ?q table m e \<Longrightarrow> known q' ?t m e" for m e
    using n by (auto simp: known_def new(1) domIff)
  have nodes: "nodes_of q' = nodes_of rest \<union> set new" by (simp add: nodes_of_def new(1) image_Un image_image)
  have "\<forall>(m, h, e) \<in> set q'. walk self direct pm m h e"
    using inv w new(1,3) by (auto simp: bfs_inv_def intro: Onward [where d = d, simplified])
  moreover have "\<forall>m r. ?t m = Some r \<longrightarrow> walk self direct pm m (rt_NextHop r) (rt_Hops r)"
    using inv w by (auto simp: bfs_inv_def)
  moreover have "visited' = {self} \<union> nodes_of q' \<union> dom ?t" using new(4) vis nodes by (auto simp: nodes_of_def)
  moreover have "distinct (map fst q')"
    using dq new(2,3) vis by (auto simp: new(1) comp_def nodes_of_def)
  moreover have "nodes_of q' \<inter> dom ?t = {}" using disj n nodes new(3) vis by (auto simp: nodes_of_def)
  moreover have "sorted_queue q'"
    unfolding new(1) by (rule sorted_queue_append [where n = n and hop = hop and d = d]) (use inv in \<open>auto simp: bfs_inv_def\<close>)
  moreover have "q' \<noteq> [] \<longrightarrow> (\<forall>m r. ?t m = Some r \<longrightarrow> rt_Hops r \<le> snd (snd (hd q')))"
  proof (intro impI allI)
    fix m r assume q': "q' \<noteq> []" and m: "?t m = Some r"
    have "\<forall>x \<in> set q'. d \<le> snd (snd x)" using inv by (auto simp: new(1) bfs_inv_def sorted_queue_def)
    then have "d \<le> snd (snd (hd q'))" using q' by (cases q') auto
    moreover have "rt_Hops r \<le> d" using m inv by (auto simp: bfs_inv_def split: if_splits)
    ultimately show "rt_Hops r \<le> snd (snd (hd q'))" by simp
  qed
  moreover have "\<forall>m \<in> set direct. m \<noteq> self \<longrightarrow> known q' ?t m 1" using inv keep by (auto simp: bfs_inv_def)
  moreover have "\<exists>e \<le> rt_Hops r + 1. known q' ?t m e"
    if k: "?t k = Some r" "m \<in> set (neighbors pm k)" "m \<noteq> self" for k r m
  proof (cases "k = n")
    case False
    then have "\<exists>e \<le> rt_Hops r + 1. known ?q table m e" using k inv by (simp add: bfs_inv_def)
    then show ?thesis using keep by blast
  next
    case True
    then have r: "rt_Hops r = d" using k(1) by auto
    show ?thesis
    proof (cases "m \<in> visited")
      case False
      then have "m \<in> set new" using k True new(3) by simp
      then have "known q' ?t m (d + 1)" by (auto simp: known_def new(1))
      then show ?thesis using r by auto
    next
      case True
      then consider "m \<in> nodes_of ?q" | "m \<in> dom table" using k(3) vis by auto
      then show ?thesis
      proof cases
        case 1
        then obtain h e where he: "(m, h, e) \<in> set ?q" unfolding nodes_of_def by (metis imageE prod.collapse)
        then have "e \<le> d + 1" using inv by (fastforce simp: bfs_inv_def sorted_queue_def)
        moreover have "known ?q table m e" using he by (auto simp: known_def)
        ultimately show ?thesis using keep r by auto
      next
        case 2
        then obtain x where x: "table m = Some x" by blast
        then have "rt_Hops x \<le> d" using inv by (auto simp: bfs_inv_def)
        moreover have "known ?q table m (rt_Hops x)" using x by (auto simp: known_def intro: exI [of _ "rt_NextHop x"])
        ultimately show ?thesis using keep r by (metis le_SucI Suc_eq_plus1)
      qed
    qed
  qed
  ultimately show ?thesis unfolding bfs_inv_def by blast
qed

lemma bfs_inv_start:
  assumes "distinct direct"
  shows "bfs_inv self direct pm (start_queue self direct) (insert self (set direct)) Map.empty"
proof -
  have "distinct (map fst (start_queue self direct))" using assms by (simp add: start_queue_def comp_def)
  moreover have "sorted_queue (start_queue self direct)"
    by (auto simp: sorted_queue_def start_queue_def sorted_iff_nth_mono hd_map)
  moreover have "nodes_of (start_queue self direct) = set direct - {self}"
    by (auto simp: nodes_of_def start_queue_def image_image)
  ultimately show ?thesis
    by (auto simp: bfs_inv_def start_queue_def known_def intro: Direct [simplified])
qed

section \<open>Shortest routes\<close>

definition universe :: "string \<Rightarrow> string list \<Rightarrow> (string \<rightharpoonup> string list) \<Rightarrow> string set" where
  "universe self direct pm = insert self (set direct \<union> \<Union> (set ` ran pm))"

lemma finite_universe: "finite (dom pm) \<Longrightarrow> finite (universe self direct pm)"
  by (simp add: universe_def finite_ran)

lemma walk_universe: "walk self direct pm n hop d \<Longrightarrow> n \<in> universe self direct pm"
proof (induction rule: walk.induct)
  case (Onward m hop d n)
  then obtain ns where "pm m = Some ns" "n \<in> set ns" by (cases "pm m") (auto simp: neighbors_def)
  then show ?case by (auto simp: universe_def ran_def)
qed (simp add: universe_def)

lemma bfs_returns:
  assumes "bfs_inv self direct pm q visited table" and "finite (universe self direct pm)"
  shows "\<exists>t visited'. bfs self pm q visited table = Some t \<and> bfs_inv self direct pm [] visited' t"
  using assms(1)
proof (induction "card (universe self direct pm - dom table)" arbitrary: q visited table rule: less_induct)
  case less
  show ?case
  proof (cases q)
    case Nil
    then show ?thesis using less.prems by (subst bfs.simps) auto
  next
    case (Cons x rest)
    then obtain n hop d where x: "q = (n, hop, d) # rest" by (cases x) auto
    obtain visited' q' where push: "push_neighbors self hop (d + 1) (neighbors pm n) visited rest = (visited', q')"
      by (meson surj_pair)
    let ?t = "table(n \<mapsto> \<lparr>rt_NextHop = hop, rt_Hops = d\<rparr>)"
    have inv: "bfs_inv self direct pm q' visited' ?t"
      using bfs_inv_step [OF _ push] less.prems x by simp
    have w: "walk self direct pm n hop d" "n \<notin> dom table" using less.prems x by (auto simp: bfs_inv_def nodes_of_def)
    have fin: "finite (universe self direct pm - dom table)" using assms(2) by simp
    have "universe self direct pm - dom ?t = (universe self direct pm - dom table) - {n}" by auto
    then have "card (universe self direct pm - dom ?t) < card (universe self direct pm - dom table)"
      using card_Diff1_less [OF fin, of n] walk_universe [OF w(1)] w(2) by simp
    from less.hyps [OF this inv] show ?thesis using push by (subst bfs.simps) (simp add: x)
  qed
qed

lemma final_shortest:
  assumes "bfs_inv self direct pm [] visited t"
  shows "t n = Some r \<Longrightarrow> walk self direct pm n (rt_NextHop r) (rt_Hops r)"
    and "walk self direct pm n hop d \<Longrightarrow> \<exists>r. t n = Some r \<and> rt_Hops r \<le> d"
proof -
  show "t n = Some r \<Longrightarrow> walk self direct pm n (rt_NextHop r) (rt_Hops r)" using assms by (auto simp: bfs_inv_def)
  have k: "known [] t m e \<Longrightarrow> \<exists>r. t m = Some r \<and> rt_Hops r = e" for m e by (auto simp: known_def)
  show "walk self direct pm n hop d \<Longrightarrow> \<exists>r. t n = Some r \<and> rt_Hops r \<le> d"
  proof (induction rule: walk.induct)
    case (Direct n)
    then have "known [] t n 1" using assms by (simp add: bfs_inv_def)
    then show ?case using k by fastforce
  next
    case (Onward m hop d n)
    then obtain x where x: "t m = Some x" "rt_Hops x \<le> d" by blast
    have "\<exists>e \<le> rt_Hops x + 1. known [] t n e" using assms Onward.hyps x(1) unfolding bfs_inv_def by blast
    then obtain e where "e \<le> rt_Hops x + 1" "known [] t n e" by blast
    then show ?case using k [of n e] x(2) by fastforce
  qed
qed

text \<open>
  C31: Computing the routes always ends, and the table holds exactly the nodes that can be
  reached, each with its least number of hops and a direct peer that begins a walk of that length.
\<close>

theorem routes_shortest:
  assumes "finite (dom (mr_peersMap r))" and "distinct direct"
  shows "\<exists>r'. recalculateRoutes direct r = Some r' \<and> mr_peersMap r' = mr_peersMap r \<and>
    (\<forall>n. mr_routingTable r' n = None \<longleftrightarrow> \<not> (\<exists>hop d. walk (mr_localNodeID r) direct (mr_peersMap r) n hop d)) \<and>
    (\<forall>n x. mr_routingTable r' n = Some x \<longrightarrow>
      walk (mr_localNodeID r) direct (mr_peersMap r) n (rt_NextHop x) (rt_Hops x) \<and>
      (\<forall>hop d. walk (mr_localNodeID r) direct (mr_peersMap r) n hop d \<longrightarrow> rt_Hops x \<le> d))"
proof -
  let ?self = "mr_localNodeID r" and ?pm = "mr_peersMap r"
  obtain t visited where t: "bfs ?self ?pm (start_queue ?self direct) (insert ?self (set direct)) Map.empty = Some t"
    and inv: "bfs_inv ?self direct ?pm [] visited t"
    using bfs_returns [OF bfs_inv_start [OF assms(2)] finite_universe [OF assms(1)]] by blast
  have "recalculateRoutes direct r = Some (r\<lparr>mr_routingTable := t\<rparr>)" by (simp add: recalculateRoutes_def t)
  moreover have "t n = None \<longleftrightarrow> \<not> (\<exists>hop d. walk ?self direct ?pm n hop d)" for n
    using final_shortest [OF inv, of n] by (cases "t n") fastforce+
  moreover have "rt_Hops x \<le> d" if "t n = Some x" "walk ?self direct ?pm n hop d" for n x hop d
    using final_shortest(2) [OF inv that(2)] that(1) by auto
  ultimately show ?thesis using final_shortest(1) [OF inv] by auto
qed

definition sample_router :: MeshRouter where
  "sample_router = (NewMeshRouter ''a'')\<lparr>mr_peersMap := [''b'' \<mapsto> [''a'', ''c''], ''c'' \<mapsto> [''b'']]\<rparr>"

theorem routes_shortest_witness:
  "\<exists>r'. recalculateRoutes [''b''] sample_router = Some r' \<and> (\<exists>x. mr_routingTable r' ''c'' = Some x \<and> rt_NextHop x = ''b'' \<and> rt_Hops x \<le> 2)"
proof -
  have fin: "finite (dom (mr_peersMap sample_router))" by (simp add: sample_router_def)
  have pm: "mr_peersMap sample_router = [''b'' \<mapsto> [''a'', ''c''], ''c'' \<mapsto> [''b'']]" "mr_localNodeID sample_router = ''a''"
    by (simp_all add: sample_router_def NewMeshRouter_def)
  have b: "walk ''a'' [''b''] (mr_peersMap sample_router) ''b'' ''b'' 1" by (rule Direct) simp_all
  have c: "walk ''a'' [''b''] (mr_peersMap sample_router) ''c'' ''b'' (1 + 1)"
    by (rule Onward [OF b]) (simp_all add: pm neighbors_def)
  obtain r' where r': "recalculateRoutes [''b''] sample_router = Some r'"
    and none: "mr_routingTable r' ''c'' = None \<longleftrightarrow> \<not> (\<exists>hop d. walk ''a'' [''b''] (mr_peersMap sample_router) ''c'' hop d)"
    and some: "\<And>x. mr_routingTable r' ''c'' = Some x \<Longrightarrow>
      walk ''a'' [''b''] (mr_peersMap sample_router) ''c'' (rt_NextHop x) (rt_Hops x) \<and>
      (\<forall>hop d. walk ''a'' [''b''] (mr_peersMap sample_router) ''c'' hop d \<longrightarrow> rt_Hops x \<le> d)"
    using routes_shortest [OF fin, of "[''b'']"] unfolding pm(2) by auto
  obtain x where x: "mr_routingTable r' ''c'' = Some x" using none c by (cases "mr_routingTable r' ''c''") auto
  have "rt_NextHop x = ''b''" using walk_hop some [OF x] by fastforce
  then show ?thesis using r' x some [OF x] c by fastforce
qed

section \<open>Relaying a stream\<close>

text \<open>
  \<open>peers x\<close> are the direct connections of the node \<open>x\<close>, \<open>table x\<close> its routing table and \<open>trusts x\<close> its
  verifier. \<open>relay\<close> is \<open>handleRelayStream\<close> of the node \<open>x\<close>, asked by \<open>from\<close>, and of the nodes it asks in
  turn.
\<close>

fun relay :: "(string \<Rightarrow> string list) \<Rightarrow> (string \<Rightarrow> string \<rightharpoonup> Route) \<Rightarrow> (string \<Rightarrow> string \<Rightarrow> bool) \<Rightarrow>
    nat \<Rightarrow> string \<Rightarrow> string \<Rightarrow> string \<Rightarrow> bool" where
  "relay peers table trusts hops from x dest =
     (if \<not> trusts x from then False
      else if \<not> trusts x dest then False
      else case hops of
        0 \<Rightarrow> False
      | Suc hops' \<Rightarrow>
          if dest \<in> set (peers x) then True
          else (case table x dest of
                  None \<Rightarrow> False
                | Some r \<Rightarrow> relay peers table trusts hops' x (rt_NextHop r) dest))"

declare relay.simps [simp del]

definition max_hops :: nat where "max_hops = 5"

definition Router_NewStream :: "(string \<Rightarrow> string list) \<Rightarrow> (string \<Rightarrow> string \<rightharpoonup> Route) \<Rightarrow> (string \<Rightarrow> string \<Rightarrow> bool) \<Rightarrow> string \<Rightarrow> string \<Rightarrow> bool" where
  "Router_NewStream peers table trusts x dest =
     (if dest \<in> set (peers x) then True
      else case table x dest of
        None \<Rightarrow> False
      | Some r \<Rightarrow> relay peers table trusts max_hops x (rt_NextHop r) dest)"

text \<open>Walks of the whole network.\<close>

inductive path :: "(string \<Rightarrow> string list) \<Rightarrow> string \<Rightarrow> string \<Rightarrow> nat \<Rightarrow> bool" for peers x where
  One: "y \<in> set (peers x) \<Longrightarrow> path peers x y 1"
| More: "path peers x m d \<Longrightarrow> y \<in> set (peers m) \<Longrightarrow> path peers x y (d + 1)"

lemma path_front: "path peers h y d \<Longrightarrow> h \<in> set (peers x) \<Longrightarrow> path peers x y (d + 1)"
proof (induction rule: path.induct)
  case (One y)
  have "path peers x h 1" by (rule path.One) (rule One.prems)
  then show ?case using One.hyps by (rule path.More)
next
  case (More m d y)
  have "path peers x m (d + 1)" by (rule More.IH) (rule More.prems)
  then show ?case using More.hyps(2) by (rule path.More)
qed

lemma walk_path: "walk x (peers x) (Some \<circ> peers) y h d \<Longrightarrow> path peers x y d"
  by (induction rule: walk.induct) (auto simp: neighbors_def intro: path.intros [simplified])

lemma path_walk: "path peers x y d \<Longrightarrow> y = x \<or> (\<exists>h e. walk x (peers x) (Some \<circ> peers) y h e \<and> e \<le> d)"
proof (induction rule: path.induct)
  case (One y)
  then show ?case using Direct [of y "peers x" x] by fastforce
next
  case (More m d y)
  show ?case
  proof (cases "y = x")
    case False
    from More.IH show ?thesis
    proof
      assume "m = x"
      then show ?thesis using More.hyps(2) False Direct [of y "peers x" x "Some \<circ> peers"] by fastforce
    next
      assume "\<exists>h e. walk x (peers x) (Some \<circ> peers) m h e \<and> e \<le> d"
      then obtain h e where "walk x (peers x) (Some \<circ> peers) m h e" "e \<le> d" by blast
      then have "walk x (peers x) (Some \<circ> peers) y h (e + 1)" using More.hyps(2) False by (intro Onward) (auto simp: neighbors_def)
      then show ?thesis using \<open>e \<le> d\<close> by (metis add_le_mono1)
    qed
  qed simp
qed

lemma walk_tail:
  "walk x (peers x) (Some \<circ> peers) y h d \<Longrightarrow> h = y \<and> d = 1 \<or> (\<exists>e. path peers h y e \<and> d = e + 1)"
proof (induction rule: walk.induct)
  case (Onward m hop d n)
  then have n: "n \<in> set (peers m)" by (simp add: neighbors_def)
  from Onward.IH show ?case proof
    assume "hop = m \<and> d = 1"
    then show ?thesis using n path.One [of n peers] by auto
  next
    assume "\<exists>e. path peers hop m e \<and> d = e + 1"
    then show ?thesis using n path.More [of peers hop m] by blast
  qed
qed simp

text \<open>Every node knows all connections, and its table is the one computed from them.\<close>

definition exact_table :: "(string \<Rightarrow> string list) \<Rightarrow> string \<Rightarrow> (string \<rightharpoonup> Route) \<Rightarrow> bool" where
  "exact_table peers x t \<longleftrightarrow>
     (\<forall>y. t y = None \<longleftrightarrow> \<not> (\<exists>h d. walk x (peers x) (Some \<circ> peers) y h d)) \<and>
     (\<forall>y r. t y = Some r \<longrightarrow> walk x (peers x) (Some \<circ> peers) y (rt_NextHop r) (rt_Hops r) \<and>
        (\<forall>h d. walk x (peers x) (Some \<circ> peers) y h d \<longrightarrow> rt_Hops r \<le> d))"

lemma exact_table_computed:
  assumes "finite (\<Union>x. set (peers x))" and "distinct (peers x)"
  shows "\<exists>t. bfs x (Some \<circ> peers) (start_queue x (peers x)) (insert x (set (peers x))) Map.empty = Some t \<and> exact_table peers x t"
proof -
  have "ran (Some \<circ> peers) = range peers" by (auto simp: ran_def)
  then have "finite (universe x (peers x) (Some \<circ> peers))" using assms(1) by (simp add: universe_def)
  then obtain t visited where t: "bfs x (Some \<circ> peers) (start_queue x (peers x)) (insert x (set (peers x))) Map.empty = Some t"
    and inv: "bfs_inv x (peers x) (Some \<circ> peers) [] visited t"
    using bfs_returns [OF bfs_inv_start [OF assms(2)]] by blast
  have "t y = None \<longleftrightarrow> \<not> (\<exists>h d. walk x (peers x) (Some \<circ> peers) y h d)" for y
    using final_shortest [OF inv, of y] by (cases "t y") fastforce+
  moreover have "rt_Hops r \<le> d" if "t y = Some r" "walk x (peers x) (Some \<circ> peers) y hop d" for y r hop d
    using final_shortest(2) [OF inv that(2)] that(1) by auto
  ultimately have "exact_table peers x t" using final_shortest(1) [OF inv] by (auto simp: exact_table_def)
  then show ?thesis using t by blast
qed

lemma next_closer:
  assumes "exact_table peers x t" and "t dest = Some r" and "dest \<notin> set (peers x)"
    and "exact_table peers (rt_NextHop r) t'" and "rt_NextHop r \<noteq> dest"
  shows "\<exists>r'. t' dest = Some r' \<and> rt_Hops r = rt_Hops r' + 1"
proof -
  let ?h = "rt_NextHop r"
  have w: "walk x (peers x) (Some \<circ> peers) dest ?h (rt_Hops r)" using assms(1,2) by (simp add: exact_table_def)
  obtain e where e: "path peers ?h dest e" "rt_Hops r = e + 1" using walk_tail [of x peers, OF w] assms(5) by auto
  then obtain h' e' where w': "walk ?h (peers ?h) (Some \<circ> peers) dest h' e'" "e' \<le> e" using path_walk assms(5) by metis
  then obtain r' where r': "t' dest = Some r'" using assms(4) by (cases "t' dest") (auto simp: exact_table_def)
  then have le: "rt_Hops r' \<le> e" using assms(4) w' by (fastforce simp: exact_table_def)
  have "walk ?h (peers ?h) (Some \<circ> peers) dest (rt_NextHop r') (rt_Hops r')" using assms(4) r' unfolding exact_table_def by blast
  then have "path peers ?h dest (rt_Hops r')" by (rule walk_path)
  then have "path peers x dest (rt_Hops r' + 1)" using walk_hop [OF w] path_front by blast
  then obtain h2 e2 where "walk x (peers x) (Some \<circ> peers) dest h2 e2" "e2 \<le> rt_Hops r' + 1"
    using path_walk walk_not_self [OF w] by metis
  then have "rt_Hops r \<le> rt_Hops r' + 1" using assms(1,2) by (fastforce simp: exact_table_def)
  then show ?thesis using r' le e(2) by auto
qed

lemma relay_delivers:
  assumes "\<And>x. exact_table peers x (table x)" and "\<And>x y. trusts x y"
    and "dest \<in> set (peers x) \<and> n = 1 \<or> dest \<notin> set (peers x) \<and> (\<exists>r. table x dest = Some r \<and> n = rt_Hops r)"
  shows "relay peers table trusts hops from x dest \<longleftrightarrow> n \<le> hops"
  using assms(3)
proof (induction hops arbitrary: x n "from")
  case 0
  have "0 < n" using 0 assms(1) [of x] walk_hop by (fastforce simp: exact_table_def)
  then show ?case using assms(2) by (simp add: relay.simps)
next
  case (Suc hops)
  from Suc.prems show ?case
  proof
    assume "dest \<notin> set (peers x) \<and> (\<exists>r. table x dest = Some r \<and> n = rt_Hops r)"
    then obtain r where r: "dest \<notin> set (peers x)" "table x dest = Some r" "n = rt_Hops r" by blast
    let ?h = "rt_NextHop r"
    have w: "walk x (peers x) (Some \<circ> peers) dest ?h n" using assms(1) [of x] r by (simp add: exact_table_def)
    then have ne: "?h \<noteq> dest" using walk_hop r(1) by fastforce
    obtain r' where r': "table ?h dest = Some r'" "n = rt_Hops r' + 1"
      using next_closer [OF assms(1) r(2,1) assms(1) ne] r(3) by auto
    have "relay peers table trusts hops x ?h dest \<longleftrightarrow> rt_Hops r' \<le> hops"
    proof (cases "dest \<in> set (peers ?h)")
      case True
      then have "walk ?h (peers ?h) (Some \<circ> peers) dest dest 1" using ne by (intro Direct) auto
      then have "rt_Hops r' \<le> 1" using assms(1) [of ?h] r'(1) by (auto simp: exact_table_def)
      moreover have "0 < rt_Hops r'" using assms(1) [of ?h] r'(1) walk_hop by (fastforce simp: exact_table_def)
      ultimately have "rt_Hops r' = 1" by simp
      then show ?thesis using Suc.IH [of ?h 1 x] True by simp
    qed (use Suc.IH [of ?h "rt_Hops r'" x] r' in simp)
    moreover have "n \<le> Suc hops \<longleftrightarrow> rt_Hops r' \<le> hops" using r'(2) by simp
    ultimately show ?thesis using r(1,2) assms(2) by (subst relay.simps) simp
  qed (use assms(2) in \<open>simp add: relay.simps\<close>)
qed

text \<open>
  C32: In a network whose nodes trust each other and know all connections, a stream to a node that
  is not a direct peer is delivered exactly if the shortest route to it has at most six hops: the
  limit of five relays is counted from the first of them. Longer routes are in the table all the
  same.
\<close>

theorem mesh_delivery:
  assumes "\<And>x. exact_table peers x (table x)" and "\<And>x y. trusts x y" and "dest \<notin> set (peers x)"
  shows "Router_NewStream peers table trusts x dest \<longleftrightarrow> (\<exists>r. table x dest = Some r \<and> rt_Hops r \<le> 6)"
proof (cases "table x dest")
  case None
  then show ?thesis using assms(3) by (simp add: Router_NewStream_def)
next
  case (Some r)
  let ?h = "rt_NextHop r"
  have w: "walk x (peers x) (Some \<circ> peers) dest ?h (rt_Hops r)" using assms(1) [of x] Some by (simp add: exact_table_def)
  then have ne: "?h \<noteq> dest" using walk_hop assms(3) by fastforce
  obtain r' where r': "table ?h dest = Some r'" "rt_Hops r = rt_Hops r' + 1"
    using next_closer [OF assms(1) Some assms(3) assms(1) ne] by auto
  have rd: "relay peers table trusts max_hops x ?h dest \<longleftrightarrow> k \<le> max_hops"
    if "dest \<in> set (peers ?h) \<and> k = 1 \<or> dest \<notin> set (peers ?h) \<and> (\<exists>r. table ?h dest = Some r \<and> k = rt_Hops r)" for k
    using that by (rule relay_delivers [OF assms(1,2)])
  have "relay peers table trusts max_hops x ?h dest \<longleftrightarrow> rt_Hops r' \<le> max_hops"
  proof (cases "dest \<in> set (peers ?h)")
    case True
    then have "walk ?h (peers ?h) (Some \<circ> peers) dest dest 1" using ne by (intro Direct) auto
    then have "rt_Hops r' \<le> 1" using assms(1) [of ?h] r'(1) by (auto simp: exact_table_def)
    moreover have "0 < rt_Hops r'" using assms(1) [of ?h] r'(1) walk_hop by (fastforce simp: exact_table_def)
    ultimately have "rt_Hops r' = 1" by simp
    then show ?thesis using rd [of 1] True by simp
  qed (use rd [of "rt_Hops r'"] r' in simp)
  then show ?thesis using Some assms(3) r' by (simp add: Router_NewStream_def max_hops_def)
qed

definition line_peers :: "string \<Rightarrow> string list" where
  "line_peers x = (if x = ''a'' then [''b''] else if x = ''b'' then [''a'', ''c''] else if x = ''c'' then [''b''] else [])"

theorem mesh_delivery_witness:
  "\<exists>table. (\<forall>x. exact_table line_peers x (table x)) \<and> Router_NewStream line_peers table (\<lambda>_ _. True) ''a'' ''c''"
proof -
  have "(\<Union>x. set (line_peers x)) \<subseteq> {''a'', ''b'', ''c''}" by (auto simp: line_peers_def split: if_splits)
  then have fin: "finite (\<Union>x. set (line_peers x))" by (rule finite_subset) simp
  have "distinct (line_peers x)" for x by (simp add: line_peers_def)
  then have "\<exists>t. exact_table line_peers x t" for x using exact_table_computed [OF fin, of x] by blast
  then obtain table where t: "\<And>x. exact_table line_peers x (table x)" by metis
  let ?w = "walk ''a'' (line_peers ''a'') (Some \<circ> line_peers)"
  have "?w ''b'' ''b'' 1" by (rule Direct) (simp_all add: line_peers_def)
  then have w: "?w ''c'' ''b'' (1 + 1)" by (rule Onward) (simp_all add: line_peers_def neighbors_def)
  then obtain r where "table ''a'' ''c'' = Some r" using t [of "''a''"] by (cases "table ''a'' ''c''") (auto simp: exact_table_def)
  moreover from this have "rt_Hops r \<le> 1 + 1" using t [of "''a''"] w by (auto simp: exact_table_def)
  ultimately have "Router_NewStream line_peers table (\<lambda>_ _. True) ''a'' ''c''"
    using mesh_delivery [of line_peers table "\<lambda>_ _. True" "''c''" "''a''"] t by (auto simp: line_peers_def)
  then show ?thesis using t by blast
qed

end
