(* ===== verification/Retry.thy ===== *)
theory Retry
  imports Go_Strings
begin

text \<open>
  \<open>internal/reliability\<close>: the errors of the agent and their classification (\<open>errors/errors.go\<close>,
  \<open>retry/retry.go\<close>), retries with exponential back-off (\<open>retry\<close>) and the restart of background
  goroutines (\<open>errors/recovery.go\<close>). An operation that is retried is a function of the attempt and of
  a state; when the context is cancelled is part of the environment. Delays are real numbers.
\<close>

section \<open>Errors\<close>

text \<open>\<open>Plain\<close> has no cause, \<open>Errorf\<close> is the result of \<open>fmt.Errorf\<close> with \<open>%w\<close>: its text and the cause.\<close>

datatype GoError =
    Plain string
  | Errorf string GoError
  | Fabric (fe_Code: string) (fe_UserMessage: string) (fe_Detail: string) (fe_Wrapped: "GoError option") (fe_Retryable: bool)

definition error_head :: "string \<Rightarrow> string \<Rightarrow> string \<Rightarrow> string" where
  "error_head code user detail = ''['' @ code @ ''] '' @ user @ (if detail \<noteq> '''' then '': '' @ detail else '''')"

fun error_text :: "GoError \<Rightarrow> string" where
  "error_text (Plain m) = m"
| "error_text (Errorf m e) = m"
| "error_text (Fabric code user detail None r) = error_head code user detail"
| "error_text (Fabric code user detail (Some e) r) = error_head code user detail @ '' (cause: '' @ error_text e @ '')''"

definition ErrNodeUnavailable :: GoError where
  "ErrNodeUnavailable = Fabric ''NODE_UNAVAILABLE'' ''A cluster node became unavailable. Tasks are being rerouted.'' '''' None True"

definition ErrInsufficientRAM :: GoError where
  "ErrInsufficientRAM = Fabric ''INSUFFICIENT_RAM'' ''Not enough RAM available. Add more devices to your cluster.'' '''' None False"

definition ErrTaskTimeout :: GoError where
  "ErrTaskTimeout = Fabric ''TASK_TIMEOUT'' ''The task timed out. It ran longer than the allowed time.'' '''' None False"

definition ErrOllamaNotRunning :: GoError where
  "ErrOllamaNotRunning = Fabric ''OLLAMA_NOT_RUNNING'' ''Ollama is not running on this device. Start it with: ollama serve'' [] None False"

definition ErrStorageWriteFailed :: GoError where
  "ErrStorageWriteFailed = Fabric ''STORAGE_WRITE_FAILED'' ''Could not save the file. Check that storage is not full.'' [] None True"

definition ErrClusterNoLeader :: GoError where
  "ErrClusterNoLeader = Fabric ''CLUSTER_NO_LEADER'' ''The cluster has no coordinator. It will self-elect shortly.'' [] None True"

definition ErrMCPServerDown :: GoError where
  "ErrMCPServerDown = Fabric ''MCP_SERVER_DOWN'' ''The integration is not responding. Check its configuration.'' [] None True"

definition fabric_wrap :: "GoError \<Rightarrow> string \<Rightarrow> GoError option \<Rightarrow> GoError" where
  "fabric_wrap base detail cause = Fabric (fe_Code base) (fe_UserMessage base) detail cause (fe_Retryable base)"

fun FabricError_Is :: "GoError \<Rightarrow> GoError \<Rightarrow> bool" where
  "FabricError_Is (Fabric code user detail w r) (Fabric code' user' detail' w' r') = (code = code')"
| "FabricError_Is e target = False"

text \<open>\<open>errors.As(err, &fe)\<close>: the first \<open>FabricError\<close> of the chain.\<close>

fun as_fabric :: "GoError \<Rightarrow> GoError option" where
  "as_fabric (Plain m) = None"
| "as_fabric (Errorf m e) = as_fabric e"
| "as_fabric (Fabric code user detail w r) = Some (Fabric code user detail w r)"

definition transientPatterns :: "string list" where
  "transientPatterns =
     [''connection refused'', ''timeout'', ''i/o timeout'', ''no such host'', ''temporary failure'', ''eof'',
      ''broken pipe'', ''reset by peer'', ''context deadline exceeded'']"

definition isTransientByString :: "GoError option \<Rightarrow> bool" where
  "isTransientByString err = (case err of None \<Rightarrow> False
     | Some e \<Rightarrow> \<exists>p \<in> set transientPatterns. contains (to_lower (error_text e)) p)"

datatype ErrorClass = ErrorTransient | ErrorPermanent | ErrorResourceExhausted

text \<open>The package \<open>errors\<close> looks through the chain, the package \<open>retry\<close> only at the error itself.\<close>

definition errors_IsRetryable :: "GoError option \<Rightarrow> bool" where
  "errors_IsRetryable err = (case Option.bind err as_fabric of
     Some fe \<Rightarrow> fe_Retryable fe
   | None \<Rightarrow> isTransientByString err)"

definition errors_UserMessage :: "GoError option \<Rightarrow> string" where
  "errors_UserMessage err = (case Option.bind err as_fabric of
     Some fe \<Rightarrow> fe_UserMessage fe
   | None \<Rightarrow> ''Something went wrong. Check the logs for details.'')"

definition errors_ClassifyError :: "GoError option \<Rightarrow> ErrorClass" where
  "errors_ClassifyError err = (case Option.bind err as_fabric of
     Some fe \<Rightarrow> if fe_Retryable fe then ErrorTransient else ErrorPermanent
   | None \<Rightarrow> ErrorTransient)"

definition retry_ClassifyError :: "GoError option \<Rightarrow> ErrorClass" where
  "retry_ClassifyError err = (case err of
     None \<Rightarrow> ErrorPermanent
   | Some (Fabric code user detail w r) \<Rightarrow> if r then ErrorTransient else ErrorPermanent
   | Some e \<Rightarrow> if isTransientByString (Some e) then ErrorTransient else ErrorPermanent)"

definition isRetryable :: "GoError \<Rightarrow> ErrorClass list \<Rightarrow> bool" where
  "isRetryable err classes = (if classes = [] then True else retry_ClassifyError (Some err) \<in> set classes)"

section \<open>Retries\<close>

record RetryPolicy =
  rp_MaxAttempts :: int
  rp_InitialDelay :: int
  rp_MaxDelay :: int
  rp_Multiplier :: real
  rp_JitterFraction :: real
  rp_RetryableErrors :: "ErrorClass list"

definition PolicyNetwork :: RetryPolicy where
  "PolicyNetwork = \<lparr>rp_MaxAttempts = 5, rp_InitialDelay = 200 * millisecond, rp_MaxDelay = 30000 * millisecond,
     rp_Multiplier = 2, rp_JitterFraction = 1/5, rp_RetryableErrors = [ErrorTransient, ErrorResourceExhausted]\<rparr>"

definition PolicyStorage :: RetryPolicy where
  "PolicyStorage = \<lparr>rp_MaxAttempts = 3, rp_InitialDelay = 100 * millisecond, rp_MaxDelay = 5000 * millisecond,
     rp_Multiplier = 2, rp_JitterFraction = 1/10, rp_RetryableErrors = [ErrorTransient]\<rparr>"

definition PolicyMCP :: RetryPolicy where
  "PolicyMCP = \<lparr>rp_MaxAttempts = 4, rp_InitialDelay = 500 * millisecond, rp_MaxDelay = 15000 * millisecond,
     rp_Multiplier = 2, rp_JitterFraction = 1/4, rp_RetryableErrors = [ErrorTransient, ErrorResourceExhausted]\<rparr>"

definition PolicyFast :: RetryPolicy where
  "PolicyFast = \<lparr>rp_MaxAttempts = 2, rp_InitialDelay = 50 * millisecond, rp_MaxDelay = 500 * millisecond,
     rp_Multiplier = 2, rp_JitterFraction = 1/10, rp_RetryableErrors = []\<rparr>"

definition PolicyNone :: RetryPolicy where
  "PolicyNone = \<lparr>rp_MaxAttempts = 1, rp_InitialDelay = 0, rp_MaxDelay = 0, rp_Multiplier = 0, rp_JitterFraction = 0, rp_RetryableErrors = []\<rparr>"

text \<open>\<open>rnd\<close> is the result of \<open>rng.Float64\<close>; the conversion to a duration rounds towards zero.\<close>

definition to_duration :: "real \<Rightarrow> int" where "to_duration x = (if 0 \<le> x then \<lfloor>x\<rfloor> else \<lceil>x\<rceil>)"

definition backoff_base :: "int \<Rightarrow> RetryPolicy \<Rightarrow> real" where
  "backoff_base attempt policy = min (of_int (rp_InitialDelay policy) * rp_Multiplier policy ^ nat (attempt - 1)) (of_int (rp_MaxDelay policy))"

definition computeDelay :: "real \<Rightarrow> int \<Rightarrow> RetryPolicy \<Rightarrow> int" where
  "computeDelay rnd attempt policy =
     (let base = backoff_base attempt policy;
          jitter = (rnd * 2 - 1) * rp_JitterFraction policy * base;
          delay = to_duration (base + jitter)
      in if delay < 0 then to_duration base else delay)"

text \<open>When the context is found cancelled: before an attempt, and during the wait after it.\<close>

record RetryContext =
  rc_Cancelled :: "int \<Rightarrow> bool"
  rc_CancelledWait :: "int \<Rightarrow> bool"
  rc_Err :: GoError

definition failed_after :: "string \<Rightarrow> int \<Rightarrow> GoError option \<Rightarrow> GoError" where
  "failed_after op n last_err = (let m = op @ '': failed after '' @ show_int n @ '' attempts: '' in
     case last_err of None \<Rightarrow> Plain (m @ ''%!w(<nil>)'') | Some e \<Rightarrow> Errorf (m @ error_text e) e)"

function retry_loop :: "RetryPolicy \<Rightarrow> (int \<Rightarrow> 's \<Rightarrow> GoError option \<times> 's) \<Rightarrow> RetryContext \<Rightarrow> string \<Rightarrow> int \<Rightarrow> GoError option \<Rightarrow> 's \<Rightarrow>
    GoError option \<times> 's" where
  "retry_loop policy fn ctx op attempt last_err s =
     (if rp_MaxAttempts policy < attempt then (Some (failed_after op (rp_MaxAttempts policy) last_err), s)
      else if rc_Cancelled ctx attempt then
        (Some (Errorf (op @ '': context cancelled after '' @ show_int (attempt - 1) @ '' attempts: '' @ error_text (rc_Err ctx)) (rc_Err ctx)), s)
      else case fn attempt s of
        (None, s') \<Rightarrow> (None, s')
      | (Some err, s') \<Rightarrow>
          if \<not> isRetryable err (rp_RetryableErrors policy) then
            (Some (Errorf (op @ '': permanent failure: '' @ error_text err) err), s')
          else if attempt = rp_MaxAttempts policy then
            (Some (failed_after op (rp_MaxAttempts policy) (Some err)), s')
          else if rc_CancelledWait ctx attempt then
            (Some (Errorf (op @ '': context cancelled during retry backoff: '' @ error_text (rc_Err ctx)) (rc_Err ctx)), s')
          else retry_loop policy fn ctx op (attempt + 1) (Some err) s')"
  by pat_completeness auto
termination by (relation "measure (\<lambda>(policy, fn, ctx, op, attempt, e, s). nat (rp_MaxAttempts policy + 1 - attempt))") auto

declare retry_loop.simps [simp del]

definition Retry_Do :: "RetryPolicy \<Rightarrow> (int \<Rightarrow> 's \<Rightarrow> GoError option \<times> 's) \<Rightarrow> RetryContext \<Rightarrow> string \<Rightarrow> 's \<Rightarrow> GoError option \<times> 's" where
  "Retry_Do policy fn ctx op s = retry_loop policy fn ctx op 1 None s"

text \<open>The idempotency store holds the keys that have succeeded.\<close>

definition WithIdempotencyKey :: "string \<Rightarrow> ('s \<Rightarrow> GoError option \<times> 's) \<Rightarrow> int \<Rightarrow> string set \<times> 's \<Rightarrow> GoError option \<times> string set \<times> 's" where
  "WithIdempotencyKey key fn attempt st =
     (let (store, s) = st in
      if key \<in> store then (None, store, s)
      else let (err, s') = fn s in (err, if err = None then insert key store else store, s'))"

section \<open>Restarts\<close>

text \<open>
  \<open>panics i\<close> tells whether the \<open>i\<close>-th run of the function panics; \<open>pauses\<close> collects the pauses between
  the runs, in seconds. A goroutine that gives up returns them.
\<close>

partial_function (option) restart_loop :: "int \<Rightarrow> (nat \<Rightarrow> bool) \<Rightarrow> nat \<Rightarrow> int \<Rightarrow> int list \<Rightarrow> int list option" where
  "restart_loop maxRestarts panics i restarts pauses =
     (let restarts = (if panics i then restarts + 1 else restarts) in
      if restarts > maxRestarts then Some pauses
      else restart_loop maxRestarts panics (Suc i) restarts (pauses @ [restarts]))"

definition SafeGoRestart :: "int \<Rightarrow> (nat \<Rightarrow> bool) \<Rightarrow> int list option" where
  "SafeGoRestart maxRestarts panics = restart_loop maxRestarts panics 0 0 []"

section \<open>Attempts\<close>

text \<open>The operation, with a record of its attempts and their results.\<close>

definition traced :: "(int \<Rightarrow> 's \<Rightarrow> GoError option \<times> 's) \<Rightarrow> int \<Rightarrow> 's \<times> (int \<times> GoError option) list \<Rightarrow> GoError option \<times> 's \<times> (int \<times> GoError option) list" where
  "traced fn attempt st = (let (err, s') = fn attempt (fst st) in (err, s', snd st @ [(attempt, err)]))"

definition retried :: "RetryPolicy \<Rightarrow> int \<times> GoError option \<Rightarrow> bool" where
  "retried policy call \<longleftrightarrow> (\<exists>e. snd call = Some e \<and> isRetryable e (rp_RetryableErrors policy))"

definition uncancelled :: "RetryContext \<Rightarrow> bool" where
  "uncancelled ctx \<longleftrightarrow> (\<forall>i. \<not> rc_Cancelled ctx i \<and> \<not> rc_CancelledWait ctx i)"

lemma retry_loop_calls:
  assumes "retry_loop policy (traced fn) ctx op attempt last_err (s, calls) = (res, s', calls')"
  shows "\<exists>new. calls' = calls @ new \<and> map fst new = map (\<lambda>i. attempt + int i) [0..<length new] \<and>
    int (length new) \<le> max 0 (rp_MaxAttempts policy + 1 - attempt) \<and> (\<forall>c \<in> set (butlast new). retried policy c) \<and>
    (res = None \<longleftrightarrow> new \<noteq> [] \<and> snd (last new) = None) \<and>
    (res \<noteq> None \<and> uncancelled ctx \<and> (\<forall>c \<in> set new. retried policy c) \<longrightarrow>
      int (length new) = max 0 (rp_MaxAttempts policy + 1 - attempt))"
  using assms
proof (induction policy "traced fn" ctx op attempt last_err "(s, calls)" arbitrary: s calls rule: retry_loop.induct)
  case (1 policy ctx op attempt last_err s calls)
  note unfolded = "1.prems" [unfolded retry_loop.simps [of policy "traced fn" ctx op attempt]]
  obtain err s1 where fn: "fn attempt s = (err, s1)" by (meson surj_pair)
  then have tr: "traced fn attempt (s, calls) = (err, s1, calls @ [(attempt, err)])" by (simp add: traced_def)
  show ?case
  proof (cases "rp_MaxAttempts policy < attempt \<or> rc_Cancelled ctx attempt")
    case True
    then show ?thesis using unfolded by (intro exI [of _ "[]"]) (auto simp: uncancelled_def split: if_splits)
  next
    case go: False
    show ?thesis
    proof (cases "\<exists>e. err = Some e \<and> isRetryable e (rp_RetryableErrors policy) \<and> attempt \<noteq> rp_MaxAttempts policy \<and> \<not> rc_CancelledWait ctx attempt")
      case False
      then have "calls' = calls @ [(attempt, err)] \<and> (res = None \<longleftrightarrow> err = None)"
        using unfolded go tr by (auto split: option.splits if_splits)
      then show ?thesis using go False by (intro exI [of _ "[(attempt, err)]"]) (auto simp: uncancelled_def retried_def)
    next
      case True
      then obtain e where e: "err = Some e" "isRetryable e (rp_RetryableErrors policy)" "attempt \<noteq> rp_MaxAttempts policy"
        "\<not> rc_CancelledWait ctx attempt" by blast
      have pre: "\<not> rp_MaxAttempts policy < attempt" "\<not> rc_Cancelled ctx attempt" "\<not> \<not> isRetryable e (rp_RetryableErrors policy)"
        using go e(2) by auto
      have rl: "retry_loop policy (traced fn) ctx op (attempt + 1) (Some e) (s1, calls @ [(attempt, err)]) = (res, s', calls')"
        using unfolded go tr e by simp
      then obtain new where new: "calls' = (calls @ [(attempt, err)]) @ new" "map fst new = map (\<lambda>i. attempt + 1 + int i) [0..<length new]"
        "int (length new) \<le> max 0 (rp_MaxAttempts policy + 1 - (attempt + 1))" "\<forall>c \<in> set (butlast new). retried policy c"
        "res = None \<longleftrightarrow> new \<noteq> [] \<and> snd (last new) = None"
        "res \<noteq> None \<and> uncancelled ctx \<and> (\<forall>c \<in> set new. retried policy c) \<longrightarrow>
          int (length new) = max 0 (rp_MaxAttempts policy + 1 - (attempt + 1))"
        using "1.hyps" [OF pre(1,2) tr [symmetric] e(1) pre(3) e(3,4) rl] by (elim exE conjE) (rule that)
      have "map fst ((attempt, err) # new) = map (\<lambda>i. attempt + int i) [0..<length ((attempt, err) # new)]"
        using new(2) by (simp add: map_upt_Suc del: upt_Suc)
      moreover have "\<forall>c \<in> set (butlast ((attempt, err) # new)). retried policy c"
        using new(4) e by (auto simp: retried_def)
      moreover have "res = None \<longleftrightarrow> (attempt, err) # new \<noteq> [] \<and> snd (last ((attempt, err) # new)) = None"
        using new(5) e(1) by auto
      moreover have "res \<noteq> None \<and> uncancelled ctx \<and> (\<forall>c \<in> set ((attempt, err) # new). retried policy c) \<longrightarrow>
          int (length ((attempt, err) # new)) = max 0 (rp_MaxAttempts policy + 1 - attempt)"
        using new(6) go by auto
      ultimately show ?thesis using new(1,3) go by (intro exI [of _ "(attempt, err) # new"]) auto
    qed
  qed
qed

lemma computeDelay_eq:
  assumes "0 \<le> rp_InitialDelay policy" and "0 \<le> rp_MaxDelay policy" and "0 \<le> rp_Multiplier policy"
    and "0 \<le> rp_JitterFraction policy" "rp_JitterFraction policy \<le> 1" and "0 \<le> rnd" "rnd < 1"
  shows "computeDelay rnd attempt policy = \<lfloor>backoff_base attempt policy * (1 + (rnd * 2 - 1) * rp_JitterFraction policy)\<rfloor>"
proof -
  let ?b = "backoff_base attempt policy" and ?f = "1 + (rnd * 2 - 1) * rp_JitterFraction policy"
  have b: "0 \<le> ?b" using assms(1-3) by (simp add: backoff_base_def)
  have "(-1) * rp_JitterFraction policy \<le> (rnd * 2 - 1) * rp_JitterFraction policy"
    using assms(4,6) by (intro mult_right_mono) auto
  then have "0 \<le> ?f" using assms(5) by linarith
  then have "0 \<le> ?b * ?f" using b by simp
  moreover have "?b + (rnd * 2 - 1) * rp_JitterFraction policy * ?b = ?b * ?f" by (simp add: algebra_simps)
  ultimately show ?thesis by (simp add: computeDelay_def Let_def to_duration_def)
qed

text \<open>
  A retried operation is attempted with the numbers 1, 2, ... at most \<open>MaxAttempts\<close> times; it is
  tried again only after an error that the policy retries; the result is success exactly if the
  last attempt succeeded, and without cancellation a failure means that the attempts were used up
  or that the last error is not retried.
\<close>

theorem retry_attempts:
  assumes "Retry_Do policy (traced fn) ctx op (s, []) = (res, s', calls)"
  shows "map fst calls = map (\<lambda>i. 1 + int i) [0..<length calls] \<and>
    int (length calls) \<le> max 0 (rp_MaxAttempts policy) \<and>
    (\<forall>c \<in> set (butlast calls). retried policy c) \<and>
    (res = None \<longleftrightarrow> calls \<noteq> [] \<and> snd (last calls) = None) \<and>
    (res \<noteq> None \<and> uncancelled ctx \<and> (\<forall>c \<in> set calls. retried policy c) \<longrightarrow> int (length calls) = max 0 (rp_MaxAttempts policy))"
  using retry_loop_calls [OF assms [unfolded Retry_Do_def]] by auto

text \<open>A call that is refused twice and then succeeds.\<close>

definition flaky :: "int \<Rightarrow> unit \<Rightarrow> GoError option \<times> unit" where
  "flaky attempt s = (if attempt < 3 then Some (Plain ''connection refused'') else None, ())"

definition quiet_context :: RetryContext where
  "quiet_context = \<lparr>rc_Cancelled = \<lambda>_. False, rc_CancelledWait = \<lambda>_. False, rc_Err = Plain ''context canceled''\<rparr>"

lemma flaky_run:
  "Retry_Do PolicyNetwork (traced flaky) quiet_context ''ping'' ((), []) =
     (None, (), [(1, Some (Plain ''connection refused'')), (2, Some (Plain ''connection refused'')), (3, None)])"
proof -
  have "isRetryable (Plain ''connection refused'') [ErrorTransient, ErrorResourceExhausted]" by code_simp
  then show ?thesis
    by (simp add: Retry_Do_def retry_loop.simps PolicyNetwork_def quiet_context_def traced_def flaky_def)
qed

theorem retry_attempts_witness:
  "int (length (snd (snd (Retry_Do PolicyNetwork (traced flaky) quiet_context ''ping'' ((), []))))) \<le> 5"
  using retry_attempts [OF flaky_run] by (simp only: flaky_run) simp

text \<open>
  The wait before the next attempt is never negative and exceeds the exponential back-off, and
  with it \<open>MaxDelay\<close>, at most by the jitter; it does exceed \<open>MaxDelay\<close> once the back-off has reached
  it and the random number is large enough.
\<close>

theorem computeDelay_bounds:
  fixes rnd :: real
  assumes "0 \<le> rp_InitialDelay policy" and "0 \<le> rp_MaxDelay policy" and "0 \<le> rp_Multiplier policy"
    and "0 \<le> rp_JitterFraction policy" "rp_JitterFraction policy \<le> 1" and "0 \<le> rnd" "rnd < 1"
  shows "0 \<le> computeDelay rnd attempt policy \<and>
    computeDelay rnd attempt policy \<le> (1 + rp_JitterFraction policy) * backoff_base attempt policy \<and>
    computeDelay rnd attempt policy \<le> (1 + rp_JitterFraction policy) * rp_MaxDelay policy \<and>
    (backoff_base attempt policy = rp_MaxDelay policy \<and> 1 \<le> rp_MaxDelay policy * (rnd * 2 - 1) * rp_JitterFraction policy \<longrightarrow>
      rp_MaxDelay policy < computeDelay rnd attempt policy)"
proof -
  let ?b = "backoff_base attempt policy" and ?j = "rp_JitterFraction policy" and ?m = "rp_MaxDelay policy"
  let ?f = "1 + (rnd * 2 - 1) * ?j"
  have d: "computeDelay rnd attempt policy = \<lfloor>?b * ?f\<rfloor>" using assms by (intro computeDelay_eq)
  have b: "0 \<le> ?b" "?b \<le> ?m" using assms(1-3) by (simp_all add: backoff_base_def)
  have lo: "(-1) * ?j \<le> (rnd * 2 - 1) * ?j" and hi: "(rnd * 2 - 1) * ?j \<le> 1 * ?j"
    using assms(4,6,7) by (intro mult_right_mono; simp)+
  have f: "0 \<le> ?f" "?f \<le> 1 + ?j" using lo hi assms(5) by linarith+
  have bf: "?b * ?f \<le> ?b * (1 + ?j)" using f b by (intro mult_left_mono) auto
  moreover have "?b * (1 + ?j) \<le> ?m * (1 + ?j)" using b assms(4) by (intro mult_right_mono) auto
  moreover have "?m < \<lfloor>?b * ?f\<rfloor>" if "?b = ?m" "1 \<le> ?m * (rnd * 2 - 1) * ?j"
  proof -
    have "?b * ?f = ?m + ?m * (rnd * 2 - 1) * ?j" using that(1) by (simp add: algebra_simps)
    then have "of_int (?m + 1) \<le> ?b * ?f" using that(2) by simp
    then have "?m + 1 \<le> \<lfloor>?b * ?f\<rfloor>" by (simp only: le_floor_iff)
    then show ?thesis by simp
  qed
  moreover have "0 \<le> \<lfloor>?b * ?f\<rfloor>" using b f by simp
  moreover have "of_int \<lfloor>?b * ?f\<rfloor> \<le> ?b * ?f" by simp
  ultimately show ?thesis unfolding d by (auto simp: algebra_simps)
qed

theorem computeDelay_bounds_witness:
  "30000000000 < computeDelay (9/10) 12 PolicyNetwork \<and> computeDelay (9/10) 12 PolicyNetwork \<le> 36000000000"
proof -
  have b: "backoff_base 12 PolicyNetwork = rp_MaxDelay PolicyNetwork"
    by (simp add: backoff_base_def PolicyNetwork_def)
  show ?thesis using computeDelay_bounds [of PolicyNetwork "9/10" 12] b
    by (simp add: PolicyNetwork_def)
qed

section \<open>Idempotency\<close>

fun idempotent_calls :: "string \<Rightarrow> ('s \<Rightarrow> GoError option \<times> 's) \<Rightarrow> int list \<Rightarrow> string set \<times> 's \<Rightarrow> GoError option list \<times> string set \<times> 's" where
  "idempotent_calls key fn [] st = ([], st)"
| "idempotent_calls key fn (a # as) st =
     (let (err, st) = WithIdempotencyKey key fn a st; (errs, st) = idempotent_calls key fn as st in (err # errs, st))"

text \<open>The results of the executions of \<open>fn\<close> itself.\<close>

definition logged :: "('s \<Rightarrow> GoError option \<times> 's) \<Rightarrow> 's \<times> GoError option list \<Rightarrow> GoError option \<times> 's \<times> GoError option list" where
  "logged fn st = (let (err, s') = fn (fst st) in (err, s', snd st @ [err]))"

lemma logged_apply: "fn s = (err, s') \<Longrightarrow> logged fn (s, old) = (err, s', old @ [err])"
  by (simp add: logged_def)

lemma idempotent_after:
  "key \<in> store \<Longrightarrow> idempotent_calls key fn as (store, s) = (replicate (length as) None, store, s)"
  by (induction as) (simp_all add: WithIdempotencyKey_def)

text \<open>
  However often an operation with an idempotency key is called in turn, it is executed until
  its first success and not once after it, and every later call reports success.
\<close>

theorem idempotent_once:
  assumes "key \<notin> store" and "idempotent_calls key (logged fn) as (store, s, []) = (errs, store', s', runs)"
  shows "None \<notin> set (butlast runs) \<and> errs = runs @ replicate (length as - length runs) None \<and>
    (key \<in> store' \<longleftrightarrow> None \<in> set runs) \<and> (key \<notin> store' \<longrightarrow> length runs = length as)"
proof -
  have "\<exists>new. runs = old @ new \<and> length new \<le> length as \<and> None \<notin> set (butlast new) \<and> errs = new @ replicate (length as - length new) None \<and>
    (key \<in> store' \<longleftrightarrow> None \<in> set new) \<and> (key \<notin> store' \<longrightarrow> length new = length as)"
    if "idempotent_calls key (logged fn) as (store, s, old) = (errs, store', s', runs)" for old
    using assms(1) that
  proof (induction as arbitrary: s old errs)
    case (Cons a as)
    obtain err s1 where fn: "fn s = (err, s1)" by (meson surj_pair)
    show ?case
    proof (cases err)
      case None
      then show ?thesis using Cons.prems fn
        by (intro exI [of _ "[None]"]) (auto simp: WithIdempotencyKey_def logged_apply [of fn s, OF fn] idempotent_after)
    next
      case (Some e)
      obtain errs1 st1 where r: "idempotent_calls key (logged fn) as (store, s1, old @ [err]) = (errs1, st1)"
        by (meson surj_pair)
      then have "st1 = (store', s', runs)" and errs: "errs = err # errs1"
        using Cons.prems Some by (auto simp: WithIdempotencyKey_def logged_apply [of fn s, OF fn])
      then obtain new where new: "runs = (old @ [err]) @ new" "length new \<le> length as" "None \<notin> set (butlast new)"
        "errs1 = new @ replicate (length as - length new) None" "key \<in> store' \<longleftrightarrow> None \<in> set new"
        "key \<notin> store' \<longrightarrow> length new = length as"
        using Cons.IH [OF Cons.prems(1), of s1 "old @ [err]" errs1] r by auto
      then show ?thesis using Some errs by (intro exI [of _ "err # new"]) auto
    qed
  qed simp
  from this [OF assms(2)] show ?thesis by auto
qed

theorem idempotent_once_witness:
  "idempotent_calls ''k'' (logged (\<lambda>s. (if s < 2 then Some (Plain ''eof'') else None, s + 1))) [1, 2, 3, 4, 5] ({}, 1::nat, []) =
     ([Some (Plain ''eof''), None, None, None, None], {''k''}, 3, [Some (Plain ''eof''), None])"
  (is "?run = ?result")
proof -
  have run: "?run = ?result" by (simp add: WithIdempotencyKey_def logged_def)
  have "None \<notin> set (butlast [Some (Plain ''eof''), None])" using idempotent_once [OF _ run] by simp
  then show ?thesis using run by simp
qed

section \<open>Classification\<close>

lemma lower_append: "to_lower (s @ t) = to_lower s @ to_lower t"
  by (simp add: to_lower_def)

text \<open>
  The two classifications agree on an error that is not wrapped, if it is a \<open>FabricError\<close>. An
  error wrapped with \<open>fmt.Errorf\<close>, as \<open>Do\<close> itself does, keeps its class in the package \<open>errors\<close>; the
  package \<open>retry\<close> forgets it and reads the text: a task that timed out, which is permanent, is
  retried after wrapping, an unavailable node is not.
\<close>

theorem wrapping_changes_class:
  "(\<forall>code user detail w r. retry_ClassifyError (Some (Fabric code user detail w r)) = errors_ClassifyError (Some (Fabric code user detail w r))) \<and>
   (\<forall>m e. errors_ClassifyError (Some (Errorf m e)) = errors_ClassifyError (Some e)) \<and>
   retry_ClassifyError (Some ErrTaskTimeout) = ErrorPermanent \<and>
   (\<forall>op. retry_ClassifyError (Some (Errorf (op @ '': permanent failure: '' @ error_text ErrTaskTimeout) ErrTaskTimeout)) = ErrorTransient) \<and>
   retry_ClassifyError (Some ErrNodeUnavailable) = ErrorTransient \<and>
   retry_ClassifyError (Some (Errorf (''ping: permanent failure: '' @ error_text ErrNodeUnavailable) ErrNodeUnavailable)) = ErrorPermanent"
proof -
  let ?p = "'': permanent failure: '' @ error_text ErrTaskTimeout"
  have "contains (to_lower ?p) ''timeout''" by code_simp
  then have t: "contains (to_lower (op @ ?p)) ''timeout''" for op
    using contains_append [of "to_lower ?p" "''timeout''" "to_lower op" "[]"] by (simp only: lower_append append_Nil2)
  have 1: "retry_ClassifyError (Some (Errorf (op @ '': permanent failure: '' @ error_text ErrTaskTimeout) ErrTaskTimeout)) = ErrorTransient" for op
    unfolding retry_ClassifyError_def isTransientByString_def
    by (simp only: option.case GoError.case error_text.simps) (use t [of op] in \<open>simp only: transientPatterns_def list.set bex_simps simp_thms if_True\<close>)
  have 2: "retry_ClassifyError (Some (Errorf (''ping: permanent failure: '' @ error_text ErrNodeUnavailable) ErrNodeUnavailable)) = ErrorPermanent"
    by code_simp
  show ?thesis
    using 1 2 by (simp add: errors_ClassifyError_def retry_ClassifyError_def ErrTaskTimeout_def ErrNodeUnavailable_def)
qed

section \<open>Restarts of a goroutine\<close>

text \<open>Panics among the first \<open>n\<close> runs.\<close>

fun panic_count :: "(nat \<Rightarrow> bool) \<Rightarrow> nat \<Rightarrow> int" where
  "panic_count panics 0 = 0"
| "panic_count panics (Suc n) = panic_count panics n + (if panics n then 1 else 0)"

lemma panic_count_mono: "m \<le> n \<Longrightarrow> panic_count panics m \<le> panic_count panics n"
  by (induction n) (auto simp: le_Suc_eq)

lemma restart_loop_stops:
  assumes "i \<le> n" and "max_r < panic_count panics (Suc n)" and "\<And>k. k \<le> n \<Longrightarrow> panic_count panics k \<le> max_r"
  shows "restart_loop max_r panics i (panic_count panics i) pauses = Some (pauses @ map (\<lambda>k. panic_count panics (Suc k)) [i..<n])"
  using assms(1)
proof (induction "n - i" arbitrary: i pauses)
  case 0
  then have "i = n" by simp
  then show ?case using assms(2) by (subst restart_loop.simps) (auto simp: Let_def split: if_splits)
next
  case (Suc d)
  then have "i < n" by simp
  then have c: "panic_count panics (Suc i) \<le> max_r" using assms(3) [of "Suc i"] by simp
  have "restart_loop max_r panics i (panic_count panics i) pauses =
      restart_loop max_r panics (Suc i) (panic_count panics (Suc i)) (pauses @ [panic_count panics (Suc i)])"
    by (subst restart_loop.simps) (use c in \<open>auto simp: Let_def split: if_splits\<close>)
  also have "\<dots> = Some ((pauses @ [panic_count panics (Suc i)]) @ map (\<lambda>k. panic_count panics (Suc k)) [Suc i..<n])"
    by (rule Suc.hyps(1)) (use Suc.hyps(2) \<open>i < n\<close> in auto)
  finally show ?case using \<open>i < n\<close> by (simp add: upt_conv_Cons)
qed

lemma restart_loop_Some:
  assumes "restart_loop max_r panics i restarts pauses = Some result"
  shows "restarts = panic_count panics i \<longrightarrow> (\<exists>n. max_r < panic_count panics n)"
proof (rule restart_loop.raw_induct [where P = "\<lambda>mr pn i r ps y. r = panic_count pn i \<longrightarrow> (\<exists>n. mr < panic_count pn n)", OF _ assms])
  fix f :: "int \<Rightarrow> (nat \<Rightarrow> bool) \<Rightarrow> nat \<Rightarrow> int \<Rightarrow> int list \<Rightarrow> int list option" and mr :: int and pn :: "nat \<Rightarrow> bool" and i :: nat and r :: int and ps y
  let ?r = "if pn i then r + 1 else r"
  assume IH: "\<And>mr pn i r ps y. f mr pn i r ps = Some y \<Longrightarrow> r = panic_count pn i \<longrightarrow> (\<exists>n. mr < panic_count pn n)"
    and body: "(let restarts = ?r in if mr < restarts then Some ps else f mr pn (Suc i) restarts (ps @ [restarts])) = Some y"
  show "r = panic_count pn i \<longrightarrow> (\<exists>n. mr < panic_count pn n)"
  proof (cases "mr < ?r")
    case True
    then have "r = panic_count pn i \<Longrightarrow> mr < panic_count pn (Suc i)" by (auto split: if_splits)
    then show ?thesis by blast
  next
    case False
    then have "f mr pn (Suc i) ?r (ps @ [?r]) = Some y" using body by (simp only: Let_def if_False)
    from IH [OF this] show ?thesis by simp
  qed
qed

lemma restart_loop_zero: "max_r < 0 \<Longrightarrow> SafeGoRestart max_r panics = Some []"
  unfolding SafeGoRestart_def by (subst restart_loop.simps) (simp add: Let_def)

lemma first_excess:
  assumes "max_r < panic_count panics n" and "0 \<le> max_r"
  shows "\<exists>n. max_r < panic_count panics (Suc n) \<and> (\<forall>k \<le> n. panic_count panics k \<le> max_r)"
proof -
  let ?n = "LEAST n. max_r < panic_count panics n"
  have n: "max_r < panic_count panics ?n" using assms(1) by (rule LeastI)
  then obtain m where m: "?n = Suc m" using assms(2) by (cases ?n) auto
  have "panic_count panics k \<le> max_r" if "k \<le> m" for k
    using not_less_Least [of k "\<lambda>n. max_r < panic_count panics n"] m that by simp
  then show ?thesis using n unfolding m by blast
qed

text \<open>
  A supervised function is run again for ever unless it panics more than \<open>maxRestarts\<close> times;
  then the goroutine ends with the panic that exceeds the limit, and the pause after each run is
  the number of panics so far: there is none after a function that returns before its first
  panic.
\<close>

theorem SafeGoRestart_gives_up:
  "(SafeGoRestart maxRestarts panics \<noteq> None) = (\<exists>n. maxRestarts < panic_count panics n) \<and>
   (\<forall>n. maxRestarts < panic_count panics (Suc n) \<and> (\<forall>k \<le> n. panic_count panics k \<le> maxRestarts) \<longrightarrow>
     SafeGoRestart maxRestarts panics = Some (map (\<lambda>k. panic_count panics (Suc k)) [0..<n]))"
proof -
  have stop: "SafeGoRestart maxRestarts panics = Some (map (\<lambda>k. panic_count panics (Suc k)) [0..<n])"
    if "maxRestarts < panic_count panics (Suc n)" "\<forall>k \<le> n. panic_count panics k \<le> maxRestarts" for n
    using restart_loop_stops [of 0 n maxRestarts panics "[]"] that by (simp add: SafeGoRestart_def)
  show ?thesis
  proof (cases "maxRestarts < 0")
    case True
    then show ?thesis using stop restart_loop_zero [OF True] by (auto intro!: exI [of _ 0])
  next
    case False
    have "\<exists>n. maxRestarts < panic_count panics n" if "SafeGoRestart maxRestarts panics \<noteq> None"
      using that restart_loop_Some [of maxRestarts panics 0 0 "[]"] by (auto simp: SafeGoRestart_def)
    moreover have "SafeGoRestart maxRestarts panics \<noteq> None" if "maxRestarts < panic_count panics n" for n
      using first_excess [OF that] False stop by auto
    ultimately show ?thesis using stop by blast
  qed
qed

theorem SafeGoRestart_gives_up_witness: "SafeGoRestart 1 (\<lambda>i. i = 1 \<or> i = 2) = Some [0, 1]"
proof -
  have "\<forall>k \<le> 2. panic_count (\<lambda>i. i = 1 \<or> i = 2) k \<le> 1" by (auto simp: le_Suc_eq numeral_2_eq_2)
  moreover have "1 < panic_count (\<lambda>i. i = 1 \<or> i = 2) (Suc 2)" by (simp add: eval_nat_numeral)
  ultimately have "SafeGoRestart 1 (\<lambda>i. i = 1 \<or> i = 2) = Some (map (\<lambda>k. panic_count (\<lambda>i. i = 1 \<or> i = 2) (Suc k)) [0..<2])"
    using SafeGoRestart_gives_up [of 1 "\<lambda>i. i = 1 \<or> i = 2"] by blast
  then show ?thesis by (simp add: upt_rec)
qed

end
