(* ===== verification/Health.thy ===== *)
theory Health
  imports Go_Strings
begin

text \<open>
  \<open>internal/reliability/lifecycle\<close> and \<open>internal/reliability/health\<close>: the life of a long-running
  component, with the calls of \<open>Start\<close> and \<open>Shutdown\<close> that run at the same time, and the registry of
  health checks. Results of the callbacks and the order in which a map is ranged over are arguments.
\<close>

section \<open>Components\<close>

datatype LcState = StateNew | StateStarting | StateRunning | StateStopping | StateStopped | StateError

fun validTransitions :: "LcState \<Rightarrow> LcState list" where
  "validTransitions StateNew = [StateStarting]"
| "validTransitions StateStarting = [StateRunning, StateError]"
| "validTransitions StateRunning = [StateStopping, StateError]"
| "validTransitions StateStopping = [StateStopped, StateError]"
| "validTransitions StateStopped = []"
| "validTransitions StateError = []"

record Component =
  lc_name :: string
  lc_state :: LcState
  lc_err :: "string option"

datatype LcError = IllegalTransition LcState LcState | FailedToStart string

definition New_Component :: "string \<Rightarrow> Component" where
  "New_Component name = \<lparr>lc_name = name, lc_state = StateNew, lc_err = None\<rparr>"

definition transition :: "LcState \<Rightarrow> Component \<Rightarrow> LcError option \<times> Component" where
  "transition nxt c =
     (if nxt \<in> set (validTransitions (lc_state c)) then (None, c\<lparr>lc_state := nxt\<rparr>)
      else (Some (IllegalTransition (lc_state c) nxt), c))"

definition transitionError :: "string \<Rightarrow> Component \<Rightarrow> Component" where
  "transitionError err c = c\<lparr>lc_state := StateError, lc_err := Some err\<rparr>"

text \<open>A call of \<open>Start\<close> or \<open>Shutdown\<close> that nothing interrupts; \<open>res\<close> is the result of the callback.\<close>

definition Component_Start :: "string option \<Rightarrow> Component \<Rightarrow> LcError option \<times> Component" where
  "Component_Start res c =
     (case transition StateStarting c of
        (Some e, c) \<Rightarrow> (Some e, c)
      | (None, c) \<Rightarrow>
          (case res of
             Some err \<Rightarrow> (Some (FailedToStart err), transitionError err c)
           | None \<Rightarrow> transition StateRunning c))"

definition Component_Shutdown :: "string option \<Rightarrow> Component \<Rightarrow> LcError option \<times> Component" where
  "Component_Shutdown res c =
     (case transition StateStopping c of
        (Some e, c) \<Rightarrow> (Some e, c)
      | (None, c) \<Rightarrow> transition StateStopped c)"

definition IsRunning :: "Component \<Rightarrow> bool" where "IsRunning c \<longleftrightarrow> lc_state c = StateRunning"

text \<open>
  Several goroutines call the component: \<open>ls_starting\<close> and \<open>ls_stopping\<close> of them are inside the callbacks,
  which have been called \<open>ls_onStart\<close> and \<open>ls_onStop\<close> times.
\<close>

record LcSystem =
  ls_comp :: Component
  ls_starting :: nat
  ls_stopping :: nat
  ls_onStart :: nat
  ls_onStop :: nat

datatype LcEvent = StartCalled | StartReturned "string option" | ShutdownCalled | ShutdownReturned "string option"

fun lc_step :: "LcEvent \<Rightarrow> LcSystem \<Rightarrow> (LcError option \<times> LcSystem) option" where
  "lc_step StartCalled s =
     (case transition StateStarting (ls_comp s) of
        (Some e, c) \<Rightarrow> Some (Some e, s\<lparr>ls_comp := c\<rparr>)
      | (None, c) \<Rightarrow> Some (None, s\<lparr>ls_comp := c, ls_starting := ls_starting s + 1, ls_onStart := ls_onStart s + 1\<rparr>))"
| "lc_step (StartReturned res) s =
     (if ls_starting s = 0 then None
      else let s = s\<lparr>ls_starting := ls_starting s - 1\<rparr> in
        case res of
          Some err \<Rightarrow> Some (Some (FailedToStart err), s\<lparr>ls_comp := transitionError err (ls_comp s)\<rparr>)
        | None \<Rightarrow> (let (e, c) = transition StateRunning (ls_comp s) in Some (e, s\<lparr>ls_comp := c\<rparr>)))"
| "lc_step ShutdownCalled s =
     (case transition StateStopping (ls_comp s) of
        (Some e, c) \<Rightarrow> Some (Some e, s\<lparr>ls_comp := c\<rparr>)
      | (None, c) \<Rightarrow> Some (None, s\<lparr>ls_comp := c, ls_stopping := ls_stopping s + 1, ls_onStop := ls_onStop s + 1\<rparr>))"
| "lc_step (ShutdownReturned res) s =
     (if ls_stopping s = 0 then None
      else let s = s\<lparr>ls_stopping := ls_stopping s - 1\<rparr>; (e, c) = transition StateStopped (ls_comp s)
        in Some (e, s\<lparr>ls_comp := c\<rparr>))"

inductive lc_reachable :: "string \<Rightarrow> LcSystem \<Rightarrow> bool" for name where
  Start: "lc_reachable name \<lparr>ls_comp = New_Component name, ls_starting = 0, ls_stopping = 0, ls_onStart = 0, ls_onStop = 0\<rparr>"
| Step: "lc_reachable name s \<Longrightarrow> lc_step ev s = Some (e, s') \<Longrightarrow> lc_reachable name s'"

definition lc_inv :: "LcSystem \<Rightarrow> bool" where
  "lc_inv s \<longleftrightarrow>
     ls_starting s = (if lc_state (ls_comp s) = StateStarting then 1 else 0) \<and>
     ls_stopping s = (if lc_state (ls_comp s) = StateStopping then 1 else 0) \<and>
     ls_onStart s = (if lc_state (ls_comp s) = StateNew then 0 else 1) \<and>
     ls_onStop s = (if lc_state (ls_comp s) \<in> {StateStopping, StateStopped} then 1 else 0) \<and>
     (lc_err (ls_comp s) \<noteq> None \<longleftrightarrow> lc_state (ls_comp s) = StateError)"

lemma lc_step_inv: "lc_inv s \<Longrightarrow> lc_step ev s = Some (e, s') \<Longrightarrow> lc_inv s'"
  by (cases ev; cases "lc_state (ls_comp s)")
    (auto simp: lc_inv_def transition_def transitionError_def Let_def split: option.splits if_splits)

lemma lc_reachable_inv: "lc_reachable name s \<Longrightarrow> lc_inv s"
  by (induction rule: lc_reachable.induct) (simp add: lc_inv_def New_Component_def, rule lc_step_inv)

text \<open>
  C37: However calls of \<open>Start\<close> and \<open>Shutdown\<close> interleave, each callback is called at most once, the one
  that stops only after the one that starts has returned without error; at most one call is inside
  a callback, its own last transition is never refused, and a stopped or failed component never
  changes again.
\<close>

theorem lifecycle_once:
  assumes "lc_reachable name s" and "lc_step ev s = Some (e, s')"
  shows "ls_onStart s \<le> 1 \<and> ls_onStop s \<le> ls_onStart s \<and> ls_starting s + ls_stopping s \<le> 1 \<and>
    (0 < ls_onStop s \<longrightarrow> lc_state (ls_comp s) \<in> {StateStopping, StateStopped}) \<and>
    (ev \<in> {StartReturned None, ShutdownReturned None} \<longrightarrow> e = None) \<and>
    (lc_state (ls_comp s) \<in> {StateStopped, StateError} \<longrightarrow> s' = s \<and> e \<noteq> None) \<and>
    (lc_state (ls_comp s') = lc_state (ls_comp s) \<or> lc_state (ls_comp s') \<in> set (validTransitions (lc_state (ls_comp s))))"
proof -
  have inv: "lc_inv s" using assms(1) by (rule lc_reachable_inv)
  show ?thesis using inv assms(2)
    by (cases ev; cases "lc_state (ls_comp s)")
      (auto simp: lc_inv_def transition_def transitionError_def Let_def split: option.splits if_splits)
qed

theorem lifecycle_once_witness:
  "lc_step ShutdownCalled \<lparr>ls_comp = \<lparr>lc_name = ''x'', lc_state = StateStarting, lc_err = None\<rparr>,
      ls_starting = 1, ls_stopping = 0, ls_onStart = 1, ls_onStop = 0\<rparr> \<noteq> None \<and> (1::nat) + 0 \<le> 1"
proof -
  let ?s = "\<lparr>ls_comp = \<lparr>lc_name = ''x'', lc_state = StateStarting, lc_err = None\<rparr>, ls_starting = 1, ls_stopping = 0, ls_onStart = 1, ls_onStop = 0\<rparr>"
  have r: "lc_reachable ''x'' ?s"
    by (rule Step [OF Start, where ev = StartCalled and e = None]) (simp add: New_Component_def transition_def)
  have st: "lc_step ShutdownCalled ?s = Some (Some (IllegalTransition StateStarting StateStopping), ?s)"
    by (simp add: transition_def)
  show ?thesis using lifecycle_once [OF r st] st by simp
qed

section \<open>Health checks\<close>

datatype HealthStatus = StatusHealthy | StatusDegraded | StatusUnhealthy | StatusUnknown

record CheckResult =
  cr_Name :: string
  cr_Status :: HealthStatus
  cr_Message :: string
  cr_Duration :: int
  cr_LastCheck :: int
  cr_Error :: string

text \<open>A checker is a function of what it observes.\<close>

record 'e HealthRegistry =
  hr_checkers :: "string \<rightharpoonup> ('e \<Rightarrow> CheckResult)"
  hr_results :: "string \<rightharpoonup> CheckResult"

definition NewRegistry :: "'e HealthRegistry" where
  "NewRegistry = \<lparr>hr_checkers = Map.empty, hr_results = Map.empty\<rparr>"

definition Registry_Register :: "string \<Rightarrow> ('e \<Rightarrow> CheckResult) \<Rightarrow> 'e HealthRegistry \<Rightarrow> 'e HealthRegistry" where
  "Registry_Register name checker r =
     r\<lparr>hr_checkers := (hr_checkers r)(name \<mapsto> checker),
       hr_results := (hr_results r)(name \<mapsto>
         \<lparr>cr_Name = name, cr_Status = StatusUnknown, cr_Message = '''', cr_Duration = 0, cr_LastCheck = zero_time, cr_Error = ''''\<rparr>)\<rparr>"

text \<open>\<open>start\<close> and \<open>finish\<close> are the times at which each check begins and ends.\<close>

definition RunAll :: "'e \<Rightarrow> (string \<Rightarrow> int) \<Rightarrow> (string \<Rightarrow> int) \<Rightarrow> 'e HealthRegistry \<Rightarrow> (string \<rightharpoonup> CheckResult) \<times> 'e HealthRegistry" where
  "RunAll env start finish r =
     (let results = (\<lambda>name. map_option (\<lambda>checker. (checker env)\<lparr>cr_Duration := finish name - start name, cr_LastCheck := finish name\<rparr>)
                       (hr_checkers r name))
      in (results, r\<lparr>hr_results := hr_results r ++ results\<rparr>))"

fun aggregate_loop :: "HealthStatus \<Rightarrow> CheckResult list \<Rightarrow> HealthStatus" where
  "aggregate_loop overall [] = overall"
| "aggregate_loop overall (r # rs) =
     (case cr_Status r of
        StatusUnhealthy \<Rightarrow> StatusUnhealthy
      | StatusDegraded \<Rightarrow> aggregate_loop StatusDegraded rs
      | StatusUnknown \<Rightarrow> aggregate_loop (if overall = StatusHealthy then StatusUnknown else overall) rs
      | StatusHealthy \<Rightarrow> aggregate_loop overall rs)"

definition Aggregate :: "string list \<Rightarrow> 'e HealthRegistry \<Rightarrow> HealthStatus \<times> (string \<rightharpoonup> CheckResult)" where
  "Aggregate order r = (aggregate_loop StatusHealthy (map (\<lambda>k. the (hr_results r k)) order), hr_results r)"

text \<open>The worst status of a set.\<close>

definition worst :: "HealthStatus set \<Rightarrow> HealthStatus" where
  "worst S = (if StatusUnhealthy \<in> S then StatusUnhealthy else if StatusDegraded \<in> S then StatusDegraded
     else if StatusUnknown \<in> S then StatusUnknown else StatusHealthy)"

lemma aggregate_loop_worst:
  "overall \<noteq> StatusUnhealthy \<Longrightarrow> aggregate_loop overall rs = worst (insert overall (cr_Status ` set rs))"
proof (induction rs arbitrary: overall)
  case Nil
  then show ?case by (cases overall) (simp_all add: worst_def)
next
  case (Cons r rs)
  then show ?case by (cases "cr_Status r"; cases overall) (auto simp: worst_def)
qed

inductive registry_reachable :: "'e HealthRegistry \<Rightarrow> bool" where
  New: "registry_reachable NewRegistry"
| Reg: "registry_reachable r \<Longrightarrow> registry_reachable (Registry_Register name checker r)"
| Run: "registry_reachable r \<Longrightarrow> registry_reachable (snd (RunAll env start finish r))"

lemma registry_doms: "registry_reachable r \<Longrightarrow> hr_results r k = None \<longleftrightarrow> hr_checkers r k = None"
  by (induction arbitrary: k rule: registry_reachable.induct)
    (auto simp: NewRegistry_def Registry_Register_def RunAll_def Let_def map_add_def split: option.splits)

lemma RunAll_results:
  assumes "registry_reachable r"
  shows "hr_results (snd (RunAll env start finish r)) = fst (RunAll env start finish r)"
  using registry_doms [OF assms] by (auto simp: RunAll_def Let_def map_add_def fun_eq_iff split: option.splits)

lemma RunAll_dom: "dom (fst (RunAll env start finish r)) = dom (hr_checkers r)"
  by (auto simp: RunAll_def Let_def)

text \<open>
  Once the checks have run, the overall status is the worst status that a registered check
  returns, in whatever order the results are visited: unhealthy before degraded before unknown
  before healthy.
\<close>

theorem health_aggregate:
  assumes "registry_reachable r" and "map_order order (hr_results (snd (RunAll env start finish r)))"
  shows "fst (Aggregate order (snd (RunAll env start finish r))) =
    worst ((\<lambda>checker. cr_Status (checker env)) ` ran (hr_checkers r))"
proof -
  let ?r = "snd (RunAll env start finish r)" and ?S = "(\<lambda>checker. cr_Status (checker env)) ` ran (hr_checkers r)"
  have res: "hr_results ?r k = map_option (\<lambda>ch. (ch env)\<lparr>cr_Duration := finish k - start k, cr_LastCheck := finish k\<rparr>) (hr_checkers r k)" for k
    unfolding RunAll_results [OF assms(1)] by (simp add: RunAll_def Let_def)
  have "k \<in> set order \<longleftrightarrow> hr_checkers r k \<noteq> None" for k
    using map_order_mem [OF assms(2), of k] by (simp add: res)
  then have "cr_Status ` set (map (\<lambda>k. the (hr_results ?r k)) order) = ?S"
    by (force simp: res image_iff ran_def)
  then have "fst (Aggregate order ?r) = worst (insert StatusHealthy ?S)"
    by (simp only: Aggregate_def fst_conv aggregate_loop_worst HealthStatus.distinct not_False_eq_True)
  then show ?thesis by (simp add: worst_def)
qed

definition sample_registry :: "HealthStatus HealthRegistry" where
  "sample_registry = Registry_Register ''ollama'' (\<lambda>st. \<lparr>cr_Name = ''ollama'', cr_Status = st, cr_Message = [], cr_Duration = 0, cr_LastCheck = 0, cr_Error = []\<rparr>)
     (Registry_Register ''wal'' (\<lambda>st. \<lparr>cr_Name = ''wal'', cr_Status = StatusHealthy, cr_Message = [], cr_Duration = 0, cr_LastCheck = 0, cr_Error = []\<rparr>) NewRegistry)"

theorem health_aggregate_witness:
  "fst (Aggregate [''ollama'', ''wal''] (snd (RunAll StatusDegraded (\<lambda>_. 0) (\<lambda>_. 1) sample_registry))) = StatusDegraded"
proof -
  have r: "registry_reachable sample_registry" unfolding sample_registry_def by (intro registry_reachable.intros)
  have o: "map_order [''ollama'', ''wal''] (hr_results (snd (RunAll StatusDegraded (\<lambda>_. 0) (\<lambda>_. 1) sample_registry)))"
    unfolding RunAll_results [OF r]
    by (simp add: map_order_def RunAll_dom sample_registry_def Registry_Register_def NewRegistry_def)
  show ?thesis unfolding health_aggregate [OF r o]
    by (simp add: worst_def sample_registry_def Registry_Register_def NewRegistry_def ran_map_upd)
qed

end
