(* ===== verification/Api_Settings.thy ===== *)
theory Api_Settings
  imports Policy_Engine Sched_Sandbox Last_Writer
begin

text \<open>
  The settings of an agent (\<open>api/middleware.go\<close>): the update through \<open>PUT /api/settings\<close>, the file
  they are kept in, the getters of the other components, and their synchronisation between nodes
  (\<open>agent/agent.go\<close>, \<open>storage/sync_protocol.go\<close>). A slice that JSON may leave nil is an option. Whether
  writing the file succeeds is an input; the file holds the settings themselves.
\<close>

record Settings =
  se_ClusterName :: string
  se_DeviceName :: string
  se_APIPort :: int
  se_AutoStart :: bool
  se_StorageSyncEnabled :: bool
  se_AcceptTasks :: bool
  se_NetworkAccess :: string
  se_MemoryEnabled :: bool
  se_MemoryAutoExtract :: bool
  se_SandboxMode :: bool
  se_AllowedCommands :: "string list option"
  se_TaskTimeout :: int
  se_ImageGenURL :: string
  se_WOLMemoryThreshold :: real
  se_UpdatedAt :: time
  se_MaxTaskMemoryMB :: int
  se_MaxTaskProcs :: int
  se_MaxTaskFileSizeMB :: int
  se_Policies :: "Policy list option"
  se_LocalIndexDirs :: "string list option"
  se_RAGTimeoutSeconds :: int

text \<open>The zero value, which is what decoding the body \<open>{}\<close> gives.\<close>

definition zero_settings :: Settings where
  "zero_settings = \<lparr>se_ClusterName = [], se_DeviceName = [], se_APIPort = 0, se_AutoStart = False,
     se_StorageSyncEnabled = False, se_AcceptTasks = False, se_NetworkAccess = [], se_MemoryEnabled = False,
     se_MemoryAutoExtract = False, se_SandboxMode = False, se_AllowedCommands = None, se_TaskTimeout = 0,
     se_ImageGenURL = [], se_WOLMemoryThreshold = 0, se_UpdatedAt = zero_time, se_MaxTaskMemoryMB = 0,
     se_MaxTaskProcs = 0, se_MaxTaskFileSizeMB = 0, se_Policies = None, se_LocalIndexDirs = None, se_RAGTimeoutSeconds = 0\<rparr>"

definition default_commands :: "string list" where
  "default_commands =
     [''echo'', ''date'', ''ls'', ''cat'', ''grep'', ''find'', ''pwd'', ''whoami'',
      ''python3'', ''python'', ''node'', ''go'', ''ollama'', ''curl'', ''wget'',
      ''mkdir'', ''cp'', ''mv'', ''touch'', ''head'', ''tail'', ''wc'', ''sort'',
      ''awk'', ''sed'', ''jq'', ''tar'', ''zip'', ''unzip'', ''ping'']"

definition default_settings :: "string \<Rightarrow> string \<Rightarrow> int \<Rightarrow> Settings" where
  "default_settings clusterName nodeName port = zero_settings\<lparr>se_ClusterName := clusterName, se_DeviceName := nodeName,
     se_APIPort := port, se_AutoStart := False, se_StorageSyncEnabled := True, se_AcceptTasks := True,
     se_NetworkAccess := ''local_network'', se_MemoryEnabled := True, se_MemoryAutoExtract := True, se_SandboxMode := True,
     se_AllowedCommands := Some default_commands, se_TaskTimeout := 5, se_ImageGenURL := [], se_WOLMemoryThreshold := 1/5,
     se_MaxTaskMemoryMB := 2048, se_MaxTaskProcs := 64, se_MaxTaskFileSizeMB := 100\<rparr>"

text \<open>The settings with their file; an empty path means that they are not saved.\<close>

record SettingsStore =
  ss_settings :: Settings
  ss_filePath :: string
  ss_disk :: "Settings option"

definition Settings_SaveToDisk :: "bool \<Rightarrow> SettingsStore \<Rightarrow> SettingsStore" where
  "Settings_SaveToDisk ok s = (if ss_filePath s = [] then s else if ok then s\<lparr>ss_disk := Some (ss_settings s)\<rparr> else s)"

definition merged :: "time \<Rightarrow> Settings \<Rightarrow> Settings \<Rightarrow> Settings" where
  "merged now new s = s\<lparr>
     se_ClusterName := (if se_ClusterName new \<noteq> [] then se_ClusterName new else se_ClusterName s),
     se_DeviceName := (if se_DeviceName new \<noteq> [] then se_DeviceName new else se_DeviceName s),
     se_APIPort := (if se_APIPort new \<noteq> 0 then se_APIPort new else se_APIPort s),
     se_AutoStart := se_AutoStart new,
     se_StorageSyncEnabled := se_StorageSyncEnabled new,
     se_AcceptTasks := se_AcceptTasks new,
     se_NetworkAccess := (if se_NetworkAccess new = ''local_network'' \<or> se_NetworkAccess new = ''localhost_only'' then se_NetworkAccess new else se_NetworkAccess s),
     se_MemoryEnabled := se_MemoryEnabled new,
     se_MemoryAutoExtract := se_MemoryAutoExtract new,
     se_SandboxMode := se_SandboxMode new,
     se_AllowedCommands := (if se_AllowedCommands new \<noteq> None then se_AllowedCommands new else se_AllowedCommands s),
     se_TaskTimeout := (if se_TaskTimeout new \<noteq> 0 then se_TaskTimeout new else se_TaskTimeout s),
     se_ImageGenURL := se_ImageGenURL new,
     se_WOLMemoryThreshold := (if se_WOLMemoryThreshold new \<noteq> 0 then se_WOLMemoryThreshold new else se_WOLMemoryThreshold s),
     se_MaxTaskMemoryMB := (if se_MaxTaskMemoryMB new \<noteq> 0 then se_MaxTaskMemoryMB new else se_MaxTaskMemoryMB s),
     se_MaxTaskProcs := (if se_MaxTaskProcs new \<noteq> 0 then se_MaxTaskProcs new else se_MaxTaskProcs s),
     se_MaxTaskFileSizeMB := (if se_MaxTaskFileSizeMB new \<noteq> 0 then se_MaxTaskFileSizeMB new else se_MaxTaskFileSizeMB s),
     se_Policies := (if se_Policies new \<noteq> None then se_Policies new else se_Policies s),
     se_LocalIndexDirs := (if se_LocalIndexDirs new \<noteq> None then se_LocalIndexDirs new else se_LocalIndexDirs s),
     se_RAGTimeoutSeconds := (if se_RAGTimeoutSeconds new \<noteq> 0 then se_RAGTimeoutSeconds new else se_RAGTimeoutSeconds s),
     se_UpdatedAt := (if se_UpdatedAt new = zero_time then now else se_UpdatedAt new)\<rparr>"

definition Settings_Merge :: "time \<Rightarrow> bool \<Rightarrow> Settings \<Rightarrow> SettingsStore \<Rightarrow> SettingsStore" where
  "Settings_Merge now ok incoming s = Settings_SaveToDisk ok (s\<lparr>ss_settings := merged now incoming (ss_settings s)\<rparr>)"

section \<open>Getters\<close>

definition GetTaskTimeout :: "Settings \<Rightarrow> duration" where
  "GetTaskTimeout s = (if se_TaskTimeout s \<le> 0 then 5 * (60 * second) else i64 (se_TaskTimeout s * (60 * second)))"

definition GetRAGTimeout :: "Settings \<Rightarrow> duration" where
  "GetRAGTimeout s = (if se_RAGTimeoutSeconds s \<le> 0 then 2 * second else i64 (se_RAGTimeoutSeconds s * second))"

definition GetResourceLimits :: "Settings \<Rightarrow> int \<times> int \<times> int" where
  "GetResourceLimits s =
     (let maxMemBytes = i64 (i64 (se_MaxTaskMemoryMB s * 1024) * 1024);
          maxFileSizeBytes = i64 (i64 (se_MaxTaskFileSizeMB s * 1024) * 1024)
      in (if maxMemBytes \<le> 0 then 2 * 1024 * 1024 * 1024 else maxMemBytes,
          if se_MaxTaskProcs s \<le> 0 then 64 else se_MaxTaskProcs s,
          if maxFileSizeBytes \<le> 0 then 100 * 1024 * 1024 else maxFileSizeBytes))"

definition GetPolicies :: "Settings \<Rightarrow> Policy list" where
  "GetPolicies s = (case se_Policies s of None \<Rightarrow> [] | Some ps \<Rightarrow> ps)"

section \<open>Synchronisation\<close>

text \<open>The payload as it arrives: empty policies are left out of the JSON.\<close>

record SyncSettings =
  sy_ClusterName :: string
  sy_AllowedCommands :: "string list"
  sy_SandboxMode :: bool
  sy_MaxTaskMemoryMB :: int
  sy_MaxTaskProcs :: int
  sy_MaxTaskFileSizeMB :: int
  sy_Policies :: "Policy list"
  sy_UpdatedAt :: time

definition GetSyncableFields :: "Settings \<Rightarrow> SyncSettings" where
  "GetSyncableFields s = \<lparr>sy_ClusterName = se_ClusterName s,
     sy_AllowedCommands = (case se_AllowedCommands s of None \<Rightarrow> [] | Some cs \<Rightarrow> cs),
     sy_SandboxMode = se_SandboxMode s, sy_MaxTaskMemoryMB = se_MaxTaskMemoryMB s, sy_MaxTaskProcs = se_MaxTaskProcs s,
     sy_MaxTaskFileSizeMB = se_MaxTaskFileSizeMB s, sy_Policies = GetPolicies s, sy_UpdatedAt = se_UpdatedAt s\<rparr>"

definition ApplySyncableFields :: "bool \<Rightarrow> SyncSettings \<Rightarrow> SettingsStore \<Rightarrow> bool \<times> SettingsStore" where
  "ApplySyncableFields ok v s =
     (if \<not> se_UpdatedAt (ss_settings s) < sy_UpdatedAt v then (False, s)
      else (True, Settings_SaveToDisk ok (s\<lparr>ss_settings := (ss_settings s)\<lparr>
        se_ClusterName := sy_ClusterName v, se_AllowedCommands := Some (sy_AllowedCommands v),
        se_SandboxMode := sy_SandboxMode v, se_MaxTaskMemoryMB := sy_MaxTaskMemoryMB v,
        se_MaxTaskProcs := sy_MaxTaskProcs v, se_MaxTaskFileSizeMB := sy_MaxTaskFileSizeMB v,
        se_Policies := (if sy_Policies v = [] then None else Some (sy_Policies v)),
        se_UpdatedAt := sy_UpdatedAt v\<rparr>\<rparr>)))"

text \<open>A node: its settings and the policy engine that enforces their policies.\<close>

record SettingsNode =
  sn_store :: SettingsStore
  sn_engine :: PolicyEngine

definition handleUpdateSettings :: "time \<Rightarrow> bool \<Rightarrow> Settings \<Rightarrow> SettingsNode \<Rightarrow> SettingsNode" where
  "handleUpdateSettings now ok incoming n =
     (let st = Settings_Merge now ok incoming (sn_store n)
      in n\<lparr>sn_store := st, sn_engine := Engine_SetPolicies (GetPolicies (ss_settings st)) (sn_engine n)\<rparr>)"

definition ApplySyncableSettings :: "bool \<Rightarrow> SyncSettings \<Rightarrow> SettingsNode \<Rightarrow> SettingsNode" where
  "ApplySyncableSettings ok v n =
     (let (updated, st) = ApplySyncableFields ok v (sn_store n);
          engine = (if updated then Engine_SetPolicies (GetPolicies (ss_settings st)) (sn_engine n) else sn_engine n)
      in n\<lparr>sn_store := st, sn_engine := engine\<rparr>)"

definition node_syncable :: "SettingsNode \<Rightarrow> SyncSettings" where
  "node_syncable n = GetSyncableFields (ss_settings (sn_store n))"

text \<open>One synchronisation: the request carries the settings of \<open>a\<close>, the answer those \<open>b\<close> has then.\<close>

definition settings_round :: "bool \<Rightarrow> bool \<Rightarrow> SettingsNode \<times> SettingsNode \<Rightarrow> SettingsNode \<times> SettingsNode" where
  "settings_round okA okB nodes =
     (let (a, b) = nodes;
          b' = ApplySyncableSettings okB (node_syncable a) b;
          a' = ApplySyncableSettings okA (node_syncable b') a
      in (a', b'))"

text \<open>Start-up: what is read from the file, or the defaults, is saved and enforced.\<close>

definition load_settings :: "Settings \<Rightarrow> string \<Rightarrow> bool \<Rightarrow> Settings option \<Rightarrow> TelemetryProvider option \<Rightarrow> SettingsNode" where
  "load_settings defaults path ok disk provider =
     (let st = Settings_SaveToDisk ok \<lparr>ss_settings = (case disk of None \<Rightarrow> defaults | Some s \<Rightarrow> s), ss_filePath = path, ss_disk = disk\<rparr>
      in \<lparr>sn_store = st, sn_engine = Engine_SetPolicies (GetPolicies (ss_settings st)) (NewEngine provider)\<rparr>)"

section \<open>The settings as a last-writer register\<close>

lemma SaveToDisk_settings [simp]:
  "ss_settings (Settings_SaveToDisk ok s) = ss_settings s" "ss_filePath (Settings_SaveToDisk ok s) = ss_filePath s"
  by (simp_all add: Settings_SaveToDisk_def)

lemma node_syncable_time [simp]: "sy_UpdatedAt (node_syncable n) = se_UpdatedAt (ss_settings (sn_store n))"
  by (simp add: node_syncable_def GetSyncableFields_def)

lemma Apply_syncable:
  "node_syncable (ApplySyncableSettings ok v n) = (if sy_UpdatedAt (node_syncable n) < sy_UpdatedAt v then v else node_syncable n)"
  by (auto simp: ApplySyncableSettings_def ApplySyncableFields_def node_syncable_def GetSyncableFields_def GetPolicies_def)

interpretation settings: last_writer sy_UpdatedAt "\<lambda>_. True" "\<lambda>n. Some (node_syncable n)" "ApplySyncableSettings ok" for ok
  by unfold_locales (auto simp: Apply_syncable)

text \<open>
  One synchronisation of two nodes makes their shared settings agree, on the later ones, unless
  they differ and carry the same time: then both keep their own for ever.
\<close>

theorem settings_converge:
  assumes "settings_round okA okB (a, b) = (a', b')"
  shows "(node_syncable a' = node_syncable b') =
      (sy_UpdatedAt (node_syncable a) = sy_UpdatedAt (node_syncable b) \<longrightarrow> node_syncable a = node_syncable b) \<and>
    (sy_UpdatedAt (node_syncable a) < sy_UpdatedAt (node_syncable b) \<longrightarrow> node_syncable a' = node_syncable b \<and> node_syncable b' = node_syncable b) \<and>
    (sy_UpdatedAt (node_syncable b) < sy_UpdatedAt (node_syncable a) \<longrightarrow> node_syncable a' = node_syncable a \<and> node_syncable b' = node_syncable a)"
proof -
  let ?x = "node_syncable a" and ?y = "node_syncable b" and ?z = "node_syncable b'"
  have b': "b' = ApplySyncableSettings okB ?x b" and a': "a' = ApplySyncableSettings okA ?z a"
    using assms by (auto simp: settings_round_def Let_def)
  have any_ok: "node_syncable a' = node_syncable (ApplySyncableSettings okB ?z a)" by (simp add: a' Apply_syncable)
  have z: "Some (node_syncable (ApplySyncableSettings okB ?x b)) = Some ?z" by (simp add: b')
  note ex = settings.exchange [of a ?x b ?y okB ?z, OF refl refl TrueI TrueI z]
  have "node_syncable a' = ?z \<longleftrightarrow> (sy_UpdatedAt ?x = sy_UpdatedAt ?y \<longrightarrow> ?x = ?y)"
    using ex(1) by (simp add: any_ok)
  then show ?thesis using ex(2,3) by auto
qed

definition sample_node :: "string \<Rightarrow> time \<Rightarrow> SettingsNode" where
  "sample_node name t = load_settings ((default_settings ''home'' name 4892)\<lparr>se_UpdatedAt := t\<rparr>) ''/data/settings.json'' True None None"

text \<open>The default settings, as an older and a newer node hold them.\<close>

lemma sample_node_simps [simp]:
  "ss_settings (sn_store (sample_node name t)) = (default_settings ''home'' name 4892)\<lparr>se_UpdatedAt := t\<rparr>"
  by (simp add: sample_node_def load_settings_def)

theorem settings_converge_witness:
  "node_syncable (fst (settings_round True True (sample_node ''a'' 1, sample_node ''b'' 2))) = node_syncable (sample_node ''b'' 2)"
proof -
  obtain a' b' where r: "settings_round True True (sample_node ''a'' 1, sample_node ''b'' 2) = (a', b')" by (meson surj_pair)
  show ?thesis using settings_converge [OF r] by (simp add: r)
qed

section \<open>Updates\<close>

text \<open>
  An update that leaves fields out, such as one that only renames the cluster, turns the command
  sandbox off; synchronisation then carries this to every node whose settings are older, where any
  command passes the validation.
\<close>

theorem partial_update_disables_sandbox:
  assumes "settings_round okA okB (handleUpdateSettings now ok (zero_settings\<lparr>se_ClusterName := name\<rparr>) a, b) = (a', b')"
    and "sy_UpdatedAt (node_syncable b) < now"
  shows "\<not> se_SandboxMode (ss_settings (sn_store a')) \<and> \<not> se_SandboxMode (ss_settings (sn_store b')) \<and>
    ValidateCommand command (sy_AllowedCommands (node_syncable b')) (se_SandboxMode (ss_settings (sn_store b'))) = None"
proof -
  let ?a = "handleUpdateSettings now ok (zero_settings\<lparr>se_ClusterName := name\<rparr>) a"
  have a: "sy_UpdatedAt (node_syncable ?a) = now" "\<not> sy_SandboxMode (node_syncable ?a)"
    by (simp_all add: node_syncable_def GetSyncableFields_def handleUpdateSettings_def Settings_Merge_def merged_def zero_settings_def Let_def)
  have b': "b' = ApplySyncableSettings okB (node_syncable ?a) b" and a': "a' = ApplySyncableSettings okA (node_syncable b') ?a"
    using assms(1) by (auto simp: settings_round_def Let_def)
  have "node_syncable b' = node_syncable ?a" unfolding b' Apply_syncable using a(1) assms(2) by simp
  then have "\<not> sy_SandboxMode (node_syncable b')" "\<not> sy_SandboxMode (node_syncable a')"
    using a(2) by (simp_all add: a' Apply_syncable)
  then show ?thesis by (simp add: node_syncable_def GetSyncableFields_def ValidateCommand_def)
qed

theorem partial_update_disables_sandbox_witness:
  "se_SandboxMode (ss_settings (sn_store (sample_node ''b'' 2))) \<and>
   \<not> se_SandboxMode (ss_settings (sn_store (snd (settings_round True True
       (handleUpdateSettings 3 True (zero_settings\<lparr>se_ClusterName := ''lab''\<rparr>) (sample_node ''a'' 1), sample_node ''b'' 2)))))"
proof -
  obtain a' b' where r: "settings_round True True
      (handleUpdateSettings 3 True (zero_settings\<lparr>se_ClusterName := ''lab''\<rparr>) (sample_node ''a'' 1), sample_node ''b'' 2) = (a', b')"
    by (meson surj_pair)
  show ?thesis using partial_update_disables_sandbox [OF r] by (simp add: r default_settings_def)
qed

text \<open>
  The dashboard sends the settings back as it read them, with the time of the last change. Such
  a save keeps that time, so it reaches no other node: nodes that agreed before the save disagree
  after every synchronisation that follows it.
\<close>

theorem dashboard_save_not_synced:
  assumes "node_syncable a = node_syncable b" and "se_UpdatedAt incoming = se_UpdatedAt (ss_settings (sn_store a))"
    and "se_UpdatedAt incoming \<noteq> zero_time" and "a1 = handleUpdateSettings now ok incoming a"
  shows "(settings_round okA okB ^^ n) (a1, b) = (a1, b) \<and>
    (se_SandboxMode incoming \<noteq> se_SandboxMode (ss_settings (sn_store a)) \<longrightarrow> node_syncable a1 \<noteq> node_syncable b)"
proof -
  have "sy_UpdatedAt (node_syncable a1) = se_UpdatedAt incoming"
    using assms(3) by (simp add: assms(4) node_syncable_def GetSyncableFields_def handleUpdateSettings_def Settings_Merge_def merged_def Let_def)
  then have t: "se_UpdatedAt (ss_settings (sn_store a1)) = se_UpdatedAt (ss_settings (sn_store b))"
    using assms(1,2) by (metis node_syncable_time)
  have id: "ApplySyncableSettings ok v m = m" if "sy_UpdatedAt v = se_UpdatedAt (ss_settings (sn_store m))" for ok v and m :: SettingsNode
    using that by (simp add: ApplySyncableSettings_def ApplySyncableFields_def)
  have "settings_round okA okB (a1, b) = (a1, b)" by (simp add: settings_round_def id t)
  then have "(settings_round okA okB ^^ n) (a1, b) = (a1, b)" by (induction n) simp_all
  moreover have "se_SandboxMode (ss_settings (sn_store a1)) = se_SandboxMode incoming"
    by (simp add: assms(4) handleUpdateSettings_def Settings_Merge_def merged_def Let_def)
  ultimately show ?thesis using assms(1) by (auto simp: node_syncable_def GetSyncableFields_def)
qed

theorem dashboard_save_not_synced_witness:
  "\<exists>incoming. (settings_round True True ^^ 100) (handleUpdateSettings 9 True incoming (sample_node ''a'' 2), sample_node ''b'' 2) =
      (handleUpdateSettings 9 True incoming (sample_node ''a'' 2), sample_node ''b'' 2) \<and>
    node_syncable (handleUpdateSettings 9 True incoming (sample_node ''a'' 2)) \<noteq> node_syncable (sample_node ''b'' 2)"
proof -
  let ?in = "(default_settings ''home'' ''a'' 4892)\<lparr>se_UpdatedAt := 2, se_SandboxMode := False\<rparr>"
  have "node_syncable (sample_node ''a'' 2) = node_syncable (sample_node ''b'' 2)"
    by (simp add: node_syncable_def GetSyncableFields_def GetPolicies_def default_settings_def zero_settings_def)
  from dashboard_save_not_synced [OF this, of ?in] show ?thesis
    by (intro exI [of _ ?in]) (simp add: default_settings_def zero_time_def)
qed

section \<open>Invariants and bounds\<close>

text \<open>What happens to the settings of a node; a restart reads the file.\<close>

datatype SettingsOp = PutSettings time bool Settings | SyncReceived bool SyncSettings | Restart bool

definition node_path :: "SettingsNode \<Rightarrow> string" where "node_path n = ss_filePath (sn_store n)"

fun settings_op :: "Settings \<Rightarrow> TelemetryProvider option \<Rightarrow> SettingsOp \<Rightarrow> SettingsNode \<Rightarrow> SettingsNode" where
  "settings_op defaults provider (PutSettings now ok incoming) n = handleUpdateSettings now ok incoming n"
| "settings_op defaults provider (SyncReceived ok v) n = ApplySyncableSettings ok v n"
| "settings_op defaults provider (Restart ok) n = load_settings defaults (node_path n) ok (ss_disk (sn_store n)) provider"

fun op_saved :: "SettingsOp \<Rightarrow> bool" where
  "op_saved (PutSettings now ok incoming) = ok"
| "op_saved (SyncReceived ok v) = ok"
| "op_saved (Restart ok) = ok"

definition policies_enforced :: "SettingsNode \<Rightarrow> bool" where
  "policies_enforced n \<longleftrightarrow> pe_policies (sn_engine n) = GetPolicies (ss_settings (sn_store n))"

definition settings_saved :: "SettingsNode \<Rightarrow> bool" where
  "settings_saved n \<longleftrightarrow> node_path n \<noteq> [] \<and> ss_disk (sn_store n) = Some (ss_settings (sn_store n))"

lemma settings_op_enforced: "policies_enforced n \<Longrightarrow> policies_enforced (settings_op d p op n)"
  by (cases op) (auto simp: policies_enforced_def handleUpdateSettings_def ApplySyncableSettings_def ApplySyncableFields_def
      load_settings_def Engine_SetPolicies_def Let_def)

lemma settings_op_saved: "settings_saved n \<Longrightarrow> op_saved op \<Longrightarrow> settings_saved (settings_op d p op n)"
  by (cases op) (auto simp: settings_saved_def node_path_def handleUpdateSettings_def Settings_Merge_def ApplySyncableSettings_def
      ApplySyncableFields_def load_settings_def Settings_SaveToDisk_def Let_def)



text \<open>
  Whatever numbers are configured, the limits handed to the operating system are positive, also
  when the conversion to bytes overflows; they are the configured ones from 1 to \<open>2 ^ 43 - 1\<close> MiB.
\<close>

theorem resource_limits_positive:
  "(case GetResourceLimits s of (mem, procs, file) \<Rightarrow> 0 < mem \<and> 0 < procs \<and> 0 < file) \<and>
   (0 < se_MaxTaskMemoryMB s \<and> se_MaxTaskMemoryMB s < 2 ^ 43 \<longrightarrow> fst (GetResourceLimits s) = se_MaxTaskMemoryMB s * 1048576)"
  by (auto simp: GetResourceLimits_def Let_def i64_id)

theorem resource_limits_positive_witness:
  "fst (GetResourceLimits (default_settings ''home'' ''a'' 4892)) = 2147483648"
  using resource_limits_positive [of "default_settings ''home'' ''a'' 4892"] by (simp add: default_settings_def)

lemma task_timeout_negative: "se_TaskTimeout s = 153722868 \<Longrightarrow> GetTaskTimeout s < 0"
  by (simp add: GetTaskTimeout_def i64_def)

end
