(* ===== verification/Api_Http.thy ===== *)
theory Api_Http
  imports Go_Strings
begin

text \<open>
  The HTTP front of the API (\<open>api/middleware.go\<close>, \<open>api/server.go\<close>): who may reach it, which origins a
  browser may send requests from, and the limit of requests per address. A request is the part of it
  that the middleware reads. \<open>RealIP\<close> of the router is a parameter: it puts the address a proxy
  reports in place of the one of the connection.
\<close>

section \<open>Addresses\<close>

text \<open>What \<open>host[:idx]\<close> leaves before the last colon.\<close>

definition before_last :: "char \<Rightarrow> string \<Rightarrow> string" where
  "before_last c s = (if c \<in> set s then rev (tl (dropWhile (\<lambda>x. x \<noteq> c) (rev s))) else s)"

definition trim_set :: "char list \<Rightarrow> string \<Rightarrow> string" where
  "trim_set cs s = rev (dropWhile (\<lambda>c. c \<in> set cs) (rev (dropWhile (\<lambda>c. c \<in> set cs) s)))"

definition host_of :: "string \<Rightarrow> string" where "host_of addr = trim_set ''[]'' (before_last CHR '':'' addr)"

definition loopback_name :: "string \<Rightarrow> bool" where
  "loopback_name host \<longleftrightarrow> host = ''127.0.0.1'' \<or> host = ''::1'' \<or> host = ''localhost''"

text \<open>\<open>net.ParseIP\<close>: the four bytes of an IPv4 address or the sixteen of an IPv6 address.\<close>

definition ip_octet :: "string \<Rightarrow> nat option" where
  "ip_octet s = (if s = [] \<or> length s > 3 \<or> (length s > 1 \<and> hd s = CHR ''0'') then None
     else case parse_digits 0 s of None \<Rightarrow> None | Some n \<Rightarrow> if n \<le> 255 then Some (nat n) else None)"

fun split_on :: "char \<Rightarrow> string \<Rightarrow> string list" where
  "split_on c [] = [[]]"
| "split_on c (x # xs) = (if x = c then [] # split_on c xs else (case split_on c xs of [] \<Rightarrow> [[x]] | f # fs \<Rightarrow> (x # f) # fs))"

fun all_some :: "'a option list \<Rightarrow> 'a list option" where
  "all_some [] = Some []"
| "all_some (None # xs) = None"
| "all_some (Some x # xs) = map_option (\<lambda>ys. x # ys) (all_some xs)"

definition parse_ipv4 :: "string \<Rightarrow> nat list option" where
  "parse_ipv4 s = (let fs = split_on CHR ''.'' s in if length fs = 4 then all_some (map ip_octet fs) else None)"

definition hex_val :: "char \<Rightarrow> nat option" where
  "hex_val c = (let n = of_char c :: nat in
     if 48 \<le> n \<and> n \<le> 57 then Some (n - 48) else if 97 \<le> n \<and> n \<le> 102 then Some (n - 87)
     else if 65 \<le> n \<and> n \<le> 70 then Some (n - 55) else None)"

definition ip_group :: "string \<Rightarrow> nat list option" where
  "ip_group s = (if s = [] \<or> length s > 4 then None
     else map_option (\<lambda>ds. let n = foldl (\<lambda>a d. 16 * a + d) 0 ds in [n div 256, n mod 256]) (all_some (map hex_val s)))"

text \<open>The groups of one side of \<open>::\<close>; the last one of the address may be an IPv4 address.\<close>

fun ip_groups :: "bool \<Rightarrow> string list \<Rightarrow> nat list option" where
  "ip_groups v4 [] = Some []"
| "ip_groups v4 [g] = (if v4 \<and> CHR ''.'' \<in> set g then parse_ipv4 g else ip_group g)"
| "ip_groups v4 (g # gs) = (case (ip_group g, ip_groups v4 gs) of (Some b, Some bs) \<Rightarrow> Some (b @ bs) | _ \<Rightarrow> None)"

fun split_double :: "string \<Rightarrow> (string \<times> string) option" where
  "split_double (CHR '':'' # CHR '':'' # s) = Some ([], s)"
| "split_double (c # s) = map_option (\<lambda>(l, r). (c # l, r)) (split_double s)"
| "split_double [] = None"

definition side_groups :: "bool \<Rightarrow> string \<Rightarrow> nat list option" where
  "side_groups v4 s = (if s = [] then Some [] else ip_groups v4 (split_on CHR '':'' s))"

definition parse_ipv6 :: "string \<Rightarrow> nat list option" where
  "parse_ipv6 s =
     (case split_double s of
        None \<Rightarrow> (case ip_groups True (split_on CHR '':'' s) of Some bs \<Rightarrow> if length bs = 16 then Some bs else None | None \<Rightarrow> None)
      | Some (l, r) \<Rightarrow>
          (case (side_groups False l, side_groups True r) of
             (Some bl, Some br) \<Rightarrow>
               if length bl + length br \<le> 14 then Some (bl @ replicate (16 - (length bl + length br)) 0 @ br) else None
           | _ \<Rightarrow> None))"

definition ParseIP :: "string \<Rightarrow> nat list option" where
  "ParseIP s = (if CHR '':'' \<in> set s then parse_ipv6 s else parse_ipv4 s)"

text \<open>\<open>To4\<close> also accepts the IPv4 addresses that are written as IPv6 addresses.\<close>

definition To4 :: "nat list \<Rightarrow> nat list option" where
  "To4 ip = (if length ip = 4 then Some ip
     else if length ip = 16 \<and> take 12 ip = replicate 10 0 @ [255, 255] then Some (drop 12 ip) else None)"

definition IsLoopback :: "nat list \<Rightarrow> bool" where
  "IsLoopback ip \<longleftrightarrow> (case To4 ip of Some q \<Rightarrow> q ! 0 = 127 | None \<Rightarrow> ip = replicate 15 0 @ [1])"

definition isPrivateIP :: "nat list \<Rightarrow> bool" where
  "isPrivateIP ip \<longleftrightarrow>
     (if IsLoopback ip then True
      else case To4 ip of
        None \<Rightarrow> False
      | Some q \<Rightarrow> q ! 0 = 10 \<or> q ! 0 = 192 \<and> q ! 1 = 168 \<or> q ! 0 = 172 \<and> 16 \<le> q ! 1 \<and> q ! 1 \<le> 31)"

section \<open>Requests\<close>

text \<open>An absent header is the empty string, as \<open>Header.Get\<close> answers.\<close>

record Request =
  rq_Method :: string
  rq_Path :: string
  rq_RemoteAddr :: string
  rq_Host :: string
  rq_Origin :: string
  rq_Tunnel :: string

datatype Response = Forbidden | NoContent | TooManyRequests | Served Request

definition localhostOnly :: "(Request \<Rightarrow> Response) \<Rightarrow> Request \<Rightarrow> Response" where
  "localhostOnly nxt r =
     (if rq_Path r = ''/api/cluster/join'' \<or> starts_with ''/join/'' (rq_Path r) then nxt r
      else if \<not> loopback_name (host_of (rq_RemoteAddr r)) then Forbidden
      else nxt r)"

text \<open>\<open>net.SplitHostPort\<close>, as far as it does not fail: \<open>host:port\<close> or \<open>[host]:port\<close>.\<close>

definition SplitHostPort :: "string \<Rightarrow> string option" where
  "SplitHostPort addr =
     (if CHR '':'' \<notin> set addr then None
      else let host = before_last CHR '':'' addr in
        if host \<noteq> [] \<and> hd host = CHR ''['' \<and> last host = CHR '']'' \<and> 2 \<le> length host then
          (let h = butlast (tl host) in if CHR ''['' \<in> set h \<or> CHR '']'' \<in> set h then None else Some h)
        else if CHR '':'' \<in> set host \<or> CHR ''['' \<in> set addr \<or> CHR '']'' \<in> set addr then None
        else Some host)"

definition localNetworkOnly :: "(Request \<Rightarrow> Response) \<Rightarrow> Request \<Rightarrow> Response" where
  "localNetworkOnly nxt r =
     (case SplitHostPort (rq_RemoteAddr r) of
        None \<Rightarrow> Forbidden
      | Some host \<Rightarrow>
          (case ParseIP host of
             None \<Rightarrow> Forbidden
           | Some ip \<Rightarrow> if \<not> isPrivateIP ip then Forbidden else nxt r))"

definition strip_tunnel :: "Request \<Rightarrow> Request" where
  "strip_tunnel r = (if rq_Tunnel r \<noteq> [] \<and> \<not> loopback_name (host_of (rq_RemoteAddr r)) then r\<lparr>rq_Tunnel := []\<rparr> else r)"

definition strip_scheme :: "string \<Rightarrow> string" where
  "strip_scheme origin = (if starts_with ''http://'' origin then drop 7 origin
     else if starts_with ''https://'' origin then drop 8 origin else origin)"

definition origin_allowed :: "Request \<Rightarrow> bool" where
  "origin_allowed r =
     (if rq_Tunnel r = ''1'' then True
      else let stripped = strip_scheme (rq_Origin r) in
        if stripped = rq_Host r then True
        else let oHost = host_of stripped in
          if oHost = ''localhost'' \<or> oHost = ''127.0.0.1'' \<or> oHost = ''::1'' then True
          else case ParseIP oHost of
            None \<Rightarrow> False
          | Some ip \<Rightarrow> isPrivateIP ip \<and> oHost = host_of (rq_Host r))"

definition CORSMiddleware :: "(Request \<Rightarrow> Response) \<Rightarrow> Request \<Rightarrow> Response" where
  "CORSMiddleware nxt r0 =
     (let r = strip_tunnel r0 in
      if rq_Origin r \<noteq> [] \<and> \<not> origin_allowed r then Forbidden
      else if rq_Method r = ''OPTIONS'' then NoContent
      else nxt r)"

section \<open>Rate limits\<close>

text \<open>
  The token bucket of \<open>golang.org/x/time/rate\<close> is a parameter: \<open>fresh\<close> is a new limiter and \<open>allow\<close> its
  method at a time.
\<close>

record 'l limiterEntry =
  le_limiter :: 'l
  le_lastSeen :: time

type_synonym 'l ipLimiter = "string \<rightharpoonup> 'l limiterEntry"

definition getLimiter :: "'l \<Rightarrow> time \<Rightarrow> string \<Rightarrow> 'l ipLimiter \<Rightarrow> 'l \<times> 'l ipLimiter" where
  "getLimiter fresh now ip il =
     (case il ip of
        Some e \<Rightarrow> (le_limiter e, il(ip \<mapsto> e\<lparr>le_lastSeen := now\<rparr>))
      | None \<Rightarrow> (fresh, il(ip \<mapsto> \<lparr>le_limiter = fresh, le_lastSeen = now\<rparr>)))"

definition evict_limiters :: "time \<Rightarrow> 'l ipLimiter \<Rightarrow> 'l ipLimiter" where
  "evict_limiters now il = (\<lambda>ip. case il ip of
     Some e \<Rightarrow> if le_lastSeen e < now - 600 * second then None else Some e
   | None \<Rightarrow> None)"

definition RateLimitMiddleware :: "'l \<Rightarrow> (time \<Rightarrow> 'l \<Rightarrow> bool \<times> 'l) \<Rightarrow> time \<Rightarrow> Request \<Rightarrow> 'l ipLimiter \<Rightarrow> Response \<times> 'l ipLimiter" where
  "RateLimitMiddleware fresh allow now r il =
     (let ip = host_of (rq_RemoteAddr r);
          (limiter, il) = getLimiter fresh now ip il;
          (ok, limiter) = allow now limiter;
          il = il(ip \<mapsto> (the (il ip))\<lparr>le_limiter := limiter\<rparr>)
      in (if \<not> ok then TooManyRequests else Served r, il))"

section \<open>The server\<close>

text \<open>
  The guard of the listener sees the address of the connection; the router replaces it (\<open>real_ip\<close>)
  before the other middleware runs.
\<close>

definition Server_handle ::
  "(Request \<Rightarrow> string) \<Rightarrow> 'l \<Rightarrow> (time \<Rightarrow> 'l \<Rightarrow> bool \<times> 'l) \<Rightarrow> string \<Rightarrow> time \<Rightarrow> Request \<Rightarrow> 'l ipLimiter \<Rightarrow> Response \<times> 'l ipLimiter" where
  "Server_handle real_ip fresh allow netAccess now r il =
     (case (if netAccess = ''localhost_only'' then localhostOnly Served r else localNetworkOnly Served r) of
        Served r \<Rightarrow>
          (case CORSMiddleware Served (r\<lparr>rq_RemoteAddr := real_ip r\<rparr>) of
             Served r \<Rightarrow> RateLimitMiddleware fresh allow now r il
           | resp \<Rightarrow> (resp, il))
      | resp \<Rightarrow> (resp, il))"

section \<open>Access\<close>

lemma localhostOnly_Served: "localhostOnly Served r = Served r' \<Longrightarrow> r' = r"
  by (auto simp: localhostOnly_def split: if_splits)

lemma localNetworkOnly_Served: "localNetworkOnly Served r = Served r' \<Longrightarrow> r' = r"
  by (auto simp: localNetworkOnly_def split: option.splits if_splits)

lemma guard_Served:
  "(if local then localhostOnly Served r else localNetworkOnly Served r) = Served r' \<Longrightarrow> r' = r"
  by (auto split: if_splits dest: localhostOnly_Served localNetworkOnly_Served)

lemma Server_Served:
  assumes "Server_handle real_ip fresh allow netAccess now r il = (Served r', il')"
  shows "(if netAccess = ''localhost_only'' then localhostOnly Served r else localNetworkOnly Served r) = Served r"
    and "CORSMiddleware Served (r\<lparr>rq_RemoteAddr := real_ip r\<rparr>) = Served r'"
  using assms by (auto simp: Server_handle_def RateLimitMiddleware_def Let_def
      split: Response.splits prod.splits if_splits dest: localhostOnly_Served localNetworkOnly_Served)

lemma CORS_Served:
  assumes "CORSMiddleware Served r = Served r'"
  shows "r' = strip_tunnel r" and "rq_Origin r = [] \<or> origin_allowed (strip_tunnel r)"
  using assms by (auto simp: CORSMiddleware_def Let_def strip_tunnel_def split: if_splits)

text \<open>
  C36: A request that is served comes, by the address of its connection, from the machine itself or
  is one of the requests for joining, if the API is limited to the machine, and from a private
  address otherwise. If a browser sent it for a page of some origin, and it does not claim to come
  from the tunnel, the host of that origin is the host the request is addressed to or the machine
  itself.
\<close>

theorem api_access:
  assumes "Server_handle real_ip fresh allow netAccess now r il = (Served r', il')"
  shows "(netAccess = ''localhost_only'' \<longrightarrow> loopback_name (host_of (rq_RemoteAddr r)) \<or>
      rq_Path r = ''/api/cluster/join'' \<or> starts_with ''/join/'' (rq_Path r)) \<and>
    (netAccess \<noteq> ''localhost_only'' \<longrightarrow> (\<exists>host ip. SplitHostPort (rq_RemoteAddr r) = Some host \<and> ParseIP host = Some ip \<and> isPrivateIP ip)) \<and>
    (rq_Origin r \<noteq> [] \<and> rq_Tunnel r \<noteq> ''1'' \<longrightarrow>
      host_of (strip_scheme (rq_Origin r)) = host_of (rq_Host r) \<or> loopback_name (host_of (strip_scheme (rq_Origin r))))"
proof -
  note guard = Server_Served(1) [OF assms] and cors = CORS_Served(2) [OF Server_Served(2) [OF assms]]
  have "loopback_name (host_of (rq_RemoteAddr r)) \<or> rq_Path r = ''/api/cluster/join'' \<or> starts_with ''/join/'' (rq_Path r)"
    if "netAccess = ''localhost_only''"
    using guard that by (auto simp: localhostOnly_def split: if_splits)
  moreover have "\<exists>host ip. SplitHostPort (rq_RemoteAddr r) = Some host \<and> ParseIP host = Some ip \<and> isPrivateIP ip"
    if "netAccess \<noteq> ''localhost_only''"
    using guard that by (auto simp: localNetworkOnly_def split: option.splits if_splits)
  moreover have "host_of (strip_scheme (rq_Origin r)) = host_of (rq_Host r) \<or> loopback_name (host_of (strip_scheme (rq_Origin r)))"
    if "rq_Origin r \<noteq> []" "rq_Tunnel r \<noteq> ''1''"
    using cors that
    by (auto simp: origin_allowed_def strip_tunnel_def loopback_name_def Let_def split: if_splits option.splits)
  ultimately show ?thesis by blast
qed

text \<open>A page of the dashboard, opened on the machine.\<close>

definition dashboard_request :: Request where
  "dashboard_request = \<lparr>rq_Method = ''GET'', rq_Path = ''/api/status'', rq_RemoteAddr = ''127.0.0.1:50000'',
     rq_Host = ''localhost:4892'', rq_Origin = ''http://localhost:4892'', rq_Tunnel = []\<rparr>"

lemma dashboard_served:
  "Server_handle rq_RemoteAddr () (\<lambda>_ l. (True, l)) ''localhost_only'' 0 dashboard_request Map.empty =
     (Served dashboard_request, [''127.0.0.1'' \<mapsto> \<lparr>le_limiter = (), le_lastSeen = 0\<rparr>])"
proof -
  have "host_of ''127.0.0.1:50000'' = ''127.0.0.1''" by code_simp
  then show ?thesis
    by (simp add: Server_handle_def localhostOnly_def dashboard_request_def loopback_name_def CORSMiddleware_def strip_tunnel_def
        origin_allowed_def strip_scheme_def RateLimitMiddleware_def getLimiter_def)
qed

theorem api_access_witness: "loopback_name (host_of (rq_RemoteAddr dashboard_request))"
  using api_access [OF dashboard_served] by (simp add: dashboard_request_def)

text \<open>
  The check of the origin compares it with the host the request names, which an attacker
  chooses: a page of any site whose name is made to resolve to the machine is served as the
  dashboard itself is (DNS rebinding).
\<close>

theorem dns_rebinding:
  assumes "\<not> starts_with ''http://'' site" and "\<not> starts_with ''https://'' site" and "rq_Method r \<noteq> ''OPTIONS''"
    and "rq_Host r = site" and "rq_Origin r = ''http://'' @ site" and "rq_RemoteAddr r = ''127.0.0.1:50000''"
    and "real_ip r = rq_RemoteAddr r" and "fst (allow now fresh)"
  shows "fst (Server_handle real_ip fresh allow netAccess now r Map.empty) = Served r"
proof -
  have h: "host_of ''127.0.0.1:50000'' = ''127.0.0.1''" by code_simp
  have "SplitHostPort ''127.0.0.1:50000'' = Some ''127.0.0.1''" by code_simp
  moreover have "ParseIP ''127.0.0.1'' = Some [127, 0, 0, 1]" by code_simp
  moreover have "isPrivateIP [127, 0, 0, 1]" by code_simp
  ultimately have guard: "(if netAccess = ''localhost_only'' then localhostOnly Served r else localNetworkOnly Served r) = Served r"
    using assms(6) h by (simp add: localhostOnly_def localNetworkOnly_def loopback_name_def)
  have tunnel: "strip_tunnel r = r" using assms(6) h by (simp add: strip_tunnel_def loopback_name_def)
  have "strip_scheme (rq_Origin r) = rq_Host r" using assms(4,5) by (simp add: strip_scheme_def)
  then have "origin_allowed r" by (simp add: origin_allowed_def)
  then have "CORSMiddleware Served (r\<lparr>rq_RemoteAddr := real_ip r\<rparr>) = Served r"
    using assms(3,7) tunnel by (simp add: CORSMiddleware_def)
  moreover obtain l where "allow now fresh = (True, l)" using assms(8) by (cases "allow now fresh") auto
  ultimately show ?thesis using guard by (simp add: Server_handle_def RateLimitMiddleware_def getLimiter_def)
qed

theorem dns_rebinding_witness:
  "fst (Server_handle rq_RemoteAddr () (\<lambda>_ l. (True, l)) ''localhost_only'' 0
      \<lparr>rq_Method = ''PUT'', rq_Path = ''/api/settings'', rq_RemoteAddr = ''127.0.0.1:50000'', rq_Host = ''evil.example:4892'',
       rq_Origin = ''http://evil.example:4892'', rq_Tunnel = []\<rparr> Map.empty) =
   Served \<lparr>rq_Method = ''PUT'', rq_Path = ''/api/settings'', rq_RemoteAddr = ''127.0.0.1:50000'', rq_Host = ''evil.example:4892'',
       rq_Origin = ''http://evil.example:4892'', rq_Tunnel = []\<rparr>"
  by (rule dns_rebinding [where site = "''evil.example:4892''"]) simp_all

section \<open>Evading the limit\<close>

fun handle_all :: "(Request \<Rightarrow> string) \<Rightarrow> 'l \<Rightarrow> (time \<Rightarrow> 'l \<Rightarrow> bool \<times> 'l) \<Rightarrow> string \<Rightarrow> time \<Rightarrow> Request list \<Rightarrow> 'l ipLimiter \<Rightarrow> Response list" where
  "handle_all real_ip fresh allow netAccess now [] il = []"
| "handle_all real_ip fresh allow netAccess now (r # rs) il =
     (let (resp, il) = Server_handle real_ip fresh allow netAccess now r il
      in resp # handle_all real_ip fresh allow netAccess now rs il)"

lemma CORS_cases: "CORSMiddleware Served r \<in> {Forbidden, NoContent, Served (strip_tunnel r)}"
  by (simp add: CORSMiddleware_def Let_def)

lemma strip_tunnel_addr [simp]: "rq_RemoteAddr (strip_tunnel r) = rq_RemoteAddr r"
  by (simp add: strip_tunnel_def)

lemma guard_cases:
  "(if local then localhostOnly Served r else localNetworkOnly Served r) \<in> {Forbidden, Served r}"
  by (auto simp: localhostOnly_def localNetworkOnly_def split: option.splits)

lemma disjoint_insert_mono: "A \<subseteq> insert k B \<Longrightarrow> k \<notin> C \<Longrightarrow> B \<inter> C = {} \<Longrightarrow> A \<inter> C = {}"
  by blast

lemma unseen_not_limited:
  assumes "il (host_of (real_ip r)) = None" and "fst (allow now fresh)"
    and "Server_handle real_ip fresh allow netAccess now r il = (resp, il')"
  shows "resp \<noteq> TooManyRequests \<and> dom il' \<subseteq> insert (host_of (real_ip r)) (dom il)"
proof -
  let ?r = "r\<lparr>rq_RemoteAddr := real_ip r\<rparr>"
  obtain l where l: "allow now fresh = (True, l)" using assms(2) by (cases "allow now fresh") auto
  show ?thesis
    using assms(1,3) l guard_cases [of "netAccess = ''localhost_only''" r] CORS_cases [of ?r]
    by (elim insertE emptyE) (auto simp: Server_handle_def RateLimitMiddleware_def getLimiter_def Let_def split: if_splits)
qed

text \<open>
  The limits per address are kept under the address that the request itself reports: a client
  that reports another one each time is never limited.
\<close>

theorem rate_limit_evaded:
  assumes "distinct (map (\<lambda>r. host_of (real_ip r)) rs)" and "fst (allow now fresh)"
  shows "TooManyRequests \<notin> set (handle_all real_ip fresh allow netAccess now rs Map.empty)"
proof -
  have "TooManyRequests \<notin> set (handle_all real_ip fresh allow netAccess now rs il)"
    if "dom il \<inter> (\<lambda>r. host_of (real_ip r)) ` set rs = {}" for il
    using assms(1) that
  proof (induction rs arbitrary: il)
    case (Cons r rs)
    obtain resp il' where h: "Server_handle real_ip fresh allow netAccess now r il = (resp, il')" by (meson surj_pair)
    have "il (host_of (real_ip r)) = None" using Cons.prems(2) by auto
    from unseen_not_limited [OF this assms(2) h] have "resp \<noteq> TooManyRequests" and dom: "dom il' \<subseteq> insert (host_of (real_ip r)) (dom il)"
      by auto
    moreover have "dom il' \<inter> (\<lambda>r. host_of (real_ip r)) ` set rs = {}"
      by (rule disjoint_insert_mono [OF dom]) (use Cons.prems in auto)
    ultimately show ?case using Cons.IH [of il'] Cons.prems(1) h by simp
  qed simp
  then show ?thesis by simp
qed

text \<open>Two requests of one connection, with addresses of their own; a limiter that allows one request.\<close>

theorem rate_limit_evaded_witness:
  "let r = (\<lambda>h. dashboard_request\<lparr>rq_Host := h\<rparr>) in
   TooManyRequests \<notin> set (handle_all rq_Host (1::nat) (\<lambda>_ l. (0 < l, l - 1)) ''localhost_only'' 0 [r ''10.0.0.1'', r ''10.0.0.2''] Map.empty) \<and>
   TooManyRequests \<in> set (handle_all rq_RemoteAddr (1::nat) (\<lambda>_ l. (0 < l, l - 1)) ''localhost_only'' 0
     [dashboard_request, dashboard_request] Map.empty)"
proof -
  let ?r = "\<lambda>h. dashboard_request\<lparr>rq_Host := h\<rparr>"
  have "host_of ''10.0.0.1'' = ''10.0.0.1''" "host_of ''10.0.0.2'' = ''10.0.0.2''" by code_simp+
  then have "distinct (map (\<lambda>r. host_of (rq_Host r)) [?r ''10.0.0.1'', ?r ''10.0.0.2''])" by simp
  then have "TooManyRequests \<notin> set (handle_all rq_Host (1::nat) (\<lambda>_ l. (0 < l, l - 1)) ''localhost_only'' 0 [?r ''10.0.0.1'', ?r ''10.0.0.2''] Map.empty)"
    by (rule rate_limit_evaded) simp
  moreover have "host_of ''127.0.0.1:50000'' = ''127.0.0.1''" by code_simp
  then have "TooManyRequests \<in> set (handle_all rq_RemoteAddr (1::nat) (\<lambda>_ l. (0 < l, l - 1)) ''localhost_only'' 0
     [dashboard_request, dashboard_request] Map.empty)"
    by (simp add: Server_handle_def localhostOnly_def dashboard_request_def loopback_name_def CORSMiddleware_def strip_tunnel_def
        origin_allowed_def strip_scheme_def RateLimitMiddleware_def getLimiter_def)
  ultimately show ?thesis by (simp add: Let_def)
qed

text \<open>
  The tunnel header is honoured when the reported address is the machine, wherever the connection
  comes from: its check is undone by the router.
\<close>

lemma tunnel_header_from_network:
  assumes "SplitHostPort (rq_RemoteAddr r) = Some host" and "ParseIP host = Some ip" and "isPrivateIP ip"
    and "real_ip r = ''127.0.0.1''" and "rq_Tunnel r = ''1''" and "rq_Method r \<noteq> ''OPTIONS''" and "fst (allow now fresh)"
  shows "fst (Server_handle real_ip fresh allow ''local_network'' now r Map.empty) = Served (r\<lparr>rq_RemoteAddr := ''127.0.0.1''\<rparr>)"
proof -
  obtain l where l: "allow now fresh = (True, l)" using assms(7) by (cases "allow now fresh") auto
  have "host_of ''127.0.0.1'' = ''127.0.0.1''" by code_simp
  then show ?thesis using assms(1-6) l
    by (simp add: Server_handle_def localNetworkOnly_def CORSMiddleware_def strip_tunnel_def loopback_name_def origin_allowed_def
        RateLimitMiddleware_def getLimiter_def)
qed

end
