(* ===== verification/Llm_Shards.thy ===== *)
theory Llm_Shards
  imports Go_Strings
begin

text \<open>
  \<open>internal/llm/shard.go\<close>: the layers of a language model are split over the nodes of the cluster.
  \<open>PlanShardsDynamic\<close> searches the cheapest pipeline with a table over the layers placed, the last
  node and the set of nodes used; \<open>PlanShards\<close> falls back to shares proportional to memory. Costs are
  real numbers in seconds; the order in which the speeds of a node are ranged over is an argument.
\<close>

record ModelInfo =
  mi_Name :: string
  mi_TotalLayers :: nat
  mi_TotalRAM :: int
  mi_HeadCount :: int
  mi_EmbedLength :: int
  mi_IsAvailable :: bool
  mi_Quantization :: string

record LlmNode =
  ln_ID :: string
  ln_Name :: string
  ln_FreeRAM :: int
  ln_TotalRAM :: int
  ln_HasGPU :: bool
  ln_GPUVRAMFree :: int

record Shard =
  sd_NodeID :: string
  sd_NodeName :: string
  sd_LayerStart :: int
  sd_LayerEnd :: int
  sd_AssignedRAM :: int

record ShardPlan =
  sp_Model :: ModelInfo
  sp_Coordinator :: string
  sp_Shards :: "Shard list"

record WorkerCapability =
  wc_NodeID :: string
  wc_NodeName :: string
  wc_Models :: "string list"
  wc_FreeRAM :: int
  wc_OllamaReady :: bool
  wc_LinkLatencies :: "string \<rightharpoonup> real"
  wc_LinkBandwidths :: "string \<rightharpoonup> real"
  wc_InferenceSpeeds :: "string \<rightharpoonup> real"
  wc_LastSeen :: time
  wc_WhisperReady :: bool
  wc_ImageGenReady :: bool

datatype PlanError = ModelIncomplete | NoNodes | NoEligible | InsufficientRAM int | NoValidChain

definition defaultContextLen :: int where "defaultContextLen = 2048"
definition reservedSystemRAM :: int where "reservedSystemRAM = 1024 * 1024 * 1024"
definition defaultActivationSize :: real where "defaultActivationSize = 1048576"

definition KVCacheRAMAt :: "ModelInfo \<Rightarrow> int \<Rightarrow> int" where
  "KVCacheRAMAt m seqLen =
     (if mi_TotalLayers m = 0 \<or> mi_EmbedLength m \<le> 0 then 0
      else 2 * int (mi_TotalLayers m) * mi_EmbedLength m * seqLen * 2)"

definition ramPerLayer :: "ModelInfo \<Rightarrow> int" where "ramPerLayer m = mi_TotalRAM m div int (mi_TotalLayers m)"

definition more_capable :: "LlmNode \<Rightarrow> LlmNode \<Rightarrow> bool" where
  "more_capable a b = (if ln_HasGPU a \<noteq> ln_HasGPU b then ln_HasGPU a else ln_FreeRAM a > ln_FreeRAM b)"

definition filterEligible :: "ModelInfo \<Rightarrow> LlmNode list \<Rightarrow> LlmNode list" where
  "filterEligible m nodes = slice_sort more_capable (filter (\<lambda>n. ln_FreeRAM n \<ge> ramPerLayer m) nodes)"

section \<open>Costs\<close>

text \<open>Reports of one node are merged, later ones over earlier ones.\<close>

definition merge_caps :: "(WorkerCapability \<Rightarrow> string \<rightharpoonup> real) \<Rightarrow> WorkerCapability list \<Rightarrow> string \<Rightarrow> string \<rightharpoonup> real" where
  "merge_caps sel caps = foldl (\<lambda>m c. m(wc_NodeID c := m (wc_NodeID c) ++ sel c)) (\<lambda>_. Map.empty) caps"

definition link_value :: "(string \<Rightarrow> string \<rightharpoonup> real) \<Rightarrow> string \<Rightarrow> string \<Rightarrow> real option" where
  "link_value m src dst =
     (case m src dst of
        Some v \<Rightarrow> if v > 0 then Some v else (case m dst src of Some v \<Rightarrow> if v > 0 then Some v else None | None \<Rightarrow> None)
      | None \<Rightarrow> (case m dst src of Some v \<Rightarrow> if v > 0 then Some v else None | None \<Rightarrow> None))"

definition getLatencySeconds :: "WorkerCapability list \<Rightarrow> string \<Rightarrow> string \<Rightarrow> real" where
  "getLatencySeconds caps src dst =
     (if src = dst then 0
      else case link_value (merge_caps wc_LinkLatencies caps) src dst of Some v \<Rightarrow> v / 1000 | None \<Rightarrow> 2 / 1000)"

definition getBandwidthMBs :: "WorkerCapability list \<Rightarrow> string \<Rightarrow> string \<Rightarrow> real" where
  "getBandwidthMBs caps src dst =
     (if src = dst then 10000
      else case link_value (merge_caps wc_LinkBandwidths caps) src dst of Some v \<Rightarrow> v | None \<Rightarrow> 100)"

definition transfer_time :: "WorkerCapability list \<Rightarrow> string \<Rightarrow> string \<Rightarrow> real" where
  "transfer_time caps src dst = getLatencySeconds caps src dst + defaultActivationSize / (getBandwidthMBs caps src dst * 1024 * 1024)"

definition node_speed :: "(string \<Rightarrow> string list) \<Rightarrow> ModelInfo \<Rightarrow> WorkerCapability list \<Rightarrow> string \<Rightarrow> real" where
  "node_speed ord m caps n =
     (let speeds = merge_caps wc_InferenceSpeeds caps n in
      case speeds (mi_Name m) of
        Some v \<Rightarrow> if v > 0 then v else (case find (\<lambda>k. the (speeds k) > 0) (ord n) of Some k \<Rightarrow> the (speeds k) | None \<Rightarrow> 0)
      | None \<Rightarrow> (case find (\<lambda>k. the (speeds k) > 0) (ord n) of Some k \<Rightarrow> the (speeds k) | None \<Rightarrow> 0))"

definition getComputeLatencyPerLayer :: "(string \<Rightarrow> string list) \<Rightarrow> ModelInfo \<Rightarrow> WorkerCapability list \<Rightarrow> LlmNode \<Rightarrow> real" where
  "getComputeLatencyPerLayer ord m caps n =
     (let speed = node_speed ord m caps (ln_ID n) in
      if speed > 0 then 1 / (speed * real (mi_TotalLayers m))
      else if ln_HasGPU n then 5 / 1000 else 30 / 1000)"

definition required_ram :: "ModelInfo \<Rightarrow> string \<Rightarrow> nat \<Rightarrow> LlmNode \<Rightarrow> int" where
  "required_ram m coord layers n =
     int layers * ramPerLayer m + (if ln_ID n = coord then KVCacheRAMAt m defaultContextLen + reservedSystemRAM else 0)"

text \<open>What the table is computed from: whether layers fit on a node, and the costs.\<close>

record PlanCosts =
  pc_nodes :: nat
  pc_layers :: nat
  pc_fits :: "nat \<Rightarrow> nat \<Rightarrow> bool"
  pc_entry :: "nat \<Rightarrow> real"
  pc_comp :: "nat \<Rightarrow> real"
  pc_hop :: "nat \<Rightarrow> nat \<Rightarrow> real"
  pc_back :: "nat \<Rightarrow> real"

definition plan_costs :: "(string \<Rightarrow> string list) \<Rightarrow> ModelInfo \<Rightarrow> WorkerCapability list \<Rightarrow> string \<Rightarrow> LlmNode list \<Rightarrow> PlanCosts" where
  "plan_costs ord m caps coord nodes =
     \<lparr>pc_nodes = length nodes, pc_layers = mi_TotalLayers m,
      pc_fits = (\<lambda>layers u. required_ram m coord layers (nodes ! u) \<le> ln_FreeRAM (nodes ! u)),
      pc_entry = (\<lambda>u. if ln_ID (nodes ! u) \<noteq> coord then transfer_time caps coord (ln_ID (nodes ! u)) else 0),
      pc_comp = (\<lambda>u. getComputeLatencyPerLayer ord m caps (nodes ! u)),
      pc_hop = (\<lambda>w u. transfer_time caps (ln_ID (nodes ! w)) (ln_ID (nodes ! u))),
      pc_back = (\<lambda>u. if ln_ID (nodes ! u) \<noteq> coord then transfer_time caps (ln_ID (nodes ! u)) coord else 0)\<rparr>"

section \<open>The table\<close>

text \<open>
  The three fields \<open>prevL\<close>, \<open>prevU\<close>, \<open>prevMask\<close> are \<open>-1, -1, -1\<close> (\<open>Unset\<close>), \<open>0, -1, 0\<close> (\<open>FirstSegment\<close>) or the
  cell before.
\<close>

datatype PrevCell = Unset | FirstSegment | PrevCell nat nat nat

record dpState =
  ds_cost :: real
  ds_prev :: PrevCell

definition unset_state :: dpState where "unset_state = \<lparr>ds_cost = 10 ^ 18, ds_prev = Unset\<rparr>"

definition dp_base :: "PlanCosts \<Rightarrow> nat \<Rightarrow> nat \<Rightarrow> nat \<Rightarrow> dpState" where
  "dp_base pc l u used =
     (if used = 2 ^ u \<and> 1 \<le> l \<and> pc_fits pc l u
      then \<lparr>ds_cost = pc_entry pc u + real l * pc_comp pc u, ds_prev = FirstSegment\<rparr> else unset_state)"

definition dp_candidate :: "PlanCosts \<Rightarrow> (nat \<Rightarrow> nat \<Rightarrow> nat \<Rightarrow> dpState) \<Rightarrow> nat \<Rightarrow> nat \<Rightarrow> nat \<Rightarrow> nat \<times> nat \<Rightarrow> dpState option" where
  "dp_candidate pc cell l u maskPrev ws =
     (let (w, start) = ws; prev = cell start w maskPrev; layers = l - start in
      if ds_cost prev \<ge> 10 ^ 17 then None
      else if \<not> pc_fits pc layers u then None
      else Some \<lparr>ds_cost = ds_cost prev + pc_hop pc w u + real layers * pc_comp pc u, ds_prev = PrevCell start w maskPrev\<rparr>)"

definition keep_min :: "('x \<Rightarrow> dpState option) \<Rightarrow> dpState \<Rightarrow> 'x \<Rightarrow> dpState" where
  "keep_min cand st x = (case cand x of None \<Rightarrow> st | Some st' \<Rightarrow> if ds_cost st' < ds_cost st then st' else st)"

definition dp_pairs :: "PlanCosts \<Rightarrow> nat \<Rightarrow> nat \<Rightarrow> nat \<Rightarrow> (nat \<times> nat) list" where
  "dp_pairs pc l u maskPrev = [(w, start). w \<leftarrow> [0..<pc_nodes pc], w \<noteq> u \<and> bit maskPrev w, start \<leftarrow> [1..<l]]"

definition dp_cell :: "PlanCosts \<Rightarrow> (nat \<Rightarrow> nat \<Rightarrow> nat \<Rightarrow> dpState) \<Rightarrow> nat \<Rightarrow> nat \<Rightarrow> nat \<Rightarrow> dpState" where
  "dp_cell pc cell l u used =
     (let st = dp_base pc l u used in
      if \<not> bit used u then st
      else let maskPrev = unset_bit u used in
        foldl (keep_min (dp_candidate pc cell l u maskPrev)) st (dp_pairs pc l u maskPrev))"

text \<open>The rows of the table, by the number of layers placed.\<close>

fun dp_rows :: "PlanCosts \<Rightarrow> nat \<Rightarrow> dpState list list list" where
  "dp_rows pc 0 = [map (\<lambda>u. map (\<lambda>used. unset_state) [0..<2 ^ pc_nodes pc]) [0..<pc_nodes pc]]"
| "dp_rows pc (Suc l) =
     (let rows = dp_rows pc l
      in rows @ [map (\<lambda>u. map (\<lambda>used. dp_cell pc (\<lambda>start w m. rows ! start ! w ! m) (Suc l) u used) [0..<2 ^ pc_nodes pc])
                   [0..<pc_nodes pc]])"

definition keep_best :: "('x \<Rightarrow> real option) \<Rightarrow> real \<times> 'x option \<Rightarrow> 'x \<Rightarrow> real \<times> 'x option" where
  "keep_best val best x = (case val x of None \<Rightarrow> best | Some t \<Rightarrow> if t < fst best then (t, Some x) else best)"

definition total_cost :: "PlanCosts \<Rightarrow> dpState list list list \<Rightarrow> nat \<times> nat \<Rightarrow> real option" where
  "total_cost pc rows uu =
     (let (u, used) = uu; st = rows ! pc_layers pc ! u ! used
      in if ds_cost st \<ge> 10 ^ 17 then None else Some (ds_cost st + pc_back pc u))"

definition pick_best :: "PlanCosts \<Rightarrow> dpState list list list \<Rightarrow> real \<times> (nat \<times> nat) option" where
  "pick_best pc rows =
     foldl (keep_best (total_cost pc rows)) (10 ^ 18, None)
       [(u, used). u \<leftarrow> [0..<pc_nodes pc], used \<leftarrow> [1..<2 ^ pc_nodes pc]]"

text \<open>The path, from its end; each segment is put in front of the ones found before it.\<close>

partial_function (option) reconstruct ::
  "dpState list list list \<Rightarrow> nat \<Rightarrow> nat \<Rightarrow> nat \<Rightarrow> (nat \<times> nat \<times> nat) list \<Rightarrow> (nat \<times> nat \<times> nat) list option" where
  "reconstruct rows l u used path =
     (case ds_prev (rows ! l ! u ! used) of
        Unset \<Rightarrow> None
      | FirstSegment \<Rightarrow> Some ((u, 0, l - 1) # path)
      | PrevCell start w m \<Rightarrow> reconstruct rows start w m ((u, start, l - 1) # path))"

definition shard_of :: "ModelInfo \<Rightarrow> LlmNode list \<Rightarrow> nat \<times> nat \<times> nat \<Rightarrow> Shard" where
  "shard_of m nodes seg =
     (let (u, first, last) = seg; layers = int last - int first + 1
      in \<lparr>sd_NodeID = ln_ID (nodes ! u), sd_NodeName = ln_Name (nodes ! u), sd_LayerStart = int first, sd_LayerEnd = int last,
          sd_AssignedRAM = layers * ramPerLayer m\<rparr>)"

definition PlanShardsDynamic :: "(string \<Rightarrow> string list) \<Rightarrow> ModelInfo \<Rightarrow> LlmNode list \<Rightarrow> WorkerCapability list \<Rightarrow> (PlanError + ShardPlan) option" where
  "PlanShardsDynamic ord m nodes caps =
     (if nodes = [] then Some (Inl NoNodes)
      else let eligible = filterEligible m nodes in
        if eligible = [] then Some (Inl NoEligible)
        else let coord = ln_ID (hd eligible); eligible = take 10 eligible;
                 pc = plan_costs ord m caps coord eligible; rows = dp_rows pc (pc_layers pc) in
          case snd (pick_best pc rows) of
            None \<Rightarrow> Some (Inl NoValidChain)
          | Some (u, used) \<Rightarrow>
              map_option (\<lambda>path. Inr \<lparr>sp_Model = m, sp_Coordinator = coord, sp_Shards = map (shard_of m eligible) path\<rparr>)
                (reconstruct rows (pc_layers pc) u used []))"

section \<open>Shares proportional to memory\<close>

definition node_layers :: "ModelInfo \<Rightarrow> int \<Rightarrow> int \<Rightarrow> int \<Rightarrow> bool \<Rightarrow> int" where
  "node_layers m totalEffective layerCursor eff is_last =
     (if is_last then int (mi_TotalLayers m) - layerCursor
      else max 1 \<lfloor>real_of_int eff / real_of_int totalEffective * real (mi_TotalLayers m)\<rfloor>)"

fun assign_from :: "ModelInfo \<Rightarrow> int \<Rightarrow> int \<Rightarrow> (LlmNode \<times> int) list \<Rightarrow> Shard list" where
  "assign_from m totalEffective layerCursor [] = []"
| "assign_from m totalEffective layerCursor ((n, eff) # rest) =
     (let nodeLayers = node_layers m totalEffective layerCursor eff (rest = []);
          layerEnd = min (layerCursor + nodeLayers - 1) (int (mi_TotalLayers m) - 1);
          s = \<lparr>sd_NodeID = ln_ID n, sd_NodeName = ln_Name n, sd_LayerStart = layerCursor, sd_LayerEnd = layerEnd,
               sd_AssignedRAM = nodeLayers * ramPerLayer m\<rparr>
      in if layerEnd + 1 \<ge> int (mi_TotalLayers m) then [s] else s # assign_from m totalEffective (layerEnd + 1) rest)"

definition assignLayers :: "ModelInfo \<Rightarrow> LlmNode list \<Rightarrow> int list \<Rightarrow> int \<Rightarrow> Shard list" where
  "assignLayers m nodes effectiveRAM totalEffective = assign_from m totalEffective 0 (zip nodes effectiveRAM)"

definition effective_ram :: "ModelInfo \<Rightarrow> LlmNode list \<Rightarrow> int list" where
  "effective_ram m eligible =
     (case eligible of [] \<Rightarrow> []
      | n # ns \<Rightarrow> max 0 (ln_FreeRAM n - KVCacheRAMAt m defaultContextLen - reservedSystemRAM) # map ln_FreeRAM ns)"

definition PlanShards :: "(string \<Rightarrow> string list) \<Rightarrow> ModelInfo \<Rightarrow> LlmNode list \<Rightarrow> WorkerCapability list \<Rightarrow> (PlanError + ShardPlan) option" where
  "PlanShards ord m nodes caps =
     (if mi_TotalLayers m = 0 \<or> mi_TotalRAM m \<le> 0 then Some (Inl ModelIncomplete)
      else case PlanShardsDynamic ord m nodes caps of
        None \<Rightarrow> None
      | Some (Inr plan) \<Rightarrow> Some (Inr plan)
      | Some (Inl e) \<Rightarrow>
          let eligible = filterEligible m nodes; effective = effective_ram m eligible; total = sum_list effective in
          if eligible = [] then Some (Inl NoEligible)
          else if total < mi_TotalRAM m then Some (Inl (InsufficientRAM (mi_TotalRAM m - total)))
          else Some (Inr \<lparr>sp_Model = m, sp_Coordinator = ln_ID (hd eligible), sp_Shards = assignLayers m eligible effective total\<rparr>))"

text \<open>The latencies are nanoseconds; the order of the map does not matter.\<close>

definition ShouldDistributeInference :: "ModelInfo \<Rightarrow> LlmNode list \<Rightarrow> int list \<Rightarrow> bool" where
  "ShouldDistributeInference m nodes p50s =
     (if list_ex (\<lambda>n. ln_HasGPU n \<and> ln_GPUVRAMFree n \<ge> mi_TotalRAM m) nodes then False
      else if list_ex (\<lambda>n. ln_FreeRAM n \<ge> mi_TotalRAM m) nodes then False
      else if sum_list (map ln_FreeRAM nodes) < mi_TotalRAM m then False
      else \<not> list_ex (\<lambda>p. p > 5000000) p50s)"

section \<open>Pipelines\<close>

text \<open>
  A pipeline gives numbers of layers to nodes. Here its last node comes first, as the table builds
  it.
\<close>

type_synonym shard_chain = "(nat \<times> nat) list"

definition chain_layers :: "shard_chain \<Rightarrow> nat" where "chain_layers c = sum_list (map snd c)"

definition chain_ok :: "PlanCosts \<Rightarrow> shard_chain \<Rightarrow> bool" where
  "chain_ok pc c \<longleftrightarrow> c \<noteq> [] \<and> distinct (map fst c) \<and> (\<forall>(u, k) \<in> set c. u < pc_nodes pc \<and> 1 \<le> k \<and> pc_fits pc k u)"

fun chain_cost :: "PlanCosts \<Rightarrow> shard_chain \<Rightarrow> real" where
  "chain_cost pc [] = 0"
| "chain_cost pc [(u, k)] = pc_entry pc u + real k * pc_comp pc u"
| "chain_cost pc ((u, k) # (w, j) # c) = chain_cost pc ((w, j) # c) + pc_hop pc w u + real k * pc_comp pc u"

fun mask_of :: "nat list \<Rightarrow> nat" where
  "mask_of [] = 0"
| "mask_of (u # us) = set_bit u (mask_of us)"

lemma bit_mask_of [simp]: "bit (mask_of us) i \<longleftrightarrow> i \<in> set us"
  by (induction us) (auto simp: bit_simps)

lemma mask_bound: "set us \<subseteq> {..<n} \<Longrightarrow> mask_of us < 2 ^ n"
proof -
  assume "set us \<subseteq> {..<n}"
  then have "take_bit n (mask_of us) = mask_of us" by (intro bit_eqI) (auto simp: bit_take_bit_iff)
  then show ?thesis by (simp add: take_bit_nat_eq_self_iff)
qed

lemma unset_set: "u \<notin> set us \<Longrightarrow> unset_bit u (set_bit u (mask_of us)) = mask_of us"
  by (intro bit_eqI) (auto simp: bit_simps)

lemma set_unset: "bit used u \<Longrightarrow> set_bit u (unset_bit u used) = (used :: nat)"
  by (intro bit_eqI) (auto simp: bit_simps)

lemma unset_bound: "(used :: nat) < 2 ^ n \<Longrightarrow> unset_bit u used < 2 ^ n"
proof -
  assume "used < 2 ^ n"
  then have "take_bit n used = used" by (simp add: take_bit_nat_eq_self_iff)
  then have "bit used i \<Longrightarrow> i < n" for i by (metis bit_take_bit_iff)
  then have "take_bit n (unset_bit u used) = unset_bit u used" by (intro bit_eqI) (auto simp: bit_simps)
  then show ?thesis by (simp add: take_bit_nat_eq_self_iff)
qed


section \<open>Minima over candidates\<close>

lemma keep_min_le: "ds_cost (foldl (keep_min cand) st xs) \<le> ds_cost st"
proof (induction xs arbitrary: st)
  case (Cons x xs)
  have "ds_cost (keep_min cand st x) \<le> ds_cost st" by (auto simp: keep_min_def split: option.split)
  then show ?case using Cons [of "keep_min cand st x"] by simp
qed simp

lemma keep_min_le_candidate:
  "x \<in> set xs \<Longrightarrow> cand x = Some s \<Longrightarrow> ds_cost (foldl (keep_min cand) st xs) \<le> ds_cost s"
proof (induction xs arbitrary: st)
  case (Cons y xs)
  show ?case
  proof (cases "y = x")
    case True
    then have "ds_cost (keep_min cand st y) \<le> ds_cost s" using Cons.prems by (simp add: keep_min_def)
    then show ?thesis using keep_min_le [of cand "keep_min cand st y" xs] by simp
  qed (use Cons in simp)
qed simp

lemma keep_min_source:
  "foldl (keep_min cand) st xs = st \<or> (\<exists>x \<in> set xs. cand x = Some (foldl (keep_min cand) st xs))"
proof (induction xs arbitrary: st)
  case (Cons x xs)
  have "keep_min cand st x = st \<or> cand x = Some (keep_min cand st x)" by (auto simp: keep_min_def split: option.split)
  then show ?case using Cons [of "keep_min cand st x"] by auto
qed simp

lemma keep_best_spec:
  fixes val :: "'x \<Rightarrow> real option"
  defines "b xs best \<equiv> foldl (keep_best val) best xs"
  shows "fst (b xs best) \<le> fst best"
    and "x \<in> set xs \<Longrightarrow> val x = Some t \<Longrightarrow> fst (b xs best) \<le> t"
    and "b xs best = best \<or> (\<exists>x \<in> set xs. val x = Some (fst (b xs best)) \<and> snd (b xs best) = Some x \<and> fst (b xs best) < fst best)"
proof -
  have step: "fst (keep_best val best x) \<le> fst best" for best x by (auto simp: keep_best_def split: option.split)
  show le: "fst (b xs best) \<le> fst best" for xs best
  proof (induction xs arbitrary: best)
    case (Cons x xs)
    show ?case using order.trans [OF Cons [of "keep_best val best x"] step [of best x]] by (simp add: b_def)
  qed (simp add: b_def)
  show "x \<in> set xs \<Longrightarrow> val x = Some t \<Longrightarrow> fst (b xs best) \<le> t"
  proof (induction xs arbitrary: best)
    case (Cons y xs)
    show ?case
    proof (cases "y = x")
      case True
      then have "fst (keep_best val best y) \<le> t" using Cons.prems by (auto simp: keep_best_def)
      then show ?thesis using le [of xs "keep_best val best y"] by (simp add: b_def)
    qed (use Cons in \<open>simp add: b_def\<close>)
  qed simp
  show "b xs best = best \<or> (\<exists>x \<in> set xs. val x = Some (fst (b xs best)) \<and> snd (b xs best) = Some x \<and> fst (b xs best) < fst best)"
  proof (induction xs arbitrary: best)
    case (Cons x xs)
    have e: "b (x # xs) best = b xs (keep_best val best x)" by (simp add: b_def)
    show ?case using Cons [of "keep_best val best x"] unfolding e
      by (auto simp: keep_best_def split: option.splits if_splits)
  qed (simp add: b_def)
qed

section \<open>The table holds the cheapest pipelines\<close>

definition cell :: "PlanCosts \<Rightarrow> nat \<Rightarrow> nat \<Rightarrow> nat \<Rightarrow> dpState" where "cell pc l u used = dp_rows pc l ! l ! u ! used"

lemma length_dp_rows [simp]: "length (dp_rows pc l) = Suc l"
  by (induction l) (simp_all add: Let_def)

lemma dp_rows_prefix: "l \<le> n \<Longrightarrow> dp_rows pc n ! l = dp_rows pc l ! l"
  by (induction n) (auto simp: Let_def nth_append le_Suc_eq)

lemma cell_0: "u < pc_nodes pc \<Longrightarrow> used < 2 ^ pc_nodes pc \<Longrightarrow> cell pc 0 u used = unset_state"
  by (simp add: cell_def)

lemma dp_pairs_iff: "(w, start) \<in> set (dp_pairs pc l u mp) \<longleftrightarrow> w < pc_nodes pc \<and> w \<noteq> u \<and> bit mp w \<and> 1 \<le> start \<and> start < l"
  by (auto simp: dp_pairs_def intro!: bexI [of _ w])

lemma dp_cell_bit:
  "bit used u \<Longrightarrow> dp_cell pc f l u used =
     foldl (keep_min (dp_candidate pc f l u (unset_bit u used))) (dp_base pc l u used) (dp_pairs pc l u (unset_bit u used))"
  by (simp add: dp_cell_def Let_def)

lemma dp_cell_cong:
  assumes "\<And>start w. 1 \<le> start \<Longrightarrow> start < l \<Longrightarrow> w < pc_nodes pc \<Longrightarrow> f start w (unset_bit u used) = g start w (unset_bit u used)"
  shows "dp_cell pc f l u used = dp_cell pc g l u used"
proof -
  have cong: "foldl (keep_min (dp_candidate pc f l u mp)) st xs = foldl (keep_min (dp_candidate pc g l u mp)) st xs"
    if "\<And>w start. (w, start) \<in> set xs \<Longrightarrow> f start w mp = g start w mp" for st xs mp
    using that by (intro foldl_cong) (auto simp: keep_min_def dp_candidate_def)
  have "foldl (keep_min (dp_candidate pc f l u (unset_bit u used))) (dp_base pc l u used) (dp_pairs pc l u (unset_bit u used)) =
      foldl (keep_min (dp_candidate pc g l u (unset_bit u used))) (dp_base pc l u used) (dp_pairs pc l u (unset_bit u used))"
    by (intro cong assms) (auto simp: dp_pairs_iff)
  then show ?thesis by (simp add: dp_cell_def Let_def)
qed

lemma cell_Suc:
  assumes "u < pc_nodes pc" and "used < 2 ^ pc_nodes pc"
  shows "cell pc (Suc l) u used = dp_cell pc (cell pc) (Suc l) u used"
proof -
  have "cell pc (Suc l) u used = dp_cell pc (\<lambda>start w m. dp_rows pc l ! start ! w ! m) (Suc l) u used"
    using assms by (simp add: cell_def Let_def nth_append)
  also have "\<dots> = dp_cell pc (cell pc) (Suc l) u used"
    by (intro dp_cell_cong) (simp add: cell_def dp_rows_prefix [of _ l])
  finally show ?thesis .
qed

definition costs_ok :: "PlanCosts \<Rightarrow> bool" where
  "costs_ok pc \<longleftrightarrow> (\<forall>u. 0 \<le> pc_entry pc u \<and> 0 \<le> pc_comp pc u \<and> 0 \<le> pc_back pc u) \<and> (\<forall>w u. 0 \<le> pc_hop pc w u)"

lemma chain_layers_simps [simp]: "chain_layers [] = 0" "chain_layers ((u, k) # c) = k + chain_layers c"
  by (simp_all add: chain_layers_def)

lemma chain_ok_Cons:
  "chain_ok pc ((u, k) # c) \<longleftrightarrow>
     u < pc_nodes pc \<and> 1 \<le> k \<and> pc_fits pc k u \<and> u \<notin> fst ` set c \<and> (c = [] \<or> chain_ok pc c)"
  by (auto simp: chain_ok_def)

lemma chain_ok_layers: "chain_ok pc c \<Longrightarrow> 1 \<le> chain_layers c"
  by (cases c) (auto simp: chain_ok_def)

lemma chain_ok_used: "chain_ok pc c \<Longrightarrow> mask_of (map fst c) < 2 ^ pc_nodes pc"
  by (intro mask_bound) (auto simp: chain_ok_def)

lemma cell_le_chain:
  "costs_ok pc \<Longrightarrow> chain_ok pc c \<Longrightarrow> chain_cost pc c < 10 ^ 17 \<Longrightarrow>
     ds_cost (cell pc (chain_layers c) (fst (hd c)) (mask_of (map fst c))) \<le> chain_cost pc c"
proof (induction pc c rule: chain_cost.induct)
  case (1 pc)
  then show ?case by (simp add: chain_ok_def)
next
  case (2 pc u k)
  then have ok: "u < pc_nodes pc" "1 \<le> k" "pc_fits pc k u" by (auto simp: chain_ok_def)
  obtain l where l: "k = Suc l" using ok(2) by (cases k) auto
  have used: "mask_of [u] = 2 ^ u" by (simp add: set_bit_eq_or push_bit_eq_mult)
  have "mask_of [u] < 2 ^ pc_nodes pc" by (intro mask_bound) (use ok in auto)
  then have "cell pc k u (mask_of [u]) = dp_cell pc (cell pc) k u (mask_of [u])" unfolding l by (intro cell_Suc ok)
  also have "ds_cost \<dots> \<le> ds_cost (dp_base pc k u (mask_of [u]))"
    unfolding dp_cell_def Let_def by (auto intro: keep_min_le)
  also have "\<dots> = chain_cost pc [(u, k)]" using ok used by (simp add: dp_base_def)
  finally show ?case by simp
next
  case (3 pc u k w j c)
  let ?c = "(w, j) # c" and ?m = "mask_of (map fst ((w, j) # c))"
  have ok: "u < pc_nodes pc" "1 \<le> k" "pc_fits pc k u" "u \<notin> set (map fst ?c)" "chain_ok pc ?c"
    using "3.prems"(2) by (auto simp: chain_ok_Cons)
  have nn: "0 \<le> pc_hop pc w u" "0 \<le> real k * pc_comp pc u" using "3.prems"(1) by (auto simp: costs_ok_def)
  then have lt: "chain_cost pc ?c < 10 ^ 17" using "3.prems"(3) by simp
  have IH: "ds_cost (cell pc (chain_layers ?c) w ?m) \<le> chain_cost pc ?c"
    using "3.IH" [OF "3.prems"(1) ok(5) lt] by simp
  let ?l = "chain_layers ((u, k) # ?c)"
  have l: "?l = k + chain_layers ?c" by simp
  have st: "1 \<le> chain_layers ?c" using chain_ok_layers [OF ok(5)] .
  obtain l' where l': "?l = Suc l'" using ok(2) by (cases ?l) auto
  have unset: "unset_bit u (set_bit u ?m) = ?m" by (intro unset_set) (use ok in auto)
  let ?st = "\<lparr>ds_cost = ds_cost (cell pc (chain_layers ?c) w ?m) + pc_hop pc w u + real k * pc_comp pc u,
              ds_prev = PrevCell (chain_layers ?c) w ?m\<rparr>"
  have cand: "dp_candidate pc (cell pc) ?l u ?m (w, chain_layers ?c) = Some ?st"
    using IH lt ok by (simp add: dp_candidate_def)
  have "cell pc ?l u (set_bit u ?m) = dp_cell pc (cell pc) ?l u (set_bit u ?m)"
    unfolding l' using chain_ok_used [OF "3.prems"(2)] by (intro cell_Suc ok) simp
  also have "ds_cost \<dots> \<le> ds_cost ?st"
  proof -
    have "(w, chain_layers ?c) \<in> set (dp_pairs pc ?l u ?m)" using ok st by (auto simp: dp_pairs_iff chain_ok_Cons bit_simps)
    then have le: "ds_cost (foldl (keep_min (dp_candidate pc (cell pc) ?l u ?m)) b (dp_pairs pc ?l u ?m)) \<le> ds_cost ?st" for b
      using cand by (rule keep_min_le_candidate)
    have bit: "bit (set_bit u ?m) u" by (simp add: bit_simps)
    show ?thesis unfolding dp_cell_bit [OF bit] unset by (rule le)
  qed
  also have "\<dots> \<le> chain_cost pc ((u, k) # ?c)" using IH by simp
  finally show ?case by simp
qed

text \<open>The segments of a pipeline, its first node first.\<close>

fun segments :: "shard_chain \<Rightarrow> (nat \<times> nat \<times> nat) list" where
  "segments [] = []"
| "segments ((u, k) # c) = segments c @ [(u, chain_layers c, chain_layers c + k - 1)]"

lemma reconstruct_step:
  assumes "l \<le> n"
  shows "reconstruct (dp_rows pc n) l u used path =
    (case ds_prev (cell pc l u used) of
        Unset \<Rightarrow> None
      | FirstSegment \<Rightarrow> Some ((u, 0, l - 1) # path)
      | PrevCell start w m \<Rightarrow> reconstruct (dp_rows pc n) start w m ((u, start, l - 1) # path))"
  by (subst reconstruct.simps) (simp only: cell_def dp_rows_prefix [OF assms])

definition traces :: "PlanCosts \<Rightarrow> nat \<Rightarrow> nat \<Rightarrow> nat \<Rightarrow> nat \<Rightarrow> shard_chain \<Rightarrow> bool" where
  "traces pc n l u used c \<longleftrightarrow> chain_ok pc c \<and> fst (hd c) = u \<and> chain_layers c = l \<and> mask_of (map fst c) = used \<and>
     chain_cost pc c = ds_cost (cell pc l u used) \<and>
     (\<forall>path. reconstruct (dp_rows pc n) l u used path = Some (segments c @ path))"

lemma traces_first:
  assumes "l \<le> n" and "1 \<le> l" and "u < pc_nodes pc" and "pc_fits pc l u"
    and "cell pc l u (2 ^ u) = \<lparr>ds_cost = pc_entry pc u + real l * pc_comp pc u, ds_prev = FirstSegment\<rparr>"
  shows "traces pc n l u (2 ^ u) [(u, l)]"
  using assms by (simp add: traces_def chain_ok_def set_bit_eq_or push_bit_eq_mult reconstruct_step)

lemma traces_extend:
  assumes c: "traces pc n start w (unset_bit u used) c"
    and l: "start < l" "l \<le> n" and u: "u < pc_nodes pc" "bit used u" and fits: "pc_fits pc (l - start) u"
    and cell: "cell pc l u used = \<lparr>ds_cost = ds_cost (cell pc start w (unset_bit u used)) + pc_hop pc w u + real (l - start) * pc_comp pc u,
                                   ds_prev = PrevCell start w (unset_bit u used)\<rparr>"
  shows "traces pc n l u used ((u, l - start) # c)"
proof -
  obtain j c' where c': "c = (w, j) # c'" using c by (cases c) (auto simp: traces_def chain_ok_def)
  have "\<not> bit (mask_of (map fst c)) u" using c by (simp add: traces_def bit_simps)
  then have "u \<notin> fst ` set c" by simp
  moreover have "set_bit u (mask_of (map fst c)) = used" using c u set_unset by (simp add: traces_def)
  ultimately show ?thesis using c l u fits cell
    by (auto simp: traces_def chain_ok_Cons c' reconstruct_step)
qed

lemma cell_sound:
  "l \<le> n \<Longrightarrow> u < pc_nodes pc \<Longrightarrow> used < 2 ^ pc_nodes pc \<Longrightarrow> ds_cost (cell pc l u used) < 10 ^ 17 \<Longrightarrow>
     \<exists>c. traces pc n l u used c"
proof (induction l arbitrary: u used rule: less_induct)
  case (less l)
  obtain l' where l': "l = Suc l'" using less.prems cell_0 by (cases l) (auto simp: unset_state_def)
  have e: "cell pc l u used = dp_cell pc (cell pc) l u used" unfolding l' using less.prems by (intro cell_Suc)
  have base: "\<exists>c. traces pc n l u used c" if b: "cell pc l u used = dp_base pc l u used"
  proof -
    have "used = 2 ^ u" "pc_fits pc l u" using less.prems(4) unfolding b
      by (auto simp: dp_base_def unset_state_def split: if_splits)
    then show ?thesis using traces_first [of l n u pc] b less.prems l' by (auto simp: dp_base_def)
  qed
  show ?case
  proof (cases "bit used u")
    case False
    then show ?thesis using e by (intro base) (simp add: dp_cell_def Let_def)
  next
    case True
    let ?m = "unset_bit u used"
    from keep_min_source [of "dp_candidate pc (cell pc) l u ?m" "dp_base pc l u used" "dp_pairs pc l u ?m"]
    consider (b) "cell pc l u used = dp_base pc l u used"
      | (c) w start where "(w, start) \<in> set (dp_pairs pc l u ?m)"
          "dp_candidate pc (cell pc) l u ?m (w, start) = Some (cell pc l u used)"
      unfolding e dp_cell_bit [OF True] by auto
    then show ?thesis
    proof cases
      case c
      have w: "w < pc_nodes pc" "1 \<le> start" "start < l" using c(1) by (auto simp: dp_pairs_iff)
      have d: "ds_cost (cell pc start w ?m) < 10 ^ 17" "pc_fits pc (l - start) u"
          "cell pc l u used = \<lparr>ds_cost = ds_cost (cell pc start w ?m) + pc_hop pc w u + real (l - start) * pc_comp pc u,
                                   ds_prev = PrevCell start w ?m\<rparr>"
        using c(2) by (auto simp: dp_candidate_def Let_def split: if_splits)
      have "\<exists>c. traces pc n start w ?m c"
        using less.IH [of start w ?m] w less.prems d(1) unset_bound by auto
      then show ?thesis using traces_extend [OF _ w(3) less.prems(1) less.prems(2) True d(2) d(3)] by blast
    qed (rule base)
  qed
qed

section \<open>The plans\<close>

definition chain_total :: "PlanCosts \<Rightarrow> shard_chain \<Rightarrow> real" where "chain_total pc c = chain_cost pc c + pc_back pc (fst (hd c))"

text \<open>Pipelines that place all layers within the memory of the nodes; costs from \<open>10 ^ 17\<close> seconds on count as infinite in the code.\<close>

definition feasible :: "PlanCosts \<Rightarrow> shard_chain \<Rightarrow> bool" where
  "feasible pc c \<longleftrightarrow> chain_ok pc c \<and> chain_layers c = pc_layers pc \<and> chain_cost pc c < 10 ^ 17"

abbreviation table :: "PlanCosts \<Rightarrow> dpState list list list" where "table pc \<equiv> dp_rows pc (pc_layers pc)"

lemma total_cost_cell:
  "total_cost pc (table pc) (u, used) =
     (if ds_cost (cell pc (pc_layers pc) u used) \<ge> 10 ^ 17 then None else Some (ds_cost (cell pc (pc_layers pc) u used) + pc_back pc u))"
  by (simp add: total_cost_def cell_def)

lemma mask_of_pos: "us \<noteq> [] \<Longrightarrow> 1 \<le> mask_of us"
proof (cases us)
  case (Cons u us')
  have "bit (mask_of us) u" unfolding bit_mask_of using Cons by simp
  then have "mask_of us \<noteq> 0" by (metis bit_0_eq bot_apply bot_bool_def)
  then show ?thesis by simp
qed simp

lemma feasible_considered:
  assumes ok: "costs_ok pc" and f: "feasible pc c"
  obtains t where "total_cost pc (table pc) (fst (hd c), mask_of (map fst c)) = Some t" and "t \<le> chain_total pc c"
    and "(fst (hd c), mask_of (map fst c)) \<in> set [(u, used). u \<leftarrow> [0..<pc_nodes pc], used \<leftarrow> [1..<2 ^ pc_nodes pc]]"
proof -
  have c: "chain_ok pc c" "chain_layers c = pc_layers pc" "chain_cost pc c < 10 ^ 17" using f by (auto simp: feasible_def)
  have le: "ds_cost (cell pc (pc_layers pc) (fst (hd c)) (mask_of (map fst c))) \<le> chain_cost pc c"
    using cell_le_chain [OF ok c(1,3)] c(2) by simp
  have u: "fst (hd c) < pc_nodes pc" using c(1) by (cases c) (auto simp: chain_ok_def)
  have "1 \<le> mask_of (map fst c)" using c(1) by (intro mask_of_pos) (simp add: chain_ok_def)
  then have "(fst (hd c), mask_of (map fst c)) \<in> set [(u, used). u \<leftarrow> [0..<pc_nodes pc], used \<leftarrow> [1..<2 ^ pc_nodes pc]]"
    using u chain_ok_used [OF c(1)] by (auto intro!: bexI [of _ "fst (hd c)"])
  then show ?thesis using that le c(3) by (auto simp: total_cost_cell chain_total_def)
qed

lemma pick_best_cases:
  assumes ok: "costs_ok pc"
  obtains (none) "snd (pick_best pc (table pc)) = None" and "\<forall>c. feasible pc c \<longrightarrow> 10 ^ 18 \<le> chain_total pc c"
  | (best) u used c where "snd (pick_best pc (table pc)) = Some (u, used)" and "feasible pc c"
      and "\<forall>path. reconstruct (table pc) (pc_layers pc) u used path = Some (segments c @ path)"
      and "\<forall>c'. feasible pc c' \<longrightarrow> chain_total pc c \<le> chain_total pc c'"
proof -
  let ?xs = "[(u, used). u \<leftarrow> [0..<pc_nodes pc], used \<leftarrow> [1..<2 ^ pc_nodes pc]]"
  let ?val = "total_cost pc (table pc)" and ?b = "pick_best pc (table pc)"
  note spec2 = keep_best_spec(2) [where val = ?val and xs = ?xs and best = "(10 ^ 18, None)", folded pick_best_def]
    and spec3 = keep_best_spec(3) [where val = ?val and xs = ?xs and best = "(10 ^ 18, None)", folded pick_best_def]
  have least: "fst ?b \<le> chain_total pc c" if f: "feasible pc c" for c
  proof -
    obtain t where "?val (fst (hd c), mask_of (map fst c)) = Some t" "t \<le> chain_total pc c"
      "(fst (hd c), mask_of (map fst c)) \<in> set ?xs"
      using feasible_considered [OF ok f] .
    then show ?thesis using spec2 by (meson order.trans)
  qed
  from spec3 show thesis
  proof (elim disjE bexE conjE)
    assume "?b = (10 ^ 18, None)"
    then show thesis using least by (intro none) auto
  next
    fix x assume x: "x \<in> set ?xs" "?val x = Some (fst ?b)" "snd ?b = Some x"
    obtain u used where uu: "x = (u, used)" by (cases x)
    have lt: "u < pc_nodes pc" "used < 2 ^ pc_nodes pc" using x(1) uu by auto
    have d: "ds_cost (cell pc (pc_layers pc) u used) < 10 ^ 17"
      and t: "fst ?b = ds_cost (cell pc (pc_layers pc) u used) + pc_back pc u"
      using x(2) by (auto simp: uu total_cost_cell split: if_splits)
    obtain c where c: "traces pc (pc_layers pc) (pc_layers pc) u used c" using cell_sound [OF order.refl lt d] ..
    then have "feasible pc c" and tot: "chain_total pc c = fst ?b"
      using d t by (auto simp: traces_def feasible_def chain_total_def)
    then show thesis using c x(3) uu least by (intro best [of u used c]) (auto simp: traces_def tot)
  qed
qed

definition candidates :: "ModelInfo \<Rightarrow> LlmNode list \<Rightarrow> LlmNode list" where "candidates m nodes = take 10 (filterEligible m nodes)"

definition candidate_costs :: "(string \<Rightarrow> string list) \<Rightarrow> ModelInfo \<Rightarrow> LlmNode list \<Rightarrow> WorkerCapability list \<Rightarrow> PlanCosts" where
  "candidate_costs ord m nodes caps = plan_costs ord m caps (ln_ID (hd (filterEligible m nodes))) (candidates m nodes)"

lemma transfer_time_nonneg: "0 \<le> transfer_time caps src dst"
proof -
  have "0 < v" if "link_value f src dst = Some v" for f v
    using that by (auto simp: link_value_def split: option.splits if_splits)
  then have "0 \<le> getLatencySeconds caps src dst" "0 < getBandwidthMBs caps src dst"
    by (auto simp: getLatencySeconds_def getBandwidthMBs_def less_imp_le split: option.split)
  then show ?thesis by (simp add: transfer_time_def defaultActivationSize_def)
qed

lemma costs_ok_plan: "costs_ok (plan_costs ord m caps coord nodes)"
  by (auto simp: costs_ok_def plan_costs_def transfer_time_nonneg getComputeLatencyPerLayer_def Let_def)

lemma PlanShardsDynamic_cases:
  assumes "filterEligible m nodes \<noteq> []"
  obtains (none) "PlanShardsDynamic ord m nodes caps = Some (Inl NoValidChain)"
      and "\<forall>c. feasible (candidate_costs ord m nodes caps) c \<longrightarrow> 10 ^ 18 \<le> chain_total (candidate_costs ord m nodes caps) c"
  | (plan) c where "feasible (candidate_costs ord m nodes caps) c"
      and "PlanShardsDynamic ord m nodes caps =
             Some (Inr \<lparr>sp_Model = m, sp_Coordinator = ln_ID (hd (filterEligible m nodes)),
                         sp_Shards = map (shard_of m (candidates m nodes)) (segments c)\<rparr>)"
      and "\<forall>c'. feasible (candidate_costs ord m nodes caps) c' \<longrightarrow>
             chain_total (candidate_costs ord m nodes caps) c \<le> chain_total (candidate_costs ord m nodes caps) c'"
proof -
  let ?pc = "candidate_costs ord m nodes caps"
  have ne: "nodes \<noteq> []" using assms by (auto simp: filterEligible_def slice_sort_def)
  have ok: "costs_ok ?pc" by (simp add: candidate_costs_def costs_ok_plan)
  have e: "PlanShardsDynamic ord m nodes caps =
      (case snd (pick_best ?pc (table ?pc)) of
         None \<Rightarrow> Some (Inl NoValidChain)
       | Some (u, used) \<Rightarrow>
           map_option (\<lambda>path. Inr \<lparr>sp_Model = m, sp_Coordinator = ln_ID (hd (filterEligible m nodes)),
                                    sp_Shards = map (shard_of m (candidates m nodes)) path\<rparr>)
             (reconstruct (table ?pc) (pc_layers ?pc) u used []))"
    using ne assms by (auto simp: PlanShardsDynamic_def Let_def candidate_costs_def candidates_def split: option.split)
  show thesis
    by (rule pick_best_cases [OF ok]) (auto simp: e intro: none plan)
qed

section \<open>Every plan covers the layers\<close>

fun covers :: "int \<Rightarrow> Shard list \<Rightarrow> int \<Rightarrow> bool" where
  "covers a [] b \<longleftrightarrow> a = b"
| "covers a (s # ss) b \<longleftrightarrow> sd_LayerStart s = a \<and> a \<le> sd_LayerEnd s \<and> covers (sd_LayerEnd s + 1) ss b"

definition shard_layers :: "Shard \<Rightarrow> nat" where "shard_layers s = nat (sd_LayerEnd s - sd_LayerStart s + 1)"

lemma covers_append: "covers a (xs @ ys) b \<longleftrightarrow> (\<exists>c. covers a xs c \<and> covers c ys b)"
  by (induction xs arbitrary: a) auto

lemma covers_layers: "covers a ss b \<Longrightarrow> a + int (sum_list (map shard_layers ss)) = b"
  by (induction ss arbitrary: a) (force simp: shard_layers_def)+

lemma shard_of_range [simp]: "sd_LayerStart (shard_of m nodes (u, a, b)) = int a" "sd_LayerEnd (shard_of m nodes (u, a, b)) = int b"
  by (simp_all add: shard_of_def Let_def)

lemma covers_segments:
  "(\<And>u k. (u, k) \<in> set c \<Longrightarrow> 1 \<le> k) \<Longrightarrow> covers 0 (map (shard_of m nodes) (segments c)) (int (chain_layers c))"
proof (induction c rule: segments.induct)
  case (2 u k c)
  then have "covers 0 (map (shard_of m nodes) (segments c)) (int (chain_layers c))" "1 \<le> k" by auto
  then show ?case by (auto simp: covers_append)
qed simp

lemma covers_assign_from:
  "ns \<noteq> [] \<Longrightarrow> cursor < int (mi_TotalLayers m) \<Longrightarrow> covers cursor (assign_from m t cursor ns) (int (mi_TotalLayers m))"
proof (induction m t cursor ns rule: assign_from.induct)
  case (2 m t cursor n eff rest)
  let ?k = "node_layers m t cursor eff (rest = [])"
  let ?fin = "min (cursor + ?k - 1) (int (mi_TotalLayers m) - 1)"
  have k: "1 \<le> ?k" using "2.prems"(2) by (auto simp: node_layers_def)
  show ?case
  proof (cases "?fin + 1 \<ge> int (mi_TotalLayers m)")
    case True
    then show ?thesis using "2.prems"(2) by (simp add: Let_def)
  next
    case False
    then have "rest \<noteq> []" by (auto simp: node_layers_def)
    then have "covers (?fin + 1) (assign_from m t (?fin + 1) rest) (int (mi_TotalLayers m))"
      using "2.IH" [OF refl refl refl] False by simp
    moreover have e: "?fin = cursor + ?k - 1" using False by (simp add: min_def split: if_splits)
    moreover have "cursor + ?k < int (mi_TotalLayers m)" using False unfolding e by simp
    ultimately show ?thesis using k by (simp add: Let_def)
  qed
qed simp

lemma length_effective_ram [simp]: "length (effective_ram m ns) = length ns"
  by (simp add: effective_ram_def split: list.split)

lemma assign_from_length: "length (assign_from m t cursor ns) \<le> length ns"
  by (induction m t cursor ns rule: assign_from.induct) (auto simp: Let_def)

text \<open>The pipeline of a plan made by \<open>assignLayers\<close>: its i-th shard is on the i-th node.\<close>

definition shards_chain :: "Shard list \<Rightarrow> shard_chain" where
  "shards_chain ss = rev (zip [0..<length ss] (map shard_layers ss))"

lemma shards_chain_layers: "covers 0 ss b \<Longrightarrow> int (chain_layers (shards_chain ss)) = b"
proof -
  assume "covers 0 ss b"
  then have "int (sum_list (map shard_layers ss)) = b" using covers_layers by force
  then show ?thesis by (simp add: shards_chain_def chain_layers_def flip: rev_map)
qed

lemma covers_shard_layers: "covers a ss b \<Longrightarrow> s \<in> set ss \<Longrightarrow> 1 \<le> shard_layers s"
  by (induction ss arbitrary: a) (auto simp: shard_layers_def)

lemma shards_chain_ok:
  assumes "covers 0 ss b" and "ss \<noteq> []" and "length ss \<le> pc_nodes pc"
    and "\<And>i. i < length ss \<Longrightarrow> pc_fits pc (shard_layers (ss ! i)) i"
  shows "chain_ok pc (shards_chain ss)"
  using assms covers_shard_layers [OF assms(1)]
  by (auto simp: chain_ok_def shards_chain_def set_zip simp flip: rev_map)

section \<open>Properties\<close>

lemma PlanShardsDynamic_ineligible:
  "filterEligible m nodes = [] \<Longrightarrow> \<exists>e. PlanShardsDynamic ord m nodes caps = Some (Inl e)"
  by (simp add: PlanShardsDynamic_def Let_def)

lemma PlanShardsDynamic_plan:
  assumes "PlanShardsDynamic ord m nodes caps = Some (Inr p)"
  obtains c where "feasible (candidate_costs ord m nodes caps) c"
    and "sp_Shards p = map (shard_of m (candidates m nodes)) (segments c)"
    and "\<forall>c'. feasible (candidate_costs ord m nodes caps) c' \<longrightarrow>
           chain_total (candidate_costs ord m nodes caps) c \<le> chain_total (candidate_costs ord m nodes caps) c'"
proof -
  have ne: "filterEligible m nodes \<noteq> []" using assms PlanShardsDynamic_ineligible [of m nodes ord caps] by auto
  show thesis by (rule PlanShardsDynamic_cases [OF ne, of ord caps]) (use assms that in auto)
qed

lemma PlanShardsDynamic_finds:
  assumes "filterEligible m nodes \<noteq> []" and "feasible (candidate_costs ord m nodes caps) c"
    and "chain_total (candidate_costs ord m nodes caps) c < 10 ^ 18"
  shows "\<exists>p. PlanShardsDynamic ord m nodes caps = Some (Inr p)"
  by (rule PlanShardsDynamic_cases [OF assms(1), of ord caps]) (use assms in \<open>force simp: not_le\<close>)+

lemma PlanShardsDynamic_returns: "PlanShardsDynamic ord m nodes caps \<noteq> None"
proof (cases "filterEligible m nodes = []")
  case False
  then show ?thesis by (rule PlanShardsDynamic_cases [of m nodes ord caps]) auto
qed (use PlanShardsDynamic_ineligible [of m nodes ord caps] in force)

lemma chain_total_ge: "costs_ok pc \<Longrightarrow> chain_cost pc c \<le> chain_total pc c"
  by (simp add: chain_total_def costs_ok_def)

lemma PlanShards_cases:
  assumes "PlanShards ord m nodes caps = Some (Inr p)"
  obtains (dynamic) "PlanShardsDynamic ord m nodes caps = Some (Inr p)"
  | (static) e where "PlanShardsDynamic ord m nodes caps = Some (Inl e)" and "filterEligible m nodes \<noteq> []" and "0 < mi_TotalLayers m"
      and "sp_Shards p = assignLayers m (filterEligible m nodes) (effective_ram m (filterEligible m nodes))
                           (sum_list (effective_ram m (filterEligible m nodes)))"
  using assms by (auto simp: PlanShards_def Let_def split: if_splits option.splits sum.splits)

lemma covers_static:
  assumes "filterEligible m nodes \<noteq> []" and "0 < mi_TotalLayers m"
  shows "covers 0 (assignLayers m (filterEligible m nodes) (effective_ram m (filterEligible m nodes)) t) (int (mi_TotalLayers m))"
proof -
  have "zip (filterEligible m nodes) (effective_ram m (filterEligible m nodes)) \<noteq> []"
    using assms(1) by (metis length_0_conv length_effective_ram length_zip min.idem)
  then show ?thesis unfolding assignLayers_def using assms(2) by (intro covers_assign_from) auto
qed

definition small_model :: ModelInfo where
  "small_model = \<lparr>mi_Name = ''m'', mi_TotalLayers = 1, mi_TotalRAM = 8, mi_HeadCount = 0, mi_EmbedLength = 0, mi_IsAvailable = True, mi_Quantization = []\<rparr>"

definition big_node :: LlmNode where
  "big_node = \<lparr>ln_ID = ''a'', ln_Name = ''a'', ln_FreeRAM = 2 ^ 31, ln_TotalRAM = 2 ^ 32, ln_HasGPU = False, ln_GPUVRAMFree = 0\<rparr>"

lemma small_plan: "\<exists>p. PlanShardsDynamic (\<lambda>_. []) small_model [big_node] [] = Some (Inr p)"
proof (rule PlanShardsDynamic_finds)
  have e: "filterEligible small_model [big_node] = [big_node]"
    by (simp add: filterEligible_def slice_sort_def small_model_def big_node_def ramPerLayer_def)
  then show "filterEligible small_model [big_node] \<noteq> []" by simp
  have r: "required_ram small_model (ln_ID big_node) 1 big_node \<le> ln_FreeRAM big_node"
    by (simp add: required_ram_def small_model_def big_node_def ramPerLayer_def KVCacheRAMAt_def reservedSystemRAM_def)
  have c: "getComputeLatencyPerLayer (\<lambda>_. []) small_model [] big_node = 30 / 1000"
    by (simp add: getComputeLatencyPerLayer_def node_speed_def merge_caps_def big_node_def)
  show "feasible (candidate_costs (\<lambda>_. []) small_model [big_node] []) [(0, 1)]"
    using r c by (simp add: feasible_def chain_ok_def candidate_costs_def e candidates_def plan_costs_def) (simp add: small_model_def)
  show "chain_total (candidate_costs (\<lambda>_. []) small_model [big_node] []) [(0, 1)] < 10 ^ 18"
    using c by (simp add: chain_total_def candidate_costs_def e candidates_def plan_costs_def)
qed

definition tight_model :: ModelInfo where
  "tight_model = \<lparr>mi_Name = ''m'', mi_TotalLayers = 3, mi_TotalRAM = 6, mi_HeadCount = 0, mi_EmbedLength = 0, mi_IsAvailable = True, mi_Quantization = []\<rparr>"

definition tight_nodes :: "LlmNode list" where
  "tight_nodes = [big_node\<lparr>ln_FreeRAM := reservedSystemRAM + 3\<rparr>, big_node\<lparr>ln_ID := ''b'', ln_FreeRAM := 3\<rparr>]"

lemma tight_eligible: "filterEligible tight_model tight_nodes = tight_nodes"
  by (simp add: filterEligible_def slice_sort_def tight_nodes_def tight_model_def big_node_def ramPerLayer_def more_capable_def
      reservedSystemRAM_def)

lemma tight_fits: "pc_fits (candidate_costs ord tight_model tight_nodes []) k u \<Longrightarrow> u < 2 \<Longrightarrow> k \<le> 1"
  by (cases u) (simp_all add: candidate_costs_def plan_costs_def candidates_def tight_eligible,
      simp_all add: tight_nodes_def tight_model_def big_node_def required_ram_def ramPerLayer_def KVCacheRAMAt_def reservedSystemRAM_def)

lemma tight_infeasible: "\<not> feasible (candidate_costs ord tight_model tight_nodes []) c"
proof
  let ?pc = "candidate_costs ord tight_model tight_nodes []"
  assume f: "feasible ?pc c"
  have n: "pc_nodes ?pc = 2" "pc_layers ?pc = 3"
    by (simp_all add: candidate_costs_def plan_costs_def candidates_def tight_eligible) (simp_all add: tight_nodes_def tight_model_def)
  have "k \<le> 1 \<and> u < 2" if "(u, k) \<in> set c" for u k
    using that f tight_fits [of ord k u] n(1) by (auto simp: feasible_def chain_ok_def)
  then have s: "sum_list (map snd c) \<le> sum_list (map (\<lambda>_. 1) c)" and u: "set (map fst c) \<subseteq> {..<2}"
    by (force intro!: sum_list_mono)+
  have "length c = card (set (map fst c))" using f distinct_card [of "map fst c"] by (simp add: feasible_def chain_ok_def)
  also have "\<dots> \<le> 2" using card_mono [OF _ u] by simp
  finally have "chain_layers c \<le> 2" using s by (simp add: chain_layers_def sum_list_triv)
  then show False using f n(2) by (simp add: feasible_def)
qed

lemma tight_dynamic: "PlanShardsDynamic ord tight_model tight_nodes [] = Some (Inl NoValidChain)"
proof -
  have "filterEligible tight_model tight_nodes \<noteq> []" unfolding tight_eligible by (simp add: tight_nodes_def)
  then show ?thesis by (rule PlanShardsDynamic_cases [of _ _ ord "[]"]) (auto simp: tight_infeasible)
qed

text \<open>
  C24: The plan of \<open>PlanShardsDynamic\<close> is one of the pipelines that fit the memory of the candidate
  nodes, and no such pipeline is faster.
\<close>

theorem PlanShardsDynamic_optimal:
  assumes "PlanShardsDynamic ord m nodes caps = Some (Inr p)"
  shows "\<exists>c. feasible (candidate_costs ord m nodes caps) c \<and>
             sp_Shards p = map (shard_of m (candidates m nodes)) (segments c) \<and>
             (\<forall>c'. feasible (candidate_costs ord m nodes caps) c' \<longrightarrow>
                chain_total (candidate_costs ord m nodes caps) c \<le> chain_total (candidate_costs ord m nodes caps) c')"
  using PlanShardsDynamic_plan [OF assms] by metis

theorem PlanShardsDynamic_optimal_witness:
  "\<exists>p c. PlanShardsDynamic (\<lambda>_. []) small_model [big_node] [] = Some (Inr p) \<and>
     sp_Shards p = map (shard_of small_model (candidates small_model [big_node])) (segments c)"
  using small_plan PlanShardsDynamic_optimal by blast

text \<open>
  The planner returns for every input, and the shards of every plan it returns, optimised or
  proportional, cover the layers of the model: they are consecutive ranges from the first layer to
  the last, none empty.
\<close>

theorem PlanShards_covers:
  "PlanShards ord m nodes caps \<noteq> None \<and>
   (\<forall>p. PlanShards ord m nodes caps = Some (Inr p) \<longrightarrow> covers 0 (sp_Shards p) (int (mi_TotalLayers m)))"
proof (intro conjI allI impI)
  show "PlanShards ord m nodes caps \<noteq> None"
    using PlanShardsDynamic_returns [of ord m nodes caps] by (auto simp: PlanShards_def Let_def split: option.split sum.split)
next
  fix p assume p: "PlanShards ord m nodes caps = Some (Inr p)"
  show "covers 0 (sp_Shards p) (int (mi_TotalLayers m))"
  proof (cases rule: PlanShards_cases [OF p])
    case 1
    then obtain c where c: "feasible (candidate_costs ord m nodes caps) c" "sp_Shards p = map (shard_of m (candidates m nodes)) (segments c)"
      by (rule PlanShardsDynamic_plan)
    have "covers 0 (sp_Shards p) (int (chain_layers c))"
      unfolding c(2) using c(1) by (intro covers_segments) (auto simp: feasible_def chain_ok_def)
    then show ?thesis using c(1) by (simp add: feasible_def candidate_costs_def plan_costs_def)
  next
    case 2
    then show ?thesis using covers_static by auto
  qed
qed

theorem PlanShards_covers_witness:
  "\<exists>p. PlanShards (\<lambda>_. []) small_model [big_node] [] = Some (Inr p) \<and> covers 0 (sp_Shards p) 1"
proof -
  obtain p where "PlanShardsDynamic (\<lambda>_. []) small_model [big_node] [] = Some (Inr p)" using small_plan ..
  then have "PlanShards (\<lambda>_. []) small_model [big_node] [] = Some (Inr p)" by (simp add: PlanShards_def) (simp add: small_model_def)
  then show ?thesis using PlanShards_covers [of "\<lambda>_. []" small_model "[big_node]" "[]"] by (auto simp: small_model_def)
qed

text \<open>
  With at most ten eligible nodes the proportional fallback is used only after the search has found
  no pipeline that fits. So a plan of the fallback always gives some node more layers than its
  memory holds, unless its pipeline takes \<open>10 ^ 17\<close> seconds.
\<close>

theorem fallback_overloads:
  assumes "PlanShards ord m nodes caps = Some (Inr p)" and "PlanShardsDynamic ord m nodes caps = Some (Inl e)"
    and "length (filterEligible m nodes) \<le> 10"
    and "chain_total (candidate_costs ord m nodes caps) (shards_chain (sp_Shards p)) < 10 ^ 17"
  shows "\<exists>i < length (sp_Shards p).
           ln_FreeRAM (filterEligible m nodes ! i) <
             required_ram m (ln_ID (hd (filterEligible m nodes))) (shard_layers (sp_Shards p ! i)) (filterEligible m nodes ! i)"
proof (rule ccontr)
  let ?pc = "candidate_costs ord m nodes caps" and ?c = "shards_chain (sp_Shards p)" and ?ns = "filterEligible m nodes"
  assume "\<not> ?thesis"
  moreover have "candidates m nodes = ?ns" using assms(3) by (simp add: candidates_def)
  ultimately have fits: "pc_fits ?pc (shard_layers (sp_Shards p ! i)) i" if "i < length (sp_Shards p)" for i
    using that by (simp add: candidate_costs_def plan_costs_def) (meson leI)
  have st: "?ns \<noteq> []" "0 < mi_TotalLayers m" "sp_Shards p = assignLayers m ?ns (effective_ram m ?ns) (sum_list (effective_ram m ?ns))"
    using PlanShards_cases [OF assms(1)] assms(2) by (metis Inl_Inr_False option.inject)+
  have cov: "covers 0 (sp_Shards p) (int (mi_TotalLayers m))" using covers_static [OF st(1,2)] st(3) by simp
  have len: "length (sp_Shards p) \<le> pc_nodes ?pc"
    using assign_from_length [of m "sum_list (effective_ram m ?ns)" 0 "zip ?ns (effective_ram m ?ns)"] assms(3)
    by (simp add: st(3) assignLayers_def candidate_costs_def plan_costs_def candidates_def)
  have "sp_Shards p \<noteq> []" using cov st(2) by auto
  then have "chain_ok ?pc ?c" using cov len fits by (intro shards_chain_ok)
  moreover have "chain_layers ?c = pc_layers ?pc"
    using shards_chain_layers [OF cov] by (simp add: candidate_costs_def plan_costs_def)
  moreover have "chain_cost ?pc ?c < 10 ^ 17"
    using chain_total_ge [of ?pc ?c] assms(4) costs_ok_plan by (simp add: candidate_costs_def)
  ultimately have "\<exists>p. PlanShardsDynamic ord m nodes caps = Some (Inr p)"
    using assms(4) by (intro PlanShardsDynamic_finds [OF st(1)]) (auto simp: feasible_def)
  then show False using assms(2) by simp
qed

lemma tight_plan:
  "PlanShards ord tight_model tight_nodes [] =
     Some (Inr \<lparr>sp_Model = tight_model, sp_Coordinator = ''a'', sp_Shards = assign_from tight_model 6 0 (zip tight_nodes [3, 3])\<rparr>)"
  using tight_dynamic [of ord]
  by (simp add: PlanShards_def Let_def tight_eligible assignLayers_def effective_ram_def)
     (simp add: tight_model_def tight_nodes_def big_node_def KVCacheRAMAt_def reservedSystemRAM_def)

theorem fallback_overloads_witness:
  "ln_FreeRAM (tight_nodes ! 1) = 3 \<and>
   (\<exists>i < 2. ln_FreeRAM (tight_nodes ! i) <
      required_ram tight_model ''a'' (shard_layers (assign_from tight_model 6 0 (zip tight_nodes [3, 3]) ! i)) (tight_nodes ! i))"
proof -
  have l: "mi_TotalLayers tight_model = 3" by (simp add: tight_model_def)
  have ss: "map shard_layers (assign_from tight_model 6 0 (zip tight_nodes [3, 3])) = [1, 2]"
    by (simp add: tight_nodes_def node_layers_def l shard_layers_def Let_def)
  have len: "length (assign_from tight_model 6 0 (zip tight_nodes [3, 3])) = 2" using ss by (metis length_map length_Cons list.size(3) One_nat_def Suc_1)
  have sp: "getComputeLatencyPerLayer (\<lambda>_. []) tight_model [] (tight_nodes ! i) = 30 / 1000" if "i < 2" for i
    using that by (cases i) (auto simp: getComputeLatencyPerLayer_def node_speed_def merge_caps_def tight_nodes_def big_node_def)
  have tt: "transfer_time [] a b \<le> 1" for a b
    by (simp add: transfer_time_def getLatencySeconds_def getBandwidthMBs_def link_value_def merge_caps_def defaultActivationSize_def)
  have "chain_total (candidate_costs (\<lambda>_. []) tight_model tight_nodes []) [(1, 2), (0, 1)] \<le> 5"
    using sp [of 0] sp [of 1] tt [of "ln_ID (tight_nodes ! 0)" "ln_ID (tight_nodes ! 1)"] tt [of "ln_ID (tight_nodes ! 1)" "ln_ID (hd tight_nodes)"]
      tt [of "ln_ID (hd tight_nodes)" "ln_ID (tight_nodes ! 0)"]
    by (simp add: chain_total_def candidate_costs_def candidates_def tight_eligible plan_costs_def) (simp add: tight_nodes_def big_node_def)
  then have lt: "chain_total (candidate_costs (\<lambda>_. []) tight_model tight_nodes []) [(1, 2), (0, 1)] < 10 ^ 17" by simp
  have chain: "shards_chain (assign_from tight_model 6 0 (zip tight_nodes [3, 3])) = [(1, 2), (0, 1)]"
    unfolding shards_chain_def ss len by (simp add: upt_rec)
  have "ln_ID (hd tight_nodes) = ''a''" "ln_FreeRAM (tight_nodes ! 1) = 3" "length tight_nodes \<le> 10"
    by (simp_all add: tight_nodes_def big_node_def)
  then show ?thesis
    using fallback_overloads [OF tight_plan tight_dynamic, of "\<lambda>_. []"] lt unfolding tight_eligible ShardPlan.simps chain len by metis
qed

end
