(* ===== verification/Llm_Distrib.thy ===== *)
theory Llm_Distrib
  imports Llm_Shards
begin

text \<open>
  Inference on another node: the registry of what the peers can serve (\<open>distrib_registry.go\<close>), the
  frames (\<open>distrib_protocol.go\<close>), the worker (\<open>distrib_worker.go\<close>), the coordinator
  (\<open>distrib_coordinator.go\<close>), the sessions (\<open>distrib_session.go\<close>) and the pipeline that chooses between
  them (\<open>pipeline.go\<close>). Ollama, the model server of a node, is given by the chunks it streams.
\<close>

section \<open>What the peers can serve\<close>

definition capabilityTTL :: duration where "capabilityTTL = 2 * minute"

type_synonym WorkerRegistry = "string \<rightharpoonup> WorkerCapability"

definition Registry_Update :: "time \<Rightarrow> WorkerCapability \<Rightarrow> WorkerRegistry \<Rightarrow> WorkerRegistry" where
  "Registry_Update now cap peers = peers(wc_NodeID cap \<mapsto> cap\<lparr>wc_LastSeen := now\<rparr>)"

definition Registry_Remove :: "string \<Rightarrow> WorkerRegistry \<Rightarrow> WorkerRegistry" where
  "Registry_Remove nodeID peers = peers(nodeID := None)"

definition Registry_All :: "string list \<Rightarrow> WorkerRegistry \<Rightarrow> WorkerCapability list" where
  "Registry_All ks peers = map (\<lambda>k. the (peers k)) ks"

text \<open>A tag serves a model if it is the model or a variant of it, as \<open>llama3:8b-q4_0\<close> is of \<open>llama3:8b\<close>.\<close>

definition tag_matches :: "string \<Rightarrow> string \<Rightarrow> bool" where
  "tag_matches model m \<longleftrightarrow>
     m = model \<or> (length model < length m \<and> take (length model) m = model \<and> m ! length model = CHR ''-'')"

definition CanServe :: "time \<Rightarrow> WorkerRegistry \<Rightarrow> string \<Rightarrow> string \<Rightarrow> int \<Rightarrow> bool" where
  "CanServe now peers nodeID model requiredRAM =
     (case peers nodeID of
        None \<Rightarrow> False
      | Some cap \<Rightarrow>
          if now - wc_LastSeen cap > capabilityTTL then False
          else if \<not> wc_OllamaReady cap then False
          else if wc_FreeRAM cap < requiredRAM then False
          else list_ex (tag_matches model) (wc_Models cap))"

definition consider_worker ::
  "time \<Rightarrow> WorkerRegistry \<Rightarrow> string \<Rightarrow> int \<Rightarrow> string \<Rightarrow> string \<times> int \<Rightarrow> string \<Rightarrow> string \<times> int" where
  "consider_worker now peers model requiredRAM excludeNodeID best nid =
     (let cap = the (peers nid); (bestID, bestRAM) = best in
      if nid = excludeNodeID then best
      else if now - wc_LastSeen cap > capabilityTTL then best
      else if \<not> wc_OllamaReady cap \<or> wc_FreeRAM cap < requiredRAM then best
      else if \<not> list_ex (tag_matches model) (wc_Models cap) then best
      else if wc_FreeRAM cap > bestRAM then (nid, wc_FreeRAM cap) else best)"

definition BestWorker :: "time \<Rightarrow> string list \<Rightarrow> WorkerRegistry \<Rightarrow> string \<Rightarrow> int \<Rightarrow> string \<Rightarrow> string \<times> bool" where
  "BestWorker now ks peers model requiredRAM excludeNodeID =
     (let (bestID, _) = foldl (consider_worker now peers model requiredRAM excludeNodeID) ([], -1) ks
      in (bestID, bestID \<noteq> []))"

section \<open>Messages\<close>

text \<open>Arguments and schemas of tools are JSON values the program passes on.\<close>

record 'j ToolCall =
  tc_Name :: string
  tc_Arguments :: 'j

record 'j ChatMessage =
  cm_Role :: string
  cm_Content :: string
  cm_ToolCalls :: "'j ToolCall list"
  cm_Name :: string

record 'j OllamaTool =
  ot_Name :: string
  ot_Description :: string
  ot_Parameters :: 'j

record 'j ChatToken =
  ct_Token :: string
  ct_Done :: bool
  ct_TokSec :: real
  ct_ToolCalls :: "'j ToolCall list"

record 'j DistribInferRequest =
  di_Model :: string
  di_Messages :: "'j ChatMessage list"
  di_Tools :: "'j OllamaTool list"

datatype InferenceFrameType = FrameTypeInferRequest | FrameTypeToken | FrameTypeInferDone | FrameTypeInferError
  | FrameTypeCancel | FrameTypeOther string

record 'j InferenceFrame =
  if_Type :: InferenceFrameType
  if_SessionID :: string
  if_Request :: "'j DistribInferRequest option"
  if_Token :: string
  if_Done :: bool
  if_TokSec :: real
  if_Error :: string

definition frame :: "InferenceFrameType \<Rightarrow> string \<Rightarrow> string \<Rightarrow> 'j InferenceFrame" where
  "frame t sid err =
     \<lparr>if_Type = t, if_SessionID = sid, if_Request = None, if_Token = [], if_Done = False, if_TokSec = 0, if_Error = err\<rparr>"

definition MaxInferenceFrameBytes :: nat where "MaxInferenceFrameBytes = 32 * 1024 * 1024"

text \<open>
  What a read of a frame meets: the context of the coordinator cancelled, a line (its length in bytes
  and what it decodes to, \<open>None\<close> if it is no frame), or the end of the stream.
\<close>

datatype 'j StreamEvent = CtxDone | Line nat "'j InferenceFrame option" | ReadError

datatype InferError = NotTrusted | BadPeerID | OpenFailed | SendFailed | CtxErr | StreamClosed | FrameTooLarge | BadFrame
  | ReadFailed | WorkerError string | OllamaError string

definition readInferFrame :: "nat \<Rightarrow> 'j InferenceFrame option \<Rightarrow> InferError + 'j InferenceFrame" where
  "readInferFrame len f =
     (if len > MaxInferenceFrameBytes then Inl FrameTooLarge else case f of None \<Rightarrow> Inl BadFrame | Some fr \<Rightarrow> Inr fr)"

section \<open>The local model server\<close>

text \<open>
  \<open>ChatStream\<close>: the lines Ollama sends (\<open>None\<close> for one that is no JSON), up to the first chunk that
  is done; \<open>err\<close> is the failure of the connection after them, if there is one. Cancellation by the
  context is left out: the channel is read until it is closed.
\<close>

record 'j ollamaChatChunk =
  oc_Content :: string
  oc_ToolCalls :: "'j ToolCall list"
  oc_Done :: bool
  oc_EvalCount :: int
  oc_EvalDuration :: int

definition chunk_token :: "'j ollamaChatChunk \<Rightarrow> 'j ChatToken" where
  "chunk_token c =
     \<lparr>ct_Token = oc_Content c, ct_Done = oc_Done c,
      ct_TokSec = (if oc_Done c \<and> oc_EvalDuration c > 0 then real_of_int (oc_EvalCount c) / (real_of_int (oc_EvalDuration c) / 10 ^ 9) else 0),
      ct_ToolCalls = oc_ToolCalls c\<rparr>"

fun ChatStream :: "'j ollamaChatChunk option list \<Rightarrow> InferError option \<Rightarrow> 'j ChatToken list \<times> InferError option" where
  "ChatStream [] err = ([], err)"
| "ChatStream (None # cs) err = ChatStream cs err"
| "ChatStream (Some c # cs) err =
     (if oc_Done c then ([chunk_token c], None)
      else let (toks, e) = ChatStream cs err in (chunk_token c # toks, e))"

section \<open>The worker\<close>

definition token_frame :: "string \<Rightarrow> 'j ChatToken \<Rightarrow> 'j InferenceFrame" where
  "token_frame sid tok =
     \<lparr>if_Type = FrameTypeToken, if_SessionID = sid, if_Request = None, if_Token = ct_Token tok, if_Done = ct_Done tok,
      if_TokSec = ct_TokSec tok, if_Error = []\<rparr>"

text \<open>The loop over the tokens, when the stream takes \<open>room\<close> more frames; false when a write failed.\<close>

fun stream_tokens :: "string \<Rightarrow> nat \<Rightarrow> 'j ChatToken list \<Rightarrow> 'j InferenceFrame list \<times> bool" where
  "stream_tokens sid room [] = ([], True)"
| "stream_tokens sid 0 (tok # toks) = ([], False)"
| "stream_tokens sid (Suc room) (tok # toks) =
     (if ct_Done tok then ([token_frame sid tok], True)
      else let (fs, ok) = stream_tokens sid room toks in (token_frame sid tok # fs, ok))"

definition infer_error_text :: "InferError \<Rightarrow> string" where
  "infer_error_text e = (case e of OllamaError t \<Rightarrow> t | WorkerError t \<Rightarrow> ''worker error: '' @ t | _ \<Rightarrow> ''error'')"

text \<open>
  The frames \<open>handleStream\<close> writes. \<open>first\<close> is what it reads, \<open>running\<close> whether Ollama answers, \<open>answer\<close>
  what it streams for a request, \<open>cancelled\<close> whether another stream with the same session cancelled this
  one by the end.
\<close>

definition worker_handleStream ::
  "bool \<Rightarrow> (InferError + 'j InferenceFrame) \<Rightarrow> bool \<Rightarrow> ('j DistribInferRequest \<Rightarrow> 'j ollamaChatChunk option list \<times> InferError option) \<Rightarrow>
    nat \<Rightarrow> bool \<Rightarrow> 'j InferenceFrame list" where
  "worker_handleStream trusted first running answer room cancelled =
     (if \<not> trusted then [frame FrameTypeInferError [] ''unauthorized: peer not in trusted cluster'']
      else case first of
        Inl _ \<Rightarrow> []
      | Inr fr \<Rightarrow>
          if if_Type fr \<noteq> FrameTypeInferRequest then [frame FrameTypeInferError (if_SessionID fr) ''unexpected frame type'']
          else case if_Request fr of
            None \<Rightarrow> [frame FrameTypeInferError (if_SessionID fr) ''empty inference request'']
          | Some req \<Rightarrow>
              if \<not> running then [frame FrameTypeInferError (if_SessionID fr) ''local Ollama is not running on this worker node'']
              else let (chunks, cerr) = answer req; (toks, err) = ChatStream chunks cerr;
                       (fs, ok) = stream_tokens (if_SessionID fr) room toks in
                if \<not> ok then fs
                else fs @ (case err of
                      Some e \<Rightarrow> if cancelled then [frame FrameTypeInferDone (if_SessionID fr) []]
                                else [frame FrameTypeInferError (if_SessionID fr) (infer_error_text e)]
                    | None \<Rightarrow> [frame FrameTypeInferDone (if_SessionID fr) []]))"

text \<open>
  The set of active streams: the handler of each session, and the handlers whose context is cancelled.
  A handler enters when it accepts a request and leaves when it returns.
\<close>

record worker_state =
  ws_active :: "string \<rightharpoonup> nat"
  ws_cancelled :: "nat set"

definition worker_accept :: "nat \<Rightarrow> string \<Rightarrow> worker_state \<Rightarrow> worker_state" where
  "worker_accept h sid w =
     w\<lparr>ws_active := (ws_active w)(sid \<mapsto> h),
       ws_cancelled := (case ws_active w sid of Some old \<Rightarrow> insert old (ws_cancelled w) | None \<Rightarrow> ws_cancelled w)\<rparr>"

definition worker_return :: "nat \<Rightarrow> string \<Rightarrow> worker_state \<Rightarrow> worker_state" where
  "worker_return h sid w = w\<lparr>ws_active := (ws_active w)(sid := None), ws_cancelled := insert h (ws_cancelled w)\<rparr>"

definition worker_CancelSession :: "string \<Rightarrow> worker_state \<Rightarrow> worker_state" where
  "worker_CancelSession sid w =
     (case ws_active w sid of
        Some h \<Rightarrow> w\<lparr>ws_active := (ws_active w)(sid := None), ws_cancelled := insert h (ws_cancelled w)\<rparr>
      | None \<Rightarrow> w)"

section \<open>The coordinator\<close>

text \<open>
  The loop of \<open>runOnWorker\<close>: the tokens it passes on, the result, and whether it sent a cancel frame.
  The end of the events is the end of the stream.
\<close>

fun read_tokens :: "'j StreamEvent list \<Rightarrow> 'j ChatToken list \<times> InferError option" where
  "read_tokens [] = ([], Some StreamClosed)"
| "read_tokens (CtxDone # es) = ([], Some CtxErr)"
| "read_tokens (ReadError # es) = ([], Some ReadFailed)"
| "read_tokens (Line len f # es) =
     (case readInferFrame len f of
        Inl e \<Rightarrow> ([], Some e)
      | Inr fr \<Rightarrow>
          (case if_Type fr of
             FrameTypeToken \<Rightarrow>
               let tok = \<lparr>ct_Token = if_Token fr, ct_Done = if_Done fr, ct_TokSec = if_TokSec fr, ct_ToolCalls = []\<rparr> in
               if if_Done fr then ([tok], None)
               else let (toks, r) = read_tokens es in (tok # toks, r)
           | FrameTypeInferDone \<Rightarrow> ([], None)
           | FrameTypeInferError \<Rightarrow> ([], Some (WorkerError (if_Error fr)))
           | _ \<Rightarrow> read_tokens es))"

text \<open>How far the connection to the worker gets.\<close>

datatype Connection = PeerUntrusted | PeerBadID | OpenError | WriteError | Opened

definition runOnWorker :: "Connection \<Rightarrow> 'j StreamEvent list \<Rightarrow> 'j ChatToken list \<times> InferError option" where
  "runOnWorker conn events =
     (case conn of
        PeerUntrusted \<Rightarrow> ([], Some NotTrusted)
      | PeerBadID \<Rightarrow> ([], Some BadPeerID)
      | OpenError \<Rightarrow> ([], Some OpenFailed)
      | WriteError \<Rightarrow> ([], Some SendFailed)
      | Opened \<Rightarrow> read_tokens events)"

text \<open>
  \<open>RunDistributed\<close>: \<open>connect\<close> is the connection to a worker and what arrives from it, \<open>local_run\<close> what the
  Ollama of this node streams. The events broadcast are the workers routed to and failed.
\<close>

datatype Broadcast = InferenceRouted string | InferenceFallback string InferError

definition RunDistributed ::
  "string \<times> bool \<Rightarrow> (string \<Rightarrow> Connection \<times> 'j StreamEvent list) \<Rightarrow> 'j ChatToken list \<times> InferError option \<Rightarrow>
    'j ChatToken list \<times> InferError option \<times> Broadcast list" where
  "RunDistributed best connect local_run =
     (let (workerID, found) = best in
      if found then
        let (conn, events) = connect workerID; (toks, r) = runOnWorker conn events in
        case r of
          None \<Rightarrow> (toks, None, [InferenceRouted workerID])
        | Some e \<Rightarrow>
            (toks @ fst local_run, snd local_run, [InferenceRouted workerID, InferenceFallback workerID e])
      else (fst local_run, snd local_run, []))"

text \<open>\<open>pipeline.go\<close>: whether a plan stays on one node.\<close>

definition isSingleNode :: "ShardPlan \<Rightarrow> bool" where
  "isSingleNode p =
     (case sp_Shards p of
        [] \<Rightarrow> True
      | s # ss \<Rightarrow>
          if list_ex (\<lambda>s'. sd_NodeID s' \<noteq> sd_NodeID s) ss then False
          else sd_NodeID s = ''local'' \<or> sd_NodeID s = sp_Coordinator p)"

definition Pipeline_Run ::
  "bool \<Rightarrow> ShardPlan \<Rightarrow> string \<times> bool \<Rightarrow> (string \<Rightarrow> Connection \<times> 'j StreamEvent list) \<Rightarrow>
    'j ChatToken list \<times> InferError option \<Rightarrow> 'j ChatToken list \<times> InferError option \<times> Broadcast list" where
  "Pipeline_Run has_coordinator p best connect local_run =
     (if has_coordinator \<and> \<not> isSingleNode p then RunDistributed best connect local_run
      else (fst local_run, snd local_run, []))"

section \<open>The best worker\<close>

definition serves :: "time \<Rightarrow> WorkerRegistry \<Rightarrow> string \<Rightarrow> int \<Rightarrow> string \<Rightarrow> string \<Rightarrow> bool" where
  "serves now peers model requiredRAM excludeNodeID nid \<longleftrightarrow> nid \<noteq> excludeNodeID \<and> CanServe now peers nid model requiredRAM"

lemma consider_worker_eq:
  assumes "peers nid \<noteq> None"
  shows "consider_worker now peers model req excl best nid =
    (if serves now peers model req excl nid \<and> wc_FreeRAM (the (peers nid)) > snd best then (nid, wc_FreeRAM (the (peers nid))) else best)"
  using assms by (auto simp: consider_worker_def serves_def CanServe_def Let_def split: prod.split)

abbreviation search :: "time \<Rightarrow> WorkerRegistry \<Rightarrow> string \<Rightarrow> int \<Rightarrow> string \<Rightarrow> string \<times> int \<Rightarrow> string list \<Rightarrow> string \<times> int" where
  "search now peers model req excl \<equiv> foldl (consider_worker now peers model req excl)"

lemma consider_cases:
  assumes "peers x \<noteq> None"
  obtains "consider_worker now peers model req excl best x = best"
      and "serves now peers model req excl x \<longrightarrow> wc_FreeRAM (the (peers x)) \<le> snd best"
  | "consider_worker now peers model req excl best x = (x, wc_FreeRAM (the (peers x)))"
      and "serves now peers model req excl x" and "snd best < wc_FreeRAM (the (peers x))"
  by (cases "serves now peers model req excl x \<and> snd best < wc_FreeRAM (the (peers x))")
     (use consider_worker_eq [where peers = peers and nid = x, OF assms, of now model req excl best] that in auto)

lemma search_grows:
  "\<forall>k \<in> set ks. peers k \<noteq> None \<Longrightarrow> snd best \<le> snd (search now peers model req excl best ks)"
proof (induction ks arbitrary: best)
  case (Cons x ks)
  then have "snd (consider_worker now peers model req excl best x) \<le> snd (search now peers model req excl best (x # ks))" by simp
  moreover have "snd best \<le> snd (consider_worker now peers model req excl best x)"
    using Cons.prems by (auto simp: consider_worker_eq)
  ultimately show ?case by linarith
qed simp

lemma search_source:
  "\<forall>k \<in> set ks. peers k \<noteq> None \<Longrightarrow> b = search now peers model req excl best ks \<Longrightarrow>
     b = best \<or> (fst b \<in> set ks \<and> serves now peers model req excl (fst b) \<and> snd b = wc_FreeRAM (the (peers (fst b))))"
proof (induction ks arbitrary: best)
  case (Cons x ks)
  have x: "peers x \<noteq> None" using Cons.prems by simp
  show ?case
    by (rule consider_cases [where peers = peers and x = x and now = now and model = model and req = req and excl = excl and best = best, OF x])
       (use Cons.IH [of "consider_worker now peers model req excl best x"] Cons.prems in auto)
qed simp

lemma search_bound:
  "\<forall>k \<in> set ks. peers k \<noteq> None \<Longrightarrow> k \<in> set ks \<Longrightarrow> serves now peers model req excl k \<Longrightarrow>
     wc_FreeRAM (the (peers k)) \<le> snd (search now peers model req excl best ks)"
proof (induction ks arbitrary: best)
  case (Cons x ks)
  have x: "peers x \<noteq> None" using Cons.prems by simp
  let ?b = "consider_worker now peers model req excl best x"
  show ?case
  proof (cases "k = x")
    case True
    have "wc_FreeRAM (the (peers x)) \<le> snd ?b"
      by (rule consider_cases [where peers = peers and x = x and now = now and model = model and req = req and excl = excl and best = best, OF x]) (use Cons.prems True in auto)
    then show ?thesis using search_grows [of ks peers ?b now model req excl] Cons.prems True by auto
  next
    case False
    then show ?thesis using Cons.IH [of ?b] Cons.prems by simp
  qed
qed simp

lemma BestWorker_spec:
  assumes ord: "map_order ks peers" and ne: "peers [] = None" and req: "0 \<le> req"
  shows "BestWorker now ks peers model req excl = (w, ok) \<Longrightarrow> ok \<longleftrightarrow> (\<exists>k. serves now peers model req excl k)"
    and "BestWorker now ks peers model req excl = (w, True) \<Longrightarrow> serves now peers model req excl w"
    and "BestWorker now ks peers model req excl = (w, True) \<Longrightarrow> serves now peers model req excl k \<Longrightarrow>
           wc_FreeRAM (the (peers k)) \<le> wc_FreeRAM (the (peers w))"
proof -
  let ?b = "foldl (consider_worker now peers model req excl) ([], -1) ks"
  have ks: "k \<in> set ks \<longleftrightarrow> peers k \<noteq> None" for k using ord map_order_mem by fast
  have all: "\<forall>k \<in> set ks. peers k \<noteq> None" using ks by blast
  have e: "BestWorker now ks peers model req excl = (fst ?b, fst ?b \<noteq> [])" by (simp add: BestWorker_def split_beta)
  have mem: "k \<in> set ks" "0 \<le> wc_FreeRAM (the (peers k))" if "serves now peers model req excl k" for k
    using that req by (auto simp: serves_def CanServe_def ks split: option.splits if_splits)
  have le: "wc_FreeRAM (the (peers k)) \<le> snd ?b" if "serves now peers model req excl k" for k
    using search_bound [OF all mem(1) [OF that] that] .
  have dich: "?b = ([], -1) \<or> (fst ?b \<noteq> [] \<and> serves now peers model req excl (fst ?b) \<and> snd ?b = wc_FreeRAM (the (peers (fst ?b))))"
    using search_source [OF all refl, of now model req excl "([], -1)"] ks ne by metis
  show "BestWorker now ks peers model req excl = (w, ok) \<Longrightarrow> ok \<longleftrightarrow> (\<exists>k. serves now peers model req excl k)"
    using dich le mem(2) unfolding e by fastforce
  show "BestWorker now ks peers model req excl = (w, True) \<Longrightarrow> serves now peers model req excl w"
    using dich unfolding e by auto
  show "BestWorker now ks peers model req excl = (w, True) \<Longrightarrow> serves now peers model req excl k \<Longrightarrow>
           wc_FreeRAM (the (peers k)) \<le> wc_FreeRAM (the (peers w))"
    using dich le unfolding e by auto
qed

section \<open>The stream between worker and coordinator\<close>

definition arrive :: "('j InferenceFrame \<Rightarrow> nat) \<Rightarrow> 'j InferenceFrame list \<Rightarrow> 'j StreamEvent list" where
  "arrive len fs = map (\<lambda>f. Line (len f) (Some f)) fs"

lemma arrive_append [simp]: "arrive len (xs @ ys) = arrive len xs @ arrive len ys"
  by (simp add: arrive_def)

definition strip_calls :: "'j ChatToken \<Rightarrow> 'j ChatToken" where "strip_calls tok = tok\<lparr>ct_ToolCalls := []\<rparr>"

text \<open>\<open>ChatStream\<close> marks at most its last token as done, and then it does not fail.\<close>

definition well_ended :: "'j ChatToken list \<Rightarrow> InferError option \<Rightarrow> bool" where
  "well_ended toks err \<longleftrightarrow> (\<forall>t \<in> set (butlast toks). \<not> ct_Done t) \<and> (toks \<noteq> [] \<and> ct_Done (last toks) \<longrightarrow> err = None)"

lemma ChatStream_well_ended: "ChatStream cs err = (toks, e) \<Longrightarrow> well_ended toks e"
proof (induction cs err arbitrary: toks rule: ChatStream.induct)
  case (3 c cs err)
  show ?case
  proof (cases "oc_Done c")
    case True
    then show ?thesis using "3.prems" by (auto simp: well_ended_def)
  next
    case False
    obtain toks' e' where r: "ChatStream cs err = (toks', e')" by fastforce
    then have "well_ended toks' e" and "toks = chunk_token c # toks'" using 3 False by auto
    then show ?thesis using False by (auto simp: well_ended_def chunk_token_def)
  qed
qed (auto simp: well_ended_def)

lemma well_ended_Cons: "well_ended (t # toks) err \<Longrightarrow> \<not> ct_Done t \<Longrightarrow> well_ended toks err"
  by (auto simp: well_ended_def split: if_splits)

lemma stream_tokens_room:
  "well_ended toks err \<Longrightarrow> stream_tokens sid room toks = (map (token_frame sid) (take room toks), length toks \<le> room)"
proof (induction sid room toks rule: stream_tokens.induct)
  case (3 sid room tok toks)
  show ?case
  proof (cases "ct_Done tok")
    case True
    then have "toks = []" using "3.prems" by (cases toks) (auto simp: well_ended_def)
    then show ?thesis using True by simp
  next
    case False
    then show ?thesis using "3.IH" well_ended_Cons [OF "3.prems"] by simp
  qed
qed auto

lemma read_token_frames:
  "\<forall>t \<in> set toks. len (token_frame sid t) \<le> MaxInferenceFrameBytes \<Longrightarrow> well_ended toks err \<Longrightarrow> (toks \<noteq> [] \<longrightarrow> \<not> ct_Done (last toks)) \<Longrightarrow>
    read_tokens (arrive len (map (token_frame sid) toks) @ es) = (map strip_calls toks @ fst (read_tokens es), snd (read_tokens es))"
proof (induction toks)
  case (Cons t toks)
  then have "\<not> ct_Done t" by (cases toks) (auto simp: well_ended_def)
  moreover have "well_ended toks err" using Cons.prems(2) \<open>\<not> ct_Done t\<close> by (rule well_ended_Cons)
  ultimately show ?case using Cons
    by (cases t) (auto simp: arrive_def readInferFrame_def token_frame_def strip_calls_def not_less split: if_splits prod.split)
qed (simp add: arrive_def)

lemma read_done_frames:
  assumes "\<forall>t \<in> set toks. len (token_frame sid t) \<le> MaxInferenceFrameBytes" and "well_ended toks err" and "toks \<noteq> []" and "ct_Done (last toks)"
  shows "read_tokens (arrive len (map (token_frame sid) toks) @ es) = (map strip_calls toks, None)"
proof -
  have t: "toks = butlast toks @ [last toks]" using assms(3) by simp
  have "well_ended (butlast toks) None" using assms(2) by (auto simp: well_ended_def dest: in_set_butlastD)
  moreover have "butlast toks \<noteq> [] \<longrightarrow> \<not> ct_Done (last (butlast toks))" using assms(2) by (auto simp: well_ended_def)
  ultimately have "read_tokens (arrive len (map (token_frame sid) (butlast toks)) @ arrive len [token_frame sid (last toks)] @ es) =
      (map strip_calls (butlast toks) @ [strip_calls (last toks)], None)"
    using assms(1,4) assms(1) [rule_format, OF last_in_set [OF assms(3)]]
    by (subst read_token_frames [where err = None])
       (auto simp: arrive_def readInferFrame_def token_frame_def strip_calls_def not_less dest: in_set_butlastD)
  then show ?thesis by (subst t, subst (2) t) (simp add: arrive_def)
qed

lemma read_end_frame:
  "len (frame FrameTypeInferDone sid m) \<le> MaxInferenceFrameBytes \<Longrightarrow>
     read_tokens (arrive len [frame FrameTypeInferDone sid m]) = ([], None)"
  "len (frame FrameTypeInferError sid m) \<le> MaxInferenceFrameBytes \<Longrightarrow>
     read_tokens (arrive len [frame FrameTypeInferError sid m]) = ([], Some (WorkerError m))"
  by (simp_all add: arrive_def readInferFrame_def frame_def not_less)

lemma read_stream:
  assumes "\<forall>t \<in> set toks. len (token_frame sid t) \<le> MaxInferenceFrameBytes" and "well_ended toks err"
  shows "read_tokens (arrive len (map (token_frame sid) toks) @ es) =
    (if toks \<noteq> [] \<and> ct_Done (last toks) then (map strip_calls toks, None)
     else (map strip_calls toks @ fst (read_tokens es), snd (read_tokens es)))"
  using read_done_frames [OF assms] read_token_frames [OF assms] by auto

definition request_frame :: "string \<Rightarrow> 'j DistribInferRequest \<Rightarrow> 'j InferenceFrame" where
  "request_frame sid req = (frame FrameTypeInferRequest sid [])\<lparr>if_Request := Some req\<rparr>"

lemma worker_frames:
  assumes "answer req = (chunks, cerr)" and "ChatStream chunks cerr = (toks, err)"
  shows "worker_handleStream True (Inr (request_frame sid req)) True answer room cancelled =
    map (token_frame sid) (take room toks) @
      (if length toks \<le> room then
         [case err of Some e \<Rightarrow> if cancelled then frame FrameTypeInferDone sid [] else frame FrameTypeInferError sid (infer_error_text e)
                    | None \<Rightarrow> frame FrameTypeInferDone sid []]
       else [])"
  using assms stream_tokens_room [OF ChatStream_well_ended [OF assms(2)], of sid room]
  by (simp add: worker_handleStream_def request_frame_def frame_def split: option.split)

lemma well_ended_take: "well_ended toks err \<Longrightarrow> n < length toks \<Longrightarrow> well_ended (take n toks) None \<and> (n \<noteq> 0 \<longrightarrow> \<not> ct_Done (last (take n toks)))"
proof -
  assume w: "well_ended toks err" and n: "n < length toks"
  have sub: "set (take n toks) \<subseteq> set (butlast toks)" using n by (metis butlast_conv_take length_butlast less_Suc_eq_le less_imp_Suc_add diff_Suc_1 set_take_subset_set_take add_leE)
  have "last (take n toks) \<in> set (take n toks)" if "n \<noteq> 0" using that n by (intro last_in_set) auto
  then show ?thesis using w sub by (auto simp: well_ended_def dest: in_set_butlastD)
qed

section \<open>Properties\<close>

text \<open>
  C25: Inference on a worker is inference: over a connection that holds, the coordinator passes on the
  tokens that the Ollama of the worker streams, in order, and ends with an error exactly when
  Ollama did. Only the tool calls of the tokens are lost, since a token frame has no field for them.
\<close>

theorem remote_run_faithful:
  assumes "answer req = (chunks, cerr)" and "ChatStream chunks cerr = (toks, err)" and "length toks \<le> room"
    and "\<forall>f \<in> set (worker_handleStream True (Inr (request_frame sid req)) True answer room False). len f \<le> MaxInferenceFrameBytes"
  shows "runOnWorker Opened (arrive len (worker_handleStream True (Inr (request_frame sid req)) True answer room False)) =
    (map strip_calls toks, map_option (\<lambda>e. WorkerError (infer_error_text e)) err)"
proof -
  note w = worker_frames [where answer = answer and room = room and sid = sid and cancelled = False, OF assms(1,2)]
  have len: "\<forall>t \<in> set toks. len (token_frame sid t) \<le> MaxInferenceFrameBytes"
    using assms(3,4) unfolding w by auto
  have we: "well_ended toks err" using assms(2) by (rule ChatStream_well_ended)
  have fin: "len (case err of Some e \<Rightarrow> frame FrameTypeInferError sid (infer_error_text e) | None \<Rightarrow> frame FrameTypeInferDone sid []) \<le> MaxInferenceFrameBytes"
    using assms(3,4) unfolding w by (cases err) auto
  show ?thesis
    using assms(3) we fin unfolding w
    by (auto simp: runOnWorker_def read_stream [OF len we] read_end_frame well_ended_def split: option.splits)
qed

text \<open>
  When the connection breaks after the worker has sent \<open>n\<close> tokens, the coordinator starts over on this
  node without taking anything back: the user gets the beginning of one answer followed by another
  one in full.
\<close>

theorem fallback_repeats:
  assumes "answer req = (chunks, cerr)" and "ChatStream chunks cerr = (toks, err)" and "room < length toks"
    and "connect w = (Opened, arrive len (worker_handleStream True (Inr (request_frame sid req)) True answer room False))"
    and "\<forall>f \<in> set (worker_handleStream True (Inr (request_frame sid req)) True answer room False). len f \<le> MaxInferenceFrameBytes"
  shows "RunDistributed (w, True) connect local_run =
    (map strip_calls (take room toks) @ fst local_run, snd local_run, [InferenceRouted w, InferenceFallback w StreamClosed])"
proof -
  note f = worker_frames [where answer = answer and room = room and sid = sid and cancelled = False, OF assms(1,2)]
  have len: "\<forall>t \<in> set (take room toks). len (token_frame sid t) \<le> MaxInferenceFrameBytes"
    using assms(3,5) unfolding f by auto
  note we = well_ended_take [OF ChatStream_well_ended [OF assms(2)] assms(3)]
  have "read_tokens (arrive len (map (token_frame sid) (take room toks)) @ []) = (map strip_calls (take room toks), Some StreamClosed)"
    using we assms(3) by (subst read_stream [OF len, where err = None]) auto
  then show ?thesis using assms(3,4) unfolding f by (simp add: RunDistributed_def runOnWorker_def)
qed

definition two_chunks :: "unit DistribInferRequest \<Rightarrow> unit ollamaChatChunk option list \<times> InferError option" where
  "two_chunks req =
     ([Some \<lparr>oc_Content = ''Hel'', oc_ToolCalls = [], oc_Done = False, oc_EvalCount = 0, oc_EvalDuration = 0\<rparr>, None,
       Some \<lparr>oc_Content = ''lo'', oc_ToolCalls = [], oc_Done = True, oc_EvalCount = 2, oc_EvalDuration = 0\<rparr>], None)"

definition some_request :: "unit DistribInferRequest" where
  "some_request = \<lparr>di_Model = ''m'', di_Messages = [], di_Tools = []\<rparr>"

theorem remote_run_faithful_witness:
  "fst (runOnWorker Opened (arrive (\<lambda>_. 10) (worker_handleStream True (Inr (request_frame ''s'' some_request)) True two_chunks 5 False))) =
    [\<lparr>ct_Token = ''Hel'', ct_Done = False, ct_TokSec = 0, ct_ToolCalls = []\<rparr>,
     \<lparr>ct_Token = ''lo'', ct_Done = True, ct_TokSec = 0, ct_ToolCalls = []\<rparr>]"
  using remote_run_faithful [of two_chunks some_request "fst (two_chunks some_request)" None _ _ 5 "''s''" "\<lambda>_. 10"]
  by (simp add: two_chunks_def chunk_token_def strip_calls_def MaxInferenceFrameBytes_def)

theorem fallback_repeats_witness:
  "map ct_Token (fst (RunDistributed (''w'', True)
      (\<lambda>_. (Opened, arrive (\<lambda>_. 10) (worker_handleStream True (Inr (request_frame ''s'' some_request)) True two_chunks 1 False)))
      (ChatStream (fst (two_chunks some_request)) None))) = [''Hel'', ''Hel'', ''lo'']"
  by (subst fallback_repeats [where room = 1 and answer = two_chunks and req = some_request and sid = "''s''" and len = "\<lambda>_. 10"
        and chunks = "fst (two_chunks some_request)" and cerr = None, OF _ surjective_pairing])
     (simp_all add: two_chunks_def chunk_token_def strip_calls_def MaxInferenceFrameBytes_def)

text \<open>
  A worker tells streams apart by the session alone. A second stream with the session of a running
  one cancels the first, which still ends with a done frame, so its coordinator takes the tokens so
  far for the whole answer; and when the first one returns, the second can no longer be cancelled.
\<close>

theorem session_collision:
  assumes "ChatStream chunks (Some CtxErr) = (toks, Some CtxErr)" and "answer req = (chunks, Some CtxErr)" and "length toks \<le> room"
    and "\<forall>f \<in> set (worker_handleStream True (Inr (request_frame sid req)) True answer room True). len f \<le> MaxInferenceFrameBytes"
  shows "h1 \<in> ws_cancelled (worker_accept h2 sid (worker_accept h1 sid w)) \<and>
    runOnWorker Opened (arrive len (worker_handleStream True (Inr (request_frame sid req)) True answer room True)) =
      (map strip_calls toks, None) \<and>
    worker_CancelSession sid (worker_return h1 sid (worker_accept h2 sid (worker_accept h1 sid w))) =
      worker_return h1 sid (worker_accept h2 sid (worker_accept h1 sid w))"
proof -
  note f = worker_frames [where answer = answer and room = room and sid = sid and cancelled = True, OF assms(2,1)]
  have len: "\<forall>t \<in> set toks. len (token_frame sid t) \<le> MaxInferenceFrameBytes"
    and fin: "len (frame FrameTypeInferDone sid []) \<le> MaxInferenceFrameBytes"
    using assms(3,4) unfolding f by auto
  have "read_tokens (arrive len (map (token_frame sid) toks) @ arrive len [frame FrameTypeInferDone sid []]) = (map strip_calls toks, None)"
    using ChatStream_well_ended [OF assms(1)] len fin
    by (subst read_stream [where err = "Some CtxErr"]) (auto simp: read_end_frame well_ended_def)
  then show ?thesis using assms(3) unfolding f
    by (simp add: runOnWorker_def worker_accept_def worker_return_def worker_CancelSession_def)
qed

theorem session_collision_witness:
  "runOnWorker Opened (arrive (\<lambda>_. 10)
      (worker_handleStream True (Inr (request_frame ''session-0001'' some_request)) True (\<lambda>r. (butlast (fst (two_chunks r)), Some CtxErr)) 5 True)) =
    ([\<lparr>ct_Token = ''Hel'', ct_Done = False, ct_TokSec = 0, ct_ToolCalls = []\<rparr>], None)"
  using session_collision [of "butlast (fst (two_chunks some_request))" _ "\<lambda>r. (butlast (fst (two_chunks r)), Some CtxErr)"
      some_request 5 "''session-0001''" "\<lambda>_. 10"]
  by (simp add: two_chunks_def chunk_token_def strip_calls_def MaxInferenceFrameBytes_def)

text \<open>
  \<open>BestWorker\<close> finds a peer exactly if one can serve the model, and the one it finds can serve it and has
  the most free memory of those that can.
\<close>

theorem BestWorker_best:
  assumes "map_order ks peers" and "peers [] = None" and "0 \<le> req" and "BestWorker now ks peers model req excl = (w, ok)"
  shows "(ok \<longleftrightarrow> (\<exists>k. serves now peers model req excl k)) \<and>
    (ok \<longrightarrow> serves now peers model req excl w \<and>
       (\<forall>k. serves now peers model req excl k \<longrightarrow> wc_FreeRAM (the (peers k)) \<le> wc_FreeRAM (the (peers w))))"
  using BestWorker_spec [OF assms(1-3), of now model excl w] assms(4) by metis

definition some_worker :: WorkerCapability where
  "some_worker = \<lparr>wc_NodeID = ''p'', wc_NodeName = ''p'', wc_Models = [''m-q4''], wc_FreeRAM = 9, wc_OllamaReady = True,
     wc_LinkLatencies = Map.empty, wc_LinkBandwidths = Map.empty, wc_InferenceSpeeds = Map.empty, wc_LastSeen = 0,
     wc_WhisperReady = False, wc_ImageGenReady = False\<rparr>"

theorem BestWorker_best_witness:
  "serves 5 [''p'' \<mapsto> some_worker] ''m'' 8 ''self'' ''p''"
proof -
  have "BestWorker 5 [''p''] [''p'' \<mapsto> some_worker] ''m'' 8 ''self'' = (''p'', True)"
    by (simp add: BestWorker_def consider_worker_def some_worker_def capabilityTTL_def tag_matches_def)
  then show ?thesis using BestWorker_best [of "[''p'']" "[''p'' \<mapsto> some_worker]" 8 5 "''m''" "''self''" "''p''" True]
    by (simp add: map_order_def)
qed

end
