(* ===== verification/Llm_Chat.thy ===== *)
theory Llm_Chat
  imports Llm_Distrib Cluster Policy_Engine
begin

text \<open>
  The model manager \<open>internal/llm/manager.go\<close> and the catalogue \<open>internal/llm/registry.go\<close>: which nodes and models it
  plans with, where a chat runs, the sessions it registers, and the loop that answers the tool calls of
  a model. Prompts taken from the memory and the index of files are inputs; the events sent to the
  dashboard are values of \<open>ChatEvent\<close>.
\<close>

section \<open>Nodes and models\<close>

definition clusterNodes :: "string list \<Rightarrow> Manager \<Rightarrow> LlmNode list" where
  "clusterNodes ks m =
     map (\<lambda>n. \<lparr>ln_ID = ni_ID n, ln_Name = ni_Name n, ln_FreeRAM = max 0 (sint (ni_RAMTotal n) - sint (ni_RAMUsed n)),
               ln_TotalRAM = sint (ni_RAMTotal n), ln_HasGPU = gi_Available (ni_GPU n), ln_GPUVRAMFree = gi_VRAMFree (ni_GPU n)\<rparr>)
       (filter (\<lambda>n. ni_Status n = StatusOnline) (Manager_List ks m))"

definition clusterFreeRAM :: "string list \<Rightarrow> Manager \<Rightarrow> int" where
  "clusterFreeRAM ks m = sum_list (map ln_FreeRAM (clusterNodes ks m))"

text \<open>What a node tells the others about its own memory: \<open>broadcastWorkerCapability\<close>.\<close>

definition advertised_ram :: "string \<Rightarrow> Manager \<Rightarrow> int" where
  "advertised_ram self m =
     (case cm_nodes m self of
        Some n \<Rightarrow> if ni_RAMTotal n > ni_RAMUsed n then sint (ni_RAMTotal n - ni_RAMUsed n) else 0
      | None \<Rightarrow> 0)"

definition matchingLocalTags :: "string \<Rightarrow> string list \<Rightarrow> string list" where
  "matchingLocalTags base localModels = filter (tag_matches base) localModels"

record DisplayModel =
  dm_Name :: string
  dm_OllamaTag :: string
  dm_RequiredRAM :: int
  dm_DefaultLayers :: nat
  dm_DefaultHeads :: int
  dm_DefaultDim :: int

definition display_model :: "string \<Rightarrow> int \<Rightarrow> nat \<Rightarrow> int \<Rightarrow> int \<Rightarrow> DisplayModel" where
  "display_model tag gb layers heads headDim =
     \<lparr>dm_Name = tag, dm_OllamaTag = tag, dm_RequiredRAM = gb * 1024 * 1024 * 1024, dm_DefaultLayers = layers,
      dm_DefaultHeads = heads, dm_DefaultDim = headDim\<rparr>"

definition displayRegistry :: "DisplayModel list" where
  "displayRegistry =
     [display_model ''llama3.2:3b'' 2 28 24 64,
      display_model ''phi3:mini'' 3 32 32 96,
      display_model ''mistral:7b'' 7 32 32 128,
      display_model ''llama3:8b'' 8 32 32 128,
      display_model ''codellama:34b'' 20 48 64 128,
      display_model ''mixtral:8x7b'' 35 32 32 128,
      display_model ''llama3:70b'' 44 80 64 128]"

definition FindDisplayModel :: "string \<Rightarrow> DisplayModel option" where
  "FindDisplayModel tag = find (\<lambda>m. dm_OllamaTag m = tag) displayRegistry"

definition EstimatedModelInfo :: "DisplayModel \<Rightarrow> ModelInfo" where
  "EstimatedModelInfo dm =
     \<lparr>mi_Name = dm_OllamaTag dm, mi_TotalLayers = dm_DefaultLayers dm, mi_TotalRAM = dm_RequiredRAM dm,
      mi_HeadCount = dm_DefaultHeads dm, mi_EmbedLength = dm_DefaultHeads dm * dm_DefaultDim dm, mi_IsAvailable = False,
      mi_Quantization = ''Q4_K_M''\<rparr>"

text \<open>The details of a model: from Ollama if it answers, from the catalogue, or a guess.\<close>

definition chat_model_info :: "string \<Rightarrow> ModelInfo option \<Rightarrow> ModelInfo" where
  "chat_model_info model fetched =
     (case fetched of
        Some info \<Rightarrow> info
      | None \<Rightarrow>
          (case FindDisplayModel model of
             Some dm \<Rightarrow> EstimatedModelInfo dm
           | None \<Rightarrow> \<lparr>mi_Name = model, mi_TotalLayers = 32, mi_TotalRAM = 4 * 1024 * 1024 * 1024, mi_HeadCount = 32,
                      mi_EmbedLength = 4096, mi_IsAvailable = True, mi_Quantization = ''unknown''\<rparr>))"

record ModelFeasibility =
  mf_Model :: string
  mf_Quantization :: string
  mf_RequiredRAM :: int
  mf_ClusterRAM :: int
  mf_CanRun :: bool
  mf_ShardPlan :: "ShardPlan option"
  mf_FitsSingleNode :: bool
  mf_SingleNodeID :: string
  mf_IsDownloaded :: bool
  mf_OllamaReady :: bool
  mf_DownloadedTags :: "string list"

definition model_feasibility ::
  "(string \<Rightarrow> string list) \<Rightarrow> bool \<Rightarrow> string list \<Rightarrow> (string \<Rightarrow> ModelInfo option) \<Rightarrow> LlmNode list \<Rightarrow> int \<Rightarrow> WorkerCapability list \<Rightarrow>
    DisplayModel \<Rightarrow> ModelFeasibility" where
  "model_feasibility ord ollamaReady localModels fetch nodes clusterFree caps profile =
     (let tags = matchingLocalTags (dm_OllamaTag profile) localModels; isDownloaded = tags \<noteq> [];
          fetched = (if isDownloaded \<and> ollamaReady then fetch (hd tags) else None);
          info = (case fetched of Some i \<Rightarrow> i | None \<Rightarrow> EstimatedModelInfo profile);
          plan = (case PlanShards ord info nodes caps of Some (Inr p) \<Rightarrow> Some p | _ \<Rightarrow> None);
          single = (case plan of Some p \<Rightarrow> length (sp_Shards p) = 1 | None \<Rightarrow> False)
      in \<lparr>mf_Model = dm_OllamaTag profile, mf_Quantization = mi_Quantization info, mf_RequiredRAM = mi_TotalRAM info,
          mf_ClusterRAM = clusterFree, mf_CanRun = plan \<noteq> None, mf_ShardPlan = plan, mf_FitsSingleNode = single,
          mf_SingleNodeID = (case plan of Some p \<Rightarrow> if single then sd_NodeID (hd (sp_Shards p)) else [] | None \<Rightarrow> []),
          mf_IsDownloaded = isDownloaded, mf_OllamaReady = ollamaReady, mf_DownloadedTags = tags\<rparr>)"

definition ModelFeasibilities ::
  "(string \<Rightarrow> string list) \<Rightarrow> bool \<Rightarrow> string list \<Rightarrow> (string \<Rightarrow> ModelInfo option) \<Rightarrow> string list \<Rightarrow> Manager \<Rightarrow> WorkerCapability list \<Rightarrow>
    ModelFeasibility list" where
  "ModelFeasibilities ord ollamaReady localModels fetch ks m caps =
     map (model_feasibility ord ollamaReady (if ollamaReady then localModels else []) fetch (clusterNodes ks m) (clusterFreeRAM ks m) caps)
       displayRegistry"

section \<open>Where a chat runs\<close>

definition local_plan :: "ModelInfo \<Rightarrow> ShardPlan" where
  "local_plan info =
     \<lparr>sp_Model = info, sp_Coordinator = ''local'',
      sp_Shards = [\<lparr>sd_NodeID = ''local'', sd_NodeName = ''local'', sd_LayerStart = 0, sd_LayerEnd = int (mi_TotalLayers info) - 1,
                    sd_AssignedRAM = mi_TotalRAM info\<rparr>]\<rparr>"

text \<open>\<open>latency\<close> is the median latency to a node of the plan, if it could be measured.\<close>

definition chat_plan ::
  "(string \<Rightarrow> string list) \<Rightarrow> ModelInfo \<Rightarrow> LlmNode list \<Rightarrow> WorkerCapability list \<Rightarrow> (string \<Rightarrow> int option) \<Rightarrow> ShardPlan" where
  "chat_plan ord info nodes caps latency =
     (case PlanShards ord info nodes caps of
        Some (Inr plan) \<Rightarrow>
          if length (sp_Shards plan) > 1
          then let peers = filter (\<lambda>s. sd_NodeID s \<noteq> ''local'' \<and> sd_NodeID s \<noteq> sp_Coordinator plan) (sp_Shards plan);
                   quality = List.map_filter (\<lambda>s. latency (sd_NodeID s)) peers
               in if ShouldDistributeInference info nodes quality then plan else local_plan info
          else plan
      | _ \<Rightarrow> local_plan info)"

definition chat_run ::
  "bool \<Rightarrow> ShardPlan \<Rightarrow> string \<times> bool \<Rightarrow> (string \<Rightarrow> Connection \<times> 'j StreamEvent list) \<Rightarrow> 'j ChatToken list \<times> InferError option \<Rightarrow>
    'j ChatToken list \<times> InferError option \<times> Broadcast list" where
  "chat_run has_coordinator plan best connect local_run =
     Pipeline_Run (has_coordinator \<and> length (sp_Shards plan) > 1) plan best connect local_run"

section \<open>Sessions\<close>

text \<open>The registered sessions, and whether a session was cancelled.\<close>

record llm_sessions =
  ls_nextID :: nat
  ls_sessions :: "string set"
  ls_cancelled :: "string set"

definition pad4 :: "nat \<Rightarrow> string" where
  "pad4 n = (let s = show_nat n in replicate (4 - length s) (CHR ''0'') @ s)"

definition registerSession :: "llm_sessions \<Rightarrow> string \<times> llm_sessions" where
  "registerSession m =
     (let n = ls_nextID m + 1; sid = ''session-'' @ pad4 n in (sid, m\<lparr>ls_nextID := n, ls_sessions := insert sid (ls_sessions m)\<rparr>))"

definition unregisterSession :: "string \<Rightarrow> llm_sessions \<Rightarrow> llm_sessions" where
  "unregisterSession sid m = m\<lparr>ls_sessions := ls_sessions m - {sid}\<rparr>"

definition CancelSession :: "string \<Rightarrow> llm_sessions \<Rightarrow> bool \<times> llm_sessions" where
  "CancelSession sid m =
     (if sid \<in> ls_sessions m
      then (True, m\<lparr>ls_sessions := ls_sessions m - {sid}, ls_cancelled := insert sid (ls_cancelled m)\<rparr>) else (False, m))"

section \<open>Tool calls\<close>

text \<open>\<open>strings.SplitN(name, "__", 2)\<close>: the parts around the first double underscore.\<close>

fun split_tool :: "string \<Rightarrow> (string \<times> string) option" where
  "split_tool (a # b # cs) =
     (if a = CHR ''_'' \<and> b = CHR ''_'' then Some ([], cs)
      else case split_tool (b # cs) of None \<Rightarrow> None | Some (s, t) \<Rightarrow> Some (a # s, t))"
| "split_tool _ = None"

datatype 'j ChatEvent = LlmToken string bool | LlmToolCall string string 'j | LlmToolResult string string | LlmDone | LlmTooManyRounds

text \<open>The tokens of one round, up to the first with tool calls: their content, the calls, the events.\<close>

fun take_tokens :: "'j ChatToken list \<Rightarrow> string \<times> 'j ToolCall list \<times> 'j ChatEvent list" where
  "take_tokens [] = ([], [], [])"
| "take_tokens (tok # toks) =
     (if ct_ToolCalls tok \<noteq> [] then ([], ct_ToolCalls tok, [])
      else let (content, calls, evs) = take_tokens toks in (ct_Token tok @ content, calls, LlmToken (ct_Token tok) (ct_Done tok) # evs))"

definition answer_call ::
  "(string \<Rightarrow> string \<Rightarrow> 'j \<Rightarrow> string + string) \<Rightarrow> string \<Rightarrow> 'j ToolCall list \<Rightarrow> 'j ChatMessage list \<times> 'j ChatEvent list \<Rightarrow> 'j ToolCall \<Rightarrow>
    'j ChatMessage list \<times> 'j ChatEvent list" where
  "answer_call callTool content calls st tc =
     (case split_tool (tc_Name tc) of
        None \<Rightarrow> st
      | Some (server, tool) \<Rightarrow>
          let result = (case callTool server tool (tc_Arguments tc) of Inr r \<Rightarrow> r | Inl e \<Rightarrow> ''Error: '' @ e)
          in (fst st @ [\<lparr>cm_Role = ''assistant'', cm_Content = content, cm_ToolCalls = calls, cm_Name = []\<rparr>,
                        \<lparr>cm_Role = ''tool'', cm_Content = result, cm_ToolCalls = [], cm_Name = tc_Name tc\<rparr>],
              snd st @ [LlmToolCall server tool (tc_Arguments tc), LlmToolResult (tc_Name tc) result]))"

text \<open>The rounds; \<open>stream\<close> is what the pipeline delivers for the messages.\<close>

fun chat_rounds ::
  "nat \<Rightarrow> ('j ChatMessage list \<Rightarrow> 'j ChatToken list) \<Rightarrow> (string \<Rightarrow> string \<Rightarrow> 'j \<Rightarrow> string + string) \<Rightarrow> 'j ChatMessage list \<Rightarrow>
    'j ChatMessage list \<times> 'j ChatEvent list" where
  "chat_rounds 0 stream callTool msgs = (msgs, [LlmTooManyRounds])"
| "chat_rounds (Suc n) stream callTool msgs =
     (let (content, calls, evs) = take_tokens (stream msgs) in
      if calls = [] then (msgs, evs @ [LlmDone])
      else let (msgs', evs') = foldl (answer_call callTool content calls) (msgs, []) calls;
               (msgs'', evs'') = chat_rounds n stream callTool msgs'
           in (msgs'', evs @ evs' @ evs''))"

definition maxToolRounds :: nat where "maxToolRounds = 10"

definition Chat ::
  "PolicyEngine option \<Rightarrow> ('j ChatMessage list \<Rightarrow> 'j ChatToken list) \<Rightarrow> (string \<Rightarrow> string \<Rightarrow> 'j \<Rightarrow> string + string) \<Rightarrow>
    'j ChatMessage list \<Rightarrow> llm_sessions \<Rightarrow> (string + string \<times> 'j ChatEvent list) \<times> llm_sessions" where
  "Chat pe stream callTool msgs m =
     (case pe of
        Some e \<Rightarrow>
          let (accepted, _, reason) = Engine_Evaluate ''llm'' e in
          if \<not> accepted then (Inl (''LLM request rejected by policy engine: '' @ reason), m)
          else let (sid, m') = registerSession m
               in (Inr (sid, snd (chat_rounds maxToolRounds stream callTool msgs)), unregisterSession sid m')
      | None \<Rightarrow>
          let (sid, m') = registerSession m
          in (Inr (sid, snd (chat_rounds maxToolRounds stream callTool msgs)), unregisterSession sid m'))"

section \<open>Distribution never happens\<close>

lemma distribute_memory:
  "ShouldDistributeInference info nodes q \<Longrightarrow> n \<in> set nodes \<Longrightarrow> ln_FreeRAM n < mi_TotalRAM info"
  by (auto simp: ShouldDistributeInference_def list_ex_iff not_le split: if_splits)

lemma BestWorker_none:
  assumes "\<forall>k \<in> set ks. peers k \<noteq> None" and "\<forall>k. \<not> serves now peers model req excl k"
  shows "BestWorker now ks peers model req excl = ([], False)"
  using search_source [OF assms(1) refl, of now model req excl "([], -1)"] assms(2)
  by (auto simp: BestWorker_def)

text \<open>
  A chat is only distributed if no node has the memory for the model, and the coordinator only
  routes it to a peer that has. If the memory the peers advertise is not above what the cluster
  lists, every chat therefore runs on the node that got it, whatever plan was made.
\<close>

theorem chats_stay_local:
  assumes "map_order ks peers"
    and "\<forall>k cap. peers k = Some cap \<longrightarrow> (\<exists>n \<in> set nodes. wc_FreeRAM cap \<le> ln_FreeRAM n)"
  shows "chat_run hc (chat_plan ord info nodes caps latency) (BestWorker now ks peers model (mi_TotalRAM info) self) connect local_run =
    (fst local_run, snd local_run, [])"
proof (cases "\<exists>q. ShouldDistributeInference info nodes q")
  case True
  then have small: "\<forall>n \<in> set nodes. ln_FreeRAM n < mi_TotalRAM info" using distribute_memory by blast
  have "\<not> serves now peers model (mi_TotalRAM info) self k" for k
  proof
    assume k: "serves now peers model (mi_TotalRAM info) self k"
    then obtain cap where cap: "peers k = Some cap" "mi_TotalRAM info \<le> wc_FreeRAM cap"
      by (auto simp: serves_def CanServe_def split: option.splits if_splits)
    then obtain n where "n \<in> set nodes" "wc_FreeRAM cap \<le> ln_FreeRAM n" using assms(2) by blast
    then show False using cap(2) small by fastforce
  qed
  then have "BestWorker now ks peers model (mi_TotalRAM info) self = ([], False)"
    using assms(1) map_order_mem by (intro BestWorker_none) fast+
  then show ?thesis by (simp add: chat_run_def Pipeline_Run_def RunDistributed_def)
next
  case False
  then have "length (sp_Shards (chat_plan ord info nodes caps latency)) \<le> 1"
    by (auto simp: chat_plan_def local_plan_def Let_def split: option.split sum.split)
  then show ?thesis by (simp add: chat_run_def Pipeline_Run_def)
qed

theorem chats_stay_local_witness:
  "chat_run True (chat_plan (\<lambda>_. []) tight_model tight_nodes [] (\<lambda>_. None))
     (BestWorker 0 [''p''] [''p'' \<mapsto> some_worker\<lparr>wc_FreeRAM := 3\<rparr>] ''m'' (mi_TotalRAM tight_model) ''a'') (\<lambda>_. (Opened, []))
     ([] :: unit ChatToken list, Some CtxErr) = ([], Some CtxErr, [])"
  by (subst chats_stay_local) (auto simp: map_order_def tight_nodes_def some_worker_def)

section \<open>The transcript\<close>

text \<open>What the loop appends: an assistant message with the calls before every result.\<close>

fun paired :: "'j ChatMessage list \<Rightarrow> bool" where
  "paired [] \<longleftrightarrow> True"
| "paired [m] \<longleftrightarrow> False"
| "paired (a # t # ms) \<longleftrightarrow>
     cm_Role a = ''assistant'' \<and> cm_Role t = ''tool'' \<and> cm_Name t \<in> tc_Name ` set (cm_ToolCalls a) \<and>
     split_tool (cm_Name t) \<noteq> None \<and> paired ms"

lemma paired_append: "paired xs \<Longrightarrow> paired (xs @ ys) \<longleftrightarrow> paired ys"
  by (induction xs rule: paired.induct) auto

lemma answer_call_paired:
  "c \<in> set calls \<Longrightarrow> \<exists>added. fst (answer_call callTool content calls st c) = fst st @ added \<and> paired added"
proof (cases "split_tool (tc_Name c)")
  case (Some p)
  moreover assume "c \<in> set calls"
  ultimately show ?thesis by (cases p) (simp add: answer_call_def Let_def)
qed (simp add: answer_call_def)

lemma answer_calls_paired:
  "set cs \<subseteq> set calls \<Longrightarrow> \<exists>added. fst (foldl (answer_call callTool content calls) st cs) = fst st @ added \<and> paired added"
proof (induction cs arbitrary: st)
  case (Cons c cs)
  obtain added where a: "fst (answer_call callTool content calls st c) = fst st @ added" "paired added"
    using answer_call_paired [of c calls callTool content st] Cons.prems by auto
  obtain added' where "fst (foldl (answer_call callTool content calls) (answer_call callTool content calls st c) cs) =
      fst (answer_call callTool content calls st c) @ added'" "paired added'"
    using Cons.IH [of "answer_call callTool content calls st c"] Cons.prems by auto
  then show ?case using a by (auto simp: paired_append)
qed auto

lemma answer_calls_events:
  "set (snd (foldl (answer_call callTool content calls) (ms, []) cs)) \<inter> {LlmDone, LlmTooManyRounds} = {}"
proof -
  have "set (snd st) \<inter> {LlmDone, LlmTooManyRounds} = {} \<Longrightarrow>
      set (snd (foldl (answer_call callTool content calls) st cs)) \<inter> {LlmDone, LlmTooManyRounds} = {}" for st
    by (induction cs arbitrary: st) (auto simp: answer_call_def Let_def split: option.splits)
  then show ?thesis by simp
qed

lemma take_tokens_events: "set (snd (snd (take_tokens toks))) \<inter> {LlmDone, LlmTooManyRounds} = {}"
  by (induction toks rule: take_tokens.induct) (auto simp: Let_def split: prod.splits)


text \<open>A model that only names tools wrongly is asked the same again until the rounds are used up.\<close>

lemma answer_invalid_calls:
  "\<forall>c \<in> set cs. split_tool (tc_Name c) = None \<Longrightarrow> foldl (answer_call callTool content calls) st cs = st"
  by (induction cs arbitrary: st) (auto simp: answer_call_def)

lemma invalid_tools_spin:
  assumes "take_tokens (stream msgs) = (content, calls, evs)" and "calls \<noteq> []" and "\<forall>c \<in> set calls. split_tool (tc_Name c) = None"
  shows "chat_rounds n stream callTool msgs = (msgs, concat (replicate n evs) @ [LlmTooManyRounds])"
  by (induction n) (simp_all add: assms answer_invalid_calls)

section \<open>Session identifiers\<close>

lemma parse_pad4: "parse_digits 0 (pad4 n) = Some (int n)"
proof -
  have "parse_digits 0 (replicate k (CHR ''0'') @ s) = parse_digits 0 s" for k s
    by (induction k) (simp_all add: digit_val_def)
  then show ?thesis by (simp add: pad4_def Let_def parse_show_nat)
qed

lemma pad4_inj: "pad4 m = pad4 n \<Longrightarrow> m = n"
  by (metis parse_pad4 of_nat_eq_iff option.inject)

definition sessions_ok :: "llm_sessions \<Rightarrow> bool" where
  "sessions_ok m \<longleftrightarrow> ls_sessions m \<subseteq> (\<lambda>k. ''session-'' @ pad4 k) ` {1..ls_nextID m}"

text \<open>
  The identifiers of a node are fresh, but the nodes count alike: the n-th session of one node has
  the identifier of the n-th session of another.
\<close>

theorem session_identifiers:
  assumes "sessions_ok m" and "ls_nextID m = ls_nextID m'"
  shows "fst (registerSession m) \<notin> ls_sessions m \<and> sessions_ok (snd (registerSession m)) \<and>
    sessions_ok (unregisterSession sid m) \<and> sessions_ok (snd (CancelSession sid m)) \<and>
    fst (registerSession m) = fst (registerSession m')"
  using assms by (auto simp: sessions_ok_def registerSession_def unregisterSession_def CancelSession_def Let_def dest!: pad4_inj)

theorem session_identifiers_witness:
  "fst (registerSession \<lparr>ls_nextID = 1, ls_sessions = {}, ls_cancelled = {}\<rparr>) = ''session-0002'' \<and>
   fst (registerSession \<lparr>ls_nextID = 1, ls_sessions = {''session-0001''}, ls_cancelled = {}\<rparr>) = ''session-0002''"
proof -
  have one: "pad4 1 = ''0001''" "pad4 2 = ''0002''" by code_simp+
  have "sessions_ok \<lparr>ls_nextID = 1, ls_sessions = {''session-0001''}, ls_cancelled = {}\<rparr>"
    using one by (simp add: sessions_ok_def)
  then show ?thesis
    using session_identifiers [of "\<lparr>ls_nextID = 1, ls_sessions = {''session-0001''}, ls_cancelled = {}\<rparr>"
        "\<lparr>ls_nextID = 1, ls_sessions = {}, ls_cancelled = {}\<rparr>" "[]"] one
    by (simp add: registerSession_def Let_def numeral_2_eq_2)
qed

end
