(* ===== verification/Llm_Sessions.thy ===== *)
theory Llm_Sessions
  imports Go_Strings
begin

text \<open>
  The chats on disk, \<open>internal/llm/session.go\<close>: one JSON file per session in the directory of chats. The disk
  maps a path to the session its file decodes to, \<open>None\<close> for a file that is no JSON. A write goes
  to a temporary file that is renamed; \<open>SaveFault\<close> says where a write stops.
\<close>

record Message =
  ms_Role :: string
  ms_Content :: string
  ms_SentAt :: time

record Session =
  se_ID :: string
  se_Model :: string
  se_Title :: string
  se_CreatedAt :: time
  se_UpdatedAt :: time
  se_Messages :: "Message list"
  se_LastExtractedIdx :: int

type_synonym disk = "string \<rightharpoonup> Session option"

datatype SessionError = NoHome | InsecureID | ReadSession | UnmarshalSession | WriteSession | RenameSession

definition ensureChatsDir :: "string option \<Rightarrow> string \<Rightarrow> SessionError + string" where
  "ensureChatsDir home dataDir =
     (if dataDir = []
      then case home of None \<Rightarrow> Inl NoHome | Some h \<Rightarrow> Inr (filepath_Join (filepath_Join h ''.openfabric'') ''chats'')
      else Inr (filepath_Join dataDir ''chats''))"

definition insecure_id :: "string \<Rightarrow> bool" where
  "insecure_id sid \<longleftrightarrow> sid = [] \<or> contains sid ''/'' \<or> contains sid [CHR 0x5C] \<or> contains sid ''..''"

definition cleanSessionPath :: "string option \<Rightarrow> string \<Rightarrow> string \<Rightarrow> SessionError + string" where
  "cleanSessionPath home dataDir sid =
     (if insecure_id sid then Inl InsecureID
      else case ensureChatsDir home dataDir of Inl e \<Rightarrow> Inl e | Inr dir \<Rightarrow> Inr (filepath_Join dir (sid @ ''.json'')))"

definition generateTitle :: "string \<Rightarrow> string" where
  "generateTitle content =
     (let ws = str_fields content in if ws = [] then ''New Chat'' else join_with '' '' (take (min 6 (length ws)) ws))"

datatype SaveFault = NoFault | WriteFault | RenameFault

definition saveSession :: "SaveFault \<Rightarrow> string \<Rightarrow> Session \<Rightarrow> disk \<Rightarrow> SessionError option \<times> disk" where
  "saveSession fault path sess d =
     (let tmp = path @ ''.tmp'' in
      case fault of
        WriteFault \<Rightarrow> (Some WriteSession, d(tmp \<mapsto> None))
      | RenameFault \<Rightarrow> (Some RenameSession, d(tmp := None))
      | NoFault \<Rightarrow> (None, d(path \<mapsto> Some sess, tmp := None)))"

definition CreateSession :: "time \<Rightarrow> string \<Rightarrow> SaveFault \<Rightarrow> string option \<Rightarrow> string \<Rightarrow> string \<Rightarrow> disk \<Rightarrow> (SessionError + Session) \<times> disk" where
  "CreateSession now newID fault home dataDir model d =
     (case ensureChatsDir home dataDir of
        Inl e \<Rightarrow> (Inl e, d)
      | Inr dir \<Rightarrow>
          let sess = \<lparr>se_ID = newID, se_Model = model, se_Title = ''New Chat'', se_CreatedAt = now, se_UpdatedAt = now,
                      se_Messages = [], se_LastExtractedIdx = 0\<rparr>
          in case saveSession fault (filepath_Join dir (newID @ ''.json'')) sess d of
               (Some e, d') \<Rightarrow> (Inl e, d')
             | (None, d') \<Rightarrow> (Inr sess, d'))"

definition GetSession :: "string option \<Rightarrow> string \<Rightarrow> string \<Rightarrow> disk \<Rightarrow> SessionError + Session" where
  "GetSession home dataDir sid d =
     (case cleanSessionPath home dataDir sid of
        Inl e \<Rightarrow> Inl e
      | Inr path \<Rightarrow>
          (case d path of
             None \<Rightarrow> Inl ReadSession
           | Some None \<Rightarrow> Inl UnmarshalSession
           | Some (Some sess) \<Rightarrow> Inr sess))"

text \<open>
  The three updates read the session, change it and save it, with no lock around the two. So the model
  has the two halves, and the update that runs them without interruption.
\<close>

definition append_change :: "time \<Rightarrow> Message \<Rightarrow> Session \<Rightarrow> Session" where
  "append_change now msg sess =
     (let sess = (if (se_Title sess = [] \<or> se_Title sess = ''New Chat'') \<and> se_Messages sess = [] \<and> ms_Role msg = ''user''
                  then sess\<lparr>se_Title := generateTitle (ms_Content msg)\<rparr> else sess)
      in sess\<lparr>se_Messages := se_Messages sess @ [msg], se_UpdatedAt := now\<rparr>)"

definition title_change :: "time \<Rightarrow> string \<Rightarrow> Session \<Rightarrow> Session" where
  "title_change now title sess = sess\<lparr>se_Title := trim_space title, se_UpdatedAt := now\<rparr>"

definition extracted_change :: "time \<Rightarrow> int \<Rightarrow> Session \<Rightarrow> Session" where
  "extracted_change now idx sess = sess\<lparr>se_LastExtractedIdx := idx, se_UpdatedAt := now\<rparr>"

definition update_finish :: "SaveFault \<Rightarrow> (Session \<Rightarrow> Session) \<Rightarrow> string option \<Rightarrow> string \<Rightarrow> string \<Rightarrow> Session \<Rightarrow> disk \<Rightarrow> SessionError option \<times> disk" where
  "update_finish fault change home dataDir sid sess d =
     (case cleanSessionPath home dataDir sid of Inl e \<Rightarrow> (Some e, d) | Inr path \<Rightarrow> saveSession fault path (change sess) d)"

definition update_session :: "SaveFault \<Rightarrow> (Session \<Rightarrow> Session) \<Rightarrow> string option \<Rightarrow> string \<Rightarrow> string \<Rightarrow> disk \<Rightarrow> SessionError option \<times> disk" where
  "update_session fault change home dataDir sid d =
     (case GetSession home dataDir sid d of Inl e \<Rightarrow> (Some e, d) | Inr sess \<Rightarrow> update_finish fault change home dataDir sid sess d)"

definition AppendMessage :: "time \<Rightarrow> SaveFault \<Rightarrow> string option \<Rightarrow> string \<Rightarrow> string \<Rightarrow> Message \<Rightarrow> disk \<Rightarrow> SessionError option \<times> disk" where
  "AppendMessage now fault home dataDir sid msg = update_session fault (append_change now msg) home dataDir sid"

definition UpdateTitle :: "time \<Rightarrow> SaveFault \<Rightarrow> string option \<Rightarrow> string \<Rightarrow> string \<Rightarrow> string \<Rightarrow> disk \<Rightarrow> SessionError option \<times> disk" where
  "UpdateTitle now fault home dataDir sid title = update_session fault (title_change now title) home dataDir sid"

definition UpdateLastExtractedIdx :: "time \<Rightarrow> SaveFault \<Rightarrow> string option \<Rightarrow> string \<Rightarrow> string \<Rightarrow> int \<Rightarrow> disk \<Rightarrow> SessionError option \<times> disk" where
  "UpdateLastExtractedIdx now fault home dataDir sid idx = update_session fault (extracted_change now idx) home dataDir sid"

definition DeleteSession :: "string option \<Rightarrow> string \<Rightarrow> string \<Rightarrow> disk \<Rightarrow> SessionError option \<times> disk" where
  "DeleteSession home dataDir sid d =
     (case cleanSessionPath home dataDir sid of Inl e \<Rightarrow> (Some e, d) | Inr path \<Rightarrow> (None, d(path := None)))"

text \<open>The files of the directory in the order they are listed; summaries come without messages.\<close>

definition ends_with :: "string \<Rightarrow> string \<Rightarrow> bool" where
  "ends_with suf s \<longleftrightarrow> length suf \<le> length s \<and> drop (length s - length suf) s = suf"

definition session_newer :: "Session \<Rightarrow> Session \<Rightarrow> bool" where "session_newer a b \<longleftrightarrow> se_UpdatedAt a > se_UpdatedAt b"

definition ListSessions :: "string list \<Rightarrow> string \<Rightarrow> disk \<Rightarrow> Session list" where
  "ListSessions names dir d =
     slice_sort session_newer
       (List.map_filter (\<lambda>name. if \<not> ends_with ''.json'' name \<or> ends_with ''.tmp'' name then None
          else case d (filepath_Join dir name) of Some (Some s) \<Rightarrow> Some (s\<lparr>se_Messages := []\<rparr>) | _ \<Rightarrow> None) names)"

section \<open>Paths\<close>

lemma fields_by_last:
  "x \<noteq> [] \<Longrightarrow> \<forall>c \<in> set x. \<not> sep c \<Longrightarrow> sep s \<Longrightarrow> fields_by sep (a @ s # x) = fields_by sep a @ [x]"
proof (induction sep a rule: fields_by.induct)
  case (1 sep a)
  have e: "fields_by sep [] = []" by (simp add: fields_by.simps [of sep "[]"])
  have "dropWhile sep x = x" using 1(2,3) by (cases x) auto
  moreover have "takeWhile (\<lambda>c. \<not> sep c) x = x" "dropWhile (\<lambda>c. \<not> sep c) x = []" using 1(3) by (auto simp: takeWhile_eq_all_conv)
  ultimately have x: "fields_by sep x = [x]" using 1(2) by (simp only: fields_by.simps [of sep x] Let_def e if_False)
  let ?t = "dropWhile sep a"
  show ?case
  proof (cases "?t = []")
    case True
    then have "\<forall>c \<in> set a. sep c" by simp
    then have "dropWhile sep (a @ s # x) = dropWhile sep x" using 1(4) by simp
    then have "fields_by sep (a @ s # x) = fields_by sep x"
      by (simp only: fields_by.simps [of sep "a @ s # x"] fields_by.simps [of sep x])
    moreover have "fields_by sep a = []" using True by (simp only: fields_by.simps [of sep a] Let_def simp_thms if_True)
    ultimately show ?thesis using x by simp
  next
    case False
    then have d: "dropWhile sep (a @ s # x) = ?t @ s # x" by (metis dropWhile_append1 dropWhile_eq_Nil_conv)
    have tw: "takeWhile (\<lambda>c. \<not> sep c) (?t @ s # x) = takeWhile (\<lambda>c. \<not> sep c) ?t"
      using 1(4) by (intro takeWhile_tail) simp
    have dw: "dropWhile (\<lambda>c. \<not> sep c) (?t @ s # x) = dropWhile (\<lambda>c. \<not> sep c) ?t @ s # x"
      using 1(4) by (intro dropWhile_append3) simp
    show ?thesis
      using False "1.IH" [OF refl False 1(2,3,4)]
      by (simp only: fields_by.simps [of sep "a @ s # x"] fields_by.simps [of sep a] d tw dw Let_def if_False append_Cons
          append_is_Nil_conv simp_thms)
  qed
qed

lemma path_comps_child:
  assumes "x \<noteq> []" and "CHR ''/'' \<notin> set x" and "x \<noteq> ''.''" and "x \<noteq> ''..''" and "dir \<noteq> []"
  shows "path_comps (dir @ ''/'' @ x) = path_comps dir @ [x]" and "is_rooted (dir @ ''/'' @ x) = is_rooted dir"
proof -
  show r: "is_rooted (dir @ ''/'' @ x) = is_rooted dir" using assms(5) by (cases dir) (auto simp: is_rooted_def)
  have "fields_by is_slash (dir @ CHR ''/'' # x) = fields_by is_slash dir @ [x]"
    using assms(1,2) by (intro fields_by_last) (auto simp: is_slash_def)
  then show "path_comps (dir @ ''/'' @ x) = path_comps dir @ [x]"
    using assms(3,4) r by (simp add: path_comps_def clean_step_def)
qed

lemma join_comps_snoc: "join_comps (cs @ [x]) = (if cs = [] then x else join_comps cs @ CHR ''/'' # x)"
  by (induction cs rule: join_comps.induct) auto

section \<open>Properties\<close>

lemma contains_char: "contains s [c] \<longleftrightarrow> c \<in> set s"
  by (simp add: contains_iff in_set_conv_decomp)

definition session_file :: "string \<Rightarrow> string \<Rightarrow> string" where
  "session_file dir sid = show_path (is_rooted dir) (path_comps dir @ [sid @ ''.json''])"

lemma child_file:
  assumes "\<not> insecure_id sid" and "dir \<noteq> []"
  shows "filepath_Join dir (sid @ ''.json'') = session_file dir sid"
proof -
  have "sid @ ''.json'' \<noteq> ''.''" "sid @ ''.json'' \<noteq> ''..''" by (cases sid; simp)+
  moreover have "CHR ''/'' \<notin> set (sid @ ''.json'')" using assms(1) by (auto simp: insecure_id_def contains_char)
  ultimately show ?thesis using assms(2)
    by (simp add: filepath_Join_def filepath_Clean_def session_file_def path_comps_child [simplified] del: append_assoc)
qed

lemma Join_not_empty: "x \<noteq> [] \<Longrightarrow> CHR ''/'' \<notin> set x \<Longrightarrow> x \<noteq> ''.'' \<Longrightarrow> x \<noteq> ''..'' \<Longrightarrow> dir \<noteq> [] \<Longrightarrow> filepath_Join dir x \<noteq> []"
  unfolding filepath_Join_def filepath_Clean_def show_path_def using path_comps_child(1) [of x dir]
  by (simp add: join_comps_snoc)

lemma ensureChatsDir_not_empty: "ensureChatsDir home dataDir = Inr dir \<Longrightarrow> home \<noteq> Some [] \<Longrightarrow> dir \<noteq> []"
  by (auto simp: ensureChatsDir_def Join_not_empty split: if_splits option.splits)

lemma cleanSessionPath_cases:
  assumes "cleanSessionPath home dataDir sid = Inr p" and "home \<noteq> Some []"
  obtains dir where "ensureChatsDir home dataDir = Inr dir" and "p = session_file dir sid" and "\<not> insecure_id sid"
  using assms child_file [OF _ ensureChatsDir_not_empty]
  by (auto simp: cleanSessionPath_def split: if_splits sum.splits)

lemma session_file_inj [simp]: "session_file dir sid = session_file dir sid' \<longleftrightarrow> sid = sid'"
  by (simp add: session_file_def show_path_def join_comps_snoc)

lemma session_file_tmp: "session_file dir sid \<noteq> session_file dir sid' @ ''.tmp''"
proof -
  have n: "last (session_file dir sid) = CHR ''n''" by (simp add: session_file_def show_path_def join_comps_snoc)
  have p: "last (session_file dir sid' @ ''.tmp'') = CHR ''p''" by simp
  show ?thesis
  proof
    assume "session_file dir sid = session_file dir sid' @ ''.tmp''"
    then show False using n p by simp
  qed
qed

text \<open>
  An identifier that passes the check names one file directly in the directory of chats, and no two
  identifiers name the same file.
\<close>

theorem session_paths:
  assumes "cleanSessionPath home dataDir sid = Inr p" and "home \<noteq> Some []"
  shows "\<exists>dir. ensureChatsDir home dataDir = Inr dir \<and> p = show_path (is_rooted dir) (path_comps dir @ [sid @ ''.json'']) \<and>
    (\<forall>sid'. cleanSessionPath home dataDir sid' = Inr p \<longrightarrow> sid' = sid)"
proof -
  obtain dir where d: "ensureChatsDir home dataDir = Inr dir" "p = session_file dir sid"
    using cleanSessionPath_cases [OF assms] .
  have "sid' = sid" if p: "cleanSessionPath home dataDir sid' = Inr p" for sid'
    by (rule cleanSessionPath_cases [OF p assms(2)]) (use d in auto)
  then show ?thesis using d by (auto simp: session_file_def)
qed

theorem session_paths_witness:
  "\<exists>dir. ensureChatsDir None ''/d'' = Inr dir \<and> filepath_Join dir ''s.json'' = show_path (is_rooted dir) (path_comps dir @ [''s.json''])"
proof -
  have "cleanSessionPath None ''/d'' ''s'' = Inr (filepath_Join (filepath_Join ''/d'' ''chats'') ''s.json'')"
    by (simp add: cleanSessionPath_def insecure_id_def ensureChatsDir_def)
  then show ?thesis using session_paths [of None "''/d''" "''s''"] by (fastforce simp: ensureChatsDir_def)
qed

lemma GetSession_file:
  assumes "GetSession home dataDir sid d = Inr sess" and "home \<noteq> Some []"
  obtains dir where "ensureChatsDir home dataDir = Inr dir" and "\<not> insecure_id sid" and "d (session_file dir sid) = Some (Some sess)"
proof (cases "cleanSessionPath home dataDir sid")
  case (Inr p)
  then have "d p = Some (Some sess)" using assms(1) by (simp add: GetSession_def split: option.splits)
  then show ?thesis using that by (metis cleanSessionPath_cases [OF Inr assms(2)])
qed (use assms in \<open>simp add: GetSession_def\<close>)

lemma GetSession_eq:
  assumes "ensureChatsDir home dataDir = Inr dir" and "dir \<noteq> []"
  shows "GetSession home dataDir sid d =
    (if insecure_id sid then Inl InsecureID
     else case d (session_file dir sid) of None \<Rightarrow> Inl ReadSession | Some None \<Rightarrow> Inl UnmarshalSession | Some (Some sess) \<Rightarrow> Inr sess)"
  using assms by (simp add: GetSession_def cleanSessionPath_def child_file)

text \<open>
  A message is appended whole or not at all: when the write or the rename fails, the session reads
  as before, and no other session changes in either case.
\<close>

theorem AppendMessage_atomic:
  assumes "GetSession home dataDir sid d = Inr sess" and "home \<noteq> Some []" and "AppendMessage now fault home dataDir sid msg d = (err, d')"
  shows "GetSession home dataDir sid d' = Inr (if fault = NoFault then append_change now msg sess else sess) \<and>
    (err = None \<longleftrightarrow> fault = NoFault) \<and> (\<forall>sid'. sid' \<noteq> sid \<longrightarrow> GetSession home dataDir sid' d' = GetSession home dataDir sid' d)"
proof -
  obtain dir where dir: "ensureChatsDir home dataDir = Inr dir" "\<not> insecure_id sid" "d (session_file dir sid) = Some (Some sess)"
    using GetSession_file [OF assms(1,2)] .
  have ne: "dir \<noteq> []" using dir(1) assms(2) by (rule ensureChatsDir_not_empty)
  have "(err, d') = saveSession fault (session_file dir sid) (append_change now msg sess) d"
    using assms(1,3) dir ne by (simp add: AppendMessage_def update_session_def update_finish_def cleanSessionPath_def child_file)
  then show ?thesis using dir(2,3) session_file_tmp [of dir] unfolding GetSession_eq [OF dir(1) ne]
    by (cases fault) (auto simp: saveSession_def Let_def)
qed

definition empty_chat :: Session where
  "empty_chat = \<lparr>se_ID = ''s'', se_Model = ''m'', se_Title = ''New Chat'', se_CreatedAt = 0, se_UpdatedAt = 0, se_Messages = [],
     se_LastExtractedIdx = 0\<rparr>"

definition chat_disk :: disk where "chat_disk = [filepath_Join (filepath_Join ''/d'' ''chats'') ''s.json'' \<mapsto> Some empty_chat]"

definition hello :: "string \<Rightarrow> Message" where "hello t = \<lparr>ms_Role = ''user'', ms_Content = t, ms_SentAt = 0\<rparr>"

lemma chat_disk_read: "GetSession None ''/d'' ''s'' chat_disk = Inr empty_chat"
  by (simp add: GetSession_def cleanSessionPath_def insecure_id_def ensureChatsDir_def chat_disk_def)

theorem AppendMessage_atomic_witness:
  "GetSession None ''/d'' ''s'' (snd (AppendMessage 7 RenameFault None ''/d'' ''s'' (hello ''hi'') chat_disk)) = Inr empty_chat"
  using AppendMessage_atomic [OF chat_disk_read _ surjective_pairing, of 7 RenameFault "hello ''hi''"] by simp

text \<open>
  Two appends to one session that overlap both succeed, and the message of the one that writes first
  is lost.
\<close>

theorem overlapping_appends_lose:
  assumes "GetSession home dataDir sid d = Inr sess" and "home \<noteq> Some []"
    and "update_finish NoFault (append_change t1 m1) home dataDir sid sess d = (e1, d1)"
    and "update_finish NoFault (append_change t2 m2) home dataDir sid sess d1 = (e2, d2)"
  shows "e1 = None \<and> e2 = None \<and> (\<exists>sess'. GetSession home dataDir sid d2 = Inr sess' \<and> se_Messages sess' = se_Messages sess @ [m2])"
proof -
  obtain dir where dir: "ensureChatsDir home dataDir = Inr dir" "\<not> insecure_id sid" "d (session_file dir sid) = Some (Some sess)"
    using GetSession_file [OF assms(1,2)] .
  have ne: "dir \<noteq> []" using dir(1) assms(2) by (rule ensureChatsDir_not_empty)
  show ?thesis using assms(3,4) dir ne session_file_tmp [of dir sid sid]
    by (auto simp: update_finish_def cleanSessionPath_def child_file saveSession_def Let_def GetSession_eq append_change_def)
qed

theorem overlapping_appends_lose_witness:
  "\<exists>sess'. GetSession None ''/d'' ''s'' (snd (update_finish NoFault (append_change 2 (hello ''b'')) None ''/d'' ''s'' empty_chat
      (snd (update_finish NoFault (append_change 1 (hello ''a'')) None ''/d'' ''s'' empty_chat chat_disk)))) = Inr sess' \<and>
    se_Messages sess' = [hello ''b'']"
  using overlapping_appends_lose [OF chat_disk_read _ surjective_pairing surjective_pairing, of 1 "hello ''a''" 2 "hello ''b''"]
  by (simp add: empty_chat_def)

end
