(* ===== verification/Audit_Log.thy ===== *)
theory Audit_Log
  imports Go_Strings
begin

text \<open>
  The audit log \<open>internal/shield/audit.go\<close>. Ed25519 and base64 are parameters: \<open>sig\<close> is the text of a
  signature and \<open>ver\<close> checks one; \<open>fmt\<close> is the time format \<open>RFC3339Nano\<close>. A log file is a list of lines,
  an event or text that is no JSON; file 0 is \<open>audit.log\<close> and file \<open>i\<close> is \<open>audit.log.i\<close>. Commands are taken to
  be ASCII, so that their runes are their bytes.
\<close>

record AuditEvent =
  ae_ID :: string
  ae_At :: time
  ae_NodeID :: string
  ae_TaskID :: string
  ae_Category :: string
  ae_Command :: string
  ae_Reason :: string
  ae_Metadata :: "string \<rightharpoonup> string"
  ae_Signature :: string

definition CatCommandAllowed :: string where "CatCommandAllowed = ''command_allowed''"

section \<open>Signatures\<close>

abbreviation rs :: char where "rs \<equiv> CHR 0x1E"

definition signablePayload :: "(time \<Rightarrow> string) \<Rightarrow> AuditEvent \<Rightarrow> string" where
  "signablePayload fmt e =
     ae_ID e @ [rs] @ fmt (ae_At e) @ [rs] @ ae_NodeID e @ [rs] @ ae_Category e @ [rs] @ ae_Command e @ [rs] @ ae_Reason e"

definition sign_event :: "(time \<Rightarrow> string) \<Rightarrow> (string \<Rightarrow> string) \<Rightarrow> AuditEvent \<Rightarrow> AuditEvent" where
  "sign_event fmt sig e = e\<lparr>ae_Signature := sig (signablePayload fmt e)\<rparr>"

datatype VerifyError = NoSignature | BadSignature

text \<open>\<open>ver\<close> also answers no when the signature does not decode.\<close>

definition Verify :: "(time \<Rightarrow> string) \<Rightarrow> (string \<Rightarrow> string \<Rightarrow> bool) \<Rightarrow> AuditEvent \<Rightarrow> VerifyError option" where
  "Verify fmt ver e =
     (if ae_Signature e = [] then Some NoSignature
      else if \<not> ver (signablePayload fmt e) (ae_Signature e) then Some BadSignature else None)"

section \<open>The log\<close>

datatype log_line = EventLine AuditEvent | JunkLine

record AuditLog =
  al_nodeID :: string
  al_files :: "nat \<rightharpoonup> log_line list"
  al_open :: bool
  al_written :: nat

definition maxLogBytes :: nat where "maxLogBytes = 10 * 1024 * 1024"
definition maxRotations :: nat where "maxRotations = 5"
definition defaultTailN :: nat where "defaultTailN = 100"

definition truncate_text :: "string \<Rightarrow> nat \<Rightarrow> string" where
  "truncate_text s n = (if length s \<le> n then s else take n s @ [CHR 0xE2, CHR 0x80, CHR 0xA6])"

definition file_bytes :: "(log_line \<Rightarrow> nat) \<Rightarrow> log_line list \<Rightarrow> nat" where "file_bytes len f = sum_list (map len f)"

definition NewAuditLog :: "(log_line \<Rightarrow> nat) \<Rightarrow> string \<Rightarrow> (nat \<rightharpoonup> log_line list) \<Rightarrow> AuditLog" where
  "NewAuditLog len nodeID disk =
     (let f = (case disk 0 of Some f \<Rightarrow> f | None \<Rightarrow> [])
      in \<lparr>al_nodeID = nodeID, al_files = disk(0 \<mapsto> f), al_open = True, al_written = file_bytes len f\<rparr>)"

text \<open>\<open>os.Rename\<close>, whose failure is ignored: a missing file leaves the target alone.\<close>

definition rename_file :: "nat \<Rightarrow> nat \<Rightarrow> (nat \<rightharpoonup> log_line list) \<Rightarrow> (nat \<rightharpoonup> log_line list)" where
  "rename_file old new disk = (case disk old of None \<Rightarrow> disk | Some f \<Rightarrow> disk(new \<mapsto> f, old := None))"

definition rotate_log :: "bool \<Rightarrow> AuditLog \<Rightarrow> AuditLog" where
  "rotate_log reopens al =
     (let disk = foldl (\<lambda>d i. rename_file i (i + 1) d) (al_files al) (rev [1..<maxRotations]);
          disk = rename_file 0 1 disk
      in if reopens then al\<lparr>al_files := disk(0 \<mapsto> []), al_open := True, al_written := 0\<rparr>
         else al\<lparr>al_files := disk, al_open := False\<rparr>)"

text \<open>What a call of \<open>Record\<close> gives; \<open>writes\<close> and \<open>reopens\<close> say whether the operating system takes the write and opens the new file.\<close>

record audit_call =
  ac_ID :: string
  ac_At :: time
  ac_Category :: string
  ac_TaskID :: string
  ac_Command :: string
  ac_Reason :: string
  ac_Metadata :: "string \<rightharpoonup> string"

definition audit_event :: "(time \<Rightarrow> string) \<Rightarrow> (string \<Rightarrow> string) \<Rightarrow> string \<Rightarrow> audit_call \<Rightarrow> AuditEvent" where
  "audit_event fmt sig nodeID c =
     sign_event fmt sig
       \<lparr>ae_ID = ac_ID c, ae_At = ac_At c, ae_NodeID = nodeID, ae_TaskID = ac_TaskID c, ae_Category = ac_Category c,
        ae_Command = truncate_text (ac_Command c) 256, ae_Reason = ac_Reason c, ae_Metadata = ac_Metadata c, ae_Signature = []\<rparr>"

definition Audit_Record ::
  "(time \<Rightarrow> string) \<Rightarrow> (string \<Rightarrow> string) \<Rightarrow> (log_line \<Rightarrow> nat) \<Rightarrow> bool \<Rightarrow> bool \<Rightarrow> audit_call \<Rightarrow> AuditLog \<Rightarrow> AuditLog" where
  "Audit_Record fmt sig len writes reopens c al =
     (if \<not> al_open al then al
      else let line = EventLine (audit_event fmt sig (al_nodeID al) c) in
        if \<not> writes then al
        else let al = al\<lparr>al_files := (al_files al)(0 \<mapsto> the (al_files al 0) @ [line]), al_written := al_written al + len line\<rparr>
             in if al_written al \<ge> maxLogBytes then rotate_log reopens al else al)"

definition Audit_Close :: "AuditLog \<Rightarrow> AuditLog" where "Audit_Close al = al\<lparr>al_open := False\<rparr>"

definition Tail :: "int \<Rightarrow> AuditLog \<Rightarrow> AuditEvent list" where
  "Tail n al =
     (let n = (if n \<le> 0 then defaultTailN else nat n) in
      case al_files al 0 of
        None \<Rightarrow> []
      | Some f \<Rightarrow> List.map_filter (\<lambda>l. case l of EventLine e \<Rightarrow> Some e | JunkLine \<Rightarrow> None) (drop (length f - n) f))"

definition ViolationCount :: "time \<Rightarrow> duration \<Rightarrow> AuditLog \<Rightarrow> nat" where
  "ViolationCount now window al =
     length (filter (\<lambda>e. ae_At e > now - window \<and> ae_Category e \<noteq> CatCommandAllowed) (Tail 10000 al))"

section \<open>What a signature binds\<close>

lemma until_sep: "c \<notin> set x \<Longrightarrow> c \<notin> set y \<Longrightarrow> x @ c # xs = y @ c # ys \<longleftrightarrow> x = y \<and> xs = ys"
proof (induction x arbitrary: y)
  case Nil
  then show ?case by (cases y) auto
next
  case (Cons a x)
  then show ?case by (cases y) auto
qed

definition separable :: "(time \<Rightarrow> string) \<Rightarrow> AuditEvent \<Rightarrow> bool" where
  "separable fmt e \<longleftrightarrow> rs \<notin> set (ae_ID e @ fmt (ae_At e) @ ae_NodeID e @ ae_Category e @ ae_Command e)"

text \<open>
  For events whose fields are free of the separator the payload, and so the signature, determines
  identifier, time, node, category, command and reason.
\<close>

theorem payload_binds:
  assumes "separable fmt e" and "separable fmt e'" and "signablePayload fmt e = signablePayload fmt e'" and "inj fmt"
  shows "ae_ID e = ae_ID e' \<and> ae_At e = ae_At e' \<and> ae_NodeID e = ae_NodeID e' \<and> ae_Category e = ae_Category e' \<and>
    ae_Command e = ae_Command e' \<and> ae_Reason e = ae_Reason e'"
  using assms by (simp add: signablePayload_def separable_def until_sep inj_eq)

text \<open>
  But commands and reasons are not checked for the separator, and the task and the metadata are not
  signed: the signature of one event also verifies another, with an end of the command moved to the
  reason, or any other task and metadata.
\<close>

theorem payload_ambiguous:
  assumes "ae_Command e = cmd @ rs # tail" and "Verify fmt ver e = None"
  shows "Verify fmt ver (e\<lparr>ae_Command := cmd, ae_Reason := tail @ rs # ae_Reason e, ae_TaskID := t, ae_Metadata := meta\<rparr>) = None"
  using assms by (simp add: Verify_def signablePayload_def split: if_splits)

definition sample_event :: AuditEvent where
  "sample_event = \<lparr>ae_ID = ''1'', ae_At = 0, ae_NodeID = ''n'', ae_TaskID = ''t'', ae_Category = ''command_rejected'',
     ae_Command = ''rm'' @ rs # '' -rf'', ae_Reason = ''no'', ae_Metadata = Map.empty, ae_Signature = ''s''\<rparr>"

theorem payload_ambiguous_witness:
  "Verify (\<lambda>_. []) (\<lambda>p s. s = ''s'') (sample_event\<lparr>ae_Command := ''rm'', ae_Reason := '' -rf'' @ rs # ''no'', ae_TaskID := [], ae_Metadata := Map.empty\<rparr>) = None"
  using payload_ambiguous [of sample_event "''rm''" "'' -rf''" "\<lambda>_. []" "\<lambda>p s. s = ''s''" Map.empty "[]"]
  by (simp add: sample_event_def Verify_def)

theorem payload_binds_witness:
  "ae_Reason sample_event = ''no''"
  using payload_binds [of "\<lambda>t. show_int t" "sample_event\<lparr>ae_Command := ''rm''\<rparr>" "sample_event\<lparr>ae_Command := ''rm''\<rparr>"]
  by (simp add: sample_event_def)

section \<open>The log keeps the newest events\<close>

definition slot_lines :: "AuditLog \<Rightarrow> nat \<Rightarrow> log_line list" where
  "slot_lines al i = (case al_files al i of None \<Rightarrow> [] | Some f \<Rightarrow> f)"

text \<open>The lines on disk, oldest first.\<close>

definition archived :: "AuditLog \<Rightarrow> log_line list" where
  "archived al = concat (map (slot_lines al) [5, 4, 3, 2, 1, 0])"

datatype audit_step = ARecord bool bool audit_call | AClose | ARestart

text \<open>A step, together with the history of the lines written.\<close>

fun audit_do ::
  "(time \<Rightarrow> string) \<Rightarrow> (string \<Rightarrow> string) \<Rightarrow> (log_line \<Rightarrow> nat) \<Rightarrow> AuditLog \<times> log_line list \<Rightarrow> audit_step \<Rightarrow> AuditLog \<times> log_line list" where
  "audit_do fmt sig len (al, hist) (ARecord writes reopens c) =
     (Audit_Record fmt sig len writes reopens c al,
      if al_open al \<and> writes then hist @ [EventLine (audit_event fmt sig (al_nodeID al) c)] else hist)"
| "audit_do fmt sig len (al, hist) AClose = (Audit_Close al, hist)"
| "audit_do fmt sig len (al, hist) ARestart = (NewAuditLog len (al_nodeID al) (al_files al), hist)"

definition audit_run ::
  "(time \<Rightarrow> string) \<Rightarrow> (string \<Rightarrow> string) \<Rightarrow> (log_line \<Rightarrow> nat) \<Rightarrow> string \<Rightarrow> audit_step list \<Rightarrow> AuditLog \<times> log_line list" where
  "audit_run fmt sig len nodeID = foldl (audit_do fmt sig len) (NewAuditLog len nodeID Map.empty, [])"

definition audit_inv :: "(log_line \<Rightarrow> nat) \<Rightarrow> nat \<Rightarrow> AuditLog \<Rightarrow> log_line list \<Rightarrow> bool" where
  "audit_inv len longest al hist \<longleftrightarrow>
     (al_open al \<longrightarrow> al_files al 0 \<noteq> None \<and> al_written al = file_bytes len (slot_lines al 0)) \<and>
     (\<forall>i. 1 \<le> i \<longrightarrow> al_files al (i + 1) \<noteq> None \<longrightarrow> al_files al i \<noteq> None) \<and>
     (\<forall>i > maxRotations. al_files al i = None) \<and>
     file_bytes len (slot_lines al 0) < maxLogBytes \<and>
     (\<forall>i \<ge> 1. al_files al i \<noteq> None \<longrightarrow> maxLogBytes \<le> file_bytes len (slot_lines al i) \<and>
        file_bytes len (slot_lines al i) < maxLogBytes + longest) \<and>
     (\<exists>dropped. hist = dropped @ archived al \<and> (al_files al maxRotations = None \<longrightarrow> dropped = []))"

lemma rename_file_apply:
  "old \<noteq> new \<Longrightarrow> rename_file old new d i =
     (if d old = None then d i else if i = new then d old else if i = old then None else d i)"
  by (auto simp: rename_file_def split: option.split)

lemma rename_chain:
  assumes "\<forall>i. 1 \<le> i \<longrightarrow> i \<le> k \<longrightarrow> d i = None \<longrightarrow> d (i + 1) = None"
  shows "foldl (\<lambda>d i. rename_file i (i + 1) d) d (rev [1..<Suc k]) i =
    (if 2 \<le> i \<and> i \<le> k + 1 then d (i - 1) else if i = 1 \<and> 1 \<le> k then None else d i)"
  using assms
proof (induction k arbitrary: d)
  case (Suc k)
  define d' where "d' = rename_file (Suc k) (Suc k + 1) d"
  have d: "d' j = (if j = Suc k + 1 then d (Suc k) else if j = Suc k then None else d j)" for j
    using Suc.prems by (auto simp: rename_file_apply d'_def)
  have "foldl (\<lambda>d i. rename_file i (i + 1) d) d (rev [1..<Suc (Suc k)]) i = foldl (\<lambda>d i. rename_file i (i + 1) d) d' (rev [1..<Suc k]) i"
    by (simp add: d'_def)
  also have "\<dots> = (if 2 \<le> i \<and> i \<le> k + 1 then d' (i - 1) else if i = 1 \<and> 1 \<le> k then None else d' i)"
    by (intro Suc.IH) (use Suc.prems in \<open>auto simp: d\<close>)
  also have "\<dots> = (if 2 \<le> i \<and> i \<le> Suc k + 1 then d (i - 1) else if i = 1 \<and> 1 \<le> Suc k then None else d i)"
    by (auto simp: d)
  finally show ?case .
qed auto

lemma rotate_files:
  assumes "\<forall>i. 1 \<le> i \<longrightarrow> al_files al (i + 1) \<noteq> None \<longrightarrow> al_files al i \<noteq> None" and "\<forall>i > maxRotations. al_files al i = None"
    and "al_files al 0 \<noteq> None"
  shows "al_files (rotate_log reopens al) i =
    (if i = 0 then (if reopens then Some [] else None) else if i \<le> maxRotations then al_files al (i - 1) else None)"
proof -
  have m: "maxRotations = Suc 4" by (simp add: maxRotations_def)
  define d' where "d' = foldl (\<lambda>d i. rename_file i (i + 1) d) (al_files al) (rev [1..<maxRotations])"
  have d: "d' j = (if 2 \<le> j \<and> j \<le> 5 then al_files al (j - 1) else if j = 1 then None else al_files al j)" for j
    unfolding m d'_def by (subst rename_chain) (use assms(1) in auto)
  have "rename_file 0 1 d' i = (if i = 0 then None else if i \<le> 5 then al_files al (i - 1) else None)"
    using assms(2,3) by (auto simp: rename_file_apply d m)
  then show ?thesis unfolding rotate_log_def d'_def [symmetric] Let_def by (cases "i = 0") (simp_all add: maxRotations_def)
qed

lemma archived_eq:
  "archived al = slot_lines al 5 @ slot_lines al 4 @ slot_lines al 3 @ slot_lines al 2 @ slot_lines al 1 @ slot_lines al 0"
  by (simp add: archived_def)

lemma rotate_inv:
  assumes inv: "\<forall>i. 1 \<le> i \<longrightarrow> al_files al (i + 1) \<noteq> None \<longrightarrow> al_files al i \<noteq> None" "\<forall>i > maxRotations. al_files al i = None"
      "\<forall>i \<ge> 1. al_files al i \<noteq> None \<longrightarrow> maxLogBytes \<le> file_bytes len (slot_lines al i) \<and>
        file_bytes len (slot_lines al i) < maxLogBytes + longest"
      "\<exists>dropped. hist = dropped @ archived al \<and> (al_files al maxRotations = None \<longrightarrow> dropped = [])"
    and cur: "al_files al 0 \<noteq> None" "maxLogBytes \<le> file_bytes len (slot_lines al 0)" "file_bytes len (slot_lines al 0) < maxLogBytes + longest"
  shows "audit_inv len longest (rotate_log reopens al) hist"
proof -
  note f = rotate_files [OF inv(1,2) cur(1)]
  have l: "slot_lines (rotate_log reopens al) i = (if i = 0 then [] else if i \<le> 5 then slot_lines al (i - 1) else [])" for i
    using f [of reopens i] by (simp add: slot_lines_def maxRotations_def)
  have arch: "archived (rotate_log reopens al) = slot_lines al 4 @ slot_lines al 3 @ slot_lines al 2 @ slot_lines al 1 @ slot_lines al 0"
    unfolding archived_eq l by simp
  obtain dropped where d: "hist = dropped @ archived al" "al_files al maxRotations = None \<longrightarrow> dropped = []" using inv(4) by (elim exE conjE) (rule that)
  have "hist = (dropped @ slot_lines al 5) @ archived (rotate_log reopens al)" unfolding d(1) arch unfolding archived_eq [of al] by simp
  moreover have "al_files (rotate_log reopens al) maxRotations = None \<longrightarrow> dropped @ slot_lines al 5 = []"
  proof
    assume "al_files (rotate_log reopens al) maxRotations = None"
    then have "al_files al 4 = None" using f [of reopens 5] by (simp add: maxRotations_def)
    then have "al_files al 5 = None" using inv(1) [rule_format, of 4] by (cases "al_files al 5") auto
    then show "dropped @ slot_lines al 5 = []" using d(2) by (simp add: maxRotations_def slot_lines_def)
  qed
  moreover have "al_open (rotate_log reopens al) \<longrightarrow> al_files (rotate_log reopens al) 0 \<noteq> None \<and> al_written (rotate_log reopens al) = 0"
    by (simp add: rotate_log_def Let_def)
  moreover have "al_files (rotate_log reopens al) (i + 1) \<noteq> None \<longrightarrow> al_files (rotate_log reopens al) i \<noteq> None" if "1 \<le> i" for i
    using that inv(1) [rule_format, of "i - 1"] cur(1) unfolding f by (cases "i = 1") auto
  moreover have "maxLogBytes \<le> file_bytes len (slot_lines (rotate_log reopens al) i) \<and>
      file_bytes len (slot_lines (rotate_log reopens al) i) < maxLogBytes + longest"
    if "1 \<le> i" "al_files (rotate_log reopens al) i \<noteq> None" for i
  proof -
    have i: "i \<le> 5" "al_files al (i - 1) \<noteq> None" using that f [of reopens i] by (auto simp: maxRotations_def split: if_splits)
    then show ?thesis using that(1) inv(3) [rule_format, of "i - 1"] cur(2,3) unfolding l by (cases "i = 1") auto
  qed
  ultimately show ?thesis unfolding audit_inv_def
    by (intro conjI allI impI) (auto simp: f l file_bytes_def maxLogBytes_def)
qed

lemma audit_step_inv:
  assumes inv: "audit_inv len longest al hist" and short: "\<forall>e. len (EventLine e) \<le> longest"
  shows "audit_inv len longest (fst (audit_do fmt sig len (al, hist) s)) (snd (audit_do fmt sig len (al, hist) s))"
proof (cases s)
  case (ARecord writes reopens c)
  show ?thesis
  proof (cases "al_open al \<and> writes")
    case False
    then show ?thesis using inv ARecord by (auto simp: Audit_Record_def Let_def)
  next
    case True
    let ?line = "EventLine (audit_event fmt sig (al_nodeID al) c)"
    let ?al = "al\<lparr>al_files := (al_files al)(0 \<mapsto> the (al_files al 0) @ [?line]), al_written := al_written al + len ?line\<rparr>"
    obtain f where f: "al_files al 0 = Some f" "al_written al = file_bytes len f"
      using inv True by (auto simp: audit_inv_def slot_lines_def)
    have l: "slot_lines ?al i = (if i = 0 then f @ [?line] else slot_lines al i)" for i using f by (simp add: slot_lines_def)
    have w: "al_written ?al = file_bytes len (slot_lines ?al 0)" unfolding l using f by (simp add: file_bytes_def)
    have arch: "archived ?al = archived al @ [?line]" unfolding archived_eq l using f by (simp add: slot_lines_def)
    have files: "\<forall>i. 1 \<le> i \<longrightarrow> al_files ?al (i + 1) \<noteq> None \<longrightarrow> al_files ?al i \<noteq> None" "\<forall>i > maxRotations. al_files ?al i = None"
      "\<forall>i \<ge> 1. al_files ?al i \<noteq> None \<longrightarrow> maxLogBytes \<le> file_bytes len (slot_lines ?al i) \<and>
        file_bytes len (slot_lines ?al i) < maxLogBytes + longest"
      using inv by (auto simp: audit_inv_def l)
    obtain dropped where "hist = dropped @ archived al" "al_files al maxRotations = None \<longrightarrow> dropped = []"
      using inv by (auto simp: audit_inv_def)
    then have d: "\<exists>dropped. hist @ [?line] = dropped @ archived ?al \<and> (al_files ?al maxRotations = None \<longrightarrow> dropped = [])"
      unfolding arch by (auto simp: maxRotations_def)
    have "file_bytes len f < maxLogBytes" using inv f by (simp add: audit_inv_def slot_lines_def)
    then have cur: "file_bytes len (slot_lines ?al 0) < maxLogBytes + longest"
      using short by (simp add: l file_bytes_def) (meson add_less_le_mono)
    show ?thesis
    proof (cases "al_written ?al \<ge> maxLogBytes")
      case rot: True
      have "audit_inv len longest (rotate_log reopens ?al) (hist @ [?line])"
        using rot by (intro rotate_inv files d cur) (simp_all add: w)
      then show ?thesis using ARecord True rot by (simp add: Audit_Record_def Let_def)
    next
      case no: False
      have "audit_inv len longest ?al (hist @ [?line])"
        unfolding audit_inv_def using files d w no by (intro conjI) auto
      then show ?thesis using ARecord True no by (simp add: Audit_Record_def Let_def)
    qed
  qed
next
  case AClose
  then show ?thesis using inv by (auto simp: Audit_Close_def audit_inv_def slot_lines_def archived_def)
next
  case ARestart
  let ?al = "NewAuditLog len (al_nodeID al) (al_files al)"
  have f: "al_files ?al i = (if i = 0 then Some (slot_lines al 0) else al_files al i)"
      "al_written ?al = file_bytes len (slot_lines al 0)" for i
    by (simp_all add: NewAuditLog_def slot_lines_def Let_def split: option.split)
  have l: "slot_lines ?al i = slot_lines al i" for i using f(1) [of i] by (simp add: slot_lines_def)
  have "archived ?al = archived al" unfolding archived_eq l ..
  then show ?thesis using inv ARestart unfolding audit_inv_def by (simp add: l f maxRotations_def)
qed

section \<open>Properties of the log\<close>

text \<open>
  C26: Whatever is recorded, through rotations, closing and restarts, the files hold the newest lines in
  order: only the oldest may be missing, and none is before a fifth rotated file exists. There are at
  most six files, each within the limit of a file and one line, and a rotated file is full.
\<close>

theorem audit_log_keeps:
  assumes "\<forall>e. len (EventLine e) \<le> longest" and "audit_run fmt sig len nodeID steps = (al, hist)"
  shows "(\<exists>dropped. hist = dropped @ archived al \<and> (al_files al maxRotations = None \<longrightarrow> dropped = [])) \<and>
    (\<forall>i. al_files al i \<noteq> None \<longrightarrow> i \<le> maxRotations \<and> file_bytes len (slot_lines al i) < maxLogBytes + longest) \<and>
    (\<forall>i \<ge> 1. al_files al i \<noteq> None \<longrightarrow> maxLogBytes \<le> file_bytes len (slot_lines al i))"
proof -
  have "audit_inv len longest (NewAuditLog len nodeID Map.empty) []"
    by (simp add: audit_inv_def NewAuditLog_def slot_lines_def archived_eq file_bytes_def maxLogBytes_def)
  then have "audit_inv len longest (fst (audit_run fmt sig len nodeID steps)) (snd (audit_run fmt sig len nodeID steps))"
    unfolding audit_run_def
  proof (induction steps rule: rev_induct)
    case (snoc s steps)
    obtain a h where e: "foldl (audit_do fmt sig len) (NewAuditLog len nodeID Map.empty, []) steps = (a, h)" by fastforce
    show ?case using snoc audit_step_inv [of len longest a h fmt sig s] assms(1) by (simp add: e)
  qed simp
  then have inv: "audit_inv len longest al hist" using assms(2) by simp
  have "file_bytes len (slot_lines al i) < maxLogBytes + longest" if "al_files al i \<noteq> None" for i
    using inv that by (cases "i = 0") (auto simp: audit_inv_def)
  then have a: "\<forall>i. al_files al i \<noteq> None \<longrightarrow> file_bytes len (slot_lines al i) < maxLogBytes + longest" by blast
  have b: "i \<le> maxRotations" if "al_files al i \<noteq> None" for i
  proof -
    have "\<forall>i > maxRotations. al_files al i = None" using inv by (simp add: audit_inv_def)
    then show ?thesis using that by (cases "i \<le> maxRotations") auto
  qed
  have c: "\<exists>dropped. hist = dropped @ archived al \<and> (al_files al maxRotations = None \<longrightarrow> dropped = [])"
    using inv unfolding audit_inv_def by (elim conjE)
  have "\<forall>i \<ge> 1. al_files al i \<noteq> None \<longrightarrow> maxLogBytes \<le> file_bytes len (slot_lines al i)"
    using inv by (simp add: audit_inv_def)
  with a b show ?thesis by (intro conjI c) simp_all
qed

definition sample_call :: "string \<Rightarrow> audit_call" where
  "sample_call cmd = \<lparr>ac_ID = ''1'', ac_At = 5, ac_Category = ''command_rejected'', ac_TaskID = [], ac_Command = cmd, ac_Reason = ''no'',
     ac_Metadata = Map.empty\<rparr>"

theorem audit_log_keeps_witness:
  "map (\<lambda>l. case l of EventLine e \<Rightarrow> ae_Command e | JunkLine \<Rightarrow> [])
     (archived (fst (audit_run (\<lambda>_. []) (\<lambda>_. ''s'') (\<lambda>_. maxLogBytes) ''n'' [ARecord True True (sample_call ''rm''), ARecord True True (sample_call ''dd'')]))) =
   [''rm'', ''dd'']"
proof -
  let ?r = "audit_run (\<lambda>_. []) (\<lambda>_. ''s'') (\<lambda>_. maxLogBytes) ''n'' [ARecord True True (sample_call ''rm''), ARecord True True (sample_call ''dd'')]"
  have h: "map (\<lambda>l. case l of EventLine e \<Rightarrow> ae_Command e | JunkLine \<Rightarrow> []) (snd ?r) = [''rm'', ''dd'']"
    and f: "al_files (fst ?r) maxRotations = None"
    by (simp_all add: audit_run_def NewAuditLog_def Audit_Record_def audit_event_def sign_event_def truncate_text_def sample_call_def
        rotate_log_def rename_file_def maxRotations_def upt_rec maxLogBytes_def file_bytes_def)
  show ?thesis
    using audit_log_keeps [of "\<lambda>_. maxLogBytes" maxLogBytes "\<lambda>_. []" "\<lambda>_. ''s''" "''n''"
        "[ARecord True True (sample_call ''rm''), ARecord True True (sample_call ''dd'')]" "fst ?r" "snd ?r"] f h by auto
qed

text \<open>
  \<open>Tail\<close> only reads the current file: right after a rotation it is empty, and so the violations of any
  window count as none.
\<close>

theorem violations_forgotten:
  assumes "al_open al" and "al_written al + len (EventLine (audit_event fmt sig (al_nodeID al) c)) \<ge> maxLogBytes"
  shows "Tail n (Audit_Record fmt sig len True True c al) = [] \<and>
    ViolationCount now window (Audit_Record fmt sig len True True c al) = 0"
  using assms by (simp add: Audit_Record_def Let_def rotate_log_def Tail_def ViolationCount_def)

theorem violations_forgotten_witness:
  "ViolationCount 6 hour (Audit_Record (\<lambda>_. []) (\<lambda>_. ''s'') (\<lambda>_. 1) True True (sample_call ''rm'')
     \<lparr>al_nodeID = ''n'', al_files = [0 \<mapsto> []], al_open = True, al_written = maxLogBytes\<rparr>) = 0"
  using violations_forgotten [of "\<lparr>al_nodeID = ''n'', al_files = [0 \<mapsto> []], al_open = True, al_written = maxLogBytes\<rparr>"] by simp

end
