(* ===== verification/Sched_Worker.thy ===== *)
theory Sched_Worker
  imports Sched_Sandbox Sched_Admission
begin

text \<open>
  \<open>internal/scheduler/worker.go\<close>: what a worker does with a command. A command is refused, started in a shell or
  read as a WASM module; the process and the module runtime are outside, their output and exit are
  arguments. The audit events are listed; the confinement by the kernel is another part. The writer that caps
  the output of a module is in \<open>wasm.go\<close>.
\<close>

section \<open>Starting a command\<close>

datatype WorkerError = WorkerEmptyCommand | RejectedCommand SandboxError | RejectedEnv SandboxError | InvalidWasm SandboxError
  | NoStorage | WasmEscapes string | WasmNotFound string

datatype Launch = ShellTask string "string list" "ResourceLimits option" | WasmTask string string "string list"

datatype AuditCall = AuditCall string string string

definition sandbox_env :: "string list" where
  "sandbox_env = [''HOME=/tmp'', ''PATH=/usr/local/bin:/usr/bin:/bin'', ''TERM=xterm-256color'', ''LANG=en_US.UTF-8'', ''LC_ALL=en_US.UTF-8'']"

text \<open>
  The messages with \<open>path traversal\<close> in them are those of the argument checks; a message that quotes
  part of the command can also contain the words.
\<close>

definition rejection_category :: "(SandboxError \<Rightarrow> string) \<Rightarrow> SandboxError \<Rightarrow> string" where
  "rejection_category show_err e = (if contains (show_err e) ''path traversal'' then ''path_traversal'' else ''command_rejected'')"

definition runWASM :: "string \<Rightarrow> (string \<Rightarrow> bool) \<Rightarrow> string \<Rightarrow> WorkerError + Launch" where
  "runWASM storageDir exists_file command =
     (case ParseWASMCommand command of
        Inl e \<Rightarrow> Inl (InvalidWasm e)
      | Inr (fname, args) \<Rightarrow>
          if storageDir = [] then Inl NoStorage
          else let path = filepath_Join storageDir fname in
            if starts_with ''..'' (filepath_Rel storageDir path) then Inl (WasmEscapes fname)
            else if \<not> exists_file path then Inl (WasmNotFound fname)
            else Inr (WasmTask path fname args))"

definition RunWithLimits ::
  "(SandboxError \<Rightarrow> string) \<Rightarrow> string \<Rightarrow> (string \<Rightarrow> bool) \<Rightarrow> string \<Rightarrow> string list \<Rightarrow> string list \<Rightarrow> bool \<Rightarrow> string list \<Rightarrow> duration \<Rightarrow>
    ResourceLimits \<Rightarrow> string \<Rightarrow> (WorkerError + Launch) \<times> AuditCall list" where
  "RunWithLimits show_err storageDir exists_file command env environ sandboxMode allowlist timeout limits taskID =
     (if command = [] then (Inl WorkerEmptyCommand, [])
      else if starts_with WASMPrefix command then (runWASM storageDir exists_file command, [])
      else case ValidateCommand command allowlist sandboxMode of
        Some e \<Rightarrow> (Inl (RejectedCommand e), [AuditCall (rejection_category show_err e) taskID command])
      | None \<Rightarrow>
          (case ValidateEnv env sandboxMode of
             Some e \<Rightarrow> (Inl (RejectedEnv e), [AuditCall ''env_var_rejected'' taskID command])
           | None \<Rightarrow>
               if sandboxMode
               then (Inr (ShellTask command (sandbox_env @ env) (Some (ResourceLimits_WithTimeout timeout (ResourceLimits_Filled limits)))),
                     [AuditCall ''command_allowed'' taskID command])
               else (Inr (ShellTask command (environ @ env) None), [])))"

section \<open>Its result\<close>

definition maxOutputBytes :: nat where "maxOutputBytes = 64 * 1024"

definition cap_output :: "string \<Rightarrow> string" where
  "cap_output buf =
     (let out = trim_space buf
      in if length out > maxOutputBytes then take maxOutputBytes out @ [CHR 0x0A] @ ''... (truncated)'' else out)"

datatype RunFailure = ContextEnded | ExitFailed

definition command_result :: "bool \<Rightarrow> bool \<Rightarrow> string \<Rightarrow> string \<times> RunFailure option" where
  "command_result failed ctx_ended buf =
     (if failed then if ctx_ended then ([], Some ContextEnded) else (cap_output buf, Some ExitFailed)
      else (cap_output buf, None))"

text \<open>The writer of a module's output: what it keeps, and how many bytes it says it took.\<close>

record limitedWriter =
  lw_buf :: string
  lw_limit :: nat
  lw_n :: nat

definition limited_Write :: "string \<Rightarrow> limitedWriter \<Rightarrow> nat \<times> limitedWriter" where
  "limited_Write p lw =
     (if lw_n lw \<ge> lw_limit lw then (length p, lw)
      else let q = take (lw_limit lw - lw_n lw) p
           in (length q, lw\<lparr>lw_buf := lw_buf lw @ q, lw_n := lw_n lw + length q\<rparr>))"

section \<open>Properties\<close>

lemma WithTimeout_positive: "limits_positive r \<Longrightarrow> limits_positive (ResourceLimits_WithTimeout d r)"
  by (simp add: ResourceLimits_WithTimeout_def limits_positive_def)



lemma limited_inv:
  assumes "lw_n lw = length (lw_buf lw)" and "lw_n lw \<le> lw_limit lw"
  shows "lw_buf (snd (limited_Write p lw)) = take (lw_limit lw) (lw_buf lw @ p) \<and> lw_limit (snd (limited_Write p lw)) = lw_limit lw \<and>
    lw_n (snd (limited_Write p lw)) = length (lw_buf (snd (limited_Write p lw))) \<and> lw_n (snd (limited_Write p lw)) \<le> lw_limit lw"
  using assms by (auto simp: limited_Write_def Let_def)

text \<open>
  However a module cuts its output into writes, the first bytes up to the limit are kept. The write
  that crosses the limit reports fewer bytes than it was given, all others report all.
\<close>

theorem limited_output:
  shows "lw_buf (foldl (\<lambda>lw p. snd (limited_Write p lw)) \<lparr>lw_buf = [], lw_limit = n, lw_n = 0\<rparr> ps) = take n (concat ps) \<and>
    fst (limited_Write p lw) = (if lw_n lw < lw_limit lw \<and> lw_limit lw < lw_n lw + length p then lw_limit lw - lw_n lw else length p)"
proof
  have "let lw = foldl (\<lambda>lw p. snd (limited_Write p lw)) \<lparr>lw_buf = [], lw_limit = n, lw_n = 0\<rparr> ps
      in lw_buf lw = take n (concat ps) \<and> lw_limit lw = n \<and> lw_n lw = length (lw_buf lw) \<and> lw_n lw \<le> n"
  proof (induction ps rule: rev_induct)
    case (snoc p ps)
    then show ?case using limited_inv [of "foldl (\<lambda>lw p. snd (limited_Write p lw)) \<lparr>lw_buf = [], lw_limit = n, lw_n = 0\<rparr> ps" p]
      by (auto simp: Let_def min_def split: if_splits)
  qed (simp add: Let_def)
  then show "lw_buf (foldl (\<lambda>lw p. snd (limited_Write p lw)) \<lparr>lw_buf = [], lw_limit = n, lw_n = 0\<rparr> ps) = take n (concat ps)"
    by (simp add: Let_def)
  show "fst (limited_Write p lw) = (if lw_n lw < lw_limit lw \<and> lw_limit lw < lw_n lw + length p then lw_limit lw - lw_n lw else length p)"
    by (auto simp: limited_Write_def Let_def min_def)
qed

end
