(* ===== verification/Social_Lend.thy ===== *)
theory Social_Lend
  imports Sched_Worker
begin

text \<open>
  Lending compute to a friend, \<open>internal/social\<close>: invitation codes and the registry (\<open>social.go\<close>), the handshake that turns a
  invite into a session (\<open>handshake.go\<close>), and the tasks a session may run (\<open>session.go\<close>). HMAC-SHA256 is the
  parameter \<open>hmac\<close> (key, then message), \<open>enc\<close> and \<open>dec\<close> are JSON in URL-safe base64, and the streams of
  libp2p deliver what was written or fail.
\<close>

record LendToken =
  lt_PeerID :: string
  lt_Addrs :: "string list"
  lt_ExpiresAt :: time
  lt_MaxVRAMBytes :: int
  lt_AllowedTasks :: "string list"

record LendRegistry =
  lr_LentTokens :: "string \<rightharpoonup> LendToken"
  lr_BorrowedPeers :: "string \<rightharpoonup> string"
  lr_BorrowedTokens :: "string \<rightharpoonup> LendToken"

section \<open>Invitation codes\<close>

definition token_prefix :: string where "token_prefix = ''ofl_''"

definition GenerateToken ::
  "(LendToken \<Rightarrow> string) \<Rightarrow> time \<Rightarrow> string \<Rightarrow> string list \<Rightarrow> int \<Rightarrow> duration \<Rightarrow> string list \<Rightarrow> LendRegistry \<Rightarrow> string \<times> LendRegistry" where
  "GenerateToken enc now peerID addrs maxVRAM d tasks r =
     (let token = \<lparr>lt_PeerID = peerID, lt_Addrs = addrs, lt_ExpiresAt = now + d, lt_MaxVRAMBytes = maxVRAM, lt_AllowedTasks = tasks\<rparr>;
          invite = token_prefix @ enc token
      in (invite, r\<lparr>lr_LentTokens := (lr_LentTokens r)(invite \<mapsto> token)\<rparr>))"

datatype LendError = TokenFormat | TokenDecode | TokenExpired

definition ParseToken :: "(string \<Rightarrow> LendToken option) \<Rightarrow> time \<Rightarrow> string \<Rightarrow> LendError + LendToken" where
  "ParseToken dec now s =
     (if \<not> starts_with token_prefix s then Inl TokenFormat
      else case dec (drop (length token_prefix) s) of
        None \<Rightarrow> Inl TokenDecode
      | Some token \<Rightarrow> if now > lt_ExpiresAt token then Inl TokenExpired else Inr token)"

definition AddBorrowedPeer :: "string \<Rightarrow> string \<Rightarrow> LendToken \<Rightarrow> LendRegistry \<Rightarrow> LendRegistry" where
  "AddBorrowedPeer peerID label token r =
     r\<lparr>lr_BorrowedPeers := (lr_BorrowedPeers r)(peerID \<mapsto> label), lr_BorrowedTokens := (lr_BorrowedTokens r)(peerID \<mapsto> token)\<rparr>"

definition RemoveBorrowedPeer :: "string \<Rightarrow> LendRegistry \<Rightarrow> LendRegistry" where
  "RemoveBorrowedPeer peerID r =
     r\<lparr>lr_BorrowedPeers := (lr_BorrowedPeers r)(peerID := None), lr_BorrowedTokens := (lr_BorrowedTokens r)(peerID := None)\<rparr>"

definition GetBorrowedNodes :: "string list \<Rightarrow> string set \<Rightarrow> LendRegistry \<Rightarrow> LendToken list" where
  "GetBorrowedNodes ks connected_peers r = map (\<lambda>k. the (lr_BorrowedTokens r k)) (filter (\<lambda>k. k \<in> connected_peers) ks)"

section \<open>The handshake\<close>

record LendSession =
  sn_BorrowerID :: string
  sn_ConnectedAt :: time
  sn_MaxVRAM :: int

type_synonym sessions = "string \<rightharpoonup> LendSession"

text \<open>The server's side: the nonce it sent, the response it read (\<open>None\<close> when the stream failed), the order of the tokens.\<close>

definition match_lent :: "(string \<Rightarrow> string \<Rightarrow> string) \<Rightarrow> time \<Rightarrow> string list \<Rightarrow> LendRegistry \<Rightarrow> string \<Rightarrow> string \<Rightarrow> LendToken option" where
  "match_lent hmac now ks r nonce response =
     (case find (\<lambda>k. let tok = the (lr_LentTokens r k) in \<not> now > lt_ExpiresAt tok \<and> response = hmac (lt_PeerID tok) nonce) ks of
        None \<Rightarrow> None
      | Some k \<Rightarrow> lr_LentTokens r k)"

definition Handshake_HandleStream ::
  "(string \<Rightarrow> string \<Rightarrow> string) \<Rightarrow> time \<Rightarrow> string list \<Rightarrow> LendRegistry \<Rightarrow> string \<Rightarrow> string \<Rightarrow> string option \<Rightarrow> sessions \<Rightarrow>
    bool \<times> sessions" where
  "Handshake_HandleStream hmac now ks r remotePeer nonce response ss =
     (case response of
        None \<Rightarrow> (False, ss)
      | Some resp \<Rightarrow>
          (case match_lent hmac now ks r nonce resp of
             None \<Rightarrow> (False, ss)
           | Some tok \<Rightarrow>
               (True, ss(remotePeer \<mapsto> \<lparr>sn_BorrowerID = remotePeer, sn_ConnectedAt = now, sn_MaxVRAM = lt_MaxVRAMBytes tok\<rparr>))))"

text \<open>The borrower's side: the response it computes from the invite.\<close>

definition borrower_response ::
  "(string \<Rightarrow> string \<Rightarrow> string) \<Rightarrow> (string \<Rightarrow> LendToken option) \<Rightarrow> time \<Rightarrow> string \<Rightarrow> string \<Rightarrow> LendError + string" where
  "borrower_response hmac dec now invite nonce =
     (case ParseToken dec now invite of Inl e \<Rightarrow> Inl e | Inr token \<Rightarrow> Inr (hmac (lt_PeerID token) nonce))"

definition RevokeSession :: "string \<Rightarrow> sessions \<Rightarrow> sessions" where "RevokeSession borrowerID ss = ss(borrowerID := None)"

definition GetSessions :: "string list \<Rightarrow> sessions \<Rightarrow> LendSession list" where "GetSessions ks ss = map (\<lambda>k. the (ss k)) ks"

section \<open>Tasks of a guest\<close>

record TaskRequest =
  tr_ID :: string
  tr_Command :: string
  tr_Env :: "string list"

datatype GuestReply = StreamReset | GuestRefused | GuestFailed WorkerError | GuestRuns Launch

definition guest_limits :: ResourceLimits where "guest_limits = DefaultResourceLimits\<lparr>MaxMemoryBytes := 128 * 1024 * 1024\<rparr>"

definition Task_HandleStream ::
  "(SandboxError \<Rightarrow> string) \<Rightarrow> string \<Rightarrow> (string \<Rightarrow> bool) \<Rightarrow> string list \<Rightarrow> sessions \<Rightarrow> string \<Rightarrow> TaskRequest option \<Rightarrow> GuestReply \<times> AuditCall list" where
  "Task_HandleStream show_err storageDir exists_file environ ss remotePeer request =
     (if ss remotePeer = None then (StreamReset, [])
      else case request of
        None \<Rightarrow> (StreamReset, [])
      | Some req \<Rightarrow>
          if \<not> starts_with ''wasm://'' (tr_Command req) then (GuestRefused, [])
          else case RunWithLimits show_err storageDir exists_file (tr_Command req) (tr_Env req) environ True [''wasm''] (30 * second)
                  guest_limits (tr_ID req) of
               (Inl e, audit) \<Rightarrow> (GuestFailed e, audit)
             | (Inr task, audit) \<Rightarrow> (GuestRuns task, audit))"

section \<open>The lender in operation\<close>

text \<open>The steps of a lender; the time of each is given, codes are never withdrawn.\<close>

datatype lend_step =
    SLend time "string list" int duration "string list"
  | SHandshake time "string list" string string "string option"
  | SRevoke string

fun lend_do ::
  "(string \<Rightarrow> string \<Rightarrow> string) \<Rightarrow> (LendToken \<Rightarrow> string) \<Rightarrow> string \<Rightarrow> LendRegistry \<times> sessions \<Rightarrow> lend_step \<Rightarrow> LendRegistry \<times> sessions" where
  "lend_do hmac enc self (r, ss) (SLend now addrs maxVRAM d tasks) = (snd (GenerateToken enc now self addrs maxVRAM d tasks r), ss)"
| "lend_do hmac enc self (r, ss) (SHandshake now ks peer nonce response) = (r, snd (Handshake_HandleStream hmac now ks r peer nonce response ss))"
| "lend_do hmac enc self (r, ss) (SRevoke peer) = (r, RevokeSession peer ss)"

definition empty_registry :: LendRegistry where
  "empty_registry = \<lparr>lr_LentTokens = Map.empty, lr_BorrowedPeers = Map.empty, lr_BorrowedTokens = Map.empty\<rparr>"

definition lend_run :: "(string \<Rightarrow> string \<Rightarrow> string) \<Rightarrow> (LendToken \<Rightarrow> string) \<Rightarrow> string \<Rightarrow> lend_step list \<Rightarrow> LendRegistry \<times> sessions" where
  "lend_run hmac enc self = foldl (lend_do hmac enc self) (empty_registry, Map.empty)"

section \<open>Properties\<close>

lemma match_lent_finds:
  assumes "lr_LentTokens r k = Some tok" and "t \<le> lt_ExpiresAt tok" and "map_order ks (lr_LentTokens r)"
  shows "\<exists>tok'. match_lent hmac t ks r nonce (hmac (lt_PeerID tok) nonce) = Some tok'"
proof (cases "match_lent hmac t ks r nonce (hmac (lt_PeerID tok) nonce)")
  case None
  have "k \<in> set ks" using assms(1,3) by (auto simp: map_order_def)
  moreover have "set ks = dom (lr_LentTokens r)" using assms(3) by (simp add: map_order_def)
  ultimately have False using None assms(1,2)
    by (auto simp: match_lent_def find_None_iff find_Some_iff Let_def split: option.splits) (metis domD nth_mem option.distinct(1))
  then show ?thesis ..
qed simp

text \<open>
  A code does what it is for: as long as it lives, a borrower who has it gets through the
  handshake of the lender and has a session.
\<close>

theorem lend_handshake:
  assumes "GenerateToken enc t0 self addrs maxVRAM d tasks r = (invite, r')"
    and "tok = \<lparr>lt_PeerID = self, lt_Addrs = addrs, lt_ExpiresAt = t0 + d, lt_MaxVRAMBytes = maxVRAM, lt_AllowedTasks = tasks\<rparr>"
    and "dec (enc tok) = Some tok" and "t \<le> t0 + d" and "map_order ks (lr_LentTokens r')"
  shows "\<exists>resp sess. borrower_response hmac dec t invite nonce = Inr resp \<and>
    Handshake_HandleStream hmac t ks r' peer nonce (Some resp) ss = (True, ss(peer \<mapsto> sess)) \<and> sn_BorrowerID sess = peer"
proof -
  have invite: "invite = token_prefix @ enc tok" and r': "lr_LentTokens r' invite = Some tok"
    using assms(1,2) by (auto simp: GenerateToken_def Let_def)
  have resp: "borrower_response hmac dec t invite nonce = Inr (hmac self nonce)"
    using assms(2-4) by (simp add: invite borrower_response_def ParseToken_def starts_with_append)
  obtain tok' where "match_lent hmac t ks r' nonce (hmac self nonce) = Some tok'"
    using match_lent_finds [OF r' _ assms(5), of t hmac nonce] assms(2,4) by auto
  then have "Handshake_HandleStream hmac t ks r' peer nonce (Some (hmac self nonce)) ss =
      (True, ss(peer \<mapsto> \<lparr>sn_BorrowerID = peer, sn_ConnectedAt = t, sn_MaxVRAM = lt_MaxVRAMBytes tok'\<rparr>))"
    by (simp add: Handshake_HandleStream_def)
  then show ?thesis using resp by fastforce
qed

theorem lend_handshake_witness:
  "\<exists>sess. Handshake_HandleStream (@) 5 [''ofl_x''] (snd (GenerateToken (\<lambda>_. ''x'') 0 ''me'' [] 7 10 [] empty_registry)) ''you'' ''n''
     (Some ''men'') Map.empty = (True, [''you'' \<mapsto> sess]) \<and> sn_BorrowerID sess = ''you''"
proof -
  let ?tok = "\<lparr>lt_PeerID = ''me'', lt_Addrs = [], lt_ExpiresAt = 10, lt_MaxVRAMBytes = 7, lt_AllowedTasks = []\<rparr>"
  have g: "GenerateToken (\<lambda>_. ''x'') 0 ''me'' [] 7 10 [] empty_registry =
      (''ofl_x'', snd (GenerateToken (\<lambda>_. ''x'') 0 ''me'' [] 7 10 [] empty_registry))"
    by (simp add: GenerateToken_def Let_def token_prefix_def)
  have ord: "map_order [''ofl_x''] (lr_LentTokens (snd (GenerateToken (\<lambda>_. ''x'') 0 ''me'' [] 7 10 [] empty_registry)))"
    by (simp add: GenerateToken_def Let_def token_prefix_def empty_registry_def map_order_def)
  show ?thesis
    using lend_handshake [where dec = "\<lambda>_. Some ?tok" and hmac = "(@)" and t = 5 and nonce = "''n''" and peer = "''you''" and ss = Map.empty
        and tok = ?tok, OF g _ _ _ ord]
    by (auto simp: borrower_response_def ParseToken_def token_prefix_def)
qed

lemma match_lent_Some:
  "match_lent hmac now ks r nonce resp = Some tok \<Longrightarrow>
     \<exists>k. lr_LentTokens r k = Some tok \<and> now \<le> lt_ExpiresAt tok \<and> resp = hmac (lt_PeerID tok) nonce"
  by (auto simp: match_lent_def find_Some_iff Let_def split: option.splits)

text \<open>The tokens a list of steps generates.\<close>

fun lend_generated :: "string \<Rightarrow> lend_step \<Rightarrow> LendToken set" where
  "lend_generated self (SLend now addrs maxVRAM d tasks) =
     {\<lparr>lt_PeerID = self, lt_Addrs = addrs, lt_ExpiresAt = now + d, lt_MaxVRAMBytes = maxVRAM, lt_AllowedTasks = tasks\<rparr>}"
| "lend_generated self _ = {}"

definition lend_inv :: "string \<Rightarrow> LendToken set \<Rightarrow> LendRegistry \<times> sessions \<Rightarrow> bool" where
  "lend_inv self toks st \<longleftrightarrow>
     (\<forall>k tok. lr_LentTokens (fst st) k = Some tok \<longrightarrow> tok \<in> toks) \<and>
     (\<forall>peer s. snd st peer = Some s \<longrightarrow> sn_BorrowerID s = peer \<and>
        (\<exists>tok \<in> toks. sn_ConnectedAt s \<le> lt_ExpiresAt tok \<and> sn_MaxVRAM s = lt_MaxVRAMBytes tok))"

lemma lend_inv_step: "lend_inv self toks st \<Longrightarrow> lend_inv self (toks \<union> lend_generated self s) (lend_do hmac enc self st s)"
proof (cases s)
  case (SHandshake now ks peer nonce response)
  assume inv: "lend_inv self toks st"
  show ?thesis
  proof (cases "fst (Handshake_HandleStream hmac now ks (fst st) peer nonce response (snd st))")
    case True
    then obtain resp tok where m: "match_lent hmac now ks (fst st) nonce resp = Some tok"
      "snd (Handshake_HandleStream hmac now ks (fst st) peer nonce response (snd st)) =
        (snd st)(peer \<mapsto> \<lparr>sn_BorrowerID = peer, sn_ConnectedAt = now, sn_MaxVRAM = lt_MaxVRAMBytes tok\<rparr>)"
      by (auto simp: Handshake_HandleStream_def split: option.splits)
    from match_lent_Some [OF m(1)] have "tok \<in> toks" "now \<le> lt_ExpiresAt tok" using inv by (auto simp: lend_inv_def)
    then show ?thesis using inv m(2) SHandshake by (cases st) (auto simp: lend_inv_def)
  next
    case False
    then have "snd (Handshake_HandleStream hmac now ks (fst st) peer nonce response (snd st)) = snd st"
      by (auto simp: Handshake_HandleStream_def split: option.splits)
    then show ?thesis using inv SHandshake by (cases st) simp
  qed
next
  case (SLend now addrs maxVRAM d tasks)
  assume "lend_inv self toks st"
  then show ?thesis using SLend by (cases st) (fastforce simp: lend_inv_def GenerateToken_def Let_def)
next
  case (SRevoke peer)
  assume "lend_inv self toks st"
  then show ?thesis using SRevoke by (cases st) (auto simp: lend_inv_def RevokeSession_def)
qed

lemma lend_inv_run: "lend_inv self (\<Union>st \<in> set steps. lend_generated self st) (lend_run hmac enc self steps)"
  unfolding lend_run_def
proof (induction steps rule: rev_induct)
  case (snoc s steps)
  then show ?case using lend_inv_step [OF snoc, of s hmac enc] by (simp add: Un_commute)
qed (simp add: lend_inv_def empty_registry_def)

lemma lend_generated_self: "tok \<in> lend_generated self st \<Longrightarrow> lt_PeerID tok = self"
  by (cases st) auto


definition lend_example :: "lend_step list" where
  "lend_example = [SLend 0 [] 7 10 [], SHandshake 5 [''ofl_x''] ''you'' ''n'' (Some ''men'')]"

lemma lend_example_run: "snd (lend_run (@) (\<lambda>_. ''x'') ''me'' lend_example) ''you'' = Some \<lparr>sn_BorrowerID = ''you'', sn_ConnectedAt = 5, sn_MaxVRAM = 7\<rparr>"
  by (simp add: lend_run_def lend_example_def Handshake_HandleStream_def match_lent_def GenerateToken_def Let_def token_prefix_def empty_registry_def)


text \<open>
  The key of the handshake is the lender's own identifier, which every peer on the network knows. So while
  any code is alive, whoever answers with it gets a session without a code, and keeps it until it
  is revoked, whatever time passes.
\<close>

theorem session_without_code:
  assumes "lend_run hmac enc self steps = (r, ss)" and "lr_LentTokens r invite = Some tok" and "t \<le> lt_ExpiresAt tok"
    and "map_order ks (lr_LentTokens r)" and "SRevoke peer \<notin> set later"
  shows "snd (lend_run hmac enc self (steps @ SHandshake t ks peer nonce (Some (hmac self nonce)) # later)) peer \<noteq> None"
proof -
  note inv = lend_inv_run [of self steps hmac enc]
  then have "tok \<in> (\<Union>st \<in> set steps. lend_generated self st)" using assms(1,2) unfolding lend_inv_def by auto
  then have self: "lt_PeerID tok = self" using lend_generated_self by blast
  obtain tok' where "match_lent hmac t ks r nonce (hmac self nonce) = Some tok'"
    using match_lent_finds [OF assms(2,3,4), of hmac nonce] self by auto
  then have "snd (lend_run hmac enc self (steps @ [SHandshake t ks peer nonce (Some (hmac self nonce))])) peer \<noteq> None"
    using assms(1) by (simp add: lend_run_def Handshake_HandleStream_def)
  moreover have "snd (foldl (lend_do hmac enc self) st later) peer \<noteq> None" if "snd st peer \<noteq> None" for st
    using that assms(5)
  proof (induction later arbitrary: st)
    case (Cons s later)
    have "snd (lend_do hmac enc self st s) peer \<noteq> None" using Cons.prems
      by (cases st; cases s) (auto simp: RevokeSession_def Handshake_HandleStream_def split: option.splits)
    then show ?case using Cons by simp
  qed simp
  ultimately show ?thesis by (simp add: lend_run_def)
qed

theorem session_without_code_witness:
  "snd (lend_run (@) (\<lambda>_. ''x'') ''me'' ([SLend 0 [] 7 10 []] @ SHandshake 5 [''ofl_x''] ''eve'' ''n'' (Some (''me'' @ ''n'')) # [])) ''eve'' \<noteq> None"
  by (rule session_without_code [where invite = "''ofl_x''" and
        tok = "\<lparr>lt_PeerID = ''me'', lt_Addrs = [], lt_ExpiresAt = 10, lt_MaxVRAMBytes = 7, lt_AllowedTasks = []\<rparr>", OF surjective_pairing])
     (simp_all add: lend_run_def GenerateToken_def Let_def token_prefix_def empty_registry_def map_order_def)

text \<open>
  What a guest can run: only with a session, and only a WASM module below the storage of the lender.
  No audit event is recorded for it.
\<close>

theorem guest_tasks_confined:
  assumes "Task_HandleStream show_err storageDir exists_file environ ss peer request = (GuestRuns task, audit)"
  shows "ss peer \<noteq> None \<and> audit = [] \<and>
    (\<exists>path fname args rest. task = WasmTask path fname args \<and> path_comps path = path_comps storageDir @ rest)"
proof -
  obtain req where req: "ss peer \<noteq> None" "request = Some req" "starts_with WASMPrefix (tr_Command req)"
    "RunWithLimits show_err storageDir exists_file (tr_Command req) (tr_Env req) environ True [''wasm''] (30 * second) guest_limits (tr_ID req) =
      (Inr task, audit)"
    using assms by (auto simp: Task_HandleStream_def WASMPrefix_def split: if_splits option.splits prod.splits sum.splits)
  then have "runWASM storageDir exists_file (tr_Command req) = Inr task" "audit = []"
    by (auto simp: RunWithLimits_def split: if_splits)
  then show ?thesis using req(1) filepath_Rel_inside
    by (auto simp: runWASM_def Let_def split: sum.splits prod.splits if_splits)
qed

theorem guest_tasks_confined_witness:
  "\<exists>rest. path_comps ''/s/a.wasm'' = path_comps ''/s'' @ rest"
proof -
  have "Task_HandleStream (\<lambda>_. []) ''/s'' (\<lambda>_. True) [] [''you'' \<mapsto> \<lparr>sn_BorrowerID = ''you'', sn_ConnectedAt = 5, sn_MaxVRAM = 7\<rparr>] ''you''
      (Some \<lparr>tr_ID = ''t'', tr_Command = ''wasm://a.wasm x'', tr_Env = []\<rparr>) = (GuestRuns (WasmTask ''/s/a.wasm'' ''a.wasm'' [''x'']), [])"
    by code_simp
  from guest_tasks_confined [OF this] show ?thesis by simp
qed

end
