(* ===== verification/Tunnel_Pin.thy ===== *)
theory Tunnel_Pin
  imports Api_Http
begin

text \<open>
  The PIN in front of the tunnel (\<open>tunnel/pin.go\<close>) and the proxy behind it (\<open>tunnel/proxy.go\<close>). bcrypt is the
  parameters \<open>hash\<close>, from a salt and a PIN, and \<open>check\<close>; random bytes and tokens are arguments. A
  submission takes the locks of the manager several times, so it is a goroutine whose position is in
  the state, and the steps of different submissions interleave.
\<close>

section \<open>The manager\<close>

datatype flight = Passed string | Rejected string | Matched string | Stored string

record PINManager =
  pn_PINHash :: string
  pn_PINEnabled :: bool
  pn_sessionKeys :: "string \<rightharpoonup> time"
  pn_submitLim :: "string \<Rightarrow> nat"
  pn_flight :: "nat \<rightharpoonup> flight"
  pn_timers :: "string multiset"

definition pinCookieMaxAge :: duration where "pinCookieMaxAge = 24 * 60 * 60 * second"

definition NewPINManager :: "string \<Rightarrow> bool \<Rightarrow> PINManager" where
  "NewPINManager h e = \<lparr>pn_PINHash = h, pn_PINEnabled = e, pn_sessionKeys = Map.empty, pn_submitLim = (\<lambda>_. 0), pn_flight = Map.empty, pn_timers = {#}\<rparr>"

definition pin_text :: "nat list \<Rightarrow> string" where
  "pin_text digits = concat (map (\<lambda>b. show_nat (b mod 10)) digits)"

definition GeneratePIN :: "(string \<Rightarrow> string \<Rightarrow> string) \<Rightarrow> string \<Rightarrow> nat list \<Rightarrow> PINManager \<Rightarrow> string \<times> PINManager" where
  "GeneratePIN hash salt digits p =
     (let pin = pin_text digits in (pin, p\<lparr>pn_PINHash := hash salt pin, pn_PINEnabled := True\<rparr>))"

definition RevokePIN :: "PINManager \<Rightarrow> PINManager" where
  "RevokePIN p = p\<lparr>pn_PINHash := [], pn_PINEnabled := False, pn_sessionKeys := Map.empty\<rparr>"

section \<open>A submission\<close>

text \<open>\<open>handlePINSubmit\<close>: the check of the limit, \<open>False\<close> when the address is blocked.\<close>

definition submit_address :: "string \<Rightarrow> string" where
  "submit_address remote = (case SplitHostPort remote of Some host \<Rightarrow> host | None \<Rightarrow> remote)"

definition pin_check :: "nat \<Rightarrow> string \<Rightarrow> PINManager \<Rightarrow> bool \<times> PINManager" where
  "pin_check h ip p =
     (if pn_submitLim p ip \<ge> 5 then (False, p) else (True, p\<lparr>pn_flight := (pn_flight p)(h \<mapsto> Passed ip)\<rparr>))"

text \<open>The first half of \<open>ValidatePIN\<close>: the hash is read and the PIN compared.\<close>

definition pin_matches :: "(string \<Rightarrow> string \<Rightarrow> bool) \<Rightarrow> string \<Rightarrow> string \<Rightarrow> bool" where
  "pin_matches check h pin \<longleftrightarrow> h \<noteq> [] \<and> check h pin"

definition submit_compare :: "(string \<Rightarrow> string \<Rightarrow> bool) \<Rightarrow> nat \<Rightarrow> string \<Rightarrow> PINManager \<Rightarrow> PINManager" where
  "submit_compare check h pin p =
     (case pn_flight p h of
        Some (Passed ip) \<Rightarrow>
          p\<lparr>pn_flight := (pn_flight p)(h \<mapsto> (if pin_matches check (pn_PINHash p) pin then Matched ip else Rejected ip))\<rparr>
      | _ \<Rightarrow> p)"

text \<open>A wrong PIN is counted and a timer started; a right one gets a session.\<close>

definition submit_conclude :: "nat \<Rightarrow> string \<Rightarrow> time \<Rightarrow> PINManager \<Rightarrow> PINManager" where
  "submit_conclude h token now p =
     (case pn_flight p h of
        Some (Rejected ip) \<Rightarrow>
          p\<lparr>pn_submitLim := (pn_submitLim p)(ip := pn_submitLim p ip + 1), pn_timers := add_mset ip (pn_timers p),
            pn_flight := (pn_flight p)(h := None)\<rparr>
      | Some (Matched ip) \<Rightarrow>
          p\<lparr>pn_sessionKeys := (pn_sessionKeys p)(token \<mapsto> now + pinCookieMaxAge), pn_flight := (pn_flight p)(h \<mapsto> Stored ip)\<rparr>
      | _ \<Rightarrow> p)"

definition submit_reset :: "nat \<Rightarrow> PINManager \<Rightarrow> PINManager" where
  "submit_reset h p =
     (case pn_flight p h of
        Some (Stored ip) \<Rightarrow> p\<lparr>pn_submitLim := (pn_submitLim p)(ip := 0), pn_flight := (pn_flight p)(h := None)\<rparr>
      | _ \<Rightarrow> p)"

definition limit_timer :: "string \<Rightarrow> PINManager \<Rightarrow> PINManager" where
  "limit_timer ip p =
     (if ip \<in># pn_timers p then p\<lparr>pn_timers := pn_timers p - {#ip#}, pn_submitLim := (pn_submitLim p)(ip := pn_submitLim p ip - 1)\<rparr> else p)"

section \<open>The middleware\<close>

definition validSession :: "time \<Rightarrow> string \<Rightarrow> PINManager \<Rightarrow> bool \<times> PINManager" where
  "validSession now token p =
     (case pn_sessionKeys p token of
        None \<Rightarrow> (False, p)
      | Some expiry \<Rightarrow> if now > expiry then (False, p\<lparr>pn_sessionKeys := (pn_sessionKeys p)(token := None)\<rparr>) else (True, p))"

datatype PinAnswer = PinPage | PinSubmit | PinNext

definition Pin_Middleware :: "time \<Rightarrow> Request \<Rightarrow> string option \<Rightarrow> PINManager \<Rightarrow> PinAnswer \<times> PINManager" where
  "Pin_Middleware now r cookie p =
     (if \<not> pn_PINEnabled p then (PinNext, p)
      else if rq_Method r = ''POST'' \<and> rq_Path r = ''/_fabric/pin'' then (PinSubmit, p)
      else case cookie of
        Some c \<Rightarrow> (let (ok, p) = validSession now c p in (if ok then PinNext else PinPage, p))
      | None \<Rightarrow> (PinPage, p))"

text \<open>Where a successful submission goes.\<close>

definition pin_redirect :: "string \<Rightarrow> string" where
  "pin_redirect referer = (if referer = [] \<or> contains referer ''/_fabric/pin'' then ''/'' else referer)"

section \<open>The proxy\<close>

text \<open>\<open>allowedSubnetOnly\<close> for \<open>10.8.0.0/24\<close>.\<close>

definition in_tunnel_net :: "nat list \<Rightarrow> bool" where
  "in_tunnel_net ip \<longleftrightarrow> (case To4 ip of Some q \<Rightarrow> take 3 q = [10, 8, 0] | None \<Rightarrow> False)"

definition allowedSubnetOnly :: "(Request \<Rightarrow> Response) \<Rightarrow> Request \<Rightarrow> Response" where
  "allowedSubnetOnly nxt r =
     (case SplitHostPort (rq_RemoteAddr r) of
        None \<Rightarrow> Forbidden
      | Some host \<Rightarrow> (case ParseIP host of None \<Rightarrow> Forbidden | Some ip \<Rightarrow> if in_tunnel_net ip then nxt r else Forbidden))"

datatype ProxyAnswer = PinAnswered PinAnswer | ProxyAnswered Response

text \<open>The handler of the proxy; it forwards with the header that the API trusts, from an address of the machine.\<close>

definition proxy_forward :: "string \<Rightarrow> Request \<Rightarrow> Request" where
  "proxy_forward source r = r\<lparr>rq_RemoteAddr := source, rq_Tunnel := ''1''\<rparr>"

definition Proxy_handle :: "string \<Rightarrow> string \<Rightarrow> time \<Rightarrow> Request \<Rightarrow> string option \<Rightarrow> PINManager \<Rightarrow> ProxyAnswer \<times> PINManager" where
  "Proxy_handle tunnelIP source now r cookie p =
     (let host = hd (split_on CHR ''/'' tunnelIP);
          forward = (\<lambda>r. Served (proxy_forward source r));
          handler = (if host \<noteq> ''127.0.0.1'' then allowedSubnetOnly forward else forward);
          (a, p) = Pin_Middleware now r cookie p
      in (if a = PinNext then ProxyAnswered (handler r) else PinAnswered a, p))"

section \<open>Runs\<close>

datatype pin_step =
    PGenerate string "nat list" | PRevoke | PCheck nat string | PCompare nat string | PConclude nat string time
  | PReset nat | PTimer string | PRequest time Request "string option"

fun pin_do :: "(string \<Rightarrow> string \<Rightarrow> string) \<Rightarrow> (string \<Rightarrow> string \<Rightarrow> bool) \<Rightarrow> PINManager \<Rightarrow> pin_step \<Rightarrow> PINManager" where
  "pin_do hash check p (PGenerate salt digits) = snd (GeneratePIN hash salt digits p)"
| "pin_do hash check p PRevoke = RevokePIN p"
| "pin_do hash check p (PCheck h ip) = snd (pin_check h ip p)"
| "pin_do hash check p (PCompare h pin) = submit_compare check h pin p"
| "pin_do hash check p (PConclude h token now) = submit_conclude h token now p"
| "pin_do hash check p (PReset h) = submit_reset h p"
| "pin_do hash check p (PTimer ip) = limit_timer ip p"
| "pin_do hash check p (PRequest now r cookie) = snd (Pin_Middleware now r cookie p)"

definition pin_run :: "(string \<Rightarrow> string \<Rightarrow> string) \<Rightarrow> (string \<Rightarrow> string \<Rightarrow> bool) \<Rightarrow> string \<Rightarrow> bool \<Rightarrow> pin_step list \<Rightarrow> PINManager" where
  "pin_run hash check h0 e0 = foldl (pin_do hash check) (NewPINManager h0 e0)"

section \<open>Who gets past the PIN\<close>

text \<open>The hashes that were in force: the one of the configuration and those generated since.\<close>

definition hashes :: "(string \<Rightarrow> string \<Rightarrow> string) \<Rightarrow> string \<Rightarrow> pin_step set \<Rightarrow> string set" where
  "hashes hash h0 S = {h0} \<union> {hash salt (pin_text digits) | salt digits. PGenerate salt digits \<in> S}"

definition guessed :: "(string \<Rightarrow> string \<Rightarrow> string) \<Rightarrow> (string \<Rightarrow> string \<Rightarrow> bool) \<Rightarrow> string \<Rightarrow> pin_step set \<Rightarrow> nat \<Rightarrow> bool" where
  "guessed hash check h0 S h \<longleftrightarrow> (\<exists>pin. PCompare h pin \<in> S \<and> (\<exists>hs \<in> hashes hash h0 S. hs \<noteq> [] \<and> check hs pin))"

definition pin_inv :: "(string \<Rightarrow> string \<Rightarrow> string) \<Rightarrow> (string \<Rightarrow> string \<Rightarrow> bool) \<Rightarrow> string \<Rightarrow> pin_step set \<Rightarrow> PINManager \<Rightarrow> bool" where
  "pin_inv hash check h0 S p \<longleftrightarrow>
     (pn_PINHash p = [] \<or> pn_PINHash p \<in> hashes hash h0 S) \<and>
     (\<forall>h ip. pn_flight p h = Some (Matched ip) \<longrightarrow> guessed hash check h0 S h) \<and>
     (\<forall>token e. pn_sessionKeys p token = Some e \<longrightarrow>
        (\<exists>h t. PConclude h token t \<in> S \<and> e = t + pinCookieMaxAge \<and> guessed hash check h0 S h))"

lemma hashes_mono: "S \<subseteq> T \<Longrightarrow> hashes hash h0 S \<subseteq> hashes hash h0 T"
  by (auto simp: hashes_def)

lemma guessed_mono: "S \<subseteq> T \<Longrightarrow> guessed hash check h0 S h \<Longrightarrow> guessed hash check h0 T h"
  using hashes_mono [of S T hash h0] unfolding guessed_def by blast

lemma pin_inv_mono: "S \<subseteq> T \<Longrightarrow> pin_inv hash check h0 S p \<Longrightarrow> pin_inv hash check h0 T p"
  using hashes_mono [of S T hash h0] guessed_mono [of S T hash check h0] unfolding pin_inv_def by blast

lemma validSession_frame:
  "pn_PINHash (snd (validSession now c p)) = pn_PINHash p \<and> pn_flight (snd (validSession now c p)) = pn_flight p \<and>
   pn_sessionKeys (snd (validSession now c p)) \<subseteq>\<^sub>m pn_sessionKeys p"
  by (auto simp: validSession_def map_le_def split: option.splits if_splits)

lemma Middleware_frame:
  "pn_PINHash (snd (Pin_Middleware now r c p)) = pn_PINHash p \<and> pn_flight (snd (Pin_Middleware now r c p)) = pn_flight p \<and>
   pn_sessionKeys (snd (Pin_Middleware now r c p)) \<subseteq>\<^sub>m pn_sessionKeys p"
  using validSession_frame by (auto simp: Pin_Middleware_def split: option.splits prod.splits) (metis snd_conv)+

lemma pin_inv_fewer:
  assumes "pin_inv hash check h0 S p" and "pn_PINHash q = pn_PINHash p \<or> pn_PINHash q = []"
    and "\<And>h ip. pn_flight q h = Some (Matched ip) \<Longrightarrow> pn_flight p h = Some (Matched ip)" and "pn_sessionKeys q \<subseteq>\<^sub>m pn_sessionKeys p"
  shows "pin_inv hash check h0 S q"
proof -
  have "pn_sessionKeys p token = Some e" if "pn_sessionKeys q token = Some e" for token e
    using that assms(4) by (metis domI map_le_def)
  then show ?thesis using assms(1-3) unfolding pin_inv_def by metis
qed

lemma pin_inv_step: "pin_inv hash check h0 S p \<Longrightarrow> pin_inv hash check h0 (insert s S) (pin_do hash check p s)"
proof -
  assume inv: "pin_inv hash check h0 S p"
  then have inv': "pin_inv hash check h0 (insert s S) p" by (rule pin_inv_mono [rotated]) blast
  show ?thesis
  proof (cases s)
    case (PGenerate salt digits)
    then have "hash salt (pin_text digits) \<in> hashes hash h0 (insert s S)" by (auto simp: hashes_def)
    then show ?thesis using inv' PGenerate by (simp add: pin_inv_def GeneratePIN_def Let_def)
  next
    case PRevoke
    show ?thesis unfolding PRevoke using inv' [unfolded PRevoke] by (rule pin_inv_fewer) (auto simp: RevokePIN_def)
  next
    case (PCheck h ip)
    show ?thesis unfolding PCheck using inv' [unfolded PCheck] by (rule pin_inv_fewer) (auto simp: pin_check_def split: if_splits)
  next
    case (PCompare h pin)
    have "guessed hash check h0 (insert s S) h" if "pin_matches check (pn_PINHash p) pin"
      using that inv' PCompare unfolding guessed_def pin_inv_def pin_matches_def by blast
    then show ?thesis using inv' PCompare by (auto simp: pin_inv_def submit_compare_def split: option.splits flight.splits)
  next
    case (PConclude h token now)
    then show ?thesis using inv' by (fastforce simp: pin_inv_def submit_conclude_def split: option.splits flight.splits)
  next
    case (PReset h)
    show ?thesis unfolding PReset using inv' [unfolded PReset]
      by (rule pin_inv_fewer) (auto simp: submit_reset_def split: option.splits flight.splits if_splits)
  next
    case (PTimer ip)
    show ?thesis unfolding PTimer using inv' [unfolded PTimer]
      by (rule pin_inv_fewer) (auto simp: limit_timer_def split: if_splits)
  next
    case (PRequest now r cookie)
    show ?thesis unfolding PRequest using inv' [unfolded PRequest]
      by (rule pin_inv_fewer) (use Middleware_frame [of now r cookie p] in auto)
  qed
qed

lemma pin_inv_run: "pin_inv hash check h0 (set steps) (pin_run hash check h0 e0 steps)"
  unfolding pin_run_def
proof (induction steps rule: rev_induct)
  case (snoc s steps)
  then show ?case using pin_inv_step [OF snoc] by simp
qed (simp add: pin_inv_def NewPINManager_def hashes_def)

text \<open>
  C16: While the PIN is enabled, a request reaches the dashboard only with the cookie of a session that
  began at most a day before, with a submission whose PIN matched a hash that was in force; however
  submissions, new PINs, revocations and timers interleave.
\<close>

theorem pin_access:
  assumes "p = pin_run hash check h0 e0 steps" and "pn_PINEnabled p" and "fst (Pin_Middleware now r cookie p) = PinNext"
  shows "\<exists>token h t pin hs. cookie = Some token \<and> PConclude h token t \<in> set steps \<and> now \<le> t + pinCookieMaxAge \<and>
    PCompare h pin \<in> set steps \<and> hs \<in> hashes hash h0 (set steps) \<and> hs \<noteq> [] \<and> check hs pin"
proof -
  obtain token e where "cookie = Some token" "pn_sessionKeys p token = Some e" "now \<le> e"
    using assms(2,3) by (auto simp: Pin_Middleware_def validSession_def split: if_splits option.splits)
  moreover have "pin_inv hash check h0 (set steps) p" using assms(1) pin_inv_run by simp
  ultimately show ?thesis unfolding pin_inv_def guessed_def by blast
qed

text \<open>A session of someone who knows the PIN, with the hash a copy of the PIN.\<close>

definition pin_example :: "pin_step list" where
  "pin_example = [PGenerate [] [10, 21, 2, 3, 4, 255], PCheck 0 ''h'', PCompare 0 ''012345'', PConclude 0 ''token'' 7, PReset 0]"

lemma pin_example_run:
  "pin_run (\<lambda>_ pin. pin) (=) [] False pin_example =
     \<lparr>pn_PINHash = ''012345'', pn_PINEnabled = True, pn_sessionKeys = [''token'' \<mapsto> 7 + pinCookieMaxAge],
      pn_submitLim = (\<lambda>_. 0), pn_flight = Map.empty, pn_timers = {#}\<rparr>"
proof -
  have t: "pin_text [10, 21, 2, 3, 4, 255] = ''012345''" by code_simp
  show ?thesis
    unfolding pin_run_def pin_example_def
    by (simp add: GeneratePIN_def Let_def NewPINManager_def t pin_check_def submit_compare_def submit_conclude_def submit_reset_def
        pin_matches_def fun_upd_idem)
qed

theorem pin_access_witness:
  "\<exists>token h t pin. PConclude h token t \<in> set pin_example \<and> PCompare h pin \<in> set pin_example \<and> token = ''token''"
proof -
  define r where "r = \<lparr>rq_Method = ''GET'', rq_Path = ''/'', rq_RemoteAddr = [], rq_Host = [], rq_Origin = [], rq_Tunnel = []\<rparr>"
  have "fst (Pin_Middleware 9 r (Some ''token'') (pin_run (\<lambda>_ pin. pin) (=) [] False pin_example)) = PinNext"
    by (simp add: pin_example_run Pin_Middleware_def validSession_def pinCookieMaxAge_def r_def)
  then show ?thesis using pin_access [OF refl, of "\<lambda>_ pin. pin" "(=)" "[]" False pin_example 9 r "Some ''token''"]
    by (auto simp: pin_example_run)
qed

section \<open>How often one can guess\<close>

definition submit_pin :: "(string \<Rightarrow> string \<Rightarrow> bool) \<Rightarrow> nat \<Rightarrow> string \<Rightarrow> string \<Rightarrow> string \<Rightarrow> time \<Rightarrow> PINManager \<Rightarrow> bool \<times> PINManager" where
  "submit_pin check h ip pin token now p =
     (let (ok, p) = pin_check h ip p in
      if ok then (True, submit_reset h (submit_conclude h token now (submit_compare check h pin p))) else (False, p))"

text \<open>Guesses from one address, each after the answer to the one before: how many are compared.\<close>

fun guess_all :: "(string \<Rightarrow> string \<Rightarrow> bool) \<Rightarrow> string \<Rightarrow> string list \<Rightarrow> PINManager \<Rightarrow> nat \<times> PINManager" where
  "guess_all check ip [] p = (0, p)"
| "guess_all check ip (pin # pins) p =
     (let (ok, p) = submit_pin check 0 ip pin [] 0 p; (n, p) = guess_all check ip pins p in ((if ok then 1 else 0) + n, p))"

lemma submit_wrong:
  assumes "\<not> pin_matches check (pn_PINHash p) pin" and "pn_submitLim p ip < 5"
  shows "submit_pin check h ip pin token now p =
    (True, p\<lparr>pn_submitLim := (pn_submitLim p)(ip := pn_submitLim p ip + 1), pn_timers := add_mset ip (pn_timers p), pn_flight := (pn_flight p)(h := None)\<rparr>)"
  using assms by (simp add: submit_pin_def pin_check_def submit_compare_def submit_conclude_def submit_reset_def)

lemma submit_blocked: "5 \<le> pn_submitLim p ip \<Longrightarrow> submit_pin check h ip pin token now p = (False, p)"
  by (simp add: submit_pin_def pin_check_def)

text \<open>
  Guesses made one after the other are limited: of wrong PINs from one address exactly those that fit
  below five are compared, the others are refused unseen until a timer ends.
\<close>

theorem sequential_guesses:
  assumes "\<forall>pin \<in> set pins. \<not> pin_matches check (pn_PINHash p) pin"
  shows "fst (guess_all check ip pins p) = min (length pins) (5 - pn_submitLim p ip)"
  using assms
proof (induction pins arbitrary: p)
  case (Cons pin pins)
  show ?case
  proof (cases "pn_submitLim p ip < 5")
    case True
    then have "\<not> pin_matches check (pn_PINHash p) pin" using Cons.prems by simp
    note w = submit_wrong [OF this True, of 0 "[]" 0]
    have "fst (guess_all check ip pins (snd (submit_pin check 0 ip pin [] 0 p))) = min (length pins) (5 - (pn_submitLim p ip + 1))"
      unfolding w using Cons.prems by (subst Cons.IH) auto
    then show ?thesis using True by (auto simp: w Let_def split: prod.split)
  next
    case False
    then show ?thesis using Cons by (auto simp: submit_blocked Let_def split: prod.split)
  qed
qed simp

theorem sequential_guesses_witness:
  "fst (guess_all (=) ''h'' (replicate 9 ''000000'') (NewPINManager ''012345'' True)) = 5"
  using sequential_guesses [of "replicate 9 ''000000''" "(=)" "NewPINManager ''012345'' True" "''h''"]
  by (simp add: pin_matches_def NewPINManager_def)

text \<open>Guesses sent at once.\<close>

definition burst :: "string \<Rightarrow> string list \<Rightarrow> pin_step list" where
  "burst ip pins = map (\<lambda>i. PCheck i ip) [0..<length pins] @ map (\<lambda>i. PCompare i (pins ! i)) [0..<length pins]"

lemma checks_pass:
  "pn_submitLim p ip < 5 \<Longrightarrow>
     foldl (pin_do hash check) p (map (\<lambda>i. PCheck i ip) [0..<n]) = p\<lparr>pn_flight := (\<lambda>i. if i < n then Some (Passed ip) else pn_flight p i)\<rparr>"
proof (induction n)
  case (Suc n)
  then show ?case by (auto simp: pin_check_def fun_eq_iff less_Suc_eq)
qed simp

lemma compares_run:
  assumes "\<forall>i < n. pn_flight p i = Some (Passed ip)"
  shows "foldl (pin_do hash check) p (map (\<lambda>i. PCompare i (pins ! i)) [0..<n]) =
    p\<lparr>pn_flight := (\<lambda>i. if i < n then Some (if pin_matches check (pn_PINHash p) (pins ! i) then Matched ip else Rejected ip) else pn_flight p i)\<rparr>"
  using assms
proof (induction n)
  case (Suc n)
  then have "pn_flight p n = Some (Passed ip)" by simp
  with Suc show ?case by (auto simp: submit_compare_def fun_eq_iff less_Suc_eq)
qed simp

text \<open>
  Sent at once they are not limited: an address that is not blocked has as many guesses compared as
  it sends before the first answer, so a burst of all PINs finds the right one.
\<close>

theorem parallel_guesses:
  assumes "pn_submitLim p ip < 5" and "pins ! h = pin" and "h < length pins" and "pin_matches check (pn_PINHash p) pin"
  shows "pn_sessionKeys (foldl (pin_do hash check) p (burst ip pins @ [PConclude h token now])) token = Some (now + pinCookieMaxAge)"
proof -
  let ?q = "p\<lparr>pn_flight := (\<lambda>i. if i < length pins then Some (Passed ip) else pn_flight p i)\<rparr>"
  have "foldl (pin_do hash check) p (burst ip pins) = foldl (pin_do hash check) ?q (map (\<lambda>i. PCompare i (pins ! i)) [0..<length pins])"
    using assms(1) by (simp add: burst_def checks_pass)
  moreover have "\<forall>i < length pins. pn_flight ?q i = Some (Passed ip)" by simp
  note compares_run [OF this, of hash check pins]
  ultimately show ?thesis using assms(2-4) by (simp add: submit_conclude_def)
qed

theorem parallel_guesses_witness:
  "pn_sessionKeys (foldl (pin_do (\<lambda>_ pin. pin) (=)) (NewPINManager ''012345'' True)
     (burst ''h'' [''0'', ''1'', ''2'', ''3'', ''4'', ''5'', ''6'', ''012345''] @ [PConclude 7 ''token'' 0])) ''token'' = Some (0 + pinCookieMaxAge)"
  by (rule parallel_guesses) (simp_all add: NewPINManager_def pin_matches_def)

text \<open>A new PIN does not end the sessions of the old one.\<close>

lemma sessions_survive_new_PIN: "pn_sessionKeys (snd (GeneratePIN hash salt digits p)) = pn_sessionKeys p"
  by (simp add: GeneratePIN_def Let_def)

section \<open>What the tunnel adds to a request\<close>

lemma allowedSubnetOnly_cases: "allowedSubnetOnly nxt r \<in> {Forbidden, nxt r}"
  by (auto simp: allowedSubnetOnly_def split: option.splits)

text \<open>
  The API serves whatever request the proxy forwards, from a page of any site: the header the proxy adds
  turns the check of the origin off. Only the limit of the rate can refuse it.
\<close>

theorem tunnel_any_origin:
  assumes "Proxy_handle tunnelIP source now r cookie p = (ProxyAnswered (Served r'), p')"
    and "loopback_name (host_of source)" and "real_ip r' = source" and "rq_Method r \<noteq> ''OPTIONS''"
  shows "fst (Server_handle real_ip fresh allow ''localhost_only'' now r' il) \<in> {Served r', TooManyRequests}"
proof -
  have r': "r' = proxy_forward source r"
    using assms(1) allowedSubnetOnly_cases [of "\<lambda>r. Served (proxy_forward source r)" r]
    by (auto simp: Proxy_handle_def Let_def split: prod.splits if_splits)
  have addr: "rq_RemoteAddr r' = source" "rq_Tunnel r' = ''1''" "rq_Method r' = rq_Method r" by (simp_all add: r' proxy_forward_def)
  have eq: "r'\<lparr>rq_RemoteAddr := source\<rparr> = r'" by (simp add: r' proxy_forward_def)
  have "localhostOnly Served r' = Served r'" using assms(2) addr by (simp add: localhostOnly_def)
  moreover have "CORSMiddleware Served (r'\<lparr>rq_RemoteAddr := source\<rparr>) = Served r'"
    using assms(2,4) addr unfolding eq by (simp add: CORSMiddleware_def strip_tunnel_def origin_allowed_def)
  ultimately show ?thesis using assms(3) by (simp add: Server_handle_def RateLimitMiddleware_def Let_def split: prod.split)
qed

theorem tunnel_any_origin_witness:
  "\<exists>r'. fst (Server_handle rq_RemoteAddr () (\<lambda>_ l. (True, l)) ''localhost_only'' 0 r' Map.empty) \<in> {Served r', TooManyRequests} \<and>
     rq_Origin r' = ''http://evil.example''"
proof -
  let ?r = "\<lparr>rq_Method = ''PUT'', rq_Path = ''/api/settings'', rq_RemoteAddr = ''127.0.0.1:50000'', rq_Host = ''localhost'',
     rq_Origin = ''http://evil.example'', rq_Tunnel = []\<rparr>"
  have "Proxy_handle ''127.0.0.1/24'' ''127.0.0.1:50001'' 0 ?r None (NewPINManager [] False) =
      (ProxyAnswered (Served (proxy_forward ''127.0.0.1:50001'' ?r)), NewPINManager [] False)"
    by (simp add: Proxy_handle_def Pin_Middleware_def NewPINManager_def)
  moreover have "loopback_name (host_of ''127.0.0.1:50001'')" by code_simp
  ultimately show ?thesis
    using tunnel_any_origin [where real_ip = rq_RemoteAddr and fresh = "()" and allow = "\<lambda>_ l. (True, l)" and il = Map.empty]
    by (intro exI [of _ "proxy_forward ''127.0.0.1:50001'' ?r"]) (simp add: proxy_forward_def)
qed

end
