(* ===== verification/Tunnel_Relay.thy ===== *)
theory Tunnel_Relay
  imports Tunnel_Pin
begin

text \<open>
  The tunnel: the manager that switches it on and off (\<open>tunnel/tunnel.go\<close>), the client of a relay
  (\<open>tunnel/relay.go\<close>), the relay inside the agent (\<open>tunnel/embedded_relay.go\<close>) and the one that runs on a
  server (\<open>cmd/relay/main.go\<close>). SHA-256 is the parameter \<open>sha\<close>; identifiers, secrets and keys are random
  arguments; JSON and HTTP are the values they carry.
\<close>

section \<open>The registry of a relay\<close>

record relayTunnelInfo =
  ti_TunnelID :: string
  ti_PublicKey :: string
  ti_AssignedIP :: string
  ti_LastSeen :: time
  ti_SecretHash :: string

record EmbeddedRelay =
  er_tunnels :: "string \<rightharpoonup> relayTunnelInfo"
  er_nextOctet :: nat

datatype RelayReply =
    MethodNotAllowed | BadRequest | Unauthorized | TunnelNotFound | Registered string string string | PeerList relayTunnelInfo
  | Deregistered | RedirectRoot string | NotFoundPage | Forward "string option" | ForwardTo string

definition NewEmbeddedRelay :: EmbeddedRelay where "NewEmbeddedRelay = \<lparr>er_tunnels = Map.empty, er_nextOctet = 2\<rparr>"

definition assigned_ip :: "nat \<Rightarrow> string" where "assigned_ip n = ''10.8.0.'' @ show_nat n @ ''/24''"

text \<open>The body is \<open>None\<close> when it does not decode.\<close>

definition handleRegister ::
  "(string \<Rightarrow> string) \<Rightarrow> string \<Rightarrow> string option \<Rightarrow> string \<Rightarrow> string \<Rightarrow> time \<Rightarrow> EmbeddedRelay \<Rightarrow> RelayReply \<times> EmbeddedRelay" where
  "handleRegister sha verb body tunnelID secret now r =
     (if verb \<noteq> ''POST'' then (MethodNotAllowed, r)
      else case body of
        None \<Rightarrow> (BadRequest, r)
      | Some publicKey \<Rightarrow>
          if publicKey = [] then (BadRequest, r)
          else let ip = assigned_ip (er_nextOctet r);
                   n = er_nextOctet r + 1;
                   info = \<lparr>ti_TunnelID = tunnelID, ti_PublicKey = publicKey, ti_AssignedIP = ip, ti_LastSeen = now, ti_SecretHash = sha secret\<rparr>
               in (Registered tunnelID ip secret,
                   r\<lparr>er_nextOctet := (if n > 254 then 2 else n), er_tunnels := (er_tunnels r)(tunnelID \<mapsto> info)\<rparr>))"

definition handleTunnelAPI :: "(string \<Rightarrow> string) \<Rightarrow> string \<Rightarrow> string \<Rightarrow> string \<Rightarrow> time \<Rightarrow> EmbeddedRelay \<Rightarrow> RelayReply \<times> EmbeddedRelay" where
  "handleTunnelAPI sha verb path secret now r =
     (let parts = split_on CHR ''/'' path in
      if length parts < 5 then (BadRequest, r)
      else let tunnelID = parts ! 4 in
        if secret = [] then (Unauthorized, r)
        else case er_tunnels r tunnelID of
          None \<Rightarrow> (TunnelNotFound, r)
        | Some info \<Rightarrow>
            if ti_SecretHash info \<noteq> sha secret then (Unauthorized, r)
            else if verb = ''GET'' then
              (let info = info\<lparr>ti_LastSeen := now\<rparr> in (PeerList info, r\<lparr>er_tunnels := (er_tunnels r)(tunnelID \<mapsto> info)\<rparr>))
            else if verb = ''DELETE'' then (Deregistered, r\<lparr>er_tunnels := (er_tunnels r)(tunnelID := None)\<rparr>)
            else (MethodNotAllowed, r))"

definition handleProxy :: "string \<Rightarrow> EmbeddedRelay \<Rightarrow> RelayReply" where
  "handleProxy path r =
     (if \<not> starts_with ''/t/'' path then BadRequest
      else let tunnelID = hd (split_on CHR ''/'' (drop 3 path)) in
        if tunnelID = [] then BadRequest
        else if er_tunnels r tunnelID = None then NotFoundPage
        else RedirectRoot tunnelID)"

text \<open>The second part of \<open>strings.Split(referer, "/t/")\<close>, if there is one.\<close>

fun after_sub :: "string \<Rightarrow> string \<Rightarrow> string option" where
  "after_sub sub [] = (if sub = [] then Some [] else None)"
| "after_sub sub (c # cs) = (if starts_with sub (c # cs) then Some (drop (length sub) (c # cs)) else after_sub sub cs)"

fun before_sub :: "string \<Rightarrow> string \<Rightarrow> string" where
  "before_sub sub [] = []"
| "before_sub sub (c # cs) = (if starts_with sub (c # cs) then [] else c # before_sub sub cs)"

definition request_tunnel :: "string \<Rightarrow> string \<Rightarrow> string" where
  "request_tunnel cookie referer =
     (if cookie \<noteq> [] then cookie
      else case after_sub ''/t/'' referer of
        None \<Rightarrow> []
      | Some rest \<Rightarrow> hd (split_on CHR ''/'' (before_sub ''/t/'' rest)))"

text \<open>The relay inside the agent; \<open>order1\<close> and \<open>order2\<close> are the orders of the two loops over the tunnels.\<close>

definition handleFallbackProxy :: "string list \<Rightarrow> string list \<Rightarrow> string \<Rightarrow> string \<Rightarrow> EmbeddedRelay \<Rightarrow> RelayReply" where
  "handleFallbackProxy order1 order2 cookie referer r =
     (let tunnelID = request_tunnel cookie referer;
          tunnelID = (if tunnelID = [] then (case order1 of [] \<Rightarrow> [] | t # _ \<Rightarrow> t) else tunnelID)
      in if tunnelID = [] then NotFoundPage
         else if er_tunnels r tunnelID = None then
           (let activeID = (case order2 of [] \<Rightarrow> [] | t # _ \<Rightarrow> t) in
            if activeID \<noteq> [] then Forward (Some activeID) else NotFoundPage)
         else Forward None)"

text \<open>The relay on a server: it sends the request to the address of the tunnel.\<close>

definition Relay_handleFallbackProxy :: "string \<Rightarrow> string \<Rightarrow> EmbeddedRelay \<Rightarrow> RelayReply" where
  "Relay_handleFallbackProxy cookie referer r =
     (let tunnelID = request_tunnel cookie referer in
      if tunnelID = [] then NotFoundPage
      else case er_tunnels r tunnelID of
        None \<Rightarrow> NotFoundPage
      | Some info \<Rightarrow> ForwardTo (hd (split_on CHR ''/'' (ti_AssignedIP info))))"

section \<open>Runs of a relay\<close>

datatype relay_step = RRegister string "string option" string string time | RApi string string string time

fun relay_do :: "(string \<Rightarrow> string) \<Rightarrow> EmbeddedRelay \<Rightarrow> relay_step \<Rightarrow> EmbeddedRelay" where
  "relay_do sha r (RRegister verb body tunnelID secret now) = snd (handleRegister sha verb body tunnelID secret now r)"
| "relay_do sha r (RApi verb path secret now) = snd (handleTunnelAPI sha verb path secret now r)"

text \<open>What a tunnel keeps for good.\<close>

definition same_tunnel :: "relayTunnelInfo \<Rightarrow> relayTunnelInfo \<Rightarrow> bool" where
  "same_tunnel a b \<longleftrightarrow> ti_LastSeen_update (\<lambda>_. 0) a = ti_LastSeen_update (\<lambda>_. 0) b"

definition ends_tunnel :: "(string \<Rightarrow> string) \<Rightarrow> string \<Rightarrow> relayTunnelInfo \<Rightarrow> relay_step \<Rightarrow> bool" where
  "ends_tunnel sha tunnelID info s \<longleftrightarrow>
     (case s of
        RRegister verb body t secret now \<Rightarrow> t = tunnelID
      | RApi verb path secret now \<Rightarrow> verb = ''DELETE'' \<and> split_on CHR ''/'' path ! 4 = tunnelID \<and> sha secret = ti_SecretHash info)"

lemma same_tunnel_refl [simp]: "same_tunnel a a"
  by (simp add: same_tunnel_def)

lemma same_tunnel_seen [simp]: "same_tunnel a (b\<lparr>ti_LastSeen := t\<rparr>) = same_tunnel a b"
  by (simp add: same_tunnel_def)

lemma same_tunnel_hash: "same_tunnel a b \<Longrightarrow> ti_SecretHash a = ti_SecretHash b"
  by (cases a; cases b) (simp add: same_tunnel_def)

lemma relay_step_keeps:
  assumes "er_tunnels r tunnelID = Some info'" and "same_tunnel info info'" and "\<not> ends_tunnel sha tunnelID info s"
  shows "\<exists>info''. er_tunnels (relay_do sha r s) tunnelID = Some info'' \<and> same_tunnel info info''"
proof (cases s)
  case (RRegister verb body t secret now)
  then show ?thesis using assms by (auto simp: handleRegister_def ends_tunnel_def Let_def split: option.splits)
next
  case (RApi verb path secret now)
  then show ?thesis using assms same_tunnel_hash [OF assms(2)]
    by (auto simp: handleTunnelAPI_def ends_tunnel_def Let_def split: option.splits)
qed

text \<open>
  A tunnel stays registered, with its address and key, through every run of requests, unless one of
  them is a deregistration that carries a secret with its hash (or a registration that draws the same
  random identifier).
\<close>

theorem tunnel_kept:
  assumes "er_tunnels r tunnelID = Some info" and "\<forall>s \<in> set steps. \<not> ends_tunnel sha tunnelID info s"
  shows "\<exists>info'. er_tunnels (foldl (relay_do sha) r steps) tunnelID = Some info' \<and> same_tunnel info info'"
  using assms(2)
proof (induction steps rule: rev_induct)
  case (snoc s steps)
  then obtain info' where "er_tunnels (foldl (relay_do sha) r steps) tunnelID = Some info'" "same_tunnel info info'" by auto
  then show ?case using relay_step_keeps snoc.prems by simp
qed (use assms(1) in simp)

theorem tunnel_kept_witness:
  "\<exists>info'. er_tunnels (foldl (relay_do id) (snd (handleRegister id ''POST'' (Some ''k'') ''t'' ''s'' 0 NewEmbeddedRelay))
     [RApi ''DELETE'' ''/api/v1/tunnels/t'' ''guess'' 1, RRegister ''POST'' (Some ''k2'') ''u'' ''s2'' 2]) ''t'' = Some info'"
  using tunnel_kept [of "snd (handleRegister id ''POST'' (Some ''k'') ''t'' ''s'' 0 NewEmbeddedRelay)" "''t''"
      "\<lparr>ti_TunnelID = ''t'', ti_PublicKey = ''k'', ti_AssignedIP = assigned_ip 2, ti_LastSeen = 0, ti_SecretHash = ''s''\<rparr>"
      "[RApi ''DELETE'' ''/api/v1/tunnels/t'' ''guess'' 1, RRegister ''POST'' (Some ''k2'') ''u'' ''s2'' 2]" id]
  by (auto simp: handleRegister_def NewEmbeddedRelay_def ends_tunnel_def Let_def)

section \<open>Addresses\<close>

text \<open>The addresses that a list of registrations (key, identifier, secret, time) gets.\<close>

fun register_all :: "(string \<Rightarrow> string) \<Rightarrow> (string \<times> string \<times> string \<times> time) list \<Rightarrow> EmbeddedRelay \<Rightarrow> string list" where
  "register_all sha [] r = []"
| "register_all sha ((key, t, secret, now) # rs) r =
     (let (reply, r) = handleRegister sha ''POST'' (Some key) t secret now r
      in (case reply of Registered _ ip _ \<Rightarrow> ip | _ \<Rightarrow> []) # register_all sha rs r)"

lemma register_all_octets:
  assumes "\<forall>x \<in> set rs. fst x \<noteq> []" and "er_nextOctet r = 2 + k mod 253"
  shows "register_all sha rs r = map (\<lambda>i. assigned_ip (2 + (k + i) mod 253)) [0..<length rs]"
  using assms
proof (induction rs arbitrary: r k)
  case (Cons x rs)
  obtain key t secret now where x: "x = (key, t, secret, now)" using prod_cases4 by blast
  let ?r = "snd (handleRegister sha ''POST'' (Some key) t secret now r)"
  have key: "key \<noteq> []" using Cons.prems(1) x by simp
  have "er_nextOctet ?r = 2 + Suc k mod 253"
    using key Cons.prems(2) by (auto simp: handleRegister_def Let_def mod_Suc)
  then have "register_all sha rs ?r = map (\<lambda>i. assigned_ip (2 + (Suc k + i) mod 253)) [0..<length rs]"
    using Cons.IH Cons.prems(1) by simp
  moreover have "fst (handleRegister sha ''POST'' (Some key) t secret now r) = Registered t (assigned_ip (2 + k mod 253)) secret"
    using key Cons.prems(2) by (simp add: handleRegister_def Let_def)
  ultimately show ?case
    by (simp add: x Let_def split_beta upt_conv_Cons map_Suc_upt [symmetric] del: upt_Suc)
qed simp

lemma assigned_ip_inj: "assigned_ip a = assigned_ip b \<longleftrightarrow> a = b"
  by (metis assigned_ip_def append_same_eq same_append_eq parse_show_nat option.inject of_nat_eq_iff)

text \<open>
  Registrations get the addresses \<open>10.8.0.2\<close> to \<open>10.8.0.254\<close> in turn, and two of them the same one
  exactly if they are a multiple of 253 apart: the relay never looks whether the tunnel that has
  the address is still there.
\<close>

theorem relay_addresses:
  assumes "\<forall>x \<in> set rs. fst x \<noteq> []" and "i < length rs" and "j < length rs"
  shows "register_all sha rs NewEmbeddedRelay ! i = assigned_ip (2 + i mod 253) \<and>
    (register_all sha rs NewEmbeddedRelay ! i = register_all sha rs NewEmbeddedRelay ! j \<longleftrightarrow> i mod 253 = j mod 253)"
  using register_all_octets [OF assms(1), of NewEmbeddedRelay 0 sha] assms(2,3)
  by (simp add: NewEmbeddedRelay_def assigned_ip_inj)

theorem relay_addresses_witness:
  "register_all id (replicate 300 (''k'', [], [], 0)) NewEmbeddedRelay ! 0 = register_all id (replicate 300 (''k'', [], [], 0)) NewEmbeddedRelay ! 253"
proof -
  have "(register_all id (replicate 300 (''k'', [], [], 0)) NewEmbeddedRelay ! 0 =
      register_all id (replicate 300 (''k'', [], [], 0)) NewEmbeddedRelay ! 253) \<longleftrightarrow> 0 mod 253 = 253 mod (253 :: nat)"
    by (rule conjunct2 [OF relay_addresses]) simp_all
  then show ?thesis by simp
qed

section \<open>Who reaches a tunnel\<close>

text \<open>
  The relay inside the agent forwards every request as soon as a tunnel is registered: the identifier
  in the address of the tunnel is not needed, and a wrong one is replaced.
\<close>

theorem embedded_forwards:
  assumes "map_order order1 (er_tunnels r)" and "map_order order2 (er_tunnels r)" and "er_tunnels r [] = None"
  shows "handleFallbackProxy order1 order2 cookie referer r = NotFoundPage \<longleftrightarrow> er_tunnels r = Map.empty"
proof (cases "er_tunnels r = Map.empty")
  case True
  then have "order1 = []" "order2 = []" using assms(1,2) by (simp_all add: map_order_def)
  then show ?thesis using True by (simp add: handleFallbackProxy_def Let_def)
next
  case False
  then obtain t1 o1 t2 o2 where o: "order1 = t1 # o1" "order2 = t2 # o2"
    using assms(1,2) by (metis dom_eq_empty_conv list.set(1) map_order_def neq_Nil_conv)
  have "er_tunnels r t1 \<noteq> None" "er_tunnels r t2 \<noteq> None" 
    using map_order_mem [OF assms(1), of t1] map_order_mem [OF assms(2), of t2] o by simp_all
  then have "t1 \<noteq> []" "t2 \<noteq> []" using assms(3) by auto
  then show ?thesis using o \<open>er_tunnels r t1 \<noteq> None\<close> False by (auto simp: handleFallbackProxy_def Let_def)
qed

theorem embedded_forwards_witness:
  "handleFallbackProxy [''t''] [''t''] ''wrong'' [] (snd (handleRegister id ''POST'' (Some ''k'') ''t'' ''s'' 0 NewEmbeddedRelay)) \<noteq> NotFoundPage"
proof -
  let ?r = "snd (handleRegister id ''POST'' (Some ''k'') ''t'' ''s'' 0 NewEmbeddedRelay)"
  have "map_order [''t''] (er_tunnels ?r)" "er_tunnels ?r [] = None" "er_tunnels ?r \<noteq> Map.empty"
    by (simp_all add: handleRegister_def Let_def NewEmbeddedRelay_def map_order_def)
  then show ?thesis using embedded_forwards [of "[''t'']" ?r "[''t'']" "''wrong''" "[]"] by blast
qed

text \<open>The relay on a server forwards to the address of the tunnel a request names, and nowhere else.\<close>

lemma server_relay_forwards:
  "Relay_handleFallbackProxy cookie referer r = ForwardTo ip \<Longrightarrow>
     \<exists>info. er_tunnels r (request_tunnel cookie referer) = Some info \<and> ip = hd (split_on CHR ''/'' (ti_AssignedIP info))"
  by (auto simp: Relay_handleFallbackProxy_def Let_def split: option.splits if_splits)

section \<open>The client of the relay\<close>

text \<open>\<open>UpdateRelay\<close>: the scheme and the base URL.\<close>

definition relay_split :: "string \<Rightarrow> string \<times> string" where
  "relay_split url =
     (if starts_with ''http://'' url then (''http://'', drop 7 url)
      else if starts_with ''https://'' url then (''https://'', drop 8 url)
      else ([], url))"

definition local_host :: "string \<Rightarrow> bool" where
  "local_host host \<longleftrightarrow> starts_with ''localhost'' host \<or> starts_with ''127.0.0.1'' host"

definition UpdateRelay :: "string \<Rightarrow> string" where
  "UpdateRelay url =
     (let (originalScheme, host) = relay_split url;
          scheme = (if local_host host then (if originalScheme = ''http://'' \<or> originalScheme = [] then ''http://'' else ''https://'')
                    else ''https://'')
      in scheme @ host)"

lemma relay_split_http: "relay_split (''http://'' @ h) = (''http://'', h)" "relay_split (''https://'' @ h) = (''https://'', h)"
  by (simp_all add: relay_split_def)

text \<open>
  A relay is reached by HTTPS unless its host starts like one of this machine; setting the address that
  is shown changes nothing.
\<close>

theorem UpdateRelay_scheme:
  "(\<not> local_host (snd (relay_split url)) \<longrightarrow> UpdateRelay url = ''https://'' @ snd (relay_split url)) \<and>
   UpdateRelay (UpdateRelay url) = UpdateRelay url"
proof
  show "\<not> local_host (snd (relay_split url)) \<longrightarrow> UpdateRelay url = ''https://'' @ snd (relay_split url)"
    by (simp add: UpdateRelay_def split: prod.split)
  obtain s host where sp: "relay_split url = (s, host)" by fastforce
  have "UpdateRelay url = ''https://'' @ host \<or> UpdateRelay url = ''http://'' @ host \<and> local_host host"
    by (simp add: UpdateRelay_def sp)
  then show "UpdateRelay (UpdateRelay url) = UpdateRelay url"
    using relay_split_http [of host] by (auto simp: UpdateRelay_def [of "_ @ _"] UpdateRelay_def [of "_ # _"])
qed

theorem UpdateRelay_scheme_witness: "UpdateRelay ''http://relay.example'' = ''https://relay.example''"
proof -
  have "\<not> local_host (snd (relay_split ''http://relay.example''))" "snd (relay_split ''http://relay.example'') = ''relay.example''"
    by (simp_all add: relay_split_def local_host_def)
  then show ?thesis using UpdateRelay_scheme [of "''http://relay.example''"] by simp
qed

text \<open>A host that only begins like this machine is reached without encryption.\<close>

lemma local_host_prefix: "UpdateRelay ''127.0.0.1.evil.example'' = ''http://127.0.0.1.evil.example''"
  by (simp add: UpdateRelay_def relay_split_def local_host_def)

section \<open>The manager\<close>

datatype TunnelState = StateDisconnected | StateConnecting | StateConnected | StateError

record TunnelConfig =
  tc_RelayURL :: string
  tc_RelayHTTPS :: string
  tc_PrivateKey :: string
  tc_PublicKey :: string
  tc_AssignedIP :: string
  tc_TunnelID :: string
  tc_TunnelSecret :: string
  tc_PINHash :: string
  tc_PINEnabled :: bool
  tc_LastConnected :: time

text \<open>\<open>loadOrInitConfig\<close>, for a file that is absent (\<open>None\<close>) or decodes.\<close>

definition empty_config :: TunnelConfig where
  "empty_config = \<lparr>tc_RelayURL = [], tc_RelayHTTPS = [], tc_PrivateKey = [], tc_PublicKey = [], tc_AssignedIP = [], tc_TunnelID = [],
     tc_TunnelSecret = [], tc_PINHash = [], tc_PINEnabled = False, tc_LastConnected = zero_time\<rparr>"

definition oldPrefixes :: "string list" where
  "oldPrefixes = [''relay.openfabric.dev'', ''relay.localfabric.dev'', ''relay.openfabric.dev'']"

definition migrate :: "string \<Rightarrow> TunnelConfig \<Rightarrow> TunnelConfig" where
  "migrate prefix c =
     (let c = (if tc_RelayURL c = prefix @ '':51820'' then c\<lparr>tc_RelayURL := []\<rparr> else c)
      in (if tc_RelayHTTPS c = ''https://'' @ prefix then c\<lparr>tc_RelayHTTPS := []\<rparr> else c))"

definition loadOrInitConfig :: "TunnelConfig option \<Rightarrow> TunnelConfig" where
  "loadOrInitConfig file =
     (let c = (case file of None \<Rightarrow> empty_config | Some c \<Rightarrow> c);
          c = foldl (\<lambda>c prefix. migrate prefix c) c oldPrefixes;
          c = (if tc_RelayURL c = [] then c\<lparr>tc_RelayURL := ''127.0.0.1:4893''\<rparr> else c)
      in (if tc_RelayHTTPS c = [] then c\<lparr>tc_RelayHTTPS := ''http://127.0.0.1:4893''\<rparr> else c))"

lemma loadOrInitConfig_result:
  "loadOrInitConfig file =
    (let c = (case file of None \<Rightarrow> empty_config | Some c \<Rightarrow> c)
     in c\<lparr>tc_RelayURL := (if tc_RelayURL c \<in> {[], ''relay.openfabric.dev:51820'', ''relay.localfabric.dev:51820''} then ''127.0.0.1:4893'' else tc_RelayURL c),
          tc_RelayHTTPS := (if tc_RelayHTTPS c \<in> {[], ''https://relay.openfabric.dev'', ''https://relay.localfabric.dev''} then ''http://127.0.0.1:4893'' else tc_RelayHTTPS c)\<rparr>)"
proof -
  have "foldl (\<lambda>c prefix. migrate prefix c) c oldPrefixes =
      c\<lparr>tc_RelayURL := (if tc_RelayURL c \<in> {''relay.openfabric.dev:51820'', ''relay.localfabric.dev:51820''} then [] else tc_RelayURL c),
        tc_RelayHTTPS := (if tc_RelayHTTPS c \<in> {''https://relay.openfabric.dev'', ''https://relay.localfabric.dev''} then [] else tc_RelayHTTPS c)\<rparr>" for c
    by (cases c) (simp add: oldPrefixes_def migrate_def Let_def)
  then show ?thesis by (simp add: loadOrInitConfig_def Let_def)
qed

text \<open>
  Loading keeps the keys and the PIN, sets both addresses of the relay, never to one of the domains
  that are out of use, and what it saves is loaded again unchanged.
\<close>

theorem config_migration:
  "tc_RelayURL (loadOrInitConfig file) \<notin> {[], ''relay.openfabric.dev:51820'', ''relay.localfabric.dev:51820''} \<and>
   tc_RelayHTTPS (loadOrInitConfig file) \<notin> {[], ''https://relay.openfabric.dev'', ''https://relay.localfabric.dev''} \<and>
   loadOrInitConfig (Some (loadOrInitConfig file)) = loadOrInitConfig file \<and>
   (loadOrInitConfig file)\<lparr>tc_RelayURL := [], tc_RelayHTTPS := []\<rparr> =
     (case file of None \<Rightarrow> empty_config | Some c \<Rightarrow> c)\<lparr>tc_RelayURL := [], tc_RelayHTTPS := []\<rparr>"
  unfolding loadOrInitConfig_result Let_def by simp

text \<open>
  The manager: the configuration in memory and in the file, the servers of the proxy that listen (a
  number and the address each), the one it holds, whether the WireGuard interface is up, and the
  clean-ups that \<open>Disable\<close> has started and that are still to come.
\<close>

record TunnelManager =
  tm_state :: TunnelState
  tm_cfg :: TunnelConfig
  tm_file :: TunnelConfig
  tm_servers :: "nat \<rightharpoonup> string"
  tm_current :: "nat option"
  tm_next :: nat
  tm_wg :: bool
  tm_cleanups :: nat

record Registration =
  rg_TunnelID :: string
  rg_AssignedIP :: string
  rg_TunnelSecret :: string

text \<open>What the surroundings answer to one call of \<open>Enable\<close>; \<open>en_listens\<close> is whether another program leaves the port free.\<close>

record enable_input =
  en_keys :: "(string \<times> string) option"
  en_reg :: "Registration option"
  en_wg :: bool
  en_listens :: bool
  en_now :: time

datatype EnableError = Keygen | RelayRegister | ProxyStart

definition proxy_address :: "string \<Rightarrow> string" where
  "proxy_address tunnelIP = hd (split_on CHR ''/'' tunnelIP) @ '':4894''"

definition proxy_start :: "bool \<Rightarrow> string \<Rightarrow> TunnelManager \<Rightarrow> bool \<times> TunnelManager" where
  "proxy_start listens tunnelIP m =
     (let addr = proxy_address tunnelIP; n = tm_next m;
          m = m\<lparr>tm_current := Some n, tm_next := n + 1\<rparr>
      in if \<not> listens \<or> addr \<in> ran (tm_servers m) then (False, m) else (True, m\<lparr>tm_servers := (tm_servers m)(n \<mapsto> addr)\<rparr>))"

definition proxy_stop :: "TunnelManager \<Rightarrow> TunnelManager" where
  "proxy_stop m = (case tm_current m of None \<Rightarrow> m | Some n \<Rightarrow> m\<lparr>tm_servers := (tm_servers m)(n := None)\<rparr>)"

definition Enable :: "enable_input \<Rightarrow> TunnelManager \<Rightarrow> EnableError option \<times> TunnelManager" where
  "Enable inp m =
     (let m = m\<lparr>tm_state := StateConnecting\<rparr>;
          keyed = (if tc_PrivateKey (tm_cfg m) = []
                   then map_option (\<lambda>(priv, pub). m\<lparr>tm_cfg := (tm_cfg m)\<lparr>tc_PrivateKey := priv, tc_PublicKey := pub\<rparr>\<rparr>) (en_keys inp)
                   else Some m)
      in case keyed of
           None \<Rightarrow> (Some Keygen, m\<lparr>tm_state := StateError\<rparr>)
         | Some m \<Rightarrow>
             (case en_reg inp of
                None \<Rightarrow> (Some RelayRegister, m\<lparr>tm_state := StateError\<rparr>)
              | Some reg \<Rightarrow>
                  let m = m\<lparr>tm_cfg := (tm_cfg m)\<lparr>tc_TunnelID := rg_TunnelID reg, tc_AssignedIP := rg_AssignedIP reg, tc_TunnelSecret := rg_TunnelSecret reg\<rparr>,
                            tm_wg := (en_wg inp \<or> tm_wg m)\<rparr>;
                      listenIP = (if en_wg inp then rg_AssignedIP reg else ''127.0.0.1/24'');
                      (ok, m) = proxy_start (en_listens inp) listenIP m
                  in if \<not> ok then (Some ProxyStart, m\<lparr>tm_wg := (\<not> en_wg inp \<and> tm_wg m), tm_state := StateError\<rparr>)
                     else let cfg = (tm_cfg m)\<lparr>tc_LastConnected := en_now inp\<rparr>
                          in (None, m\<lparr>tm_cfg := cfg, tm_file := cfg, tm_state := StateConnected\<rparr>)))"

definition Disable :: "TunnelManager \<Rightarrow> TunnelManager" where
  "Disable m = m\<lparr>tm_state := StateDisconnected, tm_cleanups := tm_cleanups m + 1\<rparr>"

definition cleanup :: "TunnelManager \<Rightarrow> TunnelManager" where
  "cleanup m = (if tm_cleanups m = 0 then m else (proxy_stop m)\<lparr>tm_wg := False, tm_cleanups := tm_cleanups m - 1\<rparr>)"

definition NewTunnelManager :: "TunnelConfig option \<Rightarrow> TunnelManager" where
  "NewTunnelManager file =
     (let c = loadOrInitConfig file
      in \<lparr>tm_state = StateDisconnected, tm_cfg = c, tm_file = c, tm_servers = Map.empty, tm_current = None, tm_next = 0, tm_wg = False, tm_cleanups = 0\<rparr>)"

datatype tunnel_step = TEnable enable_input | TDisable | TCleanup

fun tunnel_do :: "TunnelManager \<Rightarrow> tunnel_step \<Rightarrow> TunnelManager" where
  "tunnel_do m (TEnable inp) = snd (Enable inp m)"
| "tunnel_do m TDisable = Disable m"
| "tunnel_do m TCleanup = cleanup m"

text \<open>A tunnel is switched on only when its proxy is not listening and no clean-up is to come.\<close>

fun orderly :: "TunnelManager \<Rightarrow> tunnel_step list \<Rightarrow> bool" where
  "orderly m [] = True"
| "orderly m (s # ss) = ((\<forall>inp. s = TEnable inp \<longrightarrow> tm_servers m = Map.empty \<and> tm_cleanups m = 0) \<and> orderly (tunnel_do m s) ss)"

definition tunnel_inv :: "TunnelManager \<Rightarrow> bool" where
  "tunnel_inv m \<longleftrightarrow>
     (\<forall>n addr. tm_servers m n = Some addr \<longrightarrow> tm_current m = Some n) \<and>
     (tm_servers m \<noteq> Map.empty \<and> tm_cleanups m = 0 \<longrightarrow> tm_state m = StateConnected)"

lemma Enable_frame:
  "tm_cleanups (snd (Enable inp m)) = tm_cleanups m \<and>
   (tm_servers m = Map.empty \<longrightarrow> tm_servers (snd (Enable inp m)) = Map.empty \<or>
      (\<exists>addr. tm_servers (snd (Enable inp m)) = [tm_next m \<mapsto> addr] \<and> tm_current (snd (Enable inp m)) = Some (tm_next m) \<and>
         tm_state (snd (Enable inp m)) = StateConnected))"
  by (auto simp: Enable_def proxy_start_def Let_def split: option.splits prod.splits if_splits)

lemma tunnel_inv_step:
  assumes "tunnel_inv m" and "\<forall>inp. s = TEnable inp \<longrightarrow> tm_servers m = Map.empty \<and> tm_cleanups m = 0"
  shows "tunnel_inv (tunnel_do m s)"
proof (cases s)
  case (TEnable inp)
  then show ?thesis using assms(2) Enable_frame [of inp m] by (auto simp: tunnel_inv_def split: if_splits)
next
  case TDisable
  then show ?thesis using assms(1) by (simp add: tunnel_inv_def Disable_def)
next
  case TCleanup
  have "tm_servers (proxy_stop m) = Map.empty"
    using assms(1) by (cases "tm_current m") (auto simp: tunnel_inv_def proxy_stop_def fun_eq_iff)
  then show ?thesis using TCleanup assms(1) by (simp add: cleanup_def tunnel_inv_def)
qed

lemma tunnel_inv_run: "tunnel_inv m \<Longrightarrow> orderly m steps \<Longrightarrow> tunnel_inv (foldl tunnel_do m steps)"
  by (induction steps arbitrary: m) (simp_all add: tunnel_inv_step)

text \<open>
  As long as the tunnel is only switched on when it is off, the manager knows what it serves: at most
  one server listens, it is the one the manager holds, the state is connected until the tunnel is
  switched off, and then the clean-up leaves nothing listening.
\<close>

theorem tunnel_switched_off:
  assumes "orderly (NewTunnelManager file) steps" and "m = foldl tunnel_do (NewTunnelManager file) steps"
  shows "(\<forall>n addr. tm_servers m n = Some addr \<longrightarrow> tm_current m = Some n) \<and>
    (tm_servers m \<noteq> Map.empty \<and> tm_cleanups m = 0 \<longrightarrow> tm_state m = StateConnected) \<and>
    tm_servers (cleanup (Disable m)) = Map.empty \<and> tm_state (cleanup (Disable m)) = StateDisconnected \<and> \<not> tm_wg (cleanup (Disable m))"
proof -
  have "tunnel_inv (NewTunnelManager file)" by (simp add: tunnel_inv_def NewTunnelManager_def Let_def)
  then have inv: "tunnel_inv m" using tunnel_inv_run assms by simp
  have "tm_servers (cleanup (Disable m)) = Map.empty"
    using inv by (cases "tm_current m") (auto simp: tunnel_inv_def cleanup_def Disable_def proxy_stop_def fun_eq_iff)
  moreover have "tm_state (proxy_stop (Disable m)) = StateDisconnected" by (simp add: proxy_stop_def Disable_def split: option.split)
  ultimately show ?thesis using inv by (simp add: tunnel_inv_def cleanup_def Disable_def)
qed

definition relay_only_input :: enable_input where
  "relay_only_input = \<lparr>en_keys = Some (''priv'', ''pub''), en_reg = Some \<lparr>rg_TunnelID = ''t'', rg_AssignedIP = ''10.8.0.2/24'', rg_TunnelSecret = ''s''\<rparr>,
     en_wg = False, en_listens = True, en_now = 5\<rparr>"

theorem tunnel_switched_off_witness:
  "tm_servers (cleanup (Disable (foldl tunnel_do (NewTunnelManager None) [TEnable relay_only_input]))) = Map.empty"
  using tunnel_switched_off [of None "[TEnable relay_only_input]"] by (simp add: NewTunnelManager_def Let_def)

text \<open>
  Switched on twice, the second call replaces the server the manager holds before it finds that the
  address is taken: the manager is in error while the tunnel works, and switching it off closes the
  server that never listened, so the dashboard stays reachable through the tunnel.
\<close>

theorem enabled_twice_stays_open:
  assumes "tm_servers m n = Some (proxy_address ''127.0.0.1/24'')" and "n < tm_next m" and "en_reg inp \<noteq> None" and "\<not> en_wg inp"
    and "tc_PrivateKey (tm_cfg m) \<noteq> []"
  shows "fst (Enable inp m) = Some ProxyStart \<and> tm_state (snd (Enable inp m)) = StateError \<and>
    tm_servers (cleanup (Disable (snd (Enable inp m)))) n = Some (proxy_address ''127.0.0.1/24'') \<and>
    tm_state (cleanup (Disable (snd (Enable inp m)))) = StateDisconnected"
proof -
  obtain reg where "en_reg inp = Some reg" using assms(3) by blast
  moreover have "proxy_address ''127.0.0.1/24'' \<in> ran (tm_servers m)" using assms(1) by (auto simp: ran_def)
  ultimately show ?thesis using assms(1,2,4,5) by (simp add: Enable_def proxy_start_def Let_def cleanup_def Disable_def proxy_stop_def)
qed

theorem enabled_twice_stays_open_witness:
  "tm_servers (cleanup (Disable (snd (Enable relay_only_input (snd (Enable relay_only_input (NewTunnelManager None))))))) 0 =
     Some (proxy_address ''127.0.0.1/24'')"
proof -
  have "tc_PrivateKey (loadOrInitConfig None) = []" by (simp add: loadOrInitConfig_result empty_config_def)
  then have "tm_servers (snd (Enable relay_only_input (NewTunnelManager None))) 0 = Some (proxy_address ''127.0.0.1/24'')"
    "0 < tm_next (snd (Enable relay_only_input (NewTunnelManager None)))" "tc_PrivateKey (tm_cfg (snd (Enable relay_only_input (NewTunnelManager None)))) \<noteq> []"
    by (simp_all add: Enable_def relay_only_input_def NewTunnelManager_def Let_def proxy_start_def)
  then show ?thesis using enabled_twice_stays_open [of "snd (Enable relay_only_input (NewTunnelManager None))" 0 relay_only_input]
    by (simp add: relay_only_input_def)
qed

end
