(* ===== verification/Agents_Tools.thy ===== *)
theory Agents_Tools
  imports Llm_Chat Sched_Priority
begin

text \<open>
  The tools of an autonomous agent, \<open>agents/tools.go\<close>, the steps it announces (\<open>agents/planner.go\<close>) and the
  tools it is offered (\<open>agents/runner.go\<close>). The arguments of a call are a JSON object: those that are
  strings, and the list of strings under \<open>tools\<close>. What a tool does is a value of \<open>ToolAction\<close>; its
  effect belongs to the component it calls.
\<close>

record ToolArgs =
  ta_strings :: "string \<rightharpoonup> string"
  ta_tools :: "string list"

datatype ToolAction =
    McpCall string string ToolArgs | WebSearch string | WebFetch string | ReadFile string | WriteFile string string
  | ListStorage string | RunShell string | SearchBrain string | Remember string string | Notify string | ListClusterNodes
  | SpawnSubAgent string string string "string list"

datatype ToolError =
    NoMcpGateway | MissingArgument string | UnknownTool string | AbsolutePath string | PathTraversal string | BlockedKeyword string
  | NoScheduler | SubmitRefused | TaskDisappeared | ShellFailed string | ShellCancelled | ContextDone | InvalidNodeID | NodeUntrusted
  | StreamFailed | SpawnSendFailed | EventReadFailed | RemoteFailed string | NoOutput

text \<open>\<open>s, _ := args[k].(string)\<close>: the empty string unless the value is a string.\<close>

definition str_arg :: "string \<Rightarrow> ToolArgs \<Rightarrow> string" where
  "str_arg k args = (case ta_strings args k of Some s \<Rightarrow> s | None \<Rightarrow> [])"

definition need_arg :: "string \<Rightarrow> ToolArgs \<Rightarrow> (string \<Rightarrow> ToolAction) \<Rightarrow> ToolError + ToolAction" where
  "need_arg k args act = (if str_arg k args = [] then Inl (MissingArgument k) else Inr (act (str_arg k args)))"

definition ExecuteTool :: "bool \<Rightarrow> string \<Rightarrow> string \<Rightarrow> ToolArgs \<Rightarrow> ToolError + ToolAction" where
  "ExecuteTool mcp agentID toolName args =
     (case split_tool toolName of
        Some (server, mtool) \<Rightarrow> if mcp then Inr (McpCall server mtool args) else Inl NoMcpGateway
      | None \<Rightarrow>
          if toolName = ''web_search'' then need_arg ''query'' args WebSearch
          else if toolName = ''web_fetch'' then need_arg ''url'' args WebFetch
          else if toolName = ''read_file'' then need_arg ''path'' args ReadFile
          else if toolName = ''write_file'' then need_arg ''path'' args (\<lambda>path. WriteFile path (str_arg ''content'' args))
          else if toolName = ''list_storage'' then Inr (ListStorage (str_arg ''path'' args))
          else if toolName = ''run_shell'' then need_arg ''command'' args RunShell
          else if toolName = ''search_brain'' then need_arg ''query'' args SearchBrain
          else if toolName = ''remember'' then need_arg ''fact'' args (Remember agentID)
          else if toolName = ''notify'' then need_arg ''message'' args Notify
          else if toolName = ''list_cluster_nodes'' then Inr ListClusterNodes
          else if toolName = ''spawn_sub_agent'' then need_arg ''goal'' args (\<lambda>goal. SpawnSubAgent agentID (str_arg ''node_id'' args) goal (ta_tools args))
          else Inl (UnknownTool toolName))"

section \<open>What an agent is offered\<close>

definition builtin_names :: "string list" where
  "builtin_names = [''web_search'', ''web_fetch'', ''read_file'', ''write_file'', ''list_storage'', ''run_shell'', ''search_brain'', ''remember'',
     ''notify'', ''list_cluster_nodes'', ''spawn_sub_agent'']"

text \<open>An enabled tool of an MCP server: the server and the full name.\<close>

definition active_tools :: "string list \<Rightarrow> (string \<times> string) list \<Rightarrow> string list" where
  "active_tools allowed mcpTools =
     filter (\<lambda>t. t \<in> set allowed) builtin_names @ map snd (filter (\<lambda>(server, name). server \<in> set allowed) mcpTools)"

definition choose_model :: "string list \<Rightarrow> string" where
  "choose_model localModels =
     (case find (\<lambda>m. \<not> contains (to_lower m) ''embed'') localModels of Some m \<Rightarrow> m | None \<Rightarrow> ''llama3:8b'')"

section \<open>Files\<close>

definition isPathSafe :: "string \<Rightarrow> string \<Rightarrow> ToolError + string" where
  "isPathSafe baseDir path =
     (let base = filepath_Clean baseDir in
      if is_rooted path then Inl (AbsolutePath path)
      else let safe = filepath_Join base (filepath_Clean path); rel = filepath_Rel base safe in
        if starts_with ''..'' rel then Inl (PathTraversal path) else Inr safe)"

text \<open>The file a tool names: its path below the storage and in the file system.\<close>

definition tool_file :: "string \<Rightarrow> string \<Rightarrow> ToolError + string \<times> string" where
  "tool_file dataDir path =
     (let baseDir = filepath_Join dataDir ''storage'' in
      case isPathSafe baseDir path of
        Inl e \<Rightarrow> Inl e
      | Inr resolved \<Rightarrow> Inr (filepath_Rel baseDir resolved, resolved))"

section \<open>Commands\<close>

definition destructiveKeywords :: "string list" where
  "destructiveKeywords = [''rm '', ''rmdir'', ''mkfs'', ''format'', ''dd '', ''delete'', ''unlink'', ''shutdown'']"

text \<open>What a tick of the poll meets: the context done, or the task as the scheduler has it.\<close>

datatype PollEvent = PollDone | PollTask "(TaskStatus \<times> string \<times> string) option"

fun poll_task :: "PollEvent list \<Rightarrow> (ToolError + string) option" where
  "poll_task [] = None"
| "poll_task (PollDone # es) = Some (Inl ContextDone)"
| "poll_task (PollTask None # es) = Some (Inl TaskDisappeared)"
| "poll_task (PollTask (Some (status, out, err)) # es) =
     (case status of
        TaskCompleted \<Rightarrow> Some (Inr out)
      | TaskFailed \<Rightarrow> Some (Inl (ShellFailed err))
      | TaskCancelled \<Rightarrow> Some (Inl ShellCancelled)
      | _ \<Rightarrow> poll_task es)"

text \<open>\<open>toolRunShell\<close>; \<open>submitted\<close> says whether the scheduler took the command. No result while the task is not over.\<close>

definition toolRunShell :: "bool \<Rightarrow> bool \<Rightarrow> PollEvent list \<Rightarrow> string \<Rightarrow> (ToolError + string) option" where
  "toolRunShell has_scheduler submitted events command =
     (case find (\<lambda>kw. contains (to_lower command) kw) destructiveKeywords of
        Some kw \<Rightarrow> Some (Inl (BlockedKeyword kw))
      | None \<Rightarrow>
          if \<not> has_scheduler then Some (Inl NoScheduler)
          else if \<not> submitted then Some (Inl SubmitRefused)
          else poll_task events)"

section \<open>Sub-agents\<close>

definition gpu_demand :: "string list \<Rightarrow> bool" where
  "gpu_demand tools \<longleftrightarrow> list_ex (\<lambda>t. contains t ''image'' \<or> contains t ''gpu'') tools"

text \<open>The node of a sub-agent; \<open>nodes\<close> is the list of the cluster, \<open>None\<close> when there is no cluster manager.\<close>

definition spawn_node :: "string \<Rightarrow> NodeInfo list option \<Rightarrow> string \<Rightarrow> string list \<Rightarrow> string" where
  "spawn_node self nodes nodeID tools =
     (if nodeID \<noteq> [] then nodeID
      else case nodes of
        None \<Rightarrow> self
      | Some ns \<Rightarrow>
          (case (if gpu_demand tools then find (\<lambda>n. ni_Status n = StatusOnline \<and> gi_Available (ni_GPU n)) ns
                 else find (\<lambda>n. ni_Status n = StatusOnline \<and> ni_ID n \<noteq> self) ns) of
             Some n \<Rightarrow> ni_ID n
           | None \<Rightarrow> self))"

datatype SwarmEvent = SwarmLog int string | SwarmStepComplete int string | SwarmComplete string | SwarmError string

text \<open>The events a remote node sends until the end of the stream; \<open>None\<close> is one that cannot be read.\<close>

fun read_events :: "SwarmEvent option list \<Rightarrow> string \<Rightarrow> ToolError + string" where
  "read_events [] finalOutput = (if finalOutput = [] then Inl NoOutput else Inr finalOutput)"
| "read_events (None # es) finalOutput = Inl EventReadFailed"
| "read_events (Some e # es) finalOutput =
     (case e of
        SwarmComplete out \<Rightarrow> read_events es out
      | SwarmError err \<Rightarrow> Inl (RemoteFailed err)
      | _ \<Rightarrow> read_events es finalOutput)"

text \<open>How far the connection to the node gets; \<open>trusted\<close> is \<open>None\<close> without a cluster manager.\<close>

datatype SpawnStream = SpawnBadID | SpawnNoStream | SpawnNotSent | SpawnOpen "SwarmEvent option list"

definition spawn_remote :: "bool option \<Rightarrow> SpawnStream \<Rightarrow> ToolError + string" where
  "spawn_remote trusted stream =
     (case stream of
        SpawnBadID \<Rightarrow> Inl InvalidNodeID
      | _ \<Rightarrow>
          if trusted = Some False then Inl NodeUntrusted
          else case stream of
            SpawnNoStream \<Rightarrow> Inl StreamFailed
          | SpawnNotSent \<Rightarrow> Inl SpawnSendFailed
          | SpawnOpen es \<Rightarrow> read_events es []
          | SpawnBadID \<Rightarrow> Inl InvalidNodeID)"

section \<open>Announced steps\<close>

definition plan_kind :: "string \<Rightarrow> string list" where
  "plan_kind goal =
     (let has = (\<lambda>w. contains (to_lower goal) w) in
      if has ''research'' \<or> has ''vector'' then [''web_search'', ''web_fetch'', ''search_brain'', ''write_file'', ''notify'']
      else if has ''review'' \<or> has ''lint'' then [''list_storage'', ''run_shell'', ''write_file'', ''notify'']
      else if has ''digest'' \<or> has ''summarise'' \<or> has ''summarize'' then [''list_storage'', ''read_file'', ''write_file'', ''notify'']
      else if has ''organise'' \<or> has ''organizer'' \<or> has ''organize'' then [''list_storage'', ''run_shell'', ''notify'']
      else [''search_brain'', ''run_shell'', ''notify''])"

section \<open>Properties\<close>

lemma filepath_Clean_base: "is_rooted s \<Longrightarrow> is_rooted (filepath_Clean s)"
  by (simp add: filepath_Clean_def show_path_def is_rooted_def)

text \<open>
  The file of a tool call lies below the storage of the node, and the scheduler, the store and the
  sub-agents get what the arguments say: whatever name the model gives, a path that leaves the
  storage is refused.
\<close>

theorem tool_files_contained:
  assumes "tool_file dataDir path = Inr (rel, resolved)"
  shows "\<not> is_rooted path \<and> (\<exists>rest. path_comps resolved = path_comps (filepath_Clean (filepath_Join dataDir ''storage'')) @ rest)"
  using assms filepath_Rel_inside by (auto simp: tool_file_def isPathSafe_def Let_def split: sum.splits if_splits)

theorem tool_files_contained_witness:
  "\<exists>rest. path_comps ''/d/storage/notes/a.txt'' = path_comps (filepath_Clean (filepath_Join ''/d'' ''storage'')) @ rest"
proof -
  have "tool_file ''/d'' ''notes/./a.txt'' = Inr (''notes/a.txt'', ''/d/storage/notes/a.txt'')" by code_simp
  from tool_files_contained [OF this] show ?thesis by simp
qed

text \<open>A file below the storage whose name begins with two dots cannot be used.\<close>

lemma dotted_name_refused: "tool_file ''/d'' ''..notes'' = Inl (PathTraversal ''..notes'')"
  by code_simp

text \<open>
  A sub-agent without a wish goes to a node that is online: with a GPU if its tools sound like images, to
  another node if there is one otherwise, and it stays here if there is none.
\<close>

theorem spawn_node_online:
  assumes "spawn_node self (Some ns) [] tools = target" and "target \<noteq> self"
  shows "\<exists>n \<in> set ns. ni_ID n = target \<and> ni_Status n = StatusOnline \<and> (gpu_demand tools \<longrightarrow> gi_Available (ni_GPU n))"
  using assms by (auto simp: spawn_node_def find_Some_iff split: option.splits if_splits)

definition spare_node :: NodeInfo where
  "spare_node = \<lparr>ni_ID = ''n'', ni_Name = ''n'', ni_Status = StatusOnline, ni_DeviceType = DeviceDesktop, ni_OS = [], ni_Arch = [], ni_CPUPercent = 0,
     ni_RAMUsed = 0, ni_RAMTotal = 0, ni_StorageUsed = 0, ni_StorageTotal = 0, ni_Addresses = [], ni_LastSeen = 0, ni_JoinedAt = 0,
     ni_UptimeSeconds = 0, ni_GPU = \<lparr>gi_Available = True, gi_VRAM = 0, gi_VRAMFree = 0\<rparr>\<rparr>"

theorem spawn_node_online_witness: "ni_Status spare_node = StatusOnline"
proof -
  have "spawn_node ''self'' (Some [spare_node]) [] [''notify''] = ''n''"
    by (simp add: spawn_node_def gpu_demand_def spare_node_def)
  from spawn_node_online [OF this] show ?thesis by simp
qed

text \<open>
  An answer of \<open>run_shell\<close> other than an error is the output of the task the scheduler completed, for a
  command without a blocked word.
\<close>

lemma poll_completed: "poll_task es = Some (Inr out) \<Longrightarrow> \<exists>err. PollTask (Some (TaskCompleted, out, err)) \<in> set es"
  by (induction es rule: poll_task.induct) (auto split: TaskStatus.splits)

theorem run_shell_output:
  assumes "toolRunShell has_scheduler submitted events command = Some (Inr out)"
  shows "(\<forall>kw \<in> set destructiveKeywords. \<not> contains (to_lower command) kw) \<and> submitted \<and>
    (\<exists>err. PollTask (Some (TaskCompleted, out, err)) \<in> set events)"
  using assms poll_completed by (auto simp: toolRunShell_def find_None_iff split: option.splits if_splits)

theorem run_shell_output_witness: "\<exists>err. PollTask (Some (TaskCompleted, ''ok'', err)) \<in> {PollTask (Some (TaskRunning, [], [])), PollTask (Some (TaskCompleted, ''ok'', []))}"
proof -
  have "toolRunShell True True [PollTask (Some (TaskRunning, [], [])), PollTask (Some (TaskCompleted, ''ok'', []))] ''ls'' = Some (Inr ''ok'')"
    by code_simp
  from run_shell_output [OF this] show ?thesis by auto
qed

text \<open>The words are matched as text: harmless words are blocked, and a tab hides a command.\<close>

lemma keyword_gaps:
  "toolRunShell True True [PollTask (Some (TaskCompleted, [], []))] ''git log --format=%h'' = Some (Inl (BlockedKeyword ''format''))"
  "toolRunShell True True [PollTask (Some (TaskCompleted, [], []))] (''rm'' @ [CHR 0x09] @ ''-rf storage'') = Some (Inr [])"
  by code_simp+

text \<open>
  A remote sub-agent succeeds with the output of the last completion it reports; an error, a broken
  stream and an empty output are errors.
\<close>

lemma read_events_spec:
  "read_events es acc = Inr out \<Longrightarrow> out \<noteq> [] \<and> None \<notin> set es \<and> (\<forall>err. Some (SwarmError err) \<notin> set es) \<and>
     (out = acc \<or> Some (SwarmComplete out) \<in> set es)"
  by (induction es acc rule: read_events.induct) (auto split: SwarmEvent.splits if_splits)

text \<open>Every announced tool exists.\<close>

lemma plan_builtin: "set (plan_kind goal) \<subseteq> set builtin_names"
  by (simp add: plan_kind_def builtin_names_def Let_def)

lemma builtin_known:
  "name \<in> set builtin_names \<Longrightarrow> ExecuteTool mcp agent name args \<noteq> Inl (UnknownTool name)"
  by (auto simp: builtin_names_def ExecuteTool_def need_arg_def split: if_splits)

end
