(* ===== verification/Agents_Run.thy ===== *)
theory Agents_Run
  imports Agents_Tools
begin

text \<open>
  The autonomous agents of a node: \<open>agents/agent.go\<close> and the loop of \<open>agents/runner.go\<close>. A run of the loop is a
  goroutine; its position between the sections it executes under the lock is part of the state, so
  that calls of the API and several runs interleave. The model and the tools answer whatever they
  like. The file of an agent is written with every change; that these writes succeed is assumed
  except at the creation, the only one whose error the code looks at.
\<close>

datatype AgentStatus = AgPending | AgRunning | AgCompleted | AgFailed | AgCancelled

datatype AgentStepStatus = StPending | StRunning | StCompleted | StFailed

record 'j AgentStep =
  st_Number :: nat
  st_Tool :: string
  st_Args :: "'j option"
  st_Result :: string
  st_Status :: AgentStepStatus
  st_Log :: string

text \<open>\<open>ag_slice\<close> numbers the slices that \<open>Steps\<close> has been set to: a pointer into an old one changes nothing.\<close>

record 'j Agent =
  ag_ID :: string
  ag_Goal :: string
  ag_Tools :: "string list"
  ag_Status :: AgentStatus
  ag_Steps :: "'j AgentStep list"
  ag_slice :: nat
  ag_Output :: string
  ag_Error :: string
  ag_CreatedAt :: time
  ag_CompletedAt :: time

text \<open>Where a run is: at the head of the loop, waiting for the model or a tool, or before the deferred call.\<close>

datatype 'j phase = LoopHead | AskModel | CallTool string 'j | Leaving

record 'j agent_run =
  rn_agent :: string
  rn_phase :: "'j phase"
  rn_stepCount :: nat
  rn_history :: "'j ChatMessage list"
  rn_cancelled :: bool
  rn_curStep :: "nat \<times> nat"

record 'j AgentManager =
  am_agents :: "string \<rightharpoonup> 'j Agent"
  am_files :: "string \<rightharpoonup> 'j Agent"
  am_cancels :: "string \<rightharpoonup> nat"
  am_runs :: "nat \<rightharpoonup> 'j agent_run"
  am_next :: nat

datatype AgentError = AgentNotFound | AlreadyRunning | SaveFailed

section \<open>The operations of the manager\<close>

definition put_agent :: "'j Agent \<Rightarrow> 'j AgentManager \<Rightarrow> 'j AgentManager" where
  "put_agent a m = m\<lparr>am_agents := (am_agents m)(ag_ID a \<mapsto> a), am_files := (am_files m)(ag_ID a \<mapsto> a)\<rparr>"

definition NewAgentManager :: "(string \<rightharpoonup> 'j Agent) \<Rightarrow> 'j AgentManager" where
  "NewAgentManager disk = \<lparr>am_agents = disk, am_files = disk, am_cancels = Map.empty, am_runs = Map.empty, am_next = 0\<rparr>"

definition CreateAgent :: "time \<Rightarrow> string \<Rightarrow> string list \<Rightarrow> bool \<Rightarrow> 'j AgentManager \<Rightarrow> (AgentError + 'j Agent) \<times> 'j AgentManager" where
  "CreateAgent now goal tools saved m =
     (let a = \<lparr>ag_ID = ''agent-'' @ show_int now, ag_Goal = goal, ag_Tools = tools, ag_Status = AgPending, ag_Steps = [], ag_slice = 0,
               ag_Output = [], ag_Error = [], ag_CreatedAt = now, ag_CompletedAt = zero_time\<rparr>
      in if saved then (Inr a, put_agent a m) else (Inl SaveFailed, m))"

definition GenerateInitialSteps :: "string \<Rightarrow> 'j AgentStep list" where
  "GenerateInitialSteps goal =
     map (\<lambda>(n, tool). \<lparr>st_Number = n, st_Tool = tool, st_Args = None, st_Result = [], st_Status = StPending, st_Log = []\<rparr>)
       (zip [1..<Suc (length (plan_kind goal))] (plan_kind goal))"

definition system_prompt :: string where
  "system_prompt = join_with [CHR 0x0A]
     [''You are an autonomous AI Agent executing a goal-oriented ReAct (Reasoning + Acting) loop.'',
      ''Your objective is to complete the user's goal step-by-step.'',
      ''For each step, you must choose one of the available functions/tools to gather information or make progress.'',
      ''Check the outputs of your tool calls to reason about the next step.'',
      ''If a tool fails, try a different parameter or approach.'',
      ''When you have fully accomplished the goal, present the final output/report to the user without calling any more tools.'',
      ''Be rigorous, structured, and complete.'']"

definition first_messages :: "string \<Rightarrow> 'j ChatMessage list" where
  "first_messages goal =
     [\<lparr>cm_Role = ''system'', cm_Content = system_prompt, cm_ToolCalls = [], cm_Name = []\<rparr>,
      \<lparr>cm_Role = ''user'', cm_Content = ''Goal: '' @ goal, cm_ToolCalls = [], cm_Name = []\<rparr>]"

definition StartAgent :: "string \<Rightarrow> 'j AgentManager \<Rightarrow> AgentError option \<times> 'j AgentManager" where
  "StartAgent k m =
     (case am_agents m k of
        None \<Rightarrow> (Some AgentNotFound, m)
      | Some a \<Rightarrow>
          if ag_Status a = AgRunning then (Some AlreadyRunning, m)
          else let r = am_next m;
                   run = \<lparr>rn_agent = k, rn_phase = LoopHead, rn_stepCount = 0, rn_history = first_messages (ag_Goal a), rn_cancelled = False, rn_curStep = (0, 0)\<rparr>;
                   m = put_agent (a\<lparr>ag_Status := AgRunning, ag_Steps := GenerateInitialSteps (ag_Goal a), ag_slice := ag_slice a + 1\<rparr>) m
               in (None, m\<lparr>am_cancels := (am_cancels m)(k \<mapsto> r), am_runs := (am_runs m)(r \<mapsto> run), am_next := r + 1\<rparr>))"

definition cancel_run :: "nat \<Rightarrow> 'j AgentManager \<Rightarrow> 'j AgentManager" where
  "cancel_run r m = m\<lparr>am_runs := (am_runs m)(r := map_option (rn_cancelled_update (\<lambda>_. True)) (am_runs m r))\<rparr>"

definition stop_agent :: "time \<Rightarrow> string \<Rightarrow> 'j Agent \<Rightarrow> 'j Agent" where
  "stop_agent now err a = a\<lparr>ag_Status := AgCancelled, ag_CompletedAt := now, ag_Error := err\<rparr>"

definition CancelAgent :: "time \<Rightarrow> string \<Rightarrow> 'j AgentManager \<Rightarrow> AgentError option \<times> 'j AgentManager" where
  "CancelAgent now k m =
     (case am_agents m k of
        None \<Rightarrow> (Some AgentNotFound, m)
      | Some a \<Rightarrow>
          let m = (case am_cancels m k of None \<Rightarrow> m | Some r \<Rightarrow> (cancel_run r m)\<lparr>am_cancels := (am_cancels m)(k := None)\<rparr>)
          in (None, if ag_Status a = AgPending \<or> ag_Status a = AgRunning then put_agent (stop_agent now (ag_Error a) a) m else m))"

definition Agents_Shutdown :: "time \<Rightarrow> 'j AgentManager \<Rightarrow> 'j AgentManager" where
  "Agents_Shutdown now m =
     (let stop = (\<lambda>a. if ag_Status a = AgPending \<or> ag_Status a = AgRunning then stop_agent now ''agent shutting down'' a else a)
      in m\<lparr>am_runs := (\<lambda>r. map_option (\<lambda>run. if am_cancels m (rn_agent run) = Some r then run\<lparr>rn_cancelled := True\<rparr> else run) (am_runs m r)),
           am_cancels := Map.empty,
           am_agents := (\<lambda>k. map_option stop (am_agents m k)),
           am_files := (\<lambda>k. case am_agents m k of
              Some a \<Rightarrow> if ag_Status a = AgPending \<or> ag_Status a = AgRunning then Some (stop a) else am_files m k
            | None \<Rightarrow> am_files m k)\<rparr>)"

section \<open>The loop\<close>

definition maxSteps :: nat where "maxSteps = 50"

definition set_run :: "nat \<Rightarrow> 'j agent_run \<Rightarrow> 'j AgentManager \<Rightarrow> 'j AgentManager" where
  "set_run r run m = m\<lparr>am_runs := (am_runs m)(r \<mapsto> run)\<rparr>"

definition update_step :: "'j agent_run \<Rightarrow> ('j AgentStep \<Rightarrow> 'j AgentStep) \<Rightarrow> 'j Agent \<Rightarrow> 'j Agent" where
  "update_step run f a =
     (if fst (rn_curStep run) = ag_slice a \<and> snd (rn_curStep run) < length (ag_Steps a)
      then a\<lparr>ag_Steps := (ag_Steps a)[snd (rn_curStep run) := f (ag_Steps a ! snd (rn_curStep run))]\<rparr> else a)"

text \<open>The end of a run: the status of the agent, then the deferred call.\<close>

definition finish_run :: "nat \<Rightarrow> 'j agent_run \<Rightarrow> 'j Agent \<Rightarrow> 'j AgentManager \<Rightarrow> 'j AgentManager" where
  "finish_run r run a m = set_run r (run\<lparr>rn_phase := Leaving\<rparr>) (put_agent a m)"

fun step_index :: "nat \<Rightarrow> 'j AgentStep list \<Rightarrow> nat option" where
  "step_index n [] = None"
| "step_index n (s # ss) = (if st_Number s = n then Some 0 else map_option Suc (step_index n ss))"

definition prepare_step :: "nat \<Rightarrow> 'j Agent \<Rightarrow> 'j Agent \<times> nat" where
  "prepare_step n a =
     (case step_index n (ag_Steps a) of
        None \<Rightarrow>
          (a\<lparr>ag_Steps := ag_Steps a @ [\<lparr>st_Number = n, st_Tool = [], st_Args = None, st_Result = [], st_Status = StRunning,
                                       st_Log = ''Thinking about the next action...''\<rparr>]\<rparr>, length (ag_Steps a))
      | Some i \<Rightarrow>
          (a\<lparr>ag_Steps := (ag_Steps a)[i := (ag_Steps a ! i)\<lparr>st_Status := StRunning, st_Log := ''Thinking about the next action...''\<rparr>]\<rparr>, i))"

definition loop_head :: "time \<Rightarrow> nat \<Rightarrow> 'j agent_run \<Rightarrow> 'j Agent \<Rightarrow> 'j AgentManager \<Rightarrow> 'j AgentManager" where
  "loop_head now r run a m =
     (let n = rn_stepCount run + 1; run = run\<lparr>rn_stepCount := n\<rparr> in
      if n > maxSteps then
        finish_run r run (a\<lparr>ag_Status := AgFailed, ag_Error := ''exceeded maximum ReAct steps (50)'', ag_CompletedAt := now\<rparr>) m
      else if rn_cancelled run then finish_run r run (a\<lparr>ag_Status := AgCancelled, ag_CompletedAt := now\<rparr>) m
      else let (a, i) = prepare_step n a in set_run r (run\<lparr>rn_phase := AskModel, rn_curStep := (ag_slice a, i)\<rparr>) (put_agent a m))"

definition model_answered ::
  "time \<Rightarrow> (string + 'j ChatMessage) \<Rightarrow> nat \<Rightarrow> 'j agent_run \<Rightarrow> 'j Agent \<Rightarrow> 'j AgentManager \<Rightarrow> 'j AgentManager" where
  "model_answered now answer r run a m =
     (case answer of
        Inl err \<Rightarrow>
          if rn_cancelled run then
            finish_run r run ((update_step run (\<lambda>s. s\<lparr>st_Status := StFailed, st_Log := ''Execution cancelled''\<rparr>) a)\<lparr>ag_Status := AgCancelled, ag_CompletedAt := now\<rparr>) m
          else
            finish_run r run ((update_step run (\<lambda>s. s\<lparr>st_Status := StFailed, st_Log := err\<rparr>) a)
              \<lparr>ag_Status := AgFailed, ag_Error := ''Ollama chat failed: '' @ err, ag_CompletedAt := now\<rparr>) m
      | Inr msg \<Rightarrow>
          (case cm_ToolCalls msg of
             [] \<Rightarrow>
               finish_run r run ((update_step run (\<lambda>s. s\<lparr>st_Status := StCompleted, st_Tool := ''final_answer'',
                   st_Log := ''Goal accomplished. Formulated final response.''\<rparr>) a)
                 \<lparr>ag_Status := AgCompleted, ag_Output := cm_Content msg, ag_CompletedAt := now\<rparr>) m
           | tc # _ \<Rightarrow>
               set_run r (run\<lparr>rn_history := rn_history run @ [msg], rn_phase := CallTool (tc_Name tc) (tc_Arguments tc)\<rparr>)
                 (put_agent (update_step run (\<lambda>s. s\<lparr>st_Tool := tc_Name tc, st_Args := Some (tc_Arguments tc),
                     st_Log := ''Invoking tool '' @ tc_Name tc @ ''...''\<rparr>) a) m)))"

definition tool_summary :: "string \<Rightarrow> string" where
  "tool_summary s = (if length s > 200 then take 200 s @ ''...'' else s)"

definition tool_answered ::
  "time \<Rightarrow> (string + string) \<Rightarrow> string \<Rightarrow> nat \<Rightarrow> 'j agent_run \<Rightarrow> 'j Agent \<Rightarrow> 'j AgentManager \<Rightarrow> 'j AgentManager" where
  "tool_answered now result name r run a m =
     (if rn_cancelled run then
        finish_run r run ((update_step run (\<lambda>s. s\<lparr>st_Status := StFailed, st_Log := ''Execution cancelled''\<rparr>) a)\<lparr>ag_Status := AgCancelled, ag_CompletedAt := now\<rparr>) m
      else let toolResult = (case result of Inl err \<Rightarrow> ''Tool execution failed: '' @ err | Inr out \<Rightarrow> out);
               f = (case result of
                      Inl err \<Rightarrow> (\<lambda>s. s\<lparr>st_Status := StFailed, st_Result := ''Error: '' @ err, st_Log := toolResult\<rparr>)
                    | Inr out \<Rightarrow> (\<lambda>s. s\<lparr>st_Status := StCompleted, st_Result := out,
                        st_Log := ''Tool executed successfully. Output summary: '' @ tool_summary out\<rparr>));
               msg = \<lparr>cm_Role = ''tool'', cm_Content = toolResult, cm_ToolCalls = [], cm_Name = name\<rparr>
           in set_run r (run\<lparr>rn_history := rn_history run @ [msg], rn_phase := LoopHead\<rparr>) (put_agent (update_step run f a) m))"

text \<open>The deferred call deletes whatever cancel function is stored under the agent.\<close>

definition leave_run :: "nat \<Rightarrow> 'j agent_run \<Rightarrow> 'j AgentManager \<Rightarrow> 'j AgentManager" where
  "leave_run r run m = m\<lparr>am_cancels := (am_cancels m)(rn_agent run := None), am_runs := (am_runs m)(r := None)\<rparr>"

section \<open>Steps\<close>

datatype 'j agent_step =
    ACreate time string "string list" bool | AStart string | ACancel time string | AShutdown time
  | AHead nat time | AModel nat time "string + 'j ChatMessage" | ATool nat time "string + string" | ALeave nat

fun run_of :: "'j agent_step \<Rightarrow> nat option" where
  "run_of (AHead r now) = Some r"
| "run_of (AModel r now ans) = Some r"
| "run_of (ATool r now res) = Some r"
| "run_of (ALeave r) = Some r"
| "run_of _ = None"

text \<open>A step of a run happens only where the run is.\<close>

fun run_step :: "'j agent_step \<Rightarrow> 'j agent_run \<Rightarrow> 'j Agent \<Rightarrow> 'j AgentManager \<Rightarrow> 'j AgentManager option" where
  "run_step (AHead r now) run a m = (if rn_phase run = LoopHead then Some (loop_head now r run a m) else None)"
| "run_step (AModel r now ans) run a m = (if rn_phase run = AskModel then Some (model_answered now ans r run a m) else None)"
| "run_step (ATool r now res) run a m = (case rn_phase run of CallTool name args \<Rightarrow> Some (tool_answered now res name r run a m) | _ \<Rightarrow> None)"
| "run_step (ALeave r) run a m = (if rn_phase run = Leaving then Some (leave_run r run m) else None)"
| "run_step _ run a m = None"

definition agent_do :: "'j AgentManager \<Rightarrow> 'j agent_step \<Rightarrow> 'j AgentManager" where
  "agent_do m s =
     (case s of
        ACreate now goal tools saved \<Rightarrow> snd (CreateAgent now goal tools saved m)
      | AStart k \<Rightarrow> snd (StartAgent k m)
      | ACancel now k \<Rightarrow> snd (CancelAgent now k m)
      | AShutdown now \<Rightarrow> Agents_Shutdown now m
      | _ \<Rightarrow>
          (case run_of s of
             None \<Rightarrow> m
           | Some r \<Rightarrow>
               (case am_runs m r of
                  None \<Rightarrow> m
                | Some run \<Rightarrow>
                    (case am_agents m (rn_agent run) of
                       None \<Rightarrow> m
                     | Some a \<Rightarrow> (case run_step s run a m of None \<Rightarrow> m | Some m' \<Rightarrow> m')))))"

definition agent_runs :: "'j AgentManager \<Rightarrow> 'j agent_step list \<Rightarrow> 'j AgentManager" where
  "agent_runs = foldl agent_do"


section \<open>The invariant\<close>

definition exchange_ok :: "'j ChatMessage \<times> 'j ChatMessage \<Rightarrow> bool" where
  "exchange_ok e \<longleftrightarrow> (\<exists>tc tcs. cm_ToolCalls (fst e) = tc # tcs \<and> cm_Role (snd e) = ''tool'' \<and> cm_Name (snd e) = tc_Name tc \<and> cm_ToolCalls (snd e) = [])"

definition history_of :: "string \<Rightarrow> ('j ChatMessage \<times> 'j ChatMessage) list \<Rightarrow> 'j ChatMessage list" where
  "history_of goal es = first_messages goal @ concat (map (\<lambda>(q, t). [q, t]) es)"

text \<open>The conversation of a run: whole exchanges, and a call that is not answered yet while the tool runs.\<close>

definition run_ok :: "'j agent_run \<Rightarrow> bool" where
  "run_ok run \<longleftrightarrow>
     (\<exists>goal es. (\<forall>e \<in> set es. exchange_ok e) \<and> length es \<le> rn_stepCount run \<and>
        (case rn_phase run of
           LoopHead \<Rightarrow> rn_history run = history_of goal es \<and> rn_stepCount run \<le> maxSteps
         | AskModel \<Rightarrow> rn_history run = history_of goal es \<and> length es < rn_stepCount run \<and> rn_stepCount run \<le> maxSteps
         | CallTool name args \<Rightarrow>
             (\<exists>msg tcs. rn_history run = history_of goal es @ [msg] \<and> cm_ToolCalls msg = \<lparr>tc_Name = name, tc_Arguments = args\<rparr> # tcs) \<and>
             length es < rn_stepCount run \<and> rn_stepCount run \<le> maxSteps
         | Leaving \<Rightarrow> True))"

definition agents_inv :: "'j AgentManager \<Rightarrow> bool" where
  "agents_inv m \<longleftrightarrow>
     am_files m = am_agents m \<and> (\<forall>k a. am_agents m k = Some a \<longrightarrow> ag_ID a = k) \<and>
     (\<forall>r run. am_runs m r = Some run \<longrightarrow> r < am_next m \<and> am_agents m (rn_agent run) \<noteq> None \<and> run_ok run) \<and>
     (\<forall>k r. am_cancels m k = Some r \<longrightarrow> (\<exists>run. am_runs m r = Some run \<and> rn_agent run = k)) \<and>
     (\<forall>k a. am_agents m k = Some a \<longrightarrow> ag_Status a = AgRunning \<longrightarrow>
        (\<exists>r run. am_runs m r = Some run \<and> rn_agent run = k \<and> rn_phase run \<noteq> Leaving))"

lemma update_step_frame [simp]:
  "ag_ID (update_step run f a) = ag_ID a" "ag_Status (update_step run f a) = ag_Status a" "ag_Goal (update_step run f a) = ag_Goal a"
  by (simp_all add: update_step_def)

lemma prepare_step_frame: "prepare_step n a = (a', i) \<Longrightarrow> ag_ID a' = ag_ID a \<and> ag_Status a' = ag_Status a"
  by (auto simp: prepare_step_def split: option.splits)

lemma agents_invD:
  assumes "agents_inv m"
  shows "am_cancels m k = Some r \<Longrightarrow> \<exists>run. am_runs m r = Some run \<and> rn_agent run = k"
    and "am_runs m r = Some run \<Longrightarrow> r < am_next m \<and> am_agents m (rn_agent run) \<noteq> None \<and> run_ok run"
    and "am_agents m k = Some a \<Longrightarrow> ag_Status a = AgRunning \<Longrightarrow> \<exists>r run. am_runs m r = Some run \<and> rn_agent run = k \<and> rn_phase run \<noteq> Leaving"
  using assms unfolding agents_inv_def by blast+

text \<open>The two shapes of a step of a run: it goes on, or it ends with a final status.\<close>

lemma put_run_inv:
  assumes inv: "agents_inv m" and r: "am_runs m r = Some run" and a: "am_agents m (rn_agent run) = Some a"
    and "rn_agent run' = rn_agent run" and "run_ok run'" and "ag_ID a' = ag_ID a"
    and "rn_phase run' = Leaving \<longrightarrow> ag_Status a' \<noteq> AgRunning" and "rn_phase run' \<noteq> Leaving \<longrightarrow> ag_Status a' = ag_Status a"
  shows "agents_inv (set_run r run' (put_agent a' m))"
proof -
  have k: "ag_ID a' = rn_agent run" using inv a assms(6) by (simp add: agents_inv_def)
  have run: "\<exists>r2 run2. am_runs (set_run r run' (put_agent a' m)) r2 = Some run2 \<and> rn_agent run2 = k2 \<and> rn_phase run2 \<noteq> Leaving"
    if k2: "am_agents (set_run r run' (put_agent a' m)) k2 = Some a2" "ag_Status a2 = AgRunning" for k2 a2
  proof (cases "k2 = rn_agent run")
    case True
    then have "rn_phase run' \<noteq> Leaving" using k2 k assms(7) by (auto simp: set_run_def put_agent_def)
    then show ?thesis using True assms(4) by (auto simp: set_run_def put_agent_def)
  next
    case False
    then have "am_agents m k2 = Some a2" using k2(1) k by (simp add: set_run_def put_agent_def)
    then obtain r2 run2 where r2: "am_runs m r2 = Some run2" "rn_agent run2 = k2" "rn_phase run2 \<noteq> Leaving"
      using inv k2(2) unfolding agents_inv_def by blast
    then have "r2 \<noteq> r" using False r by auto
    then show ?thesis using r2 by (auto simp: set_run_def put_agent_def)
  qed
  have c: "\<exists>run2. am_runs (set_run r run' (put_agent a' m)) r2 = Some run2 \<and> rn_agent run2 = k2"
    if "am_cancels (set_run r run' (put_agent a' m)) k2 = Some r2" for k2 r2
  proof -
    have "am_cancels m k2 = Some r2" using that by (simp add: set_run_def put_agent_def)
    from agents_invD(1) [OF inv this] show ?thesis using r assms(4) by (cases "r2 = r") (auto simp: set_run_def put_agent_def)
  qed
  show ?thesis using inv r k assms(4,5) c run unfolding agents_inv_def
    by (auto simp: set_run_def put_agent_def fun_upd_def split: if_splits)
qed

lemma leave_inv:
  assumes inv: "agents_inv m" and "am_runs m r = Some run" and "rn_phase run = Leaving"
  shows "agents_inv (leave_run r run m)"
proof -
  have "\<exists>r2 run2. am_runs (leave_run r run m) r2 = Some run2 \<and> rn_agent run2 = k2 \<and> rn_phase run2 \<noteq> Leaving"
    if k2: "am_agents m k2 = Some a2" "ag_Status a2 = AgRunning" for k2 a2
  proof -
    obtain r2 run2 where r2: "am_runs m r2 = Some run2" "rn_agent run2 = k2" "rn_phase run2 \<noteq> Leaving"
      using inv k2 unfolding agents_inv_def by blast
    then have "r2 \<noteq> r" using assms(2,3) by auto
    then show ?thesis using r2 by (auto simp: leave_run_def)
  qed
  moreover have "\<exists>run2. am_runs (leave_run r run m) r2 = Some run2 \<and> rn_agent run2 = k2"
    if "am_cancels (leave_run r run m) k2 = Some r2" for k2 r2
  proof -
    have "am_cancels m k2 = Some r2" "k2 \<noteq> rn_agent run" using that by (auto simp: leave_run_def split: if_splits)
    from agents_invD(1) [OF inv this(1)] this(2) show ?thesis using assms(2) by (cases "r2 = r") (auto simp: leave_run_def)
  qed
  ultimately show ?thesis using inv unfolding agents_inv_def by (auto simp: leave_run_def split: if_splits)
qed

lemma run_ok_Leaving: "run_ok run \<Longrightarrow> run_ok (run\<lparr>rn_phase := Leaving, rn_stepCount := n\<rparr>)"
  unfolding run_ok_def by (rule exI [of _ "[]"], rule exI [of _ "[]"]) simp

lemma run_ok_finish: "run_ok (run\<lparr>rn_phase := Leaving\<rparr>)"
  unfolding run_ok_def by (rule exI [of _ "[]"], rule exI [of _ "[]"]) simp

lemma finish_inv:
  assumes "agents_inv m" and "am_runs m r = Some run" and "am_agents m (rn_agent run) = Some a" and "rn_agent run' = rn_agent run"
    and "ag_ID a' = ag_ID a" and "ag_Status a' \<noteq> AgRunning"
  shows "agents_inv (finish_run r run' a' m)"
  unfolding finish_run_def using assms run_ok_finish by (intro put_run_inv [OF assms(1-3)]) auto

lemma history_snoc: "history_of goal (es @ [(q, t)]) = history_of goal es @ [q, t]"
  by (simp add: history_of_def)

lemma run_step_inv:
  assumes inv: "agents_inv m" and r: "am_runs m r = Some run" and a: "am_agents m (rn_agent run) = Some a"
    and s: "run_of s = Some r" "run_step s run a m = Some m'"
  shows "agents_inv m'"
proof -
  have ok: "run_ok run" using inv r by (simp add: agents_inv_def)
  note fin = finish_inv [OF inv r a] and go = put_run_inv [OF inv r a]
  show ?thesis
  proof (cases s)
    case (AHead r' now)
    then have ph: "rn_phase run = LoopHead" "r' = r" "m' = loop_head now r run a m" using s by (auto split: if_splits)
    obtain goal es where g: "\<forall>e \<in> set es. exchange_ok e" "length es \<le> rn_stepCount run" "rn_history run = history_of goal es"
      using ok ph(1) by (auto simp: run_ok_def)
    obtain a' i where p: "prepare_step (rn_stepCount run + 1) a = (a', i)" by fastforce
    have "run_ok (run\<lparr>rn_stepCount := rn_stepCount run + 1, rn_phase := AskModel, rn_curStep := (ag_slice a', i)\<rparr>)"
      if "rn_stepCount run + 1 \<le> maxSteps"
      unfolding run_ok_def using g that by (intro exI [of _ goal] exI [of _ es]) simp
    then show ?thesis unfolding ph(3) loop_head_def Let_def using p prepare_step_frame [OF p]
      by (auto intro!: fin go)
  next
    case (AModel r' now ans)
    then have ph: "rn_phase run = AskModel" "r' = r" "m' = model_answered now ans r run a m" using s by (auto split: if_splits)
    obtain goal es where g: "\<forall>e \<in> set es. exchange_ok e" "length es < rn_stepCount run" "rn_history run = history_of goal es" "rn_stepCount run \<le> maxSteps"
      using ok ph(1) by (auto simp: run_ok_def)
    have "run_ok (run\<lparr>rn_history := rn_history run @ [msg], rn_phase := CallTool (tc_Name tc) (tc_Arguments tc)\<rparr>)"
      if "cm_ToolCalls msg = tc # tcs" for msg tc tcs
      unfolding run_ok_def using g that by (intro exI [of _ goal] exI [of _ es]) simp
    then show ?thesis unfolding ph(3) model_answered_def
      by (auto intro!: fin go split: sum.splits list.splits)
  next
    case (ATool r' now res)
    then obtain name args where ph: "rn_phase run = CallTool name args" "r' = r" "m' = tool_answered now res name r run a m"
      using s by (auto split: phase.splits)
    obtain goal es msg tcs where g: "\<forall>e \<in> set es. exchange_ok e" "length es < rn_stepCount run"
        "rn_history run = history_of goal es @ [msg]" "cm_ToolCalls msg = \<lparr>tc_Name = name, tc_Arguments = args\<rparr> # tcs" "rn_stepCount run \<le> maxSteps"
      using ok ph(1) by (auto simp: run_ok_def)
    have "run_ok (run\<lparr>rn_history := rn_history run @ [t], rn_phase := LoopHead\<rparr>)"
      if "cm_Role t = ''tool''" "cm_Name t = name" "cm_ToolCalls t = []" for t
    proof -
      have "exchange_ok (msg, t)" using g(4) that by (simp add: exchange_ok_def)
      then show ?thesis unfolding run_ok_def using g
        by (intro exI [of _ goal] exI [of _ "es @ [(msg, t)]"]) (auto simp: history_snoc)
    qed
    then show ?thesis unfolding ph(3) tool_answered_def Let_def by (auto intro!: fin go)
  next
    case (ALeave r')
    then have "rn_phase run = Leaving" "m' = leave_run r run m" using s by (auto split: if_splits)
    then show ?thesis using leave_inv [OF inv r] by simp
  qed (use s in auto)
qed

lemma put_agent_inv:
  assumes inv: "agents_inv m" and "ag_Status a \<noteq> AgRunning"
  shows "agents_inv (put_agent a m)"
  using inv assms(2) unfolding agents_inv_def by (auto simp: put_agent_def)

lemma StartAgent_inv: "agents_inv m \<Longrightarrow> agents_inv (snd (StartAgent k m))"
proof (cases "am_agents m k")
  case (Some a)
  assume inv: "agents_inv m"
  have k: "ag_ID a = k" using inv Some by (simp add: agents_inv_def)
  let ?run = "\<lparr>rn_agent = k, rn_phase = LoopHead, rn_stepCount = 0, rn_history = first_messages (ag_Goal a), rn_cancelled = False, rn_curStep = (0, 0)\<rparr>"
  have ok: "run_ok ?run"
    unfolding run_ok_def by (rule exI [of _ "ag_Goal a"], rule exI [of _ "[]"]) (simp add: history_of_def)
  show ?thesis
  proof (cases "ag_Status a = AgRunning")
    case True
    then show ?thesis using inv Some by (simp add: StartAgent_def)
  next
    case False
    let ?m = "snd (StartAgent k m)"
    have fields: "am_agents ?m = (am_agents m)(k \<mapsto> a\<lparr>ag_Status := AgRunning, ag_Steps := GenerateInitialSteps (ag_Goal a), ag_slice := ag_slice a + 1\<rparr>)"
      "am_files ?m = (am_files m)(k \<mapsto> a\<lparr>ag_Status := AgRunning, ag_Steps := GenerateInitialSteps (ag_Goal a), ag_slice := ag_slice a + 1\<rparr>)"
      "am_cancels ?m = (am_cancels m)(k \<mapsto> am_next m)" "am_runs ?m = (am_runs m)(am_next m \<mapsto> ?run)" "am_next ?m = am_next m + 1"
      using Some False k by (simp_all add: StartAgent_def Let_def put_agent_def)
    have old: "r \<noteq> am_next m" if "am_runs m r = Some run" for r run using agents_invD(2) [OF inv that] by auto
    have "\<exists>r run. am_runs ?m r = Some run \<and> rn_agent run = k2 \<and> rn_phase run \<noteq> Leaving"
      if "am_agents ?m k2 = Some a2" "ag_Status a2 = AgRunning" for k2 a2
    proof (cases "k2 = k")
      case True
      then show ?thesis unfolding fields by (intro exI [of _ "am_next m"] exI [of _ ?run]) simp
    next
      case False
      then have "am_agents m k2 = Some a2" using that(1) fields by simp
      from agents_invD(3) [OF inv this that(2)] show ?thesis unfolding fields using old by (metis fun_upd_apply)
    qed
    moreover have "\<exists>run. am_runs ?m r = Some run \<and> rn_agent run = k2" if "am_cancels ?m k2 = Some r" for k2 r
    proof (cases "k2 = k")
      case False
      then have "am_cancels m k2 = Some r" using that fields by simp
      from agents_invD(1) [OF inv this] show ?thesis unfolding fields using old by (metis fun_upd_apply)
    qed (use that fields in simp)
    moreover have "r < am_next ?m \<and> am_agents ?m (rn_agent run) \<noteq> None \<and> run_ok run" if "am_runs ?m r = Some run" for r run
    proof (cases "r = am_next m")
      case False
      then have "am_runs m r = Some run" using that fields by simp
      from agents_invD(2) [OF inv this] show ?thesis unfolding fields by auto
    next
      case True
      then have "run = ?run" using that fields(4) by simp
      then show ?thesis using True ok unfolding fields by simp
    qed
    ultimately show ?thesis using inv k unfolding agents_inv_def fields(1,2) by auto
  qed
qed (simp add: StartAgent_def)

lemma run_ok_cancelled [simp]: "run_ok (run\<lparr>rn_cancelled := c\<rparr>) = run_ok run"
  by (cases "rn_phase run") (simp_all add: run_ok_def)

lemma cancel_run_inv: "agents_inv m \<Longrightarrow> agents_inv ((cancel_run r m)\<lparr>am_cancels := (am_cancels m)(k := None)\<rparr>)"
proof -
  assume inv: "agents_inv m"
  have runs: "am_runs ((cancel_run r m)\<lparr>am_cancels := (am_cancels m)(k := None)\<rparr>) r2 = Some run2 \<Longrightarrow>
      \<exists>run. am_runs m r2 = Some run \<and> rn_agent run2 = rn_agent run \<and> rn_phase run2 = rn_phase run \<and> run_ok run2 = run_ok run" for r2 run2
    by (auto simp: cancel_run_def split: if_splits)
  have runs': "am_runs m r2 = Some run \<Longrightarrow>
      \<exists>run2. am_runs ((cancel_run r m)\<lparr>am_cancels := (am_cancels m)(k := None)\<rparr>) r2 = Some run2 \<and> rn_agent run2 = rn_agent run \<and> rn_phase run2 = rn_phase run" for r2 run
    by (auto simp: cancel_run_def)
  have frame: "am_agents ((cancel_run r m)\<lparr>am_cancels := (am_cancels m)(k := None)\<rparr>) = am_agents m"
    "am_files ((cancel_run r m)\<lparr>am_cancels := (am_cancels m)(k := None)\<rparr>) = am_files m"
    "am_next ((cancel_run r m)\<lparr>am_cancels := (am_cancels m)(k := None)\<rparr>) = am_next m"
    "am_cancels ((cancel_run r m)\<lparr>am_cancels := (am_cancels m)(k := None)\<rparr>) = (am_cancels m)(k := None)"
    by (simp_all add: cancel_run_def)
  show ?thesis
    unfolding agents_inv_def frame
  proof (intro conjI allI impI)
    fix r2 run2 assume "am_runs ((cancel_run r m)\<lparr>am_cancels := (am_cancels m)(k := None)\<rparr>) r2 = Some run2"
    from runs [OF this] obtain run where "am_runs m r2 = Some run" "rn_agent run2 = rn_agent run" "run_ok run2 = run_ok run" by blast
    then show "r2 < am_next m" "am_agents m (rn_agent run2) \<noteq> None" "run_ok run2" using agents_invD(2) [OF inv] by auto
  next
    fix k2 r2 assume "((am_cancels m)(k := None)) k2 = Some r2"
    then have "am_cancels m k2 = Some r2" by (simp split: if_splits)
    from agents_invD(1) [OF inv this] runs'
    show "\<exists>run. am_runs ((cancel_run r m)\<lparr>am_cancels := (am_cancels m)(k := None)\<rparr>) r2 = Some run \<and> rn_agent run = k2" by metis
  next
    fix k2 a2 assume "am_agents m k2 = Some a2" "ag_Status a2 = AgRunning"
    from agents_invD(3) [OF inv this] runs'
    show "\<exists>r2 run. am_runs ((cancel_run r m)\<lparr>am_cancels := (am_cancels m)(k := None)\<rparr>) r2 = Some run \<and> rn_agent run = k2 \<and> rn_phase run \<noteq> Leaving"
      by metis
  qed (use inv in \<open>auto simp: agents_inv_def\<close>)
qed

lemma CancelAgent_inv: "agents_inv m \<Longrightarrow> agents_inv (snd (CancelAgent now k m))"
  by (auto simp: CancelAgent_def Let_def stop_agent_def cancel_run_inv split: option.splits intro!: put_agent_inv)

lemma Agents_Shutdown_inv: "agents_inv m \<Longrightarrow> agents_inv (Agents_Shutdown now m)"
proof -
  assume inv: "agents_inv m"
  let ?m = "Agents_Shutdown now m"
  have stopped: "ag_ID a = k \<and> ag_Status a \<noteq> AgRunning" if a: "am_agents ?m k = Some a" for k a
  proof -
    obtain b where b: "am_agents m k = Some b" using a by (auto simp: Agents_Shutdown_def Let_def)
    then have "ag_ID b = k" using inv by (simp add: agents_inv_def)
    then show ?thesis using a b by (auto simp: Agents_Shutdown_def Let_def stop_agent_def split: if_splits)
  qed
  have files: "am_files ?m = am_agents ?m"
  proof
    fix k
    have "am_files m k = am_agents m k" using inv by (simp add: agents_inv_def)
    then show "am_files ?m k = am_agents ?m k" by (cases "am_agents m k") (auto simp: Agents_Shutdown_def Let_def)
  qed
  have "r < am_next ?m \<and> am_agents ?m (rn_agent run) \<noteq> None \<and> run_ok run" if run: "am_runs ?m r = Some run" for r run
  proof -
    have "am_runs ?m r = map_option (\<lambda>run. if am_cancels m (rn_agent run) = Some r then run\<lparr>rn_cancelled := True\<rparr> else run) (am_runs m r)"
      by (simp add: Agents_Shutdown_def Let_def)
    then obtain run0 where r0: "am_runs m r = Some run0"
      and "run = (if am_cancels m (rn_agent run0) = Some r then run0\<lparr>rn_cancelled := True\<rparr> else run0)"
      using run by (cases "am_runs m r") simp_all
    then have "rn_agent run = rn_agent run0" "run_ok run = run_ok run0" by simp_all
    then show ?thesis using agents_invD(2) [OF inv r0] by (auto simp: Agents_Shutdown_def Let_def)
  qed
  moreover have "am_cancels ?m = Map.empty" by (simp add: Agents_Shutdown_def Let_def)
  ultimately show ?thesis using stopped files unfolding agents_inv_def by auto
qed

lemma agent_do_run:
  assumes "run_of s = Some r"
  obtains "agent_do m s = m"
  | run a where "am_runs m r = Some run" "am_agents m (rn_agent run) = Some a" "run_step s run a m = Some (agent_do m s)"
proof -
  have "agent_do m s =
      (case am_runs m r of None \<Rightarrow> m | Some run \<Rightarrow>
         (case am_agents m (rn_agent run) of None \<Rightarrow> m | Some a \<Rightarrow> (case run_step s run a m of None \<Rightarrow> m | Some m' \<Rightarrow> m')))"
    using assms by (cases s) (auto simp: agent_do_def simp del: run_step.simps)
  then show thesis using that by (auto split: option.splits)
qed

lemma agent_do_inv: "agents_inv m \<Longrightarrow> agents_inv (agent_do m s)"
proof (cases "run_of s")
  case (Some r)
  assume "agents_inv m"
  then show ?thesis using run_step_inv [OF _ _ _ Some] by (cases rule: agent_do_run [OF Some, of m]) metis+
next
  case None
  assume inv: "agents_inv m"
  show ?thesis
  proof (cases s)
    case (ACreate now goal tools saved)
    then show ?thesis using inv by (auto simp: agent_do_def CreateAgent_def Let_def intro!: put_agent_inv)
  qed (use None inv in \<open>simp_all add: agent_do_def StartAgent_inv CancelAgent_inv Agents_Shutdown_inv\<close>)
qed

lemma agent_runs_inv: "agents_inv m \<Longrightarrow> agents_inv (agent_runs m steps)"
  unfolding agent_runs_def by (rule foldl_invariant) (simp_all add: agent_do_inv)

lemma NewAgentManager_inv:
  assumes "\<forall>k a. disk k = Some a \<longrightarrow> ag_ID a = k \<and> ag_Status a \<noteq> AgRunning"
  shows "agents_inv (NewAgentManager disk)"
  using assms by (auto simp: agents_inv_def NewAgentManager_def)


text \<open>An agent that lists the storage and answers.\<close>

definition list_call :: "unit ChatMessage" where
  "list_call = \<lparr>cm_Role = ''assistant'', cm_Content = [], cm_ToolCalls = [\<lparr>tc_Name = ''list_storage'', tc_Arguments = ()\<rparr>], cm_Name = []\<rparr>"

definition final_reply :: "unit ChatMessage" where
  "final_reply = \<lparr>cm_Role = ''assistant'', cm_Content = ''done'', cm_ToolCalls = [], cm_Name = []\<rparr>"

definition agent_trace :: "unit agent_step list" where
  "agent_trace = [ACreate 7 ''g'' [''list_storage''] True, AStart ''agent-7'', AHead 0 8, AModel 0 9 (Inr list_call), ATool 0 10 (Inr ''a.txt''), AHead 0 11]"


section \<open>A run ends\<close>

text \<open>How often a step that is counted happens in a list of steps.\<close>

fun how_often :: "('m \<Rightarrow> 's \<Rightarrow> 'm) \<Rightarrow> ('m \<Rightarrow> 's \<Rightarrow> bool) \<Rightarrow> 'm \<Rightarrow> 's list \<Rightarrow> nat" where
  "how_often step counted m [] = 0"
| "how_often step counted m (s # ss) = (if counted m s then 1 else 0) + how_often step counted (step m s) ss"

text \<open>A number that every counted step lowers and no step raises bounds how often they happen.\<close>

locale bounded_run =
  fixes step :: "'m \<Rightarrow> 's \<Rightarrow> 'm" and inv :: "'m \<Rightarrow> bool" and counted :: "'m \<Rightarrow> 's \<Rightarrow> bool" and pot :: "'m \<Rightarrow> nat"
  assumes inv_step: "inv m \<Longrightarrow> inv (step m s)"
    and pot_step: "inv m \<Longrightarrow> pot (step m s) + (if counted m s then 1 else 0) \<le> pot m"
begin

lemma how_often_bounded: "inv m \<Longrightarrow> how_often step counted m ss \<le> pot m"
proof (induction ss arbitrary: m)
  case (Cons s ss)
  then show ?case using pot_step [of m s] Cons.IH [OF inv_step [OF Cons.prems, of s]] by simp
qed simp

end

text \<open>The steps of run \<open>r\<close> that happen, and among them the questions to the model.\<close>

definition turn_of :: "nat \<Rightarrow> 'j AgentManager \<Rightarrow> 'j agent_step \<Rightarrow> bool" where
  "turn_of r m s \<longleftrightarrow> run_of s = Some r \<and>
     (case am_runs m r of None \<Rightarrow> False | Some run \<Rightarrow> (case am_agents m (rn_agent run) of None \<Rightarrow> False | Some a \<Rightarrow> run_step s run a m \<noteq> None))"

definition question_of :: "nat \<Rightarrow> 'j AgentManager \<Rightarrow> 'j agent_step \<Rightarrow> bool" where
  "question_of r m s \<longleftrightarrow> turn_of r m s \<and> (case s of AModel _ _ _ \<Rightarrow> True | _ \<Rightarrow> False)"

text \<open>What is left of a run at each position: turns, and questions.\<close>

fun turns_left :: "'j phase \<Rightarrow> nat \<Rightarrow> nat" where
  "turns_left LoopHead c = 3 * (51 - c) + 2"
| "turns_left AskModel c = 3 * (51 - c) + 4"
| "turns_left (CallTool name args) c = 3 * (51 - c) + 3"
| "turns_left Leaving c = 1"

fun questions_left :: "'j phase \<Rightarrow> nat \<Rightarrow> nat" where
  "questions_left AskModel c = 51 - c"
| "questions_left Leaving c = 0"
| "questions_left _ c = 50 - c"

definition run_pot :: "('j phase \<Rightarrow> nat \<Rightarrow> nat) \<Rightarrow> nat \<Rightarrow> nat \<Rightarrow> 'j AgentManager \<Rightarrow> nat" where
  "run_pot left start r m =
     (if am_next m \<le> r then start
      else case am_runs m r of None \<Rightarrow> 0 | Some run \<Rightarrow> left (rn_phase run) (rn_stepCount run))"

lemma run_pot_None: "am_runs m r = None \<Longrightarrow> r < am_next m \<Longrightarrow> run_pot left start r m = 0"
  by (simp add: run_pot_def)

lemma run_pot_Some: "am_runs m r = Some run \<Longrightarrow> r < am_next m \<Longrightarrow> run_pot left start r m = left (rn_phase run) (rn_stepCount run)"
  by (simp add: run_pot_def)

text \<open>One step of the loop.\<close>

definition next_position :: "'j agent_step \<Rightarrow> 'j agent_run \<Rightarrow> 'j agent_run option \<Rightarrow> bool" where
  "next_position s run next_run \<longleftrightarrow>
     ((case s of AModel _ _ _ \<Rightarrow> True | _ \<Rightarrow> False) \<longrightarrow> rn_phase run = AskModel) \<and>
     (case next_run of
        None \<Rightarrow> rn_phase run = Leaving
      | Some run' \<Rightarrow>
          (case rn_phase run of
             LoopHead \<Rightarrow> rn_phase run' \<in> {AskModel, Leaving} \<and> rn_stepCount run' = rn_stepCount run + 1
           | AskModel \<Rightarrow> (rn_phase run' = Leaving \<or> (\<exists>name args. rn_phase run' = CallTool name args)) \<and> rn_stepCount run' = rn_stepCount run
           | CallTool name args \<Rightarrow> rn_phase run' \<in> {LoopHead, Leaving} \<and> rn_stepCount run' = rn_stepCount run
           | Leaving \<Rightarrow> False))"

lemma run_step_position:
  assumes "run_of s = Some r" and "run_step s run a m = Some m'"
  shows "next_position s run (am_runs m' r) \<and> am_next m' = am_next m \<and> (\<forall>r2. r2 \<noteq> r \<longrightarrow> am_runs m' r2 = am_runs m r2)"
  using assms
  by (cases s) (auto simp: next_position_def loop_head_def model_answered_def tool_answered_def leave_run_def finish_run_def set_run_def put_agent_def Let_def
      split: if_splits phase.splits sum.splits list.splits prod.splits)

lemma api_step_position:
  assumes "run_of s = None" and "agents_inv m"
  shows "am_next m \<le> am_next (agent_do m s) \<and>
    (\<forall>r < am_next m. map_option (\<lambda>run. (rn_phase run, rn_stepCount run)) (am_runs (agent_do m s) r) =
       map_option (\<lambda>run. (rn_phase run, rn_stepCount run)) (am_runs m r)) \<and>
    (\<forall>r \<ge> am_next m. r < am_next (agent_do m s) \<longrightarrow>
       map_option (\<lambda>run. (rn_phase run, rn_stepCount run)) (am_runs (agent_do m s) r) = Some (LoopHead, 0))"
  using assms(1)
  by (cases s) (auto simp: agent_do_def CreateAgent_def StartAgent_def CancelAgent_def Agents_Shutdown_def cancel_run_def put_agent_def Let_def option.map_comp comp_def
      split: option.splits intro!: option.map_cong)

lemma run_pot_step:
  assumes inv: "agents_inv m"
    and start: "start = left LoopHead 0"
    and left: "\<And>s run next_run. next_position s run next_run \<Longrightarrow> rn_phase run \<noteq> Leaving \<longrightarrow> rn_stepCount run \<le> 50 \<Longrightarrow>
      (case next_run of None \<Rightarrow> 0 | Some run' \<Rightarrow> left (rn_phase run') (rn_stepCount run')) + (if weighs s then 1 else 0) \<le>
        left (rn_phase run) (rn_stepCount run)"
  shows "run_pot left start r (agent_do m s) + (if turn_of r m s \<and> weighs s then 1 else 0) \<le> run_pot left start r m"
proof (cases "run_of s")
  case None
  have "\<not> turn_of r m s" using None by (simp add: turn_of_def)
  moreover have "run_pot left start r (agent_do m s) \<le> run_pot left start r m"
    using api_step_position [OF None inv] start
    by (auto simp: run_pot_def split: option.splits) (metis (no_types, lifting) fst_conv le_refl linorder_not_le option.distinct(1) option.inject option.map_disc_iff option.simps(9) snd_conv)+
  ultimately show ?thesis by simp
next
  case (Some r')
  show ?thesis
  proof (cases "turn_of r' m s")
    case False
    have "agent_do m s = m" using False by (cases rule: agent_do_run [OF Some, of m]) (auto simp: turn_of_def Some)
    moreover have "\<not> turn_of r m s" using False Some by (auto simp: turn_of_def)
    ultimately show ?thesis by simp
  next
    case True
    then obtain run a where t: "am_runs m r' = Some run" "am_agents m (rn_agent run) = Some a" "run_step s run a m = Some (agent_do m s)"
      using Some by (cases rule: agent_do_run [OF Some, of m]) (auto simp: turn_of_def agent_do_def split: option.splits agent_step.splits)
    note pos = run_step_position [OF Some t(3)]
    have r': "r' < am_next m" using agents_invD(2) [OF inv t(1)] by simp
    show ?thesis
    proof (cases "r = r'")
      case False
      then have "\<not> turn_of r m s" using Some by (auto simp: turn_of_def)
      moreover have "run_pot left start r (agent_do m s) = run_pot left start r m" using False pos by (simp add: run_pot_def)
      ultimately show ?thesis by simp
    next
      case True
      have "rn_phase run \<noteq> Leaving \<longrightarrow> rn_stepCount run \<le> 50"
        using agents_invD(2) [OF inv t(1)] by (cases "rn_phase run") (auto simp: run_ok_def maxSteps_def)
      from left [OF conjunct1 [OF pos] this] show ?thesis
        using True r' pos t(1) by (cases "am_runs (agent_do m s) r'") (auto simp: run_pot_def)
    qed
  qed
qed

lemma turns_position:
  assumes "next_position s run next_run" and "rn_phase run \<noteq> Leaving \<longrightarrow> rn_stepCount run \<le> 50"
  shows "(case next_run of None \<Rightarrow> 0 | Some run' \<Rightarrow> turns_left (rn_phase run') (rn_stepCount run')) + (if True then 1 else 0) \<le>
    turns_left (rn_phase run) (rn_stepCount run)"
  using assms by (cases "rn_phase run"; cases next_run) (auto simp: next_position_def)

lemma questions_position:
  assumes "next_position s run next_run" and "rn_phase run \<noteq> Leaving \<longrightarrow> rn_stepCount run \<le> 50"
  shows "(case next_run of None \<Rightarrow> 0 | Some run' \<Rightarrow> questions_left (rn_phase run') (rn_stepCount run')) +
      (if (case s of AModel _ _ _ \<Rightarrow> True | _ \<Rightarrow> False) then 1 else 0) \<le>
    questions_left (rn_phase run) (rn_stepCount run)"
  using assms by (cases "rn_phase run"; cases next_run) (auto simp: next_position_def split: agent_step.splits)

lemma turns_pot_step:
  assumes "agents_inv m"
  shows "run_pot turns_left 155 r (agent_do m s) + (if turn_of r m s then 1 else 0) \<le> run_pot turns_left 155 r m"
  using run_pot_step [where left = turns_left and weighs = "\<lambda>_. True" and start = 155 and r = r and s = s, OF assms _ turns_position] by simp

lemma questions_pot_step:
  assumes "agents_inv m"
  shows "run_pot questions_left 50 r (agent_do m s) + (if question_of r m s then 1 else 0) \<le> run_pot questions_left 50 r m"
  using run_pot_step [where left = questions_left and weighs = "\<lambda>s. case s of AModel _ _ _ \<Rightarrow> True | _ \<Rightarrow> False" and start = 50 and r = r and s = s,
      OF assms _ questions_position]
  by (simp add: question_of_def)

interpretation turns: bounded_run agent_do agents_inv "turn_of r" "run_pot turns_left 155 r" for r
  by unfold_locales (rule agent_do_inv, assumption, rule turns_pot_step)

interpretation questions: bounded_run agent_do agents_inv "question_of r" "run_pot questions_left 50 r" for r
  by unfold_locales (rule agent_do_inv, assumption, rule questions_pot_step)

text \<open>
  C11: Every run ends: it takes at most 155 turns, among them at most 50 questions to the model, whatever
  else happens, and until it is gone it can take its next one.
\<close>

theorem agent_run_ends:
  assumes "\<forall>k a. disk k = Some a \<longrightarrow> ag_ID a = k \<and> ag_Status a \<noteq> AgRunning"
  shows "how_often agent_do (turn_of r) (NewAgentManager disk) steps \<le> 155 \<and>
    how_often agent_do (question_of r) (NewAgentManager disk) steps \<le> 50 \<and>
    (am_runs (agent_runs (NewAgentManager disk) steps) r \<noteq> None \<longrightarrow> (\<exists>s. turn_of r (agent_runs (NewAgentManager disk) steps) s))"
proof (intro conjI impI)
  have inv: "agents_inv (NewAgentManager disk)" using assms by (rule NewAgentManager_inv)
  show "how_often agent_do (turn_of r) (NewAgentManager disk) steps \<le> 155"
    using turns.how_often_bounded [OF inv, of r steps] by (simp add: run_pot_def NewAgentManager_def)
  show "how_often agent_do (question_of r) (NewAgentManager disk) steps \<le> 50"
    using questions.how_often_bounded [OF inv, of r steps] by (simp add: run_pot_def NewAgentManager_def)
  let ?m = "agent_runs (NewAgentManager disk) steps"
  assume "am_runs ?m r \<noteq> None"
  then obtain run where r: "am_runs ?m r = Some run" by blast
  then obtain a where a: "am_agents ?m (rn_agent run) = Some a" using agents_invD(2) [OF agent_runs_inv [OF inv]] by blast
  show "\<exists>s. turn_of r ?m s"
  proof (cases "rn_phase run")
    case LoopHead
    then show ?thesis using r a by (intro exI [of _ "AHead r 0"]) (simp add: turn_of_def)
  next
    case AskModel
    then show ?thesis using r a by (intro exI [of _ "AModel r 0 (Inl [])"]) (simp add: turn_of_def)
  next
    case (CallTool name args)
    then show ?thesis using r a by (intro exI [of _ "ATool r 0 (Inl [])"]) (simp add: turn_of_def)
  next
    case Leaving
    then show ?thesis using r a by (intro exI [of _ "ALeave r"]) (simp add: turn_of_def)
  qed
qed

theorem agent_run_ends_witness:
  "how_often agent_do (turn_of 0) (NewAgentManager (Map.empty :: string \<rightharpoonup> unit Agent)) agent_trace \<le> 155"
  using agent_run_ends [of "Map.empty :: string \<rightharpoonup> unit Agent" 0 agent_trace] by simp

section \<open>Calls that come to nothing\<close>

text \<open>
  A cancellation that reports success is overwritten when the model answers without looking at the
  context: the agent ends as completed.
\<close>

theorem cancel_overwritten:
  assumes "agents_inv m" and "am_agents m k = Some a" and "ag_Status a = AgRunning" and "am_cancels m k = Some r"
    and "am_runs m r = Some run" and "rn_phase run = AskModel" and "cm_ToolCalls msg = []"
  shows "fst (CancelAgent now k m) = None \<and>
    map_option ag_Status (am_agents (snd (CancelAgent now k m)) k) = Some AgCancelled \<and>
    map_option ag_Status (am_agents (agent_do (snd (CancelAgent now k m)) (AModel r t (Inr msg))) k) = Some AgCompleted"
proof -
  have k: "rn_agent run = k" "ag_ID a = k"
    using agents_invD(1) [OF assms(1,4)] assms(1,2,5) by (auto simp: agents_inv_def)
  then show ?thesis using assms(2-7)
    by (simp add: CancelAgent_def cancel_run_def stop_agent_def put_agent_def agent_do_def model_answered_def finish_run_def set_run_def)
qed

lemma agent_trace_run:
  "am_agents (agent_runs (NewAgentManager Map.empty) agent_trace) ''agent-7'' \<noteq> None \<and>
   map_option ag_Status (am_agents (agent_runs (NewAgentManager Map.empty) agent_trace) ''agent-7'') = Some AgRunning \<and>
   am_cancels (agent_runs (NewAgentManager Map.empty) agent_trace) ''agent-7'' = Some 0 \<and>
   map_option rn_phase (am_runs (agent_runs (NewAgentManager Map.empty) agent_trace) 0) = Some AskModel"
  by code_simp

theorem cancel_overwritten_witness:
  "map_option ag_Status (am_agents (agent_do (snd (CancelAgent 12 ''agent-7'' (agent_runs (NewAgentManager Map.empty) agent_trace)))
     (AModel 0 13 (Inr final_reply))) ''agent-7'') = Some AgCompleted"
proof -
  let ?m = "agent_runs (NewAgentManager Map.empty) agent_trace"
  have "agents_inv ?m" by (intro agent_runs_inv NewAgentManager_inv) simp
  moreover obtain a run where "am_agents ?m ''agent-7'' = Some a" "ag_Status a = AgRunning" "am_cancels ?m ''agent-7'' = Some 0"
      "am_runs ?m 0 = Some run" "rn_phase run = AskModel"
    using agent_trace_run by auto
  ultimately show ?thesis using cancel_overwritten [of ?m "''agent-7''" a 0 run final_reply 12 13] by (simp add: final_reply_def)
qed

text \<open>
  An agent that was cancelled can be started again while its old run has not noticed. When the old run
  ends, it marks the agent as cancelled and deletes the cancel function of the new run, which goes on:
  a second cancellation reports success and does not reach it.
\<close>

theorem restarted_run_uncancellable:
  assumes "agents_inv m" and "am_agents m k = Some a" and "ag_Status a = AgRunning" and "am_cancels m k = Some r"
    and "am_runs m r = Some run" and "rn_phase run = AskModel"
    and "m' = foldl agent_do m [ACancel t1 k, AStart k, AModel r t2 (Inl err), ALeave r]"
  shows "map_option ag_Status (am_agents m' k) = Some AgCancelled \<and> fst (CancelAgent t3 k m') = None \<and>
    (\<exists>run'. am_runs (snd (CancelAgent t3 k m')) (am_next m) = Some run' \<and> rn_agent run' = k \<and> \<not> rn_cancelled run' \<and> rn_phase run' = LoopHead)"
proof -
  have k: "rn_agent run = k" "ag_ID a = k" using agents_invD(1) [OF assms(1,4)] assms(1,2,5) by (auto simp: agents_inv_def)
  have r: "r < am_next m" using agents_invD(2) [OF assms(1,5)] by simp
  let ?a1 = "stop_agent t1 (ag_Error a) a"
  let ?a2 = "?a1\<lparr>ag_Status := AgRunning, ag_Steps := GenerateInitialSteps (ag_Goal a), ag_slice := ag_slice a + 1\<rparr>"
  let ?run = "run\<lparr>rn_cancelled := True\<rparr>"
  let ?new = "\<lparr>rn_agent = k, rn_phase = LoopHead, rn_stepCount = 0, rn_history = first_messages (ag_Goal a), rn_cancelled = False, rn_curStep = (0, 0)\<rparr>"
  have stop: "ag_Status ?a1 = AgCancelled" "ag_ID ?a1 = k" "ag_Goal ?a1 = ag_Goal a" "ag_slice ?a1 = ag_slice a"
    using k by (simp_all add: stop_agent_def)
  define m1 where "m1 = agent_do m (ACancel t1 k)"
  have m1: "am_agents m1 k = Some ?a1" "am_runs m1 r = Some ?run" "am_next m1 = am_next m"
    using assms(2-5) k stop by (simp_all add: m1_def agent_do_def CancelAgent_def cancel_run_def put_agent_def)
  define m2 where "m2 = agent_do m1 (AStart k)"
  have m2: "am_agents m2 k = Some ?a2" "am_runs m2 r = Some ?run" "am_runs m2 (am_next m) = Some ?new" "am_next m2 = am_next m + 1"
    using m1 stop r by (simp_all add: m2_def agent_do_def StartAgent_def Let_def put_agent_def)
  define m3 where "m3 = agent_do m2 (AModel r t2 (Inl err))"
  have m3: "map_option ag_Status (am_agents m3 k) = Some AgCancelled" "am_runs m3 r = Some (?run\<lparr>rn_phase := Leaving\<rparr>)"
      "am_runs m3 (am_next m) = Some ?new"
    using m2 k stop r assms(6)
    by (simp_all add: m3_def agent_do_def model_answered_def finish_run_def set_run_def put_agent_def)
  obtain a3 where a3: "am_agents m3 k = Some a3" "ag_Status a3 = AgCancelled" using m3(1) by auto
  have m4: "m' = agent_do m3 (ALeave r)" unfolding assms(7) m3_def m2_def m1_def by simp
  have "am_agents m' k = Some a3" "am_cancels m' k = None" "am_runs m' (am_next m) = Some ?new"
    using m3 a3 k r unfolding m4 by (simp_all add: agent_do_def leave_run_def)
  then show ?thesis using a3 by (auto simp: CancelAgent_def Let_def)
qed

theorem restarted_run_uncancellable_witness:
  "fst (CancelAgent 16 ''agent-7'' (foldl agent_do (agent_runs (NewAgentManager Map.empty) agent_trace)
     [ACancel 12 ''agent-7'', AStart ''agent-7'', AModel 0 14 (Inl ''context canceled''), ALeave 0])) = None"
proof -
  let ?m = "agent_runs (NewAgentManager Map.empty) agent_trace"
  have "agents_inv ?m" by (intro agent_runs_inv NewAgentManager_inv) simp
  moreover obtain a run where "am_agents ?m ''agent-7'' = Some a" "ag_Status a = AgRunning" "am_cancels ?m ''agent-7'' = Some 0"
      "am_runs ?m 0 = Some run" "rn_phase run = AskModel"
    using agent_trace_run by auto
  ultimately show ?thesis
    using restarted_run_uncancellable [of ?m "''agent-7''" a 0 run _ 12 14 "''context canceled''" 16] by blast
qed

text \<open>
  An agent that was running when the process ended is loaded as running, with no run: it cannot be
  started, and its cancellation is the only way out.
\<close>

lemma stuck_after_restart:
  assumes "disk k = Some a" and "ag_Status a = AgRunning"
  shows "StartAgent k (NewAgentManager disk) = (Some AlreadyRunning, NewAgentManager disk) \<and> am_runs (NewAgentManager disk) = Map.empty"
  using assms by (simp add: StartAgent_def NewAgentManager_def)

text \<open>The list of tools of an agent limits what is offered to the model, and not what the model can call.\<close>

lemma any_tool_is_called:
  assumes "rn_phase run = AskModel" and "am_runs m r = Some run" and "am_agents m (rn_agent run) = Some a" and "cm_ToolCalls msg = tc # tcs"
  shows "map_option rn_phase (am_runs (agent_do m (AModel r now (Inr msg))) r) = Some (CallTool (tc_Name tc) (tc_Arguments tc))"
  using assms by (simp add: agent_do_def model_answered_def set_run_def)

end
