(* ===== verification/Agents_Swarm.thy ===== *)
theory Agents_Swarm
  imports Agents_Run
begin

text \<open>
  Sub-agents for other nodes, \<open>agents/swarm.go\<close>: a request from a trusted peer creates an agent, and a
  listener turns the updates of this agent into events, which go through a channel of 128 places to
  the stream. The listener runs in the goroutine that reports the update, the loop that writes the
  events in another; the parent reads them with \<open>read_events\<close>.
\<close>

text \<open>An update of the agent as the listener sees it: its status and, while it runs, its latest step.\<close>

datatype 'j update = UpRunning "'j AgentStep option" | UpCompleted string | UpFailed string | UpCancelled

definition update_of :: "'j Agent \<Rightarrow> 'j update option" where
  "update_of a =
     (case ag_Status a of
        AgRunning \<Rightarrow> Some (UpRunning (if ag_Steps a = [] then None else Some (last (ag_Steps a))))
      | AgCompleted \<Rightarrow> Some (UpCompleted (ag_Output a))
      | AgFailed \<Rightarrow> Some (UpFailed (ag_Error a))
      | AgCancelled \<Rightarrow> Some UpCancelled
      | AgPending \<Rightarrow> None)"

definition step_event :: "'j AgentStep \<Rightarrow> SwarmEvent option" where
  "step_event s =
     (case st_Status s of
        StRunning \<Rightarrow> Some (SwarmLog (int (st_Number s)) (st_Log s))
      | StCompleted \<Rightarrow> Some (SwarmStepComplete (int (st_Number s)) (''Executed tool '' @ st_Tool s @ '': '' @ st_Log s))
      | StFailed \<Rightarrow> Some (SwarmLog (int (st_Number s)) (''Tool '' @ st_Tool s @ '' failed: '' @ st_Result s))
      | StPending \<Rightarrow> None)"

text \<open>The event of an update, and whether the channel is closed behind it.\<close>

definition update_event :: "'j update \<Rightarrow> SwarmEvent option \<times> bool" where
  "update_event u =
     (case u of
        UpRunning s \<Rightarrow> (case s of None \<Rightarrow> None | Some s \<Rightarrow> step_event s, False)
      | UpCompleted out \<Rightarrow> (Some (SwarmComplete out), True)
      | UpFailed err \<Rightarrow> (Some (SwarmError err), True)
      | UpCancelled \<Rightarrow> (Some (SwarmError ''sub-agent execution cancelled''), True))"

record swarm =
  sw_eventCh :: "SwarmEvent list"
  sw_closed :: bool
  sw_listening :: bool
  sw_panicked :: bool
  sw_written :: "SwarmEvent list"

definition new_swarm :: swarm where
  "new_swarm = \<lparr>sw_eventCh = [], sw_closed = False, sw_listening = True, sw_panicked = False, sw_written = []\<rparr>"

definition eventCap :: nat where "eventCap = 128"

text \<open>A send that does not wait; a send on a closed channel panics, whether there is room or not.\<close>

definition try_send :: "SwarmEvent \<Rightarrow> swarm \<Rightarrow> swarm" where
  "try_send e w =
     (if sw_closed w then w\<lparr>sw_panicked := True\<rparr>
      else if length (sw_eventCh w) < eventCap then w\<lparr>sw_eventCh := sw_eventCh w @ [e]\<rparr> else w)"

definition listener :: "'j update \<Rightarrow> swarm \<Rightarrow> swarm" where
  "listener u w =
     (if \<not> sw_listening w then w
      else let (ev, closes) = update_event u;
               w = (case ev of None \<Rightarrow> w | Some e \<Rightarrow> try_send e w)
           in if closes then w\<lparr>sw_closed := True\<rparr> else w)"

text \<open>One turn of the loop over the channel; \<open>ok\<close> says whether the write succeeds. When the loop ends the listener is removed.\<close>

definition write_event :: "bool \<Rightarrow> swarm \<Rightarrow> swarm" where
  "write_event ok w =
     (if \<not> sw_listening w then w
      else case sw_eventCh w of
        e # es \<Rightarrow>
          if ok then w\<lparr>sw_eventCh := es, sw_written := sw_written w @ [e]\<rparr>
          else w\<lparr>sw_eventCh := es, sw_listening := False, sw_closed := True\<rparr>
      | [] \<Rightarrow> if sw_closed w then w\<lparr>sw_listening := False\<rparr> else w)"

datatype 'j swarm_step = SUpdate "'j update" | SWrite bool

fun swarm_do :: "swarm \<Rightarrow> 'j swarm_step \<Rightarrow> swarm" where
  "swarm_do w (SUpdate u) = listener u w"
| "swarm_do w (SWrite ok) = write_event ok w"

definition swarm_run :: "'j swarm_step list \<Rightarrow> swarm" where "swarm_run = foldl swarm_do new_swarm"

text \<open>The handler up to the creation of the agent.\<close>

datatype SwarmReply = SwarmBlocked | SwarmRefused SwarmEvent | SwarmSpawned string

definition HandleSwarmStream ::
  "bool option \<Rightarrow> (string + string \<times> string list) \<Rightarrow> time \<Rightarrow> bool \<Rightarrow> 'j AgentManager \<Rightarrow> SwarmReply \<times> 'j AgentManager" where
  "HandleSwarmStream trusted request now saved m =
     (if trusted = Some False then (SwarmBlocked, m)
      else case request of
        Inl err \<Rightarrow> (SwarmRefused (SwarmError (''decode request: '' @ err)), m)
      | Inr (goal, tools) \<Rightarrow>
          (case CreateAgent now goal tools saved m of
             (Inl e, m) \<Rightarrow> (SwarmRefused (SwarmError ''create agent: save agent''), m)
           | (Inr a, m) \<Rightarrow>
               (case StartAgent (ag_ID a) m of
                  (Some e, m) \<Rightarrow> (SwarmRefused (SwarmError ''start agent''), m)
                | (None, m) \<Rightarrow> (SwarmSpawned (ag_ID a), m))))"

section \<open>Delivery\<close>

definition updates :: "'j swarm_step list \<Rightarrow> 'j update list" where
  "updates steps = List.map_filter (\<lambda>s. case s of SUpdate u \<Rightarrow> Some u | SWrite _ \<Rightarrow> None) steps"

definition events :: "'j update list \<Rightarrow> SwarmEvent list" where
  "events us = List.map_filter (\<lambda>u. fst (update_event u)) us"

definition terminal :: "'j update \<Rightarrow> bool" where "terminal u = snd (update_event u)"

lemma updates_snoc: "updates (steps @ [s]) = updates steps @ (case s of SUpdate u \<Rightarrow> [u] | SWrite _ \<Rightarrow> [])"
  by (simp add: updates_def map_filter_def split: swarm_step.split)

lemma events_snoc: "events (us @ [u]) = events us @ (case fst (update_event u) of None \<Rightarrow> [] | Some e \<Rightarrow> [e])"
  by (simp add: events_def map_filter_def split: option.split)

lemma events_length: "length (events us) \<le> length us"
  by (simp add: events_def map_filter_def)

text \<open>A step of the loop does not touch what has been sent.\<close>

lemma write_event_frame:
  "ok \<Longrightarrow> sw_written (write_event ok w) @ sw_eventCh (write_event ok w) = sw_written w @ sw_eventCh w \<and>
     sw_closed (write_event ok w) = sw_closed w \<and> sw_panicked (write_event ok w) = sw_panicked w \<and>
     (sw_listening (write_event ok w) \<longleftrightarrow> sw_listening w \<and> (sw_eventCh w \<noteq> [] \<or> \<not> sw_closed w))"
  by (auto simp: write_event_def split: list.splits)

text \<open>
  As long as the stream takes the events, the parent gets one for every update, in order, whatever the
  speed of the two sides: if at most 128 updates are reported and none after the last one, what was
  written and what is waiting are the events of the updates so far, and nothing panics.
\<close>

theorem swarm_in_order:
  assumes "length (updates steps) \<le> eventCap" and "\<forall>u \<in> set (butlast (updates steps)). \<not> terminal u" and "\<forall>s \<in> set steps. s \<noteq> SWrite False"
  shows "sw_written (swarm_run steps) @ sw_eventCh (swarm_run steps) = events (updates steps) \<and> \<not> sw_panicked (swarm_run steps)"
proof -
  have "sw_written (swarm_run steps) @ sw_eventCh (swarm_run steps) = events (updates steps) \<and> \<not> sw_panicked (swarm_run steps) \<and>
      (sw_closed (swarm_run steps) \<longleftrightarrow> (\<exists>u \<in> set (updates steps). terminal u)) \<and> (\<not> sw_closed (swarm_run steps) \<longrightarrow> sw_listening (swarm_run steps))"
    using assms
  proof (induction steps rule: rev_induct)
    case Nil
    show ?case by (simp add: swarm_run_def new_swarm_def updates_def events_def map_filter_def)
  next
    case (snoc s steps)
    have run: "swarm_run (steps @ [s]) = swarm_do (swarm_run steps) s" by (simp add: swarm_run_def)
    show ?case
    proof (cases s)
      case (SWrite ok)
      then have "ok" using snoc.prems(3) by auto
      moreover have "updates (steps @ [s]) = updates steps" using SWrite by (simp add: updates_snoc)
      ultimately show ?thesis using snoc SWrite write_event_frame [of ok "swarm_run steps"] unfolding run by auto
    next
      case (SUpdate u)
      have us: "updates (steps @ [s]) = updates steps @ [u]" using SUpdate by (simp add: updates_snoc)
      have nt: "\<forall>u \<in> set (updates steps). \<not> terminal u" using snoc.prems(2) by (simp add: us)
      then have IH: "sw_written (swarm_run steps) @ sw_eventCh (swarm_run steps) = events (updates steps)" "\<not> sw_panicked (swarm_run steps)"
        "\<not> sw_closed (swarm_run steps)" "sw_listening (swarm_run steps)"
        using snoc by (auto simp: us dest: in_set_butlastD)
      have "length (sw_written (swarm_run steps) @ sw_eventCh (swarm_run steps)) < eventCap"
        using events_length [of "updates steps"] snoc.prems(1) IH(1) by (simp add: us)
      then have "length (sw_eventCh (swarm_run steps)) < eventCap" by simp
      moreover have run': "swarm_run (steps @ [s]) = listener u (swarm_run steps)" using run SUpdate by simp
      ultimately show ?thesis using IH nt unfolding run' us events_snoc
        by (cases "update_event u") (auto simp: listener_def try_send_def terminal_def Let_def simp flip: append_assoc split: option.split)
    qed
  qed
  then show ?thesis by blast
qed

theorem swarm_in_order_witness:
  "sw_written (swarm_run [SUpdate (UpRunning None :: unit update), SUpdate (UpCompleted ''r''), SWrite True, SWrite True]) @
   sw_eventCh (swarm_run [SUpdate (UpRunning None :: unit update), SUpdate (UpCompleted ''r''), SWrite True, SWrite True]) = [SwarmComplete ''r'']"
  using swarm_in_order [of "[SUpdate (UpRunning None :: unit update), SUpdate (UpCompleted ''r''), SWrite True, SWrite True]"]
  by (simp add: updates_def events_def map_filter_def eventCap_def terminal_def update_event_def)

text \<open>What the parent makes of the events: the output of the agent, or its error.\<close>

lemma read_running: "\<forall>e \<in> set es. (\<exists>n t. e = SwarmLog n t) \<or> (\<exists>n t. e = SwarmStepComplete n t) \<Longrightarrow> read_events (map Some es @ rest) acc = read_events rest acc"
  by (induction es) auto

lemma running_events:
  "\<forall>u \<in> set us. \<not> terminal u \<Longrightarrow> \<forall>e \<in> set (events us). (\<exists>n t. e = SwarmLog n t) \<or> (\<exists>n t. e = SwarmStepComplete n t)"
  by (auto simp: events_def map_filter_def terminal_def update_event_def step_event_def split: update.splits option.splits AgentStepStatus.splits)

theorem swarm_result:
  assumes "\<forall>u \<in> set us. \<not> terminal u" and "out \<noteq> []"
  shows "read_events (map Some (events (us @ [UpCompleted out]))) [] = Inr out \<and>
    read_events (map Some (events (us @ [UpFailed err]))) [] = Inl (RemoteFailed err)"
  using read_running [OF running_events [OF assms(1)]] assms(2) by (simp add: events_snoc update_event_def)

theorem swarm_result_witness: "read_events (map Some (events [UpRunning None :: unit update, UpCompleted ''r''])) [] = Inr ''r''"
  using swarm_result [of "[UpRunning None :: unit update]" "''r''"] by (simp add: terminal_def update_event_def)

section \<open>Where it breaks\<close>

text \<open>
  A second final update before the loop has removed the listener sends on the closed channel: the
  process panics. A cancellation reports one itself, and the run it cancels reports another.
\<close>

theorem second_final_update_panics:
  assumes "sw_listening w" and "terminal u" and "terminal v"
  shows "sw_panicked (listener v (listener u w))"
proof -
  obtain e where u: "update_event u = (Some e, True)" using assms(2) by (auto simp: terminal_def update_event_def split: update.splits)
  obtain f where v: "update_event v = (Some f, True)" using assms(3) by (auto simp: terminal_def update_event_def split: update.splits)
  have "sw_listening (listener u w)" "sw_closed (listener u w)" using assms(1) u by (simp_all add: listener_def try_send_def)
  then show ?thesis using v by (simp add: listener_def try_send_def)
qed

theorem second_final_update_panics_witness: "sw_panicked (listener (UpCancelled :: unit update) (listener (UpCancelled :: unit update) new_swarm))"
  by (rule second_final_update_panics) (simp_all add: new_swarm_def terminal_def update_event_def)

text \<open>When the channel is full the final event is dropped and the channel closed: the parent sees no output.\<close>

lemma full_channel_drops_result:
  "length (sw_eventCh w) = eventCap \<Longrightarrow> \<not> sw_closed w \<Longrightarrow> sw_listening w \<Longrightarrow>
     sw_eventCh (listener (UpCompleted out) w) = sw_eventCh w \<and> sw_closed (listener (UpCompleted out) w)"
  by (simp add: listener_def update_event_def try_send_def)

end
