(* ===== verification/Brain_Index.thy ===== *)
theory Brain_Index
  imports Memory_Store Sched_Sandbox
begin

text \<open>
  \<open>internal/brain\<close>: the files of the shared folder and of local folders are cut into chunks of words
  (\<open>chunker.go\<close>), embedded by a model (\<open>embedder.go\<close>) and kept with their vectors (\<open>store.go\<close>); \<open>brain.go\<close>
  and \<open>watcher.go\<close> keep the index in step with the folders, \<open>retriever.go\<close> searches it on all nodes.

  What a path leads to is a value of \<open>FileState\<close>: a file is its hash and the pages that the parser of
  its type finds. The answers of the embedder and the search of the HNSW graph are parameters. The
  graph is the map from identifiers to vectors that its nodes form. A panic is the value \<open>None\<close>.
\<close>

section \<open>Chunks of words: \<open>chunker.go\<close>\<close>

record Chunk =
  ck_Text :: string
  ck_Index :: nat
  ck_Page :: nat

text \<open>The loop over the words of a page, from the current position on.\<close>

function chunk_words :: "nat \<Rightarrow> nat \<Rightarrow> string list \<Rightarrow> string list list" where
  "chunk_words maxWords overlap ws =
     (if ws = [] then []
      else if length ws \<le> maxWords then [ws]
      else take maxWords ws # chunk_words maxWords overlap (drop (if maxWords - overlap = 0 then 1 else maxWords - overlap) ws))"
  by pat_completeness auto
termination by (relation "measure (\<lambda>(m, k, ws). length ws)") auto

declare chunk_words.simps [simp del]

definition page_number :: "string list \<Rightarrow> nat \<Rightarrow> nat" where
  "page_number pages i = (if length pages = 1 then 0 else i + 1)"

definition page_chunks :: "string list \<Rightarrow> nat \<Rightarrow> nat \<Rightarrow> nat \<times> string \<Rightarrow> (string \<times> nat) list" where
  "page_chunks pages maxWords overlap = (\<lambda>(i, page). map (\<lambda>ws. (join_with '' '' ws, page_number pages i)) (chunk_words maxWords overlap (str_fields page)))"

definition ChunkText :: "string list \<Rightarrow> nat \<Rightarrow> nat \<Rightarrow> Chunk list" where
  "ChunkText pages maxWords overlap =
     map (\<lambda>(k, t, p). \<lparr>ck_Text = t, ck_Index = k, ck_Page = p\<rparr>)
       (enumerate 0 (concat (map (page_chunks pages maxWords overlap) (enumerate 0 pages))))"

section \<open>Embeddings in batches: \<open>embedder.go\<close>\<close>

text \<open>\<open>ask\<close> is one request; texts go out in batches of 32.\<close>

function Embed :: "(string list \<Rightarrow> real list list option) \<Rightarrow> string list \<Rightarrow> real list list option" where
  "Embed ask texts =
     (if texts = [] then Some []
      else case ask (take 32 texts) of
        None \<Rightarrow> None
      | Some vs \<Rightarrow> map_option ((@) vs) (Embed ask (drop 32 texts)))"
  by pat_completeness auto
termination by (relation "measure (\<lambda>(a, texts). length texts)") auto

declare Embed.simps [simp del]

section \<open>The store: \<open>store.go\<close>\<close>

record ChunkMetadata =
  cm_Text :: string
  cm_SourceFile :: string
  cm_ChunkIndex :: nat
  cm_FileHash :: string
  cm_Page :: nat
  cm_Timestamp :: time
  cm_IsLocal :: bool

record VectorStore =
  vs_graph :: "nat \<rightharpoonup> real list"
  vs_Metadata :: "nat \<rightharpoonup> ChunkMetadata"
  vs_LastID :: nat

record BrainResult =
  br_Text :: string
  br_SourceFile :: string
  br_ChunkIndex :: nat
  br_FileHash :: string
  br_Page :: nat
  br_Score :: real
  br_IsLocal :: bool

text \<open>What \<open>NewVectorStore\<close> reads: the graph, and the metadata if they are there and can be parsed.\<close>

definition NewVectorStore :: "(nat \<rightharpoonup> real list) option \<Rightarrow> ((nat \<rightharpoonup> ChunkMetadata) \<times> nat) option \<Rightarrow> VectorStore option" where
  "NewVectorStore graph meta =
     (case graph of
        None \<Rightarrow> None
      | Some g \<Rightarrow>
          (case meta of
             None \<Rightarrow> Some \<lparr>vs_graph = g, vs_Metadata = Map.empty, vs_LastID = 0\<rparr>
           | Some (ms, n) \<Rightarrow> Some \<lparr>vs_graph = g, vs_Metadata = ms, vs_LastID = n\<rparr>))"

text \<open>The entries that satisfy \<open>P\<close> are deleted from both maps.\<close>

definition drop_entries :: "(ChunkMetadata \<Rightarrow> bool) \<Rightarrow> VectorStore \<Rightarrow> VectorStore" where
  "drop_entries P vs =
     (let gone = (\<lambda>i. case vs_Metadata vs i of Some c \<Rightarrow> P c | None \<Rightarrow> False)
      in vs\<lparr>vs_graph := (\<lambda>i. if gone i then None else vs_graph vs i), vs_Metadata := (\<lambda>i. if gone i then None else vs_Metadata vs i)\<rparr>)"

definition RemoveFile :: "string \<Rightarrow> VectorStore \<Rightarrow> VectorStore" where
  "RemoveFile f = drop_entries (\<lambda>c. cm_SourceFile c = f)"

definition RemoveFileByHash :: "string \<Rightarrow> VectorStore \<Rightarrow> VectorStore" where
  "RemoveFileByHash h = drop_entries (\<lambda>c. cm_FileHash c = h)"

definition chunk_meta :: "string \<Rightarrow> string \<Rightarrow> bool \<Rightarrow> time \<Rightarrow> Chunk \<Rightarrow> ChunkMetadata" where
  "chunk_meta f h local now c =
     \<lparr>cm_Text = ck_Text c, cm_SourceFile = f, cm_ChunkIndex = ck_Index c, cm_FileHash = h, cm_Page = ck_Page c, cm_Timestamp = now, cm_IsLocal = local\<rparr>"

text \<open>\<open>vectors[idx]\<close> panics when there are fewer vectors than chunks.\<close>

fun add_entries :: "ChunkMetadata list \<Rightarrow> real list list \<Rightarrow> VectorStore \<Rightarrow> VectorStore option" where
  "add_entries [] vectors vs = Some vs"
| "add_entries (c # cs) [] vs = None"
| "add_entries (c # cs) (v # vectors) vs =
     (let i = vs_LastID vs + 1
      in add_entries cs vectors (vs\<lparr>vs_LastID := i, vs_graph := (vs_graph vs)(i \<mapsto> v), vs_Metadata := (vs_Metadata vs)(i \<mapsto> c)\<rparr>))"

definition AddChunks :: "string \<Rightarrow> string \<Rightarrow> Chunk list \<Rightarrow> real list list \<Rightarrow> bool \<Rightarrow> time \<Rightarrow> VectorStore \<Rightarrow> VectorStore option" where
  "AddChunks f h chunks vectors local now vs = add_entries (map (chunk_meta f h local now) chunks) vectors (RemoveFile f vs)"

definition dotProduct :: "real list \<Rightarrow> real list \<Rightarrow> real" where
  "dotProduct a b = (if length a \<noteq> length b then 0 else dot_product a b)"

definition result_of :: "real list \<Rightarrow> real list \<Rightarrow> ChunkMetadata \<Rightarrow> BrainResult" where
  "result_of q v c =
     \<lparr>br_Text = cm_Text c, br_SourceFile = cm_SourceFile c, br_ChunkIndex = cm_ChunkIndex c, br_FileHash = cm_FileHash c,
      br_Page = cm_Page c, br_Score = dotProduct q v, br_IsLocal = cm_IsLocal c\<rparr>"

text \<open>\<open>neighbours\<close> is the search of the graph.\<close>

definition LocalSearch ::
  "((nat \<rightharpoonup> real list) \<Rightarrow> real list \<Rightarrow> int \<Rightarrow> (nat \<times> real list) list) \<Rightarrow> real list \<Rightarrow> int \<Rightarrow> VectorStore \<Rightarrow> BrainResult list" where
  "LocalSearch neighbours q topK vs =
     (if vs_Metadata vs = Map.empty then []
      else List.map_filter (\<lambda>(i, v). map_option (result_of q v) (vs_Metadata vs i)) (neighbours (vs_graph vs) q topK))"

section \<open>Keeping the index in step: \<open>brain.go\<close>\<close>

datatype FileState = Missing | StatFailed | IsDir | HashFailed | Document string "string list option"

text \<open>The key of a file: the base name in the shared folder, the whole path elsewhere.\<close>

definition is_local :: "string \<Rightarrow> string \<Rightarrow> bool" where
  "is_local storageDir path \<longleftrightarrow> \<not> starts_with (filepath_Clean storageDir) (filepath_Clean path)"

definition index_key :: "string \<Rightarrow> string \<Rightarrow> string" where
  "index_key storageDir path = (if is_local storageDir path then path else path_base path)"

definition holds_hash :: "VectorStore \<Rightarrow> string \<Rightarrow> string \<Rightarrow> bool" where
  "holds_hash vs f h \<longleftrightarrow> (\<exists>i c. vs_Metadata vs i = Some c \<and> cm_SourceFile c = f \<and> cm_FileHash c = h)"

definition IndexFile ::
  "(string list \<Rightarrow> real list list option) \<Rightarrow> string \<Rightarrow> (string \<Rightarrow> FileState) \<Rightarrow> time \<Rightarrow> string \<Rightarrow> VectorStore \<Rightarrow> VectorStore option" where
  "IndexFile ask storageDir world now path vs =
     (let f = index_key storageDir path in
      case world path of
        Missing \<Rightarrow> Some (RemoveFile f vs)
      | StatFailed \<Rightarrow> Some vs
      | IsDir \<Rightarrow> Some vs
      | HashFailed \<Rightarrow> Some vs
      | Document h pages \<Rightarrow>
          if holds_hash vs f h then Some vs
          else case pages of
            None \<Rightarrow> Some vs
          | Some ps \<Rightarrow>
              if ps = [] then Some vs
              else let chunks = ChunkText ps 512 50 in
                if chunks = [] then Some vs
                else case Embed ask (map ck_Text chunks) of
                  None \<Rightarrow> Some vs
                | Some vectors \<Rightarrow> AddChunks f h chunks vectors (is_local storageDir path) now vs)"

definition supported :: "string list" where
  "supported = [''.pdf'', ''.docx'', ''.txt'', ''.md'', ''.csv'', ''.go'', ''.py'', ''.js'', ''.ts'', ''.sh'', ''.json'', ''.xml'', ''.yaml'',
     ''.yml'', ''.html'', ''.css'']"

text \<open>\<open>filepath.Ext\<close>: from the last dot of the last element on.\<close>

definition filepath_Ext :: "string \<Rightarrow> string" where
  "filepath_Ext path =
     (let l = takeWhile (\<lambda>c. c \<noteq> CHR ''/'') (rev path)
      in if CHR ''.'' \<in> set l then CHR ''.'' # rev (takeWhile (\<lambda>c. c \<noteq> CHR ''.'') l) else [])"

definition isSupportedExtension :: "string \<Rightarrow> bool" where
  "isSupportedExtension path \<longleftrightarrow> to_lower (filepath_Ext path) \<in> set supported"

text \<open>
  \<open>SyncAll\<close>: \<open>entries\<close> is the listing of the shared folder, a name and whether it is a folder, or
  nothing when it cannot be read; \<open>walked\<close> are the files found below the local folders.
\<close>

fun index_all :: "('p \<Rightarrow> 's \<Rightarrow> 's option) \<Rightarrow> 'p list \<Rightarrow> 's \<Rightarrow> 's option" where
  "index_all put [] s = Some s"
| "index_all put (p # ps) s = (case put p s of None \<Rightarrow> None | Some s \<Rightarrow> index_all put ps s)"

definition storage_names :: "(string \<times> bool) list option \<Rightarrow> string list" where
  "storage_names entries =
     (case entries of None \<Rightarrow> [] | Some es \<Rightarrow> filter isSupportedExtension (map fst (filter (\<lambda>(n, dir). \<not> dir) es)))"

definition purge :: "string set \<Rightarrow> VectorStore \<Rightarrow> VectorStore" where
  "purge active = drop_entries (\<lambda>c. cm_SourceFile c \<notin> active)"

definition SyncAll ::
  "(string list \<Rightarrow> real list list option) \<Rightarrow> string \<Rightarrow> (string \<Rightarrow> FileState) \<Rightarrow> time \<Rightarrow> (string \<times> bool) list option \<Rightarrow> string list
   \<Rightarrow> VectorStore \<Rightarrow> VectorStore option" where
  "SyncAll ask storageDir world now entries walked vs =
     (let names = storage_names entries; locals = filter isSupportedExtension walked
      in map_option (purge (set names \<union> set locals))
           (index_all (IndexFile ask storageDir world now) (map (filepath_Join storageDir) names @ locals) vs))"

section \<open>The watcher: \<open>watcher.go\<close>\<close>

datatype fs_event = FsChange string | FsRemove string

definition quietTime :: duration where "quietTime = 1500 * millisecond"

record Watcher =
  wa_pending :: "string \<rightharpoonup> time"
  wa_store :: VectorStore

text \<open>A change is noted for later, a removal clears the base name of the file at once.\<close>

definition watch_event :: "time \<Rightarrow> fs_event \<Rightarrow> Watcher \<Rightarrow> Watcher" where
  "watch_event now e w =
     (case e of
        FsChange p \<Rightarrow> if isSupportedExtension p then w\<lparr>wa_pending := (wa_pending w)(p \<mapsto> now)\<rparr> else w
      | FsRemove p \<Rightarrow> w\<lparr>wa_store := RemoveFile (path_base p) (wa_store w)\<rparr>)"

text \<open>The files handed to \<open>IndexFile\<close> at one tick.\<close>

definition watch_tick :: "string list \<Rightarrow> time \<Rightarrow> Watcher \<Rightarrow> string list \<times> Watcher" where
  "watch_tick order now w =
     (let quiet = (\<lambda>p. case wa_pending w p of Some t \<Rightarrow> now - t \<ge> quietTime | None \<Rightarrow> False)
      in (filter quiet order, w\<lparr>wa_pending := (\<lambda>p. if quiet p then None else wa_pending w p)\<rparr>))"

section \<open>Search on all nodes: \<open>retriever.go\<close>\<close>

definition chunk_key :: "BrainResult \<Rightarrow> string \<times> nat" where
  "chunk_key r = (if br_FileHash r = [] then br_SourceFile r else br_FileHash r, br_ChunkIndex r)"

definition keep_result :: "(string \<times> nat \<rightharpoonup> BrainResult) \<Rightarrow> BrainResult \<Rightarrow> string \<times> nat \<rightharpoonup> BrainResult" where
  "keep_result best r =
     (case best (chunk_key r) of
        None \<Rightarrow> best(chunk_key r \<mapsto> r)
      | Some old \<Rightarrow> if br_Score r > br_Score old then best(chunk_key r \<mapsto> r) else best)"

definition deduplicateResults :: "(string \<times> nat) list \<Rightarrow> BrainResult list \<Rightarrow> BrainResult list" where
  "deduplicateResults order results = List.map_filter (foldl keep_result Map.empty results) order"

definition result_better :: "BrainResult \<Rightarrow> BrainResult \<Rightarrow> bool" where "result_better a b \<longleftrightarrow> br_Score a > br_Score b"

text \<open>\<open>arrived\<close> are the results of the other nodes that came before the timeout, in the order they came.\<close>

definition Brain_Search :: "(string \<times> nat) list \<Rightarrow> BrainResult list \<Rightarrow> BrainResult list list \<Rightarrow> nat \<Rightarrow> BrainResult list" where
  "Brain_Search order localResults arrived topK = take topK (slice_sort result_better (deduplicateResults order (localResults @ concat arrived)))"

definition expectedDim :: nat where "expectedDim = 768"

definition clamp_topK :: "int \<Rightarrow> int" where "clamp_topK k = (if k \<le> 0 then 5 else if k > 100 then 100 else k)"

datatype QueryReply = QueryReset | QueryDropped | QueryResults "BrainResult list"

definition handleQueryStream ::
  "((nat \<rightharpoonup> real list) \<Rightarrow> real list \<Rightarrow> int \<Rightarrow> (nat \<times> real list) list) \<Rightarrow> bool \<Rightarrow> (real list \<times> int) option \<Rightarrow> VectorStore \<Rightarrow> QueryReply" where
  "handleQueryStream neighbours trusted request vs =
     (if \<not> trusted then QueryReset
      else case request of
        None \<Rightarrow> QueryDropped
      | Some (v, k) \<Rightarrow> if length v \<noteq> expectedDim then QueryReset else QueryResults (LocalSearch neighbours v (clamp_topK k) vs))"

section \<open>Status\<close>

record FileIndexInfo =
  fi_Chunks :: nat
  fi_FileHash :: string
  fi_LastIndexed :: time

definition count_chunk :: "(string \<rightharpoonup> FileIndexInfo) \<Rightarrow> ChunkMetadata \<Rightarrow> string \<rightharpoonup> FileIndexInfo" where
  "count_chunk files c =
     (let info = (case files (cm_SourceFile c) of Some i \<Rightarrow> i
                  | None \<Rightarrow> \<lparr>fi_Chunks = 0, fi_FileHash = cm_FileHash c, fi_LastIndexed = cm_Timestamp c\<rparr>)
      in files(cm_SourceFile c \<mapsto>
           info\<lparr>fi_Chunks := fi_Chunks info + 1,
                fi_LastIndexed := (if cm_Timestamp c > fi_LastIndexed info then cm_Timestamp c else fi_LastIndexed info)\<rparr>))"

definition file_statuses :: "ChunkMetadata list \<Rightarrow> string \<rightharpoonup> FileIndexInfo" where
  "file_statuses metas = foldl count_chunk Map.empty metas"

text \<open>The statuses of the files, the number of chunks and of nodes; \<open>order\<close> is the order of the metadata.\<close>

definition GetStatus :: "nat list \<Rightarrow> nat \<Rightarrow> VectorStore \<Rightarrow> (string \<rightharpoonup> FileIndexInfo) \<times> nat \<times> nat" where
  "GetStatus order othersOnline vs =
     (let metas = List.map_filter (vs_Metadata vs) order in (file_statuses metas, length metas, 1 + othersOnline))"

section \<open>The chunks of a text\<close>

lemma chunk_words_Nil [simp]: "chunk_words m k [] = []"
  by (simp add: chunk_words.simps)

lemma chunk_words_step:
  "k < m \<Longrightarrow> m < length ws \<Longrightarrow> chunk_words m k ws = take m ws # chunk_words m k (drop (m - k) ws)"
  by (subst chunk_words.simps) auto

lemma chunk_words_last: "ws \<noteq> [] \<Longrightarrow> length ws \<le> m \<Longrightarrow> chunk_words m k ws = [ws]"
  by (simp add: chunk_words.simps)

lemma chunk_words_not_Nil: "ws \<noteq> [] \<Longrightarrow> chunk_words m k ws \<noteq> []"
  by (subst chunk_words.simps) simp

lemma chunk_words_bound: "0 < m \<Longrightarrow> c \<in> set (chunk_words m k ws) \<Longrightarrow> c \<noteq> [] \<and> length c \<le> m"
proof (induction m k ws rule: chunk_words.induct)
  case (1 m k ws)
  show ?case
  proof (cases "ws = [] \<or> length ws \<le> m")
    case True
    then show ?thesis using "1.prems" by (cases "ws = []") (simp_all add: chunk_words_last)
  next
    case False
    then show ?thesis using "1.prems" "1.IH" by (subst (asm) chunk_words.simps) auto
  qed
qed

text \<open>Without the overlaps the chunks are the words.\<close>

definition unchunk :: "nat \<Rightarrow> 'w list list \<Rightarrow> 'w list" where
  "unchunk k cs = concat (take 1 cs @ map (drop k) (drop 1 cs))"

lemma chunk_words_hd: "k < m \<Longrightarrow> ws \<noteq> [] \<Longrightarrow> \<exists>cs. chunk_words m k ws = take m ws # cs"
  by (subst chunk_words.simps) auto

lemma chunk_words_unchunk: "k < m \<Longrightarrow> unchunk k (chunk_words m k ws) = ws"
proof (induction m k ws rule: chunk_words.induct)
  case (1 m k ws)
  show ?case
  proof (cases "ws = [] \<or> length ws \<le> m")
    case True
    then show ?thesis by (cases "ws = []") (simp_all add: chunk_words_last unchunk_def)
  next
    case False
    let ?r = "drop (m - k) ws"
    have ih: "unchunk k (chunk_words m k ?r) = ?r" using "1.IH" False "1.prems" by simp
    have r: "?r \<noteq> []" using False "1.prems" by auto
    obtain cs where cs: "chunk_words m k ?r = take m ?r # cs" using chunk_words_hd [OF "1.prems" r] by blast
    have "unchunk k (chunk_words m k ws) = take m ws @ drop k (take m ?r) @ concat (map (drop k) cs)"
      using False "1.prems" cs by (simp add: chunk_words_step unchunk_def)
    moreover have "take m ?r @ concat (map (drop k) cs) = ?r" using ih cs by (simp add: unchunk_def)
    moreover have "take m ws = take (m - k) ws @ take k ?r"
      using "1.prems" by (metis le_add_diff_inverse2 less_imp_le_nat take_add add.commute)
    moreover have "take k ?r = take k (take m ?r)" using "1.prems" by simp
    ultimately have "unchunk k (chunk_words m k ws) = take (m - k) ws @ (take k (take m ?r) @ drop k (take m ?r)) @ concat (map (drop k) cs)"
      by simp
    also have "\<dots> = take (m - k) ws @ ?r"
      unfolding append_take_drop_id using \<open>take m ?r @ concat (map (drop k) cs) = ?r\<close> by simp
    finally show ?thesis by simp
  qed
qed

text \<open>
  The chunks of a text hold all its words: each has between one word and the limit, neighbours share
  the overlap, and without the overlaps they are the text. The chunks of a file are numbered from 0.
\<close>

theorem chunks_cover:
  assumes "overlap < maxWords"
  shows "map ck_Text (ChunkText [page] maxWords overlap) = map (join_with '' '') (chunk_words maxWords overlap (str_fields page)) \<and>
    unchunk overlap (chunk_words maxWords overlap (str_fields page)) = str_fields page \<and>
    (\<forall>c \<in> set (chunk_words maxWords overlap (str_fields page)). c \<noteq> [] \<and> length c \<le> maxWords) \<and>
    map ck_Index (ChunkText pages maxWords overlap) = [0 ..< length (ChunkText pages maxWords overlap)]"
proof (intro conjI ballI)
  have e: "map (\<lambda>x. fst (snd x)) (enumerate n ps) = map fst ps" for n and ps :: "(string \<times> nat) list"
    by (induction ps arbitrary: n) auto
  show "map ck_Text (ChunkText [page] maxWords overlap) = map (join_with '' '') (chunk_words maxWords overlap (str_fields page))"
    by (simp add: ChunkText_def page_chunks_def comp_def case_prod_beta e)
  show "unchunk overlap (chunk_words maxWords overlap (str_fields page)) = str_fields page" using assms by (rule chunk_words_unchunk)
  show "c \<noteq> []" "length c \<le> maxWords" if "c \<in> set (chunk_words maxWords overlap (str_fields page))" for c
    using chunk_words_bound [OF _ that] assms by auto
  show "map ck_Index (ChunkText pages maxWords overlap) = [0 ..< length (ChunkText pages maxWords overlap)]"
    by (simp add: ChunkText_def comp_def case_prod_beta map_fst_enumerate [unfolded comp_def])
qed

theorem chunks_cover_witness:
  "map ck_Text (ChunkText [''a b c''] 2 1) = map (join_with '' '') (chunk_words 2 1 (str_fields ''a b c'')) \<and>
   unchunk 1 (chunk_words 2 1 (str_fields ''a b c'')) = str_fields ''a b c'' \<and>
   (\<forall>c \<in> set (chunk_words 2 1 (str_fields ''a b c'')). c \<noteq> [] \<and> length c \<le> 2) \<and>
   map ck_Index (ChunkText [''a b c''] 2 1) = [0 ..< length (ChunkText [''a b c''] 2 1)]"
  by (rule chunks_cover) simp


section \<open>The store\<close>

definition store_ok :: "VectorStore \<Rightarrow> bool" where
  "store_ok vs \<longleftrightarrow> dom (vs_graph vs) = dom (vs_Metadata vs) \<and> (\<forall>i \<in> dom (vs_Metadata vs). 0 < i \<and> i \<le> vs_LastID vs) \<and>
     (\<forall>i j c d. vs_Metadata vs i = Some c \<longrightarrow> vs_Metadata vs j = Some d \<longrightarrow> cm_SourceFile c = cm_SourceFile d \<longrightarrow> cm_FileHash c = cm_FileHash d)"

text \<open>The index as the rest of the program sees it: what is stored for a file.\<close>

definition entries :: "VectorStore \<Rightarrow> string \<Rightarrow> ChunkMetadata set" where
  "entries vs f = {c. \<exists>i. vs_Metadata vs i = Some c \<and> cm_SourceFile c = f}"

definition hashes_of :: "VectorStore \<Rightarrow> string \<Rightarrow> string set" where
  "hashes_of vs f = cm_FileHash ` entries vs f"

lemma drop_entries_Metadata:
  "vs_Metadata (drop_entries P vs) i = Some c \<longleftrightarrow> vs_Metadata vs i = Some c \<and> \<not> P c"
  by (auto simp: drop_entries_def Let_def split: option.splits)

lemma drop_entries_LastID [simp]: "vs_LastID (drop_entries P vs) = vs_LastID vs"
  by (simp add: drop_entries_def Let_def)

lemma drop_entries_dom: "dom (vs_graph vs) = dom (vs_Metadata vs) \<Longrightarrow> dom (vs_graph (drop_entries P vs)) = dom (vs_Metadata (drop_entries P vs))"
  by (auto simp: drop_entries_def Let_def dom_def set_eq_iff split: option.splits)

lemma drop_entries_ok: "store_ok vs \<Longrightarrow> store_ok (drop_entries P vs)"
  unfolding store_ok_def
proof (elim conjE, intro conjI)
  assume a: "dom (vs_graph vs) = dom (vs_Metadata vs)" "\<forall>i \<in> dom (vs_Metadata vs). 0 < i \<and> i \<le> vs_LastID vs"
    "\<forall>i j c d. vs_Metadata vs i = Some c \<longrightarrow> vs_Metadata vs j = Some d \<longrightarrow> cm_SourceFile c = cm_SourceFile d \<longrightarrow> cm_FileHash c = cm_FileHash d"
  show "dom (vs_graph (drop_entries P vs)) = dom (vs_Metadata (drop_entries P vs))" using a(1) by (rule drop_entries_dom)
  show "\<forall>i \<in> dom (vs_Metadata (drop_entries P vs)). 0 < i \<and> i \<le> vs_LastID (drop_entries P vs)"
    using a(2) by (auto simp: drop_entries_Metadata)
  show "\<forall>i j c d. vs_Metadata (drop_entries P vs) i = Some c \<longrightarrow> vs_Metadata (drop_entries P vs) j = Some d \<longrightarrow>
      cm_SourceFile c = cm_SourceFile d \<longrightarrow> cm_FileHash c = cm_FileHash d"
    using a(3) unfolding drop_entries_Metadata by blast
qed

lemma entries_drop: "entries (drop_entries P vs) f = {c \<in> entries vs f. \<not> P c}"
  by (auto simp: entries_def drop_entries_Metadata)

lemma entries_RemoveFile: "entries (RemoveFile f vs) g = (if g = f then {} else entries vs g)"
  by (auto simp: RemoveFile_def entries_drop) (auto simp: entries_def)

lemma entries_purge: "entries (purge A vs) f = (if f \<in> A then entries vs f else {})"
  by (auto simp: purge_def entries_drop) (auto simp: entries_def)

lemma store_ok_hashes: "store_ok vs \<Longrightarrow> holds_hash vs f h \<Longrightarrow> hashes_of vs f = {h}"
proof -
  assume ok: "store_ok vs" and "holds_hash vs f h"
  then obtain i c where c: "vs_Metadata vs i = Some c" "cm_SourceFile c = f" "cm_FileHash c = h" by (auto simp: holds_hash_def)
  have "cm_FileHash d = h" if "d \<in> entries vs f" for d
  proof -
    obtain j where "vs_Metadata vs j = Some d" "cm_SourceFile d = f" using \<open>d \<in> entries vs f\<close> by (auto simp: entries_def)
    then show ?thesis using ok c unfolding store_ok_def by metis
  qed
  moreover have "c \<in> entries vs f" using c by (auto simp: entries_def)
  ultimately show ?thesis using c(3) unfolding hashes_of_def by blast
qed

text \<open>New entries get the identifiers above the last one, in order.\<close>

definition numbered :: "nat \<Rightarrow> 'a list \<Rightarrow> (nat \<rightharpoonup> 'a) \<Rightarrow> nat \<rightharpoonup> 'a" where
  "numbered n xs m = (\<lambda>i. if n < i \<and> i \<le> n + length xs then Some (xs ! (i - n - 1)) else m i)"

lemma numbered_Nil [simp]: "numbered n [] m = m"
  by (rule ext) (auto simp: numbered_def)

lemma numbered_Cons: "numbered (n + 1) xs (m(n + 1 \<mapsto> x)) = numbered n (x # xs) m"
proof
  fix i
  consider "i = n + 1" | "n + 1 < i" | "i \<le> n" by linarith
  then show "numbered (n + 1) xs (m(n + 1 \<mapsto> x)) i = numbered n (x # xs) m i"
  proof cases
    case 2
    define k where "k = i - n - 2"
    have "i = n + 2 + k" using 2 by (simp add: k_def)
    then show ?thesis by (simp add: numbered_def)
  qed (auto simp: numbered_def)
qed

lemma add_entries_spec:
  "length metas = length vectors \<Longrightarrow>
   add_entries metas vectors vs =
     Some (vs\<lparr>vs_LastID := vs_LastID vs + length metas, vs_graph := numbered (vs_LastID vs) vectors (vs_graph vs),
              vs_Metadata := numbered (vs_LastID vs) metas (vs_Metadata vs)\<rparr>)"
proof (induction metas vectors arbitrary: vs rule: list_induct2)
  case Nil
  then show ?case by simp
next
  case (Cons c cs v vectors)
  then show ?case by (simp add: numbered_Cons [simplified, symmetric] del: fun_upd_apply)
qed

lemma add_entries_extra: "length metas \<le> length vectors \<Longrightarrow> add_entries metas vectors vs = add_entries metas (take (length metas) vectors) vs"
  by (induction metas vectors vs rule: add_entries.induct) (auto simp: Let_def)

lemma dom_numbered: "dom (numbered n xs m) = dom m \<union> {n <.. n + length xs}"
  by (auto simp: numbered_def dom_def)

lemma numbered_Some: "numbered n xs m i = Some x \<Longrightarrow> x \<in> set xs \<or> m i = Some x"
  by (auto simp: numbered_def split: if_splits)

lemma numbered_old: "i \<le> n \<Longrightarrow> numbered n xs m i = m i"
  by (simp add: numbered_def)

lemma numbered_new: "x \<in> set xs \<Longrightarrow> \<exists>i > n. numbered n xs m i = Some x"
proof -
  assume "x \<in> set xs"
  then obtain j where "j < length xs" "xs ! j = x" by (auto simp: in_set_conv_nth)
  then show ?thesis by (intro exI [of _ "n + 1 + j"]) (simp add: numbered_def)
qed

text \<open>
  \<open>AddChunks\<close> replaces what is stored for a file by its chunks, changes nothing else and keeps the two
  maps in step; with fewer vectors than chunks it panics.
\<close>

lemma AddChunks_spec:
  assumes "store_ok vs" and "length chunks \<le> length vectors"
  shows "\<exists>vs'. AddChunks f h chunks vectors local now vs = Some vs' \<and> store_ok vs' \<and> vs_LastID vs' = vs_LastID vs + length chunks \<and>
    (\<forall>g. entries vs' g = (if g = f then chunk_meta f h local now ` set chunks else entries vs g))"
proof -
  let ?metas = "map (chunk_meta f h local now) chunks"
  let ?r = "RemoveFile f vs" and ?n = "vs_LastID vs"
  define vs' where "vs' = ?r\<lparr>vs_LastID := ?n + length chunks, vs_graph := numbered ?n (take (length chunks) vectors) (vs_graph ?r),
      vs_Metadata := numbered ?n ?metas (vs_Metadata ?r)\<rparr>"
  have ok: "store_ok ?r" unfolding RemoveFile_def using assms(1) by (rule drop_entries_ok)
  have n: "vs_LastID ?r = ?n" by (simp add: RemoveFile_def)
  have add: "AddChunks f h chunks vectors local now vs = Some vs'"
    using assms(2) add_entries_spec [of ?metas "take (length chunks) vectors" ?r] add_entries_extra [of ?metas vectors ?r]
    by (simp add: AddChunks_def vs'_def n)
  have old: "i \<le> ?n" if "vs_Metadata ?r i = Some c" for i c using ok that n by (auto simp: store_ok_def)
  have meta: "vs_Metadata vs' i = Some c \<Longrightarrow> c \<in> set ?metas \<or> vs_Metadata ?r i = Some c" for i c
    by (auto simp: vs'_def dest: numbered_Some)
  have keep: "vs_Metadata ?r i = Some c \<Longrightarrow> vs_Metadata vs' i = Some c" for i c
    using old by (simp add: vs'_def numbered_old)
  have new: "c \<in> set ?metas \<Longrightarrow> \<exists>i. vs_Metadata vs' i = Some c" for c
    using numbered_new [of c ?metas ?n "vs_Metadata ?r"] by (auto simp: vs'_def)
  have src: "cm_SourceFile c = f \<and> cm_FileHash c = h" if "c \<in> set ?metas" for c using that by (auto simp: chunk_meta_def)
  have other: "cm_SourceFile c \<noteq> f" if "vs_Metadata ?r i = Some c" for i c
    using that by (simp add: RemoveFile_def drop_entries_Metadata)
  have ent: "entries vs' g = (if g = f then set ?metas else entries ?r g)" for g
  proof (cases "g = f")
    case True
    have "c \<in> set ?metas" if "vs_Metadata vs' i = Some c" "cm_SourceFile c = f" for i c
      using meta [OF that(1)] other that(2) by blast
    then have "entries vs' f \<subseteq> set ?metas" unfolding entries_def by blast
    moreover have "set ?metas \<subseteq> entries vs' f" using new src unfolding entries_def by blast
    ultimately show ?thesis using True by simp
  next
    case False
    have "vs_Metadata ?r i = Some c" if "vs_Metadata vs' i = Some c" "cm_SourceFile c = g" for i c
      using meta [OF that(1)] src that(2) False by blast
    then have "entries vs' g \<subseteq> entries ?r g" unfolding entries_def by blast
    moreover have "entries ?r g \<subseteq> entries vs' g" using keep unfolding entries_def by blast
    ultimately show ?thesis using False by simp
  qed
  have "store_ok vs'"
    unfolding store_ok_def
  proof (intro conjI allI impI)
    have "dom (vs_graph ?r) = dom (vs_Metadata ?r)" using ok by (simp add: store_ok_def)
    then show "dom (vs_graph vs') = dom (vs_Metadata vs')" using assms(2) by (simp add: vs'_def dom_numbered)
    show "\<forall>i \<in> dom (vs_Metadata vs'). 0 < i \<and> i \<le> vs_LastID vs'"
    proof
      fix i assume "i \<in> dom (vs_Metadata vs')"
      then consider "i \<in> dom (vs_Metadata ?r)" | "?n < i" "i \<le> ?n + length chunks" by (auto simp: vs'_def dom_numbered)
      then show "0 < i \<and> i \<le> vs_LastID vs'"
      proof cases
        case 1
        then have "0 < i" "i \<le> ?n" using ok n unfolding store_ok_def by auto
        then show ?thesis by (simp add: vs'_def)
      qed (simp add: vs'_def)
    qed
    show "cm_FileHash c = cm_FileHash d"
      if "vs_Metadata vs' i = Some c" "vs_Metadata vs' j = Some d" "cm_SourceFile c = cm_SourceFile d" for i j c d
      using meta [OF that(1)] meta [OF that(2)] src [of c] src [of d] other [of i c] other [of j d] that(3) ok
      unfolding store_ok_def by metis
  qed
  then show ?thesis using add ent by (auto simp: vs'_def entries_RemoveFile)
qed


text \<open>Identifiers of new entries are above all that were given out, so a search never mixes two of them.\<close>

section \<open>Synchronisation\<close>

text \<open>
  What \<open>SyncAll\<close> relies on: \<open>put\<close> brings what is held for the key of a path in line with the path and
  leaves the other keys alone.
\<close>

locale keyed_index =
  fixes put :: "'p \<Rightarrow> 's \<Rightarrow> 's option" and key :: "'p \<Rightarrow> 'k" and want :: "'p \<Rightarrow> 'h" and good :: "'p \<Rightarrow> bool"
    and held :: "'s \<Rightarrow> 'k \<Rightarrow> 'h set" and inv :: "'s \<Rightarrow> bool"
  assumes put_good: "inv s \<Longrightarrow> good p \<Longrightarrow> \<exists>s'. put p s = Some s' \<and> inv s' \<and> held s' (key p) = {want p} \<and> (\<forall>k. k \<noteq> key p \<longrightarrow> held s' k = held s k)"
begin

lemma index_all_exact:
  "inv s \<Longrightarrow> \<forall>p \<in> set ps. good p \<Longrightarrow> distinct (map key ps) \<Longrightarrow>
   \<exists>s'. index_all put ps s = Some s' \<and> inv s' \<and> (\<forall>p \<in> set ps. held s' (key p) = {want p}) \<and> (\<forall>k. k \<notin> key ` set ps \<longrightarrow> held s' k = held s k)"
proof (induction ps arbitrary: s)
  case (Cons p ps)
  from Cons.prems obtain t where t: "put p s = Some t" "inv t" "held t (key p) = {want p}" "\<forall>k. k \<noteq> key p \<longrightarrow> held t k = held s k"
    using put_good [of s p] by auto
  from Cons.IH [OF t(2)] Cons.prems obtain s' where s': "index_all put ps t = Some s'" "inv s'" "\<forall>p \<in> set ps. held s' (key p) = {want p}"
    "\<forall>k. k \<notin> key ` set ps \<longrightarrow> held s' k = held t k" by auto
  have "key p \<notin> key ` set ps" using Cons.prems(3) by simp
  then have "held s' (key p) = {want p}" using s'(4) t(3) by simp
  then show ?case using t(1,4) s' by auto
qed simp

end

text \<open>A document that can be indexed: it has text, and every chunk gets a vector.\<close>

fun doc_hash :: "FileState \<Rightarrow> string" where
  "doc_hash (Document h pages) = h"
| "doc_hash _ = []"

definition indexable :: "(string list \<Rightarrow> real list list option) \<Rightarrow> (string \<Rightarrow> FileState) \<Rightarrow> string \<Rightarrow> bool" where
  "indexable ask world path =
     (case world path of
        Document h (Some ps) \<Rightarrow>
          ChunkText ps 512 50 \<noteq> [] \<and>
          (case Embed ask (map ck_Text (ChunkText ps 512 50)) of Some vectors \<Rightarrow> length (ChunkText ps 512 50) \<le> length vectors | None \<Rightarrow> False)
      | _ \<Rightarrow> False)"

lemma ChunkText_Nil [simp]: "ChunkText [] m k = []"
  by (simp add: ChunkText_def)

lemma hashes_replaced:
  "\<forall>g. entries vs' g = (if g = f then chunk_meta f h local now ` set chunks else entries vs g) \<Longrightarrow> chunks \<noteq> [] \<Longrightarrow>
   hashes_of vs' f = {h} \<and> (\<forall>g. g \<noteq> f \<longrightarrow> hashes_of vs' g = hashes_of vs g)"
  by (cases chunks) (auto simp: hashes_of_def chunk_meta_def)

lemma AddChunks_ok:
  assumes "store_ok vs" and "length chunks \<le> length vectors" and "chunks \<noteq> []"
  obtains vs' where "AddChunks f h chunks vectors local now vs = Some vs'" "store_ok vs'" "hashes_of vs' f = {h}"
    "\<forall>g. g \<noteq> f \<longrightarrow> hashes_of vs' g = hashes_of vs g"
  using AddChunks_spec [OF assms(1,2), of f h local now] hashes_replaced [of _ f h local now chunks vs] assms(3) by metis

lemma IndexFile_good:
  assumes "store_ok vs" and "indexable ask world p"
  shows "\<exists>vs'. IndexFile ask dir world now p vs = Some vs' \<and> store_ok vs' \<and> hashes_of vs' (index_key dir p) = {doc_hash (world p)} \<and>
    (\<forall>f. f \<noteq> index_key dir p \<longrightarrow> hashes_of vs' f = hashes_of vs f)"
proof -
  from assms(2) obtain h ps vectors where w: "world p = Document h (Some ps)" "ChunkText ps 512 50 \<noteq> []"
    "Embed ask (map ck_Text (ChunkText ps 512 50)) = Some vectors" "length (ChunkText ps 512 50) \<le> length vectors"
    by (auto simp: indexable_def split: FileState.splits option.splits)
  show ?thesis
  proof (cases "holds_hash vs (index_key dir p) h")
    case True
    then show ?thesis using w assms(1) store_ok_hashes [OF assms(1) True] by (simp add: IndexFile_def Let_def)
  next
    case False
    have "ps \<noteq> []" using w(2) by auto
    moreover obtain vs' where "AddChunks (index_key dir p) h (ChunkText ps 512 50) vectors (is_local dir p) now vs = Some vs'" "store_ok vs'"
      "hashes_of vs' (index_key dir p) = {h}" "\<forall>g. g \<noteq> index_key dir p \<longrightarrow> hashes_of vs' g = hashes_of vs g"
      using AddChunks_ok [OF assms(1) w(4,2)] by blast
    ultimately show ?thesis using w False by (simp add: IndexFile_def Let_def)
  qed
qed

interpretation brain: keyed_index "IndexFile ask dir world now" "index_key dir" "\<lambda>p. doc_hash (world p)" "indexable ask world" hashes_of store_ok
  for ask dir world now
  by unfold_locales (rule IndexFile_good)

lemma hashes_purge: "hashes_of (purge A vs) f = (if f \<in> A then hashes_of vs f else {})"
  by (simp add: hashes_of_def entries_purge)

text \<open>
  C6: When every file can be read and embedded, \<open>SyncAll\<close> leaves in the index exactly the files it found,
  each with its present content.
\<close>

theorem SyncAll_exact:
  assumes "store_ok vs" and "names = storage_names (Some es)" and "locals = filter isSupportedExtension walked"
    and "distinct (names @ locals)"
    and "\<forall>n \<in> set names. index_key dir (filepath_Join dir n) = n \<and> indexable ask world (filepath_Join dir n)"
    and "\<forall>p \<in> set locals. is_local dir p \<and> indexable ask world p"
  shows "\<exists>vs'. SyncAll ask dir world now (Some es) walked vs = Some vs' \<and> store_ok vs' \<and>
    (\<forall>f. hashes_of vs' f = (if f \<in> set names then {doc_hash (world (filepath_Join dir f))} else if f \<in> set locals then {doc_hash (world f)} else {}))"
proof -
  let ?ps = "map (filepath_Join dir) names @ locals"
  have keys: "map (index_key dir) ?ps = names @ locals"
    using assms(5,6) by (simp add: comp_def index_key_def map_idI)
  have "\<forall>p \<in> set ?ps. indexable ask world p" using assms(5,6) by auto
  moreover have "distinct (map (index_key dir) ?ps)" using keys assms(4) by simp
  ultimately obtain v where v: "index_all (IndexFile ask dir world now) ?ps vs = Some v" "store_ok v"
    "\<forall>p \<in> set ?ps. hashes_of v (index_key dir p) = {doc_hash (world p)}"
    using brain.index_all_exact [OF assms(1), of ?ps ask world dir now] by auto
  have n: "hashes_of v f = {doc_hash (world (filepath_Join dir f))}" if "f \<in> set names" for f
  proof -
    have "filepath_Join dir f \<in> set ?ps" "index_key dir (filepath_Join dir f) = f" using assms(5) that by auto
    then show ?thesis using v(3) by metis
  qed
  have l: "hashes_of v f = {doc_hash (world f)}" if "f \<in> set locals" for f
  proof -
    have "f \<in> set ?ps" "index_key dir f = f" using assms(6) that by (auto simp: index_key_def)
    then show ?thesis using v(3) by metis
  qed
  have "SyncAll ask dir world now (Some es) walked vs = Some (purge (set names \<union> set locals) v)"
    using v(1) assms(2,3) by (simp add: SyncAll_def Let_def)
  moreover have "store_ok (purge (set names \<union> set locals) v)" unfolding purge_def using v(2) by (rule drop_entries_ok)
  ultimately show ?thesis using n l by (auto simp: hashes_purge)
qed


definition small_world :: "string \<Rightarrow> FileState" where
  "small_world p =
     (if p = ''/d/a.txt'' then Document ''h1'' (Some [''hello there'']) else if p = ''/home/n.md'' then Document ''h2'' (Some [''notes'']) else Missing)"

definition unit_vectors :: "string list \<Rightarrow> real list list option" where "unit_vectors ts = Some (map (\<lambda>t. [1]) ts)"

definition empty_store :: VectorStore where "empty_store = \<lparr>vs_graph = Map.empty, vs_Metadata = Map.empty, vs_LastID = 0\<rparr>"

lemma empty_store_ok [simp]: "store_ok empty_store"
  by (simp add: store_ok_def empty_store_def)

lemma small_chunks:
  "map ck_Text (ChunkText [''hello there''] 512 50) = [''hello there'']" "map ck_Text (ChunkText [''notes''] 512 50) = [''notes'']"
  by code_simp+

lemma small_indexable: "indexable unit_vectors small_world ''/d/a.txt''" "indexable unit_vectors small_world ''/home/n.md''"
proof -
  have l: "length (ChunkText [''hello there''] 512 50) = 1" "length (ChunkText [''notes''] 512 50) = 1"
    using small_chunks by (metis length_map length_Cons list.size(3) One_nat_def)+
  have e: "Embed unit_vectors [t] = Some [[1]]" for t by (simp add: Embed.simps unit_vectors_def)
  show "indexable unit_vectors small_world ''/d/a.txt''" using l(1) by (auto simp: indexable_def small_world_def small_chunks e)
  show "indexable unit_vectors small_world ''/home/n.md''" using l(2) by (auto simp: indexable_def small_world_def small_chunks e)
qed

theorem SyncAll_exact_witness:
  "\<exists>vs'. SyncAll unit_vectors ''/d'' small_world 7 (Some [(''a.txt'', False), (''sub'', True), (''b.bin'', False)]) [''/home/n.md''] empty_store = Some vs' \<and>
    store_ok vs' \<and>
    (\<forall>f. hashes_of vs' f = (if f \<in> set [''a.txt''] then {doc_hash (small_world (filepath_Join ''/d'' f))}
        else if f \<in> set [''/home/n.md''] then {doc_hash (small_world f)} else {}))"
proof (rule SyncAll_exact)
  show "[''a.txt''] = storage_names (Some [(''a.txt'', False), (''sub'', True), (''b.bin'', False)])" by code_simp
  show "[''/home/n.md''] = filter isSupportedExtension [''/home/n.md'']" by code_simp
  have j: "filepath_Join ''/d'' ''a.txt'' = ''/d/a.txt''" by code_simp
  have k: "index_key ''/d'' ''/d/a.txt'' = ''a.txt''" by code_simp
  show "\<forall>n \<in> set [''a.txt'']. index_key ''/d'' (filepath_Join ''/d'' n) = n \<and> indexable unit_vectors small_world (filepath_Join ''/d'' n)"
    by (simp add: j k small_indexable)
  have l: "is_local ''/d'' ''/home/n.md''" by code_simp
  show "\<forall>p \<in> set [''/home/n.md'']. is_local ''/d'' p \<and> indexable unit_vectors small_world p" by (simp add: l small_indexable)
qed simp_all

text \<open>What a failure of the folder does: a shared folder that cannot be read once empties its part of the index.\<close>

theorem unreadable_folder_purges:
  assumes "SyncAll ask dir world now None walked vs = Some vs'" and "f \<notin> set walked"
  shows "entries vs' f = {}"
  using assms by (auto simp: SyncAll_def storage_names_def entries_purge)

theorem unreadable_folder_purges_witness: "entries (the (SyncAll unit_vectors ''/d'' small_world 7 None [] empty_store)) ''a.txt'' = {}"
  by (rule unreadable_folder_purges [of unit_vectors "''/d''" small_world 7 "[]" empty_store]) (simp_all add: SyncAll_def storage_names_def)

text \<open>A file that has lost its text keeps its old chunks, however often the index is synchronised.\<close>

lemma emptied_file_stays: "world p = Document h (Some ps) \<Longrightarrow> ChunkText ps 512 50 = [] \<Longrightarrow> IndexFile ask dir world now p vs = Some vs"
  by (simp add: IndexFile_def Let_def)

text \<open>The shared folder is recognised by its name as a prefix: a local folder beside it is indexed under base names and purged at once.\<close>

lemma sibling_folder_purged:
  "\<not> is_local ''/d/storage'' ''/d/storage2/a.txt'' \<and>
   (SyncAll ask ''/d/storage'' world now (Some []) [''/d/storage2/a.txt''] vs = Some vs' \<longrightarrow> entries vs' ''a.txt'' = {})"
proof -
  have "\<not> is_local ''/d/storage'' ''/d/storage2/a.txt''" by code_simp
  then show ?thesis by (auto simp: SyncAll_def entries_purge storage_names_def)
qed

text \<open>Removing a local file clears the shared file of the same base name, and leaves the local one in the index.\<close>

lemma removal_hits_namesake:
  "entries (wa_store (watch_event now (FsRemove ''/home/u/a.txt'') w)) ''a.txt'' = {} \<and>
   entries (wa_store (watch_event now (FsRemove ''/home/u/a.txt'') w)) ''/home/u/a.txt'' = entries (wa_store w) ''/home/u/a.txt''"
proof -
  have b: "path_base ''/home/u/a.txt'' = ''a.txt''" by code_simp
  show ?thesis by (simp add: watch_event_def b entries_RemoveFile)
qed

text \<open>Without its metadata a graph gives no results, and its identifiers are given out again.\<close>

lemma lost_metadata: "NewVectorStore (Some g) None = Some vs \<Longrightarrow> LocalSearch neighbours q k vs = [] \<and> vs_LastID vs = 0 \<and> vs_graph vs = g"
  by (auto simp: NewVectorStore_def LocalSearch_def)

text \<open>An embedder that answers a batch with fewer vectors shifts the vectors of the next batch to its texts.\<close>

lemma Embed_batch: "texts \<noteq> [] \<Longrightarrow> ask (take 32 texts) = Some vs \<Longrightarrow> Embed ask texts = map_option ((@) vs) (Embed ask (drop 32 texts))"
  by (subst Embed.simps) simp

section \<open>Runs of the index\<close>

datatype brain_step =
    BIndex "string list \<Rightarrow> real list list option" string "string \<Rightarrow> FileState" time string
  | BSync "string list \<Rightarrow> real list list option" string "string \<Rightarrow> FileState" time "(string \<times> bool) list option" "string list"
  | BRemoveHash string | BEvent time fs_event | BTick "string list" time

text \<open>A step is \<open>None\<close> when the program panics.\<close>

fun brain_do :: "Watcher \<Rightarrow> brain_step \<Rightarrow> Watcher option" where
  "brain_do w (BIndex ask dir world now p) = map_option (\<lambda>vs. w\<lparr>wa_store := vs\<rparr>) (IndexFile ask dir world now p (wa_store w))"
| "brain_do w (BSync ask dir world now es walked) = map_option (\<lambda>vs. w\<lparr>wa_store := vs\<rparr>) (SyncAll ask dir world now es walked (wa_store w))"
| "brain_do w (BRemoveHash h) = Some (w\<lparr>wa_store := RemoveFileByHash h (wa_store w)\<rparr>)"
| "brain_do w (BEvent now e) = Some (watch_event now e w)"
| "brain_do w (BTick order now) = Some (snd (watch_tick order now w))"

fun brain_run :: "brain_step list \<Rightarrow> Watcher \<Rightarrow> Watcher option" where
  "brain_run [] w = Some w"
| "brain_run (s # ss) w = (case brain_do w s of None \<Rightarrow> None | Some w \<Rightarrow> brain_run ss w)"

lemma AddChunks_length: "AddChunks f h chunks vectors local now vs = Some vs' \<Longrightarrow> length chunks \<le> length vectors"
proof -
  have "add_entries metas vectors vs = Some vs' \<Longrightarrow> length metas \<le> length vectors" for metas vs vs'
    by (induction metas vectors vs rule: add_entries.induct) (auto simp: Let_def)
  then show "AddChunks f h chunks vectors local now vs = Some vs' \<Longrightarrow> length chunks \<le> length vectors"
    unfolding AddChunks_def by fastforce
qed

lemma AddChunks_any:
  assumes "store_ok vs" and "AddChunks f h chunks vectors local now vs = Some vs'"
  shows "store_ok vs'"
  using AddChunks_spec [OF assms(1) AddChunks_length [OF assms(2)], of f h local now] assms(2) by auto

lemma IndexFile_ok: "store_ok vs \<Longrightarrow> IndexFile ask dir world now p vs = Some vs' \<Longrightarrow> store_ok vs'"
  by (auto simp: IndexFile_def Let_def RemoveFile_def drop_entries_ok dest: AddChunks_any split: FileState.splits option.splits if_splits)

lemma index_all_ok: "store_ok vs \<Longrightarrow> index_all (IndexFile ask dir world now) ps vs = Some vs' \<Longrightarrow> store_ok vs'"
  by (induction ps arbitrary: vs) (auto split: option.splits dest: IndexFile_ok)

lemma brain_do_ok: "store_ok (wa_store w) \<Longrightarrow> brain_do w s = Some w' \<Longrightarrow> store_ok (wa_store w')"
  by (cases s) (auto simp: SyncAll_def Let_def purge_def RemoveFileByHash_def RemoveFile_def watch_event_def watch_tick_def drop_entries_ok
      dest: IndexFile_ok index_all_ok split: fs_event.splits if_splits)

text \<open>
  In every run the graph and the metadata have the same identifiers, none above the last one given
  out, and all chunks of a file come from one content of it.
\<close>

theorem brain_run_invariant:
  "brain_run steps \<lparr>wa_pending = Map.empty, wa_store = empty_store\<rparr> = Some w \<Longrightarrow>
   dom (vs_graph (wa_store w)) = dom (vs_Metadata (wa_store w)) \<and>
   dom (vs_Metadata (wa_store w)) \<subseteq> {1 .. vs_LastID (wa_store w)} \<and>
   (\<forall>f. \<exists>h. hashes_of (wa_store w) f \<subseteq> {h})"
proof -
  have run: "store_ok (wa_store w) \<Longrightarrow> brain_run steps w = Some w' \<Longrightarrow> store_ok (wa_store w')" for w w'
    by (induction steps arbitrary: w) (auto split: option.splits dest: brain_do_ok)
  assume "brain_run steps \<lparr>wa_pending = Map.empty, wa_store = empty_store\<rparr> = Some w"
  from run [OF _ this] have ok: "store_ok (wa_store w)" by simp
  have "\<exists>h. hashes_of (wa_store w) f \<subseteq> {h}" for f
  proof (cases "\<exists>h. holds_hash (wa_store w) f h")
    case True
    then show ?thesis using store_ok_hashes [OF ok] by fastforce
  next
    case False
    then show ?thesis by (fastforce simp: holds_hash_def hashes_of_def entries_def)
  qed
  moreover have "dom (vs_Metadata (wa_store w)) \<subseteq> {1 .. vs_LastID (wa_store w)}"
  proof
    fix i assume "i \<in> dom (vs_Metadata (wa_store w))"
    then have "0 < i \<and> i \<le> vs_LastID (wa_store w)" using ok unfolding store_ok_def by blast
    then show "i \<in> {1 .. vs_LastID (wa_store w)}" by simp
  qed
  ultimately show ?thesis using ok by (simp add: store_ok_def)
qed

theorem brain_run_invariant_witness:
  "\<exists>w. brain_run [BEvent 3 (FsRemove ''/d/a.txt''), BTick [] 5] \<lparr>wa_pending = Map.empty, wa_store = empty_store\<rparr> = Some w \<and>
   dom (vs_graph (wa_store w)) = dom (vs_Metadata (wa_store w)) \<and>
   dom (vs_Metadata (wa_store w)) \<subseteq> {1 .. vs_LastID (wa_store w)} \<and>
   (\<forall>f. \<exists>h. hashes_of (wa_store w) f \<subseteq> {h})"
proof -
  obtain w where w: "brain_run [BEvent 3 (FsRemove ''/d/a.txt''), BTick [] 5] \<lparr>wa_pending = Map.empty, wa_store = empty_store\<rparr> = Some w" by simp
  show ?thesis by (rule exI [of _ w], rule conjI [OF w], rule brain_run_invariant [OF w])
qed


section \<open>Searching the cluster\<close>

text \<open>What the loop of \<open>deduplicateResults\<close> has kept of the results so far: the best of each key.\<close>

definition best_of :: "BrainResult list \<Rightarrow> (string \<times> nat \<rightharpoonup> BrainResult) \<Rightarrow> bool" where
  "best_of rs best \<longleftrightarrow>
     (\<forall>k. case best k of
        None \<Rightarrow> \<forall>r \<in> set rs. chunk_key r \<noteq> k
      | Some b \<Rightarrow> b \<in> set rs \<and> chunk_key b = k \<and> (\<forall>r \<in> set rs. chunk_key r = k \<longrightarrow> br_Score r \<le> br_Score b))"

lemma keep_result_best: "best_of rs best \<Longrightarrow> best_of (rs @ [r]) (keep_result best r)"
  unfolding best_of_def
proof
  fix k
  assume inv: "\<forall>k. case best k of None \<Rightarrow> \<forall>r \<in> set rs. chunk_key r \<noteq> k
      | Some b \<Rightarrow> b \<in> set rs \<and> chunk_key b = k \<and> (\<forall>r \<in> set rs. chunk_key r = k \<longrightarrow> br_Score r \<le> br_Score b)"
  then have k: "case best k of None \<Rightarrow> \<forall>r \<in> set rs. chunk_key r \<noteq> k
      | Some b \<Rightarrow> b \<in> set rs \<and> chunk_key b = k \<and> (\<forall>r \<in> set rs. chunk_key r = k \<longrightarrow> br_Score r \<le> br_Score b)" by blast
  show "case keep_result best r k of None \<Rightarrow> \<forall>a \<in> set (rs @ [r]). chunk_key a \<noteq> k
      | Some b \<Rightarrow> b \<in> set (rs @ [r]) \<and> chunk_key b = k \<and> (\<forall>a \<in> set (rs @ [r]). chunk_key a = k \<longrightarrow> br_Score a \<le> br_Score b)"
  proof (cases "chunk_key r = k")
    case True
    then show ?thesis using k by (cases "best k") (auto simp: keep_result_def)
  next
    case False
    then have "keep_result best r k = best k" by (simp add: keep_result_def split: option.split)
    then show ?thesis using k False by (cases "best k") auto
  qed
qed

lemma keep_all_best: "best_of rs best \<Longrightarrow> best_of (rs @ qs) (foldl keep_result best qs)"
proof (induction qs arbitrary: rs best)
  case (Cons q qs)
  from Cons.IH [OF keep_result_best [OF Cons.prems, of q]] show ?case by simp
qed simp

lemma kept_best: "best_of rs (foldl keep_result Map.empty rs)"
  using keep_all_best [of "[]" Map.empty rs] by (simp add: best_of_def)

lemma deduplicate_spec:
  assumes "map_order order (foldl keep_result Map.empty rs)"
  defines "ds \<equiv> deduplicateResults order rs"
  shows "map chunk_key ds = order" and "set ds \<subseteq> set rs" and "\<forall>k. (\<exists>r \<in> set rs. chunk_key r = k) \<longrightarrow> k \<in> set order"
    and "\<forall>d \<in> set ds. \<forall>r \<in> set rs. chunk_key r = chunk_key d \<longrightarrow> br_Score r \<le> br_Score d"
proof -
  let ?b = "foldl keep_result Map.empty rs"
  have all: "\<forall>k \<in> set order. \<exists>d. ?b k = Some d" using assms(1) by (auto simp: map_order_def)
  have d: "ds = map (\<lambda>k. the (?b k)) order"
    using all unfolding ds_def deduplicateResults_def by (induction order) (auto simp: map_filter_def)
  have b: "d \<in> set rs \<and> chunk_key d = k \<and> (\<forall>r \<in> set rs. chunk_key r = k \<longrightarrow> br_Score r \<le> br_Score d)" if "?b k = Some d" for k d
    using kept_best [of rs, unfolded best_of_def, THEN spec, of k] that by simp
  have key: "chunk_key (the (?b k)) = k \<and> the (?b k) \<in> set rs \<and> (\<forall>r \<in> set rs. chunk_key r = k \<longrightarrow> br_Score r \<le> br_Score (the (?b k)))"
    if "k \<in> set order" for k using all b that by fastforce
  show "map chunk_key ds = order" unfolding d using key by (simp add: map_idI)
  show "set ds \<subseteq> set rs" unfolding d using key by auto
  show "\<forall>d \<in> set ds. \<forall>r \<in> set rs. chunk_key r = chunk_key d \<longrightarrow> br_Score r \<le> br_Score d" unfolding d using key by auto
  show "\<forall>k. (\<exists>r \<in> set rs. chunk_key r = k) \<longrightarrow> k \<in> set order"
  proof (intro allI impI)
    fix k assume "\<exists>r \<in> set rs. chunk_key r = k"
    then have "?b k \<noteq> None" using kept_best [of rs, unfolded best_of_def, THEN spec, of k] by (auto split: option.splits)
    then show "k \<in> set order" using assms(1) by (auto simp: map_order_def)
  qed
qed

lemma weak_order_result: "weak_order result_better"
  by (auto simp: weak_order_def result_better_def)

text \<open>
  A search of the cluster returns each chunk once, with the best score any node gave it, the best
  first; what is left out is no better than anything returned, and nothing is left out while there is room.
\<close>

theorem Brain_Search_best:
  assumes "all = localResults @ concat arrived" and "map_order order (foldl keep_result Map.empty all)"
    and "res = Brain_Search order localResults arrived topK"
  shows "set res \<subseteq> set all \<and> length res \<le> topK \<and> distinct (map chunk_key res) \<and> sorted_wrt (\<lambda>a b. br_Score a \<ge> br_Score b) res \<and>
    (\<forall>r \<in> set res. \<forall>a \<in> set all. chunk_key a = chunk_key r \<longrightarrow> br_Score a \<le> br_Score r) \<and>
    (\<forall>a \<in> set all. chunk_key a \<notin> chunk_key ` set res \<longrightarrow> length res = topK \<and> (\<forall>r \<in> set res. br_Score a \<le> br_Score r))"
proof -
  define ds where "ds = deduplicateResults order all"
  let ?s = "slice_sort result_better ds"
  note spec = deduplicate_spec [OF assms(2), folded ds_def]
  have res: "res = take topK ?s" using assms(1,3) by (simp add: Brain_Search_def ds_def)
  have sorted: "sorted_wrt (\<lambda>a b. br_Score a \<ge> br_Score b) ?s"
    using slice_sorted_sort [OF weak_order_result, of ds] by (simp add: slice_sorted_def result_better_def not_less)
  have "mset (map chunk_key ?s) = mset (map chunk_key ds)" by simp
  then have "distinct (map chunk_key ?s)" using spec(1) assms(2) by (metis map_order_def mset_eq_imp_distinct_iff)
  then have dist: "distinct (map chunk_key res)" unfolding res by (metis distinct_take take_map)
  have sub: "set res \<subseteq> set ds" unfolding res using set_take_subset [of topK ?s] by simp
  have out: "length res = topK \<and> (\<forall>r \<in> set res. br_Score a \<le> br_Score r)" if a: "a \<in> set all" "chunk_key a \<notin> chunk_key ` set res" for a
  proof -
    have "chunk_key a \<in> set (map chunk_key ds)" using spec(3) a(1) unfolding spec(1) by blast
    then obtain d where d: "d \<in> set ds" "chunk_key d = chunk_key a" by auto
    then have le: "br_Score a \<le> br_Score d" using spec(4) a(1) by auto
    have "d \<in> set ?s" using d(1) by simp
    moreover have "d \<notin> set (take topK ?s)" using d(2) a(2) unfolding res by (metis imageI)
    ultimately have "d \<in> set (drop topK ?s)" by (metis Un_iff append_take_drop_id set_append)
    moreover from this have "\<not> length ?s \<le> topK" by auto
    ultimately have "topK < length ?s" "\<forall>r \<in> set res. br_Score d \<le> br_Score r"
      using drop_sorted_le [OF sorted] unfolding res by auto
    then show ?thesis using le res by (auto intro: order_trans)
  qed
  show ?thesis using dist sub spec(2,4) sorted out by (auto simp: res sorted_wrt_take)
qed

definition two_results :: "BrainResult list" where
  "two_results =
     [result_of [1] [0.5] (chunk_meta ''a.txt'' ''h'' False 0 \<lparr>ck_Text = ''x'', ck_Index = 0, ck_Page = 0\<rparr>),
      result_of [1] [0.75] (chunk_meta ''b.txt'' ''h'' False 0 \<lparr>ck_Text = ''x'', ck_Index = 0, ck_Page = 0\<rparr>)]"

theorem Brain_Search_best_witness:
  "let all = take 1 two_results @ concat [drop 1 two_results]; res = Brain_Search [(''h'', 0)] (take 1 two_results) [drop 1 two_results] 5 in
   set res \<subseteq> set all \<and> length res \<le> 5 \<and> distinct (map chunk_key res) \<and> sorted_wrt (\<lambda>a b. br_Score a \<ge> br_Score b) res \<and>
    (\<forall>r \<in> set res. \<forall>a \<in> set all. chunk_key a = chunk_key r \<longrightarrow> br_Score a \<le> br_Score r) \<and>
    (\<forall>a \<in> set all. chunk_key a \<notin> chunk_key ` set res \<longrightarrow> length res = 5 \<and> (\<forall>r \<in> set res. br_Score a \<le> br_Score r))"
  unfolding Let_def
proof (rule Brain_Search_best [OF refl _ refl])
  show "map_order [(''h'', 0)] (foldl keep_result Map.empty (take 1 two_results @ concat [drop 1 two_results]))"
    by (auto simp: two_results_def keep_result_def chunk_key_def result_of_def chunk_meta_def map_order_def split: if_splits)
qed

section \<open>Answers to other nodes\<close>

text \<open>Only a trusted node gets results, only for a vector of the right dimension, and at most a hundred.\<close>

theorem query_guard:
  assumes "\<forall>g q k. 0 \<le> k \<longrightarrow> int (length (neighbours g q k)) \<le> k"
    and "handleQueryStream neighbours trusted request vs = QueryResults rs"
  shows "trusted \<and> (\<exists>v k. request = Some (v, k) \<and> length v = 768 \<and> rs = LocalSearch neighbours v (clamp_topK k) vs) \<and> length rs \<le> 100"
proof -
  obtain v k where r: "trusted" "request = Some (v, k)" "length v = 768" "rs = LocalSearch neighbours v (clamp_topK k) vs"
    using assms(2) by (auto simp: handleQueryStream_def expectedDim_def split: if_splits option.splits)
  have "int (length (neighbours (vs_graph vs) v (clamp_topK k))) \<le> clamp_topK k" using assms(1) by (simp add: clamp_topK_def)
  moreover have "clamp_topK k \<le> 100" by (simp add: clamp_topK_def)
  ultimately have "length (neighbours (vs_graph vs) v (clamp_topK k)) \<le> 100" by linarith
  moreover have "length rs \<le> length (neighbours (vs_graph vs) v (clamp_topK k))"
    unfolding r(4) LocalSearch_def map_filter_def by (simp add: le_trans [OF length_filter_le])
  ultimately show ?thesis using r by auto
qed

theorem query_guard_witness:
  "True \<and> (\<exists>v k. Some (replicate 768 1, 7) = Some (v, k) \<and> length v = 768 \<and> [] = LocalSearch (\<lambda>g q k. []) v (clamp_topK k) empty_store) \<and>
   length ([] :: BrainResult list) \<le> 100"
  by (rule query_guard) (simp_all add: handleQueryStream_def expectedDim_def LocalSearch_def empty_store_def)

section \<open>The status\<close>

lemma count_chunk_Chunks:
  "(case count_chunk files c f of None \<Rightarrow> 0 | Some i \<Rightarrow> fi_Chunks i) =
   (case files f of None \<Rightarrow> 0 | Some i \<Rightarrow> fi_Chunks i) + (if cm_SourceFile c = f then 1 else 0)"
  by (auto simp: count_chunk_def Let_def split: option.split)

lemma file_statuses_Chunks:
  "(case foldl count_chunk files cs f of None \<Rightarrow> 0 | Some i \<Rightarrow> fi_Chunks i) =
   (case files f of None \<Rightarrow> 0 | Some i \<Rightarrow> fi_Chunks i) + length (filter (\<lambda>c. cm_SourceFile c = f) cs)"
  by (induction cs arbitrary: files) (simp_all add: count_chunk_Chunks)

text \<open>The status counts for each file the chunks stored for it.\<close>

theorem GetStatus_counts:
  assumes "map_order order (vs_Metadata vs)"
  shows "(case fst (GetStatus order n vs) f of None \<Rightarrow> 0 | Some i \<Rightarrow> fi_Chunks i) = card {i. \<exists>c. vs_Metadata vs i = Some c \<and> cm_SourceFile c = f} \<and>
    fst (snd (GetStatus order n vs)) = card (dom (vs_Metadata vs))"
proof -
  have o: "distinct order" "set order = dom (vs_Metadata vs)" using assms by (auto simp: map_order_def)
  have m: "List.map_filter (vs_Metadata vs) order = map (\<lambda>i. the (vs_Metadata vs i)) order"
  proof -
    have "\<forall>i \<in> set js. vs_Metadata vs i \<noteq> None \<Longrightarrow> List.map_filter (vs_Metadata vs) js = map (\<lambda>i. the (vs_Metadata vs i)) js" for js
      by (induction js) (auto simp: map_filter_def)
    then show ?thesis using o(2) by blast
  qed
  have "length (filter (\<lambda>c. cm_SourceFile c = f) (map (\<lambda>i. the (vs_Metadata vs i)) order)) =
      card (set (filter (\<lambda>i. cm_SourceFile (the (vs_Metadata vs i)) = f) order))"
    using o(1) by (simp add: filter_map comp_def distinct_length_filter Int_def Collect_conj_eq [symmetric] conj_commute)
  also have "set (filter (\<lambda>i. cm_SourceFile (the (vs_Metadata vs i)) = f) order) = {i. \<exists>c. vs_Metadata vs i = Some c \<and> cm_SourceFile c = f}"
    using o(2) by auto
  finally show ?thesis
    using o by (simp add: GetStatus_def Let_def m file_statuses_def file_statuses_Chunks distinct_card [symmetric])
qed

theorem GetStatus_counts_witness:
  "(case fst (GetStatus [] 2 empty_store) ''a'' of None \<Rightarrow> 0 | Some i \<Rightarrow> fi_Chunks i) =
     card {i. \<exists>c. vs_Metadata empty_store i = Some c \<and> cm_SourceFile c = ''a''} \<and>
   fst (snd (GetStatus [] 2 empty_store)) = card (dom (vs_Metadata empty_store))"
  by (rule GetStatus_counts) (simp add: empty_store_def)

end
