(* ===== verification/Mcp_Gateway.thy ===== *)
theory Mcp_Gateway
  imports Prelude Go_Strings
begin

text \<open>
  \<open>internal/mcp\<close>: servers of the Model Context Protocol that run as subprocesses and offer tools.
  \<open>registry.go\<close> is the catalogue of known servers, \<open>credentials.go\<close> the encrypted file of their secrets,
  \<open>gateway.go\<close> the configurations, the processes and the calls over JSON-RPC.

  A sealed file opens with its key only. The keychain of macOS is left out: the model is the store
  used everywhere else. Whether a process starts, a write succeeds and what a server answers are
  inputs. The calls of one process are a state machine of their own, as they run in parallel.
\<close>

section \<open>The catalogue: \<open>registry.go\<close>\<close>

record EnvVarSpec =
  ev_Key :: string
  ev_Required :: bool
  ev_Secret :: bool

record BuiltinServer =
  bs_Name :: string
  bs_Command :: string
  bs_EnvVars :: "EnvVarSpec list"

abbreviation env_var :: "string \<Rightarrow> bool \<Rightarrow> EnvVarSpec" where
  "env_var k secret \<equiv> \<lparr>ev_Key = k, ev_Required = True, ev_Secret = secret\<rparr>"

definition builtinServers :: "BuiltinServer list" where
  "builtinServers =
     [\<lparr>bs_Name = ''github'', bs_Command = ''npx -y @modelcontextprotocol/server-github'', bs_EnvVars = [env_var ''GITHUB_PERSONAL_ACCESS_TOKEN'' True]\<rparr>,
      \<lparr>bs_Name = ''notion'', bs_Command = ''npx -y @modelcontextprotocol/server-notion'', bs_EnvVars = [env_var ''NOTION_API_KEY'' True]\<rparr>,
      \<lparr>bs_Name = ''google-calendar'', bs_Command = ''npx -y @modelcontextprotocol/server-google-calendar'',
        bs_EnvVars = [env_var ''GOOGLE_CLIENT_ID'' False, env_var ''GOOGLE_CLIENT_SECRET'' True]\<rparr>,
      \<lparr>bs_Name = ''slack'', bs_Command = ''npx -y @modelcontextprotocol/server-slack'', bs_EnvVars = [env_var ''SLACK_BOT_TOKEN'' True, env_var ''SLACK_TEAM_ID'' False]\<rparr>,
      \<lparr>bs_Name = ''postgres'', bs_Command = ''npx -y @modelcontextprotocol/server-postgres'', bs_EnvVars = [env_var ''POSTGRES_CONNECTION_STRING'' True]\<rparr>,
      \<lparr>bs_Name = ''linear'', bs_Command = ''npx -y @modelcontextprotocol/server-linear'', bs_EnvVars = [env_var ''LINEAR_API_KEY'' True]\<rparr>,
      \<lparr>bs_Name = ''jira'', bs_Command = ''npx -y @modelcontextprotocol/server-jira'',
        bs_EnvVars = [env_var ''JIRA_URL'' False, env_var ''JIRA_EMAIL'' False, env_var ''JIRA_API_TOKEN'' True]\<rparr>,
      \<lparr>bs_Name = ''obsidian'', bs_Command = ''npx -y @modelcontextprotocol/server-obsidian'', bs_EnvVars = [env_var ''OBSIDIAN_VAULT_PATH'' False]\<rparr>,
      \<lparr>bs_Name = ''gmail'', bs_Command = ''npx -y @modelcontextprotocol/server-gmail'', bs_EnvVars = [env_var ''GMAIL_CREDENTIALS_PATH'' False]\<rparr>,
      \<lparr>bs_Name = ''filesystem'', bs_Command = ''npx -y @modelcontextprotocol/server-filesystem'', bs_EnvVars = [env_var ''ALLOWED_DIRECTORIES'' False]\<rparr>]"

definition FindBuiltin :: "string \<Rightarrow> BuiltinServer option" where
  "FindBuiltin name = find (\<lambda>s. bs_Name s = name) builtinServers"

section \<open>Secrets: \<open>credentials.go\<close>\<close>

datatype CredFile = CredSealed string "string \<rightharpoonup> string" | CredBroken

record CredStore =
  cs_once :: bool
  cs_masterKey :: "string option"
  cs_keyFile :: "string option"
  cs_file :: "CredFile option"

text \<open>The key is read or made once; \<open>fresh\<close> is the random key and \<open>ok\<close> whether it can be written.\<close>

definition getMasterKey :: "string \<Rightarrow> bool \<Rightarrow> CredStore \<Rightarrow> string option \<times> CredStore" where
  "getMasterKey fresh ok cs =
     (if cs_once cs then (cs_masterKey cs, cs)
      else case cs_keyFile cs of
        Some k \<Rightarrow>
          if length k = 32 then (Some k, cs\<lparr>cs_once := True, cs_masterKey := Some k\<rparr>)
          else if ok then (Some fresh, cs\<lparr>cs_once := True, cs_masterKey := Some fresh, cs_keyFile := Some fresh\<rparr>)
          else (None, cs\<lparr>cs_once := True\<rparr>)
      | None \<Rightarrow>
          if ok then (Some fresh, cs\<lparr>cs_once := True, cs_masterKey := Some fresh, cs_keyFile := Some fresh\<rparr>)
          else (None, cs\<lparr>cs_once := True\<rparr>))"

definition open_file :: "string \<Rightarrow> CredFile option \<Rightarrow> (string \<rightharpoonup> string) option" where
  "open_file key f = (case f of Some (CredSealed k m) \<Rightarrow> if k = key then Some m else None | _ \<Rightarrow> None)"

definition cred_key :: "string \<Rightarrow> string \<Rightarrow> string" where "cred_key service key = service @ ''/'' @ key"

text \<open>A file that cannot be opened counts as empty.\<close>

definition storeEncrypted :: "string \<Rightarrow> bool \<Rightarrow> string \<Rightarrow> string \<Rightarrow> string \<Rightarrow> CredStore \<Rightarrow> bool \<times> CredStore" where
  "storeEncrypted fresh ok service key val cs =
     (let (master, cs) = getMasterKey fresh ok cs in
      case master of
        None \<Rightarrow> (False, cs)
      | Some k \<Rightarrow>
          (let m = (case open_file k (cs_file cs) of Some m \<Rightarrow> m | None \<Rightarrow> Map.empty)
           in if ok then (True, cs\<lparr>cs_file := Some (CredSealed k (m(cred_key service key \<mapsto> val)))\<rparr>) else (False, cs)))"

definition getEncrypted :: "string \<Rightarrow> bool \<Rightarrow> string \<Rightarrow> string \<Rightarrow> CredStore \<Rightarrow> string option \<times> CredStore" where
  "getEncrypted fresh ok service key cs =
     (if cs_file cs = None then (None, cs)
      else let (master, cs) = getMasterKey fresh ok cs in
        case master of
          None \<Rightarrow> (None, cs)
        | Some k \<Rightarrow> (case open_file k (cs_file cs) of Some m \<Rightarrow> m (cred_key service key) | None \<Rightarrow> None, cs))"

definition deleteEncrypted :: "string \<Rightarrow> bool \<Rightarrow> string \<Rightarrow> string \<Rightarrow> CredStore \<Rightarrow> CredStore" where
  "deleteEncrypted fresh ok service key cs =
     (if cs_file cs = None then cs
      else let (master, cs) = getMasterKey fresh ok cs in
        case master of
          None \<Rightarrow> cs
        | Some k \<Rightarrow>
            (case open_file k (cs_file cs) of
               None \<Rightarrow> cs
             | Some m \<Rightarrow> if ok then cs\<lparr>cs_file := Some (CredSealed k (m(cred_key service key := None)))\<rparr> else cs))"

section \<open>Configurations and processes: \<open>gateway.go\<close>\<close>

record ToolDef =
  td_Name :: string
  td_Description :: string
  td_InputSchema :: string

record ServerConfig =
  sc_Name :: string
  sc_Command :: string
  sc_Env :: "string \<rightharpoonup> string"
  sc_Enabled :: bool
  sc_CredentialKeys :: "string list"
  sc_Tools :: "ToolDef list"

record McpInstance =
  mi_command :: string
  mi_env :: "string \<rightharpoonup> string"
  mi_running :: bool

record Gateway =
  gw_dataDir :: string
  gw_configs :: "string \<rightharpoonup> ServerConfig"
  gw_instances :: "string \<rightharpoonup> McpInstance"
  gw_files :: "string \<rightharpoonup> ServerConfig"
  gw_creds :: CredStore

definition config_path :: "string \<Rightarrow> string \<Rightarrow> string" where
  "config_path dir name = filepath_Join dir (name @ ''.json'')"

definition masked :: string where "masked = ''********''"

text \<open>\<open>start\<close> fails on an empty command or when the program cannot be started.\<close>

definition new_instance :: "bool \<Rightarrow> string \<Rightarrow> (string \<rightharpoonup> string) \<Rightarrow> McpInstance" where
  "new_instance starts command env = \<lparr>mi_command = command, mi_env = env, mi_running = (starts \<and> str_fields command \<noteq> [])\<rparr>"

fun add_credentials :: "string \<Rightarrow> bool \<Rightarrow> string \<Rightarrow> string list \<Rightarrow> (string \<rightharpoonup> string) \<Rightarrow> CredStore \<Rightarrow> (string \<rightharpoonup> string) \<times> CredStore" where
  "add_credentials fresh ok service [] env cs = (env, cs)"
| "add_credentials fresh ok service (k # ks) env cs =
     (let (val, cs) = getEncrypted fresh ok service k cs
      in add_credentials fresh ok service ks (case val of Some v \<Rightarrow> env(k \<mapsto> v) | None \<Rightarrow> env) cs)"

definition startInstanceLocked :: "string \<Rightarrow> bool \<Rightarrow> bool \<Rightarrow> string \<Rightarrow> Gateway \<Rightarrow> Gateway" where
  "startInstanceLocked fresh ok starts name g =
     (case gw_configs g name of
        None \<Rightarrow> g
      | Some cfg \<Rightarrow>
          (let (env, cs) = add_credentials fresh ok (sc_Name cfg) (sc_CredentialKeys cfg) (sc_Env cfg) (gw_creds g)
           in g\<lparr>gw_creds := cs, gw_instances := (gw_instances g)(name \<mapsto> new_instance starts (sc_Command cfg) env)\<rparr>))"

definition secret_keys :: "ServerConfig \<Rightarrow> string list" where
  "secret_keys cfg =
     (case FindBuiltin (sc_Name cfg) of Some b \<Rightarrow> map ev_Key (filter ev_Secret (bs_EnvVars b)) | None \<Rightarrow> []) @ sc_CredentialKeys cfg"

text \<open>The loop over the environment: secrets go to the store, everything else to the file.\<close>

fun split_env ::
  "string \<Rightarrow> bool \<Rightarrow> string \<Rightarrow> string list \<Rightarrow> (string \<times> string) list \<Rightarrow> string list \<times> (string \<rightharpoonup> string) \<times> CredStore
   \<Rightarrow> string list \<times> (string \<rightharpoonup> string) \<times> CredStore" where
  "split_env fresh ok service secrets [] (keys, env, cs) = (keys, env, cs)"
| "split_env fresh ok service secrets ((k, v) # kvs) (keys, env, cs) =
     split_env fresh ok service secrets kvs
       (if k \<in> set secrets then
          (if v = masked then (keys @ [k], env, cs)
           else if v \<noteq> [] then (keys @ [k], env, snd (storeEncrypted fresh ok service k v cs))
           else (keys, env, cs))
        else (keys, env(k \<mapsto> v), cs))"

text \<open>\<open>order\<close> is the order of the environment, \<open>wr\<close> whether the file is written.\<close>

definition SaveConfig :: "string \<Rightarrow> bool \<Rightarrow> string list \<Rightarrow> bool \<Rightarrow> bool \<Rightarrow> ServerConfig \<Rightarrow> Gateway \<Rightarrow> bool \<times> Gateway" where
  "SaveConfig fresh ok order wr starts cfg g =
     (let kvs = map (\<lambda>k. (k, the (sc_Env cfg k))) order;
          (keys, env, cs) = split_env fresh ok (sc_Name cfg) (secret_keys cfg) kvs ([], Map.empty, gw_creds g);
          cfg = cfg\<lparr>sc_CredentialKeys := keys\<rparr>;
          g = g\<lparr>gw_creds := cs, gw_configs := (gw_configs g)(sc_Name cfg \<mapsto> cfg)\<rparr>
      in if \<not> wr then (False, g)
         else let g = g\<lparr>gw_files := (gw_files g)(config_path (gw_dataDir g) (sc_Name cfg) \<mapsto> cfg\<lparr>sc_Env := env\<rparr>)\<rparr>
           in (True, if sc_Enabled cfg then startInstanceLocked fresh ok starts (sc_Name cfg) g
                     else g\<lparr>gw_instances := (gw_instances g)(sc_Name cfg := None)\<rparr>))"

fun delete_credentials :: "string \<Rightarrow> bool \<Rightarrow> string \<Rightarrow> string list \<Rightarrow> CredStore \<Rightarrow> CredStore" where
  "delete_credentials fresh ok service [] cs = cs"
| "delete_credentials fresh ok service (k # ks) cs = delete_credentials fresh ok service ks (deleteEncrypted fresh ok service k cs)"

definition DeleteServer :: "string \<Rightarrow> bool \<Rightarrow> string \<Rightarrow> Gateway \<Rightarrow> Gateway" where
  "DeleteServer fresh ok name g =
     (let cs = (case gw_configs g name of
                  Some cfg \<Rightarrow> delete_credentials fresh ok name (sc_CredentialKeys cfg) (gw_creds g)
                | None \<Rightarrow> gw_creds g)
      in g\<lparr>gw_creds := cs, gw_instances := (gw_instances g)(name := None), gw_configs := (gw_configs g)(name := None),
           gw_files := (gw_files g)(config_path (gw_dataDir g) name := None)\<rparr>)"

text \<open>\<open>ToggleServer\<close>; a known server that is not configured gets a configuration, \<open>None\<close> is the error.\<close>

definition toggled :: "string \<Rightarrow> bool \<Rightarrow> Gateway \<Rightarrow> ServerConfig option" where
  "toggled name enabled g =
     (case gw_configs g name of
        Some cfg \<Rightarrow> Some (cfg\<lparr>sc_Enabled := enabled\<rparr>)
      | None \<Rightarrow>
          map_option (\<lambda>b. \<lparr>sc_Name = bs_Name b, sc_Command = bs_Command b, sc_Env = Map.empty, sc_Enabled = enabled, sc_CredentialKeys = [], sc_Tools = []\<rparr>)
            (FindBuiltin name))"

definition ToggleServer :: "string \<Rightarrow> bool \<Rightarrow> string list \<Rightarrow> bool \<Rightarrow> bool \<Rightarrow> string \<Rightarrow> bool \<Rightarrow> Gateway \<Rightarrow> bool \<times> Gateway" where
  "ToggleServer fresh ok order wr starts name enabled g =
     (case toggled name enabled g of
        None \<Rightarrow> (False, g)
      | Some cfg \<Rightarrow> SaveConfig fresh ok order wr starts cfg g)"

definition is_running :: "string \<Rightarrow> Gateway \<Rightarrow> bool" where
  "is_running name g = (case gw_instances g name of Some i \<Rightarrow> mi_running i | None \<Rightarrow> False)"

text \<open>\<open>ListTools\<close>: \<open>reply\<close> is what the server answers, if it does. The cached tools are written with the whole configuration.\<close>

definition ListTools :: "string \<Rightarrow> ToolDef list option \<Rightarrow> Gateway \<Rightarrow> ToolDef list option \<times> Gateway" where
  "ListTools name reply g =
     (case gw_configs g name of
        None \<Rightarrow> (None, g)
      | Some cfg \<Rightarrow>
          if \<not> is_running name g then (None, g)
          else case reply of
            None \<Rightarrow> (None, g)
          | Some tools \<Rightarrow>
              (let cfg = cfg\<lparr>sc_Tools := tools\<rparr>
               in (Some tools, g\<lparr>gw_configs := (gw_configs g)(name \<mapsto> cfg), gw_files := (gw_files g)(config_path (gw_dataDir g) name \<mapsto> cfg)\<rparr>)))"

text \<open>The watchdog starts again what is enabled and does not run.\<close>

definition watchdog :: "string \<Rightarrow> bool \<Rightarrow> (string \<Rightarrow> bool) \<Rightarrow> string list \<Rightarrow> Gateway \<Rightarrow> Gateway" where
  "watchdog fresh ok starts order g =
     foldl (\<lambda>g name. case gw_configs g name of
                       Some cfg \<Rightarrow> if sc_Enabled cfg \<and> \<not> is_running name g then startInstanceLocked fresh ok (starts name) name g else g
                     | None \<Rightarrow> g) g order"

definition StopAll :: "Gateway \<Rightarrow> Gateway" where "StopAll g = g\<lparr>gw_instances := Map.empty\<rparr>"

definition process_exits :: "string \<Rightarrow> Gateway \<Rightarrow> Gateway" where
  "process_exits name g = g\<lparr>gw_instances := (gw_instances g)(name := map_option (\<lambda>i. i\<lparr>mi_running := False\<rparr>) (gw_instances g name))\<rparr>"

text \<open>\<open>New\<close> and \<open>loadConfigs\<close>: \<open>listing\<close> are the files of the directory that end in \<open>.json\<close>, in order.\<close>

definition NewGateway :: "string \<Rightarrow> string list \<Rightarrow> (string \<rightharpoonup> ServerConfig) \<Rightarrow> CredStore \<Rightarrow> Gateway" where
  "NewGateway dir listing files cs =
     \<lparr>gw_dataDir = dir,
      gw_configs = foldl (\<lambda>m p. case files p of Some cfg \<Rightarrow> m(sc_Name cfg \<mapsto> cfg) | None \<Rightarrow> m) Map.empty listing,
      gw_instances = Map.empty, gw_files = files, gw_creds = cs\<rparr>"

record ServerStatus =
  ss_Name :: string
  ss_Enabled :: bool
  ss_Running :: bool
  ss_ToolCount :: nat
  ss_Env :: "string \<rightharpoonup> string"

definition mask_env :: "ServerConfig \<Rightarrow> string \<rightharpoonup> string" where
  "mask_env cfg = foldl (\<lambda>m k. m(k \<mapsto> masked)) (sc_Env cfg) (sc_CredentialKeys cfg)"

definition config_status :: "string \<Rightarrow> ServerConfig \<Rightarrow> Gateway \<Rightarrow> ServerStatus" where
  "config_status name cfg g =
     \<lparr>ss_Name = sc_Name cfg, ss_Enabled = sc_Enabled cfg, ss_Running = is_running name g, ss_ToolCount = length (sc_Tools cfg), ss_Env = mask_env cfg\<rparr>"

definition ListServers :: "string list \<Rightarrow> Gateway \<Rightarrow> ServerStatus list" where
  "ListServers order g =
     map (\<lambda>b. case gw_configs g (bs_Name b) of
                Some cfg \<Rightarrow> config_status (bs_Name b) cfg g
              | None \<Rightarrow> \<lparr>ss_Name = bs_Name b, ss_Enabled = False, ss_Running = False, ss_ToolCount = 0, ss_Env = Map.empty\<rparr>) builtinServers @
     List.map_filter (\<lambda>name. if FindBuiltin name \<noteq> None then None else map_option (\<lambda>cfg. config_status name cfg g) (gw_configs g name)) order"

definition AllEnabledTools :: "string list \<Rightarrow> Gateway \<Rightarrow> (string \<times> string \<times> ToolDef) list" where
  "AllEnabledTools order g =
     concat (map (\<lambda>name. case gw_configs g name of
                           Some cfg \<Rightarrow> if is_running name g then map (\<lambda>t. (name, name @ ''__'' @ td_Name t, t)) (sc_Tools cfg) else []
                         | None \<Rightarrow> []) order)"

text \<open>\<open>CallTool\<close>: the texts of the answer, and whether the tool failed; \<open>TestServer\<close> starts a process of its own with this environment.\<close>

datatype CallError = NotRunning | CallFailed | ToolError string

definition CallTool :: "string \<Rightarrow> ((string \<times> string) list \<times> bool) option \<Rightarrow> Gateway \<Rightarrow> CallError + string" where
  "CallTool name answer g =
     (if \<not> is_running name g then Inl NotRunning
      else case answer of
        None \<Rightarrow> Inl CallFailed
      | Some (content, isError) \<Rightarrow>
          (let result = join_with [CHR 0x0A] (map snd (filter (\<lambda>c. fst c = ''text'') content))
           in if isError then Inl (ToolError result) else Inr result))"

definition test_env :: "string \<Rightarrow> Gateway \<Rightarrow> (string \<rightharpoonup> string) option" where
  "test_env name g = map_option sc_Env (toggled name True g)"

section \<open>Secrets in a configuration\<close>

lemma masked_not_Nil [simp]: "masked \<noteq> []"
  by (simp add: masked_def)

lemma split_env_spec:
  "split_env fresh ok service secrets kvs (keys0, env0, cs0) = (keys, env, cs) \<Longrightarrow>
   set keys = set keys0 \<union> {k. \<exists>v. (k, v) \<in> set kvs \<and> k \<in> set secrets \<and> v \<noteq> []} \<and>
   (\<forall>k. env k \<noteq> None \<longrightarrow> env0 k \<noteq> None \<or> k \<notin> set secrets)"
proof (induction kvs arbitrary: keys0 env0 cs0)
  case (Cons kv kvs)
  obtain k v where kv: "kv = (k, v)" by fastforce
  consider "k \<notin> set secrets" | "k \<in> set secrets" "v = []" | "k \<in> set secrets" "v \<noteq> []" by blast
  then show ?case
  proof cases
    case 1
    then have "split_env fresh ok service secrets kvs (keys0, env0(k \<mapsto> v), cs0) = (keys, env, cs)" using Cons.prems kv by simp
    from Cons.IH [OF this] 1 kv show ?thesis by (auto split: if_splits)
  next
    case 2
    then have "split_env fresh ok service secrets kvs (keys0, env0, cs0) = (keys, env, cs)" using Cons.prems kv masked_not_Nil by (auto split: if_splits)
    from Cons.IH [OF this] 2 kv show ?thesis by auto
  next
    case 3
    then obtain cs1 where "split_env fresh ok service secrets kvs (keys0 @ [k], env0, cs1) = (keys, env, cs)"
      using Cons.prems kv by (auto split: if_splits)
    from Cons.IH [OF this] 3 kv show ?thesis by auto
  qed
qed simp

text \<open>A configuration in which every secret of a known server that has a value is in the list of credentials.\<close>

definition secret_of :: "string \<Rightarrow> string \<Rightarrow> bool" where
  "secret_of name k \<longleftrightarrow> (\<exists>b e. FindBuiltin name = Some b \<and> e \<in> set (bs_EnvVars b) \<and> ev_Secret e \<and> ev_Key e = k)"

definition config_ok :: "ServerConfig \<Rightarrow> bool" where
  "config_ok cfg \<longleftrightarrow> (\<forall>k v. secret_of (sc_Name cfg) k \<longrightarrow> sc_Env cfg k = Some v \<longrightarrow> v \<noteq> [] \<longrightarrow> k \<in> set (sc_CredentialKeys cfg))"

definition gateway_inv :: "Gateway \<Rightarrow> bool" where
  "gateway_inv g \<longleftrightarrow> (\<forall>name cfg. gw_configs g name = Some cfg \<longrightarrow> sc_Name cfg = name \<and> config_ok cfg) \<and>
     (\<forall>p cfg. gw_files g p = Some cfg \<longrightarrow> config_ok cfg)"

lemma secret_of_keys: "secret_of (sc_Name cfg) k \<Longrightarrow> k \<in> set (secret_keys cfg)"
  by (auto simp: secret_of_def secret_keys_def)

lemma startInstanceLocked_frame [simp]:
  "gw_configs (startInstanceLocked fresh ok starts name g) = gw_configs g" "gw_files (startInstanceLocked fresh ok starts name g) = gw_files g"
  "gw_dataDir (startInstanceLocked fresh ok starts name g) = gw_dataDir g"
  by (simp_all add: startInstanceLocked_def split: option.split prod.split)

text \<open>What \<open>SaveConfig\<close> keeps in memory and writes to the file.\<close>

lemma SaveConfig_effect:
  assumes "SaveConfig fresh ok order wr starts cfg g = (saved, g')"
  obtains keys env cs where
    "split_env fresh ok (sc_Name cfg) (secret_keys cfg) (map (\<lambda>k. (k, the (sc_Env cfg k))) order) ([], Map.empty, gw_creds g) = (keys, env, cs)"
    "gw_configs g' = (gw_configs g)(sc_Name cfg \<mapsto> cfg\<lparr>sc_CredentialKeys := keys\<rparr>)"
    "gw_files g' = (if wr then (gw_files g)(config_path (gw_dataDir g) (sc_Name cfg) \<mapsto> cfg\<lparr>sc_CredentialKeys := keys, sc_Env := env\<rparr>) else gw_files g)"
    "gw_dataDir g' = gw_dataDir g"
proof -
  obtain keys env cs where s:
    "split_env fresh ok (sc_Name cfg) (secret_keys cfg) (map (\<lambda>k. (k, the (sc_Env cfg k))) order) ([], Map.empty, gw_creds g) = (keys, env, cs)"
    by (metis prod_cases3)
  have "gw_configs g' = (gw_configs g)(sc_Name cfg \<mapsto> cfg\<lparr>sc_CredentialKeys := keys\<rparr>)"
    "gw_files g' = (if wr then (gw_files g)(config_path (gw_dataDir g) (sc_Name cfg) \<mapsto> cfg\<lparr>sc_CredentialKeys := keys, sc_Env := env\<rparr>) else gw_files g)"
    "gw_dataDir g' = gw_dataDir g"
    using assms by (auto simp: SaveConfig_def Let_def s split: if_splits)
  with s that show ?thesis by blast
qed

lemma split_order:
  assumes "map_order order (sc_Env cfg)"
    and "split_env fresh ok (sc_Name cfg) (secret_keys cfg) (map (\<lambda>k. (k, the (sc_Env cfg k))) order) ([], Map.empty, cs0) = (keys, env, cs)"
  shows "k \<in> set keys \<longleftrightarrow> k \<in> set (secret_keys cfg) \<and> (\<exists>v. sc_Env cfg k = Some v \<and> v \<noteq> [])" and "k \<in> set (secret_keys cfg) \<Longrightarrow> env k = None"
proof -
  show "k \<in> set keys \<longleftrightarrow> k \<in> set (secret_keys cfg) \<and> (\<exists>v. sc_Env cfg k = Some v \<and> v \<noteq> [])"
    using assms(1) unfolding conjunct1 [OF split_env_spec [OF assms(2)]] by (auto simp: map_order_def image_iff domI intro!: exI)
  show "k \<in> set (secret_keys cfg) \<Longrightarrow> env k = None" using split_env_spec [OF assms(2)] by blast
qed

lemma SaveConfig_inv:
  assumes "map_order order (sc_Env cfg)" and "gateway_inv g"
  shows "gateway_inv (snd (SaveConfig fresh ok order wr starts cfg g))"
proof -
  obtain b g' where r: "SaveConfig fresh ok order wr starts cfg g = (b, g')" by fastforce
  from SaveConfig_effect [OF r] obtain keys env cs where e:
    "split_env fresh ok (sc_Name cfg) (secret_keys cfg) (map (\<lambda>k. (k, the (sc_Env cfg k))) order) ([], Map.empty, gw_creds g) = (keys, env, cs)"
    "gw_configs g' = (gw_configs g)(sc_Name cfg \<mapsto> cfg\<lparr>sc_CredentialKeys := keys\<rparr>)"
    "gw_files g' = (if wr then (gw_files g)(config_path (gw_dataDir g) (sc_Name cfg) \<mapsto> cfg\<lparr>sc_CredentialKeys := keys, sc_Env := env\<rparr>) else gw_files g)"
    by blast
  note sp = split_order [OF assms(1) e(1)]
  have "config_ok (cfg\<lparr>sc_CredentialKeys := keys\<rparr>)"
    unfolding config_ok_def by (simp add: sp(1) secret_of_keys)
  moreover have "config_ok (cfg\<lparr>sc_CredentialKeys := keys, sc_Env := env\<rparr>)"
    unfolding config_ok_def using sp(2) secret_of_keys by fastforce
  ultimately show ?thesis using assms(2) e(2,3) by (auto simp: r gateway_inv_def)
qed

lemma load_configs_inv:
  assumes "\<forall>p cfg. files p = Some cfg \<longrightarrow> config_ok cfg"
  shows "gateway_inv (NewGateway dir listing files cs)"
proof -
  have "\<forall>name cfg. foldl (\<lambda>m p. case files p of Some cfg \<Rightarrow> m(sc_Name cfg \<mapsto> cfg) | None \<Rightarrow> m) Map.empty listing name = Some cfg \<longrightarrow>
      sc_Name cfg = name \<and> config_ok cfg"
    by (rule foldl_invariant [where P = "\<lambda>m. \<forall>name cfg. m name = Some cfg \<longrightarrow> sc_Name cfg = name \<and> config_ok cfg"])
      (use assms in \<open>auto split: option.split\<close>)
  then show ?thesis using assms by (simp add: gateway_inv_def NewGateway_def)
qed

section \<open>Every history\<close>

inductive gw_step :: "Gateway \<Rightarrow> Gateway \<Rightarrow> bool" where
  gw_save: "map_order order (sc_Env cfg) \<Longrightarrow> gw_step g (snd (SaveConfig fresh ok order wr starts cfg g))"
| gw_toggle: "toggled name e g = Some cfg \<Longrightarrow> map_order order (sc_Env cfg) \<Longrightarrow> gw_step g (snd (ToggleServer fresh ok order wr starts name e g))"
| gw_delete: "gw_step g (DeleteServer fresh ok name g)"
| gw_tools: "gw_step g (snd (ListTools name reply g))"
| gw_watch: "gw_step g (watchdog fresh ok starts order g)"
| gw_stop: "gw_step g (StopAll g)"
| gw_exit: "gw_step g (process_exits name g)"
| gw_restart: "gw_step g (NewGateway (gw_dataDir g) listing (gw_files g) ((gw_creds g)\<lparr>cs_once := False, cs_masterKey := None\<rparr>))"

lemma watchdog_frame: "gw_configs (watchdog fresh ok starts order g) = gw_configs g \<and> gw_files (watchdog fresh ok starts order g) = gw_files g"
  unfolding watchdog_def
  by (rule foldl_invariant [where P = "\<lambda>h. gw_configs h = gw_configs g \<and> gw_files h = gw_files g"]) (auto split: option.split)

lemma gw_step_inv: "gw_step g g' \<Longrightarrow> gateway_inv g \<Longrightarrow> gateway_inv g'"
proof (induction rule: gw_step.induct)
  case (gw_save order cfg g fresh ok wr starts)
  then show ?case by (simp add: SaveConfig_inv)
next
  case (gw_toggle name e g cfg order fresh ok wr starts)
  then show ?case by (simp add: ToggleServer_def SaveConfig_inv)
next
  case (gw_delete g fresh ok name)
  then show ?case by (auto simp: DeleteServer_def gateway_inv_def Let_def split: if_splits)
next
  case (gw_tools g name reply)
  then show ?case by (auto simp: ListTools_def gateway_inv_def Let_def config_ok_def split: option.splits if_splits)
next
  case (gw_watch g fresh ok starts order)
  then show ?case using watchdog_frame by (simp add: gateway_inv_def)
next
  case (gw_stop g)
  then show ?case by (simp add: StopAll_def gateway_inv_def)
next
  case (gw_exit g name)
  then show ?case by (simp add: process_exits_def gateway_inv_def)
next
  case (gw_restart g listing)
  then show ?case by (intro load_configs_inv) (simp add: gateway_inv_def)
qed

lemma gw_steps_inv: "gw_step\<^sup>*\<^sup>* g g' \<Longrightarrow> gateway_inv g \<Longrightarrow> gateway_inv g'"
  by (induction rule: rtranclp_induct) (auto intro: gw_step_inv)

lemma mask_env_spec: "mask_env cfg k = (if k \<in> set (sc_CredentialKeys cfg) then Some masked else sc_Env cfg k)"
proof -
  have "foldl (\<lambda>m k. m(k \<mapsto> masked)) env ks k = (if k \<in> set ks then Some masked else env k)" for env :: "string \<rightharpoonup> string" and ks
    by (induction ks arbitrary: env) auto
  then show ?thesis by (simp add: mask_env_def)
qed

lemma FindBuiltin_name: "FindBuiltin name = Some b \<Longrightarrow> bs_Name b = name"
  by (auto simp: FindBuiltin_def find_Some_iff)

text \<open>
  C28: Whatever is saved, toggled, deleted, cached and restarted: the list of servers never shows a secret
  of a known server, only its mask.
\<close>

theorem secrets_masked:
  assumes "gw_step\<^sup>*\<^sup>* (NewGateway dir [] Map.empty cs) g" and "st \<in> set (ListServers order g)" and "secret_of (ss_Name st) k"
  shows "ss_Env st k \<in> {None, Some [], Some masked}"
proof -
  have "gateway_inv (NewGateway dir [] Map.empty cs)" by (rule load_configs_inv) simp
  then have inv: "gateway_inv g" using gw_steps_inv [OF assms(1)] by blast
  have "st = \<lparr>ss_Name = ss_Name st, ss_Enabled = False, ss_Running = False, ss_ToolCount = 0, ss_Env = Map.empty\<rparr> \<or>
      (\<exists>name cfg. gw_configs g name = Some cfg \<and> st = config_status name cfg g)"
    using assms(2) by (fastforce simp: ListServers_def map_filter_def split: option.splits if_splits)
  then show ?thesis
  proof
    assume "st = \<lparr>ss_Name = ss_Name st, ss_Enabled = False, ss_Running = False, ss_ToolCount = 0, ss_Env = Map.empty\<rparr>"
    then have "ss_Env st = Map.empty" by (metis ServerStatus.select_convs(5))
    then show ?thesis by simp
  next
    assume "\<exists>name cfg. gw_configs g name = Some cfg \<and> st = config_status name cfg g"
    then obtain name cfg where c: "gw_configs g name = Some cfg" "st = config_status name cfg g" by blast
    then have "config_ok cfg" "secret_of (sc_Name cfg) k" using inv assms(3) by (auto simp: gateway_inv_def config_status_def)
    then show ?thesis using c(2) by (cases "sc_Env cfg k") (auto simp: config_status_def mask_env_spec config_ok_def)
  qed
qed


text \<open>The configuration of a known server, as the user interface sends it.\<close>

definition slack_config :: ServerConfig where
  "slack_config =
     \<lparr>sc_Name = ''slack'', sc_Command = ''npx slack'', sc_Env = [''SLACK_BOT_TOKEN'' \<mapsto> ''xoxb'', ''SLACK_TEAM_ID'' \<mapsto> ''T1''], sc_Enabled = True,
      sc_CredentialKeys = [], sc_Tools = []\<rparr>"

definition empty_creds :: CredStore where "empty_creds = \<lparr>cs_once = False, cs_masterKey = None, cs_keyFile = None, cs_file = None\<rparr>"

lemma slack_order: "map_order [''SLACK_BOT_TOKEN'', ''SLACK_TEAM_ID''] (sc_Env slack_config)"
  by (auto simp: map_order_def slack_config_def)

lemma slack_secret: "secret_of ''slack'' ''SLACK_BOT_TOKEN''"
  unfolding secret_of_def FindBuiltin_def builtinServers_def
  by (intro exI [of _ "\<lparr>bs_Name = ''slack'', bs_Command = ''npx -y @modelcontextprotocol/server-slack'',
      bs_EnvVars = [env_var ''SLACK_BOT_TOKEN'' True, env_var ''SLACK_TEAM_ID'' False]\<rparr>"] exI [of _ "env_var ''SLACK_BOT_TOKEN'' True"] conjI) simp_all

definition slack_saved :: Gateway where
  "slack_saved = snd (SaveConfig (replicate 32 CHR ''k'') True [''SLACK_BOT_TOKEN'', ''SLACK_TEAM_ID''] True True slack_config (NewGateway ''/d/mcp'' [] Map.empty empty_creds))"

theorem secrets_masked_witness:
  "\<exists>st \<in> set (ListServers [] slack_saved). ss_Name st = ''slack'' \<and> ss_Env st ''SLACK_BOT_TOKEN'' \<in> {None, Some [], Some masked}"
proof -
  have "gw_step\<^sup>*\<^sup>* (NewGateway ''/d/mcp'' [] Map.empty empty_creds) slack_saved"
    unfolding slack_saved_def by (rule r_into_rtranclp) (rule gw_save [OF slack_order])
  note masks = secrets_masked [OF this]
  obtain saved where r: "SaveConfig (replicate 32 CHR ''k'') True [''SLACK_BOT_TOKEN'', ''SLACK_TEAM_ID''] True True slack_config
      (NewGateway ''/d/mcp'' [] Map.empty empty_creds) = (saved, slack_saved)"
    unfolding slack_saved_def by (metis surj_pair snd_conv)
  from SaveConfig_effect [OF r] obtain keys where
    "gw_configs slack_saved = (gw_configs (NewGateway ''/d/mcp'' [] Map.empty empty_creds))(sc_Name slack_config \<mapsto> slack_config\<lparr>sc_CredentialKeys := keys\<rparr>)"
    by blast
  then have "gw_configs slack_saved ''slack'' = Some (slack_config\<lparr>sc_CredentialKeys := keys\<rparr>)" by (simp add: slack_config_def)
  then obtain cfg where cfg: "gw_configs slack_saved ''slack'' = Some cfg" "sc_Name cfg = ''slack''" by (simp add: slack_config_def)
  have "\<exists>b \<in> set builtinServers. bs_Name b = ''slack''" by (simp add: builtinServers_def)
  then have st: "config_status ''slack'' cfg slack_saved \<in> set (ListServers [] slack_saved)"
    using cfg(1) by (auto simp: ListServers_def image_iff intro!: bexI)
  have n: "ss_Name (config_status ''slack'' cfg slack_saved) = ''slack''" using cfg(2) by (simp add: config_status_def)
  show ?thesis using masks [OF st, of "''SLACK_BOT_TOKEN''"] slack_secret n st by auto
qed

section \<open>Where secrets end up\<close>

text \<open>C17: Saving alone keeps the secrets of a known server out of the file, and the tools that are listed next put them into it.\<close>

theorem secret_written_in_clear:
  assumes "SaveConfig fresh ok order True True cfg g = (saved, g1)" and "map_order order (sc_Env cfg)"
    and "secret_of (sc_Name cfg) k" and "sc_Env cfg k = Some v" and "sc_Enabled cfg" and "str_fields (sc_Command cfg) \<noteq> []"
    and "ListTools (sc_Name cfg) (Some tools) g1 = (res, g2)"
  shows "(\<exists>c. gw_files g1 (config_path (gw_dataDir g) (sc_Name cfg)) = Some c \<and> sc_Env c k = None) \<and>
    (\<exists>c. gw_files g2 (config_path (gw_dataDir g) (sc_Name cfg)) = Some c \<and> sc_Env c k = Some v)"
proof -
  from SaveConfig_effect [OF assms(1)] obtain keys env cs where e:
    "split_env fresh ok (sc_Name cfg) (secret_keys cfg) (map (\<lambda>k. (k, the (sc_Env cfg k))) order) ([], Map.empty, gw_creds g) = (keys, env, cs)"
    "gw_configs g1 = (gw_configs g)(sc_Name cfg \<mapsto> cfg\<lparr>sc_CredentialKeys := keys\<rparr>)"
    "gw_files g1 = (gw_files g)(config_path (gw_dataDir g) (sc_Name cfg) \<mapsto> cfg\<lparr>sc_CredentialKeys := keys, sc_Env := env\<rparr>)"
    "gw_dataDir g1 = gw_dataDir g"
    by auto
  have "env k = None" using split_order(2) [OF assms(2) e(1)] secret_of_keys assms(3) by blast
  moreover have "is_running (sc_Name cfg) g1"
    using assms(1,5,6) by (auto simp: SaveConfig_def Let_def e(1) is_running_def startInstanceLocked_def new_instance_def split: prod.splits)
  then have "gw_files g2 (config_path (gw_dataDir g) (sc_Name cfg)) = Some (cfg\<lparr>sc_CredentialKeys := keys, sc_Tools := tools\<rparr>)"
    using assms(7) e(2,4) by (auto simp: ListTools_def Let_def)
  ultimately show ?thesis using e(3) assms(4) by simp
qed

theorem secret_written_in_clear_witness:
  "(\<exists>c. gw_files slack_saved (config_path ''/d/mcp'' ''slack'') = Some c \<and> sc_Env c ''SLACK_BOT_TOKEN'' = None) \<and>
   (\<exists>c. gw_files (snd (ListTools ''slack'' (Some []) slack_saved)) (config_path ''/d/mcp'' ''slack'') = Some c \<and> sc_Env c ''SLACK_BOT_TOKEN'' = Some ''xoxb'')"
proof -
  have f: "str_fields (sc_Command slack_config) \<noteq> []" by code_simp
  note t = secret_written_in_clear [OF prod.collapse [symmetric, of "SaveConfig (replicate 32 CHR ''k'') True [''SLACK_BOT_TOKEN'', ''SLACK_TEAM_ID''] True True slack_config
    (NewGateway ''/d/mcp'' [] Map.empty empty_creds)"] slack_order _ _ _ f, folded slack_saved_def, of "''SLACK_BOT_TOKEN''" "''xoxb''" "[]"]
  show ?thesis using t [of "fst (ListTools ''slack'' (Some []) slack_saved)" "snd (ListTools ''slack'' (Some []) slack_saved)"] slack_secret
    by (simp add: slack_config_def NewGateway_def)
qed

text \<open>
  A server read back from its file has its secrets in the list of credentials and not in its
  environment. Switching it off and on forgets them: the process starts without.
\<close>

lemma add_credentials_env: "k \<notin> set ks \<Longrightarrow> fst (add_credentials fresh ok service ks env cs) k = env k"
  by (induction ks arbitrary: env cs) (auto simp: Let_def split: prod.split option.split)

theorem toggle_forgets_secrets:
  assumes "gw_configs g name = Some cfg" and "sc_Name cfg = name" and "map_order order (sc_Env cfg)" and "sc_Env cfg k = None"
    and "ToggleServer fresh ok order True starts name True g = (saved, g')"
  shows "(\<exists>c. gw_configs g' name = Some c \<and> k \<notin> set (sc_CredentialKeys c)) \<and> (\<exists>i. gw_instances g' name = Some i \<and> mi_env i k = None)"
proof -
  have s: "SaveConfig fresh ok order True starts (cfg\<lparr>sc_Enabled := True\<rparr>) g = (saved, g')"
    using assms(1,5) by (simp add: ToggleServer_def toggled_def)
  from SaveConfig_effect [OF s] obtain keys env cs where e0:
    "split_env fresh ok (sc_Name (cfg\<lparr>sc_Enabled := True\<rparr>)) (secret_keys (cfg\<lparr>sc_Enabled := True\<rparr>))
       (map (\<lambda>k. (k, the (sc_Env (cfg\<lparr>sc_Enabled := True\<rparr>) k))) order) ([], Map.empty, gw_creds g) = (keys, env, cs)"
    "gw_configs g' = (gw_configs g)(sc_Name (cfg\<lparr>sc_Enabled := True\<rparr>) \<mapsto> cfg\<lparr>sc_Enabled := True, sc_CredentialKeys := keys\<rparr>)"
    by blast
  have e: "split_env fresh ok name (secret_keys (cfg\<lparr>sc_Enabled := True\<rparr>)) (map (\<lambda>k. (k, the (sc_Env cfg k))) order) ([], Map.empty, gw_creds g) = (keys, env, cs)"
    "gw_configs g' = (gw_configs g)(name \<mapsto> cfg\<lparr>sc_Enabled := True, sc_CredentialKeys := keys\<rparr>)"
    using e0 assms(2) by simp_all
  have k: "k \<notin> set keys" using split_env_spec [OF e(1)] assms(3,4) by (auto simp: map_order_def)
  have "gw_instances g' name = Some (new_instance starts (sc_Command cfg) (fst (add_credentials fresh ok name keys (sc_Env cfg) cs)))"
    using s assms(2) by (auto simp: SaveConfig_def Let_def e(1) startInstanceLocked_def split: prod.splits)
  then show ?thesis using e(2) k add_credentials_env [OF k, of fresh ok name "sc_Env cfg" cs] assms(4) by (simp add: new_instance_def)
qed

definition slack_on_disk :: ServerConfig where
  "slack_on_disk = slack_config\<lparr>sc_Env := [''SLACK_TEAM_ID'' \<mapsto> ''T1''], sc_CredentialKeys := [''SLACK_BOT_TOKEN'']\<rparr>"

theorem toggle_forgets_secrets_witness:
  "let g = NewGateway ''/d/mcp'' [''f''] [''f'' \<mapsto> slack_on_disk] empty_creds;
       g' = snd (ToggleServer (replicate 32 CHR ''k'') True [''SLACK_TEAM_ID''] True True ''slack'' True g) in
   (\<exists>c. gw_configs g' ''slack'' = Some c \<and> ''SLACK_BOT_TOKEN'' \<notin> set (sc_CredentialKeys c)) \<and>
   (\<exists>i. gw_instances g' ''slack'' = Some i \<and> mi_env i ''SLACK_BOT_TOKEN'' = None)"
  unfolding Let_def
  by (rule toggle_forgets_secrets [of _ _ slack_on_disk, OF _ _ _ _ prod.collapse [symmetric]])
    (auto simp: NewGateway_def slack_on_disk_def slack_config_def map_order_def)

text \<open>The name of a server is part of a path: a configuration can be written outside the folder.\<close>

lemma config_path_escapes: "config_path ''/d/mcp'' ''../settings'' = ''/d/settings.json''"
  by code_simp


section \<open>The store of secrets\<close>

lemma getMasterKey_file [simp]: "cs_file (snd (getMasterKey fresh ok cs)) = cs_file cs"
  by (simp add: getMasterKey_def split: option.split)

lemma getMasterKey_again: "getMasterKey fresh ok cs = (Some k, cs') \<Longrightarrow> cs_once cs' \<and> cs_masterKey cs' = Some k"
  by (auto simp: getMasterKey_def split: if_splits option.splits)

text \<open>A stored secret is read back and the others stay, as long as the file can be opened with the key in use.\<close>

theorem secret_store_roundtrip:
  assumes "getMasterKey fresh ok cs = (Some k, cs1)" and "storeEncrypted fresh ok service key val cs = (True, cs')"
  shows "fst (getEncrypted fresh' ok' service key cs') = Some val \<and>
    (\<forall>m s' k'. open_file k (cs_file cs) = Some m \<longrightarrow> cred_key s' k' \<noteq> cred_key service key \<longrightarrow>
       fst (getEncrypted fresh' ok' s' k' cs') = m (cred_key s' k'))"
proof -
  have f: "cs_file cs1 = cs_file cs" using getMasterKey_file [of fresh ok cs] assms(1) by simp
  have cs': "cs' = cs1\<lparr>cs_file := Some (CredSealed k ((case open_file k (cs_file cs) of Some m \<Rightarrow> m | None \<Rightarrow> Map.empty)(cred_key service key \<mapsto> val)))\<rparr>"
    using assms(2) f by (auto simp: storeEncrypted_def assms(1) split: if_splits)
  have m: "getMasterKey fresh' ok' cs' = (Some k, cs')" using getMasterKey_again [OF assms(1)] by (simp add: getMasterKey_def cs')
  have cf: "cs_file cs' = Some (CredSealed k ((case open_file k (cs_file cs) of Some m \<Rightarrow> m | None \<Rightarrow> Map.empty)(cred_key service key \<mapsto> val)))"
    by (simp add: cs')
  show ?thesis by (simp add: getEncrypted_def cf m open_file_def)
qed

theorem secret_store_roundtrip_witness:
  "let cs' = snd (storeEncrypted (replicate 32 CHR ''k'') True ''slack'' ''TOKEN'' ''xoxb'' empty_creds) in
   fst (getEncrypted [] False ''slack'' ''TOKEN'' cs') = Some ''xoxb'' \<and>
   (\<forall>m s' k'. open_file (replicate 32 CHR ''k'') (cs_file empty_creds) = Some m \<longrightarrow> cred_key s' k' \<noteq> cred_key ''slack'' ''TOKEN'' \<longrightarrow>
      fst (getEncrypted [] False s' k' cs') = m (cred_key s' k'))"
proof -
  have g: "getMasterKey (replicate 32 CHR ''k'') True empty_creds = (Some (replicate 32 CHR ''k''), snd (getMasterKey (replicate 32 CHR ''k'') True empty_creds))"
    by (simp add: getMasterKey_def empty_creds_def)
  have s: "storeEncrypted (replicate 32 CHR ''k'') True ''slack'' ''TOKEN'' ''xoxb'' empty_creds =
      (True, snd (storeEncrypted (replicate 32 CHR ''k'') True ''slack'' ''TOKEN'' ''xoxb'' empty_creds))"
    by (simp add: storeEncrypted_def getMasterKey_def empty_creds_def)
  show ?thesis unfolding Let_def by (rule secret_store_roundtrip [OF g s])
qed

text \<open>A file that cannot be opened, as after the loss of the key, is overwritten: all other secrets are gone.\<close>

lemma unreadable_secrets_lost:
  assumes "getMasterKey fresh True cs = (Some k, cs1)" and "open_file k (cs_file cs) = None" and "cred_key s' k' \<noteq> cred_key service key"
  shows "fst (getEncrypted fresh' ok' s' k' (snd (storeEncrypted fresh True service key val cs))) = None"
  using assms getMasterKey_file [of fresh True cs] getMasterKey_again [OF assms(1)]
  by (simp add: storeEncrypted_def getEncrypted_def getMasterKey_def [of fresh' ok'] open_file_def [of k "Some _"])

text \<open>The name of a secret is not unique: service and key are joined by a slash that both may contain.\<close>

lemma cred_key_ambiguous: "cred_key ''a/b'' ''c'' = cred_key ''a'' ''b/c''"
  by (simp add: cred_key_def)

section \<open>Calls to a server\<close>

text \<open>
  One process and the calls that wait for it. A call takes the next identifier and waits; the loop
  that reads the output hands a response to the call with its identifier; a call ends with the
  response, after its timeout, or when the process has ended.
\<close>

datatype CallOutcome = Answered string | ServerDown | WriteFailed | TimedOut | Terminated

record McpConn =
  cn_stdin :: bool
  cn_done :: bool
  cn_nextID :: nat
  cn_pending :: "nat set"
  cn_ready :: "nat \<rightharpoonup> string"
  cn_outcome :: "nat \<rightharpoonup> CallOutcome"

definition new_conn :: McpConn where
  "new_conn = \<lparr>cn_stdin = True, cn_done = False, cn_nextID = 0, cn_pending = {}, cn_ready = Map.empty, cn_outcome = Map.empty\<rparr>"

datatype rpc_step =
    RCall | RWriteFails nat | RResponse nat string | RReturn nat | RTimeout nat | RTerminated nat | RStop | RExit

definition waiting :: "McpConn \<Rightarrow> nat \<Rightarrow> bool" where
  "waiting c i \<longleftrightarrow> 0 < i \<and> i \<le> cn_nextID c \<and> cn_outcome c i = None"

fun rpc_do :: "McpConn \<Rightarrow> rpc_step \<Rightarrow> McpConn" where
  "rpc_do c RCall =
     (let i = cn_nextID c + 1; c = c\<lparr>cn_nextID := i\<rparr>
      in if cn_stdin c then c\<lparr>cn_pending := insert i (cn_pending c)\<rparr> else c\<lparr>cn_outcome := (cn_outcome c)(i \<mapsto> ServerDown)\<rparr>)"
| "rpc_do c (RWriteFails i) =
     (if waiting c i then c\<lparr>cn_pending := cn_pending c - {i}, cn_outcome := (cn_outcome c)(i \<mapsto> WriteFailed)\<rparr> else c)"
| "rpc_do c (RResponse i p) =
     (if i \<in> cn_pending c then c\<lparr>cn_pending := cn_pending c - {i}, cn_ready := (cn_ready c)(i \<mapsto> p)\<rparr> else c)"
| "rpc_do c (RReturn i) =
     (case cn_ready c i of
        Some p \<Rightarrow> if waiting c i then c\<lparr>cn_outcome := (cn_outcome c)(i \<mapsto> Answered p)\<rparr> else c
      | None \<Rightarrow> c)"
| "rpc_do c (RTimeout i) =
     (if waiting c i then c\<lparr>cn_pending := cn_pending c - {i}, cn_outcome := (cn_outcome c)(i \<mapsto> TimedOut)\<rparr> else c)"
| "rpc_do c (RTerminated i) =
     (if waiting c i \<and> cn_done c then c\<lparr>cn_outcome := (cn_outcome c)(i \<mapsto> Terminated)\<rparr> else c)"
| "rpc_do c RStop = c\<lparr>cn_stdin := False\<rparr>"
| "rpc_do c RExit = c\<lparr>cn_done := True\<rparr>"

definition rpc_run :: "rpc_step list \<Rightarrow> McpConn" where "rpc_run = foldl rpc_do new_conn"

lemma rpc_run_snoc: "rpc_run (ss @ [s]) = rpc_do (rpc_run ss) s"
  by (simp add: rpc_run_def)

lemma outcome_final: "cn_outcome c i = Some r \<Longrightarrow> i \<le> cn_nextID c \<Longrightarrow> cn_outcome (rpc_do c s) i = Some r \<and> i \<le> cn_nextID (rpc_do c s)"
  by (cases s) (auto simp: waiting_def Let_def split: option.split)

lemma outcome_numbered: "\<forall>i r. cn_outcome (rpc_run ss) i = Some r \<longrightarrow> i \<le> cn_nextID (rpc_run ss)"
proof (induction ss rule: rev_induct)
  case (snoc s ss)
  then show ?case by (cases s) (auto simp: rpc_run_snoc waiting_def Let_def split: option.splits if_splits dest: le_SucI)
qed (simp add: rpc_run_def new_conn_def)

lemma pending_numbered: "i \<in> cn_pending (rpc_run ss) \<Longrightarrow> 0 < i \<and> i \<le> cn_nextID (rpc_run ss)"
proof (induction ss rule: rev_induct)
  case (snoc s ss)
  then show ?case by (cases s) (auto simp: rpc_run_snoc Let_def split: option.splits if_splits)
qed (simp add: rpc_run_def new_conn_def)

lemma ready_response: "cn_ready (rpc_run ss) i = Some p \<Longrightarrow> \<exists>pre post. ss = pre @ RResponse i p # post \<and> i \<in> cn_pending (rpc_run pre)"
proof (induction ss rule: rev_induct)
  case (snoc s ss)
  show ?case
  proof (cases "cn_ready (rpc_run ss) i = Some p")
    case True
    then show ?thesis using snoc.IH by force
  next
    case False
    then have "s = RResponse i p" "i \<in> cn_pending (rpc_run ss)"
      using snoc.prems by (cases s; auto simp: rpc_run_snoc Let_def split: option.splits if_splits)+
    then show ?thesis by blast
  qed
qed (simp add: rpc_run_def new_conn_def)

lemma ready_numbered: "cn_ready (rpc_run ss) i = Some p \<Longrightarrow> i \<le> cn_nextID (rpc_run ss) \<and> i \<notin> cn_pending (rpc_run ss)"
proof (induction ss rule: rev_induct)
  case (snoc s ss)
  then show ?case
    by (cases s) (auto simp: rpc_run_snoc Let_def split: option.splits if_splits dest: pending_numbered)
qed (simp add: rpc_run_def new_conn_def)

lemma answered_ready:
  "cn_outcome (rpc_run ss) i = Some r \<Longrightarrow> 0 < i \<and> (\<forall>p. r = Answered p \<longrightarrow> cn_ready (rpc_run ss) i = Some p)"
proof (induction ss rule: rev_induct)
  case (snoc s ss)
  show ?case
  proof (cases "cn_outcome (rpc_run ss) i = Some r")
    case True
    have "cn_ready (rpc_run ss) i = Some p \<Longrightarrow> cn_ready (rpc_do (rpc_run ss) s) i = Some p" for p
      using ready_numbered [of ss i p] by (cases s) (auto simp: Let_def split: option.split)
    then show ?thesis using snoc.IH [OF True] by (auto simp: rpc_run_snoc)
  next
    case False
    then show ?thesis
      using snoc.prems by (cases s) (auto simp: rpc_run_snoc waiting_def Let_def split: option.splits if_splits)
  qed
qed (simp add: rpc_run_def new_conn_def)

text \<open>
  A call is answered only by a response with its identifier that came while it was waiting, every
  identifier belongs to one call, and the end of a call is final.
\<close>

theorem rpc_answers:
  assumes "cn_outcome (rpc_run ss) i = Some r"
  shows "cn_outcome (rpc_run (ss @ more_steps)) i = Some r \<and> 0 < i \<and> i \<le> cn_nextID (rpc_run ss) \<and>
    (\<forall>p. r = Answered p \<longrightarrow> (\<exists>pre post. ss = pre @ RResponse i p # post \<and> i \<in> cn_pending (rpc_run pre)))"
proof (intro conjI allI impI)
  have n: "i \<le> cn_nextID (rpc_run ss)" using outcome_numbered assms by blast
  then show "i \<le> cn_nextID (rpc_run ss)" .
  have "cn_outcome (rpc_run (ss @ more_steps)) i = Some r \<and> i \<le> cn_nextID (rpc_run (ss @ more_steps))"
  proof (induction more_steps rule: rev_induct)
    case (snoc s steps)
    then show ?case using outcome_final [of "rpc_run (ss @ steps)"] by (simp add: rpc_run_snoc flip: append_assoc)
  qed (use assms n in simp)
  then show "cn_outcome (rpc_run (ss @ more_steps)) i = Some r" ..
  have o: "0 < i" "\<forall>p. r = Answered p \<longrightarrow> cn_ready (rpc_run ss) i = Some p" using answered_ready [OF assms] by auto
  show "0 < i" by (rule o(1))
  show "\<exists>pre post. ss = pre @ RResponse i p # post \<and> i \<in> cn_pending (rpc_run pre)" if "r = Answered p" for p
    using o(2) that by (intro ready_response) blast
qed

theorem rpc_answers_witness:
  "cn_outcome (rpc_run ([RCall, RResponse 1 ''ok'', RReturn 1] @ [RTimeout 1])) 1 = Some (Answered ''ok'') \<and> 0 < (1 :: nat) \<and>
   1 \<le> cn_nextID (rpc_run [RCall, RResponse 1 ''ok'', RReturn 1]) \<and>
   (\<forall>p. Answered ''ok'' = Answered p \<longrightarrow> (\<exists>pre post. [RCall, RResponse 1 ''ok'', RReturn 1] = pre @ RResponse 1 p # post \<and> 1 \<in> cn_pending (rpc_run pre)))"
  by (rule rpc_answers) (simp add: rpc_run_def new_conn_def waiting_def)

end
