(* ===== verification/Wol_Sweep.thy ===== *)
theory Wol_Sweep
  imports Api_Http
begin

unbundle bit_operations_syntax

text \<open>
  The addresses a scan of the local network visits (\<open>wol/wol.go\<close>): the subnets of the interfaces,
  their broadcast addresses, and the loop that counts an address upwards byte by byte. An address is
  the list of its bytes. The addresses go to a channel; the datagrams and the limit of two seconds
  for the workers that send them are left out.
\<close>

section \<open>Interfaces and subnets\<close>

type_synonym ip_bytes = "8 word list"

record IPNet =
  in_IP :: ip_bytes
  in_Mask :: ip_bytes

datatype IfaceAddr = NetAddr IPNet | OtherAddr

record Iface =
  if_Up :: bool
  if_Loopback :: bool
  if_Addrs :: "IfaceAddr list option"

text \<open>\<open>IP.To4\<close>.\<close>

definition to4 :: "ip_bytes \<Rightarrow> ip_bytes option" where
  "to4 ip =
     (if length ip = 4 then Some ip
      else if length ip = 16 \<and> take 12 ip = replicate 10 0 @ [0xFF, 0xFF] then Some (drop 12 ip) else None)"

definition ip_string :: "ip_bytes \<Rightarrow> string" where
  "ip_string ip = join_with ''.'' (map (\<lambda>b. show_nat (unat b)) ip)"

definition iface_nets :: "Iface \<Rightarrow> IPNet list" where
  "iface_nets i =
     (if \<not> if_Up i \<or> if_Loopback i then []
      else case if_Addrs i of
        None \<Rightarrow> []
      | Some addrs \<Rightarrow> List.map_filter (\<lambda>a. case a of NetAddr n \<Rightarrow> (case to4 (in_IP n) of None \<Rightarrow> None | Some _ \<Rightarrow> Some n) | OtherAddr \<Rightarrow> None) addrs)"

definition getActiveSubnets :: "Iface list option \<Rightarrow> IPNet list option" where
  "getActiveSubnets ifaces = map_option (\<lambda>ifs. concat (map iface_nets ifs)) ifaces"

definition network_of :: "ip_bytes \<Rightarrow> ip_bytes \<Rightarrow> ip_bytes" where
  "network_of ip mk = map2 (\<lambda>i m. i AND m) ip mk"

definition broadcast_of :: "ip_bytes \<Rightarrow> ip_bytes \<Rightarrow> ip_bytes" where
  "broadcast_of ip mk = map2 (\<lambda>i m. i OR NOT m) ip mk"

definition getSubnetBroadcasts :: "Iface list option \<Rightarrow> string list option" where
  "getSubnetBroadcasts ifaces =
     map_option (\<lambda>ifs. map (\<lambda>n. ip_string (broadcast_of (the (to4 (in_IP n))) (in_Mask n)))
       (filter (\<lambda>n. length (in_Mask n) = 4) (concat (map iface_nets ifs)))) ifaces"

section \<open>Counting addresses\<close>

text \<open>The inner loop, from the last byte to the first: a byte that wraps carries on.\<close>

fun carry :: "ip_bytes \<Rightarrow> ip_bytes" where
  "carry [] = []"
| "carry (b # bs) = (let b' = b + 1 in if b' > 0 then b' # bs else b' # carry bs)"

definition next_ip :: "ip_bytes \<Rightarrow> ip_bytes" where "next_ip ip = rev (carry (rev ip))"

text \<open>The outer loop collects the addresses given to the callback. It might not end, so it may have no value.\<close>

partial_function (option) sweep_from :: "ip_bytes \<Rightarrow> ip_bytes \<Rightarrow> ip_bytes list option" where
  "sweep_from current broadcast =
     (let current = next_ip current
      in if current = broadcast then Some [] else Option.bind (sweep_from current broadcast) (\<lambda>r. Some (current # r)))"

definition iterateIPs :: "IPNet \<Rightarrow> ip_bytes list option" where
  "iterateIPs n =
     (case to4 (in_IP n) of
        None \<Rightarrow> Some []
      | Some ip \<Rightarrow> sweep_from (network_of ip (in_Mask n)) (broadcast_of ip (in_Mask n)))"

text \<open>\<open>IPMask.Size\<close>: the leading ones and the number of bits, or zeros for a mask with a gap.\<close>

definition byte_bits :: "8 word \<Rightarrow> bool list" where "byte_bits b = rev (map (bit b) [0..<8])"

definition mask_size :: "ip_bytes \<Rightarrow> nat \<times> nat" where
  "mask_size mk =
     (let bs = concat (map byte_bits mk); ones = length (takeWhile (\<lambda>b. b) bs)
      in if True \<in> set (drop ones bs) then (0, 0) else (ones, 8 * length mk))"

definition swept :: "IPNet \<Rightarrow> bool" where
  "swept n \<longleftrightarrow> (let (ones, bits) = mask_size (in_Mask n) in bits - ones \<le> 10) \<and> to4 (in_IP n) \<noteq> None"

text \<open>The addresses put into the channel, if the loops end.\<close>

definition sweepSubnets :: "IPNet list \<Rightarrow> ip_bytes list option" where
  "sweepSubnets subnets = map_option concat (all_some (map iterateIPs (filter swept subnets)))"

section \<open>Addresses as numbers\<close>

fun little :: "ip_bytes \<Rightarrow> nat" where
  "little [] = 0"
| "little (b # bs) = unat b + 256 * little bs"

definition ip_val :: "ip_bytes \<Rightarrow> nat" where "ip_val ip = little (rev ip)"

lemma byte_less [simp]: "unat (b :: 8 word) < 256"
  using unsigned_less [of b] by simp

lemma full_byte: "(- 1 :: 8 word) = 0xFF"
  by transfer simp

lemma little_less: "little bs < 256 ^ length bs"
proof (induction bs)
  case (Cons b bs)
  have "unat b + 256 * little bs < 256 + 256 * little bs" by simp
  also have "\<dots> \<le> 256 * 256 ^ length bs" using Cons by (simp add: Suc_le_eq flip: mult_Suc_right)
  finally show ?case by simp
qed simp

lemma little_inj: "length cs = length bs \<Longrightarrow> little cs = little bs \<Longrightarrow> cs = bs"
proof (induction cs bs rule: list_induct2)
  case (Cons a cs b bs)
  have "(unat a + 256 * little cs) mod 256 = (unat b + 256 * little bs) mod 256"
    "(unat a + 256 * little cs) div 256 = (unat b + 256 * little bs) div 256" using Cons.prems by simp_all
  then show ?case using Cons.IH by (simp add: word_unat_eq_iff)
qed simp

lemma little_surj: "n < 256 ^ k \<Longrightarrow> \<exists>bs. length bs = k \<and> little bs = n"
proof (induction k arbitrary: n)
  case (Suc k)
  have "n div 256 < 256 ^ k" using Suc.prems by (simp add: less_mult_imp_div_less mult.commute)
  then obtain bs where "length bs = k" "little bs = n div 256" using Suc.IH by blast
  then show ?case by (intro exI [of _ "of_nat (n mod 256) # bs"]) (simp add: unat_of_nat)
qed simp

lemma little_carry: "little (carry bs) = (little bs + 1) mod 256 ^ length bs" "length (carry bs) = length bs"
proof (induction bs)
  case (Cons b bs)
  {
    case 1
    show ?case
    proof (cases "b + 1 = 0")
      case True
      then have "b = - 1" by (simp add: eq_neg_iff_add_eq_0)
      then have b: "unat b = 255" by (simp add: full_byte)
      have "(256 * (little bs + 1)) mod (256 * 256 ^ length bs) = 256 * ((little bs + 1) mod 256 ^ length bs)" by (rule mult_mod_right [symmetric])
      then show ?thesis using True b Cons(1) by (simp add: algebra_simps)
    next
      case False
      then have "unat (b + 1) = unat b + 1" using unatSuc [of b] by (simp add: add.commute)
      moreover have "unat (b + 1) + 256 * little bs < 256 * 256 ^ length bs" using little_less [of "(b + 1) # bs"] by simp
      ultimately show ?thesis using False by (simp add: word_gt_0)
    qed
  next
    case 2
    then show ?case using Cons by (simp add: Let_def)
  }
qed simp_all

lemma ip_val_next: "length ip = 4 \<Longrightarrow> ip_val (next_ip ip) = (ip_val ip + 1) mod 2 ^ 32 \<and> length (next_ip ip) = 4"
  using little_carry [of "rev ip"] by (simp add: ip_val_def next_ip_def)

lemma ip_val_less: "length ip = 4 \<Longrightarrow> ip_val ip < 2 ^ 32"
  using little_less [of "rev ip"] by (simp add: ip_val_def)

lemma ip_val_inj: "length a = 4 \<Longrightarrow> length b = 4 \<Longrightarrow> ip_val a = ip_val b \<longleftrightarrow> a = b"
  using little_inj [of "rev a" "rev b"] by (auto simp: ip_val_def)

lemma ip_val_surj: "n < 2 ^ 32 \<Longrightarrow> \<exists>ip. length ip = 4 \<and> ip_val ip = n"
proof -
  assume "n < 2 ^ 32"
  then obtain bs where "length bs = 4" "little bs = n" using little_surj [of n 4] by auto
  then show ?thesis by (intro exI [of _ "rev bs"]) (simp add: ip_val_def)
qed

section \<open>What is visited\<close>

lemma sweep_from_spec:
  assumes "length cur = 4" and "length bc = 4" and "0 < d" and "(ip_val cur + d) mod 2 ^ 32 = ip_val bc"
    and "\<And>k. 0 < k \<Longrightarrow> k < d \<Longrightarrow> (ip_val cur + k) mod 2 ^ 32 \<noteq> ip_val bc"
  shows "\<exists>xs. sweep_from cur bc = Some xs \<and> map ip_val xs = map (\<lambda>k. (ip_val cur + k) mod 2 ^ 32) [1..<d] \<and> (\<forall>x \<in> set xs. length x = 4)"
  using assms
proof (induction d arbitrary: cur)
  case (Suc d)
  have n: "ip_val (next_ip cur) = (ip_val cur + 1) mod 2 ^ 32" "length (next_ip cur) = 4" using ip_val_next Suc.prems(1) by simp_all
  show ?case
  proof (cases "d = 0")
    case True
    then have "next_ip cur = bc" using Suc.prems(2,4) n ip_val_inj by simp
    then show ?thesis using True by (subst sweep_from.simps) simp
  next
    case False
    have shift: "(ip_val (next_ip cur) + k) mod 2 ^ 32 = (ip_val cur + Suc k) mod 2 ^ 32" for k
      using n(1) mod_add_left_eq [of "ip_val cur + 1" "2 ^ 32" k] by simp
    have ne: "next_ip cur \<noteq> bc" using Suc.prems(5) [of 1] False n(1) by auto
    have "\<exists>xs. sweep_from (next_ip cur) bc = Some xs \<and> map ip_val xs = map (\<lambda>k. (ip_val (next_ip cur) + k) mod 2 ^ 32) [1..<d] \<and>
        (\<forall>x \<in> set xs. length x = 4)"
    proof (rule Suc.IH)
      show "(ip_val (next_ip cur) + k) mod 2 ^ 32 \<noteq> ip_val bc" if "0 < k" "k < d" for k
        using Suc.prems(5) [of "Suc k"] that unfolding shift by blast
    qed (use Suc.prems n(2) False shift in auto)
    then obtain xs where xs: "sweep_from (next_ip cur) bc = Some xs" "map ip_val xs = map (\<lambda>k. (ip_val cur + Suc k) mod 2 ^ 32) [1..<d]"
      "\<forall>x \<in> set xs. length x = 4" unfolding shift by blast
    have "sweep_from cur bc = Some (next_ip cur # xs)" using ne xs(1) by (subst sweep_from.simps) (simp add: Let_def)
    moreover have "[1..<Suc d] = 1 # map Suc [1..<d]" using False by (simp add: upt_conv_Cons map_Suc_upt del: upt_Suc)
    ultimately show ?thesis using xs(2,3) n by (intro exI [of _ "next_ip cur # xs"]) (simp add: comp_def del: upt_Suc)
  qed
qed simp

text \<open>The broadcast address is the network plus the part of the host.\<close>

lemma byte_parts: "unat ((i :: 8 word) OR NOT m) = unat (i AND m) + unat (NOT m)"
proof -
  have e: "i OR NOT m = (i AND m) OR NOT m" by (rule bit_eqI) (auto simp: bit_simps)
  have "unat (i AND m) + unat (NOT m) = (unat (i AND m) OR unat (NOT m))"
    by (rule disjunctive_add) (auto simp: bit_simps)
  then show ?thesis by (simp add: e unsigned_or_eq)
qed

lemma byte_mask_full: "NOT (m :: 8 word) = 0 \<longleftrightarrow> m = 0xFF"
  by (metis bit.double_compl bit.compl_zero bit.compl_one full_byte)

lemma length_4: "length ip = 4 \<Longrightarrow> \<exists>a b c d. ip = [a, b, c, d]"
  by (auto simp: numeral_eq_Suc length_Suc_conv)

lemma broadcast_val:
  assumes "length ip = 4" and "length mk = 4"
  shows "ip_val (broadcast_of ip mk) = ip_val (network_of ip mk) + ip_val (map NOT mk)"
    "length (network_of ip mk) = 4" "length (broadcast_of ip mk) = 4"
    "ip_val (map NOT mk) = 0 \<longleftrightarrow> mk = replicate 4 0xFF" "mk = replicate 4 0xFF \<Longrightarrow> network_of ip mk = ip"
proof -
  have four: "replicate 4 (0xFF :: 8 word) = [0xFF, 0xFF, 0xFF, 0xFF]" by (simp add: numeral_eq_Suc)
  obtain a b c d where ip: "ip = [a, b, c, d]" using length_4 assms(1) by blast
  obtain p q r s where mk: "mk = [p, q, r, s]" using length_4 assms(2) by blast
  show "ip_val (broadcast_of ip mk) = ip_val (network_of ip mk) + ip_val (map NOT mk)"
    by (simp add: ip mk network_of_def broadcast_of_def ip_val_def byte_parts)
  show "length (network_of ip mk) = 4" "length (broadcast_of ip mk) = 4"
    using assms by (simp_all add: network_of_def broadcast_of_def)
  show "ip_val (map NOT mk) = 0 \<longleftrightarrow> mk = replicate 4 0xFF"
    by (auto simp: mk ip_val_def unat_eq_0 byte_mask_full four)
  have "x AND 0xFF = x" for x :: "8 word" unfolding full_byte [symmetric] by (rule bit.conj_one_right)
  then show "network_of ip mk = ip" if "mk = replicate 4 0xFF"
    unfolding that network_of_def ip four by simp
qed

lemma to4_length: "to4 ip = Some a \<Longrightarrow> length a = 4"
  by (auto simp: to4_def split: if_splits)

lemma set_by_val:
  assumes "\<forall>x \<in> set xs. length x = 4" and "set (map ip_val xs) = ns" and "ns \<subseteq> {..<2 ^ 32}"
  shows "set xs = {a. length a = 4 \<and> ip_val a \<in> ns}"
  using assms(1,2) ip_val_inj by force

lemma sweep_subnet:
  assumes "length ip = 4" and "length mk = 4" and "mk \<noteq> replicate 4 0xFF"
  shows "\<exists>xs. sweep_from (network_of ip mk) (broadcast_of ip mk) = Some xs \<and> distinct xs \<and> length xs + 1 = ip_val (map NOT mk) \<and>
    set xs = {a. length a = 4 \<and> ip_val (network_of ip mk) < ip_val a \<and> ip_val a < ip_val (broadcast_of ip mk)}"
proof -
  let ?n = "network_of ip mk" and ?b = "broadcast_of ip mk" and ?d = "ip_val (map NOT mk)"
  note v = broadcast_val [OF assms(1,2)]
  have d: "0 < ?d" "ip_val ?b = ip_val ?n + ?d" using v(1,4) assms(3) by simp_all
  have le: "ip_val ?n + k < 2 ^ 32" if "k \<le> ?d" for k using that d(2) ip_val_less [OF v(3)] by linarith
  have "\<exists>xs. sweep_from ?n ?b = Some xs \<and> map ip_val xs = map (\<lambda>k. (ip_val ?n + k) mod 2 ^ 32) [1..<?d] \<and> (\<forall>x \<in> set xs. length x = 4)"
    using le d v(2,3) by (intro sweep_from_spec) simp_all
  moreover have "map (\<lambda>k. (ip_val ?n + k) mod 2 ^ 32) [1..<?d] = map (\<lambda>k. ip_val ?n + k) [1..<?d]" using le by simp
  ultimately obtain xs where xs: "sweep_from ?n ?b = Some xs" "map ip_val xs = map (\<lambda>k. ip_val ?n + k) [1..<?d]" "\<forall>x \<in> set xs. length x = 4"
    by auto
  have "distinct (map ip_val xs)" unfolding xs(2) by (simp add: distinct_map)
  then have "distinct xs" by (simp add: distinct_map)
  moreover have "length xs + 1 = ?d" using arg_cong [OF xs(2), of length] d(1) by simp
  moreover have "set (map ip_val xs) = {ip_val ?n <..< ip_val ?b}"
    unfolding xs(2) set_map set_upt image_add_atLeastLessThan d(2) by auto
  then have "set xs = {a. length a = 4 \<and> ip_val a \<in> {ip_val ?n <..< ip_val ?b}}"
    using le [of ?d] d(2) by (intro set_by_val xs(3)) auto
  ultimately show ?thesis using xs(1) by auto
qed

lemma rotation:
  fixes a m :: nat
  assumes "a < m"
  shows "inj_on (\<lambda>k. (a + k) mod m) {..<m}" "(\<lambda>k. (a + k) mod m) ` {1..<m} = {..<m} - {a}"
proof -
  have e: "(a + k) mod m = (if a + k < m then a + k else a + k - m)" if "k < m" for k
    using assms that by (simp add: le_mod_geq)
  show inj: "inj_on (\<lambda>k. (a + k) mod m) {..<m}" 
  proof (rule inj_onI)
    show "x = y" if "x \<in> {..<m}" "y \<in> {..<m}" "(a + x) mod m = (a + y) mod m" for x y
      using e [of x] e [of y] that by (simp split: if_splits)
  qed
  have "(\<lambda>k. (a + k) mod m) ` {..<m} = {..<m}" using assms by (intro endo_inj_surj inj) auto
  moreover have "{..<m} = insert 0 {1..<m}" using assms by auto
  ultimately have "insert a ((\<lambda>k. (a + k) mod m) ` {1..<m}) = {..<m}" using assms by simp
  moreover have "a \<notin> (\<lambda>k. (a + k) mod m) ` {1..<m}"
  proof
    assume "a \<in> (\<lambda>k. (a + k) mod m) ` {1..<m}"
    then obtain k where "1 \<le> k" "k < m" "(a + k) mod m = a" by auto
    then show False using e [of k] by (simp split: if_splits)
  qed
  ultimately show "(\<lambda>k. (a + k) mod m) ` {1..<m} = {..<m} - {a}" by blast
qed

lemma sweep_single:
  assumes "length ip = 4"
  shows "\<exists>xs. sweep_from ip ip = Some xs \<and> distinct xs \<and> length xs + 1 = 2 ^ 32 \<and> set xs = {a. length a = 4 \<and> a \<noteq> ip}"
proof -
  define m :: nat where "m = 2 ^ 32"
  let ?f = "\<lambda>k. (ip_val ip + k) mod m"
  have less: "ip_val ip < m" using ip_val_less [OF assms] by (simp add: m_def)
  have m: "m = Suc (m - 1)" "2 ^ 32 = m" by (simp_all add: m_def)
  note rot = rotation [OF less]
  have "\<exists>xs. sweep_from ip ip = Some xs \<and> map ip_val xs = map ?f [1..<m] \<and> (\<forall>x \<in> set xs. length x = 4)"
    unfolding m_def
  proof (rule sweep_from_spec, unfold m(2))
    show "?f k \<noteq> ip_val ip" if "0 < k" "k < m" for k
      using inj_onD [OF rot(1), of k 0] that less by auto
  qed (use assms less in simp_all)
  then obtain xs where xs: "sweep_from ip ip = Some xs" "map ip_val xs = map ?f [1..<m]" "\<forall>x \<in> set xs. length x = 4" by blast
  have "inj_on ?f {1..<m}" using rot(1) by (rule inj_on_subset) auto
  then have "distinct (map ip_val xs)" unfolding xs(2) by (simp add: distinct_map)
  then have d: "distinct xs" by (simp add: distinct_map)
  have l: "length xs + 1 = m" using arg_cong [OF xs(2), of length] m(1) by simp
  have "set (map ip_val xs) = {..<m} - {ip_val ip}" unfolding xs(2) set_map set_upt by (rule rot(2))
  then have "set xs = {a. length a = 4 \<and> ip_val a \<in> {..<m} - {ip_val ip}}" by (intro set_by_val xs(3)) (auto simp: m_def)
  also have "\<dots> = {a. length a = 4 \<and> a \<noteq> ip}" using ip_val_less ip_val_inj assms unfolding m_def by blast
  finally show ?thesis using xs(1) d l unfolding m_def by blast
qed

text \<open>A mask of leading ones leaves the remaining bits to the hosts.\<close>

lemma little_bits: "little xs = horner_sum of_bool 2 (concat (map (\<lambda>b. map (bit b) [0..<8]) xs))"
proof (induction xs)
  case (Cons b xs)
  have "map (bit b) [0..<8] = map (bit (unat b)) [0..<8]" by (simp add: bit_unsigned_iff)
  then have "horner_sum of_bool 2 (map (bit b) [0..<8]) = take_bit 8 (unat b)" by (simp only: horner_sum_bit_eq_take_bit)
  also have "\<dots> = unat b" by (simp add: take_bit_eq_mod)
  finally show ?case using Cons by (simp add: horner_sum_append del: upt_Suc)
qed simp

lemma horner_ones: "horner_sum of_bool 2 (replicate r True @ replicate n False) = (2 ^ r - 1 :: nat)"
proof -
  have "horner_sum of_bool 2 (replicate n False) = (0 :: nat)" by (induction n) simp_all
  moreover have "horner_sum of_bool 2 (replicate r True) = (2 ^ r - 1 :: nat)" 
  proof (induction r)
    case (Suc r)
    obtain p where "(2 :: nat) ^ r = Suc p" using not0_implies_Suc [of "2 ^ r"] by auto
    then show ?case using Suc by simp
  qed simp
  ultimately show ?thesis by (simp add: horner_sum_append)
qed

lemma mask_size_hosts:
  assumes "mask_size mk = (ones, bits)" and "0 < bits"
  shows "bits = 8 * length mk \<and> ones \<le> bits \<and> ip_val (map NOT mk) = 2 ^ (bits - ones) - 1"
proof -
  define bs where "bs = concat (map byte_bits mk)"
  have e: "ones = length (takeWhile (\<lambda>b. b) bs)" "True \<notin> set (drop ones bs)" "bits = 8 * length mk"
    using assms by (auto simp: mask_size_def bs_def Let_def split: if_splits)
  have len: "length bs = bits" unfolding bs_def e(3) by (induction mk) (simp_all add: byte_bits_def)
  have le: "ones \<le> bits" using e(1) len length_takeWhile_le by metis
  have "takeWhile (\<lambda>b. b) bs = replicate ones True" using e(1) set_takeWhileD by (metis (full_types) replicate_eqI)
  moreover have "drop ones bs = replicate (bits - ones) False" using e(2) len by (metis (full_types) length_drop replicate_eqI)
  ultimately have bs: "bs = replicate ones True @ replicate (bits - ones) False"
    using e(1) by (metis append_take_drop_id takeWhile_eq_take)
  have n: "map (bit (NOT b)) [0..<8] = map Not (map (bit b) [0..<8])" for b :: "8 word" by (simp add: bit_not_iff)
  have "concat (map (\<lambda>b. map (bit b) [0..<8]) (rev (map NOT mk))) = rev (map Not bs)"
    unfolding bs_def by (induction mk) (simp_all only: list.map rev.simps map_append concat_append concat.simps n byte_bits_def rev_map rev_rev_ident rev_append append_Nil2)
  then have "ip_val (map NOT mk) = horner_sum of_bool 2 (rev (map Not bs))" unfolding ip_val_def little_bits by (rule arg_cong)
  also have "rev (map Not bs) = replicate (bits - ones) True @ replicate ones False" unfolding bs by simp
  finally show ?thesis using le e(3) horner_ones by simp
qed

text \<open>
  C38: The loop ends for every address and mask. It visits each address of the subnet but the first and the
  last, once; the number of them is known for a mask of leading ones. The mask of a single host is the
  exception: the first step already leaves the subnet, and all other addresses there are follow.
\<close>

theorem sweep_exact:
  assumes "to4 (in_IP n) = Some ip" and "length (in_Mask n) = 4"
  shows "\<exists>xs. iterateIPs n = Some xs \<and> distinct xs \<and>
    (if in_Mask n = replicate 4 0xFF then set xs = {a. length a = 4 \<and> a \<noteq> ip}
     else set xs = {a. length a = 4 \<and> ip_val (network_of ip (in_Mask n)) < ip_val a \<and> ip_val a < ip_val (broadcast_of ip (in_Mask n))}) \<and>
    (\<forall>ones. mask_size (in_Mask n) = (ones, 32) \<longrightarrow> length xs = (if ones = 32 then 2 ^ 32 - 1 else 2 ^ (32 - ones) - 2))"
proof -
  note l = to4_length [OF assms(1)]
  have i: "iterateIPs n = sweep_from (network_of ip (in_Mask n)) (broadcast_of ip (in_Mask n))" by (simp add: iterateIPs_def assms(1))
  note v = broadcast_val [OF l assms(2)]
  show ?thesis
  proof (cases "in_Mask n = replicate 4 0xFF")
    case True
    have "broadcast_of ip (in_Mask n) = ip" using v True l ip_val_inj by simp
    then obtain xs where xs: "iterateIPs n = Some xs" "distinct xs" "length xs + 1 = 2 ^ 32" "set xs = {a. length a = 4 \<and> a \<noteq> ip}"
      using sweep_single [OF l] i v(5) [OF True] by auto
    have "ones = 32" if "mask_size (in_Mask n) = (ones, 32)" for ones
    proof -
      have e: "ones \<le> 32" "2 ^ (32 - ones) - 1 = (0 :: nat)" using mask_size_hosts [OF that] v(4) True by simp_all
      have "2 \<le> (2 :: nat) ^ (32 - ones)" if "ones < 32" using power_increasing [of 1 "32 - ones" "2 :: nat"] that by simp
      then show ?thesis using e by linarith
    qed
    then show ?thesis using xs True by (intro exI [of _ xs]) auto
  next
    case False
    obtain xs where xs: "iterateIPs n = Some xs" "distinct xs" "length xs + 1 = ip_val (map NOT (in_Mask n))"
      "set xs = {a. length a = 4 \<and> ip_val (network_of ip (in_Mask n)) < ip_val a \<and> ip_val a < ip_val (broadcast_of ip (in_Mask n))}"
      using sweep_subnet [OF l assms(2) False] i by auto
    have "length xs = (if ones = 32 then 2 ^ 32 - 1 else 2 ^ (32 - ones) - 2)" if "mask_size (in_Mask n) = (ones, 32)" for ones
    proof -
      have "length xs + 1 = 2 ^ (32 - ones) - 1" using mask_size_hosts [OF that] xs(3) by simp
      moreover from this have "ones \<noteq> 32" by auto
      ultimately show ?thesis by simp
    qed
    then show ?thesis using xs False by (intro exI [of _ xs]) auto
  qed
qed

definition home_net :: IPNet where "home_net = \<lparr>in_IP = [192, 168, 1, 6], in_Mask = [255, 255, 255, 248]\<rparr>"

theorem sweep_exact_witness:
  "\<exists>xs. iterateIPs home_net = Some xs \<and> distinct xs \<and>
    (if in_Mask home_net = replicate 4 0xFF then set xs = {a. length a = 4 \<and> a \<noteq> [192, 168, 1, 6]}
     else set xs = {a. length a = 4 \<and> ip_val (network_of [192, 168, 1, 6] (in_Mask home_net)) < ip_val a \<and>
       ip_val a < ip_val (broadcast_of [192, 168, 1, 6] (in_Mask home_net))}) \<and>
    (\<forall>ones. mask_size (in_Mask home_net) = (ones, 32) \<longrightarrow> length xs = (if ones = 32 then 2 ^ 32 - 1 else 2 ^ (32 - ones) - 2))"
  by (rule sweep_exact) (simp_all add: home_net_def to4_def)

text \<open>A mask of a home network is swept in at most 1022 steps, and larger networks are skipped.\<close>

lemma iterate_bounded:
  assumes "swept n" and "length (in_Mask n) = 4" and "mask_size (in_Mask n) = (ones, 32)" and "ones < 32"
  shows "\<exists>xs. iterateIPs n = Some xs \<and> length xs \<le> 1022"
proof -
  obtain ip where ip: "to4 (in_IP n) = Some ip" using assms(1) by (auto simp: swept_def)
  note l = to4_length [OF ip]
  have h: "ip_val (map NOT (in_Mask n)) = 2 ^ (32 - ones) - 1" using mask_size_hosts [OF assms(3)] by simp
  have two: "2 \<le> (2 :: nat) ^ (32 - ones)" using power_increasing [of 1 "32 - ones" "2 :: nat"] assms(4) by simp
  have "2 ^ (32 - ones) \<le> (2 :: nat) ^ 10" using assms(1,3) by (intro power_increasing) (simp_all add: swept_def)
  moreover have "in_Mask n \<noteq> replicate 4 0xFF" using broadcast_val(4) [OF l assms(2)] h two by auto
  ultimately show ?thesis using sweep_subnet [OF l assms(2)] h ip by (fastforce simp: iterateIPs_def)
qed

lemma all_some_map:
  "(\<And>x. x \<in> set xs \<Longrightarrow> \<exists>y. f x = Some y \<and> length y \<le> b) \<Longrightarrow> \<exists>yss. all_some (map f xs) = Some yss \<and> length (concat yss) \<le> b * length xs"
proof (induction xs)
  case (Cons x xs)
  then obtain y yss where "f x = Some y" "length y \<le> b" "all_some (map f xs) = Some yss" "length (concat yss) \<le> b * length xs" by force
  then show ?case by simp
qed simp

lemma sweepSubnets_bounded:
  assumes "\<And>n. n \<in> set subnets \<Longrightarrow> length (in_Mask n) = 4 \<and> (\<exists>ones < 32. mask_size (in_Mask n) = (ones, 32))"
  shows "\<exists>xs. sweepSubnets subnets = Some xs \<and> length xs \<le> 1022 * length subnets"
proof -
  have "\<exists>yss. all_some (map iterateIPs (filter swept subnets)) = Some yss \<and> length (concat yss) \<le> 1022 * length (filter swept subnets)"
    by (rule all_some_map) (use assms iterate_bounded in auto)
  moreover have "1022 * length (filter swept subnets) \<le> 1022 * length subnets" by simp
  ultimately show ?thesis unfolding sweepSubnets_def by (metis (no_types, lifting) le_trans option.simps(9))
qed

text \<open>An interface with the mask of a single host passes the check of the size and floods the channel.\<close>

lemma host_mask_floods:
  assumes "to4 ip = Some a"
  shows "\<exists>xs. sweepSubnets [\<lparr>in_IP = ip, in_Mask = replicate 4 0xFF\<rparr>] = Some xs \<and> length xs = 2 ^ 32 - 1"
proof -
  note l = to4_length [OF assms]
  have f: "length (replicate 4 (0xFF :: 8 word)) = 4" by simp
  have "broadcast_of a (replicate 4 0xFF) = a" "network_of a (replicate 4 0xFF) = a" using broadcast_val [OF l f] l ip_val_inj by simp_all
  then obtain xs where "iterateIPs \<lparr>in_IP = ip, in_Mask = replicate 4 0xFF\<rparr> = Some xs" "length xs + 1 = 2 ^ 32"
    using sweep_single [OF l] assms by (auto simp: iterateIPs_def)
  moreover have "mask_size (replicate 4 0xFF) = (32, 32)" by code_simp
  ultimately show ?thesis using assms by (auto simp: sweepSubnets_def swept_def)
qed

end
