(* ===== verification/Wol_Devices.thy ===== *)
theory Wol_Devices
  imports Wol_Sweep Cluster
begin

unbundle bit_operations_syntax

text \<open>
  Wake-on-LAN (\<open>wol/wol.go\<close>, \<open>wol/scanner.go\<close>): the registry of devices and its file, the spelling of
  hardware addresses, the magic packet and where it is sent, the table of addresses that a scan reads,
  and the loop that wakes a device when the cluster runs short of memory. Whether a datagram is sent
  and whether the file is written are arguments. The tables of macOS and Windows, which are read with
  regular expressions, are left out.
\<close>

section \<open>Hardware addresses\<close>

fun two_by_two :: "string \<Rightarrow> string list" where
  "two_by_two (a # b # s) = [a, b] # two_by_two s"
| "two_by_two s = []"

definition mac_clean :: "string \<Rightarrow> string" where
  "mac_clean s = to_lower (filter (\<lambda>c. c \<noteq> CHR '' '') (map (\<lambda>c. if c = CHR ''-'' then CHR '':'' else c) s))"

definition pad_part :: "string \<Rightarrow> string" where "pad_part p = (if length p = 1 then CHR ''0'' # p else p)"

definition normalizeMAC :: "string \<Rightarrow> string" where
  "normalizeMAC s =
     (let mac = mac_clean s;
          mac = (if length mac = 12 \<and> CHR '':'' \<notin> set mac then join_with '':'' (two_by_two mac) else mac);
          parts = split_on CHR '':'' mac
      in if length parts = 6 then join_with '':'' (map pad_part parts) else mac)"

text \<open>\<open>net.ParseMAC\<close> of the standard library: pairs of digits with colons or dashes, or groups of four with dots.\<close>

definition hex_byte :: "char \<Rightarrow> char \<Rightarrow> 8 word option" where
  "hex_byte a b = (case (hex_val a, hex_val b) of (Some x, Some y) \<Rightarrow> Some (of_nat (16 * x + y)) | _ \<Rightarrow> None)"

fun mac_pairs :: "char \<Rightarrow> string \<Rightarrow> 8 word list option" where
  "mac_pairs e [a, b] = map_option (\<lambda>x. [x]) (hex_byte a b)"
| "mac_pairs e (a # b # c # s) =
     (if c = e then (case hex_byte a b of None \<Rightarrow> None | Some x \<Rightarrow> map_option (\<lambda>xs. x # xs) (mac_pairs e s)) else None)"
| "mac_pairs e _ = None"

fun mac_quads :: "string \<Rightarrow> 8 word list option" where
  "mac_quads [a, b, c, d] = (case (hex_byte a b, hex_byte c d) of (Some x, Some y) \<Rightarrow> Some [x, y] | _ \<Rightarrow> None)"
| "mac_quads (a # b # c # d # e # s) =
     (if e = CHR ''.'' then
        (case (hex_byte a b, hex_byte c d) of (Some x, Some y) \<Rightarrow> map_option (\<lambda>xs. x # y # xs) (mac_quads s) | _ \<Rightarrow> None)
      else None)"
| "mac_quads _ = None"

definition ParseMAC :: "string \<Rightarrow> 8 word list option" where
  "ParseMAC s =
     (if length s < 14 then None
      else if s ! 2 = CHR '':'' \<or> s ! 2 = CHR ''-'' then
        (if (length s + 1) mod 3 \<noteq> 0 \<or> (length s + 1) div 3 \<notin> {6, 8, 20} then None else mac_pairs (s ! 2) s)
      else if s ! 4 = CHR ''.'' then
        (if (length s + 1) mod 5 \<noteq> 0 \<or> 2 * (length s + 1) div 5 \<notin> {6, 8, 20} then None else mac_quads s)
      else None)"

definition validateAndNormalizeMAC :: "string \<Rightarrow> string option" where
  "validateAndNormalizeMAC s =
     (let normalized = normalizeMAC s in case ParseMAC normalized of None \<Rightarrow> None | Some _ \<Rightarrow> Some normalized)"

section \<open>The registry\<close>

record Device =
  dv_MAC :: string
  dv_Name :: string
  dv_BroadcastIP :: string
  dv_LastIP :: string
  dv_LinkedNodeID :: string
  dv_LastWoken :: time
  dv_WakeCount :: int

datatype WolFile = WolAbsent | WolBroken | WolList "Device list"

record WolManager =
  wm_devices :: "string \<rightharpoonup> Device"
  wm_file :: WolFile

datatype WolError = InvalidMAC | NotRegistered | SaveFailed | NotSixBytes | AllSendsFailed

definition save_devices :: "bool \<Rightarrow> string list \<Rightarrow> WolManager \<Rightarrow> WolError option \<times> WolManager" where
  "save_devices ok order m =
     (if ok then (None, m\<lparr>wm_file := WolList (map (\<lambda>k. the (wm_devices m k)) order)\<rparr>) else (Some SaveFailed, m))"

definition load_devices :: "WolFile \<Rightarrow> (string \<rightharpoonup> Device)" where
  "load_devices f =
     (case f of
        WolList ds \<Rightarrow> foldl (\<lambda>m d. m(normalizeMAC (dv_MAC d) \<mapsto> d\<lparr>dv_MAC := normalizeMAC (dv_MAC d)\<rparr>)) Map.empty ds
      | _ \<Rightarrow> Map.empty)"

definition NewWolManager :: "WolFile \<Rightarrow> WolManager" where
  "NewWolManager f = \<lparr>wm_devices = load_devices f, wm_file = f\<rparr>"

text \<open>\<open>order\<close> is the order in which \<open>save\<close> ranges over the devices.\<close>

definition Register :: "bool \<Rightarrow> string list \<Rightarrow> Device \<Rightarrow> WolManager \<Rightarrow> WolError option \<times> WolManager" where
  "Register ok order d m =
     (case validateAndNormalizeMAC (dv_MAC d) of
        None \<Rightarrow> (Some InvalidMAC, m)
      | Some mac \<Rightarrow>
          (let d = d\<lparr>dv_MAC := mac\<rparr>;
               new = (case wm_devices m mac of
                   Some existing \<Rightarrow>
                     existing\<lparr>dv_Name := dv_Name d, dv_BroadcastIP := dv_BroadcastIP d, dv_LinkedNodeID := dv_LinkedNodeID d,
                       dv_LastIP := (if dv_LastIP d \<noteq> [] then dv_LastIP d else dv_LastIP existing)\<rparr>
                 | None \<Rightarrow> d)
           in save_devices ok order (m\<lparr>wm_devices := (wm_devices m)(mac \<mapsto> new)\<rparr>)))"

definition Unregister :: "bool \<Rightarrow> string list \<Rightarrow> string \<Rightarrow> WolManager \<Rightarrow> WolError option \<times> WolManager" where
  "Unregister ok order s m =
     (case validateAndNormalizeMAC s of
        None \<Rightarrow> (Some InvalidMAC, m)
      | Some mac \<Rightarrow>
          if wm_devices m mac = None then (Some NotRegistered, m)
          else save_devices ok order (m\<lparr>wm_devices := (wm_devices m)(mac := None)\<rparr>))"

definition List_devices :: "string list \<Rightarrow> WolManager \<Rightarrow> Device list" where
  "List_devices order m = slice_sort (\<lambda>a b. string_less (dv_Name a) (dv_Name b)) (map (\<lambda>k. the (wm_devices m k)) order)"

section \<open>The magic packet\<close>

definition magic_packet :: "8 word list \<Rightarrow> 8 word list" where
  "magic_packet mac =
     foldl (\<lambda>p i. take (i * 6) p @ mac @ drop ((i + 1) * 6) p) (foldl (\<lambda>p i. p[i := 0xFF]) (replicate 102 0) [0..<6]) [1..<17]"

definition magic_targets :: "string \<Rightarrow> string \<Rightarrow> string list option \<Rightarrow> string list" where
  "magic_targets override lastIP subnets =
     filter (\<lambda>ip. ip \<noteq> [])
       ((if override \<noteq> [] then [override] else []) @ [''255.255.255.255''] @
        (case subnets of Some bs \<Rightarrow> bs | None \<Rightarrow> []) @ (if lastIP \<noteq> [] then [lastIP] else []))"

definition magic_addrs :: "string list \<Rightarrow> string list" where
  "magic_addrs ips = concat (map (\<lambda>ip. [ip @ '':7'', ip @ '':9'']) ips)"

text \<open>\<open>order\<close> is the order of the set of targets; the result has the packets that were sent.\<close>

definition SendMagicPacket ::
  "string \<Rightarrow> string list \<Rightarrow> (string \<Rightarrow> bool) \<Rightarrow> WolError option \<times> (string \<times> 8 word list) list" where
  "SendMagicPacket macStr order sends =
     (case ParseMAC macStr of
        None \<Rightarrow> (Some InvalidMAC, [])
      | Some mac \<Rightarrow>
          if length mac \<noteq> 6 then (Some NotSixBytes, [])
          else
            (let sent = filter sends (magic_addrs order);
                 errors = filter (\<lambda>a. \<not> sends a) (magic_addrs order)
             in (if length errors = length order * 2 then Some AllSendsFailed else None, map (\<lambda>a. (a, magic_packet mac)) sent)))"

definition wake_device :: "time \<Rightarrow> Device \<Rightarrow> Device" where
  "wake_device now d = d\<lparr>dv_LastWoken := now, dv_WakeCount := dv_WakeCount d + 1\<rparr>"

text \<open>\<open>targets\<close> is the order of the targets, given the two addresses of the device.\<close>

definition Wake ::
  "time \<Rightarrow> bool \<Rightarrow> string list \<Rightarrow> (string \<Rightarrow> string \<Rightarrow> string list) \<Rightarrow> (string \<Rightarrow> bool) \<Rightarrow> string \<Rightarrow> WolManager
   \<Rightarrow> (WolError option \<times> (string \<times> 8 word list) list) \<times> WolManager" where
  "Wake now ok order targets sends s m =
     (case validateAndNormalizeMAC s of
        None \<Rightarrow> ((Some InvalidMAC, []), m)
      | Some mac \<Rightarrow>
          (case wm_devices m mac of
             None \<Rightarrow> ((Some NotRegistered, []), m)
           | Some d \<Rightarrow>
               (SendMagicPacket mac (targets (dv_BroadcastIP d) (dv_LastIP d)) sends,
                snd (save_devices ok order (m\<lparr>wm_devices := (wm_devices m)(mac \<mapsto> wake_device now d)\<rparr>)))))"

section \<open>Scanning\<close>

record DiscoveredDevice =
  dd_IP :: string
  dd_MAC :: string
  dd_Interface :: string
  dd_LinkedNodeID :: string

definition arp_line :: "string \<Rightarrow> DiscoveredDevice option" where
  "arp_line line =
     (let fs = str_fields line
      in if length fs < 6 \<or> fs ! 3 = ''00:00:00:00:00:00'' \<or> fs ! 3 = ''<incomplete>'' then None
         else Some \<lparr>dd_IP = fs ! 0, dd_MAC = normalizeMAC (fs ! 3), dd_Interface = fs ! 5, dd_LinkedNodeID = []\<rparr>)"

definition parseLinuxARP :: "string \<Rightarrow> DiscoveredDevice list" where
  "parseLinuxARP data = List.map_filter arp_line (drop 1 (split_on (CHR 0x0A) data))"

text \<open>The addresses of the nodes; a later node takes an address over.\<close>

definition node_ips :: "NodeInfo list \<Rightarrow> (string \<rightharpoonup> string)" where
  "node_ips nodes =
     foldl (\<lambda>m n. foldl (\<lambda>m a. if starts_with ''/ip4/'' a \<and> 3 \<le> length (split_on CHR ''/'' a)
         then m(split_on CHR ''/'' a ! 2 \<mapsto> ni_ID n) else m) m (ni_Addresses n)) Map.empty nodes"

definition link_device :: "bool \<Rightarrow> string list \<Rightarrow> (string \<rightharpoonup> string) \<Rightarrow> DiscoveredDevice \<Rightarrow> WolManager \<Rightarrow> DiscoveredDevice \<times> WolManager" where
  "link_device ok order ips d m =
     (case ips (dd_IP d) of
        None \<Rightarrow> (d, m)
      | Some nid \<Rightarrow>
          (d\<lparr>dd_LinkedNodeID := nid\<rparr>,
           case wm_devices m (dd_MAC d) of
             None \<Rightarrow> m
           | Some reg \<Rightarrow> snd (save_devices ok order (m\<lparr>wm_devices := (wm_devices m)(dd_MAC d \<mapsto> reg\<lparr>dv_LastIP := dd_IP d\<rparr>)\<rparr>))))"

fun link_devices :: "bool \<Rightarrow> string list \<Rightarrow> (string \<rightharpoonup> string) \<Rightarrow> DiscoveredDevice list \<Rightarrow> WolManager \<Rightarrow> DiscoveredDevice list \<times> WolManager" where
  "link_devices ok order ips [] m = ([], m)"
| "link_devices ok order ips (d # ds) m =
     (let (d, m) = link_device ok order ips d m; (ds, m) = link_devices ok order ips ds m in (d # ds, m))"

text \<open>\<open>Scan\<close> after the sweep; \<open>cluster\<close> is the list of the nodes if there is a cluster manager.\<close>

definition Scan :: "bool \<Rightarrow> string list \<Rightarrow> NodeInfo list option \<Rightarrow> string option \<Rightarrow> WolManager \<Rightarrow> DiscoveredDevice list option \<times> WolManager" where
  "Scan ok order cluster arp m =
     (case arp of
        None \<Rightarrow> (None, m)
      | Some data \<Rightarrow>
          (case cluster of
             None \<Rightarrow> (Some (parseLinuxARP data), m)
           | Some nodes \<Rightarrow> (let (ds, m) = link_devices ok order (node_ips nodes) (parseLinuxARP data) m in (Some ds, m))))"

section \<open>Waking on demand\<close>

definition can_wake :: "time \<Rightarrow> Manager \<Rightarrow> Device \<Rightarrow> bool" where
  "can_wake now cm d \<longleftrightarrow>
     dv_LinkedNodeID d \<noteq> [] \<and>
     (case Manager_Get (dv_LinkedNodeID d) cm of None \<Rightarrow> True | Some n \<Rightarrow> ni_Status n = StatusOffline) \<and>
     \<not> now - dv_LastWoken d < 5 * minute"

definition better_candidate :: "time \<Rightarrow> Manager \<Rightarrow> (string \<rightharpoonup> Device) \<Rightarrow> string option \<Rightarrow> string \<Rightarrow> string option" where
  "better_candidate now cm devs cand k =
     (if can_wake now cm (the (devs k)) then
        (case cand of
           None \<Rightarrow> Some k
         | Some c \<Rightarrow> if dv_WakeCount (the (devs k)) < dv_WakeCount (the (devs c)) then Some k else cand)
      else cand)"

text \<open>The result names the device whose packet a new goroutine sends.\<close>

definition checkMemoryPressure ::
  "time \<Rightarrow> bool \<Rightarrow> string list \<Rightarrow> string list \<Rightarrow> Manager \<Rightarrow> real \<Rightarrow> WolManager \<Rightarrow> string option \<times> WolManager" where
  "checkMemoryPressure now ok order ks cm threshold m =
     (let s = Manager_Summary ks cm
      in if su_TotalRAM s = 0 then (None, m)
         else
           let freePct = real (unat (su_TotalRAM s - su_UsedRAM s)) / real (unat (su_TotalRAM s))
           in if freePct \<ge> threshold then (None, m)
              else
                (case foldl (better_candidate now cm (wm_devices m)) None order of
                   None \<Rightarrow> (None, m)
                 | Some k \<Rightarrow>
                     (Some k, snd (save_devices ok order (m\<lparr>wm_devices := (wm_devices m)(k \<mapsto> wake_device now (the (wm_devices m k)))\<rparr>)))))"

definition auto_wake_tick ::
  "time \<Rightarrow> bool \<Rightarrow> string list \<Rightarrow> string list \<Rightarrow> Manager \<Rightarrow> string \<Rightarrow> real \<Rightarrow> WolManager \<Rightarrow> string option \<times> WolManager" where
  "auto_wake_tick now ok order ks cm localNodeID threshold m =
     (if CoordinatorID ks cm \<noteq> localNodeID then (None, m)
      else if threshold \<le> 0 then (None, m)
      else checkMemoryPressure now ok order ks cm threshold m)"

section \<open>One device, one key\<close>

lemma split_on_not_Nil [simp]: "split_on c s \<noteq> []"
  by (induction s) (auto split: list.split)

lemma split_on_absent: "c \<notin> set s \<Longrightarrow> split_on c s = [s]"
  by (induction s) auto

lemma split_on_append: "c \<notin> set p \<Longrightarrow> split_on c (p @ c # s) = p # split_on c s"
  by (induction p) auto

lemma split_join: "ps \<noteq> [] \<Longrightarrow> \<forall>p \<in> set ps. c \<notin> set p \<Longrightarrow> split_on c (join_with [c] ps) = ps"
  by (induction "[c]" ps rule: join_with.induct) (simp_all add: split_on_absent split_on_append)

lemma split_on_parts: "p \<in> set (split_on c s) \<Longrightarrow> c \<notin> set p \<and> set p \<subseteq> set s"
proof (induction s arbitrary: p)
  case (Cons x s)
  obtain f fs where f: "split_on c s = f # fs" using split_on_not_Nil by (cases "split_on c s") auto
  then show ?case using Cons by (fastforce split: if_splits)
qed simp

lemma join_set: "set (join_with [c] ps) \<subseteq> insert c (\<Union> (set ` set ps))" "2 \<le> length ps \<Longrightarrow> c \<in> set (join_with [c] ps)"
  by (induction "[c]" ps rule: join_with.induct) auto

definition clean_char :: "char \<Rightarrow> bool" where "clean_char c \<longleftrightarrow> c \<noteq> CHR '' '' \<and> c \<noteq> CHR ''-'' \<and> lower_char c = c"

lemma lower_char_cases: "lower_char c = c \<or> (\<exists>n. 97 \<le> n \<and> n \<le> 122 \<and> lower_char c = char_of (n :: nat))"
  by (auto simp: lower_char_def Let_def intro!: exI [of _ "of_char c + 32"])

lemma letter_clean: "97 \<le> n \<Longrightarrow> n \<le> 122 \<Longrightarrow> clean_char (char_of (n :: nat))"
  unfolding clean_char_def lower_char_def by (auto simp: char_of_eq_iff take_bit_eq_mod)

lemma lower_clean: "c \<noteq> CHR '' '' \<Longrightarrow> c \<noteq> CHR ''-'' \<Longrightarrow> clean_char (lower_char c)"
  using lower_char_cases [of c] by (elim disjE exE conjE) (simp_all add: clean_char_def letter_clean [unfolded clean_char_def])

lemma clean_join: "\<forall>p \<in> set ps. \<forall>c \<in> set p. clean_char c \<Longrightarrow> c \<in> set (join_with '':'' ps) \<Longrightarrow> clean_char c"
proof -
  assume "\<forall>p \<in> set ps. \<forall>c \<in> set p. clean_char c" and "c \<in> set (join_with '':'' ps)"
  moreover have "clean_char CHR '':''" by (simp add: clean_char_def lower_char_def)
  ultimately show ?thesis using join_set(1) [of "CHR '':''" ps] by auto
qed

lemma mac_clean_chars: "c \<in> set (mac_clean s) \<Longrightarrow> clean_char c"
  by (auto simp: mac_clean_def to_lower_def intro: lower_clean)

lemma mac_clean_id: "\<forall>c \<in> set s. clean_char c \<Longrightarrow> mac_clean s = s"
  by (induction s) (auto simp: mac_clean_def to_lower_def clean_char_def)

lemma two_by_two_spec: "even (length s) \<Longrightarrow> concat (two_by_two s) = s \<and> 2 * length (two_by_two s) = length s \<and> (\<forall>p \<in> set (two_by_two s). length p = 2)"
  by (induction s rule: two_by_two.induct) auto

lemma pad_again [simp]: "pad_part (pad_part p) = pad_part p"
  by (simp add: pad_part_def)

lemma normalizeMAC_idem: "normalizeMAC (normalizeMAC s) = normalizeMAC s"
proof -
  define mac where "mac = (if length (mac_clean s) = 12 \<and> CHR '':'' \<notin> set (mac_clean s) then join_with '':'' (two_by_two (mac_clean s)) else mac_clean s)"
  define parts where "parts = split_on CHR '':'' mac"
  have n: "normalizeMAC s = (if length parts = 6 then join_with '':'' (map pad_part parts) else mac)"
    by (simp add: normalizeMAC_def mac_def parts_def Let_def)
  have "clean_char c" if "c \<in> set mac" for c
  proof (cases "mac = mac_clean s")
    case True
    then show ?thesis using that mac_clean_chars by simp
  next
    case False
    then have j: "length (mac_clean s) = 12" "mac = join_with '':'' (two_by_two (mac_clean s))" by (auto simp: mac_def split: if_splits)
    have "concat (two_by_two (mac_clean s)) = mac_clean s" using two_by_two_spec [of "mac_clean s"] j(1) by simp
    then have "\<forall>p \<in> set (two_by_two (mac_clean s)). \<forall>c \<in> set p. clean_char c" by (metis mac_clean_chars UN_I set_concat)
    then show ?thesis using that clean_join by (simp add: j(2))
  qed
  note clean = this
  have parts: "CHR '':'' \<notin> set p \<and> (\<forall>c \<in> set p. clean_char c)" if "p \<in> set parts" for p
    using split_on_parts [of p "CHR '':''" mac] that clean by (auto simp: parts_def)
  show ?thesis
  proof (cases "length parts = 6")
    case True
    let ?t = "join_with '':'' (map pad_part parts)"
    have pads: "\<forall>p \<in> set (map pad_part parts). CHR '':'' \<notin> set p \<and> (\<forall>c \<in> set p. clean_char c)"
    proof -
      have "clean_char CHR ''0''" by (simp add: clean_char_def lower_char_def)
      then have "CHR '':'' \<notin> set (pad_part p) \<and> (\<forall>c \<in> set (pad_part p). clean_char c)" if "p \<in> set parts" for p
        using parts [OF that] by (simp add: pad_part_def)
      then show ?thesis by simp
    qed
    have "\<forall>c \<in> set ?t. clean_char c" using clean_join [of "map pad_part parts"] pads by blast
    then have c: "mac_clean ?t = ?t" by (rule mac_clean_id)
    have "map pad_part parts \<noteq> []" using True by auto
    then have sp: "split_on CHR '':'' ?t = map pad_part parts" using pads by (intro split_join) auto
    have "CHR '':'' \<in> set ?t" using True by (intro join_set(2)) simp
    then show ?thesis unfolding n using True c sp by (simp add: normalizeMAC_def Let_def comp_def)
  next
    case False
    have "mac_clean mac = mac" using clean by (intro mac_clean_id) blast
    moreover have "\<not> (length mac = 12 \<and> CHR '':'' \<notin> set mac)"
    proof
      assume a: "length mac = 12 \<and> CHR '':'' \<notin> set mac"
      show False
      proof (cases "length (mac_clean s) = 12 \<and> CHR '':'' \<notin> set (mac_clean s)")
        case True
        then have "length (two_by_two (mac_clean s)) = 6" using two_by_two_spec [of "mac_clean s"] by simp
        then show False using a True join_set(2) [of "two_by_two (mac_clean s)" "CHR '':''"] by (simp add: mac_def)
      next
        case False
        then show False using a by (auto simp: mac_def)
      qed
    qed
    ultimately show ?thesis unfolding n using False by (auto simp: normalizeMAC_def Let_def parts_def)
  qed
qed

text \<open>Six parts of one or two digits, with colons, with dashes, or written together: one key, and the bytes are those of the parts.\<close>

definition mac_byte :: "string \<Rightarrow> 8 word" where
  "mac_byte p = of_nat (foldl (\<lambda>n c. 16 * n + the (hex_val c)) 0 p)"

definition mac_key :: "string list \<Rightarrow> string" where
  "mac_key ps = join_with '':'' (map (\<lambda>p. pad_part (to_lower p)) ps)"

lemma hex_char: "hex_val c \<noteq> None \<Longrightarrow> c \<noteq> CHR '':'' \<and> c \<noteq> CHR ''-'' \<and> c \<noteq> CHR '' ''"
  by (auto simp: hex_val_def Let_def)

lemma hex_val_lower: "hex_val (lower_char c) = hex_val c"
  by (auto simp: hex_val_def lower_char_def Let_def take_bit_eq_mod)

lemma mac_byte_pad: "mac_byte (pad_part (to_lower p)) = mac_byte p"
proof -
  have "foldl (\<lambda>n c. 16 * n + the (hex_val c)) a (to_lower p) = foldl (\<lambda>n c. 16 * n + the (hex_val c)) a p" for a
    by (induction p arbitrary: a) (simp_all add: to_lower_def hex_val_lower)
  moreover have "hex_val CHR ''0'' = Some 0" by (simp add: hex_val_def)
  ultimately show ?thesis by (simp add: mac_byte_def pad_part_def)
qed

lemma mac_pairs_join:
  "ps \<noteq> [] \<Longrightarrow> \<forall>p \<in> set ps. length p = 2 \<and> (\<forall>c \<in> set p. hex_val c \<noteq> None) \<Longrightarrow> mac_pairs e (join_with [e] ps) = Some (map mac_byte ps)"
proof (induction "[e]" ps rule: join_with.induct)
  case (2 p)
  then obtain a b where "p = [a, b]" by (auto simp: numeral_eq_Suc length_Suc_conv)
  then show ?case using 2 by (auto simp: hex_byte_def mac_byte_def)
next
  case (3 p q ps)
  then obtain a b where "p = [a, b]" by (auto simp: numeral_eq_Suc length_Suc_conv)
  then show ?case using 3 by (auto simp: hex_byte_def mac_byte_def)
qed simp

lemma join_length: "ps \<noteq> [] \<Longrightarrow> length (join_with [e] ps) + 1 = sum_list (map length ps) + length ps"
  by (induction "[e]" ps rule: join_with.induct) auto

lemma clean_join_lower:
  assumes "\<forall>p \<in> set ps. \<forall>c \<in> set p. hex_val c \<noteq> None" and "sep = CHR '':'' \<or> sep = CHR ''-''"
  shows "mac_clean (join_with [sep] ps) = join_with '':'' (map to_lower ps)"
proof -
  have app: "mac_clean (s @ t) = mac_clean s @ mac_clean t" for s t by (simp add: mac_clean_def to_lower_def)
  have hex: "\<forall>c \<in> set p. hex_val c \<noteq> None \<Longrightarrow> mac_clean p = to_lower p" for p
    by (induction p) (simp_all add: mac_clean_def to_lower_def hex_char)
  have sep: "mac_clean (sep # s) = CHR '':'' # mac_clean s" for s
    using assms(2) by (auto simp: mac_clean_def to_lower_def lower_char_def)
  show ?thesis using assms(1) by (induction "[sep]" ps rule: join_with.induct) (simp_all add: hex app sep, simp add: mac_clean_def to_lower_def)
qed

lemma normalize_parts:
  assumes "mac_clean s = join_with '':'' qs" and "length qs = 6" and "\<forall>q \<in> set qs. CHR '':'' \<notin> set q"
  shows "normalizeMAC s = join_with '':'' (map pad_part qs)"
proof -
  have "CHR '':'' \<in> set (join_with '':'' qs)" using assms(2) by (intro join_set(2)) simp
  moreover have "qs \<noteq> []" using assms(2) by auto
  ultimately show ?thesis using assms split_join [of qs "CHR '':''"] by (simp add: normalizeMAC_def Let_def)
qed

lemma two_by_two_concat: "\<forall>q \<in> set qs. length q = 2 \<Longrightarrow> two_by_two (concat qs) = qs"
proof (induction qs)
  case (Cons q qs)
  then obtain a b where "q = [a, b]" by (auto simp: numeral_eq_Suc length_Suc_conv)
  then show ?case using Cons by simp
qed simp

theorem mac_spellings:
  assumes "length ps = 6" and "\<forall>p \<in> set ps. (length p = 1 \<or> length p = 2) \<and> (\<forall>c \<in> set p. hex_val c \<noteq> None)"
  shows "validateAndNormalizeMAC (join_with '':'' ps) = Some (mac_key ps) \<and> validateAndNormalizeMAC (join_with ''-'' ps) = Some (mac_key ps) \<and>
    ((\<forall>p \<in> set ps. length p = 2) \<longrightarrow> validateAndNormalizeMAC (concat ps) = Some (mac_key ps)) \<and>
    ParseMAC (mac_key ps) = Some (map mac_byte ps)"
proof -
  let ?qs = "map to_lower ps" and ?rs = "map (\<lambda>p. pad_part (to_lower p)) ps"
  have low: "length (to_lower p) = length p" "set (to_lower p) = lower_char ` set p" for p by (simp_all add: to_lower_def)
  have q: "\<forall>q \<in> set ?qs. CHR '':'' \<notin> set q \<and> (\<forall>c \<in> set q. hex_val c \<noteq> None)"
    using assms(2) hex_char hex_val_lower by (metis (no_types, lifting) imageE list.set_map low(2))
  have "hex_val CHR ''0'' = Some 0" by (simp add: hex_val_def)
  then have r: "\<forall>r \<in> set ?rs. length r = 2 \<and> (\<forall>c \<in> set r. hex_val c \<noteq> None)"
    using assms(2) q low(1) by (auto simp: pad_part_def)
  have len: "length (mac_key ps) = 17"
  proof -
    have "map length ?rs = replicate 6 2" using r assms(1) by (intro replicate_eqI) auto
    then have "sum_list (map length ?rs) = 12" by (simp add: sum_list_replicate)
    moreover have "ps \<noteq> []" using assms(1) by auto
    ultimately show ?thesis using join_length [of ?rs "CHR '':''"] assms(1) by (simp add: mac_key_def)
  qed
  have "mac_pairs CHR '':'' (mac_key ps) = Some (map mac_byte ?rs)"
    unfolding mac_key_def using r assms(1) by (intro mac_pairs_join) auto
  then have pairs: "mac_pairs CHR '':'' (mac_key ps) = Some (map mac_byte ps)" by (simp add: mac_byte_pad)
  obtain p ps' where "?rs = p # ps'" "ps' \<noteq> []" using assms(1) by (cases ps; cases "tl ps") auto
  then have "mac_key ps ! 2 = CHR '':''" using r by (cases ps') (auto simp: mac_key_def nth_append)
  then have parse: "ParseMAC (mac_key ps) = Some (map mac_byte ps)" using len pairs by (simp add: ParseMAC_def)
  have key: "validateAndNormalizeMAC s = Some (mac_key ps)" if "mac_clean s = join_with '':'' ?qs" for s
  proof -
    have "normalizeMAC s = mac_key ps" using normalize_parts [OF that] q assms(1) by (simp add: mac_key_def comp_def)
    then show ?thesis by (simp add: validateAndNormalizeMAC_def parse)
  qed
  have joined: "validateAndNormalizeMAC (join_with [sep] ps) = Some (mac_key ps)" if "sep = CHR '':'' \<or> sep = CHR ''-''" for sep
    using key clean_join_lower [OF _ that] assms(2) by blast
  have "validateAndNormalizeMAC (concat ps) = Some (mac_key ps)" if two: "\<forall>p \<in> set ps. length p = 2"
  proof -
    have "mac_clean p = to_lower p" if "p \<in> set ps" for p
      using clean_join_lower [of "[p]" "CHR '':''"] assms(2) that by simp
    then have c: "mac_clean (concat ps) = concat ?qs"
      by (induction ps) (simp_all add: mac_clean_def to_lower_def)
    have l: "\<forall>q \<in> set ?qs. length q = 2" using two low(1) by simp
    then have "map length ?qs = replicate 6 2" using assms(1) by (intro replicate_eqI) auto
    then have "length (concat ?qs) = 12" by (simp add: length_concat sum_list_replicate)
    moreover have "CHR '':'' \<notin> set (concat ?qs)" using q by auto
    moreover have "split_on CHR '':'' (join_with '':'' ?qs) = ?qs" using q assms(1) by (intro split_join) auto
    ultimately have "normalizeMAC (concat ps) = mac_key ps"
      using c two_by_two_concat [OF l] assms(1) by (simp add: normalizeMAC_def Let_def mac_key_def comp_def)
    then show ?thesis by (simp add: validateAndNormalizeMAC_def parse)
  qed
  then show ?thesis using joined parse by simp
qed

theorem mac_spellings_witness:
  "let ps = [''0'', ''1A'', ''2b'', ''3'', ''4C'', ''5d''] in
   validateAndNormalizeMAC (join_with '':'' ps) = Some (mac_key ps) \<and> validateAndNormalizeMAC (join_with ''-'' ps) = Some (mac_key ps) \<and>
   ((\<forall>p \<in> set ps. length p = 2) \<longrightarrow> validateAndNormalizeMAC (concat ps) = Some (mac_key ps)) \<and>
   ParseMAC (mac_key ps) = Some (map mac_byte ps)"
  unfolding Let_def by (rule mac_spellings) (simp_all add: hex_val_def)

text \<open>The same address with dots is another key, so a device can be registered twice.\<close>

lemma dotted_is_another_key:
  "validateAndNormalizeMAC ''0011.2233.4455'' = Some ''0011.2233.4455'' \<and> validateAndNormalizeMAC ''00:11:22:33:44:55'' = Some ''00:11:22:33:44:55'' \<and>
   ParseMAC ''0011.2233.4455'' = ParseMAC ''00:11:22:33:44:55''"
  by code_simp

text \<open>Addresses of eight bytes are registered but cannot be woken.\<close>

lemma long_mac_registered: "validateAndNormalizeMAC ''00:11:22:33:44:55:66:77'' = Some ''00:11:22:33:44:55:66:77''"
  by code_simp

lemma long_mac_never_woken: "fst (SendMagicPacket ''00:11:22:33:44:55:66:77'' order sends) = Some NotSixBytes"
proof -
  have "ParseMAC ''00:11:22:33:44:55:66:77'' = Some [0x00, 0x11, 0x22, 0x33, 0x44, 0x55, 0x66, 0x77]" by code_simp
  then show ?thesis by (simp add: SendMagicPacket_def)
qed

section \<open>The registry and its file\<close>

definition wol_inv :: "WolManager \<Rightarrow> bool" where
  "wol_inv m \<longleftrightarrow> finite (dom (wm_devices m)) \<and> (\<forall>k d. wm_devices m k = Some d \<longrightarrow> dv_MAC d = k \<and> normalizeMAC k = k)"

lemma save_devices_simps [simp]:
  "wm_devices (snd (save_devices ok order m)) = wm_devices m" "wol_inv (snd (save_devices ok order m)) = wol_inv m"
  by (simp_all add: save_devices_def wol_inv_def)

lemma wol_inv_update:
  assumes "wol_inv m" and "dv_MAC d = k" and "normalizeMAC k = k"
  shows "wol_inv (m\<lparr>wm_devices := (wm_devices m)(k \<mapsto> d)\<rparr>)"
  using assms by (auto simp: wol_inv_def)

lemma validate_normal: "validateAndNormalizeMAC s = Some k \<Longrightarrow> normalizeMAC k = k"
  by (auto simp: validateAndNormalizeMAC_def Let_def normalizeMAC_idem split: option.splits)

lemma load_inv: "wol_inv (NewWolManager f)"
proof (cases f)
  case (WolList ds)
  have "wol_inv (m\<lparr>wm_devices := foldl (\<lambda>m d. m(normalizeMAC (dv_MAC d) \<mapsto> d\<lparr>dv_MAC := normalizeMAC (dv_MAC d)\<rparr>)) Map.empty ds\<rparr>)" for m
  proof (rule foldl_invariant [where P = "\<lambda>f. wol_inv (m\<lparr>wm_devices := f\<rparr>)"])
    show "wol_inv (m\<lparr>wm_devices := f(normalizeMAC (dv_MAC d) \<mapsto> d\<lparr>dv_MAC := normalizeMAC (dv_MAC d)\<rparr>)\<rparr>)" if "wol_inv (m\<lparr>wm_devices := f\<rparr>)" for f d
      using wol_inv_update [OF that, of "d\<lparr>dv_MAC := normalizeMAC (dv_MAC d)\<rparr>" "normalizeMAC (dv_MAC d)"] by (simp add: normalizeMAC_idem)
  qed (simp add: wol_inv_def)
  from this [of "\<lparr>wm_devices = Map.empty, wm_file = f\<rparr>"] show ?thesis by (simp add: NewWolManager_def load_devices_def WolList)
qed (simp_all add: wol_inv_def NewWolManager_def load_devices_def)

lemma Register_inv:
  assumes "wol_inv m"
  shows "wol_inv (snd (Register ok order d m))"
proof (cases "validateAndNormalizeMAC (dv_MAC d)")
  case (Some mac)
  have "dv_MAC e = mac" if "wm_devices m mac = Some e" for e using assms that by (auto simp: wol_inv_def)
  then show ?thesis
    by (simp add: Register_def Some Let_def, intro wol_inv_update assms validate_normal [OF Some]) (simp split: option.split)
qed (use assms in \<open>simp add: Register_def\<close>)

lemma Unregister_inv: "wol_inv m \<Longrightarrow> wol_inv (snd (Unregister ok order s m))"
  by (auto simp: Unregister_def split: option.split) (auto simp: wol_inv_def split: if_splits)

lemma Wake_inv: "wol_inv m \<Longrightarrow> wol_inv (snd (Wake now ok order targets sends s m))"
  by (auto simp: Wake_def wake_device_def split: option.split intro!: wol_inv_update dest: validate_normal) (auto simp: wol_inv_def)

lemma link_device_inv: "wol_inv m \<Longrightarrow> wol_inv (snd (link_device ok order ips d m))"
  by (auto simp: link_device_def split: option.split intro!: wol_inv_update) (auto simp: wol_inv_def)

lemma link_devices_inv: "wol_inv m \<Longrightarrow> wol_inv (snd (link_devices ok order ips ds m))"
  by (induction ds arbitrary: m) (auto split: prod.split dest: link_device_inv, metis link_device_inv snd_conv)

lemma Scan_inv: "wol_inv m \<Longrightarrow> wol_inv (snd (Scan ok order cluster arp m))"
  using link_devices_inv [of m ok order] by (simp add: Scan_def split_beta Let_def split: option.split)

lemma candidate_key: "foldl (better_candidate now cm devs) None order = Some k \<Longrightarrow> k \<in> set order \<and> can_wake now cm (the (devs k))"
proof -
  have "\<forall>k. foldl (better_candidate now cm devs) None order = Some k \<longrightarrow> k \<in> set order \<and> can_wake now cm (the (devs k))"
    by (rule foldl_invariant [where P = "\<lambda>c. \<forall>k. c = Some k \<longrightarrow> k \<in> set order \<and> can_wake now cm (the (devs k))"])
      (auto simp: better_candidate_def split: option.splits if_splits)
  then show "foldl (better_candidate now cm devs) None order = Some k \<Longrightarrow> ?thesis" by blast
qed

text \<open>What \<open>save\<close> writes is what the next start reads.\<close>

lemma load_saved:
  assumes "wol_inv m" and "set order \<subseteq> dom (wm_devices m)"
  shows "foldl (\<lambda>m d. m(normalizeMAC (dv_MAC d) \<mapsto> d\<lparr>dv_MAC := normalizeMAC (dv_MAC d)\<rparr>)) f (map (\<lambda>k. the (wm_devices m k)) order) k =
    (if k \<in> set order then wm_devices m k else f k)"
  using assms(2)
proof (induction order arbitrary: f)
  case (Cons j order)
  then obtain d where d: "wm_devices m j = Some d" by auto
  then have "dv_MAC d = j" "normalizeMAC j = j" using assms(1) by (auto simp: wol_inv_def)
  moreover from this have "d\<lparr>dv_MAC := j\<rparr> = d" by (metis Device.surjective Device.update_convs(1) Device.select_convs(1))
  ultimately show ?case using Cons d by simp
qed simp

lemma wol_restart:
  assumes "wol_inv m" and "map_order order (wm_devices m)"
  shows "wm_devices (NewWolManager (WolList (map (\<lambda>k. the (wm_devices m k)) order))) = wm_devices m"
proof
  fix k
  have "set order = dom (wm_devices m)" using assms(2) by (simp add: map_order_def)
  then show "wm_devices (NewWolManager (WolList (map (\<lambda>k. the (wm_devices m k)) order))) k = wm_devices m k"
    using load_saved [OF assms(1), of order Map.empty k] by (auto simp: NewWolManager_def load_devices_def)
qed

section \<open>The magic packet\<close>

text \<open>The loops write six bytes of ones and sixteen copies of the address.\<close>

lemma magic_packet_layout: "length mac = 6 \<Longrightarrow> magic_packet mac = replicate 6 0xFF @ concat (replicate 16 mac)"
proof -
  assume "length mac = 6"
  then obtain a b c d e f where m: "mac = [a, b, c, d, e, f]" by (auto simp: numeral_eq_Suc length_Suc_conv)
  have "[0..<6] = [0, 1, 2, 3, 4, 5 :: nat]" "[1..<17] = [1, 2, 3, 4, 5, 6, 7, 8, 9, 10, 11, 12, 13, 14, 15, 16 :: nat]" by (simp_all add: upt_conv_Cons)
  then show ?thesis unfolding m magic_packet_def by (simp add: numeral_eq_Suc)
qed

lemma magic_addrs_length: "length (filter p (magic_addrs ips)) + length (filter (\<lambda>a. \<not> p a) (magic_addrs ips)) = length ips * 2"
  by (induction ips) (simp_all add: magic_addrs_def)

text \<open>A packet of 102 bytes goes to every target; only if no datagram leaves is this an error.\<close>

lemma SendMagicPacket_outcome:
  assumes "ParseMAC s = Some mac" and "length mac = 6" and "SendMagicPacket s order sends = (r, sent)"
  shows "sent = map (\<lambda>a. (a, replicate 6 0xFF @ concat (replicate 16 mac))) (filter sends (magic_addrs order)) \<and>
    (r = None \<longleftrightarrow> sent \<noteq> []) \<and> (r = None \<or> r = Some AllSendsFailed)"
  using assms magic_addrs_length [of sends order] magic_packet_layout [OF assms(2)] by (auto simp: SendMagicPacket_def Let_def split: if_splits)

section \<open>Waking on demand\<close>

lemma wakes_least_used:
  assumes "foldl (better_candidate now cm devs) None order = Some k" and "j \<in> set order" and "can_wake now cm (the (devs j))"
  shows "dv_WakeCount (the (devs k)) \<le> dv_WakeCount (the (devs j))"
proof -
  have "\<exists>k. foldl (better_candidate now cm devs) c order = Some k \<and> dv_WakeCount (the (devs k)) \<le> dv_WakeCount (the (devs j)) \<and>
      (\<forall>i. c = Some i \<longrightarrow> dv_WakeCount (the (devs k)) \<le> dv_WakeCount (the (devs i)))"
    if "j \<in> set order \<or> (\<exists>i. c = Some i \<and> dv_WakeCount (the (devs i)) \<le> dv_WakeCount (the (devs j)))" for c
    using that
  proof (induction order arbitrary: c)
    case (Cons i order)
    let ?c = "better_candidate now cm devs c i"
    have "j \<in> set order \<or> (\<exists>i. ?c = Some i \<and> dv_WakeCount (the (devs i)) \<le> dv_WakeCount (the (devs j)))"
      using Cons.prems assms(3) by (auto simp: better_candidate_def split: option.split)
    from Cons.IH [OF this] show ?case
      by (auto simp: better_candidate_def split: if_splits option.splits)
  qed auto
  from this [of None] assms(1,2) show ?thesis by auto
qed

text \<open>Every history: the time, the manager, and the automatic wakes of the devices that are registered.\<close>

inductive wol_run :: "time \<Rightarrow> WolManager \<Rightarrow> (time \<times> string) list \<Rightarrow> bool" where
  wr_start: "wol_run t (NewWolManager f) []"
| wr_time: "wol_run t m wakes \<Longrightarrow> t \<le> t' \<Longrightarrow> wol_run t' m wakes"
| wr_register: "wol_run t m wakes \<Longrightarrow> wol_run t (snd (Register ok order d m)) wakes"
| wr_unregister: "wol_run t m wakes \<Longrightarrow>
    wol_run t (snd (Unregister ok order s m)) (filter (\<lambda>e. validateAndNormalizeMAC s \<noteq> Some (snd e)) wakes)"
| wr_wake: "wol_run t m wakes \<Longrightarrow> wol_run t (snd (Wake t ok order targets sends s m)) wakes"
| wr_scan: "wol_run t m wakes \<Longrightarrow> wol_run t (snd (Scan ok order cluster arp m)) wakes"
| wr_tick: "wol_run t m wakes \<Longrightarrow> map_order order (wm_devices m) \<Longrightarrow>
    auto_wake_tick t ok order ks cm localNodeID threshold m = (woken, m') \<Longrightarrow>
    wol_run t m' (wakes @ (case woken of None \<Rightarrow> [] | Some k \<Rightarrow> [(t, k)]))"
| wr_restart: "wol_run t m wakes \<Longrightarrow> map_order order (wm_devices m) \<Longrightarrow> wm_file m = WolList (map (\<lambda>k. the (wm_devices m k)) order) \<Longrightarrow>
    wol_run t (NewWolManager (wm_file m)) wakes"

text \<open>The registered devices keep the time of their last wake, except that it moves on.\<close>

definition woken_after :: "(time \<times> string) list \<Rightarrow> WolManager \<Rightarrow> bool" where
  "woken_after wakes m \<longleftrightarrow> (\<forall>(t, k) \<in> set wakes. \<exists>d. wm_devices m k = Some d \<and> t \<le> dv_LastWoken d)"

lemma woken_after_save [simp]: "woken_after wakes (snd (save_devices ok order m)) = woken_after wakes m"
  by (simp add: woken_after_def)

lemma woken_after_update:
  assumes "woken_after wakes m" and "\<And>e. wm_devices m k = Some e \<Longrightarrow> dv_LastWoken e \<le> dv_LastWoken d"
  shows "woken_after wakes (m\<lparr>wm_devices := (wm_devices m)(k \<mapsto> d)\<rparr>)"
  using assms by (fastforce simp: woken_after_def)

lemma Register_woken: "wol_inv m \<Longrightarrow> woken_after wakes m \<Longrightarrow> woken_after wakes (snd (Register ok order d m))"
proof (cases "validateAndNormalizeMAC (dv_MAC d)")
  case (Some mac)
  assume "woken_after wakes m"
  then show ?thesis
  proof (cases "wm_devices m mac")
    case None
    then show ?thesis using \<open>woken_after wakes m\<close> by (simp add: Register_def Some Let_def, intro woken_after_update) simp_all
  next
    case (Some e)
    then show ?thesis using \<open>woken_after wakes m\<close> \<open>validateAndNormalizeMAC (dv_MAC d) = Some mac\<close>
      by (auto simp: Register_def Let_def intro!: woken_after_update)
  qed
qed (simp add: Register_def)

lemma Unregister_woken:
  "woken_after wakes m \<Longrightarrow> woken_after (filter (\<lambda>e. validateAndNormalizeMAC s \<noteq> Some (snd e)) wakes) (snd (Unregister ok order s m))"
  by (auto simp: Unregister_def split: option.split) (auto simp: woken_after_def)

lemma woken_wake:
  assumes "woken_after wakes m" and "wm_devices m k = Some d" and "\<forall>e \<in> set wakes. fst e \<le> now"
  shows "woken_after wakes (m\<lparr>wm_devices := (wm_devices m)(k \<mapsto> wake_device now d)\<rparr>)"
  using assms by (fastforce simp: woken_after_def wake_device_def)

lemma Wake_woken: "woken_after wakes m \<Longrightarrow> \<forall>e \<in> set wakes. fst e \<le> now \<Longrightarrow> woken_after wakes (snd (Wake now ok order targets sends s m))"
  by (simp add: Wake_def woken_wake split: option.split)

lemma link_devices_woken: "woken_after wakes m \<Longrightarrow> woken_after wakes (snd (link_devices ok order ips ds m))"
proof (induction ds arbitrary: m)
  case (Cons d ds)
  have "woken_after wakes (snd (link_device ok order ips d m))"
    using Cons.prems by (auto simp: link_device_def split: option.split intro!: woken_after_update)
  then show ?case using Cons.IH by (simp add: split_beta Let_def)
qed simp

lemma Scan_woken: "woken_after wakes m \<Longrightarrow> woken_after wakes (snd (Scan ok order cluster arp m))"
  using link_devices_woken by (simp add: Scan_def split_beta Let_def split: option.split)

lemma tick_cases:
  assumes "auto_wake_tick now ok order ks cm localNodeID threshold m = (woken, m')" and "map_order order (wm_devices m)"
  shows "(woken = None \<and> m' = m) \<or> (\<exists>k d. woken = Some k \<and> wm_devices m k = Some d \<and> can_wake now cm d \<and>
    m' = snd (save_devices ok order (m\<lparr>wm_devices := (wm_devices m)(k \<mapsto> wake_device now d)\<rparr>)))"
proof (cases "foldl (better_candidate now cm (wm_devices m)) None order")
  case None
  then show ?thesis using assms(1) by (auto simp: auto_wake_tick_def checkMemoryPressure_def Let_def split: if_splits)
next
  case (Some k)
  obtain d where "wm_devices m k = Some d" "can_wake now cm d"
    using candidate_key [OF Some] map_order_mem [OF assms(2), of k] by auto
  then show ?thesis
    using assms(1) by (auto simp: auto_wake_tick_def checkMemoryPressure_def Let_def Some split: if_splits)
qed

definition wakes_inv :: "time \<Rightarrow> WolManager \<Rightarrow> (time \<times> string) list \<Rightarrow> bool" where
  "wakes_inv t m wakes \<longleftrightarrow> wol_inv m \<and> woken_after wakes m \<and> (\<forall>e \<in> set wakes. fst e \<le> t) \<and>
     sorted_wrt (\<lambda>a b. snd a = snd b \<longrightarrow> fst a + 5 * minute \<le> fst b) wakes"

lemma tick_inv:
  assumes "wakes_inv t m wakes" and "auto_wake_tick t ok order ks cm localNodeID threshold m = (woken, m')" and "map_order order (wm_devices m)"
  shows "wakes_inv t m' (wakes @ (case woken of None \<Rightarrow> [] | Some k \<Rightarrow> [(t, k)]))"
  using tick_cases [OF assms(2,3)]
proof (elim disjE exE conjE)
  fix k d
  assume k: "woken = Some k" "wm_devices m k = Some d" "can_wake t cm d"
    "m' = snd (save_devices ok order (m\<lparr>wm_devices := (wm_devices m)(k \<mapsto> wake_device t d)\<rparr>))"
  have i: "wol_inv m" "woken_after wakes m" "\<forall>e \<in> set wakes. fst e \<le> t" using assms(1) by (simp_all add: wakes_inv_def)
  then have "dv_MAC d = k" "normalizeMAC k = k" using k(2) by (auto simp: wol_inv_def)
  then have "wol_inv m'" using i(1) by (simp add: k(4) wol_inv_update wake_device_def)
  moreover have "woken_after (wakes @ [(t, k)]) m'"
    using woken_wake [OF i(2) k(2) i(3)] by (simp add: k(4)) (simp add: woken_after_def wake_device_def)
  moreover have "fst e + 5 * minute \<le> t" if "e \<in> set wakes" "snd e = k" for e
  proof -
    have "fst e \<le> dv_LastWoken d" using i(2) that k(2) by (cases e) (force simp: woken_after_def)
    then show ?thesis using k(3) by (simp add: can_wake_def)
  qed
  ultimately show ?thesis using assms(1) k(1) by (auto simp: wakes_inv_def sorted_wrt_append)
qed (use assms(1) in simp)

lemma wol_run_inv: "wol_run t m wakes \<Longrightarrow> wakes_inv t m wakes"
proof (induction rule: wol_run.induct)
  case (wr_start t f)
  show ?case by (simp add: wakes_inv_def load_inv woken_after_def)
next
  case (wr_time t m wakes t')
  then show ?case by (auto simp: wakes_inv_def)
next
  case (wr_register t m wakes ok order d)
  then show ?case by (simp add: wakes_inv_def Register_inv Register_woken)
next
  case (wr_unregister t m wakes ok order s)
  then show ?case by (simp add: wakes_inv_def Unregister_inv Unregister_woken sorted_wrt_filter)
next
  case (wr_wake t m wakes ok order targets sends s)
  then show ?case by (simp add: wakes_inv_def Wake_inv Wake_woken)
next
  case (wr_scan t m wakes ok order cluster arp)
  then show ?case by (simp add: wakes_inv_def Scan_inv Scan_woken)
next
  case (wr_tick t m wakes order ok ks cm localNodeID threshold woken m')
  then show ?case by (intro tick_inv)
next
  case (wr_restart t m wakes order)
  then have "wm_devices (NewWolManager (wm_file m)) = wm_devices m" using wol_restart by (simp add: wakes_inv_def)
  then show ?case using wr_restart by (simp add: wakes_inv_def woken_after_def load_inv)
qed

text \<open>
  Whatever is registered, scanned, woken by hand and restarted, the loop wakes a registered device at
  most once in five minutes, and every key is the normal spelling of the address of its device.
\<close>

theorem auto_wakes_spaced:
  assumes "wol_run t m wakes"
  shows "sorted_wrt (\<lambda>a b. snd a = snd b \<longrightarrow> fst a + 5 * minute \<le> fst b) wakes \<and>
    (\<forall>k d. wm_devices m k = Some d \<longrightarrow> dv_MAC d = k \<and> normalizeMAC k = k)"
  using wol_run_inv [OF assms] by (simp add: wakes_inv_def wol_inv_def)

text \<open>A device that is woken for want of memory, and not again when the loop comes back half a minute later.\<close>

definition busy_node :: NodeInfo where
  "busy_node = \<lparr>ni_ID = ''n1'', ni_Name = ''n1'', ni_Status = StatusOnline, ni_DeviceType = DeviceDesktop, ni_OS = ''linux'', ni_Arch = ''amd64'',
     ni_CPUPercent = 0, ni_RAMUsed = 9, ni_RAMTotal = 10, ni_StorageUsed = 0, ni_StorageTotal = 0, ni_Addresses = [], ni_LastSeen = 0, ni_JoinedAt = 0,
     ni_UptimeSeconds = 0, ni_GPU = \<lparr>gi_Available = False, gi_VRAM = 0, gi_VRAMFree = 0\<rparr>\<rparr>"

definition busy_cluster :: Manager where
  "busy_cluster = (NewManager False)\<lparr>cm_nodes := [''n1'' \<mapsto> busy_node]\<rparr>"

definition sleeping_device :: Device where
  "sleeping_device = \<lparr>dv_MAC = ''00:11:22:33:44:55'', dv_Name = ''tower'', dv_BroadcastIP = [], dv_LastIP = [], dv_LinkedNodeID = ''n2'',
     dv_LastWoken = 0, dv_WakeCount = 0\<rparr>"

definition sleeping_manager :: WolManager where
  "sleeping_manager = snd (Register True [''00:11:22:33:44:55''] sleeping_device (NewWolManager WolAbsent))"

lemma sleeping_devices: "wm_devices sleeping_manager = [''00:11:22:33:44:55'' \<mapsto> sleeping_device]"
proof -
  have "validateAndNormalizeMAC ''00:11:22:33:44:55'' = Some ''00:11:22:33:44:55''" by code_simp
  then show ?thesis by (simp add: sleeping_manager_def Register_def NewWolManager_def load_devices_def sleeping_device_def)
qed

lemma busy_summary: "su_TotalRAM (Manager_Summary [''n1''] busy_cluster) = 10 \<and> su_UsedRAM (Manager_Summary [''n1''] busy_cluster) = 9"
  by (simp add: Manager_Summary_def Manager_List_def Summary_add_def Let_def busy_cluster_def busy_node_def NewManager_def)

lemma busy_coordinator: "CoordinatorID [''n1''] busy_cluster = ''n1''"
  by (simp add: CoordinatorID_def online_nodes_def Manager_List_def slice_sort_def busy_cluster_def busy_node_def NewManager_def)

lemma sleeping_woken:
  "\<exists>m'. auto_wake_tick (600 * second) True [''00:11:22:33:44:55''] [''n1''] busy_cluster ''n1'' (1 / 2) sleeping_manager = (Some ''00:11:22:33:44:55'', m')"
  using busy_summary busy_coordinator
  by (simp add: auto_wake_tick_def checkMemoryPressure_def Let_def sleeping_devices better_candidate_def can_wake_def sleeping_device_def
      Manager_Get_def busy_cluster_def NewManager_def)

theorem auto_wakes_spaced_witness:
  "\<exists>m wakes. wol_run (600 * second) m wakes \<and> wakes = [(600 * second, ''00:11:22:33:44:55'')] \<and>
    sorted_wrt (\<lambda>a b. snd a = snd b \<longrightarrow> fst a + 5 * minute \<le> fst b) wakes \<and>
    (\<forall>k d. wm_devices m k = Some d \<longrightarrow> dv_MAC d = k \<and> normalizeMAC k = k)"
proof -
  obtain m where t: "auto_wake_tick (600 * second) True [''00:11:22:33:44:55''] [''n1''] busy_cluster ''n1'' (1 / 2) sleeping_manager =
      (Some ''00:11:22:33:44:55'', m)" using sleeping_woken by blast
  have "wol_run (600 * second) sleeping_manager []" unfolding sleeping_manager_def by (intro wr_register wr_start)
  moreover have "map_order [''00:11:22:33:44:55''] (wm_devices sleeping_manager)" by (simp add: map_order_def sleeping_devices)
  ultimately have r: "wol_run (600 * second) m [(600 * second, ''00:11:22:33:44:55'')]" using wr_tick [OF _ _ t] by fastforce
  show ?thesis using auto_wakes_spaced [OF r] r by blast
qed

text \<open>A report of more used than total memory wraps around and hides the shortage.\<close>

lemma overcommit_hides_pressure:
  assumes "su_TotalRAM (Manager_Summary ks cm) = 10" and "su_UsedRAM (Manager_Summary ks cm) = 11" and "threshold \<le> 1"
  shows "checkMemoryPressure now ok order ks cm threshold m = (None, m)"
  using assms by (simp add: checkMemoryPressure_def Let_def unsigned_minus_1_eq_mask mask_eq_exp_minus_1)

end
