(* ===== verification/Pulse_Rules.thy ===== *)
theory Pulse_Rules
  imports Sched_Priority Cluster Audit_Log
begin

text \<open>
  The pulse (\<open>pulse/pulse.go\<close>, \<open>pulse/rules.go\<close>): rules that look at the cluster, the tasks, the
  chats and the audit log twice a minute and write insights for the user, each with an identifier. What
  a rule reads is the record \<open>PulseEnv\<close>; a part of the agent that is missing is \<open>None\<close>. One reading of
  the clock serves a whole round of checks, which reads it again and again in the code.
\<close>

section \<open>Texts\<close>

text \<open>\<open>%.nf\<close> of a number that is not negative: the nearest decimal, the even one of two.\<close>

definition round_even :: "real \<Rightarrow> int" where
  "round_even x = (let f = \<lfloor>x\<rfloor>; r = x - of_int f in if r < 1 / 2 then f else if r > 1 / 2 then f + 1 else if even f then f else f + 1)"

definition zero_padded :: "nat \<Rightarrow> nat \<Rightarrow> string" where
  "zero_padded n k = (let s = show_nat k in replicate (n - length s) CHR ''0'' @ s)"

definition show_fixed :: "nat \<Rightarrow> real \<Rightarrow> string" where
  "show_fixed n x = (let k = nat (round_even (x * 10 ^ n)) in show_nat (k div 10 ^ n) @ ''.'' @ zero_padded n (k mod 10 ^ n))"

definition round_minute :: "duration \<Rightarrow> duration" where
  "round_minute d = (let r = d mod minute in if r + r < minute then d - r else d + minute - r)"

text \<open>\<open>Duration.String\<close> of whole minutes, at least one hour.\<close>

definition show_minutes :: "duration \<Rightarrow> string" where
  "show_minutes d = show_int (d div hour) @ ''h'' @ show_int (d div minute mod 60) @ ''m0s''"

section \<open>Insights\<close>

datatype InsightPriority = PriorityInfo | PriorityWarning | PriorityAction

record Action =
  ac_Label :: string
  ac_Link :: string

record Insight =
  ins_ID :: string
  ins_Title :: string
  ins_Body :: string
  ins_Priority :: InsightPriority
  ins_Actions :: "Action list"
  ins_Dismissed :: bool
  ins_CreatedAt :: time
  ins_DismissedAt :: "time option"

definition insight :: "string \<Rightarrow> string \<Rightarrow> string \<Rightarrow> InsightPriority \<Rightarrow> (string \<times> string) list \<Rightarrow> time \<Rightarrow> Insight" where
  "insight iid title body prio actions now =
     \<lparr>ins_ID = iid, ins_Title = title, ins_Body = body, ins_Priority = prio,
      ins_Actions = map (\<lambda>(l, k). \<lparr>ac_Label = l, ac_Link = k\<rparr>) actions, ins_Dismissed = False, ins_CreatedAt = now, ins_DismissedAt = None\<rparr>"

record WeeklyStats =
  wk_TasksRun :: int
  wk_AIChats :: int
  wk_FilesIndexed :: int
  wk_MostUsedModel :: string
  wk_SavedUSD :: real

text \<open>A chat is its model and, if its file can be read, the number of its messages.\<close>

record PulseEnv =
  pe_nodes :: "NodeInfo list option"
  pe_tasks :: "Task list option"
  pe_speed :: "real option"
  pe_indexed :: "int option"
  pe_chats :: "(string \<times> int option) list option"
  pe_modelOrder :: "string list"
  pe_audit :: "AuditLog option"

datatype PulseEvent = NewInsight Insight | ShieldAlert nat | InsightDismissed string

section \<open>The rules\<close>

definition checkHighRAM :: "time \<Rightarrow> PulseEnv \<Rightarrow> Insight list" where
  "checkHighRAM now env =
     (case pe_nodes env of
        None \<Rightarrow> []
      | Some nodes \<Rightarrow>
          List.map_filter (\<lambda>n.
            if ni_Status n \<noteq> StatusOnline \<or> ni_RAMTotal n = 0 then None
            else let pct = 100 * real (unat (ni_RAMUsed n)) / real (unat (ni_RAMTotal n))
              in if pct > 90 then Some (insight (''high_ram-'' @ ni_ID n) (''High RAM on '' @ ni_Name n)
                  (''RAM usage on '' @ ni_Name n @ '' is at '' @ show_fixed 1 pct @ ''%. Consider closing unused apps or adding another device.'')
                  PriorityWarning [(''Add Device'', ''/devices'')] now)
                else None) nodes)"

definition checkStuckTask :: "time \<Rightarrow> PulseEnv \<Rightarrow> Insight list" where
  "checkStuckTask now env =
     (case pe_tasks env of
        None \<Rightarrow> []
      | Some tasks \<Rightarrow>
          List.map_filter (\<lambda>t.
            case t_StartedAt t of
              None \<Rightarrow> None
            | Some started \<Rightarrow>
                if t_Status t = TaskRunning \<and> now - started > 2 * hour
                then Some (insight (''stuck_task-'' @ t_ID t) (''Task '' @ t_ID t @ '' Might Be Stuck'')
                  (''Task '' @ t_ID t @ '' ('' @ t_Command t @ '') has been running for '' @ show_minutes (round_minute (now - started)) @
                   ''. Consider cancelling if it is stuck.'')
                  PriorityWarning [(''View Tasks'', ''/tasks'')] now)
                else None) tasks)"

definition checkStorageFull :: "time \<Rightarrow> PulseEnv \<Rightarrow> Insight list" where
  "checkStorageFull now env =
     (case pe_nodes env of
        None \<Rightarrow> []
      | Some nodes \<Rightarrow>
          List.map_filter (\<lambda>n.
            if ni_Status n \<noteq> StatusOnline \<or> ni_StorageTotal n = 0 then None
            else let pct = 100 * real (unat (ni_StorageUsed n)) / real (unat (ni_StorageTotal n))
              in if pct > 85 then Some (insight (''storage_full-'' @ ni_ID n) (''Storage Nearly Full on '' @ ni_Name n)
                  (''Shared storage on '' @ ni_Name n @ '' is '' @ show_fixed 1 pct @ ''% full. Consider removing unused files.'')
                  PriorityWarning [(''Manage Storage'', ''/storage'')] now)
                else None) nodes)"

definition checkSlowInference :: "time \<Rightarrow> PulseEnv \<Rightarrow> Insight list" where
  "checkSlowInference now env =
     (case pe_speed env of
        None \<Rightarrow> []
      | Some speed \<Rightarrow>
          if speed > 0 \<and> speed < 1
          then [insight ''slow_inference'' ''Slow local AI inference detected''
            (''Your last local AI generation ran at '' @ show_fixed 1 speed @
             '' tok/s. Consider switching to a quantized variant or adding devices to pool RAM.'')
            PriorityInfo [(''Models Catalog'', ''/models'')] now]
          else [])"

definition checkNodeOfflineLong :: "time \<Rightarrow> PulseEnv \<Rightarrow> Insight list" where
  "checkNodeOfflineLong now env =
     (case pe_nodes env of
        None \<Rightarrow> []
      | Some nodes \<Rightarrow>
          List.map_filter (\<lambda>n.
            if ni_Status n = StatusOffline \<and> ni_LastSeen n \<noteq> zero_time \<and> now - ni_LastSeen n > hour
            then Some (insight (''node_offline_long-'' @ ni_ID n) (''Device '' @ ni_Name n @ '' is offline'')
              (''Device '' @ ni_Name n @ '' has been offline for '' @ show_minutes (round_minute (now - ni_LastSeen n)) @
               ''. Tasks have been re-routed to active nodes.'')
              PriorityInfo [(''View Devices'', ''/devices'')] now)
            else None) nodes)"

text \<open>\<open>pe_modelOrder\<close> is the order in which the counts of the models are ranged over.\<close>

definition model_count :: "(string \<times> int option) list \<Rightarrow> string \<Rightarrow> nat" where
  "model_count chats m = length (filter (\<lambda>c. fst c = m) chats)"

definition most_used :: "string list \<Rightarrow> (string \<times> int option) list \<Rightarrow> string" where
  "most_used order chats =
     snd (foldl (\<lambda>(mx, best) m. if model_count chats m > mx then (model_count chats m, m) else (mx, best)) (0, ''none'') order)"

definition GetWeeklyDigestStats :: "PulseEnv \<Rightarrow> WeeklyStats" where
  "GetWeeklyDigestStats env =
     (let stats = \<lparr>wk_TasksRun = (case pe_tasks env of Some ts \<Rightarrow> int (length ts) | None \<Rightarrow> 0), wk_AIChats = 0,
        wk_FilesIndexed = (case pe_indexed env of Some n \<Rightarrow> n | None \<Rightarrow> 0), wk_MostUsedModel = [], wk_SavedUSD = 0\<rparr>
      in case pe_chats env of
           None \<Rightarrow> stats
         | Some chats \<Rightarrow>
             stats\<lparr>wk_AIChats := int (length chats), wk_MostUsedModel := most_used (pe_modelOrder env) chats,
               wk_SavedUSD := of_int (sum_list (List.map_filter snd chats)) * 400 * (1 / 100000)\<rparr>)"

definition bullet :: string where "bullet = [CHR '' '', CHR 0xE2, CHR 0x80, CHR 0xA2, CHR '' '']"

definition checkWeeklyDigest :: "time \<Rightarrow> PulseEnv \<Rightarrow> Insight list" where
  "checkWeeklyDigest now env =
     (let s = GetWeeklyDigestStats env
      in [insight (''weekly_digest-'' @ show_int (now div second div 604800)) ''Weekly Cluster Digest''
        (''This week on your cluster: '' @ show_int (wk_TasksRun s) @ '' tasks run'' @ bullet @ show_int (wk_AIChats s) @ '' AI chats'' @ bullet @
         show_int (wk_FilesIndexed s) @ '' files indexed. Most used model: '' @ wk_MostUsedModel s @ ''. Saved vs cloud APIs: $'' @
         show_fixed 2 (wk_SavedUSD s) @ ''.'') PriorityInfo [] now])"

text \<open>The only rule that also broadcasts by itself.\<close>

definition checkShieldViolations :: "time \<Rightarrow> PulseEnv \<Rightarrow> Insight list \<times> PulseEvent list" where
  "checkShieldViolations now env =
     (case pe_audit env of
        None \<Rightarrow> ([], [])
      | Some al \<Rightarrow>
          let v24h = ViolationCount now (24 * hour) al; v1h = ViolationCount now hour al
          in if v24h = 0 then ([], [])
             else if v1h > 3
             then ([insight ''shield_alert-high'' ''High Security Risk: Multiple Sandbox Rejections''
                (''Fabric Shield has detected '' @ show_nat v1h @
                 '' sandbox violations/rejections in the last hour. Your system may be under attack.'')
                PriorityAction [(''View Audit Log'', ''/shield'')] now], [ShieldAlert v1h])
             else ([insight ''shield_alert-medium'' ''Security Audit Warning''
                (''Fabric Shield has recorded '' @ show_nat v24h @ '' security events in the last 24 hours. Verify task origins.'')
                PriorityWarning [(''View Audit Log'', ''/shield'')] now], []))"

record PulseRule =
  ru_ID :: string
  ru_Cooldown :: duration
  ru_Check :: "time \<Rightarrow> PulseEnv \<Rightarrow> Insight list \<times> PulseEvent list"

definition silently :: "(time \<Rightarrow> PulseEnv \<Rightarrow> Insight list) \<Rightarrow> time \<Rightarrow> PulseEnv \<Rightarrow> Insight list \<times> PulseEvent list" where
  "silently check now env = (check now env, [])"

definition DefaultRules :: "PulseRule list" where
  "DefaultRules =
    [\<lparr>ru_ID = ''high_ram'', ru_Cooldown = 30 * minute, ru_Check = silently checkHighRAM\<rparr>,
     \<lparr>ru_ID = ''stuck_task'', ru_Cooldown = hour, ru_Check = silently checkStuckTask\<rparr>,
     \<lparr>ru_ID = ''storage_full'', ru_Cooldown = hour, ru_Check = silently checkStorageFull\<rparr>,
     \<lparr>ru_ID = ''slow_inference'', ru_Cooldown = hour, ru_Check = silently checkSlowInference\<rparr>,
     \<lparr>ru_ID = ''node_offline_long'', ru_Cooldown = 30 * minute, ru_Check = silently checkNodeOfflineLong\<rparr>,
     \<lparr>ru_ID = ''weekly_digest'', ru_Cooldown = 7 * 24 * hour, ru_Check = silently checkWeeklyDigest\<rparr>,
     \<lparr>ru_ID = ''shield_violations'', ru_Cooldown = minute, ru_Check = checkShieldViolations\<rparr>]"

section \<open>The manager\<close>

datatype HistoryFile = NoHistory | BadHistory | History "Insight list"

record PulseManager =
  pm_insights :: "Insight list"
  pm_cooldowns :: "string \<rightharpoonup> time"
  pm_broadcast :: bool
  pm_sent :: "PulseEvent list"
  pm_file :: HistoryFile

definition loadHistory :: "PulseManager \<Rightarrow> PulseManager" where
  "loadHistory pm = (case pm_file pm of History hs \<Rightarrow> pm\<lparr>pm_insights := hs\<rparr> | _ \<Rightarrow> pm)"

definition NewPulse :: "bool \<Rightarrow> HistoryFile \<Rightarrow> PulseManager" where
  "NewPulse bc f = loadHistory \<lparr>pm_insights = [], pm_cooldowns = Map.empty, pm_broadcast = bc, pm_sent = [], pm_file = f\<rparr>"

definition saveHistoryLocked :: "bool \<Rightarrow> PulseManager \<Rightarrow> PulseManager" where
  "saveHistoryLocked ok pm = (if ok then pm\<lparr>pm_file := History (pm_insights pm)\<rparr> else pm)"

definition pm_emit :: "PulseEvent list \<Rightarrow> PulseManager \<Rightarrow> PulseManager" where
  "pm_emit es pm = (if pm_broadcast pm then pm\<lparr>pm_sent := pm_sent pm @ es\<rparr> else pm)"

fun find_insight :: "string \<Rightarrow> Insight list \<Rightarrow> nat option" where
  "find_insight iid [] = None"
| "find_insight iid (e # es) = (if ins_ID e = iid then Some 0 else map_option Suc (find_insight iid es))"

definition add_insight :: "PulseManager \<times> bool \<Rightarrow> Insight \<Rightarrow> PulseManager \<times> bool" where
  "add_insight st i =
     (let (pm, triggered) = st
      in case find_insight (ins_ID i) (pm_insights pm) of
           Some k \<Rightarrow>
             (let e = pm_insights pm ! k
              in if ins_Dismissed e then (pm, triggered)
                 else (pm\<lparr>pm_insights := (pm_insights pm)[k := e\<lparr>ins_Title := ins_Title i, ins_Body := ins_Body i, ins_CreatedAt := ins_CreatedAt i\<rparr>]\<rparr>, triggered))
         | None \<Rightarrow> (pm_emit [NewInsight i] (pm\<lparr>pm_insights := pm_insights pm @ [i]\<rparr>), True))"

definition check_rule :: "time \<Rightarrow> bool \<Rightarrow> PulseEnv \<Rightarrow> PulseManager \<Rightarrow> PulseRule \<Rightarrow> PulseManager" where
  "check_rule now ok env pm r =
     (if (case pm_cooldowns pm (ru_ID r) of Some prev \<Rightarrow> now - prev < ru_Cooldown r | None \<Rightarrow> False) then pm
      else
        let (found, events) = ru_Check r now env; pm = pm_emit events pm
        in if found = [] then pm
           else let (pm, triggered) = foldl add_insight (pm, False) found
             in if triggered then saveHistoryLocked ok (pm\<lparr>pm_cooldowns := (pm_cooldowns pm)(ru_ID r \<mapsto> now)\<rparr>) else pm)"

definition CheckRules :: "time \<Rightarrow> bool \<Rightarrow> PulseEnv \<Rightarrow> PulseManager \<Rightarrow> PulseManager" where
  "CheckRules now ok env pm = foldl (check_rule now ok env) pm DefaultRules"

definition GetActiveInsights :: "PulseManager \<Rightarrow> Insight list" where
  "GetActiveInsights pm = filter (\<lambda>i. \<not> ins_Dismissed i) (pm_insights pm)"

definition DismissInsight :: "time \<Rightarrow> bool \<Rightarrow> string \<Rightarrow> PulseManager \<Rightarrow> bool \<times> PulseManager" where
  "DismissInsight now ok iid pm =
     (case find_insight iid (pm_insights pm) of
        None \<Rightarrow> (False, pm)
      | Some k \<Rightarrow>
          (True, pm_emit [InsightDismissed iid] (saveHistoryLocked ok
             (pm\<lparr>pm_insights := (pm_insights pm)[k := (pm_insights pm ! k)\<lparr>ins_Dismissed := True, ins_DismissedAt := Some now\<rparr>]\<rparr>))))"

definition ClearHistory :: "bool \<Rightarrow> PulseManager \<Rightarrow> PulseManager" where
  "ClearHistory ok pm = saveHistoryLocked ok (pm\<lparr>pm_insights := []\<rparr>)"

section \<open>What a round of checks changes\<close>

fun announced :: "PulseEvent list \<Rightarrow> string list" where
  "announced [] = []"
| "announced (NewInsight i # es) = ins_ID i # announced es"
| "announced (ShieldAlert n # es) = announced es"
| "announced (InsightDismissed iid # es) = announced es"

abbreviation pm_ids :: "PulseManager \<Rightarrow> string list" where "pm_ids pm \<equiv> map ins_ID (pm_insights pm)"

definition flags :: "Insight list \<Rightarrow> (string \<times> bool) list" where "flags es = map (\<lambda>i. (ins_ID i, ins_Dismissed i)) es"

definition pulse_inv :: "PulseManager \<Rightarrow> bool" where
  "pulse_inv pm \<longleftrightarrow> distinct (pm_ids pm) \<and> distinct (announced (pm_sent pm)) \<and> set (announced (pm_sent pm)) \<subseteq> set (pm_ids pm)"

definition pulse_le :: "PulseManager \<Rightarrow> PulseManager \<Rightarrow> bool" where
  "pulse_le pm pm' \<longleftrightarrow> set (pm_ids pm) \<subseteq> set (pm_ids pm') \<and>
     (\<forall>iid. (iid, True) \<in> set (flags (pm_insights pm)) \<longrightarrow> (iid, True) \<in> set (flags (pm_insights pm'))) \<and>
     (\<exists>es. pm_sent pm' = pm_sent pm @ es \<and> set (announced es) \<inter> set (pm_ids pm) = {})"

definition saved :: "PulseManager \<Rightarrow> bool" where
  "saved pm \<longleftrightarrow> (case pm_file pm of History hs \<Rightarrow> flags hs = flags (pm_insights pm) | _ \<Rightarrow> pm_insights pm = [])"

lemma pulse_le_refl [simp]: "pulse_le pm pm"
  by (auto simp: pulse_le_def)

lemma announced_append: "announced (es @ fs) = announced es @ announced fs"
  by (induction es rule: announced.induct) simp_all

lemma pulse_le_trans: "pulse_le a b \<Longrightarrow> pulse_le b c \<Longrightarrow> pulse_le a c"
  unfolding pulse_le_def by (fastforce simp: announced_append)

lemma find_insight_Some: "find_insight iid es = Some k \<Longrightarrow> k < length es \<and> ins_ID (es ! k) = iid"
  by (induction es arbitrary: k) (auto split: if_splits)

lemma find_insight_None: "find_insight iid es = None \<longleftrightarrow> iid \<notin> ins_ID ` set es"
  by (induction es) auto

lemma flags_same:
  assumes "k < length es" and "ins_ID e = ins_ID (es ! k)" and "ins_Dismissed e = ins_Dismissed (es ! k)"
  shows "flags (es[k := e]) = flags es" "map ins_ID (es[k := e]) = map ins_ID es"
  using assms by (simp_all add: flags_def map_update list_update_same_conv)

lemma flags_ids: "map fst (flags es) = map ins_ID es"
  by (simp add: flags_def comp_def)

text \<open>One insight: an update changes no flag, a new one has a new identifier.\<close>

lemma add_insight_good:
  assumes "add_insight (pm, tr) i = (pm', tr')" and "pulse_inv pm"
  shows "pulse_inv pm' \<and> pulse_le pm pm' \<and> pm_file pm' = pm_file pm \<and> (tr \<longrightarrow> tr') \<and> (\<not> tr' \<longrightarrow> flags (pm_insights pm') = flags (pm_insights pm))"
proof (cases "find_insight (ins_ID i) (pm_insights pm)")
  case None
  then have new: "ins_ID i \<notin> set (pm_ids pm)" by (simp add: find_insight_None)
  have r: "pm' = pm_emit [NewInsight i] (pm\<lparr>pm_insights := pm_insights pm @ [i]\<rparr>)" "tr'" using assms(1) None by (auto simp: add_insight_def)
  have a: "announced [NewInsight i] = [ins_ID i]" "announced [] = []" by simp_all
  have "pulse_inv pm'" using new assms(2) by (auto simp: r(1) pulse_inv_def pm_emit_def announced_append a)
  moreover have "\<exists>es. pm_sent pm' = pm_sent pm @ es \<and> set (announced es) \<inter> set (pm_ids pm) = {}"
    using new a by (cases "pm_broadcast pm") (auto simp: r(1) pm_emit_def)
  ultimately show ?thesis using r(2) by (auto simp: r(1) pulse_le_def pm_emit_def flags_def)
next
  case (Some k)
  note k = find_insight_Some [OF Some]
  show ?thesis
  proof (cases "ins_Dismissed (pm_insights pm ! k)")
    case True
    then show ?thesis using assms by (simp add: add_insight_def Some)
  next
    case False
    define e where "e = (pm_insights pm ! k)\<lparr>ins_Title := ins_Title i, ins_Body := ins_Body i, ins_CreatedAt := ins_CreatedAt i\<rparr>"
    have r: "pm' = pm\<lparr>pm_insights := (pm_insights pm)[k := e]\<rparr>" "tr' = tr" using assms(1) Some False by (simp_all add: add_insight_def e_def)
    have f: "flags ((pm_insights pm)[k := e]) = flags (pm_insights pm)" "map ins_ID ((pm_insights pm)[k := e]) = pm_ids pm"
      using k by (intro flags_same; simp add: e_def)+
    show ?thesis using assms(2) f by (auto simp: r pulse_inv_def pulse_le_def)
  qed
qed

lemma add_insights_good:
  "foldl add_insight (pm, tr) hs = (pm', tr') \<Longrightarrow> pulse_inv pm \<Longrightarrow>
   pulse_inv pm' \<and> pulse_le pm pm' \<and> pm_file pm' = pm_file pm \<and> (tr \<longrightarrow> tr') \<and> (\<not> tr' \<longrightarrow> flags (pm_insights pm') = flags (pm_insights pm))"
proof (induction hs arbitrary: pm tr)
  case (Cons i hs)
  obtain pm1 tr1 where 1: "add_insight (pm, tr) i = (pm1, tr1)" by fastforce
  note good = add_insight_good [OF 1 Cons.prems(2)]
  then have "pulse_inv pm' \<and> pulse_le pm1 pm' \<and> pm_file pm' = pm_file pm1 \<and> (tr1 \<longrightarrow> tr') \<and> (\<not> tr' \<longrightarrow> flags (pm_insights pm') = flags (pm_insights pm1))"
    using Cons.IH [of pm1 tr1] Cons.prems(1) 1 by simp
  then show ?case using good pulse_le_trans by auto
qed simp

lemma saveHistory_good:
  "pulse_inv (saveHistoryLocked ok pm) = pulse_inv pm" "pulse_le a (saveHistoryLocked ok pm) = pulse_le a pm" "saved (saveHistoryLocked True pm)"
  by (simp_all add: saveHistoryLocked_def pulse_inv_def pulse_le_def saved_def)

lemma emit_good:
  assumes "announced es = []" and "pulse_inv pm" and "saved pm"
  shows "pulse_inv (pm_emit es pm)" "pulse_le pm (pm_emit es pm)" "saved (pm_emit es pm)"
  using assms by (auto simp: pulse_inv_def pulse_le_def saved_def pm_emit_def announced_append split: HistoryFile.splits)

lemma default_silent: "r \<in> set DefaultRules \<Longrightarrow> announced (snd (ru_Check r now env)) = []"
  unfolding DefaultRules_def
  by (auto simp: silently_def checkShieldViolations_def Let_def split: option.split)

lemma check_rule_good:
  assumes "announced (snd (ru_Check r now env)) = []" and "pulse_inv pm" and "saved pm"
  shows "pulse_inv (check_rule now True env pm r) \<and> saved (check_rule now True env pm r) \<and> pulse_le pm (check_rule now True env pm r)"
proof -
  obtain found events where c: "ru_Check r now env = (found, events)" by fastforce
  let ?pm = "pm_emit events pm"
  have e: "pulse_inv ?pm" "pulse_le pm ?pm" "saved ?pm" using emit_good assms c by simp_all
  obtain pm' tr where f: "foldl add_insight (?pm, False) found = (pm', tr)" by fastforce
  note g = add_insights_good [OF f e(1)]
  have t: "pulse_le pm pm'" using g e(2) pulse_le_trans by blast
  have "saved pm'" if "\<not> tr" using g that e(3) by (auto simp: saved_def flags_def split: HistoryFile.splits)
  moreover have "pulse_inv (pm'\<lparr>pm_cooldowns := cd\<rparr>) = pulse_inv pm'" "pulse_le pm (pm'\<lparr>pm_cooldowns := cd\<rparr>) = pulse_le pm pm'" for cd
    by (simp_all add: pulse_inv_def pulse_le_def)
  ultimately show ?thesis using assms(2,3) e g t by (simp add: check_rule_def c f Let_def saveHistory_good)
qed

lemma CheckRules_good:
  assumes "pulse_inv pm" and "saved pm"
  shows "pulse_inv (CheckRules now True env pm) \<and> saved (CheckRules now True env pm) \<and> pulse_le pm (CheckRules now True env pm)"
  unfolding CheckRules_def
proof (rule foldl_invariant [where P = "\<lambda>q. pulse_inv q \<and> saved q \<and> pulse_le pm q"])
  show "pulse_inv (check_rule now True env q r) \<and> saved (check_rule now True env q r) \<and> pulse_le pm (check_rule now True env q r)"
    if "r \<in> set DefaultRules" "pulse_inv q \<and> saved q \<and> pulse_le pm q" for q r
    using check_rule_good [OF default_silent [OF that(1)]] that(2) pulse_le_trans by blast
qed (use assms in simp)

lemma Dismiss_good:
  assumes "pulse_inv pm" and "saved pm"
  shows "pulse_inv (snd (DismissInsight now True iid pm)) \<and> saved (snd (DismissInsight now True iid pm)) \<and>
    pulse_le pm (snd (DismissInsight now True iid pm))"
proof (cases "find_insight iid (pm_insights pm)")
  case (Some k)
  note k = find_insight_Some [OF Some]
  define e where "e = (pm_insights pm ! k)\<lparr>ins_Dismissed := True, ins_DismissedAt := Some now\<rparr>"
  let ?pm = "pm\<lparr>pm_insights := (pm_insights pm)[k := e]\<rparr>"
  have ids: "map ins_ID ((pm_insights pm)[k := e]) = pm_ids pm" using k by (simp add: e_def map_update list_update_same_conv)
  have fl: "(j, True) \<in> set (flags ((pm_insights pm)[k := e]))" if j: "(j, True) \<in> set (flags (pm_insights pm))" for j
  proof -
    obtain x where "x \<in> set (pm_insights pm)" "ins_ID x = j" "ins_Dismissed x" using j by (auto simp: flags_def)
    then obtain n where n: "n < length (pm_insights pm)" "ins_ID (pm_insights pm ! n) = j" "ins_Dismissed (pm_insights pm ! n)"
      by (metis in_set_conv_nth)
    then have "ins_ID ((pm_insights pm)[k := e] ! n) = j \<and> ins_Dismissed ((pm_insights pm)[k := e] ! n)"
      using k by (simp add: nth_list_update e_def)
    then show ?thesis using n(1) nth_mem [of n "(pm_insights pm)[k := e]"] by (force simp: flags_def)
  qed
  have "pulse_inv ?pm" using assms(1) ids by (simp add: pulse_inv_def)
  moreover have "pulse_le pm ?pm" using ids fl by (auto simp: pulse_le_def)
  moreover have a: "announced [InsightDismissed iid] = []" by simp
  ultimately show ?thesis
    using emit_good [OF a, of "saveHistoryLocked True ?pm"] pulse_le_trans [of pm "saveHistoryLocked True ?pm"]
    by (simp add: DismissInsight_def Some e_def [symmetric] saveHistory_good)
qed (use assms in \<open>simp add: DismissInsight_def\<close>)

section \<open>Every history\<close>

inductive pulse_step :: "PulseManager \<Rightarrow> PulseManager \<Rightarrow> bool" where
  ps_check: "pulse_step pm (CheckRules now True env pm)"
| ps_dismiss: "pulse_step pm (snd (DismissInsight now True iid pm))"
| ps_restart: "pulse_step pm ((NewPulse bc (pm_file pm))\<lparr>pm_sent := pm_sent pm\<rparr>)"

lemma restart_flags:
  assumes "saved pm"
  shows "flags (pm_insights (NewPulse bc (pm_file pm))) = flags (pm_insights pm)" "pm_file (NewPulse bc (pm_file pm)) = pm_file pm"
  using assms by (auto simp: saved_def NewPulse_def loadHistory_def split: HistoryFile.splits)

lemma pulse_step_good: "pulse_step pm pm' \<Longrightarrow> pulse_inv pm \<Longrightarrow> saved pm \<Longrightarrow> pulse_inv pm' \<and> saved pm' \<and> pulse_le pm pm'"
proof (induction rule: pulse_step.induct)
  case (ps_restart pm bc)
  note f = restart_flags [OF ps_restart(2)]
  then have "pm_ids (NewPulse bc (pm_file pm)) = pm_ids pm" by (metis flags_ids)
  then show ?case using ps_restart f
    by (auto simp: pulse_inv_def pulse_le_def saved_def split: HistoryFile.splits)
qed (simp_all add: CheckRules_good Dismiss_good)

lemma pulse_steps_good: "pulse_step\<^sup>*\<^sup>* pm pm' \<Longrightarrow> pulse_inv pm \<Longrightarrow> saved pm \<Longrightarrow> pulse_inv pm' \<and> saved pm' \<and> pulse_le pm pm'"
  by (induction rule: rtranclp_induct) (auto dest: pulse_step_good intro: pulse_le_trans)

lemma new_pulse_good: "pulse_inv (NewPulse bc NoHistory)" "saved (NewPulse bc NoHistory)"
  by (simp_all add: pulse_inv_def saved_def NewPulse_def loadHistory_def)

lemma dismissed_inactive:
  assumes "pulse_inv pm" and "(iid, True) \<in> set (flags (pm_insights pm))"
  shows "iid \<notin> ins_ID ` set (GetActiveInsights pm)"
proof
  obtain j where j: "j \<in> set (pm_insights pm)" "ins_ID j = iid" "ins_Dismissed j" using assms(2) by (auto simp: flags_def)
  assume "iid \<in> ins_ID ` set (GetActiveInsights pm)"
  then obtain k where "k \<in> set (pm_insights pm)" "ins_ID k = iid" "\<not> ins_Dismissed k" by (auto simp: GetActiveInsights_def)
  moreover from this have "k = j" using assms(1) j by (auto simp: pulse_inv_def distinct_map dest: inj_onD)
  ultimately show False using j by simp
qed

text \<open>
  However rounds of checks, dismissals and restarts follow each other: every insight has one entry and
  is announced at most once, and what is dismissed stays dismissed and is never announced again.
\<close>

theorem insights_once:
  assumes "pulse_step\<^sup>*\<^sup>* (NewPulse bc NoHistory) pm" and "pulse_step\<^sup>*\<^sup>* pm pm'"
  shows "distinct (pm_ids pm') \<and> distinct (announced (pm_sent pm')) \<and>
    (\<forall>i \<in> set (pm_insights pm). ins_Dismissed i \<longrightarrow>
       ins_ID i \<notin> ins_ID ` set (GetActiveInsights pm') \<and>
       (\<exists>es. pm_sent pm' = pm_sent pm @ es \<and> ins_ID i \<notin> set (announced es)))"
proof -
  have g: "pulse_inv pm" "saved pm" using pulse_steps_good [OF assms(1)] new_pulse_good by simp_all
  note g' = pulse_steps_good [OF assms(2) g]
  have "ins_ID i \<notin> ins_ID ` set (GetActiveInsights pm') \<and> (\<exists>es. pm_sent pm' = pm_sent pm @ es \<and> ins_ID i \<notin> set (announced es))"
    if i: "i \<in> set (pm_insights pm)" "ins_Dismissed i" for i
  proof
    have "(ins_ID i, True) \<in> set (flags (pm_insights pm))" using i by (force simp: flags_def)
    then have "(ins_ID i, True) \<in> set (flags (pm_insights pm'))" using g' unfolding pulse_le_def by blast
    then show "ins_ID i \<notin> ins_ID ` set (GetActiveInsights pm')" using g' dismissed_inactive by blast
    show "\<exists>es. pm_sent pm' = pm_sent pm @ es \<and> ins_ID i \<notin> set (announced es)" using g' i(1) unfolding pulse_le_def by force
  qed
  then show ?thesis using g' by (simp add: pulse_inv_def)
qed

text \<open>An agent without any of the parts the rules look at: the digest appears, and is dismissed.\<close>

definition bare_env :: PulseEnv where
  "bare_env = \<lparr>pe_nodes = None, pe_tasks = None, pe_speed = None, pe_indexed = None, pe_chats = None, pe_modelOrder = [], pe_audit = None\<rparr>"

definition digest :: Insight where "digest = hd (checkWeeklyDigest 0 bare_env)"

definition digest_dismissed :: PulseManager where
  "digest_dismissed = snd (DismissInsight 0 True (ins_ID digest) (CheckRules 0 True bare_env (NewPulse True NoHistory)))"

lemma digest_check: "checkWeeklyDigest 0 bare_env = [digest]"
  by (simp add: digest_def checkWeeklyDigest_def Let_def)

lemma bare_checks:
  "checkHighRAM now bare_env = []" "checkStuckTask now bare_env = []" "checkStorageFull now bare_env = []" "checkSlowInference now bare_env = []"
  "checkNodeOfflineLong now bare_env = []" "checkShieldViolations now bare_env = ([], [])"
  by (simp_all add: bare_env_def checkHighRAM_def checkStuckTask_def checkStorageFull_def checkSlowInference_def checkNodeOfflineLong_def checkShieldViolations_def)

lemma digest_dismissed_eq: "pm_insights digest_dismissed = [digest\<lparr>ins_Dismissed := True, ins_DismissedAt := Some 0\<rparr>]"
proof -
  have "pm_insights (CheckRules 0 True bare_env (NewPulse True NoHistory)) = [digest]"
    by (simp add: CheckRules_def DefaultRules_def check_rule_def silently_def bare_checks digest_check add_insight_def NewPulse_def loadHistory_def pm_emit_def
        saveHistoryLocked_def)
  then show ?thesis by (simp add: digest_dismissed_def DismissInsight_def pm_emit_def saveHistoryLocked_def)
qed

theorem insights_once_witness:
  "\<exists>i \<in> set (pm_insights digest_dismissed). ins_Dismissed i \<and>
    ins_ID i \<notin> ins_ID ` set (GetActiveInsights (CheckRules (8 * 24 * hour) True bare_env digest_dismissed)) \<and>
    (\<exists>es. pm_sent (CheckRules (8 * 24 * hour) True bare_env digest_dismissed) = pm_sent digest_dismissed @ es \<and> ins_ID i \<notin> set (announced es))"
proof -
  have a: "pulse_step\<^sup>*\<^sup>* (NewPulse True NoHistory) digest_dismissed"
    unfolding digest_dismissed_def by (rule rtranclp.rtrancl_into_rtrancl, rule r_into_rtranclp, rule ps_check, rule ps_dismiss)
  have b: "pulse_step\<^sup>*\<^sup>* digest_dismissed (CheckRules (8 * 24 * hour) True bare_env digest_dismissed)"
    by (rule r_into_rtranclp, rule ps_check)
  from insights_once [OF a b] show ?thesis by (simp add: digest_dismissed_eq)
qed

section \<open>What this means for alerts\<close>

text \<open>The identifier of the alert for many rejected commands is fixed: once dismissed it never comes back, whatever happens.\<close>

lemma alert_silenced:
  assumes "pulse_step\<^sup>*\<^sup>* (NewPulse bc NoHistory) pm" and "pulse_step\<^sup>*\<^sup>* pm pm'"
    and "i \<in> set (pm_insights pm)" and "ins_ID i = ''shield_alert-high''" and "ins_Dismissed i"
  shows "\<forall>j \<in> set (GetActiveInsights pm'). ins_ID j \<noteq> ''shield_alert-high''"
proof -
  have g: "pulse_inv pm" "saved pm" using pulse_steps_good [OF assms(1)] new_pulse_good by simp_all
  note g' = pulse_steps_good [OF assms(2) g]
  have "(''shield_alert-high'', True) \<in> set (flags (pm_insights pm))" using assms(3-5) by (force simp: flags_def)
  then have "(''shield_alert-high'', True) \<in> set (flags (pm_insights pm'))" using g' unfolding pulse_le_def by blast
  then have "''shield_alert-high'' \<notin> ins_ID ` set (GetActiveInsights pm')" using g' by (intro dismissed_inactive) simp_all
  then show ?thesis by force
qed

text \<open>An insight that is only updated does not start the cooldown, so the direct alert is broadcast at every round.\<close>

lemma shield_alert_repeats:
  assumes "find_insight ''shield_alert-high'' (pm_insights pm) \<noteq> None" and "pm_broadcast pm" and "pm_cooldowns pm ''shield_violations'' = None"
    and "pe_audit env = Some al" and "ViolationCount now hour al > 3" and "ViolationCount now (24 * hour) al > 0"
  shows "pm_sent (check_rule now ok env pm \<lparr>ru_ID = ''shield_violations'', ru_Cooldown = minute, ru_Check = checkShieldViolations\<rparr>) =
      pm_sent pm @ [ShieldAlert (ViolationCount now hour al)] \<and>
    pm_cooldowns (check_rule now ok env pm \<lparr>ru_ID = ''shield_violations'', ru_Cooldown = minute, ru_Check = checkShieldViolations\<rparr>) ''shield_violations'' = None"
  using assms by (auto simp: check_rule_def checkShieldViolations_def pm_emit_def add_insight_def insight_def Let_def)

text \<open>The digest of a week counts all tasks and chats there are, not those of the week.\<close>

lemma digest_counts_everything:
  "pe_tasks env = Some ts \<Longrightarrow> pe_chats env = Some chats \<Longrightarrow>
   wk_TasksRun (GetWeeklyDigestStats env) = int (length ts) \<and> wk_AIChats (GetWeeklyDigestStats env) = int (length chats)"
  by (simp add: GetWeeklyDigestStats_def)

end
