(* ===== verification/Pipeline.thy ===== *)
theory Pipeline
  imports Cluster
begin

unbundle bit_operations_syntax

text \<open>
  The pipeline from speech to an image (\<open>pipeline/pipeline.go\<close>, \<open>pipeline/stream.go\<close>): the choice of
  the nodes, the three goroutines and the pipes between them, and the reader that cuts audio into
  frames and finds silence. A pipe has no buffer: a write and the read that takes it are one step, and
  a write that nobody reads is no step at all. The streams to the other nodes are arguments: what a
  node sends, and whether its stream ends well.
\<close>

section \<open>Choosing the nodes\<close>

datatype PipeStepType = StepAudioTranscribe | StepLLMPrompt | StepImageGen | OtherStep string

record PipelineStep =
  pl_ID :: string
  pl_Type :: PipeStepType
  pl_NodeID :: string
  pl_ModelName :: string
  pl_PromptTemplate :: string

datatype PipelineError = NotThreeSteps | PreferredOffline string | NoNode PipeStepType

text \<open>\<open>ks\<close> is the order of the nodes, \<open>self\<close> the own identifier.\<close>

definition capable :: "string \<Rightarrow> PipelineStep \<Rightarrow> NodeInfo \<Rightarrow> bool" where
  "capable self step n \<longleftrightarrow>
     (case pl_Type step of OtherStep t \<Rightarrow> False | _ \<Rightarrow> ni_ID n = self \<or> ni_OS n \<noteq> [])"

definition resolveNodeForStep :: "string list \<Rightarrow> Manager \<Rightarrow> string \<Rightarrow> PipelineStep \<Rightarrow> PipelineError + string" where
  "resolveNodeForStep ks cm self step =
     (if pl_NodeID step \<noteq> [] then
        (case Manager_Get (pl_NodeID step) cm of
           Some n \<Rightarrow> if ni_Status n = StatusOnline then Inr (pl_NodeID step) else Inl (PreferredOffline (pl_NodeID step))
         | None \<Rightarrow> Inl (PreferredOffline (pl_NodeID step)))
      else
        (case find (\<lambda>n. ni_Status n = StatusOnline \<and> capable self step n) (Manager_List ks cm) of
           Some n \<Rightarrow> Inr (ni_ID n)
         | None \<Rightarrow> Inl (NoNode (pl_Type step))))"

text \<open>The part of \<open>Run\<close> before the goroutines start: the three nodes.\<close>

definition resolve_pipeline :: "string list \<Rightarrow> Manager \<Rightarrow> string \<Rightarrow> PipelineStep list \<Rightarrow> PipelineError + string \<times> string \<times> string" where
  "resolve_pipeline ks cm self steps =
     (case steps of
        [a, b, c] \<Rightarrow>
          (case resolveNodeForStep ks cm self a of
             Inl e \<Rightarrow> Inl e
           | Inr t \<Rightarrow> (case resolveNodeForStep ks cm self b of
               Inl e \<Rightarrow> Inl e
             | Inr l \<Rightarrow> (case resolveNodeForStep ks cm self c of Inl e \<Rightarrow> Inl e | Inr i \<Rightarrow> Inr (t, l, i))))
      | _ \<Rightarrow> Inl NotThreeSteps)"

text \<open>A node that is chosen is online; what the step needs is not looked at, and neither is the order of the types.\<close>

lemma resolved_online:
  assumes "resolveNodeForStep ks cm self step = Inr nid" and "\<forall>k n. cm_nodes cm k = Some n \<longrightarrow> ni_ID n = k" and "set ks \<subseteq> dom (cm_nodes cm)"
  shows "\<exists>n. cm_nodes cm nid = Some n \<and> ni_Status n = StatusOnline"
proof (cases "pl_NodeID step = []")
  case True
  then obtain n where n: "n \<in> set (Manager_List ks cm)" "ni_Status n = StatusOnline" "ni_ID n = nid"
    using assms(1) by (auto simp: resolveNodeForStep_def find_Some_iff in_set_conv_nth split: option.splits)
  then obtain k where "k \<in> set ks" "n = the (cm_nodes cm k)" by (auto simp: Manager_List_def)
  then have "cm_nodes cm k = Some n" using assms(3) by auto
  then show ?thesis using n assms(2) by metis
next
  case False
  then show ?thesis using assms(1) by (auto simp: resolveNodeForStep_def Manager_Get_def split: option.splits if_splits)
qed

section \<open>The three goroutines\<close>

record PipeEvent =
  ev_Step :: PipeStepType
  ev_Status :: string
  ev_Content :: string

text \<open>
  The transcriber has chunks left to pass on, or has ended. The second stage reads the transcript,
  then reads tokens, then writes the prompt. The third reads the prompt.
\<close>

datatype LStage = LRead string | LStream string "string list" bool | LWrite string | LEnd
datatype IStage = IRead string | IEnd "string option"

record PipeState =
  pst_t :: "string list option"
  pst_l :: LStage
  pst_i :: IStage
  pst_events :: "PipeEvent list"

text \<open>
  The world: the chunks of the transcriber if its stream could be opened, whether that stream ends well,
  whether the identifier of the second node can be decoded, and what that node answers to a transcript.
\<close>

record PipeWorld =
  w_chunks :: "string list option"
  w_chunksEOF :: bool
  w_llmID :: bool
  w_llm :: "string \<Rightarrow> (string list \<times> bool) option"

definition pipe_event :: "PipeStepType \<Rightarrow> string \<Rightarrow> string \<Rightarrow> PipeState \<Rightarrow> PipeState" where
  "pipe_event t status content s = s\<lparr>pst_events := pst_events s @ [\<lparr>ev_Step = t, ev_Status = status, ev_Content = content\<rparr>]\<rparr>"

definition pipe_start :: "PipeWorld \<Rightarrow> PipeState" where
  "pipe_start w = \<lparr>pst_t = w_chunks w, pst_l = (if w_llmID w then LRead [] else LEnd), pst_i = IRead [], pst_events = []\<rparr>"

definition image_path :: string where "image_path = ''generated/Dragon_Cloud_Mock.png''"

inductive pipe_step :: "PipeWorld \<Rightarrow> PipeState \<Rightarrow> PipeState \<Rightarrow> bool" for w where
  st_chunk: "pst_t s = Some (c # cs) \<Longrightarrow> pst_l s = LRead b \<Longrightarrow>
    pipe_step w s (pipe_event StepAudioTranscribe ''streaming'' c (s\<lparr>pst_t := Some cs, pst_l := LRead (b @ c)\<rparr>))"
| st_chunks_end: "pst_t s = Some [] \<Longrightarrow>
    pipe_step w s ((if w_chunksEOF w then pipe_event StepAudioTranscribe ''completed'' [] else id) (s\<lparr>pst_t := None\<rparr>))"
| st_transcript: "pst_t s = None \<Longrightarrow> pst_l s = LRead b \<Longrightarrow>
    pipe_step w s (s\<lparr>pst_l := (if b = [] then LEnd else case w_llm w b of None \<Rightarrow> LEnd | Some (toks, ok) \<Rightarrow> LStream [] toks ok)\<rparr>)"
| st_token: "pst_l s = LStream p (tok # toks) ok \<Longrightarrow>
    pipe_step w s (pipe_event StepLLMPrompt ''streaming'' tok (s\<lparr>pst_l := LStream (p @ tok) toks ok\<rparr>))"
| st_tokens_end: "pst_l s = LStream p [] ok \<Longrightarrow> pipe_step w s (s\<lparr>pst_l := (if ok then LWrite p else LEnd)\<rparr>)"
| st_prompt: "pst_l s = LWrite p \<Longrightarrow> pst_i s = IRead b \<Longrightarrow>
    pipe_step w s (pipe_event StepLLMPrompt ''completed'' p (s\<lparr>pst_l := LEnd, pst_i := IRead (b @ p)\<rparr>))"
| st_image: "pst_l s = LEnd \<Longrightarrow> pst_i s = IRead b \<Longrightarrow>
    pipe_step w s (if b = [] then s\<lparr>pst_i := IEnd None\<rparr>
      else pipe_event StepImageGen ''completed'' image_path
        (pipe_event StepImageGen ''streaming'' ''Generating image via Stable Diffusion...'' (s\<lparr>pst_i := IEnd (Some b)\<rparr>)))"

text \<open>\<open>wg.Wait\<close> returns when the three have ended; \<open>Run\<close> then returns no error whatever has happened.\<close>

definition run_returns :: "PipeState \<Rightarrow> bool" where
  "run_returns s \<longleftrightarrow> pst_t s = None \<and> pst_l s = LEnd \<and> (\<exists>r. pst_i s = IEnd r)"

text \<open>What the remote ends of the streams send, as they are written.\<close>

definition handleAudioStream :: "bool \<Rightarrow> (string list \<times> bool)" where
  "handleAudioStream header = (if header then ([''Draw '', ''a cute '', ''red panda '', ''wearing a hat.''], True) else ([], False))"

definition handleTextStream :: "bool \<Rightarrow> (string list \<times> bool)" where
  "handleTextStream request =
     (if request then ([''A '', ''highly-detailed '', ''digital '', ''painting '', ''of: '', ''a cute '', ''red '', ''panda '', ''wearing '', ''a hat. '',
        ''Vivid '', ''colors, '', ''cinematic '', ''lighting.''], True) else ([], False))"

section \<open>It ends, and with one result\<close>

fun l_weight :: "PipeWorld \<Rightarrow> LStage \<Rightarrow> nat" where
  "l_weight w (LStream p toks ok) = length toks + 2"
| "l_weight w (LWrite p) = 1"
| "l_weight w LEnd = 0"
| "l_weight w (LRead b) = 0"

text \<open>What is left to do once the transcript is known to be \<open>b\<close>.\<close>

definition llm_weight :: "PipeWorld \<Rightarrow> string \<Rightarrow> nat" where
  "llm_weight w b = (case w_llm w b of None \<Rightarrow> 0 | Some (toks, ok) \<Rightarrow> length toks + 2)"

definition pipe_weight :: "PipeWorld \<Rightarrow> PipeState \<Rightarrow> nat" where
  "pipe_weight w s =
     (case pst_t s of None \<Rightarrow> 0 | Some cs \<Rightarrow> length cs + 1) +
     (case pst_l s of LRead b \<Rightarrow> llm_weight w (b @ concat (case pst_t s of None \<Rightarrow> [] | Some cs \<Rightarrow> cs)) + 1 | l \<Rightarrow> l_weight w l) +
     (case pst_i s of IRead b \<Rightarrow> 1 | IEnd r \<Rightarrow> 0)"

lemma pipe_event_simps [simp]:
  "pst_t (pipe_event t st c s) = pst_t s" "pst_l (pipe_event t st c s) = pst_l s" "pst_i (pipe_event t st c s) = pst_i s"
  by (simp_all add: pipe_event_def)

lemma pipe_step_weight: "pipe_step w s s' \<Longrightarrow> pipe_weight w s' < pipe_weight w s"
  by (induction rule: pipe_step.induct) (auto simp: pipe_weight_def llm_weight_def split: option.split if_splits)

text \<open>The transcriber only lives while the second stage reads, and the third stage reads until the second has ended.\<close>

definition pipe_ok :: "PipeState \<Rightarrow> bool" where
  "pipe_ok s \<longleftrightarrow> (pst_t s \<noteq> None \<longrightarrow> (\<exists>b. pst_l s = LRead b)) \<and> (pst_l s \<noteq> LEnd \<longrightarrow> (\<exists>b. pst_i s = IRead b))"

lemma pipe_step_ok: "pipe_step w s s' \<Longrightarrow> pipe_ok s \<Longrightarrow> pipe_ok s'"
  by (induction rule: pipe_step.induct) (auto simp: pipe_ok_def split: if_splits option.splits)

lemma pipe_progress: "pipe_ok s \<Longrightarrow> \<not> run_returns s \<Longrightarrow> \<exists>s'. pipe_step w s s'"
proof -
  assume ok: "pipe_ok s" and nr: "\<not> run_returns s"
  show ?thesis
  proof (cases "pst_t s")
    case (Some cs)
    then obtain b where "pst_l s = LRead b" using ok by (auto simp: pipe_ok_def)
    then show ?thesis using Some by (cases cs) (blast intro: pipe_step.intros)+
  next
    case None
    then show ?thesis
      using ok nr by (cases "pst_l s"; cases "pst_i s") (auto simp: pipe_ok_def run_returns_def intro: pipe_step.intros,
        (metis neq_Nil_conv pipe_step.intros)+)
  qed
qed

definition transcript :: "PipeWorld \<Rightarrow> string" where
  "transcript w = (case w_chunks w of None \<Rightarrow> [] | Some cs \<Rightarrow> concat cs)"

text \<open>The prompt the image is made from, if the pipeline gets that far.\<close>

definition pipe_result :: "PipeWorld \<Rightarrow> string option" where
  "pipe_result w =
     (if transcript w = [] then None
      else case w_llm w (transcript w) of
        None \<Rightarrow> None
      | Some (toks, ok) \<Rightarrow> if ok \<and> concat toks \<noteq> [] then Some (concat toks) else None)"

definition pipe_inv :: "PipeWorld \<Rightarrow> PipeState \<Rightarrow> bool" where
  "pipe_inv w s \<longleftrightarrow>
     (case pst_l s of
        LRead b \<Rightarrow> b @ concat (case pst_t s of None \<Rightarrow> [] | Some cs \<Rightarrow> cs) = transcript w \<and> pst_i s = IRead []
      | LStream p toks ok \<Rightarrow> pst_t s = None \<and> pst_i s = IRead [] \<and> transcript w \<noteq> [] \<and>
          (\<exists>ts. w_llm w (transcript w) = Some (ts, ok) \<and> concat ts = p @ concat toks)
      | LWrite p \<Rightarrow> pst_t s = None \<and> pst_i s = IRead [] \<and> transcript w \<noteq> [] \<and> (\<exists>ts. w_llm w (transcript w) = Some (ts, True) \<and> concat ts = p)
      | LEnd \<Rightarrow> pst_t s = None \<and> (pst_i s = IRead (case pipe_result w of None \<Rightarrow> [] | Some p \<Rightarrow> p) \<or> pst_i s = IEnd (pipe_result w)))"

lemma pipe_inv_start: "w_llmID w \<Longrightarrow> pipe_inv w (pipe_start w)"
  by (simp add: pipe_inv_def pipe_start_def transcript_def split: option.split)

lemma pipe_result_not_Nil: "pipe_result w \<noteq> Some []"
  by (auto simp: pipe_result_def split: option.splits prod.splits if_splits)

lemma pipe_step_inv: "pipe_step w s s' \<Longrightarrow> pipe_inv w s \<Longrightarrow> pipe_inv w s'"
proof (induction rule: pipe_step.induct)
  case (st_transcript s b)
  then show ?case by (auto simp: pipe_inv_def pipe_result_def split: option.splits)
next
  case (st_tokens_end s p ok)
  then show ?case by (auto simp: pipe_inv_def pipe_result_def split: option.splits)
next
  case (st_prompt s p b)
  then show ?case by (auto simp: pipe_inv_def pipe_result_def split: option.splits)
next
  case (st_image s b)
  then show ?case using pipe_result_not_Nil [of w] by (auto simp: pipe_inv_def split: option.splits)
qed (auto simp: pipe_inv_def split: LStage.splits)

lemma pipe_inv_ok: "pipe_inv w s \<Longrightarrow> pipe_ok s"
  by (auto simp: pipe_inv_def pipe_ok_def split: LStage.splits)

lemma pipe_steps:
  "(pipe_step w ^^ n) s s' \<Longrightarrow> pipe_inv w s \<Longrightarrow> pipe_inv w s' \<and> n + pipe_weight w s' \<le> pipe_weight w s"
proof (induction n arbitrary: s')
  case (Suc n)
  then obtain t where "(pipe_step w ^^ n) s t" "pipe_step w t s'" by auto
  then show ?case using Suc pipe_step_inv pipe_step_weight by fastforce
qed simp

text \<open>
  If the identifier of the second node can be decoded, every run of the three goroutines ends, however
  the streams fail: there is always a step until all have ended, the number of steps is bounded, and the
  prompt that reaches the third stage does not depend on the interleaving.
\<close>

theorem pipeline_returns:
  assumes "w_llmID w" and "(pipe_step w ^^ n) (pipe_start w) s"
  shows "n \<le> pipe_weight w (pipe_start w) \<and> (run_returns s \<longrightarrow> pst_i s = IEnd (pipe_result w)) \<and>
    (\<not> run_returns s \<longrightarrow> (\<exists>s'. pipe_step w s s'))"
proof -
  have i: "pipe_inv w s" "n + pipe_weight w s \<le> pipe_weight w (pipe_start w)" using pipe_steps [OF assms(2) pipe_inv_start [OF assms(1)]] by simp_all
  then show ?thesis using pipe_progress [OF pipe_inv_ok [OF i(1)]] by (auto simp: pipe_inv_def run_returns_def)
qed

definition demo_world :: PipeWorld where
  "demo_world = \<lparr>w_chunks = Some (fst (handleAudioStream True)), w_chunksEOF = True, w_llmID = True, w_llm = (\<lambda>t. Some (handleTextStream True))\<rparr>"

theorem pipeline_returns_witness:
  "0 \<le> pipe_weight demo_world (pipe_start demo_world) \<and>
   (run_returns (pipe_start demo_world) \<longrightarrow> pst_i (pipe_start demo_world) = IEnd (pipe_result demo_world)) \<and>
   (\<not> run_returns (pipe_start demo_world) \<longrightarrow> (\<exists>s'. pipe_step demo_world (pipe_start demo_world) s'))"
  by (rule pipeline_returns) (simp_all add: demo_world_def)

lemma demo_result: "pipe_result demo_world = Some ''A highly-detailed digital painting of: a cute red panda wearing a hat. Vivid colors, cinematic lighting.''"
  by (simp add: pipe_result_def demo_world_def transcript_def handleAudioStream_def handleTextStream_def)

text \<open>
  If it cannot be decoded, the second goroutine ends without reading, nobody closes the reading end of
  the pipe, and the first chunk of the transcript is never taken: \<open>Run\<close> does not return.
\<close>

lemma stuck_step: "pipe_step w s s' \<Longrightarrow> pst_l s = LEnd \<Longrightarrow> pst_t s = Some (c # cs) \<Longrightarrow> pst_l s' = LEnd \<and> pst_t s' = Some (c # cs)"
  by (induction rule: pipe_step.induct) auto

theorem pipeline_hangs:
  assumes "\<not> w_llmID w" and "w_chunks w = Some (c # cs)" and "(pipe_step w)\<^sup>*\<^sup>* (pipe_start w) s"
  shows "\<not> run_returns s"
proof -
  have "pst_l s = LEnd \<and> pst_t s = Some (c # cs)"
    using assms(3) by (induction rule: rtranclp_induct) (use assms(1,2) stuck_step in \<open>auto simp: pipe_start_def\<close>)
  then show ?thesis by (simp add: run_returns_def)
qed

section \<open>Frames and silence\<close>

definition sample_16 :: "8 word \<Rightarrow> 8 word \<Rightarrow> int" where
  "sample_16 lo hi = sint ((ucast lo :: 16 word) OR push_bit 8 (ucast hi))"

fun samples_16 :: "8 word list \<Rightarrow> real list" where
  "samples_16 (lo # hi # bs) = real_of_int (sample_16 lo hi) / 32768 # samples_16 bs"
| "samples_16 bs = []"

definition samples :: "nat \<Rightarrow> 8 word list \<Rightarrow> real list" where
  "samples bitDepth bs = (if bitDepth = 16 then samples_16 bs else map (\<lambda>b. (real (unat b) - 128) / 128) bs)"

definition calculateRMSRawPCM :: "8 word list \<Rightarrow> nat \<Rightarrow> real" where
  "calculateRMSRawPCM bs bitDepth =
     (let xs = samples bitDepth bs in if xs = [] then 0 else sqrt (sum_list (map (\<lambda>x. x * x) xs) / real (length xs)))"

record AudioStreamReader =
  as_sampleRate :: nat
  as_bitDepth :: nat
  as_channels :: nat
  as_silenceDur :: duration
  as_energyThresh :: real

definition NewAudioStreamReader :: "nat \<Rightarrow> nat \<Rightarrow> nat \<Rightarrow> duration \<Rightarrow> AudioStreamReader" where
  "NewAudioStreamReader rate depth channels silence =
     \<lparr>as_sampleRate = rate, as_bitDepth = depth, as_channels = channels, as_silenceDur = silence, as_energyThresh = 1 / 20\<rparr>"

definition SetEnergyThreshold :: "real \<Rightarrow> AudioStreamReader \<Rightarrow> AudioStreamReader" where
  "SetEnergyThreshold thresh asr = asr\<lparr>as_energyThresh := thresh\<rparr>"

definition frameSize :: "AudioStreamReader \<Rightarrow> nat" where
  "frameSize asr = as_sampleRate asr * (as_bitDepth asr div 8) * as_channels asr div 10"

definition next_silence :: "AudioStreamReader \<Rightarrow> duration \<Rightarrow> 8 word list \<Rightarrow> duration" where
  "next_silence asr accum frame =
     (if calculateRMSRawPCM frame (as_bitDepth asr) < as_energyThresh asr then accum + 100 * millisecond else 0)"

text \<open>The calls of the callback. A frame of no bytes is always read, so the loop may not end.\<close>

partial_function (option) read_chunks :: "AudioStreamReader \<Rightarrow> duration \<Rightarrow> 8 word list \<Rightarrow> (8 word list \<times> bool) list option" where
  "read_chunks asr accum bs =
     (if length bs < frameSize asr then Some []
      else
        let frame = take (frameSize asr) bs; accum = next_silence asr accum frame; complete = (accum \<ge> as_silenceDur asr)
        in Option.bind (read_chunks asr (if complete then 0 else accum) (drop (frameSize asr) bs)) (\<lambda>r. Some ((frame, complete) # r)))"

definition ReadChunks :: "AudioStreamReader \<Rightarrow> 8 word list \<Rightarrow> (8 word list \<times> bool) list option" where
  "ReadChunks asr bs = read_chunks asr 0 bs"

text \<open>The energy of a frame lies between silence and full scale.\<close>

lemma sample_16_range: "- 1 \<le> real_of_int (sample_16 lo hi) / 32768 \<and> real_of_int (sample_16 lo hi) / 32768 \<le> 1"
proof -
  have "- (2 ^ 15) \<le> sample_16 lo hi" "sample_16 lo hi \<le> 2 ^ 15"
    using sint_ge [of "(ucast lo :: 16 word) OR push_bit 8 (ucast hi)"] sint_lt [of "(ucast lo :: 16 word) OR push_bit 8 (ucast hi)"]
    unfolding sample_16_def by simp_all
  then have "real_of_int (- (2 ^ 15)) \<le> real_of_int (sample_16 lo hi)" "real_of_int (sample_16 lo hi) \<le> real_of_int (2 ^ 15)"
    by (simp_all only: of_int_le_iff)
  then show ?thesis by simp
qed

lemma samples_range: "x \<in> set (samples bitDepth bs) \<Longrightarrow> - 1 \<le> x \<and> x \<le> 1"
proof (cases "bitDepth = 16")
  case True
  have "x \<in> set (samples_16 bs) \<Longrightarrow> - 1 \<le> x \<and> x \<le> 1"
  proof (induction bs rule: samples_16.induct)
    case (1 lo hi bs)
    then show ?case using sample_16_range [of lo hi] by (simp only: samples_16.simps list.set) blast
  qed simp_all
  then show "x \<in> set (samples bitDepth bs) \<Longrightarrow> ?thesis" using True by (simp add: samples_def)
next
  case False
  have "real (unat b) \<le> 255 \<and> 0 \<le> real (unat b)" for b :: "8 word"
  proof -
    have "unat b < 2 ^ 8" using unsigned_less [of b, where ?'a = nat] by simp
    then have "unat b \<le> 255" by simp
    then have "real (unat b) \<le> real 255" by (simp only: of_nat_le_iff)
    moreover have "0 \<le> real (unat b)" by (rule of_nat_0_le_iff)
    ultimately show ?thesis by (simp only: of_nat_numeral)
  qed
  note byte = this
  assume "x \<in> set (samples bitDepth bs)"
  then have "x \<in> (\<lambda>b. (real (unat b) - 128) / 128) ` set bs" using False by (simp only: samples_def if_False set_map)
  then obtain b :: "8 word" where "x = (real (unat b) - 128) / 128" by blast
  then show ?thesis using byte [of b] by (simp add: field_simps del: of_nat_unat)
qed

lemma rms_range: "0 \<le> calculateRMSRawPCM bs bitDepth \<and> calculateRMSRawPCM bs bitDepth \<le> 1"
proof (cases "samples bitDepth bs = []")
  case False
  let ?xs = "samples bitDepth bs"
  have sq: "0 \<le> x * x \<and> x * x \<le> 1" if "x \<in> set ?xs" for x using samples_range [OF that] by (simp add: abs_square_le_1 abs_le_iff flip: power2_eq_square)
  have "0 \<le> sum_list (map (\<lambda>x. x * x) ?xs)" using sq by (intro sum_list_nonneg) auto
  moreover have "sum_list (map (\<lambda>x. x * x) ?xs) \<le> sum_list (map (\<lambda>x. 1) ?xs)" using sq by (intro sum_list_mono) auto
  ultimately show ?thesis using False by (simp add: calculateRMSRawPCM_def Let_def sum_list_triv divide_le_eq_1)
qed (simp add: calculateRMSRawPCM_def)

text \<open>Only whole frames are passed on, in order: what is left at the end of the stream is dropped.\<close>

lemma read_chunks_frames:
  assumes "0 < frameSize asr"
  shows "\<exists>r. read_chunks asr accum bs = Some r \<and> length r = length bs div frameSize asr \<and>
    concat (map fst r) = take (frameSize asr * (length bs div frameSize asr)) bs"
proof (induction "length bs" arbitrary: bs accum rule: less_induct)
  case less
  let ?n = "frameSize asr"
  show ?case
  proof (cases "length bs < ?n")
    case True
    then show ?thesis by (subst read_chunks.simps) simp
  next
    case False
    then have d: "length bs div ?n = Suc (length (drop ?n bs) div ?n)" using assms by (simp add: le_div_geq)
    let ?a = "next_silence asr accum (take ?n bs)"
    obtain r where r: "read_chunks asr (if ?a \<ge> as_silenceDur asr then 0 else ?a) (drop ?n bs) = Some r"
      "length r = length (drop ?n bs) div ?n" "concat (map fst r) = take (?n * (length (drop ?n bs) div ?n)) (drop ?n bs)"
      using less [of "drop ?n bs"] False assms by fastforce
    have "take ?n bs @ take (?n * (length (drop ?n bs) div ?n)) (drop ?n bs) = take (?n * (length bs div ?n)) bs"
      unfolding d by (simp only: mult_Suc_right take_add)
    then show ?thesis using False r d by (subst read_chunks.simps) (simp add: Let_def del: length_drop)
  qed
qed

text \<open>With less than ten samples a second, or less than eight bits, the frame is empty and the loop never ends.\<close>

lemma empty_frame_hangs:
  assumes "frameSize asr = 0"
  shows "read_chunks asr accum bs = None"
proof -
  have "read_chunks asr' a b = Some r \<Longrightarrow> frameSize asr' \<noteq> 0" for asr' a b r
  proof (rule read_chunks.raw_induct [where P = "\<lambda>asr' a b r. frameSize asr' \<noteq> 0"])
    show "frameSize asr' \<noteq> 0" if "\<And>asr' a b r. f asr' a b = Some r \<Longrightarrow> frameSize asr' \<noteq> 0" and
      "(if length b < frameSize asr' then Some []
        else let frame = take (frameSize asr') b; a = next_silence asr' a frame; complete = as_silenceDur asr' \<le> a
          in Option.bind (f asr' (if complete then 0 else a) (drop (frameSize asr') b)) (\<lambda>r. Some ((frame, complete) # r))) = Some r"
      for f asr' a b r
      using that by (auto simp: Let_def bind_eq_Some_conv split: if_splits)
  qed
  from this [of asr accum bs] show ?thesis using assms by (cases "read_chunks asr accum bs") auto
qed

text \<open>A segment is complete only after as many silent frames in a row as the silence is long.\<close>

definition silent_frame :: "AudioStreamReader \<Rightarrow> 8 word list \<Rightarrow> bool" where
  "silent_frame asr frame \<longleftrightarrow> calculateRMSRawPCM frame (as_bitDepth asr) < as_energyThresh asr"

lemma complete_after_silence:
  assumes "0 < frameSize asr" and "0 < as_silenceDur asr" and "read_chunks asr (int j * (100 * millisecond)) bs = Some r" and "i < length r" and "snd (r ! i)"
  shows "\<exists>m \<le> i + 1 + j. as_silenceDur asr \<le> int m * (100 * millisecond) \<and> (\<forall>k \<le> i. i < k + m \<longrightarrow> silent_frame asr (fst (r ! k)))"
  using assms(3-5)
proof (induction "length bs" arbitrary: bs j r i rule: less_induct)
  case less
  let ?n = "frameSize asr" and ?s = "100 * millisecond :: int"
  have big: "\<not> length bs < ?n"
  proof
    assume "length bs < ?n"
    then show False using less.prems(1,2) by (subst (asm) read_chunks.simps) simp
  qed
  define f where "f = take ?n bs"
  define j' where "j' = (if silent_frame asr f then j + 1 else 0)"
  have acc: "next_silence asr (int j * ?s) f = int j' * ?s" by (simp add: next_silence_def silent_frame_def j'_def algebra_simps)
  define c where "c = (int j' * ?s \<ge> as_silenceDur asr)"
  obtain rest where rest: "read_chunks asr (if c then 0 else int j' * ?s) (drop ?n bs) = Some rest" "r = (f, c) # rest"
    using less.prems(1) big acc by (subst (asm) read_chunks.simps) (auto simp: Let_def f_def c_def bind_eq_Some_conv split: if_splits)
  show ?case
  proof (cases i)
    case 0
    then have c "silent_frame asr f" using less.prems(3) rest(2) assms(2) by (auto simp: c_def j'_def split: if_splits)
    then show ?thesis using 0 rest(2) by (intro exI [of _ j']) (auto simp: c_def j'_def)
  next
    case (Suc k)
    define j2 where "j2 = (if c then 0 else j')"
    have "read_chunks asr (int j2 * ?s) (drop ?n bs) = Some rest" using rest(1) by (simp add: j2_def split: if_splits)
    moreover have "length (drop ?n bs) < length bs" using big assms(1) by simp
    moreover have "k < length rest" "snd (rest ! k)" using less.prems(2,3) rest(2) Suc by simp_all
    ultimately obtain m where m: "m \<le> k + 1 + j2" "as_silenceDur asr \<le> int m * ?s"
      "\<forall>l \<le> k. k < l + m \<longrightarrow> silent_frame asr (fst (rest ! l))"
      using less.hyps [of "drop ?n bs" j2 rest k] by blast
    have "silent_frame asr (fst (r ! l))" if "l \<le> i" "i < l + m" for l
    proof (cases l)
      case 0
      then have "0 < j2" using that m(1) Suc by linarith
      then show ?thesis using 0 rest(2) by (auto simp: j2_def j'_def split: if_splits)
    next
      case (Suc l')
      then show ?thesis using m(3) that \<open>i = Suc k\<close> rest(2) by simp
    qed
    moreover have "m \<le> i + 1 + j" using m(1) Suc by (auto simp: j2_def j'_def split: if_splits)
    ultimately show ?thesis using m(2) by blast
  qed
qed

end
