(* ===== verification/Sched_Confine.thy ===== *)
theory Sched_Confine
  imports Sched_Admission
begin

text \<open>
  The confinement of a task process: the program for the system call filter of Linux
  (\<open>seccomp_linux.go\<close>), the limits and control groups (\<open>limits_linux.go\<close>), and the shell of Windows
  (\<open>sysprocattr_windows.go\<close>). The numbers of the system calls and of the architecture belong to the
  package \<open>unix\<close> and are arguments. The machine that runs a filter belongs to the kernel: the
  properties hold for every machine with its three documented instructions.
\<close>

section \<open>The filter\<close>

record bpfInstruction =
  bpf_code :: "16 word"
  bpf_jt :: "8 word"
  bpf_jf :: "8 word"
  bpf_k :: "32 word"

definition insn :: "16 word \<Rightarrow> 32 word \<Rightarrow> bpfInstruction" where "insn c k = \<lparr>bpf_code = c, bpf_jt = 0, bpf_jf = 0, bpf_k = k\<rparr>"

definition bpfRetKillProcess :: "32 word" where "bpfRetKillProcess = 0x80000000"

definition bpfRetAllow :: "32 word" where "bpfRetAllow = 0x7FFF0000"

text \<open>The names after \<open>unix.SYS_\<close>; \<open>sysno\<close> gives their numbers.\<close>

definition syscall_names :: "string list" where
  "syscall_names =
    [''READ'', ''WRITE'', ''OPEN'', ''CLOSE'', ''STAT'', ''FSTAT'', ''LSTAT'', ''POLL'', ''LSEEK'', ''MMAP'', ''MPROTECT'', ''MUNMAP'', ''BRK'',
     ''RT_SIGACTION'', ''RT_SIGPROCMASK'', ''RT_SIGRETURN'', ''IOCTL'', ''PREAD64'', ''PWRITE64'', ''READV'', ''WRITEV'', ''ACCESS'', ''PIPE'',
     ''SELECT'', ''SCHED_YIELD'', ''MREMAP'', ''MSYNC'', ''MINCORE'', ''MADVISE'', ''SHMGET'', ''SHMAT'', ''SHMCTL'', ''DUP'', ''DUP2'', ''PAUSE'',
     ''NANOSLEEP'', ''GETITIMER'', ''ALARM'', ''SETITIMER'', ''GETPID'', ''SENDFILE'', ''SOCKET'', ''CONNECT'', ''ACCEPT'', ''SENDTO'', ''RECVFROM'',
     ''SENDMSG'', ''RECVMSG'', ''SHUTDOWN'', ''BIND'', ''LISTEN'', ''GETSOCKNAME'', ''GETPEERNAME'', ''SOCKETPAIR'', ''SETSOCKOPT'', ''GETSOCKOPT'',
     ''CLONE'', ''FORK'', ''VFORK'', ''EXECVE'', ''EXIT'', ''WAIT4'', ''KILL'', ''UNAME'', ''SEMGET'', ''SEMOP'', ''SEMCTL'', ''SHMDT'', ''MSGGET'',
     ''MSGSND'', ''MSGRCV'', ''MSGCTL'', ''FCNTL'', ''FLOCK'', ''FSYNC'', ''FDATASYNC'', ''TRUNCATE'', ''FTRUNCATE'', ''GETDENTS'', ''GETCWD'',
     ''CHDIR'', ''FCHDIR'', ''RENAME'', ''MKDIR'', ''RMDIR'', ''CREAT'', ''LINK'', ''UNLINK'', ''SYMLINK'', ''READLINK'', ''CHMOD'', ''FCHMOD'',
     ''CHOWN'', ''FCHOWN'', ''LCHOWN'', ''UMASK'', ''GETTIMEOFDAY'', ''GETRLIMIT'', ''GETRUSAGE'', ''SYSINFO'', ''TIMES'', ''GETUID'', ''GETGID'',
     ''SETUID'', ''SETGID'', ''GETEUID'', ''GETEGID'', ''SETPGID'', ''GETPPID'', ''GETPGRP'', ''SETSID'', ''SETREUID'', ''SETREGID'', ''GETGROUPS'',
     ''SETGROUPS'', ''SETRESUID'', ''GETRESUID'', ''SETRESGID'', ''GETRESGID'', ''GETPGID'', ''SETFSUID'', ''SETFSGID'', ''GETSID'', ''CAPGET'',
     ''CAPSET'', ''RT_SIGPENDING'', ''RT_SIGTIMEDWAIT'', ''RT_SIGQUEUEINFO'', ''RT_SIGSUSPEND'', ''SIGALTSTACK'', ''UTIME'', ''MKNOD'',
     ''PERSONALITY'', ''USTAT'', ''STATFS'', ''FSTATFS'', ''GETPRIORITY'', ''SETPRIORITY'', ''SCHED_SETPARAM'', ''SCHED_GETPARAM'',
     ''SCHED_SETSCHEDULER'', ''SCHED_GETSCHEDULER'', ''SCHED_GET_PRIORITY_MAX'', ''SCHED_GET_PRIORITY_MIN'', ''SCHED_RR_GET_INTERVAL'', ''MLOCK'',
     ''MUNLOCK'', ''MLOCKALL'', ''MUNLOCKALL'', ''VHANGUP'', ''PRCTL'', ''ARCH_PRCTL'', ''SETRLIMIT'', ''SYNC'', ''GETTID'', ''READAHEAD'',
     ''SETXATTR'', ''LSETXATTR'', ''FSETXATTR'', ''GETXATTR'', ''LGETXATTR'', ''FGETXATTR'', ''LISTXATTR'', ''LLISTXATTR'', ''FLISTXATTR'',
     ''REMOVEXATTR'', ''LREMOVEXATTR'', ''FREMOVEXATTR'', ''TKILL'', ''FUTEX'', ''SCHED_SETAFFINITY'', ''SCHED_GETAFFINITY'', ''IO_SETUP'',
     ''IO_DESTROY'', ''IO_GETEVENTS'', ''IO_SUBMIT'', ''IO_CANCEL'', ''EPOLL_CREATE'', ''GETDENTS64'', ''SET_TID_ADDRESS'', ''SEMTIMEDOP'',
     ''FADVISE64'', ''TIMER_CREATE'', ''TIMER_SETTIME'', ''TIMER_GETTIME'', ''TIMER_GETOVERRUN'', ''TIMER_DELETE'', ''CLOCK_GETTIME'',
     ''CLOCK_GETRES'', ''CLOCK_NANOSLEEP'', ''EXIT_GROUP'', ''EPOLL_WAIT'', ''EPOLL_CTL'', ''TGKILL'', ''UTIMES'', ''MBIND'', ''SET_MEMPOLICY'',
     ''GET_MEMPOLICY'', ''MQ_OPEN'', ''MQ_UNLINK'', ''MQ_TIMEDSEND'', ''MQ_TIMEDRECEIVE'', ''MQ_NOTIFY'', ''MQ_GETSETATTR'', ''WAITID'',
     ''INOTIFY_INIT'', ''INOTIFY_ADD_WATCH'', ''INOTIFY_RM_WATCH'', ''MIGRATE_PAGES'', ''OPENAT'', ''MKDIRAT'', ''MKNODAT'', ''FCHOWNAT'',
     ''FUTIMESAT'', ''NEWFSTATAT'', ''UNLINKAT'', ''RENAMEAT'', ''LINKAT'', ''SYMLINKAT'', ''READLINKAT'', ''FCHMODAT'', ''FACCESSAT'', ''PSELECT6'',
     ''PPOLL'', ''SET_ROBUST_LIST'', ''GET_ROBUST_LIST'', ''SPLICE'', ''TEE'', ''SYNC_FILE_RANGE'', ''VMSPLICE'', ''MOVE_PAGES'', ''UTIMENSAT'',
     ''EPOLL_PWAIT'', ''SIGNALFD'', ''TIMERFD_CREATE'', ''EVENTFD'', ''FALLOCATE'', ''TIMERFD_SETTIME'', ''TIMERFD_GETTIME'', ''ACCEPT4'',
     ''SIGNALFD4'', ''EVENTFD2'', ''EPOLL_CREATE1'', ''DUP3'', ''PIPE2'', ''INOTIFY_INIT1'', ''PREADV'', ''PWRITEV'', ''RT_TGSIGQUEUEINFO'',
     ''RECVMMSG'', ''FANOTIFY_INIT'', ''FANOTIFY_MARK'', ''PRLIMIT64'', ''NAME_TO_HANDLE_AT'', ''CLOCK_ADJTIME'', ''SYNCFS'', ''SENDMMSG'',
     ''GETCPU'', ''PROCESS_VM_READV'', ''SECCOMP'', ''GETRANDOM'', ''MEMFD_CREATE'', ''EXECVEAT'', ''MLOCK2'', ''COPY_FILE_RANGE'', ''PREADV2'',
     ''PWRITEV2'', ''STATX'', ''RSEQ'']"

definition allowedSyscalls :: "(string \<Rightarrow> 32 word) \<Rightarrow> 32 word list" where
  "allowedSyscalls sysno = map sysno syscall_names"

text \<open>
  \<open>order\<close> is the order in which the set of allowed numbers is ranged over, \<open>arch\<close> the number of the
  architecture. \<open>uint8\<close> keeps the last eight bits of an offset.
\<close>

definition seccomp_insns :: "32 word \<Rightarrow> 32 word list \<Rightarrow> bpfInstruction list" where
  "seccomp_insns arch order =
     (let insns = [insn 0x20 4]; archCheckIdx = length insns;
          insns = insns @ [insn 0x15 arch] @ [insn 0x20 0];
          first = length insns;
          insns = insns @ map (insn 0x15) order;
          insns = insns @ [insn 0x06 bpfRetKillProcess];
          allowIdx = length insns;
          insns = insns @ [insn 0x06 bpfRetAllow];
          insns = foldl (\<lambda>p idx. p[idx := (p ! idx)\<lparr>bpf_jt := of_nat (allowIdx - idx - 1)\<rparr>]) insns [first..<first + length order]
      in insns[archCheckIdx := (insns ! archCheckIdx)\<lparr>bpf_jf := of_nat (allowIdx - archCheckIdx - 1)\<rparr>])"

definition encode_insn :: "bpfInstruction \<Rightarrow> 8 word list" where
  "encode_insn i =
     [ucast (bpf_code i), ucast (drop_bit 8 (bpf_code i)), bpf_jt i, bpf_jf i,
      ucast (bpf_k i), ucast (drop_bit 8 (bpf_k i)), ucast (drop_bit 16 (bpf_k i)), ucast (drop_bit 24 (bpf_k i))]"

text \<open>The bytes, unless the program is too long.\<close>

definition buildSeccompFilter :: "32 word \<Rightarrow> 32 word list \<Rightarrow> 8 word list option" where
  "buildSeccompFilter arch order =
     (let insns = seccomp_insns arch order in if length insns > 0xFFFF then None else Some (concat (map encode_insn insns)))"

definition seccompFilterSize :: "8 word list \<Rightarrow> 16 word" where "seccompFilterSize filter_bytes = of_nat (length filter_bytes div 8)"

text \<open>
  A machine takes a program, the data of a call, a position and the accumulator. It loads a word of the
  data, jumps on equality, and returns.
\<close>

definition bpf_laws :: "(bpfInstruction list \<Rightarrow> (nat \<Rightarrow> 32 word) \<Rightarrow> nat \<Rightarrow> 32 word \<Rightarrow> 32 word option) \<Rightarrow> bool" where
  "bpf_laws exec \<longleftrightarrow> (\<forall>p d pc a. pc < length p \<longrightarrow>
     (bpf_code (p ! pc) = 0x20 \<longrightarrow> exec p d pc a = exec p d (pc + 1) (d (unat (bpf_k (p ! pc))))) \<and>
     (bpf_code (p ! pc) = 0x15 \<longrightarrow>
        exec p d pc a = exec p d (pc + 1 + unat (if a = bpf_k (p ! pc) then bpf_jt (p ! pc) else bpf_jf (p ! pc))) a) \<and>
     (bpf_code (p ! pc) = 0x06 \<longrightarrow> exec p d pc a = Some (bpf_k (p ! pc))))"

section \<open>What the filter decides\<close>

text \<open>The program in closed form: offsets beyond 255 have lost their upper bits.\<close>

lemma patch_jumps:
  "foldl (\<lambda>p idx. p[idx := (p ! idx)\<lparr>bpf_jt := f idx\<rparr>]) ins [first..<first + n] =
    map (\<lambda>idx. if first \<le> idx \<and> idx < first + n then (ins ! idx)\<lparr>bpf_jt := f idx\<rparr> else ins ! idx) [0..<length ins]"
proof (induction n)
  case 0
  show ?case by (rule nth_equalityI) auto
next
  case (Suc n)
  show ?case
  proof (rule nth_equalityI)
    fix i
    assume "i < length (foldl (\<lambda>p idx. p[idx := (p ! idx)\<lparr>bpf_jt := f idx\<rparr>]) ins [first..<first + Suc n])"
    then have i: "i < length ins" by (simp add: Suc)
    show "foldl (\<lambda>p idx. p[idx := (p ! idx)\<lparr>bpf_jt := f idx\<rparr>]) ins [first..<first + Suc n] ! i =
        map (\<lambda>idx. if first \<le> idx \<and> idx < first + Suc n then (ins ! idx)\<lparr>bpf_jt := f idx\<rparr> else ins ! idx) [0..<length ins] ! i"
      using i by (cases "i = first + n") (auto simp: Suc)
  qed (simp add: Suc)
qed

lemma byte_of_nat: "unat (of_nat k :: 8 word) = k mod 256"
  by (simp add: unat_of_nat)

lemma seccomp_length [simp]: "length (seccomp_insns arch order) = length order + 5"
proof -
  have "length (foldl (\<lambda>p idx. p[idx := f p idx]) ins idxs) = length ins" for f :: "bpfInstruction list \<Rightarrow> nat \<Rightarrow> bpfInstruction" and ins idxs
    by (induction idxs arbitrary: ins) simp_all
  then show ?thesis by (simp add: seccomp_insns_def Let_def)
qed

lemma seccomp_nth:
  "seccomp_insns arch order ! 0 = insn 0x20 4"
  "seccomp_insns arch order ! 1 = (insn 0x15 arch)\<lparr>bpf_jf := of_nat (length order + 2)\<rparr>"
  "seccomp_insns arch order ! 2 = insn 0x20 0"
  "i < length order \<Longrightarrow> seccomp_insns arch order ! (3 + i) = (insn 0x15 (order ! i))\<lparr>bpf_jt := of_nat (length order - i)\<rparr>"
  "seccomp_insns arch order ! (3 + length order) = insn 0x06 bpfRetKillProcess"
  "seccomp_insns arch order ! (4 + length order) = insn 0x06 bpfRetAllow"
proof -
  let ?n = "length order"
  define ins where "ins = [insn 0x20 4, insn 0x15 arch, insn 0x20 0] @ map (insn 0x15) order @ [insn 0x06 bpfRetKillProcess, insn 0x06 bpfRetAllow]"
  have len: "length ins = ?n + 5" by (simp add: ins_def)
  have "seccomp_insns arch order = (let p = foldl (\<lambda>p idx. p[idx := (p ! idx)\<lparr>bpf_jt := of_nat (?n + 4 - idx - 1)\<rparr>]) ins [3..<3 + ?n]
      in p[1 := (p ! 1)\<lparr>bpf_jf := of_nat (?n + 4 - 1 - 1)\<rparr>])"
    by (simp add: seccomp_insns_def Let_def ins_def numeral_eq_Suc del: upt_Suc foldl_append foldl_Cons)
  then have s: "seccomp_insns arch order = (let p = map (\<lambda>idx. if 3 \<le> idx \<and> idx < 3 + ?n then (ins ! idx)\<lparr>bpf_jt := of_nat (?n + 4 - idx - 1)\<rparr> else ins ! idx) [0..<?n + 5]
      in p[1 := (p ! 1)\<lparr>bpf_jf := of_nat (?n + 2)\<rparr>])"
    by (simp only: patch_jumps len) simp
  have at: "seccomp_insns arch order ! j = (if j = 1 then (ins ! 1)\<lparr>bpf_jf := of_nat (?n + 2)\<rparr>
      else if 3 \<le> j \<and> j < 3 + ?n then (ins ! j)\<lparr>bpf_jt := of_nat (?n + 4 - j - 1)\<rparr> else ins ! j)" if "j < ?n + 5" for j
    using that by (simp add: s Let_def nth_list_update del: upt_Suc)
  have i: "ins ! 0 = insn 0x20 4" "ins ! 1 = insn 0x15 arch" "ins ! 2 = insn 0x20 0" "ins ! (3 + ?n) = insn 0x06 bpfRetKillProcess"
    "ins ! (4 + ?n) = insn 0x06 bpfRetAllow" by (simp_all add: ins_def nth_append)
  show "seccomp_insns arch order ! 0 = insn 0x20 4" "seccomp_insns arch order ! 1 = (insn 0x15 arch)\<lparr>bpf_jf := of_nat (?n + 2)\<rparr>"
    "seccomp_insns arch order ! 2 = insn 0x20 0" "seccomp_insns arch order ! (3 + ?n) = insn 0x06 bpfRetKillProcess"
    "seccomp_insns arch order ! (4 + ?n) = insn 0x06 bpfRetAllow"
    using at [of 0] at [of 1] at [of 2] at [of "3 + ?n"] at [of "4 + ?n"] i by simp_all
  show "seccomp_insns arch order ! (3 + j) = (insn 0x15 (order ! j))\<lparr>bpf_jt := of_nat (?n - j)\<rparr>" if "j < ?n" for j
    using at [of "3 + j"] that by (simp add: ins_def nth_append)
qed

lemma bpf_ld: "bpf_laws exec \<Longrightarrow> pc < length p \<Longrightarrow> p ! pc = insn 0x20 k \<Longrightarrow> exec p d pc a = exec p d (pc + 1) (d (unat k))"
  by (simp add: bpf_laws_def insn_def)

lemma bpf_jeq:
  assumes "bpf_laws exec" and "pc < length p" and "bpf_code (p ! pc) = 0x15"
  shows "exec p d pc a = exec p d (pc + 1 + unat (if a = bpf_k (p ! pc) then bpf_jt (p ! pc) else bpf_jf (p ! pc))) a"
  using assms unfolding bpf_laws_def by blast

lemma bpf_ret: "bpf_laws exec \<Longrightarrow> pc < length p \<Longrightarrow> p ! pc = insn 0x06 k \<Longrightarrow> exec p d pc a = Some k"
  by (simp add: bpf_laws_def insn_def)

lemma at_ends:
  assumes "bpf_laws exec"
  shows "exec (seccomp_insns arch order) d (3 + length order) a = Some bpfRetKillProcess"
    "exec (seccomp_insns arch order) d (4 + length order) a = Some bpfRetAllow"
  using bpf_ret [OF assms _ seccomp_nth(5)] bpf_ret [OF assms _ seccomp_nth(6)] by simp_all

lemma at_check:
  assumes "bpf_laws exec" and "j < length order"
  shows "exec (seccomp_insns arch order) d (3 + j) a =
    exec (seccomp_insns arch order) d (if a = order ! j then 4 + j + (length order - j) mod 256 else 3 + Suc j) a"
proof -
  have "bpf_code (seccomp_insns arch order ! (3 + j)) = 0x15" using seccomp_nth(4) [OF assms(2)] by (simp add: insn_def)
  from bpf_jeq [OF assms(1) _ this, of d a] show ?thesis
    unfolding seccomp_nth(4) [OF assms(2)] using assms(2) byte_of_nat [of "length order - j"] by (simp add: insn_def ac_simps del: of_nat_diff)
qed

text \<open>From a check whose offset fits in a byte, the rest of the list is searched correctly.\<close>

lemma check_run:
  assumes "bpf_laws exec" and "j \<le> length order" and "length order \<le> j + 255"
  shows "exec (seccomp_insns arch order) d (3 + j) a = Some (if a \<in> set (drop j order) then bpfRetAllow else bpfRetKillProcess)"
  using assms(2,3)
proof (induction "length order - j" arbitrary: j)
  case 0
  then have "j = length order" by simp
  then show ?case using at_ends(1) [OF assms(1)] by simp
next
  case (Suc k)
  then have j: "j < length order" by linarith
  have d: "drop j order = order ! j # drop (Suc j) order" using j by (simp add: Cons_nth_drop_Suc)
  show ?case
  proof (cases "a = order ! j")
    case True
    have "4 + j + (length order - j) mod 256 = 4 + length order" using Suc.prems j by simp
    then show ?thesis using at_check [OF assms(1) j, of arch d a] True at_ends(2) [OF assms(1)] by (simp only: d if_True) simp
  next
    case False
    then have "exec (seccomp_insns arch order) d (3 + j) a = exec (seccomp_insns arch order) d (3 + Suc j) a"
      using at_check [OF assms(1) j, of arch d a] by (simp only: if_False)
    then show ?thesis using Suc.hyps(1) [of "Suc j"] Suc.hyps(2) Suc.prems j False by (simp only: d) simp
  qed
qed

text \<open>The checks before it jump into the middle of the list, behind their own number.\<close>

lemma early_checks:
  assumes "bpf_laws exec" and "distinct order" and "length order \<le> 510" and "j \<le> length order - 255"
  shows "exec (seccomp_insns arch order) d (3 + j) a = Some (if a \<in> set (drop (length order - 255) order) then bpfRetAllow else bpfRetKillProcess)"
  using assms(4)
proof (induction "length order - 255 - j" arbitrary: j)
  case 0
  then have "j = length order - 255" by simp
  then show ?case using check_run [OF assms(1), of j order] by simp
next
  case (Suc k)
  let ?n = "length order" and ?p = "seccomp_insns arch order"
  have j: "j < ?n - 255" "j < ?n" using Suc.hyps(2) by simp_all
  show ?case
  proof (cases "a = order ! j")
    case True
    have "(?n - j) mod 256 = ?n - j - 256" using j assms(3) by (simp add: mod_if)
    then have "4 + j + (?n - j) mod 256 = 3 + (?n - 255)" using j by simp
    then show ?thesis using at_check [OF assms(1) j(2), of arch d a] True check_run [OF assms(1), of "?n - 255" order arch d a]
      by (simp only: if_True) simp
  next
    case False
    then have "exec ?p d (3 + j) a = exec ?p d (3 + Suc j) a" using at_check [OF assms(1) j(2), of arch d a] by (simp only: if_False)
    then show ?thesis using Suc.hyps(1) [of "Suc j"] Suc.hyps(2) j by simp
  qed
qed

lemma filter_start:
  assumes "bpf_laws exec"
  shows "exec (seccomp_insns arch order) d 0 a0 =
    (if d 4 = arch then exec (seccomp_insns arch order) d 3 (d 0) else exec (seccomp_insns arch order) d (2 + (length order + 2) mod 256) (d 4))"
proof -
  let ?p = "seccomp_insns arch order"
  have "exec ?p d 0 a0 = exec ?p d (0 + 1) (d (unat (4 :: 32 word)))" by (rule bpf_ld [OF assms _ seccomp_nth(1)]) simp
  then have 0: "exec ?p d 0 a0 = exec ?p d 1 (d 4)" by simp
  have c: "bpf_code (?p ! 1) = 0x15" unfolding seccomp_nth(2) by (simp add: insn_def)
  have 1: "exec ?p d 1 (d 4) = exec ?p d (2 + (if d 4 = arch then 0 else (length order + 2) mod 256)) (d 4)"
    using bpf_jeq [OF assms _ c, of d "d 4"] byte_of_nat [of "length order + 2"] unfolding seccomp_nth(2) by (simp add: insn_def)
  have 2: "exec ?p d 2 a = exec ?p d 3 (d 0)" for a
    using bpf_ld [OF assms _ seccomp_nth(3), of arch order d a] by simp
  show ?thesis unfolding 0 1 using 2 by (cases "d 4 = arch") (simp_all only: refl if_True if_False add_0_right)
qed

lemma filter_run:
  assumes "bpf_laws exec" and "distinct order" and "length order \<le> 509"
  shows "exec (seccomp_insns arch order) d 0 a0 = Some
    (if d 4 = arch then (if d 0 \<in> set (drop (length order - 255) order) then bpfRetAllow else bpfRetKillProcess)
     else if length order \<le> 253 then bpfRetAllow
     else if (if length order = 254 then d 0 else d 4) \<in> set (drop (length order - 255) order) then bpfRetAllow else bpfRetKillProcess)"
proof -
  let ?n = "length order" and ?p = "seccomp_insns arch order"
  have all: "exec ?p d 3 a = Some (if a \<in> set (drop (?n - 255) order) then bpfRetAllow else bpfRetKillProcess)" for a
    using early_checks [OF assms(1,2), of 0 arch d a] assms(3) by simp
  show ?thesis
  proof (cases "d 4 = arch")
    case True
    then show ?thesis using filter_start [OF assms(1), of arch order d a0] all by simp
  next
    case False
    then have st: "exec ?p d 0 a0 = exec ?p d (2 + (?n + 2) mod 256) (d 4)" using filter_start [OF assms(1), of arch order d a0] by simp
    consider "?n \<le> 253" | "?n = 254" | "255 \<le> ?n" by linarith
    then show ?thesis
    proof cases
      case 1
      then have "2 + (?n + 2) mod 256 = 4 + ?n" by simp
      then have "exec ?p d 0 a0 = Some bpfRetAllow" using st at_ends(2) [OF assms(1), of arch order d "d 4"] by (simp only:)
      then show ?thesis using False 1 by simp
    next
      case 2
      then have "exec ?p d (2 + (?n + 2) mod 256) (d 4) = exec ?p d 3 (d 0)"
        using bpf_ld [OF assms(1) _ seccomp_nth(3), of arch order d "d 4"] by simp
      then show ?thesis using st False 2 all by simp
    next
      case 3
      then have "(?n + 2) mod 256 = ?n + 2 - 256" using assms(3) by (simp add: mod_if)
      then have "2 + (?n + 2) mod 256 = 3 + (?n - 255)" using 3 by simp
      then show ?thesis using st False 3 check_run [OF assms(1), of "?n - 255" order arch d "d 4"] by simp
    qed
  qed
qed

text \<open>
  C13: The decision of the filter. A call on the expected architecture is allowed if its number is one of the
  last 255 that were ranged over: with more numbers than that, the first ones are killed although they
  are in the list. With more than 253 numbers, calls of other architectures are not let through either.
\<close>

theorem filter_decides:
  assumes "bpf_laws exec" and "distinct order" and "length order \<le> 509"
  shows "exec (seccomp_insns arch order) d 0 a0 = Some
    (if d 4 = arch then (if d 0 \<in> set (drop (length order - 255) order) then bpfRetAllow else bpfRetKillProcess)
     else if length order \<le> 253 then bpfRetAllow
     else if (if length order = 254 then d 0 else d 4) \<in> set (drop (length order - 255) order) then bpfRetAllow else bpfRetKillProcess)"
  by (rule filter_run [OF assms])

text \<open>A machine with the three instructions; a program that runs off its end has no result.\<close>

function bpf_run :: "bpfInstruction list \<Rightarrow> (nat \<Rightarrow> 32 word) \<Rightarrow> nat \<Rightarrow> 32 word \<Rightarrow> 32 word option" where
  "bpf_run p d pc a =
     (if length p \<le> pc then None
      else let i = p ! pc in
        if bpf_code i = 0x20 then bpf_run p d (pc + 1) (d (unat (bpf_k i)))
        else if bpf_code i = 0x15 then bpf_run p d (pc + 1 + unat (if a = bpf_k i then bpf_jt i else bpf_jf i)) a
        else if bpf_code i = 0x06 then Some (bpf_k i) else None)"
  by pat_completeness auto
termination by (relation "measure (\<lambda>(p, d, pc, a). length p - pc)") auto

declare bpf_run.simps [simp del]

lemma bpf_run_laws: "bpf_laws bpf_run"
  unfolding bpf_laws_def by (subst bpf_run.simps, intro allI impI) (simp add: bpf_run.simps [of p d pc a for p d pc a] Let_def)

definition demo_call :: "32 word \<Rightarrow> 32 word \<Rightarrow> nat \<Rightarrow> 32 word" where
  "demo_call nr arch off = (if off = 0 then nr else if off = 4 then arch else 0)"

theorem filter_decides_witness:
  "bpf_run (seccomp_insns 7 [0, 1, 60]) (demo_call 59 7) 0 0 = Some
    (if demo_call 59 7 4 = 7 then (if demo_call 59 7 0 \<in> set (drop (length [0, 1, 60 :: 32 word] - 255) [0, 1, 60]) then bpfRetAllow else bpfRetKillProcess)
     else if length [0, 1, 60 :: 32 word] \<le> 253 then bpfRetAllow
     else if (if length [0, 1, 60 :: 32 word] = 254 then demo_call 59 7 0 else demo_call 59 7 4) \<in> set (drop (length [0, 1, 60 :: 32 word] - 255) [0, 1, 60])
       then bpfRetAllow else bpfRetKillProcess)"
  by (rule filter_decides [OF bpf_run_laws]) simp_all

section \<open>The list as it is\<close>

lemma syscall_count: "length syscall_names = 269"
  by (simp add: syscall_names_def)

lemma allowed_order:
  assumes "distinct (allowedSyscalls sysno)" and "distinct order" and "set order = set (allowedSyscalls sysno)"
  shows "length order = 269"
proof -
  have "length order = length (allowedSyscalls sysno)" using assms by (metis distinct_card)
  then show ?thesis by (simp add: allowedSyscalls_def syscall_count)
qed

text \<open>
  The list has 269 numbers: whatever the order, the filter kills the first fourteen of them, and it
  kills calls of other architectures, which the comment says are all allowed.
\<close>

lemma allowed_calls_killed:
  assumes "bpf_laws exec" and "distinct (allowedSyscalls sysno)"
    and "distinct order" and "set order = set (allowedSyscalls sysno)"
  shows "\<exists>nr \<in> set (allowedSyscalls sysno). \<forall>d a. d 4 = arch \<longrightarrow> d 0 = nr \<longrightarrow> exec (seccomp_insns arch order) d 0 a = Some bpfRetKillProcess"
    and "d 4 \<noteq> arch \<Longrightarrow> d 4 \<notin> set (allowedSyscalls sysno) \<Longrightarrow> exec (seccomp_insns arch order) d 0 a = Some bpfRetKillProcess"
proof -
  note n = allowed_order [OF assms(2-4)]
  then have ne: "order \<noteq> []" by auto
  have "hd order \<notin> set (drop (length order - 255) order)"
  proof
    assume "hd order \<in> set (drop (length order - 255) order)"
    then obtain i where "i < length (drop (length order - 255) order)" "hd order = drop (length order - 255) order ! i" by (metis in_set_conv_nth)
    then have "order ! 0 = order ! (14 + i)" "14 + i < length order" using n ne by (simp_all add: hd_conv_nth)
    then show False using assms(3) ne nth_eq_iff_index_eq [of order 0 "14 + i"] by simp
  qed
  moreover have "hd order \<in> set (allowedSyscalls sysno)" using ne assms(4) by (metis list.set_sel(1))
  ultimately show "\<exists>nr \<in> set (allowedSyscalls sysno). \<forall>d a. d 4 = arch \<longrightarrow> d 0 = nr \<longrightarrow> exec (seccomp_insns arch order) d 0 a = Some bpfRetKillProcess"
    using filter_run [OF assms(1,3), of arch] n by (intro bexI [of _ "hd order"]) auto
  show "exec (seccomp_insns arch order) d 0 a = Some bpfRetKillProcess" if "d 4 \<noteq> arch" "d 4 \<notin> set (allowedSyscalls sysno)"
    using filter_run [OF assms(1,3), of arch d a] that n assms(4) set_drop_subset [of 14 order] by auto
qed

text \<open>A call that the header of the file lists as blocked is in the list.\<close>

lemma vm_readv_allowed: "''PROCESS_VM_READV'' \<in> set syscall_names"
  by (simp add: syscall_names_def)

lemma filter_size:
  assumes "buildSeccompFilter arch order = Some bs" and "length order < 65531"
  shows "length bs = 8 * (length order + 5) \<and> unat (seccompFilterSize bs) = length order + 5"
proof -
  have "length (concat (map encode_insn xs)) = 8 * length xs" for xs by (induction xs) (simp_all add: encode_insn_def)
  then have "length bs = 8 * (length order + 5)" using assms(1) by (auto simp: buildSeccompFilter_def Let_def split: if_splits)
  moreover from this have "length bs div 8 = length order + 5" by simp
  ultimately show ?thesis using assms(2) by (simp add: seccompFilterSize_def unat_of_nat del: of_nat_add)
qed

section \<open>Limits of a process\<close>

datatype RlimitResource = RLIMIT_AS | RLIMIT_CPU | RLIMIT_NOFILE | RLIMIT_NPROC | RLIMIT_FSIZE

text \<open>Soft and hard limit are the same number.\<close>

definition rlimit_entries :: "ResourceLimits \<Rightarrow> (RlimitResource \<times> uint64) list" where
  "rlimit_entries lims =
     (let lims = ResourceLimits_Filled lims
      in [(RLIMIT_AS, word_of_int (MaxMemoryBytes lims)), (RLIMIT_CPU, word_of_int (MaxCPUSecs lims)),
          (RLIMIT_NOFILE, word_of_int (MaxOpenFiles lims)), (RLIMIT_NPROC, word_of_int (MaxProcs lims)),
          (RLIMIT_FSIZE, word_of_int (MaxFileSizeBytes lims))])"

text \<open>A limit that cannot be set is passed over: \<open>prlimit\<close> says which are set.\<close>

definition applyRlimitsToProcess :: "(RlimitResource \<Rightarrow> bool) \<Rightarrow> ResourceLimits \<Rightarrow> (RlimitResource \<times> uint64) list" where
  "applyRlimitsToProcess prlimit lims = filter (\<lambda>e. prlimit (fst e)) (rlimit_entries lims)"

definition cgroupDirForPID :: "nat \<Rightarrow> string" where
  "cgroupDirForPID pid = filepath_Join ''/sys/fs/cgroup/openfabric'' (''task-'' @ show_nat pid)"

text \<open>The files of the control group; \<open>None\<close> is no directory. \<open>wr\<close> says which files can be written.\<close>

definition write_file :: "(string \<Rightarrow> bool) \<Rightarrow> string \<Rightarrow> string \<Rightarrow> (string \<rightharpoonup> string) \<Rightarrow> (string \<rightharpoonup> string)" where
  "write_file wr f v fs = (if wr f then fs(f \<mapsto> v) else fs)"

definition writeCgroup :: "bool \<Rightarrow> (string \<Rightarrow> bool) \<Rightarrow> nat \<Rightarrow> ResourceLimits \<Rightarrow> (string \<rightharpoonup> string) option" where
  "writeCgroup mkdir wr pid lims =
     (let lims = ResourceLimits_Filled lims
      in if \<not> mkdir then None
         else if \<not> wr ''cgroup.procs'' then None
         else Some (write_file wr ''pids.max'' (show_int (MaxProcs lims)) (write_file wr ''cpu.max'' ''200000 100000''
           (write_file wr ''memory.swap.max'' ''0'' (write_file wr ''memory.max'' (show_int (MaxMemoryBytes lims))
             (write_file wr ''cgroup.procs'' (show_nat pid) Map.empty))))))"

text \<open>
  If nothing fails, both mechanisms cap memory and the number of processes by the same positive numbers,
  and no limit is left out.
\<close>

lemma limits_agree:
  assumes "MaxMemoryBytes lims < 2 ^ 63" and "MaxProcs lims < 2 ^ 63"
  shows "\<exists>m n fs. applyRlimitsToProcess (\<lambda>r. True) lims = rlimit_entries lims \<and> 0 < m \<and> 0 < n \<and>
    (RLIMIT_AS, word_of_int m) \<in> set (rlimit_entries lims) \<and> (RLIMIT_NPROC, word_of_int n) \<in> set (rlimit_entries lims) \<and>
    uint (word_of_int m :: uint64) = m \<and> uint (word_of_int n :: uint64) = n \<and>
    writeCgroup True (\<lambda>f. True) pid lims = Some fs \<and> fs ''memory.max'' = Some (show_int m) \<and> fs ''pids.max'' = Some (show_int n) \<and>
    fs ''memory.swap.max'' = Some ''0''"
proof -
  let ?l = "ResourceLimits_Filled lims"
  have p: "0 < MaxMemoryBytes ?l" "0 < MaxProcs ?l" using Filled_positive [of lims] by (simp_all add: limits_positive_def)
  have "MaxMemoryBytes ?l < 2 ^ 63" "MaxProcs ?l < 2 ^ 63"
    using assms by (simp_all add: ResourceLimits_Filled_def Let_def DefaultResourceLimits_def)
  then have "uint (word_of_int (MaxMemoryBytes ?l) :: uint64) = MaxMemoryBytes ?l" "uint (word_of_int (MaxProcs ?l) :: uint64) = MaxProcs ?l"
    using p by (simp_all add: uint_word_of_int)
  then show ?thesis using p
    by (intro exI [of _ "MaxMemoryBytes ?l"] exI [of _ "MaxProcs ?l"])
      (simp add: applyRlimitsToProcess_def rlimit_entries_def writeCgroup_def write_file_def Let_def)
qed

text \<open>A task without a timeout gets a limit of no seconds of processor time, where zero stands for no limit.\<close>

lemma no_timeout_no_cpu: "MaxCPUSecs lims = 0 \<Longrightarrow> (RLIMIT_CPU, 0) \<in> set (rlimit_entries lims)"
  by (simp add: rlimit_entries_def Let_def Filled_CPU)

text \<open>If the group cannot limit the memory the task runs in it all the same.\<close>

lemma cgroup_unlimited: "\<exists>fs. writeCgroup True (\<lambda>f. f = ''cgroup.procs'') pid lims = Some fs \<and> fs ''memory.max'' = None"
  by (simp add: writeCgroup_def write_file_def Let_def)

section \<open>Windows\<close>

definition windows_commands :: "string \<rightharpoonup> string" where
  "windows_commands = [''date'' \<mapsto> ''Get-Date'', ''time'' \<mapsto> ''Get-Date -Format T'', ''ls'' \<mapsto> ''Get-ChildItem'', ''pwd'' \<mapsto> ''Get-Location'',
     ''whoami'' \<mapsto> ''whoami'', ''cat'' \<mapsto> ''Get-Content'', ''echo'' \<mapsto> ''echo'']"

definition normalizeWindowsCommand :: "string \<Rightarrow> string" where
  "normalizeWindowsCommand cmd =
     (case windows_commands (dropWhile (\<lambda>c. c = CHR '' '' \<or> c = CHR 0x09) cmd) of Some r \<Rightarrow> r | None \<Rightarrow> cmd)"

text \<open>\<open>pwsh\<close> is the path of PowerShell, if there is one.\<close>

definition shellCommand :: "string option \<Rightarrow> string \<Rightarrow> string \<times> string list" where
  "shellCommand pwsh cmd =
     (let cmd = normalizeWindowsCommand cmd
      in case pwsh of Some p \<Rightarrow> (p, [''-NoProfile'', ''-NonInteractive'', ''-Command'', cmd]) | None \<Rightarrow> (''cmd.exe'', [''/C'', cmd]))"

text \<open>Whether \<open>taskkill\<close>, which ends with this code, counts as a success.\<close>

definition killProcessTree :: "int option \<Rightarrow> bool" where
  "killProcessTree code = (case code of None \<Rightarrow> False | Some c \<Rightarrow> c = 0 \<or> c = 128)"

text \<open>Without PowerShell the replacement is given to a shell that does not know it.\<close>

lemma date_without_powershell: "shellCommand None ''date'' = (''cmd.exe'', [''/C'', ''Get-Date''])"
  by (simp add: shellCommand_def normalizeWindowsCommand_def windows_commands_def)

text \<open>A command with arguments is never replaced.\<close>

lemma arguments_kept: "CHR '' '' \<in> set (dropWhile (\<lambda>c. c = CHR '' '' \<or> c = CHR 0x09) cmd) \<Longrightarrow> normalizeWindowsCommand cmd = cmd"
  by (auto simp: normalizeWindowsCommand_def windows_commands_def split: option.splits if_splits)

end
