(* ===== verification/Spec2Isabelle.thy ===== *)
theory Spec2Isabelle
  imports Sched_Scorer Sched_Admission Sched_Priority Sched_Sandbox Sched_Run Cluster_Join Policy_Engine Storage_CRDT Flow_Runs Gpu_Orchestrator Sdn_Versions Sdn_Dataplane Net_Router Retry Health Api_Settings Api_Http Llm_Chat Llm_Sessions Audit_Log Social_Lend Tunnel_Relay Agents_Swarm Brain_Index Mcp_Gateway Wol_Devices Pulse_Rules Pipeline Sched_Confine
begin

text \<open>
  OpenFabric joins the devices of a household or a small office to a cluster that runs commands,
  flows and language models. Every device runs one agent (\<open>internal/agent\<close>); the agents find each
  other, trust each other with a shared secret, exchange heartbeats, files, settings and tasks over
  libp2p, and each of them serves an HTTP API and a dashboard. This development models the part of
  the agent that decides: its state, its operations and their errors, as written in Go. What talks to
  the outside (libp2p, Ollama, drivers, the file system, sockets) is an argument of the definitions.

  How the parts depend on each other. A task submitted through the API is checked against the
  policies, classified, admitted, placed on a node by the scorer with the breakers, the outcomes and
  the affinity of the nodes, queued by priority, checked by the sandbox, run, and accounted; the
  write-ahead log brackets it. The log also brackets the writes of the shared file store and the
  runs of flows, and is replayed at start-up. The registry of files and the settings are replicated
  by the same rule, the last writer wins. The coordinator of the cluster is the best node that is
  online, and it alone accepts new nodes and distributes the rules of the network.

  Conventions. A Go struct is a record whose fields carry a prefix, an enumeration a datatype, a map
  a partial function; the order in which Go ranges over a map is an argument constrained by
  \<open>map_order\<close>, so a theorem holds for every order. Integers are \<open>int\<close>, wrapped by \<open>i64\<close> where an
  overflow matters; times and durations count nanoseconds, and the reading of the clock is an
  argument. Floating point numbers are real numbers; rounding is not modelled. Strings are strings of
  bytes. An operation that can fail returns a sum or an option; a call that may never return, because
  of a lock, is a value of the type \<open>run\<close>. Operations of several goroutines are the steps of a
  relation, and invariants hold in every interleaving.

  The theories.

    \<^item> \<open>Prelude\<close>, \<open>Go_Strings\<close>: maps and their orders, sorted slices, loops that search a maximum; the
      functions of the packages \<open>strings\<close>, \<open>strconv\<close> and \<open>path/filepath\<close> that the agent uses.
    \<^item> \<open>Container_Heap\<close>: \<open>container/heap\<close> over the interface the client implements, the locale
      \<open>heap_interface\<close>; \<open>Sched_Priority\<close> interprets it for the queue of tasks.
    \<^item> \<open>Last_Writer\<close>: the locale \<open>last_writer\<close>, the contract of a register in which the last writer
      wins; \<open>Storage_CRDT\<close> interprets it for the entry of a path and \<open>Api_Settings\<close> for the settings.
    \<^item> \<open>Sched_Classifier\<close>, \<open>Sched_Scorer\<close>, \<open>Sched_Admission\<close>, \<open>Sched_Priority\<close>, \<open>Sched_Sandbox\<close>,
      \<open>Sched_Breaker\<close>, \<open>Sched_Outcome\<close>: the files of \<open>internal/scheduler\<close> of these names: what a task
      needs, which node fits best, whether it may start, in which order, whether the command is
      allowed, and what is remembered of nodes.
    \<^item> \<open>Sched_Core\<close>, \<open>Sched_Submit\<close>, \<open>Sched_Run\<close>: \<open>scheduler.go\<close>. The lock of the scheduler is part of the
      state, so that a call that locks it twice is a call that never returns; a goroutine is its
      position between the sections it runs under the lock.
    \<^item> \<open>Wal\<close>: \<open>internal/reliability/wal\<close> and \<open>recoverWAL\<close> of the agent. The file is a list of lines, the
      last of which may be torn; the abstract log is the list of entries that are neither committed
      nor aborted.
    \<^item> \<open>Cluster\<close>, \<open>Cluster_Join\<close>: \<open>internal/cluster\<close> and the HTTP join: nodes, trust, the election of
      the coordinator, health checks, join codes, the handshake and its messages.
    \<^item> \<open>Policy_Engine\<close>: \<open>internal/policy\<close>.
    \<^item> \<open>Storage_CRDT\<close>: \<open>internal/storage\<close>.
    \<^item> \<open>Flow_Dag\<close>, \<open>Flow_Engine\<close>, \<open>Flow_Runs\<close>: \<open>internal/flow\<close>: the check of a flow, the execution of a
      run as a step relation, and the runs that are stored, resumed and pruned.
    \<^item> \<open>Gpu_Budget\<close>, \<open>Gpu_Orchestrator\<close>: \<open>internal/gpu\<close>: reservations of memory, preemption, recovery,
      temperatures, the environment of subprocesses, and the choice of a device.
    \<^item> \<open>Sdn_Topology\<close>, \<open>Sdn_Controller\<close>, \<open>Sdn_Versions\<close>, \<open>Sdn_Dataplane\<close>: \<open>internal/sdn\<close>: the topology a
      user writes, the rules each node gets, their distribution and history, and the texts given to
      nft, tc, pf and netsh.
    \<^item> \<open>Net_Router\<close>: \<open>internal/network/router.go\<close>: routes through the mesh and relayed streams.
    \<^item> \<open>Retry\<close>, \<open>Health\<close>: the other packages of \<open>internal/reliability\<close>: classes of errors, retries,
      idempotency, restarts of goroutines, the life of a component and the registry of health checks.
    \<^item> \<open>Api_Settings\<close>, \<open>Api_Http\<close>: the settings and their synchronisation; who may reach the API.
    \<^item> \<open>Llm_Shards\<close>, \<open>Llm_Distrib\<close>, \<open>Llm_Chat\<close>, \<open>Llm_Sessions\<close>: \<open>internal/llm\<close>: the dynamic program that
      splits a model over nodes, the frames between coordinator and worker, the rounds of a chat with
      tool calls, and the files of stored chats.
    \<^item> \<open>Audit_Log\<close>, \<open>Sched_Worker\<close>, \<open>Social_Lend\<close>: \<open>internal/shield\<close>, the worker that starts commands, and
      \<open>internal/social\<close>, which lets a guest run them.
    \<^item> \<open>Sched_Confine\<close>: the program of the system call filter, read by any machine that follows the rules of
      its three instructions, the limits and control group of a process, and the shell of Windows.
    \<^item> \<open>Tunnel_Pin\<close>, \<open>Tunnel_Relay\<close>: \<open>internal/tunnel\<close>: the PIN in front of the dashboard, whose submissions
      run in parallel, the proxy, the registry of a relay, and switching the tunnel on and off.
    \<^item> \<open>Agents_Tools\<close>, \<open>Agents_Run\<close>, \<open>Agents_Swarm\<close>: \<open>internal/agents\<close>: the tools a model may call, the loop
      that runs an agent, split at its calls of the model and of tools, and the stream of events of a
      sub-agent. The locale \<open>bounded_run\<close> bounds how often a step can happen by a number that it lowers;
      it is interpreted for the turns of a run and for its questions to the model.
    \<^item> \<open>Memory_Store\<close>: \<open>internal/memory\<close>: the memories, their sealed file, the search by similarity, what is
      put in front of a chat and what is extracted from one.
    \<^item> \<open>Brain_Index\<close>: \<open>internal/brain\<close>: chunks, the vector store, the synchronisation of the index with the
      folders and the search on all nodes. The locale \<open>keyed_index\<close> states what one indexed file changes;
      it is interpreted for \<open>IndexFile\<close> and gives the synchronisation of many.
    \<^item> \<open>Mcp_Gateway\<close>: \<open>internal/mcp\<close>: the configurations of the tool servers, the file of their secrets, the
      life of their processes and the matching of responses to calls.
    \<^item> \<open>Wol_Sweep\<close>, \<open>Wol_Devices\<close>: \<open>internal/wol\<close>: the addresses a scan visits, counted byte by byte, the
      registry of devices, the magic packet, and waking a device when memory runs short.
    \<^item> \<open>Pulse_Rules\<close>: \<open>internal/pulse\<close>: the rules that look at the cluster and the insights they leave.
    \<^item> \<open>Pipeline\<close>: \<open>internal/pipeline\<close>: the three goroutines from speech to an image as a step relation, and
      the frames of the audio.

  What the lemmas show. In each theory a group of lemmas unfolds the operations branch by branch, a
  second one gives the invariant of the state and that every operation keeps it, and the theorems
  rest on both. The theorems that carry a number are the properties: type and state invariants of
  the scheduler, the queue, the breakers, the reservations, the settings and the components; the
  refinement of the write-ahead log and of the audit log; the optimality of the plan of shards;
  convergence of the replicated registers; the equivalence of the
  depth-first check of flows with acyclicity and of the search of routes with shortest walks;
  termination of flow runs and of the search; round trips of tokens and bandwidths; who can join,
  reach the API or run a command; and the places where the code does not do what it says, each shown
  by a run that does it.

  Bounds and fuel. The depth-first check of \<open>Flow_Dag\<close> takes fuel, the number of steps plus one;
  \<open>validateDependencies_fuel\<close> shows that it is never used up. The search of routes, the restart of
  goroutines and the path of a plan are partial functions whose results are shown to exist. A loop over a slice is a
  structural recursion. All other functions are total.

  Not modelled. Input and output: sockets, libp2p streams other than their messages, processes,
  devices, the file system beyond the sets of files and lines the properties need, HTML and JSON
  texts (a value that is encoded and decoded again is the value). Cryptography is a parameter with
  the laws the code relies on. Namespaces, job objects, drivers and measurements
  are glue around system calls.
\<close>

end
